(* ===== verification/Prelude.thy ===== *)
theory Prelude
  imports Main "HOL-Library.Multiset"
begin

text \<open>
  What every component of the development shares: the exceptions the modelled code raises, the
  programs that read and write a state and may raise (Python methods that mutate objects), the
  rules that show that a program keeps an invariant, and Python's list operations.

  A program over states \<open>'s\<close> maps a state to a result and a new state.  The result is
  \<open>Inl e\<close> when the exception \<open>e\<close> was raised and \<open>Inr x\<close> when \<open>x\<close> was returned; the state is
  kept in both cases, since an exception does not undo what the method already did.
\<close>

section \<open>Exceptions\<close>

text \<open>
  Python's own exceptions and those the modelled classes declare.  A message is kept only where
  code looks at it; the classes are what the handlers of the source tell apart.
\<close>

datatype exn =
    KeyError
  | ValueError
  | IndexError
  | AttributeError
  | TypeError
  | AssertionError
  | StopIteration
  | NameError
  | ZeroDivisionError
  | DuplicateElementException
  | NonIndexableException
  | ElementNotFoundException
  | InconsistentIndexException
  | ElementAlreadyInIndexException
  | TaskInconsistentStatusException
  | SchedulerQuitException string
  | SchedulerUnknownOperationException string
  | ConflictError
  | GenericException string
  | EmptyTrackException
  | QueryException
  | AgentExecutionException
  | MaKaCError string
  | NoReportError string
  | IndicoError string
  | ConflictingOccurrences
  | ServiceError string
  | HTTPAPIError string
  | NoResultFound
  | AccessError
  | TimingError
  | ParentTimingError
  | EntryTimingError
  | FormValuesError
  | RuntimeError

section \<open>Programs\<close>

type_synonym ('s, 'a) prog = "'s \<Rightarrow> (exn + 'a) \<times> 's"

definition ret :: "'a \<Rightarrow> ('s, 'a) prog" where
  "ret x = (\<lambda>s. (Inr x, s))"

definition raise_exn :: "exn \<Rightarrow> ('s, 'a) prog" where
  "raise_exn e = (\<lambda>s. (Inl e, s))"

definition bnd :: "('s, 'a) prog \<Rightarrow> ('a \<Rightarrow> ('s, 'b) prog) \<Rightarrow> ('s, 'b) prog" where
  "bnd m f = (\<lambda>s. case m s of (Inl e, s') \<Rightarrow> (Inl e, s') | (Inr x, s') \<Rightarrow> f x s')"

definition andthen :: "('s, 'a) prog \<Rightarrow> ('s, 'b) prog \<Rightarrow> ('s, 'b) prog" where
  "andthen m k = bnd m (\<lambda>_. k)"

definition get_st :: "('s, 's) prog" where
  "get_st = (\<lambda>s. (Inr s, s))"

definition gets :: "('s \<Rightarrow> 'a) \<Rightarrow> ('s, 'a) prog" where
  "gets f = (\<lambda>s. (Inr (f s), s))"

definition modify :: "('s \<Rightarrow> 's) \<Rightarrow> ('s, unit) prog" where
  "modify f = (\<lambda>s. (Inr (), f s))"

text \<open>\<open>except E:\<close> for the exceptions \<open>h\<close> accepts; the handler starts in the state of the raise.\<close>

definition catch_exn :: "('s, 'a) prog \<Rightarrow> (exn \<Rightarrow> ('s, 'a) prog option) \<Rightarrow> ('s, 'a) prog" where
  "catch_exn m h = (\<lambda>s. case m s of
       (Inr x, s') \<Rightarrow> (Inr x, s')
     | (Inl e, s') \<Rightarrow> (case h e of None \<Rightarrow> (Inl e, s') | Some k \<Rightarrow> k s'))"

text \<open>\<open>try: m finally: k\<close>: an exception of \<open>k\<close> replaces the one of \<open>m\<close>.\<close>

definition finally_do :: "('s, 'a) prog \<Rightarrow> ('s, unit) prog \<Rightarrow> ('s, 'a) prog" where
  "finally_do m k = (\<lambda>s. case m s of (r, s') \<Rightarrow>
     (case k s' of (Inl e, s'') \<Rightarrow> (Inl e, s'') | (Inr _, s'') \<Rightarrow> (r, s'')))"

definition when_do :: "bool \<Rightarrow> ('s, unit) prog \<Rightarrow> ('s, unit) prog" where
  "when_do b m = (if b then m else ret ())"

text \<open>\<open>for x in xs: f x\<close> over a list that the body cannot change.\<close>

fun for_each :: "'a list \<Rightarrow> ('a \<Rightarrow> ('s, unit) prog) \<Rightarrow> ('s, unit) prog" where
  "for_each [] f = ret ()"
| "for_each (x # xs) f = andthen (f x) (for_each xs f)"

text \<open>A sub-object's method: run \<open>m\<close> on the part of the state that \<open>g\<close> reads and \<open>p\<close> writes.\<close>

definition zoom :: "('s \<Rightarrow> 't) \<Rightarrow> ('t \<Rightarrow> 's \<Rightarrow> 's) \<Rightarrow> ('t, 'a) prog \<Rightarrow> ('s, 'a) prog" where
  "zoom g p m = (\<lambda>s. case m (g s) of (r, t) \<Rightarrow> (r, p t s))"

text \<open>A fallible pure computation as a program.\<close>

definition lift_res :: "exn + 'a \<Rightarrow> ('s, 'a) prog" where
  "lift_res r = (\<lambda>s. (r, s))"

named_theorems prog_simps \<open>how programs compute\<close>

lemma ret_run [prog_simps]: "ret x s = (Inr x, s)"
  by (simp add: ret_def)

lemma raise_run [prog_simps]: "raise_exn e s = (Inl e, s)"
  by (simp add: raise_exn_def)

lemma bnd_run [prog_simps]:
  "bnd m f s = (case m s of (Inl e, s') \<Rightarrow> (Inl e, s') | (Inr x, s') \<Rightarrow> f x s')"
  by (simp add: bnd_def)

lemma andthen_run [prog_simps]:
  "andthen m k s = (case m s of (Inl e, s') \<Rightarrow> (Inl e, s') | (Inr _, s') \<Rightarrow> k s')"
  by (simp add: andthen_def bnd_def)

lemma get_st_run [prog_simps]: "get_st s = (Inr s, s)"
  by (simp add: get_st_def)

lemma gets_run [prog_simps]: "gets f s = (Inr (f s), s)"
  by (simp add: gets_def)

lemma modify_run [prog_simps]: "modify f s = (Inr (), f s)"
  by (simp add: modify_def)

lemma catch_run [prog_simps]:
  "catch_exn m h s = (case m s of (Inr x, s') \<Rightarrow> (Inr x, s')
     | (Inl e, s') \<Rightarrow> (case h e of None \<Rightarrow> (Inl e, s') | Some k \<Rightarrow> k s'))"
  by (simp add: catch_exn_def)

lemma finally_run [prog_simps]:
  "finally_do m k s = (case m s of (r, s') \<Rightarrow>
     (case k s' of (Inl e, s'') \<Rightarrow> (Inl e, s'') | (Inr _, s'') \<Rightarrow> (r, s'')))"
  by (simp add: finally_do_def)

lemma when_run [prog_simps]: "when_do b m s = (if b then m s else (Inr (), s))"
  by (simp add: when_do_def ret_def)

lemma zoom_run [prog_simps]: "zoom g p m s = (case m (g s) of (r, t) \<Rightarrow> (r, p t s))"
  by (simp add: zoom_def)

lemma lift_res_run [prog_simps]: "lift_res r s = (r, s)"
  by (simp add: lift_res_def)

declare prog_simps [simp]

lemma bnd_Inr: "bnd m f s = (Inr x, s') \<longleftrightarrow> (\<exists>y t. m s = (Inr y, t) \<and> f y t = (Inr x, s'))"
  by (auto simp: bnd_def split: prod.splits sum.splits)

lemma andthen_Inr: "andthen m k s = (Inr x, s') \<longleftrightarrow> (\<exists>y t. m s = (Inr y, t) \<and> k t = (Inr x, s'))"
  unfolding andthen_def by (rule bnd_Inr)

lemma bnd_get_st: "bnd get_st f s = f s s"
  by simp

text \<open>The state after a program, and whether it returned.\<close>

definition exec_st :: "('s, 'a) prog \<Rightarrow> 's \<Rightarrow> 's" where
  "exec_st m s = snd (m s)"

definition returns :: "('s, 'a) prog \<Rightarrow> 's \<Rightarrow> 'a \<Rightarrow> bool" where
  "returns m s x \<longleftrightarrow> fst (m s) = Inr x"

section \<open>Invariants of programs\<close>

text \<open>
  \<open>keeps I m\<close>: from a state of \<open>I\<close> the program ends in a state of \<open>I\<close>, whether it returns or
  raises.  The rules follow the structure of the program, so an operation's invariant proof only
  deals with its own assignments.
\<close>

definition keeps :: "('s \<Rightarrow> bool) \<Rightarrow> ('s, 'a) prog \<Rightarrow> bool" where
  "keeps I m \<longleftrightarrow> (\<forall>s. I s \<longrightarrow> I (snd (m s)))"

named_theorems keeps_intros \<open>how invariants are kept by programs\<close>

lemma keepsI: "(\<And>s. I s \<Longrightarrow> I (snd (m s))) \<Longrightarrow> keeps I m"
  by (simp add: keeps_def)

lemma keepsD: "keeps I m \<Longrightarrow> I s \<Longrightarrow> I (snd (m s))"
  by (simp add: keeps_def)

lemma keeps_run: "keeps I m \<Longrightarrow> I s \<Longrightarrow> m s = (r, s') \<Longrightarrow> I s'"
  by (metis keepsD snd_conv)

lemma keeps_ret [keeps_intros]: "keeps I (ret x)"
  by (simp add: keeps_def)

lemma keeps_raise [keeps_intros]: "keeps I (raise_exn e)"
  by (simp add: keeps_def)

lemma keeps_get_st [keeps_intros]: "keeps I get_st"
  by (simp add: keeps_def)

lemma keeps_gets [keeps_intros]: "keeps I (gets f)"
  by (simp add: keeps_def)

lemma keeps_lift_res [keeps_intros]: "keeps I (lift_res r)"
  by (simp add: keeps_def)

lemma keeps_bnd [keeps_intros]:
  "keeps I m \<Longrightarrow> (\<And>x. keeps I (f x)) \<Longrightarrow> keeps I (bnd m f)"
  unfolding keeps_def by (fastforce split: prod.split sum.split)

lemma keeps_andthen [keeps_intros]: "keeps I m \<Longrightarrow> keeps I k \<Longrightarrow> keeps I (andthen m k)"
  unfolding andthen_def by (rule keeps_bnd)

lemma keeps_catch [keeps_intros]:
  "keeps I m \<Longrightarrow> (\<And>e k. h e = Some k \<Longrightarrow> keeps I k) \<Longrightarrow> keeps I (catch_exn m h)"
  unfolding keeps_def by (fastforce split: prod.split sum.split option.split)

lemma keeps_finally [keeps_intros]: "keeps I m \<Longrightarrow> keeps I k \<Longrightarrow> keeps I (finally_do m k)"
  unfolding keeps_def by (fastforce split: prod.split sum.split)

lemma keeps_when [keeps_intros]: "keeps I m \<Longrightarrow> keeps I (when_do b m)"
  by (auto simp: keeps_def)

lemma keeps_if [keeps_intros]:
  "keeps I m \<Longrightarrow> keeps I k \<Longrightarrow> keeps I (if b then m else k)"
  by simp

lemma keeps_case_option [keeps_intros]:
  "keeps I m \<Longrightarrow> (\<And>x. keeps I (f x)) \<Longrightarrow> keeps I (case v of None \<Rightarrow> m | Some x \<Rightarrow> f x)"
  by (cases v) auto

lemma keeps_case_prod [keeps_intros]:
  "(\<And>x y. keeps I (f x y)) \<Longrightarrow> keeps I (case p of (x, y) \<Rightarrow> f x y)"
  by (cases p) auto

lemma keeps_for_each [keeps_intros]: "(\<And>x. x \<in> set xs \<Longrightarrow> keeps I (f x)) \<Longrightarrow> keeps I (for_each xs f)"
  by (induction xs) (auto intro!: keeps_intros)

lemma keeps_modify: "(\<And>s. I s \<Longrightarrow> I (f s)) \<Longrightarrow> keeps I (modify f)"
  by (simp add: keeps_def)

lemma keeps_bnd_gets: "(\<And>s. I s \<Longrightarrow> I (snd (f (g s) s))) \<Longrightarrow> keeps I (bnd (gets g) f)"
  by (simp add: keeps_def)

lemma keeps_conj: "keeps I m \<Longrightarrow> keeps J m \<Longrightarrow> keeps (\<lambda>s. I s \<and> J s) m"
  by (simp add: keeps_def)

section \<open>Pre- and postconditions\<close>

text \<open>
  \<open>hoare P m Q E\<close>: from a state of \<open>P\<close>, the program ends in \<open>Q x\<close> when it returns \<open>x\<close> and in \<open>E\<close>
  when it raises.
\<close>

definition hoare :: "('s \<Rightarrow> bool) \<Rightarrow> ('s, 'a) prog \<Rightarrow> ('a \<Rightarrow> 's \<Rightarrow> bool) \<Rightarrow> ('s \<Rightarrow> bool) \<Rightarrow> bool" where
  "hoare P m Q E \<longleftrightarrow> (\<forall>s. P s \<longrightarrow> (case m s of (Inr x, s') \<Rightarrow> Q x s' | (Inl e, s') \<Rightarrow> E s'))"

lemma hoareI:
  "(\<And>s. P s \<Longrightarrow> case m s of (Inr x, s') \<Rightarrow> Q x s' | (Inl e, s') \<Rightarrow> E s') \<Longrightarrow> hoare P m Q E"
  by (simp add: hoare_def)

lemma hoare_Inr: "hoare P m Q E \<Longrightarrow> P s \<Longrightarrow> m s = (Inr x, s') \<Longrightarrow> Q x s'"
  unfolding hoare_def by force

lemma hoare_Inl: "hoare P m Q E \<Longrightarrow> P s \<Longrightarrow> m s = (Inl e, s') \<Longrightarrow> E s'"
  unfolding hoare_def by force

lemma hoare_end: "hoare P m (\<lambda>_. Q) Q \<Longrightarrow> P s \<Longrightarrow> Q (snd (m s))"
  unfolding hoare_def by (cases "m s") (auto split: prod.splits sum.splits)

lemma hoare_keeps: "keeps I m \<longleftrightarrow> hoare I m (\<lambda>_. I) I"
  unfolding keeps_def hoare_def
  by (intro all_cong1 imp_cong refl) (auto split: prod.split sum.split)

lemma hoare_bnd:
  "hoare P m Q E \<Longrightarrow> (\<And>x. hoare (Q x) (f x) R E) \<Longrightarrow> hoare P (bnd m f) R E"
  unfolding hoare_def by (fastforce split: prod.splits sum.splits)

lemma hoare_andthen:
  "hoare P m (\<lambda>_. Q) E \<Longrightarrow> hoare Q k R E \<Longrightarrow> hoare P (andthen m k) R E"
  unfolding andthen_def by (rule hoare_bnd)

lemma hoare_weaken:
  "hoare P m Q E \<Longrightarrow> (\<And>s. P' s \<Longrightarrow> P s) \<Longrightarrow> (\<And>x s. Q x s \<Longrightarrow> Q' x s) \<Longrightarrow> (\<And>s. E s \<Longrightarrow> E' s)
   \<Longrightarrow> hoare P' m Q' E'"
  unfolding hoare_def by (fastforce split: prod.splits sum.splits)

lemma keeps_imp_hoare:
  "keeps I m \<Longrightarrow> (\<And>s. P s \<Longrightarrow> I s) \<Longrightarrow> (\<And>s. I s \<Longrightarrow> Q s) \<Longrightarrow> hoare P m (\<lambda>_. Q) Q"
  unfolding hoare_keeps by (erule hoare_weaken) auto

text \<open>\<open>fine I m\<close>: from a state of \<open>I\<close> the program returns, in a state of \<open>I\<close>.\<close>

definition fine :: "('s \<Rightarrow> bool) \<Rightarrow> ('s, 'a) prog \<Rightarrow> bool" where
  "fine I m \<longleftrightarrow> (\<forall>s. I s \<longrightarrow> (\<exists>x s'. m s = (Inr x, s') \<and> I s'))"

named_theorems fine_intros \<open>programs that return\<close>

lemma fineI: "(\<And>s. I s \<Longrightarrow> \<exists>x s'. m s = (Inr x, s') \<and> I s') \<Longrightarrow> fine I m"
  by (simp add: fine_def)

lemma fineD: "fine I m \<Longrightarrow> I s \<Longrightarrow> \<exists>x s'. m s = (Inr x, s') \<and> I s'"
  by (simp add: fine_def)

lemma fine_bnd [fine_intros]: "fine I m \<Longrightarrow> (\<And>x. fine I (f x)) \<Longrightarrow> fine I (bnd m f)"
  unfolding fine_def bnd_run by (metis (no_types, lifting) case_prod_conv sum.simps(6))

lemma fine_andthen [fine_intros]: "fine I m \<Longrightarrow> fine I k \<Longrightarrow> fine I (andthen m k)"
  unfolding andthen_def by (rule fine_bnd)

lemma fine_basic [fine_intros]: "fine I (ret x)" "fine I (gets g)" "fine I get_st"
  by (simp_all add: fine_def prog_simps)

lemma fine_modify: "(\<And>s. I s \<Longrightarrow> I (f s)) \<Longrightarrow> fine I (modify f)"
  by (simp add: fine_def prog_simps)

lemma fine_when_do [fine_intros]: "(b \<Longrightarrow> fine I m) \<Longrightarrow> fine I (when_do b m)"
  by (simp add: when_do_def fine_basic)

lemma fine_for_each [fine_intros]: "(\<And>x. x \<in> set xs \<Longrightarrow> fine I (f x)) \<Longrightarrow> fine I (for_each xs f)"
  by (induction xs) (simp_all add: fine_intros)

section \<open>Python's lists\<close>

text \<open>
  \<open>xs.remove(x)\<close> removes the first element equal to \<open>x\<close> and raises \<open>ValueError\<close> when there is
  none; equality is the elements' own (\<open>__cmp__\<close> or \<open>__eq__\<close>), passed as \<open>eq\<close>.
\<close>

fun list_remove :: "('a \<Rightarrow> bool) \<Rightarrow> 'a list \<Rightarrow> exn + 'a list" where
  "list_remove eq [] = Inl ValueError"
| "list_remove eq (x # xs) = (if eq x then Inr xs
     else (case list_remove eq xs of Inl e \<Rightarrow> Inl e | Inr ys \<Rightarrow> Inr (x # ys)))"

lemma list_remove_Inl: "list_remove eq xs = Inl e \<longleftrightarrow> e = ValueError \<and> (\<forall>x \<in> set xs. \<not> eq x)"
  by (induction xs) (auto split: sum.splits if_splits)

lemma list_remove_mset:
  "list_remove eq xs = Inr ys \<Longrightarrow> \<exists>x \<in> set xs. eq x \<and> mset xs = add_mset x (mset ys)"
  by (induction xs arbitrary: ys) (fastforce split: sum.splits if_splits)+

lemma list_remove_subset: "list_remove eq xs = Inr ys \<Longrightarrow> set ys \<subseteq> set xs"
  by (induction xs arbitrary: ys) (fastforce split: sum.splits if_splits)+

lemma list_remove_distinct: "list_remove eq xs = Inr ys \<Longrightarrow> distinct xs \<Longrightarrow> distinct ys"
proof (induction xs arbitrary: ys)
  case (Cons x xs)
  then show ?case
    by (auto split: sum.splits if_splits) (meson list_remove_subset subsetD)
qed simp

lemma list_remove_hd: "eq x \<Longrightarrow> list_remove eq (x # xs) = Inr xs"
  by simp

lemma list_remove_eq_remove1:
  "x \<in> set xs \<Longrightarrow> list_remove (\<lambda>y. y = x) xs = Inr (remove1 x xs)"
  by (induction xs) auto

lemma list_remove_cong:
  "(\<And>x. x \<in> set xs \<Longrightarrow> eq x = eq' x) \<Longrightarrow> list_remove eq xs = list_remove eq' xs"
  by (induction xs) (auto split: sum.splits)

lemma list_remove_length: "list_remove eq xs = Inr ys \<Longrightarrow> length xs = Suc (length ys)"
  by (metis list_remove_mset size_add_mset size_mset)

text \<open>\<open>xs.index(x)\<close>, \<open>xs.pop(i)\<close> and \<open>xs.insert(i, x)\<close> for an index in range.\<close>

fun list_index :: "('a \<Rightarrow> bool) \<Rightarrow> 'a list \<Rightarrow> nat option" where
  "list_index p [] = None"
| "list_index p (x # xs) = (if p x then Some 0 else map_option Suc (list_index p xs))"

definition list_insert :: "nat \<Rightarrow> 'a \<Rightarrow> 'a list \<Rightarrow> 'a list" where
  "list_insert i x xs = take i xs @ x # drop i xs"

lemma list_index_Some: "list_index p xs = Some i \<Longrightarrow> i < length xs \<and> p (xs ! i)"
  by (induction xs arbitrary: i) (auto split: if_splits)

lemma list_index_None: "list_index p xs = None \<longleftrightarrow> (\<forall>x \<in> set xs. \<not> p x)"
  by (induction xs) auto

lemma mset_list_insert: "mset (list_insert i x xs) = add_mset x (mset xs)"
proof -
  have "mset xs = mset (take i xs) + mset (drop i xs)"
    by (metis append_take_drop_id mset_append)
  then show ?thesis by (simp add: list_insert_def)
qed

lemma set_list_insert: "set (list_insert i x xs) = insert x (set xs)"
  by (metis mset_list_insert set_mset_add_mset_insert set_mset_mset)

section \<open>Strings\<close>

text \<open>
  \<open>s.strip()\<close>, \<open>s.lower()\<close> and \<open>q in s\<close> of byte strings: white space is what
  \<open>str.isspace\<close> accepts, and letters are those of ASCII.
\<close>

definition py_isspace :: "char \<Rightarrow> bool" where
  "py_isspace c \<longleftrightarrow> (of_char c :: nat) \<in> {9, 10, 11, 12, 13, 32}"

definition py_strip :: "string \<Rightarrow> string" where
  "py_strip s = rev (dropWhile py_isspace (rev (dropWhile py_isspace s)))"

definition char_lower :: "char \<Rightarrow> char" where
  "char_lower c = (if 65 \<le> (of_char c :: nat) \<and> (of_char c :: nat) \<le> 90
     then char_of ((of_char c :: nat) + 32) else c)"

definition py_lower :: "string \<Rightarrow> string" where
  "py_lower s = map char_lower s"

fun str_prefix :: "string \<Rightarrow> string \<Rightarrow> bool" where
  "str_prefix [] s = True"
| "str_prefix (c # cs) [] = False"
| "str_prefix (c # cs) (d # ds) = (c = d \<and> str_prefix cs ds)"

fun str_contains :: "string \<Rightarrow> string \<Rightarrow> bool" where
  "str_contains q [] = (q = [])"
| "str_contains q (c # cs) = (str_prefix q (c # cs) \<or> str_contains q cs)"

lemma str_prefix_append: "str_prefix q s \<longleftrightarrow> (\<exists>t. s = q @ t)"
  by (induction q s rule: str_prefix.induct) auto

lemma str_contains_iff: "str_contains q s \<longleftrightarrow> (\<exists>u v. s = u @ q @ v)"
proof (induction s)
  case (Cons c s)
  show ?case (is "?l \<longleftrightarrow> ?r")
  proof
    assume ?l
    then consider t where "c # s = q @ t" | "str_contains q s"
      by (auto simp: str_prefix_append)
    then show ?r
    proof cases
      case 1
      then show ?thesis by (metis append_Nil)
    next
      case 2
      then show ?thesis using Cons by (metis append_Cons)
    qed
  next
    assume ?r
    then obtain u v where uv: "c # s = u @ q @ v" by blast
    show ?l
    proof (cases u)
      case Nil
      with uv have "str_prefix q (c # s)" by (auto simp: str_prefix_append)
      then show ?thesis by simp
    next
      case (Cons c' u')
      with uv Cons.IH show ?thesis by auto
    qed
  qed
qed auto

section \<open>Decimal numerals\<close>

text \<open>Python's \<open>str(n)\<close> of a non-negative integer.\<close>

definition digit_char :: "nat \<Rightarrow> char" where
  "digit_char d = char_of (48 + d)"

fun str_nat :: "nat \<Rightarrow> string" where
  "str_nat n = (if n < 10 then [digit_char n] else str_nat (n div 10) @ [digit_char (n mod 10)])"

declare str_nat.simps [simp del]

fun nat_of_str :: "string \<Rightarrow> nat \<Rightarrow> nat" where
  "nat_of_str [] acc = acc"
| "nat_of_str (c # cs) acc = nat_of_str cs (10 * acc + (of_char c - 48))"

lemma of_digit_char: "d < 10 \<Longrightarrow> (of_char (digit_char d) :: nat) - 48 = d"
  by (simp add: digit_char_def)

lemma nat_of_str_append: "nat_of_str (xs @ ys) acc = nat_of_str ys (nat_of_str xs acc)"
  by (induction xs arbitrary: acc) auto

lemma nat_of_str_nat: "nat_of_str (str_nat n) 0 = n"
proof (induction n rule: str_nat.induct)
  case (1 n)
  show ?case
  proof (cases "n < 10")
    case True
    then show ?thesis by (simp add: str_nat.simps [of n] of_digit_char)
  next
    case False
    with "1.IH" show ?thesis
      by (simp add: str_nat.simps [of n] nat_of_str_append of_digit_char)
  qed
qed

lemma str_nat_inject [simp]: "str_nat m = str_nat n \<longleftrightarrow> m = n"
  by (metis nat_of_str_nat)

lemma str_nat_digits: "c \<in> set (str_nat n) \<Longrightarrow> \<exists>d<10. c = digit_char d"
proof (induction n rule: str_nat.induct)
  case (1 n)
  have last: "\<exists>d<10. digit_char (n mod 10) = digit_char d"
    by (rule exI [of _ "n mod 10"]) simp
  with 1 show ?case
    by (cases "n < 10") (auto simp: str_nat.simps [of n] simp del: ex_simps)
qed

lemma digit_char_not: "d < 10 \<Longrightarrow> (of_char c :: nat) < 48 \<or> 57 < (of_char c :: nat) \<Longrightarrow> digit_char d \<noteq> c"
  by (auto simp: digit_char_def)

end
