(* ===== verification/BTrees.thy ===== *)
theory BTrees
  imports Prelude
begin

text \<open>
  The containers of the BTrees package by their documented contents: \<open>IOBTree\<close> and \<open>OOBTree\<close>
  (mappings whose keys are kept in ascending order) as association lists in key order,
  \<open>OOTreeSet\<close> and \<open>OOSet\<close> (sets kept in the order of their elements) as lists in that order.
  Sets of objects compare and identify their elements by the elements' own \<open>__cmp__\<close>, so the
  set operations take the comparison as an argument.  The trees' inner nodes are not modelled.
\<close>

section \<open>Comparisons\<close>

text \<open>Python 2's \<open>cmp\<close> on values that have a linear order.\<close>

definition py_cmp :: "'a::linorder \<Rightarrow> 'a \<Rightarrow> int" where
  "py_cmp x y = (if x < y then - 1 else if x = y then 0 else 1)"

lemma py_cmp_simps [simp]:
  "py_cmp x x = 0"
  "py_cmp x y = 0 \<longleftrightarrow> x = y"
  "py_cmp x y < 0 \<longleftrightarrow> x < y"
  "0 < py_cmp x y \<longleftrightarrow> y < x"
  by (auto simp: py_cmp_def)

text \<open>
  What a sorted container relies on: on the objects it may hold (\<open>carrier\<close>), the comparison is a
  linear preorder; \<open>cmp_sep\<close> adds that two objects that compare equal are the same object.
\<close>

locale cmp_order =
  fixes cmp :: "'a \<Rightarrow> 'a \<Rightarrow> int" and carrier :: "'a set"
  assumes cmp_refl: "x \<in> carrier \<Longrightarrow> cmp x x = 0"
    and cmp_flip: "x \<in> carrier \<Longrightarrow> y \<in> carrier \<Longrightarrow> 0 < cmp x y \<longleftrightarrow> cmp y x < 0"
    and cmp_less_trans:
      "x \<in> carrier \<Longrightarrow> y \<in> carrier \<Longrightarrow> z \<in> carrier \<Longrightarrow> cmp x y < 0 \<Longrightarrow> cmp y z < 0 \<Longrightarrow> cmp x z < 0"

locale cmp_sep = cmp_order +
  assumes cmp_eq: "x \<in> carrier \<Longrightarrow> y \<in> carrier \<Longrightarrow> cmp x y = 0 \<Longrightarrow> x = y"

interpretation linord: cmp_sep py_cmp UNIV
  by unfold_locales auto

section \<open>Tree sets\<close>

definition ts_mem :: "('a \<Rightarrow> 'a \<Rightarrow> int) \<Rightarrow> 'a \<Rightarrow> 'a list \<Rightarrow> bool" where
  "ts_mem cmp x s \<longleftrightarrow> (\<exists>y \<in> set s. cmp x y = 0)"

fun ts_add :: "('a \<Rightarrow> 'a \<Rightarrow> int) \<Rightarrow> 'a \<Rightarrow> 'a list \<Rightarrow> 'a list" where
  "ts_add cmp x [] = [x]"
| "ts_add cmp x (y # ys) =
     (if cmp x y < 0 then x # y # ys
      else if cmp x y = 0 then y # ys
      else y # ts_add cmp x ys)"

definition ts_remove :: "('a \<Rightarrow> 'a \<Rightarrow> int) \<Rightarrow> 'a \<Rightarrow> 'a list \<Rightarrow> exn + 'a list" where
  "ts_remove cmp x s =
     (case list_remove (\<lambda>y. cmp x y = 0) s of Inl _ \<Rightarrow> Inl KeyError | Inr s' \<Rightarrow> Inr s')"

definition ts_wf :: "('a \<Rightarrow> 'a \<Rightarrow> int) \<Rightarrow> 'a list \<Rightarrow> bool" where
  "ts_wf cmp s \<longleftrightarrow> sorted_wrt (\<lambda>x y. cmp x y < 0) s"

lemma ts_wf_Nil [simp]: "ts_wf cmp []"
  by (simp add: ts_wf_def)

lemma ts_wf_Cons [simp]: "ts_wf cmp (x # xs) \<longleftrightarrow> (\<forall>y \<in> set xs. cmp x y < 0) \<and> ts_wf cmp xs"
  by (simp add: ts_wf_def)

lemma ts_add_not_Nil [simp]: "ts_add cmp x s \<noteq> []"
  by (cases s) auto

lemma ts_add_subset: "set (ts_add cmp x s) \<subseteq> insert x (set s)"
  by (induction s) auto

lemma ts_remove_Inl: "ts_remove cmp x s = Inl e \<longleftrightarrow> e = KeyError \<and> \<not> ts_mem cmp x s"
  by (auto simp: ts_remove_def ts_mem_def list_remove_Inl split: sum.splits
      dest: list_remove_mset)

context cmp_order
begin

lemma ts_wf_add:
  "ts_wf cmp s \<Longrightarrow> set s \<subseteq> carrier \<Longrightarrow> x \<in> carrier \<Longrightarrow> ts_wf cmp (ts_add cmp x s)"
proof (induction s)
  case (Cons y ys)
  have tl: "ts_wf cmp (ts_add cmp x ys)" using Cons by simp
  have gt: "cmp y x < 0" if "\<not> cmp x y < 0" "cmp x y \<noteq> 0"
    using that Cons.prems cmp_flip [of x y] by auto
  show ?case
    using Cons.prems tl gt ts_add_subset [of cmp x ys] cmp_less_trans [of x y]
    by (fastforce simp: subset_iff)
qed (simp add: ts_wf_def)

lemma ts_wf_distinct: "ts_wf cmp s \<Longrightarrow> set s \<subseteq> carrier \<Longrightarrow> distinct s"
proof (induction s)
  case (Cons x s)
  then show ?case using cmp_refl [of x] by auto
qed simp

end

context cmp_sep
begin

lemma ts_mem_iff: "set s \<subseteq> carrier \<Longrightarrow> x \<in> carrier \<Longrightarrow> ts_mem cmp x s \<longleftrightarrow> x \<in> set s"
  unfolding ts_mem_def by (metis cmp_eq cmp_refl subsetD)

lemma ts_set_add:
  "set s \<subseteq> carrier \<Longrightarrow> x \<in> carrier \<Longrightarrow> set (ts_add cmp x s) = insert x (set s)"
  by (induction s) (auto dest: cmp_eq)

lemma ts_length_add:
  "ts_wf cmp s \<Longrightarrow> set s \<subseteq> carrier \<Longrightarrow> x \<in> carrier \<Longrightarrow>
     length (ts_add cmp x s) = (if x \<in> set s then length s else Suc (length s))"
proof (induction s)
  case (Cons y ys)
  then have "x \<noteq> y" if "cmp x y < 0" using that cmp_refl [of x] by auto
  moreover have "x \<notin> set ys" if "cmp x y < 0"
    using that Cons.prems cmp_less_trans [of x y x] cmp_refl [of x] by auto
  ultimately show ?case
    using Cons cmp_refl [of x] by (auto dest: cmp_eq)
qed simp

lemma ts_remove_eq:
  "set s \<subseteq> carrier \<Longrightarrow> x \<in> carrier \<Longrightarrow>
     ts_remove cmp x s = (if x \<in> set s then Inr (remove1 x s) else Inl KeyError)"
proof -
  assume A: "set s \<subseteq> carrier" "x \<in> carrier"
  have "list_remove (\<lambda>y. cmp x y = 0) s = list_remove (\<lambda>y. y = x) s"
    using A by (intro list_remove_cong) (auto simp: subset_iff cmp_refl dest: cmp_eq)
  moreover have "list_remove (\<lambda>y. y = x) s = Inl ValueError" if "x \<notin> set s"
    using that by (auto simp: list_remove_Inl)
  ultimately show ?thesis
    by (cases "x \<in> set s") (auto simp: ts_remove_def list_remove_eq_remove1)
qed

lemma ts_wf_remove1: "ts_wf cmp s \<Longrightarrow> ts_wf cmp (remove1 x s)"
  by (induction s) (auto dest: notin_set_remove1 [of _ _ x, rotated] set_mp [OF set_remove1_subset])

lemma ts_hd_least:
  "ts_wf cmp (x # s) \<Longrightarrow> y \<in> set (x # s) \<Longrightarrow> y = x \<or> cmp x y < 0"
  by auto

end

section \<open>Tree maps\<close>

definition bt_get :: "'k \<Rightarrow> ('k \<times> 'v) list \<Rightarrow> 'v option" where
  "bt_get k m = map_of m k"

fun bt_put :: "'k::linorder \<Rightarrow> 'v \<Rightarrow> ('k \<times> 'v) list \<Rightarrow> ('k \<times> 'v) list" where
  "bt_put k v [] = [(k, v)]"
| "bt_put k v ((k', v') # m) =
     (if k < k' then (k, v) # (k', v') # m
      else if k = k' then (k, v) # m
      else (k', v') # bt_put k v m)"

definition bt_del :: "'k \<Rightarrow> ('k \<times> 'v) list \<Rightarrow> ('k \<times> 'v) list" where
  "bt_del k m = filter (\<lambda>(k', _). k' \<noteq> k) m"

definition bt_keys :: "('k \<times> 'v) list \<Rightarrow> 'k list" where
  "bt_keys m = map fst m"

definition bt_wf :: "('k::linorder \<times> 'v) list \<Rightarrow> bool" where
  "bt_wf m \<longleftrightarrow> sorted_wrt (<) (map fst m)"

text \<open>The documented contract of an ordered mapping, and the model's containers as an instance.\<close>

locale ordered_map =
  fixes empty :: 'm
    and get :: "'k::linorder \<Rightarrow> 'm \<Rightarrow> 'v option"
    and put :: "'k \<Rightarrow> 'v \<Rightarrow> 'm \<Rightarrow> 'm"
    and del :: "'k \<Rightarrow> 'm \<Rightarrow> 'm"
    and keys :: "'m \<Rightarrow> 'k list"
    and wf :: "'m \<Rightarrow> bool"
  assumes wf_empty: "wf empty"
    and get_empty: "get k empty = None"
    and wf_put: "wf m \<Longrightarrow> wf (put k v m)"
    and wf_del: "wf m \<Longrightarrow> wf (del k m)"
    and get_put: "get k (put k' v m) = (if k = k' then Some v else get k m)"
    and get_del: "get k (del k' m) = (if k = k' then None else get k m)"
    and keys_sorted: "wf m \<Longrightarrow> sorted_wrt (<) (keys m)"
    and keys_get: "k \<in> set (keys m) \<longleftrightarrow> get k m \<noteq> None"
begin

lemma keys_put: "set (keys (put k v m)) = insert k (set (keys m))"
  by (auto simp: keys_get get_put split: if_splits)

lemma keys_del: "set (keys (del k m)) = set (keys m) - {k}"
  by (auto simp: keys_get get_del split: if_splits)

lemma first_key_least: "wf m \<Longrightarrow> keys m = k # ks \<Longrightarrow> get k' m \<noteq> None \<Longrightarrow> k \<le> k'"
  using keys_sorted [of m] keys_get [of k' m] by auto

lemma keys_empty_iff: "keys m = [] \<longleftrightarrow> (\<forall>k. get k m = None)"
  by (metis keys_get list.set_intros(1) neq_Nil_conv empty_iff list.set(1))

end

lemma bt_keys_put: "set (map fst (bt_put k v m)) = insert k (set (map fst m))"
  by (induction k v m rule: bt_put.induct) auto

lemma bt_wf_put: "bt_wf m \<Longrightarrow> bt_wf (bt_put k v m)"
proof (induction k v m rule: bt_put.induct)
  case (2 k v k' v' m)
  then show ?case
    using bt_keys_put [of k v m] by (auto simp: bt_wf_def image_iff)
qed (simp add: bt_wf_def)

lemma bt_get_put: "bt_get k (bt_put k' v m) = (if k = k' then Some v else bt_get k m)"
  by (induction k' v m rule: bt_put.induct) (auto simp: bt_get_def)

lemma bt_get_del: "bt_get k (bt_del k' m) = (if k = k' then None else bt_get k m)"
  by (induction m) (auto simp: bt_get_def bt_del_def)

lemma bt_wf_del: "bt_wf m \<Longrightarrow> bt_wf (bt_del k m)"
  by (induction m) (auto simp: bt_wf_def bt_del_def)

interpretation bt: ordered_map "[]" bt_get bt_put bt_del bt_keys bt_wf
proof
  fix k :: "'a::linorder" and m :: "('a \<times> 'b) list"
  show "k \<in> set (bt_keys m) \<longleftrightarrow> bt_get k m \<noteq> None"
    by (auto simp: bt_keys_def bt_get_def map_of_eq_None_iff)
qed (simp_all add: bt_wf_put bt_wf_del bt_get_put bt_get_del, simp_all add: bt_wf_def bt_keys_def bt_get_def)

lemma bt_get_Cons: "bt_get k ((k', v) # m) = (if k = k' then Some v else bt_get k m)"
  by (simp add: bt_get_def)

lemma bt_get_Nil [simp]: "bt_get k [] = None"
  by (simp add: bt_get_def)

lemma bt_get_Some_mem: "bt_get k m = Some v \<Longrightarrow> (k, v) \<in> set m"
  by (simp add: bt_get_def map_of_SomeD)

lemma bt_mem_get: "bt_wf m \<Longrightarrow> (k, v) \<in> set m \<longleftrightarrow> bt_get k m = Some v"
proof
  assume wf: "bt_wf m" and mem: "(k, v) \<in> set m"
  from wf have "distinct (map fst m)"
    by (simp add: bt_wf_def strict_sorted_iff)
  with mem show "bt_get k m = Some v" by (simp add: bt_get_def)
qed (rule bt_get_Some_mem)

lemma bt_put_not_Nil [simp]: "bt_put k v m \<noteq> []"
  by (cases m) (auto split: if_splits)

lemma bt_length_put:
  "bt_wf m \<Longrightarrow> length (bt_put k v m) = (if bt_get k m = None then Suc (length m) else length m)"
proof (induction k v m rule: bt_put.induct)
  case (2 k v k' v' m)
  have "bt_get k m = None" if "k \<le> k'"
    using that "2.prems" by (auto simp: bt_wf_def bt_get_def map_of_eq_None_iff)
  with 2 show ?case by (auto simp: bt_get_Cons bt_wf_def)
qed simp

lemma bt_del_absent: "bt_get t c = None \<Longrightarrow> bt_del t c = c"
  by (auto simp: bt_get_def bt_del_def map_of_eq_None_iff image_iff intro!: filter_True)

lemma bt_length_del:
  "bt_wf m \<Longrightarrow> length m = (if bt_get k m = None then 0 else 1) + length (bt_del k m)"
proof (induction m)
  case (Cons p m)
  obtain k' v where p: "p = (k', v)" by fastforce
  have "bt_get k' m = None"
    using Cons.prems p by (auto simp: bt_wf_def bt_get_def map_of_eq_None_iff)
  then have "bt_del k' m = m" by (rule bt_del_absent)
  with Cons p show ?case
    by (cases "k = k'") (auto simp: bt_wf_def bt_get_Cons bt_del_def)
qed (simp add: bt_del_def)

lemma bt_del_put: "bt_del t (bt_put t b c) = bt_del t c"
  by (induction t b c rule: bt_put.induct) (auto simp: bt_del_def)

lemmas bt_simps = bt_get_put bt_get_del bt_wf_put bt_wf_del

end
