(* ===== verification/Waiting_Queue.thy ===== *)
theory Waiting_Queue
  imports BTrees
begin

text \<open>
  \<open>PersistentWaitingQueue\<close> of \<open>indico/util/struct/queue.py\<close>: elements wait in bins keyed by an
  integer timestamp, a bin is a tree set, and a counter holds the number of elements.  Each method
  is a program over the queue.  The invariant \<open>wq_wf\<close> says that the bins are in order, none is
  empty, and the counter is right.  The locale \<open>time_queue\<close> is the contract the scheduler relies
  on; the queue satisfies it for every comparison that tells its elements apart.
\<close>

section \<open>The queue and its methods\<close>

record 'a wqueue =
  elem_counter :: int
  container :: "(int \<times> 'a list) list"

definition wq_reset :: "'a wqueue" where
  "wq_reset = \<lparr>elem_counter = 0, container = []\<rparr>"

definition gc_bin :: "int \<Rightarrow> ('a wqueue, unit) prog" where
  "gc_bin t = bnd (gets container) (\<lambda>c. case bt_get t c of
       None \<Rightarrow> raise_exn KeyError
     | Some b \<Rightarrow> when_do (length b = 0) (modify (container_update (bt_del t))))"

definition check_gc_consistency :: "'a wqueue \<Rightarrow> bool" where
  "check_gc_consistency q = list_all (\<lambda>(_, b). length b \<noteq> 0) (container q)"

definition enqueue :: "('a \<Rightarrow> 'a \<Rightarrow> int) \<Rightarrow> int \<Rightarrow> 'a \<Rightarrow> ('a wqueue, unit) prog" where
  "enqueue cmp t x = bnd (gets container) (\<lambda>c0.
     andthen (when_do (bt_get t c0 = None) (modify (container_update (bt_put t []))))
     (bnd (gets container) (\<lambda>c. case bt_get t c of
         None \<Rightarrow> raise_exn KeyError
       | Some b \<Rightarrow>
           if ts_mem cmp x b then raise_exn DuplicateElementException
           else andthen (modify (container_update (bt_put t (ts_add cmp x b))))
                        (modify (elem_counter_update (\<lambda>n. n + 1))))))"

definition dequeue :: "('a \<Rightarrow> 'a \<Rightarrow> int) \<Rightarrow> int \<Rightarrow> 'a \<Rightarrow> ('a wqueue, unit) prog" where
  "dequeue cmp t x = bnd (gets container) (\<lambda>c. case bt_get t c of
       None \<Rightarrow> raise_exn KeyError
     | Some b \<Rightarrow> bnd (lift_res (ts_remove cmp x b)) (\<lambda>b'.
         andthen (modify (container_update (bt_put t b')))
         (andthen (gc_bin t)
                  (modify (elem_counter_update (\<lambda>n. n - 1))))))"

definition next_timestamp :: "'a wqueue \<Rightarrow> int option" where
  "next_timestamp q = (case container q of [] \<Rightarrow> None | (t, _) # _ \<Rightarrow> Some t)"

text \<open>\<open>peek\<close> tests \<open>if t\<close>, which is false for \<open>None\<close> and for the timestamp 0.\<close>

definition peek :: "('a wqueue, (int \<times> 'a) option) prog" where
  "peek = bnd get_st (\<lambda>q. case next_timestamp q of
       None \<Rightarrow> ret None
     | Some t \<Rightarrow>
         if t = 0 then ret None
         else (case bt_get t (container q) of
             None \<Rightarrow> raise_exn KeyError
           | Some [] \<Rightarrow> raise_exn AssertionError
           | Some (e # _) \<Rightarrow> ret (Some (t, e))))"

definition pop :: "('a \<Rightarrow> 'a \<Rightarrow> int) \<Rightarrow> ('a wqueue, (int \<times> 'a) option) prog" where
  "pop cmp = bnd peek (\<lambda>pair. case pair of
       None \<Rightarrow> ret None
     | Some (t, e) \<Rightarrow> andthen (dequeue cmp t e) (ret pair))"

definition nbins :: "'a wqueue \<Rightarrow> nat" where
  "nbins q = length (container q)"

definition wq_len :: "'a wqueue \<Rightarrow> int" where
  "wq_len q = elem_counter q"

definition wq_getitem :: "int \<Rightarrow> 'a wqueue \<Rightarrow> exn + 'a list" where
  "wq_getitem t q = (case bt_get t (container q) of None \<Rightarrow> Inl KeyError | Some b \<Rightarrow> Inr b)"

definition wq_iter :: "'a wqueue \<Rightarrow> (int \<times> 'a) list" where
  "wq_iter q = concat (map (\<lambda>(t, b). map (Pair t) b) (container q))"

section \<open>The invariant\<close>

definition wq_wf :: "('a \<Rightarrow> 'a \<Rightarrow> int) \<Rightarrow> 'a set \<Rightarrow> 'a wqueue \<Rightarrow> bool" where
  "wq_wf cmp A q \<longleftrightarrow> bt_wf (container q)
     \<and> (\<forall>(t, b) \<in> set (container q). b \<noteq> [] \<and> ts_wf cmp b \<and> set b \<subseteq> A)
     \<and> elem_counter q = int (length (wq_iter q))"

definition wq_items :: "'a wqueue \<Rightarrow> (int \<times> 'a) set" where
  "wq_items q = set (wq_iter q)"

lemma wq_items_get:
  "bt_wf (container q) \<Longrightarrow>
     (t, x) \<in> wq_items q \<longleftrightarrow> (\<exists>b. bt_get t (container q) = Some b \<and> x \<in> set b)"
  by (auto simp: wq_items_def wq_iter_def bt_mem_get [symmetric])

lemma wq_wf_bin:
  "wq_wf cmp A q \<Longrightarrow> bt_get t (container q) = Some b \<Longrightarrow> b \<noteq> [] \<and> ts_wf cmp b \<and> set b \<subseteq> A"
  by (auto simp: wq_wf_def dest!: bt_get_Some_mem)

lemma wq_wfI:
  assumes "bt_wf (container q)" "elem_counter q = int (length (wq_iter q))"
    and "\<And>t b. bt_get t (container q) = Some b \<Longrightarrow> b \<noteq> [] \<and> ts_wf cmp b \<and> set b \<subseteq> A"
  shows "wq_wf cmp A q"
  unfolding wq_wf_def using assms by (fastforce simp: bt_mem_get)

lemma wq_iter_distinct:
  "bt_wf (container q) \<Longrightarrow> \<forall>(t, b) \<in> set (container q). distinct b \<Longrightarrow> distinct (wq_iter q)"
proof -
  have "bt_wf c \<Longrightarrow> \<forall>(t, b) \<in> set c. distinct b \<Longrightarrow>
      distinct (concat (map (\<lambda>(t, b). map (Pair t) b) c))" for c :: "(int \<times> 'a list) list"
    by (induction c) (auto simp: bt_wf_def distinct_map inj_on_def)
  then show "bt_wf (container q) \<Longrightarrow> \<forall>(t, b) \<in> set (container q). distinct b \<Longrightarrow> distinct (wq_iter q)"
    by (simp add: wq_iter_def)
qed

lemma wq_wf_reset [simp]: "wq_wf cmp A wq_reset"
  by (simp add: wq_wf_def wq_reset_def wq_iter_def bt.wf_empty)

lemma wq_items_reset [simp]: "wq_items wq_reset = {}"
  by (simp add: wq_items_def wq_reset_def wq_iter_def)

lemma wq_wf_gc: "wq_wf cmp A q \<Longrightarrow> check_gc_consistency q"
  by (auto simp: wq_wf_def check_gc_consistency_def list_all_iff)

text \<open>How the number of elements changes when one bin is replaced or deleted.\<close>

definition bins_size :: "(int \<times> 'a list) list \<Rightarrow> nat" where
  "bins_size c = sum_list (map (\<lambda>(_, b). length b) c)"

lemma wq_iter_length: "length (wq_iter q) = bins_size (container q)"
  by (simp add: wq_iter_def bins_size_def length_concat comp_def split_def)

lemma bins_size_put:
  "bt_wf c \<Longrightarrow> bins_size (bt_put t b c) + (case bt_get t c of None \<Rightarrow> 0 | Some b' \<Rightarrow> length b')
     = bins_size c + length b"
proof (induction t b c rule: bt_put.induct)
  case (2 k v k' v' m)
  have "bt_get k m = None" if "k \<le> k'"
    using that "2.prems" by (auto simp: bt_wf_def bt_get_def map_of_eq_None_iff)
  with 2 show ?case
    by (auto simp: bins_size_def bt_get_Cons bt_wf_def split: option.splits)
qed (simp add: bins_size_def)

lemma bins_size_del:
  "bt_wf c \<Longrightarrow> bins_size (bt_del t c) + (case bt_get t c of None \<Rightarrow> 0 | Some b' \<Rightarrow> length b') = bins_size c"
proof (induction c)
  case (Cons p c)
  obtain k b where p: "p = (k, b)" by fastforce
  have "bt_get k c = None"
    using Cons.prems p by (auto simp: bt_wf_def bt_get_def map_of_eq_None_iff)
  then show ?case
    using Cons p by (cases "t = k") (auto simp: bt_wf_def bt_del_def bins_size_def bt_get_Cons
        dest: bt_del_absent [unfolded bt_del_def])
qed (simp add: bins_size_def bt_del_def)

lemma bins_size_change:
  assumes "bt_wf c" "bt_get t c = Some b"
  shows "bins_size (bt_put t b' c) + length b = bins_size c + length b'"
    and "bins_size (bt_del t c) + length b = bins_size c"
  using bins_size_put [of c t b'] bins_size_del [of c t] assms by simp_all

lemma bins_size_new:
  "bt_wf c \<Longrightarrow> bt_get t c = None \<Longrightarrow> bins_size (bt_put t b c) = bins_size c + length b"
  using bins_size_put [of c t b] by simp

lemma bt_put_put: "bt_put t b (bt_put t b' c) = bt_put t b c"
  by (induction t b' c rule: bt_put.induct) auto

lemma bt_put_get: "bt_wf c \<Longrightarrow> bt_get t c = Some b \<Longrightarrow> bt_put t b c = c"
proof (induction t b c rule: bt_put.induct)
  case (2 k v k' v' m)
  then show ?case
    using bt_keys_put [of k v m]
    by (auto simp: bt_wf_def bt_get_Cons dest!: bt_get_Some_mem split: if_splits)
qed simp

section \<open>What the methods compute\<close>

text \<open>The methods without the bookkeeping of programs, on every branch.\<close>

lemma enqueue_run:
  "enqueue cmp t x q = (case bt_get t (container q) of
       None \<Rightarrow> (Inr (), q\<lparr>container := bt_put t [x] (container q), elem_counter := elem_counter q + 1\<rparr>)
     | Some b \<Rightarrow>
         if ts_mem cmp x b then (Inl DuplicateElementException, q)
         else (Inr (), q\<lparr>container := bt_put t (ts_add cmp x b) (container q),
                         elem_counter := elem_counter q + 1\<rparr>))"
  by (auto simp: enqueue_def bt_get_put bt_put_put ts_mem_def split: option.splits)

lemma gc_bin_run:
  "bt_get t (container q) = Some b \<Longrightarrow>
     gc_bin t q = (Inr (), if b = [] then q\<lparr>container := bt_del t (container q)\<rparr> else q)"
  by (simp add: gc_bin_def)

lemma dequeue_run:
  "dequeue cmp t x q = (case bt_get t (container q) of
       None \<Rightarrow> (Inl KeyError, q)
     | Some b \<Rightarrow> (case ts_remove cmp x b of
           Inl e \<Rightarrow> (Inl e, q)
         | Inr b' \<Rightarrow> (Inr (), q\<lparr>container := (if b' = [] then bt_del t (container q)
                                              else bt_put t b' (container q)),
                               elem_counter := elem_counter q - 1\<rparr>)))"
  by (auto simp: dequeue_def gc_bin_run bt_get_put bt_del_put split: option.splits sum.splits)

lemma peek_run:
  assumes "wq_wf cmp A q"
  shows "peek q = ((case container q of
       [] \<Rightarrow> Inr None
     | (t, b) # _ \<Rightarrow> if t = 0 then Inr None else Inr (Some (t, hd b))), q)"
proof (cases "container q")
  case Nil
  then show ?thesis by (simp add: peek_def next_timestamp_def)
next
  case (Cons p c)
  obtain t b where p: "p = (t, b)" by fastforce
  have "b \<noteq> []" using assms Cons p by (auto simp: wq_wf_def)
  then obtain e es where "b = e # es" by (cases b) auto
  then show ?thesis
    using Cons p by (simp add: peek_def next_timestamp_def bt_get_Cons)
qed

lemma peek_state: "snd (peek q) = q"
  by (simp add: peek_def split: option.split list.split)

section \<open>The contract of the queue\<close>

text \<open>
  What a client of a waiting queue may rely on: entering a new element, entering one twice,
  removing, and that the element served next has the least timestamp and comes first among the
  elements of that timestamp.  The last two laws need that no element waits at the timestamp 0,
  which \<open>peek\<close> takes for an empty queue.
\<close>

locale time_queue =
  fixes enq :: "int \<Rightarrow> 'a \<Rightarrow> ('q, unit) prog"
    and deq :: "int \<Rightarrow> 'a \<Rightarrow> ('q, unit) prog"
    and pk :: "('q, (int \<times> 'a) option) prog"
    and items :: "'q \<Rightarrow> (int \<times> 'a) set"
    and size_of :: "'q \<Rightarrow> int"
    and inv :: "'q \<Rightarrow> bool"
    and elems :: "'a set"
    and before :: "'a \<Rightarrow> 'a \<Rightarrow> bool"
  assumes enq_new: "inv q \<Longrightarrow> x \<in> elems \<Longrightarrow> (t, x) \<notin> items q \<Longrightarrow>
      \<exists>q'. enq t x q = (Inr (), q') \<and> inv q' \<and> items q' = insert (t, x) (items q)"
    and enq_dup: "inv q \<Longrightarrow> x \<in> elems \<Longrightarrow> (t, x) \<in> items q \<Longrightarrow>
      enq t x q = (Inl DuplicateElementException, q)"
    and deq_mem: "inv q \<Longrightarrow> x \<in> elems \<Longrightarrow> (t, x) \<in> items q \<Longrightarrow>
      \<exists>q'. deq t x q = (Inr (), q') \<and> inv q' \<and> items q' = items q - {(t, x)}"
    and deq_absent: "inv q \<Longrightarrow> x \<in> elems \<Longrightarrow> (t, x) \<notin> items q \<Longrightarrow> deq t x q = (Inl KeyError, q)"
    and pk_least: "inv q \<Longrightarrow> items q \<noteq> {} \<Longrightarrow> \<forall>(t, x) \<in> items q. t \<noteq> 0 \<Longrightarrow>
      \<exists>t x. pk q = (Inr (Some (t, x)), q) \<and> (t, x) \<in> items q
        \<and> (\<forall>(t', x') \<in> items q. t < t' \<or> t = t' \<and> (x = x' \<or> before x x'))"
    and pk_empty: "inv q \<Longrightarrow> items q = {} \<Longrightarrow> pk q = (Inr None, q)"
    and items_elems: "inv q \<Longrightarrow> (t, x) \<in> items q \<Longrightarrow> x \<in> elems"
    and items_finite: "inv q \<Longrightarrow> finite (items q)"
    and size_items: "inv q \<Longrightarrow> size_of q = int (card (items q))"
begin

lemma enq_keeps: "x \<in> elems \<Longrightarrow> keeps inv (enq t x)"
  by (rule keepsI) (metis enq_new enq_dup snd_conv)

lemma deq_keeps: "x \<in> elems \<Longrightarrow> keeps inv (deq t x)"
  by (rule keepsI) (metis deq_mem deq_absent snd_conv)

text \<open>An element that was entered can be taken out again, and the queue holds what it held.\<close>

lemma enq_deq:
  assumes "inv q" "x \<in> elems" "(t, x) \<notin> items q"
  obtains q1 q2 where "enq t x q = (Inr (), q1)" "deq t x q1 = (Inr (), q2)"
    "inv q2" "items q2 = items q" "size_of q2 = size_of q"
proof -
  obtain q1 where q1: "enq t x q = (Inr (), q1)" "inv q1" "items q1 = insert (t, x) (items q)"
    using enq_new [OF assms] by blast
  obtain q2 where q2: "deq t x q1 = (Inr (), q2)" "inv q2" "items q2 = items q1 - {(t, x)}"
    using deq_mem [OF q1(2) assms(2)] q1(3) by blast
  have eq: "items q2 = items q" using q1(3) q2(3) assms(3) by auto
  show ?thesis
    by (rule that [OF q1(1) q2(1,2) eq]) (simp add: size_items q2(2) assms(1) eq)
qed

lemma size_enq:
  "inv q \<Longrightarrow> x \<in> elems \<Longrightarrow> (t, x) \<notin> items q \<Longrightarrow> size_of (snd (enq t x q)) = size_of q + 1"
  using enq_new [of q x t] size_items items_finite [of q] by auto

text \<open>Serving the queue until it is empty: one \<open>peek\<close> and one \<open>dequeue\<close> per element.\<close>

fun serve :: "nat \<Rightarrow> 'q \<Rightarrow> (int \<times> 'a) list" where
  "serve 0 q = []"
| "serve (Suc n) q = (case pk q of
       (Inr (Some (t, x)), q') \<Rightarrow> (t, x) # serve n (snd (deq t x q'))
     | _ \<Rightarrow> [])"

lemma serve_all:
  "inv q \<Longrightarrow> card (items q) \<le> n \<Longrightarrow> \<forall>(t, x) \<in> items q. t \<noteq> 0 \<Longrightarrow>
     sorted (map fst (serve n q)) \<and> distinct (serve n q) \<and> set (serve n q) = items q"
proof (induction n arbitrary: q)
  case 0
  then show ?case using items_finite [of q] by auto
next
  case (Suc n)
  show ?case
  proof (cases "items q = {}")
    case True
    then show ?thesis using pk_empty Suc.prems(1) by simp
  next
    case False
    obtain t x where tx: "pk q = (Inr (Some (t, x)), q)" "(t, x) \<in> items q"
      "\<forall>(t', x') \<in> items q. t < t' \<or> t = t' \<and> (x = x' \<or> before x x')"
      using pk_least [OF Suc.prems(1) False Suc.prems(3)] by (elim exE conjE) (rule that)
    have "x \<in> elems" using items_elems Suc.prems(1) tx(2) by blast
    then obtain q' where q': "deq t x q = (Inr (), q')" "inv q'" "items q' = items q - {(t, x)}"
      using deq_mem Suc.prems(1) tx(2) by blast
    have "card (items q') \<le> n"
      using Suc.prems(2) q'(3) tx(2) items_finite [OF Suc.prems(1)] by simp
    then have IH: "sorted (map fst (serve n q'))" "distinct (serve n q')" "set (serve n q') = items q'"
      using Suc.IH [OF q'(2)] Suc.prems(3) q'(3) by auto
    have eq: "serve (Suc n) q = (t, x) # serve n q'" using tx(1) q'(1) by simp
    have "t \<le> t'" if "(t', x') \<in> items q'" for t' x'
      using that tx(3) q'(3) by auto
    then have "sorted (map fst (serve (Suc n) q))" using IH eq by auto
    moreover have "set (serve (Suc n) q) = items q" using IH(3) eq q'(3) tx(2) by auto
    moreover have "distinct (serve (Suc n) q)" using IH eq q'(3) by auto
    ultimately show ?thesis by simp
  qed
qed

end

text \<open>
  The source's queue satisfies the contract for every comparison that separates its elements: one
  contract gives the other, and each comparison of the model gives an instance.
\<close>

context cmp_sep
begin

lemma enqueue_new_wf:
  assumes wf: "wq_wf cmp carrier q" and x: "x \<in> carrier" and new: "(t, x) \<notin> wq_items q"
  shows "\<exists>q'. enqueue cmp t x q = (Inr (), q') \<and> wq_wf cmp carrier q'
    \<and> wq_items q' = insert (t, x) (wq_items q)"
proof -
  have bw: "bt_wf (container q)" and cnt: "elem_counter q = int (bins_size (container q))"
    using wf by (auto simp: wq_wf_def wq_iter_length)
  show ?thesis
  proof (cases "bt_get t (container q)")
    case None
    let ?q = "q\<lparr>container := bt_put t [x] (container q), elem_counter := elem_counter q + 1\<rparr>"
    have "wq_items ?q = insert (t, x) (wq_items q)"
      using bw None by (auto simp: wq_items_get bt_wf_put bt_get_put split: if_splits)
    moreover have "wq_wf cmp carrier ?q"
    proof (rule wq_wfI)
      show "b \<noteq> [] \<and> ts_wf cmp b \<and> set b \<subseteq> carrier" if "bt_get k (container ?q) = Some b" for k b
        using that x wq_wf_bin [OF wf, of k b] by (auto simp: bt_get_put split: if_splits)
    qed (use bw None cnt in \<open>simp_all add: wq_iter_length bt_wf_put bins_size_new\<close>)
    ultimately show ?thesis using None by (simp add: enqueue_run)
  next
    case (Some b)
    have b: "b \<noteq> []" "ts_wf cmp b" "set b \<subseteq> carrier"
      using wq_wf_bin [OF wf Some] by auto
    have xb: "x \<notin> set b" using new Some bw by (auto simp: wq_items_get)
    let ?q = "q\<lparr>container := bt_put t (ts_add cmp x b) (container q), elem_counter := elem_counter q + 1\<rparr>"
    have "wq_items ?q = insert (t, x) (wq_items q)"
      using bw Some b x by (auto simp: wq_items_get bt_wf_put bt_get_put ts_set_add split: if_splits)
    moreover have "bins_size (bt_put t (ts_add cmp x b) (container q)) = Suc (bins_size (container q))"
      using bins_size_change(1) [OF bw Some, of "ts_add cmp x b"] ts_length_add [OF b(2,3) x] xb by simp
    moreover have "wq_wf cmp carrier ?q"
    proof (rule wq_wfI)
      show "b' \<noteq> [] \<and> ts_wf cmp b' \<and> set b' \<subseteq> carrier" if "bt_get k (container ?q) = Some b'" for k b'
        using that x b wq_wf_bin [OF wf, of k b'] ts_wf_add [OF b(2,3) x] ts_set_add [OF b(3) x]
        by (auto simp: bt_get_put split: if_splits)
    qed (use bw cnt calculation(2) in \<open>simp_all add: wq_iter_length bt_wf_put\<close>)
    ultimately show ?thesis
      using Some b x xb by (simp add: enqueue_run ts_mem_iff)
  qed
qed

lemma dequeue_wf:
  assumes wf: "wq_wf cmp carrier q" and x: "x \<in> carrier" and mem: "(t, x) \<in> wq_items q"
  shows "\<exists>q'. dequeue cmp t x q = (Inr (), q') \<and> wq_wf cmp carrier q'
    \<and> wq_items q' = wq_items q - {(t, x)}"
proof -
  have bw: "bt_wf (container q)" and cnt: "elem_counter q = int (bins_size (container q))"
    using wf by (auto simp: wq_wf_def wq_iter_length)
  obtain b where Some: "bt_get t (container q) = Some b" and xb: "x \<in> set b"
    using mem bw by (auto simp: wq_items_get)
  have b: "b \<noteq> []" "ts_wf cmp b" "set b \<subseteq> carrier" "distinct b"
    using wq_wf_bin [OF wf Some] ts_wf_distinct by auto
  let ?b = "remove1 x b"
  define c where "c = (if ?b = [] then bt_del t (container q) else bt_put t ?b (container q))"
  let ?q = "q\<lparr>container := c, elem_counter := elem_counter q - 1\<rparr>"
  have rm: "ts_remove cmp x b = Inr ?b" using ts_remove_eq [OF b(3) x] xb by simp
  have len: "length b = Suc (length ?b)" using xb b(1) by (simp add: length_remove1)
  have size: "Suc (bins_size c) = bins_size (container q)"
    using bins_size_change(1) [OF bw Some, of ?b] bins_size_change(2) [OF bw Some] len
    by (auto simp: c_def)
  have setb: "set ?b = set b - {x}" using b(4) by simp
  have wfc: "bt_wf c" using bw by (simp add: c_def bt_wf_put bt_wf_del)
  have getc: "bt_get k c = (if k = t then (if ?b = [] then None else Some ?b)
      else bt_get k (container q))" for k
    by (simp add: c_def bt_get_put bt_get_del)
  have "(k, y) \<in> wq_items ?q \<longleftrightarrow> (k, y) \<in> wq_items q \<and> (k, y) \<noteq> (t, x)" for k y
    using wq_items_get [of ?q k y] wq_items_get [OF bw, of k y] wfc Some setb
    by (cases "k = t"; cases "?b = []") (auto simp: getc)
  then have "wq_items ?q = wq_items q - {(t, x)}" by auto
  moreover have "wq_wf cmp carrier ?q"
  proof (rule wq_wfI)
    show "b' \<noteq> [] \<and> ts_wf cmp b' \<and> set b' \<subseteq> carrier" if "bt_get k (container ?q) = Some b'" for k b'
      using that wq_wf_bin [OF wf, of k b'] b ts_wf_remove1 [OF b(2)] setb
      by (cases "k = t"; cases "?b = []") (auto simp: getc)
  qed (use wfc size cnt in \<open>simp_all add: wq_iter_length\<close>)
  ultimately show ?thesis
    using Some rm by (auto simp: dequeue_run c_def)
qed

lemma dequeue_absent:
  assumes wf: "wq_wf cmp carrier q" and x: "x \<in> carrier" and "(t, x) \<notin> wq_items q"
  shows "dequeue cmp t x q = (Inl KeyError, q)"
proof (cases "bt_get t (container q)")
  case (Some b)
  then have "x \<notin> set b" using assms by (auto simp: wq_items_get wq_wf_def)
  with Some show ?thesis
    using wq_wf_bin [OF wf Some] x by (simp add: dequeue_run ts_remove_eq)
qed (simp add: dequeue_run)

lemma peek_least:
  assumes wf: "wq_wf cmp carrier q" and ne: "wq_items q \<noteq> {}" and nz: "\<forall>(t, x) \<in> wq_items q. t \<noteq> 0"
  shows "\<exists>t x. peek q = (Inr (Some (t, x)), q) \<and> (t, x) \<in> wq_items q
        \<and> (\<forall>(t', x') \<in> wq_items q. t < t' \<or> t = t' \<and> (x = x' \<or> cmp x x' < 0))"
proof -
  obtain t b c where c: "container q = (t, b) # c"
    using ne by (cases "container q") (auto simp: wq_items_def wq_iter_def)
  have b: "b \<noteq> []" "ts_wf cmp b" using wq_wf_bin [OF wf, of t b] c by (auto simp: bt_get_Cons)
  then obtain e es where e: "b = e # es" by (cases b) auto
  have mem: "(t, e) \<in> wq_items q" using c e by (simp add: wq_items_def wq_iter_def)
  then have t0: "t \<noteq> 0" using nz by auto
  have bw: "bt_wf (container q)" using wf by (simp add: wq_wf_def)
  have "t < t' \<or> t = t' \<and> (e = x' \<or> cmp e x' < 0)" if "(t', x') \<in> wq_items q" for t' x'
    using that bw c e b(2) by (auto simp: wq_items_def wq_iter_def bt_wf_def)
  then show ?thesis
    using peek_run [OF wf] c e t0 mem by auto
qed

end

sublocale cmp_sep \<subseteq> wq: time_queue "enqueue cmp" "dequeue cmp" peek wq_items wq_len
  "wq_wf cmp carrier" carrier "\<lambda>x y. cmp x y < 0"
proof
  fix q t x
  assume wf: "wq_wf cmp carrier q"
  show "enqueue cmp t x q = (Inl DuplicateElementException, q)"
    if "x \<in> carrier" "(t, x) \<in> wq_items q"
    using that wf wq_wf_bin [OF wf, of t] by (auto simp: wq_items_get wq_wf_def enqueue_run ts_mem_iff)
  show "peek q = (Inr None, q)" if "wq_items q = {}"
    using that wf by (cases "container q") (fastforce simp: peek_run wq_items_def wq_iter_def wq_wf_def)+
  show "x \<in> carrier" if "(t, x) \<in> wq_items q"
    using that wf wq_wf_bin [OF wf, of t] by (auto simp: wq_items_get wq_wf_def)
  show "finite (wq_items q)" by (simp add: wq_items_def)
  have "distinct (wq_iter q)"
    using wf wq_wf_bin [OF wf] ts_wf_distinct
    by (intro wq_iter_distinct) (fastforce simp: wq_wf_def)+
  then show "wq_len q = int (card (wq_items q))"
    using wf by (simp add: wq_len_def wq_wf_def wq_items_def distinct_card)
qed (simp_all add: enqueue_new_wf dequeue_wf dequeue_absent peek_least)

section \<open>What the queue promises\<close>

text \<open>Popping until the queue is empty, at most \<open>n\<close> times.\<close>

fun drain :: "('a \<Rightarrow> 'a \<Rightarrow> int) \<Rightarrow> nat \<Rightarrow> 'a wqueue \<Rightarrow> (int \<times> 'a) list" where
  "drain cmp 0 q = []"
| "drain cmp (Suc n) q = (case pop cmp q of
       (Inr (Some p), q') \<Rightarrow> p # drain cmp n q'
     | _ \<Rightarrow> [])"

lemma remove1_ts_add: "x \<notin> set s \<Longrightarrow> remove1 x (ts_add cmp x s) = s \<or> ts_mem cmp x s"
  by (induction s) (auto simp: ts_mem_def)

lemma pop_first:
  assumes c: "cmp_sep cmp A" and wf: "wq_wf cmp A q" and q: "container q = (t, e # es) # r" and t: "t \<noteq> 0"
  shows "\<exists>q'. pop cmp q = (Inr (Some (t, e)), q') \<and> wq_wf cmp A q' \<and> wq_iter q = (t, e) # wq_iter q'
    \<and> container q' = (if es = [] then r else (t, es) # r)"
proof -
  have e: "e \<in> A" using wf q by (simp add: wq_wf_def)
  have mem: "(t, e) \<in> wq_items q" using q by (simp add: wq_items_def wq_iter_def)
  obtain q' where q': "dequeue cmp t e q = (Inr (), q')" "wq_wf cmp A q'"
    using cmp_sep.dequeue_wf [OF c wf e mem] by blast
  have b: "ts_remove cmp e (e # es) = Inr es"
    using cmp_sep.ts_remove_eq [OF c, of "e # es" e] wf q by (simp add: wq_wf_def)
  have del: "bt_del t (container q) = r"
    using wf q bt_del_absent [of t r] by (auto simp: wq_wf_def bt_wf_def bt_del_def bt_get_def map_of_eq_None_iff)
  have c': "container q' = (if es = [] then r else (t, es) # r)"
    using q'(1) q b del by (auto simp: dequeue_run bt_get_Cons split: if_splits)
  then have "wq_iter q = (t, e) # wq_iter q'" using q by (simp add: wq_iter_def)
  then show ?thesis
    using q' c' peek_run [OF wf] q t by (simp add: pop_def)
qed

lemma drain_serves_in_order_facts:
  assumes "cmp_sep cmp A" "wq_wf cmp A q" "\<forall>(t, x) \<in> wq_items q. t \<noteq> 0" "wq_len q \<le> int n"
  shows "drain cmp n q = wq_iter q"
    and "sorted_wrt (\<lambda>(t, x) (u, y). t < u \<or> t = u \<and> cmp x y < 0) (wq_iter q)"
proof -
  show "drain cmp n q = wq_iter q"
    using assms(2-4)
  proof (induction n arbitrary: q)
    case 0
    then show ?case by (simp add: wq_len_def wq_wf_def)
  next
    case (Suc n)
    show ?case
    proof (cases "container q")
      case Nil
      then show ?thesis using peek_run [OF Suc.prems(1)] by (simp add: pop_def wq_iter_def)
    next
      case (Cons p r)
      obtain t b where p: "p = (t, b)" by fastforce
      obtain e es where b: "b = e # es" using Suc.prems(1) Cons p by (cases b) (auto simp: wq_wf_def)
      have t: "t \<noteq> 0" using Suc.prems(2) Cons p b by (auto simp: wq_items_def wq_iter_def)
      obtain q' where q': "pop cmp q = (Inr (Some (t, e)), q')" "wq_wf cmp A q'" "wq_iter q = (t, e) # wq_iter q'"
        using pop_first [OF assms(1) Suc.prems(1) Cons [unfolded p b] t] by blast
      have "wq_len q' \<le> int n"
        using Suc.prems(1,3) q'(2,3) by (simp add: wq_len_def wq_wf_def)
      moreover have "\<forall>(t, x) \<in> wq_items q'. t \<noteq> 0" using Suc.prems(2) q'(3) by (auto simp: wq_items_def)
      ultimately show ?thesis using Suc.IH [OF q'(2)] q'(1,3) by simp
    qed
  qed
  have "bt_wf c \<Longrightarrow> \<forall>(t, b) \<in> set c. ts_wf cmp b \<Longrightarrow>
      sorted_wrt (\<lambda>(t, x) (u, y). t < u \<or> t = u \<and> cmp x y < 0) (concat (map (\<lambda>(t, b). map (Pair t) b) c))"
    for c :: "(int \<times> 'a list) list"
    by (induction c) (auto simp: bt_wf_def ts_wf_def sorted_wrt_append sorted_wrt_map)
  then show "sorted_wrt (\<lambda>(t, x) (u, y). t < u \<or> t = u \<and> cmp x y < 0) (wq_iter q)"
    using assms(2) by (auto simp: wq_wf_def wq_iter_def)
qed

text \<open>Popping serves all elements once, in the order of the iteration: by ascending timestamp,
  and among the elements of one timestamp by their comparison.  (No element waits at timestamp 0.)\<close>

theorem drain_serves_in_order:
  assumes "cmp_sep cmp A" "wq_wf cmp A q" "\<forall>(t, x) \<in> wq_items q. t \<noteq> 0" "wq_len q \<le> int n"
  shows "(drain cmp n q = wq_iter q)
    \<and> (sorted_wrt (\<lambda>(t, x) (u, y). t < u \<or> t = u \<and> cmp x y < 0) (wq_iter q))"
  using drain_serves_in_order_facts [OF assms] by blast

definition sample_queue :: "nat wqueue" where
  "sample_queue = snd (andthen (enqueue py_cmp 7 3) (andthen (enqueue py_cmp 5 9) (enqueue py_cmp 7 2)) wq_reset)"

lemma sample_queue_wf: "wq_wf py_cmp UNIV sample_queue"
proof -
  have "keeps (wq_wf py_cmp (UNIV :: nat set)) (andthen (enqueue py_cmp 7 3) (andthen (enqueue py_cmp 5 9) (enqueue py_cmp 7 2)))"
    by (intro keeps_andthen linord.wq.enq_keeps) simp_all
  then show ?thesis unfolding sample_queue_def by (rule keepsD) simp
qed

theorem drain_serves_in_order_witness: "drain py_cmp 3 sample_queue = [(5, 9), (7, 2), (7, 3)]"
proof -
  have it: "wq_iter sample_queue = [(5, 9), (7, 2), (7, 3)]" "wq_len sample_queue = 3" by code_simp+
  have "drain py_cmp 3 sample_queue = wq_iter sample_queue"
    by (rule drain_serves_in_order [THEN conjunct1, OF linord.cmp_sep_axioms sample_queue_wf])
       (simp_all add: it wq_items_def)
  then show ?thesis using it by simp
qed

text \<open>Taking out what was just entered gives back exactly the queue there was before.\<close>

theorem enqueue_dequeue:
  assumes "cmp_sep cmp A" "wq_wf cmp A q" "x \<in> A" "(t, x) \<notin> wq_items q"
  shows "andthen (enqueue cmp t x) (dequeue cmp t x) q = (Inr (), q)"
proof -
  have bw: "bt_wf (container q)" using assms(2) by (simp add: wq_wf_def)
  show ?thesis
  proof (cases "bt_get t (container q)")
    case None
    have "ts_remove cmp x [x] = Inr []"
      using cmp_sep.ts_remove_eq [OF assms(1), of "[x]" x] assms(3) by simp
    then show ?thesis
      using None by (simp add: enqueue_run dequeue_run bt_get_put bt_del_put bt_del_absent)
  next
    case (Some b)
    have b: "b \<noteq> []" "set b \<subseteq> A" using wq_wf_bin [OF assms(2) Some] by auto
    have xb: "x \<notin> set b" using assms(4) Some bw by (auto simp: wq_items_get)
    have nm: "\<not> ts_mem cmp x b" using cmp_sep.ts_mem_iff [OF assms(1) b(2) assms(3)] xb by simp
    have "set (ts_add cmp x b) = insert x (set b)" by (rule cmp_sep.ts_set_add [OF assms(1) b(2) assms(3)])
    then have "ts_remove cmp x (ts_add cmp x b) = Inr b"
      using cmp_sep.ts_remove_eq [OF assms(1), of "ts_add cmp x b" x] b assms(3) remove1_ts_add [OF xb, of cmp] nm by simp
    then show ?thesis
      using Some nm b(1) by (simp add: enqueue_run dequeue_run bt_get_put bt_put_put bt_put_get [OF bw Some])
  qed
qed

theorem enqueue_dequeue_witness:
  "andthen (enqueue py_cmp 7 5) (dequeue py_cmp 7 5) sample_queue = (Inr (), sample_queue)"
proof -
  have "wq_iter sample_queue = [(5, 9), (7, 2), (7, 3)]" by code_simp
  then show ?thesis
    by (intro enqueue_dequeue [OF linord.cmp_sep_axioms sample_queue_wf]) (simp_all add: wq_items_def)
qed

lemma timestamp_zero_blocks_facts:
  assumes "wq_wf cmp A q" "(0, x) \<in> wq_items q" "\<forall>(t, y) \<in> wq_items q. 0 \<le> t"
  shows "peek q = (Inr None, q)" and "pop cmp q = (Inr None, q)" and "drain cmp n q = []" and "0 < wq_len q"
proof -
  obtain t b c where c: "container q = (t, b) # c"
    using assms(2) by (cases "container q") (auto simp: wq_items_def wq_iter_def)
  have "b \<noteq> []" using assms(1) c by (auto simp: wq_wf_def)
  then have "0 \<le> t" using assms(3) c by (cases b) (auto simp: wq_items_def wq_iter_def)
  moreover have "t \<le> 0" using assms(1,2) c by (auto simp: wq_items_def wq_iter_def wq_wf_def bt_wf_def)
  ultimately show pk: "peek q = (Inr None, q)" using peek_run [OF assms(1)] c by simp
  then show pop: "pop cmp q = (Inr None, q)" by (simp add: pop_def)
  show "drain cmp n q = []" using pop by (cases n) simp_all
  have "wq_iter q \<noteq> []" using assms(2) by (auto simp: wq_items_def)
  then show "0 < wq_len q" using assms(1) by (simp add: wq_len_def wq_wf_def)
qed

text \<open>An element at timestamp 0 blocks a queue whose timestamps are not negative: \<open>peek\<close> and
  \<open>pop\<close> answer \<open>None\<close>, as they do for an empty queue, whatever waits behind it.\<close>

theorem timestamp_zero_blocks:
  assumes "wq_wf cmp A q" "(0, x) \<in> wq_items q" "\<forall>(t, y) \<in> wq_items q. 0 \<le> t"
  shows "(peek q = (Inr None, q))
    \<and> (pop cmp q = (Inr None, q))
    \<and> (drain cmp n q = [])
    \<and> (0 < wq_len q)"
  using timestamp_zero_blocks_facts [OF assms] by blast

theorem timestamp_zero_blocks_witness:
  "peek (snd (enqueue py_cmp 0 4 sample_queue)) = (Inr None, snd (enqueue py_cmp 0 4 sample_queue))"
proof (rule timestamp_zero_blocks [THEN conjunct1])
  show "wq_wf py_cmp UNIV (snd (enqueue py_cmp 0 4 sample_queue))"
    by (rule keepsD [OF linord.wq.enq_keeps sample_queue_wf]) simp
  have "wq_iter (snd (enqueue py_cmp 0 4 sample_queue)) = [(0, 4), (5, 9), (7, 2), (7, 3)]" by code_simp
  then show "(0, 4) \<in> wq_items (snd (enqueue py_cmp 0 4 sample_queue))"
    "\<forall>(t, y) \<in> wq_items (snd (enqueue py_cmp 0 4 sample_queue)). 0 \<le> t"
    by (simp_all add: wq_items_def)
qed

end
