(* ===== verification/Obj_Index.thy ===== *)
theory Obj_Index
  imports BTrees "HOL-Library.List_Lexorder" "HOL-Library.Char_ord"
begin

text \<open>
  The indexes of \<open>indico/core/index/base.py\<close>.  \<open>SIndex\<close> maps each value of an object to the set
  of objects with that value; \<open>DIndex\<close> adds the reverse mapping from an object's unique id to its
  values, so that an object can be taken out after its value has changed.  The adapter that
  computes an object's values, the interfaces it provides and its unique id are arguments.  The
  invariant \<open>di_wf\<close> says that the two mappings describe the same set of entries and that the
  counter is the number of objects.
\<close>

section \<open>The index and its methods\<close>

record ('k, 'o) dindex =
  fwd_index :: "('k \<times> 'o list) list"
  num_objs :: int
  rev_index :: "(string \<times> 'k list) list"

definition di_init :: "('k, 'o) dindex" where
  "di_init = \<lparr>fwd_index = [], num_objs = 0, rev_index = []\<rparr>"

definition gc_entry :: "'k \<Rightarrow> (('k::linorder, 'o) dindex, unit) prog" where
  "gc_entry v = bnd (gets fwd_index) (\<lambda>f. case bt_get v f of
       None \<Rightarrow> raise_exn KeyError
     | Some s \<Rightarrow> when_do (length s = 0) (modify (\<lambda>d. d\<lparr>fwd_index := bt_del v (fwd_index d)\<rparr>)))"

definition s_index_value :: "('o \<Rightarrow> 'o \<Rightarrow> int) \<Rightarrow> 'o \<Rightarrow> 'k \<Rightarrow> (('k::linorder, 'o) dindex, unit) prog" where
  "s_index_value cmp x v = bnd (gets fwd_index) (\<lambda>f.
     let vset = (case bt_get v f of None \<Rightarrow> [] | Some s \<Rightarrow> s) in
     if ts_mem cmp x vset then raise_exn InconsistentIndexException
     else modify (\<lambda>d. d\<lparr>fwd_index := bt_put v (ts_add cmp x vset) (fwd_index d)\<rparr>))"

definition s_index_obj :: "('o \<Rightarrow> 'o \<Rightarrow> int) \<Rightarrow> 'k list \<Rightarrow> 'o \<Rightarrow> (('k::linorder, 'o) dindex, unit) prog" where
  "s_index_obj cmp values x =
     andthen (for_each values (s_index_value cmp x)) (modify (\<lambda>d. d\<lparr>num_objs := num_objs d + 1\<rparr>))"

definition unindex_obj_from_key :: "('o \<Rightarrow> 'o \<Rightarrow> int) \<Rightarrow> 'o \<Rightarrow> 'k \<Rightarrow> (('k::linorder, 'o) dindex, unit) prog" where
  "unindex_obj_from_key cmp x key = bnd (gets fwd_index) (\<lambda>f. case bt_get key f of
       None \<Rightarrow> raise_exn InconsistentIndexException
     | Some vset \<Rightarrow>
         if ts_mem cmp x vset then
           bnd (lift_res (ts_remove cmp x vset)) (\<lambda>vset'.
             andthen (modify (\<lambda>d. d\<lparr>fwd_index := bt_put key vset' (fwd_index d)\<rparr>)) (gc_entry key))
         else raise_exn InconsistentIndexException)"

definition s_unindex_obj :: "('o \<Rightarrow> 'o \<Rightarrow> int) \<Rightarrow> 'k list \<Rightarrow> 'o \<Rightarrow> (('k::linorder, 'o) dindex, unit) prog" where
  "s_unindex_obj cmp keys x =
     andthen (for_each keys (unindex_obj_from_key cmp x)) (modify (\<lambda>d. d\<lparr>num_objs := num_objs d - 1\<rparr>))"

definition has_obj :: "string \<Rightarrow> ('k, 'o) dindex \<Rightarrow> bool" where
  "has_obj uid d \<longleftrightarrow> bt_get uid (rev_index d) \<noteq> None"

text \<open>
  \<open>DIndex.index_obj\<close> collects the values in the object's reverse set.  A set that is already in
  the reverse index is changed in place, so values inserted before an exception stay; a new set is
  stored only after the loop.  The adapter is asked twice, here and again in \<open>SIndex.index_obj\<close>:
  \<open>values\<close> and \<open>fwd_values\<close> are its two answers.
\<close>

fun rev_insert :: "bool \<Rightarrow> string \<Rightarrow> 'k list \<Rightarrow> 'k list \<Rightarrow> (('k::linorder, 'o) dindex, 'k list) prog" where
  "rev_insert stored uid ts [] = ret ts"
| "rev_insert stored uid ts (v # vs) =
     (if ts_mem py_cmp v ts then raise_exn ElementAlreadyInIndexException
      else andthen (when_do stored (modify (\<lambda>d. d\<lparr>rev_index := bt_put uid (ts_add py_cmp v ts) (rev_index d)\<rparr>)))
                   (rev_insert stored uid (ts_add py_cmp v ts) vs))"

definition d_index_obj :: "('o \<Rightarrow> 'o \<Rightarrow> int) \<Rightarrow> ('o \<Rightarrow> string) \<Rightarrow> bool \<Rightarrow> bool \<Rightarrow> 'k list \<Rightarrow> 'k list \<Rightarrow> 'o
    \<Rightarrow> (('k::linorder, 'o) dindex, string \<times> 'k) prog" where
  "d_index_obj cmp uid provides_uid provides_adapter values fwd_values x =
     (if \<not> provides_uid then raise_exn NonIndexableException
      else if \<not> provides_adapter then raise_exn NonIndexableException
      else bnd (gets rev_index) (\<lambda>r.
        let stored = (bt_get (uid x) r \<noteq> None);
            ts = (case bt_get (uid x) r of None \<Rightarrow> [] | Some s \<Rightarrow> s) in
        bnd (rev_insert stored (uid x) ts values) (\<lambda>ts'.
        andthen (modify (\<lambda>d. d\<lparr>rev_index := bt_put (uid x) ts' (rev_index d)\<rparr>))
        (andthen (s_index_obj cmp fwd_values x)
        (case values of [] \<Rightarrow> raise_exn NameError | _ \<Rightarrow> ret (uid x, last values))))))"

definition d_unindex_obj :: "('o \<Rightarrow> 'o \<Rightarrow> int) \<Rightarrow> ('o \<Rightarrow> string) \<Rightarrow> 'o \<Rightarrow> (('k::linorder, 'o) dindex, unit) prog" where
  "d_unindex_obj cmp uid x = bnd (gets rev_index) (\<lambda>r. case bt_get (uid x) r of
       None \<Rightarrow> raise_exn ElementNotFoundException
     | Some keys \<Rightarrow>
         andthen (modify (\<lambda>d. d\<lparr>rev_index := bt_del (uid x) (rev_index d)\<rparr>))
         (andthen (for_each keys (unindex_obj_from_key cmp x))
                  (modify (\<lambda>d. d\<lparr>num_objs := num_objs d - 1\<rparr>))))"

definition di_values :: "('k, 'o) dindex \<Rightarrow> 'o list" where
  "di_values d = concat (map snd (fwd_index d))"

definition di_iteritems :: "('k, 'o) dindex \<Rightarrow> ('k \<times> 'o) list" where
  "di_iteritems d = concat (map (\<lambda>(k, s). map (Pair k) s) (fwd_index d))"

definition di_minKey :: "('k, 'o) dindex \<Rightarrow> exn + 'k" where
  "di_minKey d = (case fwd_index d of [] \<Rightarrow> Inl ValueError | (k, _) # _ \<Rightarrow> Inr k)"

definition di_maxKey :: "('k, 'o) dindex \<Rightarrow> exn + 'k" where
  "di_maxKey d = (case fwd_index d of [] \<Rightarrow> Inl ValueError | _ \<Rightarrow> Inr (fst (last (fwd_index d))))"

definition di_len :: "('k, 'o) dindex \<Rightarrow> int" where
  "di_len d = num_objs d"

definition di_clear :: "(('k, 'o) dindex, unit) prog" where
  "di_clear = modify (\<lambda>d. d\<lparr>fwd_index := [], num_objs := 0, rev_index := []\<rparr>)"

text \<open>
  \<open>_check\<close> compares the two mappings.  The messages of its first loop format a variable \<open>ts\<close>
  that does not exist, so there the first problem found raises \<open>NameError\<close>; the second loop
  reports every problem.
\<close>

datatype 'k problem =
    KeyNotInFwd string 'k
  | ObjectNotInFwd string 'k

definition check_fwd :: "('o \<Rightarrow> string) \<Rightarrow> ('k::linorder, 'o) dindex \<Rightarrow> bool" where
  "check_fwd uid d \<longleftrightarrow> list_all (\<lambda>(k, s). s \<noteq> [] \<and> list_all (\<lambda>x.
     (case bt_get (uid x) (rev_index d) of None \<Rightarrow> False | Some ks \<Rightarrow> ts_mem py_cmp k ks)) s) (fwd_index d)"

definition check_rev :: "('o \<Rightarrow> string) \<Rightarrow> ('k::linorder, 'o) dindex \<Rightarrow> 'k problem list" where
  "check_rev uid d = concat (map (\<lambda>(u, ks). concat (map (\<lambda>k.
     (case bt_get k (fwd_index d) of
        None \<Rightarrow> [KeyNotInFwd u k]
      | Some s \<Rightarrow> if u \<notin> set (map uid s) then [ObjectNotInFwd u k] else [])) ks)) (rev_index d))"

definition di_check :: "('o \<Rightarrow> string) \<Rightarrow> ('k::linorder, 'o) dindex \<Rightarrow> exn + 'k problem list" where
  "di_check uid d = (if check_fwd uid d then Inr (check_rev uid d) else Inl NameError)"

section \<open>The invariant\<close>

definition di_entries :: "('k, 'o) dindex \<Rightarrow> ('k \<times> 'o) set" where
  "di_entries d = {(k, x). \<exists>s. bt_get k (fwd_index d) = Some s \<and> x \<in> set s}"

definition rev_entries :: "('k, 'o) dindex \<Rightarrow> (string \<times> 'k) set" where
  "rev_entries d = {(u, k). \<exists>ks. bt_get u (rev_index d) = Some ks \<and> k \<in> set ks}"

definition di_wf :: "('o \<Rightarrow> 'o \<Rightarrow> int) \<Rightarrow> ('o \<Rightarrow> string) \<Rightarrow> 'o set \<Rightarrow> ('k::linorder, 'o) dindex \<Rightarrow> bool" where
  "di_wf cmp uid A d \<longleftrightarrow> bt_wf (fwd_index d) \<and> bt_wf (rev_index d)
     \<and> (\<forall>k s. bt_get k (fwd_index d) = Some s \<longrightarrow> s \<noteq> [] \<and> ts_wf cmp s \<and> set s \<subseteq> A)
     \<and> (\<forall>u ks. bt_get u (rev_index d) = Some ks \<longrightarrow> ks \<noteq> [] \<and> ts_wf py_cmp ks)
     \<and> rev_entries d = (\<lambda>(k, x). (uid x, k)) ` di_entries d
     \<and> num_objs d = int (length (rev_index d))"

text \<open>An index of objects, as its clients see it: which entries it holds.\<close>

locale object_index =
  fixes ins :: "'k list \<Rightarrow> 'o \<Rightarrow> ('d, 'r) prog"
    and del :: "'o \<Rightarrow> ('d, unit) prog"
    and entries :: "'d \<Rightarrow> ('k \<times> 'o) set"
    and count :: "'d \<Rightarrow> int"
    and inv :: "'d \<Rightarrow> bool"
    and elems :: "'o set"
  assumes ins_new: "inv d \<Longrightarrow> x \<in> elems \<Longrightarrow> x \<notin> snd ` entries d \<Longrightarrow> vs \<noteq> [] \<Longrightarrow> distinct vs \<Longrightarrow>
      \<exists>r d'. ins vs x d = (Inr r, d') \<and> inv d' \<and> entries d' = entries d \<union> set vs \<times> {x}
        \<and> count d' = count d + 1"
    and del_mem: "inv d \<Longrightarrow> x \<in> elems \<Longrightarrow> x \<in> snd ` entries d \<Longrightarrow>
      \<exists>d'. del x d = (Inr (), d') \<and> inv d' \<and> entries d' = {(k, y) \<in> entries d. y \<noteq> x}
        \<and> count d' = count d - 1"
    and del_absent: "inv d \<Longrightarrow> x \<in> elems \<Longrightarrow> x \<notin> snd ` entries d \<Longrightarrow>
      del x d = (Inl ElementNotFoundException, d)"
begin

lemma ins_del:
  assumes "inv d" "x \<in> elems" "x \<notin> snd ` entries d" "vs \<noteq> []" "distinct vs"
  shows "\<exists>r d1 d2. ins vs x d = (Inr r, d1) \<and> del x d1 = (Inr (), d2) \<and> inv d2
    \<and> entries d2 = entries d \<and> count d2 = count d"
proof -
  obtain r d1 where d1: "ins vs x d = (Inr r, d1)" "inv d1" "entries d1 = entries d \<union> set vs \<times> {x}"
    "count d1 = count d + 1"
    using ins_new [OF assms] by blast
  have "x \<in> snd ` entries d1" using d1(3) assms(4) by (cases vs) force+
  then obtain d2 where d2: "del x d1 = (Inr (), d2)" "inv d2"
    "entries d2 = {(k, y) \<in> entries d1. y \<noteq> x}" "count d2 = count d1 - 1"
    using del_mem [OF d1(2) assms(2)] by blast
  have "entries d2 = entries d" using d2(3) d1(3) assms(3) by (auto simp: image_iff)
  then show ?thesis using d1 d2 by auto
qed

lemma del_keeps: "x \<in> elems \<Longrightarrow> keeps inv (del x)"
proof (rule keepsI)
  fix d assume "x \<in> elems" "inv d"
  then show "inv (snd (del x d))"
    using del_mem [of d x] del_absent [of d x] by (cases "x \<in> snd ` entries d") auto
qed

end

section \<open>The methods keep the invariant\<close>

definition fwd_wf :: "('o \<Rightarrow> 'o \<Rightarrow> int) \<Rightarrow> 'o set \<Rightarrow> ('k::linorder \<times> 'o list) list \<Rightarrow> bool" where
  "fwd_wf cmp A f \<longleftrightarrow> bt_wf f \<and> (\<forall>k s. bt_get k f = Some s \<longrightarrow> s \<noteq> [] \<and> ts_wf cmp s \<and> set s \<subseteq> A)"

definition fwd_ent :: "('k \<times> 'o list) list \<Rightarrow> ('k \<times> 'o) set" where
  "fwd_ent f = {(k, x). \<exists>s. bt_get k f = Some s \<and> x \<in> set s}"

lemma di_entries_fwd: "di_entries d = fwd_ent (fwd_index d)"
  by (simp add: di_entries_def fwd_ent_def)

lemma di_wf_fwd: "di_wf cmp uid A d \<Longrightarrow> fwd_wf cmp A (fwd_index d)"
  by (simp add: di_wf_def fwd_wf_def)

lemma rev_insert_new:
  "ts_wf py_cmp ts \<Longrightarrow> distinct vs \<Longrightarrow> set ts \<inter> set vs = {} \<Longrightarrow>
     \<exists>ts'. rev_insert False u ts vs d = (Inr ts', d) \<and> ts_wf py_cmp ts' \<and> set ts' = set ts \<union> set vs"
proof (induction vs arbitrary: ts)
  case (Cons v vs)
  have "\<not> ts_mem py_cmp v ts" using Cons.prems linord.ts_mem_iff [of ts v] by auto
  moreover have "ts_wf py_cmp (ts_add py_cmp v ts)" "set (ts_add py_cmp v ts) = insert v (set ts)"
    using Cons.prems linord.ts_wf_add [of ts v] linord.ts_set_add [of ts v] by auto
  ultimately show ?case
    using Cons.IH [of "ts_add py_cmp v ts"] Cons.prems by auto
qed auto

lemma list_case_ne: "vs \<noteq> [] \<Longrightarrow> (case vs of [] \<Rightarrow> a | _ # _ \<Rightarrow> b) = b"
  by (cases vs) auto

context cmp_sep
begin

lemma s_index_value_new:
  assumes "fwd_wf cmp carrier (fwd_index d)" "x \<in> carrier" "(v, x) \<notin> fwd_ent (fwd_index d)"
  shows "\<exists>f. s_index_value cmp x v d = (Inr (), d\<lparr>fwd_index := f\<rparr>) \<and> fwd_wf cmp carrier f
    \<and> fwd_ent f = insert (v, x) (fwd_ent (fwd_index d))"
proof -
  let ?s = "case bt_get v (fwd_index d) of None \<Rightarrow> [] | Some s \<Rightarrow> s"
  let ?f = "bt_put v (ts_add cmp x ?s) (fwd_index d)"
  have s: "ts_wf cmp ?s" "set ?s \<subseteq> carrier" "x \<notin> set ?s"
    using assms by (cases "bt_get v (fwd_index d)"; force simp: fwd_wf_def fwd_ent_def)+
  then have a: "ts_wf cmp (ts_add cmp x ?s)" "set (ts_add cmp x ?s) = insert x (set ?s)"
    using assms(2) ts_wf_add ts_set_add by auto
  have "fwd_wf cmp carrier ?f"
    using assms a s by (auto simp: fwd_wf_def bt_wf_put bt_get_put)
  moreover have "fwd_ent ?f = insert (v, x) (fwd_ent (fwd_index d))"
    using a(2) by (auto simp: fwd_ent_def bt_get_put split: option.splits if_splits)
  moreover have "s_index_value cmp x v d = (Inr (), d\<lparr>fwd_index := ?f\<rparr>)"
    using s assms(2) by (simp add: s_index_value_def Let_def ts_mem_iff)
  ultimately show ?thesis by blast
qed

lemma s_index_values_new:
  "fwd_wf cmp carrier (fwd_index d) \<Longrightarrow> x \<in> carrier \<Longrightarrow> distinct vs \<Longrightarrow>
     \<forall>v \<in> set vs. (v, x) \<notin> fwd_ent (fwd_index d) \<Longrightarrow>
   \<exists>f. for_each vs (s_index_value cmp x) d = (Inr (), d\<lparr>fwd_index := f\<rparr>) \<and> fwd_wf cmp carrier f
     \<and> fwd_ent f = fwd_ent (fwd_index d) \<union> set vs \<times> {x}"
proof (induction vs arbitrary: d)
  case Nil
  then show ?case by (intro exI [of _ "fwd_index d"]) simp
next
  case (Cons v vs)
  obtain f where f: "s_index_value cmp x v d = (Inr (), d\<lparr>fwd_index := f\<rparr>)" "fwd_wf cmp carrier f"
    "fwd_ent f = insert (v, x) (fwd_ent (fwd_index d))"
    using s_index_value_new [of d x v] Cons.prems by auto
  obtain g where "for_each vs (s_index_value cmp x) (d\<lparr>fwd_index := f\<rparr>)
      = (Inr (), d\<lparr>fwd_index := f\<rparr>\<lparr>fwd_index := g\<rparr>)" "fwd_wf cmp carrier g"
    "fwd_ent g = fwd_ent f \<union> set vs \<times> {x}"
    using Cons.IH [of "d\<lparr>fwd_index := f\<rparr>"] f(2,3) Cons.prems by auto
  with f show ?case by auto
qed

lemma unindex_key_mem:
  assumes "fwd_wf cmp carrier (fwd_index d)" "x \<in> carrier" "(k, x) \<in> fwd_ent (fwd_index d)"
  shows "\<exists>f. unindex_obj_from_key cmp x k d = (Inr (), d\<lparr>fwd_index := f\<rparr>) \<and> fwd_wf cmp carrier f
    \<and> fwd_ent f = fwd_ent (fwd_index d) - {(k, x)}"
proof -
  obtain s where s: "bt_get k (fwd_index d) = Some s" "x \<in> set s" "ts_wf cmp s" "set s \<subseteq> carrier"
    using assms by (auto simp: fwd_wf_def fwd_ent_def)
  let ?s = "remove1 x s"
  define f where "f = (if ?s = [] then bt_del k (fwd_index d) else bt_put k ?s (fwd_index d))"
  have set: "set ?s = set s - {x}" using ts_wf_distinct [OF s(3,4)] by simp
  have getf: "bt_get j f = (if j = k then (if ?s = [] then None else Some ?s)
      else bt_get j (fwd_index d))" for j
    by (simp add: f_def bt_get_put bt_get_del)
  have run: "unindex_obj_from_key cmp x k d = (Inr (), d\<lparr>fwd_index := f\<rparr>)"
    using s assms(2) by (simp add: unindex_obj_from_key_def ts_mem_iff ts_remove_eq gc_entry_def
        bt_get_put bt_del_put f_def)
  have "fwd_wf cmp carrier f"
    using assms(1) s set ts_wf_remove1 [OF s(3), of x]
    by (auto simp: fwd_wf_def getf) (auto simp: f_def bt_wf_put bt_wf_del)
  moreover have "fwd_ent f = fwd_ent (fwd_index d) - {(k, x)}"
  proof -
    have "(j, y) \<in> fwd_ent f \<longleftrightarrow> (j, y) \<in> fwd_ent (fwd_index d) \<and> (j, y) \<noteq> (k, x)" for j y
      using s(1) set by (cases "j = k"; cases "?s = []") (auto simp: fwd_ent_def getf)
    then show ?thesis by auto
  qed
  ultimately show ?thesis using run by blast
qed

lemma unindex_keys_mem:
  "fwd_wf cmp carrier (fwd_index d) \<Longrightarrow> x \<in> carrier \<Longrightarrow> distinct ks \<Longrightarrow>
     \<forall>k \<in> set ks. (k, x) \<in> fwd_ent (fwd_index d) \<Longrightarrow>
   \<exists>f. for_each ks (unindex_obj_from_key cmp x) d = (Inr (), d\<lparr>fwd_index := f\<rparr>) \<and> fwd_wf cmp carrier f
     \<and> fwd_ent f = fwd_ent (fwd_index d) - set ks \<times> {x}"
proof (induction ks arbitrary: d)
  case Nil
  then show ?case by (intro exI [of _ "fwd_index d"]) simp
next
  case (Cons k ks)
  obtain f where f: "unindex_obj_from_key cmp x k d = (Inr (), d\<lparr>fwd_index := f\<rparr>)" "fwd_wf cmp carrier f"
    "fwd_ent f = fwd_ent (fwd_index d) - {(k, x)}"
    using unindex_key_mem [of d x k] Cons.prems by auto
  obtain g where "for_each ks (unindex_obj_from_key cmp x) (d\<lparr>fwd_index := f\<rparr>)
      = (Inr (), d\<lparr>fwd_index := f\<rparr>\<lparr>fwd_index := g\<rparr>)" "fwd_wf cmp carrier g"
    "fwd_ent g = fwd_ent f - set ks \<times> {x}"
    using Cons.IH [of "d\<lparr>fwd_index := f\<rparr>"] f(2,3) Cons.prems by auto
  with f show ?case by auto
qed

end

text \<open>
  The comparison of the objects together with unique ids that tell them apart: what an index needs
  of the objects it holds.
\<close>

locale cmp_uid = cmp_sep +
  fixes uid :: "'a \<Rightarrow> string"
  assumes uid_inj: "x \<in> carrier \<Longrightarrow> y \<in> carrier \<Longrightarrow> uid x = uid y \<Longrightarrow> x = y"
begin

lemma di_entries_carrier: "di_wf cmp uid carrier d \<Longrightarrow> (k, y) \<in> di_entries d \<Longrightarrow> y \<in> carrier"
  by (auto simp: di_entries_def di_wf_def)

lemma rev_entries_iff:
  assumes wf: "di_wf cmp uid carrier d" and x: "x \<in> carrier"
  shows "(uid x, k) \<in> rev_entries d \<longleftrightarrow> (k, x) \<in> di_entries d"
proof -
  have eq: "rev_entries d = (\<lambda>(k, x). (uid x, k)) ` di_entries d" using wf by (simp add: di_wf_def)
  show ?thesis
  proof
    assume "(uid x, k) \<in> rev_entries d"
    then obtain y where y: "(k, y) \<in> di_entries d" "uid x = uid y" using eq by auto
    then have "x = y" using uid_inj [OF x] di_entries_carrier [OF wf y(1)] by simp
    with y(1) show "(k, x) \<in> di_entries d" by simp
  next
    assume "(k, x) \<in> di_entries d"
    then show "(uid x, k) \<in> rev_entries d" unfolding eq by force
  qed
qed

lemma rev_entries_owner:
  "di_wf cmp uid carrier d \<Longrightarrow> (u, k) \<in> rev_entries d \<Longrightarrow> \<exists>y. u = uid y \<and> (k, y) \<in> di_entries d"
  by (auto simp: di_wf_def)

lemma di_wf_rev:
  assumes wf: "di_wf cmp uid carrier d" and x: "x \<in> carrier"
  shows "bt_get (uid x) (rev_index d) = None \<longleftrightarrow> x \<notin> snd ` di_entries d"
    and "bt_get (uid x) (rev_index d) = Some ks \<Longrightarrow> set ks = {k. (k, x) \<in> di_entries d}"
proof -
  have img: "(uid x, k) \<in> rev_entries d \<longleftrightarrow> (k, x) \<in> di_entries d" for k
    by (rule rev_entries_iff [OF wf x])
  show "set ks = {k. (k, x) \<in> di_entries d}" if "bt_get (uid x) (rev_index d) = Some ks"
    using that img by (auto simp: rev_entries_def)
  have ne: "ks' \<noteq> []" if "bt_get (uid x) (rev_index d) = Some ks'" for ks'
    using that wf by (auto simp: di_wf_def)
  show "bt_get (uid x) (rev_index d) = None \<longleftrightarrow> x \<notin> snd ` di_entries d"
  proof (cases "bt_get (uid x) (rev_index d)")
    case None
    then have "(uid x, k) \<notin> rev_entries d" for k by (simp add: rev_entries_def)
    with None img show ?thesis by auto
  next
    case (Some ks')
    then obtain k where "k \<in> set ks'" using ne by (cases ks') auto
    with Some img [of k] show ?thesis by (force simp: rev_entries_def)
  qed
qed

lemma d_index_new:
  assumes wf: "di_wf cmp uid carrier d" and x: "x \<in> carrier" and new: "x \<notin> snd ` di_entries d"
    and vs: "vs \<noteq> []" "distinct vs"
  shows "\<exists>r d'. d_index_obj cmp uid True True vs vs x d = (Inr r, d') \<and> di_wf cmp uid carrier d'
    \<and> di_entries d' = di_entries d \<union> set vs \<times> {x} \<and> di_len d' = di_len d + 1"
proof -
  have none: "bt_get (uid x) (rev_index d) = None" using di_wf_rev(1) [OF wf x] new by simp
  obtain ts where ts: "rev_insert False (uid x) [] vs d = (Inr ts, d)" "ts_wf py_cmp ts" "set ts = set vs"
    using rev_insert_new [of "[]" vs "uid x" d] vs(2) by auto
  let ?d = "d\<lparr>rev_index := bt_put (uid x) ts (rev_index d)\<rparr>"
  have "\<forall>v \<in> set vs. (v, x) \<notin> fwd_ent (fwd_index ?d)"
    using new by (force simp: di_entries_fwd)
  then obtain f where f: "for_each vs (s_index_value cmp x) ?d = (Inr (), ?d\<lparr>fwd_index := f\<rparr>)"
    "fwd_wf cmp carrier f" "fwd_ent f = fwd_ent (fwd_index d) \<union> set vs \<times> {x}"
    using s_index_values_new [of ?d x vs] di_wf_fwd [OF wf] x vs(2) by auto
  let ?d' = "?d\<lparr>fwd_index := f, num_objs := num_objs d + 1\<rparr>"
  have run: "d_index_obj cmp uid True True vs vs x d = (Inr (uid x, last vs), ?d')"
    using none ts(1) f(1) by (simp add: d_index_obj_def s_index_obj_def Let_def list_case_ne vs(1))
  have "rev_entries ?d' = rev_entries d \<union> {uid x} \<times> set vs"
    using ts(3) none by (auto simp: rev_entries_def bt_get_put split: if_splits)
  also have "\<dots> = (\<lambda>(k, x). (uid x, k)) ` (di_entries d \<union> set vs \<times> {x})"
    using wf by (auto simp: di_wf_def image_Un)
  finally have rev: "rev_entries ?d' = (\<lambda>(k, x). (uid x, k)) ` di_entries ?d'"
    using f(3) by (simp add: di_entries_fwd)
  have "ts \<noteq> []" using ts(3) vs(1) by auto
  then have "di_wf cmp uid carrier ?d'"
    using wf f(2) ts(2) none rev
    by (simp add: di_wf_def fwd_wf_def bt_wf_put bt_get_put bt_length_put)
  then show ?thesis using run f(3) by (auto simp: di_entries_fwd di_len_def)
qed

lemma d_unindex_mem:
  assumes wf: "di_wf cmp uid carrier d" and x: "x \<in> carrier" and mem: "x \<in> snd ` di_entries d"
  shows "\<exists>d'. d_unindex_obj cmp uid x d = (Inr (), d') \<and> di_wf cmp uid carrier d'
    \<and> di_entries d' = {(k, y) \<in> di_entries d. y \<noteq> x} \<and> di_len d' = di_len d - 1"
proof -
  obtain ks where ks: "bt_get (uid x) (rev_index d) = Some ks"
    using di_wf_rev(1) [OF wf x] mem by auto
  have kset: "set ks = {k. (k, x) \<in> di_entries d}" using di_wf_rev(2) [OF wf x ks] .
  have kd: "distinct ks" using wf ks linord.ts_wf_distinct [of ks] by (auto simp: di_wf_def)
  let ?d = "d\<lparr>rev_index := bt_del (uid x) (rev_index d)\<rparr>"
  have "\<forall>k \<in> set ks. (k, x) \<in> fwd_ent (fwd_index ?d)"
    using kset by (simp add: di_entries_fwd)
  then obtain f where f: "for_each ks (unindex_obj_from_key cmp x) ?d = (Inr (), ?d\<lparr>fwd_index := f\<rparr>)"
    "fwd_wf cmp carrier f" "fwd_ent f = fwd_ent (fwd_index d) - set ks \<times> {x}"
    using unindex_keys_mem [of ?d x ks] di_wf_fwd [OF wf] x kd by auto
  let ?d' = "?d\<lparr>fwd_index := f, num_objs := num_objs d - 1\<rparr>"
  have run: "d_unindex_obj cmp uid x d = (Inr (), ?d')"
    using ks f(1) by (simp add: d_unindex_obj_def)
  have ent: "fwd_ent f = {(k, y) \<in> di_entries d. y \<noteq> x}"
    using f(3) kset by (auto simp: di_entries_fwd)
  have A: "y \<in> carrier" if "(k, y) \<in> di_entries d" for k y
    using that by (rule di_entries_carrier [OF wf])
  have "rev_entries ?d' = {(u, k) \<in> rev_entries d. u \<noteq> uid x}"
    by (auto simp: rev_entries_def bt_get_del split: if_splits)
  also have "\<dots> = (\<lambda>(k, y). (uid y, k)) ` {(k, y) \<in> di_entries d. y \<noteq> x}"
  proof (intro set_eqI iffI)
    fix e assume "e \<in> {(u, k) \<in> rev_entries d. u \<noteq> uid x}"
    then obtain k y where "e = (uid y, k)" "(k, y) \<in> di_entries d" "uid y \<noteq> uid x"
      using rev_entries_owner [OF wf] by (cases e) force
    then show "e \<in> (\<lambda>(k, y). (uid y, k)) ` {(k, y) \<in> di_entries d. y \<noteq> x}" by force
  next
    fix e assume "e \<in> (\<lambda>(k, y). (uid y, k)) ` {(k, y) \<in> di_entries d. y \<noteq> x}"
    then obtain k y where e: "e = (uid y, k)" "(k, y) \<in> di_entries d" "y \<noteq> x" by auto
    then have "uid y \<noteq> uid x" using uid_inj [OF A [OF e(2)] x] by auto
    then show "e \<in> {(u, k) \<in> rev_entries d. u \<noteq> uid x}"
      using e rev_entries_iff [OF wf A [OF e(2)], of k] by simp
  qed
  finally have rev: "rev_entries ?d' = (\<lambda>(k, y). (uid y, k)) ` di_entries ?d'"
    using ent by (simp add: di_entries_fwd)
  have "di_wf cmp uid carrier ?d'"
    using wf f(2) rev ks bt_length_del [of "rev_index d" "uid x"]
    by (simp add: di_wf_def fwd_wf_def bt_wf_del bt_get_del)
  then show ?thesis using run ent by (auto simp: di_entries_fwd di_len_def)
qed

end

sublocale cmp_uid \<subseteq> oi: object_index "\<lambda>vs. d_index_obj cmp uid True True vs vs" "d_unindex_obj cmp uid"
  di_entries di_len "di_wf cmp uid carrier" carrier
proof
  fix d x vs
  assume wf: "di_wf cmp uid carrier d" and x: "x \<in> carrier"
  show "\<exists>r d'. d_index_obj cmp uid True True vs vs x d = (Inr r, d') \<and> di_wf cmp uid carrier d'
      \<and> di_entries d' = di_entries d \<union> set vs \<times> {x} \<and> di_len d' = di_len d + 1"
    if "x \<notin> snd ` di_entries d" "vs \<noteq> []" "distinct vs"
    using d_index_new [OF wf x that] .
  show "\<exists>d'. d_unindex_obj cmp uid x d = (Inr (), d') \<and> di_wf cmp uid carrier d'
      \<and> di_entries d' = {(k, y) \<in> di_entries d. y \<noteq> x} \<and> di_len d' = di_len d - 1"
    if "x \<in> snd ` di_entries d"
    using d_unindex_mem [OF wf x that] .
  show "d_unindex_obj cmp uid x d = (Inl ElementNotFoundException, d)"
    if "x \<notin> snd ` di_entries d"
    using di_wf_rev(1) [OF wf x] that by (simp add: d_unindex_obj_def)
qed

lemma di_wf_init [simp]: "di_wf cmp uid A di_init"
  by (simp add: di_wf_def di_init_def bt.wf_empty rev_entries_def di_entries_def)

lemma di_entries_init [simp]: "di_entries di_init = {}"
  by (simp add: di_init_def di_entries_def)

section \<open>What the indexes promise\<close>

text \<open>Indexing an object that is not in the index, under different values, and taking it out
  again succeeds and leaves the index as it was: the same entries, the same number of objects, and
  both mappings consistent.\<close>

theorem index_unindex:
  assumes "cmp_uid cmp A uid" "di_wf cmp uid A d" "x \<in> A" "x \<notin> snd ` di_entries d" "vs \<noteq> []" "distinct vs"
  shows "\<exists>r d1 d2. d_index_obj cmp uid True True vs vs x d = (Inr r, d1)
    \<and> di_entries d1 = di_entries d \<union> set vs \<times> {x} \<and> di_len d1 = di_len d + 1
    \<and> d_unindex_obj cmp uid x d1 = (Inr (), d2) \<and> di_wf cmp uid A d2
    \<and> di_entries d2 = di_entries d \<and> di_len d2 = di_len d"
proof -
  obtain r d1 where d1: "d_index_obj cmp uid True True vs vs x d = (Inr r, d1)" "di_wf cmp uid A d1"
    "di_entries d1 = di_entries d \<union> set vs \<times> {x}" "di_len d1 = di_len d + 1"
    using cmp_uid.d_index_new [OF assms] by blast
  have "x \<in> snd ` di_entries d1" using d1(3) assms(5) by (cases vs) force+
  then obtain d2 where d2: "d_unindex_obj cmp uid x d1 = (Inr (), d2)" "di_wf cmp uid A d2"
    "di_entries d2 = {(k, y) \<in> di_entries d1. y \<noteq> x}" "di_len d2 = di_len d1 - 1"
    using cmp_uid.d_unindex_mem [OF assms(1) d1(2) assms(3)] by blast
  have "di_entries d2 = di_entries d" using d2(3) d1(3) assms(4) by (auto simp: image_iff)
  then show ?thesis using d1 d2 by auto
qed

interpretation numbers: cmp_uid py_cmp UNIV str_nat
  by unfold_locales simp

theorem index_unindex_witness:
  "\<exists>d2. d_unindex_obj py_cmp str_nat 4 (snd (d_index_obj py_cmp str_nat True True [7 :: int, 5] [7, 5] 4 di_init)) = (Inr (), d2)
     \<and> di_entries d2 = {}"
  using index_unindex [OF numbers.cmp_uid_axioms di_wf_init, of 4 "[7 :: int, 5]"] by auto

text \<open>
  The sanity check.  Its first loop accepts a pair of mappings when no entry set is empty and every
  entry is in the reverse mapping; the second reports what the reverse mapping has in excess.
\<close>

lemma check_fwd_iff:
  assumes "bt_wf (fwd_index d)" "\<forall>u ks. bt_get u (rev_index d) = Some ks \<longrightarrow> ts_wf py_cmp ks"
  shows "check_fwd uid d \<longleftrightarrow> (\<forall>k s. bt_get k (fwd_index d) = Some s \<longrightarrow> s \<noteq> [])
    \<and> (\<lambda>(k, x). (uid x, k)) ` di_entries d \<subseteq> rev_entries d"
proof -
  have mem: "(case bt_get u (rev_index d) of None \<Rightarrow> False | Some ks \<Rightarrow> ts_mem py_cmp k ks) \<longleftrightarrow> (u, k) \<in> rev_entries d" for u k
    using linord.ts_mem_iff by (auto simp: rev_entries_def split: option.splits)
  have "check_fwd uid d \<longleftrightarrow> (\<forall>k s. bt_get k (fwd_index d) = Some s \<longrightarrow> s \<noteq> [] \<and> (\<forall>x \<in> set s. (uid x, k) \<in> rev_entries d))"
    unfolding check_fwd_def mem list_all_iff using bt_mem_get [OF assms(1)] by fastforce
  then show ?thesis by (auto simp: di_entries_def image_subset_iff)
qed

lemma check_rev_iff:
  assumes "bt_wf (rev_index d)"
  shows "check_rev uid d = [] \<longleftrightarrow> rev_entries d \<subseteq> (\<lambda>(k, x). (uid x, k)) ` di_entries d"
proof -
  have one: "(case bt_get k (fwd_index d) of None \<Rightarrow> [KeyNotInFwd u k]
      | Some s \<Rightarrow> if u \<notin> set (map uid s) then [ObjectNotInFwd u k] else []) = []
    \<longleftrightarrow> (u, k) \<in> (\<lambda>(k, x). (uid x, k)) ` di_entries d" for u k
    by (cases "bt_get k (fwd_index d)") (force simp: di_entries_def)+
  have "check_rev uid d = [] \<longleftrightarrow> (\<forall>(u, ks) \<in> set (rev_index d). \<forall>k \<in> set ks. (u, k) \<in> (\<lambda>(k, x). (uid x, k)) ` di_entries d)"
    unfolding check_rev_def using one by (auto simp: concat_eq_Nil_conv)
  also have "\<dots> \<longleftrightarrow> (\<forall>u ks. bt_get u (rev_index d) = Some ks \<longrightarrow> (\<forall>k \<in> set ks. (u, k) \<in> (\<lambda>(k, x). (uid x, k)) ` di_entries d))"
    unfolding bt_mem_get [OF assms, symmetric] by auto
  finally show ?thesis by (auto simp: rev_entries_def)
qed

lemma check_finds_inconsistency_facts:
  assumes "bt_wf (fwd_index d)" "bt_wf (rev_index d)" "\<forall>u ks. bt_get u (rev_index d) = Some ks \<longrightarrow> ts_wf py_cmp ks"
  shows "di_check uid d = Inr [] \<longleftrightarrow> (\<forall>k s. bt_get k (fwd_index d) = Some s \<longrightarrow> s \<noteq> [])
      \<and> rev_entries d = (\<lambda>(k, x). (uid x, k)) ` di_entries d"
    and "di_check uid d = Inl NameError \<longleftrightarrow> (\<exists>k. bt_get k (fwd_index d) = Some [])
      \<or> (\<exists>k x. (k, x) \<in> di_entries d \<and> (uid x, k) \<notin> rev_entries d)"
proof -
  note f = check_fwd_iff [OF assms(1,3), of uid] and r = check_rev_iff [OF assms(2), of uid]
  show "di_check uid d = Inr [] \<longleftrightarrow> (\<forall>k s. bt_get k (fwd_index d) = Some s \<longrightarrow> s \<noteq> [])
      \<and> rev_entries d = (\<lambda>(k, x). (uid x, k)) ` di_entries d"
    unfolding di_check_def using f r by auto
  show "di_check uid d = Inl NameError \<longleftrightarrow> (\<exists>k. bt_get k (fwd_index d) = Some [])
      \<or> (\<exists>k x. (k, x) \<in> di_entries d \<and> (uid x, k) \<notin> rev_entries d)"
    unfolding di_check_def using f by (auto simp: image_subset_iff)
qed

text \<open>On mappings whose keys are in order, \<open>_check\<close> ends without reporting anything exactly
  when no entry set is empty and the two mappings describe the same entries.  When the forward
  mapping is the one at fault it does not report but raises \<open>NameError\<close>.\<close>

theorem check_finds_inconsistency:
  assumes "bt_wf (fwd_index d)" "bt_wf (rev_index d)" "\<forall>u ks. bt_get u (rev_index d) = Some ks \<longrightarrow> ts_wf py_cmp ks"
  shows "(di_check uid d = Inr [] \<longleftrightarrow> (\<forall>k s. bt_get k (fwd_index d) = Some s \<longrightarrow> s \<noteq> [])
      \<and> rev_entries d = (\<lambda>(k, x). (uid x, k)) ` di_entries d)
    \<and> (di_check uid d = Inl NameError \<longleftrightarrow> (\<exists>k. bt_get k (fwd_index d) = Some [])
      \<or> (\<exists>k x. (k, x) \<in> di_entries d \<and> (uid x, k) \<notin> rev_entries d))"
  using check_finds_inconsistency_facts [OF assms] by blast

definition broken_index :: "(int, nat) dindex" where
  "broken_index = \<lparr>fwd_index = [(5, [4])], num_objs = 1, rev_index = [(''9'', [5])]\<rparr>"

theorem check_finds_inconsistency_witness: "di_check str_nat broken_index = Inl NameError"
proof -
  have "(5, 4) \<in> di_entries broken_index" by (simp add: di_entries_def broken_index_def bt_get_Cons)
  moreover have "(str_nat 4, 5) \<notin> rev_entries broken_index"
  proof -
    have "str_nat 4 \<noteq> ''9''" by code_simp
    then show ?thesis by (simp add: rev_entries_def broken_index_def bt_get_Cons)
  qed
  ultimately show ?thesis
    by (subst check_finds_inconsistency [THEN conjunct2])
       (auto simp: broken_index_def bt_wf_def bt_get_Cons split: if_splits)
qed

lemma changing_key_breaks_index_facts:
  assumes "cmp x x = 0" "v \<noteq> v'" "d_index_obj cmp uid True True [v] [v'] x di_init = (r, d)"
  shows "r = Inr (uid x, v)"
    and "fst (d_unindex_obj cmp uid x d) = Inl InconsistentIndexException"
    and "\<not> has_obj (uid x) (snd (d_unindex_obj cmp uid x d))"
    and "(v', x) \<in> di_entries (snd (d_unindex_obj cmp uid x d))"
proof -
  have d: "r = Inr (uid x, v)" "d = \<lparr>fwd_index = [(v', [x])], num_objs = 1, rev_index = [(uid x, [v])]\<rparr>"
    using assms(3) by (auto simp: d_index_obj_def di_init_def s_index_obj_def s_index_value_def Let_def ts_mem_def)
  have u: "d_unindex_obj cmp uid x d
      = (Inl InconsistentIndexException, \<lparr>fwd_index = [(v', [x])], num_objs = 1, rev_index = []\<rparr>)"
    using assms(2) by (simp add: d(2) d_unindex_obj_def bt_get_Cons bt_del_def unindex_obj_from_key_def)
  show "r = Inr (uid x, v)" by (rule d(1))
  show "fst (d_unindex_obj cmp uid x d) = Inl InconsistentIndexException" using u by simp
  show "\<not> has_obj (uid x) (snd (d_unindex_obj cmp uid x d))" using u by (simp add: has_obj_def)
  show "(v', x) \<in> di_entries (snd (d_unindex_obj cmp uid x d))" using u by (simp add: di_entries_def bt_get_Cons)
qed

text \<open>The index asks the adapter twice.  When the answer changes in between, as an adapter that
  reads the clock may, the object ends up under one key in the forward and under another in the
  reverse mapping; taking it out then raises \<open>InconsistentIndexException\<close>, and the object is left
  in the forward mapping while the index no longer knows it.\<close>

theorem changing_key_breaks_index:
  assumes "cmp x x = 0" "v \<noteq> v'" "d_index_obj cmp uid True True [v] [v'] x di_init = (r, d)"
  shows "(r = Inr (uid x, v))
    \<and> (fst (d_unindex_obj cmp uid x d) = Inl InconsistentIndexException)
    \<and> (\<not> has_obj (uid x) (snd (d_unindex_obj cmp uid x d)))
    \<and> ((v', x) \<in> di_entries (snd (d_unindex_obj cmp uid x d)))"
  using changing_key_breaks_index_facts [OF assms] by blast

theorem changing_key_breaks_index_witness:
  "fst (d_unindex_obj py_cmp str_nat 4 (snd (d_index_obj py_cmp str_nat True True [7 :: int] [8] 4 di_init)))
     = Inl InconsistentIndexException"
  by (rule changing_key_breaks_index [THEN conjunct2, THEN conjunct1, of py_cmp 4 7 8 str_nat "fst (d_index_obj py_cmp str_nat True True [7] [8] 4 di_init)"])
     simp_all

lemma reindexing_counts_twice_facts:
  assumes "cmp x x = 0" "v < v'"
  shows "di_len (snd (d_unindex_obj cmp uid x
      (snd (andthen (bnd (d_index_obj cmp uid True True [v] [v] x) (\<lambda>_. ret ()))
                    (d_index_obj cmp uid True True [v'] [v'] x) di_init)))) = 1"
    and "di_entries (snd (d_unindex_obj cmp uid x
      (snd (andthen (bnd (d_index_obj cmp uid True True [v] [v] x) (\<lambda>_. ret ()))
                    (d_index_obj cmp uid True True [v'] [v'] x) di_init)))) = {}"
proof -
  have 1: "d_index_obj cmp uid True True [v] [v] x di_init
      = (Inr (uid x, v), \<lparr>fwd_index = [(v, [x])], num_objs = 1, rev_index = [(uid x, [v])]\<rparr>)"
    by (simp add: d_index_obj_def di_init_def s_index_obj_def s_index_value_def Let_def ts_mem_def)
  have 2: "d_index_obj cmp uid True True [v'] [v'] x \<lparr>fwd_index = [(v, [x])], num_objs = 1, rev_index = [(uid x, [v])]\<rparr>
      = (Inr (uid x, v'), \<lparr>fwd_index = [(v, [x]), (v', [x])], num_objs = 2, rev_index = [(uid x, [v, v'])]\<rparr>)"
    using assms(2) order.asym [OF assms(2)] by (auto simp: d_index_obj_def s_index_obj_def s_index_value_def Let_def ts_mem_def bt_get_Cons)
  have 3: "d_unindex_obj cmp uid x \<lparr>fwd_index = [(v, [x]), (v', [x])], num_objs = 2, rev_index = [(uid x, [v, v'])]\<rparr>
      = (Inr (), \<lparr>fwd_index = [], num_objs = 1, rev_index = []\<rparr>)"
    using assms by (simp add: d_unindex_obj_def bt_get_Cons bt_del_def unindex_obj_from_key_def ts_mem_def
        ts_remove_def gc_entry_def)
  show "di_len (snd (d_unindex_obj cmp uid x
      (snd (andthen (bnd (d_index_obj cmp uid True True [v] [v] x) (\<lambda>_. ret ()))
                    (d_index_obj cmp uid True True [v'] [v'] x) di_init)))) = 1"
    by (simp add: 1 2 3 di_len_def)
  show "di_entries (snd (d_unindex_obj cmp uid x
      (snd (andthen (bnd (d_index_obj cmp uid True True [v] [v] x) (\<lambda>_. ret ()))
                    (d_index_obj cmp uid True True [v'] [v'] x) di_init)))) = {}"
    by (simp add: 1 2 3 di_entries_def)
qed

text \<open>An object that is indexed again under another key is counted twice, so the index still
  claims to hold one object after it was taken out and every mapping is empty.\<close>

theorem reindexing_counts_twice:
  assumes "cmp x x = 0" "v < v'"
  shows "(di_len (snd (d_unindex_obj cmp uid x
      (snd (andthen (bnd (d_index_obj cmp uid True True [v] [v] x) (\<lambda>_. ret ()))
                    (d_index_obj cmp uid True True [v'] [v'] x) di_init)))) = 1)
    \<and> (di_entries (snd (d_unindex_obj cmp uid x
      (snd (andthen (bnd (d_index_obj cmp uid True True [v] [v] x) (\<lambda>_. ret ()))
                    (d_index_obj cmp uid True True [v'] [v'] x) di_init)))) = {})"
  using reindexing_counts_twice_facts [where cmp = cmp and x = x and v = v and v' = v' and uid = uid] assms by blast

theorem reindexing_counts_twice_witness:
  "di_len (snd (d_unindex_obj py_cmp str_nat 4
      (snd (andthen (bnd (d_index_obj py_cmp str_nat True True [7 :: int] [7] 4) (\<lambda>_. ret ()))
                    (d_index_obj py_cmp str_nat True True [8] [8] 4) di_init)))) = 1"
  by (rule reindexing_counts_twice [THEN conjunct1]) simp_all

end
