(* ===== verification/Tasks.thy ===== *)
theory Tasks
  imports Waiting_Queue Obj_Index
begin

text \<open>
  The tasks of the scheduler: \<open>indico/modules/scheduler/tasks/__init__.py\<close> and
  \<open>tasks/periodic.py\<close>, the statuses of \<open>base.py\<close> and \<open>int_timestamp\<close> of \<open>util/date_time.py\<close>.
  Task objects are records; the persistent objects that the queues and indexes hold are referred
  to by an object id, so that one task can be in several containers and change in all of them.
  The comparisons \<open>__cmp__\<close> and the unique ids of tasks and occurrences are here, with the proof
  that they meet the contracts of the waiting queue and of the indexes.
\<close>

section \<open>Times\<close>

text \<open>
  An aware \<open>datetime\<close> is its number of microseconds since the epoch, in UTC.  \<open>int_timestamp\<close>
  reads the UTC fields as local standard time (\<open>tm_isdst\<close> is 0), so it is off by the server's
  offset, a constant \<open>off\<close>.
\<close>

type_synonym dt = int

definition int_timestamp :: "int \<Rightarrow> dt \<Rightarrow> int" where
  "int_timestamp off d = d div 1000000 + off"

lemma int_timestamp_mono: "d \<le> d' \<Longrightarrow> int_timestamp off d \<le> int_timestamp off d'"
  by (simp add: int_timestamp_def zdiv_mono1)

lemma int_timestamp_less: "int_timestamp off d < int_timestamp off d' \<Longrightarrow> d < d'"
  using int_timestamp_mono [of d' d off] by linarith

section \<open>Statuses\<close>

datatype task_status =
    TASK_STATUS_NONE
  | TASK_STATUS_SPOOLED
  | TASK_STATUS_QUEUED
  | TASK_STATUS_RUNNING
  | TASK_STATUS_FAILED
  | TASK_STATUS_ABORTED
  | TASK_STATUS_FINISHED
  | TASK_STATUS_TERMINATED

fun status_str :: "task_status \<Rightarrow> string" where
  "status_str TASK_STATUS_NONE = ''NN''"
| "status_str TASK_STATUS_SPOOLED = ''SP''"
| "status_str TASK_STATUS_QUEUED = ''QD''"
| "status_str TASK_STATUS_RUNNING = ''RN''"
| "status_str TASK_STATUS_FAILED = ''FA''"
| "status_str TASK_STATUS_ABORTED = ''AB''"
| "status_str TASK_STATUS_FINISHED = ''FI''"
| "status_str TASK_STATUS_TERMINATED = ''TD''"

section \<open>Task objects\<close>

text \<open>
  A \<open>TaskOccurrence\<close> keeps the times its task had when it was made; its task is the record it is
  stored in.  The rule of a periodic task is an object of \<open>dateutil\<close>, which only answers
  \<open>after(dt, inc)\<close>: a function argument of the model.
\<close>

record occurrence =
  occ_id :: "nat option"
  occ_startedOn :: "dt option"
  occ_endedOn :: "dt option"

record periodic =
  p_rule :: "dt \<Rightarrow> bool \<Rightarrow> dt option"
  nextOccurrence :: "dt option"
  lastFinishedOn :: "dt option"
  occurrences :: "(nat \<times> occurrence) list"
  occurrenceCount :: nat
  p_repeat :: bool

datatype task_kind =
    OneShotTask "dt option"
  | PeriodicTask periodic

record task =
  typeId :: string
  createdOn :: dt
  expiryDate :: "dt option"
  task_id :: "nat option"
  running :: bool
  onRunningListSince :: "dt option"
  task_status :: task_status
  startedOn :: "dt option"
  endedOn :: "dt option"
  awol_threshold :: int
  kind :: task_kind

text \<open>The constructors; \<open>threshold\<close> is the class attribute \<open>_AWOLThresold\<close>, 6000 by default.\<close>

definition task_reset :: "task \<Rightarrow> task" where
  "task_reset t = t\<lparr>running := False, onRunningListSince := None\<rparr>"

definition base_task :: "string \<Rightarrow> dt \<Rightarrow> dt option \<Rightarrow> int \<Rightarrow> task_kind \<Rightarrow> task" where
  "base_task cls now expiry threshold k = task_reset
     \<lparr>typeId = cls, createdOn = now, expiryDate = expiry, task_id = None, running = False,
      onRunningListSince = None, task_status = TASK_STATUS_NONE, startedOn = None, endedOn = None,
      awol_threshold = threshold, kind = k\<rparr>"

definition one_shot_task :: "string \<Rightarrow> dt \<Rightarrow> dt option \<Rightarrow> dt option \<Rightarrow> task" where
  "one_shot_task cls now start expiry = base_task cls now expiry 6000 (OneShotTask start)"

definition periodic_task :: "string \<Rightarrow> dt \<Rightarrow> int \<Rightarrow> (dt \<Rightarrow> bool \<Rightarrow> dt option) \<Rightarrow> dt option \<Rightarrow> task" where
  "periodic_task cls now threshold rule dtstart =
     (let start = (case dtstart of None \<Rightarrow> now | Some d \<Rightarrow> d) in
      base_task cls now None threshold (PeriodicTask
        \<lparr>p_rule = rule, nextOccurrence = rule (start - 1000000) True, lastFinishedOn = None,
         occurrences = [], occurrenceCount = 0, p_repeat = True\<rparr>))"

definition getStartOn :: "task \<Rightarrow> dt option" where
  "getStartOn t = (case kind t of OneShotTask d \<Rightarrow> d | PeriodicTask p \<Rightarrow> nextOccurrence p)"

definition is_periodic :: "task \<Rightarrow> bool" where
  "is_periodic t = (case kind t of OneShotTask _ \<Rightarrow> False | PeriodicTask _ \<Rightarrow> True)"

text \<open>Only one-shot tasks have \<open>setStartOn\<close>.\<close>

definition setStartOn :: "dt \<Rightarrow> task \<Rightarrow> exn + task" where
  "setStartOn d t = (case kind t of
       OneShotTask _ \<Rightarrow> Inr (t\<lparr>kind := OneShotTask (Some d)\<rparr>)
     | PeriodicTask _ \<Rightarrow> Inl AttributeError)"

definition suicide :: "dt \<Rightarrow> task \<Rightarrow> task" where
  "suicide now t = t\<lparr>task_status := TASK_STATUS_TERMINATED, endedOn := Some now\<rparr>"

definition task_initialize :: "nat \<Rightarrow> task_status \<Rightarrow> task \<Rightarrow> task" where
  "task_initialize newid newstatus t = t\<lparr>task_id := Some newid, task_status := newstatus\<rparr>"

text \<open>
  \<open>prepare\<close>: how long it sleeps, whether it gave up (it then returns \<open>False\<close>, otherwise
  \<open>None\<close>), and the task afterwards.  The current time is read before sleeping.
\<close>

definition prepare :: "int \<Rightarrow> dt \<Rightarrow> task \<Rightarrow> exn + (int \<times> bool \<times> task)" where
  "prepare off now t = (case getStartOn t of
       None \<Rightarrow> Inl AttributeError
     | Some d \<Rightarrow>
         (let tsDiff = int_timestamp off d - int_timestamp off now;
              sleeps = (if tsDiff > 0 then tsDiff else 0) in
          if (case expiryDate t of None \<Rightarrow> False | Some e \<Rightarrow> now > e) then Inr (sleeps, False, t)
          else Inr (sleeps, True, t\<lparr>startedOn := Some now, running := True,
                                   task_status := TASK_STATUS_RUNNING\<rparr>)))"

text \<open>\<open>start\<close>: \<open>run\<close> either returns, and then the end is noted at the time it is then, or raises.\<close>

definition start :: "exn option \<Rightarrow> dt \<Rightarrow> task \<Rightarrow> exn option \<times> task" where
  "start outcome later t = (case outcome of
       None \<Rightarrow> (None, t\<lparr>endedOn := Some later, running := False\<rparr>)
     | Some e \<Rightarrow> (Some e, t\<lparr>running := False\<rparr>))"

section \<open>Periodic tasks\<close>

definition map_periodic :: "(periodic \<Rightarrow> periodic) \<Rightarrow> task \<Rightarrow> task" where
  "map_periodic f t = (case kind t of
       OneShotTask _ \<Rightarrow> t | PeriodicTask p \<Rightarrow> t\<lparr>kind := PeriodicTask (f p)\<rparr>)"

text \<open>Without a next occurrence there is no future, and nothing changes.\<close>

definition setNextOccurrence :: "dt option \<Rightarrow> dt \<Rightarrow> periodic \<Rightarrow> periodic" where
  "setNextOccurrence dateAfter now p = (case nextOccurrence p of
       None \<Rightarrow> p
     | Some n \<Rightarrow>
         (let d = (case dateAfter of None \<Rightarrow> now | Some a \<Rightarrow> a) in
          p\<lparr>nextOccurrence := p_rule p (max n d) False\<rparr>))"

definition addOccurrence :: "occurrence \<Rightarrow> periodic \<Rightarrow> periodic" where
  "addOccurrence oc p = p\<lparr>
     occurrences := bt_put (occurrenceCount p) (oc\<lparr>occ_id := Some (occurrenceCount p)\<rparr>) (occurrences p),
     occurrenceCount := occurrenceCount p + 1\<rparr>"

definition task_occurrence :: "task \<Rightarrow> occurrence" where
  "task_occurrence t = \<lparr>occ_id = None, occ_startedOn = startedOn t, occ_endedOn = endedOn t\<rparr>"

definition dontComeBack :: "periodic \<Rightarrow> periodic" where
  "dontComeBack p = p\<lparr>p_repeat := False\<rparr>"

definition shouldComeBack :: "task \<Rightarrow> bool" where
  "shouldComeBack t = (case kind t of OneShotTask _ \<Rightarrow> False | PeriodicTask p \<Rightarrow> p_repeat p)"

section \<open>Comparison and unique ids\<close>

text \<open>
  The objects the scheduler's indexes hold: a task, by its object id, or an occurrence of a
  periodic task.  Python orders \<open>None\<close> before every number.  Two tasks without an id compare by
  \<open>hash\<close>, that is by identity.
\<close>

type_synonym oid = nat

datatype sobj =
    OTask oid
  | OOcc oid nat

definition cmp_opt :: "nat option \<Rightarrow> nat option \<Rightarrow> int" where
  "cmp_opt x y = (case (x, y) of
       (None, None) \<Rightarrow> 0 | (None, Some _) \<Rightarrow> - 1 | (Some _, None) \<Rightarrow> 1 | (Some m, Some n) \<Rightarrow> py_cmp m n)"

definition task_cmp :: "(oid \<Rightarrow> nat option) \<Rightarrow> oid \<Rightarrow> oid \<Rightarrow> int" where
  "task_cmp ids a b = (if ids a = ids b \<and> ids a = None then py_cmp a b else cmp_opt (ids a) (ids b))"

fun sobj_cmp :: "(oid \<Rightarrow> nat option) \<Rightarrow> sobj \<Rightarrow> sobj \<Rightarrow> int" where
  "sobj_cmp ids (OTask a) (OTask b) = task_cmp ids a b"
| "sobj_cmp ids (OTask a) (OOcc b j) = (if task_cmp ids a b = 0 then - 1 else task_cmp ids a b)"
| "sobj_cmp ids (OOcc a i) (OTask b) = (if task_cmp ids a b = 0 then 1 else task_cmp ids a b)"
| "sobj_cmp ids (OOcc a i) (OOcc b j) = (if task_cmp ids a b = 0 then py_cmp i j else task_cmp ids a b)"

definition str_opt :: "nat option \<Rightarrow> string" where
  "str_opt x = (case x of None \<Rightarrow> ''None'' | Some n \<Rightarrow> str_nat n)"

fun sobj_uid :: "(oid \<Rightarrow> nat option) \<Rightarrow> sobj \<Rightarrow> string" where
  "sobj_uid ids (OTask a) = ''task'' @ str_opt (ids a)"
| "sobj_uid ids (OOcc a i) = ''task'' @ str_opt (ids a) @ '':'' @ str_nat i"

fun sobj_task :: "sobj \<Rightarrow> oid" where
  "sobj_task (OTask a) = a"
| "sobj_task (OOcc a i) = a"

text \<open>Tasks whose id, if they have one, is not the id of another task.\<close>

definition id_unique :: "(oid \<Rightarrow> nat option) \<Rightarrow> oid \<Rightarrow> bool" where
  "id_unique ids a \<longleftrightarrow> (ids a \<noteq> None \<longrightarrow> (\<forall>b. ids b = ids a \<longrightarrow> b = a))"

lemma task_cmp_zero: "id_unique ids a \<Longrightarrow> task_cmp ids a b = 0 \<longleftrightarrow> a = b"
proof -
  assume u: "id_unique ids a"
  have "ids a = ids b \<Longrightarrow> ids a \<noteq> None \<Longrightarrow> b = a"
    using u by (simp add: id_unique_def)
  then show ?thesis
    by (cases "ids a"; cases "ids b") (auto simp: task_cmp_def cmp_opt_def)
qed

lemma task_cmp_flip: "0 < task_cmp ids a b \<longleftrightarrow> task_cmp ids b a < 0"
  by (auto simp: task_cmp_def cmp_opt_def split: option.splits)

lemma task_cmp_trans: "task_cmp ids a b < 0 \<Longrightarrow> task_cmp ids b c < 0 \<Longrightarrow> task_cmp ids a c < 0"
  by (auto simp: task_cmp_def cmp_opt_def split: option.splits if_splits)

interpretation tasks: cmp_sep "task_cmp ids" "{a. id_unique ids a}" for ids
  by unfold_locales (auto simp: task_cmp_zero task_cmp_flip intro: task_cmp_trans)

definition indexable :: "(oid \<Rightarrow> nat option) \<Rightarrow> sobj set" where
  "indexable ids = {x. ids (sobj_task x) \<noteq> None \<and> id_unique ids (sobj_task x)}"

lemma sobj_cmp_flip:
  "x \<in> indexable ids \<Longrightarrow> y \<in> indexable ids \<Longrightarrow> 0 < sobj_cmp ids x y \<longleftrightarrow> sobj_cmp ids y x < 0"
  by (cases x; cases y) (auto simp: indexable_def task_cmp_zero task_cmp_flip)

lemma sobj_cmp_trans:
  assumes "x \<in> indexable ids" "y \<in> indexable ids" "z \<in> indexable ids"
    and "sobj_cmp ids x y < 0" "sobj_cmp ids y z < 0"
  shows "sobj_cmp ids x z < 0"
  using assms task_cmp_trans [of ids "sobj_task x" "sobj_task y" "sobj_task z"]
    task_cmp_flip [of ids "sobj_task x" "sobj_task z"] task_cmp_flip [of ids "sobj_task y" "sobj_task z"]
  by (cases x; cases y; cases z) (auto simp: indexable_def task_cmp_zero split: if_splits)

lemma colon_not_digit: "d < 10 \<Longrightarrow> digit_char d \<noteq> CHR '':''"
  by (rule digit_char_not) simp_all

lemma str_nat_no_colon: "CHR '':'' \<notin> set (str_nat n)"
  using str_nat_digits [of "CHR '':''" n] colon_not_digit by metis

lemma split_colon:
  "CHR '':'' \<notin> set xs \<Longrightarrow> CHR '':'' \<notin> set xs' \<Longrightarrow>
     xs @ '':'' @ ys = xs' @ '':'' @ ys' \<Longrightarrow> xs = xs' \<and> ys = ys'"
proof (induction xs arbitrary: xs')
  case Nil
  then show ?case by (cases xs') auto
next
  case (Cons x xs)
  then show ?case by (cases xs') auto
qed

lemma str_nat_colon_ne: "str_nat m \<noteq> str_nat n @ CHR '':'' # ys"
proof
  assume "str_nat m = str_nat n @ CHR '':'' # ys"
  then have "CHR '':'' \<in> set (str_nat m)" by simp
  then show False using str_nat_no_colon by blast
qed

lemma sobj_uid_inj:
  assumes "x \<in> indexable ids" "y \<in> indexable ids" "sobj_uid ids x = sobj_uid ids y"
  shows "x = y"
proof -
  obtain m n where ids: "ids (sobj_task x) = Some m" "ids (sobj_task y) = Some n"
    using assms by (auto simp: indexable_def)
  have same: "m = n \<Longrightarrow> sobj_task x = sobj_task y"
  proof -
    assume "m = n"
    moreover have "id_unique ids (sobj_task y)" using assms(2) by (simp add: indexable_def)
    ultimately show ?thesis unfolding id_unique_def ids by (metis ids option.distinct(1))
  qed
  show ?thesis
  proof (cases x; cases y)
    fix a b assume "x = OTask a" "y = OTask b"
    then show ?thesis using assms(3) ids same by (simp add: str_opt_def)
  next
    fix a b j assume "x = OTask a" "y = OOcc b j"
    then show ?thesis using assms(3) ids by (simp add: str_opt_def str_nat_colon_ne)
  next
    fix a i b assume xy: "x = OOcc a i" "y = OTask b"
    then have "sobj_uid ids y = sobj_uid ids (OOcc a i)" using assms(3) by simp
    then show ?thesis using ids xy by (simp add: str_opt_def str_nat_colon_ne)
  next
    fix a i b j assume xy: "x = OOcc a i" "y = OOcc b j"
    then have "str_nat m @ '':'' @ str_nat i = str_nat n @ '':'' @ str_nat j"
      using assms(3) ids by (simp add: str_opt_def)
    then have "str_nat m = str_nat n \<and> str_nat i = str_nat j"
      by (intro split_colon str_nat_no_colon)
    then show ?thesis using xy same by simp
  qed
qed

interpretation sobjs: cmp_uid "sobj_cmp ids" "indexable ids" "sobj_uid ids" for ids
proof
  fix x y z :: sobj
  assume x: "x \<in> indexable ids"
  show "sobj_cmp ids x x = 0" using x by (cases x) (auto simp: indexable_def task_cmp_zero)
  assume y: "y \<in> indexable ids"
  show "0 < sobj_cmp ids x y \<longleftrightarrow> sobj_cmp ids y x < 0" using x y by (rule sobj_cmp_flip)
  show "x = y" if "sobj_cmp ids x y = 0"
    using that x y by (cases x; cases y) (auto simp: indexable_def task_cmp_zero split: if_splits)
  show "x = y" if "sobj_uid ids x = sobj_uid ids y" using x y that by (rule sobj_uid_inj)
  show "sobj_cmp ids x z < 0" if "z \<in> indexable ids" "sobj_cmp ids x y < 0" "sobj_cmp ids y z < 0"
    using x y that by (rule sobj_cmp_trans)
qed

end
