(* ===== verification/Sched_Module.thy ===== *)
theory Sched_Module
  imports Tasks
begin

text \<open>
  \<open>SchedulerModule\<close> of \<open>indico/modules/scheduler/module.py\<close>, the scheduler's part of the database,
  and the client's operations on it (\<open>client.py\<close>).  The state has the task objects, the waiting
  queue, the running list, the indexes of failed and finished tasks, the index of all tasks with
  its counter, and the spool through which the clients talk to the server.  The invariant
  \<open>sched_inv\<close> says that the containers are well formed, that ids identify tasks, and that no task
  is in two places.
\<close>

section \<open>The state\<close>

text \<open>
  An instruction of the spool is a pair of an operation's name and its argument; \<open>SpOther\<close> is any
  name that the server does not know.  \<open>clock\<close> and \<open>tz_off\<close> are the time and the offset of
  \<open>int_timestamp\<close>.
\<close>

datatype spool_item =
    SpAdd oid
  | SpChange int oid
  | SpDel oid
  | SpShutdown string
  | SpOther string

record sched =
  heap :: "oid \<Rightarrow> task"
  waitingQueue :: "oid wqueue"
  runningList :: "oid list"
  failedIndex :: "(int, sobj) dindex"
  finishedIndex :: "(int, sobj) dindex"
  taskIdx :: "(nat \<times> oid) list"
  taskCounter :: nat
  schedulerStatus :: bool
  hostname :: "string option"
  pid :: "int option"
  taskSpool :: "spool_item list"
  clock :: dt
  tz_off :: int

definition sched_init :: "(oid \<Rightarrow> task) \<Rightarrow> dt \<Rightarrow> int \<Rightarrow> sched" where
  "sched_init h now off =
     \<lparr>heap = h, waitingQueue = wq_reset, runningList = [], failedIndex = di_init,
      finishedIndex = di_init, taskIdx = [], taskCounter = 0, schedulerStatus = False,
      hostname = None, pid = None, taskSpool = [], clock = now, tz_off = off\<rparr>"

abbreviation ids :: "sched \<Rightarrow> oid \<Rightarrow> nat option" where
  "ids s \<equiv> (\<lambda>a. task_id (heap s a))"

definition upd_task :: "oid \<Rightarrow> (task \<Rightarrow> task) \<Rightarrow> (sched, unit) prog" where
  "upd_task a f = modify (\<lambda>s. s\<lparr>heap := (heap s)(a := f (heap s a))\<rparr>)"

definition setStatus :: "oid \<Rightarrow> task_status \<Rightarrow> (sched, unit) prog" where
  "setStatus a st = upd_task a (\<lambda>t. t\<lparr>task_status := st\<rparr>)"

definition sched_ts :: "sched \<Rightarrow> dt \<Rightarrow> int" where
  "sched_ts s d = int_timestamp (tz_off s) d"

text \<open>Methods of the sub-objects, compared with the ids the tasks have when they run.\<close>

definition on_queue :: "((oid \<Rightarrow> oid \<Rightarrow> int) \<Rightarrow> (oid wqueue, 'a) prog) \<Rightarrow> (sched, 'a) prog" where
  "on_queue m = bnd get_st (\<lambda>s. zoom waitingQueue (\<lambda>q s. s\<lparr>waitingQueue := q\<rparr>) (m (task_cmp (ids s))))"

definition on_failed :: "((sobj \<Rightarrow> sobj \<Rightarrow> int) \<Rightarrow> (sobj \<Rightarrow> string) \<Rightarrow> ((int, sobj) dindex, 'a) prog) \<Rightarrow> (sched, 'a) prog" where
  "on_failed m = bnd get_st (\<lambda>s. zoom failedIndex (\<lambda>d s. s\<lparr>failedIndex := d\<rparr>)
     (m (sobj_cmp (ids s)) (sobj_uid (ids s))))"

definition on_finished :: "((sobj \<Rightarrow> sobj \<Rightarrow> int) \<Rightarrow> (sobj \<Rightarrow> string) \<Rightarrow> ((int, sobj) dindex, 'a) prog) \<Rightarrow> (sched, 'a) prog" where
  "on_finished m = bnd get_st (\<lambda>s. zoom finishedIndex (\<lambda>d s. s\<lparr>finishedIndex := d\<rparr>)
     (m (sobj_cmp (ids s)) (sobj_uid (ids s))))"

section \<open>The module's methods\<close>

definition in_running :: "sched \<Rightarrow> oid \<Rightarrow> bool" where
  "in_running s a \<longleftrightarrow> list_ex (\<lambda>b. task_cmp (ids s) b a = 0) (runningList s)"

definition assertTaskStatus :: "oid \<Rightarrow> task_status \<Rightarrow> (sched, unit) prog" where
  "assertTaskStatus a st = bnd get_st (\<lambda>s.
     if task_status (heap s a) \<noteq> st then raise_exn TaskInconsistentStatusException
     else if st = TASK_STATUS_RUNNING \<and> \<not> in_running s a then raise_exn TaskInconsistentStatusException
     else ret ())"

definition indexTask :: "oid \<Rightarrow> (sched, unit) prog" where
  "indexTask a = bnd (gets taskCounter) (\<lambda>n.
     andthen (upd_task a (task_initialize n TASK_STATUS_SPOOLED))
             (modify (\<lambda>s. s\<lparr>taskIdx := bt_put n a (taskIdx s), taskCounter := taskCounter s + 1\<rparr>)))"

definition getTaskById :: "nat \<Rightarrow> (sched, oid) prog" where
  "getTaskById n = bnd (gets taskIdx) (\<lambda>ix. case bt_get n ix of
     None \<Rightarrow> raise_exn KeyError | Some a \<Rightarrow> ret a)"

text \<open>\<open>clearSpool\<close> pulls until \<open>IndexError\<close>: the number of instructions, and an empty spool.\<close>

fun clear_loop :: "spool_item list \<Rightarrow> nat \<Rightarrow> nat \<times> spool_item list" where
  "clear_loop [] i = (i, [])"
| "clear_loop (_ # sp) i = clear_loop sp (i + 1)"

definition clearSpool :: "(sched, nat) prog" where
  "clearSpool = bnd (gets taskSpool) (\<lambda>sp. case clear_loop sp 0 of
     (i, sp') \<Rightarrow> andthen (modify (\<lambda>s. s\<lparr>taskSpool := sp'\<rparr>)) (ret i))"

definition spool :: "spool_item \<Rightarrow> (sched, bool) prog" where
  "spool item = andthen (modify (\<lambda>s. s\<lparr>taskSpool := taskSpool s @ [item]\<rparr>)) (ret True)"

text \<open>\<open>removeRunningTask\<close> logs a task it does not find.\<close>

definition removeRunningTask :: "oid \<Rightarrow> (sched, unit) prog" where
  "removeRunningTask a = bnd get_st (\<lambda>s.
     case list_remove (\<lambda>b. task_cmp (ids s) b a = 0) (runningList s) of
       Inl _ \<Rightarrow> ret ()
     | Inr l \<Rightarrow> modify (\<lambda>s. s\<lparr>runningList := l\<rparr>))"

definition addTaskToWaitingQueue :: "oid \<Rightarrow> bool \<Rightarrow> (sched, unit) prog" where
  "addTaskToWaitingQueue a index =
     andthen (when_do index (indexTask a))
     (bnd get_st (\<lambda>s. case getStartOn (heap s a) of
         None \<Rightarrow> ret ()
       | Some d \<Rightarrow> andthen (on_queue (\<lambda>c. enqueue c (sched_ts s d) a)) (setStatus a TASK_STATUS_QUEUED)))"

text \<open>
  An object enters an index under the timestamp of the current time.  The clock does not tick
  between the two questions the index asks.
\<close>

definition index_in_finished :: "sobj \<Rightarrow> (sched, unit) prog" where
  "index_in_finished x = bnd get_st (\<lambda>s.
     bnd (on_finished (\<lambda>c u. d_index_obj c u True True [sched_ts s (clock s)] [sched_ts s (clock s)] x)) (\<lambda>_. ret ()))"

definition index_in_failed :: "sobj \<Rightarrow> (sched, unit) prog" where
  "index_in_failed x = bnd get_st (\<lambda>s.
     bnd (on_failed (\<lambda>c u. d_index_obj c u True True [sched_ts s (clock s)] [sched_ts s (clock s)] x)) (\<lambda>_. ret ()))"

text \<open>\<open>moveTask\<close>: an optional check, then out of the old place, then into the new one.\<close>

definition move_out :: "oid \<Rightarrow> task_status \<Rightarrow> (sched, unit) prog" where
  "move_out a moveFrom =
     (if moveFrom = TASK_STATUS_RUNNING then removeRunningTask a
      else if moveFrom = TASK_STATUS_QUEUED then
        bnd get_st (\<lambda>s. case getStartOn (heap s a) of
            None \<Rightarrow> raise_exn AttributeError
          | Some d \<Rightarrow> on_queue (\<lambda>c. dequeue c (sched_ts s d) a))
      else if moveFrom = TASK_STATUS_FAILED then on_failed (\<lambda>c u. d_unindex_obj c u (OTask a))
      else ret ())"

definition move_in :: "sobj \<Rightarrow> task_status \<Rightarrow> (sched, unit) prog" where
  "move_in occ status =
     (if status = TASK_STATUS_FINISHED then index_in_finished occ
      else if status \<in> {TASK_STATUS_FAILED, TASK_STATUS_TERMINATED} then index_in_failed occ
      else if status = TASK_STATUS_QUEUED then
        (case occ of OTask b \<Rightarrow> addTaskToWaitingQueue b False | OOcc _ _ \<Rightarrow> raise_exn AttributeError)
      else ret ())"

definition moveTask :: "oid \<Rightarrow> task_status \<Rightarrow> task_status \<Rightarrow> sobj option \<Rightarrow> bool \<Rightarrow> (sched, unit) prog" where
  "moveTask a moveFrom status occurrence nocheck =
     (let occ = (case occurrence of None \<Rightarrow> OTask a | Some x \<Rightarrow> x) in
      andthen (when_do (\<not> nocheck) (assertTaskStatus a moveFrom))
              (andthen (move_out a moveFrom) (move_in occ status)))"

text \<open>
  \<open>changeTaskStartDate\<close> reads the new date first, and gives up with a log line when the task is
  not in the queue at its old time, whatever the exception.
\<close>

definition changeTaskStartDate :: "int \<Rightarrow> oid \<Rightarrow> (sched, unit) prog" where
  "changeTaskStartDate oldTS a = bnd get_st (\<lambda>s. case getStartOn (heap s a) of
       None \<Rightarrow> raise_exn AttributeError
     | Some d \<Rightarrow>
         bnd (catch_exn (andthen (on_queue (\<lambda>c. dequeue c oldTS a)) (ret True)) (\<lambda>_. Some (ret False)))
             (\<lambda>found. when_do found (on_queue (\<lambda>c. enqueue c (sched_ts s d) a))))"

definition popNextWaitingTask :: "(sched, (int \<times> oid) option) prog" where
  "popNextWaitingTask = on_queue pop"

definition peekNextWaitingTask :: "(sched, (int \<times> oid) option) prog" where
  "peekNextWaitingTask = on_queue (\<lambda>_. peek)"

definition removeWaitingTask :: "int \<Rightarrow> oid \<Rightarrow> (sched, unit) prog" where
  "removeWaitingTask t a = on_queue (\<lambda>c. dequeue c t a)"

definition addTaskToRunningList :: "oid \<Rightarrow> (sched, unit) prog" where
  "addTaskToRunningList a = modify (\<lambda>s. s\<lparr>runningList := runningList s @ [a]\<rparr>)"

definition setSchedulerRunningStatus :: "string \<Rightarrow> int \<Rightarrow> bool \<Rightarrow> (sched, unit) prog" where
  "setSchedulerRunningStatus fqdn p st = modify (\<lambda>s. s\<lparr>schedulerStatus := st,
     hostname := (if st then Some fqdn else None), pid := (if st then Some p else None)\<rparr>)"

record sched_status =
  st_state :: bool
  st_hostname :: "string option"
  st_pid :: "int option"
  st_waiting :: int
  st_running :: nat
  st_spooled :: nat
  st_failed :: int
  st_finished :: int

definition getStatus :: "sched \<Rightarrow> sched_status" where
  "getStatus s = \<lparr>st_state = schedulerStatus s, st_hostname = hostname s, st_pid = pid s,
     st_waiting = wq_len (waitingQueue s), st_running = length (runningList s),
     st_spooled = length (taskSpool s), st_failed = di_len (failedIndex s),
     st_finished = di_len (finishedIndex s)\<rparr>"

section \<open>The client\<close>

definition client_enqueue :: "oid \<Rightarrow> (sched, bool) prog" where
  "client_enqueue a = spool (SpAdd a)"

definition client_dequeue :: "oid \<Rightarrow> (sched, bool) prog" where
  "client_dequeue a = spool (SpDel a)"

definition client_moveTask :: "oid \<Rightarrow> dt \<Rightarrow> (sched, bool) prog" where
  "client_moveTask a newDate = bnd get_st (\<lambda>s. case getStartOn (heap s a) of
       None \<Rightarrow> raise_exn AttributeError
     | Some old \<Rightarrow> bnd (lift_res (setStartOn newDate (heap s a))) (\<lambda>t.
         andthen (upd_task a (\<lambda>_. t)) (spool (SpChange (sched_ts s old) a))))"

definition client_shutdown :: "string \<Rightarrow> (sched, bool) prog" where
  "client_shutdown msg = spool (SpShutdown msg)"

definition client_startFailedTask :: "oid \<Rightarrow> (sched, unit) prog" where
  "client_startFailedTask a = moveTask a TASK_STATUS_FAILED TASK_STATUS_QUEUED None False"

section \<open>The invariant\<close>

definition waiting :: "sched \<Rightarrow> (int \<times> oid) set" where
  "waiting s = wq_items (waitingQueue s)"

definition failed_objs :: "sched \<Rightarrow> sobj set" where
  "failed_objs s = snd ` di_entries (failedIndex s)"

definition finished_objs :: "sched \<Rightarrow> sobj set" where
  "finished_objs s = snd ` di_entries (finishedIndex s)"

text \<open>The ids: the index of all tasks and the tasks' own ids agree.\<close>

definition ids_ok :: "sched \<Rightarrow> bool" where
  "ids_ok s \<longleftrightarrow> bt_wf (taskIdx s)
     \<and> (\<forall>n a. bt_get n (taskIdx s) = Some a \<longleftrightarrow> ids s a = Some n)
     \<and> (\<forall>n. n < taskCounter s \<longleftrightarrow> bt_get n (taskIdx s) \<noteq> None)"

text \<open>An occurrence in an index is one of its task's.\<close>

definition occ_known :: "(oid \<Rightarrow> task) \<Rightarrow> sobj \<Rightarrow> bool" where
  "occ_known h x = (case x of
       OTask _ \<Rightarrow> True
     | OOcc a n \<Rightarrow> (case kind (h a) of
           OneShotTask _ \<Rightarrow> False | PeriodicTask p \<Rightarrow> n < occurrenceCount p))"

definition containers_ok :: "sched \<Rightarrow> bool" where
  "containers_ok s \<longleftrightarrow> wq_wf (task_cmp (ids s)) {a. id_unique (ids s) a} (waitingQueue s)
     \<and> di_wf (sobj_cmp (ids s)) (sobj_uid (ids s)) (indexable (ids s)) (failedIndex s)
     \<and> di_wf (sobj_cmp (ids s)) (sobj_uid (ids s)) (indexable (ids s)) (finishedIndex s)"

text \<open>
  Where tasks may be, for a queue \<open>W\<close>, a running list \<open>R\<close>, the failed \<open>F\<close> and finished \<open>G\<close> objects:
  in at most one place, at one time of the queue, once in the running list.  \<open>I\<close> are the tasks
  with an id, \<open>Q\<close> those with status queued, \<open>K\<close> the objects that exist.
\<close>

definition placed :: "(int \<times> oid) set \<Rightarrow> oid list \<Rightarrow> sobj set \<Rightarrow> sobj set
    \<Rightarrow> (oid \<Rightarrow> bool) \<Rightarrow> (oid \<Rightarrow> bool) \<Rightarrow> (sobj \<Rightarrow> bool) \<Rightarrow> bool" where
  "placed W R F G I Q K \<longleftrightarrow>
     (\<forall>a \<in> snd ` W. I a \<and> Q a \<and> a \<notin> set R \<and> OTask a \<notin> F \<and> OTask a \<notin> G) \<and> inj_on snd W
     \<and> (\<forall>a \<in> set R. I a \<and> OTask a \<notin> F \<and> OTask a \<notin> G) \<and> distinct R
     \<and> (\<forall>a. OTask a \<in> F \<longrightarrow> OTask a \<notin> G) \<and> (\<forall>x \<in> F \<union> G. K x)"

definition is_queued :: "(oid \<Rightarrow> task) \<Rightarrow> oid \<Rightarrow> bool" where
  "is_queued h a \<longleftrightarrow> task_status (h a) = TASK_STATUS_QUEUED"

definition has_id :: "(oid \<Rightarrow> task) \<Rightarrow> oid \<Rightarrow> bool" where
  "has_id h a \<longleftrightarrow> task_id (h a) \<noteq> None"

definition places_ok :: "sched \<Rightarrow> bool" where
  "places_ok s \<longleftrightarrow> placed (waiting s) (runningList s) (failed_objs s) (finished_objs s)
     (has_id (heap s)) (is_queued (heap s)) (occ_known (heap s))"

definition sched_inv :: "sched \<Rightarrow> bool" where
  "sched_inv s \<longleftrightarrow> ids_ok s \<and> containers_ok s \<and> places_ok s"

section \<open>The containers under the invariant\<close>

text \<open>Ids identify tasks, so the comparisons separate all tasks.\<close>

lemma ids_ok_unique: "ids_ok s \<Longrightarrow> id_unique (ids s) a"
  unfolding ids_ok_def id_unique_def by (metis not_None_eq option.inject)

lemma ids_ok_carrier: "ids_ok s \<Longrightarrow> {a. id_unique (ids s) a} = UNIV"
  using ids_ok_unique by blast

lemma ids_ok_indexable: "ids_ok s \<Longrightarrow> x \<in> indexable (ids s) \<longleftrightarrow> ids s (sobj_task x) \<noteq> None"
  by (simp add: indexable_def ids_ok_unique)

lemma in_running_iff: "ids_ok s \<Longrightarrow> in_running s a \<longleftrightarrow> a \<in> set (runningList s)"
  by (auto simp: in_running_def list_ex_iff task_cmp_zero ids_ok_unique)

lemma removeRunning_run:
  assumes "ids_ok s"
  shows "removeRunningTask a s = (Inr (), s\<lparr>runningList := remove1 a (runningList s)\<rparr>)"
proof -
  have "list_remove (\<lambda>b. task_cmp (ids s) b a = 0) (runningList s) = list_remove (\<lambda>b. b = a) (runningList s)"
    using assms by (intro list_remove_cong) (simp add: task_cmp_zero ids_ok_unique)
  moreover have "list_remove (\<lambda>b. b = a) (runningList s) = Inl ValueError" if "a \<notin> set (runningList s)"
    using that by (auto simp: list_remove_Inl)
  ultimately show ?thesis
    by (cases "a \<in> set (runningList s)") (simp_all add: removeRunningTask_def list_remove_eq_remove1 remove1_idem)
qed

lemma queue_enq:
  assumes "ids_ok s" "containers_ok s" "(t, a) \<notin> waiting s"
  shows "\<exists>q. on_queue (\<lambda>c. enqueue c t a) s = (Inr (), s\<lparr>waitingQueue := q\<rparr>)
    \<and> wq_wf (task_cmp (ids s)) {a. id_unique (ids s) a} q \<and> wq_items q = insert (t, a) (waiting s)"
  using tasks.wq.enq_new [of "ids s" "waitingQueue s" a t] assms ids_ok_unique [of s a]
  by (auto simp: containers_ok_def waiting_def on_queue_def)

lemma queue_deq:
  assumes "ids_ok s" "containers_ok s"
  shows "(t, a) \<in> waiting s \<Longrightarrow> \<exists>q. on_queue (\<lambda>c. dequeue c t a) s = (Inr (), s\<lparr>waitingQueue := q\<rparr>)
      \<and> wq_wf (task_cmp (ids s)) {a. id_unique (ids s) a} q \<and> wq_items q = waiting s - {(t, a)}"
    and "(t, a) \<notin> waiting s \<Longrightarrow> on_queue (\<lambda>c. dequeue c t a) s = (Inl KeyError, s)"
  using tasks.wq.deq_mem [of "ids s" "waitingQueue s" a t] tasks.wq.deq_absent [of "ids s" "waitingQueue s" a t]
    assms ids_ok_unique [of s a]
  by (auto simp: containers_ok_def waiting_def on_queue_def)

lemma snd_image_add: "snd ` (E \<union> set [v] \<times> {x}) = insert x (snd ` E)"
  by (auto simp: image_Un)

lemma failed_add:
  assumes "ids_ok s" "containers_ok s" "x \<notin> failed_objs s" "ids s (sobj_task x) \<noteq> None"
  shows "\<exists>d. index_in_failed x s = (Inr (), s\<lparr>failedIndex := d\<rparr>)
    \<and> di_wf (sobj_cmp (ids s)) (sobj_uid (ids s)) (indexable (ids s)) d
    \<and> snd ` di_entries d = insert x (failed_objs s) \<and> di_len d = di_len (failedIndex s) + 1"
  using sobjs.oi.ins_new [of "ids s" "failedIndex s" x "[sched_ts s (clock s)]"] assms
    snd_image_add [of "di_entries (failedIndex s)" "sched_ts s (clock s)" x]
  by (auto simp: containers_ok_def failed_objs_def index_in_failed_def on_failed_def ids_ok_indexable)

lemma finished_add:
  assumes "ids_ok s" "containers_ok s" "x \<notin> finished_objs s" "ids s (sobj_task x) \<noteq> None"
  shows "\<exists>d. index_in_finished x s = (Inr (), s\<lparr>finishedIndex := d\<rparr>)
    \<and> di_wf (sobj_cmp (ids s)) (sobj_uid (ids s)) (indexable (ids s)) d
    \<and> snd ` di_entries d = insert x (finished_objs s) \<and> di_len d = di_len (finishedIndex s) + 1"
  using sobjs.oi.ins_new [of "ids s" "finishedIndex s" x "[sched_ts s (clock s)]"] assms
    snd_image_add [of "di_entries (finishedIndex s)" "sched_ts s (clock s)" x]
  by (auto simp: containers_ok_def finished_objs_def index_in_finished_def on_finished_def ids_ok_indexable)

lemma failed_del:
  assumes "ids_ok s" "containers_ok s" "ids s a \<noteq> None"
  shows "OTask a \<in> failed_objs s \<Longrightarrow> \<exists>d. on_failed (\<lambda>c u. d_unindex_obj c u (OTask a)) s = (Inr (), s\<lparr>failedIndex := d\<rparr>)
      \<and> di_wf (sobj_cmp (ids s)) (sobj_uid (ids s)) (indexable (ids s)) d
      \<and> snd ` di_entries d = failed_objs s - {OTask a}"
    and "OTask a \<notin> failed_objs s \<Longrightarrow>
      on_failed (\<lambda>c u. d_unindex_obj c u (OTask a)) s = (Inl ElementNotFoundException, s)"
proof -
  have x: "OTask a \<in> indexable (ids s)" using assms by (simp add: ids_ok_indexable)
  have wf: "di_wf (sobj_cmp (ids s)) (sobj_uid (ids s)) (indexable (ids s)) (failedIndex s)"
    using assms(2) by (simp add: containers_ok_def)
  show "on_failed (\<lambda>c u. d_unindex_obj c u (OTask a)) s = (Inl ElementNotFoundException, s)"
    if "OTask a \<notin> failed_objs s"
    using sobjs.oi.del_absent [OF wf x] that by (simp add: on_failed_def failed_objs_def)
  assume "OTask a \<in> failed_objs s"
  then obtain d where d: "d_unindex_obj (sobj_cmp (ids s)) (sobj_uid (ids s)) (OTask a) (failedIndex s) = (Inr (), d)"
    "di_wf (sobj_cmp (ids s)) (sobj_uid (ids s)) (indexable (ids s)) d"
    "di_entries d = {(k, y) \<in> di_entries (failedIndex s). y \<noteq> OTask a}"
    using sobjs.oi.del_mem [OF wf x] by (auto simp: failed_objs_def)
  moreover have "snd ` di_entries d = failed_objs s - {OTask a}"
    unfolding d(3) failed_objs_def by force
  ultimately show "\<exists>d. on_failed (\<lambda>c u. d_unindex_obj c u (OTask a)) s = (Inr (), s\<lparr>failedIndex := d\<rparr>)
      \<and> di_wf (sobj_cmp (ids s)) (sobj_uid (ids s)) (indexable (ids s)) d
      \<and> snd ` di_entries d = failed_objs s - {OTask a}"
    by (intro exI [of _ d]) (simp add: on_failed_def)
qed

section \<open>Leaving and entering places\<close>

text \<open>A task that is in none of the places can enter any of them.\<close>

definition nowhere :: "sched \<Rightarrow> oid \<Rightarrow> bool" where
  "nowhere s a \<longleftrightarrow> a \<notin> snd ` waiting s \<and> a \<notin> set (runningList s)
     \<and> OTask a \<notin> failed_objs s \<and> OTask a \<notin> finished_objs s"

lemma waiting_simps [simp]:
  "waiting (s\<lparr>heap := h\<rparr>) = waiting s" "waiting (s\<lparr>waitingQueue := q\<rparr>) = wq_items q"
  "waiting (s\<lparr>runningList := l\<rparr>) = waiting s" "waiting (s\<lparr>failedIndex := d\<rparr>) = waiting s"
  "waiting (s\<lparr>finishedIndex := d\<rparr>) = waiting s" "waiting (s\<lparr>taskIdx := ix\<rparr>) = waiting s"
  "waiting (s\<lparr>taskCounter := n\<rparr>) = waiting s" "waiting (s\<lparr>taskSpool := sp\<rparr>) = waiting s"
  "waiting (s\<lparr>clock := c\<rparr>) = waiting s"
  by (simp_all add: waiting_def)

lemma failed_objs_simps [simp]:
  "failed_objs (s\<lparr>heap := h\<rparr>) = failed_objs s" "failed_objs (s\<lparr>waitingQueue := q\<rparr>) = failed_objs s"
  "failed_objs (s\<lparr>runningList := l\<rparr>) = failed_objs s" "failed_objs (s\<lparr>failedIndex := d\<rparr>) = snd ` di_entries d"
  "failed_objs (s\<lparr>finishedIndex := d\<rparr>) = failed_objs s" "failed_objs (s\<lparr>taskIdx := ix\<rparr>) = failed_objs s"
  "failed_objs (s\<lparr>taskCounter := n\<rparr>) = failed_objs s" "failed_objs (s\<lparr>taskSpool := sp\<rparr>) = failed_objs s"
  "failed_objs (s\<lparr>clock := c\<rparr>) = failed_objs s"
  by (simp_all add: failed_objs_def)

lemma finished_objs_simps [simp]:
  "finished_objs (s\<lparr>heap := h\<rparr>) = finished_objs s" "finished_objs (s\<lparr>waitingQueue := q\<rparr>) = finished_objs s"
  "finished_objs (s\<lparr>runningList := l\<rparr>) = finished_objs s" "finished_objs (s\<lparr>failedIndex := d\<rparr>) = finished_objs s"
  "finished_objs (s\<lparr>finishedIndex := d\<rparr>) = snd ` di_entries d" "finished_objs (s\<lparr>taskIdx := ix\<rparr>) = finished_objs s"
  "finished_objs (s\<lparr>taskCounter := n\<rparr>) = finished_objs s" "finished_objs (s\<lparr>taskSpool := sp\<rparr>) = finished_objs s"
  "finished_objs (s\<lparr>clock := c\<rparr>) = finished_objs s"
  by (simp_all add: finished_objs_def)

lemma ids_ok_frame:
  "taskIdx s' = taskIdx s \<Longrightarrow> taskCounter s' = taskCounter s \<Longrightarrow> ids s' = ids s \<Longrightarrow> ids_ok s' \<longleftrightarrow> ids_ok s"
  by (simp add: ids_ok_def fun_eq_iff)

lemma containers_ok_frame:
  "waitingQueue s' = waitingQueue s \<Longrightarrow> failedIndex s' = failedIndex s \<Longrightarrow>
     finishedIndex s' = finishedIndex s \<Longrightarrow> ids s' = ids s \<Longrightarrow> containers_ok s' \<longleftrightarrow> containers_ok s"
  by (simp add: containers_ok_def)

lemma sched_invD: "sched_inv s \<Longrightarrow> ids_ok s" "sched_inv s \<Longrightarrow> containers_ok s" "sched_inv s \<Longrightarrow> places_ok s"
  by (auto simp: sched_inv_def)

lemma placed_leave:
  "placed W R F G I Q K \<Longrightarrow> W' \<subseteq> W \<Longrightarrow> set R' \<subseteq> set R \<Longrightarrow> distinct R' \<Longrightarrow> F' \<subseteq> F \<Longrightarrow> placed W' R' F' G I Q K"
  unfolding placed_def by (intro conjI) (blast intro: inj_on_subset)+

lemma placed_enter_failed:
  "placed W R F G I Q K \<Longrightarrow> K x \<Longrightarrow>
     (\<And>a. x = OTask a \<Longrightarrow> a \<notin> snd ` W \<and> a \<notin> set R \<and> OTask a \<notin> G) \<Longrightarrow> placed W R (insert x F) G I Q K"
  unfolding placed_def by blast

lemma placed_enter_finished:
  "placed W R F G I Q K \<Longrightarrow> K x \<Longrightarrow>
     (\<And>a. x = OTask a \<Longrightarrow> a \<notin> snd ` W \<and> a \<notin> set R \<and> OTask a \<notin> F) \<Longrightarrow> placed W R F (insert x G) I Q K"
  unfolding placed_def by blast

lemma placed_enter_queue:
  "placed W R F G I Q K \<Longrightarrow> I a \<Longrightarrow> Q a \<Longrightarrow> a \<notin> set R \<Longrightarrow> OTask a \<notin> F \<Longrightarrow> OTask a \<notin> G \<Longrightarrow>
     a \<notin> snd ` W \<Longrightarrow> placed (insert (t, a) W) R F G I Q K"
  unfolding placed_def by (auto simp: inj_on_insert)

lemma placed_enter_running:
  "placed W R F G I Q K \<Longrightarrow> I a \<Longrightarrow> a \<notin> snd ` W \<Longrightarrow> a \<notin> set R \<Longrightarrow> OTask a \<notin> F \<Longrightarrow> OTask a \<notin> G \<Longrightarrow>
     placed W (R @ [a]) F G I Q K"
  unfolding placed_def by auto

lemma placed_mono:
  "placed W R F G I Q K \<Longrightarrow> (\<And>a. I a \<Longrightarrow> I' a) \<Longrightarrow> (\<And>a. a \<in> snd ` W \<Longrightarrow> Q a \<Longrightarrow> Q' a) \<Longrightarrow>
     (\<And>x. x \<in> F \<union> G \<Longrightarrow> K x \<Longrightarrow> K' x) \<Longrightarrow> placed W R F G I' Q' K'"
  unfolding placed_def by blast

lemma placed_distinct: "placed W R F G I Q K \<Longrightarrow> distinct R"
  by (simp add: placed_def)

lemmas inv_placed = sched_invD(3) [unfolded places_ok_def]

lemma inv_leave_running:
  assumes "sched_inv s"
  shows "sched_inv (s\<lparr>runningList := remove1 a (runningList s)\<rparr>)"
proof -
  have "places_ok (s\<lparr>runningList := remove1 a (runningList s)\<rparr>)"
    unfolding places_ok_def using placed_distinct [OF inv_placed [OF assms]]
    by (auto intro!: placed_leave [OF inv_placed [OF assms]] dest: set_mp [OF set_remove1_subset])
  then show ?thesis using assms by (simp add: sched_inv_def ids_ok_def containers_ok_def)
qed

lemma inv_leave_queue:
  assumes "sched_inv s" "wq_wf (task_cmp (ids s)) {a. id_unique (ids s) a} q" "wq_items q \<subseteq> waiting s"
  shows "sched_inv (s\<lparr>waitingQueue := q\<rparr>)"
proof -
  have "places_ok (s\<lparr>waitingQueue := q\<rparr>)"
    unfolding places_ok_def using placed_distinct [OF inv_placed [OF assms(1)]] assms(3)
    by (auto intro!: placed_leave [OF inv_placed [OF assms(1)]])
  then show ?thesis
    using assms(1,2) by (simp add: sched_inv_def ids_ok_def containers_ok_def)
qed

lemma inv_leave_failed:
  assumes "sched_inv s" "di_wf (sobj_cmp (ids s)) (sobj_uid (ids s)) (indexable (ids s)) d"
    "snd ` di_entries d = failed_objs s - {x}"
  shows "sched_inv (s\<lparr>failedIndex := d\<rparr>)"
proof -
  have "places_ok (s\<lparr>failedIndex := d\<rparr>)"
    unfolding places_ok_def using placed_distinct [OF inv_placed [OF assms(1)]]
    by (auto simp: assms(3) intro!: placed_leave [OF inv_placed [OF assms(1)]])
  then show ?thesis
    using assms(1,2) by (simp add: sched_inv_def ids_ok_def containers_ok_def)
qed

lemma inv_enter_running:
  assumes "sched_inv s" "nowhere s a" "ids s a \<noteq> None"
  shows "sched_inv (s\<lparr>runningList := runningList s @ [a]\<rparr>)"
proof -
  have "places_ok (s\<lparr>runningList := runningList s @ [a]\<rparr>)"
    using sched_invD(3) [OF assms(1)] assms(2,3) by (simp add: places_ok_def nowhere_def placed_enter_running has_id_def)
  then show ?thesis using assms(1) by (simp add: sched_inv_def ids_ok_def containers_ok_def)
qed

lemma inv_enter_failed:
  assumes "sched_inv s" "di_wf (sobj_cmp (ids s)) (sobj_uid (ids s)) (indexable (ids s)) d"
    "snd ` di_entries d = insert x (failed_objs s)"
    and x: "occ_known (heap s) x" "\<And>a. x = OTask a \<Longrightarrow> nowhere s a"
  shows "sched_inv (s\<lparr>failedIndex := d\<rparr>)"
proof -
  have "places_ok (s\<lparr>failedIndex := d\<rparr>)"
    using sched_invD(3) [OF assms(1)] x
    by (simp add: places_ok_def assms(3) placed_enter_failed nowhere_def)
  then show ?thesis
    using assms(1,2) by (simp add: sched_inv_def ids_ok_def containers_ok_def)
qed

lemma inv_enter_finished:
  assumes "sched_inv s" "di_wf (sobj_cmp (ids s)) (sobj_uid (ids s)) (indexable (ids s)) d"
    "snd ` di_entries d = insert x (finished_objs s)"
    and x: "occ_known (heap s) x" "\<And>a. x = OTask a \<Longrightarrow> nowhere s a"
  shows "sched_inv (s\<lparr>finishedIndex := d\<rparr>)"
proof -
  have "places_ok (s\<lparr>finishedIndex := d\<rparr>)"
    using sched_invD(3) [OF assms(1)] x
    by (simp add: places_ok_def assms(3) placed_enter_finished nowhere_def)
  then show ?thesis
    using assms(1,2) by (simp add: sched_inv_def ids_ok_def containers_ok_def)
qed

text \<open>
  A task's fields may change when its id stays, its occurrences do not disappear, and its status
  stays while it waits.
\<close>

definition keeps_occs :: "task \<Rightarrow> task \<Rightarrow> bool" where
  "keeps_occs t t' \<longleftrightarrow> (case kind t of OneShotTask _ \<Rightarrow> True
     | PeriodicTask p \<Rightarrow> (case kind t' of OneShotTask _ \<Rightarrow> False
         | PeriodicTask p' \<Rightarrow> occurrenceCount p \<le> occurrenceCount p'))"

lemma keeps_occs_same [simp]: "kind t' = kind t \<Longrightarrow> keeps_occs t t'"
  by (auto simp: keeps_occs_def split: task_kind.split)

lemma occ_known_update: "occ_known h x \<Longrightarrow> keeps_occs (h a) t \<Longrightarrow> occ_known (h(a := t)) x"
  by (auto simp: occ_known_def keeps_occs_def split: sobj.splits task_kind.splits)

lemma inv_update_task:
  assumes inv: "sched_inv s" and t: "task_id t = task_id (heap s a)" "keeps_occs (heap s a) t"
    and st: "a \<in> snd ` waiting s \<Longrightarrow> task_status t = TASK_STATUS_QUEUED"
  shows "sched_inv (s\<lparr>heap := (heap s)(a := t)\<rparr>)"
proof -
  let ?s = "s\<lparr>heap := (heap s)(a := t)\<rparr>"
  have i: "ids ?s = ids s" using t(1) by auto
  have "placed (waiting s) (runningList s) (failed_objs s) (finished_objs s) (has_id (heap ?s)) (is_queued (heap ?s)) (occ_known (heap ?s))"
  proof (rule placed_mono)
    show "placed (waiting s) (runningList s) (failed_objs s) (finished_objs s) (has_id (heap s)) (is_queued (heap s)) (occ_known (heap s))"
      using sched_invD(3) [OF inv] by (simp add: places_ok_def)
  qed (use i st t occ_known_update in \<open>auto simp: is_queued_def has_id_def\<close>)
  then have "places_ok ?s" by (simp add: places_ok_def)
  then show ?thesis
    using inv i by (simp add: sched_inv_def ids_ok_frame [of ?s s] containers_ok_frame [of ?s s])
qed

lemma inv_enter_queue:
  assumes inv: "sched_inv s" and a: "nowhere s a" "ids s a \<noteq> None"
    and q: "wq_wf (task_cmp (ids s)) {a. id_unique (ids s) a} q" "wq_items q = insert (t, a) (waiting s)"
    and u: "task_id u = task_id (heap s a)" "keeps_occs (heap s a) u" "task_status u = TASK_STATUS_QUEUED"
  shows "sched_inv (s\<lparr>waitingQueue := q, heap := (heap s)(a := u)\<rparr>)"
proof -
  let ?s = "s\<lparr>heap := (heap s)(a := u)\<rparr>"
  have inv': "sched_inv ?s" using inv_update_task [OF inv u(1,2)] u(3) by simp
  have i: "ids ?s = ids s" using u(1) by auto
  have "places_ok (?s\<lparr>waitingQueue := q\<rparr>)"
    using sched_invD(3) [OF inv'] a u unfolding places_ok_def nowhere_def
    by (auto simp: q(2) is_queued_def has_id_def intro!: placed_enter_queue)
  moreover have "containers_ok (?s\<lparr>waitingQueue := q\<rparr>)"
    using sched_invD(2) [OF inv'] q(1) i by (simp add: containers_ok_def)
  moreover have "ids_ok (?s\<lparr>waitingQueue := q\<rparr>)"
    using sched_invD(1) [OF inv'] by (simp add: ids_ok_def)
  moreover have "s\<lparr>waitingQueue := q, heap := (heap s)(a := u)\<rparr> = ?s\<lparr>waitingQueue := q\<rparr>" by simp
  ultimately show ?thesis unfolding sched_inv_def by metis
qed

end
