(* ===== verification/Sched_Moves.thy ===== *)
theory Sched_Moves
  imports Sched_Module
begin

text \<open>
  The operations of the scheduler module keep its invariant, and what each of them does to the
  places: the lemmas the server's and the client's proofs are made of.
\<close>

section \<open>What an operation on one task leaves alone\<close>

definition touches :: "oid \<Rightarrow> sched \<Rightarrow> sched \<Rightarrow> bool" where
  "touches a s s' \<longleftrightarrow> (\<forall>b. b \<noteq> a \<longrightarrow> heap s' b = heap s b) \<and> task_id (heap s' a) = task_id (heap s a)
     \<and> taskIdx s' = taskIdx s \<and> taskCounter s' = taskCounter s \<and> taskSpool s' = taskSpool s
     \<and> clock s' = clock s \<and> tz_off s' = tz_off s
     \<and> (\<forall>b. b \<noteq> a \<longrightarrow> (\<forall>t. (t, b) \<in> waiting s' \<longleftrightarrow> (t, b) \<in> waiting s)
          \<and> (b \<in> set (runningList s') \<longleftrightarrow> b \<in> set (runningList s))
          \<and> (OTask b \<in> failed_objs s' \<longleftrightarrow> OTask b \<in> failed_objs s)
          \<and> (OTask b \<in> finished_objs s' \<longleftrightarrow> OTask b \<in> finished_objs s))"

lemma touches_refl [simp]: "touches a s s"
  by (simp add: touches_def)

lemma touches_trans: "touches a s s' \<Longrightarrow> touches a s' s'' \<Longrightarrow> touches a s s''"
  by (simp add: touches_def)

lemma touches_ids: "touches a s s' \<Longrightarrow> ids s' b = ids s b"
  by (cases "b = a") (auto simp: touches_def)

section \<open>Indexing a new task\<close>

lemma wq_wf_cong:
  assumes wf: "wq_wf cmp A q" and sub: "snd ` wq_items q \<subseteq> A'"
    and eq: "\<And>x y. x \<in> snd ` wq_items q \<Longrightarrow> y \<in> snd ` wq_items q \<Longrightarrow> cmp' x y = cmp x y"
  shows "wq_wf cmp' A' q"
proof (rule wq_wfI)
  show bw: "bt_wf (container q)" and "elem_counter q = int (length (wq_iter q))"
    using wf by (auto simp: wq_wf_def)
  fix t b assume b: "bt_get t (container q) = Some b"
  have mem: "set b \<subseteq> snd ` wq_items q"
  proof
    fix x assume "x \<in> set b"
    then have "(t, x) \<in> wq_items q" using b wq_items_get [OF bw] by auto
    then show "x \<in> snd ` wq_items q" by force
  qed
  have "ts_wf cmp b" "b \<noteq> []" using wq_wf_bin [OF wf b] by auto
  then show "b \<noteq> [] \<and> ts_wf cmp' b \<and> set b \<subseteq> A'"
    using mem sub eq sorted_wrt_mono_rel [of b "\<lambda>x y. cmp x y < 0" "\<lambda>x y. cmp' x y < 0"]
    by (auto simp: ts_wf_def subset_iff)
qed

lemma di_wf_cong:
  assumes wf: "di_wf cmp uid A d" and sub: "snd ` di_entries d \<subseteq> A'"
    and eq: "\<And>x y. x \<in> snd ` di_entries d \<Longrightarrow> y \<in> snd ` di_entries d \<Longrightarrow> cmp' x y = cmp x y"
    and uid: "\<And>x. x \<in> snd ` di_entries d \<Longrightarrow> uid' x = uid x"
  shows "di_wf cmp' uid' A' d"
proof -
  have "s \<noteq> [] \<and> ts_wf cmp' s \<and> set s \<subseteq> A'" if s: "bt_get k (fwd_index d) = Some s" for k s
  proof -
    have mem: "set s \<subseteq> snd ` di_entries d" using s by (force simp: di_entries_def)
    have "ts_wf cmp s" "s \<noteq> []" using wf s by (auto simp: di_wf_def)
    then show ?thesis
      using mem sub eq sorted_wrt_mono_rel [of s "\<lambda>x y. cmp x y < 0" "\<lambda>x y. cmp' x y < 0"]
      by (auto simp: ts_wf_def subset_iff)
  qed
  moreover have "(\<lambda>(k, x). (uid' x, k)) ` di_entries d = (\<lambda>(k, x). (uid x, k)) ` di_entries d"
    using uid by (force intro!: image_cong)
  ultimately show ?thesis using wf by (simp add: di_wf_def)
qed

lemma failed_indexed:
  assumes "sched_inv s" "x \<in> failed_objs s"
  shows "ids s (sobj_task x) \<noteq> None"
proof -
  obtain k where "(k, x) \<in> di_entries (failedIndex s)" using assms(2) by (auto simp: failed_objs_def)
  then have "x \<in> indexable (ids s)"
    using sobjs.di_entries_carrier sched_invD(2) [OF assms(1)] unfolding containers_ok_def by blast
  then show ?thesis by (simp add: indexable_def)
qed

lemma finished_indexed:
  assumes "sched_inv s" "x \<in> finished_objs s"
  shows "ids s (sobj_task x) \<noteq> None"
proof -
  obtain k where "(k, x) \<in> di_entries (finishedIndex s)" using assms(2) by (auto simp: finished_objs_def)
  then have "x \<in> indexable (ids s)"
    using sobjs.di_entries_carrier sched_invD(2) [OF assms(1)] unfolding containers_ok_def by blast
  then show ?thesis by (simp add: indexable_def)
qed

lemma waiting_indexed: "sched_inv s \<Longrightarrow> x \<in> snd ` waiting s \<Longrightarrow> ids s x \<noteq> None"
  using inv_placed [of s] by (auto simp: placed_def has_id_def)

lemma running_indexed: "sched_inv s \<Longrightarrow> x \<in> set (runningList s) \<Longrightarrow> ids s x \<noteq> None"
  using inv_placed [of s] by (auto simp: placed_def has_id_def)

lemma unindexed_nowhere: "sched_inv s \<Longrightarrow> ids s a = None \<Longrightarrow> nowhere s a"
  using failed_indexed [of s "OTask a"] finished_indexed [of s "OTask a"] waiting_indexed [of s a]
    running_indexed [of s a]
  unfolding nowhere_def by auto

lemma task_cmp_cong: "f' a = f a \<Longrightarrow> f' b = f b \<Longrightarrow> task_cmp f' a b = task_cmp f a b"
  by (simp only: task_cmp_def)

lemma sobj_cmp_ids:
  assumes "f' (sobj_task x) = f (sobj_task x)" "f' (sobj_task y) = f (sobj_task y)"
  shows "sobj_cmp f' x y = sobj_cmp f x y"
proof -
  have "task_cmp f' (sobj_task x) (sobj_task y) = task_cmp f (sobj_task x) (sobj_task y)"
    using assms by (rule task_cmp_cong)
  then show ?thesis by (cases x; cases y) simp_all
qed

lemma sobj_uid_ids: "f' (sobj_task x) = f (sobj_task x) \<Longrightarrow> sobj_uid f' x = sobj_uid f x"
  by (cases x) simp_all

definition indexed_state :: "oid \<Rightarrow> sched \<Rightarrow> sched" where
  "indexed_state a s = s\<lparr>heap := (heap s)(a := task_initialize (taskCounter s) TASK_STATUS_SPOOLED (heap s a)),
     taskIdx := bt_put (taskCounter s) a (taskIdx s), taskCounter := taskCounter s + 1\<rparr>"

lemma indexTask_run: "indexTask a s = (Inr (), indexed_state a s)"
  by (simp add: indexTask_def upd_task_def indexed_state_def)

lemma indexed_state_inv:
  assumes inv: "sched_inv s" and new: "ids s a = None"
  shows "sched_inv (indexed_state a s)"
proof -
  let ?s = "indexed_state a s"
  have n: "nowhere s a" by (rule unindexed_nowhere [OF inv new])
  have idx: "ids ?s b = (if b = a then Some (taskCounter s) else ids s b)" for b
    by (simp add: indexed_state_def task_initialize_def)
  have same: "ids ?s b = ids s b" if "ids s b \<noteq> None" for b using that new idx by auto
  have ok: "ids_ok s" using sched_invD(1) [OF inv] .
  have okD: "bt_get m (taskIdx s) = Some b \<longleftrightarrow> ids s b = Some m"
    "m < taskCounter s \<longleftrightarrow> bt_get m (taskIdx s) \<noteq> None" for m b
    using ok by (auto simp: ids_ok_def)
  have fresh: "ids s b \<noteq> Some (taskCounter s)" for b
    using okD(1) [of "taskCounter s" b] okD(2) [of "taskCounter s"] by simp
  have ids: "ids_ok ?s"
    unfolding ids_ok_def
  proof (intro conjI allI)
    show "bt_wf (taskIdx ?s)" using ok by (simp add: indexed_state_def ids_ok_def bt_wf_put)
    fix m b
    show "bt_get m (taskIdx ?s) = Some b \<longleftrightarrow> ids ?s b = Some m"
      using okD(1) [of m b] fresh [of b] new unfolding idx by (auto simp: indexed_state_def bt_get_put)
    show "m < taskCounter ?s \<longleftrightarrow> bt_get m (taskIdx ?s) \<noteq> None"
      using okD(2) [of m] by (auto simp: indexed_state_def bt_get_put less_Suc_eq)
  qed
  have q: "waitingQueue ?s = waitingQueue s" "failedIndex ?s = failedIndex s" "finishedIndex ?s = finishedIndex s"
    by (simp_all add: indexed_state_def)
  have c: "containers_ok s" using sched_invD(2) [OF inv] .
  have index_wf: "di_wf (sobj_cmp (ids ?s)) (sobj_uid (ids ?s)) (indexable (ids ?s)) d"
    if wf: "di_wf (sobj_cmp (ids s)) (sobj_uid (ids s)) (indexable (ids s)) d"
      and mem: "\<And>x. x \<in> snd ` di_entries d \<Longrightarrow> ids s (sobj_task x) \<noteq> None" for d
  proof (rule di_wf_cong [OF wf])
    have eq: "ids ?s (sobj_task x) = ids s (sobj_task x)" if "x \<in> snd ` di_entries d" for x
      by (rule same [OF mem [OF that]])
    show "snd ` di_entries d \<subseteq> indexable (ids ?s)"
    proof
      fix x assume x: "x \<in> snd ` di_entries d"
      show "x \<in> indexable (ids ?s)" using mem [OF x] eq [OF x] by (simp add: ids_ok_indexable [OF ids])
    qed
    show "sobj_cmp (ids ?s) x y = sobj_cmp (ids s) x y"
      if "x \<in> snd ` di_entries d" "y \<in> snd ` di_entries d" for x y
      using that by (intro sobj_cmp_ids eq)
    show "sobj_uid (ids ?s) x = sobj_uid (ids s) x" if "x \<in> snd ` di_entries d" for x
      using that by (intro sobj_uid_ids eq)
  qed
  have "containers_ok ?s"
    unfolding containers_ok_def q
  proof (intro conjI)
    show "wq_wf (task_cmp (ids ?s)) {a. id_unique (ids ?s) a} (waitingQueue s)"
    proof (rule wq_wf_cong)
      show "wq_wf (task_cmp (ids s)) {a. id_unique (ids s) a} (waitingQueue s)"
        using c by (simp add: containers_ok_def)
      show "snd ` wq_items (waitingQueue s) \<subseteq> {a. id_unique (ids ?s) a}"
        by (simp add: ids_ok_carrier [OF ids])
      show "task_cmp (ids ?s) x y = task_cmp (ids s) x y"
        if "x \<in> snd ` wq_items (waitingQueue s)" "y \<in> snd ` wq_items (waitingQueue s)" for x y
        using that waiting_indexed [OF inv, unfolded waiting_def] by (intro task_cmp_cong same)
    qed
    show "di_wf (sobj_cmp (ids ?s)) (sobj_uid (ids ?s)) (indexable (ids ?s)) (failedIndex s)"
      by (rule index_wf) (use c failed_indexed [OF inv] in \<open>simp_all add: containers_ok_def failed_objs_def\<close>)
    show "di_wf (sobj_cmp (ids ?s)) (sobj_uid (ids ?s)) (indexable (ids ?s)) (finishedIndex s)"
      by (rule index_wf) (use c finished_indexed [OF inv] in \<open>simp_all add: containers_ok_def finished_objs_def\<close>)
  qed
  moreover have "places_ok ?s"
  proof -
    have "placed (waiting s) (runningList s) (failed_objs s) (finished_objs s)
        (has_id (heap ?s)) (is_queued (heap ?s)) (occ_known (heap ?s))"
    proof (rule placed_mono [OF inv_placed [OF inv]])
      show "has_id (heap ?s) b" if "has_id (heap s) b" for b using that same by (auto simp: has_id_def)
      show "is_queued (heap ?s) b" if "b \<in> snd ` waiting s" "is_queued (heap s) b" for b
        using that n by (auto simp: is_queued_def nowhere_def indexed_state_def)
      show "occ_known (heap ?s) x" if "occ_known (heap s) x" for x
        using that by (auto simp: indexed_state_def task_initialize_def intro!: occ_known_update)
    qed
    then show ?thesis by (simp add: places_ok_def indexed_state_def)
  qed
  ultimately show ?thesis using ids by (simp add: sched_inv_def)
qed

section \<open>Moving tasks\<close>

text \<open>
  \<open>moved a s s'\<close>: the invariant holds afterwards and only \<open>a\<close> was moved.  \<open>startable\<close> gives
  the timestamp a task would wait at.
\<close>

definition moved :: "oid \<Rightarrow> sched \<Rightarrow> sched \<Rightarrow> bool" where
  "moved a s s' \<longleftrightarrow> sched_inv s' \<and> touches a s s'"

lemma moved_refl: "sched_inv s \<Longrightarrow> moved a s s"
  by (simp add: moved_def)

lemma moved_trans: "moved a s s' \<Longrightarrow> moved a s' s'' \<Longrightarrow> moved a s s''"
  by (auto simp: moved_def intro: touches_trans)

lemma touches_nowhere:
  "touches a s s' \<Longrightarrow> b \<noteq> a \<Longrightarrow> nowhere s' b \<longleftrightarrow> nowhere s b"
  by (auto simp: touches_def nowhere_def image_iff)

lemma waiting_time: "sched_inv s \<Longrightarrow> (t, a) \<in> waiting s \<Longrightarrow> (t', a) \<in> waiting s \<Longrightarrow> t = t'"
  using inv_placed [of s] inj_onD [of snd "waiting s" "(t, a)" "(t', a)"] by (simp add: placed_def)

lemma waiting_places:
  "sched_inv s \<Longrightarrow> a \<in> snd ` waiting s \<Longrightarrow> a \<notin> set (runningList s) \<and> OTask a \<notin> failed_objs s
     \<and> OTask a \<notin> finished_objs s \<and> task_status (heap s a) = TASK_STATUS_QUEUED"
  using inv_placed [of s] by (auto simp: placed_def is_queued_def)

lemma running_places:
  "sched_inv s \<Longrightarrow> a \<in> set (runningList s) \<Longrightarrow> a \<notin> snd ` waiting s \<and> OTask a \<notin> failed_objs s
     \<and> OTask a \<notin> finished_objs s"
  using inv_placed [of s] by (auto simp: placed_def)

lemma failed_places:
  "sched_inv s \<Longrightarrow> OTask a \<in> failed_objs s \<Longrightarrow> a \<notin> snd ` waiting s \<and> a \<notin> set (runningList s)
     \<and> OTask a \<notin> finished_objs s"
  using inv_placed [of s] by (auto simp: placed_def)

lemma running_distinct: "sched_inv s \<Longrightarrow> distinct (runningList s)"
  using inv_placed [of s] by (auto simp: placed_def)

text \<open>Out of the running list, the queue and the failed index.\<close>

lemma move_out_running:
  assumes inv: "sched_inv s" and a: "a \<notin> snd ` waiting s" "OTask a \<notin> failed_objs s" "OTask a \<notin> finished_objs s"
  obtains s' where "move_out a TASK_STATUS_RUNNING s = (Inr (), s')" "moved a s s'" "nowhere s' a"
    "heap s' = heap s" "waiting s' = waiting s" "failed_objs s' = failed_objs s"
    "finished_objs s' = finished_objs s" "runningList s' = remove1 a (runningList s)"
proof
  let ?s = "s\<lparr>runningList := remove1 a (runningList s)\<rparr>"
  show "move_out a TASK_STATUS_RUNNING s = (Inr (), ?s)"
    by (simp add: move_out_def removeRunning_run sched_invD(1) [OF inv])
  show "moved a s ?s" using inv_leave_running [OF inv] by (simp add: moved_def touches_def)
  show "nowhere ?s a" using a running_distinct [OF inv] by (simp add: nowhere_def)
qed simp_all

lemma move_out_queue:
  assumes inv: "sched_inv s" and a: "(t, a) \<in> waiting s"
  obtains s' where "on_queue (\<lambda>c. dequeue c t a) s = (Inr (), s')" "moved a s s'" "nowhere s' a"
    "heap s' = heap s" "waiting s' = waiting s - {(t, a)}" "failed_objs s' = failed_objs s"
    "finished_objs s' = finished_objs s" "runningList s' = runningList s"
proof -
  obtain q where q: "on_queue (\<lambda>c. dequeue c t a) s = (Inr (), s\<lparr>waitingQueue := q\<rparr>)"
    "wq_wf (task_cmp (ids s)) {a. id_unique (ids s) a} q" "wq_items q = waiting s - {(t, a)}"
    using queue_deq(1) [OF sched_invD(1,2) [OF inv] a] by blast
  let ?s = "s\<lparr>waitingQueue := q\<rparr>"
  have "sched_inv ?s" using inv_leave_queue [OF inv q(2)] q(3) by auto
  then have "moved a s ?s" using q(3) by (simp add: moved_def touches_def)
  moreover have "nowhere ?s a"
  proof -
    have "a \<notin> snd ` (waiting s - {(t, a)})" using waiting_time [OF inv a] by auto
    moreover have "a \<in> snd ` waiting s" using a by force
    ultimately show ?thesis using waiting_places [OF inv] q(3) by (simp add: nowhere_def)
  qed
  ultimately show ?thesis using that [of ?s] q by simp
qed

lemma move_out_failed:
  assumes inv: "sched_inv s" and a: "OTask a \<in> failed_objs s"
  obtains s' where "move_out a TASK_STATUS_FAILED s = (Inr (), s')" "moved a s s'" "nowhere s' a"
    "heap s' = heap s" "waiting s' = waiting s" "failed_objs s' = failed_objs s - {OTask a}"
    "finished_objs s' = finished_objs s" "runningList s' = runningList s"
proof -
  have id: "ids s a \<noteq> None" using failed_indexed [OF inv a] by simp
  obtain d where d: "on_failed (\<lambda>c u. d_unindex_obj c u (OTask a)) s = (Inr (), s\<lparr>failedIndex := d\<rparr>)"
    "di_wf (sobj_cmp (ids s)) (sobj_uid (ids s)) (indexable (ids s)) d"
    "snd ` di_entries d = failed_objs s - {OTask a}"
    using failed_del(1) [OF sched_invD(1,2) [OF inv] id a] by blast
  let ?s = "s\<lparr>failedIndex := d\<rparr>"
  have "sched_inv ?s" by (rule inv_leave_failed [OF inv d(2,3)])
  then have "moved a s ?s" using d(3) by (simp add: moved_def touches_def)
  moreover have "nowhere ?s a"
    using failed_places [OF inv a] d(3) by (simp add: nowhere_def)
  ultimately show ?thesis using that [of ?s] d by (simp add: move_out_def)
qed

text \<open>Into the queue and the indexes.\<close>

lemma enter_queue:
  assumes inv: "sched_inv s" and a: "nowhere s a" "ids s a \<noteq> None"
  obtains s' where "addTaskToWaitingQueue a False s = (Inr (), s')" "moved a s s'"
    "waiting s' = (case getStartOn (heap s a) of None \<Rightarrow> waiting s
        | Some d \<Rightarrow> insert (sched_ts s d, a) (waiting s))"
    "failed_objs s' = failed_objs s" "finished_objs s' = finished_objs s" "runningList s' = runningList s"
    "heap s' = (case getStartOn (heap s a) of None \<Rightarrow> heap s
        | Some d \<Rightarrow> (heap s)(a := (heap s a)\<lparr>task_status := TASK_STATUS_QUEUED\<rparr>))"
proof (cases "getStartOn (heap s a)")
  case None
  then show ?thesis using that [of s] moved_refl [OF inv] by (simp add: addTaskToWaitingQueue_def)
next
  case (Some d)
  have "(sched_ts s d, a) \<notin> waiting s" using a(1) by (force simp: nowhere_def)
  then obtain q where q: "on_queue (\<lambda>c. enqueue c (sched_ts s d) a) s = (Inr (), s\<lparr>waitingQueue := q\<rparr>)"
    "wq_wf (task_cmp (ids s)) {a. id_unique (ids s) a} q" "wq_items q = insert (sched_ts s d, a) (waiting s)"
    using queue_enq [OF sched_invD(1,2) [OF inv]] by blast
  let ?t = "(heap s a)\<lparr>task_status := TASK_STATUS_QUEUED\<rparr>"
  let ?s = "s\<lparr>waitingQueue := q, heap := (heap s)(a := ?t)\<rparr>"
  have "sched_inv ?s" by (rule inv_enter_queue [OF inv a q(2,3)]) simp_all
  then have "moved a s ?s" using q(3) by (simp add: moved_def touches_def)
  moreover have "addTaskToWaitingQueue a False s = (Inr (), ?s)"
    using Some q(1) by (simp add: addTaskToWaitingQueue_def setStatus_def upd_task_def)
  ultimately show ?thesis using that [of ?s] q(3) Some by simp
qed

lemma enter_failed:
  assumes inv: "sched_inv s" and x: "x \<notin> failed_objs s" "ids s (sobj_task x) \<noteq> None" "occ_known (heap s) x"
    "\<And>b. x = OTask b \<Longrightarrow> nowhere s b"
  obtains s' where "index_in_failed x s = (Inr (), s')" "moved (sobj_task x) s s'"
    "waiting s' = waiting s" "failed_objs s' = insert x (failed_objs s)" "finished_objs s' = finished_objs s"
    "runningList s' = runningList s" "heap s' = heap s"
proof -
  obtain d where d: "index_in_failed x s = (Inr (), s\<lparr>failedIndex := d\<rparr>)"
    "di_wf (sobj_cmp (ids s)) (sobj_uid (ids s)) (indexable (ids s)) d"
    "snd ` di_entries d = insert x (failed_objs s)"
    using failed_add [OF sched_invD(1,2) [OF inv] x(1,2)] by blast
  let ?s = "s\<lparr>failedIndex := d\<rparr>"
  have "sched_inv ?s" by (rule inv_enter_failed [OF inv d(2,3) x(3,4)])
  then have "moved (sobj_task x) s ?s" using d(3) by (auto simp: moved_def touches_def)
  then show ?thesis using that [of ?s] d(1,3) by simp
qed

lemma enter_finished:
  assumes inv: "sched_inv s" and x: "x \<notin> finished_objs s" "ids s (sobj_task x) \<noteq> None" "occ_known (heap s) x"
    "\<And>b. x = OTask b \<Longrightarrow> nowhere s b"
  obtains s' where "index_in_finished x s = (Inr (), s')" "moved (sobj_task x) s s'"
    "waiting s' = waiting s" "finished_objs s' = insert x (finished_objs s)" "failed_objs s' = failed_objs s"
    "runningList s' = runningList s" "heap s' = heap s"
proof -
  obtain d where d: "index_in_finished x s = (Inr (), s\<lparr>finishedIndex := d\<rparr>)"
    "di_wf (sobj_cmp (ids s)) (sobj_uid (ids s)) (indexable (ids s)) d"
    "snd ` di_entries d = insert x (finished_objs s)"
    using finished_add [OF sched_invD(1,2) [OF inv] x(1,2)] by blast
  let ?s = "s\<lparr>finishedIndex := d\<rparr>"
  have "sched_inv ?s" by (rule inv_enter_finished [OF inv d(2,3) x(3,4)])
  then have "moved (sobj_task x) s ?s" using d(3) by (auto simp: moved_def touches_def)
  then show ?thesis using that [of ?s] d(1,3) by simp
qed

end
