(* ===== verification/Sched_Server.thy ===== *)
theory Sched_Server
  imports Sched_Moves
begin

text \<open>
  The scheduler process, \<open>indico/modules/scheduler/server.py\<close>: taking instructions from the
  spool, starting tasks whose time has come, recording tasks that have finished, looking for tasks
  that went absent without leave, and relaunching what an earlier process left behind.  The
  process keeps a dictionary of its workers.  A database operation is atomic here and its commit
  succeeds; what \<open>OperationManager\<close> does on conflicts is the subject of \<open>Op_Manager\<close>.
\<close>

section \<open>The state of the process\<close>

text \<open>
  A worker is another thread or process.  The server only sees whether it is alive and its result:
  0 until it is set, then 1 for success and 0 for failure (Python's \<open>True\<close> and \<open>False\<close>).
  \<open>w_prepared\<close> says that the worker is past \<open>_prepare\<close>.
\<close>

record worker =
  w_delay :: int
  w_prepared :: bool
  w_alive :: bool
  w_result :: int

record server =
  db :: sched
  runningWorkers :: "(nat \<times> worker) list"

definition on_db :: "(sched, 'a) prog \<Rightarrow> (server, 'a) prog" where
  "on_db m = zoom db (\<lambda>d s. s\<lparr>db := d\<rparr>) m"

section \<open>Database operations\<close>

definition db_popFromSpool :: "(sched, spool_item option) prog" where
  "db_popFromSpool = bnd (gets taskSpool) (\<lambda>sp. case sp of
       [] \<Rightarrow> ret None
     | item # sp' \<Rightarrow> andthen (modify (\<lambda>s. s\<lparr>taskSpool := sp'\<rparr>)) (ret (Some item)))"

definition db_moveTask :: "oid \<Rightarrow> task_status \<Rightarrow> task_status \<Rightarrow> sobj option \<Rightarrow> bool \<Rightarrow> bool \<Rightarrow> (sched, unit) prog" where
  "db_moveTask a moveFrom status occurrence nocheck setSt =
     andthen (moveTask a moveFrom status occurrence nocheck) (when_do setSt (setStatus a status))"

definition db_setTaskRunning :: "int \<Rightarrow> oid \<Rightarrow> (sched, unit) prog" where
  "db_setTaskRunning timestamp a =
     andthen (removeWaitingTask timestamp a)
     (andthen (bnd (gets clock) (\<lambda>now. upd_task a (\<lambda>t. t\<lparr>onRunningListSince := Some now\<rparr>)))
              (addTaskToRunningList a))"

text \<open>
  \<open>_db_notifyTaskStatus\<close>.  The \<open>tearDown\<close> after the \<open>raise\<close> is not reached.  A periodic task
  that should not come back gets its occurrence and its status and stays where it is.
\<close>

definition db_notifyTaskStatus :: "oid \<Rightarrow> task_status \<Rightarrow> (sched, unit) prog" where
  "db_notifyTaskStatus a status =
     (if status \<notin> {TASK_STATUS_FINISHED, TASK_STATUS_FAILED}
      then raise_exn (GenericException ''Impossible task/slave state'')
      else bnd get_st (\<lambda>s.
        if task_status (heap s a) = TASK_STATUS_TERMINATED then
          when_do (in_running s a) (removeRunningTask a)
        else andthen (setStatus a status)
          (case kind (heap s a) of
             PeriodicTask p \<Rightarrow>
               andthen (upd_task a (map_periodic (addOccurrence (task_occurrence (heap s a)))))
               (when_do (p_repeat p)
                 (andthen (upd_task a (\<lambda>t. t\<lparr>endedOn := None\<rparr>))
                 (andthen (upd_task a (map_periodic (setNextOccurrence None (clock s))))
                 (andthen (moveTask a TASK_STATUS_RUNNING status (Some (OOcc a (occurrenceCount p))) True)
                          (addTaskToWaitingQueue a False)))))
           | OneShotTask _ \<Rightarrow> moveTask a TASK_STATUS_RUNNING status None True)))"

definition db_deleteTaskFromQueue :: "oid \<Rightarrow> (sched, unit) prog" where
  "db_deleteTaskFromQueue a = bnd get_st (\<lambda>s.
     andthen (when_do (is_periodic (heap s a)) (upd_task a (map_periodic dontComeBack)))
             (moveTask a (task_status (heap s a)) TASK_STATUS_NONE None False))"

section \<open>The spool\<close>

text \<open>One instruction; every exception is logged and raised again.\<close>

definition do_spool_item :: "spool_item \<Rightarrow> (sched, unit) prog" where
  "do_spool_item item = (case item of
       SpAdd a \<Rightarrow> addTaskToWaitingQueue a True
     | SpChange oldTS a \<Rightarrow> changeTaskStartDate oldTS a
     | SpDel a \<Rightarrow> db_deleteTaskFromQueue a
     | SpShutdown msg \<Rightarrow> raise_exn (SchedulerQuitException msg)
     | SpOther op \<Rightarrow> raise_exn (SchedulerUnknownOperationException op))"

text \<open>
  \<open>_processSpool\<close>: the loop pulls one instruction per round, so the length of the spool is enough
  fuel (plus one for the empty pull).
\<close>

fun spool_loop :: "nat \<Rightarrow> (sched, unit) prog" where
  "spool_loop 0 = ret ()"
| "spool_loop (Suc n) = bnd db_popFromSpool (\<lambda>item. case item of
       None \<Rightarrow> ret ()
     | Some i \<Rightarrow> andthen (do_spool_item i) (spool_loop n))"

definition processSpool :: "(sched, unit) prog" where
  "processSpool = bnd (gets taskSpool) (\<lambda>sp. spool_loop (Suc (length sp)))"

section \<open>Workers\<close>

definition check_finished_one :: "nat \<times> worker \<Rightarrow> (server, unit) prog" where
  "check_finished_one = (\<lambda>(n, w). when_do (\<not> w_alive w)
     (bnd (on_db (getTaskById n)) (\<lambda>a.
      andthen (if w_result w = 1 then on_db (db_notifyTaskStatus a TASK_STATUS_FINISHED)
               else if w_result w = 0 then on_db (db_notifyTaskStatus a TASK_STATUS_FAILED)
               else ret ())
              (modify (\<lambda>s. s\<lparr>runningWorkers := bt_del n (runningWorkers s)\<rparr>)))))"

definition checkFinishedTasks :: "(server, unit) prog" where
  "checkFinishedTasks = bnd (gets runningWorkers) (\<lambda>ws. for_each ws check_finished_one)"

text \<open>
  \<open>_taskCycle\<close> starts a worker.  A worker is created for a task's id; the tasks in the queue have
  one (\<open>TypeError\<close> stands for what a worker without an id would meet).
\<close>

definition taskCycle :: "int \<Rightarrow> oid \<Rightarrow> (server, unit) prog" where
  "taskCycle timestamp a =
     andthen (on_db (db_setTaskRunning timestamp a))
     (bnd (gets db) (\<lambda>d. case task_id (heap d a) of
         None \<Rightarrow> raise_exn TypeError
       | Some n \<Rightarrow> modify (\<lambda>s. s\<lparr>runningWorkers := bt_put n
           \<lparr>w_delay = sched_ts d (clock d) - timestamp, w_prepared = False, w_alive = True, w_result = 0\<rparr>
           (runningWorkers s)\<rparr>)))"

section \<open>Tasks absent without leave\<close>

definition check_awol_one :: "oid \<Rightarrow> (sched, unit) prog" where
  "check_awol_one a = bnd get_st (\<lambda>s. case onRunningListSince (heap s a) of
       None \<Rightarrow> db_moveTask a TASK_STATUS_RUNNING TASK_STATUS_QUEUED None False False
     | Some since \<Rightarrow>
         (let runForSecs = sched_ts s (clock s) - sched_ts s since in
          when_do (runForSecs > awol_threshold (heap s a))
            (db_moveTask a TASK_STATUS_RUNNING TASK_STATUS_TERMINATED None False True)))"

definition checkAWOLTasks :: "(sched, unit) prog" where
  "checkAWOLTasks = bnd (gets runningList) (\<lambda>l. for_each l check_awol_one)"

section \<open>Startup\<close>

text \<open>
  \<open>_relaunchRunningListItems\<close> iterates over the running list itself while \<open>moveTask\<close> removes from
  it.  Python's iterator keeps an index, so each removal skips the next element.  The list never
  grows, so its length is enough fuel.
\<close>

definition relaunch_one :: "oid \<Rightarrow> (sched, unit) prog" where
  "relaunch_one a =
     catch_exn (db_moveTask a TASK_STATUS_RUNNING TASK_STATUS_QUEUED None False False)
       (\<lambda>e. if e = TaskInconsistentStatusException
            then Some (db_moveTask a TASK_STATUS_RUNNING TASK_STATUS_FAILED None True False)
            else None)"

fun relaunch_loop :: "nat \<Rightarrow> nat \<Rightarrow> (sched, unit) prog" where
  "relaunch_loop 0 i = ret ()"
| "relaunch_loop (Suc fuel) i = bnd (gets runningList) (\<lambda>l.
     if i < length l then andthen (relaunch_one (l ! i)) (relaunch_loop fuel (i + 1)) else ret ())"

definition relaunchRunningListItems :: "(sched, unit) prog" where
  "relaunchRunningListItems = bnd (gets runningList) (\<lambda>l. relaunch_loop (length l) 0)"

section \<open>The main loop\<close>

text \<open>
  One pass of \<open>_iterateTasks\<close>: \<open>Some\<close> when a task is due, \<open>None\<close> when there is nothing to do; the
  finished tasks are handled even when the spool orders a shutdown.  \<open>awol\<close> is the outcome of the
  random choice.
\<close>

definition iterate_pass :: "bool \<Rightarrow> (server, (int \<times> oid) option) prog" where
  "iterate_pass awol = bnd (gets db) (\<lambda>d0.
     let currentTimestamp = sched_ts d0 (clock d0) in
     andthen (finally_do (on_db processSpool) checkFinishedTasks)
     (bnd (on_db peekNextWaitingTask) (\<lambda>res.
        case res of
          Some (nextTS, nextTask) \<Rightarrow>
            if nextTS \<le> currentTimestamp then ret (Some (nextTS, nextTask))
            else andthen (when_do awol (on_db checkAWOLTasks)) (ret None)
        | None \<Rightarrow> andthen (when_do awol (on_db checkAWOLTasks)) (ret None))))"

definition server_pass :: "bool \<Rightarrow> (server, unit) prog" where
  "server_pass awol = bnd (iterate_pass awol) (\<lambda>r. case r of
       None \<Rightarrow> ret ()
     | Some (ts, a) \<Rightarrow> taskCycle ts a)"

text \<open>
  \<open>run\<close> with the outcomes of the random choices of its first passes: \<open>None\<close> when it is still
  in its loop after them, \<open>Some 0\<close> when it was ordered to shut down; other exceptions leave it.
  However it ends, it resets the running status.
\<close>

definition server_main :: "string \<Rightarrow> int \<Rightarrow> bool list \<Rightarrow> (server, int option) prog" where
  "server_main fqdn p passes = catch_exn
     (andthen (on_db (setSchedulerRunningStatus fqdn p True))
     (andthen (on_db relaunchRunningListItems)
     (andthen (for_each passes server_pass) (ret None))))
     (\<lambda>e. case e of SchedulerQuitException _ \<Rightarrow> Some (ret (Some 0)) | _ \<Rightarrow> None)"

definition server_run :: "string \<Rightarrow> int \<Rightarrow> bool list \<Rightarrow> (server, int option) prog" where
  "server_run fqdn p passes s = (case server_main fqdn p passes s of
       (Inr None, s') \<Rightarrow> (Inr None, s')
     | (r, s') \<Rightarrow> finally_do (\<lambda>s'. (r, s')) (on_db (setSchedulerRunningStatus fqdn p False)) s')"

end
