(* ===== verification/Sched_Safety.thy ===== *)
theory Sched_Safety
  imports Sched_Server
begin

text \<open>
  What holds in every state of the scheduler, whatever clients, workers and the server do and in
  whatever order: the invariant \<open>srv_inv\<close> of the database, the spool and the workers, each
  operation's preservation proof, and the step relation \<open>sys_step\<close> with its reachable states.
\<close>

section \<open>The invariant of the system\<close>

text \<open>A task that waits in the spool to be added is new, and is there once.\<close>

definition spool_adds :: "spool_item list \<Rightarrow> oid list" where
  "spool_adds sp = concat (map (\<lambda>i. case i of SpAdd a \<Rightarrow> [a] | _ \<Rightarrow> []) sp)"

definition spool_ok :: "sched \<Rightarrow> bool" where
  "spool_ok d \<longleftrightarrow> distinct (spool_adds (taskSpool d)) \<and> (\<forall>a \<in> set (spool_adds (taskSpool d)). ids d a = None)"

text \<open>
  A task with a worker does not wait and has not finished.  It is among the failed ones only when
  it was terminated, and before the worker has prepared it, its status is still queued.
\<close>

definition worker_ok :: "sched \<Rightarrow> oid \<Rightarrow> worker \<Rightarrow> bool" where
  "worker_ok d a w \<longleftrightarrow> a \<notin> snd ` waiting d \<and> OTask a \<notin> finished_objs d
     \<and> (OTask a \<notin> failed_objs d \<or> w_prepared w \<and> task_status (heap d a) = TASK_STATUS_TERMINATED)
     \<and> (\<not> w_prepared w \<longrightarrow> task_status (heap d a) = TASK_STATUS_QUEUED)"

definition workers_ok :: "server \<Rightarrow> bool" where
  "workers_ok s \<longleftrightarrow> bt_wf (runningWorkers s) \<and> (\<forall>n w. bt_get n (runningWorkers s) = Some w \<longrightarrow>
     (\<exists>a. ids (db s) a = Some n \<and> worker_ok (db s) a w))"

definition since_ok :: "sched \<Rightarrow> bool" where
  "since_ok d \<longleftrightarrow> (\<forall>a \<in> set (runningList d). onRunningListSince (heap d a) \<noteq> None)"

definition srv_inv :: "server \<Rightarrow> bool" where
  "srv_inv s \<longleftrightarrow> sched_inv (db s) \<and> spool_ok (db s) \<and> since_ok (db s) \<and> workers_ok s"

lemma srv_invD:
  assumes "srv_inv s"
  shows "sched_inv (db s)" "spool_ok (db s)" "since_ok (db s)" "workers_ok s"
  using assms by (auto simp: srv_inv_def)

text \<open>The worker of a task, if it has one.\<close>

definition worker_of :: "server \<Rightarrow> oid \<Rightarrow> worker option" where
  "worker_of s a = (case task_id (heap (db s) a) of None \<Rightarrow> None | Some n \<Rightarrow> bt_get n (runningWorkers s))"

lemma ids_inj: "ids_ok d \<Longrightarrow> ids d a = Some n \<Longrightarrow> ids d b = Some n \<Longrightarrow> a = b"
  by (simp add: ids_ok_def) (metis option.inject)

lemma worker_of_ok: "srv_inv s \<Longrightarrow> worker_of s a = Some w \<Longrightarrow> worker_ok (db s) a w"
  using ids_inj [OF sched_invD(1) [OF srv_invD(1)]] srv_invD(4) [of s]
  by (fastforce simp: worker_of_def workers_ok_def split: option.splits)

lemma waiting_no_worker: "srv_inv s \<Longrightarrow> a \<in> snd ` waiting (db s) \<Longrightarrow> worker_of s a = None"
  using worker_of_ok [of s a] unfolding worker_ok_def by (metis not_None_eq)

lemma worker_ok_frame: "touches a d d' \<Longrightarrow> b \<noteq> a \<Longrightarrow> worker_ok d b w \<Longrightarrow> worker_ok d' b w"
  by (auto simp: touches_def worker_ok_def image_iff)

lemma spool_ok_frame: "touches a d d' \<Longrightarrow> spool_ok d \<Longrightarrow> spool_ok d'"
  using touches_ids [of a d d'] by (simp add: spool_ok_def touches_def)

lemma since_ok_frame:
  "touches a d d' \<Longrightarrow> since_ok d \<Longrightarrow> (a \<in> set (runningList d') \<Longrightarrow> onRunningListSince (heap d' a) \<noteq> None) \<Longrightarrow> since_ok d'"
  unfolding touches_def since_ok_def by metis

text \<open>An operation on one task keeps the system's invariant when it does so for that task.\<close>

lemma srv_inv_moved:
  assumes inv: "srv_inv s" and m: "moved a (db s) d'"
    and w: "\<And>w. worker_of s a = Some w \<Longrightarrow> worker_ok d' a w"
    and since: "a \<in> set (runningList d') \<Longrightarrow> onRunningListSince (heap d' a) \<noteq> None"
  shows "srv_inv (s\<lparr>db := d'\<rparr>)"
proof -
  have t: "touches a (db s) d'" and i: "sched_inv d'" using m by (auto simp: moved_def)
  have "workers_ok (s\<lparr>db := d'\<rparr>)"
    unfolding workers_ok_def
  proof (intro conjI allI impI)
    show "bt_wf (runningWorkers (s\<lparr>db := d'\<rparr>))" using srv_invD(4) [OF inv] by (simp add: workers_ok_def)
    fix n u assume u: "bt_get n (runningWorkers (s\<lparr>db := d'\<rparr>)) = Some u"
    then obtain b where b: "ids (db s) b = Some n" "worker_ok (db s) b u"
      using srv_invD(4) [OF inv] by (auto simp: workers_ok_def)
    have "worker_ok d' b u"
      using b u w worker_ok_frame [OF t] by (cases "b = a") (auto simp: worker_of_def)
    then show "\<exists>b. ids (db (s\<lparr>db := d'\<rparr>)) b = Some n \<and> worker_ok (db (s\<lparr>db := d'\<rparr>)) b u"
      using b(1) touches_ids [OF t] by auto
  qed
  then show ?thesis
    using inv i spool_ok_frame [OF t] since_ok_frame [OF t] since by (auto simp: srv_inv_def)
qed

section \<open>Adding, changing and deleting\<close>

lemma spool_adds_simps [simp]:
  "spool_adds [] = []" "spool_adds (SpAdd a # sp) = a # spool_adds sp"
  "spool_adds (SpChange t a # sp) = spool_adds sp" "spool_adds (SpDel a # sp) = spool_adds sp"
  "spool_adds (SpShutdown m # sp) = spool_adds sp" "spool_adds (SpOther m # sp) = spool_adds sp"
  "spool_adds (sp @ sp') = spool_adds sp @ spool_adds sp'"
  by (simp_all add: spool_adds_def)

text \<open>A new task gets an id, and waits for its time if it has one.\<close>

lemma add_new:
  assumes inv: "srv_inv s" and new: "ids (db s) a = None" "a \<notin> set (spool_adds (taskSpool (db s)))"
  obtains d' where "addTaskToWaitingQueue a True (db s) = (Inr (), d')" "srv_inv (s\<lparr>db := d'\<rparr>)"
    "ids d' a = Some (taskCounter (db s))" "taskSpool d' = taskSpool (db s)"
    "waiting d' = (case getStartOn (heap (db s) a) of None \<Rightarrow> waiting (db s)
        | Some t \<Rightarrow> insert (sched_ts (db s) t, a) (waiting (db s)))"
proof -
  let ?d = "db s" let ?i = "indexed_state a (db s)"
  have i: "sched_inv ?i" by (rule indexed_state_inv [OF srv_invD(1) [OF inv] new(1)])
  have idx: "ids ?i b = (if b = a then Some (taskCounter ?d) else ids ?d b)" for b
    by (simp add: indexed_state_def task_initialize_def)
  have fresh: "ids ?d b \<noteq> Some (taskCounter ?d)" for b
    using sched_invD(1) [OF srv_invD(1) [OF inv]] unfolding ids_ok_def by (metis less_irrefl option.distinct(1))
  have n: "nowhere ?i a"
    using unindexed_nowhere [OF srv_invD(1) [OF inv] new(1)] by (simp add: nowhere_def indexed_state_def)
  have "srv_inv (s\<lparr>db := ?i\<rparr>)"
    unfolding srv_inv_def
  proof (intro conjI)
    show "spool_ok (db (s\<lparr>db := ?i\<rparr>))"
      using srv_invD(2) [OF inv] new by (auto simp: spool_ok_def idx) (auto simp: indexed_state_def)
    show "since_ok (db (s\<lparr>db := ?i\<rparr>))"
      using srv_invD(3) [OF inv] by (auto simp: since_ok_def indexed_state_def task_initialize_def)
    show "workers_ok (s\<lparr>db := ?i\<rparr>)"
      unfolding workers_ok_def
    proof (intro conjI allI impI)
      show "bt_wf (runningWorkers (s\<lparr>db := ?i\<rparr>))" using srv_invD(4) [OF inv] by (simp add: workers_ok_def)
      fix m w assume "bt_get m (runningWorkers (s\<lparr>db := ?i\<rparr>)) = Some w"
      then obtain b where b: "ids ?d b = Some m" "worker_ok ?d b w"
        using srv_invD(4) [OF inv] by (auto simp: workers_ok_def)
      then have "b \<noteq> a" using new(1) by auto
      then show "\<exists>b. ids (db (s\<lparr>db := ?i\<rparr>)) b = Some m \<and> worker_ok (db (s\<lparr>db := ?i\<rparr>)) b w"
        using b by (intro exI [of _ b]) (simp add: idx worker_ok_def, simp add: indexed_state_def)
    qed
  qed (use i in simp)
  moreover obtain d' where d': "addTaskToWaitingQueue a False ?i = (Inr (), d')" "moved a ?i d'"
    "waiting d' = (case getStartOn (heap ?i a) of None \<Rightarrow> waiting ?i
        | Some t \<Rightarrow> insert (sched_ts ?i t, a) (waiting ?i))" "runningList d' = runningList ?i"
    using enter_queue [OF i n, of thesis] idx [of a] by simp
  moreover have "worker_of (s\<lparr>db := ?i\<rparr>) a = None"
    using srv_invD(4) [OF inv] fresh by (auto simp: worker_of_def idx workers_ok_def split: option.splits)
       (metis option.exhaust)
  ultimately have "srv_inv (s\<lparr>db := ?i\<rparr>\<lparr>db := d'\<rparr>)"
    using n by (intro srv_inv_moved [of "s\<lparr>db := ?i\<rparr>" a d']) (auto simp: nowhere_def)
  moreover have "addTaskToWaitingQueue a True ?d = (Inr (), d')"
    using d'(1) by (simp add: addTaskToWaitingQueue_def indexTask_run)
  moreover have "ids d' a = Some (taskCounter ?d)" "taskSpool d' = taskSpool ?d"
    using d'(2) idx by (auto simp: moved_def touches_def) (simp_all add: indexed_state_def)
  moreover have same: "getStartOn (heap ?i a) = getStartOn (heap ?d a)" "sched_ts ?i = sched_ts ?d" "waiting ?i = waiting ?d"
    by (simp_all add: indexed_state_def task_initialize_def sched_ts_def fun_eq_iff getStartOn_def)
  moreover have "waiting d' = (case getStartOn (heap ?d a) of None \<Rightarrow> waiting ?d
      | Some t \<Rightarrow> insert (sched_ts ?d t, a) (waiting ?d))"
    using d'(3) unfolding same .
  ultimately show ?thesis using that [of d'] by simp
qed

text \<open>A task that waits moves to its new time; a task that does not wait stays as it is.\<close>

lemma requeue:
  assumes inv: "sched_inv d" and a: "(t, a) \<in> waiting d" and start: "getStartOn (heap d a) = Some new"
  obtains d' where "changeTaskStartDate t a d = (Inr (), d')" "moved a d d'"
    "waiting d' = insert (sched_ts d new, a) (waiting d - {(t, a)})" "heap d' = heap d" "runningList d' = runningList d"
proof -
  obtain d1 where d1: "on_queue (\<lambda>c. dequeue c t a) d = (Inr (), d1)" "moved a d d1" "nowhere d1 a"
    "heap d1 = heap d" "waiting d1 = waiting d - {(t, a)}" "runningList d1 = runningList d"
    using move_out_queue [OF inv a] by metis
  have i1: "sched_inv d1" using d1(2) by (simp add: moved_def)
  have "a \<in> snd ` waiting d" using a by force
  then have id: "ids d1 a \<noteq> None" and q: "task_status (heap d a) = TASK_STATUS_QUEUED"
    using waiting_indexed [OF inv] waiting_places [OF inv] d1(4) by auto
  obtain d' where d': "on_queue (\<lambda>c. enqueue c (sched_ts d new) a) d1 = (Inr (), d')" "moved a d1 d'"
    "waiting d' = insert (sched_ts d new, a) (waiting d1)" "heap d' = heap d1" "runningList d' = runningList d1"
  proof -
    have "(sched_ts d new, a) \<notin> waiting d1" using d1(3) by (force simp: nowhere_def)
    then obtain w where w: "on_queue (\<lambda>c. enqueue c (sched_ts d new) a) d1 = (Inr (), d1\<lparr>waitingQueue := w\<rparr>)"
      "wq_wf (task_cmp (ids d1)) {a. id_unique (ids d1) a} w" "wq_items w = insert (sched_ts d new, a) (waiting d1)"
      using queue_enq [OF sched_invD(1,2) [OF i1]] by blast
    have "sched_inv (d1\<lparr>waitingQueue := w, heap := (heap d1)(a := heap d1 a)\<rparr>)"
      by (rule inv_enter_queue [OF i1 d1(3) id w(2,3)]) (use q d1(4) in simp_all)
    then have "moved a d1 (d1\<lparr>waitingQueue := w\<rparr>)" using w(3) by (simp add: moved_def touches_def)
    with w that [of "d1\<lparr>waitingQueue := w\<rparr>"] show ?thesis by simp
  qed
  then show ?thesis
    using that [of d'] d1 start moved_trans [OF d1(2) d'(2)]
    by (simp add: changeTaskStartDate_def)
qed

lemma change_absent:
  "sched_inv d \<Longrightarrow> (t, a) \<notin> waiting d \<Longrightarrow> getStartOn (heap d a) = Some new \<Longrightarrow>
     changeTaskStartDate t a d = (Inr (), d)"
  using queue_deq(2) [OF sched_invD(1,2)] by (simp add: changeTaskStartDate_def)

lemma on_db_run: "on_db m s = (fst (m (db s)), s\<lparr>db := snd (m (db s))\<rparr>)"
  by (simp add: on_db_def split: prod.split)

lemma on_db_bnd: "on_db (bnd m f) = bnd (on_db m) (\<lambda>x. on_db (f x))"
  by (rule ext) (auto simp: on_db_def split: prod.splits sum.splits)

lemma on_db_andthen: "on_db (andthen m k) = andthen (on_db m) (on_db k)"
  by (simp add: andthen_def on_db_bnd)

lemma keeps_on_db:
  "(\<And>s. srv_inv s \<Longrightarrow> srv_inv (s\<lparr>db := snd (m (db s))\<rparr>)) \<Longrightarrow> keeps srv_inv (on_db m)"
  by (simp add: keeps_def on_db_run)

lemma srv_inv_same [simp]: "srv_inv s \<Longrightarrow> srv_inv (s\<lparr>db := db s\<rparr>)"
  by simp

lemma keeps_change: "keeps srv_inv (on_db (changeTaskStartDate t a))"
proof (rule keeps_on_db)
  fix s assume inv: "srv_inv s"
  let ?d = "db s"
  show "srv_inv (s\<lparr>db := snd (changeTaskStartDate t a ?d)\<rparr>)"
  proof (cases "getStartOn (heap ?d a)")
    case None
    then show ?thesis using inv by (simp add: changeTaskStartDate_def)
  next
    case (Some new)
    show ?thesis
    proof (cases "(t, a) \<in> waiting ?d")
      case True
      obtain d' where d': "changeTaskStartDate t a ?d = (Inr (), d')" "moved a ?d d'" "runningList d' = runningList ?d"
        using requeue [OF srv_invD(1) [OF inv] True Some] by metis
      have "a \<in> snd ` waiting ?d" using True by force
      then have "worker_of s a = None" "a \<notin> set (runningList d')"
        using waiting_no_worker [OF inv] waiting_places [OF srv_invD(1) [OF inv]] d'(3) by simp_all
      then show ?thesis using srv_inv_moved [OF inv d'(2)] d'(1) by simp
    qed (use change_absent [OF srv_invD(1) [OF inv]] Some inv in simp)
  qed
qed

lemma assert_run:
  "assertTaskStatus a st d = (if task_status (heap d a) = st \<and> (st = TASK_STATUS_RUNNING \<longrightarrow> in_running d a)
     then Inr () else Inl TaskInconsistentStatusException, d)"
  by (simp add: assertTaskStatus_def)

lemma upd_task_run: "upd_task a f d = (Inr (), d\<lparr>heap := (heap d)(a := f (heap d a))\<rparr>)"
  by (simp add: upd_task_def)

text \<open>A change of a task's own fields that no part of the invariant looks at.\<close>

lemma srv_inv_update:
  assumes inv: "srv_inv s" and t: "task_id t = task_id (heap (db s) a)" "keeps_occs (heap (db s) a) t"
    "task_status t = task_status (heap (db s) a)"
    and since: "onRunningListSince t = onRunningListSince (heap (db s) a)"
  shows "srv_inv (s\<lparr>db := (db s)\<lparr>heap := (heap (db s))(a := t)\<rparr>\<rparr>)"
proof (rule srv_inv_moved [OF inv])
  let ?d = "(db s)\<lparr>heap := (heap (db s))(a := t)\<rparr>"
  have "sched_inv ?d"
    using inv_update_task [OF srv_invD(1) [OF inv] t(1,2)] waiting_places [OF srv_invD(1) [OF inv]] t(3) by simp
  then show "moved a (db s) ?d" using t(1) by (simp add: moved_def touches_def)
  show "worker_ok ?d a w" if "worker_of s a = Some w" for w
    using worker_of_ok [OF inv that] t(3) by (simp add: worker_ok_def)
  show "onRunningListSince (heap ?d a) \<noteq> None" if "a \<in> set (runningList ?d)"
    using that since srv_invD(3) [OF inv] by (simp add: since_ok_def)
qed

lemma keeps_occs_map: "(\<And>p. occurrenceCount p \<le> occurrenceCount (f p)) \<Longrightarrow> keeps_occs t (map_periodic f t)"
  by (auto simp: keeps_occs_def map_periodic_def split: task_kind.split)

lemma map_periodic_fields [simp]:
  "task_id (map_periodic f t) = task_id t" "task_status (map_periodic f t) = task_status t"
  "onRunningListSince (map_periodic f t) = onRunningListSince t"
  by (auto simp: map_periodic_def split: task_kind.split)

lemma keeps_dontComeBack: "keeps srv_inv (on_db (upd_task a (map_periodic dontComeBack)))"
  by (rule keeps_on_db) (simp add: upd_task_run srv_inv_update keeps_occs_map dontComeBack_def)

lemma rev_owner:
  assumes c: "containers_ok d" and u: "bt_get u (rev_index (failedIndex d)) \<noteq> None"
  shows "\<exists>x. x \<in> indexable (ids d) \<and> u = sobj_uid (ids d) x"
proof -
  let ?wf = "di_wf (sobj_cmp (ids d)) (sobj_uid (ids d)) (indexable (ids d)) (failedIndex d)"
  have wf: ?wf using c by (simp add: containers_ok_def)
  obtain ks where ks: "bt_get u (rev_index (failedIndex d)) = Some ks" using u by auto
  then have "ks \<noteq> []" using wf by (auto simp: di_wf_def)
  then obtain k where "(u, k) \<in> rev_entries (failedIndex d)"
    using ks by (cases ks) (auto simp: rev_entries_def)
  then obtain x where x: "u = sobj_uid (ids d) x" "(k, x) \<in> di_entries (failedIndex d)"
    using sobjs.rev_entries_owner [OF wf] by blast
  then show ?thesis using sobjs.di_entries_carrier [OF wf] by blast
qed

lemma str_nat_prefix_not_None: "str_nat n @ ys \<noteq> ''None''"
proof
  assume "str_nat n @ ys = ''None''"
  moreover obtain c cs where c: "str_nat n = c # cs" by (cases "str_nat n") (auto simp: str_nat.simps [of n] split: if_splits)
  ultimately have "CHR ''N'' \<in> set (str_nat n)" by simp
  then obtain e where e: "e < 10" "CHR ''N'' = digit_char e" using str_nat_digits by blast
  have "digit_char e \<noteq> CHR ''N''" by (rule digit_char_not [OF e(1)]) simp
  with e(2) show False by simp
qed

lemma uid_not_none: "x \<in> indexable f \<Longrightarrow> sobj_uid f x \<noteq> ''taskNone''"
  using str_nat_prefix_not_None [of _ "[]"] str_nat_prefix_not_None
  by (cases x) (auto simp: indexable_def str_opt_def)

text \<open>An object that is not in the failed index is not found there, with or without an id.\<close>

lemma unindex_absent:
  assumes i: "sched_inv d" and a: "OTask a \<notin> failed_objs d"
  shows "on_failed (\<lambda>c u. d_unindex_obj c u (OTask a)) d = (Inl ElementNotFoundException, d)"
proof (cases "ids d a = None")
  case False
  then show ?thesis using failed_del(2) [OF sched_invD(1,2) [OF i] False a] by simp
next
  case True
  have "bt_get (sobj_uid (ids d) (OTask a)) (rev_index (failedIndex d)) = None"
  proof (rule ccontr)
    assume "bt_get (sobj_uid (ids d) (OTask a)) (rev_index (failedIndex d)) \<noteq> None"
    then obtain x where x: "x \<in> indexable (ids d)" "sobj_uid (ids d) (OTask a) = sobj_uid (ids d) x"
      using rev_owner [OF sched_invD(2) [OF i]] by blast
    then have "sobj_uid (ids d) x = ''taskNone''" using True by (simp add: str_opt_def)
    then show False using uid_not_none [OF x(1)] by blast
  qed
  then show ?thesis by (simp add: on_failed_def d_unindex_obj_def)
qed

text \<open>Deleting: out of the queue, the running list or the failed index, by the task's status.\<close>

lemma srv_inv_leave:
  assumes inv: "srv_inv s" and m: "moved a (db s) d'" and h: "heap d' = heap (db s)"
    and sub: "waiting d' \<subseteq> waiting (db s)" "failed_objs d' \<subseteq> failed_objs (db s)"
      "finished_objs d' \<subseteq> finished_objs (db s)" "set (runningList d') \<subseteq> set (runningList (db s))"
  shows "srv_inv (s\<lparr>db := d'\<rparr>)"
proof (rule srv_inv_moved [OF inv m])
  show "worker_ok d' a w" if "worker_of s a = Some w" for w
    using worker_of_ok [OF inv that] sub h unfolding worker_ok_def by auto
  show "onRunningListSince (heap d' a) \<noteq> None" if "a \<in> set (runningList d')"
    using that sub(4) h srv_invD(3) [OF inv] by (auto simp: since_ok_def)
qed

lemma keeps_delete_move:
  "keeps srv_inv (on_db (bnd get_st (\<lambda>d. moveTask a (task_status (heap d a)) TASK_STATUS_NONE None False)))"
proof (rule keeps_on_db)
  fix s assume inv: "srv_inv s"
  let ?d = "db s" let ?st = "task_status (heap (db s) a)"
  have i: "sched_inv ?d" using srv_invD(1) [OF inv] .
  have run: "moveTask a ?st TASK_STATUS_NONE None False ?d
      = (if ?st = TASK_STATUS_RUNNING \<and> a \<notin> set (runningList ?d) then (Inl TaskInconsistentStatusException, ?d)
         else move_out a ?st ?d)"
    by (auto simp: moveTask_def assert_run move_in_def in_running_iff [OF sched_invD(1) [OF i]] split: prod.split sum.split)
  have "srv_inv (s\<lparr>db := snd (move_out a ?st ?d)\<rparr>)" if "?st = TASK_STATUS_RUNNING \<longrightarrow> a \<in> set (runningList ?d)"
  proof (cases "?st = TASK_STATUS_RUNNING")
    case True
    then have "a \<in> set (runningList ?d)" using that by simp
    from running_places [OF i this] obtain d' where d': "move_out a TASK_STATUS_RUNNING ?d = (Inr (), d')"
      "moved a ?d d'" "heap d' = heap ?d" "waiting d' = waiting ?d" "failed_objs d' = failed_objs ?d"
      "finished_objs d' = finished_objs ?d" "runningList d' = remove1 a (runningList ?d)"
      using move_out_running [OF i] by metis
    then have "srv_inv (s\<lparr>db := d'\<rparr>)"
      by (intro srv_inv_leave [OF inv d'(2,3)]) (auto dest: set_mp [OF set_remove1_subset])
    then show ?thesis using True d'(1) by simp
  next
    case nr: False
    show ?thesis
    proof (cases "?st = TASK_STATUS_QUEUED")
      case True
      show ?thesis
      proof (cases "getStartOn (heap ?d a)")
        case None
        then show ?thesis using True inv by (simp add: move_out_def)
      next
        case (Some t)
        show ?thesis
        proof (cases "(sched_ts ?d t, a) \<in> waiting ?d")
          case in_q: True
          obtain d' where d': "on_queue (\<lambda>c. dequeue c (sched_ts ?d t) a) ?d = (Inr (), d')" "moved a ?d d'"
            "heap d' = heap ?d" "waiting d' = waiting ?d - {(sched_ts ?d t, a)}" "failed_objs d' = failed_objs ?d"
            "finished_objs d' = finished_objs ?d" "runningList d' = runningList ?d"
            using move_out_queue [OF i in_q] by metis
          then have "srv_inv (s\<lparr>db := d'\<rparr>)" by (intro srv_inv_leave [OF inv d'(2,3)]) auto
          then show ?thesis using True Some d'(1) by (simp add: move_out_def)
        next
          case False
          then show ?thesis
            using True Some inv queue_deq(2) [OF sched_invD(1,2) [OF i]] by (simp add: move_out_def)
        qed
      qed
    next
      case nq: False
      show ?thesis
      proof (cases "?st = TASK_STATUS_FAILED")
        case True
        show ?thesis
        proof (cases "OTask a \<in> failed_objs ?d")
          case mem: True
          obtain d' where d': "move_out a TASK_STATUS_FAILED ?d = (Inr (), d')" "moved a ?d d'"
            "heap d' = heap ?d" "waiting d' = waiting ?d" "failed_objs d' = failed_objs ?d - {OTask a}"
            "finished_objs d' = finished_objs ?d" "runningList d' = runningList ?d"
            using move_out_failed [OF i mem] by metis
          then have "srv_inv (s\<lparr>db := d'\<rparr>)" by (intro srv_inv_leave [OF inv d'(2,3)]) auto
          then show ?thesis using True d'(1) by simp
        next
          case False
          then have "on_failed (\<lambda>c u. d_unindex_obj c u (OTask a)) ?d = (Inl ElementNotFoundException, ?d)"
            by (rule unindex_absent [OF i])
          then show ?thesis using True inv by (simp add: move_out_def)
        qed
      qed (use nr nq inv in \<open>simp add: move_out_def\<close>)
    qed
  qed
  then show "srv_inv (s\<lparr>db := snd (bnd get_st (\<lambda>d. moveTask a (task_status (heap d a)) TASK_STATUS_NONE None False) ?d)\<rparr>)"
    using run inv by auto
qed

lemma keeps_delete: "keeps srv_inv (on_db (db_deleteTaskFromQueue a))"
proof (rule keepsI)
  fix s assume inv: "srv_inv s"
  let ?m = "bnd get_st (\<lambda>d. moveTask a (task_status (heap d a)) TASK_STATUS_NONE None False)"
  let ?s = "if is_periodic (heap (db s) a) then snd (on_db (upd_task a (map_periodic dontComeBack)) s) else s"
  have "srv_inv ?s" using keepsD [OF keeps_dontComeBack inv] inv by simp
  moreover have "on_db (db_deleteTaskFromQueue a) s = on_db ?m ?s"
    by (auto simp: db_deleteTaskFromQueue_def on_db_run upd_task_run split: prod.split)
  ultimately show "srv_inv (snd (on_db (db_deleteTaskFromQueue a) s))"
    using keepsD [OF keeps_delete_move] by metis
qed

section \<open>Finished tasks\<close>

text \<open>A task a worker is done with: where it goes, by its kind and the status it reports.\<close>

lemma worker_places:
  assumes "worker_ok d a w" "task_status (heap d a) \<noteq> TASK_STATUS_TERMINATED"
  shows "a \<notin> snd ` waiting d" "OTask a \<notin> failed_objs d" "OTask a \<notin> finished_objs d"
  using assms by (auto simp: worker_ok_def)

lemma update_places:
  assumes inv: "sched_inv d" and a: "a \<notin> snd ` waiting d" and t: "task_id t = task_id (heap d a)" "keeps_occs (heap d a) t"
  shows "moved a d (d\<lparr>heap := (heap d)(a := t)\<rparr>)"
  using inv_update_task [OF inv t] a t(1) by (auto simp: moved_def touches_def)

lemma notify_terminated:
  assumes inv: "sched_inv d" and st: "task_status (heap d a) = TASK_STATUS_TERMINATED"
    and status: "status \<in> {TASK_STATUS_FINISHED, TASK_STATUS_FAILED}"
  shows "db_notifyTaskStatus a status d = (Inr (), d\<lparr>runningList := remove1 a (runningList d)\<rparr>)"
  using status st sched_invD(1) [OF inv]
  by (auto simp: db_notifyTaskStatus_def removeRunning_run in_running_iff remove1_idem)

lemma notify_one_shot:
  assumes inv: "sched_inv d" and a: "ids d a \<noteq> None" "worker_ok d a w"
    and st: "task_status (heap d a) \<noteq> TASK_STATUS_TERMINATED" and k: "kind (heap d a) = OneShotTask x"
    and status: "status \<in> {TASK_STATUS_FINISHED, TASK_STATUS_FAILED}"
  obtains d' where "db_notifyTaskStatus a status d = (Inr (), d')" "moved a d d'"
    "task_status (heap d' a) = status" "runningList d' = remove1 a (runningList d)" "waiting d' = waiting d"
    "finished_objs d' = (if status = TASK_STATUS_FINISHED then insert (OTask a) (finished_objs d) else finished_objs d)"
    "failed_objs d' = (if status = TASK_STATUS_FAILED then insert (OTask a) (failed_objs d) else failed_objs d)"
proof -
  note pl = worker_places [OF a(2) st]
  let ?d1 = "d\<lparr>heap := (heap d)(a := (heap d a)\<lparr>task_status := status\<rparr>)\<rparr>"
  have m1: "moved a d ?d1" using update_places [OF inv pl(1)] by simp
  then have i1: "sched_inv ?d1" by (simp add: moved_def)
  obtain d2 where d2: "move_out a TASK_STATUS_RUNNING ?d1 = (Inr (), d2)" "moved a ?d1 d2" "nowhere d2 a"
    "heap d2 = heap ?d1" "waiting d2 = waiting ?d1" "failed_objs d2 = failed_objs ?d1"
    "finished_objs d2 = finished_objs ?d1" "runningList d2 = remove1 a (runningList ?d1)"
    using move_out_running [OF i1] pl by (metis failed_objs_simps(1) finished_objs_simps(1) waiting_simps(1))
  have i2: "sched_inv d2" using d2(2) by (simp add: moved_def)
  have x: "OTask a \<notin> failed_objs d2" "OTask a \<notin> finished_objs d2" "ids d2 (sobj_task (OTask a)) \<noteq> None"
    "occ_known (heap d2) (OTask a)"
    using d2(3,4) a(1) by (auto simp: nowhere_def occ_known_def)
  have run: "db_notifyTaskStatus a status d = move_in (OTask a) status d2"
    using status st k d2(1) by (auto simp: db_notifyTaskStatus_def setStatus_def upd_task_run moveTask_def)
  show ?thesis
  proof (cases "status = TASK_STATUS_FINISHED")
    case True
    obtain d3 where d3: "index_in_finished (OTask a) d2 = (Inr (), d3)" "moved a d2 d3" "waiting d3 = waiting d2"
      "finished_objs d3 = insert (OTask a) (finished_objs d2)" "failed_objs d3 = failed_objs d2"
      "runningList d3 = runningList d2" "heap d3 = heap d2"
      using enter_finished [OF i2 x(2,3,4)] d2(3) by (metis sobj.inject(1) sobj_task.simps(1))
    show ?thesis
      by (rule that [of d3]) (use run d3 d2 True moved_trans [OF m1 moved_trans [OF d2(2) d3(2)]] in \<open>simp_all add: move_in_def\<close>)
  next
    case False
    obtain d3 where d3: "index_in_failed (OTask a) d2 = (Inr (), d3)" "moved a d2 d3" "waiting d3 = waiting d2"
      "failed_objs d3 = insert (OTask a) (failed_objs d2)" "finished_objs d3 = finished_objs d2"
      "runningList d3 = runningList d2" "heap d3 = heap d2"
      using enter_failed [OF i2 x(1,3,4)] d2(3) by (metis sobj.inject(1) sobj_task.simps(1))
    show ?thesis
      by (rule that [of d3]) (use run d3 d2 False status moved_trans [OF m1 moved_trans [OF d2(2) d3(2)]] in \<open>auto simp: move_in_def\<close>)
  qed
qed

lemma notify_not_back:
  assumes inv: "sched_inv d" and a: "worker_ok d a w"
    and st: "task_status (heap d a) \<noteq> TASK_STATUS_TERMINATED" and k: "kind (heap d a) = PeriodicTask p"
    and rep: "\<not> p_repeat p" and status: "status \<in> {TASK_STATUS_FINISHED, TASK_STATUS_FAILED}"
  shows "\<exists>d'. db_notifyTaskStatus a status d = (Inr (), d') \<and> moved a d d' \<and> task_status (heap d' a) = status
    \<and> kind (heap d' a) = PeriodicTask (addOccurrence (task_occurrence (heap d a)) p)
    \<and> runningList d' = runningList d \<and> waiting d' = waiting d \<and> failed_objs d' = failed_objs d
    \<and> finished_objs d' = finished_objs d \<and> onRunningListSince (heap d' a) = onRunningListSince (heap d a)"
proof -
  let ?t = "map_periodic (addOccurrence (task_occurrence (heap d a))) ((heap d a)\<lparr>task_status := status\<rparr>)"
  have t: "task_id ?t = task_id (heap d a)" "keeps_occs (heap d a) ?t"
    using k by (auto simp: keeps_occs_def map_periodic_def addOccurrence_def)
  show ?thesis
    using update_places [OF inv worker_places(1) [OF a st] t] status st k rep
    by (intro exI [of _ "d\<lparr>heap := (heap d)(a := ?t)\<rparr>"])
       (auto simp: db_notifyTaskStatus_def setStatus_def upd_task_run map_periodic_def)
qed

text \<open>A periodic task that comes back, with the occurrence it leaves and the time it waits for.\<close>

definition next_run :: "sched \<Rightarrow> periodic \<Rightarrow> dt option" where
  "next_run d p = (case nextOccurrence p of None \<Rightarrow> None | Some n \<Rightarrow> p_rule p (max n (clock d)) False)"

lemma notify_back:
  assumes inv: "sched_inv d" and a: "ids d a \<noteq> None" "worker_ok d a w"
    and st: "task_status (heap d a) \<noteq> TASK_STATUS_TERMINATED" and k: "kind (heap d a) = PeriodicTask p"
    and rep: "p_repeat p" and status: "status \<in> {TASK_STATUS_FINISHED, TASK_STATUS_FAILED}"
  obtains d' where "db_notifyTaskStatus a status d = (Inr (), d')" "moved a d d'"
    "runningList d' = remove1 a (runningList d)" "getStartOn (heap d' a) = next_run d p"
    "waiting d' = (case next_run d p of None \<Rightarrow> waiting d | Some t \<Rightarrow> insert (sched_ts d t, a) (waiting d))"
    "finished_objs d' = (if status = TASK_STATUS_FINISHED
        then insert (OOcc a (occurrenceCount p)) (finished_objs d) else finished_objs d)"
    "failed_objs d' = (if status = TASK_STATUS_FAILED
        then insert (OOcc a (occurrenceCount p)) (failed_objs d) else failed_objs d)"
proof -
  note pl = worker_places [OF a(2) st]
  let ?x = "OOcc a (occurrenceCount p)"
  define t where "t = map_periodic (setNextOccurrence None (clock d)) ((map_periodic
      (addOccurrence (task_occurrence (heap d a))) ((heap d a)\<lparr>task_status := status\<rparr>))\<lparr>endedOn := None\<rparr>)"
  let ?d1 = "d\<lparr>heap := (heap d)(a := t)\<rparr>"
  have t: "task_id t = task_id (heap d a)" "keeps_occs (heap d a) t" "getStartOn t = next_run d p"
    "\<exists>p'. kind t = PeriodicTask p' \<and> occurrenceCount p' = Suc (occurrenceCount p)"
    using k by (auto simp: t_def keeps_occs_def map_periodic_def addOccurrence_def setNextOccurrence_def
        getStartOn_def next_run_def Let_def split: option.splits)
  have m1: "moved a d ?d1" by (rule update_places [OF inv pl(1) t(1,2)])
  then have i1: "sched_inv ?d1" by (simp add: moved_def)
  have unknown: "?x \<notin> failed_objs d" "?x \<notin> finished_objs d"
  proof -
    have "\<not> occ_known (heap d) ?x" using k by (simp add: occ_known_def)
    moreover have "\<forall>x \<in> failed_objs d \<union> finished_objs d. occ_known (heap d) x"
      using inv_placed [OF inv] unfolding placed_def by blast
    ultimately show "?x \<notin> failed_objs d" "?x \<notin> finished_objs d" by blast+
  qed
  obtain d2 where d2: "move_out a TASK_STATUS_RUNNING ?d1 = (Inr (), d2)" "moved a ?d1 d2" "nowhere d2 a"
    "heap d2 = heap ?d1" "waiting d2 = waiting ?d1" "failed_objs d2 = failed_objs ?d1"
    "finished_objs d2 = finished_objs ?d1" "runningList d2 = remove1 a (runningList ?d1)"
    using move_out_running [OF i1] pl by (metis failed_objs_simps(1) finished_objs_simps(1) waiting_simps(1))
  have i2: "sched_inv d2" using d2(2) by (simp add: moved_def)
  have x: "?x \<notin> failed_objs d2" "?x \<notin> finished_objs d2" "ids d2 (sobj_task ?x) \<noteq> None" "occ_known (heap d2) ?x"
    "\<And>b. ?x = OTask b \<Longrightarrow> nowhere d2 b"
    using d2(4,6,7) t a(1) unknown by (auto simp: occ_known_def)
  obtain d3 where d3: "move_in ?x status d2 = (Inr (), d3)" "moved a d2 d3" "waiting d3 = waiting d2"
    "finished_objs d3 = (if status = TASK_STATUS_FINISHED then insert ?x (finished_objs d2) else finished_objs d2)"
    "failed_objs d3 = (if status = TASK_STATUS_FAILED then insert ?x (failed_objs d2) else failed_objs d2)"
    "runningList d3 = runningList d2" "heap d3 = heap d2"
  proof (cases "status = TASK_STATUS_FINISHED")
    case True
    then show ?thesis
      using enter_finished [OF i2 x(2,3,4,5), of thesis] that by (simp add: move_in_def)
  next
    case False
    then show ?thesis
      using enter_failed [OF i2 x(1,3,4,5), of thesis] that status by (simp add: move_in_def)
  qed
  have i3: "sched_inv d3" using d3(2) by (simp add: moved_def)
  have n3: "nowhere d3 a" using d2(3) d3 by (auto simp: nowhere_def)
  have id3: "ids d3 a \<noteq> None" using x(3) d3(7) by simp
  obtain d4 where d4: "addTaskToWaitingQueue a False d3 = (Inr (), d4)" "moved a d3 d4"
    "waiting d4 = (case getStartOn (heap d3 a) of None \<Rightarrow> waiting d3
        | Some e \<Rightarrow> insert (sched_ts d3 e, a) (waiting d3))"
    "failed_objs d4 = failed_objs d3" "finished_objs d4 = finished_objs d3" "runningList d4 = runningList d3"
    "heap d4 = (case getStartOn (heap d3 a) of None \<Rightarrow> heap d3
        | Some e \<Rightarrow> (heap d3)(a := (heap d3 a)\<lparr>task_status := TASK_STATUS_QUEUED\<rparr>))"
    using enter_queue [OF i3 n3 id3] by blast
  have run: "db_notifyTaskStatus a status d = (Inr (), d4)"
    using status st k rep d2(1) d3(1) d4(1)
    by (auto simp: db_notifyTaskStatus_def setStatus_def upd_task_run moveTask_def t_def)
  have m: "moved a d d4" using moved_trans [OF m1 moved_trans [OF d2(2) moved_trans [OF d3(2) d4(2)]]] .
  have ts: "sched_ts d3 = sched_ts d"
    using moved_trans [OF m1 moved_trans [OF d2(2) d3(2)]] by (simp add: moved_def touches_def sched_ts_def fun_eq_iff)
  have s3: "getStartOn (heap d3 a) = next_run d p" using d3(7) d2(4) t(3) by simp
  have s4: "getStartOn (heap d4 a) = next_run d p"
    using d4(7) s3 by (auto simp: getStartOn_def split: option.splits)
  show ?thesis
    by (rule that [OF run m _ s4]; cases "next_run d p") (use d4 d3 d2 s3 ts in simp_all)
qed

text \<open>All cases together: the server's check keeps the invariant and takes the worker away.\<close>

lemma notify_worker:
  assumes inv: "srv_inv s" and w: "bt_get n (runningWorkers s) = Some w" and a: "ids (db s) a = Some n"
    and status: "status \<in> {TASK_STATUS_FINISHED, TASK_STATUS_FAILED}"
  obtains d' where "db_notifyTaskStatus a status (db s) = (Inr (), d')" "moved a (db s) d'"
    "a \<in> set (runningList d') \<Longrightarrow> onRunningListSince (heap d' a) \<noteq> None"
proof -
  let ?d = "db s"
  have i: "sched_inv ?d" using srv_invD(1) [OF inv] .
  have wo: "worker_ok ?d a w" using worker_of_ok [OF inv, of a w] w a by (simp add: worker_of_def)
  have since: "a \<in> set (runningList ?d) \<Longrightarrow> onRunningListSince (heap ?d a) \<noteq> None"
    using srv_invD(3) [OF inv] by (simp add: since_ok_def)
  have gone: "a \<notin> set (remove1 a (runningList ?d))" using running_distinct [OF i] by simp
  have id: "ids ?d a \<noteq> None" using a by simp
  show ?thesis
  proof (cases "task_status (heap ?d a) = TASK_STATUS_TERMINATED")
    case True
    have "moved a ?d (?d\<lparr>runningList := remove1 a (runningList ?d)\<rparr>)"
      using inv_leave_running [OF i] by (simp add: moved_def touches_def)
    then show ?thesis using that notify_terminated [OF i True status] gone by simp
  next
    case st: False
    show ?thesis
    proof (cases "kind (heap ?d a)")
      case (OneShotTask x)
      show ?thesis using notify_one_shot [OF i id wo st OneShotTask status] that gone by metis
    next
      case (PeriodicTask p)
      show ?thesis
      proof (cases "p_repeat p")
        case True
        show ?thesis using notify_back [OF i id wo st PeriodicTask True status] that gone by metis
      next
        case False
        show ?thesis using notify_not_back [OF i wo st PeriodicTask False status] that since by metis
      qed
    qed
  qed
qed

lemma srv_inv_del_worker: "srv_inv s \<Longrightarrow> srv_inv (s\<lparr>runningWorkers := bt_del n (runningWorkers s)\<rparr>)"
  by (auto simp: srv_inv_def workers_ok_def bt_wf_del bt_get_del)

lemma check_finished_one_ok:
  assumes inv: "srv_inv s" and w: "bt_get n (runningWorkers s) = Some w"
  shows "\<exists>s'. check_finished_one (n, w) s = (Inr (), s') \<and> srv_inv s'
    \<and> runningWorkers s' = (if w_alive w then runningWorkers s else bt_del n (runningWorkers s))"
proof (cases "w_alive w")
  case True
  then show ?thesis using inv by (simp add: check_finished_one_def)
next
  case False
  let ?s = "s\<lparr>runningWorkers := bt_del n (runningWorkers s)\<rparr>"
  obtain a where a: "ids (db s) a = Some n" using srv_invD(4) [OF inv] w by (auto simp: workers_ok_def)
  have "bt_get n (taskIdx (db s)) = Some a"
    using a sched_invD(1) [OF srv_invD(1) [OF inv]] unfolding ids_ok_def by blast
  then have task: "getTaskById n (db s) = (Inr a, db s)" by (simp add: getTaskById_def)
  have inv': "srv_inv ?s" by (rule srv_inv_del_worker [OF inv])
  have none: "worker_of ?s a = None" using a by (simp add: worker_of_def bt_get_del)
  have *: "\<exists>d'. db_notifyTaskStatus a st (db s) = (Inr (), d')
      \<and> srv_inv (s\<lparr>db := d', runningWorkers := bt_del n (runningWorkers s)\<rparr>)"
    if st: "st \<in> {TASK_STATUS_FINISHED, TASK_STATUS_FAILED}" for st
  proof -
    obtain d' where d': "db_notifyTaskStatus a st (db s) = (Inr (), d')" "moved a (db s) d'"
      "a \<in> set (runningList d') \<Longrightarrow> onRunningListSince (heap d' a) \<noteq> None"
      using notify_worker [OF inv w a st] by metis
    have "srv_inv (?s\<lparr>db := d'\<rparr>)"
      by (rule srv_inv_moved [OF inv']) (use d' none in auto)
    moreover have "?s\<lparr>db := d'\<rparr> = s\<lparr>db := d', runningWorkers := bt_del n (runningWorkers s)\<rparr>" by simp
    ultimately show ?thesis using d'(1) by metis
  qed
  consider "w_result w = 1" | "w_result w = 0" | "w_result w \<noteq> 1" "w_result w \<noteq> 0" by blast
  then show ?thesis
  proof cases
    case 1
    then show ?thesis using * [of TASK_STATUS_FINISHED] False task by (auto simp: check_finished_one_def on_db_run)
  next
    case 2
    then show ?thesis using * [of TASK_STATUS_FAILED] False task by (auto simp: check_finished_one_def on_db_run)
  next
    case 3
    then show ?thesis using inv' False task by (simp add: check_finished_one_def on_db_run)
  qed
qed

text \<open>The loop runs over a copy of the dictionary's items; it ends with the workers that are alive.\<close>

lemma check_finished_all:
  assumes "srv_inv s" "bt_wf (ws)" "\<forall>(n, w) \<in> set ws. bt_get n (runningWorkers s) = Some w"
  shows "\<exists>s'. for_each ws check_finished_one s = (Inr (), s') \<and> srv_inv s'
    \<and> (\<forall>n. bt_get n (runningWorkers s') = (case bt_get n ws of
          None \<Rightarrow> bt_get n (runningWorkers s) | Some w \<Rightarrow> if w_alive w then Some w else None))"
  using assms
proof (induction ws arbitrary: s)
  case Nil
  then show ?case by simp
next
  case (Cons nw ws)
  obtain n w where nw: "nw = (n, w)" by fastforce
  have "bt_get n (runningWorkers s) = Some w" using Cons.prems(3) nw by simp
  then obtain s1 where s1: "check_finished_one (n, w) s = (Inr (), s1)" "srv_inv s1"
    "runningWorkers s1 = (if w_alive w then runningWorkers s else bt_del n (runningWorkers s))"
    using check_finished_one_ok [OF Cons.prems(1)] by blast
  have wf: "bt_wf ws" and nn: "bt_get n ws = None"
    using Cons.prems(2) nw by (auto simp: bt_wf_def bt_get_def map_of_eq_None_iff)
  have "\<forall>(m, u) \<in> set ws. bt_get m (runningWorkers s1) = Some u"
  proof clarify
    fix m u assume mu: "(m, u) \<in> set ws"
    then have "m \<noteq> n" using nn bt_mem_get [OF wf, of m u] by auto
    then show "bt_get m (runningWorkers s1) = Some u"
      using mu Cons.prems(3) s1(3) by (auto simp: bt_get_del)
  qed
  then obtain s' where s': "for_each ws check_finished_one s1 = (Inr (), s')" "srv_inv s'"
    "\<forall>m. bt_get m (runningWorkers s') = (case bt_get m ws of
          None \<Rightarrow> bt_get m (runningWorkers s1) | Some w \<Rightarrow> if w_alive w then Some w else None)"
    using Cons.IH [OF s1(2) wf] by blast
  show ?case
    using s' s1 nw nn Cons.prems(3) by (intro exI [of _ s']) (auto simp: bt_get_Cons bt_get_del split: option.splits)
qed

lemma check_finished_ok:
  assumes inv: "srv_inv s"
  shows "\<exists>s'. checkFinishedTasks s = (Inr (), s') \<and> srv_inv s'
    \<and> (\<forall>n. bt_get n (runningWorkers s') = (case bt_get n (runningWorkers s) of
          None \<Rightarrow> None | Some w \<Rightarrow> if w_alive w then Some w else None))"
proof -
  have wf: "bt_wf (runningWorkers s)" using srv_invD(4) [OF inv] by (simp add: workers_ok_def)
  have "\<forall>(n, w) \<in> set (runningWorkers s). bt_get n (runningWorkers s) = Some w"
    using bt_mem_get [OF wf] by auto
  then obtain s' where "for_each (runningWorkers s) check_finished_one s = (Inr (), s')" "srv_inv s'"
    "\<forall>n. bt_get n (runningWorkers s') = (case bt_get n (runningWorkers s) of
          None \<Rightarrow> bt_get n (runningWorkers s) | Some w \<Rightarrow> if w_alive w then Some w else None)"
    using check_finished_all [OF inv wf] by blast
  then show ?thesis by (intro exI [of _ s']) (auto simp: checkFinishedTasks_def split: option.splits)
qed

section \<open>Starting tasks\<close>

lemma taskCycle_ok:
  assumes inv: "srv_inv s" and a: "(t, a) \<in> waiting (db s)"
  obtains s' n where "taskCycle t a s = (Inr (), s')" "srv_inv s'" "ids (db s) a = Some n"
    "runningList (db s') = runningList (db s) @ [a]" "waiting (db s') = waiting (db s) - {(t, a)}"
    "onRunningListSince (heap (db s') a) = Some (clock (db s))"
    "bt_get n (runningWorkers s') = Some \<lparr>w_delay = sched_ts (db s) (clock (db s)) - t,
       w_prepared = False, w_alive = True, w_result = 0\<rparr>"
proof -
  let ?d = "db s"
  have i: "sched_inv ?d" using srv_invD(1) [OF inv] .
  have mem: "a \<in> snd ` waiting ?d" using a by force
  obtain n where n: "ids ?d a = Some n" using waiting_indexed [OF i mem] by auto
  obtain d1 where d1: "on_queue (\<lambda>c. dequeue c t a) ?d = (Inr (), d1)" "moved a ?d d1" "nowhere d1 a"
    "heap d1 = heap ?d" "waiting d1 = waiting ?d - {(t, a)}" "failed_objs d1 = failed_objs ?d"
    "finished_objs d1 = finished_objs ?d" "runningList d1 = runningList ?d"
    using move_out_queue [OF i a] by metis
  define u where "u = (heap ?d a)\<lparr>onRunningListSince := Some (clock ?d)\<rparr>"
  let ?d2 = "d1\<lparr>heap := (heap ?d)(a := u)\<rparr>"
  let ?d3 = "?d2\<lparr>runningList := runningList ?d @ [a]\<rparr>"
  have i1: "sched_inv d1" using d1(2) by (simp add: moved_def)
  have ck: "clock d1 = clock ?d" "tz_off d1 = tz_off ?d"
    using d1(2) by (auto simp: moved_def touches_def)
  have "a \<notin> snd ` waiting d1" using d1(3) by (simp add: nowhere_def)
  then have m2: "moved a d1 ?d2" using update_places [OF i1, of a u] d1(4) by (simp add: u_def)
  then have i2: "sched_inv ?d2" by (simp add: moved_def)
  have "nowhere ?d2 a" using d1(3) by (simp add: nowhere_def)
  then have "sched_inv (?d2\<lparr>runningList := runningList ?d2 @ [a]\<rparr>)"
    by (rule inv_enter_running [OF i2]) (use n in \<open>simp add: u_def\<close>)
  then have "moved a ?d2 ?d3" using d1(8) by (simp add: moved_def touches_def)
  then have m: "moved a ?d ?d3" using d1(2) m2 moved_trans by blast
  have "worker_of s a = None" by (rule waiting_no_worker [OF inv mem])
  then have inv3: "srv_inv (s\<lparr>db := ?d3\<rparr>)"
    using n by (intro srv_inv_moved [OF inv m]) (auto simp: u_def)
  let ?w = "\<lparr>w_delay = sched_ts ?d (clock ?d) - t, w_prepared = False, w_alive = True, w_result = 0\<rparr>"
  let ?s = "s\<lparr>db := ?d3, runningWorkers := bt_put n ?w (runningWorkers s)\<rparr>"
  have run: "taskCycle t a s = (Inr (), ?s)"
    using d1(1,4,8) n ck by (simp add: taskCycle_def on_db_run db_setTaskRunning_def removeWaitingTask_def
        addTaskToRunningList_def upd_task_run u_def sched_ts_def)
  have w: "worker_ok ?d3 a ?w"
    using d1(3) waiting_places [OF i mem] by (simp add: worker_ok_def nowhere_def u_def)
  have "workers_ok ?s"
    unfolding workers_ok_def
  proof (intro conjI allI impI)
    show "bt_wf (runningWorkers ?s)" using srv_invD(4) [OF inv] by (simp add: workers_ok_def bt_wf_put)
    fix m v assume "bt_get m (runningWorkers ?s) = Some v"
    then consider "m = n" "v = ?w" | "m \<noteq> n" "bt_get m (runningWorkers s) = Some v"
      by (auto simp: bt_get_put split: if_splits)
    then show "\<exists>b. ids (db ?s) b = Some m \<and> worker_ok (db ?s) b v"
    proof cases
      case 1
      then show ?thesis using w n by (intro exI [of _ a]) (simp add: u_def)
    next
      case 2
      then show ?thesis using srv_invD(4) [OF inv3] unfolding workers_ok_def by simp
    qed
  qed
  then have "srv_inv ?s" using inv3 by (simp add: srv_inv_def)
  then show ?thesis using that [OF run _ n] d1(5) by (simp add: u_def bt_get_put)
qed

lemma taskCycle_task:
  assumes inv: "srv_inv s" and a: "(t, a) \<in> waiting (db s)"
  shows "kind (heap (db (snd (taskCycle t a s))) a) = kind (heap (db s) a)
    \<and> task_status (heap (db (snd (taskCycle t a s))) a) = task_status (heap (db s) a)"
proof -
  obtain d1 where d1: "on_queue (\<lambda>c. dequeue c t a) (db s) = (Inr (), d1)" "heap d1 = heap (db s)"
    using move_out_queue [OF srv_invD(1) [OF inv] a] by metis
  then show ?thesis
    by (simp add: taskCycle_def on_db_run db_setTaskRunning_def removeWaitingTask_def
        addTaskToRunningList_def upd_task_run split: option.split)
qed

end
