(* ===== verification/Sched_System.thy ===== *)
theory Sched_System
  imports Sched_Safety
begin

text \<open>
  The spool, the passes of the main loop, startup, the clients and the workers as steps of one
  system.  Every step keeps the invariant, so it holds in every reachable state.
\<close>

section \<open>The spool\<close>

lemma pop_run:
  "db_popFromSpool d = (case taskSpool d of [] \<Rightarrow> (Inr None, d)
     | i # sp \<Rightarrow> (Inr (Some i), d\<lparr>taskSpool := sp\<rparr>))"
  by (simp add: db_popFromSpool_def split: list.split)

lemma spool_frame:
  "sched_inv (d\<lparr>taskSpool := sp\<rparr>) \<longleftrightarrow> sched_inv d" "worker_ok (d\<lparr>taskSpool := sp\<rparr>) a w \<longleftrightarrow> worker_ok d a w"
  "since_ok (d\<lparr>taskSpool := sp\<rparr>) \<longleftrightarrow> since_ok d"
  by (simp_all add: sched_inv_def ids_ok_def containers_ok_def places_ok_def worker_ok_def since_ok_def)

lemma srv_inv_spool:
  assumes "srv_inv s" "spool_ok ((db s)\<lparr>taskSpool := sp\<rparr>)"
  shows "srv_inv (s\<lparr>db := (db s)\<lparr>taskSpool := sp\<rparr>\<rparr>)"
  using assms by (simp add: srv_inv_def workers_ok_def spool_frame)

lemma spool_ok_tl: "spool_ok d \<Longrightarrow> taskSpool d = i # sp \<Longrightarrow> spool_ok (d\<lparr>taskSpool := sp\<rparr>)"
  by (cases i) (auto simp: spool_ok_def)

text \<open>One round of the loop: the instruction is gone, whatever it does.\<close>

lemma spool_item_keeps:
  assumes inv: "srv_inv s" and sp: "taskSpool (db s) = i # sp"
  shows "srv_inv (s\<lparr>db := snd (do_spool_item i ((db s)\<lparr>taskSpool := sp\<rparr>))\<rparr>)"
proof -
  let ?s = "s\<lparr>db := (db s)\<lparr>taskSpool := sp\<rparr>\<rparr>"
  have inv': "srv_inv ?s" using srv_inv_spool [OF inv spool_ok_tl [OF srv_invD(2) [OF inv] sp]] .
  have k: "srv_inv (s\<lparr>db := snd (m ((db s)\<lparr>taskSpool := sp\<rparr>))\<rparr>)" if "keeps srv_inv (on_db m)" for m :: "(sched, unit) prog"
    using keepsD [OF that inv'] by (simp add: on_db_run)
  show ?thesis
  proof (cases i)
    case (SpAdd a)
    have "ids (db ?s) a = None" "a \<notin> set (spool_adds (taskSpool (db ?s)))"
      using srv_invD(2) [OF inv] sp SpAdd by (auto simp: spool_ok_def)
    from add_new [OF inv' this] obtain d' where "addTaskToWaitingQueue a True (db ?s) = (Inr (), d')" "srv_inv (?s\<lparr>db := d'\<rparr>)"
      by metis
    then show ?thesis using SpAdd by (simp add: do_spool_item_def)
  qed (use k keeps_change keeps_delete inv' in \<open>simp_all add: do_spool_item_def\<close>)
qed

lemma spool_loop_keeps: "keeps srv_inv (on_db (spool_loop n))"
proof (induction n)
  case 0
  then show ?case by (simp add: keeps_def on_db_run)
next
  case (Suc n)
  show ?case
  proof (rule keepsI)
    fix s assume inv: "srv_inv s"
    show "srv_inv (snd (on_db (spool_loop (Suc n)) s))"
    proof (cases "taskSpool (db s)")
      case Nil
      then show ?thesis using inv by (simp add: on_db_run pop_run)
    next
      case (Cons i sp)
      let ?d = "(db s)\<lparr>taskSpool := sp\<rparr>"
      have inv': "srv_inv (s\<lparr>db := snd (do_spool_item i ?d)\<rparr>)" by (rule spool_item_keeps [OF inv Cons])
      show ?thesis
      proof (cases "do_spool_item i ?d")
        case (Pair r d')
        then show ?thesis
          using inv' keepsD [OF Suc.IH inv'] Cons by (cases r) (simp_all add: on_db_run pop_run)
      qed
    qed
  qed
qed

lemma keeps_processSpool: "keeps srv_inv (on_db processSpool)"
  using spool_loop_keeps by (simp add: processSpool_def keeps_def on_db_run del: spool_loop.simps)

text \<open>
  The fuel is enough: nothing but the loop's own pull touches the spool, so a loop that is not left
  by an exception ends with the spool empty.
\<close>

definition spool_is :: "spool_item list \<Rightarrow> sched \<Rightarrow> bool" where
  "spool_is sp d \<longleftrightarrow> taskSpool d = sp"

lemma spool_prims:
  "keeps (spool_is sp) (upd_task a f)" "keeps (spool_is sp) (on_queue m)" "keeps (spool_is sp) (on_failed m')"
  "keeps (spool_is sp) (removeRunningTask a)" "keeps (spool_is sp) (assertTaskStatus a st)"
  by (auto simp: keeps_def spool_is_def upd_task_run on_queue_def on_failed_def removeRunningTask_def assert_run
      split: prod.split sum.split)

lemma spool_add: "keeps (spool_is sp) (addTaskToWaitingQueue a b)"
  unfolding addTaskToWaitingQueue_def indexTask_def setStatus_def
  by (intro keeps_intros spool_prims keeps_modify) (simp add: spool_is_def)

lemma spool_delete: "keeps (spool_is sp) (db_deleteTaskFromQueue a)"
proof -
  have "keeps (spool_is sp) (move_out a st)" for st
    unfolding move_out_def by (intro keeps_intros spool_prims)
  moreover have "keeps (spool_is sp) (move_in x TASK_STATUS_NONE)" for x
    by (simp add: move_in_def keeps_ret)
  ultimately show ?thesis
    unfolding db_deleteTaskFromQueue_def moveTask_def Let_def by (intro keeps_intros spool_prims)
qed

lemma spool_change: "keeps (spool_is sp) (changeTaskStartDate t a)"
proof -
  have "keeps (spool_is sp) k" if "Some (ret False) = Some k" for k :: "(sched, bool) prog"
    using that keeps_ret by auto
  then show ?thesis
    unfolding changeTaskStartDate_def by (intro keeps_intros spool_prims) auto
qed

lemma item_spool: "taskSpool (snd (do_spool_item i d)) = taskSpool d"
  using keepsD [OF spool_add [of "taskSpool d"]] keepsD [OF spool_delete [of "taskSpool d"]]
    keepsD [OF spool_change [of "taskSpool d"]]
  by (cases i) (simp_all add: do_spool_item_def spool_is_def)

lemma spool_loop_empties:
  "length (taskSpool d) < n \<Longrightarrow> spool_loop n d = (Inr (), d') \<Longrightarrow> taskSpool d' = []"
proof (induction n arbitrary: d)
  case (Suc n)
  show ?case
  proof (cases "taskSpool d")
    case Nil
    then show ?thesis using Suc.prems by (simp add: pop_run)
  next
    case (Cons i sp)
    obtain r d1 where d1: "do_spool_item i (d\<lparr>taskSpool := sp\<rparr>) = (r, d1)" by fastforce
    have "taskSpool d1 = sp" using item_spool [of i "d\<lparr>taskSpool := sp\<rparr>"] d1 by simp
    then show ?thesis
      using Suc.IH [of d1] Suc.prems d1 Cons by (cases r) (simp_all add: pop_run del: spool_loop.simps(1))
  qed
qed simp

section \<open>Absent tasks\<close>

lemma awol_one_keeps: "keeps srv_inv (on_db (check_awol_one a))"
proof (rule keeps_on_db)
  fix s assume inv: "srv_inv s"
  let ?d = "db s"
  have i: "sched_inv ?d" using srv_invD(1) [OF inv] .
  show "srv_inv (s\<lparr>db := snd (check_awol_one a ?d)\<rparr>)"
  proof (cases "task_status (heap ?d a) = TASK_STATUS_RUNNING \<and> a \<in> set (runningList ?d)")
    case False
    then have "moveTask a TASK_STATUS_RUNNING st None False ?d = (Inl TaskInconsistentStatusException, ?d)" for st
      by (auto simp: moveTask_def assert_run in_running_iff [OF sched_invD(1) [OF i]])
    then show ?thesis
      using inv by (simp add: check_awol_one_def db_moveTask_def Let_def split: option.split)
  next
    case True
    obtain since where since: "onRunningListSince (heap ?d a) = Some since"
      using srv_invD(3) [OF inv] True by (auto simp: since_ok_def)
    obtain d1 where d1: "move_out a TASK_STATUS_RUNNING ?d = (Inr (), d1)" "moved a ?d d1" "nowhere d1 a"
      "heap d1 = heap ?d" "waiting d1 = waiting ?d" "failed_objs d1 = failed_objs ?d"
      "finished_objs d1 = finished_objs ?d" "runningList d1 = remove1 a (runningList ?d)"
      using move_out_running [OF i] running_places [OF i] True by metis
    have i1: "sched_inv d1" using d1(2) by (simp add: moved_def)
    have "ids d1 a \<noteq> None" using running_indexed [OF i] True d1(4) by simp
    then obtain d2 where d2: "index_in_failed (OTask a) d1 = (Inr (), d2)" "moved a d1 d2" "waiting d2 = waiting d1"
      "failed_objs d2 = insert (OTask a) (failed_objs d1)" "finished_objs d2 = finished_objs d1"
      "runningList d2 = runningList d1" "heap d2 = heap d1"
      using enter_failed [OF i1, of "OTask a"] d1(3)
      by (simp add: nowhere_def occ_known_def) (metis sobj.inject(1))
    let ?t = "(heap d2 a)\<lparr>task_status := TASK_STATUS_TERMINATED\<rparr>"
    let ?d3 = "d2\<lparr>heap := (heap d2)(a := ?t)\<rparr>"
    have i2: "sched_inv d2" using d2(2) by (simp add: moved_def)
    have nq: "a \<notin> snd ` waiting d2" using d2(3) d1(3) by (simp add: nowhere_def)
    have m: "moved a ?d ?d3"
      using moved_trans [OF d1(2) moved_trans [OF d2(2) update_places [OF i2 nq]]] by simp
    have "srv_inv (s\<lparr>db := ?d3\<rparr>)"
    proof (rule srv_inv_moved [OF inv m])
      show "worker_ok ?d3 a w" if w: "worker_of s a = Some w" for w
      proof -
        have wo: "worker_ok ?d a w" by (rule worker_of_ok [OF inv w])
        then have "w_prepared w" using True by (auto simp: worker_ok_def)
        then show ?thesis using wo nq d1 d2 by (simp add: worker_ok_def)
      qed
      show "onRunningListSince (heap ?d3 a) \<noteq> None" if "a \<in> set (runningList ?d3)"
        using that d2(6) d1(8) running_distinct [OF i] by simp
    qed
    moreover have "db_moveTask a TASK_STATUS_RUNNING TASK_STATUS_TERMINATED None False True ?d = (Inr (), ?d3)"
      using True d1(1) d2(1) by (simp add: db_moveTask_def moveTask_def assert_run setStatus_def upd_task_run move_in_def
          in_running_iff [OF sched_invD(1) [OF i]])
    ultimately show ?thesis using since inv by (simp add: check_awol_one_def Let_def)
  qed
qed

lemma on_db_for_each: "on_db (for_each xs f) = for_each xs (\<lambda>x. on_db (f x))"
proof (induction xs)
  case Nil
  then show ?case by (rule ext) (simp add: on_db_run)
next
  case (Cons x xs)
  then show ?case by (simp only: for_each.simps on_db_andthen)
qed

lemma keeps_awol: "keeps srv_inv (on_db checkAWOLTasks)"
proof (rule keepsI)
  fix s assume "srv_inv s"
  then have "srv_inv (snd (on_db (for_each (runningList (db s)) check_awol_one) s))"
    unfolding on_db_for_each by (intro keepsD [OF keeps_for_each [OF awol_one_keeps]])
  then show "srv_inv (snd (on_db checkAWOLTasks s))" by (simp add: checkAWOLTasks_def on_db_run)
qed

section \<open>A pass of the server\<close>

lemma keeps_finished: "keeps srv_inv checkFinishedTasks"
  using check_finished_ok by (intro keepsI) (metis snd_conv)

lemma peek_queue:
  assumes inv: "sched_inv d"
  shows "peekNextWaitingTask d = (fst (peek (waitingQueue d)), d)"
    and "fst (peek (waitingQueue d)) = Inr (Some (t, a)) \<Longrightarrow> (t, a) \<in> waiting d"
proof -
  have wf: "wq_wf (task_cmp (ids d)) {a. id_unique (ids d) a} (waitingQueue d)"
    using sched_invD(2) [OF inv] by (simp add: containers_ok_def)
  show "peekNextWaitingTask d = (fst (peek (waitingQueue d)), d)"
    by (simp add: peekNextWaitingTask_def on_queue_def peek_run [OF wf])
  show "(t, a) \<in> waiting d" if "fst (peek (waitingQueue d)) = Inr (Some (t, a))"
    using that wf unfolding peek_run [OF wf]
    by (cases "container (waitingQueue d)") (auto simp: waiting_def wq_items_def wq_iter_def wq_wf_def split: if_splits)
qed

lemma iterate_pass_ok:
  assumes inv: "srv_inv s" and run: "iterate_pass awol s = (r, s')"
  shows "srv_inv s' \<and> (\<forall>t a. r = Inr (Some (t, a)) \<longrightarrow> (t, a) \<in> waiting (db s') \<and> t \<le> sched_ts (db s) (clock (db s)))"
proof -
  let ?m = "finally_do (on_db processSpool) checkFinishedTasks"
  obtain r1 s1 where s1: "?m s = (r1, s1)" by fastforce
  have inv1: "srv_inv s1"
    using keepsD [OF keeps_finally [OF keeps_processSpool keeps_finished] inv] s1 by simp
  note pk = peek_queue [OF srv_invD(1) [OF inv1]]
  have aw: "srv_inv (snd (when_do awol (on_db checkAWOLTasks) s1))"
    by (rule keepsD [OF keeps_when [OF keeps_awol] inv1])
  have peek: "on_db peekNextWaitingTask s1 = (fst (peek (waitingQueue (db s1))), s1)"
    by (simp add: on_db_run pk(1))
  show ?thesis
  proof (cases r1)
    case (Inl e)
    then show ?thesis using run s1 inv1 by (auto simp: iterate_pass_def Let_def)
  next
    case (Inr u)
    obtain ra sa where a: "when_do awol (on_db checkAWOLTasks) s1 = (ra, sa)" by fastforce
    then have ia: "srv_inv sa" using aw by simp
    show ?thesis
    proof (cases "fst (peek (waitingQueue (db s1)))")
      case (Inl e)
      then show ?thesis using run s1 Inr inv1 peek by (auto simp: iterate_pass_def Let_def)
    next
      case p: (Inr res)
      show ?thesis
      proof (cases res)
        case None
        then show ?thesis
          using run s1 Inr peek p a ia by (cases ra) (auto simp: iterate_pass_def Let_def simp del: when_run)
      next
        case (Some ta)
        obtain t b where ta: "ta = (t, b)" by fastforce
        have mem: "(t, b) \<in> waiting (db s1)" using pk(2) p Some ta by simp
        show ?thesis
        proof (cases "t \<le> sched_ts (db s) (clock (db s))")
          case True
          then show ?thesis
            using run s1 Inr peek p Some ta inv1 mem by (auto simp: iterate_pass_def Let_def)
        next
          case False
          then show ?thesis
            using run s1 Inr peek p Some ta a ia by (cases ra) (auto simp: iterate_pass_def Let_def simp del: when_run)
        qed
      qed
    qed
  qed
qed

lemma iterate_pass_peek:
  assumes inv: "srv_inv s" and run: "iterate_pass awol s = (Inr (Some (t, a)), s')"
  shows "fst (peek (waitingQueue (db s'))) = Inr (Some (t, a))"
proof -
  let ?m = "finally_do (on_db processSpool) checkFinishedTasks"
  obtain r1 s1 where s1: "?m s = (r1, s1)" by fastforce
  have inv1: "srv_inv s1"
    using keepsD [OF keeps_finally [OF keeps_processSpool keeps_finished] inv] s1 by simp
  have peek: "on_db peekNextWaitingTask s1 = (fst (peek (waitingQueue (db s1))), s1)"
    by (simp add: on_db_run peek_queue(1) [OF srv_invD(1) [OF inv1]])
  show ?thesis
    using run s1 peek
    by (cases r1; cases "fst (peek (waitingQueue (db s1)))")
       (auto simp: iterate_pass_def Let_def simp del: when_run split: option.splits prod.splits sum.splits if_splits)
qed

lemma keeps_server_pass: "keeps srv_inv (server_pass awol)"
proof (rule keepsI)
  fix s assume inv: "srv_inv s"
  obtain r s' where run: "iterate_pass awol s = (r, s')" by fastforce
  note ok = iterate_pass_ok [OF inv run]
  show "srv_inv (snd (server_pass awol s))"
  proof (cases "\<exists>t a. r = Inr (Some (t, a))")
    case True
    then obtain t a where ta: "r = Inr (Some (t, a))" by blast
    then obtain s'' where "taskCycle t a s' = (Inr (), s'')" "srv_inv s''"
      using taskCycle_ok ok by metis
    then show ?thesis using run ta by (simp add: server_pass_def)
  next
    case False
    then show ?thesis
      using run ok by (auto simp: server_pass_def split: sum.split option.split)
  qed
qed

section \<open>Startup\<close>

lemma relaunch_one_ok:
  assumes i: "sched_inv d" and a: "a \<in> set (runningList d)"
  obtains d' where "relaunch_one a d = (Inr (), d')" "moved a d d'" "runningList d' = remove1 a (runningList d)"
    "(if task_status (heap d a) = TASK_STATUS_RUNNING
      then waiting d' = (case getStartOn (heap d a) of None \<Rightarrow> waiting d
          | Some t \<Rightarrow> insert (sched_ts d t, a) (waiting d)) \<and> failed_objs d' = failed_objs d
      else waiting d' = waiting d \<and> failed_objs d' = insert (OTask a) (failed_objs d))"
proof -
  obtain d1 where d1: "move_out a TASK_STATUS_RUNNING d = (Inr (), d1)" "moved a d d1" "nowhere d1 a"
    "heap d1 = heap d" "waiting d1 = waiting d" "failed_objs d1 = failed_objs d"
    "finished_objs d1 = finished_objs d" "runningList d1 = remove1 a (runningList d)"
    using move_out_running [OF i] running_places [OF i a] by metis
  have i1: "sched_inv d1" using d1(2) by (simp add: moved_def)
  have id: "ids d1 a \<noteq> None" using running_indexed [OF i a] d1(4) by simp
  have ts: "sched_ts d1 = sched_ts d" using d1(2) by (simp add: moved_def touches_def sched_ts_def fun_eq_iff)
  have inr: "in_running d a" using a in_running_iff [OF sched_invD(1) [OF i]] by simp
  show ?thesis
  proof (cases "task_status (heap d a) = TASK_STATUS_RUNNING")
    case True
    obtain d2 where d2: "addTaskToWaitingQueue a False d1 = (Inr (), d2)" "moved a d1 d2"
      "waiting d2 = (case getStartOn (heap d1 a) of None \<Rightarrow> waiting d1
        | Some t \<Rightarrow> insert (sched_ts d1 t, a) (waiting d1))"
      "failed_objs d2 = failed_objs d1" "runningList d2 = runningList d1"
      using enter_queue [OF i1 d1(3) id] by metis
    have "relaunch_one a d = (Inr (), d2)"
      using True inr d1(1) d2(1) by (simp add: relaunch_one_def db_moveTask_def moveTask_def assert_run move_in_def)
    then show ?thesis
      using that [of d2] moved_trans [OF d1(2) d2(2)] True d1 d2 ts by (simp split: option.split)
  next
    case False
    obtain d2 where d2: "index_in_failed (OTask a) d1 = (Inr (), d2)" "moved a d1 d2" "waiting d2 = waiting d1"
      "failed_objs d2 = insert (OTask a) (failed_objs d1)" "runningList d2 = runningList d1"
      using enter_failed [OF i1, of "OTask a"] d1(3) id
      by (simp add: nowhere_def occ_known_def) (metis sobj.inject(1))
    have "relaunch_one a d = (Inr (), d2)"
      using False d1(1) d2(1) by (simp add: relaunch_one_def db_moveTask_def moveTask_def assert_run move_in_def)
    then show ?thesis
      using that [of d2] moved_trans [OF d1(2) d2(2)] False d1 d2 by simp
  qed
qed

text \<open>Which tasks the iteration over the changing list leaves behind: every second one.\<close>

fun skipped :: "'a list \<Rightarrow> 'a list" where
  "skipped [] = []"
| "skipped [x] = []"
| "skipped (x # y # xs) = y # skipped xs"

definition idle_inv :: "sched \<Rightarrow> bool" where
  "idle_inv d \<longleftrightarrow> srv_inv \<lparr>db = d, runningWorkers = []\<rparr>"

lemma idle_invD: "idle_inv d \<Longrightarrow> sched_inv d"
  using srv_invD(1) by (fastforce simp: idle_inv_def)

lemma relaunch_one_idle:
  assumes inv: "idle_inv d" and a: "a \<in> set (runningList d)"
  obtains d' where "relaunch_one a d = (Inr (), d')" "idle_inv d'" "runningList d' = remove1 a (runningList d)"
proof -
  obtain d' where d': "relaunch_one a d = (Inr (), d')" "moved a d d'" "runningList d' = remove1 a (runningList d)"
    using relaunch_one_ok [OF idle_invD [OF inv] a] by metis
  have "srv_inv (\<lparr>db = d, runningWorkers = []\<rparr>\<lparr>db := d'\<rparr>)"
    using d' running_distinct [OF idle_invD [OF inv]]
    by (intro srv_inv_moved [OF inv [unfolded idle_inv_def], of a])
       (auto simp: worker_of_def split: option.splits)
  then show ?thesis using that [of d'] d' by (simp add: idle_inv_def)
qed

lemma relaunch_loop_ok:
  "idle_inv d \<Longrightarrow> runningList d = pre @ rest \<Longrightarrow> length pre = i \<Longrightarrow> length rest \<le> n \<Longrightarrow>
     \<exists>d'. relaunch_loop n i d = (Inr (), d') \<and> idle_inv d' \<and> runningList d' = pre @ skipped rest"
proof (induction n arbitrary: d pre rest i)
  case 0
  then show ?case by simp
next
  case (Suc n)
  show ?case
  proof (cases rest)
    case Nil
    then show ?thesis using Suc.prems by simp
  next
    case (Cons x xs)
    have l: "runningList d ! i = x" "i < length (runningList d)"
      using Suc.prems(2,3) Cons by (auto simp: nth_append)
    have "x \<notin> set pre" using running_distinct [OF idle_invD [OF Suc.prems(1)]] Suc.prems(2) Cons by auto
    moreover obtain d1 where d1: "relaunch_one x d = (Inr (), d1)" "idle_inv d1" "runningList d1 = remove1 x (runningList d)"
      using relaunch_one_idle [OF Suc.prems(1), of x] Suc.prems(2) Cons by auto
    ultimately have r1: "runningList d1 = pre @ xs" using Suc.prems(2) Cons by (simp add: remove1_append)
    show ?thesis
    proof (cases xs)
      case Nil
      then have "relaunch_loop n (Suc i) d1 = (Inr (), d1)"
        using r1 Suc.prems(3) by (cases n) simp_all
      then show ?thesis using d1 l r1 Cons Nil by simp
    next
      case (Cons y ys)
      have "\<exists>d'. relaunch_loop n (Suc i) d1 = (Inr (), d') \<and> idle_inv d' \<and> runningList d' = (pre @ [y]) @ skipped ys"
        by (rule Suc.IH [OF d1(2)]) (use r1 Cons Suc.prems(3,4) \<open>rest = x # xs\<close> in simp_all)
      then show ?thesis using d1 l Cons \<open>rest = x # xs\<close> by auto
    qed
  qed
qed

section \<open>The clients\<close>

lemma keeps_client_del: "keeps srv_inv (on_db (client_dequeue a))"
  by (rule keeps_on_db) (simp add: client_dequeue_def spool_def srv_inv_spool spool_ok_def srv_invD(2) [unfolded spool_ok_def])

lemma keeps_client_shutdown: "keeps srv_inv (on_db (client_shutdown m))"
  by (rule keeps_on_db) (simp add: client_shutdown_def spool_def srv_inv_spool spool_ok_def srv_invD(2) [unfolded spool_ok_def])

lemma client_enqueue_inv:
  "srv_inv s \<Longrightarrow> ids (db s) a = None \<Longrightarrow> a \<notin> set (spool_adds (taskSpool (db s))) \<Longrightarrow>
     srv_inv (snd (on_db (client_enqueue a) s))"
  using srv_invD(2) [of s]
  by (simp add: on_db_run client_enqueue_def spool_def srv_inv_spool spool_ok_def)

lemma keeps_client_move: "keeps srv_inv (on_db (client_moveTask a newDate))"
proof (rule keeps_on_db)
  fix s assume inv: "srv_inv s"
  show "srv_inv (s\<lparr>db := snd (client_moveTask a newDate (db s))\<rparr>)"
  proof (cases "\<exists>old. kind (heap (db s) a) = OneShotTask (Some old)")
    case True
    then obtain old where k: "kind (heap (db s) a) = OneShotTask (Some old)" by blast
    let ?t = "(heap (db s) a)\<lparr>kind := OneShotTask (Some newDate)\<rparr>"
    let ?s = "s\<lparr>db := (db s)\<lparr>heap := (heap (db s))(a := ?t)\<rparr>\<rparr>"
    have inv1: "srv_inv ?s" by (rule srv_inv_update [OF inv]) (simp_all add: keeps_occs_def k)
    have "srv_inv (?s\<lparr>db := (db ?s)\<lparr>taskSpool := taskSpool (db ?s) @ [SpChange (sched_ts (db s) old) a]\<rparr>\<rparr>)"
      using srv_invD(2) [OF inv1] by (intro srv_inv_spool [OF inv1]) (simp add: spool_ok_def)
    then show ?thesis by (simp add: client_moveTask_def getStartOn_def k setStartOn_def upd_task_run spool_def)
  next
    case False
    then show ?thesis
      using inv by (cases "kind (heap (db s) a)"; cases "getStartOn (heap (db s) a)")
        (auto simp: client_moveTask_def getStartOn_def setStartOn_def)
  qed
qed

lemma startFailed_ok:
  assumes inv: "sched_inv d" and st: "task_status (heap d a) = TASK_STATUS_FAILED" and a: "OTask a \<in> failed_objs d"
  obtains d' where "client_startFailedTask a d = (Inr (), d')" "moved a d d'" "failed_objs d' = failed_objs d - {OTask a}"
    "waiting d' = (case getStartOn (heap d a) of None \<Rightarrow> waiting d | Some t \<Rightarrow> insert (sched_ts d t, a) (waiting d))"
    "runningList d' = runningList d" "finished_objs d' = finished_objs d"
proof -
  obtain d1 where d1: "move_out a TASK_STATUS_FAILED d = (Inr (), d1)" "moved a d d1" "nowhere d1 a"
    "heap d1 = heap d" "waiting d1 = waiting d" "failed_objs d1 = failed_objs d - {OTask a}"
    "finished_objs d1 = finished_objs d" "runningList d1 = runningList d"
    using move_out_failed [OF inv a] by metis
  have i1: "sched_inv d1" using d1(2) by (simp add: moved_def)
  have id: "ids d1 a \<noteq> None" using failed_indexed [OF inv a] d1(4) by simp
  have ts: "sched_ts d1 = sched_ts d" using d1(2) by (simp add: moved_def touches_def sched_ts_def fun_eq_iff)
  obtain d2 where d2: "addTaskToWaitingQueue a False d1 = (Inr (), d2)" "moved a d1 d2"
    "waiting d2 = (case getStartOn (heap d1 a) of None \<Rightarrow> waiting d1
      | Some t \<Rightarrow> insert (sched_ts d1 t, a) (waiting d1))"
    "failed_objs d2 = failed_objs d1" "finished_objs d2 = finished_objs d1" "runningList d2 = runningList d1"
    using enter_queue [OF i1 d1(3) id] by metis
  have "client_startFailedTask a d = (Inr (), d2)"
    using st d1(1) d2(1) by (simp add: client_startFailedTask_def moveTask_def assert_run move_in_def)
  then show ?thesis
    using that [of d2] moved_trans [OF d1(2) d2(2)] d1 d2 ts by (simp split: option.split)
qed

lemma keeps_client_startFailed: "keeps srv_inv (on_db (client_startFailedTask a))"
proof (rule keeps_on_db)
  fix s assume inv: "srv_inv s"
  let ?d = "db s"
  have i: "sched_inv ?d" using srv_invD(1) [OF inv] .
  show "srv_inv (s\<lparr>db := snd (client_startFailedTask a ?d)\<rparr>)"
  proof (cases "task_status (heap ?d a) = TASK_STATUS_FAILED")
    case st: True
    show ?thesis
    proof (cases "OTask a \<in> failed_objs ?d")
      case True
      obtain d' where d': "client_startFailedTask a ?d = (Inr (), d')" "moved a ?d d'" "runningList d' = runningList ?d"
        using startFailed_ok [OF i st True] by metis
      have "worker_of s a = None"
      proof (rule ccontr)
        assume "worker_of s a \<noteq> None"
        then obtain w where "worker_ok ?d a w" using worker_of_ok [OF inv] by auto
        then show False using st True by (simp add: worker_ok_def)
      qed
      moreover have "a \<notin> set (runningList ?d)" using failed_places [OF i True] by simp
      ultimately have "srv_inv (s\<lparr>db := d'\<rparr>)" using d' by (intro srv_inv_moved [OF inv d'(2)]) auto
      then show ?thesis using d'(1) by simp
    next
      case False
      then show ?thesis
        using st inv unindex_absent [OF i] by (simp add: client_startFailedTask_def moveTask_def assert_run move_out_def)
    qed
  qed (use inv in \<open>simp add: client_startFailedTask_def moveTask_def assert_run\<close>)
qed

section \<open>The workers\<close>

text \<open>
  What a worker does to the shared state: it prepares its task, the task may end itself
  (\<open>suicide\<close>), and it ends with a result that depends on the task's end date, or dies.
\<close>

definition set_worker :: "oid \<Rightarrow> worker \<Rightarrow> (server, unit) prog" where
  "set_worker a w = modify (\<lambda>s. case task_id (heap (db s) a) of
       None \<Rightarrow> s | Some n \<Rightarrow> s\<lparr>runningWorkers := bt_put n w (runningWorkers s)\<rparr>)"

definition worker_prepare :: "oid \<Rightarrow> worker \<Rightarrow> (server, unit) prog" where
  "worker_prepare a w = bnd (gets db) (\<lambda>d. case prepare (tz_off d) (clock d) (heap d a) of
       Inl e \<Rightarrow> set_worker a (w\<lparr>w_alive := False\<rparr>)
     | Inr (_, _, t) \<Rightarrow> andthen (on_db (upd_task a (\<lambda>_. t))) (set_worker a (w\<lparr>w_prepared := True\<rparr>)))"

definition worker_end :: "oid \<Rightarrow> worker \<Rightarrow> exn option \<Rightarrow> (server, unit) prog" where
  "worker_end a w outcome = bnd (gets db) (\<lambda>d.
     let t = (case outcome of None \<Rightarrow> snd (start None (clock d) (heap d a)) | Some _ \<Rightarrow> heap d a) in
     andthen (on_db (upd_task a (\<lambda>_. t)))
             (set_worker a (w\<lparr>w_alive := False, w_result := (if endedOn t \<noteq> None then 1 else 0)\<rparr>)))"

lemma srv_inv_worker:
  assumes inv: "srv_inv s" and w: "worker_of s a = Some w"
    and t: "task_id t = task_id (heap (db s) a)" "keeps_occs (heap (db s) a) t"
      "onRunningListSince t = onRunningListSince (heap (db s) a)"
    and ok: "worker_ok ((db s)\<lparr>heap := (heap (db s))(a := t)\<rparr>) a w'"
  shows "srv_inv (snd (set_worker a w' (s\<lparr>db := (db s)\<lparr>heap := (heap (db s))(a := t)\<rparr>\<rparr>)))"
proof -
  let ?d = "(db s)\<lparr>heap := (heap (db s))(a := t)\<rparr>"
  obtain n where n: "ids (db s) a = Some n" "bt_get n (runningWorkers s) = Some w"
    using w by (auto simp: worker_of_def split: option.splits)
  let ?s = "s\<lparr>db := ?d, runningWorkers := bt_put n w' (runningWorkers s)\<rparr>"
  have nw: "a \<notin> snd ` waiting (db s)" using worker_of_ok [OF inv w] by (simp add: worker_ok_def)
  have m: "moved a (db s) ?d" by (rule update_places [OF srv_invD(1) [OF inv] nw t(1,2)])
  have id: "ids ?d b = ids (db s) b" for b using t(1) by simp
  have "workers_ok ?s"
    unfolding workers_ok_def
  proof (intro conjI allI impI)
    show "bt_wf (runningWorkers ?s)" using srv_invD(4) [OF inv] by (simp add: workers_ok_def bt_wf_put)
    fix k v assume k: "bt_get k (runningWorkers ?s) = Some v"
    show "\<exists>b. ids (db ?s) b = Some k \<and> worker_ok (db ?s) b v"
    proof (cases "k = n")
      case True
      then show ?thesis using k ok n t(1) by (intro exI [of _ a]) (simp add: bt_get_put)
    next
      case False
      then have "bt_get k (runningWorkers s) = Some v" using k by (simp add: bt_get_put)
      then obtain b where b: "ids (db s) b = Some k" "worker_ok (db s) b v"
        using srv_invD(4) [OF inv] by (auto simp: workers_ok_def)
      then have "b \<noteq> a" using n False by auto
      then have "worker_ok ?d b v" using worker_ok_frame b(2) m by (auto simp: moved_def)
      then show ?thesis using b id by (intro exI [of _ b]) simp
    qed
  qed
  moreover have "since_ok ?d"
    using srv_invD(3) [OF inv] t(3) by (auto simp: since_ok_def)
  moreover have "spool_ok ?d" using spool_ok_frame srv_invD(2) [OF inv] m by (auto simp: moved_def)
  ultimately have "srv_inv ?s" using m by (simp add: srv_inv_def moved_def)
  moreover have "ids ?d a = Some n" using n t(1) by simp
  ultimately show ?thesis by (simp add: set_worker_def)
qed

lemma worker_prepare_inv:
  assumes inv: "srv_inv s" and w: "worker_of s a = Some w" "\<not> w_prepared w"
  shows "srv_inv (snd (worker_prepare a w s))"
proof -
  let ?d = "db s"
  have wo: "worker_ok ?d a w" by (rule worker_of_ok [OF inv w(1)])
  show ?thesis
  proof (cases "prepare (tz_off ?d) (clock ?d) (heap ?d a)")
    case (Inl e)
    have "srv_inv (snd (set_worker a (w\<lparr>w_alive := False\<rparr>) (s\<lparr>db := ?d\<lparr>heap := (heap ?d)(a := heap ?d a)\<rparr>\<rparr>)))"
      by (rule srv_inv_worker [OF inv w(1)]) (use wo in \<open>simp_all add: worker_ok_def\<close>)
    then show ?thesis using Inl by (simp add: worker_prepare_def)
  next
    case (Inr r)
    obtain sl go t where r: "r = (sl, go, t)" by (cases r) auto
    have t: "task_id t = task_id (heap ?d a)" "kind t = kind (heap ?d a)"
      "onRunningListSince t = onRunningListSince (heap ?d a)"
      using Inr r by (auto simp: prepare_def Let_def split: option.splits if_splits)
    have "srv_inv (snd (set_worker a (w\<lparr>w_prepared := True\<rparr>) (s\<lparr>db := ?d\<lparr>heap := (heap ?d)(a := t)\<rparr>\<rparr>)))"
      by (rule srv_inv_worker [OF inv w(1) t(1) _ t(3)]) (use wo t w(2) in \<open>simp_all add: worker_ok_def\<close>)
    then show ?thesis using Inr r by (simp add: worker_prepare_def on_db_run upd_task_run)
  qed
qed

lemma worker_end_inv:
  assumes inv: "srv_inv s" and w: "worker_of s a = Some w"
  shows "srv_inv (snd (worker_end a w outcome s))"
proof -
  let ?d = "db s"
  let ?t = "case outcome of None \<Rightarrow> snd (start None (clock ?d) (heap ?d a)) | Some _ \<Rightarrow> heap ?d a"
  have "srv_inv (snd (set_worker a (w\<lparr>w_alive := False, w_result := (if endedOn ?t \<noteq> None then 1 else 0)\<rparr>)
      (s\<lparr>db := ?d\<lparr>heap := (heap ?d)(a := ?t)\<rparr>\<rparr>)))"
    by (rule srv_inv_worker [OF inv w])
      (use worker_of_ok [OF inv w] in \<open>auto simp: worker_ok_def start_def split: option.split\<close>)
  then show ?thesis by (simp add: worker_end_def Let_def on_db_run upd_task_run)
qed

lemma worker_suicide_inv:
  assumes inv: "srv_inv s" and w: "worker_of s a = Some w" "w_prepared w"
  shows "srv_inv (snd (on_db (upd_task a (suicide (clock (db s)))) s))"
proof -
  let ?t = "suicide (clock (db s)) (heap (db s) a)"
  let ?d = "(db s)\<lparr>heap := (heap (db s))(a := ?t)\<rparr>"
  have wo: "worker_ok (db s) a w" by (rule worker_of_ok [OF inv w(1)])
  have "moved a (db s) ?d"
    using wo by (intro update_places [OF srv_invD(1) [OF inv]]) (simp_all add: worker_ok_def suicide_def)
  then have "srv_inv (s\<lparr>db := ?d\<rparr>)"
    by (rule srv_inv_moved [OF inv])
      (use w wo srv_invD(3) [OF inv] in \<open>auto simp: worker_ok_def suicide_def since_ok_def\<close>)
  then show ?thesis by (simp add: on_db_run upd_task_run)
qed

section \<open>The system\<close>

definition server_restart :: "string \<Rightarrow> int \<Rightarrow> (server, unit) prog" where
  "server_restart fqdn p = andthen (modify (\<lambda>s. s\<lparr>runningWorkers := []\<rparr>))
     (andthen (on_db (setSchedulerRunningStatus fqdn p True)) (on_db relaunchRunningListItems))"

text \<open>
  The steps: clients (who add only tasks that are new), time, the operations of the server and
  whole passes of its loop, a new server process, and workers.
\<close>

inductive sys_step :: "server \<Rightarrow> server \<Rightarrow> bool" where
  cl_add: "ids (db s) a = None \<Longrightarrow> a \<notin> set (spool_adds (taskSpool (db s))) \<Longrightarrow>
      sys_step s (snd (on_db (client_enqueue a) s))"
| cl_del: "sys_step s (snd (on_db (client_dequeue a) s))"
| cl_move: "sys_step s (snd (on_db (client_moveTask a d) s))"
| cl_restart: "sys_step s (snd (on_db (client_startFailedTask a) s))"
| cl_shutdown: "sys_step s (snd (on_db (client_shutdown m) s))"
| cl_clear: "sys_step s (snd (on_db clearSpool s))"
| time_passes: "clock (db s) \<le> now \<Longrightarrow> sys_step s (s\<lparr>db := (db s)\<lparr>clock := now\<rparr>\<rparr>)"
| srv_item: "taskSpool (db s) = i # sp \<Longrightarrow>
      sys_step s (s\<lparr>db := snd (do_spool_item i ((db s)\<lparr>taskSpool := sp\<rparr>))\<rparr>)"
| srv_finished: "sys_step s (snd (checkFinishedTasks s))"
| srv_cycle: "(t, a) \<in> waiting (db s) \<Longrightarrow> sys_step s (snd (taskCycle t a s))"
| srv_awol: "sys_step s (snd (on_db (check_awol_one a) s))"
| srv_pass: "sys_step s (snd (server_pass awol s))"
| srv_restart: "sys_step s (snd (server_restart fqdn p s))"
| wk_prepare: "worker_of s a = Some w \<Longrightarrow> w_alive w \<Longrightarrow> \<not> w_prepared w \<Longrightarrow> sys_step s (snd (worker_prepare a w s))"
| wk_suicide: "worker_of s a = Some w \<Longrightarrow> w_alive w \<Longrightarrow> w_prepared w \<Longrightarrow>
      sys_step s (snd (on_db (upd_task a (suicide (clock (db s)))) s))"
| wk_end: "worker_of s a = Some w \<Longrightarrow> w_alive w \<Longrightarrow> sys_step s (snd (worker_end a w outcome s))"

inductive_cases sys_stepE: "sys_step s s'"

lemma restart_run:
  assumes inv: "srv_inv s"
  shows "srv_inv (snd (server_restart fqdn p s)) \<and> fst (server_restart fqdn p s) = Inr ()
    \<and> runningList (db (snd (server_restart fqdn p s))) = skipped (runningList (db s))"
proof -
  let ?d = "snd (setSchedulerRunningStatus fqdn p True (db s))"
  have frame: "sched_inv ?d \<longleftrightarrow> sched_inv (db s)" "spool_ok ?d \<longleftrightarrow> spool_ok (db s)" "since_ok ?d \<longleftrightarrow> since_ok (db s)"
    "runningList ?d = runningList (db s)"
    by (simp_all add: setSchedulerRunningStatus_def sched_inv_def ids_ok_def containers_ok_def places_ok_def
        spool_ok_def since_ok_def waiting_def failed_objs_def finished_objs_def)
  have "idle_inv ?d"
    using inv frame by (simp add: idle_inv_def srv_inv_def workers_ok_def bt.wf_empty)
  then obtain d' where d': "relaunch_loop (length (runningList ?d)) 0 ?d = (Inr (), d')" "idle_inv d'"
    "runningList d' = skipped (runningList ?d)"
    using relaunch_loop_ok [of ?d "[]" "runningList ?d" 0 "length (runningList ?d)"] by auto
  have run: "fst (setSchedulerRunningStatus fqdn p True (db s)) = Inr ()"
    by (simp add: setSchedulerRunningStatus_def)
  have "relaunchRunningListItems ?d = (Inr (), d')" using d'(1) by (simp add: relaunchRunningListItems_def)
  then have "server_restart fqdn p s = (Inr (), s\<lparr>runningWorkers := [], db := d'\<rparr>)"
    using run by (cases s) (simp add: server_restart_def on_db_run)
  then have "server_restart fqdn p s = (Inr (), \<lparr>db = d', runningWorkers = []\<rparr>)" by simp
  then show ?thesis using d'(2,3) frame(4) by (simp add: idle_inv_def)
qed

lemmas restart_inv = restart_run [THEN conjunct1]

lemma clock_inv:
  assumes "srv_inv s"
  shows "srv_inv (s\<lparr>db := (db s)\<lparr>clock := now\<rparr>\<rparr>)"
  using assms by (simp add: srv_inv_def sched_inv_def ids_ok_def containers_ok_def places_ok_def spool_ok_def
      since_ok_def workers_ok_def worker_ok_def)

lemma clear_loop_empty: "snd (clear_loop sp i) = []"
  by (induction sp i rule: clear_loop.induct) simp_all

lemma keeps_clear: "keeps srv_inv (on_db clearSpool)"
proof (rule keeps_on_db)
  fix s assume inv: "srv_inv s"
  have "snd (clearSpool (db s)) = (db s)\<lparr>taskSpool := []\<rparr>"
    using clear_loop_empty [of "taskSpool (db s)" 0] by (cases "clear_loop (taskSpool (db s)) 0") (simp add: clearSpool_def)
  then show "srv_inv (s\<lparr>db := snd (clearSpool (db s))\<rparr>)"
    using srv_inv_spool [OF inv, of "[]"] by (simp add: spool_ok_def)
qed

lemma sys_step_inv: "sys_step s s' \<Longrightarrow> srv_inv s \<Longrightarrow> srv_inv s'"
proof (induction rule: sys_step.induct)
  case (cl_add s a) then show ?case by (intro client_enqueue_inv)
next
  case (cl_del s a) then show ?case by (rule keepsD [OF keeps_client_del])
next
  case (cl_move s a d) then show ?case by (rule keepsD [OF keeps_client_move])
next
  case (cl_restart s a) then show ?case by (rule keepsD [OF keeps_client_startFailed])
next
  case (cl_shutdown s m) then show ?case by (rule keepsD [OF keeps_client_shutdown])
next
  case (cl_clear s) then show ?case by (rule keepsD [OF keeps_clear])
next
  case (time_passes s now) then show ?case by (intro clock_inv)
next
  case (srv_item s i sp) then show ?case by (intro spool_item_keeps)
next
  case (srv_finished s) then show ?case by (rule keepsD [OF keeps_finished])
next
  case (srv_cycle t a s) then show ?case using taskCycle_ok by (metis snd_conv)
next
  case (srv_awol s a) then show ?case by (rule keepsD [OF awol_one_keeps])
next
  case (srv_pass s awol) then show ?case by (rule keepsD [OF keeps_server_pass])
next
  case (srv_restart s fqdn p) then show ?case by (intro restart_inv)
next
  case (wk_prepare s a w) then show ?case by (intro worker_prepare_inv)
next
  case (wk_suicide s a w) then show ?case by (intro worker_suicide_inv)
next
  case (wk_end s a w outcome) then show ?case by (intro worker_end_inv)
qed

lemma sys_init_inv:
  assumes "\<And>a. task_id (h a) = None"
  shows "srv_inv \<lparr>db = sched_init h now off, runningWorkers = []\<rparr>"
  using assms by (simp add: srv_inv_def sched_inv_def ids_ok_def containers_ok_def places_ok_def placed_def spool_ok_def
      since_ok_def workers_ok_def sched_init_def bt.wf_empty waiting_def failed_objs_def finished_objs_def)

inductive reachable :: "server \<Rightarrow> bool" where
  init: "(\<And>a. task_id (h a) = None) \<Longrightarrow> reachable \<lparr>db = sched_init h now off, runningWorkers = []\<rparr>"
| step: "reachable s \<Longrightarrow> sys_step s s' \<Longrightarrow> reachable s'"

lemma reachable_inv: "reachable s \<Longrightarrow> srv_inv s"
  by (induction rule: reachable.induct) (auto intro: sys_init_inv sys_step_inv)

end
