(* ===== verification/Sched_Props.thy ===== *)
theory Sched_Props
  imports Sched_System
begin

text \<open>
  What the scheduler does, as statements about its operations and about every reachable state,
  each with a concrete state to which it applies.
\<close>

section \<open>A concrete system\<close>

text \<open>Three new tasks: two that run once, at 5 s and at 6 s, and one that comes back every hour.\<close>

definition hourly :: "dt \<Rightarrow> bool \<Rightarrow> dt option" where
  "hourly d inc = (if inc \<and> d mod 3600000000 = 0 then Some d else Some ((d div 3600000000 + 1) * 3600000000))"

definition sample_heap :: "oid \<Rightarrow> task" where
  "sample_heap a =
     (if a = 0 then one_shot_task ''SampleOneShotTask'' 0 (Some 5000000) None
      else if a = 1 then one_shot_task ''SampleOneShotTask'' 0 (Some 6000000) None
      else periodic_task ''SamplePeriodicTask'' 3600000000 6000 hourly None)"

definition sample :: server where
  "sample = \<lparr>db = sched_init sample_heap 0 0, runningWorkers = []\<rparr>"

lemma sample_heap_new: "task_id (sample_heap a) = None"
  by (simp add: sample_heap_def one_shot_task_def periodic_task_def base_task_def task_reset_def Let_def)

lemma sample_reachable: "reachable sample"
  unfolding sample_def by (rule reachable.init) (rule sample_heap_new)

text \<open>The first task is entered by a client and taken over by the server.\<close>

definition sample1 :: server where
  "sample1 = snd (on_db (client_enqueue 0) sample)"

lemma sample1_reachable: "reachable sample1"
  unfolding sample1_def
  by (rule reachable.step [OF sample_reachable cl_add])
     (simp_all add: sample_def sched_init_def sample_heap_new)

definition sample2 :: server where
  "sample2 = sample1\<lparr>db := snd (do_spool_item (SpAdd 0) ((db sample1)\<lparr>taskSpool := []\<rparr>))\<rparr>"

lemma sample1_spool: "taskSpool (db sample1) = [SpAdd 0]"
  by (simp add: sample1_def on_db_run client_enqueue_def spool_def sample_def sched_init_def)

lemma sample2_reachable: "reachable sample2"
  unfolding sample2_def by (rule reachable.step [OF sample1_reachable srv_item]) (rule sample1_spool)

lemma sample1_db: "db sample1 = (sched_init sample_heap 0 0)\<lparr>taskSpool := [SpAdd 0]\<rparr>"
  by (simp add: sample1_def on_db_run client_enqueue_def spool_def sample_def sched_init_def)

lemma sample_start: "getStartOn (sample_heap 0) = Some 5000000"
  by (simp add: sample_heap_def one_shot_task_def base_task_def task_reset_def getStartOn_def)

lemma sample2_waiting: "waiting (db sample2) = {(5, 0)}"
proof -
  let ?s = "sample1\<lparr>db := (db sample1)\<lparr>taskSpool := []\<rparr>\<rparr>"
  have inv: "srv_inv ?s"
    by (rule srv_inv_spool [OF reachable_inv [OF sample1_reachable]]) (simp add: spool_ok_def)
  have "ids (db ?s) 0 = None" "0 \<notin> set (spool_adds (taskSpool (db ?s)))"
    by (simp_all add: sample1_db sched_init_def sample_heap_new)
  then obtain d' where d': "addTaskToWaitingQueue 0 True (db ?s) = (Inr (), d')"
    "waiting d' = (case getStartOn (heap (db ?s) 0) of None \<Rightarrow> waiting (db ?s)
        | Some t \<Rightarrow> insert (sched_ts (db ?s) t, 0) (waiting (db ?s)))"
    using add_new [OF inv] by metis
  have "waiting d' = {(5, 0)}"
    using d'(2) by (simp add: sample1_db sched_init_def sample_start waiting_def sched_ts_def int_timestamp_def)
  then show ?thesis using d'(1) by (simp add: sample2_def do_spool_item_def)
qed

section \<open>Every task is in one place\<close>

lemma at_most_one:
  "(p \<longrightarrow> \<not> q \<and> \<not> r \<and> \<not> u) \<Longrightarrow> (q \<longrightarrow> \<not> r \<and> \<not> u) \<Longrightarrow> (r \<longrightarrow> \<not> u) \<Longrightarrow>
     length (filter (\<lambda>b. b) [p, q, r, u]) \<le> 1"
  by auto

lemma one_place_facts:
  assumes "reachable s"
  shows "length (filter (\<lambda>b. b) [a \<in> snd ` waiting (db s), a \<in> set (runningList (db s)),
      OTask a \<in> failed_objs (db s), OTask a \<in> finished_objs (db s)]) \<le> 1"
    and "(t, a) \<in> waiting (db s) \<Longrightarrow> (t', a) \<in> waiting (db s) \<Longrightarrow> t = t'"
    and "a \<in> snd ` waiting (db s) \<Longrightarrow> task_status (heap (db s) a) = TASK_STATUS_QUEUED"
    and "distinct (runningList (db s))"
    and "st_waiting (getStatus (db s)) = int (card (waiting (db s)))"
proof -
  have i: "sched_inv (db s)" using srv_invD(1) [OF reachable_inv [OF assms]] .
  show "length (filter (\<lambda>b. b) [a \<in> snd ` waiting (db s), a \<in> set (runningList (db s)),
      OTask a \<in> failed_objs (db s), OTask a \<in> finished_objs (db s)]) \<le> 1"
    using waiting_places [OF i, of a] running_places [OF i, of a] failed_places [OF i, of a]
    by (intro at_most_one) blast+
  show "t = t'" if "(t, a) \<in> waiting (db s)" "(t', a) \<in> waiting (db s)"
    using waiting_time [OF i that] .
  show "task_status (heap (db s) a) = TASK_STATUS_QUEUED" if "a \<in> snd ` waiting (db s)"
    using waiting_places [OF i that] by simp
  show "distinct (runningList (db s))" by (rule running_distinct [OF i])
  show "st_waiting (getStatus (db s)) = int (card (waiting (db s)))"
    using tasks.wq.size_items [of "ids (db s)" "waitingQueue (db s)"] sched_invD(2) [OF i]
    by (simp add: getStatus_def containers_ok_def waiting_def)
qed

text \<open>C2.  In every reachable state, whatever clients, workers and the server did: no task is in two
  of the waiting queue, the running list, the failed and the finished index; a task waits at one
  time only, with status \<open>QUEUED\<close>, and is in the running list once; and the status the scheduler
  shows counts the queue correctly.\<close>

theorem one_place:
  assumes "reachable s"
  shows "(length (filter (\<lambda>b. b) [a \<in> snd ` waiting (db s), a \<in> set (runningList (db s)),
      OTask a \<in> failed_objs (db s), OTask a \<in> finished_objs (db s)]) \<le> 1)
    \<and> ((t, a) \<in> waiting (db s) \<longrightarrow> (t', a) \<in> waiting (db s) \<longrightarrow> t = t')
    \<and> (a \<in> snd ` waiting (db s) \<longrightarrow> task_status (heap (db s) a) = TASK_STATUS_QUEUED)
    \<and> (distinct (runningList (db s)))
    \<and> (st_waiting (getStatus (db s)) = int (card (waiting (db s))))"
  using one_place_facts [OF assms] by blast

theorem one_place_witness:
  "task_status (heap (db sample2) 0) = TASK_STATUS_QUEUED \<and> st_waiting (getStatus (db sample2)) = 1"
  using one_place [THEN conjunct2, THEN conjunct2, THEN conjunct1, OF sample2_reachable, of 0] one_place [THEN conjunct2, THEN conjunct2, THEN conjunct2, THEN conjunct2, OF sample2_reachable]
  by (simp add: sample2_waiting)

lemma serial_ids_facts:
  assumes "reachable s"
  shows "fst (getTaskById n (db s)) = Inr a \<longleftrightarrow> task_id (heap (db s) a) = Some n"
    and "fst (getTaskById n (db s)) = Inl KeyError \<longleftrightarrow> taskCounter (db s) \<le> n"
proof -
  have ok: "ids_ok (db s)" using sched_invD(1) [OF srv_invD(1) [OF reachable_inv [OF assms]]] .
  have g: "bt_get n (taskIdx (db s)) = Some a \<longleftrightarrow> ids (db s) a = Some n"
    "n < taskCounter (db s) \<longleftrightarrow> bt_get n (taskIdx (db s)) \<noteq> None"
    using ok by (auto simp: ids_ok_def)
  show "fst (getTaskById n (db s)) = Inr a \<longleftrightarrow> task_id (heap (db s) a) = Some n"
    using g(1) by (cases "bt_get n (taskIdx (db s))") (simp_all add: getTaskById_def)
  show "fst (getTaskById n (db s)) = Inl KeyError \<longleftrightarrow> taskCounter (db s) \<le> n"
    using g(2) by (cases "bt_get n (taskIdx (db s))") (auto simp: getTaskById_def not_less)
qed

text \<open>In every reachable state the ids are the serial numbers below the counter: the task index
  answers with a task exactly for those, and with the task that has that id.\<close>

theorem serial_ids:
  assumes "reachable s"
  shows "(fst (getTaskById n (db s)) = Inr a \<longleftrightarrow> task_id (heap (db s) a) = Some n)
    \<and> (fst (getTaskById n (db s)) = Inl KeyError \<longleftrightarrow> taskCounter (db s) \<le> n)"
  using serial_ids_facts [OF assms] by blast

theorem serial_ids_witness: "fst (getTaskById 0 (db sample1)) = Inl KeyError"
  using serial_ids [THEN conjunct2, OF sample1_reachable, of 0]
  by (simp add: sample1_def on_db_run client_enqueue_def spool_def sample_def sched_init_def)

section \<open>Tasks start when they are due\<close>

lemma pass_hands_out_due_facts:
  assumes "reachable s" and run: "iterate_pass awol s = (Inr (Some (t, a)), s')"
  shows "(t, a) \<in> waiting (db s')" and "t \<le> sched_ts (db s) (clock (db s))"
    and "(u, b) \<in> waiting (db s') \<Longrightarrow> t \<le> u"
proof -
  have ok: "srv_inv s'" "(t, a) \<in> waiting (db s')" "t \<le> sched_ts (db s) (clock (db s))"
    using iterate_pass_ok [OF reachable_inv [OF assms(1)] run] by auto
  show "(t, a) \<in> waiting (db s')" "t \<le> sched_ts (db s) (clock (db s))" using ok by auto
  have wf: "wq_wf (task_cmp (ids (db s'))) {a. id_unique (ids (db s')) a} (waitingQueue (db s'))"
    using sched_invD(2) [OF srv_invD(1) [OF ok(1)]] by (simp add: containers_ok_def)
  have pk: "fst (peek (waitingQueue (db s'))) = Inr (Some (t, a))"
    using iterate_pass_peek [OF reachable_inv [OF assms(1)] run] .
  show "t \<le> u" if "(u, b) \<in> waiting (db s')"
  proof (cases "container (waitingQueue (db s'))")
    case Nil
    then show ?thesis using pk wf by (simp add: peek_run)
  next
    case (Cons p c)
    then show ?thesis
      using pk wf that peek_run [OF wf]
      by (cases p) (auto simp: waiting_def wq_items_def wq_iter_def wq_wf_def bt_wf_def split: if_splits)
  qed
qed

text \<open>C31.  A pass that hands out a task hands out one that waits, whose time has come, and that no
  other waiting task precedes.\<close>

theorem pass_hands_out_due:
  assumes "reachable s" and run: "iterate_pass awol s = (Inr (Some (t, a)), s')"
  shows "((t, a) \<in> waiting (db s'))
    \<and> (t \<le> sched_ts (db s) (clock (db s)))
    \<and> ((u, b) \<in> waiting (db s') \<longrightarrow> t \<le> u)"
  using pass_hands_out_due_facts [OF assms] by blast

definition sample3 :: server where
  "sample3 = sample2\<lparr>db := (db sample2)\<lparr>clock := 7000000\<rparr>\<rparr>"

lemma sample3_reachable: "reachable sample3"
  unfolding sample3_def
  by (rule reachable.step [OF sample2_reachable time_passes])
     (simp add: sample2_def do_spool_item_def sample1_db, code_simp)

lemma sample3_pass: "fst (iterate_pass False sample3) = Inr (Some (5, 0))"
  by code_simp

theorem pass_hands_out_due_witness: "(5, 0) \<in> waiting (db (snd (iterate_pass False sample3)))"
  by (rule pass_hands_out_due [THEN conjunct1, OF sample3_reachable, of False _ _ "snd (iterate_pass False sample3)"])
     (simp add: prod_eq_iff sample3_pass)

text \<open>Starting a task that waits takes it out of the queue, puts it at the end of the running
  list with the current time, and starts a worker for its id that is told how late it is.\<close>

theorem task_started:
  assumes "reachable s" "(t, a) \<in> waiting (db s)"
  shows "\<exists>s' n. taskCycle t a s = (Inr (), s') \<and> task_id (heap (db s) a) = Some n
    \<and> waiting (db s') = waiting (db s) - {(t, a)} \<and> runningList (db s') = runningList (db s) @ [a]
    \<and> onRunningListSince (heap (db s') a) = Some (clock (db s))
    \<and> bt_get n (runningWorkers s') = Some \<lparr>w_delay = sched_ts (db s) (clock (db s)) - t,
         w_prepared = False, w_alive = True, w_result = 0\<rparr>"
  using taskCycle_ok [OF reachable_inv [OF assms(1)] assms(2)] by metis

theorem task_started_witness: "\<exists>s'. taskCycle 5 0 sample3 = (Inr (), s') \<and> runningList (db s') = [0]"
proof -
  have "runningList (db sample3) = []" by code_simp
  moreover have "(5, 0) \<in> waiting (db sample3)" by (simp add: sample3_def sample2_waiting)
  ultimately show ?thesis using task_started [OF sample3_reachable, of 5 0] by auto
qed

definition sample4 :: server where
  "sample4 = snd (taskCycle 5 0 sample3)"

lemma sample4_reachable: "reachable sample4"
  unfolding sample4_def
  by (rule reachable.step [OF sample3_reachable srv_cycle]) (simp add: sample3_def sample2_waiting)

text \<open>A one-shot task whose worker is done enters the index of its outcome, finished or failed,
  gets that status and leaves the running list; no other place changes.\<close>

theorem one_shot_recorded:
  assumes "reachable s" "worker_of s a = Some w" "kind (heap (db s) a) = OneShotTask x"
    and "task_status (heap (db s) a) \<noteq> TASK_STATUS_TERMINATED"
    and "status \<in> {TASK_STATUS_FINISHED, TASK_STATUS_FAILED}"
  shows "\<exists>d'. db_notifyTaskStatus a status (db s) = (Inr (), d') \<and> task_status (heap d' a) = status
    \<and> runningList d' = remove1 a (runningList (db s)) \<and> waiting d' = waiting (db s)
    \<and> finished_objs d' = finished_objs (db s) \<union> (if status = TASK_STATUS_FINISHED then {OTask a} else {})
    \<and> failed_objs d' = failed_objs (db s) \<union> (if status = TASK_STATUS_FAILED then {OTask a} else {})"
proof -
  note inv = reachable_inv [OF assms(1)]
  have id: "ids (db s) a \<noteq> None" using assms(2) by (auto simp: worker_of_def split: option.splits)
  obtain d' where "db_notifyTaskStatus a status (db s) = (Inr (), d')" "task_status (heap d' a) = status"
    "runningList d' = remove1 a (runningList (db s))" "waiting d' = waiting (db s)"
    "finished_objs d' = (if status = TASK_STATUS_FINISHED then insert (OTask a) (finished_objs (db s)) else finished_objs (db s))"
    "failed_objs d' = (if status = TASK_STATUS_FAILED then insert (OTask a) (failed_objs (db s)) else failed_objs (db s))"
    using notify_one_shot [OF srv_invD(1) [OF inv] id worker_of_ok [OF inv assms(2)] assms(4,3,5)] by metis
  then show ?thesis by auto
qed

lemma sample4_worker: "worker_of sample4 0 = Some \<lparr>w_delay = 2, w_prepared = False, w_alive = True, w_result = 0\<rparr>"
  by code_simp

lemma sample4_task:
  "task_status (heap (db sample4) 0) = TASK_STATUS_QUEUED"
  by code_simp

lemma sample4_kind: "kind (heap (db sample4) 0) = OneShotTask (Some 5000000)"
proof -
  have "getStartOn (heap (db sample4) 0) = Some 5000000" "is_periodic (heap (db sample4) 0) = False"
    by code_simp+
  then show ?thesis by (simp add: getStartOn_def is_periodic_def split: task_kind.splits)
qed

theorem one_shot_recorded_witness:
  "\<exists>d'. db_notifyTaskStatus 0 TASK_STATUS_FINISHED (db sample4) = (Inr (), d') \<and> OTask 0 \<in> finished_objs d'"
  using one_shot_recorded [OF sample4_reachable sample4_worker sample4_kind, of TASK_STATUS_FINISHED] sample4_task
  by auto

text \<open>C19.  A periodic task whose worker is done, and that should come back, leaves an occurrence with
  the next occurrence number in the index of its outcome and waits again, for the first date of its
  rule after both its last date and the current time; when the rule has no such date it is in no
  place any more.\<close>

theorem periodic_comes_back:
  assumes "reachable s" "worker_of s a = Some w" "kind (heap (db s) a) = PeriodicTask p" "p_repeat p"
    and "task_status (heap (db s) a) \<noteq> TASK_STATUS_TERMINATED"
    and "status \<in> {TASK_STATUS_FINISHED, TASK_STATUS_FAILED}"
  shows "\<exists>d'. db_notifyTaskStatus a status (db s) = (Inr (), d')
    \<and> runningList d' = remove1 a (runningList (db s))
    \<and> waiting d' = waiting (db s) \<union> (case nextOccurrence p of None \<Rightarrow> {}
        | Some n \<Rightarrow> (case p_rule p (max n (clock (db s))) False of None \<Rightarrow> {}
            | Some t \<Rightarrow> {(sched_ts (db s) t, a)}))
    \<and> finished_objs d' = finished_objs (db s) \<union> (if status = TASK_STATUS_FINISHED then {OOcc a (occurrenceCount p)} else {})
    \<and> failed_objs d' = failed_objs (db s) \<union> (if status = TASK_STATUS_FAILED then {OOcc a (occurrenceCount p)} else {})"
proof -
  note inv = reachable_inv [OF assms(1)]
  have id: "ids (db s) a \<noteq> None" using assms(2) by (auto simp: worker_of_def split: option.splits)
  obtain d' where d': "db_notifyTaskStatus a status (db s) = (Inr (), d')"
    "runningList d' = remove1 a (runningList (db s))"
    "waiting d' = (case next_run (db s) p of None \<Rightarrow> waiting (db s) | Some t \<Rightarrow> insert (sched_ts (db s) t, a) (waiting (db s)))"
    "finished_objs d' = (if status = TASK_STATUS_FINISHED
        then insert (OOcc a (occurrenceCount p)) (finished_objs (db s)) else finished_objs (db s))"
    "failed_objs d' = (if status = TASK_STATUS_FAILED
        then insert (OOcc a (occurrenceCount p)) (failed_objs (db s)) else failed_objs (db s))"
    by (rule notify_back [OF srv_invD(1) [OF inv] id worker_of_ok [OF inv assms(2)] assms(5,3,4,6)])
       (rule that; assumption)
  have "waiting d' = waiting (db s) \<union> (case nextOccurrence p of None \<Rightarrow> {}
        | Some n \<Rightarrow> (case p_rule p (max n (clock (db s))) False of None \<Rightarrow> {}
            | Some t \<Rightarrow> {(sched_ts (db s) t, a)}))"
    by (cases "nextOccurrence p"; cases "next_run (db s) p") (use d'(3) in \<open>simp_all add: next_run_def\<close>)
  then show ?thesis using d'(1,2,4,5) by (intro exI [of _ d']) simp
qed

text \<open>The same steps with the periodic task, until its worker runs.\<close>

definition hour1 :: server where
  "hour1 = snd (on_db (client_enqueue 2) sample)"

definition hour2 :: server where
  "hour2 = hour1\<lparr>db := snd (do_spool_item (SpAdd 2) ((db hour1)\<lparr>taskSpool := []\<rparr>))\<rparr>"

definition hour3 :: server where
  "hour3 = snd (taskCycle 3600 2 hour2)"

lemma hour2_waiting: "waiting (db hour2) = {(3600, 2)}"
  unfolding waiting_def wq_items_def by code_simp

lemma hour3_reachable: "reachable hour3"
proof -
  have "reachable hour1"
    unfolding hour1_def
    by (rule reachable.step [OF sample_reachable cl_add])
       (simp_all add: sample_def sched_init_def sample_heap_new)
  moreover have "taskSpool (db hour1) = [SpAdd 2]" by code_simp
  ultimately have "reachable hour2" unfolding hour2_def by (rule reachable.step [OF _ srv_item])
  then show ?thesis
    unfolding hour3_def by (rule reachable.step [OF _ srv_cycle]) (simp add: hour2_waiting)
qed

lemma hour3_worker: "worker_of hour3 2 = Some \<lparr>w_delay = - 3600, w_prepared = False, w_alive = True, w_result = 0\<rparr>"
  by code_simp

definition periodic_of :: "task \<Rightarrow> periodic option" where
  "periodic_of t = (case kind t of OneShotTask _ \<Rightarrow> None | PeriodicTask p \<Rightarrow> Some p)"

lemma hour3_kind: "\<exists>p. kind (heap (db hour3) 2) = PeriodicTask p \<and> p_repeat p \<and> nextOccurrence p = Some 3600000000
    \<and> occurrenceCount p = 0 \<and> p_rule p 3600000000 False = Some 7200000000"
proof -
  have "map_option (\<lambda>p. (p_repeat p, nextOccurrence p, occurrenceCount p, p_rule p 3600000000 False))
      (periodic_of (heap (db hour3) 2)) = Some (True, Some 3600000000, 0, Some 7200000000)"
    by code_simp
  then show ?thesis by (auto simp: periodic_of_def split: task_kind.splits)
qed

theorem periodic_comes_back_witness:
  "\<exists>d'. db_notifyTaskStatus 2 TASK_STATUS_FINISHED (db hour3) = (Inr (), d')
     \<and> waiting d' = {(7200, 2)} \<and> OOcc 2 0 \<in> finished_objs d'"
proof -
  obtain p where p: "kind (heap (db hour3) 2) = PeriodicTask p" "p_repeat p" "nextOccurrence p = Some 3600000000"
    "occurrenceCount p = 0" "p_rule p 3600000000 False = Some 7200000000"
    using hour3_kind by blast
  have w: "waiting (db hour3) = {}" unfolding waiting_def wq_items_def by code_simp
  have "clock (db hour3) = 0 \<and> tz_off (db hour3) = 0 \<and> task_status (heap (db hour3) 2) = TASK_STATUS_QUEUED"
    by code_simp
  then show ?thesis
    using periodic_comes_back [OF hour3_reachable hour3_worker p(1,2), of TASK_STATUS_FINISHED] p(3,4,5) w
    by (auto simp: sched_ts_def int_timestamp_def)
qed

text \<open>A periodic task that was told not to come back is not taken out of the running list when
  its worker is done: it stays there with its final status, and once it has been there for longer
  than its threshold every check for absent tasks raises, and so ends the server.\<close>

theorem gone_periodic_stays:
  assumes "reachable s" "worker_of s a = Some w" "kind (heap (db s) a) = PeriodicTask p" "\<not> p_repeat p"
    and "task_status (heap (db s) a) \<noteq> TASK_STATUS_TERMINATED" "a \<in> set (runningList (db s))"
    and "status \<in> {TASK_STATUS_FINISHED, TASK_STATUS_FAILED}"
    and "onRunningListSince (heap (db s) a) = Some since"
  shows "\<exists>d'. db_notifyTaskStatus a status (db s) = (Inr (), d') \<and> a \<in> set (runningList d')
    \<and> task_status (heap d' a) = status
    \<and> (sched_ts (db s) now - sched_ts (db s) since > awol_threshold (heap d' a) \<longrightarrow>
        fst (check_awol_one a (d'\<lparr>clock := now\<rparr>)) = Inl TaskInconsistentStatusException)"
proof -
  note inv = reachable_inv [OF assms(1)]
  obtain d' where d': "db_notifyTaskStatus a status (db s) = (Inr (), d')" "moved a (db s) d'"
    "task_status (heap d' a) = status" "runningList d' = runningList (db s)"
    "onRunningListSince (heap d' a) = onRunningListSince (heap (db s) a)"
    using notify_not_back [OF srv_invD(1) [OF inv] worker_of_ok [OF inv assms(2)] assms(5,3,4,7)] by metis
  have "tz_off d' = tz_off (db s)" using d'(2) by (simp add: moved_def touches_def)
  then have "sched_ts (d'\<lparr>clock := now\<rparr>) = sched_ts (db s)" by (simp add: sched_ts_def fun_eq_iff)
  then show ?thesis
    using d' assms(6,7,8)
    by (intro exI [of _ d']) (auto simp: check_awol_one_def db_moveTask_def moveTask_def assert_run Let_def)
qed

text \<open>The periodic task is deleted after its worker was started and before it has prepared it.\<close>

definition gone1 :: server where
  "gone1 = snd (on_db (client_dequeue 2) hour3)"

definition gone2 :: server where
  "gone2 = gone1\<lparr>db := snd (do_spool_item (SpDel 2) ((db gone1)\<lparr>taskSpool := []\<rparr>))\<rparr>"

lemma gone2_reachable: "reachable gone2"
proof -
  have "reachable gone1" unfolding gone1_def by (rule reachable.step [OF hour3_reachable cl_del])
  moreover have "taskSpool (db gone1) = [SpDel 2]" by code_simp
  ultimately show ?thesis unfolding gone2_def by (rule reachable.step [OF _ srv_item])
qed

theorem gone_periodic_stays_witness:
  "\<exists>d'. db_notifyTaskStatus 2 TASK_STATUS_FINISHED (db gone2) = (Inr (), d') \<and> 2 \<in> set (runningList d')"
proof -
  have w: "worker_of gone2 2 = Some \<lparr>w_delay = - 3600, w_prepared = False, w_alive = True, w_result = 0\<rparr>"
    by code_simp
  have "map_option p_repeat (periodic_of (heap (db gone2) 2)) = Some False" by code_simp
  then obtain p where p: "kind (heap (db gone2) 2) = PeriodicTask p" "\<not> p_repeat p"
    by (auto simp: periodic_of_def split: task_kind.splits)
  have st: "task_status (heap (db gone2) 2) \<noteq> TASK_STATUS_TERMINATED" "2 \<in> set (runningList (db gone2))"
    "onRunningListSince (heap (db gone2) 2) = Some 0" by code_simp+
  show ?thesis
    using gone_periodic_stays [OF gone2_reachable w p st(1,2) _ st(3), of TASK_STATUS_FINISHED 0] by auto
qed

text \<open>An order to delete a task that was started, and that its worker has not yet marked as
  running, ends in a \<open>KeyError\<close>: the task still has the status \<open>QUEUED\<close> but is not in the queue any
  more.  The server passes the exception on.\<close>

theorem delete_started_task:
  assumes "reachable s" "(t, a) \<in> waiting (db s)" "getStartOn (heap (db s) a) \<noteq> None"
  shows "fst (db_deleteTaskFromQueue a (db (snd (taskCycle t a s)))) = Inl KeyError"
proof -
  note inv = reachable_inv [OF assms(1)]
  have i: "sched_inv (db s)" using srv_invD(1) [OF inv] .
  have mem: "a \<in> snd ` waiting (db s)" using assms(2) by force
  obtain s' n where s': "taskCycle t a s = (Inr (), s')" "srv_inv s'"
    "runningList (db s') = runningList (db s) @ [a]"
    using taskCycle_ok [OF inv assms(2)] by metis
  have k: "kind (heap (db s') a) = kind (heap (db s) a)" "task_status (heap (db s') a) = TASK_STATUS_QUEUED"
    using taskCycle_task [OF inv assms(2)] s'(1) waiting_places [OF i mem] by simp_all
  then obtain d where d: "getStartOn (heap (db s') a) = Some d" using assms(3) by (auto simp: getStartOn_def)
  let ?m = "map_periodic dontComeBack (heap (db s') a)"
  let ?d = "if is_periodic (heap (db s') a) then (db s')\<lparr>heap := (heap (db s'))(a := ?m)\<rparr> else db s'"
  have i': "sched_inv ?d"
    using inv_update_task [OF srv_invD(1) [OF s'(2)], of ?m a] k(2) srv_invD(1) [OF s'(2)]
    by (simp add: keeps_occs_map dontComeBack_def)
  have "a \<in> set (runningList ?d)" using s'(3) by simp
  then have "a \<notin> snd ` waiting ?d" using running_places [OF i'] by blast
  then have "(u, a) \<notin> waiting ?d" for u by force
  moreover have "getStartOn (heap ?d a) = Some d" "task_status (heap ?d a) = TASK_STATUS_QUEUED"
    using d k(2) by (auto simp: getStartOn_def map_periodic_def dontComeBack_def split: task_kind.split)
  ultimately have "fst (moveTask a TASK_STATUS_QUEUED TASK_STATUS_NONE None False ?d) = Inl KeyError"
    using queue_deq(2) [OF sched_invD(1,2) [OF i']] by (simp add: moveTask_def assert_run move_out_def)
  then show ?thesis
    using s'(1) k(2) by (simp add: db_deleteTaskFromQueue_def upd_task_run split: if_splits)
qed

theorem delete_started_task_witness: "fst (db_deleteTaskFromQueue 0 (db (snd (taskCycle 5 0 sample3)))) = Inl KeyError"
proof -
  have "getStartOn (heap (db sample3) 0) = Some 5000000" by code_simp
  then show ?thesis
    by (intro delete_started_task [OF sample3_reachable]) (simp_all add: sample3_def sample2_waiting)
qed

section \<open>Startup\<close>

lemma relaunch_skips_facts:
  assumes "reachable s"
  shows "runningList (db (snd (server_restart fqdn p s))) = skipped (runningList (db s))"
    and "fst (server_restart fqdn p s) = Inr ()"
  using restart_run [OF reachable_inv [OF assms], of fqdn p] by auto

text \<open>A new server process that finds tasks in the running list relaunches the first, the third
  and so on, and leaves every second one in the list: the loop iterates over the list it shortens.\<close>

theorem relaunch_skips:
  assumes "reachable s"
  shows "(runningList (db (snd (server_restart fqdn p s))) = skipped (runningList (db s)))
    \<and> (fst (server_restart fqdn p s) = Inr ())"
  using relaunch_skips_facts [OF assms] by blast

text \<open>Two tasks are started, and then the process is replaced.\<close>

definition two1 :: server where
  "two1 = snd (on_db (client_enqueue 2) sample4)"

definition two2 :: server where
  "two2 = two1\<lparr>db := snd (do_spool_item (SpAdd 2) ((db two1)\<lparr>taskSpool := []\<rparr>))\<rparr>"

definition two3 :: server where
  "two3 = snd (taskCycle 3600 2 two2)"

lemma two3_reachable: "reachable two3"
proof -
  have "ids (db sample4) 2 = None" "2 \<notin> set (spool_adds (taskSpool (db sample4)))" by code_simp+
  then have "reachable two1" unfolding two1_def by (intro reachable.step [OF sample4_reachable cl_add])
  moreover have "taskSpool (db two1) = [SpAdd 2]" by code_simp
  ultimately have "reachable two2" unfolding two2_def by (rule reachable.step [OF _ srv_item])
  moreover have "waiting (db two2) = {(3600, 2)}" unfolding waiting_def wq_items_def by code_simp
  ultimately show ?thesis unfolding two3_def by (intro reachable.step [OF _ srv_cycle]) simp_all
qed

theorem relaunch_skips_witness:
  "runningList (db two3) = [0, 2] \<and> runningList (db (snd (server_restart ''host'' 1 two3))) = [2]"
proof -
  have "runningList (db two3) = [0, 2]" by code_simp
  then show ?thesis using relaunch_skips [THEN conjunct1, OF two3_reachable] by simp
qed

section \<open>Changing dates\<close>

text \<open>
  The changes a client makes reach the server later, one instruction each, with the date the task
  had before; only the first of them finds the task in the queue.
\<close>

fun change_items :: "(dt \<Rightarrow> int) \<Rightarrow> oid \<Rightarrow> dt \<Rightarrow> dt list \<Rightarrow> spool_item list" where
  "change_items ts a old [] = []"
| "change_items ts a old (x # xs) = SpChange (ts old) a # change_items ts a x xs"

definition dated :: "oid \<Rightarrow> dt \<Rightarrow> sched \<Rightarrow> sched" where
  "dated a x d = d\<lparr>heap := (heap d)(a := (heap d a)\<lparr>kind := OneShotTask (Some x)\<rparr>)\<rparr>"

lemma client_moves_run:
  "kind (heap d a) = OneShotTask (Some old) \<Longrightarrow>
     for_each xs (\<lambda>x. bnd (client_moveTask a x) (\<lambda>_. ret ())) d
       = (Inr (), (dated a (last (old # xs)) d)\<lparr>taskSpool := taskSpool d @ change_items (sched_ts d) a old xs\<rparr>)"
proof (induction xs arbitrary: d old)
  case Nil
  have "(heap d)(a := (heap d a)\<lparr>kind := OneShotTask (Some old)\<rparr>) = heap d"
    using Nil by (intro ext) simp
  then show ?case by (simp add: dated_def)
next
  case (Cons x xs)
  let ?d = "(dated a x d)\<lparr>taskSpool := taskSpool d @ [SpChange (sched_ts d old) a]\<rparr>"
  have run: "client_moveTask a x d = (Inr True, ?d)"
    using Cons.prems by (simp add: client_moveTask_def getStartOn_def setStartOn_def upd_task_run spool_def dated_def)
  have k: "kind (heap ?d a) = OneShotTask (Some x)" by (simp add: dated_def)
  have ts: "sched_ts ?d = sched_ts d" by (simp add: sched_ts_def dated_def fun_eq_iff)
  show ?case
    using Cons.IH [OF k] run ts by (simp add: dated_def)
qed

lemma change_steps:
  "sched_inv d \<Longrightarrow> kind (heap d a) = OneShotTask (Some new) \<Longrightarrow> (sched_ts d new, a) \<in> waiting d \<Longrightarrow>
     taskSpool d = change_items (sched_ts d) a x xs \<Longrightarrow> length xs < n \<Longrightarrow>
   \<exists>d'. spool_loop n d = (Inr (), d') \<and> waiting d' = waiting d \<and> taskSpool d' = []"
proof (induction xs arbitrary: d x n)
  case Nil
  then show ?case by (cases n) (simp_all add: pop_run)
next
  case (Cons y ys)
  obtain m where n: "n = Suc m" using Cons.prems(5) by (cases n) auto
  let ?d = "d\<lparr>taskSpool := change_items (sched_ts d) a y ys\<rparr>"
  have inv: "sched_inv ?d" using Cons.prems(1) by (simp add: spool_frame)
  have start: "getStartOn (heap ?d a) = Some new" using Cons.prems(2) by (simp add: getStartOn_def)
  have ts: "sched_ts ?d = sched_ts d" by (simp add: sched_ts_def fun_eq_iff)
  have "\<exists>d1. changeTaskStartDate (sched_ts d x) a ?d = (Inr (), d1) \<and> sched_inv d1 \<and> waiting d1 = waiting d
    \<and> heap d1 = heap d \<and> taskSpool d1 = change_items (sched_ts d) a y ys \<and> tz_off d1 = tz_off d"
  proof (cases "(sched_ts d x, a) \<in> waiting ?d")
    case True
    then have eq: "sched_ts d x = sched_ts d new"
      using waiting_time [OF Cons.prems(1), of "sched_ts d x" a "sched_ts d new"] Cons.prems(3) by simp
    obtain d1 where d1: "changeTaskStartDate (sched_ts d x) a ?d = (Inr (), d1)" "moved a ?d d1"
      "waiting d1 = insert (sched_ts ?d new, a) (waiting ?d - {(sched_ts d x, a)})" "heap d1 = heap ?d"
      using requeue [OF inv True start] by metis
    have "waiting d1 = waiting d" using d1(3) eq Cons.prems(3) ts by auto
    then show ?thesis using d1 by (intro exI [of _ d1]) (simp add: moved_def touches_def)
  next
    case False
    then show ?thesis using change_absent [OF inv False start] inv by auto
  qed
  then obtain d1 where d1: "changeTaskStartDate (sched_ts d x) a ?d = (Inr (), d1)" "sched_inv d1"
    "waiting d1 = waiting d" "heap d1 = heap d" "taskSpool d1 = change_items (sched_ts d) a y ys" "tz_off d1 = tz_off d"
    by blast
  have ts1: "sched_ts d1 = sched_ts d" using d1(6) by (simp add: sched_ts_def fun_eq_iff)
  obtain d' where "spool_loop m d1 = (Inr (), d')" "waiting d' = waiting d1" "taskSpool d' = []"
    using Cons.IH [OF d1(2), of y m] d1 Cons.prems ts1 n by auto
  then show ?case
    using n d1 Cons.prems(4) by (simp add: pop_run do_spool_item_def)
qed

lemma spool_step:
  "taskSpool d = i # sp \<Longrightarrow> do_spool_item i (d\<lparr>taskSpool := sp\<rparr>) = (Inr (), d') \<Longrightarrow> spool_loop (Suc n) d = spool_loop n d'"
  by (simp add: pop_run)

text \<open>C24.  However often a client changes the date of a waiting task before the server looks at the
  spool, the task then waits exactly at its last date, and the spool is empty.\<close>

theorem last_date_wins:
  assumes "reachable s" "kind (heap (db s) a) = OneShotTask (Some old)" "(sched_ts (db s) old, a) \<in> waiting (db s)"
    and "taskSpool (db s) = []" "dates \<noteq> []"
  shows "\<exists>d'. andthen (for_each dates (\<lambda>x. bnd (client_moveTask a x) (\<lambda>_. ret ()))) processSpool (db s) = (Inr (), d')
    \<and> waiting d' = insert (sched_ts (db s) (last dates), a) (waiting (db s) - {(sched_ts (db s) old, a)})
    \<and> taskSpool d' = []"
proof -
  let ?d = "db s"
  have inv: "sched_inv ?d" using srv_invD(1) [OF reachable_inv [OF assms(1)]] .
  obtain x xs where dates: "dates = x # xs" using assms(5) by (cases dates) auto
  let ?l = "last dates"
  let ?e = "dated a ?l ?d" let ?f = "?e\<lparr>taskSpool := change_items (sched_ts ?d) a x xs\<rparr>"
  have run: "for_each dates (\<lambda>x. bnd (client_moveTask a x) (\<lambda>_. ret ())) ?d
      = (Inr (), ?e\<lparr>taskSpool := change_items (sched_ts ?d) a old dates\<rparr>)"
    using client_moves_run [OF assms(2), of dates] assms(4,5) by simp
  have "sched_inv ?e"
    unfolding dated_def using waiting_places [OF inv, of a] assms(2)
    by (intro inv_update_task [OF inv]) (simp_all add: keeps_occs_def)
  then have inv1: "sched_inv ?f" by (simp add: spool_frame)
  have ts: "sched_ts ?f = sched_ts ?d" by (simp add: sched_ts_def dated_def fun_eq_iff)
  have w1: "waiting ?f = waiting ?d" by (simp add: dated_def)
  have k1: "kind (heap ?f a) = OneShotTask (Some ?l)" by (simp add: dated_def)
  obtain d2 where d2: "changeTaskStartDate (sched_ts ?d old) a ?f = (Inr (), d2)" "moved a ?f d2"
    "waiting d2 = insert (sched_ts ?f ?l, a) (waiting ?f - {(sched_ts ?d old, a)})" "heap d2 = heap ?f"
    using requeue [OF inv1, of "sched_ts ?d old" a ?l] assms(3) w1 k1 by (metis getStartOn_def task_kind.simps(5))
  have f2: "sched_inv d2" "taskSpool d2 = change_items (sched_ts ?d) a x xs" "sched_ts d2 = sched_ts ?d"
    using d2(2) ts by (auto simp: moved_def touches_def sched_ts_def fun_eq_iff)
  obtain d' where d': "spool_loop (Suc (length xs)) d2 = (Inr (), d')" "waiting d' = waiting d2" "taskSpool d' = []"
    using change_steps [OF f2(1), of a ?l x xs "Suc (length xs)"] d2(3,4) k1 f2 ts by auto
  have len: "length (change_items (sched_ts ?d) a y ys) = length ys" for y ys
    by (induction ys arbitrary: y) simp_all
  have sp: "taskSpool (?e\<lparr>taskSpool := change_items (sched_ts ?d) a old dates\<rparr>)
      = SpChange (sched_ts ?d old) a # change_items (sched_ts ?d) a x xs" using dates by simp
  have "do_spool_item (SpChange (sched_ts ?d old) a) ?f = (Inr (), d2)" using d2(1) by (simp add: do_spool_item_def)
  then have "spool_loop (Suc (Suc (length xs))) (?e\<lparr>taskSpool := change_items (sched_ts ?d) a old dates\<rparr>) = (Inr (), d')"
    using spool_step [OF sp] d'(1) by (simp del: spool_loop.simps)
  then have "processSpool (?e\<lparr>taskSpool := change_items (sched_ts ?d) a old dates\<rparr>) = (Inr (), d')"
    unfolding processSpool_def using sp len by (simp del: spool_loop.simps)
  then show ?thesis using run d' d2(3) ts w1 by simp
qed

theorem last_date_wins_witness:
  "\<exists>d'. andthen (for_each [8000000, 9000000] (\<lambda>x. bnd (client_moveTask 0 x) (\<lambda>_. ret ()))) processSpool (db sample3)
     = (Inr (), d') \<and> waiting d' = {(9, 0)}"
proof -
  have "getStartOn (heap (db sample3) 0) = Some 5000000" "is_periodic (heap (db sample3) 0) = False" by code_simp+
  then have k: "kind (heap (db sample3) 0) = OneShotTask (Some 5000000)"
    by (simp add: getStartOn_def is_periodic_def split: task_kind.splits)
  have w: "waiting (db sample3) = {(5, 0)}" by (simp add: sample3_def sample2_waiting)
  have "tz_off (db sample3) = 0" "taskSpool (db sample3) = []" by code_simp+
  then show ?thesis
    using last_date_wins [OF sample3_reachable k, of "[8000000, 9000000]"] w
    by (auto simp: sched_ts_def int_timestamp_def)
qed

end
