(* ===== verification/Sched_Worker.thy ===== *)
theory Sched_Worker
  imports Tasks
begin

text \<open>
  What a worker does with its task, \<open>_Worker.run\<close> of \<open>indico/modules/scheduler/slave.py\<close>: it
  prepares the task, tries to run it up to \<open>task_max_tries\<close> times, and sets its result from the
  task's end date.  What one attempt meets (the task's own code, the commit, the connection to the
  database) is an argument.
\<close>

section \<open>A run\<close>

text \<open>
  An attempt runs and commits (the end date is the time it then is), meets a conflict, loses the
  connection, is delayed by the task, or fails with another exception.
\<close>

datatype attempt =
    A_ok dt
  | A_conflict
  | A_disconnected
  | A_delayed int
  | A_error exn

text \<open>\<open>wr_task\<close> is the task as the worker sees it, \<open>wr_db\<close> as it is committed.\<close>

record worker_run =
  wr_task :: task
  wr_db :: task
  wr_i :: nat
  wr_delayed :: bool
  wr_delay :: int
  wr_slept :: int

text \<open>
  The attempts \<open>transaction.attempts\<close> yields are numbered from 0; before another one the worker's
  view is synchronised with the database.  The handler for a lost connection formats a variable
  \<open>seconds\<close> that does not exist, and so leaves the loop with \<open>NameError\<close>.  A delayed attempt is
  committed as it is.
\<close>

fun attempt_loop :: "nat \<Rightarrow> nat \<Rightarrow> (nat \<Rightarrow> attempt) \<Rightarrow> worker_run \<Rightarrow> exn option \<times> worker_run" where
  "attempt_loop 0 i env w = (None, w)"
| "attempt_loop (Suc n) i env w =
     (let w1 = w\<lparr>wr_i := i, wr_task := (if i > 0 then wr_db w else wr_task w)\<rparr> in
      case env i of
        A_ok t \<Rightarrow> (let t' = snd (start None t (wr_task w1)) in (None, w1\<lparr>wr_task := t', wr_db := t'\<rparr>))
      | A_conflict \<Rightarrow> attempt_loop n (i + 1) env (w1\<lparr>wr_task := wr_db w1\<rparr>)
      | A_disconnected \<Rightarrow> (Some NameError, w1\<lparr>wr_task := wr_db w1\<rparr>)
      | A_delayed s \<Rightarrow> (let t' = (wr_task w1)\<lparr>running := False\<rparr> in
          attempt_loop n (i + 1) env (w1\<lparr>wr_task := t', wr_db := t', wr_delayed := True, wr_delay := 0,
            wr_slept := wr_slept w1 + s\<rparr>))
      | A_error e \<Rightarrow> (Some e, w1\<lparr>wr_task := wr_db w1\<rparr>))"

text \<open>
  \<open>run\<close>: the exception it ends with, the result and the task in the database.  \<open>_prepare\<close> looks
  at no result of \<open>prepare\<close>; an exception in it comes before the \<open>try\<close>, and the result stays 0.
  The \<open>finally\<close> clause uses \<open>delayed\<close>, which does not exist, when there were enough attempts.
\<close>

definition worker_exec :: "int \<Rightarrow> dt \<Rightarrow> int \<Rightarrow> nat \<Rightarrow> (nat \<Rightarrow> attempt) \<Rightarrow> task \<Rightarrow> exn option \<times> int \<times> task" where
  "worker_exec off now delay max_tries env t = (case prepare off now t of
       Inl e \<Rightarrow> (Some e, 0, t)
     | Inr (sleeps, go, t1) \<Rightarrow>
         (let w = snd (attempt_loop max_tries 0 env \<lparr>wr_task = t1, wr_db = t1, wr_i = 0,
                     wr_delayed = False, wr_delay = delay, wr_slept = sleeps\<rparr>) in
          if endedOn (wr_task w) \<noteq> None
          then (if wr_i w > 1 + (if wr_delayed w then 1 else 0) then Some NameError else None, 1, wr_db w)
          else (None, 0, wr_db w)))"

section \<open>When a run succeeds\<close>

text \<open>The end date of the first attempt that succeeds, when only retried ones come before it.\<close>

fun first_success :: "nat \<Rightarrow> nat \<Rightarrow> (nat \<Rightarrow> attempt) \<Rightarrow> dt option" where
  "first_success 0 i env = None"
| "first_success (Suc n) i env = (case env i of
       A_ok t \<Rightarrow> Some t
     | A_conflict \<Rightarrow> first_success n (i + 1) env
     | A_delayed _ \<Rightarrow> first_success n (i + 1) env
     | _ \<Rightarrow> None)"

definition retried :: "attempt \<Rightarrow> bool" where
  "retried x \<longleftrightarrow> (case x of A_conflict \<Rightarrow> True | A_delayed _ \<Rightarrow> True | _ \<Rightarrow> False)"

lemma first_success_iff:
  "first_success n i env = Some t \<longleftrightarrow> (\<exists>k<n. env (i + k) = A_ok t \<and> (\<forall>j<k. retried (env (i + j))))"
proof (induction n arbitrary: i)
  case (Suc n)
  have "(\<exists>k<Suc n. env (i + k) = A_ok t \<and> (\<forall>j<k. retried (env (i + j))))
      \<longleftrightarrow> env i = A_ok t \<or> retried (env i) \<and> (\<exists>k<n. env (Suc i + k) = A_ok t \<and> (\<forall>j<k. retried (env (Suc i + j))))"
    (is "?L \<longleftrightarrow> ?R")
  proof
    assume ?L
    then obtain k where k: "k < Suc n" "env (i + k) = A_ok t" "\<forall>j<k. retried (env (i + j))" by blast
    show ?R
    proof (cases k)
      case 0
      then show ?thesis using k by simp
    next
      case (Suc m)
      then have "retried (env i)" "\<forall>j<m. retried (env (Suc i + j))" using k(3) by force+
      then show ?thesis using k Suc by auto
    qed
  next
    assume ?R
    then show ?L
    proof (elim disjE conjE exE)
      fix k assume k: "retried (env i)" "k < n" "env (Suc i + k) = A_ok t" "\<forall>j<k. retried (env (Suc i + j))"
      have "retried (env (i + j))" if "j < Suc k" for j using that k by (cases j) auto
      then show ?L using k by (intro exI [of _ "Suc k"]) auto
    qed (auto intro!: exI [of _ 0])
  qed
  then show ?case using Suc [of "Suc i"] by (cases "env i") (auto simp: retried_def)
qed simp

lemma attempt_loop_ended:
  "endedOn (wr_task w) = None \<Longrightarrow> endedOn (wr_db w) = None \<Longrightarrow>
     endedOn (wr_task (snd (attempt_loop n i env w))) = first_success n i env
     \<and> endedOn (wr_db (snd (attempt_loop n i env w))) = first_success n i env"
proof (induction n arbitrary: i w)
  case (Suc n)
  then show ?case by (cases "env i") (simp_all add: Let_def start_def)
qed simp

lemma attempt_loop_stale:
  "endedOn (wr_task w) \<noteq> None \<Longrightarrow> endedOn (wr_db w) \<noteq> None \<Longrightarrow>
     endedOn (wr_task (snd (attempt_loop n i env w))) \<noteq> None"
proof (induction n arbitrary: i w)
  case (Suc n)
  then show ?case by (cases "env i") (simp_all add: Let_def start_def)
qed simp

lemma prepare_fields: "prepare off now t = Inr (sl, go, t') \<Longrightarrow> endedOn t' = endedOn t"
  by (auto simp: prepare_def Let_def split: option.splits if_splits)

lemma prepare_starts: "getStartOn t \<noteq> None \<Longrightarrow> \<exists>sl go t'. prepare off now t = Inr (sl, go, t')"
  by (auto simp: prepare_def Let_def split: option.splits)

lemma worker_result_facts:
  assumes "getStartOn t \<noteq> None" "endedOn t = None"
  shows "fst (snd (worker_exec off now delay n env t)) =
      (if \<exists>k<n. (\<exists>e. env k = A_ok e) \<and> (\<forall>j<k. retried (env j)) then 1 else 0)"
    and "endedOn (snd (snd (worker_exec off now delay n env t))) = Some e \<longleftrightarrow>
      (\<exists>k<n. env k = A_ok e \<and> (\<forall>j<k. retried (env j)))"
proof -
  obtain sl go t1 where p: "prepare off now t = Inr (sl, go, t1)"
    using prepare_starts [OF assms(1)] by metis
  let ?w = "\<lparr>wr_task = t1, wr_db = t1, wr_i = 0, wr_delayed = False, wr_delay = delay, wr_slept = sl\<rparr>"
  have "endedOn t1 = None" using prepare_fields [OF p] assms(2) by simp
  then have ended: "endedOn (wr_task (snd (attempt_loop n 0 env ?w))) = first_success n 0 env"
    "endedOn (wr_db (snd (attempt_loop n 0 env ?w))) = first_success n 0 env"
    using attempt_loop_ended [of ?w] by simp_all
  show "endedOn (snd (snd (worker_exec off now delay n env t))) = Some e \<longleftrightarrow>
      (\<exists>k<n. env k = A_ok e \<and> (\<forall>j<k. retried (env j)))"
    using ended p first_success_iff [of n 0 env e] by (auto simp: worker_exec_def Let_def)
  show "fst (snd (worker_exec off now delay n env t)) =
      (if \<exists>k<n. (\<exists>e. env k = A_ok e) \<and> (\<forall>j<k. retried (env j)) then 1 else 0)"
    using ended p first_success_iff [of n 0 env] by (fastforce simp: worker_exec_def Let_def)
qed

text \<open>A worker reports success exactly when some attempt succeeds and all attempts before it
  met a conflict or a delay: then its result is 1 and the committed task has the end date of that
  attempt, and otherwise the result is 0 and there is none.  (The task has a start date and no
  end date before the run.)\<close>

theorem worker_result:
  assumes "getStartOn t \<noteq> None" "endedOn t = None"
  shows "(fst (snd (worker_exec off now delay n env t)) =
      (if \<exists>k<n. (\<exists>e. env k = A_ok e) \<and> (\<forall>j<k. retried (env j)) then 1 else 0))
    \<and> (endedOn (snd (snd (worker_exec off now delay n env t))) = Some e \<longleftrightarrow>
      (\<exists>k<n. env k = A_ok e \<and> (\<forall>j<k. retried (env j))))"
  using worker_result_facts [OF assms] by blast

definition sample_task :: task where
  "sample_task = (one_shot_task ''SampleOneShotTask'' 0 (Some 5000000) None)\<lparr>task_id := Some 0\<rparr>"

definition sample_env :: "nat \<Rightarrow> attempt" where
  "sample_env k = (if k = 0 then A_conflict else A_ok 9000000)"

lemma sample_task_ok: "getStartOn sample_task \<noteq> None" "endedOn sample_task = None"
  by (simp_all add: sample_task_def one_shot_task_def base_task_def task_reset_def getStartOn_def)

theorem worker_result_witness:
  "fst (snd (worker_exec 0 7000000 0 5 sample_env sample_task)) = 1
     \<and> endedOn (snd (snd (worker_exec 0 7000000 0 5 sample_env sample_task))) = Some 9000000"
proof -
  have "\<exists>k<5. sample_env k = A_ok 9000000 \<and> (\<forall>j<k. retried (sample_env j))"
    by (intro exI [of _ 1]) (simp add: sample_env_def retried_def)
  moreover from this have "\<exists>k<5. (\<exists>e. sample_env k = A_ok e) \<and> (\<forall>j<k. retried (sample_env j))"
    by blast
  ultimately show ?thesis
    using worker_result [THEN conjunct1, OF sample_task_ok, of 0 7000000 0 5 sample_env]
      worker_result [THEN conjunct2, OF sample_task_ok, of 0 7000000 0 5 sample_env 9000000]
    by simp
qed

lemma expired_task_runs_facts:
  assumes "getStartOn t = Some s" "expiryDate t = Some e" "e < now" "env 0 = A_ok d" "0 < n"
  shows "\<exists>sl. prepare off now t = Inr (sl, False, t)"
    and "fst (snd (worker_exec off now delay n env t)) = 1"
    and "endedOn (snd (snd (worker_exec off now delay n env t))) = Some d"
proof -
  obtain m where n: "n = Suc m" using assms(5) by (cases n) auto
  show "\<exists>sl. prepare off now t = Inr (sl, False, t)"
    using assms by (simp add: prepare_def Let_def)
  show "fst (snd (worker_exec off now delay n env t)) = 1"
    "endedOn (snd (snd (worker_exec off now delay n env t))) = Some d"
    using assms n by (simp_all add: worker_exec_def prepare_def Let_def start_def)
qed

text \<open>\<open>prepare\<close> gives a task up whose expiry date has passed, without marking it as running;
  the worker runs it nevertheless, and reports success when the run succeeds.\<close>

theorem expired_task_runs:
  assumes "getStartOn t = Some s" "expiryDate t = Some e" "e < now" "env 0 = A_ok d" "0 < n"
  shows "(\<exists>sl. prepare off now t = Inr (sl, False, t))
    \<and> (fst (snd (worker_exec off now delay n env t)) = 1)
    \<and> (endedOn (snd (snd (worker_exec off now delay n env t))) = Some d)"
  using expired_task_runs_facts [where t = t and now = now and env = env and n = n] assms by blast

theorem expired_task_runs_witness:
  "fst (snd (worker_exec 0 7000000 0 5 (\<lambda>_. A_ok 8000000) (sample_task\<lparr>expiryDate := Some 6000000\<rparr>))) = 1"
  by (rule expired_task_runs [THEN conjunct2, THEN conjunct1, of _ 5000000 6000000])
     (simp_all add: sample_task_def one_shot_task_def base_task_def task_reset_def getStartOn_def)

text \<open>A task that already has an end date, as one that ended in a session that died before
  recording it and was relaunched, is reported as successful whatever its new run does.\<close>

theorem stale_end_date_succeeds:
  assumes "getStartOn t \<noteq> None" "endedOn t \<noteq> None"
  shows "fst (snd (worker_exec off now delay n env t)) = 1"
proof -
  obtain sl go t1 where p: "prepare off now t = Inr (sl, go, t1)"
    using prepare_starts [OF assms(1)] by metis
  show ?thesis
    using attempt_loop_stale [of "\<lparr>wr_task = t1, wr_db = t1, wr_i = 0, wr_delayed = False, wr_delay = delay, wr_slept = sl\<rparr>"]
      prepare_fields [OF p] assms(2) p
    by (simp add: worker_exec_def Let_def)
qed

theorem stale_end_date_succeeds_witness:
  "fst (snd (worker_exec 0 7000000 0 5 (\<lambda>_. A_error ValueError) (sample_task\<lparr>endedOn := Some 6000000\<rparr>))) = 1"
  by (rule stale_end_date_succeeds)
     (simp_all add: sample_task_def one_shot_task_def base_task_def task_reset_def getStartOn_def)

end
