(* ===== verification/Op_Manager.thy ===== *)
theory Op_Manager
  imports Prelude
begin

text \<open>
  \<open>OperationManager\<close> of \<open>indico/modules/scheduler/base.py\<close>, the decorator around every database
  operation of the server: it calls the operation, commits, and on a conflict synchronises and
  tries again, up to ten times.  The database is what is committed and what this connection sees of
  it; the outcomes of the commits and what other clients commit in between are arguments.
\<close>

record 'd conn =
  stored :: 'd
  work :: 'd

datatype commit_outcome =
    C_ok
  | C_conflict
  | C_error exn

definition conflicterror_max_retries :: nat where
  "conflicterror_max_retries = 10"

text \<open>
  \<open>sync\<close> drops the connection's own changes and shows what is committed.  In round \<open>i\<close>, \<open>others i\<close>
  is what other clients have committed before this connection's commit.
\<close>

fun om_loop :: "('d, 'r) prog \<Rightarrow> (nat \<Rightarrow> commit_outcome) \<Rightarrow> (nat \<Rightarrow> 'd \<Rightarrow> 'd)
    \<Rightarrow> nat \<Rightarrow> nat \<Rightarrow> bool \<Rightarrow> 'r option \<Rightarrow> 'd conn \<Rightarrow> (exn + 'r option) \<times> 'd conn" where
  "om_loop f commits others 0 i sync r c = (Inr r, c)"
| "om_loop f commits others (Suc n) i sync r c =
     (let w = (if sync then stored c else work c) in
      case f w of
        (Inl e, w') \<Rightarrow> (Inl e, c\<lparr>work := w'\<rparr>)
      | (Inr x, w') \<Rightarrow>
          (case commits i of
             C_ok \<Rightarrow> (Inr (Some x), \<lparr>stored = w', work = w'\<rparr>)
           | C_conflict \<Rightarrow> om_loop f commits others n (i + 1) True (Some x)
               \<lparr>stored = others i (stored c), work = w'\<rparr>
           | C_error e \<Rightarrow> (Inl e, c\<lparr>work := w'\<rparr>)))"

definition op_call :: "('d, 'r) prog \<Rightarrow> (nat \<Rightarrow> commit_outcome) \<Rightarrow> (nat \<Rightarrow> 'd \<Rightarrow> 'd) \<Rightarrow> 'd conn
    \<Rightarrow> (exn + 'r option) \<times> 'd conn" where
  "op_call f commits others c = om_loop f commits others conflicterror_max_retries 0 False None c"

text \<open>What the others have committed after the first \<open>k\<close> rounds.\<close>

fun left_by :: "(nat \<Rightarrow> 'd \<Rightarrow> 'd) \<Rightarrow> nat \<Rightarrow> nat \<Rightarrow> 'd \<Rightarrow> 'd" where
  "left_by others i 0 d = d"
| "left_by others i (Suc k) d = left_by others (i + 1) k (others i d)"

lemma om_conflicts:
  "(\<And>d. \<exists>x d'. f d = (Inr x, d')) \<Longrightarrow> \<forall>j<k. commits (i + j) = C_conflict \<Longrightarrow> sync \<or> work c = stored c \<Longrightarrow> k \<le> n \<Longrightarrow> 0 < k \<Longrightarrow>
     \<exists>w x. om_loop f commits others n i sync r c
       = om_loop f commits others (n - k) (i + k) True (Some x) \<lparr>stored = left_by others i k (stored c), work = w\<rparr>
       \<and> (\<exists>d. f d = (Inr x, w))"
proof (induction k arbitrary: n i sync r c)
  case (Suc k)
  obtain m where n: "n = Suc m" using Suc.prems(4) by (cases n) auto
  let ?w = "if sync then stored c else work c"
  obtain x w where f: "f ?w = (Inr x, w)" using Suc.prems(1) by blast
  have ci: "commits i = C_conflict" using Suc.prems(2) by (metis add_0_right zero_less_Suc)
  let ?c = "\<lparr>stored = others i (stored c), work = w\<rparr>"
  have step: "om_loop f commits others n i sync r c = om_loop f commits others m (i + 1) True (Some x) ?c"
    using f ci n by (simp add: Let_def)
  show ?case
  proof (cases "k = 0")
    case True
    then show ?thesis using step f n by auto
  next
    case False
    have "\<forall>j<k. commits (Suc i + j) = C_conflict" using Suc.prems(2) by (metis Suc_mono add_Suc add_Suc_right)
    then obtain v y where v: "om_loop f commits others m (Suc i) True (Some x) ?c
       = om_loop f commits others (m - k) (Suc i + k) True (Some y) \<lparr>stored = left_by others (Suc i) k (stored ?c), work = v\<rparr>"
      "\<exists>d. f d = (Inr y, v)"
      using Suc.IH [of "Suc i" True ?c m "Some x"] Suc.prems(1,4) n False by auto
    then show ?thesis using step n by (intro exI [of _ v] exI [of _ y]) simp
  qed
qed simp

text \<open>C32.  An operation that meets fewer than ten conflicts and then commits takes effect exactly
  once, on the state the other clients left: what is committed is its outcome on that state, and
  the caller gets its result there.\<close>

theorem operation_once:
  assumes "\<And>d. \<exists>x d'. f d = (Inr x, d')" and "k < 10" and "\<forall>j<k. commits j = C_conflict" and "commits k = C_ok"
    and "work c = stored c"
  shows "op_call f commits others c =
    (case f (left_by others 0 k (stored c)) of (r, d') \<Rightarrow>
       (map_sum id Some r, \<lparr>stored = d', work = d'\<rparr>))"
proof (cases "k = 0")
  case True
  obtain x d' where "f (stored c) = (Inr x, d')" using assms(1) by blast
  then show ?thesis
    using True assms(4,5) by (simp add: op_call_def conflicterror_max_retries_def numeral_eq_Suc Let_def)
next
  case False
  obtain w x where w: "op_call f commits others c
      = om_loop f commits others (10 - k) k True (Some x) \<lparr>stored = left_by others 0 k (stored c), work = w\<rparr>"
    using om_conflicts [of f k commits 0 False c 10 others None] assms False
    by (auto simp: op_call_def conflicterror_max_retries_def)
  obtain m where m: "10 - k = Suc m" using assms(2) by (metis Suc_diff_Suc)
  obtain y d' where "f (left_by others 0 k (stored c)) = (Inr y, d')" using assms(1) by blast
  then show ?thesis using w assms(4) by (simp add: m Let_def)
qed

definition count_up :: "(nat, nat) prog" where
  "count_up = bnd get_st (\<lambda>n. andthen (modify Suc) (ret n))"

lemma count_up_run: "count_up n = (Inr n, Suc n)"
  by (simp add: count_up_def)

theorem operation_once_witness:
  "op_call count_up (\<lambda>i. if i < 2 then C_conflict else C_ok) (\<lambda>_ n. n + 10) \<lparr>stored = 5, work = 5\<rparr>
     = (Inr (Some 25), \<lparr>stored = 26, work = 26\<rparr>)"
  using operation_once [of count_up 2 "\<lambda>i. if i < 2 then C_conflict else C_ok" "\<lparr>stored = 5, work = 5\<rparr>" "\<lambda>_ n. n + 10"]
  by (simp add: count_up_run numeral_2_eq_2)

text \<open>After ten conflicts the operation has no effect and no exception says so: only what the
  other clients did is committed, and the caller gets the result of a call that was thrown away.\<close>

theorem operation_lost:
  assumes "\<And>d. \<exists>x d'. f d = (Inr x, d')" and "\<forall>j<10. commits j = C_conflict" and "work c = stored c"
  shows "\<exists>x w. op_call f commits others c = (Inr (Some x), \<lparr>stored = left_by others 0 10 (stored c), work = w\<rparr>)
    \<and> (\<exists>d. f d = (Inr x, w))"
  using om_conflicts [of f 10 commits 0 False c 10 others None] assms
  by (auto simp: op_call_def conflicterror_max_retries_def)

theorem operation_lost_witness:
  "\<exists>x w. op_call count_up (\<lambda>_. C_conflict) (\<lambda>_ n. n) \<lparr>stored = 5, work = 5\<rparr> = (Inr (Some x), \<lparr>stored = left_by (\<lambda>_ n. n) 0 10 5, work = w\<rparr>)
    \<and> (\<exists>d. count_up d = (Inr x, w))"
  using operation_lost [of count_up "\<lambda>_. C_conflict" "\<lparr>stored = 5, work = 5\<rparr>" "\<lambda>_ n. n"]
  by (simp add: count_up_run)

end
