(* ===== verification/Floats.thy ===== *)
theory Floats
  imports Complex_Main "HOL-Library.Log_Nat"
begin

text \<open>
  Python's floats: the binary numbers of 53 significant bits, here as rational numbers, and each
  operation rounds its exact result to the nearest of them, ties to the one with the even last bit.
  Numbers below the normal range lose bits as they do there; overflow, infinities and the sign of
  zero are left out.  Rounding is monotone and exact on the integers up to \<open>2 ^ 53\<close>.
\<close>

section \<open>Rounding\<close>

definition pow2 :: "int \<Rightarrow> rat" where
  "pow2 e = 2 powi e"

text \<open>The \<open>e\<close> with \<open>pow2 e \<le> q < pow2 (e + 1)\<close>.\<close>

definition exponent :: "rat \<Rightarrow> int" where
  "exponent q = (case quotient_of q of (a, b) \<Rightarrow>
     let e = bitlen a - bitlen b in if pow2 e \<le> q then e else e - 1)"

definition round_even :: "rat \<Rightarrow> int" where
  "round_even q = (let f = \<lfloor>q\<rfloor>; d = q - of_int f
     in if d < 1 / 2 then f else if 1 / 2 < d then f + 1 else if even f then f else f + 1)"

text \<open>The weight of the last bit of a float near \<open>q\<close>.\<close>

definition ulp_exp :: "rat \<Rightarrow> int" where
  "ulp_exp q = max (exponent \<bar>q\<bar>) (- 1022) - 52"

definition fl :: "rat \<Rightarrow> rat" where
  "fl q = (if q = 0 then 0 else of_int (round_even (q / pow2 (ulp_exp q))) * pow2 (ulp_exp q))"

definition fl_add :: "rat \<Rightarrow> rat \<Rightarrow> rat" where "fl_add x y = fl (x + y)"

definition fl_mul :: "rat \<Rightarrow> rat \<Rightarrow> rat" where "fl_mul x y = fl (x * y)"

definition fl_div :: "rat \<Rightarrow> rat \<Rightarrow> rat" where "fl_div x y = fl (x / y)"

text \<open>An integer that meets a float becomes one.\<close>

definition fl_int :: "int \<Rightarrow> rat" where "fl_int i = fl (of_int i)"

text \<open>\<open>sum\<close> adds from the left, starting with 0.\<close>

definition fl_sum :: "rat list \<Rightarrow> rat" where
  "fl_sum vs = foldl fl_add 0 vs"

section \<open>Powers of two and the exponent\<close>

lemma pow2_pos [simp]: "0 < pow2 e"
  by (simp add: pow2_def)

lemma pow2_ge_0 [simp]: "0 \<le> pow2 e"
  by (rule less_imp_le) (rule pow2_pos)

lemma pow2_add: "pow2 (a + b) = pow2 a * pow2 b"
  by (simp add: pow2_def power_int_add)

lemma pow2_mono: "a \<le> b \<Longrightarrow> pow2 a \<le> pow2 b"
  by (simp add: pow2_def power_int_increasing)

lemma pow2_nat: "0 \<le> e \<Longrightarrow> pow2 e = of_int (2 ^ nat e)"
  by (simp add: pow2_def power_int_def)

lemma pow2_1: "pow2 (e + 1) = 2 * pow2 e"
  by (simp add: pow2_add) (simp add: pow2_def)

lemma bitlen_range:
  assumes "0 < a"
  shows "pow2 (bitlen a - 1) \<le> of_int a" "of_int a < pow2 (bitlen a)"
proof -
  have l: "1 \<le> bitlen a" using assms bitlen_nonneg [of a] bitlen_eq_zero_iff [of a] by simp
  have b: "2 ^ nat (bitlen a - 1) \<le> a" "a < 2 ^ nat (bitlen a)" using bitlen_bounds [OF assms] by simp_all
  show "pow2 (bitlen a - 1) \<le> of_int a" using l b(1) by (simp only: pow2_nat of_int_le_iff)
  show "of_int a < pow2 (bitlen a)" using l b(2) by (simp only: pow2_nat of_int_less_iff)
qed

lemma exponent_range:
  assumes "0 < q"
  shows "pow2 (exponent q) \<le> q" "q < pow2 (exponent q + 1)"
proof -
  obtain a b where q: "quotient_of q = (a, b)" by fastforce
  have b: "0 < b" by (rule quotient_of_denom_pos [OF q])
  have qab: "q = of_int a / of_int b" by (rule quotient_of_div [OF q])
  have a: "0 < a" using assms b by (simp add: qab zero_less_divide_iff)
  note A = bitlen_range [OF a] and B = bitlen_range [OF b]
  let ?e = "bitlen a - bitlen b"
  have "pow2 (?e - 1) * of_int b \<le> pow2 (?e - 1) * pow2 (bitlen b)" using B(2) by (simp add: less_imp_le)
  also have "\<dots> = pow2 (bitlen a - 1)" by (simp flip: pow2_add add: algebra_simps)
  finally have lo: "pow2 (?e - 1) \<le> q" using A(1) b by (simp add: qab le_divide_eq)
  have "pow2 (bitlen a) = pow2 (?e + 1) * pow2 (bitlen b - 1)" by (simp flip: pow2_add add: algebra_simps)
  also have "\<dots> \<le> pow2 (?e + 1) * of_int b" using B(1) by simp
  finally have hi: "q < pow2 (?e + 1)" using A(2) b by (simp add: qab divide_less_eq)
  show "pow2 (exponent q) \<le> q" "q < pow2 (exponent q + 1)"
    using lo hi by (simp_all add: exponent_def q Let_def)
qed

lemma exponent_mono:
  assumes "0 < p" "p \<le> q"
  shows "exponent p \<le> exponent q"
proof (rule ccontr)
  assume "\<not> ?thesis"
  then have "pow2 (exponent q + 1) \<le> pow2 (exponent p)" by (intro pow2_mono) simp
  with exponent_range(2) [of q] exponent_range(1) [of p] assms show False by simp
qed

lemma exponent_unique: "pow2 e \<le> q \<Longrightarrow> q < pow2 (e + 1) \<Longrightarrow> exponent q = e"
proof -
  assume e: "pow2 e \<le> q" "q < pow2 (e + 1)"
  then have q: "0 < q" using pow2_pos [of e] by linarith
  have "\<not> exponent q + 1 \<le> e"
    using exponent_range(2) [OF q] e(1) pow2_mono [of "exponent q + 1" e] by linarith
  moreover have "\<not> e + 1 \<le> exponent q"
    using exponent_range(1) [OF q] e(2) pow2_mono [of "e + 1" "exponent q"] by linarith
  ultimately show ?thesis by simp
qed

lemma round_even_eq: "\<bar>q - of_int n\<bar> < 1 / 2 \<Longrightarrow> round_even q = n"
proof -
  assume d: "\<bar>q - of_int n\<bar> < 1 / 2"
  show ?thesis
  proof (cases "of_int n \<le> q")
    case True
    then have "\<lfloor>q\<rfloor> = n" using d by (intro floor_unique) simp_all
    then show ?thesis using True d by (simp add: round_even_def)
  next
    case False
    then have "\<lfloor>q\<rfloor> = n - 1" using d by (intro floor_unique) simp_all
    then show ?thesis using False d by (simp add: round_even_def)
  qed
qed

lemma fl_eq:
  assumes "pow2 e \<le> q" "q < pow2 (e + 1)" "- 1022 \<le> e" "\<bar>q / pow2 (e - 52) - of_int n\<bar> < 1 / 2"
  shows "fl q = of_int n * pow2 (e - 52)"
proof -
  have "0 < q" using assms(1) pow2_pos [of e] by linarith
  then have "ulp_exp q = e - 52" using exponent_unique [OF assms(1,2)] assms(3) by (simp add: ulp_exp_def)
  then show ?thesis using \<open>0 < q\<close> round_even_eq [OF assms(4)] by (simp add: fl_def)
qed

section \<open>Rounding keeps the order\<close>

lemma round_even_near: "\<lfloor>q\<rfloor> \<le> round_even q" "round_even q \<le> \<lfloor>q\<rfloor> + 1"
  by (simp_all add: round_even_def Let_def)

lemma round_even_int [simp]: "round_even (of_int n) = n"
  by (simp add: round_even_def)

lemma round_even_mono: "x \<le> y \<Longrightarrow> round_even x \<le> round_even y"
proof (cases "\<lfloor>x\<rfloor> = \<lfloor>y\<rfloor>")
  case True
  assume "x \<le> y"
  with True show ?thesis by (simp add: round_even_def Let_def)
next
  case False
  assume "x \<le> y"
  then have "\<lfloor>x\<rfloor> \<le> \<lfloor>y\<rfloor>" by (rule floor_mono)
  with False show ?thesis using round_even_near [of x] round_even_near [of y] by linarith
qed

lemma round_even_minus: "round_even (- q) = - round_even q"
proof (cases "of_int \<lfloor>q\<rfloor> = q")
  case True
  then obtain n where q: "q = of_int n" by metis
  have "- q = of_int (- n)" by (simp add: q)
  then show ?thesis by (simp only: q round_even_int)
next
  case False
  then have "of_int \<lfloor>q\<rfloor> < q" using of_int_floor_le [of q] unfolding less_le by simp
  then have f: "\<lfloor>- q\<rfloor> = - \<lfloor>q\<rfloor> - 1" using floor_correct [of q] by (intro floor_unique) simp_all
  show ?thesis by (simp add: round_even_def Let_def f)
qed

lemma fl_0 [simp]: "fl 0 = 0"
  by (simp add: fl_def)

lemma fl_minus: "fl (- q) = - fl q"
  by (simp add: fl_def ulp_exp_def round_even_minus)

lemma fl_nonneg: "0 \<le> q \<Longrightarrow> 0 \<le> fl q"
  using round_even_mono [of 0 "q / pow2 (ulp_exp q)"] round_even_int [of 0] by (simp add: fl_def divide_nonneg_pos)

lemma fl_below:
  assumes "0 < q"
  shows "fl q \<le> pow2 (ulp_exp q + 53)"
proof -
  let ?u = "ulp_exp q"
  have "q \<le> pow2 (exponent q + 1)" using exponent_range(2) [OF assms] by simp
  also have "\<dots> \<le> pow2 (?u + 53)" using assms by (intro pow2_mono) (simp add: ulp_exp_def)
  finally have "q / pow2 ?u \<le> of_int (2 ^ 53)" by (simp add: divide_le_eq pow2_add) (simp add: pow2_def mult.commute)
  then have "round_even (q / pow2 ?u) \<le> 2 ^ 53" by (metis round_even_mono round_even_int)
  then have "of_int (round_even (q / pow2 ?u)) \<le> (of_int (2 ^ 53) :: rat)" by (simp only: of_int_le_iff)
  then have "fl q \<le> of_int (2 ^ 53) * pow2 ?u" using assms by (simp add: fl_def)
  then show ?thesis by (simp add: pow2_add) (simp add: pow2_def mult.commute)
qed

lemma fl_above:
  assumes "0 < q" "- 1022 \<le> exponent q"
  shows "pow2 (ulp_exp q + 52) \<le> fl q"
proof -
  let ?u = "ulp_exp q"
  have "pow2 (?u + 52) \<le> q" using exponent_range(1) [OF assms(1)] assms by (simp add: ulp_exp_def)
  then have "of_int (2 ^ 52) \<le> q / pow2 ?u" by (simp add: le_divide_eq pow2_add) (simp add: pow2_def mult.commute)
  then have "2 ^ 52 \<le> round_even (q / pow2 ?u)" by (metis round_even_mono round_even_int)
  then have "(of_int (2 ^ 52) :: rat) \<le> of_int (round_even (q / pow2 ?u))" by (simp only: of_int_le_iff)
  then have "of_int (2 ^ 52) * pow2 ?u \<le> fl q" using assms by (simp add: fl_def)
  then show ?thesis by (simp add: pow2_add) (simp add: pow2_def mult.commute)
qed

lemma fl_mono_pos:
  assumes "0 < p" "p \<le> q"
  shows "fl p \<le> fl q"
proof (cases "ulp_exp p = ulp_exp q")
  case True
  have "p / pow2 (ulp_exp q) \<le> q / pow2 (ulp_exp q)" using assms(2) by (rule divide_right_mono) simp
  then show ?thesis using assms True by (simp add: fl_def round_even_mono)
next
  case False
  then have u: "ulp_exp p < ulp_exp q" "- 1022 \<le> exponent q"
    using exponent_mono [OF assms] assms by (auto simp: ulp_exp_def)
  have "fl p \<le> pow2 (ulp_exp p + 53)" by (rule fl_below [OF assms(1)])
  also have "\<dots> \<le> pow2 (ulp_exp q + 52)" using u(1) by (intro pow2_mono) simp
  also have "\<dots> \<le> fl q" using assms u(2) by (intro fl_above) simp_all
  finally show ?thesis .
qed

lemma fl_mono: "p \<le> q \<Longrightarrow> fl p \<le> fl q"
proof -
  assume pq: "p \<le> q"
  consider "0 < p" | "p \<le> 0" "0 \<le> q" | "q < 0" by linarith
  then show ?thesis
  proof cases
    case 1
    then show ?thesis using pq by (rule fl_mono_pos)
  next
    case 2
    then have "fl p \<le> 0" "0 \<le> fl q" using fl_nonneg [of "- p"] fl_nonneg [of q] by (simp_all add: fl_minus)
    then show ?thesis by simp
  next
    case 3
    then show ?thesis using fl_mono_pos [of "- q" "- p"] pq by (simp add: fl_minus)
  qed
qed

text \<open>Integers of at most 53 bits are floats.\<close>

lemma fl_of_int_pos:
  assumes "0 < i" "i < 2 ^ 53"
  shows "fl (of_int i) = of_int i"
proof -
  let ?q = "of_int i :: rat" and ?u = "ulp_exp (of_int i)"
  have "exponent ?q \<le> 52"
  proof (rule ccontr)
    assume "\<not> ?thesis"
    then have "pow2 53 \<le> pow2 (exponent ?q)" by (intro pow2_mono) simp
    then have "of_int (2 ^ 53) \<le> ?q" using exponent_range(1) [of ?q] assms(1) by (simp add: pow2_def)
    with assms(2) show False by (simp only: of_int_le_iff)
  qed
  then have "?u \<le> 0" using assms(1) by (simp add: ulp_exp_def)
  then obtain k where k: "?u = - int k" by (metis neg_le_0_iff_le nonneg_int_cases minus_minus)
  have "pow2 (- int k) * 2 ^ k = 1" by (simp add: pow2_def power_int_minus)
  then have m: "?q / pow2 ?u = of_int (i * 2 ^ k)" by (simp add: k field_simps less_imp_neq [OF pow2_pos, symmetric])
  have "fl ?q = of_int (i * 2 ^ k) * pow2 ?u"
    using assms(1) unfolding fl_def m round_even_int by simp
  also have "\<dots> = ?q" unfolding m [symmetric] by (simp add: less_imp_neq [OF pow2_pos, symmetric])
  finally show ?thesis .
qed

lemma fl_of_int: "\<bar>i\<bar> < 2 ^ 53 \<Longrightarrow> fl (of_int i) = of_int i"
proof -
  assume i: "\<bar>i\<bar> < 2 ^ 53"
  consider "i = 0" | "0 < i" | "0 < - i" by linarith
  then show ?thesis
  proof cases
    case 3
    then have "fl (of_int (- i)) = of_int (- i)" using i by (intro fl_of_int_pos) simp_all
    then show ?thesis by (simp add: fl_minus)
  qed (use i fl_of_int_pos [of i] in simp_all)
qed

section \<open>Sums and means\<close>

definition fl_mean :: "rat list \<Rightarrow> rat option" where
  "fl_mean vs = (if vs = [] then None else Some (fl_div (fl_sum vs) (fl_int (int (length vs)))))"

lemma fl_add_above:
  assumes "of_int (lo * k) \<le> s" "of_int lo \<le> v" "\<bar>lo * (k + 1)\<bar> < 2 ^ 53"
  shows "of_int (lo * (k + 1)) \<le> fl_add s v"
proof -
  have "of_int (lo * (k + 1)) = fl (of_int (lo * (k + 1)))" using assms(3) by (simp only: fl_of_int)
  also have "\<dots> \<le> fl (s + v)" using assms(1,2) by (intro fl_mono) (simp add: algebra_simps)
  finally show ?thesis by (simp add: fl_add_def)
qed

lemma fl_div_above:
  assumes "of_int (lo * k) \<le> s" "0 < k" "k < 2 ^ 53" "\<bar>lo\<bar> < 2 ^ 53"
  shows "of_int lo \<le> fl_div s (fl_int k)"
proof -
  have "of_int lo \<le> s / of_int k" using assms(1,2) by (simp add: le_divide_eq)
  then have "fl (of_int lo) \<le> fl (s / of_int k)" by (rule fl_mono)
  moreover have "fl_int k = of_int k" unfolding fl_int_def using assms(2,3) by (intro fl_of_int) simp
  ultimately show ?thesis using assms(4) by (simp add: fl_div_def fl_of_int)
qed

lemma small_multiple: "\<bar>lo\<bar> * b < (c :: int) \<Longrightarrow> 0 \<le> a \<Longrightarrow> a \<le> b \<Longrightarrow> \<bar>lo * a\<bar> < c"
  using mult_left_mono [of a b "\<bar>lo\<bar>"] by (simp add: abs_mult)

lemma fl_sum_above:
  assumes "\<forall>v \<in> set vs. of_int lo \<le> v" "\<bar>lo\<bar> * (k + int (length vs)) < 2 ^ 53" "of_int (lo * k) \<le> s" "0 \<le> k"
  shows "of_int (lo * (k + int (length vs))) \<le> foldl fl_add s vs"
  using assms
proof (induction vs arbitrary: s k)
  case (Cons v vs)
  have "\<bar>lo * (k + 1)\<bar> < 2 ^ 53" using Cons.prems(2,4) by (intro small_multiple) auto
  with Cons.prems(1,3) have "of_int (lo * (k + 1)) \<le> fl_add s v" by (intro fl_add_above) simp_all
  from Cons.IH [OF _ _ this] Cons.prems show ?case by (simp add: algebra_simps)
qed simp

lemma fl_mean_above:
  assumes "\<forall>v \<in> set vs. of_int lo \<le> v" "\<bar>lo\<bar> * int (length vs) < 2 ^ 53" "int (length vs) < 2 ^ 53" "\<bar>lo\<bar> < 2 ^ 53"
    "fl_mean vs = Some m"
  shows "of_int lo \<le> m"
proof -
  have n: "0 < int (length vs)" and m: "m = fl_div (fl_sum vs) (fl_int (int (length vs)))"
    using assms(5) by (auto simp: fl_mean_def split: if_splits)
  have "of_int (lo * int (length vs)) \<le> fl_sum vs"
    using fl_sum_above [of vs lo 0 0] assms(1,2) by (simp add: fl_sum_def)
  then show ?thesis unfolding m using n assms(3,4) by (rule fl_div_above)
qed

end
