(* ===== verification/Review_Answers.thy ===== *)
theory Review_Answers
  imports Floats Prelude
begin

text \<open>
  The questions of a call for abstracts, the reviewers' answers to them and the parameters of the
  rating scale (\<open>MaKaC/abstractReviewing.py\<close>, and \<open>Question\<close> and \<open>Answer\<close> of
  \<open>MaKaC/paperReviewing.py\<close>).

  A question is an object that answers share, so it is kept in a store by its id (ids come from one
  counter and are never reused); an answer lives in the list of one judgement.  Ratings are floats,
  each operation on them rounds (\<open>Floats\<close>).  The labels and titles of the radio buttons are
  kept as the number and the number of decimals they print, not as text.
\<close>

section \<open>Counters\<close>

text \<open>\<open>Counter.newCount\<close> returns the count as text and increments it.\<close>

definition newCount :: "nat \<Rightarrow> string \<times> nat" where
  "newCount c = (str_nat c, Suc c)"

section \<open>Answers\<close>

record question =
  q_text :: string
  q_visible :: bool

definition new_question :: "string \<Rightarrow> question" where
  "new_question text = \<lparr>q_text = text, q_visible = True\<rparr>"

text \<open>\<open>an_n\<close> is the number of radio buttons there were when the answer was given.\<close>

record answer =
  an_id :: string
  an_rb :: int
  an_question :: string
  an_n :: int
  an_value :: "rat option"

definition new_answer :: "string \<Rightarrow> int \<Rightarrow> int \<Rightarrow> string \<Rightarrow> answer" where
  "new_answer newId rbValue numberOfAnswers q =
     \<lparr>an_id = newId, an_rb = rbValue, an_question = q, an_n = numberOfAnswers, an_value = None\<rparr>"

definition rating_value :: "int \<Rightarrow> int \<Rightarrow> int \<Rightarrow> int \<Rightarrow> rat" where
  "rating_value lo hi n rb =
     fl_add (fl_mul (fl_div (fl_int (hi - lo)) (fl_int (n - 1))) (fl_int rb)) (fl_int lo)"

definition calculateRatingValue :: "int \<Rightarrow> int \<Rightarrow> answer \<Rightarrow> exn + answer" where
  "calculateRatingValue lo hi a =
     (if an_n a = 1 then Inl ZeroDivisionError
      else Inr (a\<lparr>an_value := Some (rating_value lo hi (an_n a) (an_rb a))\<rparr>))"

text \<open>
  \<open>for ans in answers: ans.calculateRatingValue(...)\<close>: an exception leaves the answers before
  the failing one updated.
\<close>

fun rate_answers :: "int \<Rightarrow> int \<Rightarrow> answer list \<Rightarrow> (exn + unit) \<times> answer list" where
  "rate_answers lo hi [] = (Inr (), [])"
| "rate_answers lo hi (a # as) = (case calculateRatingValue lo hi a of
       Inl e \<Rightarrow> (Inl e, a # as)
     | Inr a' \<Rightarrow> (case rate_answers lo hi as of (r, as') \<Rightarrow> (r, a' # as')))"

text \<open>\<open>sum\<close> of the values, from the left; an answer that has none yet is \<open>None\<close>, which cannot be added.\<close>

fun add_values :: "rat \<Rightarrow> answer list \<Rightarrow> exn + rat" where
  "add_values t [] = Inr t"
| "add_values t (a # as) = (case an_value a of
       None \<Rightarrow> Inl TypeError | Some v \<Rightarrow> add_values (fl_add t v) as)"

definition sum_values :: "answer list \<Rightarrow> exn + rat" where
  "sum_values as = add_values 0 as"

definition calculateJudgementAverage :: "answer list \<Rightarrow> exn + rat option" where
  "calculateJudgementAverage as =
     (if as = [] then Inr None
      else (case sum_values as of Inl e \<Rightarrow> Inl e
            | Inr t \<Rightarrow> Inr (Some (fl_div t (fl_int (int (length as)))))))"

definition calculateAnswersTotalValue :: "answer list \<Rightarrow> exn + rat" where
  "calculateAnswersTotalValue as = sum_values as"

text \<open>
  \<open>for ans in self.getAnswers(): if ...: self._answers.remove(ans)\<close> removes from the list it walks
  along: the element that moves into the place of a removed one is stepped over.
\<close>

fun remove_answers :: "string \<Rightarrow> answer list \<Rightarrow> answer list" where
  "remove_answers q [] = []"
| "remove_answers q (a # as) =
     (if an_question a = q
      then (case as of [] \<Rightarrow> [] | b # bs \<Rightarrow> b # remove_answers q bs)
      else a # remove_answers q as)"

section \<open>The parameters of a conference\<close>

datatype rb_label = Blank | Label_Int int | Label_Float rat

datatype rb_title = Title0 rat | Title1 rat

record conf_review =
  question_at :: "string \<Rightarrow> question"
  reviewingQuestions :: "string list"
  numberOfAnswers :: int
  scaleLower :: int
  scaleHigher :: int
  rbLabels :: "rb_label list"
  rbTitles :: "rb_title list"
  questionCounter :: nat
  answerCounter :: nat
  canReviewerAccept :: bool

definition conf_review_init :: conf_review where
  "conf_review_init = \<lparr>question_at = (\<lambda>_. new_question []), reviewingQuestions = [],
     numberOfAnswers = 7, scaleLower = 0, scaleHigher = 10,
     rbLabels = [Label_Int 0, Blank, Blank, Label_Int 5, Blank, Blank, Label_Int 10],
     rbTitles = [Title0 0, Title1 (17/10), Title1 (33/10), Title0 5, Title1 (67/10), Title1 (83/10),
                 Title0 10],
     questionCounter = 1, answerCounter = 1, canReviewerAccept = False\<rparr>"

definition getNewAnswerId :: "(conf_review, string) prog" where
  "getNewAnswerId = bnd (gets answerCounter) (\<lambda>c. case newCount c of (i, c') \<Rightarrow>
     andthen (modify (\<lambda>r. r\<lparr>answerCounter := c'\<rparr>)) (ret i))"

definition getNewQuestionId :: "(conf_review, string) prog" where
  "getNewQuestionId = bnd (gets questionCounter) (\<lambda>c. case newCount c of (i, c') \<Rightarrow>
     andthen (modify (\<lambda>r. r\<lparr>questionCounter := c'\<rparr>)) (ret i))"

definition addReviewingQuestion :: "string \<Rightarrow> (conf_review, unit) prog" where
  "addReviewingQuestion text = bnd getNewQuestionId (\<lambda>i.
     modify (\<lambda>r. r\<lparr>question_at := (question_at r)(i := new_question text),
                  reviewingQuestions := reviewingQuestions r @ [i]\<rparr>))"

definition getQuestionById :: "string \<Rightarrow> conf_review \<Rightarrow> string option" where
  "getQuestionById i r = find (\<lambda>q. i = q) (reviewingQuestions r)"

definition removeReviewingQuestion :: "string \<Rightarrow> (conf_review, unit) prog" where
  "removeReviewingQuestion i = bnd (gets (getQuestionById i)) (\<lambda>q. case q of
       Some j \<Rightarrow> modify (\<lambda>r. r\<lparr>reviewingQuestions := remove1 j (reviewingQuestions r)\<rparr>)
     | None \<Rightarrow> raise_exn (MaKaCError ''Cannot remove a question which doesn't exist''))"

definition editReviewingQuestion :: "string \<Rightarrow> string \<Rightarrow> (conf_review, unit) prog" where
  "editReviewingQuestion i text = bnd (gets (getQuestionById i)) (\<lambda>q. case q of
       Some j \<Rightarrow> modify (\<lambda>r. r\<lparr>question_at :=
                    (question_at r)(j := (question_at r j)\<lparr>q_text := text\<rparr>)\<rparr>)
     | None \<Rightarrow> raise_exn (MaKaCError ''Cannot edit a question which doesn't exist''))"

definition setNumberOfAnswers :: "int \<Rightarrow> (conf_review, unit) prog" where
  "setNumberOfAnswers n = modify (\<lambda>r. r\<lparr>numberOfAnswers := n\<rparr>)"

definition setScale :: "int \<Rightarrow> int \<Rightarrow> (conf_review, unit) prog" where
  "setScale lo hi = modify (\<lambda>r. r\<lparr>scaleLower := lo, scaleHigher := hi\<rparr>)"

definition setCanReviewerAccept :: "bool \<Rightarrow> (conf_review, unit) prog" where
  "setCanReviewerAccept b = modify (\<lambda>r. r\<lparr>canReviewerAccept := b\<rparr>)"

text \<open>
  The two branches of the loop of \<open>recalculateRBLabelsAndTitles\<close> for button \<open>i\<close> of \<open>n\<close>.  The
  division of the title raises when there is a single button; the label of that button has been
  appended by then.
\<close>

definition rb_label :: "int \<Rightarrow> int \<Rightarrow> int \<Rightarrow> int \<Rightarrow> rb_label" where
  "rb_label lo hi n i =
     (if i = 0 then Label_Int lo
      else if i = n - 1 then Label_Int hi
      else if n mod 2 = 1 \<and> i = (n - 1) div 2
        then if (lo + hi) mod 2 = 0 then Label_Int ((lo + hi) div 2)
             else Label_Float (fl_div (fl_int (lo + hi)) (fl_int 2))
      else Blank)"

definition rb_title :: "int \<Rightarrow> int \<Rightarrow> int \<Rightarrow> int \<Rightarrow> exn + rb_title" where
  "rb_title lo hi n i =
     (if n - 1 = 0 then Inl ZeroDivisionError
      else if i * hi mod (n - 1) = 0 then Inr (Title0 (rating_value lo hi n i))
      else Inr (Title1 (rating_value lo hi n i)))"

function rb_loop :: "int \<Rightarrow> (conf_review, unit) prog" where
  "rb_loop i r =
     (if i < numberOfAnswers r then
        (let lo = scaleLower r; hi = scaleHigher r; n = numberOfAnswers r;
             r' = r\<lparr>rbLabels := rbLabels r @ [rb_label lo hi n i]\<rparr>
         in case rb_title lo hi n i of
              Inl e \<Rightarrow> (Inl e, r')
            | Inr t \<Rightarrow> rb_loop (i + 1) (r'\<lparr>rbTitles := rbTitles r' @ [t]\<rparr>))
      else (Inr (), r))"
  by pat_completeness auto

termination
  by (relation "measure (\<lambda>(i, r). nat (numberOfAnswers r - i))") auto

declare rb_loop.simps [simp del]

definition recalculateRBLabelsAndTitles :: "(conf_review, unit) prog" where
  "recalculateRBLabelsAndTitles =
     andthen (modify (\<lambda>r. r\<lparr>rbLabels := [], rbTitles := []\<rparr>)) (rb_loop 0)"

section \<open>Lemmas\<close>

lemma sum_values_ok:
  "sum_values as = (if \<forall>a \<in> set as. an_value a \<noteq> None
     then Inr (fl_sum (map (the \<circ> an_value) as)) else Inl TypeError)"
proof -
  have "add_values t as = (if \<forall>a \<in> set as. an_value a \<noteq> None
     then Inr (foldl fl_add t (map (the \<circ> an_value) as)) else Inl TypeError)" for t
    by (induction as arbitrary: t) (auto split: option.splits)
  then show ?thesis by (simp add: sum_values_def fl_sum_def)
qed

text \<open>A higher button never rates lower, and the lowest one gives the lower end of the scale.\<close>

lemma rating_value_mono:
  assumes "lo \<le> hi" "1 < n" "i \<le> j"
  shows "rating_value lo hi n i \<le> rating_value lo hi n j"
proof -
  have "0 \<le> fl_int (hi - lo)" "0 \<le> fl_int (n - 1)" using assms by (simp_all add: fl_int_def fl_nonneg)
  then have "0 \<le> fl_div (fl_int (hi - lo)) (fl_int (n - 1))" by (simp add: fl_div_def fl_nonneg)
  moreover have "fl_int i \<le> fl_int j" using assms(3) by (simp add: fl_int_def fl_mono)
  ultimately show ?thesis
    unfolding rating_value_def fl_add_def fl_mul_def by (intro fl_mono add_right_mono mult_left_mono)
qed

lemma rating_value_0: "\<bar>lo\<bar> < 2 ^ 53 \<Longrightarrow> rating_value lo hi n 0 = of_int lo"
  by (simp add: rating_value_def fl_add_def fl_mul_def fl_int_def fl_of_int)

lemma rating_value_above:
  assumes "lo \<le> hi" "1 < n" "0 \<le> rb" "\<bar>lo\<bar> < 2 ^ 53"
  shows "of_int lo \<le> rating_value lo hi n rb"
  using rating_value_mono [OF assms(1-3)] rating_value_0 [OF assms(4)] by simp

lemma rate_answers_ok:
  "\<forall>a \<in> set as. an_n a \<noteq> 1 \<Longrightarrow>
   rate_answers lo hi as = (Inr (), map (\<lambda>a. a\<lparr>an_value := Some (rating_value lo hi (an_n a) (an_rb a))\<rparr>) as)"
  by (induction as) (auto simp: calculateRatingValue_def)

lemma remove_answers_subset: "set (remove_answers q as) \<subseteq> set as"
  by (induction q as rule: remove_answers.induct) (auto split: list.splits)

lemma remove_answers_all_gone:
  assumes "distinct (map an_question as)"
  shows "remove_answers q as = filter (\<lambda>a. an_question a \<noteq> q) as"
  using assms
proof (induction q as rule: remove_answers.induct)
  case (2 q a as)
  show ?case
  proof (cases "an_question a = q")
    case True
    then have "\<forall>b \<in> set as. an_question b \<noteq> q" using "2.prems" by (auto simp: image_iff)
    moreover from this have "remove_answers q bs = bs" if "set bs \<subseteq> set as" for bs
      using that by (induction bs) auto
    ultimately show ?thesis using True
      by (auto split: list.split intro!: filter_True [symmetric]) blast
  next
    case False
    with 2 show ?thesis by simp
  qed
qed simp

lemma rb_loop_ok:
  assumes "numberOfAnswers r \<noteq> 1"
  shows "rb_loop i r = (Inr (), r\<lparr>
     rbLabels := rbLabels r @ map (rb_label (scaleLower r) (scaleHigher r) (numberOfAnswers r)) [i..numberOfAnswers r - 1],
     rbTitles := rbTitles r @ map (\<lambda>j. projr (rb_title (scaleLower r) (scaleHigher r) (numberOfAnswers r) j))
       [i..numberOfAnswers r - 1]\<rparr>)"
  using assms
proof (induction i r rule: rb_loop.induct)
  case (1 i r)
  show ?case
  proof (cases "i < numberOfAnswers r")
    case True
    obtain t where t: "rb_title (scaleLower r) (scaleHigher r) (numberOfAnswers r) i = Inr t"
      using "1.prems" by (cases "i * scaleHigher r mod (numberOfAnswers r - 1) = 0") (simp_all add: rb_title_def)
    have "[i..numberOfAnswers r - 1] = i # [i + 1..numberOfAnswers r - 1]"
      using True by (simp add: upto.simps)
    then show ?thesis
      using "1.IH" [OF True refl refl refl refl t] "1.prems" True t
      by (simp add: rb_loop.simps [of i] Let_def)
  next
    case False
    then show ?thesis by (simp add: rb_loop.simps [of i])
  qed
qed

end
