(* ===== verification/Author_Index.thy ===== *)
theory Author_Index
  imports BTrees "HOL-Library.List_Lexorder" "HOL-Library.Char_ord"
begin

text \<open>
  The indexes an abstract manager keeps (\<open>_AuthIdx\<close> and \<open>_AbstractParticipationIndex\<close> of
  \<open>MaKaC/review.py\<close>).  An author index maps a key (a name or an e-mail address) to the abstracts
  it occurs in and how many times each was indexed under it; the participation index maps a user's
  id to the participations of that user.

  The contract of an author index is that of a multiset of pairs (key, abstract), with \<open>index\<close> as
  insertion and \<open>unindex\<close> as the removal of one occurrence: locale \<open>occurrence_index\<close>.
\<close>

section \<open>The author index\<close>

type_synonym auth_idx = "(string \<times> (string \<times> int) list) list"

definition ai_entry :: "string \<Rightarrow> auth_idx \<Rightarrow> (string \<times> int) list" where
  "ai_entry key idx = (case bt_get key idx of None \<Rightarrow> [] | Some e \<Rightarrow> e)"

definition ai_count :: "auth_idx \<Rightarrow> string \<Rightarrow> string \<Rightarrow> int" where
  "ai_count idx key a = (case bt_get a (ai_entry key idx) of None \<Rightarrow> 0 | Some c \<Rightarrow> c)"

definition ai_index :: "string \<Rightarrow> string \<Rightarrow> auth_idx \<Rightarrow> auth_idx" where
  "ai_index key a idx =
     (let e = ai_entry key idx;
          c = (case bt_get a e of None \<Rightarrow> 0 | Some c \<Rightarrow> c)
      in bt_put key (bt_put a (c + 1) e) idx)"

definition ai_unindex :: "string \<Rightarrow> string \<Rightarrow> auth_idx \<Rightarrow> auth_idx" where
  "ai_unindex key a idx =
     (case bt_get key idx of
        None \<Rightarrow> idx
      | Some e \<Rightarrow> (case bt_get a e of
          None \<Rightarrow> idx
        | Some c \<Rightarrow>
            (let e' = (if c - 1 \<le> 0 then bt_del a e else bt_put a (c - 1) e)
             in if e' = [] then bt_del key idx else bt_put key e' idx)))"

text \<open>\<open>match\<close>: the union of the abstracts of every key that contains the query.\<close>

definition ai_match :: "string \<Rightarrow> auth_idx \<Rightarrow> string list" where
  "ai_match query idx =
     (let q = py_strip (py_lower query)
      in fold (\<lambda>(k, e) res. if str_contains q k then fold (ts_add py_cmp) (bt_keys e) res else res)
           idx [])"

definition ai_wf :: "auth_idx \<Rightarrow> bool" where
  "ai_wf idx \<longleftrightarrow> bt_wf idx \<and>
     (\<forall>(k, e) \<in> set idx. e \<noteq> [] \<and> bt_wf e \<and> (\<forall>(a, c) \<in> set e. 0 < c))"

section \<open>The participation index\<close>

type_synonym part_idx = "(nat \<times> nat list) list"

definition pi_index :: "nat option \<Rightarrow> nat \<Rightarrow> part_idx \<Rightarrow> part_idx" where
  "pi_index av p idx = (case av of
       None \<Rightarrow> idx
     | Some u \<Rightarrow>
         (let l = (case bt_get u idx of None \<Rightarrow> [] | Some l \<Rightarrow> l)
          in bt_put u (if p \<in> set l then l else l @ [p]) idx))"

definition pi_unindex :: "nat option \<Rightarrow> nat \<Rightarrow> part_idx \<Rightarrow> part_idx" where
  "pi_unindex av p idx = (case av of
       None \<Rightarrow> idx
     | Some u \<Rightarrow> (case bt_get u idx of
           None \<Rightarrow> idx
         | Some l \<Rightarrow> if p \<in> set l then bt_put u (remove1 p l) idx else idx))"

definition getParticipationList :: "nat \<Rightarrow> part_idx \<Rightarrow> nat list" where
  "getParticipationList u idx = (case bt_get u idx of None \<Rightarrow> [] | Some l \<Rightarrow> l)"

section \<open>The contract of an occurrence index\<close>

locale occurrence_index =
  fixes count_of :: "'i \<Rightarrow> 'k \<Rightarrow> 'a \<Rightarrow> int"
    and add :: "'k \<Rightarrow> 'a \<Rightarrow> 'i \<Rightarrow> 'i"
    and del :: "'k \<Rightarrow> 'a \<Rightarrow> 'i \<Rightarrow> 'i"
    and wf :: "'i \<Rightarrow> bool"
  assumes count_nonneg: "wf i \<Longrightarrow> 0 \<le> count_of i k a"
    and wf_add: "wf i \<Longrightarrow> wf (add k a i)"
    and wf_del: "wf i \<Longrightarrow> wf (del k a i)"
    and count_add: "wf i \<Longrightarrow>
      count_of (add k a i) k' a' = count_of i k' a' + (if k' = k \<and> a' = a then 1 else 0)"
    and count_del: "wf i \<Longrightarrow>
      count_of (del k a i) k' a' =
        (if k' = k \<and> a' = a then max 0 (count_of i k a - 1) else count_of i k' a')"
begin

lemma add_del: "wf i \<Longrightarrow> count_of (del k a (add k a i)) = count_of i"
  by (intro ext) (auto simp: count_add count_del wf_add count_nonneg)

lemma rekey:
  "wf i \<Longrightarrow> 0 < count_of i k a \<Longrightarrow> k' \<noteq> k \<Longrightarrow>
   count_of (add k' a (del k a i)) k a = count_of i k a - 1 \<and>
   count_of (add k' a (del k a i)) k' a = count_of i k' a + 1"
  by (simp add: count_add count_del wf_del)

lemma add_all: "wf i \<Longrightarrow>
  wf (fold (\<lambda>(k, a). add k a) ps i) \<and>
  count_of (fold (\<lambda>(k, a). add k a) ps i) k a = count_of i k a + int (count_list ps (k, a))"
proof (induction ps arbitrary: i)
  case (Cons p ps)
  obtain k' a' where p: "p = (k', a')" by fastforce
  have w: "wf (add k' a' i)" using Cons.prems by (rule wf_add)
  show ?case using Cons.IH [OF w] by (simp add: p count_add [OF Cons.prems])
qed simp

end

lemma ai_wf_entry:
  assumes "ai_wf idx"
  shows "bt_wf (ai_entry key idx)" and "\<forall>(a, c) \<in> set (ai_entry key idx). 0 < c"
proof -
  have "bt_wf (ai_entry key idx) \<and> (\<forall>(a, c) \<in> set (ai_entry key idx). 0 < c)"
  proof (cases "bt_get key idx")
    case None
    then show ?thesis by (simp add: ai_entry_def bt_wf_def)
  next
    case (Some e)
    with assms have "bt_wf e \<and> (\<forall>(a, c) \<in> set e. 0 < c)"
      using bt_get_Some_mem [OF Some] by (auto simp: ai_wf_def)
    with Some show ?thesis by (simp add: ai_entry_def)
  qed
  then show "bt_wf (ai_entry key idx)" and "\<forall>(a, c) \<in> set (ai_entry key idx). 0 < c" by auto
qed

lemma ai_entry_pos:
  assumes "ai_wf idx" "bt_get a (ai_entry key idx) = Some c"
  shows "0 < c"
  using ai_wf_entry(2) [OF assms(1), of key] bt_get_Some_mem [OF assms(2)] by auto

lemma ai_count_nonneg: "ai_wf idx \<Longrightarrow> 0 \<le> ai_count idx key a"
  using ai_entry_pos [of idx a key] by (auto simp: ai_count_def split: option.split)

lemma bt_put_mem: "p \<in> set (bt_put k v m) \<Longrightarrow> p = (k, v) \<or> p \<in> set m"
  by (induction k v m rule: bt_put.induct) (auto split: if_splits)

lemma bt_del_mem: "p \<in> set (bt_del k m) \<Longrightarrow> p \<in> set m"
  by (auto simp: bt_del_def)

lemma ai_wf_put:
  assumes "ai_wf idx" "e \<noteq> []" "bt_wf e" "\<forall>(a, c) \<in> set e. 0 < c"
  shows "ai_wf (bt_put key e idx)"
proof -
  have "bt_wf (bt_put key e idx)" using assms(1) by (simp add: ai_wf_def bt_wf_put)
  moreover have "e' \<noteq> [] \<and> bt_wf e' \<and> (\<forall>(a, c) \<in> set e'. 0 < c)"
    if "(k, e') \<in> set (bt_put key e idx)" for k e'
    using bt_put_mem [OF that] assms by (auto simp: ai_wf_def)
  ultimately show ?thesis unfolding ai_wf_def by blast
qed

lemma ai_wf_index: "ai_wf idx \<Longrightarrow> ai_wf (ai_index key a idx)"
proof -
  assume wf: "ai_wf idx"
  let ?c = "(case bt_get a (ai_entry key idx) of None \<Rightarrow> 0 | Some c \<Rightarrow> c) + 1"
  have "0 < ?c"
    using ai_entry_pos [OF wf, of a key] by (auto split: option.split)
  then have "\<forall>(b, c) \<in> set (bt_put a ?c (ai_entry key idx)). 0 < c"
    using ai_wf_entry(2) [OF wf, of key] bt_put_mem [of _ a ?c "ai_entry key idx"] by blast
  then show ?thesis
    unfolding ai_index_def Let_def
    by (intro ai_wf_put wf bt_wf_put ai_wf_entry(1)) simp_all
qed

lemma ai_entry_put: "ai_entry k' (bt_put k e idx) = (if k' = k then e else ai_entry k' idx)"
  by (simp add: ai_entry_def bt_get_put)

lemma ai_entry_del: "ai_entry k' (bt_del k idx) = (if k' = k then [] else ai_entry k' idx)"
  by (simp add: ai_entry_def bt_get_del)

lemma ai_count_index:
  "ai_count (ai_index k a idx) k' a' = ai_count idx k' a' + (if k' = k \<and> a' = a then 1 else 0)"
  by (simp add: ai_index_def Let_def ai_count_def ai_entry_put bt_get_put)

text \<open>What \<open>unindex\<close> does to the entry of its key.\<close>

definition entry_less :: "string \<Rightarrow> (string \<times> int) list \<Rightarrow> (string \<times> int) list" where
  "entry_less a e = (case bt_get a e of
       None \<Rightarrow> e | Some c \<Rightarrow> if c - 1 \<le> 0 then bt_del a e else bt_put a (c - 1) e)"

lemma ai_entry_unindex:
  "ai_entry k' (ai_unindex k a idx) = (if k' = k then entry_less a (ai_entry k idx) else ai_entry k' idx)"
proof (cases "bt_get k idx")
  case None
  then show ?thesis by (auto simp: ai_unindex_def ai_entry_def entry_less_def)
next
  case (Some e)
  then have e: "ai_entry k idx = e" by (simp add: ai_entry_def)
  show ?thesis
    using Some by (auto simp: ai_unindex_def Let_def entry_less_def ai_entry_put ai_entry_del e
        split: option.split)
qed

lemma ai_count_unindex:
  assumes "ai_wf idx"
  shows "ai_count (ai_unindex k a idx) k' a' =
    (if k' = k \<and> a' = a then max 0 (ai_count idx k a - 1) else ai_count idx k' a')"
proof -
  have "0 < c" if "bt_get a (ai_entry k idx) = Some c" for c
    using ai_entry_pos [OF assms that] .
  then show ?thesis
    by (auto simp: ai_count_def ai_entry_unindex entry_less_def bt_get_put bt_get_del split: option.split)
qed

lemma ai_wf_del: "ai_wf idx \<Longrightarrow> ai_wf (bt_del k idx)"
  unfolding ai_wf_def using bt_wf_del [of idx k] by (fastforce simp: bt_del_def)

lemma ai_wf_unindex:
  assumes wf: "ai_wf idx"
  shows "ai_wf (ai_unindex k a idx)"
proof (cases "bt_get k idx")
  case None
  then show ?thesis using wf by (simp add: ai_unindex_def)
next
  case (Some e)
  with wf have e: "bt_wf e" "\<forall>(b, c) \<in> set e. 0 < c" "e \<noteq> []"
    using bt_get_Some_mem [OF Some] by (auto simp: ai_wf_def)
  show ?thesis
  proof (cases "bt_get a e")
    case None
    with Some show ?thesis using wf by (simp add: ai_unindex_def)
  next
    case (Some c)
    define e' where "e' = (if c - 1 \<le> 0 then bt_del a e else bt_put a (c - 1) e)"
    have e'wf: "bt_wf e'" "\<forall>(b, c) \<in> set e'. 0 < c"
      using e by (auto simp: e'_def bt_wf_put bt_wf_del split: if_splits dest: bt_put_mem bt_del_mem)
    have eq: "ai_unindex k a idx = (if e' = [] then bt_del k idx else bt_put k e' idx)"
      using \<open>bt_get k idx = Some e\<close> Some by (simp add: ai_unindex_def e'_def Let_def)
    show ?thesis
    proof (cases "e' = []")
      case True
      then show ?thesis using ai_wf_del [OF wf] eq by simp
    next
      case False
      then show ?thesis using ai_wf_put [OF wf False e'wf] eq by simp
    qed
  qed
qed

interpretation aidx: occurrence_index ai_count ai_index ai_unindex ai_wf
  by unfold_locales
    (simp_all add: ai_count_nonneg ai_wf_index ai_wf_unindex ai_count_index ai_count_unindex)

lemma ts_adds_set: "set (fold (ts_add py_cmp) xs s) = set xs \<union> set (s :: 'a::linorder list)"
proof (induction xs arbitrary: s)
  case (Cons x xs)
  have "set (ts_add py_cmp x t) = insert x (set t)" for t :: "'a list"
    by (induction t) (auto simp: py_cmp_def)
  with Cons show ?case by auto
qed simp

lemma match_fold:
  "set (fold (\<lambda>(k, e) res. if str_contains q k then fold (ts_add py_cmp) (bt_keys e) res else res) idx res)
   = set res \<union> {a. \<exists>(k, e) \<in> set idx. str_contains q k \<and> a \<in> set (bt_keys e)}"
proof (induction idx arbitrary: res)
  case (Cons p idx)
  obtain k e where p: "p = (k, e)" by fastforce
  show ?case
    using Cons.IH [of res] Cons.IH [of "fold (ts_add py_cmp) (bt_keys e) res"]
    by (cases "str_contains q k") (auto simp: p ts_adds_set)
qed simp

lemma ai_match_iff:
  assumes "ai_wf idx"
  shows "a \<in> set (ai_match query idx) \<longleftrightarrow>
    (\<exists>k. str_contains (py_strip (py_lower query)) k \<and> 0 < ai_count idx k a)"
proof -
  have count_pos: "0 < ai_count idx k a \<longleftrightarrow> (\<exists>e. (k, e) \<in> set idx \<and> a \<in> set (bt_keys e))" for k
  proof -
    have "a \<in> set (bt_keys e) \<longleftrightarrow> 0 < ai_count idx k a" if "bt_get k idx = Some e" for e
      using that ai_entry_pos [OF assms, of a k] bt.keys_get [of a e]
      by (auto simp: ai_count_def ai_entry_def split: option.splits)
    moreover have "ai_count idx k a = 0" if "bt_get k idx = None"
      using that by (simp add: ai_count_def ai_entry_def)
    moreover have "(k, e) \<in> set idx \<longleftrightarrow> bt_get k idx = Some e" for e
      using assms bt_mem_get [of idx k e] by (simp add: ai_wf_def)
    ultimately show ?thesis by (cases "bt_get k idx") auto
  qed
  show ?thesis
    unfolding ai_match_def Let_def match_fold by (auto simp: count_pos)
qed

lemma getParticipationList_index:
  "getParticipationList u (pi_index (Some u') p idx) =
   (if u = u' \<and> p \<notin> set (getParticipationList u idx) then getParticipationList u idx @ [p]
    else getParticipationList u idx)"
  by (auto simp: getParticipationList_def pi_index_def Let_def bt_get_put split: option.split)

lemma getParticipationList_unindex:
  "getParticipationList u (pi_unindex (Some u') p idx) =
   (if u = u' then remove1 p (getParticipationList u idx) else getParticipationList u idx)"
  by (auto simp: getParticipationList_def pi_unindex_def bt_get_put remove1_idem split: option.split)

end
