(* ===== verification/Review_State.thy ===== *)
theory Review_State
  imports Review_Answers Author_Index
begin

text \<open>
  The objects of a call for abstracts and how they refer to each other: abstracts, tracks, users'
  judgements, authors, and the contributions made from accepted abstracts (\<open>MaKaC/review.py\<close>, and
  \<open>Track\<close> and \<open>AcceptedContribution\<close> of \<open>MaKaC/conference.py\<close>).

  One call for abstracts of one conference is modelled.  Objects that others share and mutate live
  in stores: abstracts and tracks by their ids, judgements and lists of answers by their identity.
  A mapping of the code whose values are the objects with the keys as ids (an abstract's tracks, a
  track's abstracts) is the sorted list of its keys.
\<close>

type_synonym aid = string
type_synonym tid = string
type_synonym uid = nat
type_synonym jid = nat

section \<open>The statuses\<close>

text \<open>
  One constructor per class; \<open>NoStatus\<close> is \<open>AbstractStatusNone\<close>.  The date every status carries is
  not kept.  The type of a contribution is its name, \<open>Some []\<close> being the empty string the code also
  uses for "none".
\<close>

datatype status =
    Submitted
  | Accepted uid "tid option" "string option" string "aid option"
  | Rejected uid string
  | UnderReview
  | ProposedToAccept
  | ProposedToReject
  | InConflict
  | Withdrawn uid "status option" string
  | Duplicated uid aid string
  | Merged uid aid string
  | NoStatus

text \<open>The class of a status object, which is all that \<open>update\<close> compares.\<close>

datatype status_class =
    C_Submitted | C_Accepted | C_Rejected | C_UnderReview | C_ProposedToAccept
  | C_ProposedToReject | C_InConflict | C_Withdrawn | C_Duplicated | C_Merged | C_None

fun class_of :: "status \<Rightarrow> status_class" where
  "class_of Submitted = C_Submitted"
| "class_of (Accepted _ _ _ _ _) = C_Accepted"
| "class_of (Rejected _ _) = C_Rejected"
| "class_of UnderReview = C_UnderReview"
| "class_of ProposedToAccept = C_ProposedToAccept"
| "class_of ProposedToReject = C_ProposedToReject"
| "class_of InConflict = C_InConflict"
| "class_of (Withdrawn _ _ _) = C_Withdrawn"
| "class_of (Duplicated _ _ _) = C_Duplicated"
| "class_of (Merged _ _ _) = C_Merged"
| "class_of NoStatus = C_None"

section \<open>The records\<close>

datatype jud_kind =
    Acceptance "string option"
  | Rejection
  | Reallocation "tid list"
  | MarkedAsDuplicated aid
  | UnMarkedAsDuplicated

datatype jud_class = J_Acceptance | J_Rejection | J_Reallocation | J_Marked | J_UnMarked

fun jclass :: "jud_kind \<Rightarrow> jud_class" where
  "jclass (Acceptance _) = J_Acceptance"
| "jclass Rejection = J_Rejection"
| "jclass (Reallocation _) = J_Reallocation"
| "jclass (MarkedAsDuplicated _) = J_Marked"
| "jclass UnMarkedAsDuplicated = J_UnMarked"

text \<open>\<open>j_answers\<close> is the list object the judgement was made with, which other judgements may share.\<close>

record judgement =
  j_kind :: jud_kind
  j_track :: "tid option"
  j_responsible :: uid
  j_date :: int
  j_comment :: string
  j_answers :: nat
  j_value :: "rat option"
  j_total :: rat

record part =
  p_title :: string
  p_firstName :: string
  p_surName :: string
  p_email :: string
  p_affiliation :: string
  p_address :: string
  p_telephone :: string
  p_fax :: string

definition blank_part :: part where
  "blank_part = \<lparr>p_title = [], p_firstName = [], p_surName = [], p_email = [], p_affiliation = [],
     p_address = [], p_telephone = [], p_fax = []\<rparr>"

text \<open>A submitter is a participation object of its own, known to the participation index.\<close>

record submitter_part =
  s_oid :: nat
  s_user :: uid
  s_part :: part

text \<open>\<open>owned\<close> tells whether the abstract still has its manager (\<open>_owner\<close>).\<close>

record abstract =
  owned :: bool
  title :: string
  comments :: string
  authorGen :: nat
  authors :: "(string \<times> part) list"
  primaryAuthors :: "string list"
  coAuthors :: "string list"
  speakers :: "string list"
  tracks :: "tid list"
  contribType :: "string option"
  submissionDate :: int
  modificationDate :: int
  currentStatus :: status
  acceptances :: "(tid \<times> jid) list"
  rejections :: "(tid \<times> jid) list"
  reallocations :: "(tid \<times> jid) list"
  history :: "string \<Rightarrow> jid list option"
  contribution :: "aid option"
  mergeFrom :: "aid list"
  notifLog :: "(uid \<times> int) list"
  submitter :: "submitter_part option"
  rating :: "rat option"

record contrib =
  c_abstract :: "aid option"
  c_track :: "tid option"
  c_type :: "string option"
  c_withdrawn :: "(uid \<times> string) option"

record review =
  abs_at :: "aid \<Rightarrow> abstract"
  listed :: "aid list"
  abstractGen :: nat
  primIdx :: auth_idx
  emailIdx :: auth_idx
  partIdx :: part_idx
  users :: "uid \<Rightarrow> part"
  track_abs :: "tid \<Rightarrow> aid list"
  program :: "tid list"
  jud_at :: "jid \<Rightarrow> judgement"
  answers_at :: "nat \<Rightarrow> answer list"
  next_obj :: nat
  contribs :: "aid \<Rightarrow> contrib option"
  now :: int

definition new_abstract_record :: "int \<Rightarrow> abstract" where
  "new_abstract_record t = \<lparr>owned = True, title = [], comments = [], authorGen = 0, authors = [],
     primaryAuthors = [], coAuthors = [], speakers = [], tracks = [], contribType = Some [],
     submissionDate = t, modificationDate = t, currentStatus = Submitted, acceptances = [],
     rejections = [], reallocations = [], history = (\<lambda>_. None), contribution = None, mergeFrom = [],
     notifLog = [], submitter = None, rating = None\<rparr>"

section \<open>Sorted lists of ids\<close>

definition id_add :: "string \<Rightarrow> string list \<Rightarrow> string list" where
  "id_add = ts_add py_cmp"

definition id_del :: "string \<Rightarrow> string list \<Rightarrow> string list" where
  "id_del x s = filter (\<lambda>y. y \<noteq> x) s"

lemma set_id_add [simp]: "set (id_add x s) = insert x (set s)"
  unfolding id_add_def by (rule linord.ts_set_add) auto

lemma set_id_del [simp]: "set (id_del x s) = set s - {x}"
  by (auto simp: id_del_def)

lemma id_wf_add: "ts_wf py_cmp s \<Longrightarrow> ts_wf py_cmp (id_add x s)"
  unfolding id_add_def by (rule linord.ts_wf_add) auto

lemma id_wf_del: "ts_wf py_cmp s \<Longrightarrow> ts_wf py_cmp (id_del x s)"
  unfolding id_del_def ts_wf_def by (rule sorted_wrt_filter)

lemma id_wf_distinct: "ts_wf py_cmp (s :: string list) \<Longrightarrow> distinct s"
  by (rule linord.ts_wf_distinct) auto

section \<open>Reading and writing one object\<close>

definition with_abs :: "aid \<Rightarrow> (abstract \<Rightarrow> (review, 'a) prog) \<Rightarrow> (review, 'a) prog" where
  "with_abs a f = bnd (gets (\<lambda>r. abs_at r a)) f"

definition upd_abs :: "aid \<Rightarrow> (abstract \<Rightarrow> abstract) \<Rightarrow> (review, unit) prog" where
  "upd_abs a f = modify (\<lambda>r. r\<lparr>abs_at := (abs_at r)(a := f (abs_at r a))\<rparr>)"

lemma with_abs_run [simp]: "with_abs a f r = f (abs_at r a) r"
  by (simp add: with_abs_def)

lemma upd_abs_run [simp]: "upd_abs a f r = (Inr (), r\<lparr>abs_at := (abs_at r)(a := f (abs_at r a))\<rparr>)"
  by (simp add: upd_abs_def)

text \<open>\<open>_notifyModification\<close> with no date stamps the abstract with the current time.\<close>

definition notifyModification :: "aid \<Rightarrow> (review, unit) prog" where
  "notifyModification a = bnd (gets now) (\<lambda>t. upd_abs a (\<lambda>x. x\<lparr>modificationDate := t\<rparr>))"

definition setCurrentStatus :: "aid \<Rightarrow> status \<Rightarrow> (review, unit) prog" where
  "setCurrentStatus a s = upd_abs a (\<lambda>x. x\<lparr>currentStatus := s\<rparr>)"

definition setTitle :: "aid \<Rightarrow> string \<Rightarrow> (review, unit) prog" where
  "setTitle a t = andthen (upd_abs a (\<lambda>x. x\<lparr>title := py_strip t\<rparr>)) (notifyModification a)"

definition setComments :: "aid \<Rightarrow> string \<Rightarrow> (review, unit) prog" where
  "setComments a c = upd_abs a (\<lambda>x. x\<lparr>comments := c\<rparr>)"

definition setContribType :: "aid \<Rightarrow> string option \<Rightarrow> (review, unit) prog" where
  "setContribType a ct =
     andthen (upd_abs a (\<lambda>x. x\<lparr>contribType := ct\<rparr>)) (notifyModification a)"

section \<open>Tracks\<close>

definition track_hasAbstract :: "tid \<Rightarrow> aid \<Rightarrow> review \<Rightarrow> bool" where
  "track_hasAbstract t a r \<longleftrightarrow> a \<in> set (track_abs r t)"

definition track_addAbstract :: "tid \<Rightarrow> aid \<Rightarrow> (review, unit) prog" where
  "track_addAbstract t a = modify (\<lambda>r. if track_hasAbstract t a r then r
     else r\<lparr>track_abs := (track_abs r)(t := id_add a (track_abs r t))\<rparr>)"

definition track_removeAbstract :: "tid \<Rightarrow> aid \<Rightarrow> (review, unit) prog" where
  "track_removeAbstract t a = modify (\<lambda>r. if track_hasAbstract t a r
     then r\<lparr>track_abs := (track_abs r)(t := id_del a (track_abs r t))\<rparr> else r)"

text \<open>
  \<open>sortTrackList\<close>: the position in the programme decides; with two or more tracks, one that is not
  in the programme makes \<open>index\<close> raise.
\<close>

definition sortTrackList :: "tid list \<Rightarrow> tid list \<Rightarrow> exn + tid list" where
  "sortTrackList prog l =
     (if length l \<le> 1 then Inr l
      else if \<exists>t \<in> set l. t \<notin> set prog then Inl ValueError
      else Inr (filter (\<lambda>t. t \<in> set l) (rev (remdups (rev prog)))))"

section \<open>Merging\<close>

definition addMergeFromAbstract :: "aid \<Rightarrow> aid \<Rightarrow> (review, unit) prog" where
  "addMergeFromAbstract a b = upd_abs a (\<lambda>x. x\<lparr>mergeFrom := mergeFrom x @ [b]\<rparr>)"

definition removeMergeFromAbstract :: "aid \<Rightarrow> aid \<Rightarrow> (review, unit) prog" where
  "removeMergeFromAbstract a b = upd_abs a (\<lambda>x. x\<lparr>mergeFrom := remove1 b (mergeFrom x)\<rparr>)"

section \<open>Contributions\<close>

text \<open>
  \<open>AcceptedContribution(abstract)\<close>, as far as the abstract's review sees it: the contribution takes
  the abstract's id, which must be free, and the track and type of the acceptance.
\<close>

definition new_contribution :: "aid \<Rightarrow> (review, aid) prog" where
  "new_contribution a = bnd get_st (\<lambda>r.
     if contribs r a \<noteq> None then raise_exn (MaKaCError ''Cannot add this contribution id'')
     else
       (let (t, ty) = (case currentStatus (abs_at r a) of
                         Accepted _ t ty _ _ \<Rightarrow> (t, ty) | _ \<Rightarrow> (None, None));
            c = \<lparr>c_abstract = Some a, c_track = t, c_type = ty, c_withdrawn = None\<rparr>
        in andthen (modify (\<lambda>r. r\<lparr>contribs := (contribs r)(a := Some c)\<rparr>)) (ret a)))"

end
