(* ===== verification/Abstract_Authors.thy ===== *)
theory Abstract_Authors
  imports Review_State
begin

text \<open>
  The people of an abstract: its submitter, its primary authors, co-authors and speakers
  (\<open>AbstractParticipation\<close>, \<open>Author\<close>, \<open>Submitter\<close> and the author methods of \<open>Abstract\<close> in
  \<open>MaKaC/review.py\<close>), and the manager's indexes of them.  Every setter that changes an indexed
  field takes the participation out of the indexes before and puts it back after.

  An author is known by its id within its abstract.  The links between a user and the abstracts he
  submitted (\<open>linkTo\<close>) and the trash can are not modelled.
\<close>

section \<open>The manager's indexes\<close>

definition name_key :: "part \<Rightarrow> string" where
  "name_key p = py_lower (p_surName p) @ '' '' @ py_lower (p_firstName p)"

definition email_key :: "part \<Rightarrow> string" where
  "email_key p = py_lower (p_email p)"

text \<open>\<open>prim\<close> tells whether the participation is one of the primary authors of \<open>a\<close>.\<close>

definition indexAuthor :: "aid \<Rightarrow> bool \<Rightarrow> part \<Rightarrow> (review, unit) prog" where
  "indexAuthor a prim p = andthen
     (when_do prim (modify (\<lambda>r. r\<lparr>primIdx := ai_index (name_key p) a (primIdx r)\<rparr>)))
     (modify (\<lambda>r. r\<lparr>emailIdx := ai_index (email_key p) a (emailIdx r)\<rparr>))"

definition unindexAuthor :: "aid \<Rightarrow> bool \<Rightarrow> part \<Rightarrow> (review, unit) prog" where
  "unindexAuthor a prim p = andthen
     (when_do prim (modify (\<lambda>r. r\<lparr>primIdx := ai_unindex (name_key p) a (primIdx r)\<rparr>)))
     (modify (\<lambda>r. r\<lparr>emailIdx := ai_unindex (email_key p) a (emailIdx r)\<rparr>))"

definition registerParticipation :: "submitter_part \<Rightarrow> (review, unit) prog" where
  "registerParticipation s =
     modify (\<lambda>r. r\<lparr>partIdx := pi_index (Some (s_user s)) (s_oid s) (partIdx r)\<rparr>)"

definition unregisterParticipation :: "submitter_part \<Rightarrow> (review, unit) prog" where
  "unregisterParticipation s =
     modify (\<lambda>r. r\<lparr>partIdx := pi_unindex (Some (s_user s)) (s_oid s) (partIdx r)\<rparr>)"

text \<open>\<open>self.getOwner().m(...)\<close>: an abstract without a manager raises.\<close>

definition on_owner :: "aid \<Rightarrow> (review, unit) prog \<Rightarrow> (review, unit) prog" where
  "on_owner a m = with_abs a (\<lambda>x. if owned x then m else raise_exn AttributeError)"

section \<open>Participations\<close>

definition part_index :: "aid \<Rightarrow> bool \<Rightarrow> part \<Rightarrow> (review, unit) prog" where
  "part_index a prim p = with_abs a (\<lambda>x. when_do (owned x) (indexAuthor a prim p))"

definition part_unindex :: "aid \<Rightarrow> bool \<Rightarrow> part \<Rightarrow> (review, unit) prog" where
  "part_unindex a prim p = with_abs a (\<lambda>x. when_do (owned x) (unindexAuthor a prim p))"

text \<open>The setters return the changed participation, which its holder stores.\<close>

definition set_indexed :: "aid \<Rightarrow> bool \<Rightarrow> part \<Rightarrow> part \<Rightarrow> (review, part) prog" where
  "set_indexed a prim p p' =
     andthen (part_unindex a prim p)
     (andthen (part_index a prim p')
     (andthen (notifyModification a) (ret p')))"

definition setFirstName :: "aid \<Rightarrow> bool \<Rightarrow> string \<Rightarrow> part \<Rightarrow> (review, part) prog" where
  "setFirstName a prim name p =
     (if py_strip name = p_firstName p then ret p
      else set_indexed a prim p (p\<lparr>p_firstName := py_strip name\<rparr>))"

definition setSurName :: "aid \<Rightarrow> bool \<Rightarrow> string \<Rightarrow> part \<Rightarrow> (review, part) prog" where
  "setSurName a prim name p =
     (if py_strip name = p_surName p then ret p
      else set_indexed a prim p (p\<lparr>p_surName := py_strip name\<rparr>))"

definition setEmail :: "aid \<Rightarrow> bool \<Rightarrow> string \<Rightarrow> part \<Rightarrow> (review, part) prog" where
  "setEmail a prim email p =
     (let e = py_lower (py_strip email)
      in if e \<noteq> p_email p then set_indexed a prim p (p\<lparr>p_email := e\<rparr>) else ret p)"

definition set_plain :: "aid \<Rightarrow> part \<Rightarrow> (review, part) prog" where
  "set_plain a p' = andthen (notifyModification a) (ret p')"

text \<open>The keyword arguments of \<open>setData\<close>; a field that is \<open>None\<close> was not given.\<close>

record part_data =
  d_firstName :: "string option"
  d_surName :: "string option"
  d_email :: "string option"
  d_affiliation :: "string option"
  d_address :: "string option"
  d_telephone :: "string option"
  d_fax :: "string option"
  d_title :: "string option"

definition no_data :: part_data where
  "no_data = \<lparr>d_firstName = None, d_surName = None, d_email = None, d_affiliation = None,
     d_address = None, d_telephone = None, d_fax = None, d_title = None\<rparr>"

definition if_given :: "string option \<Rightarrow> (string \<Rightarrow> part \<Rightarrow> (review, part) prog) \<Rightarrow> part \<Rightarrow> (review, part) prog" where
  "if_given v f p = (case v of None \<Rightarrow> ret p | Some x \<Rightarrow> f x p)"

definition setData :: "aid \<Rightarrow> bool \<Rightarrow> part_data \<Rightarrow> part \<Rightarrow> (review, part) prog" where
  "setData a prim d p =
     bnd (if_given (d_firstName d) (setFirstName a prim) p)
     (\<lambda>p. bnd (if_given (d_surName d) (setSurName a prim) p)
     (\<lambda>p. bnd (if_given (d_email d) (setEmail a prim) p)
     (\<lambda>p. bnd (if_given (d_affiliation d) (\<lambda>v p. set_plain a (p\<lparr>p_affiliation := py_strip v\<rparr>)) p)
     (\<lambda>p. bnd (if_given (d_address d) (\<lambda>v p. set_plain a (p\<lparr>p_address := py_strip v\<rparr>)) p)
     (\<lambda>p. bnd (if_given (d_telephone d) (\<lambda>v p. set_plain a (p\<lparr>p_telephone := py_strip v\<rparr>)) p)
     (\<lambda>p. bnd (if_given (d_fax d) (\<lambda>v p. set_plain a (p\<lparr>p_fax := py_strip v\<rparr>)) p)
     (\<lambda>p. if_given (d_title d) (\<lambda>v p. set_plain a (p\<lparr>p_title := py_strip v\<rparr>)) p)))))))"

definition getData :: "part \<Rightarrow> part_data" where
  "getData p = \<lparr>d_firstName = Some (p_firstName p), d_surName = Some (p_surName p),
     d_email = Some (p_email p), d_affiliation = Some (p_affiliation p),
     d_address = Some (p_address p), d_telephone = Some (p_telephone p), d_fax = Some (p_fax p),
     d_title = Some (p_title p)\<rparr>"

definition getStraightFullName :: "part \<Rightarrow> string" where
  "getStraightFullName p = (if p_firstName p \<noteq> [] then p_firstName p @ '' '' else []) @ p_surName p"

section \<open>The submitter\<close>

text \<open>
  \<open>Submitter(abstract, av)\<close> with \<open>_setUser\<close> and \<open>setFromAvatar\<close>: a new participation, registered
  for its user and filled from the user's profile.
\<close>

definition new_submitter :: "aid \<Rightarrow> uid \<Rightarrow> (review, submitter_part) prog" where
  "new_submitter a u = bnd get_st (\<lambda>r.
     let i = next_obj r; s = \<lparr>s_oid = i, s_user = u, s_part = blank_part\<rparr>
     in andthen (modify (\<lambda>r. r\<lparr>next_obj := Suc (next_obj r)\<rparr>))
        (andthen (on_owner a (registerParticipation s))
        (bnd (setData a False (getData (users r u)) blank_part)
        (\<lambda>p. ret (s\<lparr>s_part := p\<rparr>)))))"

definition submitter_delete :: "aid \<Rightarrow> submitter_part \<Rightarrow> (review, unit) prog" where
  "submitter_delete a s = part_unindex a False (s_part s)"

definition setSubmitter :: "aid \<Rightarrow> uid option \<Rightarrow> (review, unit) prog" where
  "setSubmitter a av = (case av of
       None \<Rightarrow> raise_exn (MaKaCError ''An abstract must have a submitter'')
     | Some u \<Rightarrow> with_abs a (\<lambda>x.
         andthen (case submitter x of
             None \<Rightarrow> ret ()
           | Some s \<Rightarrow> andthen (on_owner a (unregisterParticipation s)) (submitter_delete a s))
         (bnd (new_submitter a u) (\<lambda>s.
          andthen (upd_abs a (\<lambda>x. x\<lparr>submitter := Some s\<rparr>))
          (andthen (on_owner a (registerParticipation s)) (notifyModification a))))))"

definition isSubmitter :: "abstract \<Rightarrow> uid \<Rightarrow> exn + bool" where
  "isSubmitter x u = (case submitter x of
       None \<Rightarrow> Inl AttributeError | Some s \<Rightarrow> Inr (s_user s = u))"

section \<open>Authors\<close>

definition isAuthor :: "abstract \<Rightarrow> string \<Rightarrow> bool" where
  "isAuthor x i \<longleftrightarrow> bt_get i (authors x) \<noteq> None"

definition isPrimaryAuthor :: "abstract \<Rightarrow> string \<Rightarrow> bool" where
  "isPrimaryAuthor x i \<longleftrightarrow> i \<in> set (primaryAuthors x)"

definition isCoAuthor :: "abstract \<Rightarrow> string \<Rightarrow> bool" where
  "isCoAuthor x i \<longleftrightarrow> i \<in> set (coAuthors x)"

definition isSpeaker :: "abstract \<Rightarrow> string \<Rightarrow> bool" where
  "isSpeaker x i \<longleftrightarrow> i \<in> set (speakers x)"

definition author_of :: "abstract \<Rightarrow> string \<Rightarrow> part" where
  "author_of x i = (case bt_get i (authors x) of None \<Rightarrow> blank_part | Some p \<Rightarrow> p)"

text \<open>A setter called on an author of the abstract, from outside its constructor.\<close>

definition author_setData :: "aid \<Rightarrow> string \<Rightarrow> part_data \<Rightarrow> (review, unit) prog" where
  "author_setData a i d = with_abs a (\<lambda>x. when_do (isAuthor x i)
     (bnd (setData a (isPrimaryAuthor x i) d (author_of x i))
       (\<lambda>p. upd_abs a (\<lambda>x. x\<lparr>authors := bt_put i p (authors x)\<rparr>))))"

definition newAuthor :: "aid \<Rightarrow> part_data \<Rightarrow> (review, string) prog" where
  "newAuthor a d = bnd (setData a False d blank_part) (\<lambda>p. with_abs a (\<lambda>x.
     case newCount (authorGen x) of (i, c) \<Rightarrow>
       andthen (upd_abs a (\<lambda>x. x\<lparr>authorGen := c, authors := bt_put i p (authors x)\<rparr>)) (ret i)))"

definition removeAuthor :: "aid \<Rightarrow> string \<Rightarrow> (review, unit) prog" where
  "removeAuthor a i = with_abs a (\<lambda>x. when_do (isAuthor x i)
     (andthen (part_unindex a (isPrimaryAuthor x i) (author_of x i))
              (upd_abs a (\<lambda>x. x\<lparr>authors := bt_del i (authors x)\<rparr>))))"

definition removeSpeaker :: "aid \<Rightarrow> string \<Rightarrow> (review, unit) prog" where
  "removeSpeaker a i = upd_abs a (\<lambda>x. x\<lparr>speakers := remove1 i (speakers x)\<rparr>)"

definition addSpeaker :: "aid \<Rightarrow> string \<Rightarrow> (review, unit) prog" where
  "addSpeaker a i = with_abs a (\<lambda>x.
     if \<not> isAuthor x i
     then raise_exn (MaKaCError ''The participation you want to set as speaker is not an author of the abstract'')
     else if isSpeaker x i then ret ()
     else andthen (upd_abs a (\<lambda>x. x\<lparr>speakers := speakers x @ [i]\<rparr>)) (notifyModification a))"

definition addPrimaryAuthor :: "aid \<Rightarrow> string \<Rightarrow> (review, unit) prog" where
  "addPrimaryAuthor a i = with_abs a (\<lambda>x.
     if \<not> isAuthor x i
     then raise_exn (MaKaCError ''The participation you want to set as primary author is not an author of the abstract'')
     else if isPrimaryAuthor x i then ret ()
     else andthen (upd_abs a (\<lambda>x. x\<lparr>primaryAuthors := primaryAuthors x @ [i]\<rparr>))
                  (on_owner a (indexAuthor a True (author_of x i))))"

definition newPrimaryAuthor :: "aid \<Rightarrow> part_data \<Rightarrow> (review, string) prog" where
  "newPrimaryAuthor a d = bnd (newAuthor a d) (\<lambda>i.
     andthen (addPrimaryAuthor a i) (andthen (notifyModification a) (ret i)))"

definition removePrimaryAuthor :: "aid \<Rightarrow> string \<Rightarrow> (review, unit) prog" where
  "removePrimaryAuthor a i = with_abs a (\<lambda>x. when_do (isPrimaryAuthor x i)
     (andthen (when_do (isSpeaker x i) (removeSpeaker a i))
     (andthen (on_owner a (unindexAuthor a True (author_of x i)))
     (andthen (upd_abs a (\<lambda>x. x\<lparr>primaryAuthors := remove1 i (primaryAuthors x)\<rparr>))
              (removeAuthor a i)))))"

definition addCoAuthor :: "aid \<Rightarrow> string \<Rightarrow> (review, unit) prog" where
  "addCoAuthor a i = with_abs a (\<lambda>x.
     if \<not> isAuthor x i
     then raise_exn (MaKaCError ''The participation you want to set as primary author is not an author of the abstract'')
     else if isCoAuthor x i then ret ()
     else upd_abs a (\<lambda>x. x\<lparr>coAuthors := coAuthors x @ [i]\<rparr>))"

definition newCoAuthor :: "aid \<Rightarrow> part_data \<Rightarrow> (review, string) prog" where
  "newCoAuthor a d = bnd (newAuthor a d) (\<lambda>i.
     andthen (addCoAuthor a i) (andthen (notifyModification a) (ret i)))"

definition removeCoAuthor :: "aid \<Rightarrow> string \<Rightarrow> (review, unit) prog" where
  "removeCoAuthor a i = with_abs a (\<lambda>x. when_do (isCoAuthor x i)
     (andthen (when_do (isSpeaker x i) (removeSpeaker a i))
     (andthen (upd_abs a (\<lambda>x. x\<lparr>coAuthors := remove1 i (coAuthors x)\<rparr>))
              (removeAuthor a i))))"

text \<open>
  The \<open>clear\<close> methods remove the first element until the list is empty: that is the walk along the
  list as it was.
\<close>

definition clearPrimaryAuthors :: "aid \<Rightarrow> (review, unit) prog" where
  "clearPrimaryAuthors a = andthen
     (with_abs a (\<lambda>x. for_each (primaryAuthors x) (removePrimaryAuthor a))) (notifyModification a)"

definition clearCoAuthors :: "aid \<Rightarrow> (review, unit) prog" where
  "clearCoAuthors a = andthen
     (with_abs a (\<lambda>x. for_each (coAuthors x) (removeCoAuthor a))) (notifyModification a)"

definition clearAuthors :: "aid \<Rightarrow> (review, unit) prog" where
  "clearAuthors a = andthen (clearPrimaryAuthors a)
     (andthen (clearCoAuthors a) (notifyModification a))"

definition clearSpeakers :: "aid \<Rightarrow> (review, unit) prog" where
  "clearSpeakers a = upd_abs a (\<lambda>x. x\<lparr>speakers := []\<rparr>)"

text \<open>\<open>canAuthorAccess\<close>, with the user's e-mail addresses as an argument (\<open>None\<close>: no user).\<close>

definition author_emails :: "abstract \<Rightarrow> string list" where
  "author_emails x = map (\<lambda>i. py_lower (p_email (author_of x i))) (coAuthors x @ primaryAuthors x)"

definition canAuthorAccess :: "abstract \<Rightarrow> string list option \<Rightarrow> bool" where
  "canAuthorAccess x us = (case us of
       None \<Rightarrow> False
     | Some es \<Rightarrow> \<exists>e \<in> set es. py_lower e \<in> set (author_emails x))"

text \<open>The manager's queries.\<close>

definition getAbstractById :: "aid \<Rightarrow> review \<Rightarrow> aid option" where
  "getAbstractById i r = (if i \<in> set (listed r) then Some i else None)"

definition getAbstractsMatchingAuth :: "string \<Rightarrow> review \<Rightarrow> aid option list" where
  "getAbstractsMatchingAuth query r =
     (if py_strip query = [] then map Some (listed r)
      else map (\<lambda>i. getAbstractById i r) (ai_match query (primIdx r)))"

definition getAbstractListForAuthorEmail :: "string \<Rightarrow> review \<Rightarrow> aid option list" where
  "getAbstractListForAuthorEmail email r = map (\<lambda>i. getAbstractById i r) (ai_match email (emailIdx r))"

end
