(* ===== verification/Authors_Inv.thy ===== *)
theory Authors_Inv
  imports Abstract_Authors
begin

text \<open>
  The index of primary authors is exact: for every abstract and every name it counts the primary
  authors of the abstract that have the name, and every operation on authors keeps it so.
\<close>

section \<open>The invariant\<close>

definition name_count :: "abstract \<Rightarrow> string \<Rightarrow> int" where
  "name_count x k = int (length (filter (\<lambda>i. name_key (author_of x i) = k) (primaryAuthors x)))"

definition people_wf :: "abstract \<Rightarrow> bool" where
  "people_wf x \<longleftrightarrow> bt_wf (authors x)
     \<and> distinct (primaryAuthors x) \<and> distinct (coAuthors x) \<and> distinct (speakers x)
     \<and> set (primaryAuthors x) \<inter> set (coAuthors x) = {}
     \<and> set (primaryAuthors x) \<union> set (coAuthors x) = set (map fst (authors x))
     \<and> set (speakers x) \<subseteq> set (map fst (authors x))
     \<and> (\<forall>i \<in> set (map fst (authors x)). \<exists>n < authorGen x. i = str_nat n)"

definition authors_inv :: "review \<Rightarrow> bool" where
  "authors_inv r \<longleftrightarrow> ai_wf (primIdx r) \<and> (\<forall>a. people_wf (abs_at r a))
     \<and> (\<forall>a k. ai_count (primIdx r) k a = (if owned (abs_at r a) then name_count (abs_at r a) k else 0))"

lemma isAuthor_iff: "isAuthor x i \<longleftrightarrow> i \<in> set (map fst (authors x))"
  unfolding isAuthor_def using bt.keys_get [of i "authors x"] by (auto simp: bt_keys_def)

section \<open>Participations\<close>

text \<open>
  What a setter does to the state: a new date, and in the index of primary authors the name of
  \<open>p\<close> replaced by that of \<open>p'\<close> when the participation is a primary author.
\<close>

definition part_step :: "aid \<Rightarrow> bool \<Rightarrow> part \<Rightarrow> part \<Rightarrow> review \<Rightarrow> review \<Rightarrow> bool" where
  "part_step a prim p p' r r' \<longleftrightarrow> (\<exists>t i j.
     r' = r\<lparr>abs_at := (abs_at r)(a := (abs_at r a)\<lparr>modificationDate := t\<rparr>), primIdx := i, emailIdx := j\<rparr>
     \<and> ai_wf i
     \<and> (\<forall>b k. ai_count i k b = ai_count (primIdx r) k b
          + (if prim \<and> owned (abs_at r a) \<and> b = a
             then (if k = name_key p' then 1 else 0) - (if k = name_key p then 1 else 0) else 0)))"

lemma part_stepI:
  assumes "r' = r\<lparr>abs_at := (abs_at r)(a := (abs_at r a)\<lparr>modificationDate := t\<rparr>), primIdx := i, emailIdx := j\<rparr>"
    and "ai_wf i"
    and "\<And>b k. ai_count i k b = ai_count (primIdx r) k b
          + (if prim \<and> owned (abs_at r a) \<and> b = a
             then (if k = name_key p' then 1 else 0) - (if k = name_key p then 1 else 0) else 0)"
  shows "part_step a prim p p' r r'"
  unfolding part_step_def using assms by blast

definition known :: "aid \<Rightarrow> bool \<Rightarrow> part \<Rightarrow> review \<Rightarrow> bool" where
  "known a prim p r \<longleftrightarrow> ai_wf (primIdx r) \<and>
     (prim \<and> owned (abs_at r a) \<longrightarrow> 0 < ai_count (primIdx r) (name_key p) a)"

lemma part_step_refl: "known a prim p r \<Longrightarrow> part_step a prim p p r r"
  by (rule part_stepI [where t = "modificationDate (abs_at r a)" and i = "primIdx r" and j = "emailIdx r"])
    (auto simp: known_def)

lemma part_step_known:
  assumes "part_step a prim p p' r r'" "known a prim p r"
  shows "known a prim p' r'"
proof -
  have "0 \<le> ai_count (primIdx r) (name_key p') a"
    using assms(2) ai_count_nonneg by (simp add: known_def)
  then show ?thesis using assms by (auto simp: part_step_def known_def)
qed

lemma part_step_trans:
  assumes "part_step a prim p p' r r'" "part_step a prim p' p'' r' r''"
  shows "part_step a prim p p'' r r''"
  using assms unfolding part_step_def
  by (elim exE conjE) (rule exI, rule exI, rule exI, intro conjI allI, simp, assumption, auto)

lemma set_indexed_run:
  "set_indexed a prim p p' r = (Inr p', r\<lparr>
     abs_at := (abs_at r)(a := (abs_at r a)\<lparr>modificationDate := now r\<rparr>),
     primIdx := (if prim \<and> owned (abs_at r a)
       then ai_index (name_key p') a (ai_unindex (name_key p) a (primIdx r)) else primIdx r),
     emailIdx := (if owned (abs_at r a)
       then ai_index (email_key p') a (ai_unindex (email_key p) a (emailIdx r)) else emailIdx r)\<rparr>)"
  by (cases prim; cases "owned (abs_at r a)")
    (simp_all add: set_indexed_def part_unindex_def part_index_def unindexAuthor_def indexAuthor_def
      notifyModification_def)

lemma set_indexed_step:
  assumes "known a prim p r"
  shows "\<exists>r'. set_indexed a prim p p' r = (Inr p', r') \<and> part_step a prim p p' r r'"
proof -
  have wf: "ai_wf (primIdx r)" using assms by (simp add: known_def)
  let ?i = "if prim \<and> owned (abs_at r a)
    then ai_index (name_key p') a (ai_unindex (name_key p) a (primIdx r)) else primIdx r"
  have "ai_wf ?i" using wf by (simp add: ai_wf_index ai_wf_unindex)
  moreover have "ai_count ?i k b = ai_count (primIdx r) k b
      + (if prim \<and> owned (abs_at r a) \<and> b = a
         then (if k = name_key p' then 1 else 0) - (if k = name_key p then 1 else 0) else 0)" for b k
    using assms ai_count_unindex [OF wf, of "name_key p" a k b]
    by (auto simp: ai_count_index known_def)
  ultimately have "part_step a prim p p' r (snd (set_indexed a prim p p' r))"
    unfolding set_indexed_run snd_conv by (rule part_stepI [OF refl])
  then show ?thesis by (simp add: set_indexed_run)
qed

text \<open>A program that turns a participation into another by such steps.\<close>

definition part_prog :: "aid \<Rightarrow> bool \<Rightarrow> (part \<Rightarrow> (review, part) prog) \<Rightarrow> bool" where
  "part_prog a prim m \<longleftrightarrow> (\<forall>p r. known a prim p r \<longrightarrow>
     (\<exists>p' r'. m p r = (Inr p', r') \<and> part_step a prim p p' r r'))"

lemma part_prog_ret: "part_prog a prim ret"
  by (auto simp: part_prog_def intro: part_step_refl)

lemma part_prog_bnd:
  assumes "part_prog a prim m" "part_prog a prim f"
  shows "part_prog a prim (\<lambda>p. bnd (m p) f)"
  unfolding part_prog_def
proof (intro allI impI)
  fix p r assume k: "known a prim p r"
  obtain p' r' where 1: "m p r = (Inr p', r')" "part_step a prim p p' r r'"
    using assms(1) k unfolding part_prog_def by blast
  with k have "known a prim p' r'" by (auto intro: part_step_known)
  then obtain p'' r'' where "f p' r' = (Inr p'', r'')" "part_step a prim p' p'' r' r''"
    using assms(2) unfolding part_prog_def by blast
  with 1 show "\<exists>q s. bnd (m p) f r = (Inr q, s) \<and> part_step a prim p q r s"
    by (auto intro: part_step_trans)
qed

lemma part_prog_given:
  "(\<And>v. part_prog a prim (f v)) \<Longrightarrow> part_prog a prim (if_given w f)"
  using part_prog_ret [of a prim] by (cases w) (simp_all add: part_prog_def if_given_def)

lemma part_prog_indexed:
  "part_prog a prim (setFirstName a prim v)" "part_prog a prim (setSurName a prim v)"
  "part_prog a prim (setEmail a prim v)"
  unfolding part_prog_def setFirstName_def setSurName_def setEmail_def Let_def
  by (auto simp: ret_run split: if_splits intro: part_step_refl) (meson set_indexed_step)+

lemma part_prog_plain:
  assumes "\<And>p. name_key (g p) = name_key p"
  shows "part_prog a prim (\<lambda>p. set_plain a (g p))"
  unfolding part_prog_def
proof (intro allI impI)
  fix p r assume k: "known a prim p r"
  have "part_step a prim p (g p) r
      (r\<lparr>abs_at := (abs_at r)(a := (abs_at r a)\<lparr>modificationDate := now r\<rparr>)\<rparr>)"
    by (rule part_stepI [where t = "now r" and i = "primIdx r" and j = "emailIdx r"])
      (use k in \<open>simp_all add: known_def assms\<close>)
  then show "\<exists>q s. set_plain a (g p) r = (Inr q, s) \<and> part_step a prim p q r s"
    by (simp add: set_plain_def notifyModification_def)
qed

lemma part_prog_setData: "part_prog a prim (setData a prim d)"
  unfolding setData_def
  by (intro part_prog_bnd part_prog_given part_prog_indexed part_prog_plain) (simp_all add: name_key_def)

lemma setData_step:
  assumes "known a prim p r"
  obtains p' r' where "setData a prim d p r = (Inr p', r')" "part_step a prim p p' r r'"
  using part_prog_setData assms unfolding part_prog_def by blast

section \<open>The operations keep the invariant\<close>

lemma authors_invD:
  assumes "authors_inv r"
  shows "ai_wf (primIdx r)" and "people_wf (abs_at r a)"
    and "ai_count (primIdx r) k a = (if owned (abs_at r a) then name_count (abs_at r a) k else 0)"
  using assms by (auto simp: authors_inv_def)

text \<open>All the invariant looks at.\<close>

definition people :: "abstract \<Rightarrow> bool \<times> nat \<times> (string \<times> part) list \<times> string list \<times> string list \<times> string list" where
  "people x = (owned x, authorGen x, authors x, primaryAuthors x, coAuthors x, speakers x)"

lemma people_cong:
  assumes "people x = people y"
  shows "people_wf x = people_wf y" "name_count x = name_count y"
  using assms by (auto simp: people_def people_wf_def name_count_def author_of_def intro!: ext)

lemma authors_inv_upd:
  assumes "authors_inv r" "people (abs_at r' a) = people x"
    and "\<And>b. b \<noteq> a \<Longrightarrow> abs_at r' b = abs_at r b" "people_wf x" "ai_wf (primIdx r')"
    and "\<And>k. ai_count (primIdx r') k a = (if owned x then name_count x k else 0)"
    and "\<And>b k. b \<noteq> a \<Longrightarrow> ai_count (primIdx r') k b = ai_count (primIdx r) k b"
  shows "authors_inv r'"
proof -
  have a: "people_wf (abs_at r' a)" "name_count (abs_at r' a) = name_count x" "owned (abs_at r' a) = owned x"
    using people_cong [OF assms(2)] assms(2,4) by (auto simp: people_def)
  have "people_wf (abs_at r' b) \<and> ai_count (primIdx r') k b
      = (if owned (abs_at r' b) then name_count (abs_at r' b) k else 0)" for b k
    using assms(1,3,6,7) a by (cases "b = a") (auto simp: authors_inv_def)
  then show ?thesis using assms(5) unfolding authors_inv_def by blast
qed

lemma authors_inv_cong:
  assumes "primIdx r' = primIdx r" "\<And>a. people (abs_at r' a) = people (abs_at r a)"
  shows "authors_inv r' = authors_inv r"
proof -
  have "people_wf (abs_at r' a) = people_wf (abs_at r a)" "name_count (abs_at r' a) = name_count (abs_at r a)"
    "owned (abs_at r' a) = owned (abs_at r a)" for a
    using people_cong [OF assms(2)] assms(2) [of a] by (auto simp: people_def)
  then show ?thesis by (simp add: authors_inv_def assms(1))
qed

lemma keeps_upd_people:
  "(\<And>x. people (f x) = people x) \<Longrightarrow> keeps authors_inv (upd_abs a f)"
  by (rule keepsI) (auto intro: authors_inv_cong [THEN iffD2])

lemma known_author:
  assumes "authors_inv r" "isPrimaryAuthor (abs_at r a) i"
  shows "known a True (author_of (abs_at r a) i) r"
proof -
  let ?x = "abs_at r a"
  have "i \<in> set (filter (\<lambda>j. name_key (author_of ?x j) = name_key (author_of ?x i)) (primaryAuthors ?x))"
    using assms(2) by (simp add: isPrimaryAuthor_def)
  then have "0 < name_count ?x (name_key (author_of ?x i))"
    unfolding name_count_def by (metis length_pos_if_in_set of_nat_0_less_iff)
  then show ?thesis using authors_invD [OF assms(1)] by (simp add: known_def)
qed

lemma author_of_put: "author_of (x\<lparr>authors := bt_put i p m\<rparr>) j = (if j = i then p else case bt_get j m of None \<Rightarrow> blank_part | Some q \<Rightarrow> q)"
  by (simp add: author_of_def bt_get_put)

text \<open>Counting a name along the list, when one author's record changes or one author leaves.\<close>

lemma filter_length_upd:
  fixes f :: "'b \<Rightarrow> 'c"
  assumes "distinct xs" "i \<in> set xs" "\<And>j. P j = ((if j = i then v else f j) = k)"
  shows "int (length (filter P xs))
    = int (length (filter (\<lambda>j. f j = k) xs)) + (if v = k then 1 else 0) - (if f i = k then 1 else 0)"
  using assms(1,2)
proof (induction xs)
  case (Cons x xs)
  show ?case
  proof (cases "x = i")
    case True
    with Cons.prems have "filter P xs = filter (\<lambda>j. f j = k) xs"
      by (intro filter_cong) (auto simp: assms(3))
    moreover have "P x = (v = k)" using True assms(3) [of x] by simp
    ultimately show ?thesis using True by simp
  next
    case False
    then have "P x = (f x = k)" using assms(3) [of x] by simp
    with Cons False show ?thesis by (cases "v = k"; cases "f i = k"; simp)
  qed
qed simp

lemma filter_length_remove1:
  assumes "i \<in> set xs"
  shows "int (length (filter P (remove1 i xs))) = int (length (filter P xs)) - (if P i then 1 else 0)"
  using assms by (induction xs) auto

lemma keeps_author_setData: "keeps authors_inv (author_setData a i d)"
proof (rule keepsI)
  fix r assume inv: "authors_inv r"
  let ?x = "abs_at r a"
  show "authors_inv (snd (author_setData a i d r))"
  proof (cases "isAuthor ?x i")
    case False
    then show ?thesis using inv by (simp add: author_setData_def)
  next
    case True
    have "known a (isPrimaryAuthor ?x i) (author_of ?x i) r"
      using known_author [OF inv] authors_invD(1) [OF inv] by (auto simp: known_def)
    then obtain p r' where run: "setData a (isPrimaryAuthor ?x i) d (author_of ?x i) r = (Inr p, r')"
      and st: "part_step a (isPrimaryAuthor ?x i) (author_of ?x i) p r r'"
      by (rule setData_step)
    from st obtain t m j where
      r': "r' = r\<lparr>abs_at := (abs_at r)(a := ?x\<lparr>modificationDate := t\<rparr>), primIdx := m, emailIdx := j\<rparr>"
      and m: "ai_wf m" "\<And>b k. ai_count m k b = ai_count (primIdx r) k b
          + (if isPrimaryAuthor ?x i \<and> owned ?x \<and> b = a
             then (if k = name_key p then 1 else 0) - (if k = name_key (author_of ?x i) then 1 else 0) else 0)"
      unfolding part_step_def by blast
    let ?x' = "?x\<lparr>modificationDate := t, authors := bt_put i p (authors ?x)\<rparr>"
    have out: "snd (author_setData a i d r) = r\<lparr>abs_at := (abs_at r)(a := ?x'), primIdx := m, emailIdx := j\<rparr>"
      using True by (simp add: author_setData_def run r')
    have wf: "people_wf ?x" using authors_invD(2) [OF inv] .
    have wf': "people_wf ?x'"
      using wf True bt_keys_put [of i p "authors ?x"]
      by (simp add: people_wf_def bt_wf_put isAuthor_iff insert_absorb del: set_map list.set_map)
    have "author_of ?x' l = (if l = i then p else author_of ?x l)" for l
      by (simp add: author_of_def bt_get_put)
    then have nk: "name_key (author_of ?x' l) = (if l = i then name_key p else name_key (author_of ?x l))" for l
      by simp
    have cnt: "name_count ?x' k = name_count ?x k
        + (if isPrimaryAuthor ?x i then (if k = name_key p then 1 else 0)
             - (if k = name_key (author_of ?x i) then 1 else 0) else 0)" for k
    proof (cases "isPrimaryAuthor ?x i")
      case True
      with wf show ?thesis
        using filter_length_upd [of "primaryAuthors ?x" i "\<lambda>l. name_key (author_of ?x' l) = k"
            "name_key p" "\<lambda>l. name_key (author_of ?x l)" k]
        by (auto simp: name_count_def nk people_wf_def isPrimaryAuthor_def)
    next
      case False
      then have "filter (\<lambda>l. name_key (author_of ?x' l) = k) (primaryAuthors ?x)
          = filter (\<lambda>l. name_key (author_of ?x l) = k) (primaryAuthors ?x)"
        by (intro filter_cong) (auto simp: nk isPrimaryAuthor_def)
      with False show ?thesis by (simp add: name_count_def)
    qed
    show ?thesis
      unfolding out
      by (rule authors_inv_upd [OF inv, of _ a ?x'])
        (use wf' m cnt authors_invD(3) [OF inv] in \<open>auto simp: m(2)\<close>)
  qed
qed

lemma fresh_author:
  assumes "people_wf x"
  shows "str_nat (authorGen x) \<notin> set (map fst (authors x))"
  using assms by (auto simp: people_wf_def simp del: set_map list.set_map)

lemma newAuthor_run:
  assumes "authors_inv r"
  obtains p t m j where
    "newAuthor a d r = (Inr (str_nat (authorGen (abs_at r a))), r\<lparr>abs_at := (abs_at r)(a := (abs_at r a)\<lparr>
       modificationDate := t, authorGen := Suc (authorGen (abs_at r a)),
       authors := bt_put (str_nat (authorGen (abs_at r a))) p (authors (abs_at r a))\<rparr>),
       primIdx := m, emailIdx := j\<rparr>)"
    "ai_wf m" "\<And>b k. ai_count m k b = ai_count (primIdx r) k b"
proof -
  have "known a False blank_part r" using authors_invD(1) [OF assms] by (simp add: known_def)
  then obtain p r' where run: "setData a False d blank_part r = (Inr p, r')"
    and st: "part_step a False blank_part p r r'"
    by (rule setData_step)
  from st obtain t m j where
    "r' = r\<lparr>abs_at := (abs_at r)(a := (abs_at r a)\<lparr>modificationDate := t\<rparr>), primIdx := m, emailIdx := j\<rparr>"
    "ai_wf m" "\<And>b k. ai_count m k b = ai_count (primIdx r) k b"
    unfolding part_step_def by auto
  then show thesis by (intro that [where p = p and t = t and m = m and j = j]) (simp_all add: newAuthor_def run newCount_def)
qed

text \<open>A new author who is made primary or co-author at once.\<close>

lemma people_wf_new:
  assumes "people_wf x" and n: "n = str_nat (authorGen x)"
    and x': "authors x' = bt_put n p (authors x)" "authorGen x' = Suc (authorGen x)" "speakers x' = speakers x"
    and "(primaryAuthors x' = primaryAuthors x @ [n] \<and> coAuthors x' = coAuthors x) \<or>
         (primaryAuthors x' = primaryAuthors x \<and> coAuthors x' = coAuthors x @ [n])"
  shows "people_wf x'"
proof -
  have fresh: "n \<notin> set (map fst (authors x))" using fresh_author [OF assms(1)] n by simp
  moreover have "set (map fst (authors x')) = insert n (set (map fst (authors x)))"
    unfolding x' by (rule bt_keys_put)
  moreover have "\<exists>m < authorGen x'. i = str_nat m" if "i = n \<or> (\<exists>m < authorGen x. i = str_nat m)" for i
    using that n x'(2) less_Suc_eq by auto
  moreover have "bt_wf (authors x')" using assms(1) x'(1) by (simp add: bt_wf_put people_wf_def)
  ultimately show ?thesis
    using assms(1,6) x'(3) unfolding people_wf_def
    by (elim disjE conjE) (simp_all del: set_map list.set_map, blast+)
qed

lemma author_of_new:
  assumes "people_wf x" "authors x' = bt_put (str_nat (authorGen x)) p (authors x)"
  shows "filter (\<lambda>l. name_key (author_of x' l) = k) (primaryAuthors x)
       = filter (\<lambda>l. name_key (author_of x l) = k) (primaryAuthors x)"
proof (rule filter_cong [OF refl])
  fix l assume "l \<in> set (primaryAuthors x)"
  then have "l \<noteq> str_nat (authorGen x)"
    using fresh_author [OF assms(1)] assms(1) by (auto simp: people_wf_def)
  then show "(name_key (author_of x' l) = k) = (name_key (author_of x l) = k)"
    by (simp add: author_of_def assms(2) bt_get_put)
qed

lemma keeps_newCoAuthor: "keeps authors_inv (newCoAuthor a d)"
proof (rule keepsI)
  fix r assume inv: "authors_inv r"
  let ?x = "abs_at r a" and ?n = "str_nat (authorGen (abs_at r a))"
  obtain p t m j where run: "newAuthor a d r = (Inr ?n, r\<lparr>abs_at := (abs_at r)(a := ?x\<lparr>
       modificationDate := t, authorGen := Suc (authorGen ?x),
       authors := bt_put ?n p (authors ?x)\<rparr>), primIdx := m, emailIdx := j\<rparr>)"
    and m: "ai_wf m" "\<And>b k. ai_count m k b = ai_count (primIdx r) k b"
    by (rule newAuthor_run [where a = a and d = d, OF inv]) (rule that; assumption)
  have wf: "people_wf ?x" using authors_invD(2) [OF inv] .
  have nco: "\<not> isCoAuthor ?x ?n"
    using fresh_author [OF wf] wf by (auto simp: isCoAuthor_def people_wf_def)
  let ?x' = "?x\<lparr>authorGen := Suc (authorGen ?x),
       authors := bt_put ?n p (authors ?x), coAuthors := coAuthors ?x @ [?n]\<rparr>"
  let ?r = "snd (newCoAuthor a d r)"
  have out: "people (abs_at ?r a) = people ?x'" "primIdx ?r = m" "\<And>b. b \<noteq> a \<Longrightarrow> abs_at ?r b = abs_at r b"
    using nco by (simp_all add: newCoAuthor_def run addCoAuthor_def isAuthor_def isCoAuthor_def bt_get_put
        notifyModification_def people_def)
  have cnt: "name_count ?x' k = name_count ?x k" for k
    using author_of_new [OF wf, of ?x' p k] by (simp add: name_count_def)
  show "authors_inv ?r"
    by (rule authors_inv_upd [OF inv out(1,3)])
      (use m cnt authors_invD(3) [OF inv] people_wf_new [OF wf refl, of ?x' p] in \<open>auto simp: m(2) out(2)\<close>)
qed

lemma keeps_newPrimaryAuthor: "keeps authors_inv (newPrimaryAuthor a d)"
proof (rule keepsI)
  fix r assume inv: "authors_inv r"
  let ?x = "abs_at r a" and ?n = "str_nat (authorGen (abs_at r a))"
  obtain p t m j where run: "newAuthor a d r = (Inr ?n, r\<lparr>abs_at := (abs_at r)(a := ?x\<lparr>
       modificationDate := t, authorGen := Suc (authorGen ?x),
       authors := bt_put ?n p (authors ?x)\<rparr>), primIdx := m, emailIdx := j\<rparr>)"
    and m: "ai_wf m" "\<And>b k. ai_count m k b = ai_count (primIdx r) k b"
    by (rule newAuthor_run [where a = a and d = d, OF inv]) (rule that; assumption)
  have wf: "people_wf ?x" using authors_invD(2) [OF inv] .
  have npr: "\<not> isPrimaryAuthor ?x ?n"
    using fresh_author [OF wf] wf by (auto simp: isPrimaryAuthor_def people_wf_def)
  define x' where "x' = ?x\<lparr>authorGen := Suc (authorGen ?x),
       authors := bt_put ?n p (authors ?x), primaryAuthors := primaryAuthors ?x @ [?n]\<rparr>"
  let ?r = "snd (newPrimaryAuthor a d r)"
  have an: "author_of x' ?n = p" by (simp add: x'_def author_of_def bt_get_put)
  have out: "people (abs_at ?r a) = people x'" "\<And>b. b \<noteq> a \<Longrightarrow> abs_at ?r b = abs_at r b"
    "primIdx ?r = (if owned ?x then ai_index (name_key p) a m else m)"
    using npr by (cases "owned ?x"; simp add: newPrimaryAuthor_def run addPrimaryAuthor_def isAuthor_def
        isPrimaryAuthor_def bt_get_put notifyModification_def on_owner_def indexAuthor_def author_of_def
        x'_def people_def)+
  have cnt: "name_count x' k = name_count ?x k + (if name_key p = k then 1 else 0)" for k
    using author_of_new [OF wf, of x' p k] an by (simp add: name_count_def x'_def)
  have "people_wf x'" by (rule people_wf_new [OF wf refl, of _ p]) (simp_all add: x'_def)
  moreover have "owned x' = owned ?x" by (simp add: x'_def)
  ultimately show "authors_inv ?r"
    using m cnt authors_invD(3) [OF inv]
    by (intro authors_inv_upd [OF inv out(1,2)]) (auto simp: ai_wf_index ai_count_index m(2) out(3))
qed

text \<open>An author who leaves.\<close>

lemma people_wf_gone:
  assumes "people_wf x" and x': "authors x' = bt_del i (authors x)" "authorGen x' = authorGen x"
    "primaryAuthors x' = remove1 i (primaryAuthors x)" "coAuthors x' = remove1 i (coAuthors x)"
    "speakers x' = remove1 i (speakers x)"
  shows "people_wf x'"
proof -
  have "set (map fst (authors x')) = set (map fst (authors x)) - {i}"
    unfolding x' using bt.keys_del [of i "authors x"] by (simp add: bt_keys_def)
  moreover have "bt_wf (authors x')" using assms(1) x'(1) by (simp add: bt_wf_del people_wf_def)
  ultimately show ?thesis
    using assms(1) x'(2-) unfolding people_wf_def
    by (elim conjE) (simp del: set_map list.set_map, blast)
qed

lemma author_of_gone:
  assumes "authors x' = bt_del i (authors x)" "i \<notin> set xs"
  shows "filter (\<lambda>l. name_key (author_of x' l) = k) xs = filter (\<lambda>l. name_key (author_of x l) = k) xs"
  using assms(2) by (intro filter_cong [OF refl]) (auto simp: author_of_def assms(1) bt_get_del)

lemma removeAuthor_run:
  assumes "isAuthor (abs_at r a) i" "\<not> isPrimaryAuthor (abs_at r a) i"
  shows "abs_at (snd (removeAuthor a i r)) =
      (abs_at r)(a := (abs_at r a)\<lparr>authors := bt_del i (authors (abs_at r a))\<rparr>)"
    and "primIdx (snd (removeAuthor a i r)) = primIdx r"
  using assms by (cases "owned (abs_at r a)"; simp add: removeAuthor_def part_unindex_def unindexAuthor_def)+

lemma gone_speakers: "\<not> isSpeaker x i \<Longrightarrow> remove1 i (speakers x) = speakers x"
  by (simp add: isSpeaker_def remove1_idem)

lemma keeps_removeCoAuthor: "keeps authors_inv (removeCoAuthor a i)"
proof (rule keepsI)
  fix r assume inv: "authors_inv r"
  let ?x = "abs_at r a" and ?r = "snd (removeCoAuthor a i r)"
  show "authors_inv ?r"
  proof (cases "isCoAuthor ?x i")
    case False
    then show ?thesis using inv by (simp add: removeCoAuthor_def)
  next
    case True
    have wf: "people_wf ?x" using authors_invD(2) [OF inv] .
    have np: "i \<notin> set (primaryAuthors ?x)" and au: "isAuthor ?x i"
      using wf True by (auto simp: people_wf_def isCoAuthor_def isAuthor_iff)
    define x' where "x' = ?x\<lparr>speakers := remove1 i (speakers ?x), coAuthors := remove1 i (coAuthors ?x),
      authors := bt_del i (authors ?x)\<rparr>"
    define y where "y = (if isSpeaker ?x i then ?x\<lparr>speakers := remove1 i (speakers ?x)\<rparr> else ?x)"
    define s where "s = r\<lparr>abs_at := (abs_at r)(a := y\<lparr>coAuthors := remove1 i (coAuthors y)\<rparr>)\<rparr>"
    have "?r = snd (removeAuthor a i s)"
      using True by (cases "isSpeaker ?x i") (simp_all add: removeCoAuthor_def removeSpeaker_def s_def y_def)
    moreover have "isAuthor (abs_at s a) i" "\<not> isPrimaryAuthor (abs_at s a) i"
      using np au by (simp_all add: s_def y_def isAuthor_def isPrimaryAuthor_def)
    ultimately have out: "people (abs_at ?r a) = people x'" "\<And>b. b \<noteq> a \<Longrightarrow> abs_at ?r b = abs_at r b"
      "primIdx ?r = primIdx r"
      using gone_speakers [of ?x i] by (simp_all add: removeAuthor_run) (simp_all add: people_def s_def y_def x'_def)
    have "name_count x' k = name_count ?x k" for k
      using author_of_gone [of x' i ?x _ k, OF _ np] by (simp add: name_count_def x'_def)
    moreover have "people_wf x'"
      by (rule people_wf_gone [OF wf, of _ i]) (simp_all add: x'_def np remove1_idem)
    moreover have "owned x' = owned ?x" by (simp add: x'_def)
    ultimately show ?thesis
      using authors_invD [OF inv] by (intro authors_inv_upd [OF inv out(1,2)]) (auto simp: out(3))
  qed
qed

lemma keeps_removePrimaryAuthor: "keeps authors_inv (removePrimaryAuthor a i)"
proof (rule keepsI)
  fix r assume inv: "authors_inv r"
  let ?x = "abs_at r a" and ?r = "snd (removePrimaryAuthor a i r)"
  define y where "y = (if isSpeaker ?x i then ?x\<lparr>speakers := remove1 i (speakers ?x)\<rparr> else ?x)"
  have wf: "people_wf ?x" using authors_invD(2) [OF inv] .
  have run: "?r = snd (andthen (on_owner a (unindexAuthor a True (author_of ?x i)))
     (andthen (upd_abs a (\<lambda>x. x\<lparr>primaryAuthors := remove1 i (primaryAuthors x)\<rparr>)) (removeAuthor a i))
     (r\<lparr>abs_at := (abs_at r)(a := y)\<rparr>))" if "isPrimaryAuthor ?x i"
    using that by (cases "isSpeaker ?x i") (simp_all add: removePrimaryAuthor_def removeSpeaker_def y_def)
  consider "\<not> isPrimaryAuthor ?x i" | "isPrimaryAuthor ?x i" "\<not> owned ?x" | "isPrimaryAuthor ?x i" "owned ?x"
    by blast
  then show "authors_inv ?r"
  proof cases
    case 1
    then show ?thesis using inv by (simp add: removePrimaryAuthor_def)
  next
    case 2
    have oy: "\<not> owned y" using 2 by (simp add: y_def)
    have out: "people (abs_at ?r a) = people y" "\<And>b. b \<noteq> a \<Longrightarrow> abs_at ?r b = abs_at r b"
      "primIdx ?r = primIdx r"
      unfolding run [OF 2(1)] using oy by (simp_all add: on_owner_def)
    have "people_wf y" using wf by (auto simp: people_wf_def y_def dest: notin_set_remove1)
    then show ?thesis
      using authors_invD [OF inv] 2 oy by (intro authors_inv_upd [OF inv out(1,2)]) (auto simp: out(3))
  next
    case 3
    let ?k = "name_key (author_of ?x i)"
    define x' where "x' = ?x\<lparr>speakers := remove1 i (speakers ?x),
      primaryAuthors := remove1 i (primaryAuthors ?x), authors := bt_del i (authors ?x)\<rparr>"
    have ip: "i \<in> set (primaryAuthors ?x)" using 3 by (simp add: isPrimaryAuthor_def)
    have np: "i \<notin> set (remove1 i (primaryAuthors ?x))" and nc: "i \<notin> set (coAuthors ?x)" and au: "isAuthor ?x i"
      using wf ip by (auto simp: people_wf_def isAuthor_iff)
    define s where "s = snd (andthen (on_owner a (unindexAuthor a True (author_of ?x i)))
      (upd_abs a (\<lambda>x. x\<lparr>primaryAuthors := remove1 i (primaryAuthors x)\<rparr>)) (r\<lparr>abs_at := (abs_at r)(a := y)\<rparr>))"
    have sd: "abs_at s = (abs_at r)(a := y\<lparr>primaryAuthors := remove1 i (primaryAuthors y)\<rparr>)"
      "primIdx s = ai_unindex ?k a (primIdx r)"
      using 3 by (simp_all add: s_def on_owner_def unindexAuthor_def y_def)
    have "?r = snd (removeAuthor a i s)"
      unfolding run [OF 3(1)] s_def using 3 by (simp add: on_owner_def unindexAuthor_def y_def)
    moreover have "isAuthor (abs_at s a) i" "\<not> isPrimaryAuthor (abs_at s a) i"
      using np au by (simp_all add: sd y_def isAuthor_def isPrimaryAuthor_def)
    ultimately have out: "people (abs_at ?r a) = people x'" "\<And>b. b \<noteq> a \<Longrightarrow> abs_at ?r b = abs_at r b"
      "primIdx ?r = ai_unindex ?k a (primIdx r)"
      using gone_speakers [of ?x i] by (simp_all add: removeAuthor_run) (simp_all add: people_def sd y_def x'_def)
    have cnt: "name_count x' k = name_count ?x k - (if k = ?k then 1 else 0)" for k
      using filter_length_remove1 [OF ip, of "\<lambda>l. name_key (author_of ?x l) = k"]
        author_of_gone [of x' i ?x "remove1 i (primaryAuthors ?x)" k, OF _ np]
      by (auto simp: name_count_def x'_def)
    have "0 < ai_count (primIdx r) ?k a" using known_author [OF inv 3(1)] 3(2) by (simp add: known_def)
    moreover have "people_wf x'"
      by (rule people_wf_gone [OF wf, of _ i]) (simp_all add: x'_def nc remove1_idem)
    moreover have "owned x'" using 3(2) by (simp add: x'_def)
    ultimately show ?thesis
      using authors_invD [OF inv] cnt 3(2) ai_count_unindex [of "primIdx r" ?k a]
      by (intro authors_inv_upd [OF inv out(1,2)]) (auto simp: out(3) ai_wf_unindex)
  qed
qed

lemma keeps_with_abs:
  "(\<And>r. I r \<Longrightarrow> I (snd (f (abs_at r a) r))) \<Longrightarrow> keeps I (with_abs a f)"
  by (rule keepsI) simp

lemma keeps_with_abs_any [keeps_intros]: "(\<And>x. keeps I (f x)) \<Longrightarrow> keeps I (with_abs a f)"
  by (simp add: keeps_def)

lemma keeps_bnd_newPart:
  assumes "\<And>p. keeps authors_inv (f p)"
  shows "keeps authors_inv (bnd (setData a False d blank_part) f)"
proof (rule keepsI)
  fix r assume inv: "authors_inv r"
  then have "known a False blank_part r" by (simp add: known_def authors_invD)
  then obtain p r' where run: "setData a False d blank_part r = (Inr p, r')"
    and st: "part_step a False blank_part p r r'"
    by (rule setData_step)
  from st have "ai_wf (primIdx r')" "\<And>b. people (abs_at r' b) = people (abs_at r b)"
    "\<And>b k. ai_count (primIdx r') k b = ai_count (primIdx r) k b"
    by (auto simp: part_step_def people_def split: if_splits)
  then have "authors_inv r'"
    using inv people_cong [of "abs_at r' _" "abs_at r _"] by (auto simp: authors_inv_def people_def)
  with assms run show "authors_inv (snd (bnd (setData a False d blank_part) f r))"
    by (simp add: keeps_def)
qed

lemma keeps_emailIdx:
  "(\<And>r. primIdx (f r) = primIdx r) \<Longrightarrow> (\<And>r. abs_at (f r) = abs_at r) \<Longrightarrow> keeps authors_inv (modify f)"
  by (rule keepsI) (simp add: authors_inv_def)

lemma keeps_notify_authors [keeps_intros]: "keeps authors_inv (notifyModification a)"
  unfolding notifyModification_def by (intro keeps_intros keeps_upd_people) (simp add: people_def)

lemma keeps_part_unindex_other: "keeps authors_inv (part_unindex a False p)"
  unfolding part_unindex_def unindexAuthor_def when_do_def
  by (simp, intro keeps_intros keeps_emailIdx) simp_all

lemma keeps_on_owner [keeps_intros]: "keeps I m \<Longrightarrow> keeps I (on_owner a m)"
  unfolding on_owner_def by (intro keeps_intros) auto

lemma keeps_setSubmitter: "keeps authors_inv (setSubmitter a av)"
  unfolding setSubmitter_def new_submitter_def submitter_delete_def registerParticipation_def
    unregisterParticipation_def
  by (intro keeps_intros keeps_part_unindex_other keeps_emailIdx keeps_upd_people
      keeps_bnd_gets keeps_bnd keeps_bnd_newPart | simp add: people_def Let_def get_st_def [symmetric])+

lemma keeps_speakers:
  assumes "\<And>x. people_wf x \<Longrightarrow> distinct (f (speakers x)) \<and> set (f (speakers x)) \<subseteq> set (speakers x)"
  shows "keeps authors_inv (upd_abs a (\<lambda>x. x\<lparr>speakers := f (speakers x)\<rparr>))"
proof (rule keepsI)
  fix r assume inv: "authors_inv r"
  let ?x = "abs_at r a" and ?y = "(abs_at r a)\<lparr>speakers := f (speakers (abs_at r a))\<rparr>"
  have "people_wf ?y"
    using assms [of ?x] authors_invD(2) [OF inv, of a] by (auto simp: people_wf_def)
  moreover have "name_count ?y k = name_count ?x k" for k by (simp add: name_count_def author_of_def)
  ultimately show "authors_inv (snd (upd_abs a (\<lambda>x. x\<lparr>speakers := f (speakers x)\<rparr>) r))"
    using authors_invD [OF inv] by (intro authors_inv_upd [OF inv, of _ a ?y]) auto
qed

lemma keeps_removeSpeaker: "keeps authors_inv (removeSpeaker a i)"
  unfolding removeSpeaker_def
  by (rule keeps_speakers) (auto simp: people_wf_def dest: notin_set_remove1)

lemma keeps_clearSpeakers: "keeps authors_inv (clearSpeakers a)"
  unfolding clearSpeakers_def by (rule keeps_speakers [of "\<lambda>_. []"]) simp

lemma keeps_addSpeaker: "keeps authors_inv (addSpeaker a i)"
proof (rule keepsI)
  fix r assume inv: "authors_inv r"
  let ?x = "abs_at r a" and ?r = "snd (addSpeaker a i r)"
  show "authors_inv ?r"
  proof (cases "isAuthor ?x i \<and> \<not> isSpeaker ?x i")
    case True
    let ?y = "?x\<lparr>speakers := speakers ?x @ [i]\<rparr>"
    have out: "people (abs_at ?r a) = people ?y" "\<And>b. b \<noteq> a \<Longrightarrow> abs_at ?r b = abs_at r b"
      "primIdx ?r = primIdx r"
      using True by (simp_all add: addSpeaker_def notifyModification_def people_def)
    have "people_wf ?y"
      using True authors_invD(2) [OF inv, of a]
      by (auto simp: people_wf_def isSpeaker_def isAuthor_iff simp del: set_map list.set_map)
    moreover have "name_count ?y k = name_count ?x k" for k by (simp add: name_count_def author_of_def)
    ultimately show ?thesis
      using authors_invD [OF inv] by (intro authors_inv_upd [OF inv out(1,2)]) (auto simp: out(3))
  next
    case False
    then show ?thesis using inv by (auto simp: addSpeaker_def)
  qed
qed

lemma keeps_clearAuthors: "keeps authors_inv (clearAuthors a)"
  unfolding clearAuthors_def clearPrimaryAuthors_def clearCoAuthors_def
  by (intro keeps_intros keeps_removePrimaryAuthor keeps_removeCoAuthor)

lemmas keeps_people =
  keeps_author_setData keeps_newPrimaryAuthor keeps_newCoAuthor keeps_removePrimaryAuthor
  keeps_removeCoAuthor keeps_setSubmitter keeps_removeSpeaker keeps_addSpeaker keeps_clearSpeakers
  keeps_clearAuthors

text \<open>What the invariant gives: the search finds the abstracts with a matching primary author.\<close>

lemma prim_match:
  assumes "authors_inv r"
  shows "a \<in> set (ai_match query (primIdx r)) \<longleftrightarrow> owned (abs_at r a) \<and>
    (\<exists>i \<in> set (primaryAuthors (abs_at r a)).
       str_contains (py_strip (py_lower query)) (name_key (author_of (abs_at r a) i)))"
proof -
  have "0 < name_count x k \<longleftrightarrow> (\<exists>i \<in> set (primaryAuthors x). name_key (author_of x i) = k)" for x k
    by (auto simp: name_count_def filter_empty_conv)
  then show ?thesis
    using ai_match_iff [OF authors_invD(1) [OF assms], of a query] authors_invD(3) [OF assms] by auto
qed

end
