(* ===== verification/Judgements.thy ===== *)
theory Judgements
  imports Authors_Inv
begin

text \<open>
  The reviewers' judgements of an abstract (\<open>AbstractJudgement\<close> and its subclasses, and the
  judgement methods of \<open>Abstract\<close> in \<open>MaKaC/review.py\<close>): the history of judgements of each track,
  newest first, the last acceptance, rejection or reallocation of each track, and the rating.
\<close>

section \<open>Judgement objects\<close>

definition answers_of :: "jid \<Rightarrow> review \<Rightarrow> answer list" where
  "answers_of j r = answers_at r (j_answers (jud_at r j))"

text \<open>\<open>AbstractJudgement.__init__\<close>, for a subclass's attributes \<open>k\<close> and the list of answers \<open>l\<close>.\<close>

definition new_judgement :: "jud_kind \<Rightarrow> tid option \<Rightarrow> uid \<Rightarrow> nat \<Rightarrow> (review, jid) prog" where
  "new_judgement k t resp l = bnd get_st (\<lambda>r.
     bnd (lift_res (calculateJudgementAverage (answers_at r l))) (\<lambda>v.
     bnd (lift_res (calculateAnswersTotalValue (answers_at r l))) (\<lambda>s.
       let j = next_obj r
       in andthen (modify (\<lambda>r. r\<lparr>next_obj := Suc j, jud_at := (jud_at r)(j :=
            \<lparr>j_kind = k, j_track = t, j_responsible = resp, j_date = now r, j_comment = [],
             j_answers = l, j_value = v, j_total = s\<rparr>)\<rparr>))
          (ret j))))"

definition upd_jud :: "jid \<Rightarrow> (judgement \<Rightarrow> judgement) \<Rightarrow> (review, unit) prog" where
  "upd_jud j f = modify (\<lambda>r. r\<lparr>jud_at := (jud_at r)(j := f (jud_at r j))\<rparr>)"

definition setComment :: "jid \<Rightarrow> string \<Rightarrow> (review, unit) prog" where
  "setComment j c = upd_jud j (\<lambda>x. x\<lparr>j_comment := py_strip c\<rparr>)"

definition recalculateJudgementValues :: "int \<Rightarrow> int \<Rightarrow> jid \<Rightarrow> (review, unit) prog" where
  "recalculateJudgementValues lo hi j = bnd get_st (\<lambda>r.
     let l = j_answers (jud_at r j)
     in case rate_answers lo hi (answers_at r l) of (res, as) \<Rightarrow>
        andthen (modify (\<lambda>r. r\<lparr>answers_at := (answers_at r)(l := as)\<rparr>))
        (andthen (lift_res res)
        (bnd (lift_res (calculateJudgementAverage as)) (\<lambda>v.
         andthen (upd_jud j (\<lambda>x. x\<lparr>j_value := v\<rparr>))
         (bnd (lift_res (calculateAnswersTotalValue as)) (\<lambda>s.
          upd_jud j (\<lambda>x. x\<lparr>j_total := s\<rparr>)))))))"

definition removeAnswer :: "string \<Rightarrow> jid \<Rightarrow> (review, unit) prog" where
  "removeAnswer q j = modify (\<lambda>r. let l = j_answers (jud_at r j)
     in r\<lparr>answers_at := (answers_at r)(l := remove_answers q (answers_at r l))\<rparr>)"

section \<open>The history\<close>

definition track_key :: "tid option \<Rightarrow> string" where
  "track_key t = (case t of None \<Rightarrow> ''notrack'' | Some i \<Rightarrow> i)"

definition getJudgementHistoryByTrack :: "abstract \<Rightarrow> tid option \<Rightarrow> jid list" where
  "getJudgementHistoryByTrack x t = (case history x (track_key t) of None \<Rightarrow> [] | Some l \<Rightarrow> l)"

definition addTrackJudgementToHistorical :: "aid \<Rightarrow> jid \<Rightarrow> (review, unit) prog" where
  "addTrackJudgementToHistorical a j = bnd (gets (\<lambda>r. track_key (j_track (jud_at r j)))) (\<lambda>k.
     andthen (upd_abs a (\<lambda>x. x\<lparr>history := (history x)(k :=
         (case history x k of
            Some l \<Rightarrow> Some (if j \<in> set l then l else j # l)
          | None \<Rightarrow> Some [j]))\<rparr>))
     (notifyModification a))"

text \<open>
  \<open>_removePreviousJud\<close>: the judgements of a user on a track leave its history; only when there is
  one to remove is the track itself looked at.
\<close>

definition removePreviousJud :: "aid \<Rightarrow> uid \<Rightarrow> tid option \<Rightarrow> (review, unit) prog" where
  "removePreviousJud a u t = bnd get_st (\<lambda>r.
     let l = getJudgementHistoryByTrack (abs_at r a) t;
         del = filter (\<lambda>j. j_responsible (jud_at r j) = u) l
     in if del = [] then ret ()
        else (case t of
            None \<Rightarrow> raise_exn AttributeError
          | Some i \<Rightarrow> upd_abs a (\<lambda>x. x\<lparr>history :=
              (history x)(i := Some (fold remove1 del l))\<rparr>)))"

section \<open>The last judgement of each track\<close>

definition removeTrackAcceptance :: "aid \<Rightarrow> tid \<Rightarrow> (review, unit) prog" where
  "removeTrackAcceptance a t = upd_abs a (\<lambda>x. x\<lparr>acceptances := bt_del t (acceptances x)\<rparr>)"

definition removeTrackRejection :: "aid \<Rightarrow> tid \<Rightarrow> (review, unit) prog" where
  "removeTrackRejection a t = upd_abs a (\<lambda>x. x\<lparr>rejections := bt_del t (rejections x)\<rparr>)"

definition removeTrackReallocation :: "aid \<Rightarrow> tid \<Rightarrow> (review, unit) prog" where
  "removeTrackReallocation a t = upd_abs a (\<lambda>x. x\<lparr>reallocations := bt_del t (reallocations x)\<rparr>)"

text \<open>\<open>judgement.getTrack().getId()\<close>; a judgement without a track raises.\<close>

definition with_track :: "jid \<Rightarrow> (tid \<Rightarrow> (review, unit) prog) \<Rightarrow> (review, unit) prog" where
  "with_track j f = bnd (gets (\<lambda>r. j_track (jud_at r j))) (\<lambda>t.
     case t of None \<Rightarrow> raise_exn AttributeError | Some i \<Rightarrow> f i)"

definition addTrackAcceptance :: "aid \<Rightarrow> jid \<Rightarrow> (review, unit) prog" where
  "addTrackAcceptance a j = with_track j (\<lambda>t.
     andthen (removeTrackRejection a t)
     (andthen (removeTrackReallocation a t)
     (andthen (upd_abs a (\<lambda>x. x\<lparr>acceptances := bt_put t j (acceptances x)\<rparr>))
              (addTrackJudgementToHistorical a j))))"

definition addTrackRejection :: "aid \<Rightarrow> jid \<Rightarrow> (review, unit) prog" where
  "addTrackRejection a j = with_track j (\<lambda>t.
     andthen (removeTrackAcceptance a t)
     (andthen (removeTrackReallocation a t)
     (andthen (upd_abs a (\<lambda>x. x\<lparr>rejections := bt_put t j (rejections x)\<rparr>))
              (addTrackJudgementToHistorical a j))))"

definition addTrackReallocation :: "aid \<Rightarrow> jid \<Rightarrow> (review, unit) prog" where
  "addTrackReallocation a j = with_track j (\<lambda>t.
     andthen (removeTrackAcceptance a t)
     (andthen (removeTrackRejection a t)
     (andthen (upd_abs a (\<lambda>x. x\<lparr>reallocations := bt_put t j (reallocations x)\<rparr>))
              (addTrackJudgementToHistorical a j))))"

text \<open>
  The \<open>_clear\<close> loops take the track of the first judgement and remove that track's entry, until
  nothing is left.  With the judgements under their own tracks, one step per entry is enough; with
  less, the loop of the code would not end (see \<open>clear_loop_clears\<close>).
\<close>

fun clear_loop :: "nat \<Rightarrow> (jid \<Rightarrow> tid option) \<Rightarrow> (tid \<times> jid) list \<Rightarrow> exn + (tid \<times> jid) list" where
  "clear_loop 0 trk m = Inr m"
| "clear_loop (Suc n) trk m = (case m of
     [] \<Rightarrow> Inr []
   | (_, j) # _ \<Rightarrow> (case trk j of
        None \<Rightarrow> Inl AttributeError | Some t \<Rightarrow> clear_loop n trk (bt_del t m)))"

definition clear_map :: "review \<Rightarrow> (tid \<times> jid) list \<Rightarrow> exn + (tid \<times> jid) list" where
  "clear_map r m = clear_loop (length m) (\<lambda>j. j_track (jud_at r j)) m"

definition clearTrackAcceptances :: "aid \<Rightarrow> (review, unit) prog" where
  "clearTrackAcceptances a = bnd (gets (\<lambda>r. clear_map r (acceptances (abs_at r a)))) (\<lambda>c.
     bnd (lift_res c) (\<lambda>m. upd_abs a (\<lambda>x. x\<lparr>acceptances := m\<rparr>)))"

definition clearTrackRejections :: "aid \<Rightarrow> (review, unit) prog" where
  "clearTrackRejections a = bnd (gets (\<lambda>r. clear_map r (rejections (abs_at r a)))) (\<lambda>c.
     bnd (lift_res c) (\<lambda>m. upd_abs a (\<lambda>x. x\<lparr>rejections := m\<rparr>)))"

definition clearTrackReallocations :: "aid \<Rightarrow> (review, unit) prog" where
  "clearTrackReallocations a = bnd (gets (\<lambda>r. clear_map r (reallocations (abs_at r a)))) (\<lambda>c.
     bnd (lift_res c) (\<lambda>m. upd_abs a (\<lambda>x. x\<lparr>reallocations := m\<rparr>)))"

definition clear_judgements :: "aid \<Rightarrow> (review, unit) prog" where
  "clear_judgements a = andthen (clearTrackAcceptances a)
     (andthen (clearTrackRejections a) (clearTrackReallocations a))"

section \<open>What the judgements say of a track and of the abstract\<close>

text \<open>\<open>getTrackJudgement\<close>: nothing, the last judgement, or a fresh \<open>AbstractInConflict\<close>.\<close>

datatype verdict = Unjudged | Last jid | In_Conflict

definition getTrackJudgement :: "review \<Rightarrow> abstract \<Rightarrow> tid \<Rightarrow> verdict" where
  "getTrackJudgement r x t = (case getJudgementHistoryByTrack x (Some t) of
       [] \<Rightarrow> Unjudged
     | j # js \<Rightarrow> if \<forall>i \<in> set (j # js). jclass (j_kind (jud_at r i)) = jclass (j_kind (jud_at r j))
                then Last j else In_Conflict)"

definition getTrackAcceptanceList :: "abstract \<Rightarrow> jid list" where
  "getTrackAcceptanceList x = List.map_filter (\<lambda>t. bt_get t (acceptances x)) (tracks x)"

definition getNumProposedToAccept :: "abstract \<Rightarrow> nat" where
  "getNumProposedToAccept x = length (filter (\<lambda>t. bt_get t (acceptances x) \<noteq> None) (tracks x))"

definition getNumProposedToReject :: "abstract \<Rightarrow> nat" where
  "getNumProposedToReject x = length (filter (\<lambda>t. bt_get t (rejections x) \<noteq> None) (tracks x))"

definition getNumProposedToReallocate :: "abstract \<Rightarrow> nat" where
  "getNumProposedToReallocate x = length (filter (\<lambda>t. bt_get t (reallocations x) \<noteq> None) (tracks x))"

definition getNumJudgements :: "abstract \<Rightarrow> nat" where
  "getNumJudgements x = length (filter (\<lambda>t. bt_get t (acceptances x) \<noteq> None
     \<or> bt_get t (rejections x) \<noteq> None \<or> bt_get t (reallocations x) \<noteq> None) (tracks x))"

definition getReallocationTargetedList :: "review \<Rightarrow> abstract \<Rightarrow> tid \<Rightarrow> jid list" where
  "getReallocationTargetedList r x t = filter (\<lambda>j. case j_kind (jud_at r j) of
       Reallocation ts \<Rightarrow> t \<in> set ts | _ \<Rightarrow> False) (map snd (reallocations x))"

section \<open>The rating\<close>

definition getTrackListSorted :: "review \<Rightarrow> abstract \<Rightarrow> exn + tid list" where
  "getTrackListSorted r x =
     (if owned x then sortTrackList (program r) (tracks x) else Inl AttributeError)"

definition judgements_on :: "abstract \<Rightarrow> tid list \<Rightarrow> jid list" where
  "judgements_on x ts = concat (map (\<lambda>t. getJudgementHistoryByTrack x (Some t)) ts)"

fun rating_loop :: "(int \<times> int) option \<Rightarrow> jid list \<Rightarrow> rat \<times> nat \<Rightarrow> (review, rat \<times> nat) prog" where
  "rating_loop scale [] acc = ret acc"
| "rating_loop scale (j # js) acc =
     andthen (case scale of None \<Rightarrow> ret () | Some (lo, hi) \<Rightarrow> recalculateJudgementValues lo hi j)
     (bnd (gets (\<lambda>r. j_value (jud_at r j))) (\<lambda>v.
        rating_loop scale js (case v of None \<Rightarrow> acc | Some q \<Rightarrow> (fl_add (fst acc) q, Suc (snd acc)))))"

definition updateRating :: "aid \<Rightarrow> (int \<times> int) option \<Rightarrow> (review, unit) prog" where
  "updateRating a scale =
     andthen (upd_abs a (\<lambda>x. x\<lparr>rating := None\<rparr>))
     (bnd (gets (\<lambda>r. getTrackListSorted r (abs_at r a))) (\<lambda>srt.
      bnd (lift_res srt) (\<lambda>ts. with_abs a (\<lambda>x.
      bnd (rating_loop scale (judgements_on x ts) (0, 0)) (\<lambda>(total, n).
        when_do (n \<noteq> 0) (upd_abs a (\<lambda>x. x\<lparr>rating := Some (fl_div total (fl_int (int n)))\<rparr>)))))))"

definition removeAnswersOfQuestion :: "aid \<Rightarrow> string \<Rightarrow> (review, unit) prog" where
  "removeAnswersOfQuestion a q = bnd (gets (\<lambda>r. getTrackListSorted r (abs_at r a))) (\<lambda>srt.
     bnd (lift_res srt) (\<lambda>ts. with_abs a (\<lambda>x. for_each (judgements_on x ts) (removeAnswer q))))"

text \<open>\<open>getQuestionsAverage\<close>: \<open>d\<close> holds, per text of a question, the sum and the number of answers.\<close>

fun qa_add :: "string \<Rightarrow> rat \<Rightarrow> (string \<times> rat \<times> nat) list \<Rightarrow> (string \<times> rat \<times> nat) list" where
  "qa_add q v [] = [(q, v, 1)]"
| "qa_add q v ((q', s, n) # d) = (if q = q' then (q, fl_add s v, Suc n) # d else (q', s, n) # qa_add q v d)"

fun qa_loop :: "(string \<Rightarrow> string) \<Rightarrow> answer list \<Rightarrow> (string \<times> rat \<times> nat) list \<Rightarrow> exn + (string \<times> rat \<times> nat) list" where
  "qa_loop qtext [] d = Inr d"
| "qa_loop qtext (a # as) d = (case an_value a of
       None \<Rightarrow> Inl TypeError
     | Some v \<Rightarrow> qa_loop qtext as (qa_add (qtext (an_question a)) v d))"

definition getQuestionsAverage :: "(string \<Rightarrow> string) \<Rightarrow> review \<Rightarrow> abstract \<Rightarrow> exn + (string \<times> rat) list" where
  "getQuestionsAverage qtext r x = (case getTrackListSorted r x of
       Inl e \<Rightarrow> Inl e
     | Inr ts \<Rightarrow> (case qa_loop qtext (concat (map (\<lambda>j. answers_of j r) (judgements_on x ts))) [] of
           Inl e \<Rightarrow> Inl e
         | Inr d \<Rightarrow> Inr (map (\<lambda>(q, s, n). (q, fl_div s (fl_int (int n)))) d)))"

definition getLastJudgementPerReviewer :: "review \<Rightarrow> abstract \<Rightarrow> uid \<Rightarrow> tid option \<Rightarrow> jid option" where
  "getLastJudgementPerReviewer r x u t =
     find (\<lambda>j. j_responsible (jud_at r j) = u) (getJudgementHistoryByTrack x t)"

definition getRatingPerReviewer :: "review \<Rightarrow> abstract \<Rightarrow> uid \<Rightarrow> tid option \<Rightarrow> rat option" where
  "getRatingPerReviewer r x u t = (case getLastJudgementPerReviewer r x u t of
       None \<Rightarrow> None | Some j \<Rightarrow> j_value (jud_at r j))"

end
