(* ===== verification/Abstract_Status.thy ===== *)
theory Abstract_Status
  imports Judgements
begin

text \<open>
  The statuses of an abstract as the "State" pattern of \<open>MaKaC/review.py\<close> has them: every class
  refuses some operations with an error and inherits the rest from \<open>AbstractStatus\<close>.  One table per
  class lists the operations it overrides by a refusal; \<open>refuses\<close> is the method lookup, which goes
  on to the base class.  Messages are those of the code, without their translation.
\<close>

section \<open>Which class refuses what\<close>

datatype st_op =
    Op_accept | Op_reject | Op_proposeToAccept | Op_proposeToReject | Op_proposeToReallocate
  | Op_withdraw | Op_recover | Op_markAsDuplicated | Op_unMarkAsDuplicated | Op_mergeInto | Op_unMerge

fun base_refuses :: "st_op \<Rightarrow> string option" where
  "base_refuses Op_recover = Some ''only withdrawn abstracts can be recovered''"
| "base_refuses Op_unMarkAsDuplicated = Some ''Only duplicated abstract can be unmark as duplicated''"
| "base_refuses Op_unMerge = Some ''Only merged abstracts can be unmerged''"
| "base_refuses _ = None"

fun accepted_refuses :: "st_op \<Rightarrow> string option" where
  "accepted_refuses Op_accept = Some ''Cannot accept an abstract which is already accepted''"
| "accepted_refuses Op_reject = Some ''Cannot reject an abstract which is already accepted''"
| "accepted_refuses Op_proposeToAccept =
     Some ''Cannot propose for acceptance an abstract which is already accepted''"
| "accepted_refuses Op_proposeToReject =
     Some ''Cannot propose for rejection an abstract which is already accepted''"
| "accepted_refuses Op_proposeToReallocate =
     Some ''Cannot propose for reallocation an abstract which is already accepted''"
| "accepted_refuses Op_markAsDuplicated = Some ''Cannot mark as duplicated an abstract which is accepted''"
| "accepted_refuses Op_unMarkAsDuplicated = Some ''Only duplicated abstract can be unmark as duplicated''"
| "accepted_refuses Op_mergeInto = Some ''Cannot merge an abstract which is already accepted''"
| "accepted_refuses _ = None"

fun rejected_refuses :: "st_op \<Rightarrow> string option" where
  "rejected_refuses Op_reject = Some ''Cannot reject an abstract which is already rejected''"
| "rejected_refuses Op_proposeToAccept =
     Some ''Cannot propose for acceptance an abstract which is already rejected''"
| "rejected_refuses Op_proposeToReject =
     Some ''Cannot propose for rejection an abstract which is already rejected''"
| "rejected_refuses Op_proposeToReallocate =
     Some ''Cannot propose for reallocation an abstract which is already rejected''"
| "rejected_refuses Op_withdraw = Some ''Cannot withdraw a REJECTED abstract''"
| "rejected_refuses Op_markAsDuplicated = Some ''Cannot mark as duplicated an abstract which is rejected''"
| "rejected_refuses Op_unMarkAsDuplicated = Some ''Only duplicated abstract can be unmark as duplicated''"
| "rejected_refuses Op_mergeInto = Some ''Cannot merge an abstract which is rejected''"
| "rejected_refuses _ = None"

fun withdrawn_refuses :: "st_op \<Rightarrow> string option" where
  "withdrawn_refuses Op_accept = Some ''Cannot accept an abstract wich is withdrawn''"
| "withdrawn_refuses Op_reject = Some ''Cannot reject an abstract which is withdrawn''"
| "withdrawn_refuses Op_proposeToAccept = Some ''Cannot propose for acceptance an abstract which withdrawn''"
| "withdrawn_refuses Op_proposeToReject = Some ''Cannot propose for rejection an abstract which is withdrawn''"
| "withdrawn_refuses Op_markAsDuplicated = Some ''Cannot mark as duplicated an abstract which is withdrawn''"
| "withdrawn_refuses Op_unMarkAsDuplicated = Some ''Only duplicated abstract can be unmark as duplicated''"
| "withdrawn_refuses Op_mergeInto = Some ''Cannot merge an abstract which is withdrawn''"
| "withdrawn_refuses Op_withdraw = Some ''This abstract is already withdrawn''"
| "withdrawn_refuses _ = None"

fun duplicated_refuses :: "st_op \<Rightarrow> string option" where
  "duplicated_refuses Op_reject = Some ''Cannot reject an abstract which is duplicated''"
| "duplicated_refuses Op_proposeToAccept = Some ''Cannot propose for acceptance an abstract which is duplicated''"
| "duplicated_refuses Op_proposeToReject = Some ''Cannot propose for rejection an abstract which is duplicated''"
| "duplicated_refuses Op_proposeToReallocate =
     Some ''Cannot propose for reallocation an abstract which is duplicated''"
| "duplicated_refuses Op_withdraw = Some ''Cannot withdraw a duplicated abstract''"
| "duplicated_refuses Op_markAsDuplicated = Some ''This abstract is already duplicated''"
| "duplicated_refuses Op_mergeInto = Some ''Cannot merge an abstract which is marked as a duplicate''"
| "duplicated_refuses _ = None"

fun merged_refuses :: "st_op \<Rightarrow> string option" where
  "merged_refuses Op_reject = Some ''Cannot reject an abstract which is merged into another one''"
| "merged_refuses Op_proposeToAccept =
     Some ''Cannot propose for acceptance an abstract which is merged into another one''"
| "merged_refuses Op_proposeToReject =
     Some ''Cannot propose for rejection an abstract which is merged into another one''"
| "merged_refuses Op_proposeToReallocate =
     Some ''Cannot propose for reallocation an abstract which is merged into another one''"
| "merged_refuses Op_withdraw = Some ''Cannot withdraw an abstract which is merged into another one''"
| "merged_refuses Op_markAsDuplicated =
     Some ''Cannot mark as duplicated an abstract which is merged into another one''"
| "merged_refuses Op_unMarkAsDuplicated = Some ''Only duplicated abstract can be unmark as duplicated''"
| "merged_refuses Op_mergeInto = Some ''This abstract is already merged into another one''"
| "merged_refuses _ = None"

text \<open>The operations a class implements itself, so that the base class is not asked.\<close>

fun implements :: "status_class \<Rightarrow> st_op \<Rightarrow> bool" where
  "implements C_Withdrawn Op_recover = True"
| "implements C_Duplicated Op_unMarkAsDuplicated = True"
| "implements C_Merged Op_unMerge = True"
| "implements C_Accepted Op_withdraw = True"
| "implements _ _ = False"

fun class_refuses :: "status_class \<Rightarrow> st_op \<Rightarrow> string option" where
  "class_refuses C_Accepted op = accepted_refuses op"
| "class_refuses C_Rejected op = rejected_refuses op"
| "class_refuses C_Withdrawn op = withdrawn_refuses op"
| "class_refuses C_Duplicated op = duplicated_refuses op"
| "class_refuses C_Merged op = merged_refuses op"
| "class_refuses _ op = None"

definition refuses :: "status_class \<Rightarrow> st_op \<Rightarrow> string option" where
  "refuses c op = (if implements c op then None
     else (case class_refuses c op of Some m \<Rightarrow> Some m | None \<Rightarrow> base_refuses op))"

text \<open>\<open>self.getCurrentStatus().op(...)\<close>: the refusal of the status, or the body.\<close>

definition status_call :: "aid \<Rightarrow> st_op \<Rightarrow> (review, unit) prog \<Rightarrow> (review, unit) prog" where
  "status_call a op m = with_abs a (\<lambda>x. case refuses (class_of (currentStatus x)) op of
       Some msg \<Rightarrow> raise_exn (MaKaCError msg) | None \<Rightarrow> m)"

section \<open>The status the judgements give\<close>

definition getStatusClass :: "review \<Rightarrow> abstract \<Rightarrow> status" where
  "getStatusClass r x =
     (let numAccepts = getNumProposedToAccept x;
          numReallocate = getNumProposedToReallocate x;
          numJudgements = getNumJudgements x
      in if 0 < numJudgements then
           if \<exists>t \<in> set (tracks x). getTrackJudgement r x t = In_Conflict then InConflict
           else (let numTracks = length (tracks x)
             in if numTracks = numJudgements then
                  if numReallocate = numTracks then InConflict
                  else if numAccepts = 1 then ProposedToAccept
                  else if numAccepts = 0 then ProposedToReject
                  else InConflict
                else UnderReview)
         else Submitted)"

definition base_update :: "aid \<Rightarrow> (review, unit) prog" where
  "base_update a = bnd get_st (\<lambda>r.
     let x = abs_at r a; s = getStatusClass r x
     in when_do (class_of (currentStatus x) \<noteq> class_of s) (setCurrentStatus a s))"

text \<open>\<open>getCurrentStatus().update()\<close>: the decided statuses do nothing.\<close>

definition status_update :: "aid \<Rightarrow> (review, unit) prog" where
  "status_update a = with_abs a (\<lambda>x. case class_of (currentStatus x) of
       C_Submitted \<Rightarrow> (if getNumJudgements x = 0 then ret () else base_update a)
     | C_Accepted \<Rightarrow> ret ()
     | C_Rejected \<Rightarrow> ret ()
     | C_Withdrawn \<Rightarrow> ret ()
     | C_Duplicated \<Rightarrow> ret ()
     | C_Merged \<Rightarrow> ret ()
     | _ \<Rightarrow> base_update a)"

definition set_by_judgements :: "aid \<Rightarrow> (review, unit) prog" where
  "set_by_judgements a = bnd (gets (\<lambda>r. getStatusClass r (abs_at r a))) (setCurrentStatus a)"

section \<open>The operations of a status\<close>

definition st_accept :: "aid \<Rightarrow> uid \<Rightarrow> tid option \<Rightarrow> string option \<Rightarrow> string \<Rightarrow> (review, unit) prog" where
  "st_accept a resp destTrack ty c = status_call a Op_accept
     (setCurrentStatus a (Accepted resp destTrack ty (py_strip c) None))"

definition st_reject :: "aid \<Rightarrow> uid \<Rightarrow> string \<Rightarrow> (review, unit) prog" where
  "st_reject a resp c = status_call a Op_reject (setCurrentStatus a (Rejected resp (py_strip c)))"

definition st_proposeToAccept :: "aid \<Rightarrow> (review, unit) prog" where
  "st_proposeToAccept a = status_call a Op_proposeToAccept (set_by_judgements a)"

definition st_proposeToReject :: "aid \<Rightarrow> (review, unit) prog" where
  "st_proposeToReject a = status_call a Op_proposeToReject (set_by_judgements a)"

definition st_proposeToReallocate :: "aid \<Rightarrow> (review, unit) prog" where
  "st_proposeToReallocate a = status_call a Op_proposeToReallocate (set_by_judgements a)"

text \<open>
  \<open>withdraw\<close>: an accepted abstract withdraws its contribution first, unless that is withdrawn
  already.  \<open>Contribution.withdraw\<close> of a contribution that is not withdrawn gives it the withdrawn
  status; its removal from the timetable and the author indexes is not modelled.
\<close>

definition contribution_withdraw :: "aid \<Rightarrow> uid \<Rightarrow> string \<Rightarrow> (review, unit) prog" where
  "contribution_withdraw k resp c = modify (\<lambda>r. case contribs r k of
       None \<Rightarrow> r
     | Some co \<Rightarrow> r\<lparr>contribs := (contribs r)(k := Some (co\<lparr>c_withdrawn :=
         (case c_withdrawn co of None \<Rightarrow> Some (resp, py_strip c) | Some _ \<Rightarrow> None)\<rparr>))\<rparr>)"

definition is_withdrawn :: "review \<Rightarrow> aid \<Rightarrow> bool" where
  "is_withdrawn r k = (case contribs r k of None \<Rightarrow> False | Some co \<Rightarrow> c_withdrawn co \<noteq> None)"

definition st_withdraw :: "aid \<Rightarrow> uid \<Rightarrow> string \<Rightarrow> (review, unit) prog" where
  "st_withdraw a resp c = status_call a Op_withdraw (bnd get_st (\<lambda>r.
     let s = currentStatus (abs_at r a)
     in andthen
          (case s of
             Accepted _ _ _ _ (Some k) \<Rightarrow>
               when_do (\<not> is_withdrawn r k) (contribution_withdraw k resp ('' abstract withdrawn: '' @ c))
           | _ \<Rightarrow> ret ())
          (setCurrentStatus a (Withdrawn resp (Some s) (py_strip c)))))"

text \<open>\<open>Abstract.getContribution\<close>, which an acceptance's own contribution fills in.\<close>

definition getContribution :: "aid \<Rightarrow> (review, aid option) prog" where
  "getContribution a = with_abs a (\<lambda>x. case currentStatus x of
       Accepted _ _ _ _ k \<Rightarrow>
         (if contribution x = None then andthen (upd_abs a (\<lambda>x. x\<lparr>contribution := k\<rparr>)) (ret k)
          else ret (contribution x))
     | _ \<Rightarrow> ret (contribution x))"

text \<open>
  \<open>recover\<close>.  Without a previous status the method calls \<open>self._clearTrackAcceptances()\<close>, which a
  status does not have.
\<close>

definition st_recover :: "aid \<Rightarrow> (review, unit) prog" where
  "st_recover a = status_call a Op_recover (with_abs a (\<lambda>x. case currentStatus x of
       Withdrawn resp None c \<Rightarrow> raise_exn AttributeError
     | Withdrawn resp (Some p) c \<Rightarrow> bnd (getContribution a) (\<lambda>k. bnd get_st (\<lambda>r.
         case k of
           Some co \<Rightarrow> if class_of p \<noteq> C_Accepted
             then (case contribs r co of
                 None \<Rightarrow> ret ()
               | Some d \<Rightarrow> setCurrentStatus a (Accepted resp (c_track d) (c_type d) [] None))
             else setCurrentStatus a p
         | None \<Rightarrow> setCurrentStatus a p))
     | _ \<Rightarrow> ret ()))"

definition st_markAsDuplicated :: "aid \<Rightarrow> uid \<Rightarrow> aid \<Rightarrow> string \<Rightarrow> (review, unit) prog" where
  "st_markAsDuplicated a resp orig c = status_call a Op_markAsDuplicated
     (if a = orig then raise_exn (MaKaCError ''the original abstract is the same as the duplicated one'')
      else with_abs orig (\<lambda>y.
        if class_of (currentStatus y) = C_Duplicated
        then raise_exn (MaKaCError ''cannot set as original abstract one which is already marked as duplicated'')
        else setCurrentStatus a (Duplicated resp orig (py_strip c))))"

definition st_unMarkAsDuplicated :: "aid \<Rightarrow> (review, unit) prog" where
  "st_unMarkAsDuplicated a = status_call a Op_unMarkAsDuplicated (setCurrentStatus a Submitted)"

definition st_mergeInto :: "aid \<Rightarrow> uid \<Rightarrow> aid \<Rightarrow> string \<Rightarrow> (review, unit) prog" where
  "st_mergeInto a resp target c = status_call a Op_mergeInto
     (if a = target then raise_exn (MaKaCError ''An abstract cannot be merged into itself'')
      else with_abs target (\<lambda>y.
        if class_of (currentStatus y) \<notin> {C_Submitted, C_UnderReview, C_ProposedToAccept,
             C_ProposedToReject, C_InConflict}
        then raise_exn (MaKaCError ''Target abstract is in a status which cannot receive mergings'')
        else setCurrentStatus a (Merged resp target (py_strip c))))"

definition st_unMerge :: "aid \<Rightarrow> (review, unit) prog" where
  "st_unMerge a = status_call a Op_unMerge (setCurrentStatus a Submitted)"

text \<open>\<open>getType\<close> and \<open>getTrack\<close> of the statuses that have them.\<close>

definition st_getType :: "review \<Rightarrow> abstract \<Rightarrow> exn + string option" where
  "st_getType r x = (case currentStatus x of
       Accepted _ _ ty _ _ \<Rightarrow> Inr ty
     | ProposedToAccept \<Rightarrow> (case getTrackAcceptanceList x of
           [] \<Rightarrow> Inl IndexError
         | j # _ \<Rightarrow> (case j_kind (jud_at r j) of Acceptance ty \<Rightarrow> Inr ty | _ \<Rightarrow> Inl AttributeError))
     | _ \<Rightarrow> Inl AttributeError)"

definition st_getTrack :: "review \<Rightarrow> abstract \<Rightarrow> exn + tid option" where
  "st_getTrack r x = (case currentStatus x of
       Accepted _ t _ _ _ \<Rightarrow> Inr t
     | ProposedToAccept \<Rightarrow> (case getTrackAcceptanceList x of
           [] \<Rightarrow> Inl IndexError | j # _ \<Rightarrow> Inr (j_track (jud_at r j)))
     | _ \<Rightarrow> Inl AttributeError)"

text \<open>The comments a status gives for itself.\<close>

definition st_getComments :: "status \<Rightarrow> string" where
  "st_getComments s = (case s of
       Accepted _ _ _ c _ \<Rightarrow> c | Rejected _ c \<Rightarrow> c | Withdrawn _ _ c \<Rightarrow> c
     | Duplicated _ _ c \<Rightarrow> c | Merged _ _ c \<Rightarrow> c | _ \<Rightarrow> [])"

section \<open>Lemmas\<close>

lemma status_call_run [simp]:
  "status_call a op m r = (case refuses (class_of (currentStatus (abs_at r a))) op of
     Some msg \<Rightarrow> (Inl (MaKaCError msg), r) | None \<Rightarrow> m r)"
  by (simp add: status_call_def split: option.split)

lemma keeps_status_call [keeps_intros]: "keeps I m \<Longrightarrow> keeps I (status_call a op m)"
  unfolding status_call_def by (intro keeps_intros keeps_with_abs_any) (simp split: option.split add: keeps_intros)

lemma getStatusClass_cases:
  "getStatusClass r x \<in> {Submitted, UnderReview, ProposedToAccept, ProposedToReject, InConflict}"
  by (simp add: getStatusClass_def Let_def)

lemma refuses_total:
  "refuses c op = None \<longleftrightarrow> implements c op \<or> (class_refuses c op = None \<and> base_refuses op = None)"
  by (simp add: refuses_def split: option.split)

end
