(* ===== verification/Abstract_Life.thy ===== *)
theory Abstract_Life
  imports Abstract_Status
begin

text \<open>
  The life of an abstract (\<open>Abstract\<close> in \<open>MaKaC/review.py\<close>, and \<open>Track.delete\<close> of
  \<open>MaKaC/conference.py\<close> as far as its abstracts go): its tracks, the proposals of the reviewers, the
  decisions, withdrawal and recovery, duplicates, merging and deletion.

  Not modelled: the fields, files and internal comments of an abstract, the session of an acceptance
  (it only sets the contribution's session and duration), and the trash can.
\<close>

section \<open>Tracks\<close>

definition raw_addTrack :: "aid \<Rightarrow> tid \<Rightarrow> (review, unit) prog" where
  "raw_addTrack a t = andthen (upd_abs a (\<lambda>x. x\<lparr>tracks := id_add t (tracks x)\<rparr>))
     (andthen (track_addAbstract t a) (notifyModification a))"

definition raw_removeTrack :: "aid \<Rightarrow> tid \<Rightarrow> (review, unit) prog" where
  "raw_removeTrack a t = with_abs a (\<lambda>x.
     if t \<notin> set (tracks x) then raise_exn KeyError
     else andthen (upd_abs a (\<lambda>x. x\<lparr>tracks := id_del t (tracks x)\<rparr>))
       (andthen (track_removeAbstract t a) (notifyModification a)))"

definition addTrack :: "aid \<Rightarrow> tid \<Rightarrow> (review, unit) prog" where
  "addTrack a t = with_abs a (\<lambda>x. when_do (t \<notin> set (tracks x))
     (andthen (raw_addTrack a t) (status_update a)))"

definition removeTrack :: "aid \<Rightarrow> tid \<Rightarrow> (review, unit) prog" where
  "removeTrack a t = andthen
     (with_abs a (\<lambda>x. when_do (t \<in> set (tracks x)) (andthen (raw_removeTrack a t) (status_update a))))
     (with_abs a (\<lambda>x. case currentStatus x of
        Accepted u _ ty c k \<Rightarrow> setCurrentStatus a (Accepted u None ty c k)
      | _ \<Rightarrow> ret ()))"

text \<open>The loop of \<open>clearTracks\<close> removes the first track until none is left.\<close>

definition clearTracks :: "aid \<Rightarrow> (review, unit) prog" where
  "clearTracks a = andthen (with_abs a (\<lambda>x. for_each (tracks x) (raw_removeTrack a)))
     (status_update a)"

text \<open>
  \<open>setTracks\<close>: of the wanted list, what the abstract has already is struck out, the rest is added in
  the order given.
\<close>

fun split_tracks :: "tid list \<Rightarrow> tid list \<Rightarrow> tid list \<Rightarrow> tid list \<Rightarrow> tid list \<times> tid list" where
  "split_tracks [] wanted rm ad = (rm, ad)"
| "split_tracks (t # ts) wanted rm ad =
     (if t \<notin> set wanted then split_tracks ts wanted (rm @ [t]) ad
      else split_tracks ts wanted rm (remove1 t ad))"

definition setTracks :: "aid \<Rightarrow> tid list \<Rightarrow> (review, unit) prog" where
  "setTracks a l = with_abs a (\<lambda>x. case split_tracks (tracks x) l [] l of (rm, ad) \<Rightarrow>
     andthen (for_each rm (raw_removeTrack a))
     (andthen (for_each ad (raw_addTrack a)) (status_update a)))"

definition isProposedForTrack :: "abstract \<Rightarrow> tid \<Rightarrow> bool" where
  "isProposedForTrack x t \<longleftrightarrow> t \<in> set (tracks x)"

text \<open>\<open>Track.delete\<close>: every abstract the track lists drops the track.\<close>

definition track_delete :: "tid \<Rightarrow> (review, unit) prog" where
  "track_delete t = andthen
     (bnd (gets (\<lambda>r. track_abs r t)) (\<lambda>as. for_each as (\<lambda>a.
        andthen (track_removeAbstract t a) (removeTrack a t))))
     (modify (\<lambda>r. r\<lparr>program := remove1 t (program r)\<rparr>))"

section \<open>Proposals\<close>

definition no_track_error :: exn where
  "no_track_error = MaKaCError ''You have to choose a track in order to do the proposal''"

definition proposeToAccept ::
  "aid \<Rightarrow> uid \<Rightarrow> tid option \<Rightarrow> string option \<Rightarrow> string \<Rightarrow> nat \<Rightarrow> (review, unit) prog" where
  "proposeToAccept a u track ty comment answers = (case track of
     None \<Rightarrow> raise_exn no_track_error
   | Some t \<Rightarrow> with_abs a (\<lambda>x.
       if \<not> isProposedForTrack x t
       then raise_exn (MaKaCError ''Cannot propose to accept an abstract which is not proposed for the specified track'')
       else andthen (removePreviousJud a u track)
         (bnd (new_judgement (Acceptance ty) track u answers) (\<lambda>j.
          andthen (setComment j comment)
          (andthen (addTrackAcceptance a j)
          (andthen (updateRating a None)
                   (st_proposeToAccept a)))))))"

definition proposeToReject ::
  "aid \<Rightarrow> uid \<Rightarrow> tid option \<Rightarrow> string \<Rightarrow> nat \<Rightarrow> (review, unit) prog" where
  "proposeToReject a u track comment answers = (case track of
     None \<Rightarrow> raise_exn no_track_error
   | Some t \<Rightarrow> with_abs a (\<lambda>x.
       if \<not> isProposedForTrack x t
       then raise_exn (MaKaCError ''Cannot propose to reject an abstract which is not proposed for the specified track'')
       else andthen (removePreviousJud a u track)
         (bnd (new_judgement Rejection track u answers) (\<lambda>j.
          andthen (setComment j comment)
          (andthen (addTrackRejection a j)
          (andthen (updateRating a None)
                   (st_proposeToReject a)))))))"

definition proposeForOtherTracks ::
  "aid \<Rightarrow> uid \<Rightarrow> tid option \<Rightarrow> string \<Rightarrow> tid list \<Rightarrow> nat \<Rightarrow> (review, unit) prog" where
  "proposeForOtherTracks a u track comment propTracks answers = (case track of
     None \<Rightarrow> raise_exn AttributeError
   | Some t \<Rightarrow> with_abs a (\<lambda>x.
       if \<not> isProposedForTrack x t
       then raise_exn (MaKaCError ''Cannot propose to reallocate an abstract which is not proposed for the specified track'')
       else andthen (removePreviousJud a u track)
         (bnd (new_judgement (Reallocation propTracks) track u answers) (\<lambda>j.
          andthen (setComment j comment)
          (andthen (addTrackReallocation a j)
          (andthen (for_each propTracks (raw_addTrack a))
          (andthen (st_proposeToReallocate a)
                   (updateRating a None))))))))"

section \<open>Decisions\<close>

definition setContribution :: "aid \<Rightarrow> aid \<Rightarrow> (review, unit) prog" where
  "setContribution a k = upd_abs a (\<lambda>x. x\<lparr>currentStatus := (case currentStatus x of
       Accepted u t ty c _ \<Rightarrow> Accepted u t ty c (Some k) | s \<Rightarrow> s), contribution := Some k\<rparr>)"

definition accept :: "aid \<Rightarrow> uid \<Rightarrow> tid option \<Rightarrow> string option \<Rightarrow> string \<Rightarrow> (review, unit) prog" where
  "accept a resp destTrack ty c = andthen (st_accept a resp destTrack ty c)
     (andthen (case destTrack of None \<Rightarrow> ret () | Some t \<Rightarrow> track_addAbstract t a)
     (bnd (new_contribution a) (setContribution a)))"

definition reject :: "aid \<Rightarrow> uid \<Rightarrow> string \<Rightarrow> (review, unit) prog" where
  "reject a resp c = st_reject a resp c"

definition withdraw :: "aid \<Rightarrow> uid \<Rightarrow> string \<Rightarrow> (review, unit) prog" where
  "withdraw a resp c = st_withdraw a resp c"

definition recover :: "aid \<Rightarrow> (review, unit) prog" where
  "recover a = andthen (st_recover a) (bnd (gets now) (\<lambda>t.
     andthen (upd_abs a (\<lambda>x. x\<lparr>submissionDate := t\<rparr>)) (notifyModification a)))"

text \<open>\<open>AcceptedContribution.delete\<close>: the abstract goes back to the submitted ones.\<close>

definition contribution_delete :: "aid \<Rightarrow> (review, unit) prog" where
  "contribution_delete k = bnd get_st (\<lambda>r. case contribs r k of
     None \<Rightarrow> ret ()
   | Some co \<Rightarrow> andthen
      (case c_abstract co of
         None \<Rightarrow> ret ()
       | Some a \<Rightarrow> andthen
           (case currentStatus (abs_at r a) of
              Accepted _ (Some t) _ _ _ \<Rightarrow> addTrack a t | _ \<Rightarrow> ret ())
           (andthen (setCurrentStatus a Submitted)
                    (upd_abs a (\<lambda>x. x\<lparr>contribution := None\<rparr>))))
      (modify (\<lambda>r. r\<lparr>contribs := (contribs r)(k := None)\<rparr>)))"

section \<open>Duplicates\<close>

text \<open>The judgements a duplicate mark leaves: one on the given track, or one on every track.\<close>

definition mark_tracks :: "aid \<Rightarrow> jud_kind \<Rightarrow> uid \<Rightarrow> string \<Rightarrow> nat \<Rightarrow> tid option \<Rightarrow> (review, unit) prog" where
  "mark_tracks a k u c answers track = with_abs a (\<lambda>x.
     for_each (case track of Some t \<Rightarrow> [t] | None \<Rightarrow> tracks x) (\<lambda>t.
       bnd (new_judgement k (Some t) u answers) (\<lambda>j.
         andthen (setComment j c) (addTrackJudgementToHistorical a j))))"

definition markAsDuplicated ::
  "aid \<Rightarrow> uid \<Rightarrow> aid \<Rightarrow> string \<Rightarrow> tid option \<Rightarrow> nat \<Rightarrow> (review, unit) prog" where
  "markAsDuplicated a u orig c track answers =
     andthen (st_markAsDuplicated a u orig c)
     (andthen (removePreviousJud a u track)
     (andthen (mark_tracks a (MarkedAsDuplicated orig) u c answers track)
              (updateRating a None)))"

definition unMarkAsDuplicated ::
  "aid \<Rightarrow> uid \<Rightarrow> string \<Rightarrow> tid option \<Rightarrow> nat \<Rightarrow> (review, unit) prog" where
  "unMarkAsDuplicated a u c track answers =
     andthen (clear_judgements a)
     (andthen (st_unMarkAsDuplicated a)
     (andthen (removePreviousJud a u track)
     (andthen (mark_tracks a UnMarkedAsDuplicated u c answers track)
     (andthen (updateRating a None) (notifyModification a)))))"

section \<open>Merging\<close>

text \<open>\<open>setFromAbstractParticipation\<close> on a new author of the target.\<close>

definition copy_author :: "aid \<Rightarrow> (aid \<Rightarrow> part_data \<Rightarrow> (review, string) prog) \<Rightarrow> part \<Rightarrow> (review, unit) prog" where
  "copy_author target new p = bnd (new target no_data) (\<lambda>i. author_setData target i (getData p))"

definition mergeInto :: "aid \<Rightarrow> uid \<Rightarrow> aid \<Rightarrow> bool \<Rightarrow> string \<Rightarrow> (review, unit) prog" where
  "mergeInto a u target mergeAuthors c =
     andthen (st_mergeInto a u target c)
     (andthen (addMergeFromAbstract target a)
     (when_do mergeAuthors (with_abs a (\<lambda>x.
        andthen (for_each (primaryAuthors x) (\<lambda>i. copy_author target newPrimaryAuthor (author_of x i)))
                (for_each (coAuthors x) (\<lambda>i. copy_author target newCoAuthor (author_of x i)))))))"

definition unMerge :: "aid \<Rightarrow> (review, unit) prog" where
  "unMerge a = andthen (clear_judgements a)
     (andthen (with_abs a (\<lambda>x. case currentStatus x of
          Merged _ target _ \<Rightarrow> removeMergeFromAbstract target a
        | _ \<Rightarrow> raise_exn AttributeError))
     (andthen (st_unMerge a) (notifyModification a)))"

section \<open>Access\<close>

text \<open>
  Who may see or change an abstract.  \<open>manages\<close> is the conference's \<open>canUserModify\<close> and
  \<open>coordinates\<close> tells the users who coordinate a track; a user comes with his e-mail addresses.
\<close>

definition canUserModify :: "(uid \<Rightarrow> bool) \<Rightarrow> abstract \<Rightarrow> uid \<Rightarrow> exn + bool" where
  "canUserModify manages x u = (case isSubmitter x u of
       Inl e \<Rightarrow> Inl e | Inr b \<Rightarrow> Inr (b \<or> manages u))"

definition isAllowedToCoordinate :: "(uid \<Rightarrow> bool) \<Rightarrow> (tid \<Rightarrow> uid \<Rightarrow> bool) \<Rightarrow> abstract \<Rightarrow> uid \<Rightarrow> bool" where
  "isAllowedToCoordinate manages coordinates x u \<longleftrightarrow>
     (\<exists>t \<in> set (tracks x). coordinates t u \<or> manages u)"

definition isAllowedToAccess ::
  "(uid \<Rightarrow> bool) \<Rightarrow> (tid \<Rightarrow> uid \<Rightarrow> bool) \<Rightarrow> (uid \<Rightarrow> string list) \<Rightarrow> abstract \<Rightarrow> uid \<Rightarrow> exn + bool" where
  "isAllowedToAccess manages coordinates emails x u =
     (if canAuthorAccess x (Some (emails u)) then Inr True
      else if isAllowedToCoordinate manages coordinates x u then Inr True
      else canUserModify manages x u)"

section \<open>The manager\<close>

text \<open>
  \<open>Abstract.delete\<close>, whose owner has already struck it from its list: \<open>removeAbstract\<close> calls it after
  \<open>del self._abstracts[...]\<close>, and its own call of \<open>removeAbstract\<close> then finds nothing to do.
\<close>

definition abstract_delete :: "aid \<Rightarrow> (review, unit) prog" where
  "abstract_delete a = with_abs a (\<lambda>x. when_do (owned x)
     (case submitter x of
        None \<Rightarrow> raise_exn AttributeError
      | Some s \<Rightarrow>
         andthen (on_owner a (unregisterParticipation s))
         (andthen (submitter_delete a s)
         (andthen (upd_abs a (\<lambda>x. x\<lparr>submitter := None\<rparr>))
         (andthen (clearAuthors a)
         (andthen (clearSpeakers a)
         (andthen (clearTracks a)
         (andthen (upd_abs a (\<lambda>x. x\<lparr>owned := False\<rparr>))
                  (setCurrentStatus a NoStatus)))))))))"

definition release :: "aid \<Rightarrow> aid \<Rightarrow> (review, unit) prog" where
  "release a b = with_abs b (\<lambda>y. case currentStatus y of
       Duplicated _ orig _ \<Rightarrow> when_do (orig = a) (setCurrentStatus b Submitted)
     | Merged _ target _ \<Rightarrow> when_do (target = a) (setCurrentStatus b Submitted)
     | _ \<Rightarrow> ret ())"

definition removeAbstract :: "aid \<Rightarrow> (review, unit) prog" where
  "removeAbstract a = bnd get_st (\<lambda>r. when_do (a \<in> set (listed r))
     (case currentStatus (abs_at r a) of
        Accepted _ _ _ _ _ \<Rightarrow> raise_exn
          (NoReportError ''Cannot remove an accepted abstract before removing the contribution linked to it'')
      | s \<Rightarrow>
         bnd (getContribution a) (\<lambda>k.
         if class_of s = C_Withdrawn \<and> k \<noteq> None
         then raise_exn (NoReportError ''Cannot remove the abstract before removing the contribution linked to it'')
         else andthen (for_each (filter (\<lambda>b. b \<noteq> a) (listed r)) (release a))
           (case submitter (abs_at r a) of
              None \<Rightarrow> raise_exn AttributeError
            | Some su \<Rightarrow>
                andthen (unregisterParticipation su)
                (andthen (modify (\<lambda>r. r\<lparr>listed := id_del a (listed r)\<rparr>))
                         (abstract_delete a))))))"

definition newAbstract :: "uid option \<Rightarrow> (review, aid) prog" where
  "newAbstract av = bnd (gets abstractGen) (\<lambda>g. case newCount g of (i, g') \<Rightarrow>
     andthen (modify (\<lambda>r. r\<lparr>abstractGen := g', abs_at := (abs_at r)(i := new_abstract_record (now r))\<rparr>))
     (andthen (setSubmitter i av)
     (andthen (modify (\<lambda>r. r\<lparr>listed := id_add i (listed r)\<rparr>)) (ret i))))"

definition addAbstract :: "aid \<Rightarrow> (review, unit) prog" where
  "addAbstract a = bnd get_st (\<lambda>r. when_do (a \<notin> set (listed r))
     (if class_of (currentStatus (abs_at r a)) = C_Withdrawn
      then raise_exn (MaKaCError ''Cannot add an abstract which has been withdrawn'')
      else andthen (upd_abs a (\<lambda>x. x\<lparr>owned := True\<rparr>))
        (andthen (modify (\<lambda>r. r\<lparr>listed := id_add a (listed r)\<rparr>))
        (with_abs a (\<lambda>x. for_each (primaryAuthors x) (\<lambda>i. indexAuthor a True (author_of x i)))))))"

definition recalculateAbstractsRating :: "int \<Rightarrow> int \<Rightarrow> (review, unit) prog" where
  "recalculateAbstractsRating lo hi = bnd (gets listed) (\<lambda>as.
     for_each as (\<lambda>a. updateRating a (Some (lo, hi))))"

definition mgr_removeAnswersOfQuestion :: "string \<Rightarrow> (review, unit) prog" where
  "mgr_removeAnswersOfQuestion q = bnd (gets listed) (\<lambda>as.
     for_each as (\<lambda>a. removeAnswersOfQuestion a q))"

end
