(* ===== verification/Judgement_Inv.thy ===== *)
theory Judgement_Inv
  imports Abstract_Life
begin

text \<open>
  What holds of the judgements of every abstract in every state: a track has at most one of an
  acceptance, a rejection and a reallocation, each judgement lies under its own track and class,
  the history of a track holds judgements of that track, each once, and a track lists the abstracts
  that list it.  Every operation keeps it, whether it returns or raises.
\<close>

section \<open>The invariant\<close>

definition entries_ok :: "review \<Rightarrow> jud_class \<Rightarrow> (tid \<times> jid) list \<Rightarrow> bool" where
  "entries_ok r c m \<longleftrightarrow> bt_wf m \<and> (\<forall>(t, j) \<in> set m. j < next_obj r
     \<and> j_track (jud_at r j) = Some t \<and> jclass (j_kind (jud_at r j)) = c)"

definition history_ok :: "review \<Rightarrow> (string \<Rightarrow> jid list option) \<Rightarrow> bool" where
  "history_ok r h \<longleftrightarrow> (\<forall>k l. h k = Some l \<longrightarrow> distinct l \<and>
     (\<forall>j \<in> set l. j < next_obj r \<and> track_key (j_track (jud_at r j)) = k))"

definition exclusive :: "abstract \<Rightarrow> bool" where
  "exclusive x \<longleftrightarrow> (\<forall>t.
     \<not> (bt_get t (acceptances x) \<noteq> None \<and> bt_get t (rejections x) \<noteq> None) \<and>
     \<not> (bt_get t (acceptances x) \<noteq> None \<and> bt_get t (reallocations x) \<noteq> None) \<and>
     \<not> (bt_get t (rejections x) \<noteq> None \<and> bt_get t (reallocations x) \<noteq> None))"

definition jud_ok :: "review \<Rightarrow> abstract \<Rightarrow> bool" where
  "jud_ok r x \<longleftrightarrow> ts_wf py_cmp (tracks x) \<and> entries_ok r J_Acceptance (acceptances x)
     \<and> entries_ok r J_Rejection (rejections x) \<and> entries_ok r J_Reallocation (reallocations x)
     \<and> exclusive x \<and> history_ok r (history x)"

definition jud_inv :: "review \<Rightarrow> bool" where
  "jud_inv r \<longleftrightarrow> (\<forall>a. jud_ok r (abs_at r a))"

definition links_ok :: "review \<Rightarrow> bool" where
  "links_ok r \<longleftrightarrow> (\<forall>a. \<forall>t \<in> set (tracks (abs_at r a)). a \<in> set (track_abs r t))"

definition review_inv :: "review \<Rightarrow> bool" where
  "review_inv r \<longleftrightarrow> jud_inv r \<and> links_ok r"

lemma review_invI: "jud_inv r \<Longrightarrow> links_ok r \<Longrightarrow> review_inv r"
  by (simp add: review_inv_def)

section \<open>Changes that the invariant does not see\<close>

definition jparts where
  "jparts x = (tracks x, acceptances x, rejections x, reallocations x, history x)"

lemma jud_ok_cong: "jparts x = jparts y \<Longrightarrow> jud_ok r x = jud_ok r y"
  by (simp add: jparts_def jud_ok_def exclusive_def)

text \<open>Judgements that exist keep their track and class; new ones may appear.\<close>

definition juds_grow :: "review \<Rightarrow> review \<Rightarrow> bool" where
  "juds_grow r r' \<longleftrightarrow> next_obj r \<le> next_obj r' \<and> (\<forall>j < next_obj r.
     j_track (jud_at r' j) = j_track (jud_at r j) \<and>
     jclass (j_kind (jud_at r' j)) = jclass (j_kind (jud_at r j)))"

lemma jud_ok_grow:
  assumes "juds_grow r r'" "jud_ok r x"
  shows "jud_ok r' x"
proof -
  have "entries_ok r' c m" if "entries_ok r c m" for c m
    using that assms(1) by (fastforce simp: entries_ok_def juds_grow_def)
  moreover have "history_ok r' h" if "history_ok r h" for h
    using that assms(1) unfolding history_ok_def juds_grow_def by (metis less_le_trans)
  ultimately show ?thesis using assms(2) by (simp add: jud_ok_def)
qed

lemma review_inv_grow:
  assumes "review_inv r" "juds_grow r r'" "\<And>a. jparts (abs_at r' a) = jparts (abs_at r a)"
    "\<And>t. set (track_abs r t) \<subseteq> set (track_abs r' t)"
  shows "review_inv r'"
proof (rule review_invI)
  show "jud_inv r'"
    using assms(1-3) jud_ok_grow jud_ok_cong unfolding review_inv_def jud_inv_def by metis
  have "tracks (abs_at r' a) = tracks (abs_at r a)" for a using assms(3) [of a] by (simp add: jparts_def)
  then show "links_ok r'" using assms(1,4) by (fastforce simp: review_inv_def links_ok_def)
qed

lemma juds_grow_same: "next_obj r' = next_obj r \<Longrightarrow> jud_at r' = jud_at r \<Longrightarrow> juds_grow r r'"
  by (simp add: juds_grow_def)

lemma keeps_modify_grow:
  assumes "\<And>r. juds_grow r (f r)" "\<And>r a. jparts (abs_at (f r) a) = jparts (abs_at r a)"
    "\<And>r t. set (track_abs r t) \<subseteq> set (track_abs (f r) t)"
  shows "keeps review_inv (modify f)"
  by (rule keeps_modify, rule review_inv_grow) (use assms in blast)+

named_theorems rev_keeps \<open>operations that keep the invariant of the judgements\<close>

lemma keeps_upd_plain:
  assumes "\<And>x. jparts (f x) = jparts x"
  shows "keeps review_inv (upd_abs a f)"
  unfolding upd_abs_def
  by (rule keeps_modify_grow) (auto simp: assms juds_grow_def)

lemma keeps_notify [rev_keeps]: "keeps review_inv (notifyModification a)"
  unfolding notifyModification_def by (intro keeps_intros keeps_upd_plain) (simp add: jparts_def)

lemma keeps_setCurrentStatus [rev_keeps]: "keeps review_inv (setCurrentStatus a s)"
  unfolding setCurrentStatus_def by (rule keeps_upd_plain) (simp add: jparts_def)

lemma keeps_upd_jud [rev_keeps]:
  assumes "\<And>x. j_track (f x) = j_track x" "\<And>x. j_kind (f x) = j_kind x"
  shows "keeps review_inv (upd_jud j f)"
  unfolding upd_jud_def by (rule keeps_modify_grow) (auto simp: juds_grow_def assms)

lemma keeps_track_addAbstract [rev_keeps]: "keeps review_inv (track_addAbstract t a)"
  unfolding track_addAbstract_def by (rule keeps_modify_grow) (auto simp: juds_grow_def)

section \<open>Programs on the people and the indexes\<close>

lemma keeps_modify_other:
  assumes "\<And>r. abs_at (f r) = abs_at r" "\<And>r. track_abs (f r) = track_abs r"
    "\<And>r. jud_at (f r) = jud_at r" "\<And>r. next_obj r \<le> next_obj (f r)"
  shows "keeps review_inv (modify f)"
  by (rule keeps_modify_grow) (auto simp: assms juds_grow_def)

lemma keeps_get_bnd [keeps_intros]: "(\<And>r. keeps I (f r)) \<Longrightarrow> keeps I (bnd get_st f)"
  by (rule keeps_bnd) (auto intro: keeps_intros)

lemma keeps_modify_other' [rev_keeps]:
  "keeps review_inv (indexAuthor a prim p)" "keeps review_inv (unindexAuthor a prim p)"
  "keeps review_inv (registerParticipation s)" "keeps review_inv (unregisterParticipation s)"
  unfolding indexAuthor_def unindexAuthor_def registerParticipation_def unregisterParticipation_def
  by (intro keeps_intros keeps_modify_other; simp)+

lemma keeps_part [rev_keeps]: "keeps review_inv (part_index a prim p)" "keeps review_inv (part_unindex a prim p)"
  unfolding part_index_def part_unindex_def by (intro keeps_intros rev_keeps)+

lemma keeps_set_indexed [rev_keeps]: "keeps review_inv (set_indexed a prim p p')"
  unfolding set_indexed_def by (intro keeps_intros rev_keeps)

lemma keeps_if_given [rev_keeps]: "(\<And>v p. keeps I (f v p)) \<Longrightarrow> keeps I (if_given w f p)"
  by (cases w) (auto simp: if_given_def intro: keeps_intros)

lemma keeps_setData [rev_keeps]: "keeps review_inv (setData a prim d p)"
  unfolding setData_def setFirstName_def setSurName_def setEmail_def set_plain_def Let_def
  by (intro keeps_intros rev_keeps)

lemma keeps_people_upd [rev_keeps]:
  "keeps review_inv (upd_abs a (\<lambda>x. x\<lparr>authors := f x\<rparr>))"
  "keeps review_inv (upd_abs a (\<lambda>x. x\<lparr>authorGen := g x, authors := f x\<rparr>))"
  "keeps review_inv (upd_abs a (\<lambda>x. x\<lparr>primaryAuthors := h x\<rparr>))"
  "keeps review_inv (upd_abs a (\<lambda>x. x\<lparr>coAuthors := h x\<rparr>))"
  "keeps review_inv (upd_abs a (\<lambda>x. x\<lparr>speakers := h x\<rparr>))"
  "keeps review_inv (upd_abs a (\<lambda>x. x\<lparr>submitter := q\<rparr>))"
  "keeps review_inv (upd_abs a (\<lambda>x. x\<lparr>owned := b\<rparr>))"
  "keeps review_inv (upd_abs a (\<lambda>x. x\<lparr>rating := v\<rparr>))"
  "keeps review_inv (upd_abs a (\<lambda>x. x\<lparr>submissionDate := d\<rparr>))"
  "keeps review_inv (upd_abs a (\<lambda>x. x\<lparr>contribution := k\<rparr>))"
  "keeps review_inv (upd_abs a (\<lambda>x. x\<lparr>mergeFrom := h x\<rparr>))"
  by (rule keeps_upd_plain; simp add: jparts_def)+

lemma keeps_authors [rev_keeps]:
  "keeps review_inv (author_setData a i d)" "keeps review_inv (removeAuthor a i)"
  "keeps review_inv (removeSpeaker a i)" "keeps review_inv (addSpeaker a i)"
  "keeps review_inv (addPrimaryAuthor a i)" "keeps review_inv (addCoAuthor a i)"
  "keeps review_inv (clearSpeakers a)" "keeps review_inv (submitter_delete a s)"
  unfolding author_setData_def removeAuthor_def removeSpeaker_def addSpeaker_def addPrimaryAuthor_def
    addCoAuthor_def clearSpeakers_def submitter_delete_def
  by (intro keeps_intros rev_keeps)+

lemma keeps_newAuthor [rev_keeps]: "keeps review_inv (newAuthor a d)"
  unfolding newAuthor_def newCount_def by (intro keeps_intros rev_keeps)

lemma keeps_authors2 [rev_keeps]:
  "keeps review_inv (newPrimaryAuthor a d)" "keeps review_inv (newCoAuthor a d)"
  "keeps review_inv (removePrimaryAuthor a i)" "keeps review_inv (removeCoAuthor a i)"
  unfolding newPrimaryAuthor_def newCoAuthor_def removePrimaryAuthor_def removeCoAuthor_def
  by (intro keeps_intros rev_keeps)+

lemma rev_clearAuthors [rev_keeps]: "keeps review_inv (clearAuthors a)"
  unfolding clearAuthors_def clearPrimaryAuthors_def clearCoAuthors_def by (intro keeps_intros rev_keeps)

lemma keeps_new_submitter [rev_keeps]: "keeps review_inv (new_submitter a u)"
  unfolding new_submitter_def Let_def
  by (intro keeps_intros rev_keeps keeps_modify_other) simp_all

lemma rev_setSubmitter [rev_keeps]: "keeps review_inv (setSubmitter a av)"
  unfolding setSubmitter_def by (intro keeps_intros rev_keeps)

section \<open>Judgements\<close>

lemma keeps_getContribution [rev_keeps]: "keeps review_inv (getContribution a)"
  unfolding getContribution_def
  by (intro keeps_intros) (simp split: status.split, intro conjI allI impI keeps_intros rev_keeps)

lemma keeps_recalculate [rev_keeps]: "keeps review_inv (recalculateJudgementValues lo hi j)"
  unfolding recalculateJudgementValues_def Let_def
  by (intro keeps_intros rev_keeps keeps_modify_other) simp_all

lemma keeps_removeAnswer [rev_keeps]: "keeps review_inv (removeAnswer q j)"
  unfolding removeAnswer_def Let_def by (rule keeps_modify_other) simp_all

lemma keeps_rating_loop [rev_keeps]: "keeps review_inv (rating_loop scale js acc)"
proof (induction js arbitrary: acc)
  case (Cons j js)
  show ?case by (simp only: rating_loop.simps) (intro keeps_intros rev_keeps Cons.IH)
qed (simp add: keeps_intros)

lemma keeps_updateRating [rev_keeps]: "keeps review_inv (updateRating a scale)"
  unfolding updateRating_def
  by (intro keeps_intros rev_keeps)

lemma keeps_removeAnswersOfQuestion [rev_keeps]: "keeps review_inv (removeAnswersOfQuestion a q)"
  unfolding removeAnswersOfQuestion_def by (intro keeps_intros rev_keeps)

text \<open>A judgement just made: it exists and has its track and class.\<close>

definition made :: "jud_class \<Rightarrow> tid option \<Rightarrow> jid \<Rightarrow> review \<Rightarrow> bool" where
  "made c t j r \<longleftrightarrow> review_inv r \<and> j < next_obj r \<and> j_track (jud_at r j) = t
     \<and> jclass (j_kind (jud_at r j)) = c"

lemma hoare_new_judgement:
  "hoare review_inv (new_judgement k t u l) (made (jclass k) t) review_inv"
proof (rule hoareI)
  fix r assume inv: "review_inv r"
  let ?go = "\<lambda>v s. r\<lparr>next_obj := Suc (next_obj r), jud_at := (jud_at r)(next_obj r :=
      \<lparr>j_kind = k, j_track = t, j_responsible = u, j_date = now r, j_comment = [], j_answers = l,
       j_value = v, j_total = s\<rparr>)\<rparr>"
  have "made (jclass k) t (next_obj r) (?go v s)" for v s
    unfolding made_def
    by (intro conjI review_inv_grow [OF inv]) (auto simp: juds_grow_def)
  then show "case new_judgement k t u l r of (Inr x, s') \<Rightarrow> made (jclass k) t x s' | (Inl e, s') \<Rightarrow> review_inv s'"
    using inv by (auto simp: new_judgement_def Let_def split: sum.splits)
qed

lemma hoare_new:
  assumes "\<And>j. hoare (made (jclass k) t j) (f j) (\<lambda>_. review_inv) review_inv"
  shows "keeps review_inv (bnd (new_judgement k t u l) f)"
  unfolding hoare_keeps by (rule hoare_bnd [OF hoare_new_judgement]) (rule assms)

lemma hoare_setComment:
  "hoare (made c t j) (setComment i m) (\<lambda>_. made c t j) review_inv"
proof (rule hoareI)
  fix r assume m: "made c t j r"
  have "keeps review_inv (setComment i m)" unfolding setComment_def by (intro rev_keeps) simp_all
  with m show "case setComment i m r of (Inr x, s') \<Rightarrow> made c t j s' | (Inl e, s') \<Rightarrow> review_inv s'"
    by (auto simp: made_def setComment_def upd_jud_def keeps_def)
qed

text \<open>Updating the judgements of one abstract.\<close>

lemma review_inv_upd:
  assumes "review_inv r" "jud_ok r x" "tracks x = tracks (abs_at r a)"
  shows "review_inv (r\<lparr>abs_at := (abs_at r)(a := x)\<rparr>)"
proof -
  have "jud_ok (r\<lparr>abs_at := h\<rparr>) y = jud_ok r y" for h y
    by (simp add: jud_ok_def entries_ok_def history_ok_def)
  then show ?thesis using assms by (auto simp: review_inv_def jud_inv_def links_ok_def)
qed

lemma entries_put: "entries_ok r c m \<Longrightarrow> made c (Some t) j r \<Longrightarrow> entries_ok r c (bt_put t j m)"
  by (auto simp: entries_ok_def made_def bt_wf_put dest!: bt_put_mem)

lemma entries_del: "entries_ok r c m \<Longrightarrow> entries_ok r c (bt_del t m)"
  by (auto simp: entries_ok_def bt_wf_del dest!: bt_del_mem)

lemma history_upd:
  assumes "history_ok r h" "distinct l" "\<forall>j \<in> set l. j < next_obj r \<and> track_key (j_track (jud_at r j)) = k"
  shows "history_ok r (h(k := Some l))"
  using assms by (simp add: history_ok_def)

lemma history_list:
  assumes "history_ok r (history x)"
  shows "distinct (getJudgementHistoryByTrack x t)"
    "\<forall>j \<in> set (getJudgementHistoryByTrack x t). j < next_obj r \<and> track_key (j_track (jud_at r j)) = track_key t"
  using assms by (cases "history x (track_key t)"; simp add: getJudgementHistoryByTrack_def history_ok_def)+

lemma review_inv_history:
  assumes inv: "review_inv r" and "distinct l"
    and "\<forall>j \<in> set l. j < next_obj r \<and> track_key (j_track (jud_at r j)) = k"
  shows "review_inv (r\<lparr>abs_at := (abs_at r)(a := (abs_at r a)\<lparr>history := (history (abs_at r a))(k := Some l)\<rparr>)\<rparr>)"
proof (rule review_inv_upd [OF inv])
  have ok: "jud_ok r (abs_at r a)" using inv by (simp add: review_inv_def jud_inv_def)
  then have "history_ok r ((history (abs_at r a))(k := Some l))"
    using assms(2,3) by (intro history_upd) (simp_all add: jud_ok_def)
  with ok show "jud_ok r ((abs_at r a)\<lparr>history := (history (abs_at r a))(k := Some l)\<rparr>)"
    by (simp add: jud_ok_def exclusive_def)
qed simp

lemma hoare_addHistorical:
  "hoare (\<lambda>r. review_inv r \<and> j < next_obj r) (addTrackJudgementToHistorical a j) (\<lambda>_. review_inv) review_inv"
proof (rule hoareI)
  fix r assume pre: "review_inv r \<and> j < next_obj r"
  let ?t = "j_track (jud_at r j)" and ?x = "abs_at r a"
  let ?l = "getJudgementHistoryByTrack ?x ?t"
  let ?l' = "if j \<in> set ?l then ?l else j # ?l"
  have "history_ok r (history ?x)" using pre by (simp add: review_inv_def jud_inv_def jud_ok_def)
  note h = history_list [OF this, of ?t]
  have d: "distinct ?l'" using h(1) by simp
  have e: "\<forall>i \<in> set ?l'. i < next_obj r \<and> track_key (j_track (jud_at r i)) = track_key ?t"
  proof
    fix i assume "i \<in> set ?l'"
    then consider "i = j" | "i \<in> set ?l" by (auto split: if_splits)
    then show "i < next_obj r \<and> track_key (j_track (jud_at r i)) = track_key ?t"
    proof cases
      case 1
      with pre show ?thesis by blast
    next
      case 2
      with h(2) show ?thesis by (rule bspec)
    qed
  qed
  have "review_inv (r\<lparr>abs_at := (abs_at r)(a := ?x\<lparr>history := (history ?x)(track_key ?t := Some ?l')\<rparr>)\<rparr>)"
    by (rule review_inv_history [OF conjunct1 [OF pre] d e])
  moreover have "(case history ?x (track_key ?t) of
     Some l \<Rightarrow> Some (if j \<in> set l then l else j # l) | None \<Rightarrow> Some [j]) = Some ?l'"
    by (simp add: getJudgementHistoryByTrack_def split: option.split)
  ultimately have "review_inv (snd (upd_abs a (\<lambda>x. x\<lparr>history := (history x)(track_key ?t :=
         (case history x (track_key ?t) of
            Some l \<Rightarrow> Some (if j \<in> set l then l else j # l) | None \<Rightarrow> Some [j]))\<rparr>) r))"
    by simp
  from keepsD [OF keeps_notify this, of a]
  show "case addTrackJudgementToHistorical a j r of (Inr x, s') \<Rightarrow> review_inv s' | (Inl e, s') \<Rightarrow> review_inv s'"
    by (simp add: addTrackJudgementToHistorical_def notifyModification_def)
qed

lemma fold_remove1:
  "distinct l \<Longrightarrow> distinct (fold remove1 d l) \<and> set (fold remove1 d l) = set l - set d"
proof (induction d arbitrary: l)
  case (Cons x d)
  then have "distinct (remove1 x l)" "set (remove1 x l) = set l - {x}" by auto
  with Cons.IH [of "remove1 x l"] show ?case by auto
qed simp

lemma keeps_removePrevious [rev_keeps]: "keeps review_inv (removePreviousJud a u t)"
proof (rule keepsI)
  fix r assume inv: "review_inv r"
  let ?x = "abs_at r a"
  let ?l = "getJudgementHistoryByTrack ?x t"
  let ?d = "filter (\<lambda>j. j_responsible (jud_at r j) = u) ?l"
  show "review_inv (snd (removePreviousJud a u t r))"
  proof (cases "?d = [] \<or> t = None")
    case True
    then show ?thesis using inv by (auto simp: removePreviousJud_def Let_def)
  next
    case False
    then obtain i where t: "t = Some i" and d: "?d \<noteq> []" by blast
    have "history_ok r (history ?x)" using inv by (simp add: review_inv_def jud_inv_def jud_ok_def)
    note h = history_list [OF this, of t]
    have "review_inv (r\<lparr>abs_at := (abs_at r)(a := ?x\<lparr>history := (history ?x)(i := Some (fold remove1 ?d ?l))\<rparr>)\<rparr>)"
      by (rule review_inv_history [OF inv]) (use h fold_remove1 [OF h(1), of ?d] t in \<open>auto simp: track_key_def\<close>)
    moreover have "removePreviousJud a u t r
      = (Inr (), r\<lparr>abs_at := (abs_at r)(a := ?x\<lparr>history := (history ?x)(i := Some (fold remove1 ?d ?l))\<rparr>)\<rparr>)"
      using d unfolding removePreviousJud_def Let_def t
      by (simp only: bnd_run get_st_run prod.case sum.case if_False option.case upd_abs_run)
    ultimately show ?thesis by simp
  qed
qed

section \<open>The last judgement of a track\<close>

lemma jud_ok_add:
  assumes "jud_ok r x"
  shows "made J_Acceptance (Some t) j r \<Longrightarrow> jud_ok r (x\<lparr>rejections := bt_del t (rejections x),
      reallocations := bt_del t (reallocations x), acceptances := bt_put t j (acceptances x)\<rparr>)"
    and "made J_Rejection (Some t) j r \<Longrightarrow> jud_ok r (x\<lparr>acceptances := bt_del t (acceptances x),
      reallocations := bt_del t (reallocations x), rejections := bt_put t j (rejections x)\<rparr>)"
    and "made J_Reallocation (Some t) j r \<Longrightarrow> jud_ok r (x\<lparr>acceptances := bt_del t (acceptances x),
      rejections := bt_del t (rejections x), reallocations := bt_put t j (reallocations x)\<rparr>)"
  using assms
  by (simp_all add: jud_ok_def exclusive_def entries_put entries_del bt_get_put bt_get_del)

lemma after_add:
  assumes "made c t j r" "jud_ok r x" "tracks x = tracks (abs_at r a)"
  shows "review_inv (r\<lparr>abs_at := (abs_at r)(a := x)\<rparr>) \<and> j < next_obj (r\<lparr>abs_at := (abs_at r)(a := x)\<rparr>)"
  using assms by (simp add: made_def review_inv_upd)

lemma hoare_addTrack:
  "hoare (made J_Acceptance (Some t) j) (addTrackAcceptance a j) (\<lambda>_. review_inv) review_inv"
  "hoare (made J_Rejection (Some t) j) (addTrackRejection a j) (\<lambda>_. review_inv) review_inv"
  "hoare (made J_Reallocation (Some t) j) (addTrackReallocation a j) (\<lambda>_. review_inv) review_inv"
proof -
  have step: "case addTrackJudgementToHistorical a j (r\<lparr>abs_at := (abs_at r)(a := x)\<rparr>) of
      (Inr _, s') \<Rightarrow> review_inv s' | (Inl _, s') \<Rightarrow> review_inv s'"
    if "made c (Some t) j r" "jud_ok r x" "tracks x = tracks (abs_at r a)" for c r x
    using hoare_addHistorical [of j a, unfolded hoare_def, rule_format, OF after_add [OF that]] by simp
  have ok: "jud_ok r (abs_at r a)" if "made c (Some t) j r" for c r
    using that by (simp add: made_def review_inv_def jud_inv_def)
  have tr: "j_track (jud_at r j) = Some t" if "made c (Some t) j r" for c r
    using that by (simp add: made_def)
  show "hoare (made J_Acceptance (Some t) j) (addTrackAcceptance a j) (\<lambda>_. review_inv) review_inv"
    using step [OF _ jud_ok_add(1) [OF ok]] tr
    by (intro hoareI) (simp add: addTrackAcceptance_def with_track_def removeTrackRejection_def removeTrackReallocation_def)
  show "hoare (made J_Rejection (Some t) j) (addTrackRejection a j) (\<lambda>_. review_inv) review_inv"
    using step [OF _ jud_ok_add(2) [OF ok]] tr
    by (intro hoareI) (simp add: addTrackRejection_def with_track_def removeTrackAcceptance_def removeTrackReallocation_def)
  show "hoare (made J_Reallocation (Some t) j) (addTrackReallocation a j) (\<lambda>_. review_inv) review_inv"
    using step [OF _ jud_ok_add(3) [OF ok]] tr
    by (intro hoareI) (simp add: addTrackReallocation_def with_track_def removeTrackAcceptance_def removeTrackRejection_def)
qed

text \<open>The \<open>_clear\<close> loops: with every judgement under its own track they empty the mapping.\<close>

lemma clear_loop_clears:
  assumes "entries_ok r c m" "length m \<le> n"
  shows "clear_loop n (\<lambda>j. j_track (jud_at r j)) m = Inr []"
  using assms
proof (induction n arbitrary: m)
  case (Suc n)
  show ?case
  proof (cases m)
    case (Cons p m')
    obtain t j where p: "p = (t, j)" by fastforce
    have tj: "j_track (jud_at r j) = Some t" and wf: "bt_wf m"
      using Suc.prems Cons p by (auto simp: entries_ok_def)
    have "bt_get t m = Some j" using Cons p by (simp add: bt_get_Cons)
    then have "length (bt_del t m) \<le> n" using bt_length_del [OF wf, of t] Suc.prems(2) by simp
    then show ?thesis using Suc.IH [OF entries_del [OF Suc.prems(1)], of t] Cons p tj by simp
  qed simp
qed simp

lemma clear_map_clears: "entries_ok r c m \<Longrightarrow> clear_map r m = Inr []"
  unfolding clear_map_def by (rule clear_loop_clears) simp_all

lemma clear_judgements_run:
  assumes "jud_ok r (abs_at r a)"
  shows "clear_judgements a r = (Inr (), r\<lparr>abs_at := (abs_at r)(a := (abs_at r a)\<lparr>acceptances := [],
    rejections := [], reallocations := []\<rparr>)\<rparr>)"
proof -
  have e: "entries_ok r J_Acceptance (acceptances (abs_at r a))" "entries_ok r J_Rejection (rejections (abs_at r a))"
    "entries_ok r J_Reallocation (reallocations (abs_at r a))"
    using assms by (simp_all add: jud_ok_def)
  have eq: "clear_map (r\<lparr>abs_at := h\<rparr>) m = clear_map r m" for h m by (simp add: clear_map_def)
  show ?thesis
    using clear_map_clears [OF e(1)] clear_map_clears [OF e(2)] clear_map_clears [OF e(3)]
    by (simp add: clear_judgements_def clearTrackAcceptances_def clearTrackRejections_def
        clearTrackReallocations_def eq)
qed

lemma keeps_clear_judgements [rev_keeps]: "keeps review_inv (clear_judgements a)"
proof (rule keepsI)
  fix r assume inv: "review_inv r"
  then have ok: "jud_ok r (abs_at r a)" by (simp add: review_inv_def jud_inv_def)
  then have "jud_ok r ((abs_at r a)\<lparr>acceptances := [], rejections := [], reallocations := []\<rparr>)"
    by (simp add: jud_ok_def exclusive_def entries_ok_def bt_wf_def)
  then show "review_inv (snd (clear_judgements a r))"
    using review_inv_upd [OF inv] by (simp add: clear_judgements_run [OF ok])
qed

section \<open>Statuses\<close>

lemma keeps_status [rev_keeps]:
  "keeps review_inv (base_update a)" "keeps review_inv (set_by_judgements a)"
  "keeps review_inv (st_accept a u t ty c)" "keeps review_inv (st_reject a u c)"
  "keeps review_inv (st_unMarkAsDuplicated a)" "keeps review_inv (st_unMerge a)"
  "keeps review_inv (st_markAsDuplicated a u b c)" "keeps review_inv (st_mergeInto a u b c)"
  unfolding base_update_def set_by_judgements_def st_accept_def st_reject_def st_unMarkAsDuplicated_def
    st_unMerge_def st_markAsDuplicated_def st_mergeInto_def Let_def
  by (intro keeps_intros rev_keeps)+

lemma keeps_status_update [rev_keeps]: "keeps review_inv (status_update a)"
  unfolding status_update_def
  by (intro keeps_intros) (simp split: status_class.split, intro conjI allI impI keeps_intros rev_keeps)

lemma keeps_propose [rev_keeps]:
  "keeps review_inv (st_proposeToAccept a)" "keeps review_inv (st_proposeToReject a)"
  "keeps review_inv (st_proposeToReallocate a)"
  unfolding st_proposeToAccept_def st_proposeToReject_def st_proposeToReallocate_def
  by (intro keeps_intros rev_keeps)+

lemma keeps_contribution_withdraw [rev_keeps]: "keeps review_inv (contribution_withdraw k u c)"
  unfolding contribution_withdraw_def by (rule keeps_modify_other) (simp_all split: option.split)

lemma keeps_case_status [keeps_intros]:
  assumes "keeps I m1" "\<And>u t ty c k. keeps I (m2 u t ty c k)" "\<And>u c. keeps I (m3 u c)" "keeps I m4"
    "keeps I m5" "keeps I m6" "keeps I m7" "\<And>u p c. keeps I (m8 u p c)" "\<And>u b c. keeps I (m9 u b c)"
    "\<And>u b c. keeps I (m10 u b c)" "keeps I m11"
  shows "keeps I (case s of Submitted \<Rightarrow> m1 | Accepted u t ty c k \<Rightarrow> m2 u t ty c k | Rejected u c \<Rightarrow> m3 u c
    | UnderReview \<Rightarrow> m4 | ProposedToAccept \<Rightarrow> m5 | ProposedToReject \<Rightarrow> m6 | InConflict \<Rightarrow> m7
    | Withdrawn u p c \<Rightarrow> m8 u p c | Duplicated u b c \<Rightarrow> m9 u b c | Merged u b c \<Rightarrow> m10 u b c | NoStatus \<Rightarrow> m11)"
  using assms by (cases s) simp_all

lemma keeps_withdraw [rev_keeps]: "keeps review_inv (st_withdraw a u c)" "keeps review_inv (st_recover a)"
  unfolding st_withdraw_def st_recover_def Let_def
  by (intro keeps_intros rev_keeps)+

end
