(* ===== verification/Review_Frames.thy ===== *)
theory Review_Frames
  imports Judgement_Inv
begin

text \<open>
  Which operations leave which part of the state alone.  A predicate that only looks at the people
  of the abstracts and the index of primary authors is kept by everything that judges, decides or
  moves abstracts: locale \<open>people_frame\<close>.  One that only looks at which abstracts have a manager is
  kept by the operations on people as well: locale \<open>owner_frame\<close>.  The exactness of the author index
  is an instance of the first, the freshness of the next abstract's id one of the second.
\<close>

section \<open>What does not concern the people\<close>

locale people_frame =
  fixes I :: "review \<Rightarrow> bool"
  assumes frame: "I r \<Longrightarrow> primIdx r' = primIdx r \<Longrightarrow> abstractGen r' = abstractGen r \<Longrightarrow>
    (\<And>a. people (abs_at r' a) = people (abs_at r a)) \<Longrightarrow> I r'"
begin

lemma k_modify:
  assumes "\<And>r. primIdx (f r) = primIdx r" "\<And>r. abstractGen (f r) = abstractGen r"
    "\<And>r a. people (abs_at (f r) a) = people (abs_at r a)"
  shows "keeps I (modify f)"
  by (rule keeps_modify, erule frame) (simp_all add: assms)

lemma k_upd: "(\<And>x. people (f x) = people x) \<Longrightarrow> keeps I (upd_abs a f)"
  unfolding upd_abs_def by (rule k_modify) simp_all

lemma k_upd_parts:
  "keeps I (upd_abs a (\<lambda>x. x\<lparr>tracks := h x\<rparr>))" "keeps I (upd_abs a (\<lambda>x. x\<lparr>history := g x\<rparr>))"
  "keeps I (upd_abs a (\<lambda>x. x\<lparr>acceptances := m x\<rparr>))" "keeps I (upd_abs a (\<lambda>x. x\<lparr>rejections := m x\<rparr>))"
  "keeps I (upd_abs a (\<lambda>x. x\<lparr>reallocations := m x\<rparr>))" "keeps I (upd_abs a (\<lambda>x. x\<lparr>rating := v\<rparr>))"
  "keeps I (upd_abs a (\<lambda>x. x\<lparr>submissionDate := d\<rparr>))" "keeps I (upd_abs a (\<lambda>x. x\<lparr>contribution := k\<rparr>))"
  "keeps I (upd_abs a (\<lambda>x. x\<lparr>mergeFrom := l x\<rparr>))" "keeps I (upd_abs a (\<lambda>x. x\<lparr>currentStatus := s\<rparr>))"
  "keeps I (upd_abs a (\<lambda>x. x\<lparr>currentStatus := st x, contribution := k\<rparr>))"
  "keeps I (upd_abs a (\<lambda>x. x\<lparr>modificationDate := d\<rparr>))"
  "keeps I (upd_abs a (\<lambda>x. x\<lparr>submitter := su\<rparr>))"
  by (rule k_upd; simp add: people_def)+

lemma k_basic:
  "keeps I (notifyModification a)" "keeps I (setCurrentStatus a s)" "keeps I (track_addAbstract t a)"
  "keeps I (track_removeAbstract t a)" "keeps I (upd_jud j f)" "keeps I (setComment j c)"
  "keeps I (registerParticipation p)" "keeps I (unregisterParticipation p)"
  "keeps I (contribution_withdraw k u c)" "keeps I (removeAnswer q j)"
  unfolding notifyModification_def setCurrentStatus_def track_addAbstract_def track_removeAbstract_def
    upd_jud_def setComment_def registerParticipation_def unregisterParticipation_def
    contribution_withdraw_def removeAnswer_def Let_def
  by (intro keeps_intros k_upd_parts k_modify; simp split: option.split)+

lemma k_judgement:
  "keeps I (new_judgement k t u l)" "keeps I (addTrackJudgementToHistorical a j)"
  "keeps I (removePreviousJud a u t)" "keeps I (clear_judgements a)"
  "keeps I (recalculateJudgementValues lo hi j)"
  unfolding new_judgement_def addTrackJudgementToHistorical_def removePreviousJud_def clear_judgements_def
    clearTrackAcceptances_def clearTrackRejections_def clearTrackReallocations_def
    recalculateJudgementValues_def Let_def
  by (intro keeps_intros k_upd_parts k_basic k_modify; simp)+

lemma k_entries:
  "keeps I (addTrackAcceptance a j)" "keeps I (addTrackRejection a j)" "keeps I (addTrackReallocation a j)"
  unfolding addTrackAcceptance_def addTrackRejection_def addTrackReallocation_def with_track_def
    removeTrackAcceptance_def removeTrackRejection_def removeTrackReallocation_def
  by (intro keeps_intros k_upd_parts k_judgement)+

lemma k_rating_loop: "keeps I (rating_loop scale js acc)"
proof (induction js arbitrary: acc)
  case (Cons j js)
  show ?case by (simp only: rating_loop.simps) (intro keeps_intros k_judgement Cons.IH)
qed (simp add: keeps_intros)

lemma k_rating: "keeps I (updateRating a scale)" "keeps I (removeAnswersOfQuestion a q)"
  unfolding updateRating_def removeAnswersOfQuestion_def
  by (intro keeps_intros k_upd_parts k_rating_loop k_basic)+

lemma k_status:
  "keeps I (base_update a)" "keeps I (set_by_judgements a)" "keeps I (st_accept a u t ty c)"
  "keeps I (st_reject a u c)" "keeps I (st_unMarkAsDuplicated a)" "keeps I (st_unMerge a)"
  "keeps I (st_markAsDuplicated a u b c)" "keeps I (st_mergeInto a u b c)" "keeps I (st_proposeToAccept a)"
  "keeps I (st_proposeToReject a)" "keeps I (st_proposeToReallocate a)"
  unfolding base_update_def set_by_judgements_def st_accept_def st_reject_def st_unMarkAsDuplicated_def
    st_unMerge_def st_markAsDuplicated_def st_mergeInto_def st_proposeToAccept_def st_proposeToReject_def
    st_proposeToReallocate_def Let_def set_by_judgements_def
  by (intro keeps_intros k_basic)+

lemma k_status_update: "keeps I (status_update a)"
  unfolding status_update_def
  by (intro keeps_intros) (simp split: status_class.split, intro conjI allI impI keeps_intros k_status)

lemma k_getContribution: "keeps I (getContribution a)"
  unfolding getContribution_def by (intro keeps_intros k_upd_parts)

lemma k_withdraw: "keeps I (st_withdraw a u c)" "keeps I (st_recover a)"
  unfolding st_withdraw_def st_recover_def Let_def by (intro keeps_intros k_basic k_getContribution)+

lemma k_tracks:
  "keeps I (raw_addTrack a t)" "keeps I (raw_removeTrack a t)" "keeps I (addTrack a t)"
  "keeps I (removeTrack a t)" "keeps I (clearTracks a)" "keeps I (setTracks a l)"
  unfolding raw_addTrack_def raw_removeTrack_def addTrack_def removeTrack_def clearTracks_def setTracks_def
  by (intro keeps_intros k_upd_parts k_basic k_status_update)+

lemma k_track_delete: "keeps I (track_delete t)"
  unfolding track_delete_def by (intro keeps_intros k_basic k_tracks k_modify) simp_all

lemma k_propose:
  "keeps I (proposeToAccept a u tk ty c l)" "keeps I (proposeToReject a u tk c l)"
  "keeps I (proposeForOtherTracks a u tk c ts l)"
  unfolding proposeToAccept_def proposeToReject_def proposeForOtherTracks_def
  by (intro keeps_intros k_basic k_judgement k_entries k_rating k_status k_tracks)+

lemma k_new_contribution: "keeps I (new_contribution a)"
  unfolding new_contribution_def Let_def by (intro keeps_intros k_modify) simp_all

lemma k_decide:
  "keeps I (accept a u tk ty c)" "keeps I (reject a u c)" "keeps I (withdraw a u c)" "keeps I (recover a)"
  unfolding accept_def reject_def withdraw_def recover_def setContribution_def
  by (intro keeps_intros k_basic k_status k_withdraw k_upd_parts k_new_contribution)+

lemma k_contribution_delete: "keeps I (contribution_delete k)"
  unfolding contribution_delete_def
  by (intro keeps_intros k_basic k_tracks k_upd_parts k_modify) simp_all

lemma k_mark:
  "keeps I (markAsDuplicated a u b c tk l)" "keeps I (unMarkAsDuplicated a u c tk l)"
  unfolding markAsDuplicated_def unMarkAsDuplicated_def mark_tracks_def
  by (intro keeps_intros k_basic k_status k_judgement k_rating)+

lemma k_merge: "keeps I (unMerge a)" "keeps I (addMergeFromAbstract a b)" "keeps I (release a b)"
  unfolding unMerge_def removeMergeFromAbstract_def addMergeFromAbstract_def release_def
  by (intro keeps_intros k_basic k_status k_judgement k_upd_parts)+

lemma k_mgr:
  "keeps I (recalculateAbstractsRating lo hi)" "keeps I (mgr_removeAnswersOfQuestion q)"
  unfolding recalculateAbstractsRating_def mgr_removeAnswersOfQuestion_def
  by (intro keeps_intros k_rating)+

end

section \<open>What does not concern the manager\<close>

locale owner_frame =
  fixes I :: "review \<Rightarrow> bool"
  assumes owner_frame: "I r \<Longrightarrow> abstractGen r' = abstractGen r \<Longrightarrow>
    (\<And>a. owned (abs_at r' a) = owned (abs_at r a)) \<Longrightarrow> I r'"

sublocale owner_frame \<subseteq> people_frame
proof
  fix r r' :: review assume "I r" "abstractGen r' = abstractGen r" "\<And>a. people (abs_at r' a) = people (abs_at r a)"
  then show "I r'" by (intro owner_frame [of r r']) (auto simp: people_def)
qed

context owner_frame
begin

lemma o_modify:
  assumes "\<And>r. abstractGen (f r) = abstractGen r" "\<And>r a. owned (abs_at (f r) a) = owned (abs_at r a)"
  shows "keeps I (modify f)"
  by (rule keeps_modify, erule owner_frame) (simp_all add: assms)

lemma o_upd: "(\<And>x. owned (f x) = owned x) \<Longrightarrow> keeps I (upd_abs a f)"
  unfolding upd_abs_def by (rule o_modify) simp_all

lemma o_parts:
  "keeps I (upd_abs a (\<lambda>x. x\<lparr>authors := f x\<rparr>))"
  "keeps I (upd_abs a (\<lambda>x. x\<lparr>authorGen := g x, authors := f x\<rparr>))"
  "keeps I (upd_abs a (\<lambda>x. x\<lparr>primaryAuthors := h x\<rparr>))"
  "keeps I (upd_abs a (\<lambda>x. x\<lparr>coAuthors := h x\<rparr>))"
  "keeps I (upd_abs a (\<lambda>x. x\<lparr>speakers := h x\<rparr>))"
  by (rule o_upd; simp)+

lemma o_index: "keeps I (indexAuthor a prim p)" "keeps I (unindexAuthor a prim p)"
  unfolding indexAuthor_def unindexAuthor_def by (intro keeps_intros o_modify; simp)+

lemma o_part: "keeps I (part_index a prim p)" "keeps I (part_unindex a prim p)"
  unfolding part_index_def part_unindex_def by (intro keeps_intros o_index)+

lemma o_setData: "keeps I (setData a prim d p)"
  unfolding setData_def setFirstName_def setSurName_def setEmail_def set_plain_def set_indexed_def Let_def
  by (intro keeps_intros keeps_if_given o_part k_basic)

lemma o_authors:
  "keeps I (author_setData a i d)" "keeps I (removeAuthor a i)" "keeps I (removeSpeaker a i)"
  "keeps I (addSpeaker a i)" "keeps I (addPrimaryAuthor a i)" "keeps I (addCoAuthor a i)"
  "keeps I (clearSpeakers a)" "keeps I (submitter_delete a s)" "keeps I (newAuthor a d)"
  unfolding author_setData_def removeAuthor_def removeSpeaker_def addSpeaker_def addPrimaryAuthor_def
    addCoAuthor_def clearSpeakers_def submitter_delete_def newAuthor_def newCount_def
  by (intro keeps_intros o_parts o_part o_index o_setData k_basic)+

lemma o_authors2:
  "keeps I (newPrimaryAuthor a d)" "keeps I (newCoAuthor a d)" "keeps I (removePrimaryAuthor a i)"
  "keeps I (removeCoAuthor a i)"
  unfolding newPrimaryAuthor_def newCoAuthor_def removePrimaryAuthor_def removeCoAuthor_def
  by (intro keeps_intros o_parts o_index o_authors k_basic)+

lemma o_clearAuthors: "keeps I (clearAuthors a)"
  unfolding clearAuthors_def clearPrimaryAuthors_def clearCoAuthors_def
  by (intro keeps_intros o_authors2 k_basic)

lemma o_setSubmitter: "keeps I (setSubmitter a av)"
  unfolding setSubmitter_def new_submitter_def Let_def
  by (intro keeps_intros o_authors o_setData k_basic k_upd_parts k_modify) simp_all

lemma o_mergeInto: "keeps I (mergeInto a u b m c)"
  unfolding mergeInto_def copy_author_def
  by (intro keeps_intros o_authors o_authors2 k_status k_merge)

end

text \<open>Adding the target of a merge is the only other operation on people.\<close>

lemma keeps_aut_mergeInto:
  assumes "\<And>a d. keeps I (newPrimaryAuthor a d)" "\<And>a d. keeps I (newCoAuthor a d)"
    "\<And>a i d. keeps I (author_setData a i d)" "\<And>a u b c. keeps I (st_mergeInto a u b c)"
    "\<And>a b. keeps I (addMergeFromAbstract a b)"
  shows "keeps I (mergeInto a u b m c)"
  unfolding mergeInto_def copy_author_def by (intro keeps_intros assms)

section \<open>The instances\<close>

definition fresh_inv :: "review \<Rightarrow> bool" where
  "fresh_inv r \<longleftrightarrow> (\<forall>n \<ge> abstractGen r. \<not> owned (abs_at r (str_nat n)))"

interpretation aut: people_frame authors_inv
  by unfold_locales (rule authors_inv_cong [THEN iffD2]; assumption)

interpretation fre: owner_frame fresh_inv
  by unfold_locales (simp add: fresh_inv_def)

end
