(* ===== verification/Review_System.thy ===== *)
theory Review_System
  imports Review_Frames
begin

text \<open>
  A call for abstracts as a transition system: the operations its clients may call, in any order,
  each of which may raise and leave what it did so far.  Every reachable state has the invariant of
  the judgements and the exact index of primary authors.
\<close>

section \<open>The remaining operations and the judgements\<close>

definition links_but :: "aid \<Rightarrow> tid \<Rightarrow> review \<Rightarrow> bool" where
  "links_but a t r \<longleftrightarrow> (\<forall>b. \<forall>u \<in> set (tracks (abs_at r b)). (b, u) \<noteq> (a, t) \<longrightarrow> b \<in> set (track_abs r u))"

lemma jud_ok_retrack: "jud_ok r x \<Longrightarrow> ts_wf py_cmp ts \<Longrightarrow> jud_ok r (x\<lparr>tracks := ts\<rparr>)"
  by (simp add: jud_ok_def exclusive_def)

lemma jud_ok_other: "jud_ok (r\<lparr>abs_at := h, track_abs := g\<rparr>) x = jud_ok r x"
  by (simp add: jud_ok_def entries_ok_def history_ok_def)

lemma review_inv_retrack:
  assumes "jud_inv r" "ts_wf py_cmp ts"
    and "\<And>b u. u \<in> set (if b = a then ts else tracks (abs_at r b)) \<Longrightarrow> b \<in> set (g u)"
  shows "review_inv (r\<lparr>abs_at := (abs_at r)(a := (abs_at r a)\<lparr>tracks := ts\<rparr>), track_abs := g\<rparr>)"
proof (rule review_invI)
  show "jud_inv (r\<lparr>abs_at := (abs_at r)(a := (abs_at r a)\<lparr>tracks := ts\<rparr>), track_abs := g\<rparr>)"
    using assms(1,2) by (simp add: jud_inv_def jud_ok_other jud_ok_retrack)
  show "links_ok (r\<lparr>abs_at := (abs_at r)(a := (abs_at r a)\<lparr>tracks := ts\<rparr>), track_abs := g\<rparr>)"
    using assms(3) by (auto simp: links_ok_def split: if_splits)
qed

lemma raw_removeTrack_inv:
  assumes "jud_inv r" "links_but a t r"
  shows "review_inv (snd (raw_removeTrack a t r))"
proof (cases "t \<in> set (tracks (abs_at r a))")
  case False
  then have "links_ok r" using assms(2) by (auto simp: links_ok_def links_but_def)
  with False assms(1) show ?thesis by (simp add: raw_removeTrack_def review_inv_def)
next
  case True
  let ?ts = "id_del t (tracks (abs_at r a))"
  let ?g = "if a \<in> set (track_abs r t) then (track_abs r)(t := id_del a (track_abs r t)) else track_abs r"
  have "review_inv (r\<lparr>abs_at := (abs_at r)(a := (abs_at r a)\<lparr>tracks := ?ts\<rparr>), track_abs := ?g\<rparr>)"
  proof (rule review_inv_retrack [OF assms(1)])
    show "ts_wf py_cmp ?ts" using assms(1) by (simp add: jud_inv_def jud_ok_def id_wf_del)
    show "b \<in> set (?g u)" if "u \<in> set (if b = a then ?ts else tracks (abs_at r b))" for b u
      using that assms(2) by (auto simp: links_but_def split: if_splits)
  qed
  from keepsD [OF keeps_notify this, of a] show ?thesis
    using True by (simp add: raw_removeTrack_def track_removeAbstract_def track_hasAbstract_def
        notifyModification_def split: if_splits)
qed

lemma links_ok_but: "links_ok r \<Longrightarrow> links_but a t r"
  by (simp add: links_ok_def links_but_def)

lemma keeps_raw_removeTrack [rev_keeps]: "keeps review_inv (raw_removeTrack a t)"
  by (rule keepsI, rule raw_removeTrack_inv) (simp_all add: review_inv_def links_ok_but)

lemma keeps_raw_addTrack [rev_keeps]: "keeps review_inv (raw_addTrack a t)"
proof (rule keepsI)
  fix r assume inv: "review_inv r"
  let ?ts = "id_add t (tracks (abs_at r a))"
  let ?g = "if a \<in> set (track_abs r t) then track_abs r else (track_abs r)(t := id_add a (track_abs r t))"
  have "review_inv (r\<lparr>abs_at := (abs_at r)(a := (abs_at r a)\<lparr>tracks := ?ts\<rparr>), track_abs := ?g\<rparr>)"
  proof (rule review_inv_retrack)
    show "jud_inv r" using inv by (simp add: review_inv_def)
    then show "ts_wf py_cmp ?ts" by (simp add: jud_inv_def jud_ok_def id_wf_add)
    show "b \<in> set (?g u)" if "u \<in> set (if b = a then ?ts else tracks (abs_at r b))" for b u
      using that inv by (auto simp: review_inv_def links_ok_def split: if_splits)
  qed
  from keepsD [OF keeps_notify this, of a] show "review_inv (snd (raw_addTrack a t r))"
    by (simp add: raw_addTrack_def track_addAbstract_def track_hasAbstract_def notifyModification_def
        split: if_splits)
qed

lemma keeps_tracks [rev_keeps]:
  "keeps review_inv (addTrack a t)" "keeps review_inv (removeTrack a t)"
  "keeps review_inv (clearTracks a)" "keeps review_inv (setTracks a l)"
  unfolding addTrack_def removeTrack_def clearTracks_def setTracks_def
  by (intro keeps_intros rev_keeps)+

lemma keeps_drop_track: "keeps review_inv (andthen (track_removeAbstract t a) (removeTrack a t))"
proof (rule keepsI)
  fix r assume inv: "review_inv r"
  define r1 where "r1 = snd (track_removeAbstract t a r)"
  have r1: "track_removeAbstract t a r = (Inr (), r1)" by (simp add: r1_def track_removeAbstract_def)
  have j1: "jud_inv r1" and l1: "links_but a t r1"
    using inv by (auto simp: r1_def track_removeAbstract_def review_inv_def jud_inv_def jud_ok_def
        entries_ok_def history_ok_def links_ok_def links_but_def)
  show "review_inv (snd (andthen (track_removeAbstract t a) (removeTrack a t) r))"
  proof (cases "t \<in> set (tracks (abs_at r1 a))")
    case False
    then have "review_inv r1" using j1 l1 by (auto simp: review_inv_def links_ok_def links_but_def)
    moreover have "keeps review_inv (removeTrack a t)" by (rule rev_keeps)
    ultimately show ?thesis by (simp add: r1 keepsD)
  next
    case True
    define rest where "rest = andthen (status_update a) (with_abs a (\<lambda>x. case currentStatus x of
        Accepted u _ ty c k \<Rightarrow> setCurrentStatus a (Accepted u None ty c k) | _ \<Rightarrow> ret ()))"
    have "keeps review_inv rest" unfolding rest_def by (intro keeps_intros rev_keeps)
    moreover have "review_inv (snd (raw_removeTrack a t r1))" by (rule raw_removeTrack_inv [OF j1 l1])
    ultimately have "review_inv (snd (andthen (raw_removeTrack a t) rest r1))"
      by (auto simp: keeps_def split: prod.split sum.split)
    moreover have "removeTrack a t r1 = andthen (raw_removeTrack a t) rest r1"
      using True by (simp add: removeTrack_def rest_def split: prod.split sum.split)
    ultimately show ?thesis by (simp add: r1)
  qed
qed

lemma keeps_track_delete [rev_keeps]: "keeps review_inv (track_delete t)"
  unfolding track_delete_def by (intro keeps_intros keeps_drop_track keeps_modify_other) simp_all

lemma keeps_proposals [rev_keeps]:
  "keeps review_inv (proposeToAccept a u tk ty c l)" "keeps review_inv (proposeToReject a u tk c l)"
  "keeps review_inv (proposeForOtherTracks a u tk c ts l)"
proof -
  have rest: "hoare review_inv m (\<lambda>_. review_inv) review_inv" if "keeps review_inv m" for m :: "(review, unit) prog"
    using that by (simp add: hoare_keeps)
  have A: "keeps review_inv (bnd (new_judgement k (Some t) u l) (\<lambda>j. andthen (setComment j c) (andthen (add j) m)))"
    if "\<And>j. hoare (made (jclass k) (Some t) j) (add j) (\<lambda>_. review_inv) review_inv" "keeps review_inv m"
    for k t add and m :: "(review, unit) prog"
    by (rule hoare_new) (rule hoare_andthen [OF hoare_setComment] hoare_andthen [OF that(1)] rest [OF that(2)])+
  show "keeps review_inv (proposeToAccept a u tk ty c l)" "keeps review_inv (proposeToReject a u tk c l)"
    "keeps review_inv (proposeForOtherTracks a u tk c ts l)"
    unfolding proposeToAccept_def proposeToReject_def proposeForOtherTracks_def
    by (cases tk; simp only: option.case; intro keeps_with_abs_any keeps_if keeps_raise
        keeps_andthen [OF keeps_removePrevious] A keeps_andthen keeps_for_each;
        simp add: hoare_addTrack rev_keeps)+
qed

lemma keeps_mark_tracks [rev_keeps]: "keeps review_inv (mark_tracks a k u c l tk)"
proof -
  have "keeps review_inv (bnd (new_judgement k (Some t) u l)
      (\<lambda>j. andthen (setComment j c) (addTrackJudgementToHistorical a j)))" for t
    by (rule hoare_new, rule hoare_andthen [OF hoare_setComment],
        rule hoare_weaken [OF hoare_addHistorical]) (simp_all add: made_def)
  note each = this
  show ?thesis unfolding mark_tracks_def by (intro keeps_with_abs_any keeps_for_each each)
qed

lemma keeps_decisions [rev_keeps]:
  "keeps review_inv (accept a u tk ty c)" "keeps review_inv (reject a u c)"
  "keeps review_inv (withdraw a u c)" "keeps review_inv (recover a)"
proof -
  have "keeps review_inv (new_contribution a)"
    unfolding new_contribution_def Let_def by (intro keeps_intros keeps_modify_other) simp_all
  moreover have "keeps review_inv (setContribution a k)" for k
    unfolding setContribution_def by (rule keeps_upd_plain) (simp add: jparts_def)
  ultimately show "keeps review_inv (accept a u tk ty c)"
    unfolding accept_def by (intro keeps_intros rev_keeps)
  show "keeps review_inv (reject a u c)" "keeps review_inv (withdraw a u c)" "keeps review_inv (recover a)"
    unfolding reject_def withdraw_def recover_def by (intro keeps_intros rev_keeps)+
qed

lemma keeps_contribution_delete [rev_keeps]: "keeps review_inv (contribution_delete k)"
  unfolding contribution_delete_def by (intro keeps_intros rev_keeps keeps_modify_other) simp_all

lemma keeps_duplicates [rev_keeps]:
  "keeps review_inv (markAsDuplicated a u b c tk l)" "keeps review_inv (unMarkAsDuplicated a u c tk l)"
  unfolding markAsDuplicated_def unMarkAsDuplicated_def by (intro keeps_intros rev_keeps)+

lemma keeps_merging [rev_keeps]: "keeps review_inv (mergeInto a u b m c)" "keeps review_inv (unMerge a)"
  "keeps review_inv (release a b)"
  unfolding mergeInto_def copy_author_def addMergeFromAbstract_def unMerge_def removeMergeFromAbstract_def release_def
  by (intro keeps_intros rev_keeps)+

lemma rev_delete [rev_keeps]: "keeps review_inv (abstract_delete a)"
  unfolding abstract_delete_def by (intro keeps_intros rev_keeps)

lemma keeps_removeAbstract [rev_keeps]: "keeps review_inv (removeAbstract a)"
  unfolding removeAbstract_def by (intro keeps_intros rev_keeps keeps_modify_other) simp_all

lemma keeps_addAbstract [rev_keeps]: "keeps review_inv (addAbstract a)"
  unfolding addAbstract_def by (intro keeps_intros rev_keeps keeps_modify_other) simp_all

lemma keeps_mgr [rev_keeps]:
  "keeps review_inv (recalculateAbstractsRating lo hi)" "keeps review_inv (mgr_removeAnswersOfQuestion q)"
  unfolding recalculateAbstractsRating_def mgr_removeAnswersOfQuestion_def by (intro keeps_intros rev_keeps)+

text \<open>\<open>newAbstract\<close> after the first step, which allocates the abstract.\<close>

definition alloc :: "review \<Rightarrow> review" where
  "alloc r = r\<lparr>abstractGen := Suc (abstractGen r),
     abs_at := (abs_at r)(str_nat (abstractGen r) := new_abstract_record (now r))\<rparr>"

lemma newAbstract_alloc:
  "newAbstract av r = (let i = str_nat (abstractGen r) in
     andthen (setSubmitter i av) (andthen (modify (\<lambda>r. r\<lparr>listed := id_add i (listed r)\<rparr>)) (ret i)) (alloc r))"
  by (simp add: newAbstract_def newCount_def alloc_def Let_def)

lemma keeps_newAbstract_of:
  assumes "\<And>r. I r \<Longrightarrow> I (alloc r)" "\<And>i. keeps I (setSubmitter i av)"
    "\<And>i. keeps I (modify (\<lambda>r. r\<lparr>listed := id_add i (listed r)\<rparr>))"
  shows "keeps I (newAbstract av)"
proof (rule keepsI)
  fix r assume "I r"
  then have "I (alloc r)" by (rule assms(1))
  moreover have "keeps I (andthen (setSubmitter i av) (andthen (modify (\<lambda>r. r\<lparr>listed := id_add i (listed r)\<rparr>)) (ret i)))" for i
    by (intro keeps_intros assms)
  ultimately show "I (snd (newAbstract av r))"
    unfolding newAbstract_alloc Let_def by (blast dest: keepsD)
qed

lemma keeps_newAbstract [rev_keeps]: "keeps review_inv (newAbstract av)"
proof (rule keeps_newAbstract_of)
  fix r assume inv: "review_inv r"
  have "jud_ok r (new_abstract_record t)" for t
    by (simp add: jud_ok_def exclusive_def entries_ok_def history_ok_def new_abstract_record_def bt_wf_def)
  moreover have "jud_ok (alloc r) y = jud_ok r y" for y
    by (simp add: alloc_def jud_ok_def entries_ok_def history_ok_def)
  ultimately have "jud_inv (alloc r)" using inv by (auto simp: review_inv_def jud_inv_def alloc_def)
  moreover have "links_ok (alloc r)"
    using inv by (auto simp: review_inv_def links_ok_def alloc_def new_abstract_record_def)
  ultimately show "review_inv (alloc r)" by (rule review_invI)
qed (intro rev_keeps keeps_modify_other; simp)+

section \<open>The remaining operations and the people\<close>

definition people_inv :: "review \<Rightarrow> bool" where
  "people_inv r \<longleftrightarrow> authors_inv r \<and> fresh_inv r"

lemma keeps_people_inv: "keeps authors_inv m \<Longrightarrow> keeps fresh_inv m \<Longrightarrow> keeps people_inv m"
  unfolding people_inv_def by (rule keeps_conj)

interpretation emp: people_frame "\<lambda>r. authors_inv r \<and> primaryAuthors (abs_at r a) = []" for a
  by unfold_locales (auto intro: authors_inv_cong [THEN iffD2] simp: people_def)

interpretation own: people_frame "\<lambda>r. authors_inv r \<and> owned (abs_at r a)" for a
  by unfold_locales (auto intro: authors_inv_cong [THEN iffD2] simp: people_def)

lemma removePrimaryAuthor_run:
  assumes "owned (abs_at r a)" "isPrimaryAuthor (abs_at r a) i"
  shows "\<exists>r'. removePrimaryAuthor a i r = (Inr (), r') \<and> owned (abs_at r' a)
    \<and> primaryAuthors (abs_at r' a) = remove1 i (primaryAuthors (abs_at r a))"
  using assms
  by (cases "isSpeaker (abs_at r a) i"; cases "isAuthor (abs_at r a) i")
    (simp_all add: removePrimaryAuthor_def removeSpeaker_def on_owner_def unindexAuthor_def removeAuthor_def
      part_unindex_def isAuthor_def)

lemma clear_primaries:
  assumes "authors_inv r" "owned (abs_at r a)" "primaryAuthors (abs_at r a) = xs"
  shows "\<exists>r'. for_each xs (removePrimaryAuthor a) r = (Inr (), r') \<and> authors_inv r'
    \<and> primaryAuthors (abs_at r' a) = []"
  using assms
proof (induction xs arbitrary: r)
  case (Cons i xs)
  have "isPrimaryAuthor (abs_at r a) i" using Cons.prems by (simp add: isPrimaryAuthor_def)
  then obtain s where s: "removePrimaryAuthor a i r = (Inr (), s)" "owned (abs_at s a)"
    "primaryAuthors (abs_at s a) = xs"
    using removePrimaryAuthor_run Cons.prems by fastforce
  then have "authors_inv s" using Cons.prems(1) keeps_removePrimaryAuthor by (metis keeps_run)
  from Cons.IH [OF this s(2,3)] show ?case by (simp add: s(1))
qed (simp add: ret_def)

lemma keeps_emp_removeCoAuthor:
  "keeps (\<lambda>r. authors_inv r \<and> primaryAuthors (abs_at r a) = []) (removeCoAuthor a i)"
proof (rule keepsI)
  fix r assume inv: "authors_inv r \<and> primaryAuthors (abs_at r a) = []"
  have "primaryAuthors (abs_at (snd (removeCoAuthor a i r)) a) = []"
    using inv by (simp add: removeCoAuthor_def removeSpeaker_def removeAuthor_def part_unindex_def
        unindexAuthor_def isPrimaryAuthor_def)
  with inv keeps_removeCoAuthor show "authors_inv (snd (removeCoAuthor a i r)) \<and>
      primaryAuthors (abs_at (snd (removeCoAuthor a i r)) a) = []"
    by (auto simp: keeps_def)
qed

lemma hoare_clearAuthors:
  "hoare (\<lambda>r. authors_inv r \<and> owned (abs_at r a)) (clearAuthors a)
     (\<lambda>_ r. authors_inv r \<and> primaryAuthors (abs_at r a) = []) authors_inv"
proof -
  let ?E = "\<lambda>r. authors_inv r \<and> primaryAuthors (abs_at r a) = []"
  have 1: "hoare (\<lambda>r. authors_inv r \<and> owned (abs_at r a))
      (with_abs a (\<lambda>x. for_each (primaryAuthors x) (removePrimaryAuthor a))) (\<lambda>_. ?E) authors_inv"
    by (rule hoareI) (use clear_primaries in fastforce)
  have 2: "hoare ?E m (\<lambda>_. ?E) authors_inv" if "keeps ?E m" for m :: "(review, unit) prog"
    using that unfolding hoare_keeps by (rule hoare_weaken) auto
  have co: "keeps ?E (clearCoAuthors a)"
    unfolding clearCoAuthors_def by (intro keeps_intros keeps_emp_removeCoAuthor emp.k_basic)
  have "hoare (\<lambda>r. authors_inv r \<and> owned (abs_at r a)) (clearPrimaryAuthors a) (\<lambda>_. ?E) authors_inv"
    unfolding clearPrimaryAuthors_def by (rule hoare_andthen [OF 1 2 [OF emp.k_basic(1)]])
  then show ?thesis
    unfolding clearAuthors_def
    by (rule hoare_andthen [OF _ hoare_andthen [OF 2 [OF co] 2 [OF emp.k_basic(1)]]])
qed

lemma keeps_aut_delete: "keeps authors_inv (abstract_delete a)"
proof (rule keepsI)
  fix r assume inv: "authors_inv r"
  let ?O = "\<lambda>r. authors_inv r \<and> owned (abs_at r a)"
  let ?E = "\<lambda>r. authors_inv r \<and> primaryAuthors (abs_at r a) = []"
  have O: "hoare ?O m (\<lambda>_. ?O) authors_inv" if "keeps ?O m" for m :: "(review, unit) prog"
    using that unfolding hoare_keeps by (rule hoare_weaken) auto
  have E: "hoare ?E m (\<lambda>_. ?E) authors_inv" if "keeps ?E m" for m :: "(review, unit) prog"
    using that unfolding hoare_keeps by (rule hoare_weaken) auto
  have A: "hoare authors_inv m (\<lambda>_. authors_inv) authors_inv" if "keeps authors_inv m" for m :: "(review, unit) prog"
    using that by (simp add: hoare_keeps)
  have sub: "keeps ?O (submitter_delete a s)" for s
    unfolding submitter_delete_def part_unindex_def unindexAuthor_def when_do_def
    by (rule keepsI) (auto simp: authors_inv_def)
  have spk: "keeps ?E (clearSpeakers a)"
    by (rule keeps_conj [OF keeps_clearSpeakers], rule keepsI) (simp add: clearSpeakers_def)
  have off: "hoare ?E (upd_abs a (\<lambda>x. x\<lparr>owned := False\<rparr>)) (\<lambda>_. authors_inv) authors_inv"
  proof (rule hoareI)
    fix s assume "?E s"
    then have e: "authors_inv s" "primaryAuthors (abs_at s a) = []" by auto
    let ?y = "(abs_at s a)\<lparr>owned := False\<rparr>"
    let ?s = "s\<lparr>abs_at := (abs_at s)(a := ?y)\<rparr>"
    have "authors_inv ?s"
    proof (rule authors_inv_upd [OF e(1), of ?s a ?y])
      show "people_wf ?y" using authors_invD(2) [OF e(1), of a] by (simp add: people_wf_def)
      show "ai_wf (primIdx ?s)" using authors_invD(1) [OF e(1)] by simp
      show "ai_count (primIdx ?s) k a = (if owned ?y then name_count ?y k else 0)" for k
        using authors_invD(3) [OF e(1), of k a] e(2) by (simp add: name_count_def)
    qed simp_all
    then show "case upd_abs a (\<lambda>x. x\<lparr>owned := False\<rparr>) s of (Inr x, s') \<Rightarrow> authors_inv s'
      | (Inl e, s') \<Rightarrow> authors_inv s'" by simp
  qed
  have body: "hoare ?O (andthen (on_owner a (unregisterParticipation s)) (andthen (submitter_delete a s)
      (andthen (upd_abs a (\<lambda>x. x\<lparr>submitter := None\<rparr>)) (andthen (clearAuthors a) (andthen (clearSpeakers a)
      (andthen (clearTracks a) (andthen (upd_abs a (\<lambda>x. x\<lparr>owned := False\<rparr>)) (setCurrentStatus a NoStatus)))))))) 
      (\<lambda>_. authors_inv) authors_inv" for s
    by (rule hoare_andthen [OF O [OF keeps_on_owner [OF own.k_basic(8)]]] hoare_andthen [OF O [OF sub]]
        hoare_andthen [OF O [OF own.k_upd_parts(13)]] hoare_andthen [OF hoare_clearAuthors]
        hoare_andthen [OF E [OF spk]] hoare_andthen [OF E [OF emp.k_tracks(5)]] hoare_andthen [OF off]
        A [OF aut.k_basic(2)])+
  show "authors_inv (snd (abstract_delete a r))"
  proof (cases "owned (abs_at r a) \<and> submitter (abs_at r a) \<noteq> None")
    case True
    then obtain s where "submitter (abs_at r a) = Some s" by auto
    with hoare_end [OF body [of s], of r] inv True show ?thesis
      unfolding abstract_delete_def with_abs_run
      by (simp only: when_run if_True option.case simp_thms)
  next
    case False
    with inv show ?thesis by (auto simp: abstract_delete_def)
  qed
qed

lemma keeps_aut_alloc: "people_inv r \<Longrightarrow> people_inv (alloc r)"
proof -
  assume inv: "people_inv r"
  let ?i = "str_nat (abstractGen r)"
  have a: "authors_inv r" and f: "\<And>n. n \<ge> abstractGen r \<Longrightarrow> \<not> owned (abs_at r (str_nat n))"
    using inv by (simp_all add: people_inv_def fresh_inv_def)
  have "authors_inv (alloc r)"
  proof (rule authors_inv_upd [OF a, of _ ?i "new_abstract_record (now r)"])
    show "people_wf (new_abstract_record (now r))"
      by (simp add: people_wf_def new_abstract_record_def bt_wf_def)
    show "ai_count (primIdx (alloc r)) k ?i = (if owned (new_abstract_record (now r))
        then name_count (new_abstract_record (now r)) k else 0)" for k
      using authors_invD(3) [OF a, of k ?i] f [of "abstractGen r"]
      by (simp add: alloc_def name_count_def new_abstract_record_def)
  qed (use authors_invD(1) [OF a] in \<open>simp_all add: alloc_def\<close>)
  moreover have "fresh_inv (alloc r)" using f by (simp add: fresh_inv_def alloc_def)
  ultimately show ?thesis by (simp add: people_inv_def)
qed

lemma keeps_people_newAbstract: "keeps people_inv (newAbstract av)"
  by (rule keeps_newAbstract_of [where I = people_inv, OF keeps_aut_alloc])
    (assumption | rule keeps_people_inv [OF keeps_setSubmitter fre.o_setSubmitter]
       | (rule keeps_people_inv [OF aut.k_modify fre.k_modify]; simp))+

lemma keeps_people_removeAbstract: "keeps people_inv (removeAbstract a)"
proof (rule keeps_people_inv)
  have "keeps fresh_inv (abstract_delete a)"
    unfolding abstract_delete_def
  proof (intro keeps_intros fre.k_basic fre.o_authors fre.o_clearAuthors fre.k_tracks fre.k_upd_parts)
    show "keeps fresh_inv (upd_abs a (\<lambda>x. x\<lparr>owned := False\<rparr>))"
      by (rule keepsI) (simp add: fresh_inv_def)
  qed
  then show "keeps fresh_inv (removeAbstract a)"
    unfolding removeAbstract_def
    by (intro keeps_intros fre.k_merge fre.k_basic fre.k_getContribution fre.k_modify) simp_all
  show "keeps authors_inv (removeAbstract a)"
    unfolding removeAbstract_def
    by (intro keeps_intros keeps_aut_delete aut.k_merge aut.k_basic aut.k_getContribution aut.k_modify) simp_all
qed

text \<open>
  \<open>addAbstract\<close> takes back an abstract of this manager that was removed: it had an id from the
  counter and has no manager now.
\<close>

definition was_created :: "aid \<Rightarrow> review \<Rightarrow> bool" where
  "was_created a r \<longleftrightarrow> (\<exists>n < abstractGen r. a = str_nat n)"

lemma index_all:
  "for_each is (\<lambda>i. indexAuthor a True (f i)) r = (Inr (), r\<lparr>
     primIdx := fold (\<lambda>(k, b). ai_index k b) (map (\<lambda>i. (name_key (f i), a)) is) (primIdx r),
     emailIdx := fold (\<lambda>i. ai_index (email_key (f i)) a) is (emailIdx r)\<rparr>)"
proof (induction "is" arbitrary: r)
  case (Cons i "is")
  then show ?case by (simp add: indexAuthor_def)
qed (simp add: ret_def)

lemma count_list_names:
  "int (count_list (map (\<lambda>i. (name_key (f i), a)) is) (k, b)) =
     (if b = a then int (length (filter (\<lambda>i. name_key (f i) = k) is)) else 0)"
  by (induction "is") auto

lemma people_addAbstract:
  assumes inv: "people_inv r" and a: "was_created a r" "\<not> owned (abs_at r a)"
  shows "people_inv (snd (addAbstract a r))"
proof (cases "a \<in> set (listed r) \<or> class_of (currentStatus (abs_at r a)) = C_Withdrawn")
  case True
  then show ?thesis using inv by (auto simp: addAbstract_def)
next
  case False
  let ?x = "abs_at r a" and ?y = "(abs_at r a)\<lparr>owned := True\<rparr>"
  let ?ps = "map (\<lambda>i. (name_key (author_of ?y i), a)) (primaryAuthors ?x)"
  let ?r = "snd (addAbstract a r)"
  have ai: "authors_inv r" using inv by (simp add: people_inv_def)
  have out: "abs_at ?r = (abs_at r)(a := ?y)" "primIdx ?r = fold (\<lambda>(k, b). ai_index k b) ?ps (primIdx r)"
    "abstractGen ?r = abstractGen r"
    using False by (simp_all add: addAbstract_def index_all)
  note cnt = aidx.add_all [OF authors_invD(1) [OF ai], of ?ps]
  have "authors_inv ?r"
  proof (rule authors_inv_upd [OF ai, of _ a ?y])
    show "people_wf ?y" using authors_invD(2) [OF ai, of a] by (simp add: people_wf_def)
    show "ai_wf (primIdx ?r)" using cnt by (simp add: out(2))
    show "ai_count (primIdx ?r) k a = (if owned ?y then name_count ?y k else 0)" for k
      using cnt [of k a] authors_invD(3) [OF ai, of k a] a(2) count_list_names [of "author_of ?y" a "primaryAuthors ?x" k a]
      by (simp add: out(2) name_count_def)
    show "ai_count (primIdx ?r) k b = ai_count (primIdx r) k b" if "b \<noteq> a" for b k
      using cnt [of k b] that count_list_names [of "author_of ?y" a "primaryAuthors ?x" k b]
      by (simp add: out(2))
  qed (simp_all add: out)
  moreover have "fresh_inv ?r"
    using inv a(1) unfolding fresh_inv_def people_inv_def was_created_def out by fastforce
  ultimately show ?thesis by (simp add: people_inv_def)
qed

section \<open>The system\<close>

text \<open>Who the abstract is from, which abstracts there are and the shared objects.\<close>

datatype desk_op =
    New_Abstract "uid option" | Add_Abstract aid | Remove_Abstract aid
  | Set_Title aid string | Set_Contrib_Type aid "string option" | Set_Submitter aid "uid option"
  | New_Track tid | Delete_Track tid | Give_Answers nat "answer list"
  | Rescale int int | Remove_Answers string | Tick int

datatype people_op =
    New_Primary aid part_data | New_Co aid part_data
  | Remove_Primary aid string | Remove_Co aid string | Set_Author aid string part_data
  | Add_Speaker aid string | Remove_Speaker aid string | Clear_Authors aid

text \<open>What reviewers and managers do to an abstract.\<close>

datatype review_op =
    Add_Track aid tid | Remove_Track aid tid | Set_Tracks aid "tid list"
  | Propose_Accept aid uid "tid option" "string option" string nat
  | Propose_Reject aid uid "tid option" string nat
  | Propose_Reallocate aid uid "tid option" string "tid list" nat
  | Accept aid uid "tid option" "string option" string | Reject aid uid string
  | Withdraw aid uid string | Recover aid | Delete_Contribution aid
  | Mark_Duplicated aid uid aid string "tid option" nat
  | Unmark_Duplicated aid uid string "tid option" nat
  | Merge_Into aid uid aid bool string | Unmerge aid | Update_Rating aid

datatype rev_op = Desk desk_op | People people_op | Review review_op

definition void :: "(review, 'a) prog \<Rightarrow> (review, unit) prog" where
  "void m = bnd m (\<lambda>_. ret ())"

fun run_desk :: "desk_op \<Rightarrow> (review, unit) prog" where
  "run_desk (New_Abstract av) = void (newAbstract av)"
| "run_desk (Add_Abstract a) = addAbstract a"
| "run_desk (Remove_Abstract a) = removeAbstract a"
| "run_desk (Set_Title a t) = setTitle a t"
| "run_desk (Set_Contrib_Type a ty) = setContribType a ty"
| "run_desk (Set_Submitter a av) = setSubmitter a av"
| "run_desk (New_Track t) = modify (\<lambda>r. r\<lparr>program := program r @ [t]\<rparr>)"
| "run_desk (Delete_Track t) = track_delete t"
| "run_desk (Give_Answers l as) = modify (\<lambda>r. r\<lparr>answers_at := (answers_at r)(l := as)\<rparr>)"
| "run_desk (Rescale lo hi) = recalculateAbstractsRating lo hi"
| "run_desk (Remove_Answers q) = mgr_removeAnswersOfQuestion q"
| "run_desk (Tick d) = modify (\<lambda>r. r\<lparr>now := now r + d\<rparr>)"

fun run_people :: "people_op \<Rightarrow> (review, unit) prog" where
  "run_people (New_Primary a d) = void (newPrimaryAuthor a d)"
| "run_people (New_Co a d) = void (newCoAuthor a d)"
| "run_people (Remove_Primary a i) = removePrimaryAuthor a i"
| "run_people (Remove_Co a i) = removeCoAuthor a i"
| "run_people (Set_Author a i d) = author_setData a i d"
| "run_people (Add_Speaker a i) = addSpeaker a i"
| "run_people (Remove_Speaker a i) = removeSpeaker a i"
| "run_people (Clear_Authors a) = clearAuthors a"

fun run_review :: "review_op \<Rightarrow> (review, unit) prog" where
  "run_review (Add_Track a t) = addTrack a t"
| "run_review (Remove_Track a t) = removeTrack a t"
| "run_review (Set_Tracks a l) = setTracks a l"
| "run_review (Propose_Accept a u t ty c l) = proposeToAccept a u t ty c l"
| "run_review (Propose_Reject a u t c l) = proposeToReject a u t c l"
| "run_review (Propose_Reallocate a u t c ts l) = proposeForOtherTracks a u t c ts l"
| "run_review (Accept a u t ty c) = accept a u t ty c"
| "run_review (Reject a u c) = reject a u c"
| "run_review (Withdraw a u c) = withdraw a u c"
| "run_review (Recover a) = recover a"
| "run_review (Delete_Contribution k) = contribution_delete k"
| "run_review (Mark_Duplicated a u b c t l) = markAsDuplicated a u b c t l"
| "run_review (Unmark_Duplicated a u c t l) = unMarkAsDuplicated a u c t l"
| "run_review (Merge_Into a u b m c) = mergeInto a u b m c"
| "run_review (Unmerge a) = unMerge a"
| "run_review (Update_Rating a) = updateRating a None"

fun run_op :: "rev_op \<Rightarrow> (review, unit) prog" where
  "run_op (Desk d) = run_desk d"
| "run_op (People p) = run_people p"
| "run_op (Review v) = run_review v"

definition op_ok :: "rev_op \<Rightarrow> review \<Rightarrow> bool" where
  "op_ok op r = (case op of
       Desk (Add_Abstract a) \<Rightarrow> was_created a r \<and> \<not> owned (abs_at r a) | _ \<Rightarrow> True)"

text \<open>An empty call for abstracts: no abstract, no judgement, any users and programme.\<close>

definition empty_review :: "(uid \<Rightarrow> part) \<Rightarrow> tid list \<Rightarrow> int \<Rightarrow> review" where
  "empty_review us prog t = \<lparr>abs_at = (\<lambda>_. (new_abstract_record t)\<lparr>owned := False\<rparr>), listed = [],
     abstractGen = 0, primIdx = [], emailIdx = [], partIdx = [], users = us, track_abs = (\<lambda>_. []),
     program = prog, jud_at = (\<lambda>_. \<lparr>j_kind = Rejection, j_track = None, j_responsible = 0, j_date = 0,
       j_comment = [], j_answers = 0, j_value = None, j_total = 0\<rparr>),
     answers_at = (\<lambda>_. []), next_obj = 0, contribs = (\<lambda>_. None), now = t\<rparr>"

inductive rev_reach :: "review \<Rightarrow> bool" where
  start: "rev_reach (empty_review us prog t)"
| step: "rev_reach r \<Longrightarrow> op_ok op r \<Longrightarrow> rev_reach (snd (run_op op r))"

inductive_cases rev_reachE: "rev_reach r"

lemma keeps_void: "keeps I m \<Longrightarrow> keeps I (void m)"
  unfolding void_def by (intro keeps_intros)

lemma keeps_fields [rev_keeps]:
  "keeps review_inv (setTitle a t)" "keeps review_inv (setContribType a ty)"
  unfolding setTitle_def setContribType_def
  by (intro keeps_intros rev_keeps keeps_upd_plain; simp add: jparts_def)+

lemma keeps_clients [rev_keeps]:
  "keeps review_inv (modify (\<lambda>r. r\<lparr>program := program r @ [t]\<rparr>))"
  "keeps review_inv (modify (\<lambda>r. r\<lparr>answers_at := (answers_at r)(l := as)\<rparr>))"
  "keeps review_inv (modify (\<lambda>r. r\<lparr>now := now r + d\<rparr>))"
  by (rule keeps_modify_other; simp)+

lemma keeps_run_op: "keeps review_inv (run_op op)"
proof (cases op)
  case (Desk d)
  then show ?thesis by (cases d) (simp_all add: keeps_void rev_keeps)
next
  case (People p)
  then show ?thesis by (cases p) (simp_all add: keeps_void rev_keeps)
next
  case (Review v)
  then show ?thesis by (cases v) (simp_all add: rev_keeps)
qed

context people_frame
begin

lemma k_fields: "keeps I (setTitle a t)" "keeps I (setContribType a ty)"
  unfolding setTitle_def setContribType_def by (intro keeps_intros k_basic k_upd; simp add: people_def)+

lemma k_clients:
  "keeps I (modify (\<lambda>r. r\<lparr>program := program r @ [t]\<rparr>))"
  "keeps I (modify (\<lambda>r. r\<lparr>answers_at := (answers_at r)(l := as)\<rparr>))"
  "keeps I (modify (\<lambda>r. r\<lparr>now := now r + d\<rparr>))"
  by (rule k_modify; simp)+

lemmas k_all = k_fields k_tracks k_track_delete k_propose k_decide k_contribution_delete k_mark k_merge
  k_mgr k_rating

end

lemma keeps_people_run_op: "\<forall>a. op \<noteq> Desk (Add_Abstract a) \<Longrightarrow> keeps people_inv (run_op op)"
proof -
  assume not_add: "\<forall>a. op \<noteq> Desk (Add_Abstract a)"
  have merge: "keeps authors_inv (mergeInto a u b m c)" for a u b m c
    by (intro keeps_aut_mergeInto keeps_people aut.k_status aut.k_merge)
  show ?thesis
  proof (cases op)
    case (Desk d)
    then show ?thesis
      using not_add by (cases d) (simp_all add: keeps_void keeps_people_newAbstract keeps_people_removeAbstract
          keeps_people_inv keeps_people aut.k_all aut.k_clients fre.k_all fre.k_clients fre.o_setSubmitter)
  next
    case (People p)
    then show ?thesis
      by (cases p) (simp_all add: keeps_void keeps_people_inv keeps_people fre.o_authors fre.o_authors2
          fre.o_clearAuthors)
  next
    case (Review v)
    then show ?thesis
      by (cases v) (simp_all add: keeps_people_inv merge fre.o_mergeInto aut.k_all fre.k_all)
  qed
qed

lemma reach_invs: "rev_reach r \<Longrightarrow> review_inv r \<and> people_inv r"
proof (induction rule: rev_reach.induct)
  case (start us prog t)
  then show ?case
    by (simp add: empty_review_def review_inv_def jud_inv_def links_ok_def jud_ok_def exclusive_def
        entries_ok_def history_ok_def new_abstract_record_def bt_wf_def people_inv_def authors_inv_def
        fresh_inv_def people_wf_def ai_wf_def ai_count_def ai_entry_def)
next
  case (step r op)
  have "review_inv (snd (run_op op r))" using step keeps_run_op by (blast dest: keepsD)
  moreover have "people_inv (snd (run_op op r))"
  proof (cases "\<exists>a. op = Desk (Add_Abstract a)")
    case True
    then show ?thesis using step people_addAbstract by (auto simp: op_ok_def)
  next
    case False
    then show ?thesis using step keeps_people_run_op by (blast dest: keepsD)
  qed
  ultimately show ?case by blast
qed

end
