(* ===== verification/Proposals.thy ===== *)
theory Proposals
  imports Review_System
begin

text \<open>
  What a reviewer's proposal amounts to: one judgement recorded in place of his earlier ones on the
  track, the rating recomputed as the mean of all judgements (in floats, which the order of the tracks in the
  programme can change in the last bits), and the status that the judgements
  give.  The operations of \<open>Abstract\<close> are shown to be this specification.
\<close>

section \<open>The specification\<close>

definition values_of :: "review \<Rightarrow> jid list \<Rightarrow> rat list" where
  "values_of r js = List.map_filter (\<lambda>j. j_value (jud_at r j)) js"

text \<open>The abstract's tracks in the order of the programme.\<close>

definition in_programme :: "tid list \<Rightarrow> tid list \<Rightarrow> tid list" where
  "in_programme prog ts = filter (\<lambda>t. t \<in> set ts) (rev (remdups (rev prog)))"

definition all_valued :: "answer list \<Rightarrow> bool" where
  "all_valued as \<longleftrightarrow> (\<forall>a \<in> set as. an_value a \<noteq> None)"

definition place :: "jud_class \<Rightarrow> tid \<Rightarrow> jid \<Rightarrow> abstract \<Rightarrow> abstract" where
  "place c t j x =
     (if c = J_Acceptance then x\<lparr>rejections := bt_del t (rejections x),
        reallocations := bt_del t (reallocations x), acceptances := bt_put t j (acceptances x)\<rparr>
      else if c = J_Rejection then x\<lparr>acceptances := bt_del t (acceptances x),
        reallocations := bt_del t (reallocations x), rejections := bt_put t j (rejections x)\<rparr>
      else x\<lparr>acceptances := bt_del t (acceptances x), rejections := bt_del t (rejections x),
        reallocations := bt_put t j (reallocations x)\<rparr>)"

text \<open>The judgement that is made, and the state in which it stands in the history.\<close>

definition the_judgement :: "jud_kind \<Rightarrow> tid \<Rightarrow> uid \<Rightarrow> string \<Rightarrow> nat \<Rightarrow> review \<Rightarrow> judgement" where
  "the_judgement k t u c l r = \<lparr>j_kind = k, j_track = Some t, j_responsible = u, j_date = now r,
     j_comment = py_strip c, j_answers = l,
     j_value = fl_mean (map (the \<circ> an_value) (answers_at r l)),
     j_total = fl_sum (map (the \<circ> an_value) (answers_at r l))\<rparr>"

definition new_history :: "review \<Rightarrow> abstract \<Rightarrow> uid \<Rightarrow> tid \<Rightarrow> jid list" where
  "new_history r x u t = next_obj r # filter (\<lambda>i. j_responsible (jud_at r i) \<noteq> u) (getJudgementHistoryByTrack x (Some t))"

definition judged :: "jud_kind \<Rightarrow> aid \<Rightarrow> tid \<Rightarrow> uid \<Rightarrow> string \<Rightarrow> nat \<Rightarrow> review \<Rightarrow> review" where
  "judged k a t u c l r =
     (let j = next_obj r; x = abs_at r a
      in r\<lparr>next_obj := Suc j, jud_at := (jud_at r)(j := the_judgement k t u c l r),
           abs_at := (abs_at r)(a := (place (jclass k) t j x)\<lparr>
             history := (history x)(t := Some (new_history r x u t)), modificationDate := now r\<rparr>)\<rparr>)"

definition rated :: "aid \<Rightarrow> review \<Rightarrow> review" where
  "rated a r = r\<lparr>abs_at := (abs_at r)(a := (abs_at r a)\<lparr>
     rating := fl_mean (values_of r (judgements_on (abs_at r a) (in_programme (program r) (tracks (abs_at r a)))))\<rparr>)\<rparr>"

definition decided :: "aid \<Rightarrow> review \<Rightarrow> review" where
  "decided a r = r\<lparr>abs_at := (abs_at r)(a := (abs_at r a)\<lparr>currentStatus := getStatusClass r (abs_at r a)\<rparr>)\<rparr>"

section \<open>The rating\<close>

lemma filter_only: "distinct xs \<Longrightarrow> t \<in> set xs \<Longrightarrow> filter (\<lambda>u. u = t) xs = [t]"
  by (induction xs) (auto simp: filter_empty_conv)

lemma sortTrackList_run:
  assumes "distinct l" "set l \<subseteq> set prog"
  shows "sortTrackList prog l = Inr (in_programme prog l)"
proof (cases "length l \<le> 1")
  case True
  then consider "l = []" | t where "l = [t]" by (cases l) auto
  then show ?thesis
  proof cases
    case 2
    have "distinct (rev (remdups (rev prog)))" "t \<in> set (rev (remdups (rev prog)))" using assms(2) 2 by simp_all
    then have "filter (\<lambda>u. u = t) (rev (remdups (rev prog))) = [t]" by (rule filter_only)
    then show ?thesis using 2 by (simp add: sortTrackList_def in_programme_def)
  qed (simp add: sortTrackList_def in_programme_def)
next
  case False
  have "\<not> (\<exists>t \<in> set l. t \<notin> set prog)" using assms(2) by auto
  then show ?thesis using False by (simp add: sortTrackList_def in_programme_def)
qed

lemma rating_loop_None:
  "rating_loop None js acc r = (Inr (foldl fl_add (fst acc) (values_of r js), snd acc + length (values_of r js)), r)"
  by (induction js arbitrary: acc)
    (auto simp: ret_run values_of_def List.map_filter_simps split: option.split)

lemma updateRating_run:
  assumes "owned (abs_at r a)" "distinct (tracks (abs_at r a))" "set (tracks (abs_at r a)) \<subseteq> set (program r)"
  shows "updateRating a None r = (Inr (), rated a r)"
proof -
  let ?x = "(abs_at r a)\<lparr>rating := None\<rparr>"
  let ?r = "r\<lparr>abs_at := (abs_at r)(a := ?x)\<rparr>"
  have js: "judgements_on ?x ts = judgements_on (abs_at r a) ts" for ts
    by (simp add: judgements_on_def getJudgementHistoryByTrack_def)
  have vs: "values_of ?r js = values_of r js" for js by (simp add: values_of_def)
  show ?thesis
    using assms(1)
    by (simp add: updateRating_def getTrackListSorted_def sortTrackList_run [OF assms(2,3)] rating_loop_None js vs
        rated_def fl_mean_def fl_sum_def)
qed

section \<open>Recording a judgement\<close>

lemma fold_remove_filter:
  "distinct l \<Longrightarrow> fold remove1 (filter P l) l = filter (\<lambda>x. \<not> P x) l"
proof -
  have "fold remove1 d l = filter (\<lambda>x. x \<notin> set d) l" if "distinct l" for d l :: "'a list"
    using that by (induction d arbitrary: l) (auto simp: distinct_remove1_removeAll removeAll_filter_not_eq intro: filter_cong)
  moreover assume "distinct l"
  ultimately show ?thesis by (auto intro: filter_cong)
qed

lemma new_judgement_run:
  assumes "all_valued (answers_at r l)"
  shows "new_judgement k (Some t) u l r = (Inr (next_obj r), r\<lparr>next_obj := Suc (next_obj r),
    jud_at := (jud_at r)(next_obj r := (the_judgement k t u [] l r)\<lparr>j_comment := []\<rparr>)\<rparr>)"
  using assms
  by (simp add: new_judgement_def the_judgement_def calculateJudgementAverage_def calculateAnswersTotalValue_def
      sum_values_ok all_valued_def Let_def fl_mean_def)


lemma removePreviousJud_run:
  assumes "jud_ok r (abs_at r a)"
  shows "\<exists>h. removePreviousJud a u (Some t) r = (Inr (), r\<lparr>abs_at := (abs_at r)(a := (abs_at r a)\<lparr>history := h\<rparr>)\<rparr>)
    \<and> (case h t of None \<Rightarrow> [] | Some l \<Rightarrow> l)
      = filter (\<lambda>i. j_responsible (jud_at r i) \<noteq> u) (getJudgementHistoryByTrack (abs_at r a) (Some t))
    \<and> (\<forall>k. k \<noteq> t \<longrightarrow> h k = history (abs_at r a) k)"
proof -
  let ?x = "abs_at r a"
  let ?l = "getJudgementHistoryByTrack ?x (Some t)"
  let ?d = "filter (\<lambda>i. j_responsible (jud_at r i) = u) ?l"
  have "distinct ?l" using assms history_list(1) [of r ?x] by (simp add: jud_ok_def)
  note f = fold_remove_filter [OF this, of "\<lambda>i. j_responsible (jud_at r i) = u"]
  show ?thesis
  proof (cases "?d = []")
    case True
    then have "filter (\<lambda>i. j_responsible (jud_at r i) \<noteq> u) ?l = ?l"
      by (auto simp: filter_empty_conv)
    with True show ?thesis
      by (intro exI [of _ "history ?x"])
        (simp add: removePreviousJud_def getJudgementHistoryByTrack_def track_key_def)
  next
    case False
    then show ?thesis
      by (intro exI [of _ "(history ?x)(t := Some (fold remove1 ?d ?l))"])
        (simp add: removePreviousJud_def Let_def f)
  qed
qed

lemma addHistorical_run:
  assumes "j_track (jud_at r j) = Some t" "history (abs_at r a) = h"
    "(case h t of None \<Rightarrow> [] | Some l \<Rightarrow> l) = l" "j \<notin> set l"
  shows "addTrackJudgementToHistorical a j r = (Inr (), r\<lparr>abs_at := (abs_at r)(a := (abs_at r a)\<lparr>
    history := h(t := Some (j # l)), modificationDate := now r\<rparr>)\<rparr>)"
proof -
  have "(case h t of Some l \<Rightarrow> Some (if j \<in> set l then l else j # l) | None \<Rightarrow> Some [j]) = Some (j # l)"
    using assms(3,4) by (auto split: option.splits)
  then show ?thesis
    by (simp add: addTrackJudgementToHistorical_def notifyModification_def track_key_def assms(1,2))
qed

text \<open>The three ways to record a judgement, up to the rating.\<close>

definition add_entry :: "jud_class \<Rightarrow> aid \<Rightarrow> jid \<Rightarrow> (review, unit) prog" where
  "add_entry c a j = (if c = J_Acceptance then addTrackAcceptance a j
     else if c = J_Rejection then addTrackRejection a j else addTrackReallocation a j)"

lemma add_entry_run:
  assumes "j_track (jud_at r j) = Some t"
    "(case history (abs_at r a) t of None \<Rightarrow> [] | Some l \<Rightarrow> l) = l" "j \<notin> set l"
  shows "add_entry c a j r = (Inr (), r\<lparr>abs_at := (abs_at r)(a := (place c t j (abs_at r a))\<lparr>
    history := (history (abs_at r a))(t := Some (j # l)), modificationDate := now r\<rparr>)\<rparr>)"
proof -
  have "add_entry c a j r = addTrackJudgementToHistorical a j
      (r\<lparr>abs_at := (abs_at r)(a := place c t j (abs_at r a))\<rparr>)"
    by (simp add: add_entry_def addTrackAcceptance_def addTrackRejection_def addTrackReallocation_def
        with_track_def removeTrackAcceptance_def removeTrackRejection_def removeTrackReallocation_def
        place_def assms(1))
  moreover have "history (place c t j (abs_at r a)) = history (abs_at r a)" by (simp add: place_def)
  ultimately show ?thesis
    using addHistorical_run [of "r\<lparr>abs_at := (abs_at r)(a := place c t j (abs_at r a))\<rparr>" j t a
        "history (abs_at r a)" l] assms by simp
qed

lemma judge_run:
  assumes "jud_ok r (abs_at r a)" "all_valued (answers_at r l)"
  shows "andthen (removePreviousJud a u (Some t)) (bnd (new_judgement k (Some t) u l) (\<lambda>j.
     andthen (setComment j c) (andthen (add_entry (jclass k) a j) m))) r = m (judged k a t u c l r)"
proof -
  let ?x = "abs_at r a" and ?j = "next_obj r"
  let ?l = "filter (\<lambda>i. j_responsible (jud_at r i) \<noteq> u) (getJudgementHistoryByTrack ?x (Some t))"
  obtain h where h: "removePreviousJud a u (Some t) r = (Inr (), r\<lparr>abs_at := (abs_at r)(a := ?x\<lparr>history := h\<rparr>)\<rparr>)"
    "(case h t of None \<Rightarrow> [] | Some l \<Rightarrow> l) = ?l" "\<forall>k. k \<noteq> t \<longrightarrow> h k = history ?x k"
    using removePreviousJud_run [OF assms(1)] by blast
  let ?r1 = "r\<lparr>abs_at := (abs_at r)(a := ?x\<lparr>history := h\<rparr>)\<rparr>"
  let ?J = "the_judgement k t u c l r"
  define r2 where "r2 = ?r1\<lparr>next_obj := Suc ?j, jud_at := (jud_at r)(?j := ?J)\<rparr>"
  have v: "all_valued (answers_at ?r1 l)" using assms(2) by simp
  have "andthen (removePreviousJud a u (Some t)) (bnd (new_judgement k (Some t) u l) (\<lambda>j.
     andthen (setComment j c) (andthen (add_entry (jclass k) a j) m))) r = andthen (add_entry (jclass k) a ?j) m r2"
    using new_judgement_run [OF v, of k t u] h(1)
    by (simp add: setComment_def upd_jud_def r2_def the_judgement_def)
  moreover have "?j \<notin> set ?l"
    using assms(1) history_list(2) [of r ?x "Some t"] by (auto simp: jud_ok_def)
  then have "add_entry (jclass k) a ?j r2 = (Inr (), r2\<lparr>abs_at := (abs_at r2)(a := (place (jclass k) t ?j (abs_at r2 a))\<lparr>
    history := (history (abs_at r2 a))(t := Some (?j # ?l)), modificationDate := now r2\<rparr>)\<rparr>)"
    using h(2) by (intro add_entry_run) (simp_all add: r2_def the_judgement_def)
  moreover have "(place (jclass k) t ?j (abs_at r2 a))\<lparr>history := (history (abs_at r2 a))(t := Some (?j # ?l)),
      modificationDate := now r2\<rparr> = (place (jclass k) t ?j ?x)\<lparr>history := (history ?x)(t := Some (?j # ?l)),
      modificationDate := now r\<rparr>"
  proof -
    have "(history (abs_at r2 a))(t := Some (?j # ?l)) = (history ?x)(t := Some (?j # ?l))"
      using h(3) by (auto simp: r2_def)
    then show ?thesis by (simp add: r2_def place_def)
  qed
  ultimately show ?thesis by (simp add: judged_def new_history_def r2_def Let_def)
qed

section \<open>The operations\<close>

text \<open>When a proposal on a track goes through.\<close>

definition can_judge :: "review \<Rightarrow> aid \<Rightarrow> tid \<Rightarrow> nat \<Rightarrow> bool" where
  "can_judge r a t l \<longleftrightarrow> owned (abs_at r a) \<and> t \<in> set (tracks (abs_at r a))
     \<and> set (tracks (abs_at r a)) \<subseteq> set (program r) \<and> all_valued (answers_at r l)"

lemma place_simps [simp]:
  "tracks (place c t j x) = tracks x" "owned (place c t j x) = owned x" "history (place c t j x) = history x"
  "currentStatus (place c t j x) = currentStatus x" "mergeFrom (place c t j x) = mergeFrom x"
  by (simp_all add: place_def)

lemma judged_simps [simp]:
  "tracks (abs_at (judged k a t u c l r) b) = tracks (abs_at r b)"
  "owned (abs_at (judged k a t u c l r) b) = owned (abs_at r b)"
  "currentStatus (abs_at (judged k a t u c l r) b) = currentStatus (abs_at r b)"
  "program (judged k a t u c l r) = program r"
  "answers_at (judged k a t u c l r) = answers_at r"
  by (auto simp: judged_def Let_def)

lemma rated_simps [simp]:
  "currentStatus (abs_at (rated a r) b) = currentStatus (abs_at r b)"
  "tracks (abs_at (rated a r) b) = tracks (abs_at r b)"
  "program (rated a r) = program r" "jud_at (rated a r) = jud_at r"
  by (auto simp: rated_def)

lemma set_by_judgements_run: "set_by_judgements a r = (Inr (), decided a r)"
  by (simp add: set_by_judgements_def setCurrentStatus_def decided_def)

lemma tracks_distinct: "review_inv r \<Longrightarrow> distinct (tracks (abs_at r a))"
  by (simp add: review_inv_def jud_inv_def jud_ok_def id_wf_distinct)

lemma updateRating_judged:
  assumes "review_inv r" "can_judge r a t l"
  shows "updateRating a None (judged k a t u c l r) = (Inr (), rated a (judged k a t u c l r))"
  using assms tracks_distinct [OF assms(1), of a] by (intro updateRating_run) (simp_all add: can_judge_def)

lemma jud_inv_ok: "review_inv r \<Longrightarrow> jud_ok r (abs_at r a)"
  by (simp add: review_inv_def jud_inv_def)

lemma proposeToAccept_judged:
  assumes "review_inv r" "can_judge r a t l"
  shows "proposeToAccept a u (Some t) ty c l r
      = st_proposeToAccept a (rated a (judged (Acceptance ty) a t u c l r))"
proof -
  have "proposeToAccept a u (Some t) ty c l r
      = andthen (updateRating a None) (st_proposeToAccept a) (judged (Acceptance ty) a t u c l r)"
    using judge_run [OF jud_inv_ok [OF assms(1)], of l a u t "Acceptance ty" c
        "andthen (updateRating a None) (st_proposeToAccept a)"] assms(2)
    by (simp only: proposeToAccept_def option.case with_abs_run isProposedForTrack_def can_judge_def
        not_True_eq_False if_False add_entry_def jclass.simps if_True simp_thms)
  then show ?thesis by (simp add: updateRating_judged [OF assms(1,2)])
qed

lemma proposeToAccept_run:
  assumes "review_inv r" "can_judge r a t l"
    "refuses (class_of (currentStatus (abs_at r a))) Op_proposeToAccept = None"
  shows "proposeToAccept a u (Some t) ty c l r = (Inr (), decided a (rated a (judged (Acceptance ty) a t u c l r)))"
  by (simp add: proposeToAccept_judged [OF assms(1,2)] st_proposeToAccept_def assms(3) set_by_judgements_run)

lemma proposeToReject_run:
  assumes "review_inv r" "can_judge r a t l"
    "refuses (class_of (currentStatus (abs_at r a))) Op_proposeToReject = None"
  shows "proposeToReject a u (Some t) c l r = (Inr (), decided a (rated a (judged Rejection a t u c l r)))"
proof -
  have "proposeToReject a u (Some t) c l r
      = andthen (updateRating a None) (st_proposeToReject a) (judged Rejection a t u c l r)"
    using judge_run [OF jud_inv_ok [OF assms(1)], of l a u t Rejection c
        "andthen (updateRating a None) (st_proposeToReject a)"] assms(2)
    by (simp only: proposeToReject_def option.case with_abs_run isProposedForTrack_def can_judge_def
        not_True_eq_False if_False add_entry_def jclass.simps if_True simp_thms jud_class.distinct)
  then show ?thesis
    by (simp add: updateRating_judged [OF assms(1,2)] st_proposeToReject_def assms(3) set_by_judgements_run)
qed

text \<open>A status that refuses the proposal does so after the judgement was recorded.\<close>

lemma proposeToAccept_refused:
  assumes "review_inv r" "can_judge r a t l"
    "refuses (class_of (currentStatus (abs_at r a))) Op_proposeToAccept = Some msg"
  shows "proposeToAccept a u (Some t) ty c l r = (Inl (MaKaCError msg), rated a (judged (Acceptance ty) a t u c l r))"
  by (simp add: proposeToAccept_judged [OF assms(1,2)] st_proposeToAccept_def assms(3))

section \<open>The decision\<close>

definition accepted_tracks :: "abstract \<Rightarrow> tid set" where
  "accepted_tracks x = {t \<in> set (tracks x). bt_get t (acceptances x) \<noteq> None}"

definition judged_tracks :: "abstract \<Rightarrow> tid set" where
  "judged_tracks x = {t \<in> set (tracks x). bt_get t (acceptances x) \<noteq> None
     \<or> bt_get t (rejections x) \<noteq> None \<or> bt_get t (reallocations x) \<noteq> None}"


definition reallocated_tracks :: "abstract \<Rightarrow> tid set" where
  "reallocated_tracks x = {t \<in> set (tracks x). bt_get t (reallocations x) \<noteq> None}"

definition conflict :: "review \<Rightarrow> abstract \<Rightarrow> bool" where
  "conflict r x \<longleftrightarrow> (\<exists>t \<in> set (tracks x). getTrackJudgement r x t = In_Conflict)"

lemma num_cards:
  assumes "distinct (tracks x)"
  shows "getNumProposedToAccept x = card (accepted_tracks x)"
    "getNumProposedToReallocate x = card (reallocated_tracks x)"
    "getNumJudgements x = card (judged_tracks x)"
    "length (tracks x) = card (set (tracks x))"
  using assms
  by (simp_all add: getNumProposedToAccept_def getNumProposedToReallocate_def getNumJudgements_def
      accepted_tracks_def reallocated_tracks_def judged_tracks_def distinct_card
      flip: set_filter distinct_card)

lemma subsets: "accepted_tracks x \<subseteq> judged_tracks x" "reallocated_tracks x \<subseteq> judged_tracks x"
  "judged_tracks x \<subseteq> set (tracks x)"
  by (auto simp: accepted_tracks_def reallocated_tracks_def judged_tracks_def)

lemma decision_facts:
  assumes "jud_ok r x"
  shows "getStatusClass r x =
    (if judged_tracks x = {} then Submitted
     else if conflict r x then InConflict
     else if judged_tracks x \<noteq> set (tracks x) then UnderReview
     else if reallocated_tracks x = set (tracks x) \<or> 1 < card (accepted_tracks x) then InConflict
     else if accepted_tracks x = {} then ProposedToReject
     else ProposedToAccept)"
proof -
  have d: "distinct (tracks x)" using assms by (simp add: jud_ok_def id_wf_distinct)
  have fin: "finite (set (tracks x))" "finite (judged_tracks x)" "finite (accepted_tracks x)"
    "finite (reallocated_tracks x)"
    by (simp_all add: judged_tracks_def accepted_tracks_def reallocated_tracks_def)
  have j0: "card (judged_tracks x) = 0 \<longleftrightarrow> judged_tracks x = {}" using fin by simp
  have jt: "card (set (tracks x)) = card (judged_tracks x) \<longleftrightarrow> judged_tracks x = set (tracks x)"
    using subsets(3) [of x] fin by (metis card_subset_eq)
  have rt: "card (reallocated_tracks x) = card (set (tracks x)) \<longleftrightarrow> reallocated_tracks x = set (tracks x)"
    using subsets(2,3) [of x] fin by (metis card_subset_eq order_trans)
  have a0: "card (accepted_tracks x) = 0 \<longleftrightarrow> accepted_tracks x = {}" using fin by simp
  show ?thesis
    unfolding getStatusClass_def Let_def num_cards [OF d] conflict_def [symmetric] rt jt
    using j0 a0 by (cases "judged_tracks x = {}") (auto simp: card_gt_0_iff)
qed

end
