(* ===== verification/Review_Props.thy ===== *)
theory Review_Props
  imports Proposals
begin

text \<open>The properties of the review of abstracts, each with a concrete instance.\<close>

section \<open>Sample states\<close>

text \<open>
  Abstract 0 is on tracks 0 and 1 and has one acceptance by user 3 on track 0; abstract 1 has no
  track; the judgement with identity 0 has no answers.
\<close>

definition sample_users :: "uid \<Rightarrow> part" where
  "sample_users u = blank_part\<lparr>p_firstName := ''Ann'', p_surName := ''Lee''\<rparr>"

definition sample_abs0 :: abstract where
  "sample_abs0 = (new_abstract_record 0)\<lparr>tracks := [''0'', ''1''], currentStatus := UnderReview,
     acceptances := [(''0'', 0)], history := (\<lambda>_. None)(''0'' := Some [0])\<rparr>"

definition sample_jud :: judgement where
  "sample_jud = \<lparr>j_kind = Acceptance None, j_track = Some ''0'', j_responsible = 3, j_date = 0,
     j_comment = [], j_answers = 0, j_value = None, j_total = 0\<rparr>"

definition sample_review :: review where
  "sample_review = (empty_review sample_users [''0'', ''1''] 0)\<lparr>
     abs_at := (\<lambda>_. (new_abstract_record 0)\<lparr>owned := False\<rparr>)(''0'' := sample_abs0, ''1'' := new_abstract_record 0),
     listed := [''0'', ''1''], abstractGen := 2, next_obj := 1,
     jud_at := (\<lambda>_. sample_jud), track_abs := (\<lambda>_. [])(''0'' := [''0''], ''1'' := [''0'']),
     answers_at := (\<lambda>_. [\<lparr>an_id = ''1'', an_rb = 3, an_question = ''1'', an_n = 7, an_value = Some 5\<rparr>])\<rparr>"

lemma less_01: "''0'' < ''1''" by code_simp

lemma sample_inv: "review_inv sample_review"
  by (simp add: sample_review_def empty_review_def review_inv_def jud_inv_def links_ok_def jud_ok_def
      exclusive_def entries_ok_def history_ok_def new_abstract_record_def bt_wf_def sample_abs0_def
      sample_jud_def track_key_def less_01 bt_get_Cons)

lemma sample_can_judge: "can_judge sample_review ''0'' ''0'' 0" "can_judge sample_review ''0'' ''1'' 0"
  by (simp_all add: can_judge_def sample_review_def empty_review_def sample_abs0_def new_abstract_record_def
      all_valued_def)

text \<open>A reachable state: an abstract of user 7 on one track, accepted there by reviewer 3.\<close>

fun run_ops :: "rev_op list \<Rightarrow> review \<Rightarrow> review" where
  "run_ops [] r = r"
| "run_ops (op # ops) r = run_ops ops (snd (run_op op r))"

lemma reach_ops: "\<forall>op \<in> set ops. \<forall>r. op_ok op r \<Longrightarrow> rev_reach r \<Longrightarrow> rev_reach (run_ops ops r)"
  by (induction ops arbitrary: r) (auto intro: rev_reach.step)

definition sample_ops :: "rev_op list" where
  "sample_ops = [Desk (New_Abstract (Some 7)), Review (Add_Track ''0'' ''0''),
     People (New_Primary ''0'' (no_data\<lparr>d_surName := Some ''Lee'', d_email := Some ''lee@x''\<rparr>)),
     Review (Propose_Accept ''0'' 3 (Some ''0'') None [] 0)]"

definition sample_reached :: review where
  "sample_reached = run_ops sample_ops (empty_review sample_users [''0''] 0)"

lemma sample_reach: "rev_reach sample_reached"
  unfolding sample_reached_def by (rule reach_ops) (auto simp: sample_ops_def op_ok_def intro: rev_reach.start)

section \<open>Judgements\<close>

text \<open>C3.  In every reachable state a track has at most one of an acceptance, a rejection and a
  reallocation of an abstract, each stands under its own track, and every track of an abstract
  lists the abstract.\<close>

theorem judgements_exclusive:
  assumes "rev_reach r"
  shows "exclusive (abs_at r a) \<and> entries_ok r J_Acceptance (acceptances (abs_at r a)) \<and>
    entries_ok r J_Rejection (rejections (abs_at r a)) \<and> entries_ok r J_Reallocation (reallocations (abs_at r a)) \<and>
    (\<forall>t \<in> set (tracks (abs_at r a)). a \<in> set (track_abs r t))"
  using reach_invs [OF assms] by (auto simp: review_inv_def jud_inv_def jud_ok_def links_ok_def)

theorem judgements_exclusive_witness: "exclusive (abs_at sample_reached ''0'')"
  using judgements_exclusive [OF sample_reach] by blast

text \<open>C20.  In every reachable state a search for authors finds exactly the abstracts of the manager
  that have a primary author whose name contains the query.\<close>

theorem search_exact:
  assumes "rev_reach r"
  shows "a \<in> set (ai_match query (primIdx r)) \<longleftrightarrow> owned (abs_at r a) \<and>
    (\<exists>i \<in> set (primaryAuthors (abs_at r a)).
       str_contains (py_strip (py_lower query)) (name_key (author_of (abs_at r a) i)))"
  using reach_invs [OF assms] prim_match by (simp add: people_inv_def)

theorem search_exact_witness:
  "''5'' \<in> set (ai_match ''lee'' (primIdx sample_reached)) \<longleftrightarrow> owned (abs_at sample_reached ''5'') \<and>
    (\<exists>i \<in> set (primaryAuthors (abs_at sample_reached ''5'')).
       str_contains (py_strip (py_lower ''lee'')) (name_key (author_of (abs_at sample_reached ''5'') i)))"
  by (rule search_exact [OF sample_reach])

text \<open>C21.  A proposal to accept on one of the abstract's tracks returns and does what its
  specification says: it records the judgement in place of the reviewer's earlier ones and of the
  track's other proposals, makes the rating the mean of all judgements, and sets the status the
  judgements give.\<close>

theorem proposal_refines_spec:
  assumes "review_inv r" "can_judge r a t l"
    "refuses (class_of (currentStatus (abs_at r a))) Op_proposeToAccept = None"
  shows "proposeToAccept a u (Some t) ty c l r = (Inr (), decided a (rated a (judged (Acceptance ty) a t u c l r)))"
  by (rule proposeToAccept_run [OF assms])

lemma sample_open: "refuses (class_of (currentStatus (abs_at sample_review ''0''))) Op_proposeToAccept = None"
  "refuses (class_of (currentStatus (abs_at sample_review ''0''))) Op_proposeToReject = None"
  by (simp_all add: sample_review_def empty_review_def sample_abs0_def new_abstract_record_def refuses_def)

theorem proposal_refines_spec_witness:
  "fst (proposeToAccept ''0'' 4 (Some ''1'') None ''good'' 0 sample_review) = Inr ()"
  using proposal_refines_spec [OF sample_inv sample_can_judge(2) sample_open(1)] by simp

text \<open>After a reviewer's proposal to reject on a track, that judgement is the newest of the
  track and his only one there, and the others' judgements are as they were.\<close>

theorem one_vote:
  assumes "review_inv r" "can_judge r a t l"
    "refuses (class_of (currentStatus (abs_at r a))) Op_proposeToReject = None"
  shows "let r' = snd (proposeToReject a u (Some t) c l r);
             votes = getJudgementHistoryByTrack (abs_at r' a) (Some t)
    in votes = next_obj r # filter (\<lambda>i. j_responsible (jud_at r i) \<noteq> u) (getJudgementHistoryByTrack (abs_at r a) (Some t))
       \<and> filter (\<lambda>i. j_responsible (jud_at r' i) = u) votes = [next_obj r]"
proof -
  let ?old = "getJudgementHistoryByTrack (abs_at r a) (Some t)"
  have old: "\<forall>i \<in> set ?old. i \<noteq> next_obj r"
    using history_list(2) [of r "abs_at r a" "Some t"] jud_inv_ok [OF assms(1), of a] by (auto simp: jud_ok_def)
  then show ?thesis
    by (auto simp: proposeToReject_run [OF assms] decided_def rated_def judged_def Let_def new_history_def
        getJudgementHistoryByTrack_def track_key_def the_judgement_def filter_empty_conv)
qed

theorem one_vote_witness:
  "let r' = snd (proposeToReject ''0'' 3 (Some ''0'') ''bad'' 0 sample_review);
       votes = getJudgementHistoryByTrack (abs_at r' ''0'') (Some ''0'')
    in votes = [1] \<and> filter (\<lambda>i. j_responsible (jud_at r' i) = 3) votes = [1]"
proof -
  have "next_obj sample_review = 1"
    and "filter (\<lambda>i. j_responsible (jud_at sample_review i) \<noteq> 3)
      (getJudgementHistoryByTrack (abs_at sample_review ''0'') (Some ''0'')) = []"
    by (simp_all add: sample_review_def empty_review_def sample_abs0_def sample_jud_def
      getJudgementHistoryByTrack_def track_key_def)
  with one_vote [OF sample_inv sample_can_judge(1) sample_open(2), of 3 "''bad''"]
  show ?thesis unfolding Let_def by metis
qed

text \<open>C30.  The status the judgements give, in every reachable state: submitted while no track has a
  judgement, in conflict as soon as the reviewers of one track disagree, under review while a track
  lacks a judgement, and then proposed for acceptance exactly when one track accepts it.\<close>

theorem decision_table:
  assumes "rev_reach r"
  shows "getStatusClass r (abs_at r a) =
    (let x = abs_at r a in
     if judged_tracks x = {} then Submitted
     else if conflict r x then InConflict
     else if judged_tracks x \<noteq> set (tracks x) then UnderReview
     else if reallocated_tracks x = set (tracks x) \<or> 1 < card (accepted_tracks x) then InConflict
     else if accepted_tracks x = {} then ProposedToReject
     else ProposedToAccept)"
  using decision_facts [of r "abs_at r a"] reach_invs [OF assms] by (simp add: review_inv_def jud_inv_def Let_def)

theorem decision_table_witness:
  "getStatusClass (empty_review sample_users [] 0) (abs_at (empty_review sample_users [] 0) ''0'') = Submitted"
  using decision_table [OF rev_reach.start [of sample_users "[]" 0], of "''0''"]
  by (simp add: empty_review_def new_abstract_record_def judged_tracks_def)

section \<open>Ratings\<close>

definition answers_good :: "int \<Rightarrow> review \<Rightarrow> bool" where
  "answers_good lo r \<longleftrightarrow> (\<forall>l. \<bar>lo\<bar> * int (length (answers_at r l)) < 2 ^ 53 \<and> int (length (answers_at r l)) < 2 ^ 53
     \<and> (\<forall>a \<in> set (answers_at r l). 1 < an_n a \<and> 0 \<le> an_rb a))"

definition at_least :: "int \<Rightarrow> rat option \<Rightarrow> bool" where
  "at_least lo v \<longleftrightarrow> (\<forall>q. v = Some q \<longrightarrow> of_int lo \<le> q)"

lemma recalculate_run:
  assumes "answers_good lo r" "lo \<le> hi" "\<bar>lo\<bar> < 2 ^ 53"
  shows "\<exists>r'. recalculateJudgementValues lo hi j r = (Inr (), r') \<and> answers_good lo r' \<and> abs_at r' = abs_at r
    \<and> at_least lo (j_value (jud_at r' j))"
proof -
  let ?l = "j_answers (jud_at r j)"
  let ?as = "map (\<lambda>a. a\<lparr>an_value := Some (rating_value lo hi (an_n a) (an_rb a))\<rparr>) (answers_at r ?l)"
  have good: "\<forall>a \<in> set (answers_at r ?l). 1 < an_n a \<and> 0 \<le> an_rb a"
    and len: "\<bar>lo\<bar> * int (length ?as) < 2 ^ 53" "int (length ?as) < 2 ^ 53"
    using assms(1) by (simp_all add: answers_good_def)
  have rate: "rate_answers lo hi (answers_at r ?l) = (Inr (), ?as)" using good by (intro rate_answers_ok) auto
  let ?r = "r\<lparr>answers_at := (answers_at r)(?l := ?as), jud_at := (jud_at r)(j := (jud_at r j)\<lparr>
    j_value := fl_mean (map (the \<circ> an_value) ?as), j_total := fl_sum (map (the \<circ> an_value) ?as)\<rparr>)\<rparr>"
  have sums: "sum_values ?as = Inr (fl_sum (map (the \<circ> an_value) ?as))" unfolding sum_values_ok by simp
  have "recalculateJudgementValues lo hi j r = (Inr (), ?r)"
    by (simp add: recalculateJudgementValues_def Let_def rate calculateJudgementAverage_def
        calculateAnswersTotalValue_def sums upd_jud_def fl_mean_def)
  moreover have "answers_good lo ?r" using assms(1) by (auto simp: answers_good_def)
  moreover have "at_least lo (fl_mean (map (the \<circ> an_value) ?as))"
    unfolding at_least_def using good len rating_value_above [OF assms(2) _ _ assms(3)]
    by (intro allI impI fl_mean_above [OF _ _ _ assms(3)]) auto
  ultimately show ?thesis by auto
qed

lemma rating_loop_above:
  assumes "answers_good lo r" "lo \<le> hi" "\<bar>lo\<bar> < 2 ^ 53" "\<bar>lo\<bar> * int (n + length js) < 2 ^ 53" "of_int (lo * int n) \<le> s"
  shows "\<exists>s' n' r'. rating_loop (Some (lo, hi)) js (s, n) r = (Inr (s', n'), r') \<and> abs_at r' = abs_at r
    \<and> n' \<le> n + length js \<and> of_int (lo * int n') \<le> s'"
  using assms
proof (induction js arbitrary: s n r)
  case (Cons j js)
  obtain r1 where r1: "recalculateJudgementValues lo hi j r = (Inr (), r1)" "answers_good lo r1"
    "abs_at r1 = abs_at r" "at_least lo (j_value (jud_at r1 j))"
    using recalculate_run [OF Cons.prems(1-3)] by blast
  show ?case
  proof (cases "j_value (jud_at r1 j)")
    case None
    have "\<bar>lo\<bar> * int (n + length js) \<le> \<bar>lo\<bar> * int (n + length (j # js))" by (intro mult_left_mono) simp_all
    then have "\<bar>lo\<bar> * int (n + length js) < 2 ^ 53" using Cons.prems(4) by linarith
    from Cons.IH [OF r1(2) Cons.prems(2,3) this Cons.prems(5)] None r1 show ?thesis by fastforce
  next
    case (Some q)
    then have "of_int lo \<le> q" using r1(4) by (simp add: at_least_def)
    moreover have "\<bar>lo * (int n + 1)\<bar> < 2 ^ 53" using Cons.prems(4) by (intro small_multiple) auto
    ultimately have "of_int (lo * int (Suc n)) \<le> fl_add s q"
      using fl_add_above [OF Cons.prems(5)] by (simp add: algebra_simps)
    moreover have "\<bar>lo\<bar> * int (Suc n + length js) < 2 ^ 53" using Cons.prems(4) by simp
    ultimately show ?thesis using Cons.IH [OF r1(2) Cons.prems(2,3), of "Suc n" "fl_add s q"] Some r1 by simp
  qed
qed (simp add: ret_run)

text \<open>C34.  When the scale is changed, recomputing an abstract's rating returns and the rating, computed
  in floats, is not below the lower end of the scale; this is for answers that are radio buttons of a
  row of at least two, and for scales and numbers of answers whose products fit in 53 bits.\<close>

theorem rescaled_rating_above_lower:
  assumes "review_inv r" "owned (abs_at r a)" "set (tracks (abs_at r a)) \<subseteq> set (program r)"
    "answers_good lo r" "lo \<le> hi" "\<bar>lo\<bar> < 2 ^ 53"
    "max 1 \<bar>lo\<bar> * int (length (judgements_on (abs_at r a) (in_programme (program r) (tracks (abs_at r a))))) < 2 ^ 53"
  shows "\<exists>r'. updateRating a (Some (lo, hi)) r = (Inr (), r') \<and> at_least lo (rating (abs_at r' a))"
proof -
  let ?x = "(abs_at r a)\<lparr>rating := None\<rparr>" and ?l = "in_programme (program r) (tracks (abs_at r a))"
  let ?r = "r\<lparr>abs_at := (abs_at r)(a := ?x)\<rparr>" and ?js = "judgements_on (abs_at r a) ?l"
  note l = sortTrackList_run [OF tracks_distinct [OF assms(1)] assms(3)]
  have js: "judgements_on ?x ?l = ?js" by (simp add: judgements_on_def getJudgementHistoryByTrack_def)
  have good: "answers_good lo ?r" using assms(4) by (simp add: answers_good_def)
  have "\<bar>lo\<bar> * int (length ?js) \<le> max 1 \<bar>lo\<bar> * int (length ?js)" "1 * int (length ?js) \<le> max 1 \<bar>lo\<bar> * int (length ?js)"
    by (intro mult_right_mono; simp)+
  then have few: "\<bar>lo\<bar> * int (0 + length ?js) < 2 ^ 53" "int (length ?js) < 2 ^ 53" using assms(7) by simp_all
  obtain s n r' where run: "rating_loop (Some (lo, hi)) ?js (0, 0) ?r = (Inr (s, n), r')" "abs_at r' = abs_at ?r"
    "n \<le> length ?js" "of_int (lo * int n) \<le> s"
    using rating_loop_above [OF good assms(5,6) few(1), of 0] by auto
  have "at_least lo (Some (fl_div s (fl_int (int n))))" if "n \<noteq> 0"
    unfolding at_least_def using fl_div_above [OF run(4)] that run(3) few(2) assms(6) by simp
  then show ?thesis
    using l assms(2) run(1,2) js
    by (cases "n = 0") (simp_all add: updateRating_def getTrackListSorted_def at_least_def)
qed

theorem rescaled_rating_above_lower_witness:
  "\<exists>r'. updateRating ''0'' (Some (1, 4)) sample_review = (Inr (), r') \<and> at_least 1 (rating (abs_at r' ''0''))"
  by (rule rescaled_rating_above_lower [OF sample_inv])
    (simp_all add: sample_review_def empty_review_def sample_abs0_def new_abstract_record_def answers_good_def
      judgements_on_def in_programme_def getJudgementHistoryByTrack_def track_key_def)

text \<open>The upper end of the scale is not kept: on the scale from 0 to 29 the last of eight buttons rates
  \<open>29.000000000000004\<close>.\<close>

lemma last_button_above_scale: "29 < rating_value 0 29 8 7"
proof -
  have d: "fl_div (fl_int 29) (fl_int 7) = 4664442471205157 / 2 ^ 50"
    using fl_eq [of 2 "29 / 7" 4664442471205157] fl_of_int [of 29] fl_of_int [of 7]
    by (simp add: fl_div_def fl_int_def pow2_def)
  have m: "fl_mul (4664442471205157 / 2 ^ 50) (fl_int 7) = 8162774324609025 / 2 ^ 48"
    using fl_eq [of 4 "32651097298436099 / 2 ^ 50" 8162774324609025] fl_of_int [of 7]
    by (simp add: fl_mul_def fl_int_def pow2_def)
  have f: "fl (8162774324609025 / 2 ^ 48) = 8162774324609025 / 2 ^ 48"
    using fl_eq [of 4 "8162774324609025 / 2 ^ 48" 8162774324609025] by (simp add: pow2_def)
  have "rating_value 0 29 8 7 = fl_add (fl_mul (fl_div (fl_int 29) (fl_int 7)) (fl_int 7)) 0"
    by (simp add: rating_value_def) (simp add: fl_int_def)
  then show ?thesis unfolding d m by (simp only: fl_add_def add_0_right f) simp
qed

end
