(* ===== verification/Review_Life.thy ===== *)
theory Review_Life
  imports Review_Props
begin

text \<open>Properties of the life of an abstract: decisions, withdrawal, duplicates, merging, removal.\<close>

section \<open>Refusals and disagreement\<close>

text \<open>An abstract that is accepted, rejected, withdrawn, duplicated or merged refuses a proposal
  for acceptance with an error and keeps its status.\<close>

theorem decided_refuse_proposals:
  assumes "review_inv r" "can_judge r a t l"
    "class_of (currentStatus (abs_at r a)) \<in> {C_Accepted, C_Rejected, C_Withdrawn, C_Duplicated, C_Merged}"
  shows "\<exists>msg r'. proposeToAccept a u (Some t) ty c l r = (Inl (MaKaCError msg), r')
    \<and> currentStatus (abs_at r' a) = currentStatus (abs_at r a)"
proof -
  obtain msg where "refuses (class_of (currentStatus (abs_at r a))) Op_proposeToAccept = Some msg"
    using assms(3) by (auto simp: refuses_def)
  from proposeToAccept_refused [OF assms(1,2) this] show ?thesis by auto
qed

definition sample_status :: "status \<Rightarrow> review" where
  "sample_status s = sample_review\<lparr>abs_at := (abs_at sample_review)(''0'' := sample_abs0\<lparr>currentStatus := s\<rparr>)\<rparr>"

lemma sample_status_inv: "review_inv (sample_status s)"
  using review_inv_upd [OF sample_inv, of "sample_abs0\<lparr>currentStatus := s\<rparr>" "''0''"]
    jud_ok_cong [of "sample_abs0\<lparr>currentStatus := s\<rparr>" "abs_at sample_review ''0''"] jud_inv_ok [OF sample_inv, of "''0''"]
  by (simp add: sample_status_def sample_review_def empty_review_def jparts_def)

lemma sample_status_judge: "can_judge (sample_status s) ''0'' ''0'' 0"
  using sample_can_judge(1) by (simp add: can_judge_def sample_status_def sample_review_def empty_review_def)

theorem decided_refuse_proposals_witness:
  "\<exists>msg r'. proposeToAccept ''0'' 4 (Some ''0'') None [] 0 (sample_status (Rejected 1 [])) = (Inl (MaKaCError msg), r')
    \<and> currentStatus (abs_at r' ''0'') = currentStatus (abs_at (sample_status (Rejected 1 [])) ''0'')"
  by (rule decided_refuse_proposals [OF sample_status_inv sample_status_judge])
    (simp add: sample_status_def)

text \<open>When another reviewer's judgement of a different class stands in the history of the track,
  a proposal to accept there puts the abstract in conflict.  The marks left by marking and unmarking
  a duplicate are such judgements.\<close>

theorem disagreement_conflicts:
  assumes "review_inv r" "can_judge r a t l"
    "refuses (class_of (currentStatus (abs_at r a))) Op_proposeToAccept = None"
    "i \<in> set (getJudgementHistoryByTrack (abs_at r a) (Some t))" "j_responsible (jud_at r i) \<noteq> u"
    "jclass (j_kind (jud_at r i)) \<noteq> J_Acceptance"
  shows "\<exists>r'. proposeToAccept a u (Some t) ty c l r = (Inr (), r') \<and> currentStatus (abs_at r' a) = InConflict"
proof -
  let ?s = "rated a (judged (Acceptance ty) a t u c l r)"
  let ?x = "abs_at ?s a"
  have ok: "jud_ok r (abs_at r a)" using assms(1) by (rule jud_inv_ok)
  have t: "t \<in> set (tracks (abs_at r a))" using assms(2) by (simp add: can_judge_def)
  have ilt: "i < next_obj r" using assms(4) history_list(2) [of r "abs_at r a" "Some t"] ok by (auto simp: jud_ok_def)
  have hist: "getJudgementHistoryByTrack ?x (Some t) = new_history r (abs_at r a) u t"
    by (simp add: rated_def judged_def Let_def getJudgementHistoryByTrack_def track_key_def)
  have "i \<in> set (new_history r (abs_at r a) u t)" using assms(4,5) by (simp add: new_history_def)
  moreover have "jclass (j_kind (jud_at ?s i)) \<noteq> J_Acceptance"
    using ilt assms(6) by (simp add: rated_def judged_def Let_def)
  moreover have "jclass (j_kind (jud_at ?s (next_obj r))) = J_Acceptance"
    by (simp add: rated_def judged_def Let_def the_judgement_def)
  ultimately have "getTrackJudgement ?s ?x t = In_Conflict"
    unfolding getTrackJudgement_def hist by (auto simp: new_history_def)
  then have "conflict ?s ?x" using t by (auto simp: conflict_def)
  moreover have "judged_tracks ?x \<noteq> {}"
    using t by (auto simp: judged_tracks_def rated_def judged_def Let_def place_def bt_get_put)
  moreover have "review_inv ?s"
  proof -
    have "proposeToAccept a u (Some t) ty c l r = (Inr (), decided a ?s)"
      by (rule proposeToAccept_run [OF assms(1-3)])
    then have "review_inv (decided a ?s)"
      using keepsD [OF keeps_proposals(1) assms(1), of a u "Some t" ty c l] by simp
    then show ?thesis
      using review_inv_grow [of "decided a ?s" ?s] by (auto simp: decided_def juds_grow_def jparts_def)
  qed
  ultimately have "getStatusClass ?s ?x = InConflict"
    using decision_facts [OF jud_inv_ok] by simp
  then show ?thesis by (simp add: proposeToAccept_run [OF assms(1-3)] decided_def)
qed

text \<open>Abstract 0 after it was marked and unmarked as a duplicate: the unmarking is still there.\<close>

definition unmarked_review :: review where
  "unmarked_review = sample_review\<lparr>
     jud_at := (\<lambda>_. sample_jud\<lparr>j_kind := UnMarkedAsDuplicated\<rparr>),
     abs_at := (abs_at sample_review)(''0'' := sample_abs0\<lparr>acceptances := [], currentStatus := Submitted\<rparr>)\<rparr>"

lemma unmarked_inv: "review_inv unmarked_review"
  by (simp add: unmarked_review_def sample_review_def empty_review_def review_inv_def jud_inv_def links_ok_def
      jud_ok_def exclusive_def entries_ok_def history_ok_def new_abstract_record_def bt_wf_def sample_abs0_def
      sample_jud_def track_key_def less_01)

theorem disagreement_conflicts_witness:
  "\<exists>r'. proposeToAccept ''0'' 4 (Some ''0'') None [] 0 unmarked_review = (Inr (), r')
    \<and> currentStatus (abs_at r' ''0'') = InConflict"
proof (rule disagreement_conflicts [OF unmarked_inv, where i = 0])
  show "can_judge unmarked_review ''0'' ''0'' 0"
    using sample_can_judge(1) by (simp add: can_judge_def unmarked_review_def sample_review_def empty_review_def)
qed (simp_all add: unmarked_review_def sample_abs0_def sample_jud_def refuses_def getJudgementHistoryByTrack_def
    track_key_def)

section \<open>Decisions and withdrawal\<close>

text \<open>Accepting an abstract whose status allows it, and whose id no contribution has, returns,
  creates the contribution with the track and type of the acceptance and lists the abstract in that
  track; accepting it a second time raises and changes nothing.\<close>

theorem accept_creates_contribution:
  assumes "refuses (class_of (currentStatus (abs_at r a))) Op_accept = None" "contribs r a = None"
  shows "\<exists>r'. accept a u (Some t) ty c r = (Inr (), r')
    \<and> currentStatus (abs_at r' a) = Accepted u (Some t) ty (py_strip c) (Some a) \<and> contribution (abs_at r' a) = Some a
    \<and> contribs r' a = Some \<lparr>c_abstract = Some a, c_track = Some t, c_type = ty, c_withdrawn = None\<rparr>
    \<and> a \<in> set (track_abs r' t)
    \<and> (\<exists>msg. accept a v tk ty' c' r' = (Inl (MaKaCError msg), r'))"
  using assms
  by (simp add: accept_def st_accept_def setCurrentStatus_def track_addAbstract_def track_hasAbstract_def
      new_contribution_def setContribution_def Let_def refuses_def [of C_Accepted])

theorem accept_creates_contribution_witness:
  "\<exists>r'. accept ''0'' 1 (Some ''1'') None [] sample_review = (Inr (), r')
    \<and> currentStatus (abs_at r' ''0'') = Accepted 1 (Some ''1'') None (py_strip []) (Some ''0'') \<and> contribution (abs_at r' ''0'') = Some ''0''
    \<and> contribs r' ''0'' = Some \<lparr>c_abstract = Some ''0'', c_track = Some ''1'', c_type = None, c_withdrawn = None\<rparr>
    \<and> ''0'' \<in> set (track_abs r' ''1'')
    \<and> (\<exists>msg. accept ''0'' 2 None None [] r' = (Inl (MaKaCError msg), r'))"
  by (rule accept_creates_contribution)
    (simp_all add: sample_review_def empty_review_def sample_abs0_def refuses_def)

text \<open>Withdrawing an undecided abstract without a contribution and recovering it gives it its
  status back, with the time of the recovery as its submission date.\<close>

theorem withdraw_recover:
  assumes "class_of (currentStatus (abs_at r a)) \<in> {C_Submitted, C_UnderReview, C_ProposedToAccept, C_ProposedToReject, C_InConflict}"
    "contribution (abs_at r a) = None"
  shows "\<exists>r' r''. withdraw a u c r = (Inr (), r')
    \<and> currentStatus (abs_at r' a) = Withdrawn u (Some (currentStatus (abs_at r a))) (py_strip c)
    \<and> recover a r' = (Inr (), r'') \<and> currentStatus (abs_at r'' a) = currentStatus (abs_at r a)
    \<and> submissionDate (abs_at r'' a) = now r"
  using assms
  by (cases "currentStatus (abs_at r a)")
    (simp_all add: withdraw_def st_withdraw_def recover_def st_recover_def setCurrentStatus_def
      getContribution_def notifyModification_def refuses_def)

theorem withdraw_recover_witness:
  "\<exists>r' r''. withdraw ''0'' 7 ''later'' sample_review = (Inr (), r')
    \<and> currentStatus (abs_at r' ''0'') = Withdrawn 7 (Some (currentStatus (abs_at sample_review ''0''))) (py_strip ''later'')
    \<and> recover ''0'' r' = (Inr (), r'') \<and> currentStatus (abs_at r'' ''0'') = currentStatus (abs_at sample_review ''0'')
    \<and> submissionDate (abs_at r'' ''0'') = now sample_review"
  by (rule withdraw_recover) (simp_all add: sample_review_def sample_abs0_def new_abstract_record_def)

text \<open>Withdrawing an accepted abstract withdraws its contribution; recovering the abstract makes it
  accepted again but leaves the contribution withdrawn.\<close>

theorem recovered_contribution_stays_withdrawn:
  assumes "currentStatus (abs_at r a) = Accepted v tk ty c0 (Some k)" "contribution (abs_at r a) = Some k"
    "contribs r k = Some co" "c_withdrawn co = None"
  shows "\<exists>r' r''. withdraw a u c r = (Inr (), r') \<and> is_withdrawn r' k
    \<and> recover a r' = (Inr (), r'') \<and> currentStatus (abs_at r'' a) = currentStatus (abs_at r a) \<and> is_withdrawn r'' k"
  using assms
  by (simp add: withdraw_def st_withdraw_def recover_def st_recover_def setCurrentStatus_def is_withdrawn_def
      contribution_withdraw_def getContribution_def notifyModification_def refuses_def)

definition accepted_review :: review where
  "accepted_review = (sample_status (Accepted 1 None None [] (Some ''0'')))\<lparr>
     abs_at := (abs_at sample_review)(''0'' := sample_abs0\<lparr>currentStatus := Accepted 1 None None [] (Some ''0''),
       contribution := Some ''0''\<rparr>),
     contribs := (\<lambda>_. None)(''0'' := Some \<lparr>c_abstract = Some ''0'', c_track = None, c_type = None, c_withdrawn = None\<rparr>)\<rparr>"

theorem recovered_contribution_stays_withdrawn_witness:
  "\<exists>r' r''. withdraw ''0'' 7 [] accepted_review = (Inr (), r') \<and> is_withdrawn r' ''0''
    \<and> recover ''0'' r' = (Inr (), r'') \<and> currentStatus (abs_at r'' ''0'') = currentStatus (abs_at accepted_review ''0'')
    \<and> is_withdrawn r'' ''0''"
  by (rule recovered_contribution_stays_withdrawn
      [where co = "\<lparr>c_abstract = Some ''0'', c_track = None, c_type = None, c_withdrawn = None\<rparr>"])
    (simp_all add: accepted_review_def)

end
