(* ===== verification/Review_More.thy ===== *)
theory Review_More
  imports Review_Life
begin

text \<open>
  Properties of reallocation, of merging, of the track classification and of the removal of an
  abstract, with what else of the state these leave alone.
\<close>

section \<open>Reallocation\<close>

lemma proposeForOtherTracks_run:
  assumes "review_inv r" "can_judge r a t l"
    "refuses (class_of (currentStatus (abs_at r a))) Op_proposeToReallocate = None"
  shows "proposeForOtherTracks a u (Some t) c [] l r
    = (Inr (), rated a (decided a (judged (Reallocation []) a t u c l r)))"
proof -
  let ?j = "judged (Reallocation []) a t u c l r"
  have "proposeForOtherTracks a u (Some t) c [] l r
      = andthen (for_each [] (raw_addTrack a)) (andthen (st_proposeToReallocate a) (updateRating a None)) ?j"
    using judge_run [OF jud_inv_ok [OF assms(1)], of l a u t "Reallocation []" c
        "andthen (for_each [] (raw_addTrack a)) (andthen (st_proposeToReallocate a) (updateRating a None))"] assms(2)
    by (simp only: proposeForOtherTracks_def option.case with_abs_run isProposedForTrack_def can_judge_def
        not_True_eq_False if_False add_entry_def jclass.simps if_True simp_thms jud_class.distinct)
  also have "\<dots> = updateRating a None (decided a ?j)"
    by (simp add: st_proposeToReallocate_def assms(3) set_by_judgements_run prog_simps)
  also have "\<dots> = (Inr (), rated a (decided a ?j))"
    using assms(2) tracks_distinct [OF assms(1), of a]
    by (intro updateRating_run) (auto simp: decided_def can_judge_def)
  finally show ?thesis .
qed

text \<open>A withdrawn abstract, alone of the decided ones, does not refuse a reallocation: the
  proposal returns and the abstract is no longer withdrawn.\<close>

theorem withdrawn_reallocated:
  assumes "review_inv r" "can_judge r a t l" "currentStatus (abs_at r a) = Withdrawn v p w"
  shows "\<exists>r'. proposeForOtherTracks a u (Some t) c [] l r = (Inr (), r')
    \<and> class_of (currentStatus (abs_at r' a)) \<noteq> C_Withdrawn"
proof -
  let ?j = "judged (Reallocation []) a t u c l r"
  have "proposeForOtherTracks a u (Some t) c [] l r = (Inr (), rated a (decided a ?j))"
    by (rule proposeForOtherTracks_run [OF assms(1,2)]) (simp add: assms(3) refuses_def)
  moreover have "class_of (currentStatus (abs_at (rated a (decided a ?j)) a)) \<noteq> C_Withdrawn"
    using getStatusClass_cases [of ?j "abs_at ?j a"] by (auto simp: decided_def)
  ultimately show ?thesis by blast
qed

theorem withdrawn_reallocated_witness:
  "\<exists>r'. proposeForOtherTracks ''0'' 4 (Some ''0'') [] [] 0 (sample_status (Withdrawn 7 None [])) = (Inr (), r')
    \<and> class_of (currentStatus (abs_at r' ''0'')) \<noteq> C_Withdrawn"
  by (rule withdrawn_reallocated [OF sample_status_inv sample_status_judge]) (simp add: sample_status_def)

section \<open>Merging\<close>

text \<open>C33.  Merging an undecided abstract into another undecided one without its authors, and unmerging it, restores the
  other abstract exactly and makes the merged one submitted: no acceptance, rejection or reallocation is left on its
  tracks, and its history of judgements is what it was.\<close>

theorem merge_unmerge:
  assumes "review_inv r" "refuses (class_of (currentStatus (abs_at r a))) Op_mergeInto = None" "a \<noteq> b"
    "class_of (currentStatus (abs_at r b)) \<in> {C_Submitted, C_UnderReview, C_ProposedToAccept, C_ProposedToReject, C_InConflict}"
    "a \<notin> set (mergeFrom (abs_at r b))"
  shows "\<exists>r' r''. mergeInto a u b False c r = (Inr (), r') \<and> currentStatus (abs_at r' a) = Merged u b (py_strip c)
    \<and> a \<in> set (mergeFrom (abs_at r' b))
    \<and> unMerge a r' = (Inr (), r'') \<and> currentStatus (abs_at r'' a) = Submitted \<and> abs_at r'' b = abs_at r b
    \<and> acceptances (abs_at r'' a) = [] \<and> rejections (abs_at r'' a) = [] \<and> reallocations (abs_at r'' a) = []
    \<and> history (abs_at r'' a) = history (abs_at r a)"
proof -
  let ?r = "r\<lparr>abs_at := (abs_at r)(a := (abs_at r a)\<lparr>currentStatus := Merged u b (py_strip c)\<rparr>,
      b := (abs_at r b)\<lparr>mergeFrom := mergeFrom (abs_at r b) @ [a]\<rparr>)\<rparr>"
  have m: "mergeInto a u b False c r = (Inr (), ?r)"
    using assms(2-4) by (simp add: mergeInto_def st_mergeInto_def setCurrentStatus_def addMergeFromAbstract_def
        when_do_def prog_simps)
  have "jud_ok ?r (abs_at ?r a) = jud_ok r (abs_at r a)"
    using jud_ok_cong [of "abs_at ?r a" "abs_at r a" r] assms(3)
    by (simp add: jud_ok_def jparts_def entries_ok_def history_ok_def exclusive_def)
  then have ok: "jud_ok ?r (abs_at ?r a)" using jud_inv_ok [OF assms(1)] by simp
  have rm: "remove1 a (mergeFrom (abs_at r b) @ [a]) = mergeFrom (abs_at r b)"
    using assms(5) by (simp add: remove1_append)
  have "\<exists>r''. unMerge a ?r = (Inr (), r'') \<and> currentStatus (abs_at r'' a) = Submitted \<and> abs_at r'' b = abs_at r b
      \<and> acceptances (abs_at r'' a) = [] \<and> rejections (abs_at r'' a) = [] \<and> reallocations (abs_at r'' a) = []
      \<and> history (abs_at r'' a) = history (abs_at r a)"
    using assms(3) rm
    by (simp add: unMerge_def clear_judgements_run [OF ok] removeMergeFromAbstract_def st_unMerge_def
        setCurrentStatus_def notifyModification_def refuses_def prog_simps)
  with m assms(3) show ?thesis by simp
qed

theorem merge_unmerge_witness:
  "\<exists>r' r''. mergeInto ''0'' 7 ''1'' False [] sample_review = (Inr (), r')
    \<and> currentStatus (abs_at r' ''0'') = Merged 7 ''1'' (py_strip []) \<and> ''0'' \<in> set (mergeFrom (abs_at r' ''1''))
    \<and> unMerge ''0'' r' = (Inr (), r'') \<and> currentStatus (abs_at r'' ''0'') = Submitted
    \<and> abs_at r'' ''1'' = abs_at sample_review ''1''
    \<and> acceptances (abs_at r'' ''0'') = [] \<and> rejections (abs_at r'' ''0'') = [] \<and> reallocations (abs_at r'' ''0'') = []
    \<and> history (abs_at r'' ''0'') = history (abs_at sample_review ''0'')"
  by (rule merge_unmerge [OF sample_inv])
    (simp_all add: sample_review_def empty_review_def sample_abs0_def new_abstract_record_def refuses_def)

section \<open>The track classification\<close>

text \<open>What a change of tracks does to the lists, over which the rest of the state is as it was.\<close>

definition tracks_are :: "aid \<Rightarrow> tid set \<Rightarrow> (tid \<Rightarrow> bool) \<Rightarrow> review \<Rightarrow> bool" where
  "tracks_are a ts on r \<longleftrightarrow> set (tracks (abs_at r a)) = ts \<and> (\<forall>t. a \<in> set (track_abs r t) \<longleftrightarrow> on t)"

lemma raw_addTrack_are:
  "tracks_are a ts f r \<Longrightarrow> \<exists>r'. raw_addTrack a t r = (Inr (), r') \<and> tracks_are a (insert t ts) (f(t := True)) r'"
  by (auto simp: raw_addTrack_def track_addAbstract_def track_hasAbstract_def notifyModification_def
      tracks_are_def prog_simps)

lemma raw_removeTrack_are:
  "tracks_are a ts f r \<Longrightarrow> t \<in> ts \<Longrightarrow>
    \<exists>r'. raw_removeTrack a t r = (Inr (), r') \<and> tracks_are a (ts - {t}) (f(t := False)) r'"
  by (auto simp: raw_removeTrack_def track_removeAbstract_def track_hasAbstract_def notifyModification_def
      tracks_are_def prog_simps)

lemma for_each_add:
  "tracks_are a ts f r \<Longrightarrow>
    \<exists>r'. for_each l (raw_addTrack a) r = (Inr (), r') \<and> tracks_are a (ts \<union> set l) (\<lambda>t. t \<in> set l \<or> f t) r'"
proof (induction l arbitrary: ts f r)
  case (Cons t l)
  from raw_addTrack_are [OF Cons.prems] obtain r1 where
    1: "raw_addTrack a t r = (Inr (), r1)" "tracks_are a (insert t ts) (f(t := True)) r1" by blast
  from Cons.IH [OF 1(2)] show ?case using 1(1) by (auto simp: prog_simps tracks_are_def)
qed (simp add: prog_simps)

lemma for_each_remove:
  "tracks_are a ts f r \<Longrightarrow> distinct l \<Longrightarrow> set l \<subseteq> ts \<Longrightarrow>
    \<exists>r'. for_each l (raw_removeTrack a) r = (Inr (), r') \<and> tracks_are a (ts - set l) (\<lambda>t. t \<notin> set l \<and> f t) r'"
proof (induction l arbitrary: ts f r)
  case (Cons t l)
  from raw_removeTrack_are [OF Cons.prems(1)] Cons.prems(3) obtain r1 where
    1: "raw_removeTrack a t r = (Inr (), r1)" "tracks_are a (ts - {t}) (f(t := False)) r1" by auto
  have "set l \<subseteq> ts - {t}" using Cons.prems by auto
  from Cons.IH [OF 1(2) _ this] Cons.prems(2) show ?case using 1(1) by (auto simp: prog_simps tracks_are_def)
qed (simp add: prog_simps)

lemma status_update_are:
  "tracks_are a ts f r \<Longrightarrow> \<exists>r'. status_update a r = (Inr (), r') \<and> tracks_are a ts f r'"
  by (auto simp: status_update_def base_update_def setCurrentStatus_def Let_def when_do_def tracks_are_def
      prog_simps split: status_class.split)

lemma split_tracks_eq:
  "split_tracks ts wanted rm ad = (rm @ filter (\<lambda>t. t \<notin> set wanted) ts, fold remove1 (filter (\<lambda>t. t \<in> set wanted) ts) ad)"
  by (induction ts arbitrary: rm ad) simp_all

lemma set_fold_remove1: "distinct l \<Longrightarrow> set (fold remove1 d l) = set l - set d"
  by (induction d arbitrary: l) auto

text \<open>Setting the tracks of an abstract returns; the abstract is then on exactly the given tracks,
  and of the tracks it was or is on exactly these list it.\<close>

theorem setTracks_exact:
  assumes "review_inv r" "distinct l"
  shows "\<exists>r'. setTracks a l r = (Inr (), r') \<and> set (tracks (abs_at r' a)) = set l
    \<and> (\<forall>t. a \<in> set (track_abs r' t) \<longleftrightarrow>
        t \<in> set l \<or> t \<notin> set (tracks (abs_at r a)) \<and> a \<in> set (track_abs r t))"
proof -
  let ?ts = "tracks (abs_at r a)"
  define rm ad where "rm = filter (\<lambda>t. t \<notin> set l) ?ts" and "ad = fold remove1 (filter (\<lambda>t. t \<in> set l) ?ts) l"
  have sp: "split_tracks ?ts l [] l = (rm, ad)" by (simp add: split_tracks_eq rm_def ad_def)
  have d: "distinct ?ts" using tracks_distinct [OF assms(1)] .
  have sets: "set rm = set ?ts - set l" "distinct rm" "set ad = set l - set ?ts"
    using d set_fold_remove1 [OF assms(2)] by (auto simp: rm_def ad_def)
  have 0: "tracks_are a (set ?ts) (\<lambda>t. a \<in> set (track_abs r t)) r" by (simp add: tracks_are_def)
  obtain r1 where 1: "for_each rm (raw_removeTrack a) r = (Inr (), r1)"
    "tracks_are a (set ?ts - set rm) (\<lambda>t. t \<notin> set rm \<and> a \<in> set (track_abs r t)) r1"
    using for_each_remove [OF 0 sets(2)] sets(1) by auto
  obtain r2 where 2: "for_each ad (raw_addTrack a) r1 = (Inr (), r2)"
    "tracks_are a (set ?ts - set rm \<union> set ad) (\<lambda>t. t \<in> set ad \<or> t \<notin> set rm \<and> a \<in> set (track_abs r t)) r2"
    using for_each_add [OF 1(2)] by blast
  obtain r3 where 3: "status_update a r2 = (Inr (), r3)"
    "tracks_are a (set ?ts - set rm \<union> set ad) (\<lambda>t. t \<in> set ad \<or> t \<notin> set rm \<and> a \<in> set (track_abs r t)) r3"
    using status_update_are [OF 2(2)] by blast
  have run: "setTracks a l r = (Inr (), r3)"
    by (simp add: setTracks_def sp 1(1) 2(1) 3(1) prog_simps)
  have links: "a \<in> set (track_abs r t)" if "t \<in> set ?ts" for t
    using assms(1) that by (simp add: review_inv_def links_ok_def)
  show ?thesis using run 3(2) sets links by (auto simp: tracks_are_def)
qed

theorem setTracks_exact_witness:
  "\<exists>r'. setTracks ''0'' [''2'', ''1''] sample_review = (Inr (), r')
    \<and> set (tracks (abs_at r' ''0'')) = set [''2'', ''1'']
    \<and> (\<forall>t. ''0'' \<in> set (track_abs r' t) \<longleftrightarrow>
        t \<in> set [''2'', ''1''] \<or> t \<notin> set (tracks (abs_at sample_review ''0'')) \<and> ''0'' \<in> set (track_abs sample_review t))"
  by (rule setTracks_exact [OF sample_inv]) simp

section \<open>Removal\<close>

definition refers :: "aid \<Rightarrow> abstract \<Rightarrow> bool" where
  "refers a y \<longleftrightarrow> (case currentStatus y of Duplicated _ o' _ \<Rightarrow> o' = a | Merged _ g _ \<Rightarrow> g = a | _ \<Rightarrow> False)"

definition released :: "aid \<Rightarrow> aid set \<Rightarrow> (aid \<Rightarrow> abstract) \<Rightarrow> aid \<Rightarrow> abstract" where
  "released a bs h = (\<lambda>b. if b \<in> bs \<and> refers a (h b) then (h b)\<lparr>currentStatus := Submitted\<rparr> else h b)"

lemma release_run: "release a b r = (Inr (), r\<lparr>abs_at := released a {b} (abs_at r)\<rparr>)"
  by (cases "currentStatus (abs_at r b)")
    (auto simp: release_def refers_def released_def setCurrentStatus_def when_do_def prog_simps fun_eq_iff
      intro!: review.equality)

lemma release_all: "for_each bs (release a) r = (Inr (), r\<lparr>abs_at := released a (set bs) (abs_at r)\<rparr>)"
proof (induction bs arbitrary: r)
  case Nil
  have "released a {} h = h" for h by (simp add: released_def)
  then show ?case by (simp add: prog_simps)
next
  case (Cons b bs)
  have "released a (set bs) (released a {b} h) = released a (set (b # bs)) h" for h
    by (auto simp: released_def refers_def fun_eq_iff)
  then have "released a (set bs) (abs_at (r\<lparr>abs_at := released a {b} (abs_at r)\<rparr>)) = released a (set (b # bs)) (abs_at r)"
    by simp
  moreover have "for_each (b # bs) (release a) r = for_each bs (release a) (r\<lparr>abs_at := released a {b} (abs_at r)\<rparr>)"
    by (simp only: for_each.simps andthen_run) (subst release_run, simp)
  ultimately show ?case by (simp only: Cons.IH) simp
qed

text \<open>While an abstract is being deleted the others and the manager's list stay as they are.\<close>

definition apart :: "aid \<Rightarrow> (aid \<Rightarrow> abstract) \<Rightarrow> aid list \<Rightarrow> review \<Rightarrow> bool" where
  "apart a h l r \<longleftrightarrow> owned (abs_at r a) \<and> distinct (tracks (abs_at r a))
     \<and> (\<forall>b. b \<noteq> a \<longrightarrow> abs_at r b = h b) \<and> listed r = l"

lemma fine_apart_with [fine_intros]: "(\<And>x. owned x \<Longrightarrow> fine (apart a h l) (f x)) \<Longrightarrow> fine (apart a h l) (with_abs a f)"
  by (auto simp: fine_def apart_def)

lemma fine_apart_owner [fine_intros]: "fine (apart a h l) m \<Longrightarrow> fine (apart a h l) (on_owner a m)"
  unfolding on_owner_def by (rule fine_apart_with) simp

lemma fine_apart_upd:
  assumes "\<And>x. owned (f x) = owned x" "\<And>x. tracks (f x) = tracks x"
  shows "fine (apart a h l) (upd_abs a f)"
  by (rule fineI) (simp add: apart_def assms)

lemma fine_apart_modify:
  assumes "\<And>r. abs_at (f r) = abs_at r" "\<And>r. listed (f r) = listed r"
  shows "fine (apart a h l) (modify f)"
  by (rule fine_modify) (simp add: apart_def assms)

lemma fine_apart_people [fine_intros]:
  "fine (apart a h l) (notifyModification a)" "fine (apart a h l) (indexAuthor a p q)"
  "fine (apart a h l) (unindexAuthor a p q)" "fine (apart a h l) (unregisterParticipation s)"
  "fine (apart a h l) (removeSpeaker a i)" "fine (apart a h l) (clearSpeakers a)"
  unfolding notifyModification_def indexAuthor_def unindexAuthor_def unregisterParticipation_def
    removeSpeaker_def clearSpeakers_def
  by (intro fine_intros fine_apart_upd fine_apart_modify; simp)+

lemma fine_apart_remove [fine_intros]:
  "fine (apart a h l) (removeAuthor a i)" "fine (apart a h l) (submitter_delete a s)"
  unfolding removeAuthor_def submitter_delete_def part_unindex_def
  by (intro fine_intros fine_apart_upd; simp)+

lemma fine_apart_clear [fine_intros]: "fine (apart a h l) (clearAuthors a)"
  unfolding clearAuthors_def clearPrimaryAuthors_def clearCoAuthors_def removePrimaryAuthor_def removeCoAuthor_def
  by (intro fine_intros fine_apart_upd; simp)

lemma fine_apart_tracks [fine_intros]: "fine (apart a h l) (clearTracks a)"
proof (rule fineI)
  fix r assume r: "apart a h l r"
  have step: "\<exists>r'. raw_removeTrack a t r = (Inr (), r') \<and> apart a h l r' \<and> set (tracks (abs_at r' a)) = set (tracks (abs_at r a)) - {t}"
    if "apart a h l r" "t \<in> set (tracks (abs_at r a))" for t r
    using that by (auto simp: raw_removeTrack_def track_removeAbstract_def notifyModification_def apart_def id_del_def
        prog_simps)
  have "\<exists>r'. for_each ts (raw_removeTrack a) r = (Inr (), r') \<and> apart a h l r'"
    if "apart a h l r" "distinct ts" "set ts \<subseteq> set (tracks (abs_at r a))" for ts r
    using that
  proof (induction ts arbitrary: r)
    case (Cons t ts)
    then obtain r1 where r1: "raw_removeTrack a t r = (Inr (), r1)" "apart a h l r1"
      "set (tracks (abs_at r1 a)) = set (tracks (abs_at r a)) - {t}" using step by (metis list.set_intros(1) subsetD)
    have "set ts \<subseteq> set (tracks (abs_at r1 a))" using Cons.prems r1(3) by auto
    from Cons.IH [OF r1(2) _ this] Cons.prems(2) show ?case by (auto simp: r1(1) prog_simps)
  qed (simp add: prog_simps)
  from this [OF r _ order_refl] r obtain r1 where
    1: "for_each (tracks (abs_at r a)) (raw_removeTrack a) r = (Inr (), r1)" "apart a h l r1"
    by (auto simp: apart_def)
  have "\<exists>r'. status_update a r1 = (Inr (), r') \<and> apart a h l r'"
    using 1(2) by (auto simp: status_update_def base_update_def setCurrentStatus_def Let_def when_do_def apart_def
      prog_simps split: status_class.split)
  then show "\<exists>x r'. clearTracks a r = (Inr x, r') \<and> apart a h l r'"
    by (auto simp: clearTracks_def 1(1) prog_simps)
qed

lemma abstract_delete_run:
  assumes "apart a h l r" "submitter (abs_at r a) = Some s"
  shows "\<exists>r'. abstract_delete a r = (Inr (), r') \<and> listed r' = l \<and> (\<forall>b. b \<noteq> a \<longrightarrow> abs_at r' b = h b)
    \<and> currentStatus (abs_at r' a) = NoStatus \<and> \<not> owned (abs_at r' a)"
proof -
  let ?m = "andthen (on_owner a (unregisterParticipation s)) (andthen (submitter_delete a s)
      (andthen (upd_abs a (\<lambda>x. x\<lparr>submitter := None\<rparr>)) (andthen (clearAuthors a)
      (andthen (clearSpeakers a) (clearTracks a)))))"
  have "fine (apart a h l) ?m" by (intro fine_intros fine_apart_upd) simp_all
  from fineD [OF this assms(1)] obtain r1 where 1: "?m r = (Inr (), r1)" "apart a h l r1" by auto
  have "abstract_delete a r = andthen ?m (andthen (upd_abs a (\<lambda>x. x\<lparr>owned := False\<rparr>)) (setCurrentStatus a NoStatus)) r"
    using assms by (simp add: abstract_delete_def apart_def when_do_def prog_simps split: sum.split prod.split)
  then show ?thesis using 1 by (simp add: apart_def setCurrentStatus_def andthen_run)
qed

text \<open>C29.  Removing a listed abstract that is neither accepted nor withdrawn with a contribution
  returns: the manager no longer lists it, it has no status, and of the others those that were
  duplicates of it or merged into it are submitted again while the rest are as they were.\<close>

theorem removal_releases:
  assumes "review_inv r" "a \<in> set (listed r)" "owned (abs_at r a)" "submitter (abs_at r a) = Some s"
    "class_of (currentStatus (abs_at r a)) \<noteq> C_Accepted"
    "class_of (currentStatus (abs_at r a)) = C_Withdrawn \<longrightarrow> contribution (abs_at r a) = None"
  shows "\<exists>r'. removeAbstract a r = (Inr (), r') \<and> listed r' = id_del a (listed r)
    \<and> currentStatus (abs_at r' a) = NoStatus
    \<and> (\<forall>b \<in> set (listed r'). abs_at r' b = (if refers a (abs_at r b)
        then (abs_at r b)\<lparr>currentStatus := Submitted\<rparr> else abs_at r b))"
proof -
  let ?h = "released a {b \<in> set (listed r). b \<noteq> a} (abs_at r)"
  let ?r1 = "r\<lparr>abs_at := ?h, partIdx := pi_unindex (Some (s_user s)) (s_oid s) (partIdx r), listed := id_del a (listed r)\<rparr>"
  have ha: "?h a = abs_at r a" by (simp add: released_def)
  have gc: "getContribution a r = (Inr (contribution (abs_at r a)), r)"
    using assms(5) by (cases "currentStatus (abs_at r a)") (simp_all add: getContribution_def prog_simps)
  have rm: "removeAbstract a r = abstract_delete a ?r1"
    using assms(2,4-6) gc
    by (cases "currentStatus (abs_at r a)")
      (simp_all add: removeAbstract_def when_do_def release_all unregisterParticipation_def prog_simps)
  have ap: "apart a ?h (id_del a (listed r)) ?r1"
    using assms(3) tracks_distinct [OF assms(1), of a]
    by (simp add: apart_def ha)
  have sub: "submitter (abs_at ?r1 a) = Some s"
    using assms(4) by (simp add: ha)
  from abstract_delete_run [OF ap sub] obtain r' where r': "removeAbstract a r = (Inr (), r')" "listed r' = id_del a (listed r)"
    "\<forall>b. b \<noteq> a \<longrightarrow> abs_at r' b = ?h b" "currentStatus (abs_at r' a) = NoStatus"
    unfolding rm by blast
  have "abs_at r' b = (if refers a (abs_at r b) then (abs_at r b)\<lparr>currentStatus := Submitted\<rparr> else abs_at r b)"
    if "b \<in> set (listed r')" for b
  proof -
    have "b \<in> {b \<in> set (listed r). b \<noteq> a}" using that unfolding r'(2) by simp
    then show ?thesis using r'(3) by (simp add: released_def)
  qed
  with r'(1,2,4) show ?thesis by blast
qed

definition merged_review :: review where
  "merged_review = (sample_status (Merged 7 ''1'' []))\<lparr>abs_at := (abs_at (sample_status (Merged 7 ''1'' [])))
     (''1'' := (new_abstract_record 0)\<lparr>submitter := Some \<lparr>s_oid = 0, s_user = 7, s_part = blank_part\<rparr>\<rparr>)\<rparr>"

lemma merged_inv: "review_inv merged_review"
  by (simp add: merged_review_def sample_status_def sample_review_def empty_review_def review_inv_def jud_inv_def
      links_ok_def jud_ok_def exclusive_def entries_ok_def history_ok_def new_abstract_record_def bt_wf_def
      sample_abs0_def sample_jud_def track_key_def less_01 bt_get_Cons)

theorem removal_releases_witness:
  "\<exists>r'. removeAbstract ''1'' merged_review = (Inr (), r') \<and> listed r' = id_del ''1'' (listed merged_review)
    \<and> currentStatus (abs_at r' ''1'') = NoStatus
    \<and> (\<forall>b \<in> set (listed r'). abs_at r' b = (if refers ''1'' (abs_at merged_review b)
        then (abs_at merged_review b)\<lparr>currentStatus := Submitted\<rparr> else abs_at merged_review b))"
  by (rule removal_releases [OF merged_inv])
    (simp_all add: merged_review_def sample_status_def sample_review_def empty_review_def new_abstract_record_def)

end
