(* ===== verification/Sync_Track.thy ===== *)
theory Sync_Track
  imports BTrees
begin

text \<open>
  The track of LiveSync (\<open>indico/ext/livesync/struct.py\<close>): entries by timestamp, newest first, each a
  container of elements, and named pointers at positions of the track.  The two implementations
  differ in how an element joins an entry, which is an argument here: \<open>list_append\<close> or \<open>set_append\<close>.

  A generator over the track is the list of what it yields; nothing changes the track while the
  code consumes one.
\<close>

section \<open>Timestamps\<close>

text \<open>The class \<open>timestamp\<close>: an integer whose order is reversed.\<close>

datatype timestamp = TS (ts_int: int)

instantiation timestamp :: linorder
begin

definition less_eq_timestamp :: "timestamp \<Rightarrow> timestamp \<Rightarrow> bool" where
  "less_eq_timestamp s t \<longleftrightarrow> ts_int t \<le> ts_int s"

definition less_timestamp :: "timestamp \<Rightarrow> timestamp \<Rightarrow> bool" where
  "less_timestamp s t \<longleftrightarrow> ts_int t < ts_int s"

instance
  by standard (auto simp: less_eq_timestamp_def less_timestamp_def timestamp.expand)

end

lemma timestamp_order [simp]: "TS a \<le> TS b \<longleftrightarrow> b \<le> a" "TS a < TS b \<longleftrightarrow> b < a"
  by (simp_all add: less_eq_timestamp_def less_timestamp_def)

definition timestamp_sub :: "timestamp \<Rightarrow> timestamp \<Rightarrow> timestamp" where
  "timestamp_sub s t = TS (ts_int s - ts_int t)"

definition timestamp_add :: "timestamp \<Rightarrow> timestamp \<Rightarrow> timestamp" where
  "timestamp_add s t = TS (ts_int s + ts_int t)"

section \<open>The track\<close>

text \<open>A pointer is absent (\<open>None\<close>), at no position yet (\<open>Some None\<close>) or at a position.\<close>

record 'e track =
  container :: "(timestamp \<times> 'e list) list"
  pointers :: "string \<Rightarrow> int option option"

definition new_track :: "'e track" where
  "new_track = \<lparr>container = [], pointers = (\<lambda>_. None)\<rparr>"

definition is_empty :: "'e track \<Rightarrow> bool" where
  "is_empty t \<longleftrightarrow> container t = []"

definition movePointer :: "string \<Rightarrow> int option \<Rightarrow> ('e track, unit) prog" where
  "movePointer pid pos = bnd get_st (\<lambda>t.
     if pointers t pid = None then raise_exn KeyError
     else if is_empty t then raise_exn EmptyTrackException
     else modify (\<lambda>t. t\<lparr>pointers := (pointers t)(pid := Some pos)\<rparr>))"

text \<open>\<open>if startPos:\<close> is false for \<open>None\<close> and for 0.\<close>

definition addPointer :: "string \<Rightarrow> int option \<Rightarrow> ('e track, unit) prog" where
  "addPointer pid startPos = andthen (modify (\<lambda>t. t\<lparr>pointers := (pointers t)(pid := Some None)\<rparr>))
     (if startPos = None \<or> startPos = Some 0 then ret () else movePointer pid startPos)"

definition removePointer :: "string \<Rightarrow> ('e track, unit) prog" where
  "removePointer pid = bnd get_st (\<lambda>t.
     if pointers t pid = None then raise_exn KeyError
     else modify (\<lambda>t. t\<lparr>pointers := (pointers t)(pid := None)\<rparr>))"

definition prepareEntry :: "int \<Rightarrow> ('e track, unit) prog" where
  "prepareEntry ts = modify (\<lambda>t. t\<lparr>container := bt_put (TS ts) [] (container t)\<rparr>)"

definition getPointerTimestamp :: "string \<Rightarrow> 'e track \<Rightarrow> exn + int option" where
  "getPointerTimestamp pid t = (case pointers t pid of None \<Rightarrow> Inl KeyError | Some p \<Rightarrow> Inr p)"

definition track_getitem :: "int \<Rightarrow> 'e track \<Rightarrow> exn + 'e list" where
  "track_getitem ts t = (case bt_get (TS ts) (container t) of None \<Rightarrow> Inl KeyError | Some es \<Rightarrow> Inr es)"

definition getCurrentPosition :: "string \<Rightarrow> 'e track \<Rightarrow> exn + 'e list" where
  "getCurrentPosition pid t = (case getPointerTimestamp pid t of
       Inl e \<Rightarrow> Inl e | Inr None \<Rightarrow> Inl TypeError | Inr (Some p) \<Rightarrow> track_getitem p t)"

text \<open>\<open>iteritems(min, max)\<close> of a tree: the entries within both bounds, in the order of the keys.\<close>

definition entries :: "timestamp option \<Rightarrow> timestamp option \<Rightarrow> 'e track \<Rightarrow> (timestamp \<times> 'e list) list" where
  "entries lo hi t = filter (\<lambda>(k, _).
     (case lo of None \<Rightarrow> True | Some l \<Rightarrow> l \<le> k) \<and> (case hi of None \<Rightarrow> True | Some h \<Rightarrow> k \<le> h)) (container t)"

definition track_values :: "int option \<Rightarrow> int option \<Rightarrow> 'e track \<Rightarrow> 'e list list" where
  "track_values lo hi t = map snd (entries (map_option TS lo) (map_option TS hi) t)"

text \<open>\<open>add\<close> with the \<open>_append\<close> of the implementation.\<close>

definition track_add :: "('e \<Rightarrow> 'e list \<Rightarrow> 'e list) \<Rightarrow> int \<Rightarrow> 'e \<Rightarrow> ('e track, unit) prog" where
  "track_add app ts v =
     andthen (bnd get_st (\<lambda>t. when_do (bt_get (TS ts) (container t) = None) (prepareEntry ts)))
     (bnd (gets (track_getitem ts)) (\<lambda>r. bnd (lift_res r) (\<lambda>es.
        modify (\<lambda>t. t\<lparr>container := bt_put (TS ts) (app v es) (container t)\<rparr>))))"

definition list_append :: "'e \<Rightarrow> 'e list \<Rightarrow> 'e list" where
  "list_append v es = es @ [v]"

definition set_append :: "('e \<Rightarrow> 'e \<Rightarrow> int) \<Rightarrow> 'e \<Rightarrow> 'e list \<Rightarrow> 'e list" where
  "set_append cmp v es = ts_add cmp v es"

text \<open>
  The loop of \<open>iterate\<close>: it stops at the entry of \<open>fromPos\<close>, unless that is 0, which counts as
  false.
\<close>

fun iterate_loop :: "timestamp option \<Rightarrow> (timestamp \<times> 'e list) list \<Rightarrow> (int \<times> 'e) list" where
  "iterate_loop from_pos [] = []"
| "iterate_loop from_pos ((k, es) # m) =
     (if from_pos \<noteq> None \<and> from_pos \<noteq> Some (TS 0) \<and> from_pos = Some k then []
      else map (\<lambda>e. (ts_int k, e)) es @ iterate_loop from_pos m)"

text \<open>\<open>minKey\<close> is the most recent timestamp, \<open>maxKey\<close> the oldest; both raise on an empty tree.\<close>

definition minKey :: "'e track \<Rightarrow> exn + timestamp" where
  "minKey t = (case container t of [] \<Rightarrow> Inl ValueError | (k, _) # _ \<Rightarrow> Inr k)"

definition maxKey :: "'e track \<Rightarrow> exn + timestamp" where
  "maxKey t = (if container t = [] then Inl ValueError else Inr (fst (last (container t))))"

definition iterate :: "int option \<Rightarrow> int option \<Rightarrow> 'e track \<Rightarrow> exn + (int \<times> 'e) list" where
  "iterate fromPos till t =
     (case (case till of
              None \<Rightarrow> Inr None
            | Some n \<Rightarrow> if n = - 1
                then (case maxKey t of Inl e \<Rightarrow> Inl e | Inr k \<Rightarrow> Inr (Some (timestamp_sub k (TS 1))))
                else Inr (Some (TS n))) of
        Inl e \<Rightarrow> Inl e
      | Inr lo \<Rightarrow> (let hi = map_option TS fromPos in Inr (iterate_loop hi (entries lo hi t))))"

text \<open>The two pointer iterators: reading the pointer raises at once when there is none.\<close>

definition pointerIterItems :: "string \<Rightarrow> int option \<Rightarrow> 'e track \<Rightarrow> exn + (int \<times> 'e) list" where
  "pointerIterItems pid till t = (case getPointerTimestamp pid t of Inl e \<Rightarrow> Inl e | Inr p \<Rightarrow> iterate p till t)"

definition pointerIterValues :: "string \<Rightarrow> int option \<Rightarrow> 'e track \<Rightarrow> exn + 'e list" where
  "pointerIterValues pid till t = (case pointerIterItems pid till t of Inl e \<Rightarrow> Inl e | Inr l \<Rightarrow> Inr (map snd l))"

text \<open>\<open>if maximum:\<close> again takes 0 for absent; \<open>max\<close> of two timestamps is the older one.\<close>

definition mostRecentTS :: "int option \<Rightarrow> 'e track \<Rightarrow> exn + int" where
  "mostRecentTS m t = (if container t = [] then Inl EmptyTrackException
     else (case minKey t of Inl e \<Rightarrow> Inl e
       | Inr k \<Rightarrow> Inr (ts_int (if m = None \<or> m = Some 0 then k else max k (TS (the m))))))"

definition oldestTS :: "'e track \<Rightarrow> exn + int" where
  "oldestTS t = (if container t = [] then Inl EmptyTrackException
     else (case maxKey t of Inl e \<Rightarrow> Inl e | Inr k \<Rightarrow> Inr (ts_int k)))"

definition track_len :: "'e track \<Rightarrow> nat" where
  "track_len t = length (container t)"

definition track_delitem :: "int \<Rightarrow> ('e track, unit) prog" where
  "track_delitem ts = bnd get_st (\<lambda>t.
     if bt_get (TS ts) (container t) = None then raise_exn KeyError
     else modify (\<lambda>t. t\<lparr>container := bt_del (TS ts) (container t)\<rparr>))"

definition track_contains :: "int \<Rightarrow> 'e track \<Rightarrow> bool" where
  "track_contains ts t \<longleftrightarrow> bt_get (TS ts) (container t) \<noteq> None"

section \<open>What the entries hold\<close>

definition track_wf :: "'e track \<Rightarrow> bool" where
  "track_wf t \<longleftrightarrow> bt_wf (container t)"

definition entry :: "int \<Rightarrow> 'e track \<Rightarrow> 'e list" where
  "entry n t = (case bt_get (TS n) (container t) of None \<Rightarrow> [] | Some es \<Rightarrow> es)"

lemma track_add_run:
  "\<exists>c. track_add app n v t = (Inr (), t\<lparr>container := c\<rparr>) \<and> (bt_wf (container t) \<longrightarrow> bt_wf c)
     \<and> (\<forall>m. entry m (t\<lparr>container := c\<rparr>) = (if m = n then app v (entry n t) else entry m t))"
proof (intro exI conjI)
  let ?c = "bt_put (TS n) (app v (entry n t)) (if bt_get (TS n) (container t) = None then bt_put (TS n) [] (container t) else container t)"
  show "track_add app n v t = (Inr (), t\<lparr>container := ?c\<rparr>)"
    by (auto simp: track_add_def prepareEntry_def track_getitem_def when_do_def lift_res_def prog_simps entry_def bt_get_put)
  show "bt_wf (container t) \<longrightarrow> bt_wf ?c" by (simp add: bt_wf_put)
  show "\<forall>m. entry m (t\<lparr>container := ?c\<rparr>) = (if m = n then app v (entry n t) else entry m t)"
    by (simp add: entry_def bt_get_put)
qed

text \<open>The law both implementations of an entry obey, and what follows for the track.\<close>

locale entry_kind =
  fixes app :: "'e \<Rightarrow> 'e list \<Rightarrow> 'e list" and ok :: "'e list \<Rightarrow> bool" and valid :: "'e \<Rightarrow> bool"
  assumes app_set: "ok es \<Longrightarrow> valid v \<Longrightarrow> set (app v es) = insert v (set es)"
    and app_ok: "ok es \<Longrightarrow> valid v \<Longrightarrow> ok (app v es)"
    and ok_Nil: "ok []"
begin

definition entries_ok :: "'e track \<Rightarrow> bool" where
  "entries_ok t \<longleftrightarrow> track_wf t \<and> (\<forall>n. ok (entry n t))"

lemma entries_ok_new: "entries_ok new_track"
  by (simp add: entries_ok_def new_track_def track_wf_def bt_wf_def entry_def ok_Nil)

lemma add_ok: "entries_ok t \<Longrightarrow> valid v \<Longrightarrow> entries_ok (snd (track_add app n v t))"
  using track_add_run [of app n v t] by (auto simp: entries_ok_def track_wf_def app_ok)

lemma add_entry:
  "entries_ok t \<Longrightarrow> valid v \<Longrightarrow>
    e \<in> set (entry m (snd (track_add app n v t))) \<longleftrightarrow> e \<in> set (entry m t) \<or> m = n \<and> e = v"
proof -
  assume ok: "entries_ok t" "valid v"
  obtain c where "track_add app n v t = (Inr (), t\<lparr>container := c\<rparr>)"
    "entry m (t\<lparr>container := c\<rparr>) = (if m = n then app v (entry n t) else entry m t)"
    using track_add_run [of app n v t] by blast
  then show ?thesis using ok by (auto simp: entries_ok_def app_set split: if_splits)
qed

end

interpretation list_track: entry_kind list_append "\<lambda>_. True" "\<lambda>_. True"
  by unfold_locales (auto simp: list_append_def)

definition set_ok :: "('e \<Rightarrow> 'e \<Rightarrow> int) \<Rightarrow> 'e set \<Rightarrow> 'e list \<Rightarrow> bool" where
  "set_ok cmp C es \<longleftrightarrow> ts_wf cmp es \<and> set es \<subseteq> C"

lemma set_kind:
  assumes "cmp_sep cmp C"
  shows "entry_kind (set_append cmp) (set_ok cmp C) (\<lambda>v. v \<in> C)"
proof -
  note c = cmp_sep.ts_set_add [OF assms] cmp_order.ts_wf_add [OF cmp_sep.axioms(1) [OF assms]]
  show ?thesis by (rule entry_kind.intro) (simp_all add: set_append_def set_ok_def c)
qed

interpretation ordered_set_track: entry_kind "set_append py_cmp" "set_ok py_cmp UNIV" "\<lambda>v. v \<in> UNIV"
  by (rule set_kind) (rule linord.cmp_sep_axioms)

section \<open>What an iteration yields\<close>

lemma iterate_loop_stop:
  assumes "bt_wf m" "\<forall>(k, es) \<in> set m. k \<le> TS p" "p \<noteq> 0"
  shows "iterate_loop (Some (TS p)) m = concat (map (\<lambda>(k, es). map (\<lambda>e. (ts_int k, e)) es) (filter (\<lambda>(k, _). p < ts_int k) m))"
  using assms
proof (induction m)
  case (Cons q m)
  obtain k es where q: "q = (k, es)" by fastforce
  have wf: "bt_wf m" and gt: "\<forall>(k', _) \<in> set m. k < k'" using Cons.prems(1) q by (auto simp: bt_wf_def)
  show ?case
  proof (cases "k = TS p")
    case True
    then have "m = []" using gt Cons.prems(2) by (cases m) auto
    then show ?thesis using True q assms(3) by simp
  next
    case False
    then have "p < ts_int k" using Cons.prems(2) q by (cases k) auto
    then show ?thesis using Cons wf q False by auto
  qed
qed simp

lemma iterate_loop_all:
  "from_pos = None \<or> from_pos = Some (TS 0) \<Longrightarrow>
    iterate_loop from_pos m = concat (map (\<lambda>(k, es). map (\<lambda>e. (ts_int k, e)) es) m)"
  by (induction m) auto

definition items :: "(int \<Rightarrow> bool) \<Rightarrow> 'e track \<Rightarrow> (int \<times> 'e) list" where
  "items P t = concat (map (\<lambda>(k, es). map (\<lambda>e. (ts_int k, e)) es) (filter (\<lambda>(k, _). P (ts_int k)) (container t)))"

text \<open>What lies after a pointer; no position is before everything.\<close>

definition after :: "int option \<Rightarrow> int \<Rightarrow> bool" where
  "after p k \<longleftrightarrow> (case p of None \<Rightarrow> True | Some q \<Rightarrow> q < k)"

lemma after_simps [simp]: "after None k" "after (Some q) k \<longleftrightarrow> q < k"
  by (simp_all add: after_def)

lemma bt_wf_entries: "bt_wf (container t) \<Longrightarrow> bt_wf (entries lo hi t)"
  by (simp add: entries_def bt_wf_def sorted_wrt_map sorted_wrt_filter)

text \<open>From a pointer other than 0 up to a position other than -1: the entries after the pointer.\<close>

lemma iterate_after:
  assumes "track_wf t" "p \<noteq> Some 0" "n \<noteq> - 1"
  shows "iterate p (Some n) t = Inr (items (\<lambda>k. after p k \<and> k \<le> n) t)"
proof (cases p)
  case None
  then show ?thesis using assms(3)
    by (auto simp: iterate_def items_def iterate_loop_all entries_def less_eq_timestamp_def
      intro!: arg_cong [where f = concat] arg_cong [where f = "map _"] filter_cong)
next
  case (Some q)
  have "iterate_loop (Some (TS q)) (entries (Some (TS n)) (Some (TS q)) t)
      = concat (map (\<lambda>(k, es). map (\<lambda>e. (ts_int k, e)) es) (filter (\<lambda>(k, _). q < ts_int k) (entries (Some (TS n)) (Some (TS q)) t)))"
    using assms Some by (intro iterate_loop_stop bt_wf_entries) (auto simp: track_wf_def entries_def)
  also have "filter (\<lambda>(k, _). q < ts_int k) (entries (Some (TS n)) (Some (TS q)) t)
      = filter (\<lambda>(k, _). q < ts_int k \<and> ts_int k \<le> n) (container t)"
    unfolding entries_def filter_filter by (rule filter_cong) (auto simp: less_eq_timestamp_def)
  finally show ?thesis using Some assms(3) by (simp add: iterate_def items_def)
qed

lemma set_items:
  assumes "track_wf t"
  shows "(k, e) \<in> set (items P t) \<longleftrightarrow> P k \<and> e \<in> set (entry k t)"
proof
  assume "(k, e) \<in> set (items P t)"
  then obtain k' es where m: "(k', es) \<in> set (container t)" "P (ts_int k')" "k = ts_int k'" "e \<in> set es"
    by (auto simp: items_def)
  moreover have "bt_get k' (container t) = Some es" using m(1) assms bt_mem_get [of "container t" k' es] by (simp add: track_wf_def)
  ultimately show "P k \<and> e \<in> set (entry k t)" by (cases k') (auto simp: entry_def)
next
  assume "P k \<and> e \<in> set (entry k t)"
  then obtain es where es: "bt_get (TS k) (container t) = Some es" "e \<in> set es" "P k"
    by (cases "bt_get (TS k) (container t)") (auto simp: entry_def)
  from bt_get_Some_mem [OF es(1)] es(2,3) show "(k, e) \<in> set (items P t)" by (force simp: items_def)
qed

lemma items_split:
  assumes "\<And>k. P k \<longleftrightarrow> Q k \<or> R k" "\<And>k. \<not> (Q k \<and> R k)"
  shows "mset (items P t) = mset (items Q t) + mset (items R t)"
proof -
  have "mset (concat (map f (filter (\<lambda>(k, _). P (ts_int k)) m)))
      = mset (concat (map f (filter (\<lambda>(k, _). Q (ts_int k)) m))) + mset (concat (map f (filter (\<lambda>(k, _). R (ts_int k)) m)))"
    for f :: "timestamp \<times> 'a list \<Rightarrow> (int \<times> 'a) list" and m
    using assms by (induction m) auto
  then show ?thesis unfolding items_def .
qed

lemma items_false: "(\<And>k. \<not> P k) \<Longrightarrow> items P t = []"
  by (simp add: items_def)

text \<open>The items come newest first.\<close>

lemma items_sorted:
  assumes "track_wf t"
  shows "sorted_wrt (\<ge>) (map fst (items P t))"
proof -
  have "sorted_wrt (\<ge>) (map fst (concat (map (\<lambda>(k, es). map (\<lambda>e. (ts_int k, e)) es) (filter (\<lambda>(k, _). P (ts_int k)) m))))"
    if "bt_wf m" for m :: "(timestamp \<times> 'a list) list"
    using that
  proof (induction m)
    case (Cons q m)
    obtain k es where q: "q = (k, es)" by fastforce
    have gt: "\<forall>(k', _) \<in> set m. ts_int k' < ts_int k" and wf: "bt_wf m"
      using Cons.prems q by (auto simp: bt_wf_def less_timestamp_def)
    have same: "sorted_wrt (\<ge>) (map fst (map (\<lambda>e. (ts_int k, e)) es))" by (induction es) auto
    show ?case using Cons.IH [OF wf] same gt q by (auto simp: sorted_wrt_append)
  qed simp
  with assms show ?thesis by (simp add: items_def track_wf_def)
qed

text \<open>With \<open>till = -1\<close> nothing is yielded: the bound lies before the oldest entry.\<close>

lemma iterate_minus_one:
  assumes "track_wf t" "container t \<noteq> []"
  shows "iterate p (Some (- 1)) t = Inr []"
proof -
  obtain m k es where m: "container t = m @ [(k, es)]" using assms(2) by (metis rev_exhaust surj_pair)
  have "\<forall>(k', _) \<in> set (container t). k' \<le> k"
    using assms(1) m by (auto simp: track_wf_def bt_wf_def sorted_wrt_append)
  then have "entries (Some (timestamp_sub k (TS 1))) hi t = []" for hi
    by (fastforce simp: entries_def filter_empty_conv timestamp_sub_def less_eq_timestamp_def)
  then show ?thesis using m by (simp add: iterate_def maxKey_def)
qed

end
