(* ===== verification/Sync_Agent.thy ===== *)
theory Sync_Agent
  imports Sync_Track "HOL-Library.Char_ord" "HOL-Library.List_Lexorder"
begin

text \<open>
  The agents of LiveSync and their manager (\<open>indico/ext/livesync/base.py\<close>, \<open>agent.py\<close> and
  \<open>tasks.py\<close>): actions are recorded on a track by time slots of the manager's granularity, every
  agent has a pointer on the track, and the periodic task lets each active agent process what lies
  between its pointer and the last complete slot.

  What an agent does with the data (\<open>_generateRecords\<close> and \<open>_run\<close> of the subclass, with the remote
  service) is the argument \<open>work\<close>, a program on the rest of the world \<open>'w\<close>.  Logging and the
  database connection are not modelled.  The mapping of agents is an association list: Python
  iterates over it in an arbitrary order.
\<close>

section \<open>Actions\<close>

text \<open>
  \<open>ActionWrapper\<close>; the set of action names is a sorted list, objects of the event model are of type
  \<open>'o\<close> with a comparison \<open>ocmp\<close>; the one of the code is \<open>obj_cmp\<close> of \<open>Sync_Objects\<close>.
\<close>

record 'o action =
  aw_timestamp :: int
  aw_obj :: 'o
  aw_actions :: "string list"
  aw_objId :: string

definition aw_cmp :: "('o \<Rightarrow> 'o \<Rightarrow> int) \<Rightarrow> 'o action \<Rightarrow> 'o action \<Rightarrow> int" where
  "aw_cmp ocmp a b =
     (let tscmp = - py_cmp (aw_timestamp a) (aw_timestamp b)
      in if tscmp = 0 then
           (let c = ocmp (aw_obj a) (aw_obj b)
            in if c = 0 then py_cmp (aw_actions a) (aw_actions b) else c)
         else tscmp)"

section \<open>Agents and the manager\<close>

record agent =
  ag_id :: string
  ag_name :: string
  ag_description :: string
  ag_updateTime :: int
  ag_active :: bool
  ag_recording :: bool
  ag_managed :: bool
  ag_lastTry :: "int option"

definition new_agent :: "string \<Rightarrow> string \<Rightarrow> string \<Rightarrow> int \<Rightarrow> agent" where
  "new_agent aid name description updateTime = \<lparr>ag_id = aid, ag_name = name, ag_description = description,
     ag_updateTime = updateTime, ag_active = False, ag_recording = False, ag_managed = False,
     ag_lastTry = None\<rparr>"

definition setActive :: "bool \<Rightarrow> agent \<Rightarrow> agent" where
  "setActive v a = a\<lparr>ag_active := v\<rparr>"

text \<open>\<open>setParameters\<close>: \<open>None\<close> and the empty string leave the field alone.\<close>

definition setParameters :: "string option \<Rightarrow> string option \<Rightarrow> agent \<Rightarrow> agent" where
  "setParameters description name a =
     (let a1 = (case description of None \<Rightarrow> a | Some d \<Rightarrow> if d = [] then a else a\<lparr>ag_description := d\<rparr>)
      in (case name of None \<Rightarrow> a1 | Some n \<Rightarrow> if n = [] then a1 else a1\<lparr>ag_name := n\<rparr>))"

record ('o, 'w) sync =
  granularity :: int
  agents :: "(string \<times> agent) list"
  sync_track :: "'o action track"
  remote :: 'w

definition new_sync :: "int \<Rightarrow> 'w \<Rightarrow> ('o, 'w) sync" where
  "new_sync g w = \<lparr>granularity = g, agents = [], sync_track = new_track, remote = w\<rparr>"

definition on_track :: "('o action track, 'a) prog \<Rightarrow> (('o, 'w) sync, 'a) prog" where
  "on_track = zoom sync_track (\<lambda>t s. s\<lparr>sync_track := t\<rparr>)"

definition on_remote :: "('w, 'a) prog \<Rightarrow> (('o, 'w) sync, 'a) prog" where
  "on_remote = zoom remote (\<lambda>w s. s\<lparr>remote := w\<rparr>)"

text \<open>A dictionary's \<open>d[k] = v\<close> keeps the place of a key it has.\<close>

fun dict_set :: "'k \<Rightarrow> 'v \<Rightarrow> ('k \<times> 'v) list \<Rightarrow> ('k \<times> 'v) list" where
  "dict_set k v [] = [(k, v)]"
| "dict_set k v ((k', v') # d) = (if k = k' then (k, v) # d else (k', v') # dict_set k v d)"

definition upd_agent :: "string \<Rightarrow> (agent \<Rightarrow> agent) \<Rightarrow> (('o, 'w) sync, unit) prog" where
  "upd_agent i f = modify (\<lambda>s. s\<lparr>agents := map (\<lambda>(k, a). (k, if k = i then f a else a)) (agents s)\<rparr>)"

definition sync_reset :: "bool \<Rightarrow> bool \<Rightarrow> (('o, 'w) sync, unit) prog" where
  "sync_reset agentsOnly trackOnly = andthen
     (when_do (\<not> trackOnly) (modify (\<lambda>s. s\<lparr>agents := []\<rparr>)))
     (when_do (\<not> agentsOnly) (modify (\<lambda>s. s\<lparr>sync_track := new_track\<rparr>)))"

definition registerNewAgent :: "agent \<Rightarrow> (('o, 'w) sync, unit) prog" where
  "registerNewAgent a = andthen
     (modify (\<lambda>s. s\<lparr>agents := dict_set (ag_id a) a (agents s)\<rparr>))
     (andthen (on_track (addPointer (ag_id a) None))
              (upd_agent (ag_id a) (\<lambda>a. a\<lparr>ag_managed := True\<rparr>)))"

definition removeAgent :: "agent \<Rightarrow> (('o, 'w) sync, unit) prog" where
  "removeAgent a = andthen (on_track (removePointer (ag_id a)))
     (bnd get_st (\<lambda>s. if map_of (agents s) (ag_id a) = None then raise_exn KeyError
        else modify (\<lambda>s. s\<lparr>agents := filter (\<lambda>(k, _). k \<noteq> ag_id a) (agents s)\<rparr>)))"

definition query :: "string option \<Rightarrow> int option \<Rightarrow> ('o, 'w) sync \<Rightarrow> exn + (int \<times> 'o action) list" where
  "query agentId till s = (case agentId of
       None \<Rightarrow> Inl QueryException | Some i \<Rightarrow> pointerIterItems i till (sync_track s))"

definition advance :: "string \<Rightarrow> int option \<Rightarrow> (('o, 'w) sync, unit) prog" where
  "advance i newLastTS = on_track (movePointer i newLastTS)"

definition sync_add :: "('o \<Rightarrow> 'o \<Rightarrow> int) \<Rightarrow> int \<Rightarrow> 'o action \<Rightarrow> (('o, 'w) sync, unit) prog" where
  "sync_add ocmp ts act = bnd (gets granularity) (\<lambda>g.
     if g = 0 then raise_exn ZeroDivisionError
     else on_track (track_add (set_append (aw_cmp ocmp)) (ts div g) act))"

text \<open>\<open>preActivate\<close> moves the pointer unless the track is empty.\<close>

definition preActivate :: "string \<Rightarrow> int option \<Rightarrow> (('o, 'w) sync, unit) prog" where
  "preActivate i ts = andthen
     (catch_exn (on_track (movePointer i ts)) (\<lambda>e. if e = EmptyTrackException then Some (ret ()) else None))
     (upd_agent i (\<lambda>a. a\<lparr>ag_recording := True\<rparr>))"

definition getLastTS :: "string \<Rightarrow> ('o, 'w) sync \<Rightarrow> exn + int option" where
  "getLastTS i s = getPointerTimestamp i (sync_track s)"

definition getLastDT :: "string \<Rightarrow> ('o, 'w) sync \<Rightarrow> exn + int option" where
  "getLastDT i s = (case getLastTS i s of
       Inl e \<Rightarrow> Inl e
     | Inr None \<Rightarrow> Inr None
     | Inr (Some ts) \<Rightarrow> Inr (if ts = 0 then None else Some (ts * granularity s)))"

section \<open>Running an agent\<close>

text \<open>
  \<open>PushSyncAgent.run\<close>.  The manager is used before the test that there is one; what the query raises
  while the records are made (the iteration is lazy) is caught like any exception of the agent.
\<close>

definition run_till :: "int option \<Rightarrow> int \<Rightarrow> int option" where
  "run_till currentTS g = map_option (\<lambda>t. t div g - 1) currentTS"

definition agent_run ::
  "((int \<times> 'o action) list \<Rightarrow> ('w, 'r option) prog) \<Rightarrow> string \<Rightarrow> int option
     \<Rightarrow> (('o, 'w) sync, int option) prog" where
  "agent_run work i currentTS = bnd get_st (\<lambda>s. case map_of (agents s) i of
       None \<Rightarrow> raise_exn KeyError
     | Some a \<Rightarrow>
        if \<not> ag_managed a
        then raise_exn (if currentTS = None then AgentExecutionException else AttributeError)
        else if currentTS \<noteq> None \<and> granularity s = 0 then raise_exn ZeroDivisionError
        else
          (let till = run_till currentTS (granularity s)
           in bnd (lift_res (getPointerTimestamp i (sync_track s))) (\<lambda>_.
              bnd (catch_exn
                    (bnd (lift_res (query (Some i) till s)) (\<lambda>data. on_remote (work data)))
                    (\<lambda>_. Some (ret None)))
              (\<lambda>result. if result = None then ret None
                 else andthen (upd_agent i (\<lambda>a. a\<lparr>ag_lastTry := till\<rparr>)) (ret till)))))"

definition acknowledge :: "string \<Rightarrow> (('o, 'w) sync, unit) prog" where
  "acknowledge i = bnd get_st (\<lambda>s. case map_of (agents s) i of
       None \<Rightarrow> raise_exn KeyError
     | Some a \<Rightarrow> if \<not> ag_managed a then raise_exn AttributeError else advance i (ag_lastTry a))"

text \<open>
  \<open>LiveSyncUpdateTask.run\<close>: an exception of an agent's \<open>run\<close> ends the task, one of \<open>acknowledge\<close> is
  not caught.  \<open>currentTS\<close> is the time of the agent's turn.
\<close>

fun task_loop ::
  "(string \<Rightarrow> (int \<times> 'o action) list \<Rightarrow> ('w, 'r option) prog) \<Rightarrow> int \<Rightarrow> string list
     \<Rightarrow> (('o, 'w) sync, unit) prog" where
  "task_loop work now [] = ret ()"
| "task_loop work now (i # is) = bnd get_st (\<lambda>s. case map_of (agents s) i of
       None \<Rightarrow> task_loop work now is
     | Some a \<Rightarrow>
        if \<not> ag_active a then task_loop work now is
        else bnd (catch_exn (bnd (agent_run (work i) i (Some now)) (\<lambda>r. ret (Some r))) (\<lambda>_. Some (ret None)))
          (\<lambda>result. case result of
             None \<Rightarrow> ret ()
           | Some r \<Rightarrow> andthen (when_do (r \<noteq> None \<and> r \<noteq> Some 0) (acknowledge i)) (task_loop work now is)))"

definition update_task ::
  "(string \<Rightarrow> (int \<times> 'o action) list \<Rightarrow> ('w, 'r option) prog) \<Rightarrow> int \<Rightarrow> (('o, 'w) sync, unit) prog" where
  "update_task work now = bnd (gets agents) (\<lambda>as. task_loop work now (map fst as))"

section \<open>Uploading in batches\<close>

text \<open>\<open>RecordUploader.iterateOver\<close> for an upload of a batch that may raise.\<close>

fun upload_loop :: "('r list \<Rightarrow> ('w, unit) prog) \<Rightarrow> int \<Rightarrow> 'r list \<Rightarrow> 'r list \<Rightarrow> ('w, 'r list) prog" where
  "upload_loop up n [] batch = ret batch"
| "upload_loop up n (r # rs) batch =
     (if int (length batch) > n - 1 then andthen (up batch) (upload_loop up n rs [r])
      else upload_loop up n rs (batch @ [r]))"

definition iterateOver :: "('r list \<Rightarrow> ('w, unit) prog) \<Rightarrow> int \<Rightarrow> 'r list \<Rightarrow> ('w, bool) prog" where
  "iterateOver up n rs = bnd (upload_loop up n rs []) (\<lambda>batch.
     andthen (when_do (batch \<noteq> []) (up batch)) (ret True))"

end
