(* ===== verification/Sync_Delivery.thy ===== *)
theory Sync_Delivery
  imports Sync_Agent
begin

text \<open>
  LiveSync as a whole: time passes, actions are recorded in the current slot, agents are registered,
  activated and removed, and the periodic task runs.  What an agent is given and processes without
  an error is written to a log of its own, which \<open>remote\<close> holds; a run that fails leaves the log as
  it was.  In every reachable state the log of an agent holds the actions of one interval of slots
  that ends at its pointer, each exactly as often as the set of its slot holds it.

  How actions are compared when they are put into the set of a slot plays no role here: each
  recording may use a comparison of its own (see \<open>Sync_Objects\<close> for the one of the code, which
  depends on where the objects lie in memory).
\<close>

section \<open>The system\<close>

type_synonym 'o deliveries = "string \<Rightarrow> (int \<times> 'o action) list"

record 'o live =
  l_now :: int
  l_sync :: "('o, 'o deliveries) sync"

definition deliver :: "string \<Rightarrow> (int \<times> 'o action) list \<Rightarrow> ('o deliveries, bool option) prog" where
  "deliver i data = andthen (modify (\<lambda>w. w(i := w i @ data))) (ret (Some True))"

text \<open>\<open>out\<close> tells what the processing does this time: succeed, return nothing, or raise.\<close>

datatype outcome = Succeeds | Gives_Nothing | Raises exn

definition process :: "(string \<Rightarrow> outcome) \<Rightarrow> string \<Rightarrow> (int \<times> 'o action) list \<Rightarrow> ('o deliveries, bool option) prog" where
  "process out i data = (case out i of
       Succeeds \<Rightarrow> deliver i data | Gives_Nothing \<Rightarrow> ret None | Raises e \<Rightarrow> raise_exn e)"

text \<open>Any action may be recorded, under any comparison of the objects.\<close>

inductive live_step :: "'o live \<Rightarrow> 'o live \<Rightarrow> bool" where
  tick: "l_now l \<le> t \<Longrightarrow> live_step l (l\<lparr>l_now := t\<rparr>)"
| act: "live_step l (l\<lparr>l_sync := snd (sync_add ocmp (l_now l) x (l_sync l))\<rparr>)"
| register: "map_of (agents (l_sync l)) (ag_id a) = None \<Longrightarrow>
    live_step l (l\<lparr>l_sync := snd (registerNewAgent a ((l_sync l)\<lparr>remote := (remote (l_sync l))(ag_id a := [])\<rparr>))\<rparr>)"
| preactivate: "live_step l (l\<lparr>l_sync := snd (preActivate i (Some (l_now l div granularity (l_sync l)))
      ((l_sync l)\<lparr>remote := (remote (l_sync l))(i := [])\<rparr>))\<rparr>)"
| activate: "live_step l (l\<lparr>l_sync := snd (upd_agent i (setActive b) (l_sync l))\<rparr>)"
| remove: "live_step l (l\<lparr>l_sync := snd (removeAgent a (l_sync l))\<rparr>)"
| task: "live_step l (l\<lparr>l_sync := snd (update_task (process out) (l_now l) (l_sync l))\<rparr>)"

definition live_start :: "int \<Rightarrow> int \<Rightarrow> 'o live" where
  "live_start g t = \<lparr>l_now = t, l_sync = new_sync g (\<lambda>_. [])\<rparr>"

inductive live_reach :: "int \<Rightarrow> 'o live \<Rightarrow> bool" for g where
  start: "0 < g \<Longrightarrow> 2 * g \<le> t \<Longrightarrow> live_reach g (live_start g t)"
| step: "live_reach g l \<Longrightarrow> live_step l l' \<Longrightarrow> live_reach g l'"

inductive_cases live_stepE: "live_step l l'"

section \<open>The invariant\<close>

definition log_ok :: "int \<Rightarrow> 'o action track \<Rightarrow> int option \<Rightarrow> (int \<times> 'o action) list \<Rightarrow> bool" where
  "log_ok slot t p w = (case p of
       None \<Rightarrow> w = []
     | Some q \<Rightarrow> 1 \<le> q \<and> (\<exists>b. mset w = mset (items (\<lambda>k. after b k \<and> k \<le> q) t) \<and> (q < slot \<or> w = [] \<and> q = slot)))"

definition live_inv :: "int \<Rightarrow> int \<Rightarrow> ('o, 'o deliveries) sync \<Rightarrow> bool" where
  "live_inv g t s \<longleftrightarrow> granularity s = g \<and> 0 < g \<and> 2 * g \<le> t \<and> track_wf (sync_track s)
     \<and> (\<forall>n. entry n (sync_track s) \<noteq> [] \<longrightarrow> n \<le> t div g)
     \<and> (\<forall>i p. pointers (sync_track s) i = Some p \<longrightarrow> log_ok (t div g) (sync_track s) p (remote s i))"

lemma two_slots: "0 < g \<Longrightarrow> 2 * g \<le> t \<Longrightarrow> 2 \<le> t div (g :: int)"
  using zdiv_mono1 [of "2 * g" t g] by simp

text \<open>Items outside the slot that an action joins are as before.\<close>

lemma filter_bt_put: "\<not> P k \<Longrightarrow> filter (\<lambda>(k, _). P k) (bt_put k v m) = filter (\<lambda>(k, _). P k) m"
  by (induction k v m rule: bt_put.induct) auto

lemma items_add:
  assumes "\<not> P n"
  shows "items P (snd (track_add app n v t)) = items P t"
proof -
  have f: "filter (\<lambda>(k, _). P (ts_int k)) (bt_put (TS n) x m) = filter (\<lambda>(k, _). P (ts_int k)) m" for x m
    using assms filter_bt_put [of "\<lambda>k. P (ts_int k)" "TS n"] by simp
  show ?thesis
    by (cases "bt_get (TS n) (container t)")
      (auto simp: items_def track_add_def prepareEntry_def track_getitem_def when_do_def lift_res_def prog_simps
        bt_get_put f)
qed

lemma pointers_add: "pointers (snd (track_add app n v t)) = pointers t"
  by (cases "bt_get (TS n) (container t)")
    (auto simp: track_add_def prepareEntry_def track_getitem_def when_do_def lift_res_def prog_simps bt_get_put)

lemma log_ok_add:
  assumes "log_ok slot t p w"
  shows "log_ok slot (snd (track_add app slot v t)) p w"
proof (cases p)
  case (Some q)
  from assms Some obtain b where b: "1 \<le> q" "mset w = mset (items (\<lambda>k. after b k \<and> k \<le> q) t)" "q < slot \<or> w = [] \<and> q = slot"
    by (auto simp: log_ok_def)
  show ?thesis
  proof (cases "q < slot")
    case True
    then have "items (\<lambda>k. after b k \<and> k \<le> q) (snd (track_add app slot v t)) = items (\<lambda>k. after b k \<and> k \<le> q) t"
      by (intro items_add) simp
    with True Some b show ?thesis by (auto simp: log_ok_def intro!: exI [of _ b])
  next
    case False
    have "items (\<lambda>k. after (Some q) k \<and> k \<le> q) t' = []" for t' :: "'a action track" by (rule items_false) simp
    with False Some b show ?thesis by (auto simp: log_ok_def intro!: exI [of _ "Some q"])
  qed
qed (use assms in \<open>simp add: log_ok_def\<close>)

lemma log_ok_later: "log_ok slot t p w \<Longrightarrow> slot \<le> slot' \<Longrightarrow> log_ok slot' t p w"
proof -
  assume a: "log_ok slot t p w" "slot \<le> slot'"
  show ?thesis using a by (cases p) (auto simp: log_ok_def)
qed

lemma log_ok_container: "container t = container t' \<Longrightarrow> log_ok slot t p w = log_ok slot t' p w"
  by (auto simp: log_ok_def items_def split: option.split)

section \<open>The steps keep it\<close>

lemma inv_tick: "live_inv g t s \<Longrightarrow> t \<le> t' \<Longrightarrow> live_inv g t' s"
proof -
  assume i: "live_inv g t s" "t \<le> t'"
  then have "t div g \<le> t' div g" by (auto simp: live_inv_def intro: zdiv_mono1)
  with i show ?thesis unfolding live_inv_def by (meson log_ok_later order_trans)
qed

lemma inv_add:
  assumes "live_inv g t s"
  shows "live_inv g t (snd (sync_add ocmp t x s))"
proof -
  let ?app = "set_append (aw_cmp ocmp)" and ?T = "sync_track s"
  obtain c where c: "track_add ?app (t div g) x ?T = (Inr (), ?T\<lparr>container := c\<rparr>)" "bt_wf (container ?T) \<longrightarrow> bt_wf c"
    "\<forall>m. entry m (?T\<lparr>container := c\<rparr>) = (if m = t div g then ?app x (entry (t div g) ?T) else entry m ?T)"
    using track_add_run [of ?app "t div g" x ?T] by blast
  have e: "snd (sync_add ocmp t x s) = s\<lparr>sync_track := ?T\<lparr>container := c\<rparr>\<rparr>"
    using assms c(1) by (simp add: sync_add_def live_inv_def on_track_def zoom_def prog_simps)
  have "log_ok (t div g) (?T\<lparr>container := c\<rparr>) p w" if "log_ok (t div g) ?T p w" for p w
    using log_ok_add [OF that, of ?app x] c(1) by simp
  then show ?thesis using assms c(2,3) unfolding e live_inv_def by (auto simp: track_wf_def)
qed

lemma inv_agents: "live_inv g t (s\<lparr>agents := as\<rparr>) \<longleftrightarrow> live_inv g t s"
  by (simp add: live_inv_def)

lemma live_inv_same:
  "live_inv g t s \<Longrightarrow> granularity s' = granularity s \<Longrightarrow> sync_track s' = sync_track s \<Longrightarrow> remote s' = remote s
    \<Longrightarrow> live_inv g t s'"
  by (simp add: live_inv_def)

lemma log_ok_fresh: "1 \<le> q \<Longrightarrow> q \<le> slot \<Longrightarrow> log_ok slot t (Some q) []"
  using items_false [of "\<lambda>k. after (Some q) k \<and> k \<le> q" t]
  by (auto simp: log_ok_def intro!: exI [of _ "Some q"])

lemma log_ok_reset: "log_ok slot t p w \<Longrightarrow> log_ok slot t p []"
  by (cases p) (auto intro!: log_ok_fresh simp: log_ok_def [of _ _ _ w], simp add: log_ok_def)

text \<open>Changing the pointer and the log of one agent.\<close>

lemma inv_pointer:
  assumes "live_inv g t s" "\<And>p. P = Some p \<Longrightarrow> log_ok (t div g) (sync_track s) p w"
  shows "live_inv g t (s\<lparr>sync_track := (sync_track s)\<lparr>pointers := (pointers (sync_track s))(i := P)\<rparr>,
    remote := (remote s)(i := w)\<rparr>)"
proof -
  let ?T = "(sync_track s)\<lparr>pointers := (pointers (sync_track s))(i := P)\<rparr>"
  have l: "log_ok (t div g) ?T p v = log_ok (t div g) (sync_track s) p v" for p v by (rule log_ok_container) simp
  have e: "entry n ?T = entry n (sync_track s)" for n by (simp add: entry_def)
  show ?thesis using assms by (auto simp: live_inv_def l e track_wf_def)
qed

lemma inv_log:
  assumes "live_inv g t s" "\<And>p. pointers (sync_track s) i = Some p \<Longrightarrow> log_ok (t div g) (sync_track s) p w"
  shows "live_inv g t (s\<lparr>remote := (remote s)(i := w)\<rparr>)"
  using assms by (auto simp: live_inv_def)

lemma inv_register:
  assumes "live_inv g t s"
  shows "live_inv g t (snd (registerNewAgent a (s\<lparr>remote := (remote s)(ag_id a := [])\<rparr>)))"
proof -
  have "snd (registerNewAgent a (s\<lparr>remote := (remote s)(ag_id a := [])\<rparr>)) =
    (s\<lparr>sync_track := (sync_track s)\<lparr>pointers := (pointers (sync_track s))(ag_id a := Some None)\<rparr>,
      remote := (remote s)(ag_id a := [])\<rparr>)\<lparr>agents := map (\<lambda>(k, b). (k, if k = ag_id a then b\<lparr>ag_managed := True\<rparr> else b))
        (dict_set (ag_id a) a (agents s))\<rparr>"
    by (simp add: registerNewAgent_def on_track_def zoom_def addPointer_def upd_agent_def prog_simps)
  moreover have "live_inv g t (s\<lparr>sync_track := (sync_track s)\<lparr>pointers := (pointers (sync_track s))(ag_id a := Some None)\<rparr>,
      remote := (remote s)(ag_id a := [])\<rparr>)"
    by (rule inv_pointer [OF assms]) (auto simp: log_ok_def)
  ultimately show ?thesis by (simp only: inv_agents)
qed

lemma inv_preactivate:
  assumes "live_inv g t s"
  shows "live_inv g t (snd (preActivate i (Some (t div granularity s)) (s\<lparr>remote := (remote s)(i := [])\<rparr>)))"
proof -
  have g: "granularity s = g" using assms by (simp add: live_inv_def)
  have "2 \<le> t div g" using assms two_slots by (simp add: live_inv_def)
  then have new: "log_ok (t div g) (sync_track s) (Some (t div g)) []" by (intro log_ok_fresh) simp_all
  have same: "live_inv g t (s\<lparr>remote := (remote s)(i := [])\<rparr>)"
    using assms by (intro inv_log) (auto simp: live_inv_def intro!: log_ok_reset [where w = "remote s i"])
  have moved: "live_inv g t (s\<lparr>sync_track := (sync_track s)\<lparr>pointers := (pointers (sync_track s))(i := Some (Some (t div g)))\<rparr>,
      remote := (remote s)(i := [])\<rparr>)"
    by (rule inv_pointer [OF assms]) (auto intro: new)
  note simps = preActivate_def on_track_def zoom_def movePointer_def catch_exn_def upd_agent_def prog_simps g
  show ?thesis
  proof (cases "pointers (sync_track s) i = None \<or> is_empty (sync_track s)")
    case True
    then show ?thesis by (intro live_inv_same [OF same]) (auto simp: simps)
  next
    case False
    then show ?thesis by (intro live_inv_same [OF moved]) (auto simp: simps)
  qed
qed

lemma inv_remove: "live_inv g t s \<Longrightarrow> live_inv g t (snd (removeAgent a s))"
  using inv_pointer [of g t s None "remote s (ag_id a)" "ag_id a"]
  by (auto simp: removeAgent_def on_track_def zoom_def removePointer_def prog_simps inv_agents)

text \<open>One agent's turn in the task: the data is what lies between its pointer and the last complete slot.\<close>

lemma query_after:
  assumes "live_inv g t s" "pointers (sync_track s) i = Some p"
  shows "query (Some i) (Some (t div g - 1)) s
    = Inr (items (\<lambda>k. after p k \<and> k \<le> t div g - 1) (sync_track s))"
proof -
  have "log_ok (t div g) (sync_track s) p (remote s i)" using assms by (simp add: live_inv_def)
  then have "p \<noteq> Some 0" by (auto simp: log_ok_def)
  moreover have "2 \<le> t div g" "track_wf (sync_track s)" using assms(1) two_slots by (auto simp: live_inv_def)
  ultimately show ?thesis
    using iterate_after [of "sync_track s" p "t div g - 1"] assms(2)
    by (simp add: query_def pointerIterItems_def getPointerTimestamp_def)
qed

lemma map_of_upd: "map_of (map (\<lambda>(k, a). (k, if k = i then f a else a)) as) i = map_option f (map_of as i)"
  by (induction as) auto

lemma log_ok_advance:
  assumes "log_ok slot T p w" "2 \<le> slot"
  shows "log_ok slot T (Some (slot - 1)) (w @ items (\<lambda>k. after p k \<and> k \<le> slot - 1) T)"
proof (cases p)
  case None
  with assms show ?thesis by (auto simp: log_ok_def intro!: exI [of _ None])
next
  case (Some q)
  from assms(1) Some obtain b where b: "1 \<le> q" "mset w = mset (items (\<lambda>k. after b k \<and> k \<le> q) T)" "q < slot \<or> w = [] \<and> q = slot"
    by (auto simp: log_ok_def)
  show ?thesis
  proof (cases "\<forall>k. q < k \<longrightarrow> after b k")
    case True
    have "mset (w @ items (\<lambda>k. after p k \<and> k \<le> slot - 1) T) = mset (items (\<lambda>k. after b k \<and> k \<le> slot - 1) T)"
      if "q < slot"
    proof -
      have "mset (items (\<lambda>k. after b k \<and> k \<le> slot - 1) T)
          = mset (items (\<lambda>k. after b k \<and> k \<le> q) T) + mset (items (\<lambda>k. q < k \<and> k \<le> slot - 1) T)"
        using True that by (intro items_split) auto
      with b(2) Some show ?thesis by simp
    qed
    then show ?thesis
    proof (cases "q < slot")
      case False
      then have "w = []" "items (\<lambda>k. after p k \<and> k \<le> slot - 1) T = []"
        using b(3) Some by (auto intro!: items_false)
      then show ?thesis using assms(2) log_ok_fresh [of "slot - 1" slot T] by simp
    qed (use assms(2) in \<open>auto simp: log_ok_def\<close>)
  next
    case False
    then have "w = []" using b(2) items_false [of "\<lambda>k. after b k \<and> k \<le> q" T] by (cases b) auto
    then show ?thesis using assms(2) Some by (auto simp: log_ok_def intro!: exI [of _ "Some q"])
  qed
qed

lemma ack_run:
  assumes "map_of (agents s) i = Some a" "ag_managed a" "pointers (sync_track s) i \<noteq> None"
  shows "acknowledge i s = (if is_empty (sync_track s) then (Inl EmptyTrackException, s)
    else (Inr (), s\<lparr>sync_track := (sync_track s)\<lparr>pointers := (pointers (sync_track s))(i := Some (ag_lastTry a))\<rparr>\<rparr>))"
  using assms by (simp add: acknowledge_def advance_def on_track_def zoom_def movePointer_def prog_simps)

lemma run_cases:
  assumes "live_inv g t s" "map_of (agents s) i = Some a" "ag_managed a"
    "pointers (sync_track s) i = Some p"
  defines "data \<equiv> items (\<lambda>k. after p k \<and> k \<le> t div g - 1) (sync_track s)"
  shows "agent_run (process out i) i (Some t) s =
    (if out i = Succeeds then (Inr (Some (t div g - 1)), s\<lparr>
        agents := map (\<lambda>(k, a). (k, if k = i then a\<lparr>ag_lastTry := Some (t div g - 1)\<rparr> else a)) (agents s),
        remote := (remote s)(i := remote s i @ data)\<rparr>)
     else (Inr None, s))"
proof -
  have g: "granularity s = g" "g \<noteq> 0" using assms(1) by (auto simp: live_inv_def)
  show ?thesis
    using assms(2-4) query_after [OF assms(1,4)]
    by (cases "out i")
      (simp_all add: agent_run_def run_till_def g Let_def getPointerTimestamp_def catch_exn_def on_remote_def
        zoom_def process_def deliver_def upd_agent_def prog_simps data_def)
qed

text \<open>A successful run and its acknowledgement keep the invariant, also when the track is empty.\<close>

lemma inv_success:
  assumes "live_inv g t s" "map_of (agents s) i = Some a" "ag_managed a"
    "pointers (sync_track s) i = Some p" "agent_run (process out i) i (Some t) s = (Inr (Some n), s')" "out i = Succeeds"
  shows "n \<noteq> 0" "live_inv g t (snd (acknowledge i s'))"
proof -
  let ?T = "sync_track s" and ?w = "remote s i @ items (\<lambda>k. after p k \<and> k \<le> t div g - 1) (sync_track s)"
  let ?as = "map (\<lambda>(k, a). (k, if k = i then a\<lparr>ag_lastTry := Some (t div g - 1)\<rparr> else a)) (agents s)"
  have s': "n = t div g - 1" "s' = s\<lparr>agents := ?as, remote := (remote s)(i := ?w)\<rparr>"
    using run_cases [OF assms(1-4), of out] assms(5,6) by simp_all
  have slot: "2 \<le> t div g" and log: "log_ok (t div g) ?T p (remote s i)"
    using assms(1,4) two_slots by (auto simp: live_inv_def)
  show "n \<noteq> 0" using slot s'(1) by simp
  have ag: "map_of (agents s') i = Some (a\<lparr>ag_lastTry := Some (t div g - 1)\<rparr>)"
    using assms(2) by (simp add: s'(2) map_of_upd)
  note ack = ack_run [OF ag]
  show "live_inv g t (snd (acknowledge i s'))"
  proof (cases "is_empty ?T")
    case True
    then have "?w = remote s i" by (simp add: is_empty_def items_def)
    then have i: "live_inv g t (s\<lparr>remote := (remote s)(i := ?w)\<rparr>)" using assms(1) by simp
    have e: "snd (acknowledge i s') = s'" using ack True assms(3,4) s'(2) by simp
    show ?thesis unfolding e by (rule live_inv_same [OF i]) (simp_all add: s'(2))
  next
    case False
    have i: "live_inv g t (s\<lparr>sync_track := ?T\<lparr>pointers := (pointers ?T)(i := Some (Some (t div g - 1)))\<rparr>,
        remote := (remote s)(i := ?w)\<rparr>)"
      using log_ok_advance [OF log slot] by (intro inv_pointer [OF assms(1)]) auto
    show ?thesis using ack False assms(3,4) s'(2) by (intro live_inv_same [OF i]) simp_all
  qed
qed

lemma inv_task_loop:
  "live_inv g t s \<Longrightarrow> live_inv g t (snd (task_loop (process out) t is s))"
proof (induction "is" arbitrary: s)
  case (Cons i "is")
  note inv = Cons.prems
  show ?case
  proof (cases "map_of (agents s) i")
    case None
    then show ?thesis using Cons.IH [OF inv] by (simp add: prog_simps)
  next
    case (Some a)
    show ?thesis
    proof (cases "ag_active a")
      case False
      then show ?thesis using Some Cons.IH [OF inv] by (simp add: prog_simps)
    next
      case True
      note act = this
      show ?thesis
      proof (cases "ag_managed a \<and> pointers (sync_track s) i \<noteq> None")
        case False
        then have "agent_run (process out i) i (Some t) s = (Inl (if ag_managed a then KeyError else AttributeError), s)"
          using Some inv by (auto simp: agent_run_def getPointerTimestamp_def lift_res_def live_inv_def Let_def prog_simps)
        then show ?thesis using inv Some act by (simp add: catch_exn_def prog_simps)
      next
        case True
        then obtain p where p: "pointers (sync_track s) i = Some p" by auto
        note run = run_cases [OF inv Some conjunct1 [OF True] p, of out]
        show ?thesis
        proof (cases "out i = Succeeds")
          case False
          then show ?thesis using Some act run Cons.IH [OF inv] by (simp add: catch_exn_def when_do_def prog_simps)
        next
          case True
          obtain s1 where s1: "agent_run (process out i) i (Some t) s = (Inr (Some (t div g - 1)), s1)"
            using run True by simp
          have "task_loop (process out) t (i # is) s = andthen (acknowledge i) (task_loop (process out) t is) s1"
            using Some act s1 inv_success(1) [OF inv Some _ p s1 True] \<open>ag_managed a \<and> _\<close>
            by (simp add: catch_exn_def when_do_def prog_simps)
          moreover have "live_inv g t (snd (acknowledge i s1))"
            using inv_success(2) [OF inv Some _ p s1 True] \<open>ag_managed a \<and> _\<close> by simp
          ultimately show ?thesis
            using Cons.IH [of "snd (acknowledge i s1)"]
            by (cases "acknowledge i s1") (auto simp: andthen_run split: sum.split)
        qed
      qed
    qed
  qed
qed (simp add: prog_simps)

theorem live_reach_inv:
  assumes "live_reach g l"
  shows "live_inv g (l_now l) (l_sync l)"
  using assms
proof induction
  case (start t)
  then show ?case
    by (simp add: live_inv_def live_start_def new_sync_def new_track_def track_wf_def bt_wf_def entry_def)
next
  case (step l l')
  from step.hyps(2) step.IH show ?case
    by cases (simp_all add: inv_tick inv_add inv_register inv_preactivate inv_remove
      inv_task_loop update_task_def upd_agent_def inv_agents prog_simps)
qed

end
