(* ===== verification/Sync_Records.thy ===== *)
theory Sync_Records
  imports Sync_Agent
begin

text \<open>
  From actions to records (\<open>indico/ext/livesync/bistate.py\<close>): the actions on the objects of the event
  tree are reduced to one state per object, a number whose bits say deleted, created and changed.

  What the event tree answers is an argument: the class of an object, the conferences below a
  category, the contributions of a conference and the subcontributions of a contribution.  The
  dictionary of states is an association list in the order of insertion; Python may yield the
  records in any order.  The sweep of the ZODB cache, which only concerns memory, and the metadata
  generators are not modelled.
\<close>

unbundle bit_operations_syntax

section \<open>The event tree\<close>

datatype obj_class =
    Category | Conference | Session | SessionSlot | Contribution | SubContribution
  | Access_Controller | Other_Class

record 'o tree =
  class_at :: "'o \<Rightarrow> obj_class"
  allConferences :: "'o \<Rightarrow> 'o list"
  contributionsOf :: "'o \<Rightarrow> 'o list"
  subContributionsOf :: "'o \<Rightarrow> 'o list"

definition STATUS_DELETED :: int where "STATUS_DELETED = 1"

definition STATUS_CREATED :: int where "STATUS_CREATED = 2"

definition STATUS_CHANGED :: int where "STATUS_CHANGED = 4"

section \<open>BistateRecordProcessor\<close>

type_synonym 'o chg_set = "('o \<times> int) list"

definition setStatus :: "'o \<Rightarrow> int \<Rightarrow> 'o chg_set \<Rightarrow> 'o chg_set" where
  "setStatus obj state chg =
     (let chg = (if map_of chg obj = None then chg @ [(obj, 0)] else chg)
      in dict_set obj (the (map_of chg obj) OR state) chg)"

definition breakDownContribution :: "'o tree \<Rightarrow> int \<Rightarrow> 'o \<Rightarrow> 'o chg_set \<Rightarrow> 'o chg_set" where
  "breakDownContribution tr state contrib chg =
     fold (\<lambda>sc. setStatus sc state) (subContributionsOf tr contrib) (setStatus contrib state chg)"

definition breakDownConference :: "'o tree \<Rightarrow> int \<Rightarrow> 'o \<Rightarrow> 'o chg_set \<Rightarrow> 'o chg_set" where
  "breakDownConference tr state conf chg =
     fold (breakDownContribution tr state) (contributionsOf tr conf) (setStatus conf state chg)"

definition breakDownCategory :: "'o tree \<Rightarrow> int \<Rightarrow> 'o \<Rightarrow> 'o chg_set \<Rightarrow> 'o chg_set" where
  "breakDownCategory tr state categ chg = fold (breakDownConference tr state) (allConferences tr categ) chg"

definition computeProtectionChanges :: "'o tree \<Rightarrow> 'o \<Rightarrow> 'o chg_set \<Rightarrow> 'o chg_set" where
  "computeProtectionChanges tr obj chg = (case class_at tr obj of
       Category \<Rightarrow> breakDownCategory tr STATUS_CHANGED obj chg
     | Conference \<Rightarrow> breakDownConference tr STATUS_CHANGED obj chg
     | Contribution \<Rightarrow> breakDownContribution tr STATUS_CHANGED obj chg
     | SubContribution \<Rightarrow> setStatus obj STATUS_CHANGED chg
     | _ \<Rightarrow> chg)"

text \<open>One action of a wrapper, on the states and the ids of the deleted objects.\<close>

definition do_action ::
  "'o tree \<Rightarrow> 'o action \<Rightarrow> string \<Rightarrow> 'o chg_set \<times> ('o \<Rightarrow> string option) \<Rightarrow> 'o chg_set \<times> ('o \<Rightarrow> string option)" where
  "do_action tr aw action rd = (case rd of (records, deletedIds) \<Rightarrow>
     let obj = aw_obj aw; categ = (class_at tr obj = Category)
     in if action = ''deleted'' \<and> \<not> categ
        then (setStatus obj STATUS_DELETED records, deletedIds(obj \<mapsto> aw_objId aw))
        else if action = ''created'' \<and> \<not> categ then (setStatus obj STATUS_CREATED records, deletedIds)
        else if action \<in> {''set_private'', ''set_public'', ''acl_changed'', ''moved''}
        then (computeProtectionChanges tr obj records, deletedIds)
        else if action = ''data_changed'' \<and> \<not> categ
        then (setStatus obj STATUS_CHANGED records, deletedIds)
        else (records, deletedIds))"

fun yield_records :: "('o \<Rightarrow> string option) \<Rightarrow> 'o chg_set \<Rightarrow> exn + ('o \<times> string option \<times> int) list" where
  "yield_records deletedIds [] = Inr []"
| "yield_records deletedIds ((obj, state) # rs) =
     (if state AND STATUS_DELETED \<noteq> 0 \<and> deletedIds obj = None then Inl KeyError
      else (case yield_records deletedIds rs of
          Inl e \<Rightarrow> Inl e
        | Inr l \<Rightarrow> Inr ((obj, if state AND STATUS_DELETED \<noteq> 0 then deletedIds obj else None, state) # l)))"

definition computeRecords :: "'o tree \<Rightarrow> (int \<times> 'o action) list \<Rightarrow> exn + ('o \<times> string option \<times> int) list" where
  "computeRecords tr data =
     (case fold (\<lambda>(_, aw). fold (do_action tr aw) (aw_actions aw)) data ([], \<lambda>_. None) of
        (records, deletedIds) \<Rightarrow> yield_records deletedIds records)"

section \<open>Readable states\<close>

text \<open>\<open>record_str\<close> unfolds the bits, highest first.\<close>

definition state_name :: "int \<Rightarrow> string" where
  "state_name k = (if k = 1 then ''DEL'' else if k = 2 then ''CRT'' else ''MOD'')"

function state_parts :: "int \<Rightarrow> int \<Rightarrow> string list" where
  "state_parts status k = (if k \<le> 0 then []
     else (if status AND k \<noteq> 0 then [state_name k] else []) @ state_parts status (k div 2))"
  by pat_completeness auto

termination
  by (relation "measure (nat \<circ> snd)") auto

declare state_parts.simps [simp del]

definition record_states :: "int \<Rightarrow> string list" where
  "record_states status = state_parts status 4"

section \<open>What an action does to an object\<close>

text \<open>
  The reference: the bits an action gives to an object, without order and without a dictionary.
\<close>

definition below :: "'o tree \<Rightarrow> 'o \<Rightarrow> 'o set" where
  "below tr c = insert c (set (subContributionsOf tr c))"

definition below_conf :: "'o tree \<Rightarrow> 'o \<Rightarrow> 'o set" where
  "below_conf tr c = insert c (\<Union>x \<in> set (contributionsOf tr c). below tr x)"

definition reach_of :: "'o tree \<Rightarrow> 'o \<Rightarrow> 'o set" where
  "reach_of tr obj = (case class_at tr obj of
       Category \<Rightarrow> (\<Union>c \<in> set (allConferences tr obj). below_conf tr c)
     | Conference \<Rightarrow> below_conf tr obj
     | Contribution \<Rightarrow> below tr obj
     | SubContribution \<Rightarrow> {obj}
     | _ \<Rightarrow> {})"

definition gives :: "'o tree \<Rightarrow> 'o action \<Rightarrow> string \<Rightarrow> 'o \<Rightarrow> int \<Rightarrow> bool" where
  "gives tr aw action obj b \<longleftrightarrow>
     (class_at tr (aw_obj aw) \<noteq> Category \<and> obj = aw_obj aw \<and>
        (action = ''deleted'' \<and> b = STATUS_DELETED \<or> action = ''created'' \<and> b = STATUS_CREATED
         \<or> action = ''data_changed'' \<and> b = STATUS_CHANGED))
   \<or> (action \<in> {''set_private'', ''set_public'', ''acl_changed'', ''moved''} \<and> obj \<in> reach_of tr (aw_obj aw)
        \<and> b = STATUS_CHANGED)"

definition given :: "'o tree \<Rightarrow> (int \<times> 'o action) list \<Rightarrow> 'o \<Rightarrow> int \<Rightarrow> bool" where
  "given tr data obj b \<longleftrightarrow> (\<exists>(_, aw) \<in> set data. \<exists>act \<in> set (aw_actions aw). gives tr aw act obj b)"

section \<open>The dictionary of states\<close>

text \<open>A set of objects and bits describes a dictionary.\<close>

definition bits3 :: "int set" where
  "bits3 = {STATUS_DELETED, STATUS_CREATED, STATUS_CHANGED}"

definition state_of :: "'o chg_set \<Rightarrow> 'o \<Rightarrow> int" where
  "state_of chg obj = (case map_of chg obj of None \<Rightarrow> 0 | Some s \<Rightarrow> s)"

definition shows_bits :: "'o chg_set \<Rightarrow> ('o \<Rightarrow> int \<Rightarrow> bool) \<Rightarrow> bool" where
  "shows_bits chg P \<longleftrightarrow> distinct (map fst chg) \<and> 0 \<notin> snd ` set chg \<and>
     (\<forall>obj. state_of chg obj \<in> {0..<8} \<and> (\<forall>b \<in> bits3. state_of chg obj AND b \<noteq> 0 \<longleftrightarrow> P obj b))"

lemma map_of_dict_set: "map_of (dict_set k v d) x = (if x = k then Some v else map_of d x)"
  by (induction k v d rule: dict_set.induct) auto

lemma dict_set_new: "k \<notin> fst ` set d \<Longrightarrow> dict_set k v d = d @ [(k, v)]"
  by (induction k v d rule: dict_set.induct) auto

lemma dict_set_keys:
  "k \<in> fst ` set d \<Longrightarrow> map fst (dict_set k v d) = map fst d"
  "snd ` set (dict_set k v d) \<subseteq> insert v (snd ` set d)"
  by (induction k v d rule: dict_set.induct) auto

lemma bits_or:
  assumes "s \<in> {0..<8}" "b \<in> bits3"
  shows "s OR b \<noteq> 0" "s OR b \<in> {0..<8}" "\<forall>c \<in> bits3. (s OR b) AND c \<noteq> 0 \<longleftrightarrow> s AND c \<noteq> 0 \<or> c = b"
proof -
  have "s = 0 \<or> s = 1 \<or> s = 2 \<or> s = 3 \<or> s = 4 \<or> s = 5 \<or> s = 6 \<or> s = 7" using assms(1) by auto
  then show "s OR b \<noteq> 0" "s OR b \<in> {0..<8}" "\<forall>c \<in> bits3. (s OR b) AND c \<noteq> 0 \<longleftrightarrow> s AND c \<noteq> 0 \<or> c = b"
    using assms(2) unfolding bits3_def STATUS_DELETED_def STATUS_CREATED_def STATUS_CHANGED_def
    by (elim disjE insertE emptyE; simp)+
qed

lemma setStatus_eq: "setStatus obj b chg = dict_set obj (state_of chg obj OR b) chg"
proof (cases "map_of chg obj")
  case None
  then have k: "obj \<notin> fst ` set chg" by (simp add: map_of_eq_None_iff)
  then have "dict_set obj v (chg @ [(obj, 0)]) = dict_set obj v chg" for v
    by (induction chg) auto
  moreover have "map_of (chg @ [(obj, 0)]) obj = Some 0" using None by (simp add: map_add_def)
  ultimately show ?thesis using None by (simp add: setStatus_def Let_def state_of_def)
qed (simp add: setStatus_def Let_def state_of_def)

lemma shows_setStatus:
  assumes "shows_bits chg P" "b \<in> bits3"
  shows "shows_bits (setStatus obj b chg) (\<lambda>x c. P x c \<or> x = obj \<and> c = b)"
proof -
  let ?s = "state_of chg obj"
  have s: "?s \<in> {0..<8}" "\<forall>c \<in> bits3. ?s AND c \<noteq> 0 \<longleftrightarrow> P obj c" using assms(1) by (simp_all add: shows_bits_def)
  have "state_of (setStatus obj b chg) x = (if x = obj then ?s OR b else state_of chg x)" for x
    by (simp add: setStatus_eq state_of_def [of "dict_set _ _ _"] map_of_dict_set) (simp add: state_of_def)
  moreover have "distinct (map fst (setStatus obj b chg))"
    using assms(1) dict_set_new [of obj chg "?s OR b"] dict_set_keys(1) [of obj chg "?s OR b"] unfolding setStatus_eq shows_bits_def
    by (cases "obj \<in> fst ` set chg") simp_all
  moreover have "0 \<notin> snd ` set (setStatus obj b chg)"
    using assms(1) dict_set_keys(2) [of obj "?s OR b" chg] bits_or(1) [OF s(1) assms(2)]
    unfolding setStatus_eq shows_bits_def by auto
  ultimately show ?thesis
    using assms s bits_or(2,3) [OF s(1) assms(2)] unfolding shows_bits_def by auto
qed

lemma shows_cong: "shows_bits chg P \<Longrightarrow> (\<And>x b. P x b \<longleftrightarrow> Q x b) \<Longrightarrow> shows_bits chg Q"
  unfolding shows_bits_def by blast

lemma shows_fold:
  assumes "\<And>x chg P. shows_bits chg P \<Longrightarrow> shows_bits (f x chg) (\<lambda>y b. P y b \<or> Q x y b)" "shows_bits chg P"
  shows "shows_bits (fold f xs chg) (\<lambda>y b. P y b \<or> (\<exists>x \<in> set xs. Q x y b))"
  using assms(2)
proof (induction xs arbitrary: chg P)
  case (Cons x xs)
  from Cons.IH [OF assms(1) [OF Cons.prems]] show ?case by (auto elim: shows_cong)
qed simp

lemma shows_breakDown:
  assumes "b \<in> bits3" "shows_bits chg P"
  shows "shows_bits (breakDownContribution tr b c chg) (\<lambda>y d. P y d \<or> y \<in> below tr c \<and> d = b)"
    "shows_bits (breakDownConference tr b c chg) (\<lambda>y d. P y d \<or> y \<in> below_conf tr c \<and> d = b)"
    "shows_bits (breakDownCategory tr b c chg) (\<lambda>y d. P y d \<or> (\<exists>x \<in> set (allConferences tr c). y \<in> below_conf tr x \<and> d = b))"
proof -
  have con: "shows_bits (breakDownContribution tr b c chg) (\<lambda>y d. P y d \<or> y \<in> below tr c \<and> d = b)"
    if "shows_bits chg P" for c chg P
    using shows_fold [of "\<lambda>sc. setStatus sc b" "\<lambda>x y d. y = x \<and> d = b", OF shows_setStatus [OF _ assms(1)]
        shows_setStatus [OF that assms(1), of c]]
    unfolding breakDownContribution_def by (rule shows_cong) (auto simp: below_def)
  have conf: "shows_bits (breakDownConference tr b c chg) (\<lambda>y d. P y d \<or> y \<in> below_conf tr c \<and> d = b)"
    if "shows_bits chg P" for c chg P
    using shows_fold [of "breakDownContribution tr b" "\<lambda>x y d. y \<in> below tr x \<and> d = b", OF con
        shows_setStatus [OF that assms(1), of c]]
    unfolding breakDownConference_def by (rule shows_cong) (auto simp: below_conf_def)
  show "shows_bits (breakDownContribution tr b c chg) (\<lambda>y d. P y d \<or> y \<in> below tr c \<and> d = b)"
    and "shows_bits (breakDownConference tr b c chg) (\<lambda>y d. P y d \<or> y \<in> below_conf tr c \<and> d = b)"
    by (rule con conf, rule assms(2))+
  show "shows_bits (breakDownCategory tr b c chg) (\<lambda>y d. P y d \<or> (\<exists>x \<in> set (allConferences tr c). y \<in> below_conf tr x \<and> d = b))"
    unfolding breakDownCategory_def by (rule shows_fold [OF conf assms(2)])
qed

lemma changed_bit: "STATUS_CHANGED \<in> bits3" "STATUS_DELETED \<in> bits3" "STATUS_CREATED \<in> bits3"
  by (simp_all add: bits3_def)

lemma shows_protection:
  "shows_bits chg P \<Longrightarrow>
    shows_bits (computeProtectionChanges tr obj chg) (\<lambda>y d. P y d \<or> y \<in> reach_of tr obj \<and> d = STATUS_CHANGED)"
  using shows_breakDown [OF changed_bit(1), of chg P tr obj] shows_setStatus [OF _ changed_bit(1), of chg P obj]
  by (cases "class_at tr obj") (auto simp: computeProtectionChanges_def reach_of_def elim: shows_cong)

lemma shows_action:
  assumes "shows_bits rec P"
  shows "shows_bits (fst (do_action tr aw act (rec, del))) (\<lambda>y d. P y d \<or> gives tr aw act y d)"
proof -
  let ?o = "aw_obj aw"
  define c1 c2 c3 c4 where
    "c1 \<longleftrightarrow> act = ''deleted'' \<and> class_at tr ?o \<noteq> Category" and
    "c2 \<longleftrightarrow> act = ''created'' \<and> class_at tr ?o \<noteq> Category" and
    "c3 \<longleftrightarrow> act \<in> {''set_private'', ''set_public'', ''acl_changed'', ''moved''}" and
    "c4 \<longleftrightarrow> act = ''data_changed'' \<and> class_at tr ?o \<noteq> Category"
  note c = c1_def c2_def c3_def c4_def
  have e: "fst (do_action tr aw act (rec, del)) =
      (if c1 then setStatus ?o STATUS_DELETED rec else if c2 then setStatus ?o STATUS_CREATED rec
       else if c3 then computeProtectionChanges tr ?o rec
       else if c4 then setStatus ?o STATUS_CHANGED rec else rec)"
    unfolding c by (simp add: do_action_def Let_def)
  have g: "gives tr aw act y d \<longleftrightarrow> c1 \<and> y = ?o \<and> d = STATUS_DELETED \<or> c2 \<and> y = ?o \<and> d = STATUS_CREATED
      \<or> c3 \<and> y \<in> reach_of tr ?o \<and> d = STATUS_CHANGED \<or> c4 \<and> y = ?o \<and> d = STATUS_CHANGED" for y d
    unfolding c gives_def by metis
  have x: "c1 \<Longrightarrow> \<not> c2 \<and> \<not> c3 \<and> \<not> c4" "c2 \<Longrightarrow> \<not> c3 \<and> \<not> c4" "c3 \<Longrightarrow> \<not> c4"
    unfolding c by auto
  note st = shows_setStatus [OF assms changed_bit(1), of ?o] shows_setStatus [OF assms changed_bit(2), of ?o]
    shows_setStatus [OF assms changed_bit(3), of ?o] shows_protection [OF assms, of tr ?o]
  show ?thesis
  proof (cases c1)
    case True
    then show ?thesis unfolding e g using x(1) st(2) by simp
  next
    case n1: False
    show ?thesis
    proof (cases c2)
      case True
      then show ?thesis unfolding e g using n1 x(2) st(3) by simp
    next
      case n2: False
      show ?thesis
      proof (cases c3)
        case True
        then show ?thesis unfolding e g using n1 n2 x(3) st(4) by simp
      next
        case False
        then show ?thesis unfolding e g using n1 n2 st(1) assms by (cases c4) simp_all
      qed
    qed
  qed
qed

lemma shows_actions:
  "shows_bits (fst rd) P \<Longrightarrow>
    shows_bits (fst (fold (do_action tr aw) acts rd)) (\<lambda>y d. P y d \<or> (\<exists>act \<in> set acts. gives tr aw act y d))"
proof (induction acts arbitrary: rd P)
  case (Cons act acts)
  have "shows_bits (fst (do_action tr aw act rd)) (\<lambda>y d. P y d \<or> gives tr aw act y d)"
    using shows_action [OF Cons.prems, of tr aw act "snd rd"] by simp
  from Cons.IH [OF this] show ?case by (auto elim: shows_cong)
qed simp

lemma shows_data:
  "shows_bits (fst rd) P \<Longrightarrow>
    shows_bits (fst (fold (\<lambda>(_, aw). fold (do_action tr aw) (aw_actions aw)) data rd)) (\<lambda>y d. P y d \<or> given tr data y d)"
proof (induction data arbitrary: rd P)
  case (Cons d data)
  obtain n aw where d: "d = (n, aw)" by fastforce
  from Cons.IH [OF shows_actions [OF Cons.prems, of tr aw "aw_actions aw"]] show ?case
    by (auto simp: d given_def elim: shows_cong)
qed (simp add: given_def)

section \<open>The ids of the deleted objects\<close>

lemma deleted_action:
  "snd (do_action tr aw act rd) obj \<noteq> None \<longleftrightarrow> snd rd obj \<noteq> None \<or> gives tr aw act obj STATUS_DELETED"
  by (cases rd) (auto simp: do_action_def Let_def gives_def STATUS_DELETED_def STATUS_CREATED_def STATUS_CHANGED_def)

lemma deleted_actions:
  "snd (fold (do_action tr aw) acts rd) obj \<noteq> None
    \<longleftrightarrow> snd rd obj \<noteq> None \<or> (\<exists>act \<in> set acts. gives tr aw act obj STATUS_DELETED)"
  by (induction acts arbitrary: rd) (simp_all only: fold_simps deleted_action, simp_all)

lemma deleted_ids:
  "snd (fold (\<lambda>(_, aw). fold (do_action tr aw) (aw_actions aw)) data rd) obj \<noteq> None
    \<longleftrightarrow> snd rd obj \<noteq> None \<or> given tr data obj STATUS_DELETED"
proof (induction data arbitrary: rd)
  case (Cons d data)
  obtain n aw where d: "d = (n, aw)" by fastforce
  show ?case
    unfolding d fold_simps case_prod_conv Cons.IH deleted_actions by (auto simp: given_def)
qed (simp add: given_def)

lemma yield_ok:
  "\<forall>(obj, s) \<in> set rs. s AND STATUS_DELETED \<noteq> 0 \<longrightarrow> del obj \<noteq> None \<Longrightarrow>
    yield_records del rs = Inr (map (\<lambda>(obj, s). (obj, if s AND STATUS_DELETED \<noteq> 0 then del obj else None, s)) rs)"
  by (induction rs) auto

section \<open>The records as a whole\<close>

lemma shows_entry:
  assumes "shows_bits recs P" "(obj, s) \<in> set recs"
  shows "s \<in> {0..<8}" "s \<noteq> 0" "\<forall>b \<in> bits3. s AND b \<noteq> 0 \<longleftrightarrow> P obj b"
proof -
  have "map_of recs obj = Some s" using assms by (intro map_of_is_SomeI) (simp_all add: shows_bits_def)
  then have s: "s = state_of recs obj" by (simp add: state_of_def)
  show "s \<in> {0..<8}" "\<forall>b \<in> bits3. s AND b \<noteq> 0 \<longleftrightarrow> P obj b"
    using assms(1) unfolding s by (simp_all add: shows_bits_def)
  have "s \<in> snd ` set recs" using assms(2) by force
  moreover have "0 \<notin> snd ` set recs" using assms(1) by (simp add: shows_bits_def)
  ultimately show "s \<noteq> 0" by metis
qed

lemma some_bit: "s \<in> {0..<8} \<Longrightarrow> s \<noteq> 0 \<Longrightarrow> \<exists>b \<in> bits3. s AND b \<noteq> 0"
proof -
  assume "s \<in> {0..<8}" "s \<noteq> 0"
  then have "s = 1 \<or> s = 2 \<or> s = 3 \<or> s = 4 \<or> s = 5 \<or> s = 6 \<or> s = 7" by auto
  then show ?thesis
    unfolding bits3_def STATUS_DELETED_def STATUS_CREATED_def STATUS_CHANGED_def by (elim disjE) simp_all
qed

lemma shows_dom:
  assumes "shows_bits recs P"
  shows "obj \<in> fst ` set recs \<longleftrightarrow> (\<exists>b \<in> bits3. P obj b)"
proof
  assume "obj \<in> fst ` set recs"
  then obtain s where s: "(obj, s) \<in> set recs" by auto
  from some_bit [OF shows_entry(1,2) [OF assms s]] shows_entry(3) [OF assms s]
  show "\<exists>b \<in> bits3. P obj b" by blast
next
  assume "\<exists>b \<in> bits3. P obj b"
  then obtain b where b: "b \<in> bits3" "P obj b" by blast
  have "state_of recs obj AND b \<noteq> 0" using assms b by (simp add: shows_bits_def)
  then have "state_of recs obj \<noteq> 0" by (rule contrapos_nn) simp
  then have "map_of recs obj \<noteq> None" by (auto simp: state_of_def split: option.splits)
  then show "obj \<in> fst ` set recs" by (simp add: map_of_eq_None_iff)
qed

lemma records_run:
  "\<exists>recs del. computeRecords tr data = Inr (map (\<lambda>(obj, s). (obj, if s AND STATUS_DELETED \<noteq> 0 then del obj else None, s)) recs)
    \<and> shows_bits recs (given tr data) \<and> (\<forall>obj. del obj \<noteq> None \<longleftrightarrow> given tr data obj STATUS_DELETED)"
proof -
  obtain recs del where rd: "fold (\<lambda>(_, aw). fold (do_action tr aw) (aw_actions aw)) data ([], \<lambda>_. None) = (recs, del)"
    by fastforce
  have "shows_bits (fst ([] :: 'a chg_set, \<lambda>_. None :: string option)) (\<lambda>_ _. False)"
    by (simp add: shows_bits_def state_of_def)
  from shows_data [OF this, of tr data] have sh: "shows_bits recs (given tr data)" by (simp add: rd)
  have del: "del obj \<noteq> None \<longleftrightarrow> given tr data obj STATUS_DELETED" for obj
    using deleted_ids [of tr data "([], \<lambda>_. None)" obj] by (simp add: rd)
  have "\<forall>(obj, s) \<in> set recs. s AND STATUS_DELETED \<noteq> 0 \<longrightarrow> del obj \<noteq> None"
    using shows_entry(3) [OF sh] changed_bit(2) del by (intro ballI) (simp only: split_paired_all prod.case, blast)
  from yield_ok [OF this] have "computeRecords tr data = Inr (map (\<lambda>(obj, s). (obj, if s AND STATUS_DELETED \<noteq> 0 then del obj else None, s)) recs)"
    by (simp add: computeRecords_def rd)
  with sh del show ?thesis by blast
qed

end
