(* ===== verification/Sync_Listener.thy ===== *)
theory Sync_Listener
  imports Sync_Records
begin

text \<open>
  How changes get onto the track (\<open>indico/ext/livesync/components.py\<close> and \<open>objectExcluded\<close> of
  \<open>agent.py\<close>): during a request the listener collects the actions on each object in the request's
  context, and at its end they become one entry per object.  A retry of the request drops what was
  collected.

  What the events tell of an object (its id, its owner, its protection, the conference it belongs
  to) is an argument.  A set of action names is a sorted list.
\<close>

record 'o site =
  site_tree :: "'o tree"
  uniqueId :: "'o \<Rightarrow> string option"
  getId :: "'o \<Rightarrow> string"
  getOwner :: "'o \<Rightarrow> 'o option"
  getParent :: "'o \<Rightarrow> 'o option"
  getConference :: "'o \<Rightarrow> 'o option"
  isProtected :: "'o \<Rightarrow> bool"
  getAccessProtectionLevel :: "'o \<Rightarrow> int"
  excludedCategories :: "string list"

definition site_class :: "'o site \<Rightarrow> 'o \<Rightarrow> obj_class" where
  "site_class w obj = class_at (site_tree w) obj"

section \<open>The context of a request\<close>

text \<open>Without a request there is a dummy context, \<open>None\<close>, which ignores everything.\<close>

record 'o ctx =
  cx_actions :: "('o \<times> string list) list"
  cx_ids :: "'o \<Rightarrow> string option"

definition requestStarted :: "'o ctx option" where
  "requestStarted = Some \<lparr>cx_actions = [], cx_ids = (\<lambda>_. None)\<rparr>"

definition requestRetry :: "'o ctx option" where
  "requestRetry = Some \<lparr>cx_actions = [], cx_ids = (\<lambda>_. None)\<rparr>"

definition names_add :: "string list \<Rightarrow> string list \<Rightarrow> string list" where
  "names_add new old = fold (ts_add py_cmp) new old"

definition dict_get :: "'k \<Rightarrow> ('k \<times> 'v) list \<Rightarrow> 'v \<Rightarrow> 'v" where
  "dict_get k d v = (case map_of d k of None \<Rightarrow> v | Some x \<Rightarrow> x)"

definition add_actions :: "'o site \<Rightarrow> 'o \<Rightarrow> string list \<Rightarrow> 'o ctx option \<Rightarrow> 'o ctx option" where
  "add_actions w obj names cx = (case cx of
       None \<Rightarrow> None
     | Some c \<Rightarrow>
        (let c1 = c\<lparr>cx_actions := dict_set obj (names_add names (dict_get obj (cx_actions c) [])) (cx_actions c)\<rparr>
         in Some (case uniqueId w obj of
              None \<Rightarrow> c1
            | Some uid \<Rightarrow> if uid = [] \<or> cx_ids c1 obj \<noteq> None then c1
                else c1\<lparr>cx_ids := (cx_ids c1)(obj \<mapsto> uid)\<rparr>)))"

section \<open>The events\<close>

definition objectInfoChanged :: "'o site \<Rightarrow> 'o \<Rightarrow> string \<Rightarrow> 'o ctx option \<Rightarrow> 'o ctx option" where
  "objectInfoChanged w obj what = add_actions w obj [what @ ''_changed'']"

definition protectionChanged :: "'o site \<Rightarrow> 'o \<Rightarrow> int \<Rightarrow> int \<Rightarrow> 'o ctx option \<Rightarrow> 'o ctx option" where
  "protectionChanged w obj oldValue newValue cx =
     (let newValue = (if newValue = 0 then (if isProtected w obj then 1 else - 1) else newValue)
      in if oldValue = newValue then cx
         else if newValue = - 1 then add_actions w obj [''set_public''] cx
         else add_actions w obj [''set_private''] cx)"

definition parentProtectionChanged :: "'o site \<Rightarrow> 'o \<Rightarrow> bool \<Rightarrow> 'o ctx option \<Rightarrow> 'o ctx option" where
  "parentProtectionChanged w obj newValue cx =
     (if getAccessProtectionLevel w obj = 0
      then if newValue then add_actions w obj [''set_private''] cx else add_actions w obj [''set_public''] cx
      else cx)"

definition moved :: "'o site \<Rightarrow> 'o \<Rightarrow> 'o \<Rightarrow> 'o \<Rightarrow> 'o ctx option \<Rightarrow> 'o ctx option" where
  "moved w obj fromOwner toOwner cx =
     (let cx = add_actions w obj [''moved''] cx
      in if isProtected w fromOwner \<noteq> isProtected w toOwner
         then parentProtectionChanged w obj (isProtected w toOwner) cx else cx)"

definition created :: "'o site \<Rightarrow> 'o \<Rightarrow> 'o \<Rightarrow> 'o ctx option \<Rightarrow> 'o ctx option" where
  "created w obj own cx = add_actions w obj [''created''] (objectInfoChanged w own ''data'' cx)"

definition deleted :: "'o site \<Rightarrow> 'o \<Rightarrow> 'o ctx option \<Rightarrow> 'o ctx option" where
  "deleted w obj cx = add_actions w obj [''deleted''] cx"

definition titleChanged :: "'o site \<Rightarrow> 'o \<Rightarrow> 'o ctx option \<Rightarrow> 'o ctx option" where
  "titleChanged w obj = objectInfoChanged w obj ''title''"

definition infoChanged :: "'o site \<Rightarrow> 'o \<Rightarrow> 'o ctx option \<Rightarrow> 'o ctx option" where
  "infoChanged w obj = objectInfoChanged w obj ''data''"

text \<open>
  \<open>_aclChanged\<close> climbs along the owners until it finds an object with a record of its own; it may
  climb forever when the owners form a cycle.  The answer is the object and what changed of it, if
  anything.
\<close>

partial_function (option) acl_target :: "'o site \<Rightarrow> 'o \<Rightarrow> bool \<Rightarrow> (exn + ('o \<times> string) option) option" where
  "acl_target w obj child =
     (if site_class w obj \<in> {Conference, Contribution, SubContribution, Category}
      then Some (Inr (Some (obj, if child then ''data'' else ''acl'')))
      else if site_class w obj = Session
      then Some (Inr (map_option (\<lambda>own. (own, ''data'')) (getOwner w obj)))
      else (case getOwner w obj of
          None \<Rightarrow> Some (Inl AttributeError)
        | Some own \<Rightarrow> acl_target w own (site_class w obj \<noteq> Access_Controller)))"

definition aclChanged :: "'o site \<Rightarrow> 'o \<Rightarrow> 'o ctx option \<Rightarrow> (exn + 'o ctx option) option" where
  "aclChanged w obj cx = (case acl_target w obj False of
       None \<Rightarrow> None
     | Some (Inl e) \<Rightarrow> Some (Inl e)
     | Some (Inr None) \<Rightarrow> Some (Inr cx)
     | Some (Inr (Some (t, what))) \<Rightarrow> Some (Inr (objectInfoChanged w t what cx)))"

definition accessDomainChanged :: "'o site \<Rightarrow> 'o \<Rightarrow> 'o ctx option \<Rightarrow> 'o ctx option" where
  "accessDomainChanged w obj = objectInfoChanged w obj ''acl''"

section \<open>The end of a request\<close>

definition objectExcluded :: "'o site \<Rightarrow> 'o \<Rightarrow> bool" where
  "objectExcluded w obj =
     (case site_class w obj of
        SessionSlot \<Rightarrow> True
      | Category \<Rightarrow> getId w obj \<in> set (excludedCategories w)
      | Conference \<Rightarrow> (case getOwner w obj of
            None \<Rightarrow> False | Some own \<Rightarrow> getId w own \<in> set (excludedCategories w))
      | _ \<Rightarrow> (case getParent w obj of
            None \<Rightarrow> False
          | Some _ \<Rightarrow> (case getConference w obj of
              None \<Rightarrow> False
            | Some conf \<Rightarrow> (case getOwner w conf of
                None \<Rightarrow> False | Some own \<Rightarrow> getId w own \<in> set (excludedCategories w)))))"

text \<open>The body of the loop over the collected actions; an object without an id raises.\<close>

definition finish_object ::
  "('o \<Rightarrow> 'o \<Rightarrow> int) \<Rightarrow> 'o site \<Rightarrow> int \<Rightarrow> 'o ctx \<Rightarrow> 'o \<Rightarrow> string list \<Rightarrow> (('o, 'w) sync, unit) prog" where
  "finish_object ocmp w ts c obj names = (case cx_ids c obj of
       None \<Rightarrow> raise_exn KeyError
     | Some objId \<Rightarrow> when_do (\<not> objectExcluded w obj)
         (sync_add ocmp ts \<lparr>aw_timestamp = ts, aw_obj = obj, aw_actions = names, aw_objId = objId\<rparr>))"

definition requestFinished ::
  "('o \<Rightarrow> 'o \<Rightarrow> int) \<Rightarrow> 'o site \<Rightarrow> int \<Rightarrow> 'o ctx option \<Rightarrow> (('o, 'w) sync, unit) prog" where
  "requestFinished ocmp w ts cx = (case cx of
       None \<Rightarrow> ret ()
     | Some c \<Rightarrow> for_each (cx_actions c) (\<lambda>(obj, names). finish_object ocmp w ts c obj names))"

section \<open>Lemmas\<close>

lemma set_names_add: "set (names_add new old) = set new \<union> set old"
  unfolding names_add_def
proof (induction new arbitrary: old)
  case (Cons x new)
  have "set (ts_add py_cmp x old) = insert x (set old)" by (rule linord.ts_set_add) auto
  with Cons.IH [of "ts_add py_cmp x old"] show ?case by simp
qed simp

text \<open>What the context holds of an object.\<close>

definition collected :: "'o ctx option \<Rightarrow> 'o \<Rightarrow> string set" where
  "collected cx obj = (case cx of None \<Rightarrow> {} | Some c \<Rightarrow> set (dict_get obj (cx_actions c) []))"

lemma collected_add:
  "collected (add_actions w obj names (Some c)) x = (if x = obj then set names else {}) \<union> collected (Some c) x"
  by (auto simp: collected_def add_actions_def Let_def dict_get_def map_of_dict_set set_names_add split: option.splits if_splits)

text \<open>Climbing ends when some rank goes down along the owners.\<close>

lemma acl_target_ends:
  assumes "\<And>x y. getOwner w x = Some y \<Longrightarrow> rank y < (rank x :: nat)"
  shows "\<exists>r. acl_target w obj child = Some r"
proof (induction "rank obj" arbitrary: obj child rule: less_induct)
  case less
  show ?case
    by (subst acl_target.simps) (auto split: option.split intro: less assms)
qed

text \<open>At the end of a request the collected actions are on the track, in the slot of the request.\<close>

definition action_of :: "int \<Rightarrow> 'o ctx \<Rightarrow> 'o \<Rightarrow> string list \<Rightarrow> 'o action" where
  "action_of ts c obj names = \<lparr>aw_timestamp = ts, aw_obj = obj, aw_actions = names, aw_objId = the (cx_ids c obj)\<rparr>"

definition finished :: "'o site \<Rightarrow> int \<Rightarrow> 'o ctx \<Rightarrow> ('o \<times> string list) list \<Rightarrow> 'o action set" where
  "finished w ts c l = (\<lambda>(obj, names). action_of ts c obj names) ` {p \<in> set l. \<not> objectExcluded w (fst p)}"

lemma finished_simps [simp]:
  "finished w ts c [] = {}"
  "finished w ts c ((obj, names) # l) =
    (if objectExcluded w obj then {} else {action_of ts c obj names}) \<union> finished w ts c l"
  by (auto simp: finished_def)

lemma finish_one:
  assumes "granularity s \<noteq> 0" "entry_kind (set_append (aw_cmp ocmp)) ok valid"
    "entry_kind.entries_ok ok (sync_track s)" "cx_ids c obj \<noteq> None" "valid (action_of ts c obj names)"
  shows "\<exists>s'. finish_object ocmp w ts c obj names s = (Inr (), s') \<and> granularity s' = granularity s
    \<and> entry_kind.entries_ok ok (sync_track s')
    \<and> (\<forall>n e. e \<in> set (entry n (sync_track s')) \<longleftrightarrow> e \<in> set (entry n (sync_track s))
        \<or> n = ts div granularity s \<and> \<not> objectExcluded w obj \<and> e = action_of ts c obj names)"
proof -
  obtain objId where i: "cx_ids c obj = Some objId" using assms(4) by auto
  let ?x = "action_of ts c obj names" and ?n = "ts div granularity s"
  obtain t where t: "track_add (set_append (aw_cmp ocmp)) ?n ?x (sync_track s) = (Inr (), t)"
    using track_add_run [of "set_append (aw_cmp ocmp)" ?n ?x "sync_track s"] by blast
  have run: "finish_object ocmp w ts c obj names s
      = (Inr (), if objectExcluded w obj then s else s\<lparr>sync_track := t\<rparr>)"
    using t i assms(1) by (simp add: finish_object_def when_do_def sync_add_def on_track_def zoom_def action_of_def prog_simps)
  show ?thesis
    unfolding run
    using entry_kind.add_ok [OF assms(2,3,5), of ?n] entry_kind.add_entry [OF assms(2,3,5), of _ _ ?n] assms(3) t
    by simp
qed

lemma finish_adds:
  assumes "granularity s \<noteq> 0" "entry_kind (set_append (aw_cmp ocmp)) ok valid"
    "entry_kind.entries_ok ok (sync_track s)"
    "\<forall>(obj, names) \<in> set l. cx_ids c obj \<noteq> None \<and> valid (action_of ts c obj names)"
  shows "\<exists>s'. for_each l (\<lambda>(obj, names). finish_object ocmp w ts c obj names) s = (Inr (), s')
    \<and> (\<forall>n e. e \<in> set (entry n (sync_track s')) \<longleftrightarrow> e \<in> set (entry n (sync_track s))
        \<or> n = ts div granularity s \<and> e \<in> finished w ts c l)"
  using assms(1,3,4)
proof (induction l arbitrary: s)
  case (Cons p l)
  obtain obj names where p: "p = (obj, names)" by fastforce
  have h: "cx_ids c obj \<noteq> None" "valid (action_of ts c obj names)" using Cons.prems(3) p by auto
  obtain s1 where s1: "finish_object ocmp w ts c obj names s = (Inr (), s1)" "granularity s1 = granularity s"
    "entry_kind.entries_ok ok (sync_track s1)"
    "\<And>n e. e \<in> set (entry n (sync_track s1)) \<longleftrightarrow> e \<in> set (entry n (sync_track s))
        \<or> n = ts div granularity s \<and> \<not> objectExcluded w obj \<and> e = action_of ts c obj names"
    using finish_one [OF Cons.prems(1) assms(2) Cons.prems(2) h, of w] by blast
  have g: "granularity s1 \<noteq> 0" using s1(2) Cons.prems(1) by simp
  have r: "\<forall>(obj, names) \<in> set l. cx_ids c obj \<noteq> None \<and> valid (action_of ts c obj names)"
    using Cons.prems(3) by simp
  from Cons.IH [OF g s1(3) r] obtain s' where
    s': "for_each l (\<lambda>(obj, names). finish_object ocmp w ts c obj names) s1 = (Inr (), s')"
    "\<And>n e. e \<in> set (entry n (sync_track s')) \<longleftrightarrow> e \<in> set (entry n (sync_track s1))
        \<or> n = ts div granularity s \<and> e \<in> finished w ts c l"
    unfolding s1(2) by blast
  have "for_each (p # l) (\<lambda>(obj, names). finish_object ocmp w ts c obj names) s = (Inr (), s')"
    using s'(1) s1(1) by (simp add: p prog_simps)
  then show ?case by (auto simp: s'(2) s1(4) p)
qed (simp add: prog_simps)

end
