(* ===== verification/Sync_Objects.thy ===== *)
theory Sync_Objects
  imports Sync_Listener "HOL-Library.Product_Lexorder"
begin

text \<open>
  How the objects of the event model compare (\<open>__cmp__\<close> of \<open>MaKaC/conference.py\<close>), which decides the
  order of the actions in the set of a slot.  Objects of one class compare by the conference and the
  id; objects of different classes by their hash, that is by their place in memory; objects whose class
  has no \<open>__cmp__\<close> by their address.

  A set of objects of one exact class is totally ordered, so that an action on each of them is kept
  once.  Objects of different classes may be ordered in a circle.
\<close>

section \<open>The comparison\<close>

text \<open>
  \<open>ob_type\<close> is the exact class (\<open>AcceptedContribution\<close> is not \<open>Contribution\<close>), \<open>ob_class\<close> the one
  whose \<open>__cmp__\<close> the object has; \<open>ob_hash None\<close> is the hash of \<open>None\<close>.
\<close>

record 'o memory =
  ob_class :: "'o \<Rightarrow> obj_class"
  ob_type :: "'o \<Rightarrow> string"
  ob_id :: "'o \<Rightarrow> string"
  ob_conf :: "'o \<Rightarrow> 'o option"
  ob_hash :: "'o option \<Rightarrow> int"
  ob_addr :: "'o \<Rightarrow> int"

definition hash_cmp :: "'o memory \<Rightarrow> 'o option \<Rightarrow> 'o option \<Rightarrow> int" where
  "hash_cmp m x y = py_cmp (ob_hash m x) (ob_hash m y)"

definition category_cmp :: "'o memory \<Rightarrow> 'o \<Rightarrow> 'o \<Rightarrow> int" where
  "category_cmp m x y =
     (if ob_type m x \<noteq> ob_type m y then hash_cmp m (Some x) (Some y)
      else py_cmp (ob_id m x) (ob_id m y))"

definition conference_cmp :: "'o memory \<Rightarrow> 'o \<Rightarrow> 'o \<Rightarrow> int" where
  "conference_cmp m x y =
     (if ob_class m y = Conference then py_cmp (ob_id m x) (ob_id m y)
      else hash_cmp m (Some x) (Some y))"

text \<open>\<open>cmp(self.getConference(), other.getConference())\<close> for two conferences that are not the same.\<close>

definition of_conferences_cmp :: "'o memory \<Rightarrow> 'o option \<Rightarrow> 'o option \<Rightarrow> int" where
  "of_conferences_cmp m c d = (case (c, d) of
       (Some c', Some d') \<Rightarrow> conference_cmp m c' d' | _ \<Rightarrow> hash_cmp m c d)"

definition session_cmp :: "'o memory \<Rightarrow> 'o \<Rightarrow> 'o \<Rightarrow> int" where
  "session_cmp m x y =
     (if ob_type m x \<noteq> ob_type m y then hash_cmp m (Some x) (Some y)
      else if ob_conf m x = ob_conf m y then py_cmp (ob_id m x) (ob_id m y)
      else of_conferences_cmp m (ob_conf m x) (ob_conf m y))"

definition contribution_cmp :: "'o memory \<Rightarrow> 'o \<Rightarrow> 'o \<Rightarrow> int" where
  "contribution_cmp m x y =
     (if ob_type m x \<noteq> ob_type m y then hash_cmp m (Some x) (Some y)
      else if ob_conf m x = ob_conf m y then py_cmp (ob_id m x) (ob_id m y)
      else of_conferences_cmp m (ob_conf m x) (ob_conf m y))"

text \<open>
  \<open>cmp(x, y)\<close>: the method of the left object, else that of the right one with the sign turned, else
  the addresses (for objects of one class).
\<close>

definition has_cmp :: "obj_class \<Rightarrow> bool" where
  "has_cmp c \<longleftrightarrow> c \<in> {Category, Conference, Session, Contribution}"

definition own_cmp :: "'o memory \<Rightarrow> 'o \<Rightarrow> 'o \<Rightarrow> int" where
  "own_cmp m x y = (case ob_class m x of
       Category \<Rightarrow> category_cmp m x y
     | Conference \<Rightarrow> conference_cmp m x y
     | Session \<Rightarrow> session_cmp m x y
     | _ \<Rightarrow> contribution_cmp m x y)"

definition obj_cmp :: "'o memory \<Rightarrow> 'o \<Rightarrow> 'o \<Rightarrow> int" where
  "obj_cmp m x y =
     (if has_cmp (ob_class m x) then own_cmp m x y
      else if has_cmp (ob_class m y) then - own_cmp m y x
      else py_cmp (ob_addr m x) (ob_addr m y))"

section \<open>Objects of one class\<close>

text \<open>A comparison by a key that tells the objects apart is a separating order.\<close>

lemma cmp_sep_key:
  assumes "inj_on k C" "\<And>x y. x \<in> C \<Longrightarrow> y \<in> C \<Longrightarrow> cmp x y = py_cmp (k x) (k y :: 'k :: linorder)"
  shows "cmp_sep cmp C"
proof
  fix x y z
  show "x \<in> C \<Longrightarrow> cmp x x = 0" by (simp add: assms(2))
  show "x \<in> C \<Longrightarrow> y \<in> C \<Longrightarrow> 0 < cmp x y \<longleftrightarrow> cmp y x < 0" by (simp add: assms(2))
  show "x \<in> C \<Longrightarrow> y \<in> C \<Longrightarrow> z \<in> C \<Longrightarrow> cmp x y < 0 \<Longrightarrow> cmp y z < 0 \<Longrightarrow> cmp x z < 0" by (simp add: assms(2))
  show "x \<in> C \<Longrightarrow> y \<in> C \<Longrightarrow> cmp x y = 0 \<Longrightarrow> x = y" using assms by (simp add: inj_on_def)
qed

text \<open>What tells an object from the others of its class.\<close>

definition obj_key :: "'o memory \<Rightarrow> 'o \<Rightarrow> string \<times> string \<times> int" where
  "obj_key m x =
     (if ob_class m x \<in> {Category, Conference} then ([], ob_id m x, 0)
      else if has_cmp (ob_class m x) then
        (case ob_conf m x of None \<Rightarrow> [] | Some c \<Rightarrow> ob_id m c, ob_id m x, 0)
      else ([], [], ob_addr m x))"

text \<open>
  \<open>alike m C\<close>: objects of one exact class, with different keys; sessions and contributions lie in a
  conference, and conferences with the same id are the same.
\<close>

definition alike :: "'o memory \<Rightarrow> 'o set \<Rightarrow> bool" where
  "alike m C \<longleftrightarrow> inj_on (obj_key m) C
     \<and> (\<forall>x \<in> C. \<forall>y \<in> C. ob_type m x = ob_type m y \<and> ob_class m x = ob_class m y)
     \<and> (\<forall>x \<in> C. ob_class m x \<in> {Session, Contribution} \<longrightarrow>
          (\<exists>c. ob_conf m x = Some c \<and> ob_class m c = Conference
            \<and> (\<forall>y \<in> C. \<forall>d. ob_conf m y = Some d \<longrightarrow> ob_id m c = ob_id m d \<longrightarrow> c = d)))"

lemma py_cmp_prod: "py_cmp (a, b) (c, d) = (if a = c then py_cmp b d else py_cmp a c)"
  by (auto simp: py_cmp_def)

theorem alike_sep:
  assumes "alike m C"
  shows "cmp_sep (obj_cmp m) C"
proof (rule cmp_sep_key [of "obj_key m"])
  show "inj_on (obj_key m) C" using assms by (simp add: alike_def)
  fix x y assume xy: "x \<in> C" "y \<in> C"
  then have same: "ob_type m x = ob_type m y" "ob_class m x = ob_class m y"
    using assms unfolding alike_def by blast+
  show "obj_cmp m x y = py_cmp (obj_key m x) (obj_key m y)"
  proof (cases "ob_class m y \<in> {Session, Contribution}")
    case True
    have "\<forall>x \<in> C. ob_class m x \<in> {Session, Contribution} \<longrightarrow>
          (\<exists>c. ob_conf m x = Some c \<and> ob_class m c = Conference
            \<and> (\<forall>y \<in> C. \<forall>d. ob_conf m y = Some d \<longrightarrow> ob_id m c = ob_id m d \<longrightarrow> c = d))"
      using assms unfolding alike_def by (elim conjE)
    then obtain c d where c: "ob_conf m x = Some c" "ob_conf m y = Some d" "ob_class m d = Conference"
      "ob_id m c = ob_id m d \<Longrightarrow> c = d"
      using True xy same by metis
    have k: "obj_key m x = (ob_id m c, ob_id m x, 0)" "obj_key m y = (ob_id m d, ob_id m y, 0)"
      using True same c(1,2) by (auto simp: obj_key_def has_cmp_def)
    have "obj_cmp m x y = (if c = d then py_cmp (ob_id m x) (ob_id m y) else py_cmp (ob_id m c) (ob_id m d))"
      using True same c(1-3)
      by (elim insertE emptyE) (simp_all add: obj_cmp_def has_cmp_def own_cmp_def session_cmp_def
          contribution_cmp_def of_conferences_cmp_def conference_cmp_def)
    then show ?thesis using c(4) unfolding k py_cmp_prod by (cases "c = d") auto
  next
    case False
    show ?thesis
    proof (cases "ob_class m y \<in> {Category, Conference}")
      case True
      then show ?thesis
        using same by (elim insertE emptyE) (simp_all add: obj_cmp_def has_cmp_def own_cmp_def category_cmp_def
            conference_cmp_def obj_key_def py_cmp_prod)
    next
      case other: False
      then have "\<not> has_cmp (ob_class m y)" using False by (simp add: has_cmp_def)
      then show ?thesis using other same by (simp add: obj_cmp_def obj_key_def py_cmp_prod)
    qed
  qed
qed

text \<open>For example the conferences of a site, whose ids are unique.\<close>

definition conferences_memory :: "string memory" where
  "conferences_memory = \<lparr>ob_class = (\<lambda>_. Conference), ob_type = (\<lambda>_. ''Conference''), ob_id = (\<lambda>i. i),
     ob_conf = (\<lambda>_. None), ob_hash = (\<lambda>_. 0), ob_addr = (\<lambda>_. 0)\<rparr>"

interpretation conferences: cmp_sep "obj_cmp conferences_memory" UNIV
  by (rule alike_sep) (auto simp: alike_def conferences_memory_def obj_key_def inj_on_def)

section \<open>Actions\<close>

text \<open>The id that is recorded with an object is its \<open>uid\<close>.\<close>

definition own_actions :: "('o \<Rightarrow> string) \<Rightarrow> 'o set \<Rightarrow> 'o action set" where
  "own_actions uid C = {x. aw_obj x \<in> C \<and> aw_objId x = uid (aw_obj x)}"

text \<open>Comparing actions: equal ones are the same action.\<close>

lemma aw_sep:
  assumes "cmp_sep ocmp C"
  shows "cmp_sep (aw_cmp ocmp) (own_actions uid C)"
proof -
  note o = cmp_order.cmp_refl [OF cmp_sep.axioms(1) [OF assms]] cmp_order.cmp_flip [OF cmp_sep.axioms(1) [OF assms]]
    cmp_order.cmp_less_trans [OF cmp_sep.axioms(1) [OF assms]]
  have oeq: "x \<in> C \<Longrightarrow> y \<in> C \<Longrightarrow> ocmp x y = 0 \<longleftrightarrow> x = y" for x y
    using cmp_sep.cmp_eq [OF assms, of x y] o(1) by auto
  show ?thesis
  proof
    fix x y z :: "'a action"
    show "x \<in> own_actions uid C \<Longrightarrow> aw_cmp ocmp x x = 0" by (simp add: aw_cmp_def o(1) own_actions_def)
    show "x \<in> own_actions uid C \<Longrightarrow> y \<in> own_actions uid C \<Longrightarrow> 0 < aw_cmp ocmp x y \<longleftrightarrow> aw_cmp ocmp y x < 0"
      by (auto simp: aw_cmp_def Let_def oeq o(2) own_actions_def)
    show "x \<in> own_actions uid C \<Longrightarrow> y \<in> own_actions uid C \<Longrightarrow> z \<in> own_actions uid C
      \<Longrightarrow> aw_cmp ocmp x y < 0 \<Longrightarrow> aw_cmp ocmp y z < 0 \<Longrightarrow> aw_cmp ocmp x z < 0"
      using o(3) [of "aw_obj x" "aw_obj y" "aw_obj z"]
      by (auto simp: aw_cmp_def Let_def oeq o(1) own_actions_def split: if_splits)
    show "x \<in> own_actions uid C \<Longrightarrow> y \<in> own_actions uid C \<Longrightarrow> aw_cmp ocmp x y = 0 \<Longrightarrow> x = y"
      by (cases x; cases y) (auto simp: aw_cmp_def Let_def oeq own_actions_def split: if_splits)
  qed
qed

end
