(* ===== verification/Sync_Props.thy ===== *)
theory Sync_Props
  imports Sync_Delivery Sync_Objects
begin

text \<open>The properties of LiveSync, each with a concrete instance.\<close>

section \<open>Delivery\<close>

lemma count_pairs: "count (image_mset (Pair k) M) (k', e) = (if k' = k then count M e else 0)"
  by (induction M) auto

lemma count_items:
  assumes "track_wf t"
  shows "count (mset (items P t)) (k, e) = (if P k then count (mset (entry k t)) e else 0)"
proof -
  have "count (mset (concat (map (\<lambda>(k, es). map (\<lambda>e. (ts_int k, e)) es) (filter (\<lambda>(k, _). P (ts_int k)) m)))) (k, e)
      = (if P k then count (mset (case bt_get (TS k) m of None \<Rightarrow> [] | Some es \<Rightarrow> es)) e else 0)"
    if "bt_wf m" for m :: "(timestamp \<times> 'a list) list"
    using that
  proof (induction m)
    case (Cons q m)
    obtain n es where q: "q = (TS n, es)" by (metis surj_pair timestamp.exhaust)
    have wf: "bt_wf m" and gt: "\<forall>(k', _) \<in> set m. TS n < k'" using Cons.prems q by (auto simp: bt_wf_def)
    have "bt_get (TS n) m = None"
      using gt by (cases "bt_get (TS n) m") (auto dest: bt_get_Some_mem)
    then show ?case
      using Cons.IH [OF wf] q by (auto simp: bt_get_def count_pairs)
  qed (simp add: bt_get_def)
  with assms show ?thesis by (simp add: items_def entry_def track_wf_def)
qed

text \<open>C4.  In every reachable state what an agent has processed are the actions of one interval of
  slots that ends at its pointer, each exactly as many times as the set of its slot holds it, and
  nothing else, whatever comparison the objects had when they were put into the sets.\<close>

theorem exactly_once:
  assumes "live_reach g l" "pointers (sync_track (l_sync l)) i = Some (Some q)"
  shows "\<exists>b. \<forall>k e. count (mset (remote (l_sync l) i)) (k, e) =
    (if after b k \<and> k \<le> q then count (mset (entry k (sync_track (l_sync l)))) e else 0)"
proof -
  let ?s = "l_sync l"
  have inv: "live_inv g (l_now l) ?s" by (rule live_reach_inv [OF assms(1)])
  then have "log_ok (l_now l div g) (sync_track ?s) (Some q) (remote ?s i)" "track_wf (sync_track ?s)"
    using assms(2) by (simp_all add: live_inv_def)
  then obtain b where "mset (remote ?s i) = mset (items (\<lambda>k. after b k \<and> k \<le> q) (sync_track ?s))" "track_wf (sync_track ?s)"
    by (auto simp: log_ok_def)
  then show ?thesis by (intro exI [of _ b]) (simp add: count_items)
qed

text \<open>One agent, one action in slot 2, and a run in slot 10, with slots of one second.\<close>

definition sample_agent :: agent where
  "sample_agent = new_agent ''a'' ''a'' [] 60"

definition sample_act :: "nat action" where
  "sample_act = \<lparr>aw_timestamp = 2, aw_obj = 5, aw_actions = [''created''], aw_objId = []\<rparr>"

definition live1 :: "nat live" where
  "live1 = (live_start 1 2)\<lparr>l_sync := snd (registerNewAgent sample_agent
     ((l_sync (live_start 1 2))\<lparr>remote := (remote (l_sync (live_start 1 2)))(ag_id sample_agent := [])\<rparr>))\<rparr>"

definition live2 :: "nat live" where
  "live2 = live1\<lparr>l_sync := snd (upd_agent ''a'' (setActive True) (l_sync live1))\<rparr>"

definition live3 :: "nat live" where
  "live3 = live2\<lparr>l_sync := snd (sync_add py_cmp (l_now live2) sample_act (l_sync live2))\<rparr>"

definition live4 :: "nat live" where
  "live4 = live3\<lparr>l_now := 10\<rparr>"

definition live5 :: "nat live" where
  "live5 = live4\<lparr>l_sync := snd (update_task (process (\<lambda>_. Succeeds)) (l_now live4) (l_sync live4))\<rparr>"

lemma live_reached: "live_reach 1 live4" "live_reach 1 live5"
proof -
  have 1: "live_reach 1 live1"
    unfolding live1_def
    by (rule live_reach.step [OF live_reach.start live_step.register])
      (simp_all add: live_start_def new_sync_def)
  have 2: "live_reach 1 live2"
    unfolding live2_def by (rule live_reach.step [OF 1 live_step.activate])
  have 3: "live_reach 1 live3"
    unfolding live3_def by (rule live_reach.step [OF 2 live_step.act])  show 4: "live_reach 1 live4"
    unfolding live4_def
    by (rule live_reach.step [OF 3 live_step.tick])
      (simp add: live3_def live2_def live1_def live_start_def)
  show "live_reach 1 live5"
    unfolding live5_def by (rule live_reach.step [OF 4 live_step.task])
qed

lemma live4_eq:
  "l_now live4 = 10"
  "agents (l_sync live4) = [(''a'', sample_agent\<lparr>ag_active := True, ag_managed := True\<rparr>)]"
  "pointers (sync_track (l_sync live4)) ''a'' = Some None"
  "container (sync_track (l_sync live4)) = [(TS 2, [sample_act])]"
  "granularity (l_sync live4) = 1" "remote (l_sync live4) = (\<lambda>_. [])"
  by (simp_all add: live4_def live3_def live2_def live1_def live_start_def new_sync_def new_track_def
      registerNewAgent_def on_track_def zoom_def addPointer_def upd_agent_def setActive_def sync_add_def
      track_add_def prepareEntry_def track_getitem_def when_do_def prog_simps sample_agent_def new_agent_def
      set_append_def bt_get_def fun_eq_iff)

lemma live5_pointer: "pointers (sync_track (l_sync live5)) ''a'' = Some (Some 9)"
  by (simp add: live5_def update_task_def live4_eq agent_run_def run_till_def getPointerTimestamp_def
      query_def pointerIterItems_def iterate_def entries_def process_def deliver_def on_remote_def zoom_def
      upd_agent_def catch_exn_def acknowledge_def advance_def on_track_def movePointer_def is_empty_def
      when_do_def Let_def prog_simps)

theorem exactly_once_witness:
  "\<exists>b. \<forall>k e. count (mset (remote (l_sync live5) ''a'')) (k, e) =
    (if after b k \<and> k \<le> 9 then count (mset (entry k (sync_track (l_sync live5)))) e else 0)"
  by (rule exactly_once [OF live_reached(2) live5_pointer])

text \<open>C23.  A run of an agent whose processing succeeds, at any reachable time with anything on the
  track, is handed exactly what lies in the slots after that of its pointer up to the last complete
  one, newest first, and the acknowledgement moves the pointer to that slot.  What the slot of the
  pointer itself holds is not handed over.\<close>

theorem run_delivers:
  assumes "live_reach g l"
    "map_of (agents (l_sync l)) i = Some a" "ag_managed a" "pointers (sync_track (l_sync l)) i = Some p"
    "\<not> is_empty (sync_track (l_sync l))" "out i = Succeeds"
  shows "\<exists>s' s'' data n. n = l_now l div g - 1 \<and> agent_run (process out i) i (Some (l_now l)) (l_sync l) = (Inr (Some n), s')
    \<and> acknowledge i s' = (Inr (), s'') \<and> remote s'' i = remote (l_sync l) i @ data
    \<and> set data = {(k, e). after p k \<and> k \<le> n \<and> e \<in> set (entry k (sync_track (l_sync l)))}
    \<and> sorted_wrt (\<ge>) (map fst data) \<and> pointers (sync_track s'') i = Some (Some n)"
proof -
  let ?s = "l_sync l" and ?n = "l_now l div g - 1"
  let ?data = "items (\<lambda>k. after p k \<and> k \<le> ?n) (sync_track ?s)"
  let ?s' = "?s\<lparr>agents := map (\<lambda>(k, a). (k, if k = i then a\<lparr>ag_lastTry := Some ?n\<rparr> else a)) (agents ?s),
        remote := (remote ?s)(i := remote ?s i @ ?data)\<rparr>"
  have inv: "live_inv g (l_now l) ?s" by (rule live_reach_inv [OF assms(1)])
  have run: "agent_run (process out i) i (Some (l_now l)) ?s = (Inr (Some ?n), ?s')"
    using run_cases [OF inv assms(2-4), of out] assms(6) by simp
  have ag: "map_of (agents ?s') i = Some (a\<lparr>ag_lastTry := Some ?n\<rparr>)" using assms(2) by (simp add: map_of_upd)
  have ack: "acknowledge i ?s' = (Inr (), ?s'\<lparr>sync_track := (sync_track ?s)\<lparr>pointers := (pointers (sync_track ?s))(i := Some (Some ?n))\<rparr>\<rparr>)"
    using ack_run [OF ag] assms(3-5) by simp
  have wf: "track_wf (sync_track ?s)" using inv by (simp add: live_inv_def)
  have "set ?data = {(k, e). after p k \<and> k \<le> ?n \<and> e \<in> set (entry k (sync_track ?s))}"
    using set_items [OF wf] by auto
  with run ack items_sorted [OF wf] show ?thesis
    by (intro exI [of _ ?s'] exI [of _ "?s'\<lparr>sync_track := (sync_track ?s)\<lparr>pointers := (pointers (sync_track ?s))(i := Some (Some ?n))\<rparr>\<rparr>"]
        exI [of _ ?data] exI [of _ ?n]) simp
qed

theorem run_delivers_witness:
  "\<exists>s' s'' data n. n = l_now live4 div 1 - 1
    \<and> agent_run (process (\<lambda>_. Succeeds) ''a'') ''a'' (Some (l_now live4)) (l_sync live4) = (Inr (Some n), s')
    \<and> acknowledge ''a'' s' = (Inr (), s'') \<and> remote s'' ''a'' = remote (l_sync live4) ''a'' @ data
    \<and> set data = {(k, e). after None k \<and> k \<le> n \<and> e \<in> set (entry k (sync_track (l_sync live4)))}
    \<and> sorted_wrt (\<ge>) (map fst data) \<and> pointers (sync_track s'') ''a'' = Some (Some n)"
  by (rule run_delivers [OF live_reached(1), where i = "''a''" and p = None
      and a = "sample_agent\<lparr>ag_active := True, ag_managed := True\<rparr>" and out = "\<lambda>_. Succeeds"])
    (simp_all add: live4_eq is_empty_def sample_agent_def new_agent_def)

text \<open>C36.  When an agent is activated while the track is not empty and an action follows in the same
  slot, the action is recorded in that slot, but no query of the agent with an upper bound other than
  -1 yields anything of the slot.\<close>

theorem activation_slot_lost:
  assumes "live_reach g l" "pointers (sync_track (l_sync l)) i \<noteq> None" "\<not> is_empty (sync_track (l_sync l))"
    "l_now l div g = t' div g" "n \<noteq> - 1"
  shows "\<exists>s' s'' data. preActivate i (Some (l_now l div granularity (l_sync l))) (l_sync l) = (Inr (), s')
    \<and> sync_add ocmp t' x s' = (Inr (), s'') \<and> entry (t' div g) (sync_track s'') \<noteq> []
    \<and> query (Some i) (Some n) s'' = Inr data \<and> (\<forall>e. (t' div g, e) \<notin> set data)"
proof -
  let ?s = "l_sync l" and ?n = "l_now l div g"
  have inv: "live_inv g (l_now l) ?s" by (rule live_reach_inv [OF assms(1)])
  then have g: "granularity ?s = g" "g \<noteq> 0" and slot: "2 \<le> ?n" and wf: "track_wf (sync_track ?s)"
    using two_slots by (auto simp: live_inv_def)
  let ?T = "(sync_track ?s)\<lparr>pointers := (pointers (sync_track ?s))(i := Some (Some ?n))\<rparr>"
  let ?as = "map (\<lambda>(k, a). (k, if k = i then a\<lparr>ag_recording := True\<rparr> else a)) (agents ?s)"
  let ?s' = "?s\<lparr>sync_track := ?T, agents := ?as\<rparr>"
  have pre: "preActivate i (Some (l_now l div granularity ?s)) ?s = (Inr (), ?s')"
    using assms(2,3) by (simp add: preActivate_def on_track_def zoom_def movePointer_def catch_exn_def
        upd_agent_def prog_simps is_empty_def g)
  obtain c where c: "track_add (set_append (aw_cmp ocmp)) (t' div g) x ?T = (Inr (), ?T\<lparr>container := c\<rparr>)"
    "bt_wf (container ?T) \<longrightarrow> bt_wf c" "\<forall>m. entry m (?T\<lparr>container := c\<rparr>)
      = (if m = t' div g then set_append (aw_cmp ocmp) x (entry (t' div g) ?T) else entry m ?T)"
    using track_add_run [of "set_append (aw_cmp ocmp)" "t' div g" x ?T] by blast
  let ?s'' = "?s'\<lparr>sync_track := ?T\<lparr>container := c\<rparr>\<rparr>"
  have add: "sync_add ocmp t' x ?s' = (Inr (), ?s'')"
    using c(1) g by (simp add: sync_add_def on_track_def zoom_def prog_simps)
  have wf'': "track_wf (?T\<lparr>container := c\<rparr>)" using wf c(2) by (simp add: track_wf_def)
  have "query (Some i) (Some n) ?s'' = Inr (items (\<lambda>k. after (Some ?n) k \<and> k \<le> n) (?T\<lparr>container := c\<rparr>))"
    using iterate_after [OF wf'', of "Some ?n" n] slot assms(5)
    by (simp add: query_def pointerIterItems_def getPointerTimestamp_def)
  moreover have "(t' div g, e) \<notin> set (items (\<lambda>k. after (Some ?n) k \<and> k \<le> n) (?T\<lparr>container := c\<rparr>))" for e
    using set_items [OF wf'', of "t' div g" e] assms(4) by simp
  moreover have "entry (t' div g) (sync_track ?s'') \<noteq> []" using c(3) by (simp add: set_append_def)
  ultimately show ?thesis using pre add by blast
qed

theorem activation_slot_lost_witness:
  "\<exists>s' s'' data. preActivate ''a'' (Some (l_now live4 div granularity (l_sync live4))) (l_sync live4) = (Inr (), s')
    \<and> sync_add py_cmp 10 sample_act s' = (Inr (), s'') \<and> entry (10 div 1) (sync_track s'') \<noteq> []
    \<and> query (Some ''a'') (Some 30) s'' = Inr data \<and> (\<forall>e. (10 div 1, e) \<notin> set data)"
  by (rule activation_slot_lost [OF live_reached(1)]) (simp_all add: live4_eq is_empty_def)

text \<open>On an empty track the task raises as soon as an active agent's run succeeds: the pointer
  cannot be moved, and the agents after it get no turn.\<close>

theorem empty_track_stops_task:
  assumes "live_inv g t s" "container (sync_track s) = []" "agents s = (i, a) # as"
    "ag_active a" "ag_managed a" "pointers (sync_track s) i = Some p" "out i = Succeeds"
  shows "fst (update_task (process out) t s) = Inl EmptyTrackException"
proof -
  have m: "map_of (agents s) i = Some a" by (simp add: assms(3))
  obtain s' where s': "agent_run (process out i) i (Some t) s = (Inr (Some (t div g - 1)), s')"
    "map_of (agents s') i = Some (a\<lparr>ag_lastTry := Some (t div g - 1)\<rparr>)" "sync_track s' = sync_track s"
    using run_cases [OF assms(1) m assms(5,6), of out] assms(7) by (auto simp: map_of_upd m)
  have "acknowledge i s' = (Inl EmptyTrackException, s')"
    using ack_run [OF s'(2)] assms(2,5,6) s'(3) by (simp add: is_empty_def)
  moreover have "t div g - 1 \<noteq> 0" using assms(1) two_slots [of g t] by (simp add: live_inv_def)
  ultimately show ?thesis
    using s'(1) m assms(4) by (simp add: update_task_def assms(3) catch_exn_def when_do_def prog_simps)
qed

definition quiet_sync :: "(nat, nat deliveries) sync" where
  "quiet_sync = (new_sync 1 (\<lambda>_. []))\<lparr>agents := [(''a'', sample_agent\<lparr>ag_active := True, ag_managed := True\<rparr>)],
     sync_track := new_track\<lparr>pointers := (\<lambda>_. None)(''a'' := Some None)\<rparr>\<rparr>"

theorem empty_track_stops_task_witness:
  "fst (update_task (process (\<lambda>_. Succeeds)) 5 quiet_sync) = Inl EmptyTrackException"
proof (rule empty_track_stops_task [where p = None
      and a = "sample_agent\<lparr>ag_active := True, ag_managed := True\<rparr>"])
  show "live_inv 1 5 quiet_sync"
    by (simp add: live_inv_def quiet_sync_def new_sync_def new_track_def track_wf_def bt_wf_def entry_def
        log_ok_def)
qed (simp_all add: quiet_sync_def new_sync_def new_track_def sample_agent_def new_agent_def)

text \<open>Asking for everything but the newest slot (\<open>till = -1\<close>) yields nothing at all.\<close>

theorem all_but_last_is_nothing:
  assumes "track_wf t" "\<not> is_empty t"
  shows "iterate p (Some (- 1)) t = Inr []"
  using iterate_minus_one [OF assms(1)] assms(2) by (simp add: is_empty_def)

section \<open>Records\<close>

text \<open>C22.  Reducing actions to records never raises and gives one record to each object that some
  action affects, whose state has exactly the bits that the actions give to the object, in whatever
  order they came, and which carries an id exactly when the object was deleted.\<close>

theorem records_reference:
  "\<exists>rs. computeRecords tr data = Inr rs \<and> distinct (map fst rs)
    \<and> (\<forall>obj. obj \<in> fst ` set rs \<longleftrightarrow> (\<exists>b \<in> bits3. given tr data obj b))
    \<and> (\<forall>(obj, i, s) \<in> set rs. s \<in> {0..<8} \<and> (\<forall>b \<in> bits3. s AND b \<noteq> 0 \<longleftrightarrow> given tr data obj b)
        \<and> (i \<noteq> None \<longleftrightarrow> given tr data obj STATUS_DELETED))"
proof -
  obtain recs del where
    run: "computeRecords tr data = Inr (map (\<lambda>(obj, s). (obj, if s AND STATUS_DELETED \<noteq> 0 then del obj else None, s)) recs)" and
    sh: "shows_bits recs (given tr data)" and del: "\<forall>obj. del obj \<noteq> None \<longleftrightarrow> given tr data obj STATUS_DELETED"
    using records_run [of tr data] by (elim exE conjE) (rule that)
  let ?rs = "map (\<lambda>(obj, s). (obj, if s AND STATUS_DELETED \<noteq> 0 then del obj else None, s)) recs"
  have keys: "map fst ?rs = map fst recs" by (simp add: case_prod_unfold o_def)
  then have fsts: "fst ` set ?rs = fst ` set recs" by (metis list.set_map)
  have rec: "s \<in> {0..<8} \<and> (\<forall>b \<in> bits3. s AND b \<noteq> 0 \<longleftrightarrow> given tr data obj b)
        \<and> (i \<noteq> None \<longleftrightarrow> given tr data obj STATUS_DELETED)" if "(obj, i, s) \<in> set ?rs" for obj i s
  proof -
    have m: "(obj, s) \<in> set recs" and i: "i = (if s AND STATUS_DELETED \<noteq> 0 then del obj else None)"
      using that by auto
    show ?thesis using shows_entry [OF sh m] changed_bit(2) del unfolding i by auto
  qed
  show ?thesis
  proof (intro exI [of _ ?rs] conjI run)
    show "distinct (map fst ?rs)" using sh unfolding keys by (simp add: shows_bits_def)
    show "\<forall>obj. obj \<in> fst ` set ?rs \<longleftrightarrow> (\<exists>b \<in> bits3. given tr data obj b)"
      unfolding fsts by (intro allI shows_dom sh)
    show "\<forall>(obj, i, s) \<in> set ?rs. s \<in> {0..<8} \<and> (\<forall>b \<in> bits3. s AND b \<noteq> 0 \<longleftrightarrow> given tr data obj b)
        \<and> (i \<noteq> None \<longleftrightarrow> given tr data obj STATUS_DELETED)"
      by (intro ballI) (simp only: split_paired_all prod.case, rule rec)
  qed
qed

definition sample_tree :: "nat tree" where
  "sample_tree = \<lparr>class_at = (\<lambda>n. if n = 1 then Conference else Contribution), allConferences = (\<lambda>_. []),
     contributionsOf = (\<lambda>n. if n = 1 then [5, 6] else []), subContributionsOf = (\<lambda>_. [])\<rparr>"

theorem records_reference_witness:
  "\<exists>rs. computeRecords sample_tree [(2, sample_act)] = Inr rs \<and> distinct (map fst rs)
    \<and> (\<forall>obj. obj \<in> fst ` set rs \<longleftrightarrow> (\<exists>b \<in> bits3. given sample_tree [(2, sample_act)] obj b))
    \<and> (\<forall>(obj, i, s) \<in> set rs. s \<in> {0..<8} \<and> (\<forall>b \<in> bits3. s AND b \<noteq> 0 \<longleftrightarrow> given sample_tree [(2, sample_act)] obj b)
        \<and> (i \<noteq> None \<longleftrightarrow> given sample_tree [(2, sample_act)] obj STATUS_DELETED))"
  by (rule records_reference)

section \<open>Uploads\<close>

definition log_batch :: "'r list \<Rightarrow> ('r list list, unit) prog" where
  "log_batch b = modify (\<lambda>w. w @ [b])"

lemma upload_loop_run:
  assumes "0 < n" "int (length batch) \<le> n" "batch = [] \<longrightarrow> bs = []"
    "\<forall>b \<in> set bs. int (length b) = n"
  shows "\<exists>bs' batch'. upload_loop log_batch n rs batch bs = (Inr batch', bs')
    \<and> concat bs' @ batch' = concat bs @ batch @ rs \<and> (\<forall>b \<in> set bs'. int (length b) = n)
    \<and> int (length batch') \<le> n \<and> (batch' = [] \<longrightarrow> bs' = [])"
  using assms
proof (induction rs arbitrary: batch bs)
  case (Cons r rs)
  show ?case
  proof (cases "int (length batch) > n - 1")
    case True
    then have "int (length batch) = n" using Cons.prems(2) by simp
    then show ?thesis
      using Cons.IH [of "[r]" "bs @ [batch]"] Cons.prems True by (auto simp: log_batch_def prog_simps)
  next
    case False
    then show ?thesis using Cons.IH [of "batch @ [r]" bs] Cons.prems by simp
  qed
qed (auto simp: ret_run)

text \<open>Uploading in batches of a positive size sends every record once, in order: all batches but
  the last are full, none is empty, and nothing is sent when there are no records.\<close>

theorem uploads_partition:
  assumes "0 < n"
  shows "\<exists>bs. iterateOver log_batch n rs [] = (Inr True, bs) \<and> concat bs = rs
    \<and> (\<forall>b \<in> set bs. b \<noteq> [] \<and> int (length b) \<le> n) \<and> (\<forall>b \<in> set (butlast bs). int (length b) = n)"
proof -
  obtain bs batch where u: "upload_loop log_batch n rs [] [] = (Inr batch, bs)" "concat bs @ batch = rs"
    "\<forall>b \<in> set bs. int (length b) = n" "int (length batch) \<le> n" "batch = [] \<longrightarrow> bs = []"
    using upload_loop_run [OF assms, of "[]" "[]" rs] assms by auto
  show ?thesis
  proof (cases "batch = []")
    case True
    with u show ?thesis by (auto simp: iterateOver_def when_do_def prog_simps)
  next
    case False
    with u assms show ?thesis by (auto simp: iterateOver_def when_do_def log_batch_def prog_simps)
  qed
qed

theorem uploads_partition_witness:
  "\<exists>bs. iterateOver log_batch 2 [1, 2, 3 :: nat] [] = (Inr True, bs) \<and> concat bs = [1, 2, 3]
    \<and> (\<forall>b \<in> set bs. b \<noteq> [] \<and> int (length b) \<le> 2) \<and> (\<forall>b \<in> set (butlast bs). int (length b) = 2)"
  by (rule uploads_partition) simp

section \<open>Requests\<close>


definition sample_site :: "nat site" where
  "sample_site = \<lparr>site_tree = sample_tree, uniqueId = (\<lambda>n. Some ''7''), getId = (\<lambda>_. ''7''), getOwner = (\<lambda>_. None),
     getParent = (\<lambda>_. None), getConference = (\<lambda>_. None), isProtected = (\<lambda>_. False),
     getAccessProtectionLevel = (\<lambda>_. 0), excludedCategories = []\<rparr>"

definition sample_ctx :: "nat ctx" where
  "sample_ctx = \<lparr>cx_actions = [(5, [''created'']), (6, [''data_changed''])], cx_ids = (\<lambda>_. Some [])\<rparr>"




text \<open>Objects of different classes in one slot can be ordered in a circle: two conferences, ordered
  by their ids, with a category that the memory places between them the other way round.  Then no
  object is the least, and the comparison is not an order.\<close>

theorem mixed_classes_cycle:
  assumes "ob_class m a = Conference" "ob_class m b = Conference" "ob_class m c = Category"
    "ob_type m a \<noteq> ob_type m c" "ob_type m b \<noteq> ob_type m c"
    "ob_id m a < ob_id m b" "ob_hash m (Some b) < ob_hash m (Some c)" "ob_hash m (Some c) < ob_hash m (Some a)"
  shows "obj_cmp m a b < 0 \<and> obj_cmp m b c < 0 \<and> obj_cmp m c a < 0"
  using assms
  by (simp add: obj_cmp_def has_cmp_def own_cmp_def conference_cmp_def category_cmp_def hash_cmp_def)

definition mixed_memory :: "nat memory" where
  "mixed_memory = \<lparr>ob_class = (\<lambda>n. if n = 2 then Category else Conference),
     ob_type = (\<lambda>n. if n = 2 then ''Category'' else ''Conference''), ob_id = str_nat, ob_conf = (\<lambda>_. None),
     ob_hash = (\<lambda>x. case x of None \<Rightarrow> 0 | Some n \<Rightarrow> if n = 0 then 30 else if n = 1 then 10 else 20), ob_addr = int\<rparr>"

theorem mixed_classes_cycle_witness:
  "obj_cmp mixed_memory 0 1 < 0 \<and> obj_cmp mixed_memory 1 2 < 0 \<and> obj_cmp mixed_memory 2 0 < 0"
  by (rule mixed_classes_cycle) (simp_all add: mixed_memory_def str_nat.simps digit_char_def less_char_def)

text \<open>The climb from an object whose access list changed to the object whose record changes ends
  whenever owners do not form a cycle.\<close>

theorem acl_climb_ends:
  assumes "\<And>x y. getOwner w x = Some y \<Longrightarrow> rank y < (rank x :: nat)"
  shows "\<exists>r. aclChanged w obj cx = Some r"
  using acl_target_ends [OF assms, of w "\<lambda>x. x" obj False]
  by (auto simp: aclChanged_def split: option.split sum.split)

theorem acl_climb_ends_witness: "\<exists>r. aclChanged sample_site 3 (Some sample_ctx) = Some r"
  by (rule acl_climb_ends [where rank = "\<lambda>_. 0"]) (simp add: sample_site_def)

end
