(* ===== verification/RB_Dates.thy ===== *)
theory RB_Dates
  imports Prelude
begin

text \<open>
  Dates and times of the room booking module (\<open>indico/modules/rb\<close>), the overlap tests of
  \<open>indico/util/date_time.py\<close> and \<open>models/utils.py\<close>, and the start times of a recurring booking
  (\<open>ReservationOccurrence.iter_start_time\<close>).

  The room booking module stores naive datetimes that come from forms, so a datetime is the
  \<open>int\<close> number of seconds since 1970-01-01 00:00, a date the number of days and a time of day the
  number of seconds since midnight.
\<close>

section \<open>datetime\<close>

abbreviation DAY :: int where
  "DAY \<equiv> 86400"

definition dt_date :: "int \<Rightarrow> int" where
  "dt_date d = d div DAY"

definition dt_time :: "int \<Rightarrow> int" where
  "dt_time d = d mod DAY"

text \<open>\<open>datetime.combine\<close>; the time of day is below \<open>DAY\<close>.\<close>

definition combine :: "int \<Rightarrow> int \<Rightarrow> int" where
  "combine d t = d * DAY + t"

text \<open>\<open>date.weekday()\<close>, Monday is 0; day 0 was a Thursday.\<close>

definition weekday :: "int \<Rightarrow> int" where
  "weekday d = (d + 3) mod 7"

text \<open>\<open>date.day\<close>, the day of the month in the proleptic Gregorian calendar.\<close>

definition civil_doy :: "int \<Rightarrow> int" where
  "civil_doy d = (let doe = (d + 719468) mod 146097;
       yoe = (doe - doe div 1460 + doe div 36524 - doe div 146096) div 365
     in doe - (365 * yoe + yoe div 4 - yoe div 100))"

definition day_of_month :: "int \<Rightarrow> int" where
  "day_of_month d = (let doy = civil_doy d; mp = (5 * doy + 2) div 153
     in doy - (153 * mp + 2) div 5 + 1)"

text \<open>How often the weekday of a date has come in its month, the date included.\<close>

definition week_of_month :: "int \<Rightarrow> int" where
  "week_of_month d = (day_of_month d - 1) div 7 + 1"

definition valid_time :: "int \<Rightarrow> bool" where
  "valid_time t \<longleftrightarrow> 0 \<le> t \<and> t < DAY"

named_theorems date_simps \<open>dates, times and their combination\<close>

lemma dt_time_valid [simp]: "valid_time (dt_time d)"
  by (simp add: valid_time_def dt_time_def)

lemma combine_date_time [date_simps]: "combine (dt_date d) (dt_time d) = d"
  by (simp add: combine_def dt_date_def dt_time_def)

lemma date_combine [date_simps]: "valid_time t \<Longrightarrow> dt_date (combine d t) = d"
  by (simp add: valid_time_def combine_def dt_date_def div_add1_eq)

lemma time_combine [date_simps]: "valid_time t \<Longrightarrow> dt_time (combine d t) = t"
  by (simp add: valid_time_def combine_def dt_time_def mod_add_left_eq [symmetric])

lemma dt_date_mono: "a \<le> b \<Longrightarrow> dt_date a \<le> dt_date b"
  by (simp add: dt_date_def zdiv_mono1)

lemma dt_less_same_date: "dt_date a = dt_date b \<Longrightarrow> a < b \<longleftrightarrow> dt_time a < dt_time b"
  unfolding dt_date_def dt_time_def by (smt (verit) div_mult_mod_eq)

lemma dt_date_less: "dt_date a < dt_date b \<Longrightarrow> a < b"
  by (meson dt_date_mono linorder_not_le)

lemma date_add_days [date_simps]: "dt_date (d + DAY * k) = dt_date d + k"
  by (simp add: dt_date_def)

lemma time_add_days [date_simps]: "dt_time (d + DAY * k) = dt_time d"
  by (simp add: dt_time_def)

section \<open>Overlaps\<close>

definition overlaps :: "int \<times> int \<Rightarrow> int \<times> int \<Rightarrow> bool \<Rightarrow> bool" where
  "overlaps range1 range2 inclusive = (case range1 of (start1, end1) \<Rightarrow> case range2 of (start2, end2) \<Rightarrow>
     if inclusive then start1 \<le> end2 \<and> start2 \<le> end1 else start1 < end2 \<and> start2 < end1)"

definition get_overlap :: "int \<times> int \<Rightarrow> int \<times> int \<Rightarrow> (int \<times> int) option" where
  "get_overlap range1 range2 = (if \<not> overlaps range1 range2 False then None
     else case range1 of (start1, end1) \<Rightarrow> case range2 of (start2, end2) \<Rightarrow>
       Some (max start1 start2, min end1 end2))"

text \<open>The same test written for the columns of a table, \<open>models/utils.py\<close>.\<close>

definition db_dates_overlap :: "int \<Rightarrow> int \<Rightarrow> int \<Rightarrow> int \<Rightarrow> bool \<Rightarrow> bool" where
  "db_dates_overlap element_start start element_end fin inclusive =
     (if inclusive then element_start \<le> fin \<and> start \<le> element_end
      else element_start < fin \<and> start < element_end)"

text \<open>\<open>NonBookablePeriod.overlaps\<close>.\<close>

definition nbp_overlaps :: "int \<times> int \<Rightarrow> int \<Rightarrow> int \<Rightarrow> bool" where
  "nbp_overlaps p st et \<longleftrightarrow> fst p < et \<and> snd p > st"

text \<open>
  What the callers of an overlap test rely on: it says whether two proper intervals have a moment
  in common, their ends excluded.
\<close>

definition proper :: "int \<times> int \<Rightarrow> bool" where
  "proper p \<longleftrightarrow> fst p < snd p"

definition common_moment :: "int \<times> int \<Rightarrow> int \<times> int \<Rightarrow> bool" where
  "common_moment p q \<longleftrightarrow> max (fst p) (fst q) < min (snd p) (snd q)"

lemma common_moment_iff:
  "common_moment p q \<longleftrightarrow> (\<exists>t. fst p \<le> t \<and> t < snd p \<and> fst q \<le> t \<and> t < snd q)"
proof
  assume "common_moment p q"
  then show "\<exists>t. fst p \<le> t \<and> t < snd p \<and> fst q \<le> t \<and> t < snd q"
    unfolding common_moment_def by (intro exI [of _ "max (fst p) (fst q)"]) simp
qed (auto simp: common_moment_def)

locale overlap_test =
  fixes ov :: "int \<times> int \<Rightarrow> int \<times> int \<Rightarrow> bool"
  assumes ov_iff: "proper p \<Longrightarrow> proper q \<Longrightarrow> ov p q \<longleftrightarrow> common_moment p q"
begin

lemma self: "proper p \<Longrightarrow> ov p p"
  by (simp add: ov_iff common_moment_def proper_def)

lemma sym: "proper p \<Longrightarrow> proper q \<Longrightarrow> ov p q \<longleftrightarrow> ov q p"
  by (simp add: ov_iff common_moment_def max.commute min.commute)

lemma other_days:
  "proper p \<Longrightarrow> proper q \<Longrightarrow> dt_date (fst p) = dt_date (snd p) \<Longrightarrow> dt_date (fst q) = dt_date (snd q)
   \<Longrightarrow> ov p q \<Longrightarrow> dt_date (fst p) = dt_date (fst q)"
  unfolding ov_iff common_moment_def
  by (metis dt_date_mono dual_order.antisym linorder_le_cases linorder_not_le max_less_iff_conj
        min_less_iff_conj order_less_imp_le)

lemma wider:
  "proper p \<Longrightarrow> proper q \<Longrightarrow> proper p' \<Longrightarrow> ov p q \<Longrightarrow> fst p' \<le> fst p \<Longrightarrow> snd p \<le> snd p' \<Longrightarrow> ov p' q"
  unfolding ov_iff common_moment_def by auto

end

interpretation date_time: overlap_test "\<lambda>p q. overlaps p q False"
  by unfold_locales (auto simp: overlaps_def common_moment_def proper_def split: prod.splits)

interpretation columns: overlap_test "\<lambda>p q. db_dates_overlap (fst p) (fst q) (snd p) (snd q) False"
  by unfold_locales (auto simp: db_dates_overlap_def common_moment_def proper_def)

interpretation nonbookable: overlap_test "\<lambda>p q. nbp_overlaps p (fst q) (snd q)"
  by unfold_locales (auto simp: nbp_overlaps_def common_moment_def proper_def)

lemma db_dates_overlap_eq: "db_dates_overlap a s b e False = overlaps (a, b) (s, e) False"
  by (auto simp: db_dates_overlap_def overlaps_def)

lemma overlaps_sym: "overlaps p q b = overlaps q p b"
  by (auto simp: overlaps_def split: prod.splits)

section \<open>Recurrence rules\<close>

text \<open>
  \<open>dateutil.rrule\<close> is not part of the repository: a parameter \<open>rr\<close> of everything that uses it,
  called as the code calls it, with the frequency, \<open>dtstart\<close>, \<open>until\<close>, \<open>interval\<close>, \<open>byweekday\<close>
  (no days for \<open>None\<close>) and \<open>bysetpos\<close>.  \<open>rrule_laws\<close> is what its documentation says of the calls
  the code makes: the steps of a daily and of a weekly rule up to and including \<open>until\<close>, days
  filtered by weekday, and for a monthly rule with one weekday and a position \<open>p\<close> only dates that
  are the \<open>p\<close>-th such weekday of their month, in order, not before the start and not after the end.
\<close>

datatype rr_freq = DAILY | WEEKLY | MONTHLY

type_synonym rrule = "rr_freq \<Rightarrow> int \<Rightarrow> int \<Rightarrow> int \<Rightarrow> int list \<Rightarrow> int option \<Rightarrow> int list"

definition day_steps :: "int \<Rightarrow> int \<Rightarrow> int \<Rightarrow> int list" where
  "day_steps s u k = (if u < s then []
     else map (\<lambda>i. s + DAY * (k * int i)) [0 ..< nat ((u - s) div (DAY * k)) + 1])"

definition rrule_laws :: "rrule \<Rightarrow> bool" where
  "rrule_laws rr \<longleftrightarrow>
     (\<forall>s u. rr DAILY s u 1 [] None = day_steps s u 1) \<and>
     (\<forall>s u ws. ws \<noteq> [] \<longrightarrow>
        rr DAILY s u 1 ws None = filter (\<lambda>d. weekday (dt_date d) \<in> set ws) (day_steps s u 1)) \<and>
     (\<forall>s u k. 0 < k \<longrightarrow> rr WEEKLY s u k [] None = day_steps s u (7 * k)) \<and>
     (\<forall>s u w p. sorted_wrt (<) (rr MONTHLY s u 1 [w] (Some p)) \<and>
        (\<forall>d \<in> set (rr MONTHLY s u 1 [w] (Some p)). s \<le> d \<and> d \<le> u \<and> dt_time d = dt_time s \<and>
            weekday (dt_date d) = w \<and> week_of_month (dt_date d) = p))"

text \<open>A rule that satisfies the laws: the days of the period that fit.\<close>

definition rrule_ref :: rrule where
  "rrule_ref f s u k ws p = (case f of
       DAILY \<Rightarrow> (if ws = [] then day_steps s u 1
          else filter (\<lambda>d. weekday (dt_date d) \<in> set ws) (day_steps s u 1))
     | WEEKLY \<Rightarrow> day_steps s u (7 * k)
     | MONTHLY \<Rightarrow> filter (\<lambda>d. weekday (dt_date d) \<in> set ws \<and> Some (week_of_month (dt_date d)) = p)
          (day_steps s u 1))"

lemma day_steps_sorted:
  assumes "0 < k" shows "sorted_wrt (<) (day_steps s u k)"
proof -
  have "sorted_wrt (\<lambda>i j. s + DAY * (k * int i) < s + DAY * (k * int j)) [0 ..< n]" for n
    using assms sorted_wrt_upt [of 0 n] by (auto elim!: sorted_wrt_mono_rel [rotated])
  then show ?thesis
    by (simp add: day_steps_def sorted_wrt_map del: upt_Suc)
qed

lemma day_steps_mem:
  assumes "d \<in> set (day_steps s u k)" "0 < k"
  shows "s \<le> d" "d \<le> u" "dt_time d = dt_time s" "\<exists>i \<ge> 0. d = s + DAY * (k * i)"
proof -
  have le: "s \<le> u" and ex: "\<exists>i \<in> {0 ..< nat ((u - s) div (DAY * k)) + 1}. d = s + DAY * (k * int i)"
    using assms(1) by (auto simp: day_steps_def split: if_splits simp del: upt_Suc)
  from ex obtain i where mem: "i \<in> {0 ..< nat ((u - s) div (DAY * k)) + 1}"
      and eq: "d = s + DAY * (k * int i)"
    by (rule bexE)
  from mem have "i \<le> nat ((u - s) div (DAY * k))" by simp
  note i = eq this
  have "0 \<le> (u - s) div (DAY * k)" using le assms(2) by (simp add: pos_imp_zdiv_nonneg_iff)
  with i(2) have "int i \<le> (u - s) div (DAY * k)" by (simp add: le_nat_iff)
  then have "int i * (DAY * k) \<le> (u - s) div (DAY * k) * (DAY * k)"
    using assms(2) by (intro mult_right_mono) simp_all
  moreover have "(u - s) div (DAY * k) * (DAY * k) \<le> u - s"
    using assms(2) by (metis div_mult_mod_eq le_add_same_cancel1 mult_pos_pos pos_mod_sign zero_less_numeral)
  ultimately have "int i * (DAY * k) \<le> u - s" by linarith
  with i assms(2) show "s \<le> d" "d \<le> u" by (simp_all add: algebra_simps)
  show "dt_time d = dt_time s" using i by (simp add: dt_time_def)
  show "\<exists>i \<ge> 0. d = s + DAY * (k * i)" using eq by (intro exI [of _ "int i"]) simp
qed

lemma day_steps_start: "s \<le> u \<Longrightarrow> s \<in> set (day_steps s u k)"
  by (force simp: day_steps_def simp del: upt_Suc)

lemma day_steps_first: "day_steps s u k \<noteq> [] \<Longrightarrow> hd (day_steps s u k) = s"
  by (auto simp: day_steps_def hd_map hd_upt simp del: upt_Suc split: if_splits)

lemma rrule_ref_laws: "rrule_laws rrule_ref"
  unfolding rrule_laws_def
proof (intro conjI allI impI)
  fix s u w p
  show "sorted_wrt (<) (rrule_ref MONTHLY s u 1 [w] (Some p))"
    by (simp add: rrule_ref_def day_steps_sorted sorted_wrt_filter)
  show "\<forall>d \<in> set (rrule_ref MONTHLY s u 1 [w] (Some p)). s \<le> d \<and> d \<le> u \<and> dt_time d = dt_time s \<and>
            weekday (dt_date d) = w \<and> week_of_month (dt_date d) = p"
    using day_steps_mem(1-3) [of _ s u 1] by (auto simp: rrule_ref_def)
qed (simp_all add: rrule_ref_def)

text \<open>\<open>iterdays\<close> of \<open>indico/util/date_time.py\<close>.\<close>

definition iterdays :: "rrule \<Rightarrow> int \<Rightarrow> int \<Rightarrow> bool \<Rightarrow> int list" where
  "iterdays rr start fin skip_weekends =
     rr DAILY start fin 1 (if skip_weekends then [0, 1, 2, 3, 4] else []) None"

section \<open>Repetition of a booking\<close>

text \<open>\<open>RepeatFrequency\<close> is an integer enumeration and is stored as a small integer.\<close>

abbreviation NEVER_F :: int where "NEVER_F \<equiv> 0"
abbreviation DAY_F :: int where "DAY_F \<equiv> 1"
abbreviation WEEK_F :: int where "WEEK_F \<equiv> 2"
abbreviation MONTH_F :: int where "MONTH_F \<equiv> 3"
abbreviation YEAR_F :: int where "YEAR_F \<equiv> 4"

definition iter_start_time :: "rrule \<Rightarrow> int \<Rightarrow> int \<Rightarrow> int \<times> int \<Rightarrow> exn + int list" where
  "iter_start_time rr start fin repetition = (case repetition of (repeat_frequency, repeat_interval) \<Rightarrow>
     if repeat_frequency = NEVER_F then Inr [start]
     else if repeat_frequency = DAY_F then Inr (rr DAILY start fin 1 [] None)
     else if repeat_frequency = WEEK_F then
       (if 0 < repeat_interval \<and> repeat_interval < 4
        then Inr (rr WEEKLY start fin repeat_interval [] None)
        else Inl (IndicoError ''Unsupported interval''))
     else if repeat_frequency = MONTH_F then
       (if repeat_interval = 1
        then (let position = day_of_month (dt_date start) div 7 + 1 in
          Inr (rr MONTHLY start fin 1 [weekday (dt_date start)] (Some position)))
        else Inl (IndicoError ''Unsupported interval''))
     else if repeat_frequency = YEAR_F then Inl (IndicoError ''Unsupported frequency'')
     else Inl (IndicoError ''Unexpected frequency''))"

text \<open>
  \<open>RepeatMapping\<close>: message, number of the old room booking system and short name of each
  repetition the forms offer, in the order of the source.  Looking up another pair is turned into
  an \<open>IndicoError\<close> by the decorator \<open>unimplemented\<close>.
\<close>

definition repeat_mapping :: "((int \<times> int) \<times> string \<times> int option \<times> string) list" where
  "repeat_mapping = [
     ((NEVER_F, 0), ''Single reservation'', None, ''none''),
     ((DAY_F, 1), ''Repeat daily'', Some 0, ''daily''),
     ((WEEK_F, 1), ''Repeat once a week'', Some 1, ''weekly''),
     ((WEEK_F, 2), ''Repeat once every two week'', Some 2, ''everyTwoWeeks''),
     ((WEEK_F, 3), ''Repeat once every three week'', Some 3, ''everyThreeWeeks''),
     ((MONTH_F, 1), ''Repeat every month'', Some 4, ''monthly'')]"

definition repeat_lookup :: "int \<times> int \<Rightarrow> exn + (string \<times> int option \<times> string)" where
  "repeat_lookup p = (case map_of repeat_mapping p of
       None \<Rightarrow> Inl (IndicoError ''Unimplemented repetition pair'') | Some v \<Rightarrow> Inr v)"

definition getMessage :: "int \<Rightarrow> int \<Rightarrow> exn + string" where
  "getMessage f i = map_sum id fst (repeat_lookup (f, i))"

definition getOldMapping :: "int \<Rightarrow> int \<Rightarrow> exn + int option" where
  "getOldMapping f i = map_sum id (\<lambda>v. fst (snd v)) (repeat_lookup (f, i))"

definition get_short_name :: "int \<Rightarrow> int \<Rightarrow> exn + string" where
  "get_short_name f i = map_sum id (\<lambda>v. snd (snd v)) (repeat_lookup (f, i))"

text \<open>
  \<open>getNewMapping\<close>: the first pair with the number; the loop may also end without one, and the
  method then returns Python's \<open>None\<close>.
\<close>

definition getNewMapping :: "int option \<Rightarrow> exn + (int \<times> int) option" where
  "getNewMapping repeat = (if (case repeat of None \<Rightarrow> True | Some n \<Rightarrow> n < 5)
     then Inr (map_option fst (find (\<lambda>(k, _, v, _). v = repeat) repeat_mapping))
     else Inl (IndicoError ''Unknown old repeatability''))"

lemma repeat_keys: "map fst repeat_mapping = [(0, 0), (1, 1), (2, 1), (2, 2), (2, 3), (3, 1)]"
  by (simp add: repeat_mapping_def)

end
