(* ===== verification/RB_Model.thy ===== *)
theory RB_Model
  imports RB_Dates
begin

text \<open>
  The tables of the room booking module (\<open>indico/modules/rb/models\<close>) and the queries its other
  methods are built from.  A table is its rows by primary key with the list of the keys in use;
  objects are referred to by key, an occurrence by its reservation and its start, so every
  reference to a row sees the changes made through another one, as with the session of the source.
\<close>

section \<open>Rows\<close>

text \<open>
  A user (\<open>Avatar\<close>) with what the module asks of it: whether it is a server administrator, the
  groups that contain it and its e-mail addresses.  A principal is an entry of an access list.
\<close>

record user =
  av_id :: string
  full_name :: string
  av_admin :: bool
  av_groups :: "string list"
  av_emails :: "string list"

datatype principal = PAvatar string | PGroup string

record occurrence =
  o_start_dt :: int
  o_end_dt :: int
  notification_sent :: bool
  o_is_cancelled :: bool
  o_is_rejected :: bool
  o_rejection_reason :: "string option"

record edit_log =
  user_name :: string
  info :: "string list"

record reservation =
  room_id :: int
  r_start_dt :: int
  r_end_dt :: int
  repeat_frequency :: int
  repeat_interval :: int
  booked_for_id :: "string option"
  booked_for_name :: string
  created_by_id :: "string option"
  contact_email :: string
  contact_phone :: string
  booking_reason :: string
  used_equipment :: "string list"
  needs_assistance :: bool
  uses_vc :: bool
  needs_vc_assistance :: bool
  is_accepted :: bool
  is_cancelled :: bool
  is_rejected :: bool
  rejection_reason :: "string option"
  edit_logs :: "edit_log list"
  occurrences :: "occurrence list"

record room =
  rm_id :: int
  owner_id :: string
  is_active :: bool
  is_reservable :: bool
  reservations_need_confirmation :: bool
  max_advance_days :: "int option"
  bookable_hours :: "(int \<times> int) list"
  nonbookable_periods :: "(int \<times> int) list"
  room_attributes :: "(string \<times> string) list"

datatype br_state = Pending | Accepted | Rejected

record blocked_room =
  br_room_id :: int
  state :: br_state
  rejected_by :: "string option"
  br_rejection_reason :: "string option"

record blocking =
  bl_created_by_id :: string
  start_date :: int
  end_date :: int
  bl_reason :: string
  allowed :: "principal list"
  blocked_rooms :: "blocked_room list"

text \<open>
  The e-mails, one per call of a \<open>notify_...\<close> function; who receives them and their texts are left
  to the templates.
\<close>

datatype mail =
    MConfirmation nat
  | MCancellation nat
  | MRejection nat
  | MCreation nat
  | MModification nat "string list"
  | MOccCancellation nat int
  | MOccRejection nat int
  | MRequest string nat "int list"
  | MRequestResponse nat int
  | MUpcoming nat int

record rb =
  rooms :: "int \<Rightarrow> room option"
  resv_ids :: "nat list"
  resv :: "nat \<Rightarrow> reservation"
  next_resv :: nat
  blocking_ids :: "nat list"
  blockings :: "nat \<Rightarrow> blocking"
  next_blocking :: nat
  avatars :: "string \<Rightarrow> user option"
  group_ids :: "string list"
  authorized_principals :: "principal list"
  admin_principals :: "principal list"
  rb_now :: int
  mails :: "mail list"

section \<open>Properties of rows\<close>

definition occ_date :: "occurrence \<Rightarrow> int" where
  "occ_date occ = dt_date (o_start_dt occ)"

definition occ_span :: "occurrence \<Rightarrow> int \<times> int" where
  "occ_span occ = (o_start_dt occ, o_end_dt occ)"

definition occ_is_valid :: "occurrence \<Rightarrow> bool" where
  "occ_is_valid occ \<longleftrightarrow> \<not> o_is_rejected occ \<and> \<not> o_is_cancelled occ"

definition is_repeating :: "reservation \<Rightarrow> bool" where
  "is_repeating r \<longleftrightarrow> repeat_frequency r \<noteq> NEVER_F"

definition is_valid :: "reservation \<Rightarrow> bool" where
  "is_valid r \<longleftrightarrow> is_accepted r \<and> \<not> (is_rejected r \<or> is_cancelled r)"

definition is_pending :: "reservation \<Rightarrow> bool" where
  "is_pending r \<longleftrightarrow> \<not> (is_accepted r \<or> is_rejected r \<or> is_cancelled r)"

definition is_archived :: "int \<Rightarrow> reservation \<Rightarrow> bool" where
  "is_archived now r \<longleftrightarrow> r_end_dt r < now"

definition repetition :: "reservation \<Rightarrow> int \<times> int" where
  "repetition r = (repeat_frequency r, repeat_interval r)"

definition status_string :: "int \<Rightarrow> reservation \<Rightarrow> string list" where
  "status_string now r =
     (if is_valid r then [''Valid'']
      else (if is_cancelled r then [''Cancelled''] else []) @ (if is_rejected r then [''Rejected''] else [])
        @ (if \<not> is_accepted r then [''Not confirmed''] else []))
     @ (if is_archived now r then [''Archived''] else [''Live''])"

definition is_active_at :: "blocking \<Rightarrow> int \<Rightarrow> bool" where
  "is_active_at b d \<longleftrightarrow> start_date b \<le> d \<and> d \<le> end_date b"

definition fits_period :: "int \<times> int \<Rightarrow> int \<Rightarrow> int \<Rightarrow> bool" where
  "fits_period h st et \<longleftrightarrow> fst h \<le> st \<and> snd h \<ge> et"

section \<open>Users and principals\<close>

definition get_avatar :: "rb \<Rightarrow> string option \<Rightarrow> user option" where
  "get_avatar s i = (case i of None \<Rightarrow> None | Some a \<Rightarrow> if a = [] then None else avatars s a)"

fun containsUser :: "principal \<Rightarrow> user \<Rightarrow> bool" where
  "containsUser (PAvatar a) u = (a = av_id u)"
| "containsUser (PGroup g) u = (g \<in> set (av_groups u))"

text \<open>\<open>retrieve_principals\<close> drops the entries whose user or group does not exist any more.\<close>

fun principal_exists :: "rb \<Rightarrow> principal \<Rightarrow> bool" where
  "principal_exists s (PAvatar a) = (avatars s a \<noteq> None)"
| "principal_exists s (PGroup g) = (g \<in> set (group_ids s))"

definition retrieve_principals :: "rb \<Rightarrow> principal list \<Rightarrow> principal list" where
  "retrieve_principals s ps = filter (principal_exists s) ps"

definition isRBAdmin :: "rb \<Rightarrow> user \<Rightarrow> bool" where
  "isRBAdmin s u \<longleftrightarrow> av_admin u \<or>
     (\<exists>p \<in> set (retrieve_principals s (admin_principals s)). containsUser p u)"

definition rb_check_user_access :: "rb \<Rightarrow> user \<Rightarrow> bool" where
  "rb_check_user_access s u = (if isRBAdmin s u then True
     else let ps = retrieve_principals s (authorized_principals s) in
       if ps = [] then True else (\<exists>p \<in> set ps. containsUser p u))"

section \<open>Queries\<close>

text \<open>
  \<open>Room.find\<close>, \<open>Reservation.find\<close> and \<open>ReservationOccurrence.find\<close> filter the rows of a join;
  \<open>or_\<close> of no criteria is dropped by SQLAlchemy, so it filters nothing.
\<close>

definition sql_or :: "bool list \<Rightarrow> bool" where
  "sql_or cs \<longleftrightarrow> cs = [] \<or> (\<exists>c \<in> set cs. c)"

definition resv_rows :: "rb \<Rightarrow> (nat \<times> reservation) list" where
  "resv_rows s = map (\<lambda>i. (i, resv s i)) (resv_ids s)"

definition occ_rows :: "rb \<Rightarrow> (nat \<times> occurrence) list" where
  "occ_rows s = concat (map (\<lambda>i. map (\<lambda>occ. (i, occ)) (occurrences (resv s i))) (resv_ids s))"

lemma occ_rows_iff: "(i, occ) \<in> set (occ_rows s) \<longleftrightarrow> i \<in> set (resv_ids s) \<and> occ \<in> set (occurrences (resv s i))"
  by (auto simp: occ_rows_def)

text \<open>\<open>ReservationOccurrence.filter_overlap\<close>, for an occurrence of the table.\<close>

definition filter_overlap :: "occurrence list \<Rightarrow> occurrence \<Rightarrow> bool" where
  "filter_overlap occs occ =
     sql_or (map (\<lambda>c. db_dates_overlap (o_start_dt occ) (o_start_dt c) (o_end_dt occ) (o_end_dt c) False) occs)"

definition occ_find_overlapping_with ::
    "rb \<Rightarrow> int \<Rightarrow> occurrence list \<Rightarrow> nat option \<Rightarrow> (nat \<times> occurrence) list" where
  "occ_find_overlapping_with s room occs reservation_id =
     filter (\<lambda>(i, occ). room_id (resv s i) = room \<and> Some i \<noteq> reservation_id \<and> occ_is_valid occ \<and>
                        filter_overlap occs occ) (occ_rows s)"

text \<open>\<open>Reservation.find_overlapping_with\<close>: the reservations of the matching rows, each once.\<close>

definition find_overlapping_with :: "rb \<Rightarrow> int \<Rightarrow> occurrence list \<Rightarrow> nat option \<Rightarrow> nat list" where
  "find_overlapping_with s room occs reservation_id =
     filter (\<lambda>i. room_id (resv s i) = room \<and> Some i \<noteq> reservation_id \<and>
                 (\<exists>occ \<in> set (occurrences (resv s i)). occ_is_valid occ \<and> filter_overlap occs occ)) (resv_ids s)"

definition valid_occurrences :: "rb \<Rightarrow> nat \<Rightarrow> occurrence list" where
  "valid_occurrences s i = filter occ_is_valid (occurrences (resv s i))"

definition find_overlapping :: "rb \<Rightarrow> nat \<Rightarrow> nat list" where
  "find_overlapping s i =
     find_overlapping_with s (room_id (resv s i)) (valid_occurrences s i) (Some i)"

definition find_excluded_days :: "rb \<Rightarrow> nat \<Rightarrow> occurrence list" where
  "find_excluded_days s i = filter (\<lambda>occ. \<not> occ_is_valid occ) (occurrences (resv s i))"

text \<open>
  \<open>ReservationOccurrence.overlaps\<close> and \<open>get_overlap\<close>: occurrences of different rooms cannot be
  compared, and an occurrence that has no reservation yet (a candidate) has no room.
\<close>

definition occ_overlaps :: "rb \<Rightarrow> nat option \<times> occurrence \<Rightarrow> nat option \<times> occurrence \<Rightarrow> bool \<Rightarrow> exn + bool" where
  "occ_overlaps s a b skip_self = (case (fst a, fst b) of
       (Some i, Some j) \<Rightarrow>
         if room_id (resv s i) \<noteq> room_id (resv s j) then Inl ValueError
         else if skip_self \<and> i = j then Inr False
         else Inr (overlaps (o_start_dt (snd a), o_end_dt (snd a)) (o_start_dt (snd b), o_end_dt (snd b)) False)
     | _ \<Rightarrow> Inr (overlaps (o_start_dt (snd a), o_end_dt (snd a)) (o_start_dt (snd b), o_end_dt (snd b)) False))"

definition occ_get_overlap ::
    "rb \<Rightarrow> nat option \<times> occurrence \<Rightarrow> nat option \<times> occurrence \<Rightarrow> bool \<Rightarrow> exn + (int \<times> int) option" where
  "occ_get_overlap s a b skip_self = (case (fst a, fst b) of
       (Some i, Some j) \<Rightarrow>
         if room_id (resv s i) \<noteq> room_id (resv s j) then Inl ValueError
         else if skip_self \<and> i = j then Inr None
         else Inr (get_overlap (o_start_dt (snd a), o_end_dt (snd a)) (o_start_dt (snd b), o_end_dt (snd b)))
     | _ \<Rightarrow> Inr (get_overlap (o_start_dt (snd a), o_end_dt (snd a)) (o_start_dt (snd b), o_end_dt (snd b))))"

section \<open>Updates\<close>

definition upd_resv :: "nat \<Rightarrow> (reservation \<Rightarrow> reservation) \<Rightarrow> (rb, unit) prog" where
  "upd_resv i f = modify (\<lambda>s. s\<lparr>resv := (resv s)(i := f (resv s i))\<rparr>)"

definition set_occ :: "int \<Rightarrow> (occurrence \<Rightarrow> occurrence) \<Rightarrow> reservation \<Rightarrow> reservation" where
  "set_occ k f r = r\<lparr>occurrences := map (\<lambda>occ. if o_start_dt occ = k then f occ else occ) (occurrences r)\<rparr>"

definition upd_occ :: "nat \<Rightarrow> int \<Rightarrow> (occurrence \<Rightarrow> occurrence) \<Rightarrow> (rb, unit) prog" where
  "upd_occ i k f = upd_resv i (set_occ k f)"

definition occ_valid_at :: "rb \<Rightarrow> nat \<Rightarrow> int \<Rightarrow> bool" where
  "occ_valid_at s i k \<longleftrightarrow> (\<exists>occ \<in> set (occurrences (resv s i)). o_start_dt occ = k \<and> occ_is_valid occ)"

definition send_mail :: "mail \<Rightarrow> (rb, unit) prog" where
  "send_mail m = modify (\<lambda>s. s\<lparr>mails := mails s @ [m]\<rparr>)"

definition add_edit_log :: "nat \<Rightarrow> edit_log \<Rightarrow> (rb, unit) prog" where
  "add_edit_log i l = upd_resv i (\<lambda>r. r\<lparr>edit_logs := edit_logs r @ [l]\<rparr>)"

text \<open>\<open>user.getFullName()\<close> of a user that may be \<open>None\<close>.\<close>

definition getFullName :: "user option \<Rightarrow> (rb, string) prog" where
  "getFullName u = (case u of None \<Rightarrow> raise_exn AttributeError | Some v \<Rightarrow> ret (full_name v))"

definition log_as :: "nat \<Rightarrow> user option \<Rightarrow> string list \<Rightarrow> (rb, unit) prog" where
  "log_as i u lines = bnd (getFullName u) (\<lambda>n. add_edit_log i \<lparr>user_name = n, info = lines\<rparr>)"

text \<open>\<open>self.room\<close> of a reservation.\<close>

definition self_room :: "nat \<Rightarrow> (rb, room) prog" where
  "self_room i = bnd get_st (\<lambda>s. case rooms s (room_id (resv s i)) of
       None \<Rightarrow> raise_exn AttributeError | Some rm \<Rightarrow> ret rm)"

end
