(* ===== verification/RB_Status.thy ===== *)
theory RB_Status
  imports RB_Model
begin

text \<open>
  How reservations and single occurrences are accepted, cancelled and rejected:
  \<open>Reservation.accept/cancel/reject\<close>, \<open>ReservationOccurrence.cancel/reject\<close> with the decorator
  \<open>proxy_to_reservation_if_single_occurrence\<close>, and the guards of the notifications they send.

  All of these only ever take validity away from occurrences.  \<open>decays\<close> says that of two states;
  that every operation is inside it is what the invariants of the later theories rest on.
\<close>

section \<open>Notifications\<close>

definition notify_confirmation :: "nat \<Rightarrow> (rb, unit) prog" where
  "notify_confirmation i = bnd get_st (\<lambda>s.
     if \<not> is_accepted (resv s i) then raise_exn ValueError else send_mail (MConfirmation i))"

definition notify_cancellation :: "nat \<Rightarrow> (rb, unit) prog" where
  "notify_cancellation i = bnd get_st (\<lambda>s.
     if \<not> is_cancelled (resv s i) then raise_exn ValueError else send_mail (MCancellation i))"

definition notify_rejection :: "nat \<Rightarrow> (rb, unit) prog" where
  "notify_rejection i = bnd get_st (\<lambda>s.
     if \<not> is_rejected (resv s i) then raise_exn ValueError else send_mail (MRejection i))"

definition occ_at :: "rb \<Rightarrow> nat \<Rightarrow> int \<Rightarrow> occurrence option" where
  "occ_at s i k = find (\<lambda>occ. o_start_dt occ = k) (occurrences (resv s i))"

definition notify_occ_cancellation :: "nat \<Rightarrow> int \<Rightarrow> (rb, unit) prog" where
  "notify_occ_cancellation i k = bnd get_st (\<lambda>s.
     if \<not> (case occ_at s i k of None \<Rightarrow> False | Some occ \<Rightarrow> o_is_cancelled occ) then raise_exn ValueError
     else send_mail (MOccCancellation i k))"

definition notify_occ_rejection :: "nat \<Rightarrow> int \<Rightarrow> (rb, unit) prog" where
  "notify_occ_rejection i k = bnd get_st (\<lambda>s.
     if \<not> (case occ_at s i k of None \<Rightarrow> False | Some occ \<Rightarrow> o_is_rejected occ) then raise_exn ValueError
     else send_mail (MOccRejection i k))"

section \<open>Reservations\<close>

definition truthy :: "string option \<Rightarrow> bool" where
  "truthy r \<longleftrightarrow> r \<noteq> None \<and> r \<noteq> Some []"

definition cancel_valid :: "reservation \<Rightarrow> reservation" where
  "cancel_valid r = r\<lparr>occurrences := map (\<lambda>occ. if occ_is_valid occ then occ\<lparr>o_is_cancelled := True\<rparr> else occ) (occurrences r)\<rparr>"

definition reject_valid :: "string option \<Rightarrow> reservation \<Rightarrow> reservation" where
  "reject_valid reason r = r\<lparr>occurrences := map (\<lambda>occ. if occ_is_valid occ
     then occ\<lparr>o_is_rejected := True, o_rejection_reason := reason\<rparr> else occ) (occurrences r)\<rparr>"

definition resv_cancel :: "nat \<Rightarrow> user option \<Rightarrow> string option \<Rightarrow> bool \<Rightarrow> (rb, unit) prog" where
  "resv_cancel i user reason silent =
     andthen (upd_resv i (\<lambda>r. r\<lparr>is_cancelled := True, rejection_reason := reason\<rparr>))
     (andthen (upd_resv i cancel_valid)
     (when_do (\<not> silent)
        (andthen (notify_cancellation i)
                 (log_as i user [if truthy reason then ''Reservation cancelled: '' @ the reason
                                 else ''Reservation cancelled'']))))"

definition resv_reject :: "nat \<Rightarrow> user option \<Rightarrow> string option \<Rightarrow> bool \<Rightarrow> (rb, unit) prog" where
  "resv_reject i user reason silent =
     andthen (upd_resv i (\<lambda>r. r\<lparr>is_rejected := True, rejection_reason := reason\<rparr>))
     (andthen (upd_resv i (reject_valid reason))
     (when_do (\<not> silent)
        (andthen (notify_rejection i)
                 (log_as i user [''Reservation rejected: '' @ (case reason of None \<Rightarrow> ''None'' | Some x \<Rightarrow> x)]))))"

section \<open>Single occurrences\<close>

text \<open>
  The decorator: unless told not to, a call on the only valid occurrence of a reservation, or on the
  occurrence of one that does not repeat, goes to the reservation.
\<close>

definition proxy_to_reservation ::
    "bool \<Rightarrow> nat \<Rightarrow> int \<Rightarrow> (rb, unit) prog \<Rightarrow> (rb, unit) prog \<Rightarrow> (rb, unit) prog" where
  "proxy_to_reservation propagate i k resv_func f = (if \<not> propagate then f
     else bnd get_st (\<lambda>s. if \<not> is_repeating (resv s i) then resv_func
       else let valid = take 2 (valid_occurrences s i) in
         if length valid = 1 \<and> o_start_dt (valid ! 0) = k then resv_func else f))"

text \<open>The format of \<open>format_date\<close> is left to a parameter \<open>fmt\<close>.\<close>

definition occ_cancel_self :: "(int \<Rightarrow> string) \<Rightarrow> nat \<Rightarrow> int \<Rightarrow> user option \<Rightarrow> string option \<Rightarrow> bool \<Rightarrow> (rb, unit) prog" where
  "occ_cancel_self fmt i k user reason silent =
     andthen (upd_occ i k (\<lambda>occ. occ\<lparr>o_is_cancelled := True, o_rejection_reason := reason\<rparr>))
     (when_do (\<not> silent)
        (andthen (log_as i user ([''Day cancelled: '' @ fmt (dt_date k)]
                                 @ (if truthy reason then [''Reason: '' @ the reason] else [])))
        (bnd get_st (\<lambda>s. when_do (valid_occurrences s i \<noteq> []) (notify_occ_cancellation i k)))))"

definition occ_cancel :: "(int \<Rightarrow> string) \<Rightarrow> nat \<Rightarrow> int \<Rightarrow> user option \<Rightarrow> string option \<Rightarrow> bool \<Rightarrow> bool \<Rightarrow> (rb, unit) prog" where
  "occ_cancel fmt i k user reason silent propagate =
     proxy_to_reservation propagate i k (resv_cancel i user reason silent)
                                        (occ_cancel_self fmt i k user reason silent)"

definition occ_reject_self :: "(int \<Rightarrow> string) \<Rightarrow> nat \<Rightarrow> int \<Rightarrow> user option \<Rightarrow> string option \<Rightarrow> bool \<Rightarrow> (rb, unit) prog" where
  "occ_reject_self fmt i k user reason silent =
     andthen (upd_occ i k (\<lambda>occ. occ\<lparr>o_is_rejected := True, o_rejection_reason := reason\<rparr>))
     (when_do (\<not> silent)
        (andthen (log_as i user [''Day rejected: '' @ fmt (dt_date k),
                                 ''Reason: '' @ (case reason of None \<Rightarrow> ''None'' | Some x \<Rightarrow> x)])
        (bnd get_st (\<lambda>s. when_do (valid_occurrences s i \<noteq> []) (notify_occ_rejection i k)))))"

definition occ_reject :: "(int \<Rightarrow> string) \<Rightarrow> nat \<Rightarrow> int \<Rightarrow> user option \<Rightarrow> string option \<Rightarrow> bool \<Rightarrow> bool \<Rightarrow> (rb, unit) prog" where
  "occ_reject fmt i k user reason silent propagate =
     proxy_to_reservation propagate i k (resv_reject i user reason silent)
                                        (occ_reject_self fmt i k user reason silent)"

text \<open>
  \<open>reject(user, reason)\<close> called with one argument only, as \<open>Reservation.accept\<close> does: both the
  method of the occurrence and that of the reservation lack an argument then.
\<close>

definition occ_reject_one_argument :: "nat \<Rightarrow> int \<Rightarrow> (rb, unit) prog" where
  "occ_reject_one_argument i k = proxy_to_reservation True i k (raise_exn TypeError) (raise_exn TypeError)"

definition resv_accept :: "nat \<Rightarrow> user option \<Rightarrow> (rb, unit) prog" where
  "resv_accept i user =
     andthen (upd_resv i (\<lambda>r. r\<lparr>is_accepted := True\<rparr>))
     (andthen (log_as i user [''Reservation accepted''])
     (andthen (notify_confirmation i)
     (bnd get_st (\<lambda>s. for_each
        (occ_find_overlapping_with s (room_id (resv s i)) (valid_occurrences s i) (Some i))
        (\<lambda>(j, occ). bnd (gets (\<lambda>t. occ_valid_at t j (o_start_dt occ)))
                        (\<lambda>v. when_do v (occ_reject_one_argument j (o_start_dt occ))))))))"

section \<open>Decay of validity\<close>

text \<open>The part of a reservation that no status change touches.\<close>

definition resv_shape :: "reservation \<Rightarrow> int \<times> int \<times> int \<times> (int \<times> int) \<times> bool \<times> string option \<times> (int \<times> int) list" where
  "resv_shape r = (room_id r, r_start_dt r, r_end_dt r, repetition r, is_accepted r, created_by_id r,
     map occ_span (occurrences r))"

definition valid_keys :: "reservation \<Rightarrow> (int \<times> int) set" where
  "valid_keys r = occ_span ` {occ \<in> set (occurrences r). occ_is_valid occ}"

definition resv_decays :: "reservation \<Rightarrow> reservation \<Rightarrow> bool" where
  "resv_decays r r' \<longleftrightarrow> resv_shape r' = resv_shape r \<and> valid_keys r' \<subseteq> valid_keys r"

definition rest :: "rb \<Rightarrow> _" where
  "rest s = (rooms s, resv_ids s, next_resv s, blocking_ids s, blockings s, next_blocking s, avatars s,
             group_ids s, authorized_principals s, admin_principals s, rb_now s)"

definition decays :: "rb \<Rightarrow> rb \<Rightarrow> bool" where
  "decays s s' \<longleftrightarrow> rest s' = rest s \<and> (\<forall>i. resv_decays (resv s i) (resv s' i))"

named_theorems decays_intros \<open>programs that only take validity away\<close>

lemma decays_refl [simp]: "decays s s"
  by (simp add: decays_def resv_decays_def)

lemma decays_trans: "decays s t \<Longrightarrow> decays t u \<Longrightarrow> decays s u"
  unfolding decays_def resv_decays_def by (metis subset_trans)

lemma valid_keys_map:
  assumes "\<And>occ. o_start_dt (f occ) = o_start_dt occ" "\<And>occ. o_end_dt (f occ) = o_end_dt occ"
    "\<And>occ. occ_is_valid (f occ) \<Longrightarrow> occ_is_valid occ"
  shows "valid_keys (r\<lparr>occurrences := map f (occurrences r)\<rparr>) \<subseteq> valid_keys r"
  using assms unfolding valid_keys_def by (auto simp: image_iff occ_span_def)

lemma resv_decays_map:
  assumes "\<And>occ. o_start_dt (f occ) = o_start_dt occ" "\<And>occ. o_end_dt (f occ) = o_end_dt occ"
    "\<And>occ. occ_is_valid (f occ) \<Longrightarrow> occ_is_valid occ"
  shows "resv_decays r (r\<lparr>occurrences := map f (occurrences r)\<rparr>)"
proof -
  have "valid_keys (r\<lparr>occurrences := map f (occurrences r)\<rparr>) \<subseteq> valid_keys r"
    by (rule valid_keys_map) (rule assms, assumption?)+
  then show ?thesis
    using assms(1,2) by (simp add: resv_decays_def resv_shape_def repetition_def comp_def occ_span_def)
qed

lemma keeps_decays_upd:
  assumes "\<And>r. resv_decays r (f r)" shows "keeps (decays s) (upd_resv i f)"
proof (rule keepsI)
  fix t assume t: "decays s t"
  have "decays t (t\<lparr>resv := (resv t)(i := f (resv t i))\<rparr>)"
    using assms [of "resv t i"] by (auto simp: decays_def rest_def resv_decays_def)
  with t show "decays s (snd (upd_resv i f t))"
    by (auto simp: upd_resv_def intro: decays_trans)
qed

lemma resv_decays_flags:
  "resv_decays r (r\<lparr>is_cancelled := a, rejection_reason := b\<rparr>)"
  "resv_decays r (r\<lparr>is_rejected := a, rejection_reason := b\<rparr>)"
  "resv_decays r (r\<lparr>edit_logs := c\<rparr>)"
  by (simp_all add: resv_decays_def resv_shape_def valid_keys_def repetition_def)

lemma decays_add_edit_log [decays_intros]: "keeps (decays s) (add_edit_log i l)"
  unfolding add_edit_log_def by (intro keeps_decays_upd resv_decays_flags)

lemma decays_send_mail [decays_intros]: "keeps (decays s) (send_mail m)"
  unfolding send_mail_def by (rule keeps_modify) (auto simp: decays_def rest_def)

lemma decays_log_as [decays_intros]: "keeps (decays s) (log_as i u ls)"
  unfolding log_as_def getFullName_def by (intro keeps_intros decays_intros)

lemma decays_notify [decays_intros]:
  "keeps (decays s) (notify_confirmation i)" "keeps (decays s) (notify_cancellation i)"
  "keeps (decays s) (notify_rejection i)" "keeps (decays s) (notify_occ_cancellation i k)"
  "keeps (decays s) (notify_occ_rejection i k)"
  unfolding notify_confirmation_def notify_cancellation_def notify_rejection_def
    notify_occ_cancellation_def notify_occ_rejection_def
  by (intro keeps_intros decays_intros)+

lemma decays_resv_cancel [decays_intros]: "keeps (decays s) (resv_cancel i u reason silent)"
proof -
  have "resv_decays r (cancel_valid r)" for r
    unfolding cancel_valid_def by (rule resv_decays_map) (auto simp: occ_is_valid_def)
  then show ?thesis
    unfolding resv_cancel_def by (intro keeps_intros decays_intros keeps_decays_upd resv_decays_flags)
qed

lemma decays_resv_reject [decays_intros]: "keeps (decays s) (resv_reject i u reason silent)"
proof -
  have "resv_decays r (reject_valid reason r)" for r
    unfolding reject_valid_def by (rule resv_decays_map) (auto simp: occ_is_valid_def)
  then show ?thesis
    unfolding resv_reject_def by (intro keeps_intros decays_intros keeps_decays_upd resv_decays_flags)
qed

lemma decays_upd_occ:
  assumes "\<And>occ. o_start_dt (f occ) = o_start_dt occ" "\<And>occ. o_end_dt (f occ) = o_end_dt occ"
    "\<And>occ. \<not> occ_is_valid (f occ)"
  shows "keeps (decays s) (upd_occ i k f)"
proof -
  have "resv_decays r (set_occ k f r)" for r
    unfolding set_occ_def by (rule resv_decays_map) (use assms in \<open>auto split: if_splits\<close>)
  then show ?thesis unfolding upd_occ_def by (rule keeps_decays_upd)
qed

lemma decays_occ_cancel_self [decays_intros]: "keeps (decays s) (occ_cancel_self fmt i k u reason silent)"
  unfolding occ_cancel_self_def
  by (intro keeps_intros decays_intros decays_upd_occ) (simp_all add: occ_is_valid_def)

lemma decays_occ_reject_self [decays_intros]: "keeps (decays s) (occ_reject_self fmt i k u reason silent)"
  unfolding occ_reject_self_def
  by (intro keeps_intros decays_intros decays_upd_occ) (simp_all add: occ_is_valid_def)

lemma keeps_proxy [decays_intros]:
  "keeps I m \<Longrightarrow> keeps I f \<Longrightarrow> keeps I (proxy_to_reservation propagate i k m f)"
  unfolding proxy_to_reservation_def Let_def by (intro keeps_intros)

lemma decays_occ_cancel [decays_intros]: "keeps (decays s) (occ_cancel fmt i k u reason silent propagate)"
  unfolding occ_cancel_def by (intro decays_intros)

lemma decays_occ_reject [decays_intros]: "keeps (decays s) (occ_reject fmt i k u reason silent propagate)"
  unfolding occ_reject_def by (intro decays_intros)

end
