(* ===== verification/RB_Inv.thy ===== *)
theory RB_Inv
  imports RB_Status
begin

text \<open>
  The invariant of the room booking tables and its preservation by the status changes of
  \<open>RB_Status\<close>: occurrences of a reservation lie on different days, each within its day; a
  reservation is live (neither cancelled nor rejected) exactly when it has a valid occurrence; and
  no valid occurrence of an accepted reservation overlaps a valid one of another reservation of the
  same room.
\<close>

section \<open>The invariant\<close>

definition day_span :: "int \<times> int \<Rightarrow> bool" where
  "day_span p \<longleftrightarrow> proper p \<and> dt_date (fst p) = dt_date (snd p)"

definition shape_ok :: "reservation \<Rightarrow> bool" where
  "shape_ok r \<longleftrightarrow> distinct (map occ_date (occurrences r)) \<and>
     (\<forall>occ \<in> set (occurrences r). day_span (occ_span occ)) \<and>
     (\<not> is_repeating r \<longrightarrow> length (occurrences r) \<le> 1)"

definition live :: "reservation \<Rightarrow> bool" where
  "live r \<longleftrightarrow> \<not> is_cancelled r \<and> \<not> is_rejected r"

definition live_ok :: "reservation \<Rightarrow> bool" where
  "live_ok r \<longleftrightarrow> (live r \<longleftrightarrow> (\<exists>occ \<in> set (occurrences r). occ_is_valid occ))"

definition clash :: "reservation \<Rightarrow> reservation \<Rightarrow> bool" where
  "clash r r' \<longleftrightarrow> room_id r = room_id r' \<and> (\<exists>p \<in> valid_keys r. \<exists>q \<in> valid_keys r'. overlaps p q False)"

definition no_clash :: "rb \<Rightarrow> bool" where
  "no_clash s \<longleftrightarrow> (\<forall>i \<in> set (resv_ids s). \<forall>j \<in> set (resv_ids s).
     i \<noteq> j \<longrightarrow> is_accepted (resv s i) \<longrightarrow> \<not> clash (resv s i) (resv s j))"

definition ids_ok :: "rb \<Rightarrow> bool" where
  "ids_ok s \<longleftrightarrow> distinct (resv_ids s) \<and> (\<forall>i \<in> set (resv_ids s). i < next_resv s)"

definition sound :: "reservation \<Rightarrow> bool" where
  "sound r \<longleftrightarrow> shape_ok r \<and> live_ok r"

definition all_sound :: "nat set \<Rightarrow> rb \<Rightarrow> bool" where
  "all_sound A s \<longleftrightarrow> (\<forall>i \<in> A. sound (resv s i))"

definition rb_inv :: "rb \<Rightarrow> bool" where
  "rb_inv s \<longleftrightarrow> ids_ok s \<and> all_sound (set (resv_ids s)) s \<and> no_clash s"

section \<open>What decay preserves\<close>

lemma shape_ok_shape:
  assumes "resv_shape r' = resv_shape r" shows "shape_ok r' \<longleftrightarrow> shape_ok r"
proof -
  have spans: "map occ_span (occurrences r') = map occ_span (occurrences r)"
    and rep: "is_repeating r' = is_repeating r"
    using assms by (simp_all add: resv_shape_def repetition_def is_repeating_def)
  have "map occ_date (occurrences r) = map (dt_date \<circ> fst) (map occ_span (occurrences r))" for r
    by (simp add: occ_span_def occ_date_def)
  moreover have "(\<forall>occ \<in> set (occurrences r). day_span (occ_span occ)) \<longleftrightarrow>
      (\<forall>p \<in> set (map occ_span (occurrences r)). day_span p)" for r
    by simp
  moreover have "length (occurrences r') = length (occurrences r)"
    using spans by (metis length_map)
  ultimately show ?thesis
    unfolding shape_ok_def using spans rep by metis
qed

lemma clash_decays:
  "resv_decays r r1 \<Longrightarrow> resv_decays r' r1' \<Longrightarrow> clash r1 r1' \<Longrightarrow> clash r r'"
  unfolding clash_def resv_decays_def resv_shape_def by auto

lemma clash_sym: "clash r r' \<longleftrightarrow> clash r' r"
  unfolding clash_def by (metis overlaps_sym)

lemma decays_fields:
  assumes "decays s s'"
  shows "resv_ids s' = resv_ids s" "next_resv s' = next_resv s" "rooms s' = rooms s"
    "avatars s' = avatars s" "admin_principals s' = admin_principals s" "group_ids s' = group_ids s"
    "blockings s' = blockings s" "blocking_ids s' = blocking_ids s" "next_blocking s' = next_blocking s"
    "rb_now s' = rb_now s" "authorized_principals s' = authorized_principals s"
  using assms by (auto simp: decays_def rest_def)

lemma decays_row:
  assumes "decays s s'"
  shows "room_id (resv s' i) = room_id (resv s i)" "is_accepted (resv s' i) = is_accepted (resv s i)"
    "is_repeating (resv s' i) = is_repeating (resv s i)" "created_by_id (resv s' i) = created_by_id (resv s i)"
    "r_start_dt (resv s' i) = r_start_dt (resv s i)" "r_end_dt (resv s' i) = r_end_dt (resv s i)"
    "repetition (resv s' i) = repetition (resv s i)"
    "map occ_span (occurrences (resv s' i)) = map occ_span (occurrences (resv s i))"
    "valid_keys (resv s' i) \<subseteq> valid_keys (resv s i)" "shape_ok (resv s' i) \<longleftrightarrow> shape_ok (resv s i)"
proof -
  have d: "resv_decays (resv s i) (resv s' i)" using assms by (simp add: decays_def)
  then show "shape_ok (resv s' i) \<longleftrightarrow> shape_ok (resv s i)"
    unfolding resv_decays_def using shape_ok_shape by blast
  show "valid_keys (resv s' i) \<subseteq> valid_keys (resv s i)" using d by (simp add: resv_decays_def)
  have "resv_shape (resv s' i) = resv_shape (resv s i)" using d by (simp add: resv_decays_def)
  then show "room_id (resv s' i) = room_id (resv s i)" "is_accepted (resv s' i) = is_accepted (resv s i)"
    "is_repeating (resv s' i) = is_repeating (resv s i)" "created_by_id (resv s' i) = created_by_id (resv s i)"
    "r_start_dt (resv s' i) = r_start_dt (resv s i)" "r_end_dt (resv s' i) = r_end_dt (resv s i)"
    "repetition (resv s' i) = repetition (resv s i)"
    "map occ_span (occurrences (resv s' i)) = map occ_span (occurrences (resv s i))"
    by (simp_all add: resv_shape_def repetition_def is_repeating_def)
qed

lemma no_clash_decays:
  assumes d: "decays s s'" and n: "no_clash s" shows "no_clash s'"
  unfolding no_clash_def
proof (intro ballI impI notI)
  fix i j assume ij: "i \<in> set (resv_ids s')" "j \<in> set (resv_ids s')" "i \<noteq> j"
    and a: "is_accepted (resv s' i)" and c: "clash (resv s' i) (resv s' j)"
  have "clash (resv s i) (resv s j)"
    using d by (intro clash_decays [OF _ _ c]) (simp_all add: decays_def)
  with n ij a show False
    unfolding no_clash_def decays_fields(1) [OF d] decays_row(2) [OF d] by blast
qed

lemma ids_ok_decays: "decays s s' \<Longrightarrow> ids_ok s \<Longrightarrow> ids_ok s'"
  by (simp add: ids_ok_def decays_fields)

lemma valid_keys_iff: "p \<in> valid_keys r \<longleftrightarrow> (\<exists>occ \<in> set (occurrences r). occ_is_valid occ \<and> p = occ_span occ)"
  by (auto simp: valid_keys_def)

lemma live_ok_keys: "live_ok r \<longleftrightarrow> (live r \<longleftrightarrow> valid_keys r \<noteq> {})"
  unfolding live_ok_def valid_keys_def by auto

section \<open>Status changes keep reservations sound\<close>

named_theorems sound_intros \<open>programs that keep reservations sound\<close>

lemma keeps_all_sound_upd:
  assumes "\<And>r. sound r \<Longrightarrow> sound (f r)" shows "keeps (all_sound A) (upd_resv i f)"
  unfolding upd_resv_def by (rule keeps_modify) (auto simp: all_sound_def intro: assms)

lemma sound_add_edit_log [sound_intros]: "keeps (all_sound A) (add_edit_log i l)"
  unfolding add_edit_log_def
  by (rule keeps_all_sound_upd) (simp add: sound_def shape_ok_def live_ok_def live_def is_repeating_def)

lemma sound_send_mail [sound_intros]: "keeps (all_sound A) (send_mail m)"
  unfolding send_mail_def by (rule keeps_modify) (simp add: all_sound_def)

lemma sound_log_as [sound_intros]: "keeps (all_sound A) (log_as i u ls)"
  unfolding log_as_def getFullName_def by (intro keeps_intros sound_intros)

lemma sound_notify [sound_intros]:
  "keeps (all_sound A) (notify_confirmation i)" "keeps (all_sound A) (notify_cancellation i)"
  "keeps (all_sound A) (notify_rejection i)" "keeps (all_sound A) (notify_occ_cancellation i k)"
  "keeps (all_sound A) (notify_occ_rejection i k)"
  unfolding notify_confirmation_def notify_cancellation_def notify_rejection_def
    notify_occ_cancellation_def notify_occ_rejection_def
  by (intro keeps_intros sound_intros)+

lemma upd_resv_twice:
  "andthen (upd_resv i f) (andthen (upd_resv i g) k) = andthen (upd_resv i (g \<circ> f)) k"
  by (rule ext) (simp add: upd_resv_def)

lemma shape_ok_map:
  assumes "\<And>occ. o_start_dt (f occ) = o_start_dt occ" "\<And>occ. o_end_dt (f occ) = o_end_dt occ"
  shows "shape_ok (r\<lparr>occurrences := map f (occurrences r)\<rparr>) \<longleftrightarrow> shape_ok r"
  by (rule shape_ok_shape) (simp add: resv_shape_def repetition_def comp_def occ_span_def assms)

lemma sound_cancel: "sound r \<Longrightarrow> sound (cancel_valid (r\<lparr>is_cancelled := True, rejection_reason := b\<rparr>))"
proof -
  assume "sound r"
  moreover have "shape_ok (r\<lparr>is_cancelled := True, rejection_reason := b\<rparr>) = shape_ok r"
    by (rule shape_ok_shape) (simp add: resv_shape_def repetition_def)
  ultimately have "shape_ok (cancel_valid (r\<lparr>is_cancelled := True, rejection_reason := b\<rparr>))"
    unfolding cancel_valid_def sound_def by (subst shape_ok_map) simp_all
  then show ?thesis
    unfolding sound_def live_ok_def live_def by (auto simp: cancel_valid_def occ_is_valid_def)
qed

lemma sound_reject: "sound r \<Longrightarrow> sound (reject_valid b (r\<lparr>is_rejected := True, rejection_reason := b\<rparr>))"
proof -
  assume "sound r"
  moreover have "shape_ok (r\<lparr>is_rejected := True, rejection_reason := b\<rparr>) = shape_ok r"
    by (rule shape_ok_shape) (simp add: resv_shape_def repetition_def)
  ultimately have "shape_ok (reject_valid b (r\<lparr>is_rejected := True, rejection_reason := b\<rparr>))"
    unfolding reject_valid_def sound_def by (subst shape_ok_map) simp_all
  then show ?thesis
    unfolding sound_def live_ok_def live_def by (auto simp: reject_valid_def occ_is_valid_def)
qed

lemma sound_resv_cancel [sound_intros]: "keeps (all_sound A) (resv_cancel i u reason silent)"
  unfolding resv_cancel_def upd_resv_twice
  by (intro keeps_intros sound_intros keeps_all_sound_upd) (simp add: sound_cancel)

lemma sound_resv_reject [sound_intros]: "keeps (all_sound A) (resv_reject i u reason silent)"
  unfolding resv_reject_def upd_resv_twice
  by (intro keeps_intros sound_intros keeps_all_sound_upd) (simp add: sound_reject)

text \<open>A call on an occurrence reaches the occurrence only when another valid one stays.\<close>

lemma distinct_starts:
  assumes "shape_ok r" "a \<in> set (occurrences r)" "b \<in> set (occurrences r)" "o_start_dt a = o_start_dt b"
  shows "a = b"
  using assms by (auto simp: shape_ok_def distinct_map inj_on_def occ_date_def)

lemma another_valid:
  assumes ok: "shape_ok r" and v: "\<exists>occ \<in> set (occurrences r). occ_is_valid occ"
    and no: "\<not> (length (take 2 (filter occ_is_valid (occurrences r))) = 1 \<and>
                o_start_dt (take 2 (filter occ_is_valid (occurrences r)) ! 0) = k)"
  shows "\<exists>occ \<in> set (occurrences r). occ_is_valid occ \<and> o_start_dt occ \<noteq> k"
proof (rule ccontr)
  assume "\<not> ?thesis"
  then have all: "o_start_dt occ = k" if "occ \<in> set (filter occ_is_valid (occurrences r))" for occ
    using that by auto
  have dist: "distinct (filter occ_is_valid (occurrences r))"
    using ok by (simp add: shape_ok_def distinct_map)
  obtain a xs where xs: "filter occ_is_valid (occurrences r) = a # xs"
    using v by (metis empty_filter_conv neq_Nil_conv)
  have "xs = []"
  proof (rule ccontr)
    assume "xs \<noteq> []"
    then obtain b ys where "xs = b # ys" by (cases xs) auto
    with xs have "a \<in> set (filter occ_is_valid (occurrences r))" "b \<in> set (filter occ_is_valid (occurrences r))"
      and "a \<noteq> b" using dist by auto
    with all distinct_starts [OF ok, of a b] show False by simp
  qed
  with xs no all [of a] show False by simp
qed

lemma sound_set_occ:
  assumes r: "sound r" and no: "\<not> (length (take 2 (filter occ_is_valid (occurrences r))) = 1 \<and>
                o_start_dt (take 2 (filter occ_is_valid (occurrences r)) ! 0) = k)"
    and f: "\<And>occ. o_start_dt (f occ) = o_start_dt occ" "\<And>occ. o_end_dt (f occ) = o_end_dt occ"
    "\<And>occ. \<not> occ_is_valid (f occ)"
  shows "sound (set_occ k f r)"
proof -
  have "shape_ok (set_occ k f r)"
    using r unfolding set_occ_def sound_def by (subst shape_ok_map) (simp_all add: f)
  moreover have "live_ok (set_occ k f r)"
  proof (cases "live r")
    case True
    with r have "\<exists>occ \<in> set (occurrences r). occ_is_valid occ" by (simp add: sound_def live_ok_def)
    with r no obtain occ where "occ \<in> set (occurrences r)" "occ_is_valid occ" "o_start_dt occ \<noteq> k"
      using another_valid [of r k] unfolding sound_def by auto
    with True show ?thesis by (force simp: live_ok_def live_def set_occ_def)
  next
    case False
    with r have "\<forall>occ \<in> set (occurrences r). \<not> occ_is_valid occ" by (simp add: sound_def live_ok_def)
    with False f(3) show ?thesis by (auto simp: live_ok_def live_def set_occ_def)
  qed
  ultimately show ?thesis by (simp add: sound_def)
qed

lemma sound_proxy:
  assumes m: "keeps (all_sound A) m" and k: "keeps (all_sound A) g"
    and f: "\<And>occ. o_start_dt (f occ) = o_start_dt occ" "\<And>occ. o_end_dt (f occ) = o_end_dt occ"
      "\<And>occ. \<not> occ_is_valid (f occ)"
  shows "keeps (all_sound A) (proxy_to_reservation True i k m (andthen (upd_occ i k f) g))"
proof (rule keepsI)
  fix s assume s: "all_sound A s"
  let ?v = "take 2 (valid_occurrences s i)"
  show "all_sound A (snd (proxy_to_reservation True i k m (andthen (upd_occ i k f) g) s))"
  proof (cases "\<not> is_repeating (resv s i) \<or> (length ?v = 1 \<and> o_start_dt (?v ! 0) = k)")
    case True
    with keepsD [OF m s] show ?thesis by (auto simp: proxy_to_reservation_def Let_def)
  next
    case False
    have "all_sound A (s\<lparr>resv := (resv s)(i := set_occ k f (resv s i))\<rparr>)"
      using s False sound_set_occ [of "resv s i" k f] f
      by (auto simp: all_sound_def valid_occurrences_def)
    from keepsD [OF k this] False show ?thesis
      by (auto simp: proxy_to_reservation_def Let_def upd_occ_def upd_resv_def)
  qed
qed

lemma sound_occ_cancel [sound_intros]: "keeps (all_sound A) (occ_cancel fmt i k u reason silent True)"
  unfolding occ_cancel_def occ_cancel_self_def
  by (intro sound_proxy sound_intros keeps_intros) (simp_all add: occ_is_valid_def)

lemma sound_occ_reject [sound_intros]: "keeps (all_sound A) (occ_reject fmt i k u reason silent True)"
  unfolding occ_reject_def occ_reject_self_def
  by (intro sound_proxy sound_intros keeps_intros) (simp_all add: occ_is_valid_def)

text \<open>Both together: a program that decays and keeps reservations sound keeps the invariant.\<close>

lemma rb_inv_kept:
  assumes "\<And>s. keeps (decays s) m" "\<And>A. keeps (all_sound A) m"
  shows "keeps rb_inv m"
proof (rule keepsI)
  fix s assume s: "rb_inv s"
  have d: "decays s (snd (m s))" using assms(1) by (simp add: keepsD)
  have "all_sound (set (resv_ids s)) (snd (m s))"
    using assms(2) s by (simp add: keepsD rb_inv_def)
  with s d show "rb_inv (snd (m s))"
    unfolding rb_inv_def by (simp add: ids_ok_decays no_clash_decays decays_fields)
qed

lemma status_keeps_inv:
  "keeps rb_inv (resv_cancel i u reason silent)" "keeps rb_inv (resv_reject i u reason silent)"
  "keeps rb_inv (occ_cancel fmt i k u reason silent True)" "keeps rb_inv (occ_reject fmt i k u reason silent True)"
  by (rule rb_inv_kept, intro decays_intros, intro sound_intros)+

section \<open>Acceptance\<close>

text \<open>
  The loop of \<open>accept\<close> over the colliding occurrences: the state does not change, and the method
  returns only when there are none.
\<close>

lemma reject_one_argument: "\<exists>e. occ_reject_one_argument j k s = (Inl e, s)"
  by (simp add: occ_reject_one_argument_def proxy_to_reservation_def Let_def)

lemma overlapping_rows:
  "(j, occ) \<in> set (occ_find_overlapping_with s room occs (Some i)) \<longleftrightarrow>
     j \<in> set (resv_ids s) \<and> j \<noteq> i \<and> room_id (resv s j) = room \<and> occ \<in> set (occurrences (resv s j)) \<and>
     occ_is_valid occ \<and> filter_overlap occs occ"
  by (auto simp: occ_find_overlapping_with_def occ_rows_iff)

lemma filter_overlap_iff:
  "filter_overlap occs occ \<longleftrightarrow> occs = [] \<or> (\<exists>c \<in> set occs. overlaps (occ_span occ) (occ_span c) False)"
  by (auto simp: filter_overlap_def sql_or_def db_dates_overlap_eq occ_span_def)

lemma clash_rows:
  assumes "clash (resv s i) (resv s j)" "i \<noteq> j" "j \<in> set (resv_ids s)"
  shows "\<exists>occ. (j, occ) \<in> set (occ_find_overlapping_with s (room_id (resv s i)) (valid_occurrences s i) (Some i))"
proof -
  obtain a b where a: "a \<in> set (occurrences (resv s i))" "occ_is_valid a"
    and b: "b \<in> set (occurrences (resv s j))" "occ_is_valid b"
    and o: "overlaps (occ_span b) (occ_span a) False" and room: "room_id (resv s i) = room_id (resv s j)"
    using assms(1) overlaps_sym unfolding clash_def valid_keys_def by auto
  have "filter_overlap (valid_occurrences s i) b"
    using a o unfolding filter_overlap_iff valid_occurrences_def by auto
  with assms b room show ?thesis by (intro exI [of _ b]) (simp add: overlapping_rows)
qed

lemma log_as_run:
  "log_as i (Some v) ls s = (Inr (), s\<lparr>resv := (resv s)(i :=
     (resv s i)\<lparr>edit_logs := edit_logs (resv s i) @ [\<lparr>user_name = full_name v, info = ls\<rparr>]\<rparr>)\<rparr>)"
  by (simp add: log_as_def getFullName_def add_edit_log_def upd_resv_def)

definition accepted_row :: "user \<Rightarrow> reservation \<Rightarrow> reservation" where
  "accepted_row v r = r\<lparr>is_accepted := True,
     edit_logs := edit_logs r @ [\<lparr>user_name = full_name v, info = [''Reservation accepted'']\<rparr>]\<rparr>"

definition accepted_state :: "nat \<Rightarrow> user \<Rightarrow> rb \<Rightarrow> rb" where
  "accepted_state i v s = s\<lparr>resv := (resv s)(i := accepted_row v (resv s i)), mails := mails s @ [MConfirmation i]\<rparr>"

lemma accepted_state_sel [simp]:
  "resv (accepted_state i v s) = (resv s)(i := accepted_row v (resv s i))"
  "resv_ids (accepted_state i v s) = resv_ids s" "next_resv (accepted_state i v s) = next_resv s"
  "occurrences (accepted_row v r) = occurrences r" "room_id (accepted_row v r) = room_id r"
  "is_accepted (accepted_row v r)" "live (accepted_row v r) = live r" "is_repeating (accepted_row v r) = is_repeating r"
  by (simp_all add: accepted_state_def accepted_row_def live_def is_repeating_def)

lemma accept_hits:
  "occ_find_overlapping_with (accepted_state i v s) (room_id (resv (accepted_state i v s) i))
     (valid_occurrences (accepted_state i v s) i) (Some i)
   = occ_find_overlapping_with s (room_id (resv s i)) (valid_occurrences s i) (Some i)"
proof -
  have "occ_rows (accepted_state i v s) = occ_rows s"
    by (auto simp: occ_rows_def intro!: arg_cong [of _ _ concat])
  then show ?thesis
    unfolding occ_find_overlapping_with_def valid_occurrences_def by (auto intro!: filter_cong)
qed

lemma accept_run:
  "resv_accept i (Some v) s =
     (if occ_find_overlapping_with s (room_id (resv s i)) (valid_occurrences s i) (Some i) = []
      then (Inr (), accepted_state i v s) else (Inl TypeError, accepted_state i v s))"
proof -
  let ?t = "accepted_state i v s"
  let ?hits = "occ_find_overlapping_with s (room_id (resv s i)) (valid_occurrences s i) (Some i)"
  let ?body = "\<lambda>(j, occ). bnd (gets (\<lambda>t. occ_valid_at t j (o_start_dt occ)))
                        (\<lambda>v. when_do v (occ_reject_one_argument j (o_start_dt occ)))"
  have "resv_accept i (Some v) s = for_each (occ_find_overlapping_with ?t (room_id (resv ?t i))
      (valid_occurrences ?t i) (Some i)) ?body ?t"
    by (simp add: resv_accept_def upd_resv_def log_as_run notify_confirmation_def send_mail_def
        accepted_state_def accepted_row_def)
  also have "\<dots> = for_each ?hits ?body ?t" by (simp only: accept_hits)
  also have "\<dots> = (if ?hits = [] then (Inr (), ?t) else (Inl TypeError, ?t))"
  proof (cases ?hits)
    case (Cons p hs)
    obtain j occ where p: "p = (j, occ)" by (cases p) simp
    from Cons p have "(j, occ) \<in> set ?hits" by simp
    then have "occ_valid_at ?t j (o_start_dt occ)"
      unfolding overlapping_rows occ_valid_at_def by auto
    with Cons p show ?thesis
      by (simp add: occ_reject_one_argument_def proxy_to_reservation_def Let_def)
  qed (simp add: ret_run)
  finally show ?thesis .
qed

text \<open>An acceptance that returns keeps the invariant: nothing overlaps.\<close>

lemma accept_keeps_inv:
  assumes inv: "rb_inv s" and i: "i \<in> set (resv_ids s)" and run: "resv_accept i (Some v) s = (Inr (), s')"
  shows "rb_inv s'"
proof -
  have none: "occ_find_overlapping_with s (room_id (resv s i)) (valid_occurrences s i) (Some i) = []"
    and s': "s' = accepted_state i v s"
    using run unfolding accept_run by (auto split: if_splits)
  have free: "\<not> clash (resv s i) (resv s j)" if "j \<in> set (resv_ids s)" "j \<noteq> i" for j
    using clash_rows [of s i j] that none by auto
  have keys: "valid_keys (accepted_row v r) = valid_keys r" for r
    by (simp add: valid_keys_def)
  have clash: "clash (resv s' a) (resv s' b) = clash (resv s a) (resv s b)" for a b
    by (simp add: clash_def s' keys)
  have "sound (accepted_row v r) = sound r" for r
    by (simp add: sound_def shape_ok_def live_ok_def)
  then have "all_sound (set (resv_ids s')) s'"
    using inv by (auto simp: all_sound_def rb_inv_def s')
  moreover have "no_clash s'"
    unfolding no_clash_def clash
  proof (intro ballI impI)
    fix a b assume ab: "a \<in> set (resv_ids s')" "b \<in> set (resv_ids s')" "a \<noteq> b" "is_accepted (resv s' a)"
    show "\<not> clash (resv s a) (resv s b)"
    proof (cases "a = i")
      case True
      with ab free [of b] show ?thesis by (simp add: s')
    next
      case False
      with ab inv show ?thesis by (simp add: s' rb_inv_def no_clash_def)
    qed
  qed
  ultimately show ?thesis using inv by (simp add: rb_inv_def ids_ok_def s')
qed

end
