(* ===== verification/RB_Rooms.thy ===== *)
theory RB_Rooms
  imports RB_Inv
begin

text \<open>
  What a room and a blocking decide about a user and a period: \<open>models/rooms.py\<close> (who may book,
  the checks of \<open>create_from_data\<close> and \<open>modify\<close>, \<open>filter_available\<close>) and \<open>models/blockings.py\<close>.  The
  values that \<open>@cached\<close> keeps are the computed ones.
\<close>

section \<open>Ownership and permissions\<close>

definition get_attribute_value :: "room \<Rightarrow> string \<Rightarrow> string option \<Rightarrow> string option" where
  "get_attribute_value rm name d = (case map_of (room_attributes rm) name of None \<Rightarrow> d | Some v \<Rightarrow> Some v)"

text \<open>The answer \<open>None\<close> of a room without owner counts as false for every caller.\<close>

definition is_owned_by :: "room \<Rightarrow> user \<Rightarrow> bool" where
  "is_owned_by rm u = (if owner_id rm = [] then False
     else if owner_id rm = av_id u then True
     else (let manager_group = get_attribute_value rm ''manager-group'' None in
       if \<not> truthy manager_group then False else the manager_group \<in> set (av_groups u)))"

definition can_be_booked_gen :: "rb \<Rightarrow> room \<Rightarrow> user option \<Rightarrow> bool \<Rightarrow> bool \<Rightarrow> bool" where
  "can_be_booked_gen s rm avatar prebook ignore_admin = (case avatar of
       None \<Rightarrow> False
     | Some u \<Rightarrow>
         if \<not> rb_check_user_access s u then False
         else if (\<not> ignore_admin \<and> isRBAdmin s u) \<or> (is_owned_by rm u \<and> is_active rm) then True
         else if is_active rm \<and> is_reservable rm \<and> (prebook \<or> \<not> reservations_need_confirmation rm)
         then (let group_name = get_attribute_value rm ''allowed-booking-group'' None in
           \<not> truthy group_name \<or> the group_name \<in> set (av_groups u))
         else False)"

definition can_be_booked :: "rb \<Rightarrow> room \<Rightarrow> user option \<Rightarrow> bool \<Rightarrow> bool" where
  "can_be_booked s rm avatar ignore_admin = can_be_booked_gen s rm avatar False ignore_admin"

definition can_be_prebooked :: "rb \<Rightarrow> room \<Rightarrow> user option \<Rightarrow> bool \<Rightarrow> bool" where
  "can_be_prebooked s rm avatar ignore_admin = can_be_booked_gen s rm avatar True ignore_admin"

definition can_be_overriden :: "rb \<Rightarrow> room \<Rightarrow> user \<Rightarrow> bool" where
  "can_be_overriden s rm u \<longleftrightarrow> isRBAdmin s u \<or> is_owned_by rm u"

definition room_kind :: "room \<Rightarrow> string" where
  "room_kind rm = (let has_booking_groups = map_of (room_attributes rm) ''allowed-booking-group'' \<noteq> None in
     if \<not> is_reservable rm \<or> has_booking_groups then ''privateRoom''
     else if is_reservable rm \<and> reservations_need_confirmation rm then ''moderatedRoom''
     else if is_reservable rm then ''basicRoom'' else [])"

section \<open>Checks of a period\<close>

text \<open>
  Both checks return a boolean when called with \<open>quiet\<close> and raise otherwise; the early returns of
  \<open>check_advance_days\<close> give \<open>None\<close>, also with \<open>quiet\<close>.
\<close>

definition check_advance_days :: "rb \<Rightarrow> room \<Rightarrow> int \<Rightarrow> user option \<Rightarrow> bool \<Rightarrow> exn + bool option" where
  "check_advance_days s rm fin user quiet =
     (if max_advance_days rm = None \<or> max_advance_days rm = Some 0 then Inr None
      else if (case user of None \<Rightarrow> False | Some u \<Rightarrow> isRBAdmin s u \<or> is_owned_by rm u) then Inr None
      else (let advance_days = fin - dt_date (rb_now s); ok = advance_days < the (max_advance_days rm) in
        if quiet then Inr (Some ok)
        else if \<not> ok then Inl (IndicoError ''You cannot book this room more than {} days in advance'')
        else Inr None))"

definition check_bookable_hours :: "rb \<Rightarrow> room \<Rightarrow> int \<Rightarrow> int \<Rightarrow> user option \<Rightarrow> bool \<Rightarrow> exn + bool" where
  "check_bookable_hours s rm start_time end_time user quiet =
     (if (case user of None \<Rightarrow> False | Some u \<Rightarrow> isRBAdmin s u \<or> is_owned_by rm u) then Inr True
      else if bookable_hours rm = [] then Inr True
      else if \<exists>bt \<in> set (bookable_hours rm). fits_period bt start_time end_time then Inr True
      else if quiet then Inr False
      else Inl (IndicoError ''Room cannot be booked at this time''))"

section \<open>Blockings\<close>

definition created_by_user :: "rb \<Rightarrow> blocking \<Rightarrow> user option" where
  "created_by_user s b = get_avatar s (Some (bl_created_by_id b))"

definition same_user :: "user option \<Rightarrow> user \<Rightarrow> bool" where
  "same_user a u \<longleftrightarrow> (case a of None \<Rightarrow> False | Some v \<Rightarrow> av_id v = av_id u)"

definition blocking_can_be_modified :: "rb \<Rightarrow> blocking \<Rightarrow> user option \<Rightarrow> bool" where
  "blocking_can_be_modified s b user = (case user of None \<Rightarrow> False
     | Some u \<Rightarrow> same_user (created_by_user s b) u \<or> av_admin u)"

definition can_be_overridden :: "rb \<Rightarrow> blocking \<Rightarrow> user option \<Rightarrow> room option \<Rightarrow> bool \<Rightarrow> bool" where
  "can_be_overridden s b user room explicit_only = (case user of
       None \<Rightarrow> False
     | Some u \<Rightarrow>
         if same_user (created_by_user s b) u then True
         else if \<not> explicit_only \<and>
                 (av_admin u \<or> (case room of None \<Rightarrow> False | Some rm \<Rightarrow> is_owned_by rm u)) then True
         else (\<exists>p \<in> set (allowed b). containsUser p u))"

text \<open>
  \<open>Room.get_blocked_rooms\<close>: the join of the blocked rooms of the room with their blockings.  The
  dates of a blocking are columns of type \<open>DATE\<close> and \<open>create_occurrences\<close> passes datetimes, which
  the database compares with the midnight at which each of the dates starts.
\<close>

definition blocked_room_rows :: "rb \<Rightarrow> (nat \<times> blocked_room) list" where
  "blocked_room_rows s = concat (map (\<lambda>b. map (\<lambda>br. (b, br)) (blocked_rooms (blockings s b))) (blocking_ids s))"

definition is_active_at_dt :: "blocking \<Rightarrow> int \<Rightarrow> bool" where
  "is_active_at_dt b d \<longleftrightarrow> combine (start_date b) 0 \<le> d \<and> d \<le> combine (end_date b) 0"

definition get_blocked_rooms :: "rb \<Rightarrow> int \<Rightarrow> int list \<Rightarrow> br_state list \<Rightarrow> (nat \<times> blocked_room) list" where
  "get_blocked_rooms s room dates states =
     filter (\<lambda>(b, br). br_room_id br = room \<and> sql_or (map (is_active_at_dt (blockings s b)) dates) \<and>
                       state br \<in> set states) (blocked_room_rows s)"

section \<open>Series of occurrences\<close>

definition new_occurrence :: "int \<Rightarrow> int \<Rightarrow> occurrence" where
  "new_occurrence start fin = \<lparr>o_start_dt = start, o_end_dt = fin, notification_sent = False,
     o_is_cancelled = False, o_is_rejected = False, o_rejection_reason = None\<rparr>"

definition iter_create_occurrences :: "rrule \<Rightarrow> int \<Rightarrow> int \<Rightarrow> int \<times> int \<Rightarrow> exn + occurrence list" where
  "iter_create_occurrences rr start fin rep = (case iter_start_time rr start fin rep of
       Inl e \<Rightarrow> Inl e
     | Inr starts \<Rightarrow> Inr (map (\<lambda>s. new_occurrence s (combine (dt_date s) (dt_time fin))) starts))"

definition create_series :: "rrule \<Rightarrow> int \<Rightarrow> int \<Rightarrow> int \<times> int \<Rightarrow> exn + occurrence list" where
  "create_series rr start fin rep = iter_create_occurrences rr start fin rep"

text \<open>
  \<open>Room.filter_available\<close>: no valid occurrence in the way (of an accepted reservation only, unless
  pre-bookings count) and no blocking that covers the whole period.
\<close>

definition filter_available ::
    "rrule \<Rightarrow> rb \<Rightarrow> int \<Rightarrow> int \<Rightarrow> int \<times> int \<Rightarrow> bool \<Rightarrow> bool \<Rightarrow> exn + (int \<Rightarrow> bool)" where
  "filter_available rr s start fin rep include_pre_bookings include_pending_blockings =
     (case create_series rr start fin rep of
       Inl e \<Rightarrow> Inl e
     | Inr dummy \<Rightarrow> Inr (\<lambda>room.
         \<not> (\<exists>(i, occ) \<in> set (occ_rows s). room_id (resv s i) = room \<and> occ_is_valid occ \<and>
               filter_overlap dummy occ \<and> (include_pre_bookings \<or> is_accepted (resv s i))) \<and>
         \<not> (\<exists>(b, br) \<in> set (blocked_room_rows s). br_room_id br = room \<and>
               (state br = Accepted \<or> (include_pending_blockings \<and> state br = Pending)) \<and>
               start_date (blockings s b) \<le> dt_date start \<and> dt_date fin \<le> end_date (blockings s b))))"

section \<open>Lemmas on series\<close>

lemma starts_of_series:
  assumes rr: "rrule_laws rr" and starts: "iter_start_time rr start fin (f, n) = Inr xs"
  shows "sorted_wrt (<) xs" "\<And>d. d \<in> set xs \<Longrightarrow> dt_time d = dt_time start"
    "\<And>d. d \<in> set xs \<Longrightarrow> start \<le> d" "f = NEVER_F \<Longrightarrow> xs = [start]"
proof -
  consider "f = NEVER_F" "xs = [start]" | "f \<noteq> NEVER_F" "xs = day_steps start fin 1"
    | k where "f \<noteq> NEVER_F" "xs = day_steps start fin (7 * k)" "0 < k"
    | "f \<noteq> NEVER_F" "xs = rr MONTHLY start fin 1 [weekday (dt_date start)] (Some (day_of_month (dt_date start) div 7 + 1))"
    using starts rr unfolding iter_start_time_def rrule_laws_def
    by (auto split: if_splits simp: Let_def)
  then have "sorted_wrt (<) xs \<and> (\<forall>d \<in> set xs. dt_time d = dt_time start \<and> start \<le> d) \<and> (f = NEVER_F \<longrightarrow> xs = [start])"
  proof cases
    case 3
    with day_steps_sorted [of "7 * k" start fin] day_steps_mem(1,3) [of _ start fin "7 * k"]
    show ?thesis by auto
  next
    case 4
    with rr show ?thesis unfolding rrule_laws_def by blast
  qed (auto simp: day_steps_sorted day_steps_mem)
  then show "sorted_wrt (<) xs" "\<And>d. d \<in> set xs \<Longrightarrow> dt_time d = dt_time start"
    "\<And>d. d \<in> set xs \<Longrightarrow> start \<le> d" "f = NEVER_F \<Longrightarrow> xs = [start]" by auto
qed

lemma dates_of_starts:
  assumes "sorted_wrt (<) xs" "\<And>d. d \<in> set xs \<Longrightarrow> dt_time d = t"
  shows "distinct (map dt_date xs)"
proof -
  have "inj_on dt_date (set xs)"
    using assms(2) by (metis combine_date_time inj_onI)
  with assms(1) show ?thesis
    by (simp add: distinct_map strict_sorted_iff)
qed

text \<open>A series is sound: each occurrence within its day, on days of their own.\<close>

lemma series_shape:
  assumes rr: "rrule_laws rr" and series: "iter_create_occurrences rr start fin rep = Inr occs"
    and times: "dt_time start < dt_time fin"
  shows "distinct (map occ_date occs)" "\<And>occ. occ \<in> set occs \<Longrightarrow> day_span (occ_span occ)"
    "\<And>occ. occ \<in> set occs \<Longrightarrow> occ_is_valid occ" "fst rep = NEVER_F \<Longrightarrow> length occs = 1"
proof -
  obtain f n where rep: "rep = (f, n)" by (cases rep)
  obtain xs where xs: "iter_start_time rr start fin (f, n) = Inr xs"
    and occs: "occs = map (\<lambda>s. new_occurrence s (combine (dt_date s) (dt_time fin))) xs"
    using series unfolding rep iter_create_occurrences_def by (auto split: sum.splits)
  note st = starts_of_series [OF rr xs]
  have "map occ_date occs = map dt_date xs"
    by (simp add: occs occ_date_def new_occurrence_def)
  with dates_of_starts [OF st(1,2)] show "distinct (map occ_date occs)" by simp
  show "occ_is_valid occ" if "occ \<in> set occs" for occ
    using that by (auto simp: occs new_occurrence_def occ_is_valid_def)
  show "length occs = 1" if "fst rep = NEVER_F"
    using st(4) that by (simp add: rep occs)
  show "day_span (occ_span occ)" if mem: "occ \<in> set occs" for occ
  proof -
    obtain d where d: "d \<in> set xs" "occ = new_occurrence d (combine (dt_date d) (dt_time fin))"
      using mem by (auto simp: occs)
    have "dt_date (combine (dt_date d) (dt_time fin)) = dt_date d"
      "dt_time (combine (dt_date d) (dt_time fin)) = dt_time fin"
      by (simp_all add: date_simps)
    with d st(2) [OF d(1)] times show ?thesis
      by (simp add: day_span_def proper_def occ_span_def new_occurrence_def dt_less_same_date)
  qed
qed

end
