(* ===== verification/RB_Booking.thy ===== *)
theory RB_Booking
  imports RB_Rooms "HOL-Library.AList"
begin

text \<open>
  Making and changing a booking: \<open>Reservation.create_occurrences\<close>, \<open>create_from_data\<close> and
  \<open>modify\<close> of \<open>models/reservations.py\<close>.  \<open>fmt\<close> prints a date in the log of a reservation.
\<close>

section \<open>Occurrences of a reservation\<close>

definition create_series_for_reservation :: "rrule \<Rightarrow> nat \<Rightarrow> (rb, unit) prog" where
  "create_series_for_reservation rr i = bnd get_st (\<lambda>s. let r = resv s i in
     case iter_create_occurrences rr (r_start_dt r) (r_end_dt r) (repetition r) of
       Inl e \<Rightarrow> raise_exn e
     | Inr occs \<Rightarrow> upd_resv i (\<lambda>r. r\<lparr>occurrences := occurrences r @ occs\<rparr>))"

text \<open>
  \<open>get_conflicting_occurrences\<close>: for every valid occurrence with a collision, the confirmed and the
  pending ones it collides with.  The dict of the source is a list in the order of its insertions.
\<close>

definition conflicts_of ::
    "rb \<Rightarrow> nat \<Rightarrow> (nat \<times> occurrence) list \<Rightarrow> occurrence \<Rightarrow> (nat \<times> occurrence) list \<times> (nat \<times> occurrence) list" where
  "conflicts_of s i colliding occ =
     (let hits = filter (\<lambda>(j, c). occ_overlaps s (Some i, occ) (Some j, c) False = Inr True) colliding
      in (filter (\<lambda>(j, c). is_accepted (resv s j)) hits, filter (\<lambda>(j, c). \<not> is_accepted (resv s j)) hits))"

definition get_conflicting_occurrences ::
    "rb \<Rightarrow> nat \<Rightarrow> exn + (int \<times> (nat \<times> occurrence) list \<times> (nat \<times> occurrence) list) list" where
  "get_conflicting_occurrences s i =
     (let valid = valid_occurrences s i;
          colliding = occ_find_overlapping_with s (room_id (resv s i)) valid (Some i)
      in if \<exists>occ \<in> set valid. \<exists>(j, c) \<in> set colliding. occ_overlaps s (Some i, occ) (Some j, c) False = Inl ValueError
         then Inl ValueError
         else Inr (filter (\<lambda>(k, conf, pend). conf \<noteq> [] \<or> pend \<noteq> [])
                (map (\<lambda>occ. (o_start_dt occ, conflicts_of s i colliding occ)) valid)))"

text \<open>
  The three checks of \<open>create_occurrences\<close>.  The list of occurrences a loop runs over is read once;
  whether one of them is still valid is read when its turn comes.
\<close>

definition skip_nonbookable :: "(int \<Rightarrow> string) \<Rightarrow> nat \<Rightarrow> bool \<Rightarrow> user \<Rightarrow> (rb, unit) prog" where
  "skip_nonbookable fmt i skip_conflicts user = bnd get_st (\<lambda>s. when_do (\<not> isRBAdmin s user)
     (bnd (self_room i) (\<lambda>rm.
       for_each (occurrences (resv s i)) (\<lambda>occ.
         bnd (gets (\<lambda>t. occ_valid_at t i (o_start_dt occ))) (\<lambda>valid.
           when_do (valid \<and> (\<exists>nbd \<in> set (nonbookable_periods rm). snd nbd > r_start_dt (resv s i) \<and>
                       nbp_overlaps nbd (o_start_dt occ) (o_end_dt occ)))
             (if \<not> skip_conflicts then raise_exn ConflictingOccurrences
              else occ_cancel fmt i (o_start_dt occ) (Some user) (Some ''Skipped due to nonbookable date'')
                     True False))))))"

definition skip_blocked :: "(int \<Rightarrow> string) \<Rightarrow> nat \<Rightarrow> user \<Rightarrow> (rb, unit) prog" where
  "skip_blocked fmt i user = bnd (self_room i) (\<lambda>rm. bnd get_st (\<lambda>s.
     for_each (get_blocked_rooms s (rm_id rm) (map o_start_dt (occurrences (resv s i))) [Accepted]) (\<lambda>(b, br).
       let blocking = blockings s b in
       when_do (\<not> can_be_overridden s blocking (Some user) (Some rm) False)
         (for_each (occurrences (resv s i)) (\<lambda>occ.
           bnd (gets (\<lambda>t. occ_valid_at t i (o_start_dt occ))) (\<lambda>valid.
             when_do (valid \<and> is_active_at blocking (dt_date (o_start_dt occ)))
               (occ_cancel fmt i (o_start_dt occ) (Some user)
                  (Some (''Skipped due to collision with a blocking ('' @ bl_reason blocking @ '')''))
                  True False)))))))"

definition skip_conflicting :: "(int \<Rightarrow> string) \<Rightarrow> nat \<Rightarrow> bool \<Rightarrow> user \<Rightarrow> (rb, unit) prog" where
  "skip_conflicting fmt i skip_conflicts user = bnd get_st (\<lambda>s.
     case get_conflicting_occurrences s i of
       Inl e \<Rightarrow> raise_exn e
     | Inr conflicting \<Rightarrow> for_each conflicting (\<lambda>(k, confirmed, pending).
         bnd (gets (\<lambda>t. occ_valid_at t i k)) (\<lambda>valid. when_do valid
           (if confirmed \<noteq> [] then
              (if \<not> skip_conflicts then raise_exn ConflictingOccurrences
               else occ_cancel fmt i k (Some user)
                 (Some (''Skipped due to collision with '' @ str_nat (length confirmed) @ '' reservation(s)''))
                 True False)
            else when_do (pending \<noteq> [] \<and> is_accepted (resv s i))
              (for_each pending (\<lambda>(j, c). occ_reject fmt j (o_start_dt c) (Some user)
                 (Some ''Rejected due to collision with a confirmed reservation'') False True))))))"

definition create_occurrences :: "rrule \<Rightarrow> (int \<Rightarrow> string) \<Rightarrow> nat \<Rightarrow> bool \<Rightarrow> user \<Rightarrow> (rb, unit) prog" where
  "create_occurrences rr fmt i skip_conflicts user =
     andthen (create_series_for_reservation rr i)
     (andthen (skip_nonbookable fmt i skip_conflicts user)
     (andthen (skip_blocked fmt i user)
              (skip_conflicting fmt i skip_conflicts user)))"

section \<open>New bookings\<close>

text \<open>
  The data of the form.  The API call leaves out the equipment and the three flags, which then
  keep the default of their columns; its data has those.
\<close>

record booking_data =
  d_start_dt :: int
  d_end_dt :: int
  d_repeat_frequency :: int
  d_repeat_interval :: int
  d_booked_for_id :: "string option"
  d_contact_email :: string
  d_contact_phone :: string
  d_booking_reason :: string
  d_used_equipment :: "string list"
  d_needs_assistance :: bool
  d_uses_vc :: bool
  d_needs_vc_assistance :: bool

definition new_reservation :: "room \<Rightarrow> booking_data \<Rightarrow> user \<Rightarrow> string \<Rightarrow> bool \<Rightarrow> reservation" where
  "new_reservation rm d user name prebook = \<lparr>
     room_id = rm_id rm, r_start_dt = d_start_dt d, r_end_dt = d_end_dt d,
     repeat_frequency = d_repeat_frequency d, repeat_interval = d_repeat_interval d,
     booked_for_id = d_booked_for_id d, booked_for_name = name, created_by_id = Some (av_id user),
     contact_email = d_contact_email d, contact_phone = d_contact_phone d,
     booking_reason = d_booking_reason d, used_equipment = d_used_equipment d,
     needs_assistance = d_needs_assistance d, uses_vc = d_uses_vc d,
     needs_vc_assistance = d_needs_vc_assistance d,
     is_accepted = \<not> prebook, is_cancelled = False, is_rejected = False, rejection_reason = None,
     edit_logs = [], occurrences = []\<rparr>"

definition add_reservation :: "reservation \<Rightarrow> (rb, nat) prog" where
  "add_reservation r = bnd get_st (\<lambda>s. andthen
     (modify (\<lambda>s. s\<lparr>resv := (resv s)(next_resv s := r), resv_ids := resv_ids s @ [next_resv s],
                    next_resv := Suc (next_resv s)\<rparr>))
     (ret (next_resv s)))"

definition create_from_data ::
    "rrule \<Rightarrow> (int \<Rightarrow> string) \<Rightarrow> room \<Rightarrow> booking_data \<Rightarrow> user \<Rightarrow> bool option \<Rightarrow> (rb, nat) prog" where
  "create_from_data rr fmt rm d user prebook_arg = bnd get_st (\<lambda>s.
     if d_repeat_frequency d = NEVER_F \<and> dt_date (d_start_dt d) \<noteq> dt_date (d_end_dt d)
     then raise_exn ValueError
     else (let prebook = (case prebook_arg of Some b \<Rightarrow> b | None \<Rightarrow> \<not> can_be_booked s rm (Some user) False) in
       if prebook_arg = None \<and> prebook \<and> \<not> can_be_prebooked s rm (Some user) False
       then raise_exn (NoReportError ''You cannot book this room'')
       else bnd (lift_res (check_advance_days s rm (dt_date (d_end_dt d)) (Some user) False)) (\<lambda>_.
         bnd (lift_res (check_bookable_hours s rm (dt_time (d_start_dt d)) (dt_time (d_end_dt d)) (Some user) False)) (\<lambda>_.
         bnd (getFullName (get_avatar s (d_booked_for_id d))) (\<lambda>name.
         bnd (add_reservation (new_reservation rm d user name prebook)) (\<lambda>i.
         andthen (create_occurrences rr fmt i True user)
         (bnd get_st (\<lambda>t.
           if valid_occurrences t i = [] then raise_exn (NoReportError ''Reservation has no valid occurrences'')
           else andthen (send_mail (MCreation i)) (ret i)))))))))"

section \<open>Changes of a booking\<close>

text \<open>The columns a form may change, and their values, each with the type of its column.\<close>

datatype field =
    F_start_dt | F_end_dt | F_repeat_frequency | F_repeat_interval | F_booked_for_id
  | F_contact_email | F_contact_phone | F_booking_reason | F_used_equipment
  | F_needs_assistance | F_uses_vc | F_needs_vc_assistance

datatype fval =
    VDt int | VDate int | VTime int | VInt int | VRep int int
  | VOpt "string option" | VStr string | VNames "string list" | VBool bool

definition populate_fields :: "field list" where
  "populate_fields = [F_start_dt, F_end_dt, F_repeat_frequency, F_repeat_interval, F_booked_for_id,
     F_contact_email, F_contact_phone, F_booking_reason, F_used_equipment,
     F_needs_assistance, F_uses_vc, F_needs_vc_assistance]"

fun field_name :: "field \<Rightarrow> string" where
  "field_name F_start_dt = ''start_dt''" | "field_name F_end_dt = ''end_dt''"
| "field_name F_repeat_frequency = ''repeat_frequency''" | "field_name F_repeat_interval = ''repeat_interval''"
| "field_name F_booked_for_id = ''booked_for_id''" | "field_name F_contact_email = ''contact_email''"
| "field_name F_contact_phone = ''contact_phone''" | "field_name F_booking_reason = ''booking_reason''"
| "field_name F_used_equipment = ''used_equipment''" | "field_name F_needs_assistance = ''needs_assistance''"
| "field_name F_uses_vc = ''uses_vc''" | "field_name F_needs_vc_assistance = ''needs_vc_assistance''"

definition quoted :: "string \<Rightarrow> string" where
  "quoted x = CHR 0x27 # x @ [CHR 0x27]"

definition field_names :: "(string \<times> string) list" where
  "field_names = [
     (''start_dt/date'', ''start date''), (''end_dt/date'', ''end date''),
     (''start_dt/time'', ''start time''), (''end_dt/time'', ''end time''),
     (''repetition'', ''booking type''), (''booked_for_id'', quoted ''Booked for'' @ '' user''),
     (''contact_email'', ''contact email''), (''contact_phone'', ''contact phone number''),
     (''booking_reason'', ''booking reason''), (''used_equipment'', ''list of equipment''),
     (''needs_assistance'', ''option '' @ quoted ''General Assistance''),
     (''uses_vc'', ''option '' @ quoted ''Uses Video Conference''),
     (''needs_vc_assistance'', ''option '' @ quoted ''Video Conference Setup Assistance'')]"

fun get_field :: "field \<Rightarrow> reservation \<Rightarrow> fval" where
  "get_field F_start_dt r = VDt (r_start_dt r)" | "get_field F_end_dt r = VDt (r_end_dt r)"
| "get_field F_repeat_frequency r = VInt (repeat_frequency r)"
| "get_field F_repeat_interval r = VInt (repeat_interval r)"
| "get_field F_booked_for_id r = VOpt (booked_for_id r)" | "get_field F_contact_email r = VStr (contact_email r)"
| "get_field F_contact_phone r = VStr (contact_phone r)" | "get_field F_booking_reason r = VStr (booking_reason r)"
| "get_field F_used_equipment r = VNames (used_equipment r)"
| "get_field F_needs_assistance r = VBool (needs_assistance r)" | "get_field F_uses_vc r = VBool (uses_vc r)"
| "get_field F_needs_vc_assistance r = VBool (needs_vc_assistance r)"

fun data_field :: "field \<Rightarrow> booking_data \<Rightarrow> fval" where
  "data_field F_start_dt d = VDt (d_start_dt d)" | "data_field F_end_dt d = VDt (d_end_dt d)"
| "data_field F_repeat_frequency d = VInt (d_repeat_frequency d)"
| "data_field F_repeat_interval d = VInt (d_repeat_interval d)"
| "data_field F_booked_for_id d = VOpt (d_booked_for_id d)" | "data_field F_contact_email d = VStr (d_contact_email d)"
| "data_field F_contact_phone d = VStr (d_contact_phone d)" | "data_field F_booking_reason d = VStr (d_booking_reason d)"
| "data_field F_used_equipment d = VNames (d_used_equipment d)"
| "data_field F_needs_assistance d = VBool (d_needs_assistance d)" | "data_field F_uses_vc d = VBool (d_uses_vc d)"
| "data_field F_needs_vc_assistance d = VBool (d_needs_vc_assistance d)"

fun set_field :: "field \<Rightarrow> booking_data \<Rightarrow> reservation \<Rightarrow> reservation" where
  "set_field F_start_dt d r = r\<lparr>r_start_dt := d_start_dt d\<rparr>"
| "set_field F_end_dt d r = r\<lparr>r_end_dt := d_end_dt d\<rparr>"
| "set_field F_repeat_frequency d r = r\<lparr>repeat_frequency := d_repeat_frequency d\<rparr>"
| "set_field F_repeat_interval d r = r\<lparr>repeat_interval := d_repeat_interval d\<rparr>"
| "set_field F_booked_for_id d r = r\<lparr>booked_for_id := d_booked_for_id d\<rparr>"
| "set_field F_contact_email d r = r\<lparr>contact_email := d_contact_email d\<rparr>"
| "set_field F_contact_phone d r = r\<lparr>contact_phone := d_contact_phone d\<rparr>"
| "set_field F_booking_reason d r = r\<lparr>booking_reason := d_booking_reason d\<rparr>"
| "set_field F_used_equipment d r = r\<lparr>used_equipment := d_used_equipment d\<rparr>"
| "set_field F_needs_assistance d r = r\<lparr>needs_assistance := d_needs_assistance d\<rparr>"
| "set_field F_uses_vc d r = r\<lparr>uses_vc := d_uses_vc d\<rparr>"
| "set_field F_needs_vc_assistance d r = r\<lparr>needs_vc_assistance := d_needs_vc_assistance d\<rparr>"

definition occurrence_fields :: "field list" where
  "occurrence_fields = [F_start_dt, F_end_dt, F_repeat_frequency, F_repeat_interval]"

text \<open>\<open>changes\<close>, a dict from names to old and new value; assigning to a key keeps its place.\<close>

type_synonym changes = "(string \<times> fval \<times> fval) list"

fun dict_assign :: "'k \<Rightarrow> 'v \<Rightarrow> ('k \<times> 'v) list \<Rightarrow> ('k \<times> 'v) list" where
  "dict_assign k v [] = [(k, v)]"
| "dict_assign k v ((k', v') # xs) = (if k = k' then (k, v) # xs else (k', v') # dict_assign k v xs)"

definition record_change :: "field \<Rightarrow> int \<times> int \<Rightarrow> int \<times> int \<Rightarrow> fval \<Rightarrow> fval \<Rightarrow> changes \<Rightarrow> changes" where
  "record_change f old_rep new_rep old new cs = (case (old, new) of
       (VDt a, VDt b) \<Rightarrow>
         (let cs1 = (if dt_date a \<noteq> dt_date b then dict_assign (field_name f @ ''/date'') (VDate (dt_date a), VDate (dt_date b)) cs else cs)
          in if dt_time a \<noteq> dt_time b then dict_assign (field_name f @ ''/time'') (VTime (dt_time a), VTime (dt_time b)) cs1 else cs1)
     | _ \<Rightarrow> if f = F_repeat_frequency \<or> f = F_repeat_interval
            then dict_assign ''repetition'' (VRep (fst old_rep) (snd old_rep), VRep (fst new_rep) (snd new_rep)) cs
            else dict_assign (field_name f) (old, new) cs)"

text \<open>
  One turn of the loop over the fields.  The equipment is compared as a sorted list of objects; how
  these sort is the parameter \<open>srt\<close>.
\<close>

definition old_value :: "(string list \<Rightarrow> string list) \<Rightarrow> field \<Rightarrow> reservation \<Rightarrow> fval" where
  "old_value srt f r = (if f = F_used_equipment then VNames (srt (used_equipment r)) else get_field f r)"

definition change_field ::
    "(string list \<Rightarrow> string list) \<Rightarrow> nat \<Rightarrow> booking_data \<Rightarrow> int \<times> int \<Rightarrow> field \<Rightarrow> changes \<times> bool \<Rightarrow> (rb, changes \<times> bool) prog" where
  "change_field srt i d old_rep f acc = bnd get_st (\<lambda>s.
     let old = old_value srt f (resv s i); new = data_field f d in
     if old = new then ret acc
     else andthen (upd_resv i (set_field f d))
       (bnd (if f = F_booked_for_id
             then bnd (getFullName (get_avatar s (d_booked_for_id d))) (\<lambda>name.
               andthen (upd_resv i (\<lambda>r. r\<lparr>booked_for_name := name\<rparr>))
                       (ret (VStr (booked_for_name (resv s i)), VStr name)))
             else ret (old, new)) (\<lambda>(old, new).
       bnd get_st (\<lambda>t. ret (record_change f old_rep (repetition (resv t i)) old new (fst acc),
                            snd acc \<or> f \<in> set occurrence_fields)))))"

fun change_fields ::
    "(string list \<Rightarrow> string list) \<Rightarrow> nat \<Rightarrow> booking_data \<Rightarrow> int \<times> int \<Rightarrow> field list \<Rightarrow> changes \<times> bool \<Rightarrow> (rb, changes \<times> bool) prog" where
  "change_fields srt i d old_rep [] acc = ret acc"
| "change_fields srt i d old_rep (f # fs) acc =
     bnd (change_field srt i d old_rep f acc) (change_fields srt i d old_rep fs)"

text \<open>
  The lines of the log.  Only the repetition is printed by code of the repository; \<open>show\<close> stands for
  the formats of the other values.
\<close>

definition convert_value :: "(fval \<Rightarrow> string) \<Rightarrow> fval \<Rightarrow> exn + string" where
  "convert_value show v = (case v of VRep f n \<Rightarrow> getMessage f n | _ \<Rightarrow> Inr (show v))"

definition log_line :: "string \<Rightarrow> string \<Rightarrow> string \<Rightarrow> string" where
  "log_line title old new =
     (if old = [] then ''The '' @ title @ '' was set to '' @ quoted new
      else if new = [] then ''The '' @ title @ '' was cleared''
      else ''The '' @ title @ '' was changed from '' @ quoted old @ '' to '' @ quoted new)"

fun modify_log :: "(fval \<Rightarrow> string) \<Rightarrow> changes \<Rightarrow> exn + string list" where
  "modify_log show [] = Inr []"
| "modify_log show ((key, old, new) # cs) =
     (case convert_value show old of Inl e \<Rightarrow> Inl e | Inr o' \<Rightarrow>
       (case convert_value show new of Inl e \<Rightarrow> Inl e | Inr n' \<Rightarrow>
         (case modify_log show cs of Inl e \<Rightarrow> Inl e | Inr ls \<Rightarrow>
           Inr (log_line (case map_of field_names key of None \<Rightarrow> key | Some t \<Rightarrow> t) o' n' # ls))))"

definition copy_columns :: "occurrence \<Rightarrow> occurrence \<Rightarrow> occurrence" where
  "copy_columns old occ = occ\<lparr>notification_sent := notification_sent old, o_is_cancelled := o_is_cancelled old,
     o_is_rejected := o_is_rejected old, o_rejection_reason := o_rejection_reason old\<rparr>"

definition restore_occurrences :: "occurrence list \<Rightarrow> reservation \<Rightarrow> reservation" where
  "restore_occurrences olds r = r\<lparr>occurrences := map (\<lambda>occ.
     case map_of (rev (map (\<lambda>old. (occ_date old, old)) olds)) (occ_date occ) of
       None \<Rightarrow> occ
     | Some old \<Rightarrow> if occ_is_valid occ then copy_columns old occ else occ) (occurrences r)\<rparr>"

definition mark_sent :: "occurrence list \<Rightarrow> reservation \<Rightarrow> reservation" where
  "mark_sent olds r =
     (if repeat_frequency r = DAY_F \<and> (\<forall>old \<in> set (map snd (AList.clearjunk (rev (map (\<lambda>old. (occ_date old, old)) olds)))). notification_sent old)
      then r\<lparr>occurrences := map (\<lambda>occ. occ\<lparr>notification_sent := True\<rparr>) (occurrences r)\<rparr> else r)"

definition recreate_occurrences :: "rrule \<Rightarrow> (int \<Rightarrow> string) \<Rightarrow> nat \<Rightarrow> user \<Rightarrow> (rb, unit) prog" where
  "recreate_occurrences rr fmt i user = bnd get_st (\<lambda>s. let olds = occurrences (resv s i) in
     andthen (upd_resv i (\<lambda>r. r\<lparr>occurrences := []\<rparr>))
     (andthen (create_occurrences rr fmt i True user)
     (andthen (upd_resv i (restore_occurrences olds))
              (upd_resv i (mark_sent olds)))))"

definition resv_modify ::
    "rrule \<Rightarrow> (int \<Rightarrow> string) \<Rightarrow> (string list \<Rightarrow> string list) \<Rightarrow> (fval \<Rightarrow> string) \<Rightarrow> nat \<Rightarrow> booking_data \<Rightarrow> user \<Rightarrow> (rb, bool) prog" where
  "resv_modify rr fmt srt show i d user = bnd (self_room i) (\<lambda>rm. bnd get_st (\<lambda>s.
     bnd (lift_res (check_advance_days s rm (dt_date (d_end_dt d)) (Some user) False)) (\<lambda>_.
     bnd (lift_res (check_bookable_hours s rm (dt_time (d_start_dt d)) (dt_time (d_end_dt d)) (Some user) False)) (\<lambda>_.
     bnd (change_fields srt i d (repetition (resv s i)) populate_fields ([], False)) (\<lambda>(changes, update_occurrences).
       if changes = [] then ret False
       else bnd (lift_res (modify_log show changes)) (\<lambda>log.
         andthen (add_edit_log i \<lparr>user_name = full_name user, info = ''Booking modified'' # log\<rparr>)
         (andthen (when_do update_occurrences (recreate_occurrences rr fmt i user))
         (bnd get_st (\<lambda>t.
           if valid_occurrences t i = [] then raise_exn (NoReportError ''Reservation has no valid occurrences'')
           else andthen (send_mail (MModification i (map fst changes))) (ret True))))))))))"

end
