(* ===== verification/RB_Booking_Inv.thy ===== *)
theory RB_Booking_Inv
  imports RB_Booking
begin

text \<open>
  New and changed bookings keep the invariant of \<open>RB_Inv\<close>: what the checks of
  \<open>create_occurrences\<close> guarantee about the occurrences that stay valid.
\<close>

section \<open>Loops of status changes\<close>

text \<open>Every element of a loop is visited, between two states that the whole run passes through.\<close>

lemma for_each_visits:
  assumes "for_each xs f s = (Inr u, s')" and "\<And>x s. x \<in> set xs \<Longrightarrow> keeps (decays s) (f x)"
  shows "decays s s' \<and> (\<forall>x \<in> set xs. \<exists>t t'. decays s t \<and> f x t = (Inr (), t') \<and> decays t' s')"
  using assms
proof (induction xs arbitrary: s)
  case (Cons x xs)
  obtain t where x: "f x s = (Inr (), t)" and xs: "for_each xs f t = (Inr u, s')"
    using Cons.prems(1) by (auto split: prod.splits sum.splits)
  have st: "decays s t"
    using keepsD [OF Cons.prems(2) [of x s], of s] x by simp
  have IH: "decays t s'" "\<forall>y \<in> set xs. \<exists>v v'. decays t v \<and> f y v = (Inr (), v') \<and> decays v' s'"
    using Cons.IH [OF xs] Cons.prems(2) by auto
  show ?case
  proof (intro conjI ballI)
    show "decays s s'" using st IH(1) by (rule decays_trans)
    fix y assume "y \<in> set (x # xs)"
    then consider "y = x" | "y \<in> set xs" by auto
    then show "\<exists>v v'. decays s v \<and> f y v = (Inr (), v') \<and> decays v' s'"
    proof cases
      case 1
      with x IH(1) show ?thesis by (intro exI [of _ s] exI [of _ t]) simp
    next
      case 2
      with IH(2) st show ?thesis by (meson decays_trans)
    qed
  qed
qed (auto simp: ret_run)

lemma valid_at_keys: "occ_valid_at s i k \<longleftrightarrow> (\<exists>e. (k, e) \<in> valid_keys (resv s i))"
  by (auto simp: occ_valid_at_def valid_keys_iff occ_span_def)

lemma valid_at_decays: "decays s t \<Longrightarrow> occ_valid_at t i k \<Longrightarrow> occ_valid_at s i k"
  unfolding valid_at_keys using decays_row(9) by blast

lemma decays_run: "keeps (decays s) m \<Longrightarrow> m s = (r, s') \<Longrightarrow> decays s s'"
  by (rule keeps_run [of "decays s" m s]) simp_all

lemma not_valid_upd_occ:
  assumes "\<And>occ. \<not> occ_is_valid (f occ)" "\<And>occ. o_start_dt (f occ) = o_start_dt occ"
  shows "\<not> occ_valid_at (s\<lparr>resv := (resv s)(i := set_occ k f (resv s i))\<rparr>) i k"
  using assms by (auto simp: occ_valid_at_def set_occ_def)

lemma occ_cancel_silent:
  "occ_cancel fmt i k u reason True False = andthen (upd_occ i k (\<lambda>occ. occ\<lparr>o_is_cancelled := True, o_rejection_reason := reason\<rparr>)) (ret ())"
  by (simp add: occ_cancel_def proxy_to_reservation_def occ_cancel_self_def when_do_def)

lemma occ_cancel_done:
  assumes "occ_cancel fmt i k u reason True False t = (r, t')"
  shows "\<not> occ_valid_at t' i k"
proof -
  have "t' = t\<lparr>resv := (resv t)(i := set_occ k (\<lambda>occ. occ\<lparr>o_is_cancelled := True, o_rejection_reason := reason\<rparr>) (resv t i))\<rparr>"
    using assms by (simp add: occ_cancel_silent upd_occ_def upd_resv_def ret_run)
  then show ?thesis by (simp only:) (rule not_valid_upd_occ, simp_all add: occ_is_valid_def)
qed

lemma occ_reject_done:
  assumes run: "occ_reject fmt i k u reason silent True t = (Inr x, t')"
  shows "\<not> occ_valid_at t' i k"
proof -
  let ?f = "\<lambda>occ. occ\<lparr>o_is_rejected := True, o_rejection_reason := reason\<rparr>"
  let ?t1 = "t\<lparr>resv := (resv t)(i := reject_valid reason ((resv t i)\<lparr>is_rejected := True, rejection_reason := reason\<rparr>))\<rparr>"
  let ?t2 = "t\<lparr>resv := (resv t)(i := set_occ k ?f (resv t i))\<rparr>"
  have "resv_reject i u reason silent t = (Inr x, t') \<or> occ_reject_self fmt i k u reason silent t = (Inr x, t')"
    using run by (auto simp: occ_reject_def proxy_to_reservation_def Let_def split: if_splits)
  then consider "decays ?t1 t'" | "decays ?t2 t'"
  proof
    let ?m = "when_do (\<not> silent) (andthen (notify_rejection i)
                 (log_as i u [''Reservation rejected: '' @ (case reason of None \<Rightarrow> ''None'' | Some x \<Rightarrow> x)]))"
    assume "resv_reject i u reason silent t = (Inr x, t')"
    then have "?m ?t1 = (Inr x, t')"
      unfolding resv_reject_def upd_resv_twice by (simp add: upd_resv_def comp_def)
    moreover have "keeps (decays ?t1) ?m" by (intro keeps_intros decays_intros)
    ultimately have "decays ?t1 t'" by (intro decays_run [of ?t1 ?m "Inr x" t'])
    then show ?thesis by (rule that(1))
  next
    let ?m = "when_do (\<not> silent)
        (andthen (log_as i u [''Day rejected: '' @ fmt (dt_date k),
                                 ''Reason: '' @ (case reason of None \<Rightarrow> ''None'' | Some x \<Rightarrow> x)])
        (bnd get_st (\<lambda>s. when_do (valid_occurrences s i \<noteq> []) (notify_occ_rejection i k))))"
    assume "occ_reject_self fmt i k u reason silent t = (Inr x, t')"
    then have "?m ?t2 = (Inr x, t')"
      unfolding occ_reject_self_def upd_occ_def upd_resv_def by (simp add: andthen_run)
    moreover have "keeps (decays ?t2) ?m" by (intro keeps_intros decays_intros)
    ultimately have "decays ?t2 t'" by (intro decays_run [of ?t2 ?m "Inr x" t'])
    then show ?thesis by (rule that(2))
  qed
  then show ?thesis
  proof cases
    case 1
    moreover have "\<not> occ_valid_at ?t1 i k"
      by (auto simp: occ_valid_at_def reject_valid_def occ_is_valid_def)
    ultimately show ?thesis using valid_at_decays by blast
  next
    case 2
    moreover have "\<not> occ_valid_at ?t2 i k"
      by (rule not_valid_upd_occ) (simp_all add: occ_is_valid_def)
    ultimately show ?thesis using valid_at_decays by blast
  qed
qed

section \<open>Frames\<close>

text \<open>Cancelling occurrences of one reservation and rejecting those of others.\<close>

definition keeps_row :: "nat \<Rightarrow> (rb, 'a) prog \<Rightarrow> bool" where
  "keeps_row i m \<longleftrightarrow> (\<forall>r. keeps (\<lambda>s. resv s i = r) m)"

named_theorems row_intros \<open>programs that leave a row alone\<close>

lemma keeps_row_upd [row_intros]: "j \<noteq> i \<Longrightarrow> keeps_row i (upd_resv j f)"
  unfolding keeps_row_def upd_resv_def by (auto intro!: keeps_modify)

lemma keeps_rowI: "(\<And>r. keeps (\<lambda>s. resv s i = r) m) \<Longrightarrow> keeps_row i m"
  by (simp add: keeps_row_def)

lemma keeps_rowD: "keeps_row i m \<Longrightarrow> keeps (\<lambda>s. resv s i = r) m"
  by (simp add: keeps_row_def)

lemma row_send_mail [row_intros]: "keeps_row i (send_mail m)"
  unfolding send_mail_def by (rule keeps_rowI, rule keeps_modify) simp

lemma row_add_edit_log [row_intros]: "j \<noteq> i \<Longrightarrow> keeps_row i (add_edit_log j l)"
  unfolding add_edit_log_def by (rule row_intros)

lemma row_control [row_intros]:
  "keeps_row i (ret x)" "keeps_row i (raise_exn e)" "keeps_row i get_st" "keeps_row i (gets g)"
  "keeps_row i m \<Longrightarrow> keeps_row i k \<Longrightarrow> keeps_row i (if b then m else k)"
  "keeps_row i n \<Longrightarrow> keeps_row i (when_do b n)"
  by (simp_all add: keeps_row_def keeps_intros)

lemma row_bnd [row_intros]: "keeps_row i m \<Longrightarrow> (\<And>x. keeps_row i (f x)) \<Longrightarrow> keeps_row i (bnd m f)"
  by (simp add: keeps_row_def keeps_bnd)

lemma row_andthen [row_intros]: "keeps_row i m \<Longrightarrow> keeps_row i k \<Longrightarrow> keeps_row i (andthen m k)"
  unfolding andthen_def by (intro row_bnd)

lemma row_log_as [row_intros]: "j \<noteq> i \<Longrightarrow> keeps_row i (log_as j u ls)"
  unfolding log_as_def getFullName_def by (cases u) (simp_all add: row_intros)

lemma row_notify [row_intros]:
  "keeps_row i (notify_rejection j)" "keeps_row i (notify_occ_rejection j k)"
  unfolding notify_rejection_def notify_occ_rejection_def by (intro row_intros)+

lemma row_occ_reject [row_intros]: "j \<noteq> i \<Longrightarrow> keeps_row i (occ_reject fmt j k u reason silent propagate)"
  unfolding occ_reject_def proxy_to_reservation_def occ_reject_self_def resv_reject_def upd_occ_def Let_def
  by (intro row_intros)

definition live_row :: "nat \<Rightarrow> bool \<Rightarrow> rb \<Rightarrow> bool" where
  "live_row i b s \<longleftrightarrow> live (resv s i) = b"

lemma live_upd: "(\<And>r. live (f r) = live r) \<Longrightarrow> keeps (live_row i b) (upd_resv j f)"
  unfolding upd_resv_def live_row_def by (rule keeps_modify) auto

lemma live_occ_cancel: "keeps (live_row i b) (occ_cancel fmt j k u reason True False)"
  unfolding occ_cancel_silent upd_occ_def
  by (intro keeps_intros live_upd) (simp add: live_def set_occ_def)

lemma live_of_row: "keeps_row i m \<Longrightarrow> keeps (live_row i b) m"
  unfolding live_row_def keeps_def keeps_row_def by auto

lemma sound_occ_cancel_other:
  "i \<notin> A \<Longrightarrow> keeps (all_sound A) (occ_cancel fmt i k u reason True False)"
  unfolding occ_cancel_silent upd_occ_def upd_resv_def
  by (intro keeps_intros keeps_modify) (auto simp: all_sound_def)

section \<open>The checks of \<open>create_occurrences\<close>\<close>

text \<open>
  \<open>quiet i A b m\<close>: \<open>m\<close> decays, keeps the reservations of \<open>A\<close> sound and does not change whether \<open>i\<close>
  is live.  All three checks are such programs.
\<close>

definition quiet :: "nat \<Rightarrow> nat set \<Rightarrow> (rb, 'a) prog \<Rightarrow> bool" where
  "quiet i A m \<longleftrightarrow> (\<forall>s. keeps (decays s) m) \<and> keeps (all_sound A) m \<and> (\<forall>b. keeps (live_row i b) m)"

lemma quietI: "(\<And>s. keeps (decays s) m) \<Longrightarrow> keeps (all_sound A) m \<Longrightarrow> (\<And>b. keeps (live_row i b) m) \<Longrightarrow> quiet i A m"
  by (simp add: quiet_def)

lemma quietD:
  assumes "quiet i A m"
  shows "keeps (decays s) m" "keeps (all_sound A) m" "keeps (live_row i b) m"
  using assms by (simp_all add: quiet_def)

lemma quiet_run:
  assumes "quiet i A m" "m s = (r, s')"
  shows "decays s s'" "all_sound A s \<Longrightarrow> all_sound A s'" "live (resv s' i) = live (resv s i)"
  using keeps_run [OF quietD(1) [OF assms(1)], of s s] keeps_run [OF quietD(2) [OF assms(1)], of s]
    keeps_run [OF quietD(3) [OF assms(1), of "live (resv s i)"], of s] assms(2)
  by (auto simp: live_row_def)

named_theorems quiet_intros \<open>quiet programs\<close>

lemma quiet_basic [quiet_intros]:
  "quiet i A (ret x)" "quiet i A (raise_exn e)" "quiet i A get_st" "quiet i A (gets g)"
  by (auto intro!: quietI keeps_intros)

lemma quiet_bnd [quiet_intros]: "quiet i A m \<Longrightarrow> (\<And>x. quiet i A (f x)) \<Longrightarrow> quiet i A (bnd m f)"
  by (simp add: quiet_def keeps_bnd)

lemma quiet_when [quiet_intros]: "quiet i A m \<Longrightarrow> quiet i A (when_do b m)"
  by (simp add: quiet_def keeps_when)

lemma quiet_if [quiet_intros]: "quiet i A m \<Longrightarrow> quiet i A k \<Longrightarrow> quiet i A (if b then m else k)"
  by simp

lemma quiet_for_each [quiet_intros]: "(\<And>x. x \<in> set xs \<Longrightarrow> quiet i A (f x)) \<Longrightarrow> quiet i A (for_each xs f)"
  by (simp add: quiet_def keeps_for_each)

lemma quiet_case_prod [quiet_intros]: "(\<And>x y. p = (x, y) \<Longrightarrow> quiet i A (f x y)) \<Longrightarrow> quiet i A (case p of (x, y) \<Rightarrow> f x y)"
  by (cases p) simp

lemma quiet_self_room [quiet_intros]: "quiet i A (self_room j)"
  unfolding self_room_def by (intro quietI keeps_intros)

lemma quiet_cancel [quiet_intros]: "i \<notin> A \<Longrightarrow> quiet i A (occ_cancel fmt i k u reason True False)"
  by (intro quietI decays_intros sound_occ_cancel_other live_occ_cancel)

lemma quiet_reject [quiet_intros]: "j \<noteq> i \<Longrightarrow> quiet i A (occ_reject fmt j k u reason silent True)"
  by (intro quietI decays_intros sound_intros live_of_row row_intros)

lemma quiet_nonbookable: "i \<notin> A \<Longrightarrow> quiet i A (skip_nonbookable fmt i sc user)"
  unfolding skip_nonbookable_def by (intro quiet_intros)

lemma quiet_blocked: "i \<notin> A \<Longrightarrow> quiet i A (skip_blocked fmt i user)"
  unfolding skip_blocked_def Let_def by (intro quiet_intros)

lemma conflict_rows:
  assumes "get_conflicting_occurrences s i = Inr cs" "(k, conf, pend) \<in> set cs"
  shows "(j, c) \<in> set pend \<Longrightarrow> j \<noteq> i"
  using assms by (auto simp: get_conflicting_occurrences_def Let_def conflicts_of_def overlapping_rows split: if_splits)

lemma quiet_conflicting:
  assumes "i \<notin> A" shows "quiet i A (skip_conflicting fmt i sc user)"
proof -
  have body: "quiet i A (case get_conflicting_occurrences s i of Inl e \<Rightarrow> raise_exn e
     | Inr conflicting \<Rightarrow> for_each conflicting (\<lambda>(k, confirmed, pending).
         bnd (gets (\<lambda>t. occ_valid_at t i k)) (\<lambda>valid. when_do valid
           (if confirmed \<noteq> [] then
              (if \<not> sc then raise_exn ConflictingOccurrences
               else occ_cancel fmt i k (Some user)
                 (Some (''Skipped due to collision with '' @ str_nat (length confirmed) @ '' reservation(s)''))
                 True False)
            else when_do (pending \<noteq> [] \<and> is_accepted (resv s i))
              (for_each pending (\<lambda>(j, c). occ_reject fmt j (o_start_dt c) (Some user)
                 (Some ''Rejected due to collision with a confirmed reservation'') False True))))))" for s
  proof (cases "get_conflicting_occurrences s i")
    case (Inr cs)
    show ?thesis unfolding Inr sum.case
      by (intro quiet_intros assms) (auto dest: conflict_rows [OF Inr])
  qed (simp add: quiet_intros)
  then show ?thesis unfolding skip_conflicting_def by (intro quiet_bnd quiet_basic body)
qed

text \<open>After the last check nothing overlaps a valid occurrence of an accepted reservation.\<close>

lemma conflict_found:
  assumes cs: "get_conflicting_occurrences s i = Inr cs"
    and o: "occ \<in> set (occurrences (resv s i))" "occ_is_valid occ"
    and c: "j \<in> set (resv_ids s)" "j \<noteq> i" "room_id (resv s j) = room_id (resv s i)"
      "c \<in> set (occurrences (resv s j))" "occ_is_valid c"
    and ov: "overlaps (occ_span occ) (occ_span c) False"
  shows "\<exists>conf pend. (o_start_dt occ, conf, pend) \<in> set cs \<and>
           (j, c) \<in> set (if is_accepted (resv s j) then conf else pend)"
proof -
  let ?coll = "occ_find_overlapping_with s (room_id (resv s i)) (valid_occurrences s i) (Some i)"
  let ?p = "conflicts_of s i ?coll occ"
  have "overlaps (occ_span c) (occ_span occ) False" using ov overlaps_sym by metis
  with o have "filter_overlap (valid_occurrences s i) c"
    unfolding filter_overlap_iff valid_occurrences_def by auto
  with c have coll: "(j, c) \<in> set ?coll" by (simp add: overlapping_rows)
  have "occ_overlaps s (Some i, occ) (Some j, c) False = Inr True"
    using ov c(3) by (simp add: occ_overlaps_def occ_span_def)
  with coll have mem: "(j, c) \<in> set (if is_accepted (resv s j) then fst ?p else snd ?p)"
    by (auto simp: conflicts_of_def Let_def)
  moreover have "(o_start_dt occ, ?p) \<in> set cs"
  proof -
    have "fst ?p \<noteq> [] \<or> snd ?p \<noteq> []" using mem by (auto split: if_splits)
    moreover have "occ \<in> set (valid_occurrences s i)" using o by (simp add: valid_occurrences_def)
    ultimately show ?thesis
      using cs by (auto simp: get_conflicting_occurrences_def Let_def case_prod_unfold split: if_splits)
  qed
  ultimately show ?thesis by (metis prod.collapse)
qed

lemma conflicting_done:
  assumes run: "skip_conflicting fmt i sc user s = (Inr (), s')" and ids: "j \<in> set (resv_ids s)" "j \<noteq> i"
    and acc: "is_accepted (resv s i) \<or> is_accepted (resv s j)"
  shows "\<not> clash (resv s' i) (resv s' j)"
proof
  assume "clash (resv s' i) (resv s' j)"
  moreover have d: "decays s s'"
    using quiet_run(1) [OF quiet_conflicting [of i "{}"]] run by blast
  ultimately obtain p q where p: "p \<in> valid_keys (resv s' i)" and q: "q \<in> valid_keys (resv s' j)"
    and room: "room_id (resv s i) = room_id (resv s j)" and ov: "overlaps p q False"
    unfolding clash_def decays_row(1) [OF d] by auto
  then obtain occ c where occ: "occ \<in> set (occurrences (resv s i))" "occ_is_valid occ" "p = occ_span occ"
    and c: "c \<in> set (occurrences (resv s j))" "occ_is_valid c" "q = occ_span c"
    using decays_row(9) [OF d] by (meson subsetD valid_keys_iff)
  obtain cs where cs: "get_conflicting_occurrences s i = Inr cs"
    using run by (cases "get_conflicting_occurrences s i") (auto simp: skip_conflicting_def)
  obtain conf pend where entry: "(o_start_dt occ, conf, pend) \<in> set cs"
    and mem: "(j, c) \<in> set (if is_accepted (resv s j) then conf else pend)"
    using conflict_found [OF cs occ(1,2) ids room [symmetric] c(1,2)] ov occ(3) c(3) by blast
  let ?f = "\<lambda>(k, confirmed, pending).
         bnd (gets (\<lambda>t. occ_valid_at t i k)) (\<lambda>valid. when_do valid
           (if confirmed \<noteq> [] then
              (if \<not> sc then raise_exn ConflictingOccurrences
               else occ_cancel fmt i k (Some user)
                 (Some (''Skipped due to collision with '' @ str_nat (length confirmed) @ '' reservation(s)''))
                 True False)
            else when_do (pending \<noteq> [] \<and> is_accepted (resv s i))
              (for_each pending (\<lambda>(j, c). occ_reject fmt j (o_start_dt c) (Some user)
                 (Some ''Rejected due to collision with a confirmed reservation'') False True))))"
  have "for_each cs ?f s = (Inr (), s')" using run cs by (simp add: skip_conflicting_def)
  moreover have "keeps (decays t) (?f x)" for x t
    by (intro keeps_intros decays_intros)
  ultimately obtain t t' where t: "decays s t" "?f (o_start_dt occ, conf, pend) t = (Inr (), t')" "decays t' s'"
    using for_each_visits [of cs ?f s "()" s'] entry by blast
  have t_t': "decays t t'"
  proof -
    have "keeps (decays t) (?f (o_start_dt occ, conf, pend))" by (intro keeps_intros decays_intros)
    then show ?thesis using t(2) by (rule decays_run)
  qed
  have o_end: "occ_valid_at s' i (o_start_dt occ)" and c_end: "occ_valid_at s' j (o_start_dt c)"
    using p q occ(3) c(3) unfolding valid_at_keys occ_span_def by auto
  then have valid: "occ_valid_at t' i (o_start_dt occ)" "occ_valid_at t i (o_start_dt occ)"
    "occ_valid_at t' j (o_start_dt c)"
    using t(3) t_t' valid_at_decays by blast+
  show False
  proof (cases "conf = []")
    case False
    with t(2) valid(2) have "occ_cancel fmt i (o_start_dt occ) (Some user)
                 (Some (''Skipped due to collision with '' @ str_nat (length conf) @ '' reservation(s)''))
                 True False t = (Inr (), t')"
      by (simp split: if_splits)
    with occ_cancel_done valid(1) show False by blast
  next
    case True
    with mem acc have pend: "(j, c) \<in> set pend" "is_accepted (resv s i)" by (auto split: if_splits)
    let ?g = "\<lambda>(j, c). occ_reject fmt j (o_start_dt c) (Some user)
                 (Some ''Rejected due to collision with a confirmed reservation'') False True"
    have "for_each pend ?g t = (Inr (), t')"
      using t(2) True valid(2) pend by (auto split: if_splits)
    moreover have "keeps (decays v) (?g x)" for x v by (intro keeps_intros decays_intros)
    ultimately obtain v v' where "decays t v" "?g (j, c) v = (Inr (), v')" "decays v' t'"
      using for_each_visits [of pend ?g t "()" t'] pend(1) by blast
    with occ_reject_done valid_at_decays valid(3) show False by fastforce
  qed
qed

end
