(* ===== verification/RB_Keep.thy ===== *)
theory RB_Keep
  imports RB_Booking_Inv
begin

text \<open>
  The operations of \<open>RB_Booking\<close> as wholes keep \<open>rb_inv\<close>: creating the occurrences of a reservation
  that has none, a new booking, and a change of a live one.
\<close>

section \<open>Creating occurrences\<close>

text \<open>The invariant without the row \<open>i\<close>, which is being built.\<close>

definition rb_inv_but :: "nat \<Rightarrow> rb \<Rightarrow> bool" where
  "rb_inv_but i s \<longleftrightarrow> ids_ok s \<and> i \<in> set (resv_ids s) \<and> all_sound (set (resv_ids s) - {i}) s \<and>
     (\<forall>a \<in> set (resv_ids s) - {i}. \<forall>b \<in> set (resv_ids s) - {i}.
        a \<noteq> b \<longrightarrow> is_accepted (resv s a) \<longrightarrow> \<not> clash (resv s a) (resv s b))"

lemma rb_inv_imp_but: "rb_inv s \<Longrightarrow> i \<in> set (resv_ids s) \<Longrightarrow> rb_inv_but i s"
  by (auto simp: rb_inv_def rb_inv_but_def all_sound_def no_clash_def)

lemma rb_inv_but_row:
  "rb_inv_but i (s\<lparr>resv := (resv s)(i := r)\<rparr>) \<longleftrightarrow> rb_inv_but i s"
  by (auto simp: rb_inv_but_def ids_ok_def all_sound_def)

lemma rb_inv_but_fields:
  assumes "resv_ids s' = resv_ids s" "next_resv s' = next_resv s" "\<And>j. j \<noteq> i \<Longrightarrow> resv s' j = resv s j"
  shows "rb_inv_but i s' \<longleftrightarrow> rb_inv_but i s"
  using assms by (auto simp: rb_inv_but_def ids_ok_def all_sound_def)

lemma rb_inv_but_decays:
  assumes "decays s s'" "rb_inv_but i s" "all_sound (set (resv_ids s) - {i}) s'"
  shows "rb_inv_but i s'"
proof -
  have "\<not> clash (resv s' a) (resv s' b)"
    if ab: "a \<in> set (resv_ids s') - {i}" "b \<in> set (resv_ids s') - {i}" "a \<noteq> b" "is_accepted (resv s' a)" for a b
  proof
    assume c: "clash (resv s' a) (resv s' b)"
    have "clash (resv s a) (resv s b)"
      using assms(1) by (intro clash_decays [OF _ _ c]) (simp_all add: decays_def)
    with ab assms(2) show False
      unfolding rb_inv_but_def decays_fields(1) [OF assms(1)] decays_row(2) [OF assms(1)] by blast
  qed
  with assms show ?thesis
    unfolding rb_inv_but_def by (simp add: ids_ok_decays decays_fields)
qed

lemma rb_inv_of_but:
  assumes "rb_inv_but i s" "sound (resv s i)"
    and "\<And>j. j \<in> set (resv_ids s) \<Longrightarrow> j \<noteq> i \<Longrightarrow> is_accepted (resv s i) \<or> is_accepted (resv s j)
           \<Longrightarrow> \<not> clash (resv s i) (resv s j)"
  shows "rb_inv s"
proof -
  have "\<not> clash (resv s a) (resv s b)"
    if ab: "a \<in> set (resv_ids s)" "b \<in> set (resv_ids s)" "a \<noteq> b" "is_accepted (resv s a)" for a b
  proof -
    consider "a = i" | "b = i" | "a \<noteq> i" "b \<noteq> i" by blast
    then show ?thesis
    proof cases
      case 1
      with ab assms(3) [of b] show ?thesis by auto
    next
      case 2
      with ab assms(3) [of a] show ?thesis using clash_sym by blast
    next
      case 3
      with ab assms(1) show ?thesis by (simp add: rb_inv_but_def)
    qed
  qed
  then show ?thesis
    using assms(1,2) by (auto simp: rb_inv_def rb_inv_but_def no_clash_def all_sound_def)
qed

definition built :: "nat \<Rightarrow> rb \<Rightarrow> bool" where
  "built i s \<longleftrightarrow> rb_inv_but i s \<and> shape_ok (resv s i) \<and>
     (\<forall>j \<in> set (resv_ids s). j \<noteq> i \<longrightarrow> is_accepted (resv s i) \<or> is_accepted (resv s j)
        \<longrightarrow> \<not> clash (resv s i) (resv s j))"

lemma built_inv:
  "built i s \<Longrightarrow> live (resv s i) \<Longrightarrow> valid_occurrences s i \<noteq> [] \<Longrightarrow> rb_inv s"
  unfolding built_def
  by (elim conjE, rule rb_inv_of_but [of i])
     (auto simp: sound_def live_ok_def valid_occurrences_def filter_empty_conv)

lemma built_decays_row:
  assumes b: "built i s" and d: "resv_decays (resv s i) r"
  shows "built i (s\<lparr>resv := (resv s)(i := r)\<rparr>)"
proof -
  have acc: "is_accepted r = is_accepted (resv s i)" using d by (simp add: resv_decays_def resv_shape_def)
  have "shape_ok r" using b d shape_ok_shape [of r "resv s i"] by (simp add: built_def resv_decays_def)
  moreover have "\<not> clash r (resv s j)" if "\<not> clash (resv s i) (resv s j)" for j
    using that clash_decays [OF d, of "resv s j" "resv s j"] by (auto simp: resv_decays_def)
  ultimately show ?thesis
    using b acc unfolding built_def rb_inv_but_row by auto
qed

lemma create_occurrences_built:
  assumes rr: "rrule_laws rr" and but: "rb_inv_but i s" and none: "occurrences (resv s i) = []"
    and times: "dt_time (r_start_dt (resv s i)) < dt_time (r_end_dt (resv s i))"
    and run: "create_occurrences rr fmt i sc user s = (Inr (), s')"
  shows "built i s'" "live (resv s' i) = live (resv s i)"
proof -
  let ?r = "resv s i"
  obtain t where t: "create_series_for_reservation rr i s = (Inr (), t)"
    using run unfolding create_occurrences_def andthen_Inr by auto
  obtain occs where occs: "iter_create_occurrences rr (r_start_dt ?r) (r_end_dt ?r) (repetition ?r) = Inr occs"
    using t by (cases "iter_create_occurrences rr (r_start_dt ?r) (r_end_dt ?r) (repetition ?r)")
      (simp_all add: create_series_for_reservation_def Let_def)
  let ?s1 = "s\<lparr>resv := (resv s)(i := ?r\<lparr>occurrences := occs\<rparr>)\<rparr>"
  have series: "create_series_for_reservation rr i s = (Inr (), ?s1)"
    using occs none by (simp add: create_series_for_reservation_def Let_def upd_resv_def)
  obtain s2 s3 where s2: "skip_nonbookable fmt i sc user ?s1 = (Inr (), s2)"
    and s3: "skip_blocked fmt i user s2 = (Inr (), s3)"
    and s': "skip_conflicting fmt i sc user s3 = (Inr (), s')"
    using run series unfolding create_occurrences_def andthen_Inr by auto
  let ?A = "set (resv_ids s) - {i}"
  have A: "i \<notin> ?A" by simp
  note q2 = quiet_run [OF quiet_nonbookable [OF A] s2] and q3 = quiet_run [OF quiet_blocked [OF A] s3]
    and q4 = quiet_run [OF quiet_conflicting [OF A] s']
  have d3: "decays ?s1 s3" using q2(1) q3(1) by (rule decays_trans)
  have d: "decays ?s1 s'" using d3 q4(1) by (rule decays_trans)
  have but1: "rb_inv_but i ?s1" using but by (simp add: rb_inv_but_row)
  then have "all_sound ?A ?s1" by (simp add: rb_inv_but_def)
  then have "all_sound ?A s'" using q2(2) q3(2) q4(2) by blast
  then have but': "rb_inv_but i s'" by (intro rb_inv_but_decays [OF d but1]) simp
  have "shape_ok (resv ?s1 i)"
    using series_shape [OF rr occs times] by (auto simp: shape_ok_def is_repeating_def repetition_def)
  then have shape: "shape_ok (resv s' i)" using decays_row(10) [OF d] by blast
  have "\<not> clash (resv s' i) (resv s' j)"
    if j: "j \<in> set (resv_ids s')" "j \<noteq> i" "is_accepted (resv s' i) \<or> is_accepted (resv s' j)" for j
    using conflicting_done [OF s', of j] j decays_fields(1) [OF q4(1)] decays_row(2) [OF q4(1)] by simp
  with but' shape show "built i s'" by (simp add: built_def)
  show "live (resv s' i) = live (resv s i)"
    using q2(3) q3(3) q4(3) by (simp add: live_def)
qed

section \<open>New bookings\<close>

lemma create_from_data_cases:
  assumes run: "create_from_data rr fmt rm d user pb s = (Inr i, s')"
  obtains name prebook s1 s2 where
    "i = next_resv s" "s1 = s\<lparr>resv := (resv s)(i := new_reservation rm d user name prebook),
       resv_ids := resv_ids s @ [i], next_resv := Suc i\<rparr>"
    "create_occurrences rr fmt i True user s1 = (Inr (), s2)"
    "valid_occurrences s2 i \<noteq> []" "s' = s2\<lparr>mails := mails s2 @ [MCreation i]\<rparr>"
    "d_repeat_frequency d = NEVER_F \<longrightarrow> dt_date (d_start_dt d) = dt_date (d_end_dt d)"
    "prebook = (case pb of Some b \<Rightarrow> b | None \<Rightarrow> \<not> can_be_booked s rm (Some user) False)"
    "pb = None \<longrightarrow> prebook \<longrightarrow> can_be_prebooked s rm (Some user) False"
    "check_advance_days s rm (dt_date (d_end_dt d)) (Some user) False = Inr None"
    "check_bookable_hours s rm (dt_time (d_start_dt d)) (dt_time (d_end_dt d)) (Some user) False = Inr True"
proof -
  let ?prebook = "case pb of Some b \<Rightarrow> b | None \<Rightarrow> \<not> can_be_booked s rm (Some user) False"
  have ok: "\<not> (d_repeat_frequency d = NEVER_F \<and> dt_date (d_start_dt d) \<noteq> dt_date (d_end_dt d))"
    by (rule notI) (use run in \<open>simp add: create_from_data_def\<close>)
  note run1 = run [unfolded create_from_data_def bnd_get_st if_not_P [OF ok] Let_def]
  have ok2: "\<not> (pb = None \<and> ?prebook \<and> \<not> can_be_prebooked s rm (Some user) False)"
    by (rule notI) (use run1 in \<open>auto split: if_splits\<close>)
  note run2 = run1 [unfolded if_not_P [OF ok2]]
  obtain a h v j s0 s2 where
    a: "check_advance_days s rm (dt_date (d_end_dt d)) (Some user) False = Inr a"
    and h: "check_bookable_hours s rm (dt_time (d_start_dt d)) (dt_time (d_end_dt d)) (Some user) False = Inr h"
    and v: "get_avatar s (d_booked_for_id d) = Some v"
    and j: "add_reservation (new_reservation rm d user (full_name v) ?prebook) s = (Inr j, s0)"
    and s2: "create_occurrences rr fmt j True user s0 = (Inr (), s2)"
    and fin: "valid_occurrences s2 j \<noteq> []" "i = j" "s' = s2\<lparr>mails := mails s2 @ [MCreation j]\<rparr>"
    using run2 unfolding bnd_Inr andthen_Inr
    by (auto simp: getFullName_def send_mail_def ret_run split: if_splits option.splits)
  have a: "check_advance_days s rm (dt_date (d_end_dt d)) (Some user) False = Inr None"
    using a by (auto simp: check_advance_days_def Let_def split: if_splits)
  have h: "check_bookable_hours s rm (dt_time (d_start_dt d)) (dt_time (d_end_dt d)) (Some user) False = Inr True"
    using h by (auto simp: check_bookable_hours_def split: if_splits)
  have j: "j = next_resv s" "s0 = s\<lparr>resv := (resv s)(j := new_reservation rm d user (full_name v) ?prebook),
       resv_ids := resv_ids s @ [j], next_resv := Suc j\<rparr>"
    using j by (auto simp: add_reservation_def ret_run)
  have ok3: "pb = None \<longrightarrow> ?prebook \<longrightarrow> can_be_prebooked s rm (Some user) False" using ok2 by blast
  show thesis
    by (rule that [of s0 "full_name v" ?prebook s2]) (use s2 fin ok ok3 a h j in simp_all)
qed

lemma create_keeps_inv:
  assumes rr: "rrule_laws rr" and inv: "rb_inv s" and times: "dt_time (d_start_dt d) < dt_time (d_end_dt d)"
    and run: "create_from_data rr fmt rm d user pb s = (Inr i, s')"
  shows "rb_inv s'"
proof (rule create_from_data_cases [OF run])
  fix name prebook s1 s2
  assume i: "i = next_resv s" and s1: "s1 = s\<lparr>resv := (resv s)(i := new_reservation rm d user name prebook),
       resv_ids := resv_ids s @ [i], next_resv := Suc i\<rparr>"
    and s2: "create_occurrences rr fmt i True user s1 = (Inr (), s2)"
    and valid: "valid_occurrences s2 i \<noteq> []" and s': "s' = s2\<lparr>mails := mails s2 @ [MCreation i]\<rparr>"
  have fresh: "i \<notin> set (resv_ids s)" using inv by (auto simp: i rb_inv_def ids_ok_def)
  have "rb_inv_but i s1"
    using inv fresh unfolding rb_inv_def rb_inv_but_def s1
    by (auto simp: ids_ok_def all_sound_def no_clash_def i less_Suc_eq)
  moreover have "occurrences (resv s1 i) = []" "live (resv s1 i)"
    "r_start_dt (resv s1 i) = d_start_dt d" "r_end_dt (resv s1 i) = d_end_dt d"
    by (simp_all add: s1 new_reservation_def live_def)
  ultimately have "built i s2" "live (resv s2 i)"
    using create_occurrences_built [OF rr _ _ _ s2] times by simp_all
  then have "rb_inv s2" using valid by (rule built_inv)
  then show "rb_inv s'" by (simp add: s' rb_inv_def ids_ok_def all_sound_def no_clash_def)
qed

section \<open>Changed bookings\<close>

text \<open>The loop over the fields only writes the row, and leaves the status and the occurrences.\<close>

definition same_but :: "nat \<Rightarrow> rb \<Rightarrow> rb \<Rightarrow> bool" where
  "same_but i s s' \<longleftrightarrow> rest s' = rest s \<and> mails s' = mails s \<and> (\<forall>j. j \<noteq> i \<longrightarrow> resv s' j = resv s j)"

lemma same_but_refl [simp]: "same_but i s s"
  by (simp add: same_but_def)

lemma same_but_trans: "same_but i s t \<Longrightarrow> same_but i t u \<Longrightarrow> same_but i s u"
  by (simp add: same_but_def)

lemma same_but_row: "same_but i s (s\<lparr>resv := (resv s)(i := r)\<rparr>)"
  by (simp add: same_but_def rest_def)

lemma same_but_inv: "same_but i s s' \<Longrightarrow> rb_inv_but i s' \<longleftrightarrow> rb_inv_but i s"
  by (rule rb_inv_but_fields) (simp_all add: same_but_def rest_def)

definition status_part :: "reservation \<Rightarrow> int \<times> bool \<times> bool \<times> bool \<times> string option \<times> occurrence list \<times> edit_log list" where
  "status_part r = (room_id r, is_accepted r, is_cancelled r, is_rejected r, created_by_id r, occurrences r, edit_logs r)"

lemma set_field_status: "status_part (set_field f d r) = status_part r"
  by (cases f) (simp_all add: status_part_def)

lemma get_set_field: "get_field f (set_field f d r) = data_field f d"
  by (cases f) simp_all

lemma get_set_other: "g \<noteq> f \<Longrightarrow> get_field g (set_field f d r) = get_field g r"
  by (cases f; cases g) simp_all

lemma dict_assign_ne [simp]: "dict_assign k v cs \<noteq> []"
  by (cases cs) (auto split: if_splits)

lemma record_change_ne:
  assumes "old \<noteq> new" shows "record_change f rep rep' old new cs \<noteq> []"
proof (cases "\<exists>a b. old = VDt a \<and> new = VDt b")
  case True
  then obtain a b where ab: "old = VDt a" "new = VDt b" by blast
  with assms have "dt_date a \<noteq> dt_date b \<or> dt_time a \<noteq> dt_time b"
    by (metis combine_date_time)
  with ab show ?thesis by (auto simp: record_change_def Let_def)
next
  case False
  then show ?thesis by (cases old; cases new) (simp_all add: record_change_def)
qed

lemma record_change_str: "record_change f rep rep' (VStr a) (VStr b) cs \<noteq> []"
  by (simp add: record_change_def)

definition changed_row :: "rb \<Rightarrow> field \<Rightarrow> booking_data \<Rightarrow> reservation \<Rightarrow> reservation" where
  "changed_row s f d r = (if f = F_booked_for_id
     then (set_field f d r)\<lparr>booked_for_name := full_name (the (get_avatar s (d_booked_for_id d)))\<rparr>
     else set_field f d r)"

lemma changed_row_props:
  "status_part (changed_row s f d r) = status_part r"
  "get_field f (changed_row s f d r) = data_field f d"
  "g \<noteq> f \<Longrightarrow> get_field g (changed_row s f d r) = get_field g r"
proof -
  have "get_field g (r\<lparr>booked_for_name := x\<rparr>) = get_field g r" for r x g by (cases g) simp_all
  moreover have "status_part (r\<lparr>booked_for_name := x\<rparr>) = status_part r" for r x
    by (simp add: status_part_def)
  moreover have "get_field F_booked_for_id (set_field F_booked_for_id d r) = data_field F_booked_for_id d"
    "g \<noteq> F_booked_for_id \<Longrightarrow> get_field g (set_field F_booked_for_id d r) = get_field g r"
    by (rule get_set_field, rule get_set_other)
  ultimately show "status_part (changed_row s f d r) = status_part r"
    "get_field f (changed_row s f d r) = data_field f d"
    "g \<noteq> f \<Longrightarrow> get_field g (changed_row s f d r) = get_field g r"
    using set_field_status [of f d r] get_set_field [of f d r] get_set_other [of g f d r]
    by (auto simp only: changed_row_def split: if_splits)
qed

lemma change_field_run:
  assumes "change_field srt i d rep f acc s = (Inr acc', s')"
  shows "(old_value srt f (resv s i) = data_field f d \<and> s' = s \<and> acc' = acc) \<or>
     (old_value srt f (resv s i) \<noteq> data_field f d \<and>
      s' = s\<lparr>resv := (resv s)(i := changed_row s f d (resv s i))\<rparr> \<and> fst acc' \<noteq> [] \<and>
      snd acc' = (snd acc \<or> f \<in> set occurrence_fields))"
proof (cases "old_value srt f (resv s i) = data_field f d")
  case True
  with assms show ?thesis by (simp add: change_field_def ret_run)
next
  case False
  show ?thesis
  proof (cases "f = F_booked_for_id")
    case True
    with assms False show ?thesis
      by (cases "get_avatar s (d_booked_for_id d)")
        (auto simp: change_field_def Let_def getFullName_def upd_resv_def ret_run changed_row_def record_change_str)
  next
    case other: False
    with assms False show ?thesis
      by (auto simp: change_field_def Let_def upd_resv_def ret_run changed_row_def record_change_ne)
  qed
qed

text \<open>What the whole loop does, by induction over the fields that remain.\<close>

lemma change_fields_nonempty:
  "change_fields srt i d rep fs acc s = (Inr acc', s') \<Longrightarrow> fst acc \<noteq> [] \<Longrightarrow> fst acc' \<noteq> []"
proof (induction fs arbitrary: acc s)
  case (Cons f fs)
  obtain acc1 s1 where f: "change_field srt i d rep f acc s = (Inr acc1, s1)"
    and fs: "change_fields srt i d rep fs acc1 s1 = (Inr acc', s')"
    using Cons.prems(1) unfolding change_fields.simps bnd_Inr by blast
  have "fst acc1 \<noteq> []" using change_field_run [OF f] Cons.prems(2) by auto
  with Cons.IH [OF fs] show ?case by simp
qed (simp add: ret_run)

lemma change_field_row:
  assumes run: "change_field srt i d rep f acc s = (Inr acc', s')"
  shows "same_but i s s'" "status_part (resv s' i) = status_part (resv s i)"
    "f \<noteq> F_used_equipment \<Longrightarrow> get_field f (resv s' i) = data_field f d"
    "g \<noteq> f \<Longrightarrow> get_field g (resv s' i) = get_field g (resv s i)"
    "snd acc' \<longleftrightarrow> snd acc \<or> (f \<in> set occurrence_fields \<and> get_field f (resv s i) \<noteq> data_field f d)"
    "fst acc' = [] \<Longrightarrow> s' = s"
proof -
  have old: "f \<noteq> F_used_equipment \<Longrightarrow> old_value srt f r = get_field f r" for r
    by (simp add: old_value_def)
  have ue: "F_used_equipment \<notin> set occurrence_fields" by (simp add: occurrence_fields_def)
  note cases = change_field_run [OF run]
  show "same_but i s s'" using cases same_but_row by auto
  show "status_part (resv s' i) = status_part (resv s i)" using cases changed_row_props(1) by auto
  show "f \<noteq> F_used_equipment \<Longrightarrow> get_field f (resv s' i) = data_field f d"
    using cases changed_row_props(2) old by auto
  show "g \<noteq> f \<Longrightarrow> get_field g (resv s' i) = get_field g (resv s i)"
    using cases changed_row_props(3) by auto
  show "snd acc' \<longleftrightarrow> snd acc \<or> (f \<in> set occurrence_fields \<and> get_field f (resv s i) \<noteq> data_field f d)"
    using cases old ue by metis
  show "fst acc' = [] \<Longrightarrow> s' = s" using cases by auto
qed

lemma change_fields_run:
  assumes "change_fields srt i d rep fs acc s = (Inr acc', s')" "distinct fs"
  shows "same_but i s s'" "status_part (resv s' i) = status_part (resv s i)"
    "f \<noteq> F_used_equipment \<Longrightarrow> get_field f (resv s' i) = (if f \<in> set fs then data_field f d else get_field f (resv s i))"
    "snd acc' \<longleftrightarrow> snd acc \<or> (\<exists>f \<in> set fs \<inter> set occurrence_fields. get_field f (resv s i) \<noteq> data_field f d)"
    "fst acc' = [] \<Longrightarrow> s' = s"
proof -
  have "same_but i s s' \<and> status_part (resv s' i) = status_part (resv s i) \<and>
    (f \<noteq> F_used_equipment \<longrightarrow> get_field f (resv s' i) = (if f \<in> set fs then data_field f d else get_field f (resv s i))) \<and>
    (snd acc' \<longleftrightarrow> snd acc \<or> (\<exists>f \<in> set fs \<inter> set occurrence_fields. get_field f (resv s i) \<noteq> data_field f d)) \<and>
    (fst acc' = [] \<longrightarrow> s' = s)" for f
    using assms
  proof (induction fs arbitrary: acc s)
    case Nil
    then show ?case by (simp add: ret_run)
  next
    case (Cons g fs)
    obtain acc1 s1 where g: "change_field srt i d rep g acc s = (Inr acc1, s1)"
      and fs: "change_fields srt i d rep fs acc1 s1 = (Inr acc', s')"
      using Cons.prems(1) unfolding change_fields.simps bnd_Inr by blast
    note r = change_field_row [OF g] and IH = Cons.IH [OF fs]
    have dist: "distinct fs" "g \<notin> set fs" using Cons.prems(2) by simp_all
    have "same_but i s s'" using r(1) IH dist(1) same_but_trans by blast
    moreover have "status_part (resv s' i) = status_part (resv s i)" using r(2) IH dist(1) by simp
    moreover have "get_field f (resv s' i) = (if f \<in> set (g # fs) then data_field f d else get_field f (resv s i))"
      if "f \<noteq> F_used_equipment"
      using r(3) r(4) [of f] IH dist that by (cases "f = g") auto
    moreover have "snd acc' \<longleftrightarrow> snd acc \<or> (\<exists>f \<in> set (g # fs) \<inter> set occurrence_fields. get_field f (resv s i) \<noteq> data_field f d)"
    proof -
      have "(\<exists>f \<in> set fs \<inter> set occurrence_fields. get_field f (resv s1 i) \<noteq> data_field f d) \<longleftrightarrow>
        (\<exists>f \<in> set fs \<inter> set occurrence_fields. get_field f (resv s i) \<noteq> data_field f d)"
        using r(4) dist(2) by (metis IntD1)
      with r(5) IH dist(1) show ?thesis by auto
    qed
    moreover have "s' = s" if "fst acc' = []"
    proof -
      have "fst acc1 = []" using change_fields_nonempty [OF fs] that by blast
      with r(6) IH dist(1) that show ?thesis by simp
    qed
    ultimately show ?case by blast
  qed
  then show "same_but i s s'" "status_part (resv s' i) = status_part (resv s i)"
    "f \<noteq> F_used_equipment \<Longrightarrow> get_field f (resv s' i) = (if f \<in> set fs then data_field f d else get_field f (resv s i))"
    "snd acc' \<longleftrightarrow> snd acc \<or> (\<exists>f \<in> set fs \<inter> set occurrence_fields. get_field f (resv s i) \<noteq> data_field f d)"
    "fst acc' = [] \<Longrightarrow> s' = s" by blast+
qed

lemma restore_decays: "resv_decays r (restore_occurrences olds r)"
  unfolding restore_occurrences_def
  by (rule resv_decays_map) (auto simp: copy_columns_def split: option.splits if_splits)

lemma mark_sent_decays: "resv_decays r (mark_sent olds r)"
  unfolding mark_sent_def
  using resv_decays_map [of "\<lambda>occ. occ\<lparr>notification_sent := True\<rparr>" r]
  by (simp add: occ_is_valid_def resv_decays_def)

lemma resv_modify_cases:
  assumes run: "resv_modify rr fmt srt show i d user s = (Inr b, s')"
  obtains cs upd s1 s2 s3 log where
    "change_fields srt i d (repetition (resv s i)) populate_fields ([], False) s = (Inr (cs, upd), s1)"
    "(cs = [] \<and> \<not> b \<and> s' = s1) \<or>
     (cs \<noteq> [] \<and> b \<and> add_edit_log i \<lparr>user_name = full_name user, info = ''Booking modified'' # log\<rparr> s1 = (Inr (), s2) \<and>
      when_do upd (recreate_occurrences rr fmt i user) s2 = (Inr (), s3) \<and> valid_occurrences s3 i \<noteq> [] \<and>
      s' = s3\<lparr>mails := mails s3 @ [MModification i (map fst cs)]\<rparr>)"
proof -
  obtain rm where rm: "self_room i s = (Inr rm, s)"
    using run unfolding resv_modify_def bnd_Inr by (auto simp: self_room_def ret_run split: option.splits)
  note run1 = run [unfolded resv_modify_def bnd_Inr]
  obtain cs upd s1 where ch: "change_fields srt i d (repetition (resv s i)) populate_fields ([], False) s = (Inr (cs, upd), s1)"
    and k: "(if cs = [] then ret False
       else bnd (lift_res (modify_log show cs)) (\<lambda>log.
         andthen (add_edit_log i \<lparr>user_name = full_name user, info = ''Booking modified'' # log\<rparr>)
         (andthen (when_do upd (recreate_occurrences rr fmt i user))
         (bnd get_st (\<lambda>t.
           if valid_occurrences t i = [] then raise_exn (NoReportError ''Reservation has no valid occurrences'')
           else andthen (send_mail (MModification i (map fst cs))) (ret True)))))) s1 = (Inr b, s')"
    using run1 rm by (auto simp: bnd_get_st lift_res_run)
  show thesis
  proof (cases "cs = []")
    case True
    with k show ?thesis by (intro that [OF ch]) (auto simp: ret_run)
  next
    case False
    obtain log t0 w s2 u s3 where k1: "lift_res (modify_log show cs) s1 = (Inr log, t0)"
      and k2: "add_edit_log i \<lparr>user_name = full_name user, info = ''Booking modified'' # log\<rparr> t0 = (Inr w, s2)"
      and k3: "when_do upd (recreate_occurrences rr fmt i user) s2 = (Inr u, s3)"
      and k4: "\<exists>y t. get_st s3 = (Inr y, t) \<and> (if valid_occurrences y i = []
          then raise_exn (NoReportError ''Reservation has no valid occurrences'')
          else andthen (send_mail (MModification i (map fst cs))) (ret True)) t = (Inr b, s')"
      using k unfolding if_not_P [OF False] bnd_Inr andthen_Inr by blast
    have "t0 = s1" using k1 by (simp add: lift_res_run)
    moreover have "valid_occurrences s3 i \<noteq> [] \<and> b \<and> s' = s3\<lparr>mails := mails s3 @ [MModification i (map fst cs)]\<rparr>"
      using k4 by (auto simp: send_mail_def ret_run split: if_splits)
    ultimately show ?thesis using False k2 k3 by (intro that [OF ch, of log s2 s3]) simp
  qed
qed

text \<open>A change of a live reservation keeps the invariant.\<close>

lemma recreate_built:
  assumes rr: "rrule_laws rr" and but: "rb_inv_but i s"
    and times: "dt_time (r_start_dt (resv s i)) < dt_time (r_end_dt (resv s i))"
    and run: "recreate_occurrences rr fmt i user s = (Inr (), s')"
  shows "built i s'" "live (resv s' i) = live (resv s i)"
proof -
  let ?olds = "occurrences (resv s i)"
  let ?s1 = "s\<lparr>resv := (resv s)(i := (resv s i)\<lparr>occurrences := []\<rparr>)\<rparr>"
  obtain s2 where s2: "create_occurrences rr fmt i True user ?s1 = (Inr (), s2)"
    and s': "s' = s2\<lparr>resv := (resv s2)(i := mark_sent ?olds (restore_occurrences ?olds (resv s2 i)))\<rparr>"
    using run unfolding recreate_occurrences_def bnd_get_st Let_def andthen_Inr
    by (auto simp: upd_resv_def)
  have "rb_inv_but i ?s1" using but by (simp add: rb_inv_but_row)
  from create_occurrences_built [OF rr this _ _ s2] times
  have b: "built i s2" and l: "live (resv s2 i) = live (resv s i)" by (simp_all add: live_def)
  have "resv_decays (resv s2 i) (mark_sent ?olds (restore_occurrences ?olds (resv s2 i)))"
    using restore_decays [of "resv s2 i" ?olds] mark_sent_decays [of "restore_occurrences ?olds (resv s2 i)" ?olds]
    by (auto simp: resv_decays_def)
  with b show "built i s'" unfolding s' by (rule built_decays_row)
  show "live (resv s' i) = live (resv s i)"
    using l by (simp add: s' live_def mark_sent_def restore_occurrences_def)
qed

lemma live_status_part: "status_part r = status_part r' \<Longrightarrow> live r = live r'"
  by (simp add: status_part_def live_def)

lemma built_of_inv: "rb_inv s \<Longrightarrow> i \<in> set (resv_ids s) \<Longrightarrow> built i s"
  using clash_sym unfolding built_def
  by (auto simp: rb_inv_imp_but) (auto simp: rb_inv_def all_sound_def sound_def no_clash_def)

lemma built_same_row:
  assumes "built i s" "same_but i s s'" "resv_shape (resv s' i) = resv_shape (resv s i)"
    "valid_keys (resv s' i) = valid_keys (resv s i)"
  shows "built i s'"
proof -
  have "resv_decays (resv s i) (resv s' i)" using assms(3,4) by (simp add: resv_decays_def)
  then have "built i (s\<lparr>resv := (resv s)(i := resv s' i)\<rparr>)" by (rule built_decays_row [OF assms(1)])
  moreover have "resv (s\<lparr>resv := (resv s)(i := resv s' i)\<rparr>) = resv s'"
    using assms(2) by (auto simp: same_but_def)
  ultimately show ?thesis
    using assms(2) by (simp add: built_def rb_inv_but_def ids_ok_def all_sound_def same_but_def rest_def)
qed

lemma populate_all: "set populate_fields = UNIV" "distinct populate_fields"
proof -
  have "f \<in> set populate_fields" for f by (cases f) (simp_all add: populate_fields_def)
  then show "set populate_fields = UNIV" by blast
qed (simp add: populate_fields_def)

lemma modify_keeps_inv:
  assumes rr: "rrule_laws rr" and inv: "rb_inv s" and i: "i \<in> set (resv_ids s)" and lv: "live (resv s i)"
    and times: "dt_time (d_start_dt d) < dt_time (d_end_dt d)"
    and run: "resv_modify rr fmt srt show i d user s = (Inr b, s')"
  shows "rb_inv s'"
proof (rule resv_modify_cases [OF run])
  fix cs upd s1 s2 s3 log
  assume ch: "change_fields srt i d (repetition (resv s i)) populate_fields ([], False) s = (Inr (cs, upd), s1)"
    and k: "(cs = [] \<and> \<not> b \<and> s' = s1) \<or>
     (cs \<noteq> [] \<and> b \<and> add_edit_log i \<lparr>user_name = full_name user, info = ''Booking modified'' # log\<rparr> s1 = (Inr (), s2) \<and>
      when_do upd (recreate_occurrences rr fmt i user) s2 = (Inr (), s3) \<and> valid_occurrences s3 i \<noteq> [] \<and>
      s' = s3\<lparr>mails := mails s3 @ [MModification i (map fst cs)]\<rparr>)"
  note c = change_fields_run [OF ch populate_all(2)]
  have new: "r_start_dt (resv s1 i) = d_start_dt d" "r_end_dt (resv s1 i) = d_end_dt d"
    using c(3) [of F_start_dt] c(3) [of F_end_dt] populate_all(1) by simp_all
  show "rb_inv s'"
  proof (cases "cs = []")
    case True
    with k c(5) inv show ?thesis by simp
  next
    case False
    with k have s2: "s2 = s1\<lparr>resv := (resv s1)(i := (resv s1 i)\<lparr>edit_logs := edit_logs (resv s1 i) @
        [\<lparr>user_name = full_name user, info = ''Booking modified'' # log\<rparr>]\<rparr>)\<rparr>"
      and s3: "when_do upd (recreate_occurrences rr fmt i user) s2 = (Inr (), s3)"
      and v: "valid_occurrences s3 i \<noteq> []"
      and s': "s' = s3\<lparr>mails := mails s3 @ [MModification i (map fst cs)]\<rparr>"
      by (auto simp: add_edit_log_def upd_resv_def)
    have same: "same_but i s s2"
      using c(1) same_but_row unfolding s2 by (rule same_but_trans)
    have lv2: "live (resv s2 i)"
      using lv live_status_part [OF c(2)] by (simp add: s2 live_def)
    have "built i s3 \<and> live (resv s3 i)"
    proof (cases upd)
      case True
      have "rb_inv_but i s2" using rb_inv_imp_but [OF inv i] same_but_inv [OF same] by blast
      moreover have "dt_time (r_start_dt (resv s2 i)) < dt_time (r_end_dt (resv s2 i))"
        using new times by (simp add: s2)
      moreover have "recreate_occurrences rr fmt i user s2 = (Inr (), s3)" using s3 True by simp
      ultimately show ?thesis using recreate_built [OF rr] lv2 by blast
    next
      case nupd: False
      then have "s3 = s2" using s3 by simp
      have "get_field f (resv s1 i) = get_field f (resv s i)" if "f \<in> set occurrence_fields" for f
        using c(3) [of f] c(4) nupd that populate_all(1) by (auto simp: occurrence_fields_def)
      from this [of F_start_dt] this [of F_end_dt] this [of F_repeat_frequency] this [of F_repeat_interval]
      have "resv_shape (resv s2 i) = resv_shape (resv s i)"
        using c(2) by (simp add: s2 occurrence_fields_def resv_shape_def repetition_def status_part_def)
      moreover have "valid_keys (resv s2 i) = valid_keys (resv s i)"
        using c(2) by (simp add: s2 valid_keys_def status_part_def)
      ultimately show ?thesis
        using built_same_row [OF built_of_inv [OF inv i] same] lv2 \<open>s3 = s2\<close> by blast
    qed
    with v built_inv [of i s3] have "rb_inv s3" by blast
    then show ?thesis by (simp add: s' rb_inv_def ids_ok_def all_sound_def no_clash_def)
  qed
qed

end
