(* ===== verification/RB_Blocking.thy ===== *)
theory RB_Blocking
  imports RB_Keep
begin

text \<open>
  Blockings of rooms: \<open>BlockedRoom.approve\<close> and \<open>reject\<close> of \<open>models/blocked_rooms.py\<close>, and how
  blockings are made, changed and deleted (\<open>controllers/user/blockings.py\<close>).
\<close>

section \<open>Approving and rejecting\<close>

definition upd_blocked_room :: "nat \<Rightarrow> int \<Rightarrow> (blocked_room \<Rightarrow> blocked_room) \<Rightarrow> (rb, unit) prog" where
  "upd_blocked_room b room f = modify (\<lambda>s. s\<lparr>blockings := (blockings s)(b := (blockings s b)
     \<lparr>blocked_rooms := map (\<lambda>br. if br_room_id br = room then f br else br) (blocked_rooms (blockings s b))\<rparr>)\<rparr>)"

definition notify_request_response :: "nat \<Rightarrow> int \<Rightarrow> (rb, unit) prog" where
  "notify_request_response b room = bnd get_st (\<lambda>s.
     case created_by_user s (blockings s b) of
       None \<Rightarrow> raise_exn AttributeError | Some u \<Rightarrow> send_mail (MRequestResponse b room))"

definition br_reject :: "nat \<Rightarrow> int \<Rightarrow> user option \<Rightarrow> string option \<Rightarrow> (rb, unit) prog" where
  "br_reject b room user reason =
     andthen (upd_blocked_room b room (\<lambda>br. br\<lparr>state := Rejected\<rparr>))
     (andthen (when_do (truthy reason) (upd_blocked_room b room (\<lambda>br. br\<lparr>br_rejection_reason := reason\<rparr>)))
     (andthen (case user of None \<Rightarrow> ret ()
                 | Some u \<Rightarrow> upd_blocked_room b room (\<lambda>br. br\<lparr>rejected_by := Some (full_name u)\<rparr>))
              (notify_request_response b room)))"

text \<open>
  The reservations inside the blocked days are rejected as wholes, the valid occurrences inside of
  the other reservations one by one; who may override the blocking keeps them.
\<close>

definition blocked_reservations :: "rb \<Rightarrow> blocking \<Rightarrow> int \<Rightarrow> nat list" where
  "blocked_reservations s bl room = filter (\<lambda>i. r_start_dt (resv s i) \<ge> combine (start_date bl) 0 \<and>
     r_end_dt (resv s i) \<le> combine (end_date bl) 86399 \<and> room_id (resv s i) = room \<and>
     \<not> is_rejected (resv s i) \<and> \<not> is_cancelled (resv s i)) (resv_ids s)"

definition blocked_occurrences :: "rb \<Rightarrow> blocking \<Rightarrow> int \<Rightarrow> (nat \<times> occurrence) list" where
  "blocked_occurrences s bl room = filter (\<lambda>(i, occ). o_start_dt occ \<ge> combine (start_date bl) 0 \<and>
     o_end_dt occ \<le> combine (end_date bl) 86399 \<and> occ_is_valid occ \<and>
     i \<notin> set (blocked_reservations s bl room) \<and> room_id (resv s i) = room \<and>
     \<not> is_rejected (resv s i) \<and> \<not> is_cancelled (resv s i)) (occ_rows s)"

definition overridden_by_creator :: "rb \<Rightarrow> blocking \<Rightarrow> nat \<Rightarrow> bool" where
  "overridden_by_creator s bl i =
     can_be_overridden s bl (get_avatar s (created_by_id (resv s i))) (rooms s (room_id (resv s i))) False"

definition br_approve :: "(int \<Rightarrow> string) \<Rightarrow> nat \<Rightarrow> int \<Rightarrow> bool \<Rightarrow> (rb, unit) prog" where
  "br_approve fmt b room notify_blocker =
     andthen (upd_blocked_room b room (\<lambda>br. br\<lparr>state := Accepted\<rparr>))
     (bnd get_st (\<lambda>s. let bl = blockings s b; who = created_by_user s bl;
          reason = ''Conflict with blocking '' @ str_nat b @ '': '' @ bl_reason bl in
        andthen (for_each (blocked_reservations s bl room) (\<lambda>i.
          when_do (\<not> overridden_by_creator s bl i) (resv_reject i who (Some reason) False)))
        (andthen (for_each (blocked_occurrences s bl room) (\<lambda>(i, occ).
          when_do (\<not> overridden_by_creator s bl i) (occ_reject fmt i (o_start_dt occ) who (Some reason) False True)))
        (when_do notify_blocker (notify_request_response b room)))))"

section \<open>Making, changing and deleting blockings\<close>

text \<open>\<open>room.owner\<close>, an avatar or \<open>None\<close>.\<close>

definition room_owner :: "rb \<Rightarrow> int \<Rightarrow> user option" where
  "room_owner s room = (case rooms s room of None \<Rightarrow> None | Some rm \<Rightarrow> get_avatar s (Some (owner_id rm)))"

definition notify_request :: "string \<Rightarrow> nat \<Rightarrow> int list \<Rightarrow> (rb, unit) prog" where
  "notify_request owner b rms = send_mail (MRequest owner b rms)"

text \<open>
  \<open>_process_blocked_rooms\<close>: the blocking of a room of one's own is approved at once; the owners of
  the others get one mail each, in the order in which they came up.  A room without a known owner
  makes the mail fail.
\<close>

definition process_blocked_rooms :: "(int \<Rightarrow> string) \<Rightarrow> nat \<Rightarrow> user \<Rightarrow> int list \<Rightarrow> (rb, unit) prog" where
  "process_blocked_rooms fmt b user rms = bnd get_st (\<lambda>s.
     let mine = filter (\<lambda>r. same_user (room_owner s r) user) rms;
         others = filter (\<lambda>r. \<not> same_user (room_owner s r) user) rms;
         owners = remdups (map (\<lambda>r. map_option av_id (room_owner s r)) others)
     in andthen (for_each mine (\<lambda>r. br_approve fmt b r False))
       (for_each owners (\<lambda>w. case w of
           None \<Rightarrow> raise_exn AttributeError
         | Some a \<Rightarrow> notify_request a b (filter (\<lambda>r. map_option av_id (room_owner s r) = w) others))))"

record blocking_form =
  f_start_date :: int
  f_end_date :: int
  f_reason :: string
  f_principals :: "principal list"
  f_blocked_rooms :: "int list"

definition new_blocked_room :: "int \<Rightarrow> blocked_room" where
  "new_blocked_room r = \<lparr>br_room_id = r, state = Pending, rejected_by = None, br_rejection_reason = None\<rparr>"

text \<open>
  \<open>CreateBlockingForm\<close> and \<open>BlockingForm\<close>: the rooms exist and none of them has a blocking that is
  not rejected and meets the days; \<open>self\<close> is the blocking that is being changed.
\<close>

definition blocking_overlap :: "rb \<Rightarrow> int list \<Rightarrow> int \<Rightarrow> int \<Rightarrow> nat option \<Rightarrow> bool" where
  "blocking_overlap s rms sd ed self \<longleftrightarrow> (\<exists>(b, br) \<in> set (blocked_room_rows s).
     br_room_id br \<in> set rms \<and> state br \<noteq> Rejected \<and> start_date (blockings s b) \<le> ed \<and>
     end_date (blockings s b) \<ge> sd \<and> Some b \<noteq> self)"

definition blocking_form_ok :: "rb \<Rightarrow> nat option \<Rightarrow> blocking_form \<Rightarrow> bool" where
  "blocking_form_ok s self f \<longleftrightarrow>
     (let sd = (case self of None \<Rightarrow> f_start_date f | Some b \<Rightarrow> start_date (blockings s b));
          ed = (case self of None \<Rightarrow> f_end_date f | Some b \<Rightarrow> end_date (blockings s b)) in
      f_reason f \<noteq> [] \<and> (self = None \<longrightarrow> sd \<le> ed) \<and>
      distinct (f_blocked_rooms f) \<and> (\<forall>r \<in> set (f_blocked_rooms f). rooms s r \<noteq> None) \<and>
      \<not> blocking_overlap s (f_blocked_rooms f) sd ed self)"

definition create_blocking :: "(int \<Rightarrow> string) \<Rightarrow> user \<Rightarrow> blocking_form \<Rightarrow> (rb, nat) prog" where
  "create_blocking fmt user f = bnd get_st (\<lambda>s. let b = next_blocking s in
     andthen (modify (\<lambda>s. s\<lparr>blockings := (blockings s)(b := \<lparr>bl_created_by_id = av_id user,
          start_date = f_start_date f, end_date = f_end_date f, bl_reason = f_reason f,
          allowed = f_principals f, blocked_rooms = map new_blocked_room (f_blocked_rooms f)\<rparr>),
          blocking_ids := blocking_ids s @ [b], next_blocking := Suc b\<rparr>))
     (andthen (process_blocked_rooms fmt b user (f_blocked_rooms f)) (ret b)))"

definition modify_blocking :: "(int \<Rightarrow> string) \<Rightarrow> nat \<Rightarrow> user \<Rightarrow> blocking_form \<Rightarrow> (rb, unit) prog" where
  "modify_blocking fmt b user f = bnd get_st (\<lambda>s.
     let old_blocked = map br_room_id (blocked_rooms (blockings s b));
         added = filter (\<lambda>r. r \<notin> set old_blocked) (f_blocked_rooms f) in
     andthen (modify (\<lambda>s. s\<lparr>blockings := (blockings s)(b := (blockings s b)\<lparr>
          bl_reason := f_reason f, allowed := f_principals f,
          blocked_rooms := filter (\<lambda>br. br_room_id br \<in> set (f_blocked_rooms f)) (blocked_rooms (blockings s b))
                           @ map new_blocked_room added\<rparr>)\<rparr>))
       (process_blocked_rooms fmt b user added))"

definition delete_blocking :: "nat \<Rightarrow> (rb, unit) prog" where
  "delete_blocking b = modify (\<lambda>s. s\<lparr>blocking_ids := filter (\<lambda>c. c \<noteq> b) (blocking_ids s)\<rparr>)"

section \<open>Invariant and effect\<close>

lemma keeps_inv_other:
  assumes "\<And>s. resv_ids (g s) = resv_ids s \<and> resv (g s) = resv s \<and> next_resv (g s) = next_resv s"
  shows "keeps rb_inv (modify g)"
  by (rule keeps_modify) (simp add: rb_inv_def ids_ok_def all_sound_def no_clash_def assms)

named_theorems inv_intros \<open>programs that keep the booking invariant\<close>

lemma inv_status [inv_intros]:
  "keeps rb_inv (resv_cancel i u reason silent)" "keeps rb_inv (resv_reject i u reason silent)"
  "keeps rb_inv (occ_cancel fmt i k u reason silent True)" "keeps rb_inv (occ_reject fmt i k u reason silent True)"
  by (rule status_keeps_inv)+

lemma inv_send_mail [inv_intros]: "keeps rb_inv (send_mail m)"
  unfolding send_mail_def by (rule keeps_inv_other) simp

lemma inv_upd_blocked [inv_intros]: "keeps rb_inv (upd_blocked_room b room f)"
  unfolding upd_blocked_room_def by (rule keeps_inv_other) simp

lemma inv_notify_response [inv_intros]: "keeps rb_inv (notify_request_response b room)"
  unfolding notify_request_response_def by (intro keeps_intros inv_intros)

lemma inv_br_reject [inv_intros]: "keeps rb_inv (br_reject b room user reason)"
  unfolding br_reject_def by (intro keeps_intros inv_intros)

lemma inv_br_approve [inv_intros]: "keeps rb_inv (br_approve fmt b room nb)"
  unfolding br_approve_def Let_def by (intro keeps_intros inv_intros)

lemma inv_process_blocked_rooms [inv_intros]: "keeps rb_inv (process_blocked_rooms fmt b user rms)"
  unfolding process_blocked_rooms_def Let_def notify_request_def by (intro keeps_intros inv_intros)

lemma inv_blockings [inv_intros]:
  "keeps rb_inv (create_blocking fmt user f)" "keeps rb_inv (modify_blocking fmt b user f)"
  "keeps rb_inv (delete_blocking b)"
  unfolding create_blocking_def modify_blocking_def delete_blocking_def Let_def
  by (intro keeps_intros inv_intros keeps_inv_other; simp)+

lemma overridden_cong:
  "can_be_overridden s (bl\<lparr>blocked_rooms := x\<rparr>) u r e = can_be_overridden s bl u r e"
  "can_be_overridden (s\<lparr>blockings := y\<rparr>) bl u r e = can_be_overridden s bl u r e"
  by (cases u; simp add: can_be_overridden_def created_by_user_def get_avatar_def)+

text \<open>A rejected reservation has no valid occurrence left.\<close>

lemma resv_reject_done:
  assumes run: "resv_reject i u reason silent t = (Inr x, t')"
  shows "\<not> occ_valid_at t' i k"
proof -
  let ?t1 = "t\<lparr>resv := (resv t)(i := reject_valid reason ((resv t i)\<lparr>is_rejected := True, rejection_reason := reason\<rparr>))\<rparr>"
  let ?m = "when_do (\<not> silent) (andthen (notify_rejection i)
                 (log_as i u [''Reservation rejected: '' @ (case reason of None \<Rightarrow> ''None'' | Some x \<Rightarrow> x)]))"
  have "?m ?t1 = (Inr x, t')"
    using run unfolding resv_reject_def upd_resv_twice by (simp add: upd_resv_def comp_def)
  moreover have "keeps (decays ?t1) ?m" by (intro keeps_intros decays_intros)
  ultimately have "decays ?t1 t'" by (intro decays_run [of ?t1 ?m "Inr x" t'])
  moreover have "\<not> occ_valid_at ?t1 i k"
    by (auto simp: occ_valid_at_def reject_valid_def occ_is_valid_def)
  ultimately show ?thesis using valid_at_decays by blast
qed

lemma date_le_last: "dt_date d \<le> e \<Longrightarrow> d \<le> combine e 86399"
  using combine_date_time [of d] dt_time_valid [of d] unfolding combine_def valid_time_def by linarith

lemma date_ge_first: "b \<le> dt_date d \<Longrightarrow> combine b 0 \<le> d"
  using combine_date_time [of d] dt_time_valid [of d] unfolding combine_def valid_time_def by linarith

text \<open>
  What an approved blocking clears: whatever valid occurrence the room still has on one of the
  blocked days belongs to a reservation whose creator may override the blocking.
\<close>

lemma approve_clears_state:
  assumes inv: "rb_inv s" and run: "br_approve fmt b room nb s = (Inr (), s')"
    and i: "i \<in> set (resv_ids s')" "room_id (resv s' i) = room"
    and occ: "occ \<in> set (occurrences (resv s' i))" "occ_is_valid occ"
    and day: "is_active_at (blockings s b) (occ_date occ)"
  shows "overridden_by_creator s (blockings s b) i"
proof (rule ccontr)
  assume no: "\<not> overridden_by_creator s (blockings s b) i"
  obtain t where t: "upd_blocked_room b room (\<lambda>br. br\<lparr>state := Accepted\<rparr>) s = (Inr (), t)"
    by (simp add: upd_blocked_room_def)
  let ?bl = "blockings t b" and ?reason = "Some (''Conflict with blocking '' @ str_nat b @ '': '' @ bl_reason (blockings t b))"
  let ?who = "created_by_user t ?bl"
  let ?f = "\<lambda>i. when_do (\<not> overridden_by_creator t ?bl i) (resv_reject i ?who ?reason False)"
  let ?g = "\<lambda>(i, occ). when_do (\<not> overridden_by_creator t ?bl i) (occ_reject fmt i (o_start_dt occ) ?who ?reason False True)"
  have t_eq: "resv t = resv s" "resv_ids t = resv_ids s" "start_date ?bl = start_date (blockings s b)"
    "end_date ?bl = end_date (blockings s b)"
    using t by (auto simp: upd_blocked_room_def)
  have over: "overridden_by_creator t ?bl i = overridden_by_creator s (blockings s b) i"
  proof -
    have "t = s\<lparr>blockings := (blockings s)(b := (blockings s b)\<lparr>blocked_rooms := map (\<lambda>br.
        if br_room_id br = room then br\<lparr>state := Accepted\<rparr> else br) (blocked_rooms (blockings s b))\<rparr>)\<rparr>"
      using t by (simp add: upd_blocked_room_def)
    then show ?thesis
      by (cases "created_by_id (resv s i)")
        (simp_all add: overridden_by_creator_def overridden_cong get_avatar_def)
  qed
  obtain t1 t2 where t1: "for_each (blocked_reservations t ?bl room) ?f t = (Inr (), t1)"
    and t2: "for_each (blocked_occurrences t ?bl room) ?g t1 = (Inr (), t2)"
    and t3: "when_do nb (notify_request_response b room) t2 = (Inr (), s')"
    using run t unfolding br_approve_def andthen_Inr bnd_get_st Let_def by auto
  have kf: "keeps (decays v) (?f j)" for v j by (intro keeps_intros decays_intros)
  have kg: "keeps (decays v) (?g p)" for v p by (intro keeps_intros decays_intros)
  note visits1 = for_each_visits [OF t1 kf] and visits2 = for_each_visits [OF t2 kg]
  have v1: "decays t t1" "j \<in> set (blocked_reservations t ?bl room) \<Longrightarrow> \<exists>v v'. decays t v \<and> ?f j v = (Inr (), v') \<and> decays v' t1" for j
    using visits1 by (rule conjunct1) (rule bspec [OF conjunct2 [OF visits1]])
  have v2: "decays t1 t2" "p \<in> set (blocked_occurrences t ?bl room) \<Longrightarrow> \<exists>v v'. decays t1 v \<and> ?g p v = (Inr (), v') \<and> decays v' t2" for p
    using visits2 by (rule conjunct1) (rule bspec [OF conjunct2 [OF visits2]])
  have d3: "decays t2 s'"
    using t3 by (auto simp: notify_request_response_def send_mail_def decays_def rest_def resv_decays_def
        split: if_splits option.splits)
  have d: "decays t s'" using v1(1) v2(1) d3 decays_trans by blast
  have at_end: "occ_valid_at s' i (o_start_dt occ)" using occ by (auto simp: occ_valid_at_def)
  have i_t: "i \<in> set (resv_ids t)" "room_id (resv t i) = room"
    using i decays_fields(1) [OF d] decays_row(1) [OF d] by auto
  obtain occ' where occ': "occ' \<in> set (occurrences (resv t i))" "occ_is_valid occ'" "occ_span occ' = occ_span occ"
  proof -
    have "occ_span occ \<in> valid_keys (resv s' i)" using occ by (auto simp: valid_keys_iff)
    then have "occ_span occ \<in> valid_keys (resv t i)" using decays_row(9) [OF d, of i] by blast
    then show thesis using that by (auto simp: valid_keys_iff)
  qed
  have sound: "sound (resv t i)" using inv i_t by (simp add: t_eq rb_inv_def all_sound_def)
  then have "live (resv t i)" using occ' by (auto simp: sound_def live_ok_def)
  then have flags: "\<not> is_rejected (resv t i)" "\<not> is_cancelled (resv t i)" by (simp_all add: live_def)
  show False
  proof (cases "i \<in> set (blocked_reservations t ?bl room)")
    case True
    then obtain v v' where "?f i v = (Inr (), v')" "decays v' t1" using v1(2) by blast
    then have "resv_reject i ?who ?reason False v = (Inr (), v')" and e: "decays v' t1"
      using no over by (simp_all add: when_run)
    moreover have "decays v' s'" by (rule decays_trans [OF e decays_trans [OF v2(1) d3]])
    ultimately show False using resv_reject_done valid_at_decays at_end by blast
  next
    case False
    have "day_span (occ_span occ)" using sound occ' by (auto simp: sound_def shape_ok_def)
    with day have "combine (start_date ?bl) 0 \<le> o_start_dt occ" "o_end_dt occ \<le> combine (end_date ?bl) 86399"
      by (auto simp: t_eq is_active_at_def occ_date_def day_span_def occ_span_def
          intro!: date_le_last date_ge_first)
    then have "(i, occ') \<in> set (blocked_occurrences t ?bl room)"
      using False i_t occ' flags by (simp add: blocked_occurrences_def occ_rows_iff occ_span_def)
    then obtain v v' where "?g (i, occ') v = (Inr (), v')" "decays v' t2" using v2(2) by blast
    then have "occ_reject fmt i (o_start_dt occ) ?who ?reason False True v = (Inr (), v')" and e: "decays v' t2"
      using no over occ'(3) by (simp_all add: when_run occ_span_def)
    moreover have "decays v' s'" by (rule decays_trans [OF e d3])
    ultimately show False using occ_reject_done valid_at_decays at_end by blast
  qed
qed

end
