(* ===== verification/RB_Requests.thy ===== *)
theory RB_Requests
  imports RB_Blocking
begin

text \<open>
  The requests of the room booking module: the forms (\<open>forms/reservations.py\<close>), the request handlers
  (\<open>controllers/user/reservations.py\<close>, \<open>controllers/admin/reservations.py\<close>), the services of the
  blockings (\<open>services/blockings.py\<close>) and the booking call of the HTTP API (\<open>api.py\<close>), each with its
  access check.  A request runs in a transaction: one that raises leaves the tables as they were.
\<close>

section \<open>Who may do what\<close>

definition resv_is_owned_by :: "reservation \<Rightarrow> user \<Rightarrow> bool" where
  "resv_is_owned_by r u \<longleftrightarrow> created_by_id r = Some (av_id u)"

definition is_booked_for :: "rb \<Rightarrow> reservation \<Rightarrow> user \<Rightarrow> bool" where
  "is_booked_for s r u \<longleftrightarrow> same_user (get_avatar s (booked_for_id r)) u \<or> contact_email r \<in> set (av_emails u)"

definition room_owned_by :: "rb \<Rightarrow> reservation \<Rightarrow> user \<Rightarrow> bool" where
  "room_owned_by s r u \<longleftrightarrow> (case rooms s (room_id r) of None \<Rightarrow> False | Some rm \<Rightarrow> is_owned_by rm u)"

definition can_be_modified :: "rb \<Rightarrow> reservation \<Rightarrow> user option \<Rightarrow> bool" where
  "can_be_modified s r user = (case user of
       None \<Rightarrow> False
     | Some u \<Rightarrow>
         if is_rejected r \<or> is_cancelled r then False
         else if isRBAdmin s u then True
         else same_user (get_avatar s (created_by_id r)) u \<or> is_booked_for s r u \<or> room_owned_by s r u)"

definition can_be_cancelled :: "rb \<Rightarrow> reservation \<Rightarrow> user option \<Rightarrow> bool" where
  "can_be_cancelled s r user = (case user of None \<Rightarrow> False
     | Some u \<Rightarrow> resv_is_owned_by r u \<or> isRBAdmin s u \<or> is_booked_for s r u)"

definition can_be_accepted :: "rb \<Rightarrow> reservation \<Rightarrow> user option \<Rightarrow> bool" where
  "can_be_accepted s r user = (case user of None \<Rightarrow> False
     | Some u \<Rightarrow> isRBAdmin s u \<or> room_owned_by s r u)"

definition can_be_rejected :: "rb \<Rightarrow> reservation \<Rightarrow> user option \<Rightarrow> bool" where
  "can_be_rejected s r user = (case user of None \<Rightarrow> False
     | Some u \<Rightarrow> isRBAdmin s u \<or> room_owned_by s r u)"

definition can_be_deleted :: "rb \<Rightarrow> reservation \<Rightarrow> user option \<Rightarrow> bool" where
  "can_be_deleted s r user = (case user of None \<Rightarrow> False | Some u \<Rightarrow> isRBAdmin s u)"

section \<open>Forms\<close>

text \<open>
  The validators of the booking forms.  \<open>earliest\<close> is the day the start may not lie before: today for
  a new booking, the day of the old start for a change.  The result is the data with the end moved
  to the day of the start for a single booking, or \<open>None\<close> when a validator fails.
\<close>

definition repetition_offered :: "int \<times> int \<Rightarrow> bool" where
  "repetition_offered p \<longleftrightarrow> p \<in> set (map fst repeat_mapping)"

definition validate_booking :: "int \<Rightarrow> bool \<Rightarrow> booking_data \<Rightarrow> booking_data option" where
  "validate_booking earliest admin d =
     (if \<not> (0 \<le> d_repeat_interval d \<and> d_repeat_interval d \<le> 3) then None
      else if \<not> repetition_offered (d_repeat_frequency d, d_repeat_interval d) then None
      else if dt_date (d_start_dt d) < earliest \<and> \<not> admin then None
      else if dt_time (d_start_dt d) \<ge> dt_time (d_end_dt d) then None
      else if truthy (d_booked_for_id d) \<and> d_contact_email d \<noteq> [] \<and> d_booking_reason d \<noteq> [] \<and>
              (d_used_equipment d \<noteq> [] \<longleftrightarrow> d_uses_vc d) \<and> (d_needs_vc_assistance d \<longrightarrow> d_uses_vc d)
      then (if d_repeat_frequency d = NEVER_F
            then Some (d\<lparr>d_end_dt := combine (dt_date (d_start_dt d)) (dt_time (d_end_dt d))\<rparr>)
            else if dt_date (d_start_dt d) \<ge> dt_date (d_end_dt d) then None else Some d)
      else None)"

lemma validate_booking_times:
  assumes "validate_booking earliest admin d = Some d'"
  shows "dt_time (d_start_dt d') < dt_time (d_end_dt d')"
    "repetition_offered (d_repeat_frequency d', d_repeat_interval d')"
    "d_repeat_frequency d' = NEVER_F \<Longrightarrow> dt_date (d_start_dt d') = dt_date (d_end_dt d')"
  using assms unfolding validate_booking_def by (auto split: if_splits simp: date_simps)

section \<open>Requests on a booking\<close>

definition unauthorized :: "(rb, 'a) prog" where
  "unauthorized = raise_exn (IndicoError ''You are not authorized to perform this action'')"

definition rh_accept_booking :: "nat \<Rightarrow> user \<Rightarrow> (rb, unit) prog" where
  "rh_accept_booking i user = bnd get_st (\<lambda>s.
     if \<not> can_be_accepted s (resv s i) (Some user) then unauthorized
     else if filter (\<lambda>j. is_accepted (resv s j)) (find_overlapping s i) \<noteq> []
     then raise_exn (IndicoError ''This reservation could not be accepted due to conflicts with other reservations'')
     else when_do (is_pending (resv s i)) (resv_accept i (Some user)))"

definition rh_cancel_booking :: "nat \<Rightarrow> user \<Rightarrow> (rb, unit) prog" where
  "rh_cancel_booking i user = bnd get_st (\<lambda>s.
     if \<not> can_be_cancelled s (resv s i) (Some user) then unauthorized
     else when_do (\<not> is_cancelled (resv s i) \<and> \<not> is_rejected (resv s i)) (resv_cancel i (Some user) None False))"

definition rh_reject_booking :: "nat \<Rightarrow> user \<Rightarrow> string \<Rightarrow> (rb, unit) prog" where
  "rh_reject_booking i user reason = bnd get_st (\<lambda>s.
     if \<not> can_be_rejected s (resv s i) (Some user) then unauthorized
     else when_do (\<not> is_cancelled (resv s i) \<and> \<not> is_rejected (resv s i)) (resv_reject i (Some user) (Some reason) False))"

text \<open>\<open>self._reservation.occurrences.filter(date == d).one()\<close>: none or several is an error.\<close>

definition occurrence_on :: "nat \<Rightarrow> int \<Rightarrow> (rb, occurrence) prog" where
  "occurrence_on i d = bnd get_st (\<lambda>s.
     case filter (\<lambda>occ. occ_date occ = d) (occurrences (resv s i)) of
       [occ] \<Rightarrow> ret occ | _ \<Rightarrow> raise_exn NoResultFound)"

definition rh_cancel_occurrence :: "(int \<Rightarrow> string) \<Rightarrow> nat \<Rightarrow> int \<Rightarrow> user \<Rightarrow> (rb, unit) prog" where
  "rh_cancel_occurrence fmt i d user = bnd (occurrence_on i d) (\<lambda>occ. bnd get_st (\<lambda>s.
     if \<not> can_be_cancelled s (resv s i) (Some user) then unauthorized
     else when_do (occ_is_valid occ) (occ_cancel fmt i (o_start_dt occ) (Some user) None False True)))"

definition rh_reject_occurrence :: "(int \<Rightarrow> string) \<Rightarrow> nat \<Rightarrow> int \<Rightarrow> user \<Rightarrow> string \<Rightarrow> (rb, unit) prog" where
  "rh_reject_occurrence fmt i d user reason = bnd (occurrence_on i d) (\<lambda>occ. bnd get_st (\<lambda>s.
     if \<not> can_be_rejected s (resv s i) (Some user) then unauthorized
     else when_do (occ_is_valid occ) (occ_reject fmt i (o_start_dt occ) (Some user) (Some reason) False True)))"

definition rh_delete_booking :: "nat \<Rightarrow> user \<Rightarrow> (rb, unit) prog" where
  "rh_delete_booking i user = bnd get_st (\<lambda>s.
     if \<not> isRBAdmin s user then raise_exn AccessError
     else modify (\<lambda>s. s\<lparr>resv_ids := filter (\<lambda>j. j \<noteq> i) (resv_ids s)\<rparr>))"

section \<open>Conflicts shown before a booking\<close>

text \<open>
  \<open>_get_all_conflicts\<close>: the collisions of the candidates, in two dicts.  The repetition handed to
  \<open>create_series\<close> is the pair of the interval and the interval, as the source writes it.
\<close>

definition all_conflicts ::
    "rrule \<Rightarrow> rb \<Rightarrow> int \<Rightarrow> booking_data \<Rightarrow> nat option \<Rightarrow>
     exn + (int \<times> (nat \<times> occurrence)) list \<times> (int \<times> (nat \<times> occurrence)) list" where
  "all_conflicts rr s room d self =
     (case create_series rr (d_start_dt d) (d_end_dt d) (d_repeat_interval d, d_repeat_interval d) of
       Inl e \<Rightarrow> Inl e
     | Inr candidates \<Rightarrow>
         (let occs = occ_find_overlapping_with s room candidates self;
              hits = concat (map (\<lambda>cand. map (\<lambda>p. (o_start_dt cand, p))
                (filter (\<lambda>(j, c). occ_overlaps s (None, cand) (Some j, c) False = Inr True) occs)) candidates)
          in Inr (filter (\<lambda>(k, j, c). is_accepted (resv s j)) hits,
                  filter (\<lambda>(k, j, c). \<not> is_accepted (resv s j)) hits)))"

section \<open>New and changed bookings\<close>

text \<open>
  \<open>_make_confirm_form\<close> keeps the two submit buttons the user may use, and \<open>_create_booking\<close> decides
  from the buttons whether this is a pre-booking: \<open>choice\<close> is the button that was pressed when
  there are both.
\<close>

definition has_book_button :: "rb \<Rightarrow> room \<Rightarrow> user \<Rightarrow> bool" where
  "has_book_button s rm user = can_be_booked s rm (Some user) False"

definition has_prebook_button :: "rb \<Rightarrow> room \<Rightarrow> user \<Rightarrow> bool" where
  "has_prebook_button s rm user \<longleftrightarrow>
     \<not> (\<not> reservations_need_confirmation rm \<or> \<not> can_be_prebooked s rm (Some user) False \<or>
        (can_be_booked s rm (Some user) False \<and> can_be_booked s rm (Some user) True))"

definition create_booking :: "rrule \<Rightarrow> (int \<Rightarrow> string) \<Rightarrow> room \<Rightarrow> booking_data \<Rightarrow> user \<Rightarrow> bool \<Rightarrow> (rb, nat) prog" where
  "create_booking rr fmt rm d user choice = bnd get_st (\<lambda>s.
     create_from_data rr fmt rm d user
       (Some (if has_book_button s rm user \<and> has_prebook_button s rm user then choice
              else \<not> has_book_button s rm user)))"

text \<open>The last step of the wizard, and the page that books one room at once.\<close>

definition rh_confirm_booking :: "rrule \<Rightarrow> (int \<Rightarrow> string) \<Rightarrow> int \<Rightarrow> booking_data \<Rightarrow> user \<Rightarrow> bool \<Rightarrow> (rb, nat option) prog" where
  "rh_confirm_booking rr fmt room d user choice = bnd get_st (\<lambda>s. case rooms s room of
       None \<Rightarrow> raise_exn AttributeError
     | Some rm \<Rightarrow>
         if \<not> can_be_booked s rm (Some user) False \<and> \<not> can_be_prebooked s rm (Some user) False
         then raise_exn (IndicoError ''You cannot book this room'')
         else (case validate_booking (dt_date (rb_now s)) (av_admin user) d of
             Some d' \<Rightarrow> bnd (create_booking rr fmt rm d' user choice) (\<lambda>i. ret (Some i))
           | None \<Rightarrow> bnd (lift_res (all_conflicts rr s room d None)) (\<lambda>_. ret None)))"

definition rh_simple_booking :: "rrule \<Rightarrow> (int \<Rightarrow> string) \<Rightarrow> int \<Rightarrow> booking_data \<Rightarrow> user \<Rightarrow> bool \<Rightarrow> bool \<Rightarrow> (rb, nat option) prog" where
  "rh_simple_booking rr fmt room d user choice submit_check = bnd get_st (\<lambda>s. case rooms s room of
       None \<Rightarrow> raise_exn (IndicoError ''This room does not exist'')
     | Some rm \<Rightarrow> (case validate_booking (dt_date (rb_now s)) (av_admin user) d of
         None \<Rightarrow> ret None
       | Some d' \<Rightarrow> bnd (lift_res (all_conflicts rr s room d' None)) (\<lambda>_.
           if submit_check then ret None
           else bnd (create_booking rr fmt rm d' user choice) (\<lambda>i. ret (Some i)))))"

definition rh_modify_booking ::
    "rrule \<Rightarrow> (int \<Rightarrow> string) \<Rightarrow> (string list \<Rightarrow> string list) \<Rightarrow> (fval \<Rightarrow> string) \<Rightarrow> nat \<Rightarrow> booking_data \<Rightarrow> user \<Rightarrow> bool \<Rightarrow> (rb, bool) prog" where
  "rh_modify_booking rr fmt srt conv i d user submit_check = bnd get_st (\<lambda>s.
     if \<not> can_be_modified s (resv s i) (Some user) then raise_exn AccessError
     else (case validate_booking (dt_date (r_start_dt (resv s i))) (av_admin user) d of
         None \<Rightarrow> ret False
       | Some d' \<Rightarrow> bnd (lift_res (all_conflicts rr s (room_id (resv s i)) d' (Some i))) (\<lambda>_.
           if submit_check then ret False else resv_modify rr fmt srt conv i d' user)))"

text \<open>
  The API books for the avatar it was given, as the authenticated user, one period on one day; the
  phone and the address come from the avatar.
\<close>

definition api_data :: "int \<Rightarrow> int \<Rightarrow> user \<Rightarrow> string \<Rightarrow> string \<Rightarrow> booking_data" where
  "api_data start fin booked_for phone reason = \<lparr>d_start_dt = start, d_end_dt = fin,
     d_repeat_frequency = NEVER_F, d_repeat_interval = 0, d_booked_for_id = Some (av_id booked_for),
     d_contact_email = (case av_emails booked_for of [] \<Rightarrow> [] | e # _ \<Rightarrow> e), d_contact_phone = phone,
     d_booking_reason = reason, d_used_equipment = [], d_needs_assistance = False, d_uses_vc = False,
     d_needs_vc_assistance = False\<rparr>"

definition is_indico_error :: "exn \<Rightarrow> bool" where
  "is_indico_error e = (case e of IndicoError _ \<Rightarrow> True | NoReportError _ \<Rightarrow> True | _ \<Rightarrow> False)"

definition api_book_room :: "rrule \<Rightarrow> (int \<Rightarrow> string) \<Rightarrow> int \<Rightarrow> int \<Rightarrow> int \<Rightarrow> user \<Rightarrow> string \<Rightarrow> string \<Rightarrow> user \<Rightarrow> (rb, nat) prog" where
  "api_book_room rr fmt room start fin booked_for phone reason user = bnd get_st (\<lambda>s.
     if dt_date start \<noteq> dt_date fin then raise_exn (HTTPAPIError ''from/to must be on the same day'')
     else if start \<ge> fin then raise_exn (HTTPAPIError ''to must be after from'')
     else if start < rb_now s then raise_exn (HTTPAPIError ''You cannot make bookings in the past'')
     else (case rooms s room of
         None \<Rightarrow> raise_exn (HTTPAPIError ''A room with this ID does not exist'')
       | Some rm \<Rightarrow>
           if \<not> rb_check_user_access s user then raise_exn AccessError
           else if \<not> can_be_booked s rm (Some user) False then
             (if can_be_prebooked s rm (Some user) False
              then raise_exn (HTTPAPIError ''The API only supports direct bookings but this room only allows pre-bookings.'')
              else raise_exn AccessError)
           else catch_exn (create_from_data rr fmt rm (api_data start fin booked_for phone reason) user None)
             (\<lambda>e. if e = ConflictingOccurrences
                  then Some (raise_exn (HTTPAPIError ''Failed to create the booking due to conflicts with other bookings''))
                  else if is_indico_error e then Some (raise_exn (HTTPAPIError ''Failed to create the booking''))
                  else None)))"

section \<open>Requests on blockings\<close>

definition has_blocked_room :: "rb \<Rightarrow> nat \<Rightarrow> int \<Rightarrow> bool" where
  "has_blocked_room s b room \<longleftrightarrow> b \<in> set (blocking_ids s) \<and> room \<in> br_room_id ` set (blocked_rooms (blockings s b))"

definition may_process_blocking :: "rb \<Rightarrow> int \<Rightarrow> user \<Rightarrow> bool" where
  "may_process_blocking s room user \<longleftrightarrow> av_admin user \<or>
     (case rooms s room of None \<Rightarrow> False | Some rm \<Rightarrow> is_owned_by rm user)"

definition sv_approve :: "(int \<Rightarrow> string) \<Rightarrow> nat \<Rightarrow> int \<Rightarrow> user \<Rightarrow> (rb, unit) prog" where
  "sv_approve fmt b room user = bnd get_st (\<lambda>s.
     if \<not> may_process_blocking s room user
     then raise_exn (ServiceError ''You are not permitted to modify this blocking'')
     else br_approve fmt b room True)"

definition sv_reject :: "nat \<Rightarrow> int \<Rightarrow> user \<Rightarrow> string \<Rightarrow> (rb, unit) prog" where
  "sv_reject b room user reason = bnd get_st (\<lambda>s.
     if reason = [] then raise_exn (ServiceError ''You have to specify a rejection reason'')
     else if \<not> may_process_blocking s room user
     then raise_exn (ServiceError ''You are not permitted to modify this blocking'')
     else br_reject b room (Some user) (Some reason))"

definition rh_create_blocking :: "(int \<Rightarrow> string) \<Rightarrow> user \<Rightarrow> blocking_form \<Rightarrow> (rb, unit) prog" where
  "rh_create_blocking fmt user f = bnd get_st (\<lambda>s. when_do (blocking_form_ok s None f)
     (bnd (create_blocking fmt user f) (\<lambda>_. ret ())))"

definition rh_modify_blocking :: "(int \<Rightarrow> string) \<Rightarrow> nat \<Rightarrow> user \<Rightarrow> blocking_form \<Rightarrow> (rb, unit) prog" where
  "rh_modify_blocking fmt b user f = bnd get_st (\<lambda>s.
     if \<not> blocking_can_be_modified s (blockings s b) (Some user)
     then raise_exn (IndicoError ''You are not authorized to modify this blocking.'')
     else when_do (blocking_form_ok s (Some b) f) (modify_blocking fmt b user f))"

definition rh_delete_blocking :: "nat \<Rightarrow> user \<Rightarrow> (rb, unit) prog" where
  "rh_delete_blocking b user = bnd get_st (\<lambda>s.
     if \<not> blocking_can_be_modified s (blockings s b) (Some user)
     then raise_exn (IndicoError ''You are not authorized to delete this blocking.'')
     else delete_blocking b)"

section \<open>The system\<close>

text \<open>
  A request as a value, its program, and the transitions of the tables: a request on an existing row
  that returns, or a change from outside (time, users, rooms, settings) that leaves bookings and
  blockings alone.
\<close>

datatype request =
    Accept nat
  | Cancel nat
  | Reject nat string
  | CancelOccurrence nat int
  | RejectOccurrence nat int string
  | Delete nat
  | Confirm int booking_data bool
  | Simple int booking_data bool bool
  | Modify nat booking_data bool
  | ApiBook int int int user string string
  | Approve nat int
  | RejectBlocking nat int string
  | CreateBlocking blocking_form
  | ModifyBlocking nat blocking_form
  | DeleteBlocking nat

definition forget :: "('s, 'a) prog \<Rightarrow> ('s, unit) prog" where
  "forget m = bnd m (\<lambda>_. ret ())"

fun run_request ::
    "rrule \<Rightarrow> (int \<Rightarrow> string) \<Rightarrow> (string list \<Rightarrow> string list) \<Rightarrow> (fval \<Rightarrow> string) \<Rightarrow> user \<Rightarrow> request \<Rightarrow> (rb, unit) prog" where
  "run_request rr fmt srt conv u (Accept i) = rh_accept_booking i u"
| "run_request rr fmt srt conv u (Cancel i) = rh_cancel_booking i u"
| "run_request rr fmt srt conv u (Reject i reason) = rh_reject_booking i u reason"
| "run_request rr fmt srt conv u (CancelOccurrence i d) = rh_cancel_occurrence fmt i d u"
| "run_request rr fmt srt conv u (RejectOccurrence i d reason) = rh_reject_occurrence fmt i d u reason"
| "run_request rr fmt srt conv u (Delete i) = rh_delete_booking i u"
| "run_request rr fmt srt conv u (Confirm room d choice) = forget (rh_confirm_booking rr fmt room d u choice)"
| "run_request rr fmt srt conv u (Simple room d choice check) = forget (rh_simple_booking rr fmt room d u choice check)"
| "run_request rr fmt srt conv u (Modify i d check) = forget (rh_modify_booking rr fmt srt conv i d u check)"
| "run_request rr fmt srt conv u (ApiBook room start fin bf phone reason) =
     forget (api_book_room rr fmt room start fin bf phone reason u)"
| "run_request rr fmt srt conv u (Approve b room) = sv_approve fmt b room u"
| "run_request rr fmt srt conv u (RejectBlocking b room reason) = sv_reject b room u reason"
| "run_request rr fmt srt conv u (CreateBlocking f) = rh_create_blocking fmt u f"
| "run_request rr fmt srt conv u (ModifyBlocking b f) = rh_modify_blocking fmt b u f"
| "run_request rr fmt srt conv u (DeleteBlocking b) = rh_delete_blocking b u"

text \<open>The handlers look the row of their id up first and fail when there is none.\<close>

fun request_row :: "rb \<Rightarrow> request \<Rightarrow> bool" where
  "request_row s (Accept i) = (i \<in> set (resv_ids s))"
| "request_row s (Cancel i) = (i \<in> set (resv_ids s))"
| "request_row s (Reject i _) = (i \<in> set (resv_ids s))"
| "request_row s (CancelOccurrence i _) = (i \<in> set (resv_ids s))"
| "request_row s (RejectOccurrence i _ _) = (i \<in> set (resv_ids s))"
| "request_row s (Delete i) = (i \<in> set (resv_ids s))"
| "request_row s (Modify i _ _) = (i \<in> set (resv_ids s))"
| "request_row s (Approve b room) = has_blocked_room s b room"
| "request_row s (RejectBlocking b room _) = has_blocked_room s b room"
| "request_row s (ModifyBlocking b _) = (b \<in> set (blocking_ids s))"
| "request_row s (DeleteBlocking b) = (b \<in> set (blocking_ids s))"
| "request_row s _ = True"

text \<open>A transaction: rolled back when the request raises.\<close>

definition transaction ::
    "rrule \<Rightarrow> (int \<Rightarrow> string) \<Rightarrow> (string list \<Rightarrow> string list) \<Rightarrow> (fval \<Rightarrow> string) \<Rightarrow> user \<Rightarrow> request \<Rightarrow> rb \<Rightarrow> rb" where
  "transaction rr fmt srt conv u q s = (if \<not> request_row s q then s else
     case run_request rr fmt srt conv u q s of (Inl e, _) \<Rightarrow> s | (Inr _, s') \<Rightarrow> s')"

definition bookings_part :: "rb \<Rightarrow> _" where
  "bookings_part s = (resv_ids s, resv s, next_resv s, blocking_ids s, blockings s, next_blocking s)"

inductive rb_step ::
    "rrule \<Rightarrow> (int \<Rightarrow> string) \<Rightarrow> (string list \<Rightarrow> string list) \<Rightarrow> (fval \<Rightarrow> string) \<Rightarrow> rb \<Rightarrow> rb \<Rightarrow> bool"
  for rr fmt srt conv where
  request: "rb_step rr fmt srt conv s (transaction rr fmt srt conv u q s)"
| outside: "bookings_part s' = bookings_part s \<Longrightarrow> rb_step rr fmt srt conv s s'"

inductive rb_reach ::
    "rrule \<Rightarrow> (int \<Rightarrow> string) \<Rightarrow> (string list \<Rightarrow> string list) \<Rightarrow> (fval \<Rightarrow> string) \<Rightarrow> rb \<Rightarrow> bool"
  for rr fmt srt conv where
  start: "resv_ids s = [] \<Longrightarrow> rb_reach rr fmt srt conv s"
| step: "rb_reach rr fmt srt conv s \<Longrightarrow> rb_step rr fmt srt conv s s' \<Longrightarrow> rb_reach rr fmt srt conv s'"

section \<open>The invariant holds in every reachable state\<close>

lemma create_booking_inv:
  assumes "rrule_laws rr" "rb_inv s" "validate_booking e a d = Some d'"
    "create_booking rr fmt rm d' u c s = (Inr i, s')"
  shows "rb_inv s'"
  using assms(4) unfolding create_booking_def bnd_get_st
  by (rule create_keeps_inv [OF assms(1,2) validate_booking_times(1) [OF assms(3)]])

lemma inv_accept:
  assumes "rb_inv s" "i \<in> set (resv_ids s)" "rh_accept_booking i u s = (Inr (), s')"
  shows "rb_inv s'"
  using assms accept_keeps_inv [OF assms(1,2), of u s']
  by (auto simp: rh_accept_booking_def unauthorized_def split: if_splits)

lemma inv_simple_requests [inv_intros]:
  "keeps rb_inv (rh_cancel_booking i u)" "keeps rb_inv (rh_reject_booking i u r)"
  "keeps rb_inv (rh_cancel_occurrence fmt i d u)" "keeps rb_inv (rh_reject_occurrence fmt i d u r)"
  "keeps rb_inv (sv_approve fmt b room u)" "keeps rb_inv (sv_reject b room u r)"
  "keeps rb_inv (rh_create_blocking fmt u f)" "keeps rb_inv (rh_modify_blocking fmt b u f)"
  "keeps rb_inv (rh_delete_blocking b u)"
proof -
  have occ: "keeps rb_inv (occurrence_on i d)"
    unfolding occurrence_on_def by (rule keepsI) (auto split: list.splits simp: ret_run)
  show "keeps rb_inv (rh_cancel_booking i u)" "keeps rb_inv (rh_reject_booking i u r)"
    "keeps rb_inv (sv_approve fmt b room u)" "keeps rb_inv (sv_reject b room u r)"
    "keeps rb_inv (rh_create_blocking fmt u f)" "keeps rb_inv (rh_modify_blocking fmt b u f)"
    "keeps rb_inv (rh_delete_blocking b u)"
    unfolding rh_cancel_booking_def rh_reject_booking_def unauthorized_def
      sv_approve_def sv_reject_def rh_create_blocking_def rh_modify_blocking_def rh_delete_blocking_def
    by (intro keeps_intros inv_intros)+
  show "keeps rb_inv (rh_cancel_occurrence fmt i d u)" "keeps rb_inv (rh_reject_occurrence fmt i d u r)"
    unfolding rh_cancel_occurrence_def rh_reject_occurrence_def unauthorized_def
    by (intro keeps_intros inv_intros occ)+
qed

lemma inv_delete:
  "rb_inv s \<Longrightarrow> rh_delete_booking i u s = (Inr (), s') \<Longrightarrow> rb_inv s'"
  by (auto simp: rh_delete_booking_def rb_inv_def ids_ok_def all_sound_def no_clash_def split: if_splits)

lemma inv_confirm:
  assumes rr: "rrule_laws rr" and inv: "rb_inv s" and run: "rh_confirm_booking rr fmt room d u c s = (Inr x, s')"
  shows "rb_inv s'"
proof (cases "validate_booking (dt_date (rb_now s)) (av_admin u) d")
  case None
  with run inv show ?thesis
    by (auto simp: rh_confirm_booking_def ret_run lift_res_run split: option.splits if_splits sum.splits)
next
  case (Some d')
  then obtain rm i where "create_booking rr fmt rm d' u c s = (Inr i, s')"
    using run unfolding rh_confirm_booking_def bnd_get_st
    by (auto simp: ret_run split: option.splits if_splits prod.splits sum.splits)
  then show ?thesis by (rule create_booking_inv [OF rr inv Some])
qed

lemma inv_simple:
  assumes rr: "rrule_laws rr" and inv: "rb_inv s" and run: "rh_simple_booking rr fmt room d u c chk s = (Inr x, s')"
  shows "rb_inv s'"
proof (cases "validate_booking (dt_date (rb_now s)) (av_admin u) d")
  case None
  with run inv show ?thesis by (auto simp: rh_simple_booking_def ret_run split: option.splits)
next
  case (Some d')
  then have "s' = s \<or> (\<exists>rm i. create_booking rr fmt rm d' u c s = (Inr i, s'))"
    using run unfolding rh_simple_booking_def bnd_get_st
    by (auto simp: ret_run lift_res_run split: option.splits if_splits prod.splits sum.splits)
  then show ?thesis using create_booking_inv [OF rr inv Some] inv by blast
qed

lemma inv_modify:
  assumes rr: "rrule_laws rr" and inv: "rb_inv s" and i: "i \<in> set (resv_ids s)"
    and run: "rh_modify_booking rr fmt srt conv i d u chk s = (Inr x, s')"
  shows "rb_inv s'"
proof (cases "can_be_modified s (resv s i) (Some u)")
  case False
  with run show ?thesis by (simp add: rh_modify_booking_def)
next
  case True
  then have lv: "live (resv s i)" by (auto simp: can_be_modified_def live_def split: if_splits)
  show ?thesis
  proof (cases "validate_booking (dt_date (r_start_dt (resv s i))) (av_admin u) d")
    case None
    with run inv True show ?thesis by (auto simp: rh_modify_booking_def ret_run)
  next
    case (Some d')
    then have "s' = s \<or> resv_modify rr fmt srt conv i d' u s = (Inr x, s')"
      using run True unfolding rh_modify_booking_def bnd_get_st
      by (auto simp: ret_run lift_res_run split: if_splits sum.splits)
    then show ?thesis
      using modify_keeps_inv [OF rr inv i lv validate_booking_times(1) [OF Some]] inv by blast
  qed
qed

lemma inv_api:
  assumes rr: "rrule_laws rr" and inv: "rb_inv s"
    and run: "api_book_room rr fmt room start fin bf phone reason u s = (Inr x, s')"
  shows "rb_inv s'"
proof -
  let ?d = "api_data start fin bf phone reason"
  have dates: "dt_date start = dt_date fin" "start < fin"
    using run unfolding api_book_room_def bnd_get_st by (auto split: if_splits)
  obtain rm where "create_from_data rr fmt rm ?d u None s = (Inr x, s')"
    using run dates unfolding api_book_room_def bnd_get_st
    by (auto split: if_splits option.splits prod.splits sum.splits)
  moreover have "dt_time (d_start_dt ?d) < dt_time (d_end_dt ?d)"
    using dates by (simp add: api_data_def dt_less_same_date)
  ultimately show ?thesis using create_keeps_inv [OF rr inv] by blast
qed

lemma run_request_inv:
  assumes rr: "rrule_laws rr" and inv: "rb_inv s" and row: "request_row s q"
    and run: "run_request rr fmt srt conv u q s = (Inr x, s')"
  shows "rb_inv s'"
proof -
  have fg: "\<exists>y. m s = (Inr y, s')" if "forget m s = (Inr x, s')" for m :: "(rb, 'z) prog"
    using that by (auto simp: forget_def ret_run split: prod.splits sum.splits)
  show ?thesis
    using run row
  proof (cases q)
    case (Accept i)
    with run row show ?thesis using inv_accept [OF inv] by (cases x) auto
  next
    case (Delete i)
    with run show ?thesis using inv_delete [OF inv] by (cases x) auto
  next
    case (Confirm room d c)
    with run fg show ?thesis using inv_confirm [OF rr inv] by (metis run_request.simps(7))
  next
    case (Simple room d c chk)
    with run fg show ?thesis using inv_simple [OF rr inv] by (metis run_request.simps(8))
  next
    case (Modify i d chk)
    with run row fg show ?thesis using inv_modify [OF rr inv] by (metis run_request.simps(9) request_row.simps(7))
  next
    case (ApiBook room start fin bf phone reason)
    with run fg show ?thesis using inv_api [OF rr inv] by (metis run_request.simps(10))
  qed (auto dest: inv_simple_requests [THEN keeps_run, OF inv])
qed

lemma transaction_inv:
  assumes "rrule_laws rr" "rb_inv s" shows "rb_inv (transaction rr fmt srt conv u q s)"
  using run_request_inv [OF assms] assms(2)
  by (auto simp: transaction_def split: prod.splits sum.splits)

lemma rb_reach_inv:
  assumes "rb_reach rr fmt srt conv s" "rrule_laws rr" shows "rb_inv s"
  using assms(1)
proof (induction rule: rb_reach.induct)
  case (start s)
  then show ?case by (simp add: rb_inv_def ids_ok_def all_sound_def no_clash_def)
next
  case (step s s')
  from step.hyps(2) show ?case
  proof cases
    case (request u q)
    then show ?thesis using transaction_inv [OF assms(2) step.IH] by simp
  next
    case outside
    with step show ?thesis
      by (auto simp: bookings_part_def rb_inv_def ids_ok_def all_sound_def no_clash_def)
  qed
qed

end
