(* ===== verification/RB_Props.thy ===== *)
theory RB_Props
  imports RB_Requests
begin

text \<open>
  The properties of the room booking module, over all reachable states of the tables or for one
  operation, each with an instance on a small database.
\<close>

section \<open>A small database\<close>

definition sample_user :: "string \<Rightarrow> user" where
  "sample_user i = \<lparr>av_id = i, full_name = ''U'' @ i, av_admin = False, av_groups = [], av_emails = [''e'' @ i]\<rparr>"

definition sample_room :: "bool \<Rightarrow> room" where
  "sample_room reservable = \<lparr>rm_id = 1, owner_id = ''1'', is_active = True, is_reservable = reservable,
     reservations_need_confirmation = True, max_advance_days = None, bookable_hours = [],
     nonbookable_periods = [], room_attributes = []\<rparr>"

text \<open>One blocking of day 2 by the other user waits for the approval of the owner.\<close>

definition sample_blocking :: blocking where
  "sample_blocking = \<lparr>bl_created_by_id = ''2'', start_date = 2, end_date = 2, bl_reason = ''b'', allowed = [],
     blocked_rooms = [\<lparr>br_room_id = 1, state = Pending, rejected_by = None, br_rejection_reason = None\<rparr>]\<rparr>"

definition sample_rb :: "bool \<Rightarrow> rb" where
  "sample_rb reservable = \<lparr>rooms = (\<lambda>_. None)(1 := Some (sample_room reservable)), resv_ids = [], resv = (\<lambda>_. undefined),
     next_resv = 0, blocking_ids = [0], blockings = (\<lambda>_. sample_blocking), next_blocking = 1,
     avatars = (\<lambda>_. None)(''1'' := Some (sample_user ''1''), ''2'' := Some (sample_user ''2'')),
     group_ids = [], authorized_principals = [], admin_principals = [], rb_now = 0, mails = []\<rparr>"

definition sample_data :: "string \<Rightarrow> int \<Rightarrow> int \<Rightarrow> int \<Rightarrow> int \<Rightarrow> booking_data" where
  "sample_data who start fin f n = \<lparr>d_start_dt = start, d_end_dt = fin, d_repeat_frequency = f, d_repeat_interval = n,
     d_booked_for_id = Some who, d_contact_email = ''e'' @ who, d_contact_phone = [], d_booking_reason = ''r'',
     d_used_equipment = [], d_needs_assistance = False, d_uses_vc = False, d_needs_vc_assistance = False\<rparr>"

definition sample_run :: "user \<Rightarrow> request \<Rightarrow> rb \<Rightarrow> rb" where
  "sample_run = transaction rrule_ref (\<lambda>_. []) (\<lambda>x. x) (\<lambda>_. [])"

text \<open>
  The other user, who may only pre-book, asks for 2:00 to 3:00 on day 2; the owner books the next hour.
\<close>

definition sample_1 :: rb where
  "sample_1 = sample_run (sample_user ''2'') (Confirm 1 (sample_data ''2'' 180000 183600 0 0) False) (sample_rb True)"

definition sample_2 :: rb where
  "sample_2 = sample_run (sample_user ''1'') (Confirm 1 (sample_data ''1'' 183600 187200 0 0) True) sample_1"

lemma sample_reach_request:
  "rb_reach rrule_ref (\<lambda>_. []) (\<lambda>x. x) (\<lambda>_. []) s \<Longrightarrow> rb_reach rrule_ref (\<lambda>_. []) (\<lambda>x. x) (\<lambda>_. []) (sample_run u q s)"
  unfolding sample_run_def by (rule rb_reach.step [OF _ rb_step.request])

lemma sample_rb_reach:
  "rb_reach rrule_ref (\<lambda>_. []) (\<lambda>x. x) (\<lambda>_. []) sample_1"
  "rb_reach rrule_ref (\<lambda>_. []) (\<lambda>x. x) (\<lambda>_. []) sample_2"
  unfolding sample_2_def sample_1_def
  by (intro sample_reach_request rb_reach.start; simp add: sample_rb_def)+

definition sample_2_check :: "rb \<Rightarrow> bool" where
  "sample_2_check s \<longleftrightarrow> resv_ids s = [0, 1] \<and> is_accepted (resv s 1) \<and> room_id (resv s 1) = room_id (resv s 0) \<and>
     map occ_is_valid (occurrences (resv s 0)) = [True] \<and> map occ_is_valid (occurrences (resv s 1)) = [True]"

lemma sample_2_checked: "sample_2_check sample_2"
  by code_simp

lemmas sample_2_rows = sample_2_checked [unfolded sample_2_check_def]

section \<open>No double booking\<close>

text \<open>C1.  Double booking.  In every state that the requests of the module reach, a valid occurrence of
  an accepted reservation does not overlap any valid occurrence of another reservation of the room.\<close>

theorem no_double_booking:
  assumes "rb_reach rr fmt srt conv s" "rrule_laws rr"
    and "i \<in> set (resv_ids s)" "j \<in> set (resv_ids s)" "i \<noteq> j"
    and "room_id (resv s i) = room_id (resv s j)" "is_accepted (resv s i)"
    and "a \<in> set (occurrences (resv s i))" "b \<in> set (occurrences (resv s j))"
    and "occ_is_valid a" "occ_is_valid b"
  shows "\<not> overlaps (o_start_dt a, o_end_dt a) (o_start_dt b, o_end_dt b) False"
proof -
  have "\<not> clash (resv s i) (resv s j)"
    using rb_reach_inv [OF assms(1,2)] assms(3-5,7) by (simp add: rb_inv_def no_clash_def)
  with assms(6,8-) show ?thesis
    unfolding clash_def valid_keys_def by (auto simp: occ_span_def)
qed

theorem no_double_booking_witness:
  "\<exists>a \<in> set (occurrences (resv sample_2 1)). \<exists>b \<in> set (occurrences (resv sample_2 0)).
     \<not> overlaps (o_start_dt a, o_end_dt a) (o_start_dt b, o_end_dt b) False"
proof -
  have mem: "(1::nat) \<in> set (resv_ids sample_2)" "(0::nat) \<in> set (resv_ids sample_2)"
    "room_id (resv sample_2 1) = room_id (resv sample_2 0)" "is_accepted (resv sample_2 1)"
    using sample_2_rows by simp_all
  obtain a where a: "a \<in> set (occurrences (resv sample_2 1))" "occ_is_valid a"
    using sample_2_rows by (cases "occurrences (resv sample_2 1)") auto
  obtain b where b: "b \<in> set (occurrences (resv sample_2 0))" "occ_is_valid b"
    using sample_2_rows by (cases "occurrences (resv sample_2 0)") auto
  show ?thesis
    using no_double_booking [OF sample_rb_reach(2) rrule_ref_laws mem(1,2) _ mem(3,4) a(1) b(1) a(2) b(2)] a b by auto
qed

text \<open>C9.  Live bookings.  In every reachable state a reservation is neither cancelled nor rejected exactly
  when one of its occurrences is valid: single cancellations and rejections never leave a live
  booking without a day, nor a dead one with one.\<close>

theorem live_iff_valid:
  assumes "rb_reach rr fmt srt conv s" "rrule_laws rr" "i \<in> set (resv_ids s)"
  shows "\<not> is_cancelled (resv s i) \<and> \<not> is_rejected (resv s i) \<longleftrightarrow>
         (\<exists>occ \<in> set (occurrences (resv s i)). occ_is_valid occ)"
  using rb_reach_inv [OF assms(1,2)] assms(3)
  by (simp add: rb_inv_def all_sound_def sound_def live_ok_def live_def)

theorem live_iff_valid_witness:
  "\<not> is_cancelled (resv sample_2 0) \<and> \<not> is_rejected (resv sample_2 0) \<longleftrightarrow>
     (\<exists>occ \<in> set (occurrences (resv sample_2 0)). occ_is_valid occ)"
  using live_iff_valid [OF sample_rb_reach(2) rrule_ref_laws, of 0] sample_2_rows by simp

text \<open>C17.  Shape of occurrences.  In every reachable state the occurrences of a reservation are on
  different days, and each is a non-empty period within its day.\<close>

theorem occurrences_well_formed:
  assumes "rb_reach rr fmt srt conv s" "rrule_laws rr" "i \<in> set (resv_ids s)"
  shows "distinct (map occ_date (occurrences (resv s i))) \<and>
         (\<forall>occ \<in> set (occurrences (resv s i)). o_start_dt occ < o_end_dt occ \<and> dt_date (o_end_dt occ) = occ_date occ)"
  using rb_reach_inv [OF assms(1,2)] assms(3)
  by (auto simp: rb_inv_def all_sound_def sound_def shape_ok_def day_span_def proper_def occ_span_def occ_date_def)

theorem occurrences_well_formed_witness:
  "distinct (map occ_date (occurrences (resv sample_2 0))) \<and>
     o_start_dt (occurrences (resv sample_2 0) ! 0) < o_end_dt (occurrences (resv sample_2 0) ! 0)"
proof -
  have "length (occurrences (resv sample_2 0)) = 1"
    using sample_2_rows by (metis length_map length_Cons list.size(3) One_nat_def)
  then have "occurrences (resv sample_2 0) ! 0 \<in> set (occurrences (resv sample_2 0))" by simp
  then show ?thesis
    using occurrences_well_formed [OF sample_rb_reach(2) rrule_ref_laws, of 0] sample_2_rows by simp
qed

section \<open>Acceptance\<close>

text \<open>C37.  Accepting a pre-booking.  In every reachable state, accepting a live reservation that shares no
  moment with another reservation of its room returns, marks it accepted and leaves all occurrences
  as they are.  If a valid occurrence of another reservation has a moment in common with one of its valid
  occurrences, the acceptance does not reject that occurrence but raises a \<open>TypeError\<close>, since it calls
  \<open>occurrence.reject\<close> with one argument where it takes two.\<close>

theorem accept_free_or_raises:
  assumes "rb_reach rr fmt srt conv s" "rrule_laws rr" "i \<in> set (resv_ids s)"
    and "\<not> is_cancelled (resv s i)" "\<not> is_rejected (resv s i)"
  shows "\<exists>t. resv_accept i (Some v) s =
      (if \<exists>j \<in> set (resv_ids s). j \<noteq> i \<and> room_id (resv s j) = room_id (resv s i) \<and>
            (\<exists>a \<in> set (occurrences (resv s i)). \<exists>b \<in> set (occurrences (resv s j)). occ_is_valid a \<and> occ_is_valid b \<and>
               (\<exists>m. o_start_dt a \<le> m \<and> m < o_end_dt a \<and> o_start_dt b \<le> m \<and> m < o_end_dt b))
       then Inl TypeError else Inr (), t) \<and>
    is_accepted (resv t i) \<and> (\<forall>j. occurrences (resv t j) = occurrences (resv s j))"
proof -
  note inv = rb_reach_inv [OF assms(1,2)]
  have proper: "proper (o_start_dt a, o_end_dt a)" if "a \<in> set (occurrences (resv s j))" "j \<in> set (resv_ids s)" for a j
    using inv that by (simp add: rb_inv_def all_sound_def sound_def shape_ok_def day_span_def occ_span_def)
  have moment: "overlaps (o_start_dt b, o_end_dt b) (o_start_dt a, o_end_dt a) False \<longleftrightarrow>
      (\<exists>m. o_start_dt a \<le> m \<and> m < o_end_dt a \<and> o_start_dt b \<le> m \<and> m < o_end_dt b)"
    if "a \<in> set (occurrences (resv s i))" "b \<in> set (occurrences (resv s j))" "j \<in> set (resv_ids s)" for a b j
    using date_time.ov_iff [OF proper proper, OF that(2,3) that(1) assms(3)] by (auto simp: common_moment_iff)
  have "valid_occurrences s i \<noteq> []"
    using inv assms(3-5) by (auto simp: rb_inv_def all_sound_def sound_def live_ok_def live_def
        valid_occurrences_def filter_empty_conv)
  then have rows: "(j, b) \<in> set (occ_find_overlapping_with s (room_id (resv s i)) (valid_occurrences s i) (Some i)) \<longleftrightarrow>
      j \<in> set (resv_ids s) \<and> j \<noteq> i \<and> room_id (resv s j) = room_id (resv s i) \<and> b \<in> set (occurrences (resv s j)) \<and>
      occ_is_valid b \<and> (\<exists>a \<in> set (occurrences (resv s i)). occ_is_valid a \<and>
        overlaps (o_start_dt b, o_end_dt b) (o_start_dt a, o_end_dt a) False)" for j b
    by (auto simp: overlapping_rows filter_overlap_iff valid_occurrences_def occ_span_def)
  have hits: "(j, b) \<in> set (occ_find_overlapping_with s (room_id (resv s i)) (valid_occurrences s i) (Some i)) \<longleftrightarrow>
      j \<in> set (resv_ids s) \<and> j \<noteq> i \<and> room_id (resv s j) = room_id (resv s i) \<and> b \<in> set (occurrences (resv s j)) \<and>
      occ_is_valid b \<and> (\<exists>a \<in> set (occurrences (resv s i)). occ_is_valid a \<and>
        (\<exists>m. o_start_dt a \<le> m \<and> m < o_end_dt a \<and> o_start_dt b \<le> m \<and> m < o_end_dt b))" for j b
    unfolding rows by (intro conj_cong bex_cong refl) (rule moment; assumption)
  have some: "(xs = []) = (\<not> (\<exists>j b. (j, b) \<in> set xs))" for xs :: "(nat \<times> occurrence) list"
    by (cases xs) auto
  let ?taken = "\<exists>j \<in> set (resv_ids s). j \<noteq> i \<and> room_id (resv s j) = room_id (resv s i) \<and>
      (\<exists>a \<in> set (occurrences (resv s i)). \<exists>b \<in> set (occurrences (resv s j)). occ_is_valid a \<and> occ_is_valid b \<and>
         (\<exists>m. o_start_dt a \<le> m \<and> m < o_end_dt a \<and> o_start_dt b \<le> m \<and> m < o_end_dt b))"
  have free: "(occ_find_overlapping_with s (room_id (resv s i)) (valid_occurrences s i) (Some i) = []) = (\<not> ?taken)"
    unfolding some hits by blast
  have "resv_accept i (Some v) s = (if ?taken then Inl TypeError else Inr (), accepted_state i v s)"
    by (cases ?taken) (simp_all only: accept_run free if_True if_False simp_thms)
  moreover have "is_accepted (resv (accepted_state i v s) i)"
    "\<forall>j. occurrences (resv (accepted_state i v s) j) = occurrences (resv s j)"
    by (simp_all add: accepted_state_def accepted_row_def)
  ultimately show ?thesis by blast
qed

text \<open>The pre-booking of the small database ends when the booking of the owner starts: it can be accepted.\<close>

definition sample_2_apart :: "rb \<Rightarrow> bool" where
  "sample_2_apart s \<longleftrightarrow> \<not> is_cancelled (resv s 0) \<and> \<not> is_rejected (resv s 0) \<and> room_id (resv s 1) = room_id (resv s 0) \<and>
     map occ_span (occurrences (resv s 0)) = [(180000, 183600)] \<and> map occ_span (occurrences (resv s 1)) = [(183600, 187200)]"

lemma sample_2_apart: "sample_2_apart sample_2"
  by code_simp

theorem accept_free_or_raises_witness:
  "\<exists>t. resv_accept 0 (Some (sample_user ''1'')) sample_2 = (Inr (), t) \<and> is_accepted (resv t 0)"
proof -
  have row: "0 \<in> set (resv_ids sample_2)" "\<not> is_cancelled (resv sample_2 0)" "\<not> is_rejected (resv sample_2 0)"
    "map occ_span (occurrences (resv sample_2 0)) = [(180000, 183600)]"
    "map occ_span (occurrences (resv sample_2 1)) = [(183600, 187200)]" "set (resv_ids sample_2) = {0, 1}"
    using sample_2_rows sample_2_apart by (simp_all add: sample_2_apart_def)
  obtain a b where "occurrences (resv sample_2 0) = [a]" "occurrences (resv sample_2 1) = [b]"
    "o_end_dt a = 183600" "o_start_dt b = 183600"
    using row(4,5) by (auto simp: occ_span_def)
  then show ?thesis
    using accept_free_or_raises [OF sample_rb_reach(2) rrule_ref_laws row(1-3), of "sample_user ''1''"] row(6)
    by auto
qed

section \<open>Blockings\<close>

text \<open>C11.  Approving a blocking.  When the approval returns, a valid occurrence that the room still has on
  one of the blocked days belongs to a reservation whose creator may override the blocking.\<close>

theorem approve_clears:
  assumes "rb_reach rr fmt srt conv s" "rrule_laws rr"
    and "br_approve fmt b room nb s = (Inr (), s')"
    and "i \<in> set (resv_ids s')" "room_id (resv s' i) = room"
    and "occ \<in> set (occurrences (resv s' i))" "occ_is_valid occ"
    and "is_active_at (blockings s b) (occ_date occ)"
  shows "overridden_by_creator s (blockings s b) i"
  by (rule approve_clears_state [OF rb_reach_inv [OF assms(1,2)] assms(3-)])

definition sample_1_check :: "(exn + unit) \<times> rb \<Rightarrow> bool" where
  "sample_1_check p \<longleftrightarrow> fst p = Inr () \<and> (let t = snd p in resv_ids t = [0] \<and> room_id (resv t 0) = 1 \<and>
      map occ_is_valid (occurrences (resv t 0)) = [True] \<and> map occ_date (occurrences (resv t 0)) = [2] \<and>
      start_date (blockings t 0) = 2 \<and> end_date (blockings t 0) = 2)"

lemma sample_1_approved: "sample_1_check (br_approve (\<lambda>_. []) 0 1 True sample_1)"
  by code_simp

lemma sample_1_blocking: "is_active_at (blockings sample_1 0) 2"
  by code_simp

theorem approve_clears_witness:
  "overridden_by_creator sample_1 (blockings sample_1 0) 0"
proof -
  obtain t where t: "br_approve (\<lambda>_. []) 0 1 True sample_1 = (Inr (), t)" "resv_ids t = [0]" "room_id (resv t 0) = 1"
    "map occ_is_valid (occurrences (resv t 0)) = [True]" "map occ_date (occurrences (resv t 0)) = [2]"
    using sample_1_approved by (cases "br_approve (\<lambda>_. []) 0 1 True sample_1") (auto simp: sample_1_check_def Let_def)
  obtain occ where occ: "occ \<in> set (occurrences (resv t 0))" "occ_is_valid occ" "occ_date occ = 2"
    using t(4,5) by (cases "occurrences (resv t 0)") auto
  show ?thesis
    using approve_clears [OF sample_rb_reach(1) rrule_ref_laws t(1) _ t(3) occ(1,2)] t(2) occ(3) sample_1_blocking
    by simp
qed

section \<open>Recurrence\<close>

text \<open>Supported repetitions.  \<open>iter_start_time\<close> raises exactly for an unknown frequency, the yearly
  one, weekly intervals outside 1 to 3 and monthly ones other than 1; none of these is offered.\<close>

theorem offered_supported:
  "repetition_offered (f, n) \<longrightarrow> (\<exists>starts. iter_start_time rr s u (f, n) = Inr starts)"
  by (auto simp: repetition_offered_def repeat_keys iter_start_time_def Let_def)

theorem offered_supported_witness:
  "\<exists>starts. iter_start_time rrule_ref 90000 266400 (2, 3) = Inr starts"
  using offered_supported [of 2 3 rrule_ref 90000 266400] by (simp add: repetition_offered_def repeat_keys)

text \<open>Monthly bookings.  The series of a monthly booking that starts on the 7th, 14th, 21st or 28th of
  a month does not contain its own start: the position asked for is one too far.\<close>

theorem monthly_misses_start:
  assumes "rrule_laws rr" "day_of_month (dt_date s) mod 7 = 0"
    and "iter_start_time rr s u (MONTH_F, 1) = Inr starts"
  shows "s \<notin> set starts"
proof
  assume "s \<in> set starts"
  moreover have "starts = rr MONTHLY s u 1 [weekday (dt_date s)] (Some (day_of_month (dt_date s) div 7 + 1))"
    using assms(3) by (simp add: iter_start_time_def Let_def)
  ultimately have "week_of_month (dt_date s) = day_of_month (dt_date s) div 7 + 1"
    using assms(1) unfolding rrule_laws_def by blast
  then have "(day_of_month (dt_date s) - 1) div 7 = day_of_month (dt_date s) div 7"
    by (simp add: week_of_month_def)
  with assms(2) show False by presburger
qed

text \<open>The 7th of January 1970, from 10:00.\<close>

theorem monthly_misses_start_witness:
  "\<exists>starts. iter_start_time rrule_ref 554400 5738400 (MONTH_F, 1) = Inr starts \<and> 554400 \<notin> set starts"
proof -
  obtain starts where st: "iter_start_time rrule_ref 554400 5738400 (MONTH_F, 1) = Inr starts"
    by (simp add: iter_start_time_def Let_def)
  have "day_of_month (dt_date 554400) mod 7 = 0" by code_simp
  from monthly_misses_start [OF rrule_ref_laws this st] st show ?thesis by blast
qed

text \<open>Old numbers of repetitions.  The number that the old room booking system had for a repetition leads
  back to the repetition.\<close>

theorem old_mapping_roundtrip:
  assumes "getOldMapping f n = Inr v" shows "getNewMapping v = Inr (Some (f, n))"
proof -
  have "repetition_offered (f, n)"
    using assms by (force simp: getOldMapping_def repeat_lookup_def repetition_offered_def
        split: option.splits dest: map_of_SomeD)
  with assms show ?thesis
    by (auto simp: repetition_offered_def repeat_keys getOldMapping_def repeat_lookup_def repeat_mapping_def
        getNewMapping_def)
qed

theorem old_mapping_roundtrip_witness: "getNewMapping (Some 2) = Inr (Some (2, 2))"
proof -
  have "getOldMapping 2 2 = Inr (Some 2)" by code_simp
  then show ?thesis by (rule old_mapping_roundtrip)
qed

section \<open>Conflicts before a booking\<close>

text \<open>Bookings every third week.  \<open>_get_all_conflicts\<close> passes the interval as the frequency, so the page
  that books a room at once refuses a valid booking every third week with \<open>Unsupported interval\<close>.\<close>

theorem third_week_refused:
  assumes "rooms s room = Some rm" "validate_booking (dt_date (rb_now s)) (av_admin u) d = Some d'"
    and "d_repeat_interval d' = 3"
  shows "rh_simple_booking rr fmt room d u choice chk s = (Inl (IndicoError ''Unsupported interval''), s)"
  using assms
  by (simp add: rh_simple_booking_def all_conflicts_def create_series_def iter_create_occurrences_def
      iter_start_time_def)

theorem third_week_refused_witness:
  "rh_simple_booking rrule_ref (\<lambda>_. []) 1 (sample_data ''1'' 90000 2253600 2 3) (sample_user ''1'') True False (sample_rb True)
     = (Inl (IndicoError ''Unsupported interval''), sample_rb True)"
proof (rule third_week_refused)
  show "rooms (sample_rb True) 1 = Some (sample_room True)" by (simp add: sample_rb_def)
  show "validate_booking (dt_date (rb_now (sample_rb True))) (av_admin (sample_user ''1'')) (sample_data ''1'' 90000 2253600 2 3)
      = Some (sample_data ''1'' 90000 2253600 2 3)"
    by (simp add: validate_booking_def repetition_offered_def repeat_keys sample_data_def sample_rb_def
        sample_user_def dt_date_def dt_time_def truthy_def)
  show "d_repeat_interval (sample_data ''1'' 90000 2253600 2 3) = 3" by (simp add: sample_data_def)
qed

end
