(* ===== verification/RB_More.thy ===== *)
theory RB_More
  imports RB_Props
begin

text \<open>
  Further properties of the room booking module: who ends up with what kind of booking, what an
  available room means for a booking, and what changes and status requests leave alone.
\<close>

section \<open>Permissions\<close>

text \<open>Booking without permission.  For a user who may neither book nor pre-book a room, the last step of the
  wizard refuses, but the page that books one room at once has neither submit button left, takes that
  for a pre-booking, and creates it without looking at the permissions again.\<close>

theorem simple_skips_permission:
  assumes "rooms s room = Some rm" "\<not> can_be_booked s rm (Some u) False" "\<not> can_be_prebooked s rm (Some u) False"
    and "validate_booking (dt_date (rb_now s)) (av_admin u) d = Some d'"
    and "all_conflicts rr s room d' None = Inr cs"
  shows "fst (rh_confirm_booking rr fmt room d u choice s) = Inl (IndicoError ''You cannot book this room'') \<and>
         rh_simple_booking rr fmt room d u choice False s =
           bnd (create_from_data rr fmt rm d' u (Some True)) (\<lambda>i. ret (Some i)) s"
  using assms
  by (simp add: rh_confirm_booking_def rh_simple_booking_def create_booking_def has_book_button_def
      has_prebook_button_def lift_res_run)

definition sample_intruder :: booking_data where
  "sample_intruder = sample_data ''2'' 90000 93600 0 0"

lemma sample_intruder_runs:
  "fst (rh_simple_booking rrule_ref (\<lambda>_. []) 1 sample_intruder (sample_user ''2'') True False (sample_rb False)) = Inr (Some 0)"
  by code_simp

theorem simple_skips_permission_witness:
  "fst (rh_confirm_booking rrule_ref (\<lambda>_. []) 1 sample_intruder (sample_user ''2'') True (sample_rb False))
     = Inl (IndicoError ''You cannot book this room'') \<and>
   fst (rh_simple_booking rrule_ref (\<lambda>_. []) 1 sample_intruder (sample_user ''2'') True False (sample_rb False)) = Inr (Some 0)"
proof -
  have f: "rooms (sample_rb False) 1 = Some (sample_room False)"
    "\<not> can_be_booked (sample_rb False) (sample_room False) (Some (sample_user ''2'')) False"
    "\<not> can_be_prebooked (sample_rb False) (sample_room False) (Some (sample_user ''2'')) False"
    "validate_booking (dt_date (rb_now (sample_rb False))) (av_admin (sample_user ''2'')) sample_intruder = Some sample_intruder"
    by (simp_all add: sample_rb_def sample_room_def sample_user_def can_be_booked_def can_be_prebooked_def
        can_be_booked_gen_def isRBAdmin_def is_owned_by_def get_attribute_value_def truthy_def retrieve_principals_def
        sample_intruder_def sample_data_def validate_booking_def repetition_offered_def repeat_keys dt_date_def
        dt_time_def combine_def Let_def)
  obtain cs where "all_conflicts rrule_ref (sample_rb False) 1 sample_intruder None = Inr cs"
    by (simp add: all_conflicts_def create_series_def iter_create_occurrences_def iter_start_time_def
        sample_intruder_def sample_data_def Let_def)
  from simple_skips_permission [OF f this] sample_intruder_runs show ?thesis by simp
qed

section \<open>Bookings through the API\<close>

lemma create_accepted:
  assumes "create_from_data rr fmt rm d u pb s = (Inr i, s')"
  shows "i = next_resv s" "is_accepted (resv s' i) \<longleftrightarrow> \<not> (case pb of Some b \<Rightarrow> b | None \<Rightarrow> \<not> can_be_booked s rm (Some u) False)"
    "created_by_id (resv s' i) = Some (av_id u)"
proof -
  obtain name prebook s1 s2 where i: "i = next_resv s"
    and s1: "s1 = s\<lparr>resv := (resv s)(i := new_reservation rm d u name prebook), resv_ids := resv_ids s @ [i], next_resv := Suc i\<rparr>"
    and run: "create_occurrences rr fmt i True u s1 = (Inr (), s2)"
    and s': "s' = s2\<lparr>mails := mails s2 @ [MCreation i]\<rparr>"
    and pre: "prebook = (case pb of Some b \<Rightarrow> b | None \<Rightarrow> \<not> can_be_booked s rm (Some u) False)"
    by (rule create_from_data_cases [OF assms]) blast
  obtain t where t: "create_series_for_reservation rr i s1 = (Inr (), t)"
    and k: "andthen (skip_nonbookable fmt i True u) (andthen (skip_blocked fmt i u) (skip_conflicting fmt i True u)) t = (Inr (), s2)"
    using run unfolding create_occurrences_def andthen_Inr by auto
  have q: "quiet i {} (andthen (skip_nonbookable fmt i True u) (andthen (skip_blocked fmt i u) (skip_conflicting fmt i True u)))"
    unfolding andthen_def by (intro quiet_bnd quiet_nonbookable quiet_blocked quiet_conflicting) simp_all
  have d: "decays t s2" by (rule quiet_run(1) [OF q k])
  have "is_accepted (resv t i) = is_accepted (resv s1 i)" "created_by_id (resv t i) = created_by_id (resv s1 i)"
    using t by (auto simp: create_series_for_reservation_def Let_def upd_resv_def split: sum.splits)
  then have "is_accepted (resv s' i) = (\<not> prebook)" "created_by_id (resv s' i) = Some (av_id u)"
    using decays_row(2,4) [OF d, of i] by (simp_all add: s' s1 new_reservation_def)
  with i pre show "i = next_resv s" "is_accepted (resv s' i) \<longleftrightarrow> \<not> (case pb of Some b \<Rightarrow> b | None \<Rightarrow> \<not> can_be_booked s rm (Some u) False)"
    "created_by_id (resv s' i) = Some (av_id u)" by simp_all
qed

text \<open>The API only makes direct bookings: what it returns is a new reservation, accepted, created by the
  authenticated user.\<close>

theorem api_books_directly:
  assumes "api_book_room rr fmt room start fin bf phone reason u s = (Inr i, s')"
  shows "i = next_resv s \<and> is_accepted (resv s' i) \<and> created_by_id (resv s' i) = Some (av_id u)"
proof -
  obtain rm where "can_be_booked s rm (Some u) False"
    "create_from_data rr fmt rm (api_data start fin bf phone reason) u None s = (Inr i, s')"
    using assms unfolding api_book_room_def bnd_get_st
    by (auto split: if_splits option.splits prod.splits sum.splits)
  with create_accepted [of rr fmt rm _ u None s i s'] show ?thesis by auto
qed

lemma sample_api_runs:
  "fst (api_book_room rrule_ref (\<lambda>_. []) 1 90000 93600 (sample_user ''2'') [] ''r'' (sample_user ''1'') (sample_rb True)) = Inr 0"
  by code_simp

theorem api_books_directly_witness:
  "\<exists>t. api_book_room rrule_ref (\<lambda>_. []) 1 90000 93600 (sample_user ''2'') [] ''r'' (sample_user ''1'') (sample_rb True) = (Inr 0, t)
     \<and> is_accepted (resv t 0)"
proof -
  obtain t where "api_book_room rrule_ref (\<lambda>_. []) 1 90000 93600 (sample_user ''2'') [] ''r'' (sample_user ''1'') (sample_rb True) = (Inr 0, t)"
    using sample_api_runs by (metis prod.collapse)
  with api_books_directly show ?thesis by blast
qed

section \<open>Available rooms\<close>

definition with_reservation :: "rb \<Rightarrow> nat \<Rightarrow> reservation \<Rightarrow> rb" where
  "with_reservation s i r = s\<lparr>resv := (resv s)(i := r), resv_ids := resv_ids s @ [i]\<rparr>"

lemma no_pairs: "(\<And>a b. (a, b) \<notin> set xs) \<Longrightarrow> xs = []"
  by (cases xs) auto

text \<open>C38.  An available room.  When \<open>filter_available\<close> lets a room through, pre-bookings included, the series of a
  new reservation for the same period and repetition has no conflict in that room, so none of its
  days is cancelled for one and no other booking is rejected.\<close>

theorem available_no_conflict:
  assumes "filter_available rr s start fin rep True pend = Inr ok" "ok (room_id r)"
    and "iter_create_occurrences rr start fin rep = Inr (occurrences r)"
    and "i \<notin> set (resv_ids s)"
  shows "get_conflicting_occurrences (with_reservation s i r) i = Inr []"
proof -
  let ?t = "with_reservation s i r"
  have free: "\<not> (room_id (resv s j) = room_id r \<and> occ_is_valid occ \<and> filter_overlap (occurrences r) occ)"
    if "j \<in> set (resv_ids s)" "occ \<in> set (occurrences (resv s j))" for j occ
    using assms(1-3) that occ_rows_iff [of j occ s]
    by (auto simp: filter_available_def create_series_def)
  have "occ_is_valid occ" if "occ \<in> set (occurrences r)" for occ
  proof -
    have "\<exists>xs. occurrences r = map (\<lambda>x. new_occurrence x (combine (dt_date x) (dt_time fin))) xs"
      using assms(3) by (auto simp: iter_create_occurrences_def split: sum.splits intro: sym)
    with that show ?thesis by (auto simp: new_occurrence_def occ_is_valid_def)
  qed
  then have valid: "valid_occurrences ?t i = occurrences r"
    by (simp add: valid_occurrences_def with_reservation_def filter_id_conv)
  have "occ_find_overlapping_with ?t (room_id (resv ?t i)) (valid_occurrences ?t i) (Some i) = []"
  proof (rule no_pairs)
    show "(j, occ) \<notin> set (occ_find_overlapping_with ?t (room_id (resv ?t i)) (valid_occurrences ?t i) (Some i))" for j occ
      using free assms(4) unfolding overlapping_rows valid by (auto simp: with_reservation_def)
  qed
  then show ?thesis
    by (simp add: get_conflicting_occurrences_def conflicts_of_def Let_def filter_empty_conv)
qed

theorem available_no_conflict_witness:
  "get_conflicting_occurrences (with_reservation (sample_rb True) 0
     (new_reservation (sample_room True) (sample_data ''1'' 90000 93600 0 0) (sample_user ''1'') [] False
        \<lparr>occurrences := [new_occurrence 90000 93600]\<rparr>)) 0 = Inr []"
proof -
  let ?r = "new_reservation (sample_room True) (sample_data ''1'' 90000 93600 0 0) (sample_user ''1'') [] False
        \<lparr>occurrences := [new_occurrence 90000 93600]\<rparr>"
  have occs: "iter_create_occurrences rrule_ref 90000 93600 (0, 0) = Inr [new_occurrence 90000 93600]"
    by (simp add: iter_create_occurrences_def iter_start_time_def dt_date_def dt_time_def combine_def)
  then obtain ok where ok: "filter_available rrule_ref (sample_rb True) 90000 93600 (0, 0) True False = Inr ok"
    by (simp add: filter_available_def create_series_def)
  have "ok (room_id ?r)"
    using ok occs by (auto simp: filter_available_def create_series_def occ_rows_def blocked_room_rows_def
        sample_rb_def sample_blocking_def dt_date_def)
  from available_no_conflict [OF ok this] occs show ?thesis by (simp add: sample_rb_def)
qed

section \<open>What requests leave alone\<close>

definition status_request :: "request \<Rightarrow> bool" where
  "status_request q = (case q of Accept _ \<Rightarrow> True | Cancel _ \<Rightarrow> True | Reject _ _ \<Rightarrow> True
     | CancelOccurrence _ _ \<Rightarrow> True | RejectOccurrence _ _ _ \<Rightarrow> True | Approve _ _ \<Rightarrow> True
     | RejectBlocking _ _ _ \<Rightarrow> True | Delete _ \<Rightarrow> True | DeleteBlocking _ \<Rightarrow> True | _ \<Rightarrow> False)"

definition no_new_valid :: "rb \<Rightarrow> rb \<Rightarrow> bool" where
  "no_new_valid s s' \<longleftrightarrow> (\<forall>i. valid_keys (resv s' i) \<subseteq> valid_keys (resv s i))"

lemma no_new_valid_refl [simp]: "no_new_valid s s"
  by (simp add: no_new_valid_def)

lemma no_new_valid_trans: "no_new_valid s t \<Longrightarrow> no_new_valid t u \<Longrightarrow> no_new_valid s u"
  unfolding no_new_valid_def by blast

named_theorems nnv_intros \<open>programs that make no occurrence valid\<close>

lemma nnv_of_decays: "(\<And>t. keeps (decays t) m) \<Longrightarrow> keeps (no_new_valid s) m"
proof (rule keepsI)
  fix t assume d: "\<And>t. keeps (decays t) m" and t: "no_new_valid s t"
  have "decays t (snd (m t))" using keepsD [OF d decays_refl] .
  then have "no_new_valid t (snd (m t))" using decays_row(9) by (auto simp: no_new_valid_def)
  with t show "no_new_valid s (snd (m t))" by (rule no_new_valid_trans)
qed

lemma nnv_status [nnv_intros]:
  "keeps (no_new_valid s) (resv_cancel i u r b)" "keeps (no_new_valid s) (resv_reject i u r b)"
  "keeps (no_new_valid s) (occ_cancel fmt i k u r b c)" "keeps (no_new_valid s) (occ_reject fmt i k u r b c)"
  "keeps (no_new_valid s) (send_mail m)"
  by (rule nnv_of_decays, intro decays_intros)+

lemma nnv_blocking [nnv_intros]: "keeps (no_new_valid s) (upd_blocked_room b room f)"
  unfolding upd_blocked_room_def by (rule keeps_modify) (simp add: no_new_valid_def)

lemma nnv_response [nnv_intros]: "keeps (no_new_valid s) (notify_request_response b room)"
  unfolding notify_request_response_def by (intro keeps_intros nnv_intros)

lemma nnv_br [nnv_intros]:
  "keeps (no_new_valid s) (br_approve fmt b room nb)" "keeps (no_new_valid s) (br_reject b room u r)"
  unfolding br_approve_def br_reject_def Let_def by (intro keeps_intros nnv_intros)+

lemma nnv_accept [nnv_intros]: "keeps (no_new_valid s) (resv_accept i (Some u))"
  by (rule keepsI) (auto simp: accept_run no_new_valid_def valid_keys_def split: if_splits)

lemma nnv_occurrence_on [nnv_intros]: "keeps (no_new_valid s) (occurrence_on i d)"
  unfolding occurrence_on_def by (rule keepsI) (auto split: list.splits simp: ret_run)

lemma nnv_unauthorized [nnv_intros]: "keeps (no_new_valid s) unauthorized"
  unfolding unauthorized_def by (rule keeps_raise)

lemma nnv_row: "keeps (no_new_valid s) (modify (\<lambda>t. t\<lparr>resv_ids := f t\<rparr>))"
  "keeps (no_new_valid s) (modify (\<lambda>t. t\<lparr>blocking_ids := f t\<rparr>))"
  by (rule keeps_modify, simp add: no_new_valid_def)+

lemma nnv_requests:
  "keeps (no_new_valid s) (rh_accept_booking i u)" "keeps (no_new_valid s) (rh_cancel_booking i u)"
  "keeps (no_new_valid s) (rh_reject_booking i u r)" "keeps (no_new_valid s) (rh_delete_booking i u)"
  "keeps (no_new_valid s) (rh_cancel_occurrence fmt i d u)" "keeps (no_new_valid s) (rh_reject_occurrence fmt i d u r)"
  "keeps (no_new_valid s) (sv_approve fmt b room u)" "keeps (no_new_valid s) (sv_reject b room u r)"
  "keeps (no_new_valid s) (rh_delete_blocking b u)"
  unfolding rh_accept_booking_def rh_cancel_booking_def rh_reject_booking_def rh_delete_booking_def
    rh_cancel_occurrence_def rh_reject_occurrence_def sv_approve_def sv_reject_def rh_delete_blocking_def
    delete_blocking_def Let_def
  by (intro keeps_intros nnv_intros nnv_row)+

text \<open>C18.  No revival.  Accepting, cancelling, rejecting and deleting, of bookings, single days or blockings, never
  make an occurrence valid that was not: only new bookings and changes of a booking create valid days.\<close>

theorem status_never_revives:
  assumes "status_request q"
  shows "valid_keys (resv (transaction rr fmt srt conv u q s) i) \<subseteq> valid_keys (resv s i)"
proof -
  have "keeps (no_new_valid s) (run_request rr fmt srt conv u q)"
    using assms by (cases q) (simp_all add: status_request_def nnv_requests)
  then have "no_new_valid s (snd (run_request rr fmt srt conv u q s))" by (simp add: keepsD)
  then show ?thesis
    by (auto simp: transaction_def no_new_valid_def split: prod.splits sum.splits, blast)
qed

theorem status_never_revives_witness:
  "valid_keys (resv (transaction rrule_ref (\<lambda>_. []) (\<lambda>x. x) (\<lambda>_. []) (sample_user ''1'') (Cancel 1) sample_2) 1)
     \<subseteq> valid_keys (resv sample_2 1)"
  by (rule status_never_revives) (simp add: status_request_def)

section \<open>Changes of a booking\<close>

lemma map_of_dates:
  assumes "distinct (map occ_date olds)" "old \<in> set olds"
  shows "map_of (rev (map (\<lambda>old. (occ_date old, old)) olds)) (occ_date old) = Some old"
proof -
  have "distinct (map fst (rev (map (\<lambda>old. (occ_date old, old)) olds)))"
    using assms(1) by (simp add: rev_map [symmetric] comp_def)
  then show ?thesis using assms(2) by (intro map_of_is_SomeI) (auto simp: rev_map)
qed

text \<open>Cancelled days stay cancelled.  When a change of a booking recreates its occurrences, a day that had been
  cancelled, rejected or skipped is not valid afterwards.\<close>

theorem changed_booking_keeps_cancelled_days:
  assumes "shape_ok (resv s i)" "recreate_occurrences rr fmt i user s = (Inr (), s')"
    and "old \<in> set (occurrences (resv s i))" "\<not> occ_is_valid old"
    and "occ \<in> set (occurrences (resv s' i))" "occ_date occ = occ_date old"
  shows "\<not> occ_is_valid occ"
proof -
  let ?olds = "occurrences (resv s i)"
  let ?s1 = "s\<lparr>resv := (resv s)(i := (resv s i)\<lparr>occurrences := []\<rparr>)\<rparr>"
  obtain s2 where s': "s' = s2\<lparr>resv := (resv s2)(i := mark_sent ?olds (restore_occurrences ?olds (resv s2 i)))\<rparr>"
    using assms(2) unfolding recreate_occurrences_def bnd_get_st Let_def andthen_Inr
    by (auto simp: upd_resv_def)
  have "map_of (rev (map (\<lambda>old. (occ_date old, old)) ?olds)) (occ_date old) = Some old"
    using assms(1,3) by (intro map_of_dates) (simp_all add: shape_ok_def)
  then have restored: "\<not> occ_is_valid c" if "c \<in> set (occurrences (restore_occurrences ?olds (resv s2 i)))" "occ_date c = occ_date old" for c
    using that assms(4) by (auto simp: restore_occurrences_def copy_columns_def occ_is_valid_def occ_date_def split: option.splits if_splits)
  have "\<exists>c \<in> set (occurrences (restore_occurrences ?olds (resv s2 i))). occ_date occ = occ_date c \<and> occ_is_valid occ = occ_is_valid c"
    using assms(5) by (auto simp: s' mark_sent_def occ_date_def occ_is_valid_def split: if_splits)
  with restored assms(6) show ?thesis by auto
qed

text \<open>A daily booking of three days, the second one cancelled, gets its occurrences again.\<close>

definition sample_daily :: reservation where
  "sample_daily = (new_reservation (sample_room True) (sample_data ''1'' 90000 (93600 + 2 * 86400) 1 1) (sample_user ''1'') [] False)
     \<lparr>occurrences := [new_occurrence 90000 93600,
        (new_occurrence (90000 + 86400) (93600 + 86400))\<lparr>o_is_cancelled := True\<rparr>,
        new_occurrence (90000 + 2 * 86400) (93600 + 2 * 86400)]\<rparr>"

definition sample_recreated :: "(exn + unit) \<times> rb" where
  "sample_recreated = recreate_occurrences rrule_ref (\<lambda>_. []) 0 (sample_user ''1'') (with_reservation (sample_rb True) 0 sample_daily)"

definition sample_recreated_check :: "(exn + unit) \<times> rb \<Rightarrow> bool" where
  "sample_recreated_check p \<longleftrightarrow> fst p = Inr () \<and> map occ_date (occurrences (resv (snd p) 0)) = [1, 2, 3]"

lemma sample_recreated_checked: "sample_recreated_check sample_recreated"
  by code_simp

theorem changed_booking_keeps_cancelled_days_witness:
  "\<not> occ_is_valid (occurrences (resv (snd sample_recreated) 0) ! 1)"
proof -
  let ?s = "with_reservation (sample_rb True) 0 sample_daily"
  let ?old = "(new_occurrence (90000 + 86400) (93600 + 86400))\<lparr>o_is_cancelled := True\<rparr>"
  have row: "occurrences (resv ?s 0) = [new_occurrence 90000 93600, ?old,
      new_occurrence (90000 + 2 * 86400) (93600 + 2 * 86400)]"
    by (simp add: with_reservation_def sample_daily_def)
  have old: "?old \<in> set (occurrences (resv ?s 0))" unfolding row by simp
  have shape: "shape_ok (resv ?s 0)"
    by (simp add: shape_ok_def row is_repeating_def with_reservation_def sample_daily_def new_reservation_def
        sample_data_def day_span_def proper_def occ_span_def occ_date_def dt_date_def new_occurrence_def)
  have run: "recreate_occurrences rrule_ref (\<lambda>_. []) 0 (sample_user ''1'') ?s = (Inr (), snd sample_recreated)"
    and dates: "map occ_date (occurrences (resv (snd sample_recreated) 0)) = [1, 2, 3]"
    using sample_recreated_checked by (simp_all add: sample_recreated_check_def sample_recreated_def prod_eq_iff)
  have new: "occurrences (resv (snd sample_recreated) 0) ! 1 \<in> set (occurrences (resv (snd sample_recreated) 0))"
    using dates by (intro nth_mem) (metis length_map length_Cons list.size(3) One_nat_def lessI zero_less_Suc Suc_less_eq)
  have "map occ_date (occurrences (resv (snd sample_recreated) 0)) ! 1 = 2" unfolding dates by simp
  then have "occ_date (occurrences (resv (snd sample_recreated) 0) ! 1) = occ_date ?old"
    using dates by (auto simp: occ_date_def dt_date_def new_occurrence_def)
  from changed_booking_keeps_cancelled_days [OF shape run old _ new this] show ?thesis
    by (simp add: occ_is_valid_def)
qed

definition data_of :: "reservation \<Rightarrow> booking_data" where
  "data_of r = \<lparr>d_start_dt = r_start_dt r, d_end_dt = r_end_dt r, d_repeat_frequency = repeat_frequency r,
     d_repeat_interval = repeat_interval r, d_booked_for_id = booked_for_id r, d_contact_email = contact_email r,
     d_contact_phone = contact_phone r, d_booking_reason = booking_reason r, d_used_equipment = used_equipment r,
     d_needs_assistance = needs_assistance r, d_uses_vc = uses_vc r, d_needs_vc_assistance = needs_vc_assistance r\<rparr>"

lemma get_data_of: "data_field f (data_of r) = get_field f r"
  by (cases f) (simp_all add: data_of_def)

lemma change_fields_same:
  assumes "srt (used_equipment (resv s i)) = used_equipment (resv s i)"
  shows "change_fields srt i (data_of (resv s i)) rep fs acc s = (Inr acc, s)"
proof (induction fs)
  case (Cons f fs)
  have "old_value srt f (resv s i) = data_field f (data_of (resv s i))"
    using assms by (simp add: old_value_def get_data_of)
  with Cons show ?case by (simp add: change_field_def ret_run)
qed (simp add: ret_run)

text \<open>A change that changes nothing.  Submitting the data a booking already has, its equipment in the order of
  the comparison, writes no log line, sends no mail and returns \<open>False\<close>, when the checks of the period
  pass.\<close>

theorem unchanged_booking:
  assumes "srt (used_equipment (resv s i)) = used_equipment (resv s i)" "rooms s (room_id (resv s i)) = Some rm"
    and "check_advance_days s rm (dt_date (r_end_dt (resv s i))) (Some u) False = Inr a"
    and "check_bookable_hours s rm (dt_time (r_start_dt (resv s i))) (dt_time (r_end_dt (resv s i))) (Some u) False = Inr h"
  shows "resv_modify rr fmt srt conv i (data_of (resv s i)) u s = (Inr False, s)"
proof -
  have "check_advance_days s rm (dt_date (d_end_dt (data_of (resv s i)))) (Some u) False = Inr a"
    "check_bookable_hours s rm (dt_time (d_start_dt (data_of (resv s i)))) (dt_time (d_end_dt (data_of (resv s i)))) (Some u) False = Inr h"
    using assms(3,4) by (simp_all add: data_of_def)
  with assms(1,2) change_fields_same [of srt s i] show ?thesis
    by (simp add: resv_modify_def self_room_def ret_run lift_res_run)
qed

theorem unchanged_booking_witness:
  "resv_modify rrule_ref (\<lambda>_. []) (\<lambda>x. x) (\<lambda>_. []) 0
     (data_of (new_reservation (sample_room True) (sample_data ''1'' 90000 93600 0 0) (sample_user ''1'') [] False))
     (sample_user ''1'')
     (with_reservation (sample_rb True) 0 (new_reservation (sample_room True) (sample_data ''1'' 90000 93600 0 0) (sample_user ''1'') [] False))
   = (Inr False, with_reservation (sample_rb True) 0 (new_reservation (sample_room True) (sample_data ''1'' 90000 93600 0 0) (sample_user ''1'') [] False))"
proof -
  let ?r = "new_reservation (sample_room True) (sample_data ''1'' 90000 93600 0 0) (sample_user ''1'') [] False"
  let ?s = "with_reservation (sample_rb True) 0 ?r"
  have row: "resv ?s 0 = ?r" by (simp add: with_reservation_def)
  have "resv_modify rrule_ref (\<lambda>_. []) (\<lambda>x. x) (\<lambda>_. []) 0 (data_of (resv ?s 0)) (sample_user ''1'') ?s = (Inr False, ?s)"
    by (rule unchanged_booking [where rm = "sample_room True" and a = None and h = True])
      (simp_all add: with_reservation_def new_reservation_def sample_room_def sample_rb_def sample_data_def
        check_advance_days_def check_bookable_hours_def)
  then show ?thesis unfolding row .
qed

end
