(* ===== verification/TT_Model.thy ===== *)
theory TT_Model
  imports Prelude "HOL-Library.Product_Lexorder"
begin

text \<open>
  The timetable of an event (\<open>MaKaC/schedule.py\<close> and the dated classes of \<open>MaKaC/conference.py\<close>):
  the event, its sessions, their slots, contributions and breaks, and the schedules of the event, of
  the sessions and of the slots.

  Datetimes are instants, seconds since 1970-01-01 00:00 UTC, durations are seconds; \<open>tz_off\<close> is the
  offset of the time zone of the event at an instant, as \<open>pytz\<close> answers it.  Objects are referred to
  by number; the schedule entries of a contribution, of a break and of a slot (one for the schedule
  of its session, one for that of the event) are identified by what they belong to.
\<close>

section \<open>State\<close>

datatype cstatus = StNotSch | StSch | StWithdrawn | StNone

record tcontrib =
  c_start :: "int option"
  c_dur :: int
  c_session :: "nat option"
  c_status :: cstatus

text \<open>
  A break gets its values as soon as it is made (\<open>ScheduleEditBreakBase._performOperation\<close>), so its
  duration is never \<open>None\<close>.
\<close>

record tbreak =
  b_start :: "int option"
  b_dur :: int

record tslot =
  sl_session :: "nat option"
  sl_start :: "int option"
  sl_dur :: int

record tsession =
  s_start :: int
  s_dur :: int
  s_slots :: "nat list"
  s_contribs :: "nat list"
  s_contribDuration :: int
  s_closed :: bool

datatype towner = Event | InSession nat | InSlot nat

datatype tentry = ContribE nat | BreakE nat | SessE nat | ConfE nat

record schedule =
  sch_entries :: "tentry list"
  entry_gen :: nat

text \<open>
  An entry of \<open>autoOps\<close>, the report of what an operation adapted: source, operation, target and the
  new date.
\<close>

datatype tsource = OfContrib nat | OfBreak nat | OfOwner towner

type_synonym auto_op = "tsource \<times> string \<times> towner \<times> int option"

record tt =
  ev_start :: int
  ev_end :: int
  tz_off :: "int \<Rightarrow> int"
  ev_closed :: bool
  ev_contribs :: "nat list"
  sess_ids :: "nat list"
  sessions :: "nat \<Rightarrow> tsession"
  next_session :: nat
  slots :: "nat \<Rightarrow> tslot"
  next_slot :: nat
  contribs :: "nat \<Rightarrow> tcontrib"
  next_contrib :: nat
  breaks :: "nat \<Rightarrow> tbreak"
  next_break :: nat
  scheds :: "towner \<Rightarrow> schedule"
  placed :: "tentry \<Rightarrow> towner option"
  entry_id :: "tentry \<Rightarrow> nat option"
  auto_ops :: "auto_op list"
  trash :: "tentry list"

section \<open>Reading\<close>

definition s_end :: "tsession \<Rightarrow> int" where
  "s_end x = s_start x + s_dur x"

definition sl_end :: "tslot \<Rightarrow> int option" where
  "sl_end x = map_option (\<lambda>d. d + sl_dur x) (sl_start x)"

definition c_end :: "tcontrib \<Rightarrow> int option" where
  "c_end x = map_option (\<lambda>d. d + c_dur x) (c_start x)"

definition b_end :: "tbreak \<Rightarrow> int option" where
  "b_end x = map_option (\<lambda>d. d + b_dur x) (b_start x)"

fun e_start :: "tt \<Rightarrow> tentry \<Rightarrow> int option" where
  "e_start s (ContribE c) = c_start (contribs s c)"
| "e_start s (BreakE b) = b_start (breaks s b)"
| "e_start s (SessE n) = sl_start (slots s n)"
| "e_start s (ConfE n) = sl_start (slots s n)"

fun e_dur :: "tt \<Rightarrow> tentry \<Rightarrow> int" where
  "e_dur s (ContribE c) = c_dur (contribs s c)"
| "e_dur s (BreakE b) = b_dur (breaks s b)"
| "e_dur s (SessE n) = sl_dur (slots s n)"
| "e_dur s (ConfE n) = sl_dur (slots s n)"

definition e_end :: "tt \<Rightarrow> tentry \<Rightarrow> int option" where
  "e_end s e = map_option (\<lambda>d. d + e_dur s e) (e_start s e)"

fun slot_of :: "tentry \<Rightarrow> nat option" where
  "slot_of (SessE n) = Some n" | "slot_of (ConfE n) = Some n" | "slot_of _ = None"

fun owner_start :: "tt \<Rightarrow> towner \<Rightarrow> int option" where
  "owner_start s Event = Some (ev_start s)"
| "owner_start s (InSession i) = Some (s_start (sessions s i))"
| "owner_start s (InSlot n) = sl_start (slots s n)"

fun owner_end :: "tt \<Rightarrow> towner \<Rightarrow> int option" where
  "owner_end s Event = Some (ev_end s)"
| "owner_end s (InSession i) = Some (s_end (sessions s i))"
| "owner_end s (InSlot n) = sl_end (slots s n)"

definition entries_of :: "tt \<Rightarrow> towner \<Rightarrow> tentry list" where
  "entries_of s o1 = sch_entries (scheds s o1)"

text \<open>
  Comparing a datetime with \<open>None\<close> raises a \<open>TypeError\<close>; \<open>TimeSchedule.getStartDate\<close> converts the
  start of its owner, which \<open>None\<close> has no method for.
\<close>

definition need :: "'a option \<Rightarrow> (tt, 'a) prog" where
  "need x = (case x of None \<Rightarrow> raise_exn TypeError | Some y \<Rightarrow> ret y)"

definition sch_start :: "towner \<Rightarrow> (tt, int) prog" where
  "sch_start o1 = bnd get_st (\<lambda>s. case owner_start s o1 of None \<Rightarrow> raise_exn AttributeError | Some d \<Rightarrow> ret d)"

definition sch_end :: "towner \<Rightarrow> (tt, int) prog" where
  "sch_end o1 = bnd get_st (\<lambda>s. need (owner_end s o1))"

text \<open>The local calendar day of an instant in a time zone.\<close>

definition local_day :: "(int \<Rightarrow> int) \<Rightarrow> int \<Rightarrow> int" where
  "local_day off t = (t + off t) div 86400"

text \<open>\<open>day.replace(hour=h, minute=m)\<close> of an aware datetime keeps its offset and its seconds.\<close>

definition replace_time :: "(int \<Rightarrow> int) \<Rightarrow> int \<Rightarrow> int \<Rightarrow> int \<Rightarrow> int" where
  "replace_time off t h m = local_day off t * 86400 + h * 3600 + m * 60 + (t + off t) mod 60 - off t"

definition local_hour :: "(int \<Rightarrow> int) \<Rightarrow> int \<Rightarrow> int" where
  "local_hour off t = (t + off t) mod 86400 div 3600"

definition local_minute :: "(int \<Rightarrow> int) \<Rightarrow> int \<Rightarrow> int" where
  "local_minute off t = (t + off t) mod 3600 div 60"

section \<open>Writing\<close>

definition upd_contrib :: "nat \<Rightarrow> (tcontrib \<Rightarrow> tcontrib) \<Rightarrow> (tt, unit) prog" where
  "upd_contrib c f = modify (\<lambda>s. s\<lparr>contribs := (contribs s)(c := f (contribs s c))\<rparr>)"

definition upd_break :: "nat \<Rightarrow> (tbreak \<Rightarrow> tbreak) \<Rightarrow> (tt, unit) prog" where
  "upd_break b f = modify (\<lambda>s. s\<lparr>breaks := (breaks s)(b := f (breaks s b))\<rparr>)"

definition upd_slot :: "nat \<Rightarrow> (tslot \<Rightarrow> tslot) \<Rightarrow> (tt, unit) prog" where
  "upd_slot n f = modify (\<lambda>s. s\<lparr>slots := (slots s)(n := f (slots s n))\<rparr>)"

definition upd_session :: "nat \<Rightarrow> (tsession \<Rightarrow> tsession) \<Rightarrow> (tt, unit) prog" where
  "upd_session i f = modify (\<lambda>s. s\<lparr>sessions := (sessions s)(i := f (sessions s i))\<rparr>)"

definition upd_sched :: "towner \<Rightarrow> (schedule \<Rightarrow> schedule) \<Rightarrow> (tt, unit) prog" where
  "upd_sched o1 f = modify (\<lambda>s. s\<lparr>scheds := (scheds s)(o1 := f (scheds s o1))\<rparr>)"

definition report :: "tsource \<Rightarrow> string \<Rightarrow> towner \<Rightarrow> int option \<Rightarrow> (tt, unit) prog" where
  "report src op target d = modify (\<lambda>s. s\<lparr>auto_ops := auto_ops s @ [(src, op, target, d)]\<rparr>)"

section \<open>Schedules\<close>

text \<open>
  \<open>TimeSchedule.reSchedule\<close> sorts the entries by start and then by duration.  Comparing a start that
  is \<open>None\<close> with one that is not raises.  \<open>_allowParallel\<close> is always true, so entries are never pushed
  apart.
\<close>

definition date_key :: "tt \<Rightarrow> tentry \<Rightarrow> int" where
  "date_key s e = (case e_start s e of None \<Rightarrow> 0 | Some d \<Rightarrow> d)"

definition entry_key :: "tt \<Rightarrow> tentry \<Rightarrow> int \<times> int" where
  "entry_key s e = (date_key s e, e_dur s e)"

definition sort_entries :: "tt \<Rightarrow> tentry list \<Rightarrow> tentry list" where
  "sort_entries s es = sort_key (entry_key s) es"

definition reSchedule :: "towner \<Rightarrow> (tt, unit) prog" where
  "reSchedule o1 = bnd get_st (\<lambda>s. let es = entries_of s o1 in
     if (\<exists>e \<in> set es. e_start s e = None) \<and> (\<exists>e \<in> set es. e_start s e \<noteq> None) then raise_exn TypeError
     else upd_sched o1 (\<lambda>x. x\<lparr>sch_entries := sort_entries s es\<rparr>))"

text \<open>\<open>SchEntry.synchro\<close>.\<close>

definition synchro :: "tentry \<Rightarrow> (tt, unit) prog" where
  "synchro e = bnd get_st (\<lambda>s. case placed s e of None \<Rightarrow> ret () | Some o1 \<Rightarrow> reSchedule o1)"

fun max_end :: "tentry list \<Rightarrow> int \<Rightarrow> (tt, int) prog" where
  "max_end [] d = ret d"
| "max_end (e # es) d = bnd get_st (\<lambda>s. bnd (need (e_end s e)) (\<lambda>x. max_end es (if x > d then x else d)))"

definition calculateEndDate :: "towner \<Rightarrow> (tt, int) prog" where
  "calculateEndDate o1 = bnd (sch_start o1) (\<lambda>d. bnd get_st (\<lambda>s. max_end (entries_of s o1) d))"

definition calculateStartDate :: "towner \<Rightarrow> (tt, int) prog" where
  "calculateStartDate o1 = bnd get_st (\<lambda>s. case entries_of s o1 of
       [] \<Rightarrow> sch_start o1 | e # _ \<Rightarrow> need (e_start s e))"

definition hasEntriesBefore :: "towner \<Rightarrow> int \<Rightarrow> (tt, bool) prog" where
  "hasEntriesBefore o1 d = bnd get_st (\<lambda>s. case entries_of s o1 of
       [] \<Rightarrow> ret False | e # _ \<Rightarrow> bnd (need (e_start s e)) (\<lambda>x. ret (x < d)))"

definition hasEntriesAfter :: "towner \<Rightarrow> int \<Rightarrow> (tt, bool) prog" where
  "hasEntriesAfter o1 d = bnd get_st (\<lambda>s. if entries_of s o1 = [] then ret False
     else bnd (calculateEndDate o1) (\<lambda>x. ret (x > d)))"

definition checkSanity :: "towner \<Rightarrow> (tt, unit) prog" where
  "checkSanity o1 =
     bnd (sch_start o1) (\<lambda>a. bnd (hasEntriesBefore o1 a) (\<lambda>before.
       if before then raise_exn TimingError
       else bnd (sch_end o1) (\<lambda>b. bnd (hasEntriesAfter o1 b) (\<lambda>after.
         if after then raise_exn TimingError else ret ()))))"

definition outside_date :: "towner \<Rightarrow> int option \<Rightarrow> (tt, bool) prog" where
  "outside_date o1 d = (case d of
       None \<Rightarrow> ret False
     | Some x \<Rightarrow> bnd (sch_start o1) (\<lambda>st. if x < st then ret True else bnd (sch_end o1) (\<lambda>en. ret (x > en))))"

definition isOutside :: "towner \<Rightarrow> int option \<Rightarrow> int option \<Rightarrow> (tt, bool) prog" where
  "isOutside o1 sd ed = bnd (outside_date o1 sd) (\<lambda>out. if out then ret True else outside_date o1 ed)"

definition hasEntry :: "tt \<Rightarrow> towner \<Rightarrow> tentry \<Rightarrow> bool" where
  "hasEntry s o1 e \<longleftrightarrow> placed s e = Some o1 \<and> e \<in> set (entries_of s o1)"

definition getEntryById :: "tt \<Rightarrow> towner \<Rightarrow> nat \<Rightarrow> tentry option" where
  "getEntryById s o1 k = find (\<lambda>e. entry_id s e = Some k) (entries_of s o1)"

text \<open>\<open>inDay\<close>: the local days of start and end enclose the day; an entry outside every schedule is on no day.\<close>

definition inDay :: "tt \<Rightarrow> (int \<Rightarrow> int) \<Rightarrow> tentry \<Rightarrow> int \<Rightarrow> bool" where
  "inDay s off e day \<longleftrightarrow> placed s e \<noteq> None \<and>
     (case (e_start s e, e_end s e) of
        (Some a, Some b) \<Rightarrow> local_day off a \<le> local_day off day \<and> local_day off b \<ge> local_day off day
      | _ \<Rightarrow> False)"

definition getEntriesOnDay :: "tt \<Rightarrow> (int \<Rightarrow> int) \<Rightarrow> towner \<Rightarrow> int \<Rightarrow> tentry list" where
  "getEntriesOnDay s off o1 day = filter (\<lambda>e. inDay s off e day) (entries_of s o1)"

definition onDate :: "tt \<Rightarrow> tentry \<Rightarrow> int \<Rightarrow> bool" where
  "onDate s e d \<longleftrightarrow> placed s e \<noteq> None \<and>
     (case (e_start s e, e_end s e) of (Some a, Some b) \<Rightarrow> a \<le> d \<and> b \<ge> d | _ \<Rightarrow> False)"

definition getEntriesOnDate :: "tt \<Rightarrow> towner \<Rightarrow> int \<Rightarrow> tentry list" where
  "getEntriesOnDate s o1 d = filter (\<lambda>e. onDate s e d) (entries_of s o1)"

definition collides :: "tt \<Rightarrow> tentry \<Rightarrow> tentry \<Rightarrow> bool" where
  "collides s e f = (case (e_start s e, e_end s e, e_start s f, e_end s f) of
       (Some a, Some b, Some c, Some d) \<Rightarrow> (c \<ge> a \<and> c < b) \<or> (d > a \<and> d \<le> b) | _ \<Rightarrow> False)"

definition hasGap :: "towner \<Rightarrow> (tt, bool) prog" where
  "hasGap o1 = bnd get_st (\<lambda>s. let es = entries_of s o1 in
     if length es > 1 then bnd (sch_start o1) (\<lambda>d.
       ret (\<exists>p \<in> set (zip es (Some d # map (e_end s) es)). e_start s (fst p) \<noteq> snd p))
     else ret False)"

text \<open>
  \<open>findFirstFreeSlot\<close>.  The source compares a \<open>timedelta\<close> with the number 0, which is always
  different: without a duration the start of the schedule is returned at once, and with one the
  only test is whether it fits before the next entry.
\<close>

fun free_loop :: "tentry list \<Rightarrow> int option \<Rightarrow> int \<Rightarrow> int \<Rightarrow> (tt, int option) prog" where
  "free_loop [] reqDur end_date d = ret (case reqDur of
       None \<Rightarrow> Some d | Some r \<Rightarrow> if r \<le> end_date - d then Some d else None)"
| "free_loop (e # es) reqDur end_date d = bnd get_st (\<lambda>s. bnd (need (e_start s e)) (\<lambda>a.
     case reqDur of
       None \<Rightarrow> ret (Some d)
     | Some r \<Rightarrow> if r \<le> a - d then ret (Some d)
         else bnd (need (e_end s e)) (\<lambda>b. free_loop es reqDur end_date b)))"

definition findFirstFreeSlot :: "towner \<Rightarrow> int option \<Rightarrow> (tt, int option) prog" where
  "findFirstFreeSlot o1 reqDur = bnd (sch_start o1) (\<lambda>d. bnd (sch_end o1) (\<lambda>en.
     bnd get_st (\<lambda>s. free_loop (entries_of s o1) reqDur en d)))"

end
