(* ===== verification/TT_Dates.thy ===== *)
theory TT_Dates
  imports TT_Model
begin

text \<open>
  Changing the dates of the event, its sessions, slots, contributions and breaks (\<open>setStartDate\<close>,
  \<open>setEndDate\<close>, \<open>setDuration\<close>, \<open>setDates\<close> and their \<open>verify\<close> methods).  \<open>check\<close> is 0 (none), 1 (raise)
  or 2 (adapt the dates of the parents).

  The methods of the source call one another up and down the tree.  Moving a parent's start without
  its entries (\<open>moveEntries=0\<close>) calls only its own parents, so each of the methods with
  \<open>moveEntries\<close> is written once with what it does to the entries, \<open>below\<close>, as an argument, and used
  at two levels: with nothing below for the calls from the entries, and with the schedule's
  \<open>moveEntriesBelow\<close> for the others.
\<close>

section \<open>The event\<close>

definition no_below :: "int \<Rightarrow> tentry list \<Rightarrow> (tt, unit) prog" where
  "no_below diff es = ret ()"

definition conf_verifyStartDate :: "int \<Rightarrow> (tt, unit) prog" where
  "conf_verifyStartDate d = bnd get_st (\<lambda>s.
     if d > ev_end s then raise_exn (MaKaCError ''End date cannot be before the Start date'') else ret ())"

definition conf_setStartDate_with ::
    "(int \<Rightarrow> tentry list \<Rightarrow> (tt, unit) prog) \<Rightarrow> int \<Rightarrow> nat \<Rightarrow> bool \<Rightarrow> (tt, unit) prog" where
  "conf_setStartDate_with below sDate check moveEntries = bnd get_st (\<lambda>s.
     if sDate = ev_start s then ret ()
     else andthen (when_do (check \<noteq> 0) (conf_verifyStartDate sDate))
       (andthen (modify (\<lambda>t. t\<lparr>ev_start := sDate\<rparr>))
         (when_do moveEntries (bnd get_st (\<lambda>t. below (sDate - ev_start s) (entries_of t Event))))))"

definition conf_verifyEndDate :: "int \<Rightarrow> (tt, unit) prog" where
  "conf_verifyEndDate d = bnd get_st (\<lambda>s.
     if d < ev_start s then raise_exn TimingError
     else bnd (hasEntriesAfter Event d) (\<lambda>after. if after then raise_exn TimingError else ret ()))"

definition conf_setEndDate :: "int \<Rightarrow> nat \<Rightarrow> (tt, unit) prog" where
  "conf_setEndDate eDate check = bnd get_st (\<lambda>s.
     if eDate = ev_end s then ret ()
     else andthen (when_do (check \<noteq> 0) (conf_verifyEndDate eDate))
       (modify (\<lambda>t. t\<lparr>ev_end := eDate\<rparr>)))"

text \<open>The test of \<open>setDates\<close> before the entries are shifted into a shorter event.\<close>

definition conf_check_shift :: "int \<Rightarrow> int \<Rightarrow> (tt, unit) prog" where
  "conf_check_shift sDate eDate = bnd get_st (\<lambda>s. case entries_of s Event of
       [] \<Rightarrow> ret ()
     | e # es \<Rightarrow>
         if ev_end s - ev_start s > eDate - sDate then
           bnd (need (e_end s (last (e # es)))) (\<lambda>b. bnd (need (e_start s e)) (\<lambda>a.
             if sDate + (a - ev_start s) + (b - a) > eDate then raise_exn TimingError else ret ()))
         else ret ())"

definition conf_setDates_with ::
    "(int \<Rightarrow> tentry list \<Rightarrow> (tt, unit) prog) \<Rightarrow> int \<Rightarrow> int \<Rightarrow> bool \<Rightarrow> (tt, unit) prog" where
  "conf_setDates_with below sDate eDate moveEntries = bnd get_st (\<lambda>s.
     if sDate > eDate then raise_exn (MaKaCError ''Start date cannot be after the end date'')
     else if sDate = ev_start s \<and> eDate = ev_end s then ret ()
     else (let move = moveEntries \<and> sDate \<noteq> ev_start s in
       andthen (when_do move (conf_check_shift sDate eDate))
       (andthen (conf_setStartDate_with below sDate 0 move)
       (andthen (conf_setEndDate eDate 0)
                (checkSanity Event)))))"

definition conf_setStartDate0 :: "int \<Rightarrow> nat \<Rightarrow> (tt, unit) prog" where
  "conf_setStartDate0 sDate check = conf_setStartDate_with no_below sDate check False"

section \<open>Sessions\<close>

definition sess_verifyStartDate :: "nat \<Rightarrow> int \<Rightarrow> nat \<Rightarrow> (tt, unit) prog" where
  "sess_verifyStartDate i sdate check = bnd get_st (\<lambda>s.
     if sdate < ev_start s then
       (if check = 1 then raise_exn ParentTimingError
        else if check = 2 then
          andthen (report (OfOwner (InSession i)) ''OWNER_START_DATE_EXTENDED'' Event (Some sdate))
                  (conf_setStartDate0 sdate 0)
        else ret ())
     else ret ())"

text \<open>
  The days that decide which entries move are those of UTC, the zone in which dates are stored.  The
  branch for events without session slots is left out: \<open>getEnableSessionSlots\<close> returns \<open>True\<close>.
\<close>

definition utc_off :: "int \<Rightarrow> int" where
  "utc_off t = 0"

definition sess_setStartDate_with ::
    "(int \<Rightarrow> tentry list \<Rightarrow> (tt, unit) prog) \<Rightarrow> nat \<Rightarrow> int \<Rightarrow> nat \<Rightarrow> bool \<Rightarrow> (tt, unit) prog" where
  "sess_setStartDate_with below i newDate check moveEntries =
     andthen (when_do (check \<noteq> 0) (sess_verifyStartDate i newDate check))
     (bnd get_st (\<lambda>s. let oldSdate = s_start (sessions s i); diff = newDate - oldSdate in
       andthen (upd_session i (\<lambda>x. x\<lparr>s_start := newDate\<rparr>))
       (andthen (when_do (moveEntries \<and> diff \<noteq> 0) (bnd get_st (\<lambda>t.
          below diff (if local_day utc_off oldSdate \<noteq> local_day utc_off newDate then entries_of t (InSession i)
                      else getEntriesOnDay t utc_off (InSession i) newDate))))
       (when_do (check = 1) (checkSanity (InSession i))))))"

definition sess_setStartDate0 :: "nat \<Rightarrow> int \<Rightarrow> nat \<Rightarrow> (tt, unit) prog" where
  "sess_setStartDate0 i newDate check = sess_setStartDate_with no_below i newDate check False"

text \<open>Only the schedule of the last slot of the session's dict is looked at.\<close>

definition sess_verifyEndDate :: "nat \<Rightarrow> int \<Rightarrow> nat \<Rightarrow> (tt, unit) prog" where
  "sess_verifyEndDate i edate check = bnd get_st (\<lambda>s.
     andthen (if edate \<le> s_start (sessions s i) then
                (if check = 1 then raise_exn (MaKaCError ''End date cannot be prior to the Start date'')
                 else when_do (check = 2) (sess_setStartDate0 i edate 2))
              else ret ())
     (bnd get_st (\<lambda>t. let confStartDate = ev_start t; confEndDate = ev_end t in
       andthen (if edate > confEndDate \<or> edate \<le> confStartDate then
                  (if check = 1 then raise_exn ParentTimingError
                   else when_do (check = 2)
                     (andthen (when_do (edate > confEndDate)
                        (andthen (report (OfOwner (InSession i)) ''OWNER_END_DATE_EXTENDED'' Event (Some edate))
                                 (conf_setEndDate edate 1)))
                     (when_do (edate \<le> confStartDate)
                        (andthen (report (OfOwner (InSession i)) ''OWNER_START_DATE_EXTENDED'' Event (Some edate))
                                 (conf_setStartDate0 edate 1)))))
                else ret ())
       (bnd get_st (\<lambda>u. let sl = s_slots (sessions u i) in
         if sl = [] then ret ()
         else bnd (hasEntriesAfter (InSlot (last sl)) edate) (\<lambda>after.
           if after then raise_exn TimingError else ret ()))))))"

definition sess_setEndDate :: "nat \<Rightarrow> int \<Rightarrow> nat \<Rightarrow> (tt, unit) prog" where
  "sess_setEndDate i newDate check =
     andthen (when_do (check \<noteq> 0) (sess_verifyEndDate i newDate check))
             (upd_session i (\<lambda>x. x\<lparr>s_dur := newDate - s_start x\<rparr>))"

definition sess_setDuration :: "nat \<Rightarrow> int \<Rightarrow> (tt, unit) prog" where
  "sess_setDuration i dur =
     andthen (upd_session i (\<lambda>x. x\<lparr>s_dur := dur\<rparr>))
     (bnd get_st (\<lambda>s. sess_verifyEndDate i (s_end (sessions s i)) 1))"

definition sess_setDates_with ::
    "(int \<Rightarrow> tentry list \<Rightarrow> (tt, unit) prog) \<Rightarrow> nat \<Rightarrow> int \<Rightarrow> int \<Rightarrow> nat \<Rightarrow> bool \<Rightarrow> (tt, unit) prog" where
  "sess_setDates_with below i sDate eDate check moveEntries =
     (if eDate \<le> sDate then raise_exn FormValuesError
      else andthen (sess_setStartDate_with below i sDate check moveEntries)
        (andthen (sess_setEndDate i eDate check) (checkSanity (InSession i))))"

fun slots_min :: "tt \<Rightarrow> nat list \<Rightarrow> int \<Rightarrow> (tt, int) prog" where
  "slots_min s [] d = ret d"
| "slots_min s (n # ns) d = bnd (need (sl_start (slots s n))) (\<lambda>x. slots_min s ns (if x < d then x else d))"

fun slots_max :: "tt \<Rightarrow> nat list \<Rightarrow> int \<Rightarrow> (tt, int) prog" where
  "slots_max s [] d = ret d"
| "slots_max s (n # ns) d = bnd (need (sl_end (slots s n))) (\<lambda>x. slots_max s ns (if x > d then x else d))"

definition getMinSlotStartDate :: "nat \<Rightarrow> (tt, int) prog" where
  "getMinSlotStartDate i = bnd get_st (\<lambda>s. let x = sessions s i in
     if s_slots x = [] then ret (s_start x) else slots_min s (s_slots x) (s_end x))"

definition getMaxSlotEndDate :: "nat \<Rightarrow> (tt, int) prog" where
  "getMaxSlotEndDate i = bnd get_st (\<lambda>s. let x = sessions s i in
     if s_slots x = [] then ret (s_end x) else slots_max s (s_slots x) (s_start x))"

definition sess_fit :: "nat \<Rightarrow> (tt, unit) prog" where
  "sess_fit i =
     andthen (bnd (getMinSlotStartDate i) (\<lambda>d. sess_setStartDate0 i d 0))
             (bnd (getMaxSlotEndDate i) (\<lambda>d. sess_setEndDate i d 0))"

section \<open>Slots\<close>

definition slot_session :: "nat \<Rightarrow> (tt, nat) prog" where
  "slot_session n = bnd get_st (\<lambda>s. case sl_session (slots s n) of None \<Rightarrow> raise_exn AttributeError | Some i \<Rightarrow> ret i)"

definition slot_verifyStartDate :: "nat \<Rightarrow> int \<Rightarrow> nat \<Rightarrow> (tt, unit) prog" where
  "slot_verifyStartDate n sDate check = bnd (slot_session n) (\<lambda>i. bnd get_st (\<lambda>s.
     if sDate < s_start (sessions s i) then
       (if check = 1 then raise_exn ParentTimingError
        else when_do (check = 2) (sess_setStartDate0 i sDate 2))
     else ret ()))"

text \<open>\<open>dur.days > 1\<close> is two days or more.\<close>

definition slot_verifyDuration :: "nat \<Rightarrow> int \<Rightarrow> nat \<Rightarrow> (tt, unit) prog" where
  "slot_verifyDuration n dur check = bnd (slot_session n) (\<lambda>i.
     if dur \<le> 0 then raise_exn FormValuesError
     else if dur div 86400 > 1 then raise_exn FormValuesError
     else bnd get_st (\<lambda>s. case sl_start (slots s n) of
         None \<Rightarrow> ret ()
       | Some a \<Rightarrow> (let eDate = a + dur in
           andthen (if eDate > s_end (sessions s i) then
                      (if check = 1 then raise_exn EntryTimingError
                       else when_do (check = 2)
                         (andthen (report (OfOwner (InSlot n)) ''OWNER_END_DATE_EXTENDED'' (InSession i) (Some eDate))
                                  (sess_setEndDate i eDate check)))
                    else ret ())
           (if local_day (tz_off s) eDate > local_day (tz_off s) a then raise_exn TimingError
            else bnd get_st (\<lambda>t. if entries_of t (InSlot n) = [] then ret ()
              else bnd (calculateEndDate (InSlot n)) (\<lambda>last_end.
                if eDate < last_end then raise_exn TimingError else ret ()))))))"

definition slot_setDuration :: "nat \<Rightarrow> int \<Rightarrow> nat \<Rightarrow> (tt, unit) prog" where
  "slot_setDuration n dur check =
     andthen (when_do (check \<noteq> 0) (slot_verifyDuration n dur check))
     (andthen (upd_slot n (\<lambda>x. x\<lparr>sl_dur := dur\<rparr>))
     (andthen (synchro (SessE n))
     (andthen (synchro (ConfE n))
              (bnd (slot_session n) sess_fit))))"

definition slot_setEndDate :: "nat \<Rightarrow> int \<Rightarrow> nat \<Rightarrow> (tt, unit) prog" where
  "slot_setEndDate n eDate check = bnd get_st (\<lambda>s. bnd (need (sl_start (slots s n))) (\<lambda>a.
     andthen (when_do (check \<noteq> 0) (slot_verifyDuration n (eDate - a) check))
     (andthen (slot_setDuration n (eDate - a) check)
              (bnd (slot_session n) sess_fit))))"

definition slot_setStartDate_with ::
    "(int \<Rightarrow> tentry list \<Rightarrow> (tt, unit) prog) \<Rightarrow> nat \<Rightarrow> int option \<Rightarrow> nat \<Rightarrow> bool \<Rightarrow> bool \<Rightarrow> (tt, unit) prog" where
  "slot_setStartDate_with below n sDate_arg check moveEntries checkDuration = (case sDate_arg of
       None \<Rightarrow> ret ()
     | Some sDate \<Rightarrow>
         andthen (when_do (check \<noteq> 0) (slot_verifyStartDate n sDate check))
         (bnd get_st (\<lambda>s.
           andthen (upd_slot n (\<lambda>x. x\<lparr>sl_start := Some sDate\<rparr>))
           (andthen (case sl_start (slots s n) of
               None \<Rightarrow> ret ()
             | Some old \<Rightarrow> when_do (sDate - old \<noteq> 0 \<and> moveEntries)
                 (andthen (report (OfOwner (InSlot n)) ''ENTRIES_MOVED'' (InSlot n) (Some sDate))
                   (bnd get_st (\<lambda>t. below (sDate - old) (entries_of t (InSlot n))))))
           (andthen (when_do (check \<noteq> 0 \<and> checkDuration) (bnd get_st (\<lambda>t. slot_verifyDuration n (sl_dur (slots t n)) check)))
           (andthen (synchro (SessE n))
           (andthen (synchro (ConfE n))
                    (bnd (slot_session n) sess_fit))))))))"

definition slot_setDates_with ::
    "(int \<Rightarrow> tentry list \<Rightarrow> (tt, unit) prog) \<Rightarrow> nat \<Rightarrow> int \<Rightarrow> int \<Rightarrow> nat \<Rightarrow> bool \<Rightarrow> (tt, unit) prog" where
  "slot_setDates_with below n sDate eDate check moveEntries =
     (if sDate > eDate then raise_exn FormValuesError
      else andthen (slot_setStartDate_with below n (Some sDate) check moveEntries False)
                   (slot_setDuration n (eDate - sDate) check))"

definition slot_setStartDate0 :: "nat \<Rightarrow> int option \<Rightarrow> nat \<Rightarrow> (tt, unit) prog" where
  "slot_setStartDate0 n sDate check = slot_setStartDate_with no_below n sDate check False True"

definition slot_fit :: "nat \<Rightarrow> (tt, unit) prog" where
  "slot_fit n = bnd get_st (\<lambda>s. case entries_of s (InSlot n) of
       [] \<Rightarrow> ret ()
     | e # _ \<Rightarrow> andthen (slot_setStartDate0 n (e_start s e) 0)
         (bnd (calculateEndDate (InSlot n)) (\<lambda>d. slot_setEndDate n d 0)))"

section \<open>The owner of a contribution or break\<close>

fun owner_setStartDate :: "towner \<Rightarrow> int \<Rightarrow> nat \<Rightarrow> (tt, unit) prog" where
  "owner_setStartDate Event d check = conf_setStartDate0 d check"
| "owner_setStartDate (InSession i) d check = sess_setStartDate0 i d check"
| "owner_setStartDate (InSlot n) d check = slot_setStartDate0 n (Some d) check"

fun owner_setEndDate :: "towner \<Rightarrow> int \<Rightarrow> nat \<Rightarrow> (tt, unit) prog" where
  "owner_setEndDate Event d check = conf_setEndDate d check"
| "owner_setEndDate (InSession i) d check = sess_setEndDate i d check"
| "owner_setEndDate (InSlot n) d check = slot_setEndDate n d check"

fun owner_setDates :: "towner \<Rightarrow> int \<Rightarrow> int \<Rightarrow> nat \<Rightarrow> (tt, unit) prog" where
  "owner_setDates Event a b check = conf_setDates_with no_below a b False"
| "owner_setDates (InSession i) a b check = sess_setDates_with no_below i a b check False"
| "owner_setDates (InSlot n) a b check = slot_setDates_with no_below n a b check False"

section \<open>Contributions\<close>

text \<open>The parent whose dates count: the owner of the schedule, else the session or the event.\<close>

definition contrib_parent :: "tt \<Rightarrow> nat \<Rightarrow> towner" where
  "contrib_parent s c = (case placed s (ContribE c) of
       Some o1 \<Rightarrow> o1
     | None \<Rightarrow> (case c_session (contribs s c) of Some i \<Rightarrow> InSession i | None \<Rightarrow> Event))"

definition contrib_verifyStartDate :: "nat \<Rightarrow> int \<Rightarrow> nat \<Rightarrow> (tt, unit) prog" where
  "contrib_verifyStartDate c sDate check = bnd get_st (\<lambda>s. let o1 = contrib_parent s c; dur = c_dur (contribs s c) in
     bnd (need (owner_start s o1)) (\<lambda>a.
     andthen (if sDate < a then
                (if check = 1 then raise_exn ParentTimingError
                 else when_do (check = 2)
                   (andthen (report (OfContrib c) ''OWNER_START_DATE_EXTENDED'' o1 (Some sDate))
                     (bnd (need (owner_end s o1)) (\<lambda>b. owner_setDates o1 sDate b check))))
              else ret ())
     (andthen (bnd get_st (\<lambda>t. bnd (need (owner_end t o1)) (\<lambda>b.
        if sDate > b then
          (if check = 1 then raise_exn ParentTimingError
           else when_do (check = 2) (owner_setEndDate o1 (sDate + dur) check))
        else ret ())))
     (when_do (dur \<noteq> 0) (bnd get_st (\<lambda>t. bnd (need (owner_end t o1)) (\<lambda>b.
        if sDate + dur > b then
          (if check = 1 then raise_exn ParentTimingError
           else when_do (check = 2)
             (andthen (owner_setEndDate o1 (sDate + dur) check)
               (bnd get_st (\<lambda>u. report (OfContrib c) ''OWNER_END_DATE_EXTENDED'' o1 (owner_end u o1)))))
        else ret ())))))))"

definition contrib_setStartDate :: "nat \<Rightarrow> int option \<Rightarrow> nat \<Rightarrow> (tt, unit) prog" where
  "contrib_setStartDate c newDate check = (case newDate of
       None \<Rightarrow> upd_contrib c (\<lambda>x. x\<lparr>c_start := None\<rparr>)
     | Some d \<Rightarrow> andthen (when_do (check \<noteq> 0) (contrib_verifyStartDate c d check))
         (andthen (upd_contrib c (\<lambda>x. x\<lparr>c_start := Some d\<rparr>))
                  (synchro (ContribE c))))"

definition contrib_verifyDuration :: "nat \<Rightarrow> nat \<Rightarrow> (tt, unit) prog" where
  "contrib_verifyDuration c check = bnd get_st (\<lambda>s. case placed s (ContribE c) of
       None \<Rightarrow> ret ()
     | Some o1 \<Rightarrow> bnd (need (c_end (contribs s c))) (\<lambda>endDate. bnd (need (owner_end s o1)) (\<lambda>b.
         if endDate > b then
           (if check = 1 then raise_exn ParentTimingError
            else when_do (check = 2)
              (andthen (report (OfContrib c) ''OWNER_END_DATE_EXTENDED'' o1 (Some endDate))
                       (owner_setEndDate o1 endDate check)))
         else ret ())))"

definition contrib_setDuration :: "nat \<Rightarrow> int \<Rightarrow> nat \<Rightarrow> (tt, unit) prog" where
  "contrib_setDuration c dur check =
     andthen (upd_contrib c (\<lambda>x. x\<lparr>c_dur := dur\<rparr>))
     (andthen (when_do (check \<noteq> 0) (contrib_verifyDuration c check))
              (synchro (ContribE c)))"

section \<open>Breaks\<close>

definition break_verifyDuration :: "nat \<Rightarrow> nat \<Rightarrow> (tt, unit) prog" where
  "break_verifyDuration b check = bnd get_st (\<lambda>s. case placed s (BreakE b) of
       None \<Rightarrow> ret ()
     | Some o1 \<Rightarrow> bnd (need (b_end (breaks s b))) (\<lambda>endDate. bnd (need (owner_end s o1)) (\<lambda>en.
         if endDate > en then
           (if check = 1 then raise_exn ParentTimingError
            else when_do (check = 2) (owner_setEndDate o1 endDate check))
         else ret ())))"

definition break_setDuration :: "nat \<Rightarrow> int \<Rightarrow> nat \<Rightarrow> (tt, unit) prog" where
  "break_setDuration b dur check =
     andthen (upd_break b (\<lambda>x. x\<lparr>b_dur := dur\<rparr>))
     (andthen (synchro (BreakE b)) (break_verifyDuration b check))"

definition break_extend_end :: "nat \<Rightarrow> towner \<Rightarrow> int \<Rightarrow> nat \<Rightarrow> (tt, unit) prog" where
  "break_extend_end b o1 d check = bnd get_st (\<lambda>t. bnd (need (owner_end t o1)) (\<lambda>en.
     if d > en then
       (if check = 1 then raise_exn ParentTimingError
        else when_do (check = 2)
          (andthen (owner_setEndDate o1 d check)
            (bnd get_st (\<lambda>u. report (OfBreak b) ''OWNER_END_DATE_EXTENDED'' o1 (owner_end u o1)))))
     else ret ()))"

definition break_setStartDate :: "nat \<Rightarrow> int option \<Rightarrow> nat \<Rightarrow> (tt, unit) prog" where
  "break_setStartDate b newDate check = bnd get_st (\<lambda>s. case placed s (BreakE b) of
       None \<Rightarrow> upd_break b (\<lambda>x. x\<lparr>b_start := newDate\<rparr>)
     | Some o1 \<Rightarrow> bnd (need newDate) (\<lambda>d. bnd (need (owner_start s o1)) (\<lambda>a.
         andthen (if d < a then
                    (if check = 1 then raise_exn ParentTimingError
                     else when_do (check = 2)
                       (andthen (owner_setStartDate o1 d check)
                         (bnd get_st (\<lambda>t. report (OfBreak b) ''OWNER_START_DATE_EXTENDED'' o1 (owner_start t o1)))))
                  else ret ())
         (andthen (break_extend_end b o1 d check)
         (andthen (upd_break b (\<lambda>x. x\<lparr>b_start := Some d\<rparr>))
         (andthen (synchro (BreakE b))
         (bnd get_st (\<lambda>t. bnd (need (b_end (breaks t b))) (\<lambda>be. break_extend_end b o1 be check)))))))))"

section \<open>Moving entries\<close>

text \<open>\<open>SlotSchedule.moveEntriesBelow\<close>: the entries of a slot are contributions and breaks.\<close>

fun leaf_setStartDate :: "tentry \<Rightarrow> int option \<Rightarrow> nat \<Rightarrow> (tt, unit) prog" where
  "leaf_setStartDate (ContribE c) d check = contrib_setStartDate c d check"
| "leaf_setStartDate (BreakE b) d check = break_setStartDate b d check"
| "leaf_setStartDate _ d check = raise_exn TypeError"

definition slot_moveEntriesBelow :: "int \<Rightarrow> tentry list \<Rightarrow> (tt, unit) prog" where
  "slot_moveEntriesBelow diff es = for_each es (\<lambda>e.
     bnd get_st (\<lambda>s. bnd (need (e_start s e)) (\<lambda>a. leaf_setStartDate e (Some (a + diff)) 2)))"

definition slot_setStartDate :: "nat \<Rightarrow> int option \<Rightarrow> nat \<Rightarrow> bool \<Rightarrow> bool \<Rightarrow> (tt, unit) prog" where
  "slot_setStartDate = slot_setStartDate_with slot_moveEntriesBelow"

definition slot_setDates :: "nat \<Rightarrow> int \<Rightarrow> int \<Rightarrow> nat \<Rightarrow> bool \<Rightarrow> (tt, unit) prog" where
  "slot_setDates = slot_setDates_with slot_moveEntriesBelow"

text \<open>\<open>setStartDate\<close> and \<open>setDuration\<close> of any entry.\<close>

fun entry_setStartDate :: "tentry \<Rightarrow> int option \<Rightarrow> nat \<Rightarrow> bool \<Rightarrow> (tt, unit) prog" where
  "entry_setStartDate (ContribE c) d check moveEntries = contrib_setStartDate c d check"
| "entry_setStartDate (BreakE b) d check moveEntries = break_setStartDate b d check"
| "entry_setStartDate (SessE n) d check moveEntries = slot_setStartDate n d check moveEntries True"
| "entry_setStartDate (ConfE n) d check moveEntries = slot_setStartDate n d check moveEntries True"

fun entry_setDuration :: "tentry \<Rightarrow> int \<Rightarrow> nat \<Rightarrow> (tt, unit) prog" where
  "entry_setDuration (ContribE c) dur check = contrib_setDuration c dur check"
| "entry_setDuration (BreakE b) dur check = break_setDuration b dur check"
| "entry_setDuration (SessE n) dur check = slot_setDuration n dur check"
| "entry_setDuration (ConfE n) dur check = slot_setDuration n dur check"

definition shift_entry :: "int \<Rightarrow> nat \<Rightarrow> tentry \<Rightarrow> (tt, unit) prog" where
  "shift_entry diff check e = bnd get_st (\<lambda>s. bnd (need (e_start s e)) (\<lambda>a.
     entry_setStartDate e (Some (a + diff)) check True))"

definition sess_moveEntriesBelow :: "int \<Rightarrow> tentry list \<Rightarrow> (tt, unit) prog" where
  "sess_moveEntriesBelow diff es = for_each es (shift_entry diff 0)"

definition sess_setStartDate :: "nat \<Rightarrow> int \<Rightarrow> nat \<Rightarrow> bool \<Rightarrow> (tt, unit) prog" where
  "sess_setStartDate = sess_setStartDate_with sess_moveEntriesBelow"

definition sess_setDates :: "nat \<Rightarrow> int \<Rightarrow> int \<Rightarrow> nat \<Rightarrow> bool \<Rightarrow> (tt, unit) prog" where
  "sess_setDates = sess_setDates_with sess_moveEntriesBelow"

text \<open>
  \<open>TimeSchedule.moveEntriesBelow\<close> moves the start of a session with its first slot, once per session.
\<close>

definition move_session :: "int \<Rightarrow> nat \<Rightarrow> nat \<Rightarrow> (tt, unit) prog" where
  "move_session diff i n = bnd get_st (\<lambda>s. case entries_of s (InSession i) of
       [] \<Rightarrow> raise_exn IndexError
     | e # _ \<Rightarrow> when_do (slot_of e = Some n) (sess_setStartDate0 i (s_start (sessions s i) + diff) 0))"

fun conf_move_loop :: "int \<Rightarrow> tentry list \<Rightarrow> nat list \<Rightarrow> (tt, unit) prog" where
  "conf_move_loop diff [] done = ret ()"
| "conf_move_loop diff (e # es) done = (case slot_of e of
       None \<Rightarrow> andthen (shift_entry diff 0 e) (conf_move_loop diff es done)
     | Some n \<Rightarrow> bnd (slot_session n) (\<lambda>i.
         andthen (when_do (i \<notin> set done) (move_session diff i n))
         (andthen (shift_entry diff 0 e) (conf_move_loop diff es (if i \<in> set done then done else done @ [i])))))"

definition conf_moveEntriesBelow :: "int \<Rightarrow> tentry list \<Rightarrow> (tt, unit) prog" where
  "conf_moveEntriesBelow diff es = conf_move_loop diff es []"

definition conf_setStartDate :: "int \<Rightarrow> nat \<Rightarrow> bool \<Rightarrow> (tt, unit) prog" where
  "conf_setStartDate = conf_setStartDate_with conf_moveEntriesBelow"

definition conf_setDates :: "int \<Rightarrow> int \<Rightarrow> bool \<Rightarrow> (tt, unit) prog" where
  "conf_setDates = conf_setDates_with conf_moveEntriesBelow"

definition conf_fit :: "(tt, unit) prog" where
  "conf_fit = bnd (calculateStartDate Event) (\<lambda>a. bnd (calculateEndDate Event) (\<lambda>b.
     andthen (conf_setStartDate a 1 False) (conf_setEndDate b 1)))"

text \<open>\<open>moveEntriesBelow\<close> of a schedule.\<close>

fun sch_moveEntriesBelow :: "towner \<Rightarrow> int \<Rightarrow> tentry list \<Rightarrow> (tt, unit) prog" where
  "sch_moveEntriesBelow Event = conf_moveEntriesBelow"
| "sch_moveEntriesBelow (InSession i) = sess_moveEntriesBelow"
| "sch_moveEntriesBelow (InSlot n) = slot_moveEntriesBelow"

end
