(* ===== verification/TT_Ops.thy ===== *)
theory TT_Ops
  imports TT_Dates
begin

text \<open>
  Putting entries into schedules, taking them out and moving them (\<open>MaKaC/schedule.py\<close>), and the
  sessions, slots and contributions that own them (\<open>MaKaC/conference.py\<close>).
\<close>

section \<open>Taking entries out\<close>

text \<open>
  \<open>_removeEntry\<close>: the entry leaves the list, forgets its schedule and its start.  \<open>setSchedule(None)\<close>
  asks the schedule to remove the entry again, which finds it gone.  A contribution becomes
  unscheduled, a break goes to the trash can.
\<close>

fun forget_date :: "tentry \<Rightarrow> (tt, unit) prog" where
  "forget_date (ContribE c) = upd_contrib c (\<lambda>x. x\<lparr>c_status := StNotSch, c_start := None\<rparr>)"
| "forget_date (BreakE b) = andthen (upd_break b (\<lambda>x. x\<lparr>b_start := None\<rparr>))
     (modify (\<lambda>s. s\<lparr>trash := trash s @ [BreakE b]\<rparr>))"
| "forget_date _ = ret ()"

definition drop_entry :: "towner \<Rightarrow> tentry \<Rightarrow> (tt, unit) prog" where
  "drop_entry o1 e =
     andthen (upd_sched o1 (\<lambda>x. x\<lparr>sch_entries := remove1 e (sch_entries x)\<rparr>))
     (andthen (modify (\<lambda>s. s\<lparr>placed := (placed s)(e := None), entry_id := (entry_id s)(e := None)\<rparr>))
              (forget_date e))"

text \<open>A slot leaves the schedule of its session only after it has left the session.\<close>

definition slot_listed :: "tt \<Rightarrow> towner \<Rightarrow> tentry \<Rightarrow> bool" where
  "slot_listed s o1 e = (case (o1, slot_of e) of (InSession i, Some n) \<Rightarrow> n \<in> set (s_slots (sessions s i)) | _ \<Rightarrow> False)"

definition removeEntry :: "towner \<Rightarrow> tentry \<Rightarrow> (tt, unit) prog" where
  "removeEntry o1 e = bnd get_st (\<lambda>s.
     if \<not> hasEntry s o1 e then ret ()
     else if slot_listed s o1 e
     then raise_exn (MaKaCError ''Cannot remove a slot without removing it from the session slot list'')
     else drop_entry o1 e)"

text \<open>\<open>clear\<close> takes the first entry out until there is none.\<close>

definition clear_schedule :: "towner \<Rightarrow> (tt, unit) prog" where
  "clear_schedule o1 = bnd get_st (\<lambda>s. for_each (entries_of s o1) (drop_entry o1))"

definition unschedule :: "tentry \<Rightarrow> (tt, unit) prog" where
  "unschedule e = bnd get_st (\<lambda>s. case placed s e of None \<Rightarrow> ret () | Some o1 \<Rightarrow> removeEntry o1 e)"

section \<open>Putting entries in\<close>

text \<open>
  \<open>_addEntry\<close>: an entry of another schedule leaves it first, and with it loses its start; one without
  a start gets the first free slot, and the owner is extended (2) or the operation refused (1) when
  an entry does not fit.
\<close>

definition free_or_extend :: "towner \<Rightarrow> int \<Rightarrow> nat \<Rightarrow> (tt, int option) prog" where
  "free_or_extend o1 dur check = bnd (findFirstFreeSlot o1 (Some dur)) (\<lambda>free. case free of
       Some d \<Rightarrow> ret (Some d)
     | None \<Rightarrow> if check = 2 then
           bnd (sch_end o1) (\<lambda>en.
             andthen (report (OfOwner o1) ''OWNER_END_DATE_EXTENDED'' o1 (Some (en + dur)))
             (andthen (owner_setEndDate o1 (en + dur) check) (findFirstFreeSlot o1 (Some dur))))
         else ret None)"

definition fit_dates :: "towner \<Rightarrow> tentry \<Rightarrow> nat \<Rightarrow> (tt, unit) prog" where
  "fit_dates o1 e check = bnd get_st (\<lambda>s. case e_start s e of
       None \<Rightarrow> bnd (free_or_extend o1 (e_dur s e) check) (\<lambda>free. case free of
           None \<Rightarrow> raise_exn ParentTimingError
         | Some d \<Rightarrow> entry_setStartDate e (Some d) 2 False)
     | Some a \<Rightarrow> bnd (sch_start o1) (\<lambda>st.
         if a < st then
           (if check = 1 then raise_exn TimingError
            else when_do (check = 2)
              (andthen (report (OfOwner o1) ''OWNER_START_DATE_EXTENDED'' o1 (Some a))
                       (owner_setStartDate o1 a check)))
         else bnd (need (e_end s e)) (\<lambda>b. bnd (sch_end o1) (\<lambda>en.
           if b > en then
             (if check = 1 then raise_exn TimingError
              else when_do (check = 2)
                (andthen (report (OfOwner o1) ''OWNER_END_DATE_EXTENDED'' o1 (Some b))
                         (owner_setEndDate o1 b check)))
           else ret ()))))"

definition check_end :: "towner \<Rightarrow> tentry \<Rightarrow> (tt, unit) prog" where
  "check_end o1 e = bnd get_st (\<lambda>s. case e_end s e of
       None \<Rightarrow> ret ()
     | Some b \<Rightarrow> bnd (sch_start o1) (\<lambda>st. if b < st then raise_exn TimingError
         else bnd (sch_end o1) (\<lambda>en. if b > en then raise_exn TimingError else ret ())))"

text \<open>\<open>setSchedule\<close>: a withdrawn contribution cannot be scheduled.\<close>

definition place_entry :: "towner \<Rightarrow> tentry \<Rightarrow> (tt, unit) prog" where
  "place_entry o1 e = bnd get_st (\<lambda>s. let k = entry_gen (scheds s o1) in
     andthen (upd_sched o1 (\<lambda>x. x\<lparr>entry_gen := Suc k\<rparr>))
     (case e of
        ContribE c \<Rightarrow>
          if c_status (contribs s c) = StWithdrawn
          then raise_exn (MaKaCError ''Cannot schedule a contribution which has been withdrawn'')
          else andthen (modify (\<lambda>t. t\<lparr>placed := (placed t)(e := Some o1), entry_id := (entry_id t)(e := Some k)\<rparr>))
                       (upd_contrib c (\<lambda>x. x\<lparr>c_status := StSch\<rparr>))
      | _ \<Rightarrow> modify (\<lambda>t. t\<lparr>placed := (placed t)(e := Some o1), entry_id := (entry_id t)(e := Some k)\<rparr>)))"

definition addEntry_raw :: "towner \<Rightarrow> tentry \<Rightarrow> nat \<Rightarrow> (tt, unit) prog" where
  "addEntry_raw o1 e check =
     andthen (unschedule e)
     (andthen (fit_dates o1 e check)
     (andthen (check_end o1 e)
     (andthen (upd_sched o1 (\<lambda>x. x\<lparr>sch_entries := sch_entries x @ [e]\<rparr>))
     (andthen (place_entry o1 e)
              (reSchedule o1)))))"

definition in_session :: "tt \<Rightarrow> nat \<Rightarrow> nat \<Rightarrow> bool" where
  "in_session s i c \<longleftrightarrow> c_session (contribs s c) = Some i \<and> c \<in> set (s_contribs (sessions s i))"

definition conf_addEntry :: "tentry \<Rightarrow> nat \<Rightarrow> (tt, unit) prog" where
  "conf_addEntry e check = bnd get_st (\<lambda>s.
     if hasEntry s Event e then ret ()
     else (case e of
         ContribE c \<Rightarrow>
           if c_session (contribs s c) \<noteq> None
           then raise_exn (MaKaCError ''Cannot schedule into the event a contribution that belongs to a session'')
           else if c \<notin> set (ev_contribs s)
           then raise_exn (MaKaCError ''Cannot schedule into the event a contribution that does not belong to it'')
           else addEntry_raw Event e check
       | _ \<Rightarrow> addEntry_raw Event e check))"

definition sess_addEntry :: "nat \<Rightarrow> tentry \<Rightarrow> (tt, unit) prog" where
  "sess_addEntry i e = bnd get_st (\<lambda>s.
     if hasEntry s (InSession i) e then ret ()
     else if slot_of e = None then raise_exn (MaKaCError ''cannot be scheduled into a session'')
     else addEntry_raw (InSession i) e 2)"

text \<open>\<open>SlotSchedule.addEntry\<close> extends the slot before \<open>_addEntry\<close> looks at the dates again.\<close>

definition slot_fit_dates :: "nat \<Rightarrow> tentry \<Rightarrow> nat \<Rightarrow> (tt, unit) prog" where
  "slot_fit_dates n e check =
     andthen (bnd get_st (\<lambda>s. case e_start s e of
         None \<Rightarrow> ret ()
       | Some a \<Rightarrow> bnd (need (sl_start (slots s n))) (\<lambda>st.
           if a < st then
             (if check = 1 then raise_exn ParentTimingError
              else when_do (check = 2)
                (andthen (report (OfOwner (InSlot n)) ''OWNER_START_DATE_EXTENDED'' (InSlot n) (Some a))
                         (slot_setStartDate0 n (Some a) check)))
           else ret ())))
     (bnd get_st (\<lambda>s. case e_end s e of
         None \<Rightarrow> ret ()
       | Some b \<Rightarrow> bnd (need (sl_end (slots s n))) (\<lambda>en.
           if b > en then
             (if check = 1 then raise_exn ParentTimingError
              else when_do (check = 2)
                (andthen (report (OfOwner (InSlot n)) ''OWNER_END_DATE_EXTENDED'' (InSlot n) (Some b))
                         (slot_setEndDate n b check)))
           else ret ())))"

definition slot_addEntry :: "nat \<Rightarrow> tentry \<Rightarrow> nat \<Rightarrow> (tt, unit) prog" where
  "slot_addEntry n e check = bnd get_st (\<lambda>s.
     if hasEntry s (InSlot n) e then ret ()
     else (case e of
         ContribE c \<Rightarrow>
           (case c_session (contribs s c) of
              None \<Rightarrow> raise_exn (MaKaCError ''Cannot schedule into this session a contribution which does not belong to it'')
            | Some _ \<Rightarrow> bnd (slot_session n) (\<lambda>i.
                if \<not> in_session s i c
                then raise_exn (MaKaCError ''Cannot schedule into this session a contribution which does not belong to it'')
                else andthen (slot_fit_dates n e check) (addEntry_raw (InSlot n) e check)))
       | BreakE b \<Rightarrow> andthen (slot_fit_dates n e check) (addEntry_raw (InSlot n) e check)
       | _ \<Rightarrow> raise_exn (MaKaCError ''cannot be scheduled into a session slot'')))"

section \<open>Moving entries within a schedule\<close>

text \<open>Put entries one after the other, each at the end of the one before it.\<close>

fun chain_after :: "tentry \<Rightarrow> tentry list \<Rightarrow> (tt, unit) prog" where
  "chain_after p [] = ret ()"
| "chain_after p (e # es) = bnd get_st (\<lambda>s.
     andthen (entry_setStartDate e (e_end s p) 0 True) (chain_after e es))"

definition day_of_entry :: "towner \<Rightarrow> tentry \<Rightarrow> (tt, tentry list) prog" where
  "day_of_entry o1 e = bnd get_st (\<lambda>s. case e_start s e of
       None \<Rightarrow> raise_exn AttributeError | Some d \<Rightarrow> ret (getEntriesOnDay s (tz_off s) o1 d))"

fun list_pos :: "'a \<Rightarrow> 'a list \<Rightarrow> nat" where
  "list_pos x [] = 0"
| "list_pos x (y # ys) = (if x = y then 0 else if x \<in> set ys then Suc (list_pos x ys) else 0)"

definition moveUpEntry :: "towner \<Rightarrow> tentry \<Rightarrow> (tt, unit) prog" where
  "moveUpEntry o1 e = (case o1 of InSession _ \<Rightarrow> ret () | _ \<Rightarrow>
     bnd (day_of_entry o1 e) (\<lambda>es.
       if length es < 2 then ret ()
       else (let k = list_pos e es in
         andthen (if k = 0
           then bnd get_st (\<lambda>s. andthen (entry_setStartDate (es ! 1) (e_start s (es ! 0)) 0 True)
                  (chain_after (es ! 1) (drop 2 es @ [es ! 0])))
           else bnd get_st (\<lambda>s. andthen (entry_setStartDate e (e_start s (es ! (k - 1))) 0 True)
                  (chain_after e [es ! (k - 1)])))
         (reSchedule o1))))"

definition moveDownEntry :: "towner \<Rightarrow> tentry \<Rightarrow> (tt, unit) prog" where
  "moveDownEntry o1 e = (case o1 of InSession _ \<Rightarrow> ret () | _ \<Rightarrow>
     bnd (day_of_entry o1 e) (\<lambda>es.
       if length es < 2 then ret ()
       else (let k = list_pos e es in
         andthen (if k + 1 = length es
           then bnd get_st (\<lambda>s. andthen (entry_setStartDate (last es) (e_start s (es ! 0)) 0 True)
                  (chain_after (last es) (butlast es)))
           else bnd get_st (\<lambda>s. andthen (entry_setStartDate (es ! (k + 1)) (e_start s e) 0 True)
                  (chain_after (es ! (k + 1)) [e])))
         (reSchedule o1))))"

section \<open>Rescheduling\<close>

datatype retype = ByDuration | ByStartingTime | NoAction

definition closed_check :: "tentry \<Rightarrow> (tt, unit) prog" where
  "closed_check e = (case slot_of e of
       None \<Rightarrow> ret ()
     | Some n \<Rightarrow> bnd (slot_session n) (\<lambda>i. bnd get_st (\<lambda>s.
         if ev_closed s \<or> s_closed (sessions s i) then raise_exn EntryTimingError else ret ())))"

definition fit_entry :: "bool \<Rightarrow> tentry \<Rightarrow> (tt, unit) prog" where
  "fit_entry doFit e = when_do doFit (case slot_of e of None \<Rightarrow> ret () | Some n \<Rightarrow> slot_fit n)"

text \<open>The time from the start of an entry to \<open>diff\<close> before the start of the next one.\<close>

definition gap_duration :: "tentry \<Rightarrow> tentry \<Rightarrow> int \<Rightarrow> (tt, int) prog" where
  "gap_duration e f diff = bnd get_st (\<lambda>s. bnd (need (e_start s f)) (\<lambda>b. bnd (need (e_start s e)) (\<lambda>a.
     if b - a - diff < 0 then raise_exn EntryTimingError else ret (b - a - diff))))"

fun redo_durations :: "int \<Rightarrow> bool \<Rightarrow> tentry list \<Rightarrow> (tt, unit) prog" where
  "redo_durations diff doFit [] = ret ()"
| "redo_durations diff doFit [e] = andthen (closed_check e) (andthen (fit_entry doFit e)
     (bnd get_st (\<lambda>s. if e_dur s e < 0 then raise_exn EntryTimingError
        else entry_setDuration e (e_dur s e) 2)))"
| "redo_durations diff doFit (e # f # es) = andthen (closed_check e) (andthen (fit_entry doFit e)
     (bnd (gap_duration e f diff) (\<lambda>dur.
        andthen (entry_setDuration e dur 2) (redo_durations diff doFit (f # es)))))"

fun redo_starts :: "int \<Rightarrow> bool \<Rightarrow> int \<Rightarrow> tentry list \<Rightarrow> (tt, unit) prog" where
  "redo_starts diff doFit st [] = ret ()"
| "redo_starts diff doFit st (e # es) = andthen (closed_check e) (andthen (fit_entry doFit e)
     (andthen (entry_setStartDate e (Some st) 2 True)
     (bnd get_st (\<lambda>s. bnd (need (e_end s e)) (\<lambda>b. redo_starts diff doFit (b + diff) es)))))"

definition rescheduleTimes :: "towner \<Rightarrow> retype \<Rightarrow> int \<Rightarrow> int \<Rightarrow> bool \<Rightarrow> (tt, unit) prog" where
  "rescheduleTimes o1 ty diff day doFit = (case o1 of InSlot _ \<Rightarrow> ret () | _ \<Rightarrow> bnd get_st (\<lambda>s.
     let es = getEntriesOnDay s (tz_off s) o1 day in
     (case ty of
        ByDuration \<Rightarrow> redo_durations diff doFit es
      | ByStartingTime \<Rightarrow> bnd (sch_start o1) (\<lambda>a.
          redo_starts diff doFit (replace_time (tz_off s) day (local_hour (tz_off s) a) (local_minute (tz_off s) a)) es)
      | NoAction \<Rightarrow> when_do doFit (for_each es (\<lambda>e. andthen (closed_check e) (fit_entry True e))))))"

text \<open>\<open>SessionSlot.recalculateTimes\<close>.\<close>

fun recalc_durations :: "nat \<Rightarrow> int \<Rightarrow> tentry list \<Rightarrow> (tt, unit) prog" where
  "recalc_durations n diff [] = ret ()"
| "recalc_durations n diff [e] = bnd get_st (\<lambda>s. bnd (need (sl_end (slots s n))) (\<lambda>b. bnd (need (e_start s e)) (\<lambda>a.
     if b - a < 0 then raise_exn EntryTimingError
     else andthen (entry_setDuration e (b - a) 2)
       (bnd get_st (\<lambda>t. bnd (need (sl_end (slots t n))) (\<lambda>en. bnd (need (e_end t e)) (\<lambda>ee.
          when_do (en < ee) (slot_setEndDate n ee 2))))))))"
| "recalc_durations n diff (e # f # es) = bnd (gap_duration e f diff) (\<lambda>dur.
     andthen (entry_setDuration e dur 2) (recalc_durations n diff (f # es)))"

fun recalc_starts :: "int \<Rightarrow> int \<Rightarrow> tentry list \<Rightarrow> (tt, int) prog" where
  "recalc_starts diff st [] = ret st"
| "recalc_starts diff st (e # es) = andthen (entry_setStartDate e (Some st) 0 False)
     (bnd get_st (\<lambda>s. bnd (need (e_end s e)) (\<lambda>b. recalc_starts diff (b + diff) es)))"

definition recalculateTimes :: "nat \<Rightarrow> retype \<Rightarrow> int \<Rightarrow> (tt, unit) prog" where
  "recalculateTimes n ty diff = bnd get_st (\<lambda>s. let es = entries_of s (InSlot n) in
     (case ty of
        ByDuration \<Rightarrow> recalc_durations n diff es
      | ByStartingTime \<Rightarrow> bnd (need (sl_start (slots s n))) (\<lambda>a. bnd (recalc_starts diff a es) (\<lambda>st.
          when_do (es \<noteq> []) (bnd get_st (\<lambda>t. bnd (need (sl_end (slots t n))) (\<lambda>en.
            when_do (en < st) (slot_setEndDate n st 2))))))
      | NoAction \<Rightarrow> ret ()))"

text \<open>\<open>calculateDayEndDate\<close> for a day in the time zone of the event.\<close>

fun max_end_on :: "tt \<Rightarrow> tentry list \<Rightarrow> int \<Rightarrow> int" where
  "max_end_on s [] d = d"
| "max_end_on s (e # es) d = max_end_on s es (case e_end s e of None \<Rightarrow> d | Some b \<Rightarrow> if b > d then b else d)"

definition calculateDayEndDate :: "towner \<Rightarrow> int \<Rightarrow> (tt, int) prog" where
  "calculateDayEndDate o1 day = bnd get_st (\<lambda>s. let off = tz_off s; es = getEntriesOnDay s off o1 day in
     if es = [] then bnd (sch_start o1) (\<lambda>a. ret (replace_time off day (local_hour off a) (local_minute off a)))
     else (let m = max_end_on s es (replace_time off day 0 0) in
       ret (if local_day off m \<noteq> local_day off day then replace_time off day 23 59 else m)))"

section \<open>Sessions, slots and contributions\<close>

definition sess_addSlot :: "nat \<Rightarrow> nat \<Rightarrow> (tt, unit) prog" where
  "sess_addSlot i n =
     andthen (upd_session i (\<lambda>x. x\<lparr>s_slots := s_slots x @ [n]\<rparr>))
     (andthen (sess_fit i)
     (andthen (sess_addEntry i (SessE n))
              (conf_addEntry (ConfE n) 2)))"

text \<open>\<open>_removeSlot\<close> and \<open>SessionSlot.delete\<close>, which finds the slot gone from the session.\<close>

definition sess_dropSlot :: "nat \<Rightarrow> nat \<Rightarrow> (tt, unit) prog" where
  "sess_dropSlot i n =
     andthen (upd_session i (\<lambda>x. x\<lparr>s_slots := remove1 n (s_slots x)\<rparr>))
     (andthen (removeEntry (InSession i) (SessE n))
     (andthen (removeEntry Event (ConfE n))
     (andthen (clear_schedule (InSlot n))
              (upd_slot n (\<lambda>x. x\<lparr>sl_session := None\<rparr>)))))"

definition sess_removeSlot :: "nat \<Rightarrow> nat \<Rightarrow> bool \<Rightarrow> (tt, unit) prog" where
  "sess_removeSlot i n force = bnd get_st (\<lambda>s. let sl = s_slots (sessions s i) in
     if n \<notin> set sl then ret ()
     else if length sl = 1 \<and> \<not> force then raise_exn (MaKaCError ''A session must have at least one slot'')
     else andthen (sess_dropSlot i n) (sess_fit i))"

definition sess_removeContribution :: "nat \<Rightarrow> nat \<Rightarrow> (tt, unit) prog" where
  "sess_removeContribution i c = bnd get_st (\<lambda>s. when_do (in_session s i c)
     (andthen (unschedule (ContribE c))
     (andthen (upd_session i (\<lambda>x. x\<lparr>s_contribs := remove1 c (s_contribs x)\<rparr>))
              (upd_contrib c (\<lambda>x. x\<lparr>c_session := None\<rparr>)))))"

definition contrib_setSession :: "nat \<Rightarrow> nat option \<Rightarrow> (tt, unit) prog" where
  "contrib_setSession c new = bnd get_st (\<lambda>s.
     if c_session (contribs s c) = new then ret ()
     else andthen (unschedule (ContribE c))
       (andthen (case c_session (contribs s c) of None \<Rightarrow> ret () | Some i \<Rightarrow> sess_removeContribution i c)
       (andthen (upd_contrib c (\<lambda>x. x\<lparr>c_session := new\<rparr>))
       (case new of None \<Rightarrow> ret ()
        | Some j \<Rightarrow> bnd get_st (\<lambda>t. when_do (\<not> in_session t j c)
            (upd_session j (\<lambda>x. x\<lparr>s_contribs := s_contribs x @ [c]\<rparr>)))))))"

definition contrib_withdraw :: "nat \<Rightarrow> (tt, unit) prog" where
  "contrib_withdraw c = bnd get_st (\<lambda>s.
     if c_status (contribs s c) = StWithdrawn then upd_contrib c (\<lambda>x. x\<lparr>c_status := StNotSch\<rparr>)
     else andthen (unschedule (ContribE c)) (upd_contrib c (\<lambda>x. x\<lparr>c_status := StWithdrawn\<rparr>)))"

definition contrib_delete :: "nat \<Rightarrow> (tt, unit) prog" where
  "contrib_delete c = bnd get_st (\<lambda>s. when_do (c \<in> set (ev_contribs s))
     (andthen (contrib_setSession c None)
     (andthen (modify (\<lambda>t. t\<lparr>ev_contribs := remove1 c (ev_contribs t)\<rparr>))
              (upd_contrib c (\<lambda>x. x\<lparr>c_status := StNone\<rparr>)))))"

text \<open>\<open>Conference.removeSession\<close> and \<open>Session.delete\<close>.\<close>

definition conf_removeSession :: "nat \<Rightarrow> (tt, unit) prog" where
  "conf_removeSession i = bnd get_st (\<lambda>s. when_do (i \<in> set (sess_ids s))
     (andthen (modify (\<lambda>t. t\<lparr>sess_ids := remove1 i (sess_ids t)\<rparr>))
     (andthen (for_each (s_contribs (sessions s i)) (sess_removeContribution i))
              (for_each (s_slots (sessions s i)) (sess_dropSlot i)))))"

text \<open>\<open>Conference.addSession\<close> with its default check, for a session that has no slot yet.\<close>

definition conf_addSession :: "nat \<Rightarrow> (tt, unit) prog" where
  "conf_addSession i = bnd get_st (\<lambda>s. let x = sessions s i in
     andthen (bnd (isOutside Event (Some (s_start x)) (Some (s_end x))) (\<lambda>out. when_do out
       (andthen (when_do (ev_start s > s_start x) (conf_setStartDate (s_start x) 1 False))
                (bnd get_st (\<lambda>t. when_do (ev_end t < s_end x) (conf_setEndDate (s_end x) 1))))))
     (modify (\<lambda>t. t\<lparr>sess_ids := sess_ids t @ [i]\<rparr>)))"

end
