(* ===== verification/TT_Services.thy ===== *)
theory TT_Services
  imports TT_Ops
begin

text \<open>
  The operations the timetable page calls (\<open>MaKaC/services/implementation/schedule.py\<close>), with the
  check flag 2 of \<open>_getCheckFlag\<close>, and the reachable states of a timetable.  An operation is a
  request of its own: one that raises leaves the timetable as it was.
\<close>

section \<open>Breaks\<close>

definition new_break :: "int \<Rightarrow> int \<Rightarrow> (tt, nat) prog" where
  "new_break start dur = bnd get_st (\<lambda>s. let b = next_break s in
     andthen (modify (\<lambda>t. t\<lparr>breaks := (breaks t)(b := \<lparr>b_start = Some start, b_dur = dur\<rparr>),
                           next_break := Suc b, placed := (placed t)(BreakE b := None)\<rparr>))
             (ret b))"

text \<open>\<open>BreakTimeSchEntry.setValues\<close> with a start and a duration and \<open>check=2\<close>.\<close>

definition break_setValues :: "nat \<Rightarrow> int \<Rightarrow> int \<Rightarrow> (tt, unit) prog" where
  "break_setValues b start dur =
     andthen (break_setStartDate b (Some start) 0)
     (andthen (break_setDuration b dur 0)
     (bnd get_st (\<lambda>s. case placed s (BreakE b) of
         None \<Rightarrow> ret ()
       | Some o1 \<Rightarrow> bnd (isOutside o1 (b_start (breaks s b)) (b_end (breaks s b))) (\<lambda>out.
           when_do out (andthen (synchro (BreakE b))
             (case o1 of InSlot n \<Rightarrow> slot_fit n | _ \<Rightarrow> ret ()))))))"

definition svc_addBreak :: "nat option \<Rightarrow> int \<Rightarrow> int \<Rightarrow> (tt, unit) prog" where
  "svc_addBreak where_to start dur = bnd (new_break start dur) (\<lambda>b. case where_to of
       None \<Rightarrow> conf_addEntry (BreakE b) 2
     | Some n \<Rightarrow> slot_addEntry n (BreakE b) 2)"

text \<open>
  A break of a slot that gets another day goes to the timetable of the event; the days are compared
  in UTC.
\<close>

definition svc_editBreak :: "nat \<Rightarrow> int \<Rightarrow> int \<Rightarrow> (tt, unit) prog" where
  "svc_editBreak b start dur = bnd get_st (\<lambda>s. bnd (need (b_start (breaks s b))) (\<lambda>old.
     andthen (break_setValues b start dur)
     (case placed s (BreakE b) of
        Some (InSlot n) \<Rightarrow> when_do (local_day utc_off old \<noteq> local_day utc_off start)
          (andthen (unschedule (BreakE b))
          (andthen (break_setStartDate b (Some start) 2)
                   (conf_addEntry (BreakE b) 2)))
      | _ \<Rightarrow> ret ())))"

definition svc_deleteEntry :: "tentry \<Rightarrow> (tt, unit) prog" where
  "svc_deleteEntry e = unschedule e"

section \<open>Contributions\<close>

text \<open>\<open>Conference.addContribution\<close> and, for a session, \<open>Session.addContribution\<close>, of a new contribution.\<close>

definition new_contrib :: "nat option \<Rightarrow> (tt, nat) prog" where
  "new_contrib sess = bnd get_st (\<lambda>s. let c = next_contrib s in
     andthen (modify (\<lambda>t. t\<lparr>contribs := (contribs t)(c := \<lparr>c_start = None, c_dur = 0, c_session = None, c_status = StNotSch\<rparr>),
                           next_contrib := Suc c, ev_contribs := ev_contribs t @ [c],
                           placed := (placed t)(ContribE c := None)\<rparr>))
     (andthen (case sess of None \<Rightarrow> ret () | Some i \<Rightarrow> contrib_setSession c (Some i))
              (ret c)))"

text \<open>
  \<open>ScheduleEditContributionBase\<close> and its four uses: the duration, the start when there is one to set,
  and, for a new contribution, its entry.
\<close>

definition svc_editContribution :: "nat \<Rightarrow> int \<Rightarrow> int option \<Rightarrow> (tt, unit) prog" where
  "svc_editContribution c dur start =
     andthen (contrib_setDuration c dur 2)
             (case start of None \<Rightarrow> ret () | Some d \<Rightarrow> contrib_setStartDate c (Some d) 2)"

definition svc_addContribution :: "nat option \<Rightarrow> int \<Rightarrow> int option \<Rightarrow> (tt, unit) prog" where
  "svc_addContribution where_to dur start = (case where_to of
       None \<Rightarrow> bnd (new_contrib None) (\<lambda>c. andthen (svc_editContribution c dur start)
         (when_do (start \<noteq> None) (conf_addEntry (ContribE c) 2)))
     | Some n \<Rightarrow> bnd (slot_session n) (\<lambda>i. bnd (new_contrib (Some i)) (\<lambda>c.
         andthen (svc_editContribution c dur start) (slot_addEntry n (ContribE c) 2))))"

text \<open>\<open>ScheduleContributions\<close>: each contribution goes to the end of the day.\<close>

definition svc_schedule :: "towner \<Rightarrow> int \<Rightarrow> nat list \<Rightarrow> (tt, unit) prog" where
  "svc_schedule o1 day cs = for_each cs (\<lambda>c.
     bnd (calculateDayEndDate o1 day) (\<lambda>d.
     andthen (contrib_setStartDate c (Some d) 2)
     (case o1 of
        InSlot n \<Rightarrow> bnd (slot_session n) (\<lambda>i. bnd get_st (\<lambda>s.
          andthen (contrib_setDuration c (s_contribDuration (sessions s i)) 2)
                  (slot_addEntry n (ContribE c) 2)))
      | _ \<Rightarrow> conf_addEntry (ContribE c) 2)))"

text \<open>In a meeting a contribution taken from the timetable of the event is deleted.\<close>

definition svc_deleteContribution :: "nat \<Rightarrow> bool \<Rightarrow> (tt, unit) prog" where
  "svc_deleteContribution c meeting = andthen (unschedule (ContribE c)) (when_do meeting (contrib_delete c))"

section \<open>Dates of an entry\<close>

text \<open>
  \<open>ModifyStartEndDate\<close>: with \<open>reschedule\<close> the later entries of the same day follow; they are taken from
  the timetable before the change.
\<close>

definition entries_below :: "tt \<Rightarrow> towner \<Rightarrow> tentry \<Rightarrow> tentry list" where
  "entries_below s o1 e =
     (let es = entries_of s o1; rest = drop (Suc (list_pos e es)) es in
      takeWhile (\<lambda>f. local_day (tz_off s) (date_key s f) = local_day (tz_off s) (date_key s e))
        (dropWhile (\<lambda>f. date_key s e \<ge> date_key s f) rest))"

definition svc_modifyDates :: "tentry \<Rightarrow> int \<Rightarrow> int \<Rightarrow> bool \<Rightarrow> (tt, unit) prog" where
  "svc_modifyDates e start fin reschedule = bnd get_st (\<lambda>s. case placed s e of
       None \<Rightarrow> raise_exn AttributeError
     | Some o1 \<Rightarrow>
         andthen (case slot_of e of None \<Rightarrow> ret () | Some n \<Rightarrow> bnd (slot_session n) (\<lambda>i.
            if ev_closed s \<or> s_closed (sessions s i) then raise_exn (ServiceError ''session is closed'') else ret ()))
         (andthen (entry_setDuration e (fin - start) 2)
         (andthen (entry_setStartDate e (Some start) 2 True)
         (when_do reschedule (bnd get_st (\<lambda>t.
            bnd (need (e_start s e)) (\<lambda>old. bnd (need (e_start t e)) (\<lambda>new.
              sch_moveEntriesBelow o1 ((new - old) + (e_dur t e - e_dur s e)) (entries_below s o1 e)))))))))"

definition svc_moveUpDown :: "towner \<Rightarrow> nat \<Rightarrow> bool \<Rightarrow> (tt, unit) prog" where
  "svc_moveUpDown o1 k up = bnd get_st (\<lambda>s. case getEntryById s o1 k of
       None \<Rightarrow> raise_exn AttributeError
     | Some e \<Rightarrow> if up then moveUpEntry o1 e else moveDownEntry o1 e)"

section \<open>Moving an entry to another schedule\<close>

text \<open>
  \<open>MoveEntryBase\<close>.  The new time of a move into the timetable of the event is the given one or the old
  time of day on the target day; the caller passes the instant.
\<close>

definition svc_moveToSlot :: "tentry \<Rightarrow> nat \<Rightarrow> nat \<Rightarrow> int option \<Rightarrow> (tt, unit) prog" where
  "svc_moveToSlot e i n newTime = bnd get_st (\<lambda>s.
     if i \<notin> set (sess_ids s) then raise_exn (NoReportError ''the session has been deleted'')
     else if ev_closed s \<or> s_closed (sessions s i) then raise_exn (ServiceError ''session is closed'')
     else if n \<notin> set (s_slots (sessions s i)) then raise_exn (NoReportError ''the session slot has been deleted'')
     else andthen (unschedule e)
       (andthen (case e of ContribE c \<Rightarrow> contrib_setSession c (Some i) | _ \<Rightarrow> ret ())
       (andthen (case newTime of
            Some d \<Rightarrow> entry_setStartDate e (Some d) 2 False
          | None \<Rightarrow> bnd (calculateEndDate (InSlot n)) (\<lambda>d. entry_setStartDate e (Some d) 2 False))
       (slot_addEntry n e 2))))"

definition svc_moveToEvent :: "tentry \<Rightarrow> int \<Rightarrow> (tt, unit) prog" where
  "svc_moveToEvent e newStart =
     andthen (unschedule e)
     (andthen (entry_setStartDate e (Some newStart) 2 False)
     (andthen (case e of ContribE c \<Rightarrow> contrib_setSession c None | _ \<Rightarrow> ret ())
              (conf_addEntry e 2)))"

section \<open>Sessions and slots\<close>

definition new_slot :: "nat \<Rightarrow> (tt, nat) prog" where
  "new_slot i = bnd get_st (\<lambda>s. let n = next_slot s in
     andthen (modify (\<lambda>t. t\<lparr>slots := (slots t)(n := \<lparr>sl_session = Some i, sl_start = None, sl_dur = 60\<rparr>),
                           next_slot := Suc n,
                           scheds := (scheds t)(InSlot n := \<lparr>sch_entries = [], entry_gen = 0\<rparr>),
                           placed := (placed t)(SessE n := None, ConfE n := None)\<rparr>))
             (ret n))"

text \<open>
  \<open>ConferenceScheduleAddSession\<close>.  \<open>Session.setValues\<close> sets the dates while the session has no event; an
  end not after the start moves the start to the end.  The first slot takes the session's time on
  its first day.
\<close>

definition first_slot_end :: "(int \<Rightarrow> int) \<Rightarrow> int \<Rightarrow> int \<Rightarrow> int" where
  "first_slot_end off a b = (if local_day off b > local_day off a then replace_time off a 23 59 else b)"

definition svc_addSession :: "int \<Rightarrow> int \<Rightarrow> (tt, unit) prog" where
  "svc_addSession start fin = bnd get_st (\<lambda>s. let i = next_session s; a = (if fin \<le> start then fin else start) in
     andthen (modify (\<lambda>t. t\<lparr>sessions := (sessions t)(i := \<lparr>s_start = a, s_dur = fin - a, s_slots = [],
            s_contribs = [], s_contribDuration = 1200, s_closed = False\<rparr>), next_session := Suc i,
            scheds := (scheds t)(InSession i := \<lparr>sch_entries = [], entry_gen = 0\<rparr>)\<rparr>))
     (andthen (conf_addSession i)
     (bnd (new_slot i) (\<lambda>n.
       andthen (slot_setStartDate n (Some a) 2 False True)
       (bnd get_st (\<lambda>t. let e1 = first_slot_end (tz_off t) (s_start (sessions t i)) (s_end (sessions t i));
              dur = e1 - s_start (sessions t i) in
         andthen (slot_setDuration n (if dur > 86400 then 86400 else dur) 1)
                 (sess_addSlot i n)))))))"

text \<open>\<open>SessionSlot.setValues\<close> with both dates, and the services that make and change a slot with it.\<close>

definition slot_setValues :: "nat \<Rightarrow> int \<Rightarrow> int \<Rightarrow> bool \<Rightarrow> (tt, unit) prog" where
  "slot_setValues n start fin move =
     andthen (slot_setDates n start fin 2 move) (checkSanity (InSlot n))"

definition svc_addSlot :: "nat \<Rightarrow> int \<Rightarrow> int \<Rightarrow> (tt, unit) prog" where
  "svc_addSlot i start fin = bnd (new_slot i) (\<lambda>n.
     andthen (slot_setValues n start fin False) (sess_addSlot i n))"

definition svc_editSlot :: "nat \<Rightarrow> int \<Rightarrow> int \<Rightarrow> (tt, unit) prog" where
  "svc_editSlot n start fin = bnd get_st (\<lambda>s. slot_setValues n start fin (entries_of s (InSlot n) \<noteq> []))"

definition svc_deleteSlot :: "nat \<Rightarrow> nat \<Rightarrow> (tt, unit) prog" where
  "svc_deleteSlot i n = bnd get_st (\<lambda>s.
     if length (s_slots (sessions s i)) > 1 then sess_removeSlot i n False else conf_removeSession i)"

definition svc_deleteSession :: "nat \<Rightarrow> (tt, unit) prog" where
  "svc_deleteSession i = bnd get_st (\<lambda>s.
     if ev_closed s \<or> s_closed (sessions s i) then raise_exn (ServiceError ''session is closed'') else conf_removeSession i)"

section \<open>Reachable timetables\<close>

datatype tt_request =
    AddBreak "nat option" int int
  | EditBreak nat int int
  | DeleteBreak nat
  | NewContribution "nat option"
  | AddContribution "nat option" int "int option"
  | EditContribution nat int "int option"
  | ScheduleContributions towner int "nat list"
  | DeleteContribution nat bool
  | WithdrawContribution nat
  | ModifyDates tentry int int bool
  | MoveUpDown towner nat bool
  | MoveToSlot tentry nat nat "int option"
  | MoveToEvent tentry int
  | AddSession int int
  | AddSlot nat int int
  | EditSlot nat int int
  | DeleteSlot nat nat
  | DeleteSession nat
  | SetDates int int bool
  | Reschedule towner retype int int bool
  | Recalculate nat retype int
  | FitSlot nat
  | FitEvent

fun tt_run :: "tt_request \<Rightarrow> (tt, unit) prog" where
  "tt_run (AddBreak w a d) = svc_addBreak w a d"
| "tt_run (EditBreak b a d) = svc_editBreak b a d"
| "tt_run (DeleteBreak b) = svc_deleteEntry (BreakE b)"
| "tt_run (NewContribution i) = bnd (new_contrib i) (\<lambda>_. ret ())"
| "tt_run (AddContribution w d a) = svc_addContribution w d a"
| "tt_run (EditContribution c d a) = svc_editContribution c d a"
| "tt_run (ScheduleContributions o1 day cs) = svc_schedule o1 day cs"
| "tt_run (DeleteContribution c m) = svc_deleteContribution c m"
| "tt_run (WithdrawContribution c) = contrib_withdraw c"
| "tt_run (ModifyDates e a b r) = svc_modifyDates e a b r"
| "tt_run (MoveUpDown o1 k up) = svc_moveUpDown o1 k up"
| "tt_run (MoveToSlot e i n d) = svc_moveToSlot e i n d"
| "tt_run (MoveToEvent e d) = svc_moveToEvent e d"
| "tt_run (AddSession a b) = svc_addSession a b"
| "tt_run (AddSlot i a b) = svc_addSlot i a b"
| "tt_run (EditSlot n a b) = svc_editSlot n a b"
| "tt_run (DeleteSlot i n) = svc_deleteSlot i n"
| "tt_run (DeleteSession i) = svc_deleteSession i"
| "tt_run (SetDates a b m) = conf_setDates a b m"
| "tt_run (Reschedule o1 ty diff day f) = rescheduleTimes o1 ty diff day f"
| "tt_run (Recalculate n ty diff) = recalculateTimes n ty diff"
| "tt_run (FitSlot n) = slot_fit n"
| "tt_run FitEvent = conf_fit"

text \<open>
  The objects a request names exist: contributions of the event, sessions of the event, slots of a
  session, breaks and entries in a schedule.
\<close>

definition slot_exists :: "tt \<Rightarrow> nat \<Rightarrow> bool" where
  "slot_exists s n \<longleftrightarrow> (\<exists>i \<in> set (sess_ids s). n \<in> set (s_slots (sessions s i)))"

fun owner_exists :: "tt \<Rightarrow> towner \<Rightarrow> bool" where
  "owner_exists s Event = True"
| "owner_exists s (InSession i) = (i \<in> set (sess_ids s))"
| "owner_exists s (InSlot n) = slot_exists s n"

fun tt_names :: "tt \<Rightarrow> tt_request \<Rightarrow> bool" where
  "tt_names s (AddBreak w a d) = (case w of None \<Rightarrow> True | Some n \<Rightarrow> slot_exists s n)"
| "tt_names s (EditBreak b a d) = (placed s (BreakE b) \<noteq> None)"
| "tt_names s (DeleteBreak b) = (placed s (BreakE b) \<noteq> None)"
| "tt_names s (AddContribution w d a) = (case w of None \<Rightarrow> True | Some n \<Rightarrow> slot_exists s n)"
| "tt_names s (EditContribution c d a) = (c \<in> set (ev_contribs s))"
| "tt_names s (NewContribution i) = (case i of None \<Rightarrow> True | Some j \<Rightarrow> j \<in> set (sess_ids s))"
| "tt_names s (ScheduleContributions o1 day cs) = (owner_exists s o1 \<and> set cs \<subseteq> set (ev_contribs s) \<and>
     (case o1 of InSession _ \<Rightarrow> False | _ \<Rightarrow> True))"
| "tt_names s (DeleteContribution c m) = (c \<in> set (ev_contribs s))"
| "tt_names s (WithdrawContribution c) = (c \<in> set (ev_contribs s))"
| "tt_names s (ModifyDates e a b r) = (placed s e \<noteq> None)"
| "tt_names s (MoveUpDown o1 k up) = owner_exists s o1"
| "tt_names s (MoveToSlot e i n d) = (placed s e \<noteq> None \<and> slot_of e = None)"
| "tt_names s (MoveToEvent e d) = (placed s e \<noteq> None \<and> slot_of e = None)"
| "tt_names s (AddSlot i a b) = (i \<in> set (sess_ids s))"
| "tt_names s (EditSlot n a b) = slot_exists s n"
| "tt_names s (DeleteSlot i n) = (i \<in> set (sess_ids s) \<and> n \<in> set (s_slots (sessions s i)))"
| "tt_names s (DeleteSession i) = (i \<in> set (sess_ids s))"
| "tt_names s (Recalculate n ty diff) = slot_exists s n"
| "tt_names s (FitSlot n) = slot_exists s n"
| "tt_names s (Reschedule o1 ty diff day f) = owner_exists s o1"
| "tt_names s _ = True"

definition tt_request_state :: "tt_request \<Rightarrow> tt \<Rightarrow> tt" where
  "tt_request_state q s = (if tt_names s q then
     (case tt_run q (s\<lparr>auto_ops := []\<rparr>) of (Inr _, t) \<Rightarrow> t | (Inl _, t) \<Rightarrow> s) else s)"

definition new_event :: "int \<Rightarrow> int \<Rightarrow> (int \<Rightarrow> int) \<Rightarrow> tt" where
  "new_event start fin off = \<lparr>ev_start = start, ev_end = fin, tz_off = off, ev_closed = False, ev_contribs = [],
     sess_ids = [], sessions = (\<lambda>_. \<lparr>s_start = start, s_dur = 60, s_slots = [], s_contribs = [], s_contribDuration = 1200, s_closed = False\<rparr>),
     next_session = 0, slots = (\<lambda>_. \<lparr>sl_session = None, sl_start = None, sl_dur = 60\<rparr>), next_slot = 0,
     contribs = (\<lambda>_. \<lparr>c_start = None, c_dur = 0, c_session = None, c_status = StNotSch\<rparr>), next_contrib = 0,
     breaks = (\<lambda>_. \<lparr>b_start = None, b_dur = 900\<rparr>), next_break = 0,
     scheds = (\<lambda>_. \<lparr>sch_entries = [], entry_gen = 0\<rparr>), placed = (\<lambda>_. None), entry_id = (\<lambda>_. None),
     auto_ops = [], trash = []\<rparr>"

inductive tt_reach :: "tt \<Rightarrow> bool" where
  start: "start \<le> fin \<Longrightarrow> tt_reach (new_event start fin off)"
| request: "tt_reach s \<Longrightarrow> tt_reach (tt_request_state q s)"
| set_closed: "tt_reach s \<Longrightarrow> tt_reach (s\<lparr>ev_closed := b\<rparr>)"

end
