(* ===== verification/TT_Frame.thy ===== *)
theory TT_Frame
  imports TT_Services
begin

text \<open>
  What changes of dates leave alone.  Every method of \<open>TT_Dates\<close>, when it returns, has only changed
  dates, durations, the order of the entries and the report: no entry enters or leaves a schedule, and
  every schedule that was sorted still is.
\<close>

section \<open>Programs that return in a state of \<open>Q\<close>\<close>

definition passes :: "('s \<Rightarrow> bool) \<Rightarrow> ('s \<Rightarrow> bool) \<Rightarrow> ('s, 'a) prog \<Rightarrow> bool" where
  "passes P Q m \<longleftrightarrow> (\<forall>s x t. P s \<longrightarrow> m s = (Inr x, t) \<longrightarrow> Q t)"

definition reads :: "('s, 'a) prog \<Rightarrow> bool" where
  "reads m \<longleftrightarrow> (\<forall>s. snd (m s) = s)"

named_theorems pass_intros \<open>what programs do to the frame\<close>
named_theorems read_intros \<open>programs that do not write\<close>

lemma passesI: "(\<And>s x t. P s \<Longrightarrow> m s = (Inr x, t) \<Longrightarrow> Q t) \<Longrightarrow> passes P Q m"
  by (simp add: passes_def)

lemma passesD: "passes P Q m \<Longrightarrow> P s \<Longrightarrow> m s = (Inr x, t) \<Longrightarrow> Q t"
  by (simp add: passes_def)

lemma passes_weaken: "passes P Q m \<Longrightarrow> (\<And>s. P' s \<Longrightarrow> P s) \<Longrightarrow> (\<And>s. Q s \<Longrightarrow> Q' s) \<Longrightarrow> passes P' Q' m"
  unfolding passes_def by blast

lemma passes_bnd: "passes P Q m \<Longrightarrow> (\<And>x. passes Q R (f x)) \<Longrightarrow> passes P R (bnd m f)"
  unfolding passes_def bnd_Inr by blast

lemma passes_andthen: "passes P Q m \<Longrightarrow> passes Q R k \<Longrightarrow> passes P R (andthen m k)"
  unfolding passes_def andthen_Inr by blast

lemma passes_get: "(\<And>s. P s \<Longrightarrow> passes (\<lambda>t. t = s) Q (f s)) \<Longrightarrow> passes P Q (bnd get_st f)"
  by (auto simp: passes_def)

lemma passes_at: "passes P Q m \<Longrightarrow> P s \<Longrightarrow> passes (\<lambda>t. t = s) Q m"
  by (auto simp: passes_def)

lemma passes_modify: "(\<And>s. P s \<Longrightarrow> Q (f s)) \<Longrightarrow> passes P Q (modify f)"
  by (auto simp: passes_def)

lemma passes_basic [pass_intros]:
  "passes P P (ret x)" "passes P Q (raise_exn e)" "passes P P get_st" "passes P P (gets g)" "passes P P (lift_res r)"
  by (auto simp: passes_def)

lemma passes_step [pass_intros]: "passes P P m \<Longrightarrow> (\<And>x. passes P P (f x)) \<Longrightarrow> passes P P (bnd m f)"
  by (rule passes_bnd)

lemma passes_seq [pass_intros]: "passes P P m \<Longrightarrow> passes P P k \<Longrightarrow> passes P P (andthen m k)"
  by (rule passes_andthen)

lemma passes_when [pass_intros]: "passes P P m \<Longrightarrow> passes P P (when_do b m)"
  by (auto simp: passes_def)

lemma passes_when_if: "(b \<Longrightarrow> passes P P m) \<Longrightarrow> passes P P (when_do b m)"
  by (auto simp: passes_def)

lemma passes_if [pass_intros]: "(b \<Longrightarrow> passes P Q m) \<Longrightarrow> (\<not> b \<Longrightarrow> passes P Q k) \<Longrightarrow> passes P Q (if b then m else k)"
  by simp

lemma passes_option [pass_intros]:
  "(v = None \<Longrightarrow> passes P Q m) \<Longrightarrow> (\<And>x. v = Some x \<Longrightarrow> passes P Q (f x)) \<Longrightarrow>
   passes P Q (case v of None \<Rightarrow> m | Some x \<Rightarrow> f x)"
  by (cases v) auto

lemma passes_list [pass_intros]:
  "(v = [] \<Longrightarrow> passes P Q m) \<Longrightarrow> (\<And>x xs. v = x # xs \<Longrightarrow> passes P Q (f x xs)) \<Longrightarrow>
   passes P Q (case v of [] \<Rightarrow> m | x # xs \<Rightarrow> f x xs)"
  by (cases v) auto

lemma passes_for_each [pass_intros]: "(\<And>x. x \<in> set xs \<Longrightarrow> passes P P (f x)) \<Longrightarrow> passes P P (for_each xs f)"
  by (induction xs) (auto intro!: passes_seq passes_basic)

lemma passes_reads: "reads m \<Longrightarrow> passes P P m"
  unfolding passes_def reads_def by (metis snd_conv)

lemma reads_run: "reads m \<Longrightarrow> m s = (r, t) \<Longrightarrow> t = s"
  unfolding reads_def by (metis snd_conv)

lemma reads_basic [read_intros]:
  "reads (ret x)" "reads (raise_exn e)" "reads get_st" "reads (gets g)" "reads (lift_res r)"
  by (simp_all add: reads_def)

lemma reads_bnd [read_intros]:
  assumes m: "reads m" and f: "\<And>x. reads (f x)"
  shows "reads (bnd m f)"
  unfolding reads_def
proof
  fix s
  obtain r t where run: "m s = (r, t)" by fastforce
  with m have "t = s" by (simp add: reads_def) (metis snd_conv)
  then show "snd (bnd m f s) = s" using run f by (cases r) (simp_all add: reads_def)
qed

lemma reads_control [read_intros]:
  "reads m \<Longrightarrow> reads k \<Longrightarrow> reads (if b then m else k)"
  "reads m \<Longrightarrow> (\<And>x. reads (f x)) \<Longrightarrow> reads (case v of None \<Rightarrow> m | Some x \<Rightarrow> f x)"
  "reads m \<Longrightarrow> (\<And>x xs. reads (g x xs)) \<Longrightarrow> reads (case w of [] \<Rightarrow> m | x # xs \<Rightarrow> g x xs)"
  by (cases v; cases w; simp)+

lemma reads_need [read_intros]: "reads (need x)"
  unfolding need_def by (intro read_intros)

lemma reads_sch [read_intros]: "reads (sch_start o1)" "reads (sch_end o1)" "reads (slot_session n)"
  unfolding sch_start_def sch_end_def slot_session_def by (intro read_intros)+

lemma reads_max_end [read_intros]: "reads (max_end es d)"
  by (induction es arbitrary: d) (simp_all only: max_end.simps, (intro read_intros | assumption)+)

lemma reads_dates [read_intros]:
  "reads (calculateEndDate o1)" "reads (calculateStartDate o1)" "reads (hasEntriesBefore o1 d)"
  unfolding calculateEndDate_def calculateStartDate_def hasEntriesBefore_def by (intro read_intros)+

lemma reads_after [read_intros]: "reads (hasEntriesAfter o1 d)"
  unfolding hasEntriesAfter_def by (intro read_intros)

lemma reads_sanity [read_intros]: "reads (checkSanity o1)" "reads (outside_date o1 a)"
  unfolding checkSanity_def outside_date_def by (intro read_intros)+

lemma reads_outside [read_intros]: "reads (isOutside o1 a b)"
  unfolding isOutside_def by (intro read_intros)

lemma reads_free_loop [read_intros]: "reads (free_loop es r e d)"
  by (induction es arbitrary: d) (simp_all only: free_loop.simps, (intro read_intros | assumption)+)

lemma reads_free [read_intros]: "reads (findFirstFreeSlot o1 r)"
  unfolding findFirstFreeSlot_def by (intro read_intros)

lemma reads_slots [read_intros]: "reads (slots_min s ns d)" "reads (slots_max s ns d)"
  by (induction ns arbitrary: d) (simp_all only: slots_min.simps slots_max.simps, (intro read_intros | assumption)+)

lemma reads_hull [read_intros]: "reads (getMinSlotStartDate i)" "reads (getMaxSlotEndDate i)"
  unfolding getMinSlotStartDate_def getMaxSlotEndDate_def Let_def by (intro read_intros)+

lemma reads_verify [read_intros]: "reads (conf_verifyStartDate d)" "reads (conf_verifyEndDate d)" "reads (conf_check_shift a b)"
  unfolding conf_verifyStartDate_def conf_verifyEndDate_def conf_check_shift_def by (intro read_intros)+

lemma reads_day [read_intros]: "reads (day_of_entry o1 e)" "reads (gap_duration e f d)" "reads (closed_check e)"
    "reads (calculateDayEndDate o1 day)"
  unfolding day_of_entry_def gap_duration_def closed_check_def calculateDayEndDate_def Let_def by (intro read_intros)+

lemmas pass_reads [pass_intros] = read_intros [THEN passes_reads]

section \<open>What changes of dates keep\<close>

text \<open>\<open>stripped\<close> is the state without what they may change, except the entries of the schedules.\<close>

definition stripped :: "tt \<Rightarrow> tt" where
  "stripped s = s\<lparr>ev_start := 0, ev_end := 0,
     sessions := (\<lambda>i. (sessions s i)\<lparr>s_start := 0, s_dur := 0\<rparr>),
     slots := (\<lambda>n. (slots s n)\<lparr>sl_start := None, sl_dur := 0\<rparr>),
     contribs := (\<lambda>c. (contribs s c)\<lparr>c_start := None, c_dur := 0\<rparr>),
     breaks := (\<lambda>b. \<lparr>b_start = None, b_dur = 0\<rparr>),
     scheds := (\<lambda>o1. (scheds s o1)\<lparr>sch_entries := []\<rparr>),
     auto_ops := []\<rparr>"

definition linked :: "tt \<Rightarrow> bool" where
  "linked s \<longleftrightarrow> (\<forall>o1 e. e \<in> set (entries_of s o1) \<longrightarrow> placed s e = Some o1)"

definition in_order :: "tt \<Rightarrow> towner \<Rightarrow> bool" where
  "in_order s o1 \<longleftrightarrow> sorted (map (entry_key s) (entries_of s o1))"

text \<open>
  \<open>kept X s0 s\<close>: only dates changed from \<open>s0\<close> to \<open>s\<close>, no entry lost its start, and the schedules
  outside \<open>X\<close> are in order.
\<close>

definition kept :: "towner set \<Rightarrow> tt \<Rightarrow> tt \<Rightarrow> bool" where
  "kept X s0 s \<longleftrightarrow> linked s0 \<and> stripped s = stripped s0 \<and>
     (\<forall>o1. mset (entries_of s o1) = mset (entries_of s0 o1)) \<and>
     (\<forall>e. e_start s0 e \<noteq> None \<longrightarrow> e_start s e \<noteq> None) \<and>
     (\<forall>o1. o1 \<notin> X \<longrightarrow> in_order s o1)"

definition dated :: "(tt, 'a) prog \<Rightarrow> bool" where
  "dated m \<longleftrightarrow> (\<forall>X s0. passes (kept X s0) (kept X s0) m)"

lemma stripped_fields:
  assumes "stripped s = stripped s0"
  shows "placed s = placed s0" "entry_id s = entry_id s0" "trash s = trash s0" "sess_ids s = sess_ids s0"
    "ev_contribs s = ev_contribs s0" "tz_off s = tz_off s0" "ev_closed s = ev_closed s0"
    "next_session s = next_session s0" "next_slot s = next_slot s0" "next_contrib s = next_contrib s0"
    "next_break s = next_break s0"
  using arg_cong [OF assms, of placed] arg_cong [OF assms, of entry_id] arg_cong [OF assms, of trash]
    arg_cong [OF assms, of sess_ids] arg_cong [OF assms, of ev_contribs] arg_cong [OF assms, of tz_off]
    arg_cong [OF assms, of ev_closed] arg_cong [OF assms, of next_session] arg_cong [OF assms, of next_slot]
    arg_cong [OF assms, of next_contrib] arg_cong [OF assms, of next_break]
  by (simp_all add: stripped_def)

lemma stripped_objects:
  assumes "stripped s = stripped s0"
  shows "s_slots (sessions s i) = s_slots (sessions s0 i)" "s_contribs (sessions s i) = s_contribs (sessions s0 i)"
    "s_closed (sessions s i) = s_closed (sessions s0 i)" "sl_session (slots s n) = sl_session (slots s0 n)"
    "c_session (contribs s c) = c_session (contribs s0 c)" "c_status (contribs s c) = c_status (contribs s0 c)"
  using arg_cong [OF assms, of "\<lambda>s. s_slots (sessions s i)"] arg_cong [OF assms, of "\<lambda>s. s_contribs (sessions s i)"]
    arg_cong [OF assms, of "\<lambda>s. s_closed (sessions s i)"] arg_cong [OF assms, of "\<lambda>s. sl_session (slots s n)"]
    arg_cong [OF assms, of "\<lambda>s. c_session (contribs s c)"] arg_cong [OF assms, of "\<lambda>s. c_status (contribs s c)"]
  by (simp_all add: stripped_def)

lemma kept_fields:
  "kept X s0 s \<Longrightarrow> stripped s = stripped s0"
  "kept X s0 s \<Longrightarrow> set (entries_of s o1) = set (entries_of s0 o1)"
  "kept X s0 s \<Longrightarrow> distinct (entries_of s o1) = distinct (entries_of s0 o1)"
  "kept X s0 s \<Longrightarrow> e_start s0 e \<noteq> None \<Longrightarrow> e_start s e \<noteq> None"
  "kept X s0 s \<Longrightarrow> o1 \<notin> X \<Longrightarrow> in_order s o1"
  "kept X s0 s \<Longrightarrow> linked s0"
  unfolding kept_def by (blast | metis set_mset_mset | metis distinct_count_atmost_1 set_mset_mset)+

lemma kept_placed: "kept X s0 s \<Longrightarrow> placed s = placed s0"
  by (rule stripped_fields [OF kept_fields(1)])

lemma kept_linked:
  assumes "kept X s0 s"
  shows "linked s"
  unfolding linked_def kept_fields(2) [OF assms] kept_placed [OF assms]
  using kept_fields(6) [OF assms] unfolding linked_def .

lemma kept_mono: "kept X s0 s \<Longrightarrow> X \<subseteq> Y \<Longrightarrow> kept Y s0 s"
  unfolding kept_def by blast

lemma kept_start: "linked s \<Longrightarrow> kept UNIV s s"
  by (simp add: kept_def)

lemma kept_run:
  assumes "dated m" "linked s" "m s = (Inr x, t)"
  shows "kept UNIV s t"
  using assms kept_start [of s] unfolding dated_def passes_def by blast

lemma dated_run:
  assumes "dated m" "linked s" "\<And>o1. in_order s o1" "m s = (Inr x, t)"
  shows "kept {} s t"
proof -
  have "kept {} s s" using assms by (simp add: kept_def)
  then show ?thesis using assms unfolding dated_def passes_def by blast
qed

section \<open>Programs that only change dates\<close>

named_theorems dated_intros \<open>programs that only change dates\<close>

lemma dated_passes [pass_intros]: "dated m \<Longrightarrow> passes (kept X s0) (kept X s0) m"
  by (simp add: dated_def)

lemma datedI: "(\<And>X s0. passes (kept X s0) (kept X s0) m) \<Longrightarrow> dated m"
  by (simp add: dated_def)

lemma dated_reads: "reads m \<Longrightarrow> dated m"
  by (simp add: dated_def passes_reads)

lemma dated_control [dated_intros]:
  "dated m \<Longrightarrow> (\<And>x. dated (f x)) \<Longrightarrow> dated (bnd m f)"
  "dated m \<Longrightarrow> dated k \<Longrightarrow> dated (andthen m k)"
  "dated p \<Longrightarrow> dated (when_do b p)"
  "dated m \<Longrightarrow> dated m' \<Longrightarrow> dated (if b then m else m')"
  "dated m \<Longrightarrow> (\<And>x. dated (g x)) \<Longrightarrow> dated (case v of None \<Rightarrow> m | Some x \<Rightarrow> g x)"
  "dated m \<Longrightarrow> (\<And>x xs. dated (h x xs)) \<Longrightarrow> dated (case w of [] \<Rightarrow> m | x # xs \<Rightarrow> h x xs)"
  unfolding dated_def by (blast intro: pass_intros passes_bnd passes_andthen)+

lemma dated_for_each [dated_intros]: "(\<And>x. x \<in> set xs \<Longrightarrow> dated (f x)) \<Longrightarrow> dated (for_each xs f)"
  by (simp add: dated_def passes_for_each)

lemma dated_reading [dated_intros]:
  "dated (ret x)" "dated (raise_exn e)" "dated get_st" "dated (gets g)" "dated (need v)" "dated (sch_start o1)"
  "dated (sch_end o1)" "dated (slot_session n)" "dated (calculateEndDate o1)" "dated (calculateStartDate o1)"
  "dated (hasEntriesBefore o1 d)" "dated (hasEntriesAfter o1 d)" "dated (checkSanity o1)" "dated (isOutside o1 a b)"
  "dated (findFirstFreeSlot o1 r)" "dated (getMinSlotStartDate i)" "dated (getMaxSlotEndDate i)"
  "dated (conf_verifyStartDate d)" "dated (conf_verifyEndDate d)" "dated (conf_check_shift x1 x2)"
  "dated (day_of_entry o1 en)" "dated (gap_duration en fn d)" "dated (closed_check en)"
  by (intro dated_reads read_intros)+

text \<open>Writes that do not touch an entry.\<close>

lemma kept_same:
  assumes "kept X s0 s" "stripped t = stripped s" "\<And>o1. entries_of t o1 = entries_of s o1"
    "\<And>e. e_start t e = e_start s e" "\<And>e. e_dur t e = e_dur s e"
  shows "kept X s0 t"
proof -
  have "entry_key t = entry_key s" using assms by (simp add: fun_eq_iff entry_key_def date_key_def)
  then show ?thesis using assms by (simp add: kept_def in_order_def)
qed

lemma e_view_cong:
  assumes "contribs t = contribs s" "breaks t = breaks s" "slots t = slots s"
  shows "e_start t e = e_start s e" "e_dur t e = e_dur s e"
  using assms by (cases e; simp)+

lemma dated_report [dated_intros]: "dated (report a b c d)"
  unfolding report_def
  by (rule datedI, rule passes_modify, erule kept_same)
    (simp_all add: stripped_def entries_of_def e_view_cong [where t = "auto_ops_update _ _"])

lemma dated_event [dated_intros]: "dated (modify (ev_start_update f))" "dated (modify (ev_end_update f))"
  by (rule datedI, rule passes_modify, erule kept_same;
      simp add: stripped_def entries_of_def e_view_cong [where t = "ev_start_update _ _"] e_view_cong [where t = "ev_end_update _ _"])+

lemma dated_session [dated_intros]:
  assumes "\<And>x. (f x)\<lparr>s_start := 0, s_dur := 0\<rparr> = x\<lparr>s_start := 0, s_dur := 0\<rparr>"
  shows "dated (upd_session i f)"
  unfolding upd_session_def
  by (rule datedI, rule passes_modify, erule kept_same)
    (simp_all add: stripped_def entries_of_def fun_eq_iff assms e_view_cong [where t = "sessions_update _ _"])

section \<open>Writing an entry and sorting its schedule\<close>

text \<open>The schedules an entry is in: at most one.\<close>

definition spot :: "tt \<Rightarrow> tentry \<Rightarrow> towner set" where
  "spot s e = set_option (placed s e)"

lemma kept_write:
  assumes kept: "kept X s0 s" and strip: "stripped t = stripped s"
    and entries: "\<And>o1. entries_of t o1 = entries_of s o1"
    and same: "\<And>e. e \<notin> E \<Longrightarrow> e_start t e = e_start s e \<and> e_dur t e = e_dur s e"
    and start: "\<And>e. e_start s e \<noteq> None \<Longrightarrow> e_start t e \<noteq> None"
    and spots: "\<And>e. e \<in> E \<Longrightarrow> spot s0 e \<subseteq> Y"
  shows "kept (X \<union> Y) s0 t"
proof -
  have "in_order t o1" if o1: "o1 \<notin> X \<union> Y" for o1
  proof -
    have "e \<notin> E" if "e \<in> set (entries_of s o1)" for e
    proof
      assume "e \<in> E"
      moreover have "placed s0 e = Some o1"
        using kept_linked [OF kept] that kept_placed [OF kept] by (simp add: linked_def)
      ultimately show False using spots o1 by (force simp: spot_def)
    qed
    then have "map (entry_key t) (entries_of s o1) = map (entry_key s) (entries_of s o1)"
      by (simp add: entry_key_def date_key_def same)
    then show ?thesis using kept_fields(5) [OF kept, of o1] o1 by (simp add: in_order_def entries del: map_eq_conv)
  qed
  then show ?thesis using kept strip entries start unfolding kept_def by metis
qed

lemma passes_upd_contrib:
  assumes "\<And>x. (f x)\<lparr>c_start := None, c_dur := 0\<rparr> = x\<lparr>c_start := None, c_dur := 0\<rparr>"
    "\<And>x. c_start x \<noteq> None \<Longrightarrow> c_start (f x) \<noteq> None"
  shows "passes (kept X s0) (kept (X \<union> spot s0 (ContribE c)) s0) (upd_contrib c f)"
  unfolding upd_contrib_def
proof (rule passes_modify, erule kept_write [where E = "{ContribE c}"])
  fix s :: tt and e
  show "stripped (s\<lparr>contribs := (contribs s)(c := f (contribs s c))\<rparr>) = stripped s"
    by (simp add: stripped_def fun_eq_iff assms)
  show "e \<notin> {ContribE c} \<Longrightarrow> e_start (s\<lparr>contribs := (contribs s)(c := f (contribs s c))\<rparr>) e = e_start s e \<and>
      e_dur (s\<lparr>contribs := (contribs s)(c := f (contribs s c))\<rparr>) e = e_dur s e"
    by (cases e) auto
  show "e_start s e \<noteq> None \<Longrightarrow> e_start (s\<lparr>contribs := (contribs s)(c := f (contribs s c))\<rparr>) e \<noteq> None"
    using assms(2) by (cases e) auto
qed (auto simp: entries_of_def)

lemma passes_upd_break:
  assumes "\<And>x. b_start x \<noteq> None \<Longrightarrow> b_start (f x) \<noteq> None"
  shows "passes (kept X s0) (kept (X \<union> spot s0 (BreakE b)) s0) (upd_break b f)"
  unfolding upd_break_def
proof (rule passes_modify, erule kept_write [where E = "{BreakE b}"])
  fix s :: tt and e
  show "stripped (s\<lparr>breaks := (breaks s)(b := f (breaks s b))\<rparr>) = stripped s"
    by (simp add: stripped_def)
  show "e \<notin> {BreakE b} \<Longrightarrow> e_start (s\<lparr>breaks := (breaks s)(b := f (breaks s b))\<rparr>) e = e_start s e \<and>
      e_dur (s\<lparr>breaks := (breaks s)(b := f (breaks s b))\<rparr>) e = e_dur s e"
    by (cases e) auto
  show "e_start s e \<noteq> None \<Longrightarrow> e_start (s\<lparr>breaks := (breaks s)(b := f (breaks s b))\<rparr>) e \<noteq> None"
    using assms by (cases e) auto
qed (auto simp: entries_of_def)

lemma passes_upd_slot:
  assumes "\<And>x. (f x)\<lparr>sl_start := None, sl_dur := 0\<rparr> = x\<lparr>sl_start := None, sl_dur := 0\<rparr>"
    "\<And>x. sl_start x \<noteq> None \<Longrightarrow> sl_start (f x) \<noteq> None"
  shows "passes (kept X s0) (kept (X \<union> (spot s0 (SessE n) \<union> spot s0 (ConfE n))) s0) (upd_slot n f)"
  unfolding upd_slot_def
proof (rule passes_modify, erule kept_write [where E = "{SessE n, ConfE n}"])
  fix s :: tt and e
  show "stripped (s\<lparr>slots := (slots s)(n := f (slots s n))\<rparr>) = stripped s"
    by (simp add: stripped_def fun_eq_iff assms)
  show "e \<notin> {SessE n, ConfE n} \<Longrightarrow> e_start (s\<lparr>slots := (slots s)(n := f (slots s n))\<rparr>) e = e_start s e \<and>
      e_dur (s\<lparr>slots := (slots s)(n := f (slots s n))\<rparr>) e = e_dur s e"
    by (cases e) auto
  show "e_start s e \<noteq> None \<Longrightarrow> e_start (s\<lparr>slots := (slots s)(n := f (slots s n))\<rparr>) e \<noteq> None"
    using assms(2) by (cases e) auto
qed (auto simp: entries_of_def)

lemma sorted_sort_entries: "sorted (map (entry_key s) (sort_entries s es))"
  by (simp add: sort_entries_def)

lemma passes_reSchedule: "passes (kept X s0) (kept (X - {o1}) s0) (reSchedule o1)"
proof (rule passesI)
  fix s x t
  assume kept: "kept X s0 s" and run: "reSchedule o1 s = (Inr x, t)"
  then have t: "t = s\<lparr>scheds := (scheds s)(o1 := (scheds s o1)\<lparr>sch_entries := sort_entries s (entries_of s o1)\<rparr>)\<rparr>"
    by (simp add: reSchedule_def Let_def upd_sched_def split: if_splits)
  have entries: "entries_of t o2 = (if o2 = o1 then sort_entries s (entries_of s o1) else entries_of s o2)" for o2
    by (simp add: t entries_of_def)
  have start: "e_start t e = e_start s e" and dur: "e_dur t e = e_dur s e" for e
    by (cases e; simp add: t)+
  then have key: "entry_key t = entry_key s"
    by (simp add: fun_eq_iff entry_key_def date_key_def)
  have "stripped t = stripped s"
    by (simp add: t stripped_def fun_eq_iff)
  moreover have "mset (entries_of t o2) = mset (entries_of s o2)" for o2
    by (simp add: entries sort_entries_def)
  moreover have "in_order t o2" if "o2 \<notin> X - {o1}" for o2
    using that kept_fields(5) [OF kept, of o2] by (auto simp: in_order_def entries key sorted_sort_entries)
  ultimately show "kept (X - {o1}) s0 t" using kept by (simp add: kept_def start)
qed

lemma passes_synchro: "passes (kept (X \<union> spot s0 e) s0) (kept X s0) (synchro e)"
  unfolding synchro_def
proof (rule passes_get)
  fix s
  assume kept: "kept (X \<union> spot s0 e) s0 s"
  show "passes (\<lambda>t. t = s) (kept X s0) (case placed s e of None \<Rightarrow> ret () | Some o1 \<Rightarrow> reSchedule o1)"
  proof (cases "placed s e")
    case None
    with kept have "kept X s0 s" by (simp add: spot_def kept_placed)
    with None show ?thesis by (auto simp: passes_def)
  next
    case (Some o1)
    with kept have "spot s0 e = {o1}" by (simp add: spot_def kept_placed)
    have "passes (\<lambda>t. t = s) (kept (X \<union> spot s0 e - {o1}) s0) (reSchedule o1)"
      by (rule passes_at [OF passes_reSchedule kept])
    then have "passes (\<lambda>t. t = s) (kept X s0) (reSchedule o1)"
      by (rule passes_weaken) (auto simp: \<open>spot s0 e = {o1}\<close> elim: kept_mono)
    then show ?thesis by (simp add: Some)
  qed
qed

lemma dated_synchro [dated_intros]: "dated (synchro e)" "dated (reSchedule o1)"
  by (rule datedI, rule passes_weaken [OF passes_synchro], auto elim: kept_mono,
      rule datedI, rule passes_weaken [OF passes_reSchedule], auto elim: kept_mono)

text \<open>A write of an entry, anything that only changes dates, and then the sorting of its schedule.\<close>

lemma dated_write_then:
  assumes "\<And>X s0. passes (kept X s0) (kept (X \<union> spot s0 e) s0) w" "dated m"
  shows "dated (andthen w (andthen m (synchro e)))"
  by (rule datedI, rule passes_andthen, rule assms(1), rule passes_andthen, rule dated_passes [OF assms(2)],
      rule passes_synchro)

lemma dated_write:
  assumes "\<And>X s0. passes (kept X s0) (kept (X \<union> spot s0 e) s0) w"
  shows "dated (andthen w (synchro e))"
  by (rule datedI, rule passes_andthen, rule assms(1), rule passes_synchro)

lemma dated_write_slot:
  assumes "\<And>X s0. passes (kept X s0) (kept (X \<union> (spot s0 (SessE n) \<union> spot s0 (ConfE n))) s0) w" "dated m" "dated k"
  shows "dated (andthen w (andthen m (andthen (synchro (SessE n)) (andthen (synchro (ConfE n)) k))))"
proof (rule datedI, rule passes_andthen, rule assms(1), rule passes_andthen, rule dated_passes [OF assms(2)])
  fix X s0
  have "X \<union> (spot s0 (SessE n) \<union> spot s0 (ConfE n)) = X \<union> spot s0 (ConfE n) \<union> spot s0 (SessE n)" by blast
  then show "passes (kept (X \<union> (spot s0 (SessE n) \<union> spot s0 (ConfE n))) s0) (kept X s0)
      (andthen (synchro (SessE n)) (andthen (synchro (ConfE n)) k))"
    using passes_andthen [OF passes_synchro passes_andthen [OF passes_synchro dated_passes [OF assms(3)]]] by metis
qed

end
