(* ===== verification/TT_Dated.thy ===== *)
theory TT_Dated
  imports TT_Frame
begin

text \<open>
  Every method that changes dates only changes dates: \<open>dated\<close> for each of \<open>TT_Dates\<close>, from the parents
  down to the entries that move with them, and for the operations of \<open>TT_Ops\<close> that move entries within
  a schedule.
\<close>

section \<open>The event and the sessions\<close>

lemma dated_no_below [dated_intros]: "dated (no_below diff es)"
  unfolding no_below_def by (intro dated_intros)

lemma dated_conf_with:
  assumes "\<And>diff es. dated (below diff es)"
  shows "dated (conf_setStartDate_with below d check mv)"
  unfolding conf_setStartDate_with_def by (intro dated_intros assms)

lemma dated_conf_end [dated_intros]: "dated (conf_setEndDate d check)"
  unfolding conf_setEndDate_def by (intro dated_intros)

lemma dated_conf_dates_with:
  assumes "\<And>diff es. dated (below diff es)"
  shows "dated (conf_setDates_with below a b mv)"
  unfolding conf_setDates_with_def Let_def by (intro dated_intros dated_conf_with assms)

lemma dated_conf0 [dated_intros]: "dated (conf_setStartDate0 d check)"
  unfolding conf_setStartDate0_def by (intro dated_conf_with dated_intros)

lemma dated_sess_verify [dated_intros]: "dated (sess_verifyStartDate i d check)"
  unfolding sess_verifyStartDate_def by (intro dated_intros)

lemma dated_sess_with:
  assumes "\<And>diff es. dated (below diff es)"
  shows "dated (sess_setStartDate_with below i d check mv)"
  unfolding sess_setStartDate_with_def Let_def by (intro dated_intros assms) simp

lemma dated_sess0 [dated_intros]: "dated (sess_setStartDate0 i d check)"
  unfolding sess_setStartDate0_def by (intro dated_sess_with dated_intros)

lemma dated_sess_verifyEnd [dated_intros]: "dated (sess_verifyEndDate i d check)"
  unfolding sess_verifyEndDate_def Let_def by (intro dated_intros)

lemma dated_sess_end [dated_intros]: "dated (sess_setEndDate i d check)"
  unfolding sess_setEndDate_def by (intro dated_intros) simp

lemma dated_sess_dates_with:
  assumes "\<And>diff es. dated (below diff es)"
  shows "dated (sess_setDates_with below i a b check mv)"
  unfolding sess_setDates_with_def by (intro dated_intros dated_sess_with assms)

lemma dated_sess_fit [dated_intros]: "dated (sess_fit i)"
  unfolding sess_fit_def by (intro dated_intros)

section \<open>Slots\<close>

lemma dated_slot_verify [dated_intros]: "dated (slot_verifyStartDate n d check)" "dated (slot_verifyDuration n dur check)"
  unfolding slot_verifyStartDate_def slot_verifyDuration_def Let_def by (intro dated_intros)+

lemma andthen_assoc: "andthen (andthen m k) r = andthen m (andthen k r)"
  by (simp add: fun_eq_iff andthen_run split: prod.split sum.split)

lemma andthen_ret: "andthen (ret x) m = m"
  by (simp add: fun_eq_iff)

lemma dated_slot_duration [dated_intros]: "dated (slot_setDuration n dur check)"
proof -
  have "dated (andthen (upd_slot n (\<lambda>x. x\<lparr>sl_dur := dur\<rparr>)) (andthen (ret ()) (andthen (synchro (SessE n))
      (andthen (synchro (ConfE n)) (bnd (slot_session n) sess_fit)))))"
    by (intro dated_write_slot passes_upd_slot dated_intros) simp_all
  then show ?thesis
    unfolding slot_setDuration_def andthen_ret by (rule dated_control(2) [rotated]) (intro dated_intros)
qed

lemma dated_slot_end [dated_intros]: "dated (slot_setEndDate n d check)"
  unfolding slot_setEndDate_def by (intro dated_intros)

lemma dated_write_slot2:
  assumes "dated m" "dated k"
  shows "dated (andthen (upd_slot n (\<lambda>x. x\<lparr>sl_start := Some d\<rparr>)) (andthen m (andthen k (andthen (synchro (SessE n))
      (andthen (synchro (ConfE n)) (bnd (slot_session n) sess_fit))))))"
proof -
  have "dated (andthen (upd_slot n (\<lambda>x. x\<lparr>sl_start := Some d\<rparr>)) (andthen (andthen m k) (andthen (synchro (SessE n))
      (andthen (synchro (ConfE n)) (bnd (slot_session n) sess_fit)))))"
    by (intro dated_write_slot passes_upd_slot dated_intros assms) simp_all
  then show ?thesis by (simp only: andthen_assoc)
qed

lemma dated_slot_with:
  assumes "\<And>diff es. dated (below diff es)"
  shows "dated (slot_setStartDate_with below n d check mv cd)"
  unfolding slot_setStartDate_with_def
  by (cases d; simp only: option.case; intro dated_control(1-3) dated_write_slot2 dated_intros assms)

lemma dated_slot_dates_with:
  assumes "\<And>diff es. dated (below diff es)"
  shows "dated (slot_setDates_with below n a b check mv)"
  unfolding slot_setDates_with_def by (intro dated_intros dated_slot_with assms)

lemma dated_slot0 [dated_intros]: "dated (slot_setStartDate0 n d check)"
  unfolding slot_setStartDate0_def by (intro dated_slot_with dated_intros)

lemma dated_slot_fit [dated_intros]: "dated (slot_fit n)"
  unfolding slot_fit_def by (intro dated_intros)

section \<open>Contributions and breaks\<close>

lemma dated_owner [dated_intros]: "dated (owner_setStartDate o1 d check)" "dated (owner_setEndDate o1 d check)"
    "dated (owner_setDates o1 a b check)"
  by (cases o1; simp; intro dated_intros dated_conf_dates_with dated_sess_dates_with dated_slot_dates_with)+

lemma dated_contrib_start [dated_intros]: "dated (contrib_setStartDate c (Some d) check)"
proof -
  have v: "dated (contrib_verifyStartDate c d check)"
    unfolding contrib_verifyStartDate_def Let_def by (intro dated_intros)
  show ?thesis
    unfolding contrib_setStartDate_def option.case
    by (rule dated_control(2), intro dated_intros v, intro dated_write passes_upd_contrib) simp_all
qed

lemma dated_contrib_duration [dated_intros]: "dated (contrib_setDuration c dur check)"
proof -
  have v: "dated (contrib_verifyDuration c check)"
    unfolding contrib_verifyDuration_def by (intro dated_intros)
  show ?thesis
    unfolding contrib_setDuration_def by (intro dated_write_then passes_upd_contrib dated_intros v) simp_all
qed

lemma dated_break_duration [dated_intros]: "dated (break_setDuration b dur check)"
proof -
  have v: "dated (break_verifyDuration b check)"
    unfolding break_verifyDuration_def by (intro dated_intros)
  have "dated (andthen (andthen (upd_break b (\<lambda>x. x\<lparr>b_dur := dur\<rparr>)) (synchro (BreakE b))) (break_verifyDuration b check))"
    by (rule dated_control(2) [OF dated_write v], rule passes_upd_break) simp
  then show ?thesis by (simp only: break_setDuration_def andthen_assoc)
qed

lemma dated_break_extend [dated_intros]: "dated (break_extend_end b o1 d check)"
  unfolding break_extend_end_def by (intro dated_intros)

lemma dated_write_break:
  assumes "dated k"
  shows "dated (andthen (upd_break b (\<lambda>x. x\<lparr>b_start := Some d\<rparr>)) (andthen (synchro (BreakE b)) k))"
  unfolding andthen_assoc [symmetric]
  by (rule dated_control(2) [OF dated_write assms], rule passes_upd_break) simp

text \<open>A break that is in no schedule gets its date without any sorting.\<close>

lemma dated_unplaced_break:
  assumes "\<And>s o1. dated (f s o1)"
  shows "dated (bnd get_st (\<lambda>s. case placed s (BreakE b) of
      None \<Rightarrow> upd_break b (\<lambda>x. x\<lparr>b_start := Some d\<rparr>) | Some o1 \<Rightarrow> f s o1))"
proof (rule datedI, rule passes_get)
  fix X s0 s
  assume kept: "kept X s0 s"
  show "passes (\<lambda>t. t = s) (kept X s0) (case placed s (BreakE b) of
      None \<Rightarrow> upd_break b (\<lambda>x. x\<lparr>b_start := Some d\<rparr>) | Some o1 \<Rightarrow> f s o1)"
  proof (cases "placed s (BreakE b)")
    case None
    with kept have "X \<union> spot s0 (BreakE b) = X" by (simp add: spot_def kept_placed)
    moreover have "passes (kept X s0) (kept (X \<union> spot s0 (BreakE b)) s0) (upd_break b (\<lambda>x. x\<lparr>b_start := Some d\<rparr>))"
      by (rule passes_upd_break) simp
    ultimately show ?thesis using None passes_at kept by simp
  next
    case (Some o1)
    then show ?thesis using passes_at [OF dated_passes [OF assms [of s o1]] kept] by simp
  qed
qed

lemma need_Some: "bnd (need (Some d)) f = f d"
  by (simp add: need_def fun_eq_iff)

lemma dated_break_start [dated_intros]: "dated (break_setStartDate b (Some d) check)"
  unfolding break_setStartDate_def need_Some
  by (rule dated_unplaced_break) (intro dated_control(1,4) dated_write_break dated_intros
    dated_control(2) [OF dated_control(4)] dated_control(2) [OF dated_break_extend])

section \<open>Moving entries with their schedule\<close>

lemma dated_leaf [dated_intros]: "dated (leaf_setStartDate e (Some d) check)"
  by (cases e; simp; intro dated_intros)

lemma dated_need_start:
  assumes "\<And>d. dated (f d)"
  shows "dated (bnd (need v) f)"
  by (intro dated_intros assms)

lemma dated_slot_below [dated_intros]: "dated (slot_moveEntriesBelow diff es)"
  unfolding slot_moveEntriesBelow_def by (intro dated_intros)

lemma dated_slot_full [dated_intros]: "dated (slot_setStartDate n d check mv cd)" "dated (slot_setDates n a b check mv)"
  unfolding slot_setStartDate_def slot_setDates_def
  by (intro dated_slot_with dated_slot_dates_with dated_intros)+

lemma dated_entry [dated_intros]: "dated (entry_setStartDate e (Some d) check mv)" "dated (entry_setDuration e dur check)"
  by (cases e; simp; intro dated_intros)+

lemma dated_shift [dated_intros]: "dated (shift_entry diff check e)" "dated (sess_moveEntriesBelow diff es)"
  unfolding shift_entry_def sess_moveEntriesBelow_def by (intro dated_intros)+

lemma dated_sess_full [dated_intros]: "dated (sess_setStartDate i d check mv)" "dated (sess_setDates i a b check mv)"
  unfolding sess_setStartDate_def sess_setDates_def
  by (intro dated_sess_with dated_sess_dates_with dated_intros)+

lemma dated_move_session [dated_intros]: "dated (move_session diff i n)"
  unfolding move_session_def by (intro dated_intros)

lemma dated_conf_loop [dated_intros]: "dated (conf_move_loop diff es done)"
proof (induction es arbitrary: "done")
  case (Cons e es)
  show ?case unfolding conf_move_loop.simps by (intro dated_intros Cons)
qed (simp add: dated_intros)

lemma dated_conf_below [dated_intros]: "dated (conf_moveEntriesBelow diff es)"
  unfolding conf_moveEntriesBelow_def by (rule dated_conf_loop)

lemma dated_conf_full [dated_intros]: "dated (conf_setStartDate d check mv)" "dated (conf_setDates a b mv)" "dated conf_fit"
  unfolding conf_setStartDate_def conf_setDates_def conf_fit_def
  by (intro dated_conf_with dated_conf_dates_with dated_intros)+

lemma dated_sch_below [dated_intros]: "dated (sch_moveEntriesBelow o1 diff es)"
  by (cases o1; simp; intro dated_intros)

section \<open>Putting entries in their place in a schedule\<close>

lemma dated_closed [dated_intros]: "dated (fit_entry f e)" "dated (free_or_extend o1 dur check)"
    "dated (fit_dates o1 e check)" "dated (check_end o1 e)" "dated (slot_fit_dates n e check)"
  unfolding fit_entry_def free_or_extend_def fit_dates_def check_end_def slot_fit_dates_def
  by (intro dated_intros)+

lemma dated_redo_durations [dated_intros]: "dated (redo_durations diff f es)"
proof (induction diff f es rule: redo_durations.induct)
  case (3 diff f e f' es)
  then show ?case unfolding redo_durations.simps by (intro dated_intros)
qed (unfold redo_durations.simps, (intro dated_intros)+)

lemma dated_redo_starts [dated_intros]: "dated (redo_starts diff f st es)"
  by (induction es arbitrary: st) (unfold redo_starts.simps, (intro dated_intros | assumption)+)

lemma dated_reschedule [dated_intros]: "dated (rescheduleTimes o1 ty diff day f)"
  unfolding rescheduleTimes_def Let_def by (cases o1; cases ty; simp; intro dated_intros)

lemma dated_recalc_durations [dated_intros]: "dated (recalc_durations n diff es)"
proof (induction n diff es rule: recalc_durations.induct)
  case (3 n diff e f es)
  then show ?case unfolding recalc_durations.simps by (intro dated_intros)
qed (unfold recalc_durations.simps, (intro dated_intros)+)

lemma dated_recalc_starts [dated_intros]: "dated (recalc_starts diff st es)"
  by (induction es arbitrary: st) (unfold recalc_starts.simps, (intro dated_intros | assumption)+)

lemma dated_recalculate [dated_intros]: "dated (recalculateTimes n ty diff)"
  unfolding recalculateTimes_def Let_def by (cases ty; simp only: retype.case; intro dated_intros)

text \<open>
  Moving an entry up or down sets starts to the starts and ends of other entries of the day, which they
  have.
\<close>

lemma kept_trans: "kept X s0 s \<Longrightarrow> kept X s t \<Longrightarrow> kept X s0 t"
  unfolding kept_def by simp

lemma kept_self:
  assumes "kept X s0 s"
  shows "kept X s s"
  using kept_linked [OF assms] kept_fields(5) [OF assms] unfolding kept_def by blast

lemma datedI_here:
  assumes "\<And>X s x t. kept X s s \<Longrightarrow> m s = (Inr x, t) \<Longrightarrow> kept X s t"
  shows "dated m"
proof (rule datedI, rule passesI)
  fix X s0 s x t
  assume kept: "kept X s0 s" and run: "m s = (Inr x, t)"
  show "kept X s0 t" by (rule kept_trans [OF kept assms [OF kept_self [OF kept] run]])
qed

lemma passes_set_to:
  assumes "\<And>s. kept X s0 s \<Longrightarrow> v s \<noteq> None" "\<And>s. passes (kept X s0) (kept X s0) (k s)"
  shows "passes (kept X s0) (kept X s0) (bnd get_st (\<lambda>s. andthen (entry_setStartDate e (v s) 0 True) (k s)))"
proof (rule passes_get)
  fix s
  assume kept: "kept X s0 s"
  with assms(1) obtain d where "v s = Some d" by fastforce
  then have "passes (kept X s0) (kept X s0) (andthen (entry_setStartDate e (v s) 0 True) (k s))"
    by (simp only:) (intro passes_seq dated_passes dated_intros assms(2))
  then show "passes (\<lambda>t. t = s) (kept X s0) (andthen (entry_setStartDate e (v s) 0 True) (k s))"
    using kept by (rule passes_at)
qed

lemma passes_chain_after:
  "(\<And>f. f \<in> set (p # es) \<Longrightarrow> e_start s0 f \<noteq> None) \<Longrightarrow> passes (kept X s0) (kept X s0) (chain_after p es)"
proof (induction es arbitrary: p)
  case (Cons e es)
  show ?case unfolding chain_after.simps
  proof (rule passes_set_to)
    fix s
    assume "kept X s0 s"
    then show "e_end s p \<noteq> None" using kept_fields(4) [of X s0 s p] Cons.prems [of p] by (simp add: e_end_def)
  qed (rule Cons.IH, use Cons.prems in auto)
qed (simp add: passes_basic)

lemma day_of_entry_run:
  assumes "day_of_entry o1 e s = (Inr es, t)"
  obtains d where "t = s" "e_start s e = Some d" "es = getEntriesOnDay s (tz_off s) o1 d"
  using assms by (auto simp: day_of_entry_def split: option.splits)

lemma entries_on_day_start: "f \<in> set (getEntriesOnDay s off o1 d) \<Longrightarrow> e_start s f \<noteq> None"
  by (auto simp: getEntriesOnDay_def inDay_def split: option.splits)

lemma dated_day_move:
  assumes m: "\<And>X s0 es. 2 \<le> length es \<Longrightarrow> (\<And>f. f \<in> set es \<Longrightarrow> e_start s0 f \<noteq> None) \<Longrightarrow>
      (e_start s0 e \<noteq> None) \<Longrightarrow> passes (kept X s0) (kept X s0) (m es)"
  shows "dated (bnd (day_of_entry o1 e) (\<lambda>es. if length es < 2 then ret () else andthen (m es) (reSchedule o1)))"
proof (rule datedI_here)
  fix X s x t
  assume kept: "kept X s s"
    and run: "bnd (day_of_entry o1 e) (\<lambda>es. if length es < 2 then ret () else andthen (m es) (reSchedule o1)) s = (Inr x, t)"
  then obtain es d where es: "es = getEntriesOnDay s (tz_off s) o1 d" "e_start s e = Some d"
    and rest: "(if length es < 2 then ret () else andthen (m es) (reSchedule o1)) s = (Inr x, t)"
    unfolding bnd_Inr by (auto elim: day_of_entry_run)
  have "passes (kept X s) (kept X s) (if length es < 2 then ret () else andthen (m es) (reSchedule o1))"
  proof (intro passes_if passes_basic passes_seq)
    assume "\<not> length es < 2"
    then show "passes (kept X s) (kept X s) (m es)"
      using es by (intro m) (auto dest: entries_on_day_start)
  qed (intro dated_passes dated_intros)
  then show "kept X s t" using kept rest by (rule passesD)
qed

lemma list_pos_less: "es \<noteq> [] \<Longrightarrow> list_pos e es < length es"
  by (induction es rule: induct_list012) auto

lemma kept_start_nth:
  "(\<And>f. f \<in> set es \<Longrightarrow> e_start s0 f \<noteq> None) \<Longrightarrow> k < length es \<Longrightarrow> kept X s0 s \<Longrightarrow> e_start s (es ! k) \<noteq> None"
  using kept_fields(4) [of X s0 s "es ! k"] nth_mem [of k es] by blast

lemma dated_moveUp [dated_intros]: "dated (moveUpEntry o1 e)"
proof -
  have "passes (kept X s0) (kept X s0) (if list_pos e es = 0
     then bnd get_st (\<lambda>s. andthen (entry_setStartDate (es ! 1) (e_start s (es ! 0)) 0 True)
            (chain_after (es ! 1) (drop 2 es @ [es ! 0])))
     else bnd get_st (\<lambda>s. andthen (entry_setStartDate e (e_start s (es ! (list_pos e es - 1))) 0 True)
            (chain_after e [es ! (list_pos e es - 1)])))"
    if len: "2 \<le> length es" and start: "\<And>f. f \<in> set es \<Longrightarrow> e_start s0 f \<noteq> None" and e: "e_start s0 e \<noteq> None" for X s0 es
  proof -
    have ne: "es \<noteq> []" using len by auto
    then have pos: "list_pos e es - 1 < length es" using list_pos_less [of es e] by simp
    have "set (es ! 1 # drop 2 es @ [es ! 0]) \<subseteq> set es"
      using len ne by (auto dest: in_set_dropD)
    then have "e_start s0 f \<noteq> None" if "f \<in> set (es ! 1 # drop 2 es @ [es ! 0])" for f
      using that start by blast
    moreover have "e_start s0 f \<noteq> None" if "f \<in> set [e, es ! (list_pos e es - 1)]" for f
      using that start [OF nth_mem [OF pos]] e by auto
    ultimately show ?thesis
      using len pos
      by (intro passes_if passes_set_to [OF kept_start_nth [OF start]] passes_chain_after) auto
  qed
  then show ?thesis
    unfolding moveUpEntry_def Let_def
    by (cases o1; simp only: towner.case) ((rule dated_day_move, blast) | intro dated_intros)+
qed

lemma dated_moveDown [dated_intros]: "dated (moveDownEntry o1 e)"
proof -
  have "passes (kept X s0) (kept X s0) (if list_pos e es + 1 = length es
     then bnd get_st (\<lambda>s. andthen (entry_setStartDate (last es) (e_start s (es ! 0)) 0 True)
            (chain_after (last es) (butlast es)))
     else bnd get_st (\<lambda>s. andthen (entry_setStartDate (es ! (list_pos e es + 1)) (e_start s e) 0 True)
            (chain_after (es ! (list_pos e es + 1)) [e])))"
    if len: "2 \<le> length es" and start: "\<And>f. f \<in> set es \<Longrightarrow> e_start s0 f \<noteq> None" and e: "e_start s0 e \<noteq> None" for X s0 es
  proof (rule passes_if)
    have ne: "es \<noteq> []" using len by auto
    have "set (last es # butlast es) \<subseteq> set es"
      using ne by (auto dest: in_set_butlastD)
    then have "e_start s0 f \<noteq> None" if "f \<in> set (last es # butlast es)" for f
      using that start by blast
    then show "passes (kept X s0) (kept X s0) (bnd get_st (\<lambda>s. andthen (entry_setStartDate (last es) (e_start s (es ! 0)) 0 True)
            (chain_after (last es) (butlast es))))"
      using ne by (intro passes_set_to [OF kept_start_nth [OF start]] passes_chain_after) auto
    assume "list_pos e es + 1 \<noteq> length es"
    then have "list_pos e es + 1 < length es" using list_pos_less [OF ne, of e] by simp
    then have "e_start s0 f \<noteq> None" if "f \<in> set [es ! (list_pos e es + 1), e]" for f
      using that start [OF nth_mem] e by auto
    then show "passes (kept X s0) (kept X s0) (bnd get_st (\<lambda>s. andthen (entry_setStartDate (es ! (list_pos e es + 1)) (e_start s e) 0 True)
            (chain_after (es ! (list_pos e es + 1)) [e])))"
      by (intro passes_set_to [OF kept_fields(4) [OF _ e]] passes_chain_after) auto
  qed
  then show ?thesis
    unfolding moveDownEntry_def Let_def
    by (cases o1; simp only: towner.case) ((rule dated_day_move, blast) | intro dated_intros)+
qed

end
