(* ===== verification/TT_Inv.thy ===== *)
theory TT_Inv
  imports TT_Dated
begin

text \<open>
  The invariant of a timetable: every entry is in the one schedule it says it is in, schedules are in
  order, entries in a schedule have a start and may be there, the status of a contribution says whether
  it is scheduled, and the lists of slots and contributions of the sessions agree with the objects.
  \<open>Y\<close> are slots that are being added or removed, \<open>Z\<close> sessions that are being deleted.
\<close>

section \<open>The invariant\<close>

text \<open>An entry may be in a schedule: slots are in the schedules of their session and of the event,
  contributions in the event or in a slot of their session, breaks in the event or in a slot.\<close>

fun fits :: "tt \<Rightarrow> tentry \<Rightarrow> towner \<Rightarrow> bool" where
  "fits s (SessE n) o1 = (\<exists>i. o1 = InSession i \<and> sl_session (slots s n) = Some i)"
| "fits s (ConfE n) o1 = (o1 = Event \<and> sl_session (slots s n) \<noteq> None)"
| "fits s (ContribE c) o1 = (c \<in> set (ev_contribs s) \<and> (case o1 of
       Event \<Rightarrow> c_session (contribs s c) = None
     | InSession _ \<Rightarrow> False
     | InSlot n \<Rightarrow> \<exists>i. c_session (contribs s c) = Some i \<and> sl_session (slots s n) = Some i))"
| "fits s (BreakE b) o1 = (b < next_break s \<and> (case o1 of
       Event \<Rightarrow> True | InSession _ \<Rightarrow> False | InSlot n \<Rightarrow> sl_session (slots s n) \<noteq> None))"

definition entries_ok :: "tt \<Rightarrow> bool" where
  "entries_ok s \<longleftrightarrow>
     (\<forall>o1 e. e \<in> set (entries_of s o1) \<longleftrightarrow> placed s e = Some o1) \<and>
     (\<forall>o1. distinct (entries_of s o1)) \<and>
     (\<forall>o1. in_order s o1) \<and>
     (\<forall>e o1. placed s e = Some o1 \<longrightarrow> e_start s e \<noteq> None \<and> fits s e o1) \<and>
     (\<forall>c. c_status (contribs s c) = StSch \<longleftrightarrow> placed s (ContribE c) \<noteq> None)"

definition objects_ok :: "nat set \<Rightarrow> nat set \<Rightarrow> tt \<Rightarrow> bool" where
  "objects_ok Y Z s \<longleftrightarrow>
     (\<forall>i. distinct (s_slots (sessions s i)) \<and> distinct (s_contribs (sessions s i))) \<and>
     (\<forall>n i. n \<in> set (s_slots (sessions s i)) \<longrightarrow> sl_session (slots s n) = Some i) \<and>
     (\<forall>n i. n \<notin> Y \<longrightarrow> sl_session (slots s n) = Some i \<longrightarrow> n \<in> set (s_slots (sessions s i)) \<and>
        placed s (SessE n) = Some (InSession i) \<and> placed s (ConfE n) = Some Event) \<and>
     (\<forall>n i. sl_session (slots s n) = Some i \<longrightarrow> n < next_slot s \<and> i < next_session s \<and> i \<in> set (sess_ids s) \<union> Z) \<and>
     (\<forall>c i. c \<in> set (s_contribs (sessions s i)) \<longleftrightarrow> c_session (contribs s c) = Some i) \<and>
     (\<forall>c i. c_session (contribs s c) = Some i \<longrightarrow> c \<in> set (ev_contribs s) \<and> i < next_session s \<and> i \<in> set (sess_ids s) \<union> Z) \<and>
     distinct (ev_contribs s) \<and> (\<forall>c \<in> set (ev_contribs s). c < next_contrib s) \<and>
     distinct (sess_ids s) \<and> (\<forall>i \<in> set (sess_ids s). i < next_session s)"

definition timetable_ok :: "nat set \<Rightarrow> nat set \<Rightarrow> tt \<Rightarrow> bool" where
  "timetable_ok Y Z s \<longleftrightarrow> entries_ok s \<and> objects_ok Y Z s"

lemma entries_okD:
  assumes "entries_ok s"
  shows "e \<in> set (entries_of s o1) \<longleftrightarrow> placed s e = Some o1" "distinct (entries_of s o1)" "in_order s o1"
    "placed s e = Some o1 \<Longrightarrow> e_start s e \<noteq> None" "placed s e = Some o1 \<Longrightarrow> fits s e o1"
    "c_status (contribs s c) = StSch \<longleftrightarrow> placed s (ContribE c) \<noteq> None"
  using assms by (simp_all add: entries_ok_def)

lemma entries_okI:
  assumes "\<And>o1 e. e \<in> set (entries_of s o1) \<longleftrightarrow> placed s e = Some o1" "\<And>o1. distinct (entries_of s o1)"
    "\<And>o1. in_order s o1" "\<And>e o1. placed s e = Some o1 \<Longrightarrow> e_start s e \<noteq> None"
    "\<And>e o1. placed s e = Some o1 \<Longrightarrow> fits s e o1"
    "\<And>c. c_status (contribs s c) = StSch \<longleftrightarrow> placed s (ContribE c) \<noteq> None"
  shows "entries_ok s"
  using assms by (simp add: entries_ok_def)

lemma objects_okD:
  assumes "objects_ok Y Z s"
  shows "distinct (s_slots (sessions s i))" "distinct (s_contribs (sessions s i))"
    "n \<in> set (s_slots (sessions s i)) \<Longrightarrow> sl_session (slots s n) = Some i"
    "n \<notin> Y \<Longrightarrow> sl_session (slots s n) = Some i \<Longrightarrow> n \<in> set (s_slots (sessions s i))"
    "n \<notin> Y \<Longrightarrow> sl_session (slots s n) = Some i \<Longrightarrow> placed s (SessE n) = Some (InSession i)"
    "n \<notin> Y \<Longrightarrow> sl_session (slots s n) = Some i \<Longrightarrow> placed s (ConfE n) = Some Event"
    "sl_session (slots s n) = Some i \<Longrightarrow> n < next_slot s"
    "sl_session (slots s n) = Some i \<Longrightarrow> i < next_session s"
    "sl_session (slots s n) = Some i \<Longrightarrow> i \<in> set (sess_ids s) \<union> Z"
    "c \<in> set (s_contribs (sessions s i)) \<longleftrightarrow> c_session (contribs s c) = Some i"
    "c_session (contribs s c) = Some i \<Longrightarrow> c \<in> set (ev_contribs s)"
    "c_session (contribs s c) = Some i \<Longrightarrow> i < next_session s"
    "c_session (contribs s c) = Some i \<Longrightarrow> i \<in> set (sess_ids s) \<union> Z"
    "distinct (ev_contribs s)" "c \<in> set (ev_contribs s) \<Longrightarrow> c < next_contrib s"
    "distinct (sess_ids s)" "i \<in> set (sess_ids s) \<Longrightarrow> i < next_session s"
  using assms unfolding objects_ok_def by blast+

lemma okD: "timetable_ok Y Z s \<Longrightarrow> entries_ok s" "timetable_ok Y Z s \<Longrightarrow> objects_ok Y Z s"
  by (simp_all add: timetable_ok_def)

lemma ok_linked: "timetable_ok Y Z s \<Longrightarrow> linked s"
  using entries_okD(1) by (auto simp: timetable_ok_def linked_def)

lemma ok_hasEntry: "timetable_ok Y Z s \<Longrightarrow> hasEntry s o1 e \<longleftrightarrow> placed s e = Some o1"
  using entries_okD(1) by (auto simp: timetable_ok_def hasEntry_def)

section \<open>Changes of dates\<close>

lemma fits_cong:
  assumes "ev_contribs t = ev_contribs s" "next_break t = next_break s"
    "\<And>n. sl_session (slots t n) = sl_session (slots s n)" "\<And>c. c_session (contribs t c) = c_session (contribs s c)"
  shows "fits t e o1 = fits s e o1"
  using assms by (cases e; cases o1; simp)

lemma kept_fits:
  assumes "stripped t = stripped s"
  shows "fits t e o1 = fits s e o1"
  by (rule fits_cong) (simp_all add: stripped_fields [OF assms] stripped_objects [OF assms])

lemma objects_ok_cong:
  assumes "stripped t = stripped s"
  shows "objects_ok Y Z t = objects_ok Y Z s"
  by (simp add: objects_ok_def stripped_fields [OF assms] stripped_objects [OF assms])

lemma ok_kept:
  assumes "timetable_ok Y Z s" "kept {} s t"
  shows "timetable_ok Y Z t"
proof -
  have strip: "stripped t = stripped s" using assms(2) by (rule kept_fields)
  have "entries_ok t"
  proof (rule entries_okI)
    fix o1 e
    show "e \<in> set (entries_of t o1) \<longleftrightarrow> placed t e = Some o1"
      using assms entries_okD(1) by (simp add: timetable_ok_def kept_fields(2) kept_placed)
    show "distinct (entries_of t o1)"
      using assms entries_okD(2) by (simp add: timetable_ok_def kept_fields(3))
    show "in_order t o1" using assms(2) by (simp add: kept_fields(5))
    show "placed t e = Some o1 \<Longrightarrow> e_start t e \<noteq> None"
      using kept_fields(4) [OF assms(2)] entries_okD(4) [OF okD(1) [OF assms(1)]] kept_placed [OF assms(2)] by metis
    show "placed t e = Some o1 \<Longrightarrow> fits t e o1"
      using entries_okD(5) [OF okD(1) [OF assms(1)]] by (simp add: kept_fits [OF strip] kept_placed [OF assms(2)])
    show "c_status (contribs t c) = StSch \<longleftrightarrow> placed t (ContribE c) \<noteq> None" for c
      using entries_okD(6) [OF okD(1) [OF assms(1)]] by (simp add: stripped_objects [OF strip] kept_placed [OF assms(2)])
  qed
  then show ?thesis using assms objects_ok_cong [OF strip] by (simp add: timetable_ok_def)
qed

lemma ok_dated_kept:
  assumes "dated m" "timetable_ok Y Z s" "m s = (Inr x, t)"
  shows "kept {} s t"
  by (rule dated_run [OF assms(1) ok_linked [OF assms(2)] entries_okD(3) [OF okD(1) [OF assms(2)]] assms(3)])

lemma ok_dated:
  assumes "dated m" "timetable_ok Y Z s" "m s = (Inr x, t)"
  shows "timetable_ok Y Z t"
  by (rule ok_kept [OF assms(2) ok_dated_kept [OF assms]])

lemma ok_dated_same:
  assumes "dated m" "timetable_ok Y Z s" "m s = (Inr x, t)"
  shows "stripped t = stripped s" "placed t = placed s"
  using ok_dated_kept [OF assms] by (simp_all add: kept_fields(1) kept_placed)

text \<open>The lists of objects do not depend on the entries, but for the slots outside \<open>Y\<close>.\<close>

lemma objects_ok_same:
  assumes "sessions t = sessions s" "slots t = slots s" "\<And>c. c_session (contribs t c) = c_session (contribs s c)"
    "ev_contribs t = ev_contribs s" "sess_ids t = sess_ids s"
    "next_session t = next_session s" "next_slot t = next_slot s" "next_contrib t = next_contrib s"
    "\<And>n. n \<notin> Y \<Longrightarrow> placed t (SessE n) = placed s (SessE n)" "\<And>n. n \<notin> Y \<Longrightarrow> placed t (ConfE n) = placed s (ConfE n)"
  shows "objects_ok Y Z t = objects_ok Y Z s"
  by (simp add: objects_ok_def assms)

section \<open>Taking an entry out\<close>

lemma drop_entry_run:
  assumes "drop_entry o1 e s = (Inr x, t)"
  shows "entries_of t o2 = (if o2 = o1 then remove1 e (entries_of s o1) else entries_of s o2)"
    "placed t = (placed s)(e := None)"
    "sessions t = sessions s" "slots t = slots s" "ev_contribs t = ev_contribs s" "sess_ids t = sess_ids s"
    "next_session t = next_session s" "next_slot t = next_slot s" "next_contrib t = next_contrib s"
    "next_break t = next_break s" "c_session (contribs t c) = c_session (contribs s c)"
    "c_status (contribs t c) = (if e = ContribE c then StNotSch else c_status (contribs s c))"
  using assms
  by (cases e; auto simp: drop_entry_def upd_sched_def upd_contrib_def upd_break_def entries_of_def)+

lemma drop_entry_view:
  assumes "drop_entry o1 e s = (Inr x, t)" "f \<noteq> e"
  shows "e_start t f = e_start s f" "e_dur t f = e_dur s f"
  using assms
  by (cases e; cases f; auto simp: drop_entry_def upd_sched_def upd_contrib_def upd_break_def)+

lemma ok_drop:
  assumes ok: "timetable_ok Y Z s" and at: "placed s e = Some o1" and slot: "\<And>n. slot_of e = Some n \<Longrightarrow> n \<in> Y"
    and run: "drop_entry o1 e s = (Inr x, t)"
  shows "timetable_ok Y Z t"
proof -
  note d = drop_entry_run [OF run] and v = drop_entry_view [OF run] and ent = entries_okD [OF okD(1) [OF ok]]
  have gone: "e \<notin> set (entries_of t o2)" for o2
    using ent(1) [of e o2] ent(2) [of o1] at by (auto simp: d(1))
  have mem: "f \<in> set (entries_of t o2) \<longleftrightarrow> f \<noteq> e \<and> f \<in> set (entries_of s o2)" for f o2
    using gone [of o2] ent(2) [of o1] by (auto simp: d(1) set_remove1_eq split: if_splits)
  have "entries_ok t"
  proof (rule entries_okI)
    fix o2 f
    show "f \<in> set (entries_of t o2) \<longleftrightarrow> placed t f = Some o2"
      using ent(1) by (auto simp: mem d(2))
    show "distinct (entries_of t o2)" using ent(2) by (simp add: d(1))
    have "map (entry_key t) (entries_of t o2) = map (entry_key s) (entries_of t o2)"
    proof (rule map_cong [OF refl])
      fix f
      assume "f \<in> set (entries_of t o2)"
      then have "f \<noteq> e" using gone by blast
      then show "entry_key t f = entry_key s f" by (simp add: entry_key_def date_key_def v)
    qed
    moreover have "sorted (map (entry_key s) (entries_of t o2))"
      using ent(3) by (simp add: d(1) in_order_def sorted_map_remove1)
    ultimately show "in_order t o2" unfolding in_order_def by argo
    show "placed t f = Some o2 \<Longrightarrow> e_start t f \<noteq> None"
      using ent(4) v(1) by (auto simp: d(2) split: if_splits)
    show "placed t f = Some o2 \<Longrightarrow> fits t f o2"
      using ent(5) fits_cong [of t s f o2] by (auto simp: d split: if_splits)
    show "c_status (contribs t c) = StSch \<longleftrightarrow> placed t (ContribE c) \<noteq> None" for c
      using ent(6) by (auto simp: d(2,12))
  qed
  moreover have "objects_ok Y Z t"
  proof -
    have "placed t (SessE n) = placed s (SessE n)" "placed t (ConfE n) = placed s (ConfE n)" if "n \<notin> Y" for n
      using slot that by (auto simp: d(2))
    then show ?thesis using okD(2) [OF ok] by (subst objects_ok_same [of t s]) (simp_all only: d)
  qed
  ultimately show ?thesis by (simp add: timetable_ok_def)
qed

text \<open>The objects of two timetables are linked in the same way.\<close>

definition same_objects :: "tt \<Rightarrow> tt \<Rightarrow> bool" where
  "same_objects s t \<longleftrightarrow>
     (\<forall>i. s_slots (sessions t i) = s_slots (sessions s i) \<and> s_contribs (sessions t i) = s_contribs (sessions s i)) \<and>
     (\<forall>n. sl_session (slots t n) = sl_session (slots s n)) \<and> (\<forall>c. c_session (contribs t c) = c_session (contribs s c)) \<and>
     ev_contribs t = ev_contribs s \<and> sess_ids t = sess_ids s \<and> next_session t = next_session s \<and>
     next_slot t = next_slot s \<and> next_contrib t = next_contrib s \<and> next_break t = next_break s"

lemma same_objects_refl [simp]: "same_objects s s"
  by (simp add: same_objects_def)

lemma same_objects_trans: "same_objects s t \<Longrightarrow> same_objects t u \<Longrightarrow> same_objects s u"
  by (simp add: same_objects_def)

lemma same_objects_fields:
  assumes "same_objects s t"
  shows "s_slots (sessions t i) = s_slots (sessions s i)" "s_contribs (sessions t i) = s_contribs (sessions s i)"
    "sl_session (slots t n) = sl_session (slots s n)" "c_session (contribs t c) = c_session (contribs s c)"
    "ev_contribs t = ev_contribs s" "sess_ids t = sess_ids s" "next_session t = next_session s"
    "next_slot t = next_slot s" "next_contrib t = next_contrib s" "next_break t = next_break s"
  using assms by (simp_all add: same_objects_def)

lemma same_objects_fits: "same_objects s t \<Longrightarrow> fits t e o1 = fits s e o1"
  by (rule fits_cong) (simp_all add: same_objects_def)

lemma kept_same_objects:
  assumes "kept X s t"
  shows "same_objects s t"
  using kept_fields(1) [OF assms] stripped_fields [OF kept_fields(1) [OF assms]] stripped_objects [OF kept_fields(1) [OF assms]]
  by (simp add: same_objects_def)

lemma objects_ok_transfer:
  assumes "same_objects s t" "\<And>n. n \<notin> Y \<Longrightarrow> placed t (SessE n) = placed s (SessE n)"
    "\<And>n. n \<notin> Y \<Longrightarrow> placed t (ConfE n) = placed s (ConfE n)"
  shows "objects_ok Y Z t = objects_ok Y Z s"
  by (simp add: objects_ok_def assms same_objects_fields [OF assms(1)])

lemma drop_same_objects: "drop_entry o1 e s = (Inr x, t) \<Longrightarrow> same_objects s t"
  by (simp add: same_objects_def drop_entry_run)

lemma ok_slot_listed:
  assumes "timetable_ok Y Z s" "placed s (SessE n) = Some o1" "\<not> slot_listed s o1 (SessE n)"
  shows "n \<in> Y"
proof -
  obtain i where i: "o1 = InSession i" "sl_session (slots s n) = Some i"
    using entries_okD(5) [OF okD(1) [OF assms(1)] assms(2)] by auto
  then show ?thesis using assms(3) objects_okD(4) [OF okD(2) [OF assms(1)] _ i(2)] by (auto simp: slot_listed_def)
qed

lemma ok_removeEntry:
  assumes ok: "timetable_ok Y Z s" and conf: "\<And>n. e = ConfE n \<Longrightarrow> n \<in> Y" and run: "removeEntry o1 e s = (Inr x, t)"
  shows "timetable_ok Y Z t \<and> same_objects s t \<and>
    placed t = (if placed s e = Some o1 then (placed s)(e := None) else placed s)"
proof (cases "placed s e = Some o1")
  case True
  then have "\<not> slot_listed s o1 e" and drop: "drop_entry o1 e s = (Inr x, t)"
    using run ok_hasEntry [OF ok] by (auto simp: removeEntry_def split: if_splits)
  then have "n \<in> Y" if "slot_of e = Some n" for n
    using that conf True ok_slot_listed [OF ok] by (cases e) auto
  then show ?thesis
    using ok_drop [OF ok True _ drop] drop_same_objects [OF drop] drop_entry_run(2) [OF drop] True by simp
next
  case False
  then show ?thesis using run ok ok_hasEntry [OF ok] by (auto simp: removeEntry_def)
qed

lemma ok_unschedule:
  assumes "timetable_ok Y Z s" "\<And>n. e = ConfE n \<Longrightarrow> n \<in> Y" "unschedule e s = (Inr x, t)"
  shows "timetable_ok Y Z t \<and> same_objects s t \<and> placed t = (placed s)(e := None)"
proof (cases "placed s e")
  case None
  then show ?thesis using assms by (auto simp: unschedule_def)
next
  case (Some o1)
  then have "removeEntry o1 e s = (Inr x, t)" using assms(3) by (simp add: unschedule_def)
  from ok_removeEntry [OF assms(1,2) this] show ?thesis by (simp add: Some)
qed

lemma ok_drop_all:
  assumes "timetable_ok Y Z s" "distinct es" "\<And>e. e \<in> set es \<Longrightarrow> placed s e = Some o1 \<and> slot_of e = None"
    "for_each es (drop_entry o1) s = (Inr x, t)"
  shows "timetable_ok Y Z t \<and> same_objects s t \<and> placed t = (\<lambda>e. if e \<in> set es then None else placed s e)"
  using assms
proof (induction es arbitrary: s)
  case (Cons e es)
  obtain y u where u: "drop_entry o1 e s = (Inr y, u)" and rest: "for_each es (drop_entry o1) u = (Inr x, t)"
    using Cons.prems(4) unfolding for_each.simps andthen_Inr by blast
  have ok: "timetable_ok Y Z u" using ok_drop [OF Cons.prems(1) _ _ u] Cons.prems(3) [of e] by simp
  have "placed u f = Some o1 \<and> slot_of f = None" if "f \<in> set es" for f
    using that Cons.prems(2,3) by (auto simp: drop_entry_run(2) [OF u])
  from Cons.IH [OF ok _ this rest] Cons.prems(2) show ?case
    using same_objects_trans [OF drop_same_objects [OF u]] by (auto simp: drop_entry_run(2) [OF u])
qed simp

lemma fits_in_slot: "fits s e (InSlot n) \<Longrightarrow> slot_of e = None"
  by (cases e) auto

lemma ok_clear:
  assumes "timetable_ok Y Z s" "clear_schedule (InSlot n) s = (Inr x, t)"
  shows "timetable_ok Y Z t \<and> same_objects s t \<and> placed t = (\<lambda>e. if placed s e = Some (InSlot n) then None else placed s e)"
proof -
  note ent = entries_okD [OF okD(1) [OF assms(1)]]
  have run: "for_each (entries_of s (InSlot n)) (drop_entry (InSlot n)) s = (Inr x, t)"
    using assms(2) by (simp add: clear_schedule_def)
  have "placed s e = Some (InSlot n) \<and> slot_of e = None" if "e \<in> set (entries_of s (InSlot n))" for e
    using that ent(1,5) [of e "InSlot n"] by (metis fits_in_slot)
  from ok_drop_all [OF assms(1) ent(2) this run] show ?thesis by (simp add: ent(1))
qed

section \<open>Putting an entry in\<close>

lemma place_entry_run:
  assumes "place_entry o1 e s = (Inr x, t)"
  shows "entries_of t o2 = entries_of s o2" "placed t = (placed s)(e := Some o1)"
    "same_objects s t" "c_status (contribs t c) = (if e = ContribE c then StSch else c_status (contribs s c))"
  using assms
  by (cases e; auto simp: place_entry_def Let_def upd_sched_def upd_contrib_def entries_of_def same_objects_def split: if_splits)+

lemma place_entry_view:
  assumes "place_entry o1 e s = (Inr x, t)"
  shows "e_start t f = e_start s f" "e_dur t f = e_dur s f"
  using assms
  by (cases e; cases f; auto simp: place_entry_def Let_def upd_sched_def upd_contrib_def split: if_splits)+

definition insert_entry :: "towner \<Rightarrow> tentry \<Rightarrow> (tt, unit) prog" where
  "insert_entry o1 e = andthen (upd_sched o1 (\<lambda>x. x\<lparr>sch_entries := sch_entries x @ [e]\<rparr>))
     (andthen (place_entry o1 e) (reSchedule o1))"

lemma insert_entry_run:
  assumes "insert_entry o1 e s = (Inr x, t)"
  shows "mset (entries_of t o2) = mset (if o2 = o1 then entries_of s o1 @ [e] else entries_of s o2)"
    "o2 \<noteq> o1 \<Longrightarrow> entries_of t o2 = entries_of s o2" "in_order t o1"
    "placed t = (placed s)(e := Some o1)" "same_objects s t"
    "c_status (contribs t c) = (if e = ContribE c then StSch else c_status (contribs s c))"
    "e_start t f = e_start s f" "e_dur t f = e_dur s f"
proof -
  let ?s1 = "s\<lparr>scheds := (scheds s)(o1 := (scheds s o1)\<lparr>sch_entries := entries_of s o1 @ [e]\<rparr>)\<rparr>"
  obtain y u where place: "place_entry o1 e ?s1 = (Inr y, u)" and sort: "reSchedule o1 u = (Inr x, t)"
    using assms unfolding insert_entry_def andthen_Inr upd_sched_def modify_run entries_of_def by blast
  have t: "t = u\<lparr>scheds := (scheds u)(o1 := (scheds u o1)\<lparr>sch_entries := sort_entries u (entries_of u o1)\<rparr>)\<rparr>"
    using sort by (simp add: reSchedule_def Let_def upd_sched_def split: if_splits)
  have entries: "entries_of t o2 = (if o2 = o1 then sort_entries u (entries_of s o1 @ [e]) else entries_of s o2)" for o2
    using place_entry_run(1) [OF place] by (simp add: t entries_of_def)
  have view: "e_start t f = e_start s f" "e_dur t f = e_dur s f" "e_start t f = e_start u f" "e_dur t f = e_dur u f" for f
    using place_entry_view [OF place, of f] by (cases f; simp add: t)+
  show "mset (entries_of t o2) = mset (if o2 = o1 then entries_of s o1 @ [e] else entries_of s o2)"
    by (simp add: entries sort_entries_def)
  show "o2 \<noteq> o1 \<Longrightarrow> entries_of t o2 = entries_of s o2" by (simp add: entries)
  have "entry_key t = entry_key u" by (simp add: fun_eq_iff entry_key_def date_key_def view(3,4))
  then show "in_order t o1" by (simp add: in_order_def entries sorted_sort_entries)
  show "placed t = (placed s)(e := Some o1)" using place_entry_run(2) [OF place] by (simp add: t)
  show "same_objects s t" using place_entry_run(3) [OF place] by (simp add: t same_objects_def)
  show "c_status (contribs t c) = (if e = ContribE c then StSch else c_status (contribs s c))"
    using place_entry_run(4) [OF place] by (simp add: t)
  show "e_start t f = e_start s f" "e_dur t f = e_dur s f" by (rule view)+
qed

lemma ok_insert:
  assumes ok: "timetable_ok Y Z s" and free: "placed s e = None" and fits: "fits s e o1" and start: "e_start s e \<noteq> None"
    and slot: "\<And>n. slot_of e = Some n \<Longrightarrow> n \<in> Y" and run: "insert_entry o1 e s = (Inr x, t)"
  shows "timetable_ok Y Z t"
proof -
  note d = insert_entry_run [OF run] and ent = entries_okD [OF okD(1) [OF ok]]
  have key: "entry_key t = entry_key s" by (simp add: fun_eq_iff entry_key_def date_key_def d(7,8))
  have mem: "f \<in> set (entries_of t o2) \<longleftrightarrow> f \<in> set (entries_of s o2) \<or> (f = e \<and> o2 = o1)" for f o2
    using arg_cong [OF d(1) [of o2], of set_mset] by auto
  have "entries_ok t"
  proof (rule entries_okI)
    fix o2 f
    show "f \<in> set (entries_of t o2) \<longleftrightarrow> placed t f = Some o2"
      using ent(1) free by (auto simp: mem d(4))
    have "distinct (if o2 = o1 then entries_of s o1 @ [e] else entries_of s o2)"
      using ent(1) [of e] ent(2) free by auto
    then show "distinct (entries_of t o2)" using d(1) [of o2] by (metis mset_eq_imp_distinct_iff)
    show "in_order t o2"
      using ent(3) [of o2] d(2) [of o2] d(3) by (cases "o2 = o1") (simp_all add: in_order_def key)
    show "placed t f = Some o2 \<Longrightarrow> e_start t f \<noteq> None"
      using ent(4) start by (auto simp: d(4,7) split: if_splits)
    show "placed t f = Some o2 \<Longrightarrow> fits t f o2"
      using ent(5) fits by (auto simp: same_objects_fits [OF d(5)] d(4) split: if_splits)
    show "c_status (contribs t c) = StSch \<longleftrightarrow> placed t (ContribE c) \<noteq> None" for c
      using ent(6) by (auto simp: d(4,6))
  qed
  moreover have "objects_ok Y Z t"
    using slot okD(2) [OF ok] by (subst objects_ok_transfer [OF d(5)]) (auto simp: d(4))
  ultimately show ?thesis by (simp add: timetable_ok_def)
qed

end
