(* ===== verification/TT_Add.thy ===== *)
theory TT_Add
  imports TT_Inv
begin

text \<open>
  Putting entries into schedules keeps the invariant: an entry that gets into a schedule has a start, and
  \<open>addEntry\<close> of the event, of sessions and of slots checks that it may be there.
\<close>

lemma andthen_InrE:
  assumes "andthen m k s = (Inr x, t)"
  obtains y u where "m s = (Inr y, u)" "k u = (Inr x, t)"
  using assms unfolding andthen_Inr by blast

lemma bnd_InrE:
  assumes "bnd m k s = (Inr x, t)"
  obtains y u where "m s = (Inr y, u)" "k y u = (Inr x, t)"
  using assms unfolding bnd_Inr by blast

section \<open>A start that is set stays\<close>

lemma kept_start_run:
  assumes "dated m" "linked s" "m s = (Inr x, t)" "e_start s e \<noteq> None"
  shows "e_start t e \<noteq> None"
  by (rule kept_fields(4) [OF kept_run [OF assms(1-3)] assms(4)])

lemma linked_run:
  assumes "dated m" "linked s" "m s = (Inr x, t)"
  shows "linked t"
  by (rule kept_linked [OF kept_run [OF assms]])

lemma started_by_write:
  assumes run: "andthen a (andthen w b) s = (Inr x, t)" and "dated a" "dated b" "linked s"
    and w: "\<And>y u v. w u = (Inr y, v) \<Longrightarrow> entries_of v = entries_of u \<and> placed v = placed u \<and> e_start v e \<noteq> None"
  shows "e_start t e \<noteq> None"
proof -
  obtain y u z v where a: "a s = (Inr y, u)" and wu: "w u = (Inr z, v)" and b: "b v = (Inr x, t)"
    using run unfolding andthen_Inr by blast
  have "linked v"
    using linked_run [OF \<open>dated a\<close> \<open>linked s\<close> a] w [OF wu] by (simp add: linked_def)
  then show ?thesis using kept_start_run [OF \<open>dated b\<close> _ b] w [OF wu] by blast
qed

lemma contrib_started:
  assumes "contrib_setStartDate c (Some d) check s = (Inr x, t)" "linked s"
  shows "e_start t (ContribE c) \<noteq> None"
  using assms unfolding contrib_setStartDate_def option.case
  by (elim started_by_write)
    (auto simp: upd_contrib_def entries_of_def fun_eq_iff contrib_verifyStartDate_def Let_def intro!: dated_intros)

lemma slot_started:
  assumes "slot_setStartDate n (Some d) check mv cd s = (Inr x, t)" "linked s"
  shows "sl_start (slots t n) \<noteq> None"
proof -
  obtain y u where a: "when_do (check \<noteq> 0) (slot_verifyStartDate n d check) s = (Inr y, u)"
    and rest: "andthen (ret ()) (andthen (upd_slot n (\<lambda>x. x\<lparr>sl_start := Some d\<rparr>))
        (andthen (case sl_start (slots u n) of
            None \<Rightarrow> ret ()
          | Some old \<Rightarrow> when_do (d - old \<noteq> 0 \<and> mv)
              (andthen (report (OfOwner (InSlot n)) ''ENTRIES_MOVED'' (InSlot n) (Some d))
                (bnd get_st (\<lambda>t. slot_moveEntriesBelow (d - old) (entries_of t (InSlot n))))))
        (andthen (when_do (check \<noteq> 0 \<and> cd) (bnd get_st (\<lambda>t. slot_verifyDuration n (sl_dur (slots t n)) check)))
        (andthen (synchro (SessE n)) (andthen (synchro (ConfE n)) (bnd (slot_session n) sess_fit)))))) u = (Inr x, t)"
    using assms(1) unfolding slot_setStartDate_def slot_setStartDate_with_def option.case andthen_ret andthen_Inr bnd_get_st
    by blast
  have "dated (when_do (check \<noteq> 0) (slot_verifyStartDate n d check))" by (intro dated_intros)
  then have "linked u" using assms(2) a by (rule linked_run)
  from started_by_write [OF rest _ _ this, of "SessE n"] show ?thesis
    by (auto simp: upd_slot_def entries_of_def fun_eq_iff intro!: dated_intros)
qed

lemma break_started:
  assumes "break_setStartDate b (Some d) check s = (Inr x, t)" "linked s"
  shows "e_start t (BreakE b) \<noteq> None"
proof (cases "placed s (BreakE b)")
  case None
  then show ?thesis using assms by (auto simp: break_setStartDate_def upd_break_def)
next
  case (Some o1)
  then obtain a where "andthen (if d < a then
                    (if check = 1 then raise_exn ParentTimingError
                     else when_do (check = 2)
                       (andthen (owner_setStartDate o1 d check)
                         (bnd get_st (\<lambda>t. report (OfBreak b) ''OWNER_START_DATE_EXTENDED'' o1 (owner_start t o1)))))
                  else ret ())
         (andthen (break_extend_end b o1 d check)
         (andthen (upd_break b (\<lambda>x. x\<lparr>b_start := Some d\<rparr>))
         (andthen (synchro (BreakE b))
         (bnd get_st (\<lambda>t. bnd (need (b_end (breaks t b))) (\<lambda>be. break_extend_end b o1 be check)))))) s = (Inr x, t)"
    using assms(1) unfolding break_setStartDate_def bnd_get_st need_Some Some option.case bnd_Inr
    by (auto simp: need_def split: option.splits)
  then have "andthen (andthen (if d < a then
                    (if check = 1 then raise_exn ParentTimingError
                     else when_do (check = 2)
                       (andthen (owner_setStartDate o1 d check)
                         (bnd get_st (\<lambda>t. report (OfBreak b) ''OWNER_START_DATE_EXTENDED'' o1 (owner_start t o1)))))
                  else ret ())
         (break_extend_end b o1 d check))
         (andthen (upd_break b (\<lambda>x. x\<lparr>b_start := Some d\<rparr>))
         (andthen (synchro (BreakE b))
         (bnd get_st (\<lambda>t. bnd (need (b_end (breaks t b))) (\<lambda>be. break_extend_end b o1 be check))))) s = (Inr x, t)"
    by (simp only: andthen_assoc)
  from started_by_write [OF this _ _ assms(2), of "BreakE b"] show ?thesis
    by (auto simp: upd_break_def entries_of_def fun_eq_iff intro!: dated_intros)
qed

lemma entry_started:
  assumes "entry_setStartDate e (Some d) check mv s = (Inr x, t)" "linked s"
  shows "e_start t e \<noteq> None"
proof (cases e)
  case (ContribE c)
  then show ?thesis using contrib_started [of c d check s x t] assms by simp
next
  case (BreakE b)
  then show ?thesis using break_started [of b d check s x t] assms by simp
qed (use slot_started [OF _ assms(2)] assms in auto)

lemma fit_dates_start:
  assumes "fit_dates o1 e check s = (Inr x, t)" "linked s"
  shows "e_start t e \<noteq> None"
proof (cases "e_start s e")
  case None
  then obtain free u where free: "free_or_extend o1 (e_dur s e) check s = (Inr free, u)"
    and run: "(case free of None \<Rightarrow> raise_exn ParentTimingError | Some d \<Rightarrow> entry_setStartDate e (Some d) 2 False) u = (Inr x, t)"
    using assms(1) unfolding fit_dates_def bnd_get_st None option.case bnd_Inr by blast
  have "dated (free_or_extend o1 (e_dur s e) check)" by (intro dated_intros)
  then have "linked u" using assms(2) free by (rule linked_run)
  then show ?thesis using entry_started [of e] run by (cases free) auto
next
  case (Some a)
  have "dated (fit_dates o1 e check)" by (intro dated_intros)
  from kept_start_run [OF this assms(2,1), of e] Some show ?thesis by simp
qed

section \<open>\<open>_addEntry\<close>\<close>

lemma addEntry_raw_split:
  assumes "addEntry_raw o1 e check s = (Inr x, t)"
  obtains y u z v w r where "unschedule e s = (Inr y, u)" "fit_dates o1 e check u = (Inr z, v)"
    "check_end o1 e v = (Inr w, v)" "insert_entry o1 e v = (Inr r, t)"
proof -
  obtain y u z v w v' where run: "unschedule e s = (Inr y, u)" "fit_dates o1 e check u = (Inr z, v)"
    "check_end o1 e v = (Inr w, v')" "insert_entry o1 e v' = (Inr x, t)"
    using assms unfolding addEntry_raw_def insert_entry_def andthen_Inr by blast
  have "reads (check_end o1 e)" unfolding check_end_def by (intro read_intros)
  then have "v' = v" using run(3) by (rule reads_run)
  then show thesis using that run by blast
qed

lemma ok_addEntry_raw:
  assumes ok: "timetable_ok Y Z s" and fits: "fits s e o1" and slot: "\<And>n. slot_of e = Some n \<Longrightarrow> n \<in> Y"
    and run: "addEntry_raw o1 e check s = (Inr x, t)"
  shows "timetable_ok Y Z t \<and> same_objects s t \<and> placed t = (placed s)(e := Some o1)"
proof -
  obtain y u z v w r where un: "unschedule e s = (Inr y, u)" and fit: "fit_dates o1 e check u = (Inr z, v)"
    and ins: "insert_entry o1 e v = (Inr r, t)"
    using run by (rule addEntry_raw_split)
  have "n \<in> Y" if "e = ConfE n" for n using that slot by simp
  then have u: "timetable_ok Y Z u" "same_objects s u" "placed u = (placed s)(e := None)"
    using ok_unschedule [OF ok _ un] by blast+
  have "dated (fit_dates o1 e check)" by (intro dated_intros)
  note v = ok_dated [OF this u(1) fit] ok_dated_kept [OF this u(1) fit]
  have same: "same_objects s v" using same_objects_trans [OF u(2) kept_same_objects [OF v(2)]] .
  have placed: "placed v = (placed s)(e := None)" using kept_placed [OF v(2)] u(3) by simp
  have "timetable_ok Y Z t"
    using v(1) placed fits fit_dates_start [OF fit ok_linked [OF u(1)]] slot ins
    by (intro ok_insert [of Y Z v e o1 r t]) (simp_all add: same_objects_fits [OF same])
  then show ?thesis
    using same_objects_trans [OF same insert_entry_run(5) [OF ins]] insert_entry_run(4) [OF ins] placed by simp
qed

section \<open>\<open>addEntry\<close> of the event, of sessions and of slots\<close>

lemma ok_conf_addEntry:
  assumes ok: "timetable_ok Y Z s"
    and e: "\<And>b. e = BreakE b \<Longrightarrow> b < next_break s"
      "\<And>n. slot_of e = Some n \<Longrightarrow> e = ConfE n \<and> n \<in> Y \<and> sl_session (slots s n) \<noteq> None"
    and run: "conf_addEntry e check s = (Inr x, t)"
  shows "timetable_ok Y Z t \<and> same_objects s t \<and> placed t = (placed s)(e := Some Event)"
proof (cases "placed s e = Some Event")
  case True
  then show ?thesis using run ok by (auto simp: conf_addEntry_def ok_hasEntry [OF ok])
next
  case False
  then have none: "\<not> hasEntry s Event e" using ok_hasEntry [OF ok] by simp
  have "addEntry_raw Event e check s = (Inr x, t) \<and> fits s e Event"
  proof (cases e)
    case (ContribE c)
    then show ?thesis using run none by (simp add: conf_addEntry_def split: if_splits)
  next
    case (BreakE b)
    then show ?thesis using run none e(1) by (simp add: conf_addEntry_def)
  next
    case (SessE n)
    then have "slot_of e = Some n" by simp
    from e(2) [OF this] SessE show ?thesis by simp
  next
    case (ConfE n)
    then have "slot_of e = Some n" by simp
    from e(2) [OF this] ConfE run none show ?thesis by (simp add: conf_addEntry_def)
  qed
  then have raw: "addEntry_raw Event e check s = (Inr x, t)" and fits: "fits s e Event" by simp_all
  have "n \<in> Y" if "slot_of e = Some n" for n using e(2) [OF that] by blast
  then show ?thesis by (rule ok_addEntry_raw [OF ok fits _ raw])
qed

lemma ok_sess_addEntry:
  assumes ok: "timetable_ok Y Z s" and e: "e = SessE n" "n \<in> Y" "sl_session (slots s n) = Some i"
    and run: "sess_addEntry i e s = (Inr x, t)"
  shows "timetable_ok Y Z t \<and> same_objects s t \<and> placed t = (placed s)(e := Some (InSession i))"
proof (cases "placed s e = Some (InSession i)")
  case True
  then show ?thesis using run ok by (auto simp: sess_addEntry_def ok_hasEntry [OF ok])
next
  case False
  then have raw: "addEntry_raw (InSession i) e 2 s = (Inr x, t)"
    using run e by (auto simp: sess_addEntry_def ok_hasEntry [OF ok] split: if_splits)
  have "fits s e (InSession i)" using e by simp
  then show ?thesis using ok_addEntry_raw [OF ok _ _ raw] e by auto
qed

lemma ok_slot_addEntry:
  assumes ok: "timetable_ok Y Z s"
    and e: "\<And>b. e = BreakE b \<Longrightarrow> b < next_break s \<and> sl_session (slots s n) \<noteq> None"
    and run: "slot_addEntry n e check s = (Inr x, t)"
  shows "timetable_ok Y Z t \<and> same_objects s t \<and> placed t = (placed s)(e := Some (InSlot n))"
proof (cases "placed s e = Some (InSlot n)")
  case True
  then show ?thesis using run ok by (auto simp: slot_addEntry_def ok_hasEntry [OF ok])
next
  case False
  then have none: "\<not> hasEntry s (InSlot n) e" using ok_hasEntry [OF ok] by simp
  have leaf: "slot_of e = None"
    using none run by (cases e) (simp_all add: slot_addEntry_def)
  obtain y u where pre: "slot_fit_dates n e check s = (Inr y, u)" and raw: "addEntry_raw (InSlot n) e check u = (Inr x, t)"
  proof (cases e)
    case (BreakE b)
    then have "andthen (slot_fit_dates n e check) (addEntry_raw (InSlot n) e check) s = (Inr x, t)"
      using none run by (simp add: slot_addEntry_def)
    then show thesis unfolding andthen_Inr using that by blast
  next
    case (ContribE c)
    then have "andthen (slot_fit_dates n e check) (addEntry_raw (InSlot n) e check) s = (Inr x, t)"
      using none run by (simp add: slot_addEntry_def slot_session_def split: option.splits if_splits)
    then show thesis unfolding andthen_Inr using that by blast
  qed (use leaf in auto)
  have "fits s e (InSlot n)"
  proof (cases e)
    case (ContribE c)
    with none run obtain i where "sl_session (slots s n) = Some i" "c_session (contribs s c) = Some i"
      by (auto simp: slot_addEntry_def slot_session_def in_session_def split: option.splits if_splits)
    then show ?thesis using objects_okD(11) [OF okD(2) [OF ok]] ContribE by simp
  qed (use e leaf in auto)
  moreover have dated: "dated (slot_fit_dates n e check)" by (intro dated_intros)
  note u = ok_dated [OF dated ok pre] ok_dated_kept [OF dated ok pre]
  ultimately have "fits u e (InSlot n)"
    using same_objects_fits [OF kept_same_objects [OF u(2)]] by blast
  from ok_addEntry_raw [OF u(1) this _ raw] leaf show ?thesis
    using same_objects_trans [OF kept_same_objects [OF u(2)]] kept_placed [OF u(2)] by simp
qed

end
