(* ===== verification/TT_Objects.thy ===== *)
theory TT_Objects
  imports TT_Add
begin

text \<open>
  The operations on the objects of a timetable keep its invariant: making contributions, breaks, slots and
  sessions, giving a contribution to a session, and deleting them.
\<close>

section \<open>Making objects\<close>

lemma objects_okI:
  assumes "\<And>i. distinct (s_slots (sessions s i))" "\<And>i. distinct (s_contribs (sessions s i))"
    "\<And>n i. n \<in> set (s_slots (sessions s i)) \<Longrightarrow> sl_session (slots s n) = Some i"
    "\<And>n i. n \<notin> Y \<Longrightarrow> sl_session (slots s n) = Some i \<Longrightarrow> n \<in> set (s_slots (sessions s i)) \<and>
        placed s (SessE n) = Some (InSession i) \<and> placed s (ConfE n) = Some Event"
    "\<And>n i. sl_session (slots s n) = Some i \<Longrightarrow> n < next_slot s \<and> i < next_session s \<and> i \<in> set (sess_ids s) \<union> Z"
    "\<And>c i. c \<in> set (s_contribs (sessions s i)) \<longleftrightarrow> c_session (contribs s c) = Some i"
    "\<And>c i. c_session (contribs s c) = Some i \<Longrightarrow> c \<in> set (ev_contribs s) \<and> i < next_session s \<and> i \<in> set (sess_ids s) \<union> Z"
    "distinct (ev_contribs s)" "\<And>c. c \<in> set (ev_contribs s) \<Longrightarrow> c < next_contrib s"
    "distinct (sess_ids s)" "\<And>i. i \<in> set (sess_ids s) \<Longrightarrow> i < next_session s"
  shows "objects_ok Y Z s"
  unfolding objects_ok_def using assms by blast

text \<open>Entries stay in order when what is read of them stays.\<close>

lemma entries_ok_view:
  assumes "entries_ok s" "\<And>o1. entries_of t o1 = entries_of s o1" "placed t = placed s"
    "\<And>e o1. placed s e = Some o1 \<Longrightarrow> e_start t e = e_start s e \<and> e_dur t e = e_dur s e \<and> fits t e o1"
    "\<And>c. c_status (contribs t c) = StSch \<longleftrightarrow> c_status (contribs s c) = StSch"
  shows "entries_ok t"
proof (rule entries_okI)
  fix o1 e
  show "e \<in> set (entries_of t o1) \<longleftrightarrow> placed t e = Some o1" using entries_okD(1) [OF assms(1)] by (simp add: assms)
  show "distinct (entries_of t o1)" using entries_okD(2) [OF assms(1)] by (simp add: assms)
  have "map (entry_key t) (entries_of s o1) = map (entry_key s) (entries_of s o1)"
    using assms(4) entries_okD(1) [OF assms(1)] by (simp add: entry_key_def date_key_def)
  then show "in_order t o1" using entries_okD(3) [OF assms(1), of o1] by (simp add: in_order_def assms(2) del: map_eq_conv)
  show "placed t e = Some o1 \<Longrightarrow> e_start t e \<noteq> None" "placed t e = Some o1 \<Longrightarrow> fits t e o1"
    using assms(4) entries_okD(4) [OF assms(1)] by (auto simp: assms(3))
  show "c_status (contribs t c) = StSch \<longleftrightarrow> placed t (ContribE c) \<noteq> None" for c
    using assms(5) entries_okD(6) [OF assms(1)] by (simp add: assms(3))
qed

lemma unplaced_fresh:
  assumes "timetable_ok Y Z s"
  shows "c \<notin> set (ev_contribs s) \<Longrightarrow> placed s (ContribE c) = None"
    "next_break s \<le> b \<Longrightarrow> placed s (BreakE b) = None"
    "sl_session (slots s n) = None \<Longrightarrow> placed s (SessE n) = None"
    "sl_session (slots s n) = None \<Longrightarrow> placed s (ConfE n) = None"
  using entries_okD(5) [OF okD(1) [OF assms]]
  by (metis fits.simps option.exhaust leD option.distinct(1))+

lemma ok_new_break:
  assumes ok: "timetable_ok Y Z s" and run: "new_break a d s = (Inr b, t)"
  shows "timetable_ok Y Z t" "b < next_break t" "same_objects s (t\<lparr>next_break := next_break s\<rparr>)" "placed t = placed s" "b = next_break s"
proof -
  have none: "placed s (BreakE (next_break s)) = None" by (rule unplaced_fresh [OF ok]) simp
  have t: "t = s\<lparr>breaks := (breaks s)(b := \<lparr>b_start = Some a, b_dur = d\<rparr>), next_break := Suc b, placed := (placed s)(BreakE b := None)\<rparr>"
    and b: "b = next_break s"
    using run by (auto simp: new_break_def Let_def)
  show "b = next_break s" "b < next_break t" by (simp_all add: t b)
  show placed: "placed t = placed s" using none by (auto simp: t b fun_eq_iff)
  show same: "same_objects s (t\<lparr>next_break := next_break s\<rparr>)" by (simp add: same_objects_def t)
  have "entries_ok t"
  proof (rule entries_ok_view [OF okD(1) [OF ok]])
    fix e o1
    assume at: "placed s e = Some o1"
    then have "e \<noteq> BreakE b" using none b by auto
    then show "e_start t e = e_start s e \<and> e_dur t e = e_dur s e \<and> fits t e o1"
      using entries_okD(5) [OF okD(1) [OF ok] at] by (cases e) (auto simp: t b split: towner.splits)
  qed (simp_all add: placed, simp_all add: t entries_of_def)
  moreover have "objects_ok Y Z t"
    using okD(2) [OF ok] by (subst objects_ok_same [of t s]) (simp_all add: placed, simp_all add: t)
  ultimately show "timetable_ok Y Z t" by (simp add: timetable_ok_def)
qed

lemma ok_new_contribution:
  assumes ok: "timetable_ok Y Z s" and c: "c = next_contrib s"
    and t: "t = s\<lparr>contribs := (contribs s)(c := \<lparr>c_start = None, c_dur = 0, c_session = None, c_status = StNotSch\<rparr>),
       next_contrib := Suc c, ev_contribs := ev_contribs s @ [c], placed := (placed s)(ContribE c := None)\<rparr>"
  shows "timetable_ok Y Z t" "placed t = placed s"
proof -
  have new: "c \<notin> set (ev_contribs s)" using objects_okD(15) [OF okD(2) [OF ok], of c] c by auto
  have none: "placed s (ContribE c) = None" by (rule unplaced_fresh(1) [OF ok new])
  then have none': "c_status (contribs s c) \<noteq> StSch" using entries_okD(6) [OF okD(1) [OF ok]] by simp
  have none'': "c_session (contribs s c) = None"
    using objects_okD(11) [OF okD(2) [OF ok], of c] new by (cases "c_session (contribs s c)") auto
  show placed: "placed t = placed s" using none by (auto simp: t fun_eq_iff)
  have "entries_ok t"
  proof (rule entries_ok_view [OF okD(1) [OF ok]])
    fix e o1
    assume at: "placed s e = Some o1"
    then have "e \<noteq> ContribE c" using none by auto
    then show "e_start t e = e_start s e \<and> e_dur t e = e_dur s e \<and> fits t e o1"
      using entries_okD(5) [OF okD(1) [OF ok] at] by (cases e) (auto simp: t split: towner.splits)
  qed (simp_all add: placed, simp_all add: t entries_of_def none')
  moreover note o = objects_okD [OF okD(2) [OF ok]]
  have "objects_ok Y Z t"
  proof (rule objects_okI)
    show "n \<notin> Y \<Longrightarrow> sl_session (slots t n) = Some i \<Longrightarrow> n \<in> set (s_slots (sessions t i)) \<and>
        placed t (SessE n) = Some (InSession i) \<and> placed t (ConfE n) = Some Event" for n i
      using o(4,5,6) by (simp add: t)
    show "a \<in> set (s_contribs (sessions t i)) \<longleftrightarrow> c_session (contribs t a) = Some i" for a i
      using o(10) none'' by (simp add: t)
    show "c_session (contribs t a) = Some i \<Longrightarrow> a \<in> set (ev_contribs t) \<and> i < next_session t \<and> i \<in> set (sess_ids t) \<union> Z" for a i
      using o(11,12,13) by (auto simp: t split: if_splits)
    show "a \<in> set (ev_contribs t) \<Longrightarrow> a < next_contrib t" for a
      using o(15) [of a] by (auto simp: t c)
    show "n \<in> set (s_slots (sessions t i)) \<Longrightarrow> sl_session (slots t n) = Some i" for n i
      using o(3) by (simp add: t)
    show "sl_session (slots t n) = Some i \<Longrightarrow> n < next_slot t \<and> i < next_session t \<and> i \<in> set (sess_ids t) \<union> Z" for n i
      using o(7,8,9) [of n i] by (simp add: t)
    show "i \<in> set (sess_ids t) \<Longrightarrow> i < next_session t" for i
      using o(17) by (simp add: t)
  qed (simp_all add: t new o(1,2,14,16))
  ultimately show "timetable_ok Y Z t" by (simp add: timetable_ok_def)
qed

lemma ok_new_slot:
  assumes ok: "timetable_ok Y Z s" and i: "i \<in> set (sess_ids s)" and run: "new_slot i s = (Inr n, t)"
  shows "timetable_ok (insert n Y) Z t" "sl_session (slots t n) = Some i" "s_slots (sessions t j) = s_slots (sessions s j)"
    "sess_ids t = sess_ids s" "n \<notin> set (s_slots (sessions t j))" "placed t = placed s" "n = next_slot s"
proof -
  note o = objects_okD [OF okD(2) [OF ok]]
  have n: "n = next_slot s" and t: "t = s\<lparr>slots := (slots s)(n := \<lparr>sl_session = Some i, sl_start = None, sl_dur = 60\<rparr>), next_slot := Suc n,
       scheds := (scheds s)(InSlot n := \<lparr>sch_entries = [], entry_gen = 0\<rparr>), placed := (placed s)(SessE n := None, ConfE n := None)\<rparr>"
    using run by (auto simp: new_slot_def Let_def)
  have none: "sl_session (slots s n) = None" using o(7) [of n] n by fastforce
  note un = unplaced_fresh(3,4) [OF ok none]
  have empty: "entries_of s (InSlot n) = []"
  proof -
    have "placed s e \<noteq> Some (InSlot n)" for e
      using entries_okD(5) [OF okD(1) [OF ok], of e "InSlot n"] none by (cases e) auto
    then show ?thesis using entries_okD(1) [OF okD(1) [OF ok], of _ "InSlot n"] by (cases "entries_of s (InSlot n)") auto
  qed
  show "sl_session (slots t n) = Some i" "s_slots (sessions t j) = s_slots (sessions s j)" "sess_ids t = sess_ids s" "n = next_slot s"
    by (simp_all add: t n)
  show placed: "placed t = placed s" using un by (auto simp: t fun_eq_iff)
  have notin: "n \<notin> set (s_slots (sessions s j))" for j using o(3) [of n j] none by auto
  then show "n \<notin> set (s_slots (sessions t j))" by (simp add: t)
  have "entries_ok t"
  proof (rule entries_ok_view [OF okD(1) [OF ok]])
    fix e o1
    assume at: "placed s e = Some o1"
    then have "e \<noteq> SessE n" "e \<noteq> ConfE n" using un by auto
    then show "e_start t e = e_start s e \<and> e_dur t e = e_dur s e \<and> fits t e o1"
      using entries_okD(5) [OF okD(1) [OF ok] at] none
      by (cases e) (auto simp: t split: towner.splits)
  next
    fix o1
    show "entries_of t o1 = entries_of s o1" using empty by (simp add: t entries_of_def)
  qed (simp_all add: placed, simp_all add: t)
  moreover have "objects_ok (insert n Y) Z t"
  proof (rule objects_okI)
    show "m \<notin> insert n Y \<Longrightarrow> sl_session (slots t m) = Some j \<Longrightarrow> m \<in> set (s_slots (sessions t j)) \<and>
        placed t (SessE m) = Some (InSession j) \<and> placed t (ConfE m) = Some Event" for m j
      using o(4,5,6) by (simp add: t)
    show "m \<in> set (s_slots (sessions t j)) \<Longrightarrow> sl_session (slots t m) = Some j" for m j
      using o(3) [of m j] notin [of j] by (auto simp: t)
    show "sl_session (slots t m) = Some j \<Longrightarrow> m < next_slot t \<and> j < next_session t \<and> j \<in> set (sess_ids t) \<union> Z" for m j
      using o(7,8,9) [of m j] o(17) i by (auto simp: t n split: if_splits)
    show "a \<in> set (s_contribs (sessions t j)) \<longleftrightarrow> c_session (contribs t a) = Some j" for a j
      using o(10) by (simp add: t)
    show "c_session (contribs t a) = Some j \<Longrightarrow> a \<in> set (ev_contribs t) \<and> j < next_session t \<and> j \<in> set (sess_ids t) \<union> Z" for a j
      using o(11,12,13) by (auto simp: t)
    show "j \<in> set (sess_ids t) \<Longrightarrow> j < next_session t" for j
      using o(17) by (simp add: t)
    show "c \<in> set (ev_contribs t) \<Longrightarrow> c < next_contrib t" for c
      using o(15) by (simp add: t)
  qed (simp_all add: t o(1,2,14,16))
  ultimately show "timetable_ok (insert n Y) Z t" by (simp add: timetable_ok_def)
qed

section \<open>Contributions and their sessions\<close>

text \<open>Timetables with the same slots in the same sessions.\<close>

definition same_slots :: "tt \<Rightarrow> tt \<Rightarrow> bool" where
  "same_slots s t \<longleftrightarrow> (\<forall>i. s_slots (sessions t i) = s_slots (sessions s i)) \<and>
     (\<forall>n. sl_session (slots t n) = sl_session (slots s n)) \<and> ev_contribs t = ev_contribs s \<and> sess_ids t = sess_ids s \<and>
     next_session t = next_session s \<and> next_slot t = next_slot s \<and> next_break t = next_break s"

lemma same_slots_refl [simp]: "same_slots s s"
  by (simp add: same_slots_def)

lemma same_slots_trans: "same_slots s t \<Longrightarrow> same_slots t u \<Longrightarrow> same_slots s u"
  by (simp add: same_slots_def)

lemma same_objects_slots: "same_objects s t \<Longrightarrow> same_slots s t"
  by (simp add: same_objects_def same_slots_def)

lemma same_slots_fields:
  assumes "same_slots s t"
  shows "s_slots (sessions t i) = s_slots (sessions s i)" "sl_session (slots t n) = sl_session (slots s n)"
    "ev_contribs t = ev_contribs s" "sess_ids t = sess_ids s" "next_session t = next_session s"
    "next_slot t = next_slot s" "next_break t = next_break s"
  using assms by (simp_all add: same_slots_def)

lemma ok_membership:
  assumes ok: "timetable_ok Y Z u" and none: "placed u (ContribE c) = None"
    and v: "v = u\<lparr>sessions := S, contribs := (contribs u)(c := (contribs u c)\<lparr>c_session := new\<rparr>)\<rparr>"
    and S: "\<And>i. s_slots (S i) = s_slots (sessions u i)" "\<And>i. distinct (s_contribs (S i))"
      "\<And>a i. a \<in> set (s_contribs (S i)) \<longleftrightarrow> (if a = c then new else c_session (contribs u a)) = Some i"
    and new: "\<And>j. new = Some j \<Longrightarrow> c \<in> set (ev_contribs u) \<and> j < next_session u \<and> j \<in> set (sess_ids u) \<union> Z"
  shows "timetable_ok Y Z v" "same_slots u v"
proof -
  show "same_slots u v" by (simp add: same_slots_def v S)
  have "entries_ok v"
  proof (rule entries_ok_view [OF okD(1) [OF ok]])
    fix e o1
    assume at: "placed u e = Some o1"
    then have "e \<noteq> ContribE c" using none by auto
    then show "e_start v e = e_start u e \<and> e_dur v e = e_dur u e \<and> fits v e o1"
      using entries_okD(5) [OF okD(1) [OF ok] at] by (cases e) (auto simp: v split: towner.splits)
  qed (simp_all add: v entries_of_def)
  moreover note o = objects_okD [OF okD(2) [OF ok]]
  have "objects_ok Y Z v"
  proof (rule objects_okI)
    show "n \<in> set (s_slots (sessions v i)) \<Longrightarrow> sl_session (slots v n) = Some i" for n i
      using o(3) by (simp add: v S)
    show "n \<notin> Y \<Longrightarrow> sl_session (slots v n) = Some i \<Longrightarrow> n \<in> set (s_slots (sessions v i)) \<and>
        placed v (SessE n) = Some (InSession i) \<and> placed v (ConfE n) = Some Event" for n i
      using o(4,5,6) by (simp add: v S)
    show "sl_session (slots v n) = Some i \<Longrightarrow> n < next_slot v \<and> i < next_session v \<and> i \<in> set (sess_ids v) \<union> Z" for n i
      using o(7,8,9) [of n i] by (simp add: v)
    show "a \<in> set (s_contribs (sessions v i)) \<longleftrightarrow> c_session (contribs v a) = Some i" for a i
      using S(3) [of a i] by (simp add: v)
    show "c_session (contribs v a) = Some i \<Longrightarrow> a \<in> set (ev_contribs v) \<and> i < next_session v \<and> i \<in> set (sess_ids v) \<union> Z" for a i
      using o(11,12,13) [of a i] new [of i] by (simp add: v split: if_splits)
    show "i \<in> set (sess_ids v) \<Longrightarrow> i < next_session v" for i using o(17) by (simp add: v)
    show "a \<in> set (ev_contribs v) \<Longrightarrow> a < next_contrib v" for a using o(15) by (simp add: v)
  qed (simp_all add: v S o(1,2,14,16))
  ultimately show "timetable_ok Y Z v" by (simp add: timetable_ok_def)
qed

lemma ok_in_session:
  assumes "timetable_ok Y Z s"
  shows "in_session s i c \<longleftrightarrow> c_session (contribs s c) = Some i"
  using objects_okD(10) [OF okD(2) [OF assms], of c i] by (auto simp: in_session_def)

lemma ok_sess_removeContribution:
  assumes ok: "timetable_ok Y Z s" and run: "sess_removeContribution i c s = (Inr x, t)"
  shows "timetable_ok Y Z t" "same_slots s t"
    "c_session (contribs t a) = (if a = c \<and> c_session (contribs s c) = Some i then None else c_session (contribs s a))"
    "placed t e = (if e = ContribE c \<and> c_session (contribs s c) = Some i then None else placed s e)"
proof -
  have "timetable_ok Y Z t \<and> same_slots s t \<and>
    (\<forall>a. c_session (contribs t a) = (if a = c \<and> c_session (contribs s c) = Some i then None else c_session (contribs s a))) \<and>
    (\<forall>e. placed t e = (if e = ContribE c \<and> c_session (contribs s c) = Some i then None else placed s e))"
  proof (cases "c_session (contribs s c) = Some i")
    case True
    obtain y u where un: "unschedule (ContribE c) s = (Inr y, u)"
      and t: "t = u\<lparr>sessions := (sessions u)(i := (sessions u i)\<lparr>s_contribs := remove1 c (s_contribs (sessions u i))\<rparr>),
          contribs := (contribs u)(c := (contribs u c)\<lparr>c_session := None\<rparr>)\<rparr>"
    proof -
      have "andthen (unschedule (ContribE c))
          (andthen (upd_session i (\<lambda>x. x\<lparr>s_contribs := remove1 c (s_contribs x)\<rparr>))
                   (upd_contrib c (\<lambda>x. x\<lparr>c_session := None\<rparr>))) s = (Inr x, t)"
        using run True unfolding sess_removeContribution_def bnd_get_st when_run ok_in_session [OF ok] by simp
      then show thesis by (rule andthen_InrE, intro that) (auto simp: upd_session_def upd_contrib_def)
    qed
    have u: "timetable_ok Y Z u" "same_objects s u" "placed u = (placed s)(ContribE c := None)"
      using ok_unschedule [OF ok _ un] by simp_all
    note o = objects_okD [OF okD(2) [OF u(1)]]
    have sess: "c_session (contribs u c) = Some i" using True same_objects_fields(4) [OF u(2)] by simp
    have "a \<in> set (s_contribs (((sessions u)(i := (sessions u i)\<lparr>s_contribs := remove1 c (s_contribs (sessions u i))\<rparr>)) j))
        \<longleftrightarrow> (if a = c then None else c_session (contribs u a)) = Some j" for a j
      using o(10) [of a j] sess o(2) [of i] o(10) [of a i] by (auto simp: set_remove1_eq)
    then have "timetable_ok Y Z t" "same_slots u t"
      using o(2) u(3) by (auto intro!: ok_membership [OF u(1) _ t])
    then show ?thesis
      using same_slots_trans [OF same_objects_slots [OF u(2)]] same_objects_fields(4) [OF u(2)] True
      by (simp add: t u(3))
  next
    case False
    then show ?thesis using run ok by (simp add: sess_removeContribution_def ok_in_session [OF ok])
  qed
  then show "timetable_ok Y Z t" "same_slots s t"
    "c_session (contribs t a) = (if a = c \<and> c_session (contribs s c) = Some i then None else c_session (contribs s a))"
    "placed t e = (if e = ContribE c \<and> c_session (contribs s c) = Some i then None else placed s e)"
    by blast+
qed

lemma ok_contrib_setSession:
  assumes ok: "timetable_ok Y Z s" and new: "\<And>j. new = Some j \<Longrightarrow> j \<in> set (sess_ids s) \<and> c \<in> set (ev_contribs s)"
    and run: "contrib_setSession c new s = (Inr x, t)"
  shows "timetable_ok Y Z t \<and> same_slots s t \<and> c_session (contribs t c) = new \<and>
    placed t = (if c_session (contribs s c) = new then placed s else (placed s)(ContribE c := None))"
proof (cases "c_session (contribs s c) = new")
  case True
  then show ?thesis using run ok by (simp add: contrib_setSession_def)
next
  case False
  let ?enter = "case new of None \<Rightarrow> ret ()
        | Some j \<Rightarrow> bnd get_st (\<lambda>t. when_do (\<not> in_session t j c) (upd_session j (\<lambda>x. x\<lparr>s_contribs := s_contribs x @ [c]\<rparr>)))"
  have "andthen (unschedule (ContribE c))
       (andthen (case c_session (contribs s c) of None \<Rightarrow> ret () | Some i \<Rightarrow> sess_removeContribution i c)
       (andthen (upd_contrib c (\<lambda>x. x\<lparr>c_session := new\<rparr>)) ?enter)) s = (Inr x, t)"
    using run False by (simp only: contrib_setSession_def bnd_get_st if_False)
  then obtain y u where un: "unschedule (ContribE c) s = (Inr y, u)"
    and "andthen (case c_session (contribs s c) of None \<Rightarrow> ret () | Some i \<Rightarrow> sess_removeContribution i c)
       (andthen (upd_contrib c (\<lambda>x. x\<lparr>c_session := new\<rparr>)) ?enter) u = (Inr x, t)"
    by (rule andthen_InrE)
  then obtain z v where leave: "(case c_session (contribs s c) of None \<Rightarrow> ret () | Some i \<Rightarrow> sess_removeContribution i c) u = (Inr z, v)"
    and rest: "andthen (upd_contrib c (\<lambda>x. x\<lparr>c_session := new\<rparr>)) ?enter v = (Inr x, t)"
    by (blast elim: andthen_InrE)
  have u: "timetable_ok Y Z u" "same_objects s u" "placed u = (placed s)(ContribE c := None)"
    using ok_unschedule [OF ok _ un] by simp_all
  have v: "timetable_ok Y Z v \<and> same_slots s v \<and> c_session (contribs v c) = None \<and> placed v = (placed s)(ContribE c := None)"
  proof (cases "c_session (contribs s c)")
    case None
    then show ?thesis using leave u same_objects_slots [OF u(2)] same_objects_fields(4) [OF u(2)] by simp
  next
    case (Some i)
    then have run': "sess_removeContribution i c u = (Inr z, v)" using leave by simp
    from ok_sess_removeContribution [OF u(1) run'] show ?thesis
      using same_slots_trans [OF same_objects_slots [OF u(2)]] same_objects_fields(4) [OF u(2)] Some u(3)
      by (auto simp: fun_eq_iff)
  qed
  then have okv: "timetable_ok Y Z v" and samev: "same_slots s v" and free: "c_session (contribs v c) = None"
    and nowhere: "placed v (ContribE c) = None" and placed: "placed v = (placed s)(ContribE c := None)" by auto
  note o = objects_okD [OF okD(2) [OF okv]]
  have out: "c \<notin> set (s_contribs (sessions v j))" for j using o(10) [of c j] free by simp
  define S where "S = (case new of None \<Rightarrow> sessions v
      | Some j \<Rightarrow> (sessions v)(j := (sessions v j)\<lparr>s_contribs := s_contribs (sessions v j) @ [c]\<rparr>))"
  have t: "t = v\<lparr>sessions := S, contribs := (contribs v)(c := (contribs v c)\<lparr>c_session := new\<rparr>)\<rparr>"
    using rest out by (cases new) (auto simp: S_def upd_contrib_def upd_session_def in_session_def)
  have S1: "s_slots (S i) = s_slots (sessions v i)" for i by (simp add: S_def split: option.split)
  have S2: "distinct (s_contribs (S i))" for i using o(2) out by (simp add: S_def split: option.split)
  have S3: "a \<in> set (s_contribs (S i)) \<longleftrightarrow> (if a = c then new else c_session (contribs v a)) = Some i" for a i
    using o(10) [of a i] free by (auto simp: S_def split: option.split)
  have target: "c \<in> set (ev_contribs v) \<and> j < next_session v \<and> j \<in> set (sess_ids v) \<union> Z" if "new = Some j" for j
    using new [OF that] same_slots_fields [OF samev] o(17) [of j] by simp
  have "timetable_ok Y Z t" "same_slots v t"
    using ok_membership [OF okv nowhere t S1 S2 S3 target] by blast+
  then show ?thesis using same_slots_trans [OF samev] False by (simp add: t placed)
qed

end
