(* ===== verification/TT_Sessions.thy ===== *)
theory TT_Sessions
  imports TT_Objects
begin

text \<open>
  Adding slots to sessions, removing slots and deleting sessions keep the invariant of a timetable; after
  a session is deleted, nothing of it is left.
\<close>

section \<open>The slots of a session\<close>

lemma ok_slot_list:
  assumes ok: "timetable_ok Y Z s" and t: "t = s\<lparr>sessions := (sessions s)(i := (sessions s i)\<lparr>s_slots := L\<rparr>)\<rparr>"
    and L: "distinct L" "\<And>m. m \<in> set L \<Longrightarrow> sl_session (slots s m) = Some i"
      "\<And>m. m \<notin> Y' \<Longrightarrow> sl_session (slots s m) = Some i \<Longrightarrow> m \<in> set L" and Y: "Y \<subseteq> Y'"
  shows "timetable_ok Y' Z t"
proof -
  note o = objects_okD [OF okD(2) [OF ok]]
  have fits: "fits t e o1 = fits s e o1" for e o1 by (rule fits_cong) (simp_all add: t)
  have "entries_ok t"
    by (rule entries_ok_view [OF okD(1) [OF ok]])
      (auto simp: fits entries_okD(5) [OF okD(1) [OF ok]], auto simp: t entries_of_def e_view_cong [where t = "sessions_update _ _"])
  moreover have "objects_ok Y' Z t"
  proof (rule objects_okI)
    show "distinct (s_slots (sessions t j))" for j using o(1) L by (simp add: t)
    show "distinct (s_contribs (sessions t j))" for j using o(2) by (simp add: t)
    show "m \<in> set (s_slots (sessions t j)) \<Longrightarrow> sl_session (slots t m) = Some j" for m j
      using o(3) L by (auto simp: t split: if_splits)
    show "m \<notin> Y' \<Longrightarrow> sl_session (slots t m) = Some j \<Longrightarrow> m \<in> set (s_slots (sessions t j)) \<and>
        placed t (SessE m) = Some (InSession j) \<and> placed t (ConfE m) = Some Event" for m j
      using o(4,5,6) [of m j] L(3) [of m] Y by (auto simp: t)
    show "m \<in> set (s_contribs (sessions t j)) \<longleftrightarrow> c_session (contribs t m) = Some j" for m j
      using o(10) by (simp add: t)
    show "sl_session (slots t m) = Some j \<Longrightarrow> m < next_slot t \<and> j < next_session t \<and> j \<in> set (sess_ids t) \<union> Z" for m j
      using o(7,8,9) [of m j] by (simp add: t)
    show "c_session (contribs t c) = Some j \<Longrightarrow> c \<in> set (ev_contribs t) \<and> j < next_session t \<and> j \<in> set (sess_ids t) \<union> Z" for c j
      using o(11,12,13) [of c j] by (simp add: t)
    show "c \<in> set (ev_contribs t) \<Longrightarrow> c < next_contrib t" "j \<in> set (sess_ids t) \<Longrightarrow> j < next_session t" for c j
      using o(15,17) by (simp_all add: t)
  qed (simp_all add: t o(14,16))
  ultimately show ?thesis by (simp add: timetable_ok_def)
qed

lemma ok_settle:
  assumes ok: "timetable_ok (insert n Y) Z s" and n: "n \<in> set (s_slots (sessions s i))" "sl_session (slots s n) = Some i"
    "placed s (SessE n) = Some (InSession i)" "placed s (ConfE n) = Some Event"
  shows "timetable_ok Y Z s"
proof -
  note o = objects_okD [OF okD(2) [OF ok]]
  have "objects_ok Y Z s"
  proof (rule objects_okI)
    show "m \<notin> Y \<Longrightarrow> sl_session (slots s m) = Some j \<Longrightarrow> m \<in> set (s_slots (sessions s j)) \<and>
        placed s (SessE m) = Some (InSession j) \<and> placed s (ConfE m) = Some Event" for m j
      using o(4,5,6) [of m j] n by (cases "m = n") auto
    show "m \<in> set (s_slots (sessions s j)) \<Longrightarrow> sl_session (slots s m) = Some j" for m j by (rule o(3))
    show "sl_session (slots s m) = Some j \<Longrightarrow> m < next_slot s \<and> j < next_session s \<and> j \<in> set (sess_ids s) \<union> Z" for m j
      using o(7,8,9) [of m j] by blast
    show "c_session (contribs s c) = Some j \<Longrightarrow> c \<in> set (ev_contribs s) \<and> j < next_session s \<and> j \<in> set (sess_ids s) \<union> Z" for c j
      using o(11,12,13) [of c j] by blast
  qed (fact o)+
  then show ?thesis using okD(1) [OF ok] by (simp add: timetable_ok_def)
qed

lemma ok_addSlot:
  assumes ok: "timetable_ok (insert n Y) Z s" and n: "sl_session (slots s n) = Some i" "n \<notin> set (s_slots (sessions s i))"
    and run: "sess_addSlot i n s = (Inr x, t)"
  shows "timetable_ok Y Z t" "n \<in> set (s_slots (sessions t i))"
proof -
  let ?s1 = "s\<lparr>sessions := (sessions s)(i := (sessions s i)\<lparr>s_slots := s_slots (sessions s i) @ [n]\<rparr>)\<rparr>"
  have "upd_session i (\<lambda>x. x\<lparr>s_slots := s_slots x @ [n]\<rparr>) s = (Inr (), ?s1)" by (simp add: upd_session_def)
  then have "andthen (sess_fit i) (andthen (sess_addEntry i (SessE n)) (conf_addEntry (ConfE n) 2)) ?s1 = (Inr x, t)"
    using run unfolding sess_addSlot_def andthen_run [of _ _ s] by simp
  then obtain y u where fit: "sess_fit i ?s1 = (Inr y, u)"
    and "andthen (sess_addEntry i (SessE n)) (conf_addEntry (ConfE n) 2) u = (Inr x, t)" by (rule andthen_InrE)
  then obtain z v where add1: "sess_addEntry i (SessE n) u = (Inr z, v)" and add2: "conf_addEntry (ConfE n) 2 v = (Inr x, t)"
    by (blast elim: andthen_InrE)
  note o = objects_okD [OF okD(2) [OF ok]]
  have s1: "timetable_ok (insert n Y) Z ?s1"
  proof (rule ok_slot_list [OF ok refl])
    show "distinct (s_slots (sessions s i) @ [n])" using o(1) n by simp
    show "m \<in> set (s_slots (sessions s i) @ [n]) \<Longrightarrow> sl_session (slots s m) = Some i" for m
      using o(3) [of m i] n by auto
    show "m \<notin> insert n Y \<Longrightarrow> sl_session (slots s m) = Some i \<Longrightarrow> m \<in> set (s_slots (sessions s i) @ [n])" for m
      using o(4) [of m i] by simp
  qed simp
  have dated: "dated (sess_fit i)" by (intro dated_intros)
  have u: "timetable_ok (insert n Y) Z u" "same_objects ?s1 u"
    using ok_dated [OF dated s1 fit] kept_same_objects [OF ok_dated_kept [OF dated s1 fit]] by blast+
  have su: "sl_session (slots u n) = Some i" using n same_objects_fields(3) [OF u(2), of n] by simp
  have v: "timetable_ok (insert n Y) Z v" "same_objects u v" "placed v = (placed u)(SessE n := Some (InSession i))"
    using ok_sess_addEntry [OF u(1) refl insertI1 su add1] by simp_all
  have sv: "sl_session (slots v n) = Some i" using su same_objects_fields(3) [OF v(2), of n] by simp
  have "timetable_ok (insert n Y) Z t \<and> same_objects v t \<and> placed t = (placed v)(ConfE n := Some Event)"
    by (rule ok_conf_addEntry [OF v(1) _ _ add2]) (simp_all add: sv)
  then have t: "timetable_ok (insert n Y) Z t" "same_objects v t" "placed t = (placed v)(ConfE n := Some Event)" by simp_all
  note same = same_objects_trans [OF u(2) same_objects_trans [OF v(2) t(2)]]
  show listed: "n \<in> set (s_slots (sessions t i))" using same_objects_fields(1) [OF same, of i] by simp
  show "timetable_ok Y Z t"
    using same_objects_fields(3) [OF same, of n] n by (intro ok_settle [OF t(1) listed]) (simp_all add: t(3) v(3))
qed

lemma ok_detach:
  assumes ok: "timetable_ok (insert n Y) Z s" and none: "placed s (SessE n) = None" "placed s (ConfE n) = None"
    "\<And>e. placed s e \<noteq> Some (InSlot n)" "\<And>i. n \<notin> set (s_slots (sessions s i))"
    and t: "t = s\<lparr>slots := (slots s)(n := (slots s n)\<lparr>sl_session := None\<rparr>)\<rparr>"
  shows "timetable_ok Y Z t"
proof -
  note o = objects_okD [OF okD(2) [OF ok]]
  have "entries_ok t"
  proof (rule entries_ok_view [OF okD(1) [OF ok]])
    fix e o1
    assume at: "placed s e = Some o1"
    then have "e \<noteq> SessE n" "e \<noteq> ConfE n" "o1 \<noteq> InSlot n" using none by auto
    then show "e_start t e = e_start s e \<and> e_dur t e = e_dur s e \<and> fits t e o1"
      using entries_okD(5) [OF okD(1) [OF ok] at] by (cases e) (auto simp: t split: towner.splits)
  qed (simp_all add: t entries_of_def)
  moreover have "objects_ok Y Z t"
  proof (rule objects_okI)
    show "m \<in> set (s_slots (sessions t j)) \<Longrightarrow> sl_session (slots t m) = Some j" for m j
      using o(3) none(4) by (auto simp: t)
    show "m \<notin> Y \<Longrightarrow> sl_session (slots t m) = Some j \<Longrightarrow> m \<in> set (s_slots (sessions t j)) \<and>
        placed t (SessE m) = Some (InSession j) \<and> placed t (ConfE m) = Some Event" for m j
      using o(4,5,6) [of m j] by (auto simp: t split: if_splits)
    show "sl_session (slots t m) = Some j \<Longrightarrow> m < next_slot t \<and> j < next_session t \<and> j \<in> set (sess_ids t) \<union> Z" for m j
      using o(7,8,9) [of m j] by (auto simp: t split: if_splits)
    show "m \<in> set (s_contribs (sessions t j)) \<longleftrightarrow> c_session (contribs t m) = Some j" for m j
      using o(10) by (simp add: t)
    show "c_session (contribs t c) = Some j \<Longrightarrow> c \<in> set (ev_contribs t) \<and> j < next_session t \<and> j \<in> set (sess_ids t) \<union> Z" for c j
      using o(11,12,13) [of c j] by (simp add: t)
    show "c \<in> set (ev_contribs t) \<Longrightarrow> c < next_contrib t" "j \<in> set (sess_ids t) \<Longrightarrow> j < next_session t" for c j
      using o(15,17) by (simp_all add: t)
  qed (simp_all add: t o(1,2,14,16))
  ultimately show ?thesis by (simp add: timetable_ok_def)
qed

lemma ok_dropSlot:
  assumes ok: "timetable_ok Y Z s" and n: "n \<in> set (s_slots (sessions s i))" and run: "sess_dropSlot i n s = (Inr x, t)"
  shows "timetable_ok Y Z t" "s_slots (sessions t i) = remove1 n (s_slots (sessions s i))" "sess_ids t = sess_ids s"
    "c_session (contribs t c) = c_session (contribs s c)"
    "placed t e = (if e = SessE n \<or> e = ConfE n \<or> placed s e = Some (InSlot n) then None else placed s e)"
    "sl_session (slots t m) = (if m = n then None else sl_session (slots s m))"
proof -
  note o = objects_okD [OF okD(2) [OF ok]]
  let ?s1 = "s\<lparr>sessions := (sessions s)(i := (sessions s i)\<lparr>s_slots := remove1 n (s_slots (sessions s i))\<rparr>)\<rparr>"
  have "upd_session i (\<lambda>x. x\<lparr>s_slots := remove1 n (s_slots x)\<rparr>) s = (Inr (), ?s1)" by (simp add: upd_session_def)
  then have "andthen (removeEntry (InSession i) (SessE n)) (andthen (removeEntry Event (ConfE n))
      (andthen (clear_schedule (InSlot n)) (upd_slot n (\<lambda>x. x\<lparr>sl_session := None\<rparr>)))) ?s1 = (Inr x, t)"
    using run unfolding sess_dropSlot_def andthen_run [of _ _ s] by simp
  then obtain y u where rem1: "removeEntry (InSession i) (SessE n) ?s1 = (Inr y, u)"
    and "andthen (removeEntry Event (ConfE n)) (andthen (clear_schedule (InSlot n)) (upd_slot n (\<lambda>x. x\<lparr>sl_session := None\<rparr>))) u = (Inr x, t)"
    by (rule andthen_InrE)
  then obtain z v where rem2: "removeEntry Event (ConfE n) u = (Inr z, v)"
    and "andthen (clear_schedule (InSlot n)) (upd_slot n (\<lambda>x. x\<lparr>sl_session := None\<rparr>)) v = (Inr x, t)" by (blast elim: andthen_InrE)
  then obtain r w where clear: "clear_schedule (InSlot n) v = (Inr r, w)"
    and "upd_slot n (\<lambda>x. x\<lparr>sl_session := None\<rparr>) w = (Inr x, t)" by (blast elim: andthen_InrE)
  then have t: "t = w\<lparr>slots := (slots w)(n := (slots w n)\<lparr>sl_session := None\<rparr>)\<rparr>" by (simp add: upd_slot_def)
  have sess: "sl_session (slots s n) = Some i" using o(3) n by blast
  have s1: "timetable_ok (insert n Y) Z ?s1"
  proof (rule ok_slot_list [OF ok refl])
    show "distinct (remove1 n (s_slots (sessions s i)))" using o(1) by simp
    show "m \<in> set (remove1 n (s_slots (sessions s i))) \<Longrightarrow> sl_session (slots s m) = Some i" for m
      using o(3) [of m i] by (meson notin_set_remove1)
    show "m \<notin> insert n Y \<Longrightarrow> sl_session (slots s m) = Some i \<Longrightarrow> m \<in> set (remove1 n (s_slots (sessions s i)))" for m
      using o(4) [of m i] by simp
  qed auto
  have at1: "placed s (SessE n) = None \<or> placed s (SessE n) = Some (InSession i)"
    using entries_okD(5) [OF okD(1) [OF ok], of "SessE n"] sess by (cases "placed s (SessE n)") auto
  have at2: "placed s (ConfE n) = None \<or> placed s (ConfE n) = Some Event"
    using entries_okD(5) [OF okD(1) [OF ok], of "ConfE n"] by (cases "placed s (ConfE n)") auto
  have u: "timetable_ok (insert n Y) Z u" "same_objects ?s1 u" "placed u = (placed s)(SessE n := None)"
    using ok_removeEntry [OF s1 _ rem1] at1 by (auto simp: fun_eq_iff)
  have v: "timetable_ok (insert n Y) Z v" "same_objects u v" "placed v = (placed s)(SessE n := None, ConfE n := None)"
    using ok_removeEntry [OF u(1) _ rem2] at2 by (auto simp: fun_eq_iff u(3))
  have w: "timetable_ok (insert n Y) Z w" "same_objects v w"
    "placed w = (\<lambda>e. if placed v e = Some (InSlot n) then None else placed v e)"
    using ok_clear [OF v(1) clear] by simp_all
  note same = same_objects_fields [OF same_objects_trans [OF u(2) same_objects_trans [OF v(2) w(2)]]]
  have out: "n \<notin> set (s_slots (sessions w j))" for j
    using same(1) [of j] o(1) [of i] o(3) [of n j] sess by (auto simp: set_remove1_eq split: if_splits)
  show "timetable_ok Y Z t"
    using out by (intro ok_detach [OF w(1) _ _ _ _ t]) (simp_all add: w(3) v(3))
  show "s_slots (sessions t i) = remove1 n (s_slots (sessions s i))" "sess_ids t = sess_ids s"
    "c_session (contribs t c) = c_session (contribs s c)"
    "sl_session (slots t m) = (if m = n then None else sl_session (slots s m))"
    using same by (simp_all add: t)
  show "placed t e = (if e = SessE n \<or> e = ConfE n \<or> placed s e = Some (InSlot n) then None else placed s e)"
    by (auto simp: t w(3) v(3))
qed

lemma ok_removeSlot:
  assumes ok: "timetable_ok Y Z s" and run: "sess_removeSlot i n force s = (Inr x, t)"
  shows "timetable_ok Y Z t"
proof (cases "n \<in> set (s_slots (sessions s i))")
  case True
  then have "andthen (sess_dropSlot i n) (sess_fit i) s = (Inr x, t)"
    using run by (simp add: sess_removeSlot_def Let_def split: if_splits)
  then obtain y u where drop: "sess_dropSlot i n s = (Inr y, u)" and fit: "sess_fit i u = (Inr x, t)" by (rule andthen_InrE)
  have "dated (sess_fit i)" by (intro dated_intros)
  then show ?thesis using ok_dropSlot(1) [OF ok True drop] fit by (rule ok_dated)
next
  case False
  then show ?thesis using run ok by (simp add: sess_removeSlot_def Let_def)
qed

section \<open>Deleting a session\<close>

lemma ok_removeContributions:
  assumes "timetable_ok Y Z s" "for_each cs (sess_removeContribution i) s = (Inr x, t)"
  shows "timetable_ok Y Z t \<and> same_slots s t \<and>
    (\<forall>c. c_session (contribs t c) = (if c \<in> set cs \<and> c_session (contribs s c) = Some i then None else c_session (contribs s c)))"
  using assms
proof (induction cs arbitrary: s)
  case (Cons c cs)
  then obtain y u where u: "sess_removeContribution i c s = (Inr y, u)" and rest: "for_each cs (sess_removeContribution i) u = (Inr x, t)"
    unfolding for_each.simps by (blast elim: andthen_InrE)
  note c = ok_sess_removeContribution [OF Cons.prems(1) u]
  from Cons.IH [OF c(1) rest] show ?case using same_slots_trans [OF c(2)] by (auto simp: c(3))
qed simp

lemma ok_dropSlots:
  assumes "timetable_ok Y Z s" "distinct ns" "set ns \<subseteq> set (s_slots (sessions s i))" "for_each ns (sess_dropSlot i) s = (Inr x, t)"
  shows "timetable_ok Y Z t \<and> set (s_slots (sessions t i)) = set (s_slots (sessions s i)) - set ns \<and> sess_ids t = sess_ids s \<and>
    (\<forall>c. c_session (contribs t c) = c_session (contribs s c)) \<and>
    (\<forall>m. sl_session (slots t m) = (if m \<in> set ns then None else sl_session (slots s m)))"
  using assms
proof (induction ns arbitrary: s)
  case (Cons n ns)
  then obtain y u where u: "sess_dropSlot i n s = (Inr y, u)" and rest: "for_each ns (sess_dropSlot i) u = (Inr x, t)"
    unfolding for_each.simps by (blast elim: andthen_InrE)
  have n: "n \<in> set (s_slots (sessions s i))" using Cons.prems(3) by simp
  note d = ok_dropSlot [OF Cons.prems(1) n u]
  have dist: "distinct (s_slots (sessions s i))" by (rule objects_okD(1) [OF okD(2) [OF Cons.prems(1)]])
  have "set ns \<subseteq> set (s_slots (sessions u i))"
    using Cons.prems(2,3) dist by (auto simp: d(2) set_remove1_eq)
  with Cons.IH [OF d(1) _ _ rest] Cons.prems(2) show ?case using dist by (auto simp: d(2,3,4,6) set_remove1_eq)
qed simp

lemma ok_sessions_change:
  assumes ok: "timetable_ok Y Z s" and t: "t = s\<lparr>sess_ids := L\<rparr>" and L: "distinct L" "\<And>i. i \<in> set L \<Longrightarrow> i < next_session s"
    and keep: "\<And>n i. sl_session (slots s n) = Some i \<Longrightarrow> i \<in> set L \<union> Z'" "\<And>c i. c_session (contribs s c) = Some i \<Longrightarrow> i \<in> set L \<union> Z'"
  shows "timetable_ok Y Z' t"
proof -
  note o = objects_okD [OF okD(2) [OF ok]]
  have fits: "fits t e o1 = fits s e o1" for e o1 by (rule fits_cong) (simp_all add: t)
  have "entries_ok t"
    by (rule entries_ok_view [OF okD(1) [OF ok]])
      (auto simp: fits entries_okD(5) [OF okD(1) [OF ok]], auto simp: t entries_of_def e_view_cong [where t = "sess_ids_update _ _"])
  moreover have "objects_ok Y Z' t"
  proof (rule objects_okI)
    show "m \<in> set (s_slots (sessions t j)) \<Longrightarrow> sl_session (slots t m) = Some j" for m j using o(3) by (simp add: t)
    show "m \<notin> Y \<Longrightarrow> sl_session (slots t m) = Some j \<Longrightarrow> m \<in> set (s_slots (sessions t j)) \<and>
        placed t (SessE m) = Some (InSession j) \<and> placed t (ConfE m) = Some Event" for m j
      using o(4,5,6) [of m j] by (simp add: t)
    show "sl_session (slots t m) = Some j \<Longrightarrow> m < next_slot t \<and> j < next_session t \<and> j \<in> set (sess_ids t) \<union> Z'" for m j
      using o(7,8) [of m j] keep(1) [of m j] by (simp add: t)
    show "m \<in> set (s_contribs (sessions t j)) \<longleftrightarrow> c_session (contribs t m) = Some j" for m j using o(10) by (simp add: t)
    show "c_session (contribs t c) = Some j \<Longrightarrow> c \<in> set (ev_contribs t) \<and> j < next_session t \<and> j \<in> set (sess_ids t) \<union> Z'" for c j
      using o(11,12) [of c j] keep(2) [of c j] by (simp add: t)
    show "c \<in> set (ev_contribs t) \<Longrightarrow> c < next_contrib t" for c using o(15) by (simp add: t)
  qed (simp_all add: t o(1,2,14) L)
  ultimately show ?thesis by (simp add: timetable_ok_def)
qed

lemma ok_removeSession:
  assumes ok: "timetable_ok {} {} s" and run: "conf_removeSession i s = (Inr x, t)" and i: "i \<in> set (sess_ids s)"
  shows "timetable_ok {} {} t" "sess_ids t = remove1 i (sess_ids s)"
    "sl_session (slots t n) \<noteq> Some i" "c_session (contribs t c) \<noteq> Some i"
    "n \<in> set (s_slots (sessions s i)) \<Longrightarrow> sl_session (slots t n) = None"
proof -
  note o = objects_okD [OF okD(2) [OF ok]]
  let ?s1 = "s\<lparr>sess_ids := remove1 i (sess_ids s)\<rparr>"
  have "andthen (for_each (s_contribs (sessions s i)) (sess_removeContribution i))
      (for_each (s_slots (sessions s i)) (sess_dropSlot i)) ?s1 = (Inr x, t)"
    using run i unfolding conf_removeSession_def bnd_get_st when_run andthen_run [of "modify _"] by simp
  then obtain y u where cs: "for_each (s_contribs (sessions s i)) (sess_removeContribution i) ?s1 = (Inr y, u)"
    and ns: "for_each (s_slots (sessions s i)) (sess_dropSlot i) u = (Inr x, t)" by (rule andthen_InrE)
  have s1: "timetable_ok {} {i} ?s1"
    using o(9,13,16,17) by (intro ok_sessions_change [OF ok refl]) (auto simp: set_remove1_eq)
  note c = ok_removeContributions [OF s1 cs]
  then have u: "timetable_ok {} {i} u" "same_slots ?s1 u" by simp_all
  have free: "c_session (contribs u c) \<noteq> Some i" for c
    using c o(10) [of c i] by (auto split: if_splits)
  note d = ok_dropSlots [OF u(1) _ _ ns]
  have slots: "s_slots (sessions u i) = s_slots (sessions s i)" using same_slots_fields(1) [OF u(2), of i] by simp
  then have t: "timetable_ok {} {i} t" "set (s_slots (sessions t i)) = {}" "sess_ids t = sess_ids u"
    "\<And>c. c_session (contribs t c) = c_session (contribs u c)"
    "\<And>m. m \<in> set (s_slots (sessions s i)) \<Longrightarrow> sl_session (slots t m) = None"
    using d o(1) by auto
  show "n \<in> set (s_slots (sessions s i)) \<Longrightarrow> sl_session (slots t n) = None" by (rule t(5))
  show ids: "sess_ids t = remove1 i (sess_ids s)" using same_slots_fields(4) [OF u(2)] t(3) by simp
  note p = objects_okD [OF okD(2) [OF t(1)]]
  show gone: "sl_session (slots t n) \<noteq> Some i" for n using p(4) [of n i] t(2) by auto
  show none: "c_session (contribs t c) \<noteq> Some i" for c using free t(4) by simp
  have same: "t = t\<lparr>sess_ids := sess_ids t\<rparr>" by simp
  show "timetable_ok {} {} t"
  proof (rule ok_sessions_change [OF t(1) same p(16,17)])
    show "j \<in> set (sess_ids t) \<union> {}" if "sl_session (slots t m) = Some j" for m j
      using p(9) [OF that] gone [of m] that by auto
    show "j \<in> set (sess_ids t) \<union> {}" if "c_session (contribs t c) = Some j" for c j
      using p(13) [OF that] none [of c] that by auto
  qed
qed

end
