(* ===== verification/TT_Reach.thy ===== *)
theory TT_Reach
  imports TT_Sessions
begin

text \<open>
  Every request of the timetable page keeps the invariant, so every reachable timetable has it.
\<close>

section \<open>Requests that only change dates\<close>

lemma passes_ok_dated [pass_intros]: "dated m \<Longrightarrow> passes (timetable_ok Y Z) (timetable_ok Y Z) m"
  by (rule passesI) (rule ok_dated)

lemma dated_owner_case [dated_intros]:
  "dated m1 \<Longrightarrow> (\<And>i. dated (m2 i)) \<Longrightarrow> (\<And>n. dated (m3 n)) \<Longrightarrow>
   dated (case o1 of Event \<Rightarrow> m1 | InSession i \<Rightarrow> m2 i | InSlot n \<Rightarrow> m3 n)"
  by (cases o1) auto

lemma dated_break_values [dated_intros]: "dated (break_setValues b a d)"
  unfolding break_setValues_def by (intro dated_intros)

lemma dated_edit_contribution [dated_intros]: "dated (svc_editContribution c d a)"
  unfolding svc_editContribution_def by (cases a; simp only: option.case; intro dated_intros)

lemma dated_modify_dates [dated_intros]: "dated (svc_modifyDates e a b r)"
  unfolding svc_modifyDates_def by (intro dated_intros)

lemma dated_move_updown [dated_intros]: "dated (svc_moveUpDown o1 k up)"
  unfolding svc_moveUpDown_def by (intro dated_intros)

lemma dated_slot_values [dated_intros]: "dated (slot_setValues n a b mv)" "dated (svc_editSlot n a b)"
  unfolding slot_setValues_def svc_editSlot_def by (intro dated_intros)+

lemma ok_other_fields:
  "timetable_ok Y Z s \<Longrightarrow> timetable_ok Y Z (s\<lparr>auto_ops := l\<rparr>)"
  "timetable_ok Y Z s \<Longrightarrow> timetable_ok Y Z (s\<lparr>ev_closed := b\<rparr>)"
proof -
  assume ok: "timetable_ok Y Z s"
  have view: "e_start (s\<lparr>auto_ops := l\<rparr>) e = e_start s e" "e_dur (s\<lparr>auto_ops := l\<rparr>) e = e_dur s e"
    "e_start (s\<lparr>ev_closed := b\<rparr>) e = e_start s e" "e_dur (s\<lparr>ev_closed := b\<rparr>) e = e_dur s e"
    "fits (s\<lparr>auto_ops := l\<rparr>) e o1 = fits s e o1" "fits (s\<lparr>ev_closed := b\<rparr>) e o1 = fits s e o1" for e o1
    by (cases e; cases o1; simp)+
  have "entries_ok (s\<lparr>auto_ops := l\<rparr>)" "entries_ok (s\<lparr>ev_closed := b\<rparr>)"
    by (rule entries_ok_view [OF okD(1) [OF ok]], auto simp: view entries_okD(5) [OF okD(1) [OF ok]], simp add: entries_of_def)+
  moreover have "objects_ok Y Z (s\<lparr>auto_ops := l\<rparr>) = objects_ok Y Z s" "objects_ok Y Z (s\<lparr>ev_closed := b\<rparr>) = objects_ok Y Z s"
    by (rule objects_ok_same; simp)+
  ultimately show "timetable_ok Y Z (s\<lparr>auto_ops := l\<rparr>)" "timetable_ok Y Z (s\<lparr>ev_closed := b\<rparr>)"
    using okD(2) [OF ok] by (simp_all add: timetable_ok_def)
qed

section \<open>Breaks\<close>

lemma slot_exists_session:
  assumes "timetable_ok Y Z s" "slot_exists s n"
  shows "sl_session (slots s n) \<noteq> None"
  using assms objects_okD(3) [OF okD(2) [OF assms(1)]] by (auto simp: slot_exists_def)

lemma ok_addBreak:
  assumes ok: "timetable_ok Y Z s" and slot: "\<And>n. w = Some n \<Longrightarrow> slot_exists s n" and run: "svc_addBreak w a d s = (Inr x, t)"
  shows "timetable_ok Y Z t"
proof -
  obtain b u where new: "new_break a d s = (Inr b, u)"
    and add: "(case w of None \<Rightarrow> conf_addEntry (BreakE b) 2 | Some n \<Rightarrow> slot_addEntry n (BreakE b) 2) u = (Inr x, t)"
    using run unfolding svc_addBreak_def by (rule bnd_InrE)
  note u = ok_new_break [OF ok new]
  show ?thesis
  proof (cases w)
    case None
    then have run': "conf_addEntry (BreakE b) 2 u = (Inr x, t)" using add by simp
    show ?thesis using ok_conf_addEntry [OF u(1) _ _ run'] u(2) by simp
  next
    case (Some n)
    then have run': "slot_addEntry n (BreakE b) 2 u = (Inr x, t)" using add by simp
    have "sl_session (slots u n) \<noteq> None"
      using slot_exists_session [OF ok slot [OF Some]] same_objects_fields(3) [OF u(3), of n] by simp
    then show ?thesis using ok_slot_addEntry [OF u(1) _ run'] u(2) by simp
  qed
qed

lemma placed_break_less: "timetable_ok Y Z s \<Longrightarrow> placed s (BreakE b) = Some o1 \<Longrightarrow> b < next_break s"
  using entries_okD(5) [of s "BreakE b" o1] by (simp add: timetable_ok_def)

lemma ok_editBreak:
  assumes ok: "timetable_ok Y Z s" and run: "svc_editBreak b a d s = (Inr x, t)"
  shows "timetable_ok Y Z t"
proof -
  let ?move = "\<lambda>old. case placed s (BreakE b) of
      Some (InSlot n) \<Rightarrow> when_do (local_day utc_off old \<noteq> local_day utc_off a)
          (andthen (unschedule (BreakE b)) (andthen (break_setStartDate b (Some a) 2) (conf_addEntry (BreakE b) 2)))
    | _ \<Rightarrow> ret ()"
  obtain old where "andthen (break_setValues b a d) (?move old) s = (Inr x, t)"
    using run unfolding svc_editBreak_def bnd_get_st by (auto simp: need_def simp del: andthen_run elim!: bnd_InrE split: option.splits)
  then obtain y u where set: "break_setValues b a d s = (Inr y, u)" and move: "?move old u = (Inr x, t)" by (rule andthen_InrE)
  have dated: "dated (break_setValues b a d)" by (intro dated_intros)
  note u = ok_dated [OF dated ok set] ok_dated_same(2) [OF dated ok set]
  show ?thesis
  proof (cases "\<exists>n. placed s (BreakE b) = Some (InSlot n) \<and> local_day utc_off old \<noteq> local_day utc_off a")
    case True
    then have "andthen (unschedule (BreakE b)) (andthen (break_setStartDate b (Some a) 2) (conf_addEntry (BreakE b) 2)) u = (Inr x, t)"
      using move by auto
    then obtain z v where un: "unschedule (BreakE b) u = (Inr z, v)"
      and "andthen (break_setStartDate b (Some a) 2) (conf_addEntry (BreakE b) 2) v = (Inr x, t)" by (rule andthen_InrE)
    then obtain r w where start: "break_setStartDate b (Some a) 2 v = (Inr r, w)" and add: "conf_addEntry (BreakE b) 2 w = (Inr x, t)"
      by (blast elim: andthen_InrE)
    have v: "timetable_ok Y Z v" "same_objects u v" using ok_unschedule [OF u(1) _ un] by simp_all
    have dated': "dated (break_setStartDate b (Some a) 2)" by (intro dated_intros)
    note w = ok_dated [OF dated' v(1) start] ok_dated_kept [OF dated' v(1) start]
    have "b < next_break u" using True placed_break_less [OF u(1)] u(2) by auto
    then have "b < next_break w"
      using same_objects_fields(10) [OF v(2)] same_objects_fields(10) [OF kept_same_objects [OF w(2)]] by simp
    then show ?thesis using ok_conf_addEntry [OF w(1) _ _ add] by simp
  next
    case False
    then show ?thesis using move u(1) by (auto split: option.splits towner.splits if_splits)
  qed
qed

section \<open>Contributions\<close>

lemma ok_new_contrib:
  assumes ok: "timetable_ok Y Z s" and sess: "\<And>i. sess = Some i \<Longrightarrow> i \<in> set (sess_ids s)" and run: "new_contrib sess s = (Inr c, t)"
  shows "timetable_ok Y Z t"
proof -
  define s1 where "s1 = s\<lparr>contribs := (contribs s)(next_contrib s := \<lparr>c_start = None, c_dur = 0, c_session = None, c_status = StNotSch\<rparr>),
       next_contrib := Suc (next_contrib s), ev_contribs := ev_contribs s @ [next_contrib s],
       placed := (placed s)(ContribE (next_contrib s) := None)\<rparr>"
  have s1: "timetable_ok Y Z s1" by (rule ok_new_contribution(1) [OF ok refl s1_def])
  have run': "andthen (case sess of None \<Rightarrow> ret () | Some i \<Rightarrow> contrib_setSession (next_contrib s) (Some i)) (ret (next_contrib s)) s1 = (Inr c, t)"
    using run unfolding new_contrib_def bnd_get_st Let_def andthen_run [of "modify _"] by (simp add: s1_def)
  show ?thesis
  proof (cases sess)
    case None
    then show ?thesis using run' s1 by simp
  next
    case (Some i)
    then have "andthen (contrib_setSession (next_contrib s) (Some i)) (ret (next_contrib s)) s1 = (Inr c, t)"
      using run' by (simp only: option.case)
    then obtain y u where u: "contrib_setSession (next_contrib s) (Some i) s1 = (Inr y, u)" and "ret (next_contrib s) u = (Inr c, t)"
      by (rule andthen_InrE)
    then have "u = t" by simp
    moreover have "i \<in> set (sess_ids s1)" "next_contrib s \<in> set (ev_contribs s1)" using sess [OF Some] by (simp_all add: s1_def)
    ultimately show ?thesis using ok_contrib_setSession [OF s1 _ u] by simp
  qed
qed

lemma passes_conf_add_contrib [pass_intros]: "passes (timetable_ok Y Z) (timetable_ok Y Z) (conf_addEntry (ContribE c) check)"
proof (rule passesI)
  fix s x t
  assume "timetable_ok Y Z s" "conf_addEntry (ContribE c) check s = (Inr x, t)"
  then show "timetable_ok Y Z t" using ok_conf_addEntry [of Y Z s "ContribE c" check x t] by simp
qed

lemma passes_slot_add_contrib [pass_intros]: "passes (timetable_ok Y Z) (timetable_ok Y Z) (slot_addEntry n (ContribE c) check)"
proof (rule passesI)
  fix s x t
  assume "timetable_ok Y Z s" "slot_addEntry n (ContribE c) check s = (Inr x, t)"
  then show "timetable_ok Y Z t" using ok_slot_addEntry [of Y Z s "ContribE c" n check x t] by simp
qed

lemma ok_addContribution:
  assumes ok: "timetable_ok Y {} s" and run: "svc_addContribution w d a s = (Inr x, t)"
  shows "timetable_ok Y {} t"
proof (cases w)
  case None
  obtain c u where new: "new_contrib None s = (Inr c, u)"
    and rest: "andthen (svc_editContribution c d a) (when_do (a \<noteq> None) (conf_addEntry (ContribE c) 2)) u = (Inr x, t)"
    using run unfolding svc_addContribution_def None option.case by (rule bnd_InrE)
  have "timetable_ok Y {} u" using ok_new_contrib [OF ok _ new] by simp
  moreover have "passes (timetable_ok Y {}) (timetable_ok Y {}) (andthen (svc_editContribution c d a) (when_do (a \<noteq> None) (conf_addEntry (ContribE c) 2)))"
    by (intro pass_intros dated_intros)
  ultimately show ?thesis using rest by (blast intro: passesD)
next
  case (Some n)
  obtain i s' where sess: "slot_session n s = (Inr i, s')"
    and "bnd (new_contrib (Some i)) (\<lambda>c. andthen (svc_editContribution c d a) (slot_addEntry n (ContribE c) 2)) s' = (Inr x, t)"
    using run unfolding svc_addContribution_def Some option.case by (rule bnd_InrE)
  then obtain c u where new: "new_contrib (Some i) s' = (Inr c, u)"
    and rest: "andthen (svc_editContribution c d a) (slot_addEntry n (ContribE c) 2) u = (Inr x, t)"
    by (blast elim: bnd_InrE)
  have s': "s' = s" and i: "sl_session (slots s n) = Some i" using sess by (auto simp: slot_session_def split: option.splits)
  have "i \<in> set (sess_ids s')" using objects_okD(9) [OF okD(2) [OF ok] i] s' by simp
  then have "timetable_ok Y {} u" using ok_new_contrib [OF _ _ new] ok s' by simp
  moreover have "passes (timetable_ok Y {}) (timetable_ok Y {}) (andthen (svc_editContribution c d a) (slot_addEntry n (ContribE c) 2))"
    by (intro pass_intros dated_intros)
  ultimately show ?thesis using rest by (blast intro: passesD)
qed

lemma passes_schedule: "passes (timetable_ok Y Z) (timetable_ok Y Z) (svc_schedule o1 day cs)"
  unfolding svc_schedule_def
  by (cases o1; simp only: towner.case; intro pass_intros dated_intros dated_reads read_intros)

lemma ok_status:
  assumes ok: "timetable_ok Y Z s" and none: "placed s (ContribE c) = None" and st: "st \<noteq> StSch"
    and t: "t = s\<lparr>contribs := (contribs s)(c := (contribs s c)\<lparr>c_status := st\<rparr>)\<rparr>"
  shows "timetable_ok Y Z t"
proof -
  have fits: "fits t e o1 = fits s e o1" for e o1 by (rule fits_cong) (simp_all add: t)
  have no: "c_status (contribs s c) \<noteq> StSch" using entries_okD(6) [OF okD(1) [OF ok]] none by simp
  have view: "e_start t e = e_start s e" "e_dur t e = e_dur s e" for e by (cases e; simp add: t)+
  have "entries_ok t"
    by (rule entries_ok_view [OF okD(1) [OF ok]])
      (simp_all add: fits view entries_okD(5) [OF okD(1) [OF ok]], simp_all add: t entries_of_def st no)
  moreover have "objects_ok Y Z t = objects_ok Y Z s" by (rule objects_ok_same) (simp_all add: t)
  ultimately show ?thesis using okD(2) [OF ok] by (simp add: timetable_ok_def)
qed

lemma ok_withdraw:
  assumes ok: "timetable_ok Y Z s" and run: "contrib_withdraw c s = (Inr x, t)"
  shows "timetable_ok Y Z t"
proof (cases "c_status (contribs s c) = StWithdrawn")
  case True
  then have "placed s (ContribE c) = None" using entries_okD(6) [OF okD(1) [OF ok], of c] by simp
  then show ?thesis using True run by (intro ok_status [OF ok, of c StNotSch]) (simp_all add: contrib_withdraw_def upd_contrib_def)
next
  case False
  then have "andthen (unschedule (ContribE c)) (upd_contrib c (\<lambda>x. x\<lparr>c_status := StWithdrawn\<rparr>)) s = (Inr x, t)"
    using run by (simp add: contrib_withdraw_def)
  then obtain y u where un: "unschedule (ContribE c) s = (Inr y, u)" and set: "upd_contrib c (\<lambda>x. x\<lparr>c_status := StWithdrawn\<rparr>) u = (Inr x, t)"
    by (rule andthen_InrE)
  have u: "timetable_ok Y Z u" "placed u (ContribE c) = None" using ok_unschedule [OF ok _ un] by simp_all
  show ?thesis using set by (intro ok_status [OF u, of StWithdrawn]) (simp_all add: upd_contrib_def)
qed

lemma ok_forget_contribution:
  assumes ok: "timetable_ok Y Z s" and none: "placed s (ContribE c) = None" "c_session (contribs s c) = None"
    and t: "t = s\<lparr>ev_contribs := remove1 c (ev_contribs s)\<rparr>"
  shows "timetable_ok Y Z t"
proof -
  note o = objects_okD [OF okD(2) [OF ok]]
  have view: "e_start t e = e_start s e" "e_dur t e = e_dur s e" for e by (cases e; simp add: t)+
  have fits: "fits t e o1" if "placed s e = Some o1" for e o1
  proof -
    have "e \<noteq> ContribE c" using that none by auto
    then show ?thesis using entries_okD(5) [OF okD(1) [OF ok] that] by (cases e) (auto simp: t split: towner.splits)
  qed
  have "entries_ok t"
    by (rule entries_ok_view [OF okD(1) [OF ok]]) (auto simp: fits view, simp_all add: t entries_of_def)
  moreover have "objects_ok Y Z t"
  proof (rule objects_okI)
    show "n \<in> set (s_slots (sessions t i)) \<Longrightarrow> sl_session (slots t n) = Some i" for n i using o(3) by (simp add: t)
    show "n \<notin> Y \<Longrightarrow> sl_session (slots t n) = Some i \<Longrightarrow> n \<in> set (s_slots (sessions t i)) \<and>
        placed t (SessE n) = Some (InSession i) \<and> placed t (ConfE n) = Some Event" for n i
      using o(4,5,6) [of n i] by (simp add: t)
    show "sl_session (slots t n) = Some i \<Longrightarrow> n < next_slot t \<and> i < next_session t \<and> i \<in> set (sess_ids t) \<union> Z" for n i
      using o(7,8,9) [of n i] by (simp add: t)
    show "a \<in> set (s_contribs (sessions t i)) \<longleftrightarrow> c_session (contribs t a) = Some i" for a i using o(10) by (simp add: t)
    show "c_session (contribs t a) = Some i \<Longrightarrow> a \<in> set (ev_contribs t) \<and> i < next_session t \<and> i \<in> set (sess_ids t) \<union> Z" for a i
      using o(11,12,13) [of a i] none by (cases "a = c") (simp_all add: t)
    show "i \<in> set (sess_ids t) \<Longrightarrow> i < next_session t" for i using o(17) by (simp add: t)
    show "a \<in> set (ev_contribs t) \<Longrightarrow> a < next_contrib t" for a using o(15) [of a] by (simp add: t o(14))
  qed (simp_all add: t o(1,2,14,16))
  ultimately show ?thesis by (simp add: timetable_ok_def)
qed

lemma ok_contrib_delete:
  assumes ok: "timetable_ok Y Z s" and none: "placed s (ContribE c) = None" and run: "contrib_delete c s = (Inr x, t)"
  shows "timetable_ok Y Z t"
proof (cases "c \<in> set (ev_contribs s)")
  case True
  then have "andthen (contrib_setSession c None) (andthen (modify (\<lambda>t. t\<lparr>ev_contribs := remove1 c (ev_contribs t)\<rparr>))
      (upd_contrib c (\<lambda>x. x\<lparr>c_status := StNone\<rparr>))) s = (Inr x, t)"
    using run by (simp add: contrib_delete_def)
  then obtain y u where set: "contrib_setSession c None s = (Inr y, u)"
    and rest: "andthen (modify (\<lambda>t. t\<lparr>ev_contribs := remove1 c (ev_contribs t)\<rparr>)) (upd_contrib c (\<lambda>x. x\<lparr>c_status := StNone\<rparr>)) u = (Inr x, t)"
    by (rule andthen_InrE)
  have u: "timetable_ok Y Z u" "c_session (contribs u c) = None" "placed u (ContribE c) = None"
    using ok_contrib_setSession [OF ok _ set] none by (auto split: if_splits)
  define v where "v = u\<lparr>ev_contribs := remove1 c (ev_contribs u)\<rparr>"
  have v: "timetable_ok Y Z v" by (rule ok_forget_contribution [OF u(1,3,2) v_def])
  have "placed v (ContribE c) = None" using u by (simp add: v_def)
  from ok_status [OF v this, of StNone] rest show ?thesis by (simp add: v_def upd_contrib_def)
next
  case False
  then show ?thesis using run ok by (simp add: contrib_delete_def)
qed

lemma ok_deleteContribution:
  assumes ok: "timetable_ok Y Z s" and run: "svc_deleteContribution c m s = (Inr x, t)"
  shows "timetable_ok Y Z t"
proof -
  obtain y u where un: "unschedule (ContribE c) s = (Inr y, u)" and del: "when_do m (contrib_delete c) u = (Inr x, t)"
    using run unfolding svc_deleteContribution_def by (rule andthen_InrE)
  have u: "timetable_ok Y Z u" "placed u (ContribE c) = None" using ok_unschedule [OF ok _ un] by simp_all
  then show ?thesis using del ok_contrib_delete [OF u] by (cases m) simp_all
qed

end
