(* ===== verification/TT_Requests.thy ===== *)
theory TT_Requests
  imports TT_Reach
begin

text \<open>
  The requests that move entries between schedules and those on sessions and slots keep the invariant of
  a timetable, and with them every reachable timetable has it.
\<close>

section \<open>Moving an entry to another schedule\<close>

lemma placed_break_fits:
  assumes "timetable_ok Y Z s" "placed s e \<noteq> None" "e = BreakE b"
  shows "b < next_break s"
  using assms placed_break_less by blast

lemma leaf_not_conf: "slot_of e = None \<Longrightarrow> e = ConfE n \<Longrightarrow> n \<in> Y"
  by simp

lemma ok_moveToSlot:
  assumes ok: "timetable_ok {} {} s" and e: "placed s e \<noteq> None" "slot_of e = None" and run: "svc_moveToSlot e i n new s = (Inr x, t)"
  shows "timetable_ok {} {} t"
proof -
  let ?join = "case e of ContribE c \<Rightarrow> contrib_setSession c (Some i) | _ \<Rightarrow> ret ()"
  let ?start = "case new of Some d \<Rightarrow> entry_setStartDate e (Some d) 2 False
     | None \<Rightarrow> bnd (calculateEndDate (InSlot n)) (\<lambda>d. entry_setStartDate e (Some d) 2 False)"
  have i: "i \<in> set (sess_ids s)" "n \<in> set (s_slots (sessions s i))"
    and "andthen (unschedule e) (andthen ?join (andthen ?start (slot_addEntry n e 2))) s = (Inr x, t)"
    using run unfolding svc_moveToSlot_def bnd_get_st by (simp_all only: raise_run split: if_splits) auto
  then obtain y u where un: "unschedule e s = (Inr y, u)"
    and "andthen ?join (andthen ?start (slot_addEntry n e 2)) u = (Inr x, t)" by (blast elim: andthen_InrE)
  then obtain z v where join: "?join u = (Inr z, v)" and "andthen ?start (slot_addEntry n e 2) v = (Inr x, t)"
    by (blast elim: andthen_InrE)
  then obtain r w where start: "?start v = (Inr r, w)" and add: "slot_addEntry n e 2 w = (Inr x, t)"
    by (blast elim: andthen_InrE)
  have u: "timetable_ok {} {} u" "same_objects s u" using ok_unschedule [OF ok leaf_not_conf [OF e(2)] un] by blast+
  have v: "timetable_ok {} {} v \<and> same_slots s v"
  proof (cases e)
    case (ContribE c)
    obtain o1 where "placed s (ContribE c) = Some o1" using e ContribE by auto
    then have "c \<in> set (ev_contribs u)"
      using entries_okD(5) [OF okD(1) [OF ok]] same_objects_fields(5) [OF u(2)] by fastforce
    moreover have "i \<in> set (sess_ids u)" using i same_objects_fields(6) [OF u(2)] by simp
    moreover have "contrib_setSession c (Some i) u = (Inr z, v)" using join ContribE by simp
    ultimately show ?thesis
      using ok_contrib_setSession [OF u(1), of "Some i" c z v] same_slots_trans [OF same_objects_slots [OF u(2)]] by simp
  qed (use join u same_objects_slots [OF u(2)] e in auto)
  have dated: "dated ?start" by (cases new; simp only: option.case; intro dated_intros)
  note w = ok_dated [OF dated conjunct1 [OF v] start] ok_dated_kept [OF dated conjunct1 [OF v] start]
  have sw: "same_slots s w"
    by (rule same_slots_trans [OF conjunct2 [OF v] same_objects_slots [OF kept_same_objects [OF w(2)]]])
  have "sl_session (slots w n) \<noteq> None"
    using objects_okD(3) [OF okD(2) [OF ok] i(2)] same_slots_fields(2) [OF sw, of n] by simp
  then have "b < next_break w \<and> sl_session (slots w n) \<noteq> None" if "e = BreakE b" for b
    using placed_break_fits [OF ok e(1) that] same_slots_fields(7) [OF sw] by simp
  from ok_slot_addEntry [OF w(1) this add] show ?thesis by simp
qed

lemma ok_moveToEvent:
  assumes ok: "timetable_ok Y {} s" and e: "placed s e \<noteq> None" "slot_of e = None" and run: "svc_moveToEvent e d s = (Inr x, t)"
  shows "timetable_ok Y {} t"
proof -
  let ?leave = "case e of ContribE c \<Rightarrow> contrib_setSession c None | _ \<Rightarrow> ret ()"
  obtain y u where un: "unschedule e s = (Inr y, u)"
    and "andthen (entry_setStartDate e (Some d) 2 False) (andthen ?leave (conf_addEntry e 2)) u = (Inr x, t)"
    using run unfolding svc_moveToEvent_def by (rule andthen_InrE)
  then obtain z v where start: "entry_setStartDate e (Some d) 2 False u = (Inr z, v)"
    and "andthen ?leave (conf_addEntry e 2) v = (Inr x, t)" by (blast elim: andthen_InrE)
  then obtain r w where leave: "?leave v = (Inr r, w)" and add: "conf_addEntry e 2 w = (Inr x, t)" by (blast elim: andthen_InrE)
  have u: "timetable_ok Y {} u" "same_objects s u" using ok_unschedule [OF ok leaf_not_conf [OF e(2)] un] by blast+
  have dated: "dated (entry_setStartDate e (Some d) 2 False)" by (intro dated_intros)
  note v = ok_dated [OF dated u(1) start] ok_dated_kept [OF dated u(1) start]
  have sv: "same_slots s v"
    by (rule same_objects_slots [OF same_objects_trans [OF u(2) kept_same_objects [OF v(2)]]])
  have w: "timetable_ok Y {} w \<and> same_slots s w"
  proof (cases e)
    case (ContribE c)
    then have "contrib_setSession c None v = (Inr r, w)" using leave by simp
    then show ?thesis using ok_contrib_setSession [OF v(1), of None c r w] same_slots_trans [OF sv] by simp
  qed (use leave v(1) sv e in auto)
  have "b < next_break w" if "e = BreakE b" for b
    using placed_break_fits [OF ok e(1) that] w same_slots_fields(7) [of s w] by simp
  then show ?thesis using ok_conf_addEntry [OF _ _ _ add] w e by simp
qed

section \<open>Sessions and slots\<close>

lemma ok_svc_addSlot:
  assumes ok: "timetable_ok {} {} s" and i: "i \<in> set (sess_ids s)" and run: "svc_addSlot i a b s = (Inr x, t)"
  shows "timetable_ok {} {} t"
proof -
  obtain n u where new: "new_slot i s = (Inr n, u)" and "andthen (slot_setValues n a b False) (sess_addSlot i n) u = (Inr x, t)"
    using run unfolding svc_addSlot_def by (rule bnd_InrE)
  then obtain z v where set: "slot_setValues n a b False u = (Inr z, v)" and add: "sess_addSlot i n v = (Inr x, t)"
    by (blast elim: andthen_InrE)
  note u = ok_new_slot [OF ok i new]
  have dated: "dated (slot_setValues n a b False)" by (intro dated_intros)
  note v = ok_dated [OF dated u(1) set] ok_dated_kept [OF dated u(1) set]
  note same = same_objects_fields [OF kept_same_objects [OF v(2)]]
  show ?thesis using u(2,5) same(1) [of i] same(3) [of n] by (intro ok_addSlot(1) [OF v(1) _ _ add]) simp_all
qed

lemma ok_new_session:
  assumes ok: "timetable_ok Y Z s" and i: "i = next_session s"
    and t: "t = s\<lparr>sessions := (sessions s)(i := \<lparr>s_start = a, s_dur = d, s_slots = [], s_contribs = [], s_contribDuration = k, s_closed = False\<rparr>),
       next_session := Suc i, scheds := (scheds s)(InSession i := \<lparr>sch_entries = [], entry_gen = 0\<rparr>)\<rparr>"
  shows "timetable_ok Y Z t" "i \<notin> set (sess_ids t)"
proof -
  note o = objects_okD [OF okD(2) [OF ok]]
  have free: "sl_session (slots s n) \<noteq> Some i" "c_session (contribs s c) \<noteq> Some i" for n c
    using o(8) [of n i] o(12) [of c i] i by auto
  have empty: "entries_of s (InSession i) = []"
  proof -
    have "placed s e \<noteq> Some (InSession i)" for e
      using entries_okD(5) [OF okD(1) [OF ok], of e "InSession i"] free by (cases e) auto
    then show ?thesis using entries_okD(1) [OF okD(1) [OF ok], of _ "InSession i"] by (cases "entries_of s (InSession i)") auto
  qed
  show "i \<notin> set (sess_ids t)" using o(17) [of i] i by (auto simp: t)
  have fits: "fits t e o1 = fits s e o1" for e o1 by (rule fits_cong) (simp_all add: t)
  have view: "e_start t e = e_start s e" "e_dur t e = e_dur s e" for e by (cases e; simp add: t)+
  have "entries_ok t"
    by (rule entries_ok_view [OF okD(1) [OF ok]])
      (simp_all add: fits view entries_okD(5) [OF okD(1) [OF ok]], use empty in \<open>simp_all add: t entries_of_def\<close>)
  moreover have "objects_ok Y Z t"
  proof (rule objects_okI)
    show "n \<in> set (s_slots (sessions t j)) \<Longrightarrow> sl_session (slots t n) = Some j" for n j
      using o(3) by (simp add: t split: if_splits)
    show "n \<notin> Y \<Longrightarrow> sl_session (slots t n) = Some j \<Longrightarrow> n \<in> set (s_slots (sessions t j)) \<and>
        placed t (SessE n) = Some (InSession j) \<and> placed t (ConfE n) = Some Event" for n j
      using o(4,5,6) [of n j] free(1) [of n] by (cases "j = i") (simp_all add: t)
    show "sl_session (slots t n) = Some j \<Longrightarrow> n < next_slot t \<and> j < next_session t \<and> j \<in> set (sess_ids t) \<union> Z" for n j
      using o(7,8,9) [of n j] i by (simp add: t)
    show "c \<in> set (s_contribs (sessions t j)) \<longleftrightarrow> c_session (contribs t c) = Some j" for c j
      using o(10) [of c j] free(2) [of c] by (simp add: t)
    show "c_session (contribs t c) = Some j \<Longrightarrow> c \<in> set (ev_contribs t) \<and> j < next_session t \<and> j \<in> set (sess_ids t) \<union> Z" for c j
      using o(11,12,13) [of c j] i by (simp add: t)
    show "c \<in> set (ev_contribs t) \<Longrightarrow> c < next_contrib t" for c using o(15) by (simp add: t)
    show "j \<in> set (sess_ids t) \<Longrightarrow> j < next_session t" for j using o(17) [of j] i by (simp add: t)
  qed (simp_all add: t o(1,2,14,16))
  ultimately show "timetable_ok Y Z t" by (simp add: timetable_ok_def)
qed

lemma ok_conf_addSession:
  assumes ok: "timetable_ok Y {} s" and i: "i \<notin> set (sess_ids s)" "i < next_session s" and run: "conf_addSession i s = (Inr x, t)"
  shows "timetable_ok Y {} t" "i \<in> set (sess_ids t)" "s_slots (sessions t i) = s_slots (sessions s i)"
proof -
  let ?fit = "bnd (isOutside Event (Some (s_start (sessions s i))) (Some (s_end (sessions s i)))) (\<lambda>out. when_do out
       (andthen (when_do (ev_start s > s_start (sessions s i)) (conf_setStartDate (s_start (sessions s i)) 1 False))
                (bnd get_st (\<lambda>t. when_do (ev_end t < s_end (sessions s i)) (conf_setEndDate (s_end (sessions s i)) 1)))))"
  have "andthen ?fit (modify (\<lambda>t. t\<lparr>sess_ids := sess_ids t @ [i]\<rparr>)) s = (Inr x, t)"
    using run by (simp only: conf_addSession_def bnd_get_st Let_def)
  then obtain y u where fit: "?fit s = (Inr y, u)" and "modify (\<lambda>t. t\<lparr>sess_ids := sess_ids t @ [i]\<rparr>) u = (Inr x, t)"
    by (rule andthen_InrE)
  then have t: "t = u\<lparr>sess_ids := sess_ids u @ [i]\<rparr>" by simp
  have dated: "dated ?fit" by (intro dated_intros)
  note u = ok_dated [OF dated ok fit] ok_dated_kept [OF dated ok fit]
  note same = same_objects_fields [OF kept_same_objects [OF u(2)]] and o = objects_okD [OF okD(2) [OF u(1)]]
  show "timetable_ok Y {} t"
  proof (rule ok_sessions_change [OF u(1) t])
    show "distinct (sess_ids u @ [i])" using o(16) i same(6) by simp
    show "j \<in> set (sess_ids u @ [i]) \<Longrightarrow> j < next_session u" for j using o(17) [of j] i same(7) by auto
    show "sl_session (slots u n) = Some j \<Longrightarrow> j \<in> set (sess_ids u @ [i]) \<union> {}" for n j using o(9) [of n j] by auto
    show "c_session (contribs u c) = Some j \<Longrightarrow> j \<in> set (sess_ids u @ [i]) \<union> {}" for c j using o(13) [of c j] by auto
  qed
  show "i \<in> set (sess_ids t)" "s_slots (sessions t i) = s_slots (sessions s i)" using same(1) [of i] by (simp_all add: t)
qed

lemma ok_svc_addSession:
  assumes ok: "timetable_ok {} {} s" and run: "svc_addSession a b s = (Inr x, t)"
  shows "timetable_ok {} {} t"
proof -
  define i where "i = next_session s"
  define a' where "a' = (if b \<le> a then b else a)"
  define s1 where "s1 = s\<lparr>sessions := (sessions s)(i := \<lparr>s_start = a', s_dur = b - a', s_slots = [], s_contribs = [], s_contribDuration = 1200, s_closed = False\<rparr>),
       next_session := Suc i, scheds := (scheds s)(InSession i := \<lparr>sch_entries = [], entry_gen = 0\<rparr>)\<rparr>"
  let ?dates = "\<lambda>n. bnd get_st (\<lambda>t. let e1 = first_slot_end (tz_off t) (s_start (sessions t i)) (s_end (sessions t i));
              dur = e1 - s_start (sessions t i) in
         andthen (slot_setDuration n (if dur > 86400 then 86400 else dur) 1) (sess_addSlot i n))"
  have "andthen (conf_addSession i) (bnd (new_slot i) (\<lambda>n. andthen (slot_setStartDate n (Some a') 2 False True) (?dates n))) s1 = (Inr x, t)"
    using run unfolding s1_def a'_def i_def
    by (simp only: svc_addSession_def bnd_get_st Let_def andthen_run [of "modify _"] modify_run prod.case sum.case)
  then obtain y u where cadd: "conf_addSession i s1 = (Inr y, u)"
    and "bnd (new_slot i) (\<lambda>n. andthen (slot_setStartDate n (Some a') 2 False True) (?dates n)) u = (Inr x, t)" by (rule andthen_InrE)
  then obtain n v where new: "new_slot i u = (Inr n, v)" and "andthen (slot_setStartDate n (Some a') 2 False True) (?dates n) v = (Inr x, t)"
    by (blast elim: bnd_InrE)
  then obtain z w where start: "slot_setStartDate n (Some a') 2 False True v = (Inr z, w)" and "?dates n w = (Inr x, t)"
    by (blast elim: andthen_InrE)
  then obtain dur r w' where dur: "slot_setDuration n dur 1 w = (Inr r, w')" and add: "sess_addSlot i n w' = (Inr x, t)"
    unfolding bnd_get_st Let_def by (blast elim: andthen_InrE)
  note s1 = ok_new_session [OF ok i_def s1_def]
  have "i < next_session s1" by (simp add: s1_def)
  note u = ok_conf_addSession [OF s1 this cadd]
  note v = ok_new_slot [OF u(1,2) new]
  have d1: "dated (slot_setStartDate n (Some a') 2 False True)" and d2: "dated (slot_setDuration n dur 1)" by (intro dated_intros)+
  note w = ok_dated [OF d1 v(1) start] ok_dated_kept [OF d1 v(1) start]
  note w' = ok_dated [OF d2 w(1) dur] ok_dated_kept [OF d2 w(1) dur]
  note same = same_objects_fields [OF same_objects_trans [OF kept_same_objects [OF w(2)] kept_same_objects [OF w'(2)]]]
  show ?thesis using v(2,5) same(1) [of i] same(3) [of n] by (intro ok_addSlot(1) [OF w'(1) _ _ add]) simp_all
qed

lemma ok_deleteSlot:
  assumes ok: "timetable_ok {} {} s" and i: "i \<in> set (sess_ids s)" and run: "svc_deleteSlot i n s = (Inr x, t)"
  shows "timetable_ok {} {} t"
proof (cases "length (s_slots (sessions s i)) > 1")
  case True
  then have "sess_removeSlot i n False s = (Inr x, t)" using run by (simp add: svc_deleteSlot_def)
  then show ?thesis by (rule ok_removeSlot [OF ok])
next
  case False
  then have "conf_removeSession i s = (Inr x, t)" using run by (simp add: svc_deleteSlot_def)
  then show ?thesis using i by (rule ok_removeSession(1) [OF ok])
qed

section \<open>All requests\<close>

theorem ok_tt_run:
  assumes ok: "timetable_ok {} {} s" and names: "tt_names s q" and run: "tt_run q s = (Inr x, t)"
  shows "timetable_ok {} {} t"
proof (cases q)
  case (AddBreak w a d)
  then show ?thesis using ok names run by (intro ok_addBreak [OF ok, of w a d x t]) auto
next
  case (EditBreak b a d)
  then show ?thesis using run by (intro ok_editBreak [OF ok, of b a d x t]) simp
next
  case (DeleteBreak b)
  then have "unschedule (BreakE b) s = (Inr x, t)" using run by (simp add: svc_deleteEntry_def)
  then show ?thesis using ok_unschedule [OF ok] by blast
next
  case (NewContribution i)
  then have "bnd (new_contrib i) (\<lambda>_. ret ()) s = (Inr x, t)" using run by simp
  then obtain c where "new_contrib i s = (Inr c, t)" by (auto elim!: bnd_InrE simp del: bnd_run)
  then show ?thesis using names NewContribution by (intro ok_new_contrib [OF ok]) auto
next
  case (AddContribution w d a)
  then show ?thesis using run by (intro ok_addContribution [OF ok, of w d a x t]) simp
next
  case (ScheduleContributions o1 day cs)
  then show ?thesis using run passesD [OF passes_schedule ok] by simp
next
  case (DeleteContribution c m)
  then show ?thesis using run by (intro ok_deleteContribution [OF ok, of c m x t]) simp
next
  case (WithdrawContribution c)
  then show ?thesis using run by (intro ok_withdraw [OF ok, of c x t]) simp
next
  case (MoveToSlot e i n d)
  then show ?thesis using names run by (intro ok_moveToSlot [OF ok, of e i n d x t]) simp_all
next
  case (MoveToEvent e d)
  then show ?thesis using names run by (intro ok_moveToEvent [OF ok, of e d x t]) simp_all
next
  case (AddSession a b)
  then show ?thesis using run by (intro ok_svc_addSession [OF ok, of a b x t]) simp
next
  case (AddSlot i a b)
  then show ?thesis using names run by (intro ok_svc_addSlot [OF ok, of i a b x t]) simp_all
next
  case (DeleteSlot i n)
  then show ?thesis using names run by (intro ok_deleteSlot [OF ok, of i n x t]) simp_all
next
  case (DeleteSession i)
  then have "conf_removeSession i s = (Inr x, t)" "i \<in> set (sess_ids s)"
    using names run by (simp_all add: svc_deleteSession_def split: if_splits)
  then show ?thesis by (rule ok_removeSession(1) [OF ok])
next
  case (EditContribution c d a)
  then show ?thesis using run ok_dated [OF dated_edit_contribution ok] by simp
next
  case (ModifyDates e a b r)
  then show ?thesis using run ok_dated [OF dated_modify_dates ok] by simp
next
  case (MoveUpDown o1 k up)
  then show ?thesis using run ok_dated [OF dated_move_updown ok] by simp
next
  case (EditSlot n a b)
  then show ?thesis using run ok_dated [OF dated_slot_values(2) ok] by simp
next
  case (SetDates a b m)
  then show ?thesis using run ok_dated [OF dated_conf_full(2) ok] by simp
next
  case (Reschedule o1 ty diff day f)
  then show ?thesis using run ok_dated [OF dated_reschedule ok] by simp
next
  case (Recalculate n ty diff)
  then show ?thesis using run ok_dated [OF dated_recalculate ok] by simp
next
  case (FitSlot n)
  then show ?thesis using run ok_dated [OF dated_slot_fit ok] by simp
next
  case FitEvent
  then show ?thesis using run ok_dated [OF dated_conf_full(3) ok] by simp
qed

lemma ok_new_event: "timetable_ok {} {} (new_event a b off)"
  by (simp add: timetable_ok_def entries_ok_def objects_ok_def new_event_def entries_of_def in_order_def)

lemma owner_exists_auto: "owner_exists (s\<lparr>auto_ops := l\<rparr>) o1 = owner_exists s o1"
  by (cases o1) (simp_all add: slot_exists_def)

lemma tt_names_auto: "tt_names (s\<lparr>auto_ops := l\<rparr>) q = tt_names s q"
  by (cases q) (simp_all add: owner_exists_auto, simp_all add: slot_exists_def split: option.split)

lemma tt_reach_ok: "tt_reach s \<Longrightarrow> timetable_ok {} {} s"
proof (induction rule: tt_reach.induct)
  case (start a b off)
  show ?case by (rule ok_new_event)
next
  case (request s q)
  show ?case
  proof (cases "tt_run q (s\<lparr>auto_ops := []\<rparr>)")
    case (Pair r t)
    with request.IH show ?thesis
      using ok_tt_run [OF ok_other_fields(1) [OF request.IH]] by (cases r) (auto simp: tt_request_state_def tt_names_auto)
  qed
next
  case (set_closed s b)
  then show ?case by (simp add: ok_other_fields(2))
qed

end
