(* ===== verification/TT_Sample.thy ===== *)
theory TT_Sample
  imports TT_Requests
begin

text \<open>
  A small timetable made by four requests, on which the properties are evaluated.  The equations of
  \<open>tt_steps\<close> unfold a method only when it is applied to a state, so the simplifier runs it step by step.
\<close>

named_theorems tt_steps \<open>methods applied to a state\<close>

lemmas [tt_steps] = need_def [THEN fun_cong] sch_start_def [THEN fun_cong] sch_end_def [THEN fun_cong]
  upd_contrib_def [THEN fun_cong] upd_break_def [THEN fun_cong] upd_slot_def [THEN fun_cong]
  upd_session_def [THEN fun_cong] upd_sched_def [THEN fun_cong] report_def [THEN fun_cong]
  reSchedule_def [THEN fun_cong] synchro_def [THEN fun_cong] max_end.simps [THEN fun_cong]
  calculateEndDate_def [THEN fun_cong] calculateStartDate_def [THEN fun_cong] hasEntriesBefore_def [THEN fun_cong]
  hasEntriesAfter_def [THEN fun_cong] checkSanity_def [THEN fun_cong] outside_date_def [THEN fun_cong]
  isOutside_def [THEN fun_cong] free_loop.simps [THEN fun_cong] findFirstFreeSlot_def [THEN fun_cong]

lemmas [tt_steps] = no_below_def [THEN fun_cong] conf_verifyStartDate_def [THEN fun_cong]
  conf_setStartDate_with_def [THEN fun_cong] conf_verifyEndDate_def [THEN fun_cong] conf_setEndDate_def [THEN fun_cong]
  conf_check_shift_def [THEN fun_cong] conf_setDates_with_def [THEN fun_cong] conf_setStartDate0_def [THEN fun_cong]
  sess_verifyStartDate_def [THEN fun_cong] sess_setStartDate_with_def [THEN fun_cong] sess_setStartDate0_def [THEN fun_cong]
  sess_verifyEndDate_def [THEN fun_cong] sess_setEndDate_def [THEN fun_cong] sess_setDates_with_def [THEN fun_cong]
  slots_min.simps [THEN fun_cong] slots_max.simps [THEN fun_cong] getMinSlotStartDate_def [THEN fun_cong]
  getMaxSlotEndDate_def [THEN fun_cong] sess_fit_def [THEN fun_cong] slot_session_def [THEN fun_cong]
  slot_verifyStartDate_def [THEN fun_cong] slot_verifyDuration_def [THEN fun_cong] slot_setDuration_def [THEN fun_cong]
  slot_setEndDate_def [THEN fun_cong] slot_setStartDate_with_def [THEN fun_cong] slot_setDates_with_def [THEN fun_cong]
  slot_setStartDate0_def [THEN fun_cong] slot_fit_def [THEN fun_cong] owner_setStartDate.simps [THEN fun_cong]
  owner_setEndDate.simps [THEN fun_cong] owner_setDates.simps [THEN fun_cong]

lemmas [tt_steps] = contrib_verifyStartDate_def [THEN fun_cong] contrib_setStartDate_def [THEN fun_cong]
  contrib_verifyDuration_def [THEN fun_cong] contrib_setDuration_def [THEN fun_cong] break_verifyDuration_def [THEN fun_cong]
  break_setDuration_def [THEN fun_cong] break_extend_end_def [THEN fun_cong] break_setStartDate_def [THEN fun_cong]
  leaf_setStartDate.simps [THEN fun_cong] slot_moveEntriesBelow_def [THEN fun_cong] slot_setStartDate_def slot_setDates_def
  entry_setStartDate.simps [THEN fun_cong] entry_setDuration.simps [THEN fun_cong] shift_entry_def [THEN fun_cong]
  sess_moveEntriesBelow_def [THEN fun_cong] move_session_def [THEN fun_cong] conf_move_loop.simps [THEN fun_cong]
  conf_moveEntriesBelow_def [THEN fun_cong] conf_setStartDate_def conf_setDates_def

lemmas [tt_steps] = forget_date.simps [THEN fun_cong] drop_entry_def [THEN fun_cong] removeEntry_def [THEN fun_cong]
  clear_schedule_def [THEN fun_cong] unschedule_def [THEN fun_cong] free_or_extend_def [THEN fun_cong]
  fit_dates_def [THEN fun_cong] check_end_def [THEN fun_cong] place_entry_def [THEN fun_cong] addEntry_raw_def [THEN fun_cong]
  conf_addEntry_def [THEN fun_cong] sess_addEntry_def [THEN fun_cong] slot_fit_dates_def [THEN fun_cong]
  slot_addEntry_def [THEN fun_cong] sess_addSlot_def [THEN fun_cong] sess_dropSlot_def [THEN fun_cong]
  sess_removeContribution_def [THEN fun_cong] contrib_setSession_def [THEN fun_cong] conf_removeSession_def [THEN fun_cong]
  conf_addSession_def [THEN fun_cong] svc_addBreak_def [THEN fun_cong] new_break_def [THEN fun_cong]
  new_contrib_def [THEN fun_cong] svc_editContribution_def [THEN fun_cong] svc_addContribution_def [THEN fun_cong]
  svc_moveToEvent_def [THEN fun_cong] new_slot_def [THEN fun_cong] svc_addSession_def [THEN fun_cong]
  slot_setValues_def [THEN fun_cong] svc_editSlot_def [THEN fun_cong] tt_run.simps [THEN fun_cong] for_each.simps [THEN fun_cong]

lemmas tt_reads = Let_def entries_of_def e_end_def s_end_def sl_end_def c_end_def b_end_def date_key_def entry_key_def
  sort_entries_def hasEntry_def slot_listed_def contrib_parent_def in_session_def local_day_def utc_off_def
  replace_time_def first_slot_end_def slot_exists_def tt_request_state_def

text \<open>
  An event of ten days: a session of one slot from 10:00 to 20:00 of the first day with a contribution at
  10:00 and a break, and a break of the event before it.
\<close>

definition sample_tt :: tt where
  "sample_tt = \<lparr>ev_start = 0, ev_end = 864000, tz_off = \<lambda>_. 0, ev_closed = False, ev_contribs = [0], sess_ids = [0],
     sessions = (\<lambda>_. \<lparr>s_start = 0, s_dur = 60, s_slots = [], s_contribs = [], s_contribDuration = 1200, s_closed = False\<rparr>)
       (0 := \<lparr>s_start = 36000, s_dur = 36000, s_slots = [0], s_contribs = [0], s_contribDuration = 1200, s_closed = False\<rparr>),
     next_session = Suc 0,
     slots = (\<lambda>_. \<lparr>sl_session = None, sl_start = None, sl_dur = 60\<rparr>)
       (0 := \<lparr>sl_session = Some 0, sl_start = Some 36000, sl_dur = 36000\<rparr>),
     next_slot = Suc 0,
     contribs = (\<lambda>_. \<lparr>c_start = None, c_dur = 0, c_session = None, c_status = StNotSch\<rparr>)
       (0 := \<lparr>c_start = Some 36000, c_dur = 3600, c_session = Some 0, c_status = StSch\<rparr>),
     next_contrib = Suc 0,
     breaks = (\<lambda>_. \<lparr>b_start = None, b_dur = 900\<rparr>)
       (0 := \<lparr>b_start = Some 40000, b_dur = 600\<rparr>, Suc 0 := \<lparr>b_start = Some 20000, b_dur = 1800\<rparr>),
     next_break = Suc (Suc 0),
     scheds = (\<lambda>_. \<lparr>sch_entries = [], entry_gen = 0\<rparr>)
       (InSession 0 := \<lparr>sch_entries = [SessE 0], entry_gen = Suc 0\<rparr>,
        InSlot 0 := \<lparr>sch_entries = [ContribE 0, BreakE 0], entry_gen = Suc (Suc 0)\<rparr>,
        Event := \<lparr>sch_entries = [BreakE (Suc 0), ConfE 0], entry_gen = Suc (Suc 0)\<rparr>),
     placed = [SessE 0 \<mapsto> InSession 0, ConfE 0 \<mapsto> Event, ContribE 0 \<mapsto> InSlot 0, BreakE 0 \<mapsto> InSlot 0, BreakE (Suc 0) \<mapsto> Event],
     entry_id = [SessE 0 \<mapsto> 0, ConfE 0 \<mapsto> 0, ContribE 0 \<mapsto> 0, BreakE 0 \<mapsto> Suc 0, BreakE (Suc 0) \<mapsto> Suc 0],
     auto_ops = [], trash = []\<rparr>"

lemma sample_tt_made:
  "sample_tt = tt_request_state (AddBreak None 20000 1800) (tt_request_state (AddBreak (Some 0) 40000 600)
     (tt_request_state (AddContribution (Some 0) 3600 (Some 36000))
       (tt_request_state (AddSession 36000 72000) (new_event 0 864000 (\<lambda>_. 0)))))"
  by (simp add: tt_steps tt_reads new_event_def sample_tt_def)

lemma sample_tt_reach: "tt_reach sample_tt"
  unfolding sample_tt_made by (intro tt_reach.intros) simp

end
