(* ===== verification/TT_Props.thy ===== *)
theory TT_Props
  imports TT_Sample
begin

text \<open>
  The properties of the timetable: what holds of every timetable the requests can make, what an operation
  that returns has reached, and where the code does something else than it means to.
\<close>

section \<open>Every reachable timetable\<close>

text \<open>C5.  In every reachable timetable each schedule is sorted by start and duration, has no entry twice and
  no entry without a start, and an entry is in exactly the schedule it says it is in.\<close>

theorem timetable_consistent:
  assumes "tt_reach s"
  shows "distinct (entries_of s o1) \<and> sorted (map (entry_key s) (entries_of s o1)) \<and>
    (e \<in> set (entries_of s o1)) = (placed s e = Some o1) \<and> (e_start s e = None \<longrightarrow> e \<notin> set (entries_of s o1))"
proof -
  note ok = okD(1) [OF tt_reach_ok [OF assms]]
  have "e_start s e = None \<longrightarrow> e \<notin> set (entries_of s o1)"
    using entries_okD(1,4) [OF ok, of e o1] by blast
  then show ?thesis
    using entries_okD(1) [OF ok, of e o1] entries_okD(2,3) [OF ok, of o1] by (simp add: in_order_def)
qed

theorem timetable_consistent_witness:
  "distinct (entries_of sample_tt Event) \<and> sorted (map (entry_key sample_tt) (entries_of sample_tt Event)) \<and>
    (ConfE 0 \<in> set (entries_of sample_tt Event)) = (placed sample_tt (ConfE 0) = Some Event) \<and>
    placed sample_tt (ConfE 0) = Some Event"
  using timetable_consistent [OF sample_tt_reach, of Event "ConfE 0"] by (simp add: sample_tt_def)

text \<open>C10.  In every reachable timetable a contribution has the status "scheduled" exactly when it is in a schedule;
  one in the schedule of the event belongs to no session, one in a slot belongs to the session of that slot.\<close>

theorem contributions_where_they_belong:
  assumes "tt_reach s"
  shows "(c_status (contribs s c) = StSch) = (\<exists>o1. ContribE c \<in> set (entries_of s o1)) \<and>
    (ContribE c \<in> set (entries_of s Event) \<longrightarrow> c_session (contribs s c) = None) \<and>
    (ContribE c \<in> set (entries_of s (InSlot n)) \<longrightarrow>
       c_session (contribs s c) = sl_session (slots s n) \<and> sl_session (slots s n) \<noteq> None) \<and>
    ContribE c \<notin> set (entries_of s (InSession i))"
proof -
  note ok = okD(1) [OF tt_reach_ok [OF assms]]
  show ?thesis
    using entries_okD(1) [OF ok, of "ContribE c"] entries_okD(5) [OF ok, of "ContribE c"] entries_okD(6) [OF ok, of c]
    by fastforce
qed

theorem contributions_where_they_belong_witness:
  "(c_status (contribs sample_tt 0) = StSch) = (\<exists>o1. ContribE 0 \<in> set (entries_of sample_tt o1)) \<and>
    c_session (contribs sample_tt 0) = sl_session (slots sample_tt 0) \<and> ContribE 0 \<in> set (entries_of sample_tt (InSlot 0))"
  using contributions_where_they_belong [OF sample_tt_reach, of 0 0 0] by (simp add: sample_tt_def entries_of_def)

text \<open>In every reachable timetable the slots of a session are in the schedule of the session and in that of
  the event, and the slots in these schedules are slots of sessions the event still has.\<close>

theorem slots_in_both_timetables:
  assumes "tt_reach s"
  shows "(n \<in> set (s_slots (sessions s i))) = (SessE n \<in> set (entries_of s (InSession i))) \<and>
    (n \<in> set (s_slots (sessions s i)) \<longrightarrow> ConfE n \<in> set (entries_of s Event) \<and> sl_session (slots s n) = Some i \<and> i \<in> set (sess_ids s)) \<and>
    (ConfE n \<in> set (entries_of s Event) \<longrightarrow> (\<exists>j \<in> set (sess_ids s). n \<in> set (s_slots (sessions s j))))"
proof -
  note ok = okD(1) [OF tt_reach_ok [OF assms]] and o = objects_okD [OF okD(2) [OF tt_reach_ok [OF assms]]]
  have conf: "\<exists>j. sl_session (slots s n) = Some j" if "ConfE n \<in> set (entries_of s Event)"
    using entries_okD(1,5) [OF ok, of "ConfE n"] that by auto
  have sess: "sl_session (slots s n) = Some i" if "SessE n \<in> set (entries_of s (InSession i))"
    using entries_okD(1,5) [OF ok, of "SessE n" "InSession i"] that by auto
  have listed: "sl_session (slots s n) = Some j \<and> ConfE n \<in> set (entries_of s Event) \<and> j \<in> set (sess_ids s) \<and>
      SessE n \<in> set (entries_of s (InSession j)) \<and> n \<in> set (s_slots (sessions s j))"
    if "sl_session (slots s n) = Some j" for j
    using o(4) [of n j] o(5) [of n j] o(6) [of n j] o(9) [of n j] that entries_okD(1) [OF ok] by simp
  have "(n \<in> set (s_slots (sessions s i))) = (SessE n \<in> set (entries_of s (InSession i)))"
    using o(3) [of n i] sess listed by blast
  moreover have "n \<in> set (s_slots (sessions s i)) \<longrightarrow>
      ConfE n \<in> set (entries_of s Event) \<and> sl_session (slots s n) = Some i \<and> i \<in> set (sess_ids s)"
    using o(3) [of n i] listed by blast
  moreover have "ConfE n \<in> set (entries_of s Event) \<longrightarrow> (\<exists>j \<in> set (sess_ids s). n \<in> set (s_slots (sessions s j)))"
    using conf listed by blast
  ultimately show ?thesis by blast
qed

theorem slots_in_both_timetables_witness:
  "(0 \<in> set (s_slots (sessions sample_tt 0))) = (SessE 0 \<in> set (entries_of sample_tt (InSession 0))) \<and>
    ConfE 0 \<in> set (entries_of sample_tt Event) \<and> sl_session (slots sample_tt 0) = Some 0"
  using slots_in_both_timetables [OF sample_tt_reach, of 0 0] by (simp add: sample_tt_def)

text \<open>C26.  After a session is deleted nothing of it is left: the event does not list it, its schedule and those
  of its slots are empty, and no contribution belongs to it.\<close>

theorem deleted_session_gone:
  assumes "tt_reach s" "i \<in> set (sess_ids s)" "conf_removeSession i s = (Inr x, t)"
  shows "i \<notin> set (sess_ids t) \<and> entries_of t (InSession i) = [] \<and>
    (n \<in> set (s_slots (sessions s i)) \<longrightarrow> entries_of t (InSlot n) = [] \<and> ConfE n \<notin> set (entries_of t Event)) \<and>
    c_session (contribs t c) \<noteq> Some i"
proof -
  note ok = tt_reach_ok [OF assms(1)] and o = objects_okD [OF okD(2) [OF tt_reach_ok [OF assms(1)]]]
  note r = ok_removeSession [OF ok assms(3,2)]
  note ent = entries_okD [OF okD(1) [OF r(1)]]
  have empty: "entries_of t o1 = []" if "\<And>e. placed t e \<noteq> Some o1" for o1
    using ent(1) [of _ o1] that by (cases "entries_of t o1") auto
  have "placed t e \<noteq> Some (InSession i)" for e
    using ent(5) [of e "InSession i"] r(3) by (cases e) auto
  moreover have "sl_session (slots t n) = None" if "n \<in> set (s_slots (sessions s i))"
    by (rule r(5) [OF that])
  moreover have "placed t e \<noteq> Some (InSlot m)" if "sl_session (slots t m) = None" for e m
    using ent(5) [of e "InSlot m"] that by (cases e) auto
  moreover have "placed t (ConfE m) \<noteq> Some Event" if "sl_session (slots t m) = None" for m
    using ent(5) [of "ConfE m" Event] that by auto
  ultimately show ?thesis
    using empty r(2,4) o(16) ent(1) by (auto simp: set_remove1_eq)
qed

theorem deleted_session_gone_witness:
  "\<exists>t. conf_removeSession 0 sample_tt = (Inr (), t) \<and> 0 \<notin> set (sess_ids t) \<and> entries_of t (InSlot 0) = [] \<and>
    entries_of t (InSession 0) = [] \<and> c_session (contribs t 0) \<noteq> Some 0"
proof -
  obtain t where run: "conf_removeSession 0 sample_tt = (Inr (), t)"
    by (simp add: tt_steps tt_reads sample_tt_def)
  have "0 \<in> set (sess_ids sample_tt)" "0 \<in> set (s_slots (sessions sample_tt 0))" by (simp_all add: sample_tt_def)
  with deleted_session_gone [OF sample_tt_reach _ run, of 0 0] run show ?thesis by blast
qed

section \<open>What an operation has reached\<close>

lemma max_end_run:
  assumes "max_end es d s = (Inr m, t)"
  shows "d \<le> m \<and> (\<forall>e \<in> set es. \<exists>b. e_end s e = Some b \<and> b \<le> m)"
  using assms
proof (induction es arbitrary: d)
  case (Cons e es)
  then obtain b where b: "e_end s e = Some b" and "max_end es (if b > d then b else d) s = (Inr m, t)"
    by (auto simp: need_def split: option.splits)
  from Cons.IH [OF this(2)] b show ?case by (auto split: if_splits)
qed simp

text \<open>A schedule in order that passes \<open>checkSanity\<close> has all its entries inside its owner's dates.\<close>

lemma sorted_first_start:
  assumes "in_order s o1" "entries_of s o1 = f # es" "e \<in> set (f # es)" "e_start s f = Some p" "e_start s e = Some a"
  shows "p \<le> a"
proof -
  have "entry_key s f \<le> entry_key s e" using assms(1-3) by (auto simp: in_order_def)
  then show ?thesis using assms(4,5) by (auto simp: entry_key_def date_key_def)
qed

lemma checkSanity_inside:
  assumes order: "in_order s o1" and run: "checkSanity o1 s = (Inr x, t)"
    and e: "e \<in> set (entries_of s o1)" "e_start s e = Some a"
  shows "\<exists>p q. owner_start s o1 = Some p \<and> owner_end s o1 = Some q \<and> p \<le> a \<and> a + e_dur s e \<le> q"
proof -
  let ?tail = "\<lambda>b. bnd (hasEntriesAfter o1 b) (\<lambda>after. if after then raise_exn TimingError else ret ())"
  obtain p where p: "owner_start s o1 = Some p" and run1:
    "bnd (hasEntriesBefore o1 p) (\<lambda>before. if before then raise_exn TimingError else bnd (sch_end o1) ?tail) s = (Inr x, t)"
    using run by (simp add: checkSanity_def sch_start_def split: option.splits)
  from bnd_InrE [OF run1] obtain y u where y: "hasEntriesBefore o1 p s = (Inr y, u)" and
    "(if y then raise_exn TimingError else bnd (sch_end o1) ?tail) u = (Inr x, t)" .
  then have not: "\<not> y" and tail: "bnd (sch_end o1) ?tail u = (Inr x, t)" by (cases y; simp)+
  have "reads (hasEntriesBefore o1 p)" by (intro read_intros)
  from reads_run [OF this y] not y have u: "u = s" and before: "hasEntriesBefore o1 p s = (Inr False, s)" by simp_all
  obtain q where q: "owner_end s o1 = Some q" and "?tail q s = (Inr x, t)"
    using tail u by (auto simp: sch_end_def need_def split: option.splits)
  from bnd_InrE [OF this(2)] obtain z w where "hasEntriesAfter o1 q s = (Inr z, w)" and
    "(if z then raise_exn TimingError else ret ()) w = (Inr x, t)" .
  then have after: "hasEntriesAfter o1 q s = (Inr False, w)" by (cases z; simp)
  obtain f es where es: "entries_of s o1 = f # es" using e(1) by (cases "entries_of s o1") auto
  obtain c where "e_start s f = Some c" "p \<le> c"
    using before es by (auto simp: hasEntriesBefore_def need_def split: option.splits)
  then have "p \<le> a" using sorted_first_start [OF order es _ _ e(2)] e(1) es by fastforce
  moreover obtain m where "max_end (entries_of s o1) p s = (Inr m, w)" "m \<le> q"
    using after es p by (auto simp: hasEntriesAfter_def calculateEndDate_def sch_start_def split: sum.splits prod.splits)
  then have "a + e_dur s e \<le> q" using max_end_run e by (fastforce simp: e_end_def)
  ultimately show ?thesis using p q by blast
qed

text \<open>C15.  When the values of a slot are set (\<open>SessionSlot.setValues\<close> with both dates), every entry of the slot
  lies inside the slot.\<close>

theorem edited_slot_holds_entries:
  assumes "tt_reach s" "svc_editSlot n a b s = (Inr x, t)" "e \<in> set (entries_of t (InSlot n))"
  shows "\<exists>st d. sl_start (slots t n) = Some st \<and> e_start t e = Some d \<and> st \<le> d \<and> d + e_dur t e \<le> st + sl_dur (slots t n)"
proof -
  note ok = tt_reach_ok [OF assms(1)]
  have okt: "timetable_ok {} {} t" by (rule ok_dated [OF dated_slot_values(2) ok assms(2)])
  obtain y u where "slot_setDates n a b 2 (entries_of s (InSlot n) \<noteq> []) s = (Inr y, u)" and sane: "checkSanity (InSlot n) u = (Inr x, t)"
    using assms(2) unfolding svc_editSlot_def slot_setValues_def bnd_get_st by (rule andthen_InrE)
  have "reads (checkSanity (InSlot n))" by (intro read_intros)
  from reads_run [OF this sane] have "t = u" .
  moreover
  obtain d where "e_start t e = Some d"
    using entries_okD(1,4) [OF okD(1) [OF okt], of e "InSlot n"] assms(3) by auto
  ultimately show ?thesis
    using checkSanity_inside [OF entries_okD(3) [OF okD(1) [OF okt]], of "InSlot n" x t e d] sane assms(3)
    by (auto simp: sl_end_def)
qed

theorem edited_slot_holds_entries_witness:
  "\<exists>t st d. svc_editSlot 0 108000 150000 sample_tt = (Inr (), t) \<and> sl_start (slots t 0) = Some st \<and>
    e_start t (BreakE 0) = Some d \<and> st \<le> d \<and> d + e_dur t (BreakE 0) \<le> st + sl_dur (slots t 0)"
proof -
  obtain t where run: "svc_editSlot 0 108000 150000 sample_tt = (Inr (), t)" and "BreakE 0 \<in> set (entries_of t (InSlot 0))"
    by (simp add: tt_steps tt_reads sample_tt_def)
  from edited_slot_holds_entries [OF sample_tt_reach this] run show ?thesis by blast
qed

text \<open>C16.  When the dates of an event are changed (\<open>Conference.setDates\<close>) and the call returns, with or
  without moving its entries, its end is the new one and every entry lies inside its dates.\<close>

theorem event_dates_hold_entries:
  assumes "tt_reach s" "conf_setDates a b move s = (Inr x, t)" "\<not> (a = ev_start s \<and> b = ev_end s)"
    "e \<in> set (entries_of t Event)"
  shows "ev_end t = b \<and> (\<exists>d. e_start t e = Some d \<and> ev_start t \<le> d \<and> d + e_dur t e \<le> b)"
proof -
  note ok = tt_reach_ok [OF assms(1)]
  have okt: "timetable_ok {} {} t" by (rule ok_dated [OF dated_conf_full(2) ok assms(2)])
  define mv where "mv = (move \<and> a \<noteq> ev_start s)"
  have "andthen (when_do mv (conf_check_shift a b)) (andthen (conf_setStartDate_with conf_moveEntriesBelow a 0 mv)
      (andthen (conf_setEndDate b 0) (checkSanity Event))) s = (Inr x, t)"
    using assms(2,3) unfolding conf_setDates_def conf_setDates_with_def bnd_get_st mv_def Let_def
    by (simp only: raise_run split: if_splits) auto
  then obtain y u where "andthen (conf_setStartDate_with conf_moveEntriesBelow a 0 mv) (andthen (conf_setEndDate b 0) (checkSanity Event)) u = (Inr x, t)"
    by (blast elim: andthen_InrE)
  then obtain v where "andthen (conf_setEndDate b 0) (checkSanity Event) v = (Inr x, t)" by (blast elim: andthen_InrE)
  then obtain z w where setend: "conf_setEndDate b 0 v = (Inr z, w)" and sane: "checkSanity Event w = (Inr x, t)" by (blast elim: andthen_InrE)
  have "reads (checkSanity Event)" by (intro read_intros)
  from reads_run [OF this sane] have w: "t = w" .
  have "ev_end t = b" using setend w by (auto simp: conf_setEndDate_def split: if_splits)
  moreover
  obtain d where "e_start t e = Some d"
    using entries_okD(1,4) [OF okD(1) [OF okt], of e Event] assms(4) by auto
  ultimately show ?thesis
    using checkSanity_inside [OF entries_okD(3) [OF okD(1) [OF okt]], of Event x t e d] sane assms(4) w by auto
qed

theorem event_dates_hold_entries_witness:
  "\<exists>t d. conf_setDates 86400 500000 True sample_tt = (Inr (), t) \<and> ev_end t = 500000 \<and>
    e_start t (ConfE 0) = Some d \<and> ev_start t \<le> d \<and> d + e_dur t (ConfE 0) \<le> 500000"
proof -
  obtain t where run: "conf_setDates 86400 500000 True sample_tt = (Inr (), t)" and mem: "ConfE 0 \<in> set (entries_of t Event)"
    by (simp add: tt_steps tt_reads sample_tt_def)
  have "\<not> (86400 = ev_start sample_tt \<and> 500000 = ev_end sample_tt)" by (simp add: sample_tt_def)
  from event_dates_hold_entries [OF sample_tt_reach run this mem] run show ?thesis by blast
qed

end
