(* ===== verification/TT_More.thy ===== *)
theory TT_More
  imports TT_Sample
begin

text \<open>
  What the operations on entries do: the first free slot of a schedule, an entry added to the timetable of
  the event, a refused start, a break that is moved, the order of the entries after they are moved up or
  rescheduled.
\<close>

section \<open>The first free slot\<close>

text \<open>Entries that follow one another from \<open>d\<close> to \<open>en\<close>, and a start \<open>x\<close> at which \<open>r\<close> seconds are free.\<close>

fun sequential :: "tt \<Rightarrow> int \<Rightarrow> tentry list \<Rightarrow> int \<Rightarrow> bool" where
  "sequential s d [] en = (d \<le> en)"
| "sequential s d (e # es) en = (case e_start s e of
       None \<Rightarrow> False | Some a \<Rightarrow> d \<le> a \<and> 0 \<le> e_dur s e \<and> sequential s (a + e_dur s e) es en)"

definition free_at :: "tt \<Rightarrow> tentry list \<Rightarrow> int \<Rightarrow> int \<Rightarrow> int \<Rightarrow> bool" where
  "free_at s es en r x \<longleftrightarrow> x + r \<le> en \<and> (\<forall>e \<in> set es. x + r \<le> date_key s e \<or> date_key s e + e_dur s e \<le> x)"

definition first_free :: "tt \<Rightarrow> int \<Rightarrow> tentry list \<Rightarrow> int \<Rightarrow> int \<Rightarrow> int option \<Rightarrow> bool" where
  "first_free s d es en r res \<longleftrightarrow> (case res of
       None \<Rightarrow> \<forall>x. d \<le> x \<longrightarrow> \<not> free_at s es en r x
     | Some x \<Rightarrow> d \<le> x \<and> free_at s es en r x \<and> (\<forall>y. d \<le> y \<and> y < x \<longrightarrow> \<not> free_at s es en r y))"

lemma sequential_bounds:
  assumes "sequential s d es en"
  shows "d \<le> en" "e \<in> set es \<Longrightarrow> d \<le> date_key s e"
proof -
  have "d \<le> en \<and> (\<forall>e \<in> set es. d \<le> date_key s e)"
    using assms by (induction es arbitrary: d) (fastforce simp: date_key_def split: option.splits)+
  then show "d \<le> en" "e \<in> set es \<Longrightarrow> d \<le> date_key s e" by blast+
qed

lemma free_loop_first:
  assumes "sequential s d es en"
  shows "\<exists>res. free_loop es (Some r) en d s = (Inr res, s) \<and> first_free s d es en r res"
  using assms
proof (induction es arbitrary: d)
  case Nil
  then show ?case by (auto simp: first_free_def free_at_def)
next
  case (Cons e es)
  then obtain a where a: "e_start s e = Some a" "d \<le> a" "0 \<le> e_dur s e" and rest: "sequential s (a + e_dur s e) es en"
    by (auto split: option.splits)
  have key: "date_key s e = a" using a(1) by (simp add: date_key_def)
  show ?case
  proof (cases "r \<le> a - d")
    case True
    have "d + r \<le> date_key s f" if "f \<in> set es" for f
      using sequential_bounds(2) [OF rest that] a(3) True by simp
    moreover have "d + r \<le> en" using sequential_bounds(1) [OF rest] a(3) True by simp
    ultimately have "first_free s d (e # es) en r (Some d)"
      using True by (auto simp: first_free_def free_at_def key)
    then show ?thesis using True a(1) by (simp add: need_def)
  next
    case False
    obtain res where res: "free_loop es (Some r) en (a + e_dur s e) s = (Inr res, s)" "first_free s (a + e_dur s e) es en r res"
      using Cons.IH [OF rest] by blast
    have "free_at s (e # es) en r x \<longleftrightarrow> a + e_dur s e \<le> x \<and> free_at s es en r x" if "d \<le> x" for x
      using that False by (auto simp: free_at_def key)
    then have "first_free s d (e # es) en r res"
      using res(2) a(2,3) by (auto simp: first_free_def split: option.splits)
    then show ?thesis using False a(1) res(1) by (auto simp: need_def e_end_def)
  qed
qed

text \<open>C25.  In a schedule whose entries follow one another inside their owner's dates, \<open>findFirstFreeSlot\<close> returns
  the earliest start at which the required time is free, and \<open>None\<close> exactly when there is none.\<close>

theorem first_free_slot:
  assumes "owner_start s o1 = Some p" "owner_end s o1 = Some q" "sequential s p (entries_of s o1) q"
  shows "\<exists>res. findFirstFreeSlot o1 (Some r) s = (Inr res, s) \<and> first_free s p (entries_of s o1) q r res"
  using free_loop_first [OF assms(3), of r] assms(1,2) by (simp add: findFirstFreeSlot_def sch_start_def sch_end_def need_def)

theorem first_free_slot_witness:
  "\<exists>res. findFirstFreeSlot (InSlot 0) (Some 1800) sample_tt = (Inr res, sample_tt) \<and>
    first_free sample_tt 36000 (entries_of sample_tt (InSlot 0)) 72000 1800 res"
  using first_free_slot [of sample_tt "InSlot 0" 36000 72000 1800]
  by (simp add: sample_tt_def sl_end_def entries_of_def)

text \<open>
  With entries at the same time the search goes back to the end of the last one: a break until 14:00 and one
  until 00:33, and 00:33 is returned for an hour.
\<close>

definition parallel_tt :: tt where
  "parallel_tt = sample_tt\<lparr>breaks := (breaks sample_tt)(0 := \<lparr>b_start = Some 0, b_dur = 50000\<rparr>, 1 := \<lparr>b_start = Some 1000, b_dur = 1000\<rparr>),
     scheds := (scheds sample_tt)(Event := \<lparr>sch_entries = [BreakE 0, BreakE 1], entry_gen = 2\<rparr>)\<rparr>"

lemma free_slot_taken: "findFirstFreeSlot Event (Some 3600) parallel_tt = (Inr (Some 2000), parallel_tt)"
  by (simp add: tt_steps tt_reads parallel_tt_def sample_tt_def)

section \<open>An entry added to the event\<close>

lemma conf_start_run:
  assumes "conf_setStartDate0 d check s = (Inr x, t)"
  shows "t = s\<lparr>ev_start := d\<rparr>"
proof (cases "d = ev_start s")
  case True
  then show ?thesis using assms by (simp add: conf_setStartDate0_def conf_setStartDate_with_def)
next
  case False
  then have "andthen (when_do (check \<noteq> 0) (conf_verifyStartDate d)) (modify (\<lambda>t. t\<lparr>ev_start := d\<rparr>)) s = (Inr x, t)"
    using assms by (simp add: conf_setStartDate0_def conf_setStartDate_with_def split: if_splits sum.splits prod.splits)
  then obtain y u where u: "when_do (check \<noteq> 0) (conf_verifyStartDate d) s = (Inr y, u)" and t: "modify (\<lambda>t. t\<lparr>ev_start := d\<rparr>) u = (Inr x, t)"
    by (rule andthen_InrE)
  have "reads (when_do (check \<noteq> 0) (conf_verifyStartDate d))" by (simp add: when_do_def read_intros)
  from reads_run [OF this u] t show ?thesis by simp
qed

lemma conf_end_run:
  assumes "conf_setEndDate d check s = (Inr x, t)"
  shows "t = s\<lparr>ev_end := d\<rparr>"
proof (cases "d = ev_end s")
  case True
  then show ?thesis using assms by (simp add: conf_setEndDate_def)
next
  case False
  then have "andthen (when_do (check \<noteq> 0) (conf_verifyEndDate d)) (modify (\<lambda>t. t\<lparr>ev_end := d\<rparr>)) s = (Inr x, t)"
    using assms by (simp add: conf_setEndDate_def)
  then obtain y u where u: "when_do (check \<noteq> 0) (conf_verifyEndDate d) s = (Inr y, u)" and t: "modify (\<lambda>t. t\<lparr>ev_end := d\<rparr>) u = (Inr x, t)"
    by (rule andthen_InrE)
  have "reads (when_do (check \<noteq> 0) (conf_verifyEndDate d))" by (simp add: when_do_def read_intros)
  from reads_run [OF this u] t show ?thesis by simp
qed

lemma view_event [simp]:
  "e_start (s\<lparr>ev_start := a\<rparr>) e = e_start s e" "e_start (s\<lparr>ev_end := a\<rparr>) e = e_start s e"
  "e_dur (s\<lparr>ev_start := a\<rparr>) e = e_dur s e" "e_dur (s\<lparr>ev_end := a\<rparr>) e = e_dur s e"
  "e_start (s\<lparr>auto_ops := r\<rparr>) e = e_start s e" "e_dur (s\<lparr>auto_ops := r\<rparr>) e = e_dur s e"
  by (cases e; simp)+

lemma fit_dates_event:
  assumes "fit_dates Event e 2 s = (Inr x, t)" "e_start s e = Some a"
  shows "ev_start t = min a (ev_start s)"
    "ev_end t = (if a < ev_start s then ev_end s else max (ev_end s) (a + e_dur s e))"
    "e_start t f = e_start s f \<and> e_dur t f = e_dur s f" "placed t = placed s" "trash t = trash s"
proof -
  have "ev_start t = min a (ev_start s) \<and>
    ev_end t = (if a < ev_start s then ev_end s else max (ev_end s) (a + e_dur s e)) \<and>
    (\<forall>f. e_start t f = e_start s f \<and> e_dur t f = e_dur s f) \<and> placed t = placed s \<and> trash t = trash s"
  proof (cases "a < ev_start s")
    case True
    then obtain r where "conf_setStartDate0 a 2 (s\<lparr>auto_ops := r\<rparr>) = (Inr x, t)"
      using assms by (auto simp: fit_dates_def sch_start_def report_def)
    from conf_start_run [OF this] True show ?thesis by simp
  next
    case False
    show ?thesis
    proof (cases "a + e_dur s e > ev_end s")
      case True
      then obtain r where "conf_setEndDate (a + e_dur s e) 2 (s\<lparr>auto_ops := r\<rparr>) = (Inr x, t)"
        using assms False by (auto simp: fit_dates_def sch_start_def sch_end_def report_def need_def e_end_def)
      from conf_end_run [OF this] True False show ?thesis by simp
    next
      case inside: False
      then have "t = s" using assms False by (auto simp: fit_dates_def sch_start_def sch_end_def need_def e_end_def)
      then show ?thesis using inside False by simp
    qed
  qed
  then show "ev_start t = min a (ev_start s)"
    "ev_end t = (if a < ev_start s then ev_end s else max (ev_end s) (a + e_dur s e))"
    "e_start t f = e_start s f \<and> e_dur t f = e_dur s f" "placed t = placed s" "trash t = trash s" by blast+
qed

lemma insert_entry_dates:
  assumes "insert_entry o1 e s = (Inr x, t)"
  shows "ev_start t = ev_start s" "ev_end t = ev_end s" "trash t = trash s"
proof -
  let ?s1 = "s\<lparr>scheds := (scheds s)(o1 := (scheds s o1)\<lparr>sch_entries := entries_of s o1 @ [e]\<rparr>)\<rparr>"
  obtain y u where "place_entry o1 e ?s1 = (Inr y, u)" and sort: "reSchedule o1 u = (Inr x, t)"
    using assms unfolding insert_entry_def andthen_Inr upd_sched_def modify_run entries_of_def by blast
  then have "ev_start u = ev_start s \<and> ev_end u = ev_end s \<and> trash u = trash s"
    by (cases e; auto simp: place_entry_def Let_def upd_sched_def upd_contrib_def split: if_splits)
  moreover have "ev_start t = ev_start u \<and> ev_end t = ev_end u \<and> trash t = trash u"
    using sort by (auto simp: reSchedule_def Let_def upd_sched_def split: if_splits)
  ultimately show "ev_start t = ev_start s" "ev_end t = ev_end s" "trash t = trash s" by simp_all
qed

lemma event_add:
  assumes "placed s e = None" "slot_of e = None" "e_start s e = Some a" "conf_addEntry e 2 s = (Inr x, t)"
  shows "e \<in> set (entries_of t Event)" "placed t = (placed s)(e := Some Event)" "ev_start t = min a (ev_start s)"
    "ev_end t = (if a < ev_start s then ev_end s else max (ev_end s) (a + e_dur s e))"
    "a + e_dur s e \<le> ev_end t" "e_start t f = e_start s f" "e_dur t f = e_dur s f" "trash t = trash s"
proof -
  have raw: "addEntry_raw Event e 2 s = (Inr x, t)"
    using assms by (cases e) (auto simp: conf_addEntry_def hasEntry_def split: if_splits)
  then obtain y u z v w r where un: "unschedule e s = (Inr y, u)" and fit: "fit_dates Event e 2 u = (Inr z, v)"
    and check: "check_end Event e v = (Inr w, v)" and ins: "insert_entry Event e v = (Inr r, t)"
    by (rule addEntry_raw_split)
  have "u = s" using un assms(1) by (simp add: unschedule_def)
  note v = fit_dates_event [OF fit [unfolded this] assms(3)] and i = insert_entry_run [OF ins] and d = insert_entry_dates [OF ins]
  show "e \<in> set (entries_of t Event)" using arg_cong [OF i(1) [of Event], of set_mset] by simp
  show "placed t = (placed s)(e := Some Event)" using i(4) v(4) by simp
  show "ev_start t = min a (ev_start s)" "trash t = trash s" by (simp_all add: d v)
  show "ev_end t = (if a < ev_start s then ev_end s else max (ev_end s) (a + e_dur s e))" by (simp only: d v)
  show "a + e_dur s e \<le> ev_end t"
    using check v(3) [of e] assms(3) by (auto simp: d check_end_def sch_start_def sch_end_def need_def e_end_def split: if_splits)
  show "e_start t f = e_start s f" "e_dur t f = e_dur s f" using v(3) [of f] i(7) [of f] i(8) [of f] by simp_all
qed

text \<open>C27.  An unscheduled contribution or break with a start that is added to the timetable of the event is in
  it afterwards, at its start; the event begins earlier when the entry does and ends later when the entry
  does, the entry lies inside it and no other date changes.\<close>

theorem added_to_event_fits:
  assumes "placed s e = None" "slot_of e = None" "e_start s e = Some a" "conf_addEntry e 2 s = (Inr x, t)"
  shows "e \<in> set (entries_of t Event) \<and> placed t e = Some Event \<and> ev_start t = min a (ev_start s) \<and>
    ev_end t = (if a < ev_start s then ev_end s else max (ev_end s) (a + e_dur s e)) \<and>
    ev_start t \<le> a \<and> a + e_dur s e \<le> ev_end t \<and> e_start t f = e_start s f \<and> e_dur t f = e_dur s f"
  using event_add [OF assms] by simp

theorem added_to_event_fits_witness:
  "\<exists>t. conf_addEntry (BreakE 7) 2 (sample_tt\<lparr>breaks := (breaks sample_tt)(7 := \<lparr>b_start = Some 863000, b_dur = 1800\<rparr>)\<rparr>) = (Inr (), t) \<and>
    BreakE 7 \<in> set (entries_of t Event) \<and> ev_start t = 0 \<and> ev_end t = 864800"
proof -
  let ?s = "sample_tt\<lparr>breaks := (breaks sample_tt)(7 := \<lparr>b_start = Some 863000, b_dur = 1800\<rparr>)\<rparr>"
  have "\<exists>t. conf_addEntry (BreakE 7) 2 ?s = (Inr (), t)"
    by (simp add: tt_steps tt_reads sample_tt_def)
  then obtain t where run: "conf_addEntry (BreakE 7) 2 ?s = (Inr (), t)" ..
  have "placed ?s (BreakE 7) = None" "slot_of (BreakE 7) = None" "e_start ?s (BreakE 7) = Some 863000"
    by (simp_all add: sample_tt_def)
  from added_to_event_fits [OF this run] run show ?thesis by (simp add: sample_tt_def)
qed

section \<open>A start that is refused\<close>

lemma reSchedule_returns:
  assumes "\<And>e. e \<in> set (entries_of s o1) \<Longrightarrow> e_start s e \<noteq> None"
  shows "reSchedule o1 s = (Inr (), s\<lparr>scheds := (scheds s)(o1 := (scheds s o1)\<lparr>sch_entries := sort_entries s (entries_of s o1)\<rparr>)\<rparr>)"
proof -
  have "\<not> (\<exists>e \<in> set (entries_of s o1). e_start s e = None)" using assms by blast
  then show ?thesis by (simp add: reSchedule_def upd_sched_def Let_def)
qed

text \<open>With \<open>check=1\<close> the start of a contribution is refused, and nothing changes, exactly when the contribution
  would not lie inside the slot, session or event it belongs to; otherwise it is set and the dates of everything
  else stay.\<close>

theorem check_one_refuses:
  assumes "tt_reach s" "owner_start s (contrib_parent s c) = Some p" "owner_end s (contrib_parent s c) = Some q"
  shows "if d < p \<or> d > q \<or> d + c_dur (contribs s c) > q
    then contrib_setStartDate c (Some d) 1 s = (Inl ParentTimingError, s)
    else \<exists>t. contrib_setStartDate c (Some d) 1 s = (Inr (), t) \<and> e_start t = (e_start s)(ContribE c := Some d) \<and>
      e_dur t = e_dur s \<and> ev_start t = ev_start s \<and> ev_end t = ev_end s \<and> sessions t = sessions s \<and> slots t = slots s"
proof (cases "d < p \<or> d > q \<or> d + c_dur (contribs s c) > q")
  case True
  then show ?thesis using assms(2,3)
    by (auto simp: contrib_setStartDate_def contrib_verifyStartDate_def Let_def need_def)
next
  case False
  let ?u = "s\<lparr>contribs := (contribs s)(c := (contribs s c)\<lparr>c_start := Some d\<rparr>)\<rparr>"
  have view: "e_start ?u e = ((e_start s)(ContribE c := Some d)) e" "e_dur ?u e = e_dur s e" for e
    by (cases e; simp)+
  note ent = entries_okD [OF okD(1) [OF tt_reach_ok [OF assms(1)]]]
  have "e_start ?u e \<noteq> None" if "e \<in> set (entries_of ?u o1)" for e o1
    using that ent(1,4) [of e o1] by (simp only: view) (simp add: entries_of_def)
  note sorted = reSchedule_returns [OF this]
  have run: "contrib_setStartDate c (Some d) 1 s = synchro (ContribE c) ?u"
    using False assms(2,3) by (simp add: contrib_setStartDate_def contrib_verifyStartDate_def Let_def need_def upd_contrib_def)
  obtain sc where "synchro (ContribE c) ?u = (Inr (), ?u\<lparr>scheds := sc\<rparr>)"
  proof (cases "placed s (ContribE c)")
    case None
    then have "synchro (ContribE c) ?u = (Inr (), ?u\<lparr>scheds := scheds s\<rparr>)" by (simp add: synchro_def)
    then show thesis by (rule that)
  next
    case (Some o1)
    then show thesis using sorted [of o1] that by (simp add: synchro_def)
  qed
  moreover have "e_start (?u\<lparr>scheds := sc\<rparr>) e = ((e_start s)(ContribE c := Some d)) e" "e_dur (?u\<lparr>scheds := sc\<rparr>) e = e_dur s e" for e
    by (cases e; simp)+
  ultimately show ?thesis using False run by (auto simp: fun_eq_iff)
qed

theorem check_one_refuses_witness:
  "contrib_setStartDate 0 (Some 70000) 1 sample_tt = (Inl ParentTimingError, sample_tt) \<and>
    (\<exists>t. contrib_setStartDate 0 (Some 60000) 1 sample_tt = (Inr (), t) \<and> e_start t = (e_start sample_tt)(ContribE 0 := Some 60000))"
proof -
  have "owner_start sample_tt (contrib_parent sample_tt 0) = Some 36000" "owner_end sample_tt (contrib_parent sample_tt 0) = Some 72000"
    "c_dur (contribs sample_tt 0) = 3600"
    by (simp_all add: sample_tt_def contrib_parent_def sl_end_def)
  note use = check_one_refuses [OF sample_tt_reach this(1,2), unfolded this(3)]
  show ?thesis using use [of 70000] use [of 60000] by auto
qed

section \<open>A break that is moved\<close>

text \<open>A break that is moved to the timetable of the event is scheduled there, and it is in the trash can as
  well: taking it out of its old schedule has deleted it.\<close>

theorem moved_break_in_trash:
  assumes "tt_reach s" "placed s (BreakE b) \<noteq> None" "svc_moveToEvent (BreakE b) d s = (Inr x, t)"
  shows "BreakE b \<in> set (entries_of t Event) \<and> e_start t (BreakE b) = Some d \<and> BreakE b \<in> set (trash t)"
proof -
  obtain o1 where o1: "placed s (BreakE b) = Some o1" using assms(2) by blast
  obtain y u where un: "unschedule (BreakE b) s = (Inr y, u)" and
    rest: "andthen (entry_setStartDate (BreakE b) (Some d) 2 False) (andthen (ret ()) (conf_addEntry (BreakE b) 2)) u = (Inr x, t)"
    using assms(3) unfolding svc_moveToEvent_def by (simp only: tentry.case) (blast elim: andthen_InrE)
  have "hasEntry s o1 (BreakE b)" using o1 ok_hasEntry [OF tt_reach_ok [OF assms(1)]] by simp
  then have u: "placed u (BreakE b) = None" "BreakE b \<in> set (trash u)"
    using un o1 by (auto simp: unschedule_def removeEntry_def slot_listed_def drop_entry_def upd_sched_def upd_break_def split: towner.splits)
  let ?v = "u\<lparr>breaks := (breaks u)(b := (breaks u b)\<lparr>b_start := Some d\<rparr>)\<rparr>"
  have run: "conf_addEntry (BreakE b) 2 ?v = (Inr x, t)"
    using rest u(1) by (simp add: break_setStartDate_def upd_break_def)
  have "placed ?v (BreakE b) = None" "slot_of (BreakE b) = None" "e_start ?v (BreakE b) = Some d" using u by simp_all
  note added = event_add(1,8) [OF this run] event_add(6) [OF this run, of "BreakE b"]
  show ?thesis using added u(2) by simp
qed

theorem moved_break_in_trash_witness:
  "\<exists>t. svc_moveToEvent (BreakE 0) 500000 sample_tt = (Inr (), t) \<and> BreakE 0 \<in> set (entries_of t Event) \<and> BreakE 0 \<in> set (trash t)"
proof -
  have "\<exists>t. svc_moveToEvent (BreakE 0) 500000 sample_tt = (Inr (), t)"
    by (simp add: tt_steps tt_reads sample_tt_def)
  then obtain t where run: "svc_moveToEvent (BreakE 0) 500000 sample_tt = (Inr (), t)" ..
  have "placed sample_tt (BreakE 0) \<noteq> None" by (simp add: sample_tt_def)
  from moved_break_in_trash [OF sample_tt_reach this run] run show ?thesis by blast
qed

text \<open>
  Moving a contribution out of its session sets its new start while it is still in the session, so the session
  of the sample, which ends at 20:00 of the first day, then ends with the contribution, four days later.
\<close>

lemma moving_out_stretches_session:
  "map_prod id (\<lambda>t. (s_end (sessions t 0), placed t (ContribE 0))) (svc_moveToEvent (ContribE 0) 400000 sample_tt) =
    (Inr (), (403600, Some Event))"
  by (simp add: tt_steps tt_reads sample_tt_def)

section \<open>The order of the entries\<close>

lemma synchro_run:
  assumes "synchro e s = (Inr x, t)"
  shows "t = s\<lparr>scheds := scheds t\<rparr>"
  using assms by (auto simp: synchro_def reSchedule_def upd_sched_def Let_def split: option.splits if_splits)

lemma view_scheds [simp]: "e_start (s\<lparr>scheds := f\<rparr>) e = e_start s e" "e_dur (s\<lparr>scheds := f\<rparr>) e = e_dur s e"
  by (cases e; simp)+

lemma synchro_view:
  assumes "synchro e s = (Inr x, t)"
  shows "e_start t f = e_start s f" "e_dur t f = e_dur s f"
  by (subst synchro_run [OF assms], simp)+

lemma reSchedule_view:
  assumes "reSchedule o1 s = (Inr x, t)"
  shows "e_start t f = e_start s f" "e_dur t f = e_dur s f"
  using assms by (auto simp: reSchedule_def upd_sched_def Let_def split: if_splits)

lemma reads_extend0: "reads (break_extend_end b o1 d 0)"
  unfolding break_extend_end_def by (auto simp: when_do_def intro!: read_intros)

text \<open>The start of a contribution or break set without a check is set and nothing else.\<close>

lemma leaf_start:
  assumes "entry_setStartDate e (Some d) 0 mv s = (Inr x, t)" "slot_of e = None"
  shows "e_start t f = (if f = e then Some d else e_start s f)" "e_dur t f = e_dur s f"
proof -
  have "e_start t f = (if f = e then Some d else e_start s f) \<and> e_dur t f = e_dur s f"
  proof (cases e)
    case (ContribE c)
    then have "synchro (ContribE c) (s\<lparr>contribs := (contribs s)(c := (contribs s c)\<lparr>c_start := Some d\<rparr>)\<rparr>) = (Inr x, t)"
      using assms(1) by (simp add: contrib_setStartDate_def upd_contrib_def)
    from synchro_view [OF this, of f] ContribE show ?thesis by (cases f) auto
  next
    case (BreakE b)
    let ?u = "s\<lparr>breaks := (breaks s)(b := (breaks s b)\<lparr>b_start := Some d\<rparr>)\<rparr>"
    have view: "e_start ?u f = (if f = e then Some d else e_start s f) \<and> e_dur ?u f = e_dur s f"
      using BreakE by (cases f) auto
    show ?thesis
    proof (cases "placed s (BreakE b)")
      case None
      then have "t = ?u" using assms(1) BreakE by (simp add: break_setStartDate_def upd_break_def)
      then show ?thesis using view by simp
    next
      case (Some o1)
      let ?last = "bnd get_st (\<lambda>t. bnd (need (b_end (breaks t b))) (\<lambda>be. break_extend_end b o1 be 0))"
      have "andthen (break_extend_end b o1 d 0) (andthen (upd_break b (\<lambda>x. x\<lparr>b_start := Some d\<rparr>))
          (andthen (synchro (BreakE b)) ?last)) s = (Inr x, t)"
        using assms(1) BreakE Some by (simp add: break_setStartDate_def need_def split: option.splits if_splits)
      then obtain y u where u: "break_extend_end b o1 d 0 s = (Inr y, u)" and
        "andthen (upd_break b (\<lambda>x. x\<lparr>b_start := Some d\<rparr>)) (andthen (synchro (BreakE b)) ?last) u = (Inr x, t)"
        by (rule andthen_InrE)
      moreover have "u = s" by (rule reads_run [OF reads_extend0 u])
      ultimately have "andthen (synchro (BreakE b)) ?last ?u = (Inr x, t)" by (simp add: upd_break_def)
      then obtain z v where sync: "synchro (BreakE b) ?u = (Inr z, v)" and v: "?last v = (Inr x, t)"
        by (rule andthen_InrE)
      have "reads ?last" by (intro read_intros reads_extend0)
      from reads_run [OF this v] have "t = v" .
      then show ?thesis using synchro_view [OF sync, of f] view by simp
    qed
  qed (use assms(2) in simp_all)
  then show "e_start t f = (if f = e then Some d else e_start s f)" "e_dur t f = e_dur s f" by blast+
qed

text \<open>Moving an entry up swaps it with the one before it on its day: it starts where the other one started,
  the other one starts where it now ends, and every other start and all durations stay.\<close>

theorem moved_up_swaps:
  assumes "moveUpEntry o1 e s = (Inr x, t)" "\<And>i. o1 \<noteq> InSession i" "e_start s e = Some a"
    "getEntriesOnDay s (tz_off s) o1 a = es" "list_pos e es = Suc k" "Suc k < length es" "es ! k = p" "p \<noteq> e"
    "slot_of e = None" "slot_of p = None" "e_start s p = Some b"
  shows "e_start t e = Some b \<and> e_start t p = Some (b + e_dur s e) \<and>
    (f \<noteq> e \<and> f \<noteq> p \<longrightarrow> e_start t f = e_start s f) \<and> e_dur t f = e_dur s f"
proof -
  have "andthen (andthen (entry_setStartDate e (Some b) 0 True) (chain_after e [p])) (reSchedule o1) s = (Inr x, t)"
    using assms(1-8,11) by (cases o1) (auto simp: moveUpEntry_def day_of_entry_def Let_def)
  then obtain y u where "andthen (entry_setStartDate e (Some b) 0 True) (chain_after e [p]) s = (Inr y, u)"
    and sort: "reSchedule o1 u = (Inr x, t)" by (rule andthen_InrE)
  then obtain z v where first: "entry_setStartDate e (Some b) 0 True s = (Inr z, v)" and "chain_after e [p] v = (Inr y, u)"
    by (rule_tac andthen_InrE)
  note one = leaf_start [OF first assms(9)]
  have "e_end v e = Some (b + e_dur s e)" by (simp add: e_end_def one)
  then obtain w where "entry_setStartDate p (Some (b + e_dur s e)) 0 True v = (Inr w, u)"
    using \<open>chain_after e [p] v = (Inr y, u)\<close> by (auto split: sum.splits prod.splits)
  note two = leaf_start [OF this assms(10)]
  show ?thesis using assms(8) by (simp add: reSchedule_view [OF sort] one two)
qed

theorem moved_up_swaps_witness:
  "\<exists>t. moveUpEntry (InSlot 0) (BreakE 0) sample_tt = (Inr (), t) \<and>
    e_start t (BreakE 0) = Some 36000 \<and> e_start t (ContribE 0) = Some 36600"
proof -
  have "\<exists>t. moveUpEntry (InSlot 0) (BreakE 0) sample_tt = (Inr (), t)"
    by (simp add: moveUpEntry_def day_of_entry_def getEntriesOnDay_def inDay_def tt_steps tt_reads sample_tt_def)
  then obtain t where run: "moveUpEntry (InSlot 0) (BreakE 0) sample_tt = (Inr (), t)" ..
  have day: "e_start sample_tt (BreakE 0) = Some 40000"
    "getEntriesOnDay sample_tt (tz_off sample_tt) (InSlot 0) 40000 = [ContribE 0, BreakE 0]"
    "list_pos (BreakE 0) [ContribE 0, BreakE 0] = Suc 0" "Suc 0 < length [ContribE 0, BreakE 0]" "[ContribE 0, BreakE 0] ! 0 = ContribE 0"
    "ContribE 0 \<noteq> BreakE 0" "slot_of (BreakE 0) = None" "slot_of (ContribE 0) = None" "e_start sample_tt (ContribE 0) = Some 36000"
    "e_dur sample_tt (BreakE 0) = 600"
    by (simp_all add: getEntriesOnDay_def inDay_def tt_reads sample_tt_def)
  note moved = moved_up_swaps [OF run _ day(1-9)]
  have "e_start t (BreakE 0) = Some 36000 \<and> e_start t (ContribE 0) = Some (36000 + e_dur sample_tt (BreakE 0))"
    using moved by blast
  then show ?thesis using run day(10) by auto
qed

section \<open>Rescheduling\<close>

text \<open>Each entry starts \<open>diff\<close> after the end of the one before it.\<close>

fun chained :: "tt \<Rightarrow> int \<Rightarrow> int \<Rightarrow> tentry list \<Rightarrow> bool" where
  "chained s diff st [] = True"
| "chained s diff st (e # es) = (e_start s e = Some st \<and> chained s diff (st + e_dur s e + diff) es)"

text \<open>Changing the dates of the event leaves its objects as they are.\<close>

definition event_only :: "tt \<Rightarrow> tt \<Rightarrow> bool" where
  "event_only s t \<longleftrightarrow> contribs t = contribs s \<and> breaks t = breaks s \<and> slots t = slots s \<and> placed t = placed s"

lemma event_only_view: "event_only s t \<Longrightarrow> e_start t f = e_start s f \<and> e_dur t f = e_dur s f"
  by (cases f) (simp_all add: event_only_def)

lemma event_writes [pass_intros]:
  "passes (event_only s) (event_only s) (report a b c d)"
  "passes (event_only s) (event_only s) (conf_setStartDate0 x check)"
  "passes (event_only s) (event_only s) (conf_setEndDate x check)"
  by (rule passesI, auto simp: event_only_def report_def dest!: conf_start_run conf_end_run)+

lemma event_owner [pass_intros]:
  "passes (event_only s) (event_only s) (owner_setDates Event a b check)"
  "passes (event_only s) (event_only s) (owner_setEndDate Event a check)"
  "passes (event_only s) (event_only s) (owner_setStartDate Event a check)"
  unfolding owner_setDates.simps owner_setEndDate.simps owner_setStartDate.simps conf_setDates_with_def Let_def
    conf_setStartDate0_def [symmetric] simp_thms
  by (intro pass_intros)+

lemma event_verify:
  assumes "contrib_parent u c = Event" "contrib_verifyStartDate c d check u = (Inr x, t)"
  shows "event_only u t"
proof -
  have "passes (\<lambda>t. t = u) (event_only u) (contrib_verifyStartDate c d check)"
    unfolding contrib_verifyStartDate_def
    by (rule passes_get, erule ssubst, unfold Let_def assms(1), rule passes_weaken [of "event_only u" "event_only u"])
      (intro passes_step passes_seq passes_when passes_if passes_basic event_writes event_owner passes_reads [OF reads_need]
        | simp add: event_only_def)+
  from passesD [OF this refl assms(2)] show ?thesis .
qed

lemmas event_intros = passes_step passes_seq passes_when passes_if passes_basic event_writes event_owner passes_reads [OF reads_need]

lemma event_extend: "passes (event_only s) (event_only s) (break_extend_end b Event d check)"
  unfolding break_extend_end_def by (intro event_intros)

lemma event_synchro: "passes (event_only s) (event_only s) (synchro e)"
proof (rule passesI)
  show "event_only s u" if "event_only s v" "synchro e v = (Inr x, u)" for v u x
    using that(1) by (subst synchro_run [OF that(2)]) (simp add: event_only_def)
qed

lemma event_contrib_start:
  assumes "contrib_setStartDate c (Some d) check s = (Inr x, t)" "placed s (ContribE c) = Some Event"
  shows "event_only (s\<lparr>contribs := (contribs s)(c := (contribs s c)\<lparr>c_start := Some d\<rparr>)\<rparr>) t"
proof -
  let ?u = "s\<lparr>contribs := (contribs s)(c := (contribs s c)\<lparr>c_start := Some d\<rparr>)\<rparr>"
  have "andthen (when_do (check \<noteq> 0) (contrib_verifyStartDate c d check))
      (andthen (upd_contrib c (\<lambda>x. x\<lparr>c_start := Some d\<rparr>)) (synchro (ContribE c))) s = (Inr x, t)"
    using assms(1) unfolding contrib_setStartDate_def option.case .
  then obtain y u where verify: "when_do (check \<noteq> 0) (contrib_verifyStartDate c d check) s = (Inr y, u)"
    and rest: "andthen (upd_contrib c (\<lambda>x. x\<lparr>c_start := Some d\<rparr>)) (synchro (ContribE c)) u = (Inr x, t)"
    by (rule andthen_InrE)
  have "contrib_parent s c = Event" using assms(2) by (simp add: contrib_parent_def)
  then have "event_only s u"
    using verify event_verify [of s c d check y u] by (auto simp: event_only_def split: if_splits)
  then have "event_only ?u (u\<lparr>contribs := (contribs u)(c := (contribs u c)\<lparr>c_start := Some d\<rparr>)\<rparr>)"
    by (simp add: event_only_def)
  moreover have "synchro (ContribE c) (u\<lparr>contribs := (contribs u)(c := (contribs u c)\<lparr>c_start := Some d\<rparr>)\<rparr>) = (Inr x, t)"
    using rest by (simp add: upd_contrib_def)
  ultimately show ?thesis by (rule passesD [OF event_synchro])
qed

lemma event_break_start:
  assumes "break_setStartDate b (Some d) check s = (Inr x, t)" "placed s (BreakE b) = Some Event"
  shows "event_only (s\<lparr>breaks := (breaks s)(b := (breaks s b)\<lparr>b_start := Some d\<rparr>)\<rparr>) t"
proof -
  let ?u = "s\<lparr>breaks := (breaks s)(b := (breaks s b)\<lparr>b_start := Some d\<rparr>)\<rparr>"
  let ?first = "if d < ev_start s then
       (if check = 1 then raise_exn ParentTimingError
        else when_do (check = 2)
          (andthen (owner_setStartDate Event d check)
            (bnd get_st (\<lambda>t. report (OfBreak b) ''OWNER_START_DATE_EXTENDED'' Event (owner_start t Event)))))
     else ret ()"
  let ?last = "bnd get_st (\<lambda>t. bnd (need (b_end (breaks t b))) (\<lambda>be. break_extend_end b Event be check))"
  have "andthen ?first (andthen (break_extend_end b Event d check)
      (andthen (upd_break b (\<lambda>x. x\<lparr>b_start := Some d\<rparr>)) (andthen (synchro (BreakE b)) ?last))) s = (Inr x, t)"
    using assms(1) by (simp only: break_setStartDate_def bnd_get_st assms(2) option.case owner_start.simps need_Some)
  then obtain y u where one: "?first s = (Inr y, u)" and
    "andthen (break_extend_end b Event d check)
      (andthen (upd_break b (\<lambda>x. x\<lparr>b_start := Some d\<rparr>)) (andthen (synchro (BreakE b)) ?last)) u = (Inr x, t)"
    by (rule andthen_InrE)
  then obtain z v where two: "break_extend_end b Event d check u = (Inr z, v)" and
    rest: "andthen (upd_break b (\<lambda>x. x\<lparr>b_start := Some d\<rparr>)) (andthen (synchro (BreakE b)) ?last) v = (Inr x, t)"
    by (rule_tac andthen_InrE)
  have begins: "passes (event_only s) (event_only s) ?first" by (intro event_intros)
  have "event_only s s" by (simp add: event_only_def)
  from passesD [OF begins this one] have "event_only s u" .
  from passesD [OF event_extend this two] have "event_only s v" .
  then have written: "event_only ?u (v\<lparr>breaks := (breaks v)(b := (breaks v b)\<lparr>b_start := Some d\<rparr>)\<rparr>)" (is "event_only _ ?v")
    by (simp add: event_only_def)
  have run: "andthen (synchro (BreakE b)) ?last ?v = (Inr x, t)" using rest by (simp only: andthen_run upd_break_def modify_run prod.case sum.case)
  have "passes (event_only ?u) (event_only ?u) (andthen (synchro (BreakE b)) ?last)"
    by (intro event_intros event_synchro event_extend)
  from passesD [OF this written run] show ?thesis .
qed

lemma event_leaf_start:
  assumes "entry_setStartDate e (Some d) check mv s = (Inr x, t)" "slot_of e = None" "placed s e = Some Event"
  shows "e_start t f = (if f = e then Some d else e_start s f) \<and> e_dur t f = e_dur s f \<and> placed t = placed s"
proof (cases e)
  case (ContribE c)
  with assms have "contrib_setStartDate c (Some d) check s = (Inr x, t)" "placed s (ContribE c) = Some Event" by simp_all
  note only = event_contrib_start [OF this]
  show ?thesis using event_only_view [OF only, of f] only ContribE by (cases f) (auto simp: event_only_def)
next
  case (BreakE b)
  with assms have "break_setStartDate b (Some d) check s = (Inr x, t)" "placed s (BreakE b) = Some Event" by simp_all
  note only = event_break_start [OF this]
  show ?thesis using event_only_view [OF only, of f] only BreakE by (cases f) (auto simp: event_only_def)
qed (use assms(2) in simp_all)

lemma chained_cong: "(\<And>e. e \<in> set es \<Longrightarrow> e_start t e = e_start s e) \<Longrightarrow> (\<And>e. e \<in> set es \<Longrightarrow> e_dur t e = e_dur s e)
    \<Longrightarrow> chained t diff st es = chained s diff st es"
  by (induction es arbitrary: st) auto

lemma redo_starts_chained:
  assumes "redo_starts diff False st es s = (Inr x, t)" "distinct es"
    "\<And>e. e \<in> set es \<Longrightarrow> slot_of e = None \<and> placed s e = Some Event"
  shows "chained t diff st es \<and> (\<forall>f. (f \<notin> set es \<longrightarrow> e_start t f = e_start s f) \<and> e_dur t f = e_dur s f)"
  using assms
proof (induction es arbitrary: s st)
  case (Cons e es)
  have e: "slot_of e = None" "placed s e = Some Event" using Cons.prems(3) [of e] by simp_all
  obtain y u where one: "entry_setStartDate e (Some st) 2 True s = (Inr y, u)" and
    "bnd get_st (\<lambda>s. bnd (need (e_end s e)) (\<lambda>b. redo_starts diff False (b + diff) es)) u = (Inr x, t)"
    using Cons.prems(1) e(1) by (auto simp: closed_check_def fit_entry_def split: sum.splits prod.splits)
  note u = event_leaf_start [OF one e]
  have "redo_starts diff False (st + e_dur s e + diff) es u = (Inr x, t)"
    using \<open>bnd get_st _ u = _\<close> u by (simp add: need_def e_end_def)
  moreover have "slot_of f = None \<and> placed u f = Some Event" if "f \<in> set es" for f
    using Cons.prems(3) [of f] that u by simp
  ultimately have rest: "chained t diff (st + e_dur s e + diff) es"
    "\<And>f. (f \<notin> set es \<longrightarrow> e_start t f = e_start u f) \<and> e_dur t f = e_dur u f"
    using Cons.IH [of "st + e_dur s e + diff" u] Cons.prems(2) by auto
  show ?case using rest Cons.prems(2) u by simp
qed simp

text \<open>C28.  When a day of the event that has no session slot is rescheduled by starting time, without fitting the
  entries to anything, its contributions and breaks come one after the other: the first one starts at the time of day the
  event starts at, each of the others \<open>diff\<close> after the end of the one before it, in their old order, and no duration and no
  start of another entry changes.\<close>

theorem rescheduled_in_sequence:
  assumes "tt_reach s" "getEntriesOnDay s (tz_off s) Event day = es" "map slot_of es = replicate (length es) None"
    "rescheduleTimes Event ByStartingTime diff day False s = (Inr x, t)"
  shows "chained t diff (replace_time (tz_off s) day (local_hour (tz_off s) (ev_start s)) (local_minute (tz_off s) (ev_start s))) es \<and>
    (f \<notin> set es \<longrightarrow> e_start t f = e_start s f) \<and> e_dur t f = e_dur s f"
proof -
  note ent = entries_okD [OF okD(1) [OF tt_reach_ok [OF assms(1)]]]
  have run: "redo_starts diff False
      (replace_time (tz_off s) day (local_hour (tz_off s) (ev_start s)) (local_minute (tz_off s) (ev_start s))) es s = (Inr x, t)"
    using assms(2,4) by (simp add: rescheduleTimes_def sch_start_def Let_def)
  have "distinct es" using ent(2) [of Event] assms(2) by (auto simp: getEntriesOnDay_def)
  moreover have "slot_of e = None" if "e \<in> set es" for e
    using assms(3) that by (metis in_set_conv_nth length_map nth_map nth_replicate)
  moreover have "placed s e = Some Event" if "e \<in> set es" for e
    using that ent(1) [of e Event] assms(2) by (auto simp: getEntriesOnDay_def)
  ultimately show ?thesis using redo_starts_chained [OF run] by blast
qed

definition two_breaks_tt :: tt where
  "two_breaks_tt = tt_request_state (AddBreak None 500000 1800) (tt_request_state (AddBreak None 440000 600) sample_tt)"

lemma two_breaks_reach: "tt_reach two_breaks_tt"
  unfolding two_breaks_tt_def by (intro tt_reach.request sample_tt_reach)

lemmas reschedule_steps = rescheduleTimes_def [THEN fun_cong] redo_starts.simps [THEN fun_cong] closed_check_def [THEN fun_cong]
  fit_entry_def [THEN fun_cong] getEntriesOnDay_def inDay_def local_hour_def local_minute_def

theorem rescheduled_in_sequence_witness:
  "\<exists>t. rescheduleTimes Event ByStartingTime 300 500040 False two_breaks_tt = (Inr (), t) \<and>
    chained t 300 432000 [BreakE 2, BreakE 3] \<and> e_start t (ConfE 0) = e_start two_breaks_tt (ConfE 0)"
proof -
  have day: "getEntriesOnDay two_breaks_tt (tz_off two_breaks_tt) Event 500040 = [BreakE 2, BreakE 3]"
    "map slot_of [BreakE 2, BreakE 3] = replicate (length [BreakE 2, BreakE 3]) None"
    by (simp_all add: getEntriesOnDay_def inDay_def tt_steps tt_reads two_breaks_tt_def sample_tt_def)
  have begins: "replace_time (tz_off two_breaks_tt) 500040 (local_hour (tz_off two_breaks_tt) (ev_start two_breaks_tt))
      (local_minute (tz_off two_breaks_tt) (ev_start two_breaks_tt)) = 432000"
    by (simp add: local_hour_def local_minute_def tt_steps tt_reads two_breaks_tt_def sample_tt_def)
  have "\<exists>t. rescheduleTimes Event ByStartingTime 300 500040 False two_breaks_tt = (Inr (), t)"
    by (simp add: reschedule_steps tt_steps tt_reads two_breaks_tt_def sample_tt_def)
  then obtain t where run: "rescheduleTimes Event ByStartingTime 300 500040 False two_breaks_tt = (Inr (), t)" ..
  note moved = rescheduled_in_sequence [OF two_breaks_reach day run, of "ConfE 0", unfolded begins]
  show ?thesis using moved run by simp
qed

end
