(* ===== verification/AC_Model.thy ===== *)
theory AC_Model
  imports Prelude
begin

text \<open>
  Who may see and who may change an object (\<open>MaKaC/accessControl.py\<close> and the protected classes of
  \<open>MaKaC/conference.py\<close>): the tree of categories, events, sessions, contributions, subcontributions,
  materials and resources, the access controller each object has, and the users.

  Objects, users, groups and domains are numbers.  Being in a group, the mails of a user, the addresses
  of a domain, the reviewing team and the answers of plugins are what the site says at the time.  The
  pages a user is linked to (\<open>linkTo\<close>) and the notifications of listeners are left out.
\<close>

section \<open>State\<close>

datatype ac_principal = PAv nat | PGroup nat | PNone

datatype mkind = Plain | MPaper | MSlides | MVideo | MPoster | MMinutes | MReviewing

datatype nkind = KCateg | KEvent | KSession | KContrib | KSub | KMat mkind | KRes

text \<open>
  The access controller.  \<open>_accessProtection\<close> is 1 (restricted), 0 (inheriting) or -1 (public).  The set of
  children that do not inherit is a list in the order of insertion.
\<close>

record acl =
  ac_level :: int
  ac_hidden :: bool
  ac_managers :: "ac_principal list"
  ac_managersEmail :: "string list"
  ac_allowed :: "ac_principal list"
  ac_allowedEmail :: "string list"
  ac_domains :: "nat list"
  ac_key :: string
  ac_nonInh :: "nat list"

definition new_acl :: acl where
  "new_acl = \<lparr>ac_level = 0, ac_hidden = False, ac_managers = [], ac_managersEmail = [], ac_allowed = [],
     ac_allowedEmail = [], ac_domains = [], ac_key = [], ac_nonInh = []\<rparr>"

text \<open>
  \<open>parent\<close> is the category of a category and of an event, the event of a session and of a contribution, the
  contribution of a subcontribution, and what a material or a resource belongs to; an event is in one
  category.  \<open>in_sess\<close> is the session of a contribution.
\<close>

record site =
  kind :: "nat \<Rightarrow> nkind"
  parent :: "nat \<Rightarrow> nat option"
  in_sess :: "nat \<Rightarrow> nat option"
  acs :: "nat \<Rightarrow> acl"
  mats :: "nat \<Rightarrow> nat list"
  ress :: "nat \<Rightarrow> nat list"
  subs :: "nat \<Rightarrow> nat list"
  conts :: "nat \<Rightarrow> nat list"
  sess :: "nat \<Rightarrow> nat list"
  events :: "nat \<Rightarrow> nat list"
  subcats :: "nat \<Rightarrow> nat list"
  next_node :: nat
  creator :: "nat \<Rightarrow> nat option"
  access_key :: "nat \<Rightarrow> string"
  modif_key :: "nat \<Rightarrow> string"
  track_coords :: "nat \<Rightarrow> nat list list"
  team :: "nat \<Rightarrow> nat list"
  coords :: "nat \<Rightarrow> nat list"
  coord_emails :: "nat \<Rightarrow> string list"
  coord_rights :: "nat \<Rightarrow> string list"
  submitters :: "nat \<Rightarrow> ac_principal list"
  restricted :: "nat \<Rightarrow> bool"
  creators :: "nat \<Rightarrow> ac_principal list"
  admins :: "ac_principal list"
  in_group :: "nat \<Rightarrow> nat \<Rightarrow> bool"
  local_group :: "nat \<Rightarrow> bool"
  mails :: "nat \<Rightarrow> string list"
  domain_filters :: "nat \<Rightarrow> string list"
  harvesters :: "string list"
  plugin_access :: "nat \<Rightarrow> nat \<Rightarrow> bool"
  plugin_admin :: "nat option \<Rightarrow> bool"

text \<open>
  The access wrapper of a request, with the access and modification keys its web session has collected.
  Objects have unique ids, so the keys are found by the object.
\<close>

record wrapper =
  aw_user :: "nat option"
  aw_ip :: string
  aw_keys :: "nat \<Rightarrow> string option"
  aw_modif :: "nat \<Rightarrow> string option"

text \<open>The owner of an object (\<open>getOwner\<close>): a contribution in a session belongs to the session.\<close>

definition owner :: "site \<Rightarrow> nat \<Rightarrow> nat option" where
  "owner s x = (case kind s x of
       KContrib \<Rightarrow> (case in_sess s x of Some i \<Rightarrow> Some i | None \<Rightarrow> parent s x)
     | _ \<Rightarrow> parent s x)"

text \<open>A subcontribution has no controller of its own.\<close>

definition controller :: "site \<Rightarrow> nat \<Rightarrow> nat" where
  "controller s x = (case kind s x of KSub \<Rightarrow> (case parent s x of Some c \<Rightarrow> c | None \<Rightarrow> x) | _ \<Rightarrow> x)"

definition level :: "site \<Rightarrow> nat \<Rightarrow> int" where
  "level s x = ac_level (acs s (controller s x))"

definition itself_protected :: "site \<Rightarrow> nat \<Rightarrow> bool" where
  "itself_protected s x \<longleftrightarrow> level s x > 0"

definition upd_ac :: "nat \<Rightarrow> (acl \<Rightarrow> acl) \<Rightarrow> (site, unit) prog" where
  "upd_ac x f = modify (\<lambda>s. s\<lparr>acs := (acs s)(x := f (acs s x))\<rparr>)"

text \<open>\<open>getConference\<close>; objects of a category have none.\<close>

definition base_event :: "site \<Rightarrow> nat \<Rightarrow> nat option" where
  "base_event s x = (case kind s x of
       KEvent \<Rightarrow> Some x
     | KSession \<Rightarrow> parent s x
     | KContrib \<Rightarrow> parent s x
     | KSub \<Rightarrow> Option.bind (parent s x) (parent s)
     | _ \<Rightarrow> None)"

definition mat_event :: "site \<Rightarrow> nat \<Rightarrow> nat option" where
  "mat_event s x = Option.bind (owner s x) (base_event s)"

definition event_of :: "site \<Rightarrow> nat \<Rightarrow> nat option" where
  "event_of s x = (case kind s x of
       KMat _ \<Rightarrow> mat_event s x
     | KRes \<Rightarrow> Option.bind (owner s x) (\<lambda>m. case kind s m of KCateg \<Rightarrow> None | KMat _ \<Rightarrow> mat_event s m | _ \<Rightarrow> base_event s m)
     | _ \<Rightarrow> base_event s x)"

definition need_node :: "nat option \<Rightarrow> (site, nat) prog" where
  "need_node x = (case x of None \<Rightarrow> raise_exn AttributeError | Some y \<Rightarrow> ret y)"

section \<open>Principals\<close>

fun contains_user :: "site \<Rightarrow> ac_principal \<Rightarrow> nat option \<Rightarrow> bool" where
  "contains_user s (PAv a) u = (u = Some a)"
| "contains_user s (PGroup g) u = (case u of None \<Rightarrow> False | Some a \<Rightarrow> in_group s g a)"
| "contains_user s PNone u = False"

text \<open>Only groups kept by Indico itself make their members administrators.\<close>

definition is_admin :: "site \<Rightarrow> nat option \<Rightarrow> bool" where
  "is_admin s u \<longleftrightarrow> (case u of None \<Rightarrow> PNone \<in> set (admins s) | Some a \<Rightarrow> PAv a \<in> set (admins s)) \<or>
     (\<exists>p \<in> set (admins s). case p of PGroup g \<Rightarrow> local_group s g \<and> contains_user s p u | _ \<Rightarrow> False)"

definition admin_grant :: "ac_principal \<Rightarrow> (site, unit) prog" where
  "admin_grant p = modify (\<lambda>s. if p \<in> set (admins s) then s else s\<lparr>admins := admins s @ [p]\<rparr>)"

definition is_principal :: "ac_principal \<Rightarrow> bool" where
  "is_principal p \<longleftrightarrow> p \<noteq> PNone"

section \<open>The controller\<close>

definition grantAccess :: "nat \<Rightarrow> ac_principal \<Rightarrow> (site, unit) prog" where
  "grantAccess x p = bnd get_st (\<lambda>s. when_do (p \<notin> set (ac_allowed (acs s x)) \<and> is_principal p)
     (upd_ac x (\<lambda>a. a\<lparr>ac_allowed := ac_allowed a @ [p]\<rparr>)))"

definition revokeAccess :: "nat \<Rightarrow> ac_principal \<Rightarrow> (site, unit) prog" where
  "revokeAccess x p = upd_ac x (\<lambda>a. a\<lparr>ac_allowed := remove1 p (ac_allowed a)\<rparr>)"

definition grantAccessEmail :: "nat \<Rightarrow> string \<Rightarrow> (site, unit) prog" where
  "grantAccessEmail x m = bnd get_st (\<lambda>s. when_do (m \<notin> set (ac_allowedEmail (acs s x)))
     (upd_ac x (\<lambda>a. a\<lparr>ac_allowedEmail := ac_allowedEmail a @ [m]\<rparr>)))"

text \<open>\<open>self.getAccessEmail.keys()\<close>: a method has no \<open>keys\<close>.\<close>

definition revokeAccessEmail :: "nat \<Rightarrow> string \<Rightarrow> (site, unit) prog" where
  "revokeAccessEmail x m = raise_exn AttributeError"

definition grantModification :: "nat \<Rightarrow> ac_principal \<Rightarrow> (site, unit) prog" where
  "grantModification x p = bnd get_st (\<lambda>s. when_do (p \<notin> set (ac_managers (acs s x)) \<and> is_principal p)
     (upd_ac x (\<lambda>a. a\<lparr>ac_managers := ac_managers a @ [p]\<rparr>)))"

definition revokeModification :: "nat \<Rightarrow> ac_principal \<Rightarrow> (site, unit) prog" where
  "revokeModification x p = upd_ac x (\<lambda>a. a\<lparr>ac_managers := remove1 p (ac_managers a)\<rparr>)"

definition grantModificationEmail :: "nat \<Rightarrow> string \<Rightarrow> (site, bool) prog" where
  "grantModificationEmail x m = bnd get_st (\<lambda>s.
     if py_lower m \<notin> set (map py_lower (ac_managersEmail (acs s x)))
     then andthen (upd_ac x (\<lambda>a. a\<lparr>ac_managersEmail := ac_managersEmail a @ [m]\<rparr>)) (ret True)
     else ret False)"

definition revokeModificationEmail :: "nat \<Rightarrow> string \<Rightarrow> (site, unit) prog" where
  "revokeModificationEmail x m = upd_ac x (\<lambda>a. a\<lparr>ac_managersEmail := remove1 m (ac_managersEmail a)\<rparr>)"

definition requireDomain :: "nat \<Rightarrow> nat \<Rightarrow> (site, unit) prog" where
  "requireDomain x d = bnd get_st (\<lambda>s. when_do (d \<notin> set (ac_domains (acs s x)))
     (upd_ac x (\<lambda>a. a\<lparr>ac_domains := ac_domains a @ [d]\<rparr>)))"

definition freeDomain :: "nat \<Rightarrow> nat \<Rightarrow> (site, unit) prog" where
  "freeDomain x d = upd_ac x (\<lambda>a. a\<lparr>ac_domains := remove1 d (ac_domains a)\<rparr>)"

text \<open>
  \<open>canUserAccess\<close> takes \<open>None\<close> out of the list it goes through, which skips the entry after it; \<open>n\<close> bounds
  the number of turns by the length of the list.
\<close>

fun allowed_loop :: "nat \<Rightarrow> nat \<Rightarrow> nat \<Rightarrow> nat option \<Rightarrow> (site, bool) prog" where
  "allowed_loop 0 x i u = ret False"
| "allowed_loop (Suc n) x i u = bnd get_st (\<lambda>s. let l = ac_allowed (acs s x) in
     if i \<ge> length l then ret False
     else if l ! i = PNone then andthen (revokeAccess x PNone) (allowed_loop n x (Suc i) u)
     else if contains_user s (l ! i) u then ret True
     else allowed_loop n x (Suc i) u)"

definition ctl_canUserAccess :: "nat \<Rightarrow> nat option \<Rightarrow> (site, bool) prog" where
  "ctl_canUserAccess x u = bnd get_st (\<lambda>s.
     if is_admin s u then ret True
     else bnd (allowed_loop (length (ac_allowed (acs s x))) x 0 u) (\<lambda>found.
       if found then ret True
       else (case u of None \<Rightarrow> ret False | Some a \<Rightarrow>
         andthen (for_each (mails s a) (\<lambda>m. bnd get_st (\<lambda>t. when_do (m \<in> set (ac_allowedEmail (acs t x)))
             (andthen (grantAccess x (PAv a)) (revokeAccessEmail x m)))))
           (ret False))))"

text \<open>A manager known only by mail becomes a manager when he first asks.\<close>

fun email_loop :: "string list \<Rightarrow> nat \<Rightarrow> nat \<Rightarrow> bool \<Rightarrow> (site, bool) prog" where
  "email_loop [] x a res = ret res"
| "email_loop (m # ms) x a res = bnd get_st (\<lambda>s.
     if m \<in> set (ac_managersEmail (acs s x))
     then andthen (grantModification x (PAv a)) (andthen (revokeModificationEmail x m) (email_loop ms x a True))
     else email_loop ms x a res)"

definition ctl_canModify :: "nat \<Rightarrow> nat option \<Rightarrow> (site, bool) prog" where
  "ctl_canModify x u = bnd get_st (\<lambda>s.
     if is_admin s u then ret True
     else if \<exists>p \<in> set (ac_managers (acs s x)). contains_user s p u then ret True
     else (case u of None \<Rightarrow> ret False | Some a \<Rightarrow> email_loop (mails s a) x a False))"

text \<open>\<open>getModifierList\<close> drops one \<open>None\<close>.\<close>

definition getModifierList :: "nat \<Rightarrow> (site, ac_principal list) prog" where
  "getModifierList x = andthen (upd_ac x (\<lambda>a. a\<lparr>ac_managers := remove1 PNone (ac_managers a)\<rparr>))
     (gets (\<lambda>s. ac_managers (acs s x)))"

text \<open>A domain is a list of prefixes of addresses.\<close>

definition belongsTo :: "site \<Rightarrow> nat \<Rightarrow> string \<Rightarrow> bool" where
  "belongsTo s d ip \<longleftrightarrow> (\<exists>f \<in> set (domain_filters s d). str_prefix f (py_strip ip))"

section \<open>Children that do not inherit\<close>

definition ctl_update :: "nat \<Rightarrow> nat \<Rightarrow> bool \<Rightarrow> (site, unit) prog" where
  "ctl_update y e delete = bnd get_st (\<lambda>s.
     if delete \<or> level s e = 0 then upd_ac y (\<lambda>a. a\<lparr>ac_nonInh := removeAll e (ac_nonInh a)\<rparr>)
     else upd_ac y (\<lambda>a. a\<lparr>ac_nonInh := List.insert e (ac_nonInh a)\<rparr>))"

text \<open>
  Is the parent protected?  The depth of the call is \<open>n\<close>; a failure of the call, such as the recursion
  limit, counts as not protected (\<open>_getFatherProtection\<close>).  Categories and events ask their controller,
  a subcontribution asks its contribution, the others add the owner's answer to their own level.
\<close>

fun protected_at :: "nat \<Rightarrow> site \<Rightarrow> nat \<Rightarrow> bool" where
  "protected_at 0 s x = False"
| "protected_at (Suc n) s x =
     (let above = (case owner s x of None \<Rightarrow> False | Some o1 \<Rightarrow> protected_at n s o1) in
      if kind s x = KSub then above else of_bool above + level s x > 0)"

text \<open>Deeper than any chain of owners can be.\<close>

definition depth :: "site \<Rightarrow> nat" where
  "depth s = next_node s + 7"

definition isProtected :: "site \<Rightarrow> nat \<Rightarrow> bool" where
  "isProtected s x = protected_at (depth s) s x"

definition isFullyAccess :: "site \<Rightarrow> nat \<Rightarrow> int \<Rightarrow> bool" where
  "isFullyAccess s x l \<longleftrightarrow> \<not> (isProtected s x \<and> l = -1) \<and> \<not> (\<not> isProtected s x \<and> l = 1) \<and>
     (\<forall>y \<in> set (ac_nonInh (acs s x)). level s y = l)"

definition isFullyPublic :: "site \<Rightarrow> nat \<Rightarrow> bool" where
  "isFullyPublic s x = isFullyAccess s x (-1)"

definition isFullyPrivate :: "site \<Rightarrow> nat \<Rightarrow> bool" where
  "isFullyPrivate s x = isFullyAccess s x 1"

definition getProtectedChildren :: "site \<Rightarrow> nat \<Rightarrow> nat list" where
  "getProtectedChildren s x = filter (\<lambda>y. level s y \<noteq> -1) (ac_nonInh (acs s x))"

definition getPublicChildren :: "site \<Rightarrow> nat \<Rightarrow> nat list" where
  "getPublicChildren s x = filter (\<lambda>y. level s y \<noteq> 1) (ac_nonInh (acs s x))"

text \<open>The domains of the nearest object that does not inherit, or of the root.\<close>

fun domains_at :: "nat \<Rightarrow> site \<Rightarrow> nat \<Rightarrow> nat list" where
  "domains_at 0 s x = []"
| "domains_at (Suc n) s x =
     (let c = controller s x in
      if ac_level (acs s c) = 0 then
        (case owner s c of Some o1 \<Rightarrow> domains_at n s o1 | None \<Rightarrow> ac_domains (acs s c))
      else ac_domains (acs s c))"

definition getAnyDomainProtection :: "site \<Rightarrow> nat \<Rightarrow> nat list" where
  "getAnyDomainProtection s x = domains_at (depth s) s x"

definition canIPAccess :: "site \<Rightarrow> nat \<Rightarrow> string \<Rightarrow> bool" where
  "canIPAccess s x ip = (let ds = getAnyDomainProtection s x in
     if ds \<noteq> [] then \<exists>d \<in> set ds. belongsTo s d ip else True)"

text \<open>Any protection, by level or domain (\<open>hasAnyProtection\<close>); a subcontribution asks its contribution.\<close>

fun any_protection_at :: "nat \<Rightarrow> site \<Rightarrow> nat \<Rightarrow> bool" where
  "any_protection_at 0 s x = False"
| "any_protection_at (Suc n) s x =
     (let above = (case owner s x of None \<Rightarrow> False | Some o1 \<Rightarrow> any_protection_at n s o1) in
      if kind s x = KSub then above
      else if isProtected s x \<or> ac_domains (acs s x) \<noteq> [] then True
      else if level s x = -1 then False
      else above)"

definition hasAnyProtection :: "site \<Rightarrow> nat \<Rightarrow> bool" where
  "hasAnyProtection s x = any_protection_at (depth s) s x"

end
