(* ===== verification/AC_Access.thy ===== *)
theory AC_Access
  imports AC_Model
begin

text \<open>
  Who may change and who may see an object.  Each class has its own method; the call of the owner's method
  is the argument \<open>up\<close>, and the methods are tied together by the depth of the recursion, at whose limit
  Python raises a \<open>RuntimeError\<close>.
\<close>

definition or_else :: "(site, bool) prog \<Rightarrow> (site, bool) prog \<Rightarrow> (site, bool) prog" where
  "or_else m k = bnd m (\<lambda>b. if b then ret True else k)"

definition ask_owner :: "(nat \<Rightarrow> (site, bool) prog) \<Rightarrow> nat option \<Rightarrow> (site, bool) prog" where
  "ask_owner up o1 = bnd (need_node o1) up"

section \<open>Changing\<close>

definition cat_canUserModify :: "(nat \<Rightarrow> nat option \<Rightarrow> (site, bool) prog) \<Rightarrow> nat \<Rightarrow> nat option \<Rightarrow> (site, bool) prog" where
  "cat_canUserModify up x u = bnd get_st (\<lambda>s.
     or_else (case parent s x of None \<Rightarrow> ret False | Some o1 \<Rightarrow> up o1 u) (ctl_canModify x u))"

definition conf_canUserModify :: "(nat \<Rightarrow> nat option \<Rightarrow> (site, bool) prog) \<Rightarrow> nat \<Rightarrow> nat option \<Rightarrow> (site, bool) prog" where
  "conf_canUserModify up x u = bnd get_st (\<lambda>s.
     if u = None then ret False
     else if u = creator s x then ret True
     else or_else (ctl_canModify x u) (case parent s x of None \<Rightarrow> ret False | Some o1 \<Rightarrow> up o1 u))"

definition sess_canUserModify :: "(nat \<Rightarrow> nat option \<Rightarrow> (site, bool) prog) \<Rightarrow> nat \<Rightarrow> nat option \<Rightarrow> (site, bool) prog" where
  "sess_canUserModify up x u = bnd get_st (\<lambda>s.
     or_else (ask_owner (\<lambda>e. up e u) (parent s x)) (ctl_canModify x u))"

definition contrib_canUserModify :: "(nat \<Rightarrow> nat option \<Rightarrow> (site, bool) prog) \<Rightarrow> nat \<Rightarrow> nat option \<Rightarrow> (site, bool) prog" where
  "contrib_canUserModify up x u = bnd get_st (\<lambda>s.
     or_else (ask_owner (\<lambda>e. up e u) (owner s x)) (ctl_canModify x u))"

definition sub_canUserModify :: "(nat \<Rightarrow> nat option \<Rightarrow> (site, bool) prog) \<Rightarrow> nat \<Rightarrow> nat option \<Rightarrow> (site, bool) prog" where
  "sub_canUserModify up x u = bnd get_st (\<lambda>s. ask_owner (\<lambda>e. up e u) (parent s x))"

text \<open>The managers of a material or of a resource are not asked.\<close>

definition mat_canUserModify :: "(nat \<Rightarrow> nat option \<Rightarrow> (site, bool) prog) \<Rightarrow> nat \<Rightarrow> nat option \<Rightarrow> (site, bool) prog" where
  "mat_canUserModify up x u = bnd get_st (\<lambda>s. ask_owner (\<lambda>e. up e u) (parent s x))"

definition res_canUserModify :: "(nat \<Rightarrow> nat option \<Rightarrow> (site, bool) prog) \<Rightarrow> nat \<Rightarrow> nat option \<Rightarrow> (site, bool) prog" where
  "res_canUserModify up x u = bnd get_st (\<lambda>s. ask_owner (\<lambda>e. up e u) (parent s x))"

fun modify_at :: "nat \<Rightarrow> nat \<Rightarrow> nat option \<Rightarrow> (site, bool) prog" where
  "modify_at 0 x u = raise_exn RuntimeError"
| "modify_at (Suc n) x u = bnd get_st (\<lambda>s. case kind s x of
       KCateg \<Rightarrow> cat_canUserModify (modify_at n) x u
     | KEvent \<Rightarrow> conf_canUserModify (modify_at n) x u
     | KSession \<Rightarrow> sess_canUserModify (modify_at n) x u
     | KContrib \<Rightarrow> contrib_canUserModify (modify_at n) x u
     | KSub \<Rightarrow> sub_canUserModify (modify_at n) x u
     | KMat _ \<Rightarrow> mat_canUserModify (modify_at n) x u
     | KRes \<Rightarrow> res_canUserModify (modify_at n) x u)"

definition obj_canUserModify :: "nat \<Rightarrow> nat option \<Rightarrow> (site, bool) prog" where
  "obj_canUserModify x u = bnd get_st (\<lambda>s. modify_at (depth s) x u)"

definition canKeyModify :: "site \<Rightarrow> nat \<Rightarrow> wrapper \<Rightarrow> bool" where
  "canKeyModify s e w \<longleftrightarrow> modif_key s e \<noteq> [] \<and> aw_modif w e = Some (modif_key s e)"

text \<open>Categories have no modification key, and objects of a category have no event.\<close>

definition canModify :: "nat \<Rightarrow> wrapper \<Rightarrow> (site, bool) prog" where
  "canModify x w = or_else (obj_canUserModify x (aw_user w)) (bnd get_st (\<lambda>s. case kind s x of
       KCateg \<Rightarrow> ret False
     | KMat _ \<Rightarrow> ret (case event_of s x of None \<Rightarrow> False | Some e \<Rightarrow> canKeyModify s e w)
     | KRes \<Rightarrow> ret (case event_of s x of None \<Rightarrow> False | Some e \<Rightarrow> canKeyModify s e w)
     | _ \<Rightarrow> bnd (need_node (event_of s x)) (\<lambda>e. ret (canKeyModify s e w))))"

section \<open>Being allowed to see\<close>

definition cat_isAllowed :: "(nat \<Rightarrow> nat option \<Rightarrow> (site, bool) prog) \<Rightarrow> nat \<Rightarrow> nat option \<Rightarrow> (site, bool) prog" where
  "cat_isAllowed up x u = or_else (ctl_canUserAccess x u) (or_else (obj_canUserModify x u)
     (bnd get_st (\<lambda>s. if itself_protected s x then ret False
        else (case parent s x of None \<Rightarrow> ret False | Some o1 \<Rightarrow> up o1 u))))"

text \<open>
  A chair of the event is no user object, so the test whether the user is among the chairs fails for
  every user and is left out.
\<close>

definition conf_isAllowed :: "(nat \<Rightarrow> nat option \<Rightarrow> (site, bool) prog) \<Rightarrow> nat \<Rightarrow> nat option \<Rightarrow> (site, bool) prog" where
  "conf_isAllowed up x u = (case u of None \<Rightarrow> ret False | Some a \<Rightarrow>
     or_else (ctl_canUserAccess x u) (or_else (obj_canUserModify x u)
     (or_else (bnd get_st (\<lambda>s. if itself_protected s x then ret False
        else (case parent s x of None \<Rightarrow> ret False | Some o1 \<Rightarrow> up o1 u)))
     (bnd get_st (\<lambda>s. ret ((\<exists>cs \<in> set (track_coords s x). a \<in> set cs) \<or> a \<in> set (team s x) \<or> plugin_access s x a))))))"

definition sess_isAllowed :: "(nat \<Rightarrow> nat option \<Rightarrow> (site, bool) prog) \<Rightarrow> nat \<Rightarrow> nat option \<Rightarrow> (site, bool) prog" where
  "sess_isAllowed up x u = (case u of None \<Rightarrow> ret False | Some a \<Rightarrow> bnd get_st (\<lambda>s.
     if a \<in> set (coords s x) then ret True
     else or_else (ctl_canUserAccess x u) (or_else (obj_canUserModify x u)
       (bnd get_st (\<lambda>t. if itself_protected t x then ret False else ask_owner (\<lambda>e. up e u) (parent t x))))))"

definition canUserSubmit :: "site \<Rightarrow> nat \<Rightarrow> nat option \<Rightarrow> bool" where
  "canUserSubmit s x u \<longleftrightarrow> u \<noteq> None \<and> (\<exists>p \<in> set (submitters s x). contains_user s p u)"

definition contrib_isAllowed :: "(nat \<Rightarrow> nat option \<Rightarrow> (site, bool) prog) \<Rightarrow> nat \<Rightarrow> nat option \<Rightarrow> (site, bool) prog" where
  "contrib_isAllowed up x u = (case u of None \<Rightarrow> ret False | Some a \<Rightarrow>
     or_else (bnd get_st (\<lambda>s. if itself_protected s x then ret False else ask_owner (\<lambda>e. up e u) (owner s x)))
     (or_else (ctl_canUserAccess x u) (or_else (obj_canUserModify x u)
     (bnd get_st (\<lambda>s. ret (canUserSubmit s x u))))))"

definition sub_isAllowed :: "(nat \<Rightarrow> nat option \<Rightarrow> (site, bool) prog) \<Rightarrow> nat \<Rightarrow> nat option \<Rightarrow> (site, bool) prog" where
  "sub_isAllowed up x u = bnd get_st (\<lambda>s. ask_owner (\<lambda>e. up e u) (parent s x))"

definition mat_isAllowed :: "(nat \<Rightarrow> nat option \<Rightarrow> (site, bool) prog) \<Rightarrow> nat \<Rightarrow> nat option \<Rightarrow> (site, bool) prog" where
  "mat_isAllowed up x u =
     or_else (bnd get_st (\<lambda>s. if itself_protected s x then ret False else ask_owner (\<lambda>e. up e u) (parent s x)))
     (or_else (ctl_canUserAccess x u) (obj_canUserModify x u))"

definition res_isAllowed :: "(nat \<Rightarrow> nat option \<Rightarrow> (site, bool) prog) \<Rightarrow> nat \<Rightarrow> nat option \<Rightarrow> (site, bool) prog" where
  "res_isAllowed up x u = or_else (ctl_canUserAccess x u) (or_else (obj_canUserModify x u)
     (bnd get_st (\<lambda>s. if itself_protected s x then ret False else ask_owner (\<lambda>e. up e u) (parent s x))))"

fun allowed_at :: "nat \<Rightarrow> nat \<Rightarrow> nat option \<Rightarrow> (site, bool) prog" where
  "allowed_at 0 x u = raise_exn RuntimeError"
| "allowed_at (Suc n) x u = bnd get_st (\<lambda>s. case kind s x of
       KCateg \<Rightarrow> cat_isAllowed (allowed_at n) x u
     | KEvent \<Rightarrow> conf_isAllowed (allowed_at n) x u
     | KSession \<Rightarrow> sess_isAllowed (allowed_at n) x u
     | KContrib \<Rightarrow> contrib_isAllowed (allowed_at n) x u
     | KSub \<Rightarrow> sub_isAllowed (allowed_at n) x u
     | KMat _ \<Rightarrow> mat_isAllowed (allowed_at n) x u
     | KRes \<Rightarrow> res_isAllowed (allowed_at n) x u)"

definition obj_isAllowedToAccess :: "nat \<Rightarrow> nat option \<Rightarrow> (site, bool) prog" where
  "obj_isAllowedToAccess x u = bnd get_st (\<lambda>s. allowed_at (depth s) x u)"

section \<open>Keys\<close>

definition conf_canKeyAccess :: "site \<Rightarrow> nat \<Rightarrow> wrapper \<Rightarrow> string option \<Rightarrow> bool" where
  "conf_canKeyAccess s e w key \<longleftrightarrow> access_key s e \<noteq> [] \<and> (key = Some (access_key s e) \<or> aw_keys w e = Some (access_key s e))"

definition ctl_canKeyAccess :: "site \<Rightarrow> nat \<Rightarrow> string \<Rightarrow> bool" where
  "ctl_canKeyAccess s x key \<longleftrightarrow> ac_key (acs s x) \<noteq> [] \<and> key = ac_key (acs s x)"

definition mat_canKeyAccess :: "site \<Rightarrow> nat \<Rightarrow> wrapper \<Rightarrow> bool" where
  "mat_canKeyAccess s x w \<longleftrightarrow>
     (if ac_key (acs s x) \<noteq> [] then (case aw_keys w x of None \<Rightarrow> False | Some k \<Rightarrow> k \<noteq> [] \<and> ctl_canKeyAccess s x k)
      else (case event_of s x of None \<Rightarrow> False | Some e \<Rightarrow> conf_canKeyAccess s e w (aw_keys w e)))"

text \<open>The key of a resource is that of its material, and so is its id in the web session.\<close>

definition res_canKeyAccess :: "nat \<Rightarrow> wrapper \<Rightarrow> (site, bool) prog" where
  "res_canKeyAccess x w = bnd get_st (\<lambda>s. bnd (need_node (owner s x)) (\<lambda>m.
     (case aw_keys w m of None \<Rightarrow> ret False | Some k \<Rightarrow>
        if k = [] then ret False
        else if ac_key (acs s m) \<noteq> [] then ret (k = ac_key (acs s m))
        else bnd (need_node (event_of s x)) (\<lambda>e. ret (k = access_key s e)))))"

section \<open>Access\<close>

definition isAllowedToCreate :: "nat \<Rightarrow> nat option \<Rightarrow> (site, bool) prog" where
  "isAllowedToCreate x u = or_else (obj_canUserModify x u) (bnd get_st (\<lambda>s.
     ret ((case u of None \<Rightarrow> PNone \<in> set (creators s x) | Some a \<Rightarrow> PAv a \<in> set (creators s x)) \<or>
          (\<exists>p \<in> set (creators s x). case p of PGroup g \<Rightarrow> contains_user s p u | _ \<Rightarrow> False))))"

definition canCreateConference :: "nat \<Rightarrow> nat option \<Rightarrow> (site, bool) prog" where
  "canCreateConference x u = bnd get_st (\<lambda>s. if restricted s x then isAllowedToCreate x u else ret True)"

definition cat_canAccess :: "nat \<Rightarrow> wrapper \<Rightarrow> (site, bool) prog" where
  "cat_canAccess x w = bnd get_st (\<lambda>s.
     if \<not> hasAnyProtection s x then ret True
     else if \<not> isProtected s x \<and> canIPAccess s x (aw_ip w) then ret True
     else or_else (isAllowedToCreate x (aw_user w)) (obj_isAllowedToAccess x (aw_user w)))"

text \<open>The domains of an event count only while it is not protected.\<close>

definition conf_canAccess :: "nat \<Rightarrow> wrapper \<Rightarrow> (site, bool) prog" where
  "conf_canAccess x w = bnd get_st (\<lambda>s.
     if aw_ip w \<in> set (harvesters s) then ret True
     else or_else (canModify x w) (bnd get_st (\<lambda>t.
       if isProtected t x
       then or_else (obj_isAllowedToAccess x (aw_user w)) (bnd get_st (\<lambda>v. ret (conf_canKeyAccess v x w None)))
       else ret (canIPAccess t x (aw_ip w)))))"

definition sess_canAccess :: "nat \<Rightarrow> wrapper \<Rightarrow> (site, bool) prog" where
  "sess_canAccess x w = bnd get_st (\<lambda>s.
     if aw_ip w \<in> set (harvesters s) then ret True
     else or_else (canModify x w) (bnd (obj_isAllowedToAccess x (aw_user w)) (\<lambda>allowed.
       bnd get_st (\<lambda>t. bnd (if canIPAccess t x (aw_ip w) then ret True else obj_canUserModify x (aw_user w)) (\<lambda>near.
         bnd get_st (\<lambda>v.
           if \<not> near \<and> \<not> allowed then ret False
           else if \<not> isProtected v x then ret True
           else if allowed then ret True
           else bnd (need_node (parent v x)) (\<lambda>e. ret (conf_canKeyAccess v e w None))))))))"

definition contrib_canAccess :: "nat \<Rightarrow> wrapper \<Rightarrow> (site, bool) prog" where
  "contrib_canAccess x w = bnd get_st (\<lambda>s.
     if aw_ip w \<in> set (harvesters s) then ret True
     else or_else (canModify x w) (bnd get_st (\<lambda>t.
       bnd (if canIPAccess t x (aw_ip w) then ret True else obj_isAllowedToAccess x (aw_user w)) (\<lambda>near.
         if \<not> near then ret False
         else bnd get_st (\<lambda>v. if \<not> isProtected v x then ret True
           else or_else (obj_isAllowedToAccess x (aw_user w))
             (bnd get_st (\<lambda>r. bnd (need_node (parent r x)) (\<lambda>e. ret (conf_canKeyAccess r e w None)))))))))"

definition sub_canAccess :: "nat \<Rightarrow> wrapper \<Rightarrow> (site, bool) prog" where
  "sub_canAccess x w = bnd get_st (\<lambda>s. bnd (need_node (parent s x)) (\<lambda>c. contrib_canAccess c w))"

definition mat_canAccess :: "nat \<Rightarrow> wrapper \<Rightarrow> (site, bool) prog" where
  "mat_canAccess x w = bnd get_st (\<lambda>s.
     if aw_ip w \<in> set (harvesters s) \<or> plugin_admin s (aw_user w) then ret True
     else or_else (canModify x w) (bnd (obj_isAllowedToAccess x (aw_user w)) (\<lambda>allowed.
       bnd get_st (\<lambda>t. ret (if isProtected t x then allowed \<or> mat_canKeyAccess t x w
                            else allowed \<or> canIPAccess t x (aw_ip w))))))"

text \<open>\<open>getAccessKey\<close> and \<open>canKeyAccess\<close> of what a resource belongs to.\<close>

definition owner_key :: "site \<Rightarrow> nat \<Rightarrow> string" where
  "owner_key s x = (case owner s x of None \<Rightarrow> [] | Some m \<Rightarrow> ac_key (acs s m))"

definition res_canAccess :: "nat \<Rightarrow> wrapper \<Rightarrow> (site, bool) prog" where
  "res_canAccess x w = bnd get_st (\<lambda>s.
     if aw_ip w \<in> set (harvesters s) \<or> plugin_admin s (aw_user w) then ret True
     else or_else (canModify x w) (bnd get_st (\<lambda>t.
       bnd (if canIPAccess t x (aw_ip w) then ret True
            else or_else (obj_canUserModify x (aw_user w)) (obj_isAllowedToAccess x (aw_user w))) (\<lambda>near.
         if \<not> near then ret False
         else bnd get_st (\<lambda>v. if \<not> isProtected v x then ret True
           else or_else (obj_isAllowedToAccess x (aw_user w)) (or_else (res_canKeyAccess x w)
             (bnd get_st (\<lambda>r. bnd (need_node (owner r x)) (\<lambda>m. ret (mat_canKeyAccess r m w \<or>
                (case event_of r x of None \<Rightarrow> False | Some e \<Rightarrow>
                   conf_canKeyAccess r e w None \<and> (owner_key r x = [] \<or> owner_key r x = access_key r e))))))))))))"

definition canAccess :: "nat \<Rightarrow> wrapper \<Rightarrow> (site, bool) prog" where
  "canAccess x w = bnd get_st (\<lambda>s. case kind s x of
       KCateg \<Rightarrow> cat_canAccess x w
     | KEvent \<Rightarrow> conf_canAccess x w
     | KSession \<Rightarrow> sess_canAccess x w
     | KContrib \<Rightarrow> contrib_canAccess x w
     | KSub \<Rightarrow> sub_canAccess x w
     | KMat _ \<Rightarrow> mat_canAccess x w
     | KRes \<Rightarrow> res_canAccess x w)"

section \<open>Seeing the object or a part of it\<close>

fun any_of :: "'a list \<Rightarrow> ('a \<Rightarrow> (site, bool) prog) \<Rightarrow> (site, bool) prog" where
  "any_of [] f = ret False"
| "any_of (x # xs) f = or_else (f x) (any_of xs f)"

definition contrib_canView :: "nat \<Rightarrow> wrapper \<Rightarrow> (site, bool) prog" where
  "contrib_canView x w = or_else (contrib_canAccess x w) (bnd get_st (\<lambda>s.
     if plugin_admin s (aw_user w) then ret True else any_of (subs s x) (\<lambda>y. sub_canAccess y w)))"

definition sess_canView :: "nat \<Rightarrow> wrapper \<Rightarrow> (site, bool) prog" where
  "sess_canView x w = or_else (sess_canAccess x w) (bnd get_st (\<lambda>s.
     if plugin_admin s (aw_user w) then ret True else any_of (conts s x) (\<lambda>y. contrib_canView y w)))"

definition conf_canView :: "nat \<Rightarrow> wrapper \<Rightarrow> (site, bool) prog" where
  "conf_canView x w = or_else (conf_canAccess x w)
     (or_else (bnd get_st (\<lambda>s. any_of (sess s x) (\<lambda>y. sess_canView y w)))
              (bnd get_st (\<lambda>s. any_of (conts s x) (\<lambda>y. contrib_canView y w))))"

definition mat_canView :: "nat \<Rightarrow> wrapper \<Rightarrow> (site, bool) prog" where
  "mat_canView x w = bnd get_st (\<lambda>s. if ac_hidden (acs s x) then canAccess x w else ret True)"

fun cat_view_at :: "nat \<Rightarrow> nat \<Rightarrow> wrapper \<Rightarrow> (site, bool) prog" where
  "cat_view_at 0 x w = raise_exn RuntimeError"
| "cat_view_at (Suc n) x w = or_else (cat_canAccess x w)
     (or_else (bnd get_st (\<lambda>s. any_of (events s x) (\<lambda>y. conf_canView y w)))
              (bnd get_st (\<lambda>s. any_of (subcats s x) (\<lambda>y. cat_view_at n y w))))"

definition cat_canView :: "nat \<Rightarrow> wrapper \<Rightarrow> (site, bool) prog" where
  "cat_canView x w = bnd get_st (\<lambda>s. cat_view_at (depth s) x w)"

section \<open>Coordinators of a session\<close>

text \<open>\<open>isCoordinator\<close> makes a user known by mail a coordinator.\<close>

fun coord_loop :: "string list \<Rightarrow> nat \<Rightarrow> nat \<Rightarrow> bool \<Rightarrow> (site, bool) prog" where
  "coord_loop [] x a res = ret res"
| "coord_loop (m # ms) x a res = bnd get_st (\<lambda>s.
     if m \<in> set (coord_emails s x)
     then andthen (modify (\<lambda>t. t\<lparr>coords := (coords t)(x := List.insert a (coords t x)),
                                 coord_emails := (coord_emails t)(x := remove1 m (coord_emails t x))\<rparr>))
            (coord_loop ms x a True)
     else coord_loop ms x a res)"

definition isCoordinator :: "nat \<Rightarrow> nat option \<Rightarrow> (site, bool) prog" where
  "isCoordinator x u = bnd get_st (\<lambda>s. case u of None \<Rightarrow> ret False | Some a \<Rightarrow>
     if a \<in> set (coords s x) then ret True else coord_loop (mails s a) x a False)"

definition canCoordinate :: "nat \<Rightarrow> wrapper \<Rightarrow> string \<Rightarrow> (site, bool) prog" where
  "canCoordinate x w right =
     (if right \<noteq> [] then bnd (isCoordinator x (aw_user w)) (\<lambda>b. if \<not> b then ret False
        else bnd get_st (\<lambda>s. bnd (need_node (parent s x)) (\<lambda>e. ret (right \<in> set (coord_rights s e)))))
      else isCoordinator x (aw_user w))"

section \<open>Who is listed\<close>

text \<open>
  \<open>getRecursiveManagerList\<close> and \<open>getRecursiveAllowedToAccessList\<close> collect principals up the tree; the lists
  of a subcontribution are the managers of its contribution and nobody allowed.  A restricted object asks its
  owner without looking whether there is one.  The argument \<open>onlyManagers\<close> is not used.
\<close>

definition managers_of :: "site \<Rightarrow> nat \<Rightarrow> ac_principal set" where
  "managers_of s x = set (ac_managers (acs s (controller s x)))"

definition allowed_of :: "site \<Rightarrow> nat \<Rightarrow> ac_principal set" where
  "allowed_of s x = (if kind s x = KSub then {} else set (ac_allowed (acs s x)))"

definition add_principals :: "ac_principal set \<Rightarrow> exn + ac_principal set \<Rightarrow> exn + ac_principal set" where
  "add_principals P r = (case r of Inl e \<Rightarrow> Inl e | Inr Q \<Rightarrow> Inr (P \<union> Q))"

fun managers_at :: "nat \<Rightarrow> site \<Rightarrow> nat \<Rightarrow> exn + ac_principal set" where
  "managers_at 0 s x = Inl RuntimeError"
| "managers_at (Suc n) s x = (if level s x = -1 then Inr {}
     else (case owner s x of
         Some o1 \<Rightarrow> add_principals (managers_of s x) (managers_at n s o1)
       | None \<Rightarrow> if level s x = 1 then Inl AttributeError else Inr (managers_of s x)))"

fun listed_at :: "nat \<Rightarrow> site \<Rightarrow> nat \<Rightarrow> exn + ac_principal set" where
  "listed_at 0 s x = Inl RuntimeError"
| "listed_at (Suc n) s x = (if level s x = 1 then
       add_principals (allowed_of s x \<union> managers_of s x)
         (case owner s x of None \<Rightarrow> Inl AttributeError | Some o1 \<Rightarrow> managers_at n s o1)
     else if level s x = 0 \<and> isProtected s x then
       add_principals (allowed_of s x \<union> managers_of s x)
         (case owner s x of None \<Rightarrow> Inr {} | Some o1 \<Rightarrow> listed_at n s o1)
     else Inr {})"

definition getRecursiveAllowedToAccessList :: "site \<Rightarrow> nat \<Rightarrow> exn + ac_principal set" where
  "getRecursiveAllowedToAccessList s x = listed_at (depth s) s x"

end
