(* ===== verification/AC_Tree.thy ===== *)
theory AC_Tree
  imports AC_Access
begin

text \<open>
  Changing the protection of objects, and adding, moving and deleting them (\<open>MaKaC/conference.py\<close>): an event, its
  sessions, contributions and materials each know the objects below them that do not inherit their protection, and
  every change reports to all of them.
\<close>

section \<open>Reporting to the owners\<close>

text \<open>\<open>updateNonInheritingChildren\<close> of a category, an event and a session.\<close>

definition conf_update :: "nat \<Rightarrow> nat \<Rightarrow> bool \<Rightarrow> (site, unit) prog" where
  "conf_update y e delete = ctl_update y e delete"

definition session_update :: "nat \<Rightarrow> nat \<Rightarrow> bool \<Rightarrow> bool \<Rightarrow> (site, unit) prog" where
  "session_update i e delete propagate = andthen (ctl_update i e delete)
     (when_do propagate (bnd get_st (\<lambda>s. bnd (need_node (parent s i)) (\<lambda>v. conf_update v e delete))))"

definition upper_update :: "nat option \<Rightarrow> nat \<Rightarrow> bool \<Rightarrow> (site, unit) prog" where
  "upper_update o1 e delete = bnd (need_node o1) (\<lambda>y. bnd get_st (\<lambda>s. case kind s y of
       KCateg \<Rightarrow> ret ()
     | KEvent \<Rightarrow> conf_update y e delete
     | KSession \<Rightarrow> session_update y e delete True
     | _ \<Rightarrow> raise_exn AttributeError))"

definition contrib_update :: "nat \<Rightarrow> nat \<Rightarrow> bool \<Rightarrow> (site, unit) prog" where
  "contrib_update c e delete = andthen (ctl_update c e delete)
     (bnd get_st (\<lambda>s. upper_update (owner s c) e delete))"

definition sub_update :: "nat \<Rightarrow> nat \<Rightarrow> bool \<Rightarrow> (site, unit) prog" where
  "sub_update z e delete = bnd get_st (\<lambda>s. bnd (need_node (parent s z)) (\<lambda>c. contrib_update c e delete))"

text \<open>The owner of a material.\<close>

definition lower_update :: "nat option \<Rightarrow> nat \<Rightarrow> bool \<Rightarrow> (site, unit) prog" where
  "lower_update o1 e delete = bnd (need_node o1) (\<lambda>y. bnd get_st (\<lambda>s. case kind s y of
       KContrib \<Rightarrow> contrib_update y e delete
     | KSub \<Rightarrow> sub_update y e delete
     | _ \<Rightarrow> upper_update (Some y) e delete))"

definition mat_update :: "nat \<Rightarrow> nat \<Rightarrow> bool \<Rightarrow> (site, unit) prog" where
  "mat_update m e delete = bnd get_st (\<lambda>s.
     if (case parent s m of None \<Rightarrow> False | Some y \<Rightarrow> kind s y = KCateg) then ret ()
     else andthen (ctl_update m e delete) (lower_update (parent s m) e delete))"

text \<open>A resource reports to its material, unless that is the material of the paper reviewing.\<close>

definition res_notify :: "nat \<Rightarrow> bool \<Rightarrow> (site, unit) prog" where
  "res_notify r delete = bnd get_st (\<lambda>s. case parent s r of None \<Rightarrow> ret () | Some m \<Rightarrow>
     (case kind s m of KMat k \<Rightarrow> when_do (k \<noteq> MReviewing) (mat_update m r delete) | _ \<Rightarrow> ret ()))"

section \<open>Protection\<close>

definition ctl_setProtection :: "nat \<Rightarrow> int \<Rightarrow> (site, unit) prog" where
  "ctl_setProtection x p = upd_ac x (\<lambda>a. a\<lparr>ac_level := p\<rparr>)"

definition cat_setProtection :: "nat \<Rightarrow> int \<Rightarrow> (site, unit) prog" where
  "cat_setProtection x p = ctl_setProtection x p"

definition conf_setProtection :: "nat \<Rightarrow> int \<Rightarrow> (site, unit) prog" where
  "conf_setProtection x p = ctl_setProtection x p"

definition sess_setProtection :: "nat \<Rightarrow> int \<Rightarrow> (site, unit) prog" where
  "sess_setProtection x p = andthen (ctl_setProtection x p) (bnd get_st (\<lambda>s. upper_update (parent s x) x False))"

definition contrib_setProtection :: "nat \<Rightarrow> int \<Rightarrow> (site, unit) prog" where
  "contrib_setProtection x p = andthen (ctl_setProtection x p) (bnd get_st (\<lambda>s. upper_update (owner s x) x False))"

definition mat_setProtection :: "nat \<Rightarrow> int \<Rightarrow> (site, unit) prog" where
  "mat_setProtection x p = andthen (ctl_setProtection x p) (bnd get_st (\<lambda>s. lower_update (parent s x) x False))"

definition res_setProtection :: "nat \<Rightarrow> int \<Rightarrow> (site, unit) prog" where
  "res_setProtection x p = andthen (ctl_setProtection x p) (res_notify x False)"

definition setProtection :: "nat \<Rightarrow> int \<Rightarrow> (site, unit) prog" where
  "setProtection x p = bnd get_st (\<lambda>s. case kind s x of
       KCateg \<Rightarrow> cat_setProtection x p
     | KEvent \<Rightarrow> conf_setProtection x p
     | KSession \<Rightarrow> sess_setProtection x p
     | KContrib \<Rightarrow> contrib_setProtection x p
     | KSub \<Rightarrow> raise_exn AttributeError
     | KMat _ \<Rightarrow> mat_setProtection x p
     | KRes \<Rightarrow> res_setProtection x p)"

section \<open>New objects\<close>

definition new_node :: "nkind \<Rightarrow> nat option \<Rightarrow> (site, nat) prog" where
  "new_node k p = bnd get_st (\<lambda>s. let x = next_node s in
     andthen (modify (\<lambda>t. t\<lparr>kind := (kind t)(x := k), parent := (parent t)(x := p), in_sess := (in_sess t)(x := None),
        acs := (acs t)(x := new_acl), mats := (mats t)(x := []), ress := (ress t)(x := []), subs := (subs t)(x := []),
        conts := (conts t)(x := []), sess := (sess t)(x := []), events := (events t)(x := []), subcats := (subcats t)(x := []),
        next_node := Suc x\<rparr>)) (ret x))"

text \<open>\<open>newSubCategory\<close> moves the events of the category into the new one.\<close>

definition newSubCategory :: "nat \<Rightarrow> int \<Rightarrow> (site, unit) prog" where
  "newSubCategory k p = bnd get_st (\<lambda>s. bnd (new_node KCateg (Some k)) (\<lambda>x.
     andthen (cat_setProtection x p)
     (modify (\<lambda>t. t\<lparr>parent := (\<lambda>v. if v \<in> set (events s k) then Some x else parent t v),
        events := (events t)(x := events s k, k := []), subcats := (subcats t)(k := subcats t k @ [x])\<rparr>))))"

definition addConference :: "nat \<Rightarrow> nat \<Rightarrow> (site, unit) prog" where
  "addConference k e = bnd get_st (\<lambda>s.
     if subcats s k \<noteq> [] then raise_exn (MaKaCError ''Cannot add event: the current category already contains some sub-categories'')
     else modify (\<lambda>t. t\<lparr>events := (events t)(k := events t k @ [e]), parent := (parent t)(e := Some k)\<rparr>))"

definition newConference :: "nat \<Rightarrow> nat \<Rightarrow> (site, unit) prog" where
  "newConference k who = bnd (new_node KEvent None) (\<lambda>e.
     andthen (modify (\<lambda>t. t\<lparr>creator := (creator t)(e := Some who)\<rparr>)) (addConference k e))"

definition removeConference :: "nat \<Rightarrow> nat \<Rightarrow> (site, unit) prog" where
  "removeConference k e = bnd get_st (\<lambda>s. when_do (e \<in> set (events s k))
     (modify (\<lambda>t. t\<lparr>events := (events t)(k := remove1 e (events t k)), parent := (parent t)(e := None)\<rparr>)))"

definition moveConference :: "nat \<Rightarrow> nat \<Rightarrow> nat \<Rightarrow> (site, unit) prog" where
  "moveConference k e k' = andthen (removeConference k e) (addConference k' e)"

definition new_session :: "nat \<Rightarrow> (site, unit) prog" where
  "new_session e = bnd (new_node KSession (Some e)) (\<lambda>i.
     modify (\<lambda>t. t\<lparr>sess := (sess t)(e := sess t e @ [i])\<rparr>))"

text \<open>
  Which materials an object can have: categories, events, contributions and subcontributions have a paper,
  slides, a video, a poster and minutes, contributions a reviewing material too, sessions have only minutes.
\<close>

fun may_hold :: "nkind \<Rightarrow> mkind \<Rightarrow> bool" where
  "may_hold KSession k = (k \<in> {Plain, MMinutes})"
| "may_hold KContrib k = True"
| "may_hold (KMat _) k = False"
| "may_hold KRes k = False"
| "may_hold _ k = (k \<noteq> MReviewing)"

definition addMaterial :: "nat \<Rightarrow> mkind \<Rightarrow> (site, unit) prog" where
  "addMaterial y k = bnd get_st (\<lambda>s.
     if k \<noteq> Plain \<and> (\<exists>m \<in> set (mats s y). kind s m = KMat k)
     then raise_exn (MaKaCError ''already been set'')
     else bnd (new_node (KMat k) (Some y)) (\<lambda>m. modify (\<lambda>t. t\<lparr>mats := (mats t)(y := mats t y @ [m])\<rparr>)))"

definition addResource :: "nat \<Rightarrow> (site, unit) prog" where
  "addResource m = bnd (new_node KRes (Some m)) (\<lambda>r. modify (\<lambda>t. t\<lparr>ress := (ress t)(m := ress t m @ [r])\<rparr>))"

definition addSubContribution :: "nat \<Rightarrow> (site, unit) prog" where
  "addSubContribution c = bnd (new_node KSub (Some c)) (\<lambda>z. modify (\<lambda>t. t\<lparr>subs := (subs t)(c := subs t c @ [z])\<rparr>))"

section \<open>Contributions and their sessions\<close>

definition has_contribution :: "site \<Rightarrow> nat \<Rightarrow> nat \<Rightarrow> bool" where
  "has_contribution s i c \<longleftrightarrow> in_sess s c = Some i \<and> c \<in> set (conts s i)"

text \<open>\<open>Session.addContribution\<close>, called by \<open>setSession\<close> after it has set the session.\<close>

definition session_addContribution :: "nat \<Rightarrow> nat \<Rightarrow> (site, unit) prog" where
  "session_addContribution i c = bnd get_st (\<lambda>s. when_do (\<not> has_contribution s i c)
     (andthen (modify (\<lambda>t. t\<lparr>conts := (conts t)(i := conts t i @ [c])\<rparr>))
     (andthen (session_update i c False True)
     (bnd get_st (\<lambda>t. for_each (ac_nonInh (acs t c)) (\<lambda>e. session_update i e False True))))))"

definition session_removeContribution :: "nat \<Rightarrow> nat \<Rightarrow> (site, unit) prog" where
  "session_removeContribution i c = bnd get_st (\<lambda>s. when_do (has_contribution s i c)
     (andthen (modify (\<lambda>t. t\<lparr>conts := (conts t)(i := remove1 c (conts t i))\<rparr>))
     (andthen (session_update i c True False)
     (andthen (bnd get_st (\<lambda>t. for_each (ac_nonInh (acs t c)) (\<lambda>e. session_update i e True False)))
              (modify (\<lambda>t. t\<lparr>in_sess := (in_sess t)(c := None)\<rparr>))))))"

definition setSession :: "nat \<Rightarrow> nat option \<Rightarrow> (site, unit) prog" where
  "setSession c new = bnd get_st (\<lambda>s. when_do (in_sess s c \<noteq> new)
     (andthen (case in_sess s c of None \<Rightarrow> ret () | Some i \<Rightarrow> session_removeContribution i c)
     (andthen (modify (\<lambda>t. t\<lparr>in_sess := (in_sess t)(c := new)\<rparr>))
              (case new of None \<Rightarrow> ret () | Some j \<Rightarrow> session_addContribution j c))))"

definition add_newContribution :: "nat \<Rightarrow> nat option \<Rightarrow> (site, unit) prog" where
  "add_newContribution e sess1 = bnd (new_node KContrib (Some e)) (\<lambda>c.
     andthen (modify (\<lambda>t. t\<lparr>conts := (conts t)(e := conts t e @ [c])\<rparr>)) (setSession c sess1))"

section \<open>Deleting\<close>

definition removeResource :: "nat \<Rightarrow> nat \<Rightarrow> (site, unit) prog" where
  "removeResource m r = bnd get_st (\<lambda>s. when_do (r \<in> set (ress s m))
     (andthen (modify (\<lambda>t. t\<lparr>ress := (ress t)(m := remove1 r (ress t m))\<rparr>))
     (andthen (res_notify r True)
              (modify (\<lambda>t. t\<lparr>parent := (parent t)(r := None)\<rparr>)))))"

definition mat_delete :: "nat \<Rightarrow> (site, unit) prog" where
  "mat_delete m = bnd get_st (\<lambda>s. andthen (for_each (ress s m) (removeResource m))
     (lower_update (parent s m) m True))"

definition removeMaterial :: "nat \<Rightarrow> nat \<Rightarrow> (site, unit) prog" where
  "removeMaterial y m = bnd get_st (\<lambda>s. when_do (m \<in> set (mats s y))
     (andthen (mat_delete m)
     (modify (\<lambda>t. t\<lparr>parent := (parent t)(m := None), mats := (mats t)(y := remove1 m (mats t y))\<rparr>))))"

text \<open>The materials of some kinds, kind after kind: those of the list, then the builtin ones by their methods.\<close>

definition of_kinds :: "site \<Rightarrow> nat \<Rightarrow> mkind list \<Rightarrow> nat list" where
  "of_kinds s y ks = concat (map (\<lambda>k. filter (\<lambda>m. kind s m = KMat k) (mats s y)) ks)"

definition remove_materials :: "mkind list \<Rightarrow> nat \<Rightarrow> (site, unit) prog" where
  "remove_materials ks y = bnd get_st (\<lambda>s. for_each (of_kinds s y ks) (removeMaterial y))"

text \<open>
  \<open>while len(l) > 0: remove(l[0])\<close>.  The loop gets as many rounds as the list has elements; with a
  \<open>remove\<close> that takes its argument out of the list this is enough, and a loop that would go on past
  them ends with an exception here.
\<close>

fun while_first :: "nat \<Rightarrow> (site \<Rightarrow> nat list) \<Rightarrow> (nat \<Rightarrow> (site, unit) prog) \<Rightarrow> (site, unit) prog" where
  "while_first 0 l f = bnd get_st (\<lambda>s. if l s = [] then ret () else raise_exn RuntimeError)"
| "while_first (Suc n) l f = bnd get_st (\<lambda>s. case l s of
       [] \<Rightarrow> ret () | x # _ \<Rightarrow> andthen (f x) (while_first n l f))"

definition empty_list :: "(site \<Rightarrow> nat list) \<Rightarrow> (nat \<Rightarrow> (site, unit) prog) \<Rightarrow> (site, unit) prog" where
  "empty_list l f = bnd get_st (\<lambda>s. while_first (length (l s)) l f)"

definition removeSubContribution :: "nat \<Rightarrow> nat \<Rightarrow> (site, unit) prog" where
  "removeSubContribution c z = bnd get_st (\<lambda>s. when_do (z \<in> set (subs s c))
     (andthen (remove_materials [Plain, MPaper, MSlides, MVideo, MPoster, MMinutes] z)
     (modify (\<lambda>t. t\<lparr>parent := (parent t)(z := None), subs := (subs t)(c := remove1 z (subs t c))\<rparr>))))"

text \<open>\<open>Contribution.delete\<close>; outside its session the contribution is only removed from its event.\<close>

definition contribution_delete :: "nat \<Rightarrow> (site, unit) prog" where
  "contribution_delete c = bnd get_st (\<lambda>s. case parent s c of None \<Rightarrow> ret () | Some e \<Rightarrow>
     andthen (remove_materials [Plain, MPaper, MSlides, MVideo, MPoster, MMinutes, MReviewing] c)
     (andthen (bnd get_st (\<lambda>t. upper_update (owner t c) c True))
     (andthen (setSession c None)
     (andthen (empty_list (\<lambda>t. subs t c) (removeSubContribution c))
              (modify (\<lambda>t. t\<lparr>conts := (conts t)(e := remove1 c (conts t e)), parent := (parent t)(c := None)\<rparr>))))))"

definition sess_delete :: "nat \<Rightarrow> (site, unit) prog" where
  "sess_delete i = andthen (empty_list (\<lambda>s. of_kinds s i [Plain]) (removeMaterial i))
     (andthen (remove_materials [MMinutes] i)
     (andthen (empty_list (\<lambda>s. conts s i) (session_removeContribution i))
     (bnd get_st (\<lambda>s. case parent s i of None \<Rightarrow> ret () | Some e \<Rightarrow>
        andthen (upper_update (Some e) i True) (modify (\<lambda>t. t\<lparr>parent := (parent t)(i := None)\<rparr>))))))"

definition removeSession :: "nat \<Rightarrow> nat \<Rightarrow> bool \<Rightarrow> (site, unit) prog" where
  "removeSession e i deleteContributions = bnd get_st (\<lambda>s. when_do (parent s i = Some e \<and> i \<in> set (sess s e))
     (andthen (when_do deleteContributions (for_each (conts s i) contribution_delete))
     (andthen (modify (\<lambda>t. t\<lparr>sess := (sess t)(e := remove1 i (sess t e))\<rparr>))
              (sess_delete i))))"

end
