(* ===== verification/AC_System.thy ===== *)
theory AC_System
  imports AC_Tree
begin

text \<open>
  The requests of managers and visitors and the reachable sites.  A request that raises is rolled back.  Users,
  groups, keys and the answers of other parts of Indico may change between requests.
\<close>

datatype ac_request =
    SetProtection nat int
  | GrantAccess nat ac_principal
  | RevokeAccess nat ac_principal
  | GrantModification nat ac_principal
  | RevokeModification nat ac_principal
  | InviteManager nat string
  | RequireDomain nat nat
  | FreeDomain nat nat
  | SetHidden nat bool
  | SetAccessKey nat string
  | NewSubCategory nat int
  | NewEvent nat nat
  | MoveEvent nat nat nat
  | NewSession nat
  | NewContribution nat "nat option"
  | NewSubContribution nat
  | AddMaterial nat mkind
  | AddResource nat
  | SetSession nat "nat option"
  | RemoveResource nat nat
  | RemoveMaterial nat nat
  | RemoveSubContribution nat nat
  | DeleteContribution nat
  | RemoveSession nat nat bool
  | Visit nat wrapper

fun ac_run :: "ac_request \<Rightarrow> (site, unit) prog" where
  "ac_run (SetProtection x p) = setProtection x p"
| "ac_run (GrantAccess x p) = grantAccess x p"
| "ac_run (RevokeAccess x p) = revokeAccess x p"
| "ac_run (GrantModification x p) = grantModification x p"
| "ac_run (RevokeModification x p) = revokeModification x p"
| "ac_run (InviteManager x m) = bnd (grantModificationEmail x m) (\<lambda>_. ret ())"
| "ac_run (RequireDomain x d) = requireDomain x d"
| "ac_run (FreeDomain x d) = freeDomain x d"
| "ac_run (SetHidden x b) = upd_ac x (\<lambda>a. a\<lparr>ac_hidden := b\<rparr>)"
| "ac_run (SetAccessKey x k) = upd_ac x (\<lambda>a. a\<lparr>ac_key := k\<rparr>)"
| "ac_run (NewSubCategory k p) = newSubCategory k p"
| "ac_run (NewEvent k u) = newConference k u"
| "ac_run (MoveEvent k e k') = moveConference k e k'"
| "ac_run (NewSession e) = new_session e"
| "ac_run (NewContribution e i) = add_newContribution e i"
| "ac_run (NewSubContribution c) = addSubContribution c"
| "ac_run (AddMaterial y k) = addMaterial y k"
| "ac_run (AddResource m) = addResource m"
| "ac_run (SetSession c i) = setSession c i"
| "ac_run (RemoveResource m r) = removeResource m r"
| "ac_run (RemoveMaterial y m) = removeMaterial y m"
| "ac_run (RemoveSubContribution c z) = removeSubContribution c z"
| "ac_run (DeleteContribution c) = contribution_delete c"
| "ac_run (RemoveSession e i d) = removeSession e i d"
| "ac_run (Visit x w) = bnd (canAccess x w) (\<lambda>_. ret ())"

text \<open>The objects a request names are of the right class and still in the tree.\<close>

definition placed_as :: "site \<Rightarrow> (nkind \<Rightarrow> bool) \<Rightarrow> nat \<Rightarrow> bool" where
  "placed_as s P x \<longleftrightarrow> P (kind s x) \<and> x < next_node s \<and> (kind s x \<noteq> KCateg \<longrightarrow> parent s x \<noteq> None)"

fun is_mat :: "nkind \<Rightarrow> bool" where
  "is_mat (KMat _) = True" | "is_mat _ = False"

fun ac_names :: "site \<Rightarrow> ac_request \<Rightarrow> bool" where
  "ac_names s (SetProtection x p) = (placed_as s (\<lambda>k. k \<noteq> KSub) x \<and> p \<in> {-1, 0, 1})"
| "ac_names s (GrantAccess x p) = placed_as s (\<lambda>k. k \<noteq> KSub) x"
| "ac_names s (RevokeAccess x p) = placed_as s (\<lambda>k. k \<noteq> KSub) x"
| "ac_names s (GrantModification x p) = placed_as s (\<lambda>k. k \<noteq> KSub) x"
| "ac_names s (RevokeModification x p) = placed_as s (\<lambda>k. k \<noteq> KSub) x"
| "ac_names s (InviteManager x m) = placed_as s (\<lambda>k. k \<noteq> KSub) x"
| "ac_names s (RequireDomain x d) = placed_as s (\<lambda>k. k \<noteq> KSub) x"
| "ac_names s (FreeDomain x d) = placed_as s (\<lambda>k. k \<noteq> KSub) x"
| "ac_names s (SetHidden x b) = placed_as s is_mat x"
| "ac_names s (SetAccessKey x k) = placed_as s is_mat x"
| "ac_names s (NewSubCategory k p) = (placed_as s (\<lambda>k. k = KCateg) k \<and> p \<in> {-1, 0, 1})"
| "ac_names s (NewEvent k u) = placed_as s (\<lambda>k. k = KCateg) k"
| "ac_names s (MoveEvent k e k') = (placed_as s (\<lambda>k. k = KCateg) k \<and> placed_as s (\<lambda>k. k = KCateg) k' \<and> e \<in> set (events s k))"
| "ac_names s (NewSession e) = placed_as s (\<lambda>k. k = KEvent) e"
| "ac_names s (NewContribution e i) = (placed_as s (\<lambda>k. k = KEvent) e \<and>
     (case i of None \<Rightarrow> True | Some j \<Rightarrow> j \<in> set (sess s e)))"
| "ac_names s (NewSubContribution c) = placed_as s (\<lambda>k. k = KContrib) c"
| "ac_names s (AddMaterial y k) = placed_as s (\<lambda>c. may_hold c k) y"
| "ac_names s (AddResource m) = placed_as s is_mat m"
| "ac_names s (SetSession c i) = (placed_as s (\<lambda>k. k = KContrib) c \<and>
     (case i of None \<Rightarrow> True | Some j \<Rightarrow> (case parent s c of None \<Rightarrow> False | Some e \<Rightarrow> j \<in> set (sess s e))))"
| "ac_names s (RemoveResource m r) = placed_as s is_mat m"
| "ac_names s (RemoveMaterial y m) = placed_as s (\<lambda>k. \<not> is_mat k \<and> k \<noteq> KRes) y"
| "ac_names s (RemoveSubContribution c z) = placed_as s (\<lambda>k. k = KContrib) c"
| "ac_names s (DeleteContribution c) = placed_as s (\<lambda>k. k = KContrib) c"
| "ac_names s (RemoveSession e i d) = placed_as s (\<lambda>k. k = KEvent) e"
| "ac_names s (Visit x w) = placed_as s (\<lambda>k. True) x"

definition ac_request_state :: "ac_request \<Rightarrow> site \<Rightarrow> site" where
  "ac_request_state q s = (if ac_names s q then (case ac_run q s of (Inr _, t) \<Rightarrow> t | (Inl _, t) \<Rightarrow> s) else s)"

text \<open>A new site is its root category.\<close>

definition new_site :: site where
  "new_site = \<lparr>kind = (\<lambda>_. KCateg), parent = (\<lambda>_. None), in_sess = (\<lambda>_. None), acs = (\<lambda>_. new_acl), mats = (\<lambda>_. []),
     ress = (\<lambda>_. []), subs = (\<lambda>_. []), conts = (\<lambda>_. []), sess = (\<lambda>_. []), events = (\<lambda>_. []), subcats = (\<lambda>_. []),
     next_node = 1, creator = (\<lambda>_. None), access_key = (\<lambda>_. []), modif_key = (\<lambda>_. []), track_coords = (\<lambda>_. []),
     team = (\<lambda>_. []), coords = (\<lambda>_. []), coord_emails = (\<lambda>_. []), coord_rights = (\<lambda>_. []), submitters = (\<lambda>_. []),
     restricted = (\<lambda>_. False), creators = (\<lambda>_. []), admins = [], in_group = (\<lambda>_ _. False), local_group = (\<lambda>_. False),
     mails = (\<lambda>_. []), domain_filters = (\<lambda>_. []), harvesters = [], plugin_access = (\<lambda>_ _. False), plugin_admin = (\<lambda>_. False)\<rparr>"

text \<open>The part of a site that only these requests change.\<close>

definition same_tree :: "site \<Rightarrow> site \<Rightarrow> bool" where
  "same_tree s t \<longleftrightarrow> kind t = kind s \<and> parent t = parent s \<and> in_sess t = in_sess s \<and> acs t = acs s \<and> mats t = mats s \<and>
     ress t = ress s \<and> subs t = subs s \<and> conts t = conts s \<and> sess t = sess s \<and> events t = events s \<and> subcats t = subcats s \<and>
     next_node t = next_node s"

inductive ac_reach :: "site \<Rightarrow> bool" where
  start: "ac_reach new_site"
| request: "ac_reach s \<Longrightarrow> ac_reach (ac_request_state q s)"
| outside: "ac_reach s \<Longrightarrow> same_tree s t \<Longrightarrow> ac_reach t"

end
