(* ===== verification/AC_Inv.thy ===== *)
theory AC_Inv
  imports AC_System
begin

text \<open>
  The invariant of the protected tree: pointers and lists agree, owners are of the right class, and an object
  is in the set of children that do not inherit of exactly the objects that watch it.
\<close>

section \<open>The invariant\<close>

fun child_of :: "nkind \<Rightarrow> nkind \<Rightarrow> bool" where
  "child_of KCateg p = (p = KCateg)"
| "child_of KEvent p = (p = KCateg)"
| "child_of KSession p = (p = KEvent)"
| "child_of KContrib p = (p = KEvent)"
| "child_of KSub p = (p = KContrib)"
| "child_of (KMat k) p = (\<not> is_mat p \<and> p \<noteq> KRes \<and> may_hold p k)"
| "child_of KRes p = is_mat p"

lemma may_hold_class: "may_hold c k \<Longrightarrow> \<not> is_mat c \<and> c \<noteq> KRes"
  by (cases c) auto

definition pointers_ok :: "site \<Rightarrow> bool" where
  "pointers_ok s \<longleftrightarrow>
     (\<forall>x p. parent s x = Some p \<longrightarrow> child_of (kind s x) (kind s p) \<and> x < next_node s \<and> p < next_node s \<and>
        (kind s x = KCateg \<longrightarrow> p < x) \<and> (kind s p \<notin> {KCateg, KEvent} \<longrightarrow> parent s p \<noteq> None)) \<and>
     (\<forall>c i. in_sess s c = Some i \<longrightarrow> kind s c = KContrib \<and> kind s i = KSession \<and> parent s c \<noteq> None \<and> parent s i = parent s c)"

text \<open>The lists and the sets, apart from the sessions \<open>L\<close> and the objects \<open>D\<close> that are being deleted.\<close>

definition lists_but :: "nat set \<Rightarrow> site \<Rightarrow> bool" where
  "lists_but L s \<longleftrightarrow>
     (\<forall>y m. m \<in> set (mats s y) \<longleftrightarrow> parent s m = Some y \<and> is_mat (kind s m)) \<and>
     (\<forall>m r. r \<in> set (ress s m) \<longleftrightarrow> parent s r = Some m \<and> kind s r = KRes) \<and>
     (\<forall>c z. z \<in> set (subs s c) \<longleftrightarrow> parent s z = Some c \<and> kind s z = KSub) \<and>
     (\<forall>y c. c \<in> set (conts s y) \<longleftrightarrow> parent s c = Some y \<and> kind s c = KContrib \<or> in_sess s c = Some y) \<and>
     (\<forall>e i. i \<in> set (sess s e) \<longleftrightarrow> parent s i = Some e \<and> kind s i = KSession \<and> i \<notin> L) \<and>
     (\<forall>k e. e \<in> set (events s k) \<longleftrightarrow> parent s e = Some k \<and> kind s e = KEvent) \<and>
     (\<forall>y. distinct (mats s y) \<and> distinct (ress s y) \<and> distinct (subs s y) \<and> distinct (conts s y) \<and>
        distinct (sess s y) \<and> distinct (events s y))"

text \<open>The objects an owner and all above it keep their sets of.\<close>

definition watch_up :: "site \<Rightarrow> nat option \<Rightarrow> nat list" where
  "watch_up s o1 = (case o1 of None \<Rightarrow> [] | Some y \<Rightarrow> (case kind s y of
       KEvent \<Rightarrow> [y]
     | KSession \<Rightarrow> y # (case parent s y of None \<Rightarrow> [] | Some e \<Rightarrow> [e])
     | _ \<Rightarrow> []))"

definition watch_contrib :: "site \<Rightarrow> nat \<Rightarrow> nat list" where
  "watch_contrib s c = c # watch_up s (owner s c)"

definition watch_low :: "site \<Rightarrow> nat option \<Rightarrow> nat list" where
  "watch_low s o1 = (case o1 of None \<Rightarrow> [] | Some y \<Rightarrow> (case kind s y of
       KContrib \<Rightarrow> watch_contrib s y
     | KSub \<Rightarrow> (case parent s y of None \<Rightarrow> [] | Some c \<Rightarrow> watch_contrib s c)
     | _ \<Rightarrow> watch_up s (Some y)))"

definition watch_mat :: "site \<Rightarrow> nat \<Rightarrow> nat list" where
  "watch_mat s m = (case parent s m of None \<Rightarrow> [] | Some y \<Rightarrow> if kind s y = KCateg then [] else m # watch_low s (Some y))"

definition watchers :: "site \<Rightarrow> nat \<Rightarrow> nat list" where
  "watchers s x = (case kind s x of
       KSession \<Rightarrow> watch_up s (parent s x)
     | KContrib \<Rightarrow> watch_up s (owner s x)
     | KMat _ \<Rightarrow> watch_low s (parent s x)
     | KRes \<Rightarrow> (case parent s x of None \<Rightarrow> [] | Some m \<Rightarrow> if kind s m = KMat MReviewing then [] else watch_mat s m)
     | _ \<Rightarrow> [])"

definition sets_but :: "nat set \<Rightarrow> site \<Rightarrow> bool" where
  "sets_but D s \<longleftrightarrow> (\<forall>x y. x \<in> set (ac_nonInh (acs s y)) \<longleftrightarrow> x \<notin> D \<and> level s x \<noteq> 0 \<and> y \<in> set (watchers s x))"

definition grants_ok :: "site \<Rightarrow> bool" where
  "grants_ok s \<longleftrightarrow> (\<forall>x. PNone \<notin> set (ac_allowed (acs s x)) \<and> PNone \<notin> set (ac_managers (acs s x)) \<and>
     ac_allowedEmail (acs s x) = [] \<and> ac_level (acs s x) \<in> {-1, 0, 1})"

definition site_but :: "nat set \<Rightarrow> nat set \<Rightarrow> site \<Rightarrow> bool" where
  "site_but L D s \<longleftrightarrow> pointers_ok s \<and> lists_but L s \<and> sets_but D s \<and> grants_ok s"

abbreviation site_ok :: "site \<Rightarrow> bool" where
  "site_ok \<equiv> site_but {} {}"

lemma pointers_okD:
  assumes "pointers_ok s"
  shows "parent s x = Some p \<Longrightarrow> child_of (kind s x) (kind s p)"
    "parent s x = Some p \<Longrightarrow> x < next_node s" "parent s x = Some p \<Longrightarrow> p < next_node s"
    "parent s x = Some p \<Longrightarrow> kind s x = KCateg \<Longrightarrow> p < x"
    "parent s x = Some p \<Longrightarrow> kind s p \<notin> {KCateg, KEvent} \<Longrightarrow> parent s p \<noteq> None"
    "in_sess s c = Some i \<Longrightarrow> kind s c = KContrib" "in_sess s c = Some i \<Longrightarrow> kind s i = KSession"
    "in_sess s c = Some i \<Longrightarrow> parent s c \<noteq> None" "in_sess s c = Some i \<Longrightarrow> parent s i = parent s c"
  using assms unfolding pointers_ok_def by blast+

lemma lists_butD:
  assumes "lists_but L s"
  shows "m \<in> set (mats s y) \<longleftrightarrow> parent s m = Some y \<and> is_mat (kind s m)"
    "r \<in> set (ress s m) \<longleftrightarrow> parent s r = Some m \<and> kind s r = KRes"
    "z \<in> set (subs s c) \<longleftrightarrow> parent s z = Some c \<and> kind s z = KSub"
    "c \<in> set (conts s y) \<longleftrightarrow> parent s c = Some y \<and> kind s c = KContrib \<or> in_sess s c = Some y"
    "i \<in> set (sess s e) \<longleftrightarrow> parent s i = Some e \<and> kind s i = KSession \<and> i \<notin> L"
    "e \<in> set (events s k) \<longleftrightarrow> parent s e = Some k \<and> kind s e = KEvent"
    "distinct (mats s y)" "distinct (ress s y)" "distinct (subs s y)" "distinct (conts s y)" "distinct (sess s y)" "distinct (events s y)"
  using assms unfolding lists_but_def by blast+

lemma sets_butD: "sets_but D s \<Longrightarrow> x \<in> set (ac_nonInh (acs s y)) \<longleftrightarrow> x \<notin> D \<and> level s x \<noteq> 0 \<and> y \<in> set (watchers s x)"
  by (simp add: sets_but_def)

lemma site_butD:
  "site_but L D s \<Longrightarrow> pointers_ok s" "site_but L D s \<Longrightarrow> lists_but L s" "site_but L D s \<Longrightarrow> sets_but D s" "site_but L D s \<Longrightarrow> grants_ok s"
  by (simp_all add: site_but_def)

section \<open>Reports\<close>

text \<open>What a report does to the sets of the objects that get it.\<close>

definition ni_op :: "bool \<Rightarrow> nat \<Rightarrow> nat list \<Rightarrow> nat list" where
  "ni_op out e xs = (if out then removeAll e xs else List.insert e xs)"

lemma ni_op_twice [simp]: "ni_op b e (ni_op b e xs) = ni_op b e xs"
  by (simp add: ni_op_def List.insert_def)

definition report_ni :: "nat list \<Rightarrow> nat \<Rightarrow> bool \<Rightarrow> site \<Rightarrow> site" where
  "report_ni W e del s = s\<lparr>acs := \<lambda>y. if y \<in> set W
     then (acs s y)\<lparr>ac_nonInh := ni_op (del \<or> level s e = 0) e (ac_nonInh (acs s y))\<rparr> else acs s y\<rparr>"

lemma report_ni_fields [simp]:
  "kind (report_ni W e d s) = kind s" "parent (report_ni W e d s) = parent s" "in_sess (report_ni W e d s) = in_sess s"
  "mats (report_ni W e d s) = mats s" "ress (report_ni W e d s) = ress s" "subs (report_ni W e d s) = subs s"
  "conts (report_ni W e d s) = conts s" "sess (report_ni W e d s) = sess s" "events (report_ni W e d s) = events s"
  "subcats (report_ni W e d s) = subcats s" "next_node (report_ni W e d s) = next_node s"
  "ac_level (acs (report_ni W e d s) y) = ac_level (acs s y)" "ac_allowed (acs (report_ni W e d s) y) = ac_allowed (acs s y)"
  "ac_managers (acs (report_ni W e d s) y) = ac_managers (acs s y)" "ac_allowedEmail (acs (report_ni W e d s) y) = ac_allowedEmail (acs s y)"
  by (simp_all add: report_ni_def)

lemma owner_cong:
  assumes "kind t = kind s" "parent t = parent s" "in_sess t = in_sess s"
  shows "owner t x = owner s x"
  unfolding owner_def assms ..

lemma level_cong:
  assumes "kind t = kind s" "parent t = parent s" "\<And>y. ac_level (acs t y) = ac_level (acs s y)"
  shows "level t x = level s x"
  unfolding level_def controller_def assms ..

lemma report_ni_level [simp]: "level (report_ni W e d s) x = level s x" "owner (report_ni W e d s) x = owner s x"
  by (rule level_cong owner_cong; simp)+

lemma report_ni_set:
  "x \<in> set (ac_nonInh (acs (report_ni W e d s) y)) \<longleftrightarrow>
     (if y \<in> set W \<and> x = e then \<not> d \<and> level s e \<noteq> 0 else x \<in> set (ac_nonInh (acs s y)))"
  by (simp add: report_ni_def ni_op_def)

lemma report_ni_Nil [simp]: "report_ni [] e d s = s"
  by (simp add: report_ni_def)

lemma report_ni_append: "report_ni V e d (report_ni W e d s) = report_ni (W @ V) e d s"
  unfolding report_ni_def [of V] report_ni_level by (simp add: report_ni_def fun_eq_iff)

lemma ctl_update_run: "ctl_update y e d s = (Inr (), report_ni [y] e d s)"
  by (simp add: ctl_update_def report_ni_def ni_op_def upd_ac_def fun_eq_iff)

lemma watch_cong:
  assumes "kind t = kind s" "parent t = parent s" "in_sess t = in_sess s"
  shows "watch_up t o1 = watch_up s o1" "watch_contrib t c = watch_contrib s c" "watch_low t o1 = watch_low s o1"
    "watch_mat t m = watch_mat s m" "watchers t x = watchers s x"
proof -
  have o: "owner t = owner s" using assms by (simp add: fun_eq_iff owner_cong)
  show up: "watch_up t o1 = watch_up s o1" for o1 unfolding watch_up_def assms ..
  show con: "watch_contrib t c = watch_contrib s c" for c unfolding watch_contrib_def o up ..
  show low: "watch_low t o1 = watch_low s o1" for o1 unfolding watch_low_def assms up con ..
  show mat: "watch_mat t m = watch_mat s m" for m unfolding watch_mat_def assms low ..
  show "watchers t x = watchers s x" unfolding watchers_def assms o up low mat ..
qed

lemma report_ni_watch [simp]:
  "watch_up (report_ni W e d s) o1 = watch_up s o1" "watch_contrib (report_ni W e d s) c = watch_contrib s c"
  "watch_low (report_ni W e d s) o1 = watch_low s o1" "watch_mat (report_ni W e d s) m = watch_mat s m"
  "watchers (report_ni W e d s) x = watchers s x"
  by (rule watch_cong; simp)+

section \<open>The reports reach the watchers\<close>

lemma session_update_run:
  assumes "parent s i = Some e1"
  shows "session_update i e d True s = (Inr (), report_ni [i, e1] e d s)" "session_update i e d False s = (Inr (), report_ni [i] e d s)"
  using assms by (simp_all add: session_update_def ctl_update_run conf_update_def need_node_def report_ni_append)

lemma upper_update_run:
  assumes "pointers_ok s" "kind s y \<in> {KCateg, KEvent, KSession}" "kind s y = KSession \<Longrightarrow> parent s y \<noteq> None"
  shows "upper_update (Some y) e d s = (Inr (), report_ni (watch_up s (Some y)) e d s)"
  using assms
  by (auto simp: upper_update_def need_node_def conf_update_def ctl_update_run session_update_run watch_up_def split: nkind.splits option.splits)

lemma owner_kind:
  assumes "pointers_ok s" "kind s c = KContrib" "parent s c \<noteq> None"
  shows "\<exists>y. owner s c = Some y \<and> kind s y \<in> {KEvent, KSession} \<and> (kind s y = KSession \<longrightarrow> parent s y \<noteq> None)"
proof (cases "in_sess s c")
  case None
  obtain e where e: "parent s c = Some e" using assms(3) by blast
  from pointers_okD(1) [OF assms(1) e] show ?thesis using None e assms(2) by (simp add: owner_def)
next
  case (Some i)
  then show ?thesis using pointers_okD(7) [OF assms(1) Some] pointers_okD(9) [OF assms(1) Some] assms(2,3) by (simp add: owner_def)
qed

lemma contrib_update_run:
  assumes "pointers_ok s" "kind s c = KContrib" "parent s c \<noteq> None"
  shows "contrib_update c e d s = (Inr (), report_ni (watch_contrib s c) e d s)"
proof -
  obtain y where y: "owner s c = Some y" "kind s y \<in> {KEvent, KSession}" "kind s y = KSession \<longrightarrow> parent s y \<noteq> None"
    using owner_kind [OF assms] by blast
  have "pointers_ok (report_ni [c] e d s)" using assms(1) by (simp add: pointers_ok_def)
  from upper_update_run [OF this, of y e d] y show ?thesis
    by (auto simp: contrib_update_def ctl_update_run report_ni_append watch_contrib_def)
qed

lemma lower_update_run:
  assumes "pointers_ok s" "\<not> is_mat (kind s y)" "kind s y \<noteq> KRes" "kind s y \<notin> {KCateg, KEvent} \<Longrightarrow> parent s y \<noteq> None"
  shows "lower_update (Some y) e d s = (Inr (), report_ni (watch_low s (Some y)) e d s)"
proof (cases "kind s y = KContrib")
  case True
  then show ?thesis using assms(4) contrib_update_run [OF assms(1) True]
    by (auto simp: lower_update_def need_node_def watch_low_def)
next
  case not_contrib: False
  show ?thesis
  proof (cases "kind s y = KSub")
    case True
    then obtain c where c: "parent s y = Some c" using assms(4) by auto
    have k: "kind s c = KContrib" using pointers_okD(1) [OF assms(1) c] True by simp
    with pointers_okD(5) [OF assms(1) c] have "parent s c \<noteq> None" by simp
    from contrib_update_run [OF assms(1) k this] c True show ?thesis
      by (auto simp: lower_update_def sub_update_def need_node_def watch_low_def)
  next
    case False
    then have "kind s y \<in> {KCateg, KEvent, KSession}" "kind s y = KSession \<Longrightarrow> parent s y \<noteq> None"
      using assms(2-4) not_contrib by (cases "kind s y"; auto)+
    from upper_update_run [OF assms(1) this, of e d] False not_contrib show ?thesis
      by (auto simp: lower_update_def need_node_def watch_low_def split: nkind.splits)
  qed
qed

lemma mat_update_run:
  assumes "pointers_ok s" "is_mat (kind s m)" "parent s m = Some y"
  shows "mat_update m e d s = (Inr (), report_ni (watch_mat s m) e d s)"
proof -
  have "pointers_ok (report_ni [m] e d s)" using assms(1) by (simp add: pointers_ok_def)
  moreover have "\<not> is_mat (kind s y)" "kind s y \<noteq> KRes"
    using pointers_okD(1) [OF assms(1,3)] assms(2) by (cases "kind s m"; simp)+
  moreover have "kind s y \<notin> {KCateg, KEvent} \<Longrightarrow> parent s y \<noteq> None" by (rule pointers_okD(5) [OF assms(1,3)])
  ultimately have "lower_update (Some y) e d (report_ni [m] e d s) = (Inr (), report_ni ([m] @ watch_low s (Some y)) e d s)"
    by (subst lower_update_run) (auto simp: report_ni_append)
  then show ?thesis using assms(3) by (auto simp: mat_update_def ctl_update_run watch_mat_def)
qed

text \<open>An object in the tree reports to its watchers.\<close>

lemma notify_run:
  assumes "pointers_ok s" "parent s x = Some p"
  shows "kind s x = KSession \<Longrightarrow> upper_update (parent s x) x d s = (Inr (), report_ni (watchers s x) x d s)"
    "kind s x = KContrib \<Longrightarrow> upper_update (owner s x) x d s = (Inr (), report_ni (watchers s x) x d s)"
    "is_mat (kind s x) \<Longrightarrow> lower_update (parent s x) x d s = (Inr (), report_ni (watchers s x) x d s)"
    "kind s x = KRes \<Longrightarrow> res_notify x d s = (Inr (), report_ni (watchers s x) x d s)"
proof -
  note child = pointers_okD(1) [OF assms]
  show "upper_update (parent s x) x d s = (Inr (), report_ni (watchers s x) x d s)" if that: "kind s x = KSession"
  proof -
    have "kind s p = KEvent" using that child by simp
    then have "upper_update (Some p) x d s = (Inr (), report_ni (watch_up s (Some p)) x d s)"
      by (intro upper_update_run [OF assms(1)]) auto
    then show ?thesis using that assms(2) by (simp add: watchers_def)
  qed
  show "upper_update (owner s x) x d s = (Inr (), report_ni (watchers s x) x d s)" if k: "kind s x = KContrib"
  proof -
    have "parent s x \<noteq> None" using assms(2) by simp
    then obtain y where y: "owner s x = Some y" "kind s y \<in> {KEvent, KSession}" "kind s y = KSession \<longrightarrow> parent s y \<noteq> None"
      using owner_kind [OF assms(1) k] by blast
    have "upper_update (Some y) x d s = (Inr (), report_ni (watch_up s (Some y)) x d s)"
      using y(2,3) by (intro upper_update_run [OF assms(1)]) auto
    then show ?thesis using k y(1) by (simp add: watchers_def)
  qed
  show "lower_update (parent s x) x d s = (Inr (), report_ni (watchers s x) x d s)" if k: "is_mat (kind s x)"
  proof -
    have "\<not> is_mat (kind s p)" "kind s p \<noteq> KRes" using child k by (cases "kind s x"; simp)+
    from lower_update_run [OF assms(1) this pointers_okD(5) [OF assms], of x d] show ?thesis
      using assms(2) k by (cases "kind s x"; simp add: watchers_def)
  qed
  show "res_notify x d s = (Inr (), report_ni (watchers s x) x d s)" if k: "kind s x = KRes"
  proof -
    obtain mk where mk: "kind s p = KMat mk" using child k by (cases "kind s p") auto
    then obtain y where "parent s p = Some y" using pointers_okD(5) [OF assms] by auto
    from mat_update_run [OF assms(1) _ this, of x d] mk show ?thesis
      using assms(2) k by (auto simp: res_notify_def watchers_def)
  qed
qed

end
