(* ===== verification/AC_Keep.thy ===== *)
theory AC_Keep
  imports AC_Inv
begin

text \<open>
  How the basic changes of the protected tree keep its invariant: taking a leaf out, putting a new object in, taking
  a contribution out of its session and putting it into one, and setting the level of an object.
\<close>

section \<open>Who watches\<close>

lemma watch_up_above: "w \<in> set (watch_up s (Some y)) \<Longrightarrow> w = y \<or> parent s y = Some w"
  by (auto simp: watch_up_def split: nkind.splits option.splits)

lemma owner_above: "owner s z = Some w \<Longrightarrow> parent s z = Some w \<or> in_sess s z = Some w"
  by (auto simp: owner_def split: nkind.splits option.splits)

definition above :: "site \<Rightarrow> nat \<Rightarrow> bool" where
  "above s w \<longleftrightarrow> (\<exists>z. parent s z = Some w \<or> in_sess s z = Some w)"

lemma aboveI: "parent s z = Some w \<Longrightarrow> above s w" "owner s z = Some w \<Longrightarrow> above s w"
  using owner_above by (auto simp: above_def)

lemma watch_up_set_above: "above s y \<Longrightarrow> w \<in> set (watch_up s (Some y)) \<Longrightarrow> above s w"
  using watch_up_above aboveI(1) by metis

lemma watch_contrib_above: "above s c \<Longrightarrow> w \<in> set (watch_contrib s c) \<Longrightarrow> above s w"
  by (cases "owner s c") (auto simp: watch_contrib_def watch_up_def [of s None] intro: watch_up_set_above aboveI)

lemma watch_low_above:
  assumes "above s y" "w \<in> set (watch_low s (Some y))"
  shows "above s w"
proof -
  have "w \<in> set (watch_contrib s y) \<or> (\<exists>c. parent s y = Some c \<and> w \<in> set (watch_contrib s c)) \<or> w \<in> set (watch_up s (Some y))"
    using assms(2) by (cases "kind s y"; cases "parent s y") (simp_all add: watch_low_def)
  then show ?thesis using assms(1) watch_contrib_above watch_up_set_above aboveI(1) by blast
qed

text \<open>Every watcher is above some object.\<close>

lemma watchers_above:
  assumes "w \<in> set (watchers s x)"
  shows "above s w"
proof (cases "kind s x = KContrib")
  case True
  then show ?thesis using assms watch_up_set_above [OF aboveI(2)]
    by (cases "owner s x") (auto simp: watchers_def watch_up_def [of s None])
next
  case no_contrib: False
  show ?thesis
  proof (cases "parent s x")
    case None
    then show ?thesis using assms no_contrib
      by (cases "kind s x") (simp_all add: watchers_def watch_up_def [of s None] watch_low_def [of s None])
  next
    case (Some p)
    have p: "above s p" by (rule aboveI(1) [OF Some])
    have low: "w \<in> set (watch_low s (Some y)) \<Longrightarrow> above s w" if "above s y" for y using watch_low_above that .
    have mat: "w \<in> set (watch_mat s p) \<Longrightarrow> above s w"
      using p low aboveI(1) [of s p] by (cases "parent s p") (auto simp: watch_mat_def split: if_splits)
    from assms no_contrib Some p show ?thesis
      by (cases "kind s x") (auto simp: watchers_def split: if_splits intro: watch_up_set_above low mat)
  qed
qed

text \<open>Objects that are above nothing do not matter to the others.\<close>

lemma watch_leaf:
  assumes eq: "\<And>z. z \<noteq> x \<Longrightarrow> kind t z = kind s z" "\<And>z. z \<noteq> x \<Longrightarrow> parent t z = parent s z" "\<And>z. z \<noteq> x \<Longrightarrow> in_sess t z = in_sess s z"
    and leaf: "\<not> above s x"
  shows "z \<noteq> x \<Longrightarrow> watchers t z = watchers s z"
proof -
  have own: "owner t z = owner s z" if "z \<noteq> x" for z unfolding owner_def eq [OF that] ..
  have notx [simp]: "parent s z \<noteq> Some x" "owner s z \<noteq> Some x" for z
    using leaf aboveI by metis+
  have up: "watch_up t o1 = watch_up s o1" if "o1 \<noteq> Some x" for o1
    using that eq by (cases o1) (simp_all add: watch_up_def split: nkind.split)
  have con: "watch_contrib t c = watch_contrib s c" if "c \<noteq> x" for c
    unfolding watch_contrib_def using that own up by simp
  have low: "watch_low t o1 = watch_low s o1" if "o1 \<noteq> Some x" for o1
  proof (cases o1)
    case (Some y)
    then have y: "y \<noteq> x" using that by simp
    then show ?thesis using Some eq con up notx(1) [of y] unfolding watch_low_def
      by (cases "kind s y"; cases "parent s y") simp_all
  qed (simp add: watch_low_def)
  have mat: "watch_mat t m = watch_mat s m" if "m \<noteq> x" for m
    using that eq low notx(1) [of m] unfolding watch_mat_def by (cases "parent s m") simp_all
  show "watchers t z = watchers s z" if "z \<noteq> x"
    using that eq own up low mat notx [of z] unfolding watchers_def
    by (cases "kind s z"; cases "parent s z") simp_all
qed

text \<open>The parents of categories and of events do not matter.\<close>

lemma watch_upper:
  assumes ok: "pointers_ok s"
    and eq: "kind t = kind s" "in_sess t = in_sess s" "\<And>z. kind s z \<notin> {KCateg, KEvent} \<Longrightarrow> parent t z = parent s z"
  shows "watchers t z = watchers s z"
proof -
  have own: "owner t z = owner s z" if "kind s z \<notin> {KCateg, KEvent}" for z unfolding owner_def eq(1,2) eq(3) [OF that] ..
  have up: "watch_up t o1 = watch_up s o1" for o1
    using eq unfolding watch_up_def by (auto split: option.splits nkind.splits)
  have con: "watch_contrib t c = watch_contrib s c" if "kind s c = KContrib" for c
    unfolding watch_contrib_def using that own up by simp
  have low: "watch_low t (Some y) = watch_low s (Some y)" if y: "\<And>c. kind s y = KSub \<Longrightarrow> parent s y = Some c \<Longrightarrow> kind s c = KContrib" for y
    using eq(1) eq(3) [of y] up con [of y] con y unfolding watch_low_def
    by (cases "kind s y"; cases "parent s y") simp_all
  have lowp: "watch_low t (Some y) = watch_low s (Some y)" if "pointers_ok s" for y
    by (rule low) (use pointers_okD(1) [OF that] in force)
  have mat: "watch_mat t m = watch_mat s m" if "is_mat (kind s m)" for m
    using that eq lowp [OF ok] eq(3) [of m] unfolding watch_mat_def by (cases "kind s m"; cases "parent s m") simp_all
  show ?thesis
    using eq own up lowp [OF ok] mat eq(3) [of z] pointers_okD(1) [OF ok, of z] unfolding watchers_def
    by (cases "kind s z"; cases "parent s z") (simp_all add: watch_low_def [of _ None])
qed

text \<open>A contribution in a session: the session watches it and whatever it watches.\<close>

lemma watch_up_kind:
  assumes "pointers_ok s" "w \<in> set (watch_up s o1)"
  shows "kind s w \<in> {KEvent, KSession}"
proof (cases o1)
  case (Some y)
  then show ?thesis using assms(2) pointers_okD(1) [OF assms(1), of y]
    by (cases "kind s y"; cases "parent s y") (auto simp: watch_up_def)
qed (use assms(2) in \<open>simp add: watch_up_def\<close>)

definition joined :: "nat \<Rightarrow> nat \<Rightarrow> nat list \<Rightarrow> nat list \<Rightarrow> bool" where
  "joined c i a b \<longleftrightarrow> (if c \<in> set a then i \<notin> set a \<and> set b = insert i (set a) else set b = set a)"

lemma joined_same: "c \<notin> set a \<Longrightarrow> joined c i a a"
  by (simp add: joined_def)

lemma joined_Cons: "joined c i a b \<Longrightarrow> m \<noteq> c \<Longrightarrow> m \<noteq> i \<Longrightarrow> joined c i (m # a) (m # b)"
  by (auto simp: joined_def)

lemma watchers_join:
  assumes ok: "pointers_ok v" and c: "in_sess v c = Some i" and u: "u = v\<lparr>in_sess := (in_sess v)(c := None)\<rparr>"
  shows "z \<noteq> c \<Longrightarrow> joined c i (watchers u z) (watchers v z)"
    "set (watchers v c) = insert i (set (watchers u c))" "i \<notin> set (watchers u c)" "c \<notin> set (watchers u c)"
proof -
  have k: "kind v c = KContrib" "kind v i = KSession" using pointers_okD(6,7) [OF ok c] by simp_all
  obtain e where e: "parent v c = Some e" "parent v i = Some e" using pointers_okD(8,9) [OF ok c] by auto
  have ke: "kind v e = KEvent" using pointers_okD(1) [OF ok e(1)] k by simp
  have [simp]: "i \<noteq> e" "c \<noteq> e" "c \<noteq> i" "e \<noteq> i" "e \<noteq> c" "i \<noteq> c" using k ke by auto
  have same [simp]: "kind u = kind v" "parent u = parent v" by (simp_all add: u)
  have own: "owner u z = owner v z" if "z \<noteq> c" for z
    using that by (cases "kind v z"; cases "in_sess v z") (simp_all add: owner_def u)
  have up [simp]: "watch_up u o1 = watch_up v o1" for o1 unfolding watch_up_def same ..
  have notup: "c \<notin> set (watch_up v o1)" for o1 using watch_up_kind [OF ok, of c o1] k by auto
  have atc: "watch_up u (owner u c) = [e]" "watch_up v (owner v c) = [i, e]"
    using k e ke c by (simp_all add: owner_def watch_up_def u)
  have con: "joined c i (watch_contrib u y) (watch_contrib v y)" for y
  proof (cases "y = c")
    case True
    then show ?thesis using atc by (auto simp: watch_contrib_def joined_def)
  next
    case False
    then show ?thesis using notup by (simp add: watch_contrib_def own joined_def)
  qed
  have low: "joined c i (watch_low u o1) (watch_low v o1)" for o1
  proof (cases o1)
    case (Some y)
    then show ?thesis using con joined_same [OF notup]
      by (cases "kind v y"; cases "parent v y") (simp_all add: watch_low_def joined_def)
  qed (simp add: watch_low_def joined_def)
  have mat: "joined c i (watch_mat u m) (watch_mat v m)" if "is_mat (kind v m)" for m
  proof -
    have m: "m \<noteq> c" "m \<noteq> i" using that k by auto
    have nil: "joined c i [] []" by (simp add: joined_def)
    show ?thesis using joined_Cons [OF low m] nil by (cases "parent v m") (simp_all add: watch_mat_def)
  qed
  show "joined c i (watchers u z) (watchers v z)" if "z \<noteq> c"
  proof (cases "kind v z = KRes")
    case True
    then show ?thesis using mat pointers_okD(1) [OF ok, of z]
      by (cases "parent v z") (auto simp: watchers_def joined_def)
  next
    case False
    then show ?thesis using that own low joined_same [OF notup]
      by (cases "kind v z") (simp_all add: watchers_def joined_def)
  qed
  show "set (watchers v c) = insert i (set (watchers u c))" "i \<notin> set (watchers u c)" "c \<notin> set (watchers u c)"
    using k atc by (auto simp: watchers_def)
qed

section \<open>Taking out\<close>

lemma site_butI: "pointers_ok s \<Longrightarrow> lists_but L s \<Longrightarrow> sets_but D s \<Longrightarrow> grants_ok s \<Longrightarrow> site_but L D s"
  by (simp add: site_but_def)

definition same_grants :: "site \<Rightarrow> site \<Rightarrow> bool" where
  "same_grants s t \<longleftrightarrow> (\<forall>y. ac_level (acs t y) = ac_level (acs s y) \<and> ac_allowed (acs t y) = ac_allowed (acs s y) \<and>
     ac_managers (acs t y) = ac_managers (acs s y) \<and> ac_allowedEmail (acs t y) = ac_allowedEmail (acs s y))"

lemma same_grantsD:
  "same_grants s t \<Longrightarrow> ac_level (acs t y) = ac_level (acs s y)" "same_grants s t \<Longrightarrow> grants_ok t = grants_ok s"
  by (simp_all add: same_grants_def grants_ok_def)

lemma same_grants_report [simp]: "same_grants s (report_ni W e d s)"
  by (simp add: same_grants_def)

lemma watchers_sub [simp]: "kind s z = KSub \<Longrightarrow> watchers s z = []"
  by (simp add: watchers_def)

lemma level_own: "kind s z \<noteq> KSub \<Longrightarrow> level s z = ac_level (acs s z)"
  by (cases "kind s z") (simp_all add: level_def controller_def)

text \<open>The sets only have to be right about objects with a controller of their own.\<close>

lemma sets_but_iff:
  "sets_but D s \<longleftrightarrow> (\<forall>x y. x \<in> set (ac_nonInh (acs s y)) \<longleftrightarrow> x \<notin> D \<and> ac_level (acs s x) \<noteq> 0 \<and> y \<in> set (watchers s x))"
proof -
  have "(x \<notin> D \<and> level s x \<noteq> 0 \<and> y \<in> set (watchers s x)) = (x \<notin> D \<and> ac_level (acs s x) \<noteq> 0 \<and> y \<in> set (watchers s x))" for x y
    by (cases "kind s x = KSub") (simp_all add: level_own)
  then show ?thesis by (simp add: sets_but_def)
qed

lemma pointers_detach:
  assumes ok: "pointers_ok s" and x: "\<not> above s x" "in_sess s x = None"
    and t: "kind t = kind s" "next_node t = next_node s" "parent t = (parent s)(x := None)" "in_sess t = in_sess s"
  shows "pointers_ok t"
proof -
  have np: "parent s z \<noteq> Some x" "in_sess s z \<noteq> Some x" for z using x(1) by (auto simp: above_def)
  show ?thesis unfolding pointers_ok_def t
  proof (intro conjI allI impI)
    fix z p assume "((parent s)(x := None)) z = Some p"
    then have z: "z \<noteq> x" "parent s z = Some p" "p \<noteq> x" using np by (auto split: if_splits)
    show "child_of (kind s z) (kind s p)" "z < next_node s" "p < next_node s" by (fact pointers_okD(1-3) [OF ok z(2)])+
    show "p < z" if "kind s z = KCateg" by (rule pointers_okD(4) [OF ok z(2) that])
    show "((parent s)(x := None)) p \<noteq> None" if "kind s p \<notin> {KCateg, KEvent}"
      using pointers_okD(5) [OF ok z(2) that] z(3) by simp
  next
    fix c i assume c: "in_sess s c = Some i"
    then have "c \<noteq> x" "i \<noteq> x" using x(2) np by auto
    with pointers_okD(6-9) [OF ok c] show "kind s c = KContrib" "kind s i = KSession" "((parent s)(x := None)) c \<noteq> None"
      "((parent s)(x := None)) i = ((parent s)(x := None)) c" by simp_all
  qed
qed

lemma detach_ok:
  assumes ok: "site_but L D s" and x: "kind s x \<notin> {KCateg, KEvent}" "\<not> above s x" "in_sess s x = None"
    and t: "kind t = kind s" "next_node t = next_node s" "parent t = (parent s)(x := None)" "in_sess t = in_sess s" "same_grants s t"
    and ni: "\<And>z y. z \<in> set (ac_nonInh (acs t y)) \<longleftrightarrow> z \<noteq> x \<and> z \<in> set (ac_nonInh (acs s y))"
    and lists: "lists_but L' t" and D: "D' = D \<or> D' = D - {x}"
  shows "site_but L' D' t"
proof (rule site_butI)
  note parts = site_butD [OF ok]
  show "pointers_ok t" by (rule pointers_detach [OF parts(1) x(2,3) t(1-4)])
  show "lists_but L' t" by (rule lists)
  show "grants_ok t" using same_grantsD(2) [OF t(5)] parts(4) by simp
  have none: "watchers t x = []"
    using x(1,3) t by (cases "kind s x") (simp_all add: watchers_def owner_def watch_up_def watch_low_def)
  have rest: "watchers t z = watchers s z" if "z \<noteq> x" for z
    by (rule watch_leaf [OF _ _ _ x(2) that]) (simp_all add: t)
  show "sets_but D' t"
    unfolding sets_but_iff
  proof (intro allI)
    fix z y
    show "(z \<in> set (ac_nonInh (acs t y))) = (z \<notin> D' \<and> ac_level (acs t z) \<noteq> 0 \<and> y \<in> set (watchers t z))"
    proof (cases "z = x")
      case True
      then show ?thesis using ni none by simp
    next
      case False
      then have "(z \<in> set (ac_nonInh (acs t y))) = (z \<in> set (ac_nonInh (acs s y)))" using ni by simp
      also have "\<dots> = (z \<notin> D \<and> ac_level (acs s z) \<noteq> 0 \<and> y \<in> set (watchers s z))"
        using parts(3) unfolding sets_but_iff by blast
      finally show ?thesis using D False rest same_grantsD(1) [OF t(5)] by auto
    qed
  qed
qed

text \<open>A report that an object is deleted takes it out of every set.\<close>

lemma report_deleted:
  assumes "sets_but D s"
  shows "z \<in> set (ac_nonInh (acs (report_ni (watchers s x) x True s) y)) \<longleftrightarrow> z \<noteq> x \<and> z \<in> set (ac_nonInh (acs s y))"
  using sets_butD [OF assms, of x y] by (auto simp: report_ni_set)

lemma sets_but_insert:
  assumes "sets_but D s"
  shows "sets_but (insert x D) (report_ni (watchers s x) x True s)"
  using assms unfolding sets_but_def report_deleted [OF assms] by auto

section \<open>What deleting leaves alone\<close>

fun krank :: "nkind \<Rightarrow> nat" where
  "krank KRes = 0"
| "krank (KMat _) = 1"
| "krank KSub = 2"
| "krank KContrib = 3"
| "krank KSession = 4"
| "krank KEvent = 5"
| "krank KCateg = 6"

definition frame :: "nat \<Rightarrow> site \<Rightarrow> site \<Rightarrow> bool" where
  "frame n s t \<longleftrightarrow> kind t = kind s \<and> next_node t = next_node s \<and> events t = events s \<and>
     (\<forall>x p. parent t x = Some p \<longrightarrow> parent s x = Some p) \<and> (\<forall>x i. in_sess t x = Some i \<longrightarrow> in_sess s x = Some i) \<and>
     (\<forall>x. n \<le> krank (kind s x) \<longrightarrow> parent t x = parent s x \<and> in_sess t x = in_sess s x) \<and> (n \<le> 4 \<longrightarrow> sess t = sess s)"

lemma frameI:
  assumes "kind t = kind s" "next_node t = next_node s" "events t = events s"
    "\<And>x p. parent t x = Some p \<Longrightarrow> parent s x = Some p" "\<And>x i. in_sess t x = Some i \<Longrightarrow> in_sess s x = Some i"
    "\<And>x. n \<le> krank (kind s x) \<Longrightarrow> parent t x = parent s x" "\<And>x. n \<le> krank (kind s x) \<Longrightarrow> in_sess t x = in_sess s x"
    "n \<le> 4 \<Longrightarrow> sess t = sess s"
  shows "frame n s t"
  unfolding frame_def by (intro conjI allI impI) (rule assms; assumption)+

lemma frameD:
  assumes "frame n s t"
  shows "kind t = kind s" "parent t x = Some p \<Longrightarrow> parent s x = Some p" "in_sess t x = Some i \<Longrightarrow> in_sess s x = Some i"
    "n \<le> krank (kind s x) \<Longrightarrow> parent t x = parent s x" "n \<le> krank (kind s x) \<Longrightarrow> in_sess t x = in_sess s x"
    "n \<le> 4 \<Longrightarrow> sess t = sess s" "next_node t = next_node s"
  using assms unfolding frame_def by blast+

lemma frame_refl [simp]: "frame n s s"
  by (simp add: frame_def)

lemma frame_trans:
  assumes st: "frame n s t" and tv: "frame n t v"
  shows "frame n s v"
proof (rule frameI)
  note a = frameD [OF st] and b = frameD [OF tv]
  show "kind v = kind s" using a(1) b(1) by simp
  show "parent v x = parent s x" "in_sess v x = in_sess s x" if "n \<le> krank (kind s x)" for x
    using a(4,5) [OF that] b(4,5) [of x] that a(1) by simp_all
  show "n \<le> 4 \<Longrightarrow> sess v = sess s" "next_node v = next_node s" using a(6,7) b(6,7) by simp_all
  have "events t = events s" "events v = events t" using st tv unfolding frame_def by blast+
  then show "events v = events s" by simp
  show "parent v x = Some p \<Longrightarrow> parent s x = Some p" for x p by (rule a(2), erule b(2))
  show "in_sess v x = Some i \<Longrightarrow> in_sess s x = Some i" for x i by (rule a(3), erule b(3))
qed

lemma frame_mono: "frame m s t \<Longrightarrow> m \<le> n \<Longrightarrow> frame n s t"
  unfolding frame_def by (meson order_trans)

text \<open>Deleting every object of a list.\<close>

lemma for_each_detach:
  assumes step: "\<And>x t. x \<in> set xs \<Longrightarrow> I t \<Longrightarrow> frame n s t \<Longrightarrow> \<exists>v. f x t = (Inr (), v) \<and> I v \<and> frame n t v \<and> Q x v"
    and stable: "\<And>x t v. frame n t v \<Longrightarrow> Q x t \<Longrightarrow> Q x v" and s: "I s"
  shows "\<exists>v. for_each xs f s = (Inr (), v) \<and> I v \<and> frame n s v \<and> (\<forall>x \<in> set xs. Q x v)"
proof -
  have "\<exists>v. for_each ys f t = (Inr (), v) \<and> I v \<and> frame n s v \<and> frame n t v \<and> (\<forall>x \<in> set ys. Q x v)"
    if "set ys \<subseteq> set xs" "I t" "frame n s t" for ys t
    using that
  proof (induction ys arbitrary: t)
    case (Cons y ys)
    obtain u where u: "f y t = (Inr (), u)" "I u" "frame n t u" "Q y u" using step [of y t] Cons.prems by auto
    have "frame n s u" by (rule frame_trans [OF Cons.prems(3) u(3)])
    then obtain v where v: "for_each ys f u = (Inr (), v)" "I v" "frame n s v" "frame n u v" "\<forall>x \<in> set ys. Q x v"
      using Cons.IH [of u] Cons.prems u(2) by auto
    have "frame n t v" by (rule frame_trans [OF u(3) v(4)])
    then show ?case using u(1) v stable [OF v(4) u(4)] by simp
  qed simp
  from this [OF subset_refl s frame_refl] show ?thesis by blast
qed

text \<open>Emptying a list from its head: each round takes one element out, so the rounds are enough.\<close>

lemma while_first_ends:
  assumes step: "\<And>t x xs. I t \<Longrightarrow> frame n s t \<Longrightarrow> l t = x # xs \<Longrightarrow>
      \<exists>v. f x t = (Inr (), v) \<and> I v \<and> frame n t v \<and> set (l v) \<subseteq> set (l t) - {x}"
    and I: "I t" "frame n s t" "card (set (l t)) \<le> k"
  shows "\<exists>v. while_first k l f t = (Inr (), v) \<and> I v \<and> frame n s v \<and> l v = []"
  using I
proof (induction k arbitrary: t)
  case 0
  then show ?case by (intro exI [of _ t]) simp
next
  case (Suc k)
  show ?case
  proof (cases "l t")
    case Nil
    then show ?thesis using Suc.prems by (intro exI [of _ t]) simp
  next
    case (Cons x xs)
    obtain v where v: "f x t = (Inr (), v)" "I v" "frame n t v" "set (l v) \<subseteq> set (l t) - {x}"
      using step [OF Suc.prems(1,2) Cons] by blast
    have "card (set (l v)) \<le> card (set (l t) - {x})" by (intro card_mono v(4)) simp
    also have "\<dots> = card (set (l t)) - 1" using Cons by (intro card_Diff_singleton) simp
    finally have "card (set (l v)) \<le> k" using Suc.prems(3) by simp
    from Suc.IH [OF v(2) frame_trans [OF Suc.prems(2) v(3)] this] v(1) Cons show ?thesis by simp
  qed
qed

lemma empty_list_ends:
  assumes "\<And>t x xs. I t \<Longrightarrow> frame n s t \<Longrightarrow> l t = x # xs \<Longrightarrow>
      \<exists>v. f x t = (Inr (), v) \<and> I v \<and> frame n t v \<and> set (l v) \<subseteq> set (l t) - {x}"
    and "I s"
  shows "\<exists>v. empty_list l f s = (Inr (), v) \<and> I v \<and> frame n s v \<and> l v = []"
  using while_first_ends [of I n s l f s "length (l s)", OF assms frame_refl card_length]
  by (simp add: empty_list_def)

end
