(* ===== verification/AC_Delete.thy ===== *)
theory AC_Delete
  imports AC_Keep
begin

text \<open>
  Deleting: every object that is deleted is taken out of the lists and the sets it is in, after everything below it.
\<close>

lemma no_children:
  assumes "pointers_ok s" "kind s x = KRes"
  shows "\<not> above s x"
proof -
  have "parent s z \<noteq> Some x" for z using pointers_okD(1) [OF assms(1), of z x] assms(2) by (cases "kind s z") auto
  moreover have "in_sess s z \<noteq> Some x" for z using pointers_okD(7) [OF assms(1), of z x] assms(2) by auto
  ultimately show ?thesis by (simp add: above_def)
qed

lemma in_sess_kind: "pointers_ok s \<Longrightarrow> kind s x \<noteq> KContrib \<Longrightarrow> in_sess s x = None"
  using pointers_okD(6) by (metis not_Some_eq)

text \<open>The materials and the subcontributions of an object, as the pointers tell.\<close>

lemma frame_detach:
  assumes "kind t = kind s" "next_node t = next_node s" "events t = events s" "parent t = (parent s)(x := None)" "in_sess t = in_sess s"
    "sess t = sess s" "krank (kind s x) < n"
  shows "frame n s t"
  using assms(7) by (intro frameI) (auto simp: assms(1-6) split: if_splits)

section \<open>Resources\<close>

lemma removeResource_ok:
  assumes ok: "site_but L D s" and r: "kind s r = KRes" "parent s r = Some m \<or> parent s r = None"
  shows "\<exists>t. removeResource m r s = (Inr (), t) \<and> site_but L D t \<and> frame 1 s t \<and> parent t r = None"
proof (cases "parent s r")
  case None
  then show ?thesis using ok lists_butD(2) [OF site_butD(2) [OF ok], of r m] by (auto simp: removeResource_def)
next
  case (Some p)
  note parts = site_butD [OF ok]
  have p: "parent s r = Some m" using r(2) Some by simp
  have mem: "r \<in> set (ress s m)" using lists_butD(2) [OF parts(2)] p r(1) by simp
  define s1 where "s1 = s\<lparr>ress := (ress s)(m := remove1 r (ress s m))\<rparr>"
  have po: "pointers_ok s1" using parts(1) by (simp add: pointers_ok_def s1_def)
  have w: "watchers s1 = watchers s" by (rule ext, rule watch_cong(5)) (simp_all add: s1_def)
  have run: "res_notify r True s1 = (Inr (), report_ni (watchers s r) r True s1)"
    using notify_run(4) [OF po, of r m True] p r(1) w by (simp add: s1_def)
  define t where "t = (report_ni (watchers s r) r True s1)\<lparr>parent := (parent s)(r := None)\<rparr>"
  have run': "removeResource m r s = (Inr (), t)"
    using mem run by (simp add: removeResource_def t_def s1_def)
  have t [simp]: "kind t = kind s" "next_node t = next_node s" "events t = events s" "parent t = (parent s)(r := None)" "in_sess t = in_sess s"
    "sess t = sess s" "mats t = mats s" "subs t = subs s" "conts t = conts s" "ress t = (ress s)(m := remove1 r (ress s m))"
    by (simp_all add: t_def s1_def)
  have acs: "acs t = acs (report_ni (watchers s r) r True s)"
    by (simp add: t_def s1_def report_ni_def level_def controller_def fun_eq_iff)
  have "site_but L D t"
  proof (rule detach_ok [OF ok, of r])
    show "\<not> above s r" by (rule no_children [OF parts(1) r(1)])
    show "in_sess s r = None" by (rule in_sess_kind [OF parts(1)]) (simp add: r(1))
    show "same_grants s t" by (simp add: same_grants_def acs)
    show "(z \<in> set (ac_nonInh (acs t y))) = (z \<noteq> r \<and> z \<in> set (ac_nonInh (acs s y)))" for z y
      unfolding acs by (rule report_deleted [OF parts(3)])
    show "lists_but L t"
      unfolding lists_but_def t using lists_butD [OF parts(2)] p r(1) by (auto simp: distinct_remove1)
  qed (use r(1) in simp_all)
  then show ?thesis using run' r(1) frame_detach [of t s r 1] by simp
qed

section \<open>Materials\<close>

lemma frame_parent_cases: "frame n s t \<Longrightarrow> parent s x = Some p \<or> parent s x = None \<Longrightarrow> parent t x = Some p \<or> parent t x = None"
  using frameD(2) by (metis option.exhaust option.inject)

lemma frame_gone: "frame n s t \<Longrightarrow> parent s x = None \<Longrightarrow> parent t x = None"
  using frameD(2) by (metis option.distinct(1) option.exhaust)

lemma remove_resources:
  assumes ok: "site_but L D s" and m: "is_mat (kind s m)"
  shows "\<exists>t. for_each (ress s m) (removeResource m) s = (Inr (), t) \<and> site_but L D t \<and> frame 1 s t \<and> \<not> above t m"
proof -
  note lists = lists_butD(2) [OF site_butD(2) [OF ok]]
  have "\<exists>t. for_each (ress s m) (removeResource m) s = (Inr (), t) \<and> site_but L D t \<and> frame 1 s t \<and> (\<forall>r \<in> set (ress s m). parent t r = None)"
  proof (rule for_each_detach [where I = "site_but L D" and Q = "\<lambda>r t. parent t r = None"])
    fix r t assume r: "r \<in> set (ress s m)" and t: "site_but L D t" "frame 1 s t"
    have "kind t r = KRes" using r lists frameD(1) [OF t(2)] by simp
    moreover have "parent t r = Some m \<or> parent t r = None" by (rule frame_parent_cases [OF t(2)]) (use r lists in simp)
    ultimately show "\<exists>v. removeResource m r t = (Inr (), v) \<and> site_but L D v \<and> frame 1 t v \<and> parent v r = None"
      by (rule removeResource_ok [OF t(1)])
  qed (erule frame_gone, assumption, rule ok)
  then obtain t where t: "for_each (ress s m) (removeResource m) s = (Inr (), t)" "site_but L D t" "frame 1 s t"
    "\<forall>r \<in> set (ress s m). parent t r = None" by blast
  have po: "pointers_ok t" by (rule site_butD(1) [OF t(2)])
  have k: "kind t = kind s" by (rule frameD(1) [OF t(3)])
  have "parent t z \<noteq> Some m" for z
  proof
    assume z: "parent t z = Some m"
    from pointers_okD(1) [OF po z] m k have "kind s z = KRes" by (cases "kind s z") (auto elim: is_mat.elims)
    with frameD(2) [OF t(3) z] lists have "z \<in> set (ress s m)" by simp
    with t(4) z show False by simp
  qed
  moreover have "in_sess t z \<noteq> Some m" for z using pointers_okD(7) [OF po, of z m] m k by auto
  ultimately show ?thesis using t by (auto simp: above_def)
qed

lemma removeMaterial_ok:
  assumes ok: "site_but L D s" and m: "is_mat (kind s m)" "parent s m = Some y \<or> parent s m = None"
  shows "\<exists>t. removeMaterial y m s = (Inr (), t) \<and> site_but L D t \<and> frame 2 s t \<and> parent t m = None"
proof (cases "parent s m")
  case None
  then show ?thesis using ok lists_butD(1) [OF site_butD(2) [OF ok], of m y] by (auto simp: removeMaterial_def)
next
  case (Some p)
  have p: "parent s m = Some y" using m(2) Some by simp
  have mem: "m \<in> set (mats s y)" using lists_butD(1) [OF site_butD(2) [OF ok]] p m(1) by simp
  obtain u where u: "for_each (ress s m) (removeResource m) s = (Inr (), u)" "site_but L D u" "frame 1 s u" "\<not> above u m"
    using remove_resources [OF ok m(1)] by blast
  note parts = site_butD [OF u(2)]
  have k: "kind u = kind s" by (rule frameD(1) [OF u(3)])
  have rk: "krank (kind s m) = 1" using m(1) by (cases "kind s m") auto
  have pu: "parent u m = Some y" using frameD(4) [OF u(3), of m] p rk by simp
  define t where "t = (report_ni (watchers u m) m True u)\<lparr>parent := (parent u)(m := None), mats := (mats u)(y := remove1 m (mats u y))\<rparr>"
  have "lower_update (parent s m) m True u = (Inr (), report_ni (watchers u m) m True u)"
    using notify_run(3) [OF parts(1) pu, of True] m(1) k p pu by simp
  then have run: "removeMaterial y m s = (Inr (), t)"
    using mem u(1) by (simp add: removeMaterial_def mat_delete_def t_def)
  have t [simp]: "kind t = kind u" "next_node t = next_node u" "events t = events u" "parent t = (parent u)(m := None)" "in_sess t = in_sess u"
    "sess t = sess u" "mats t = (mats u)(y := remove1 m (mats u y))" "subs t = subs u" "conts t = conts u" "ress t = ress u"
    by (simp_all add: t_def)
  have acs: "acs t = acs (report_ni (watchers u m) m True u)" by (simp add: t_def)
  have "site_but L D t"
  proof (rule detach_ok [OF u(2), of m])
    show "\<not> above u m" by (rule u(4))
    show "in_sess u m = None" by (rule in_sess_kind [OF parts(1)]) (use m(1) k in auto)
    show "same_grants u t" by (simp add: same_grants_def acs)
    show "(z \<in> set (ac_nonInh (acs t y))) = (z \<noteq> m \<and> z \<in> set (ac_nonInh (acs u y)))" for z y
      unfolding acs by (rule report_deleted [OF parts(3)])
    have "kind u m \<noteq> KRes" "kind u m \<noteq> KSub" "kind u m \<noteq> KContrib" "kind u m \<noteq> KSession" "kind u m \<noteq> KEvent"
      using m(1) k by auto
    then show "lists_but L t"
      unfolding lists_but_def t using lists_butD [OF parts(2)] pu by (auto simp: distinct_remove1)
  qed (use m(1) k in auto)
  moreover have "frame 2 s t"
    by (rule frame_trans [OF frame_mono [OF u(3)] frame_detach [of t u m 2]]) (use rk k in simp_all)
  ultimately show ?thesis using run by simp
qed

lemma set_of_kinds: "m \<in> set (of_kinds s y ks) \<longleftrightarrow> m \<in> set (mats s y) \<and> (\<exists>k \<in> set ks. kind s m = KMat k)"
  by (auto simp: of_kinds_def)

text \<open>Removing the materials of some kinds, and the loop over those of the list.\<close>

lemma remove_materials_ok:
  assumes ok: "site_but L D s"
  shows "\<exists>t. remove_materials ks y s = (Inr (), t) \<and> site_but L D t \<and> frame 2 s t \<and>
     (\<forall>z k. kind t z = KMat k \<and> k \<in> set ks \<longrightarrow> parent t z \<noteq> Some y)"
proof -
  note lists = lists_butD(1) [OF site_butD(2) [OF ok]]
  let ?ms = "of_kinds s y ks"
  have "\<exists>t. for_each ?ms (removeMaterial y) s = (Inr (), t) \<and> site_but L D t \<and> frame 2 s t \<and> (\<forall>m \<in> set ?ms. parent t m = None)"
  proof (rule for_each_detach [where I = "site_but L D" and Q = "\<lambda>r t. parent t r = None"])
    fix m t assume m: "m \<in> set ?ms" and t: "site_but L D t" "frame 2 s t"
    then have m: "m \<in> set (mats s y)" by (simp add: set_of_kinds)
    have "is_mat (kind t m)" using m lists frameD(1) [OF t(2)] by simp
    moreover have "parent t m = Some y \<or> parent t m = None" by (rule frame_parent_cases [OF t(2)]) (use m lists in simp)
    ultimately show "\<exists>v. removeMaterial y m t = (Inr (), v) \<and> site_but L D v \<and> frame 2 t v \<and> parent v m = None"
      by (rule removeMaterial_ok [OF t(1)])
  qed (erule frame_gone, assumption, rule ok)
  then obtain t where t: "for_each ?ms (removeMaterial y) s = (Inr (), t)" "site_but L D t" "frame 2 s t"
    "\<forall>m \<in> set ?ms. parent t m = None" by blast
  have "parent t z \<noteq> Some y" if k: "kind t z = KMat k" "k \<in> set ks" for z k
  proof
    assume z: "parent t z = Some y"
    have "kind s z = KMat k" using frameD(1) [OF t(3)] k(1) by simp
    moreover from this have "z \<in> set (mats s y)" using frameD(2) [OF t(3) z] lists by simp
    ultimately have "z \<in> set ?ms" using k(2) by (auto simp: set_of_kinds)
    with t(4) z show False by simp
  qed
  then show ?thesis using t by (auto simp: remove_materials_def)
qed

lemma empty_materials_ok:
  assumes ok: "site_but L D s"
  shows "\<exists>t. empty_list (\<lambda>s. of_kinds s y ks) (removeMaterial y) s = (Inr (), t) \<and> site_but L D t \<and> frame 2 s t \<and> of_kinds t y ks = []"
proof (rule empty_list_ends [where I = "site_but L D", OF _ ok])
  fix t m ms assume t: "site_but L D t" "of_kinds t y ks = m # ms"
  note lists = lists_butD(1) [OF site_butD(2) [OF t(1)]]
  have "m \<in> set (of_kinds t y ks)" using t(2) by simp
  then have "is_mat (kind t m)" "parent t m = Some y" using lists by (simp_all add: set_of_kinds)
  then obtain v where v: "removeMaterial y m t = (Inr (), v)" "site_but L D v" "frame 2 t v" "parent v m = None"
    using removeMaterial_ok [OF t(1)] by blast
  have "z \<in> set (of_kinds t y ks) - {m}" if z: "z \<in> set (of_kinds v y ks)" for z
  proof -
    have p: "parent v z = Some y" using z lists_butD(1) [OF site_butD(2) [OF v(2)]] by (simp add: set_of_kinds)
    have "z \<in> set (of_kinds t y ks)"
      using z frameD(1) [OF v(3)] frameD(2) [OF v(3) p] lists by (auto simp: set_of_kinds)
    with p v(4) show ?thesis by auto
  qed
  with v(1-3) show "\<exists>v. removeMaterial y m t = (Inr (), v) \<and> site_but L D v \<and> frame 2 t v \<and>
      set (of_kinds v y ks) \<subseteq> set (of_kinds t y ks) - {m}" by blast
qed

text \<open>An object without materials of the kinds it can have has none.\<close>

lemma no_materials:
  assumes "pointers_ok s" "\<forall>z k. kind s z = KMat k \<and> k \<in> set ks \<longrightarrow> parent s z \<noteq> Some y"
    "\<And>k. may_hold (kind s y) k \<Longrightarrow> k \<in> set ks" "is_mat (kind s z)"
  shows "parent s z \<noteq> Some y"
proof
  assume z: "parent s z = Some y"
  obtain k where k: "kind s z = KMat k" using assms(4) by (cases "kind s z") auto
  then have "may_hold (kind s y) k" using pointers_okD(1) [OF assms(1) z] by simp
  then show False using assms(2,3) k z by blast
qed

section \<open>Subcontributions\<close>

lemma removeSubContribution_ok:
  assumes ok: "site_but L D s" and z: "kind s z = KSub" "parent s z = Some c \<or> parent s z = None"
  shows "\<exists>t. removeSubContribution c z s = (Inr (), t) \<and> site_but L D t \<and> frame 3 s t \<and> parent t z = None"
proof (cases "parent s z")
  case None
  then show ?thesis using ok lists_butD(3) [OF site_butD(2) [OF ok], of z c] by (auto simp: removeSubContribution_def)
next
  case (Some p)
  have p: "parent s z = Some c" using z(2) Some by simp
  have mem: "z \<in> set (subs s c)" using lists_butD(3) [OF site_butD(2) [OF ok]] p z(1) by simp
  let ?ks = "[Plain, MPaper, MSlides, MVideo, MPoster, MMinutes]"
  obtain u where u: "remove_materials ?ks z s = (Inr (), u)" "site_but L D u" "frame 2 s u"
    "\<forall>x k. kind u x = KMat k \<and> k \<in> set ?ks \<longrightarrow> parent u x \<noteq> Some z"
    using remove_materials_ok [OF ok] by blast
  note parts = site_butD [OF u(2)]
  have k: "kind u = kind s" by (rule frameD(1) [OF u(3)])
  have "k \<in> set ?ks" if "may_hold (kind u z) k" for k using that z(1) unfolding frameD(1) [OF u(3)] by (cases k) simp_all
  note gone = no_materials [OF parts(1) u(4) this]
  have pu: "parent u z = Some c" using frameD(4) [OF u(3), of z] p z(1) by simp
  define t where "t = u\<lparr>parent := (parent u)(z := None), subs := (subs u)(c := remove1 z (subs u c))\<rparr>"
  have run: "removeSubContribution c z s = (Inr (), t)"
    using mem u(1) by (simp add: removeSubContribution_def t_def)
  have t [simp]: "kind t = kind u" "next_node t = next_node u" "events t = events u" "parent t = (parent u)(z := None)" "in_sess t = in_sess u"
    "sess t = sess u" "mats t = mats u" "subs t = (subs u)(c := remove1 z (subs u c))" "conts t = conts u" "ress t = ress u" "acs t = acs u"
    by (simp_all add: t_def)
  have "site_but L D t"
  proof (rule detach_ok [OF u(2), of z])
    have "parent u x \<noteq> Some z" for x
      using pointers_okD(1) [OF parts(1), of x z] gone [of x] z(1) k by (cases "kind u x") auto
    moreover have "in_sess u x \<noteq> Some z" for x using pointers_okD(7) [OF parts(1), of x z] z(1) k by auto
    ultimately show "\<not> above u z" by (simp add: above_def)
    show "in_sess u z = None" by (rule in_sess_kind [OF parts(1)]) (use z(1) k in auto)
    show "same_grants u t" by (simp add: same_grants_def)
    show "(x \<in> set (ac_nonInh (acs t y))) = (x \<noteq> z \<and> x \<in> set (ac_nonInh (acs u y)))" for x y
      using sets_butD [OF parts(3), of z y] watchers_sub [of u z] z(1) k by auto
    show "lists_but L t"
      unfolding lists_but_def t using lists_butD [OF parts(2)] pu z(1) k by (auto simp: distinct_remove1)
  qed (use z(1) k in auto)
  moreover have "frame 3 s t"
    by (rule frame_trans [OF frame_mono [OF u(3)] frame_detach [of t u z 3]]) (use z(1) k in simp_all)
  ultimately show ?thesis using run by simp
qed

end
