(* ===== verification/AC_Moves.thy ===== *)
theory AC_Moves
  imports AC_Delete
begin

text \<open>
  Contributions move between sessions: the session learns of the contribution and of everything in it, or forgets it.
\<close>

section \<open>Many reports\<close>

fun report_all :: "nat list \<Rightarrow> nat list \<Rightarrow> bool \<Rightarrow> site \<Rightarrow> site" where
  "report_all W [] d s = s"
| "report_all W (e # es) d s = report_all W es d (report_ni W e d s)"

lemma report_all_fields [simp]:
  "kind (report_all W es d s) = kind s" "parent (report_all W es d s) = parent s" "in_sess (report_all W es d s) = in_sess s"
  "mats (report_all W es d s) = mats s" "ress (report_all W es d s) = ress s" "subs (report_all W es d s) = subs s"
  "conts (report_all W es d s) = conts s" "sess (report_all W es d s) = sess s" "events (report_all W es d s) = events s"
  "next_node (report_all W es d s) = next_node s" "level (report_all W es d s) x = level s x"
  by (induction es arbitrary: s) simp_all

lemma same_grants_all [simp]: "same_grants s (report_all W es d s)"
proof (induction es arbitrary: s)
  case (Cons e es)
  show ?case using Cons.IH [of "report_ni W e d s"] same_grants_report [of s W e d]
    by (simp add: same_grants_def)
qed (simp add: same_grants_def)

lemma report_all_set:
  "x \<in> set (ac_nonInh (acs (report_all W es d s) y)) \<longleftrightarrow>
     (if y \<in> set W \<and> x \<in> set es then \<not> d \<and> level s x \<noteq> 0 else x \<in> set (ac_nonInh (acs s y)))"
  by (induction es arbitrary: s) (auto simp: report_ni_set)

lemma report_all_run:
  "for_each es (\<lambda>e. session_update i e d False) s = (Inr (), report_all [i] es d s)"
  "parent s i = Some e1 \<Longrightarrow> for_each es (\<lambda>e. session_update i e d True) s = (Inr (), report_all [i, e1] es d s)"
proof -
  have "session_update i e d False s = (Inr (), report_ni [i] e d s)" for e s
    by (simp add: session_update_def ctl_update_run)
  then show "for_each es (\<lambda>e. session_update i e d False) s = (Inr (), report_all [i] es d s)"
    by (induction es arbitrary: s) simp_all
  show "for_each es (\<lambda>e. session_update i e d True) s = (Inr (), report_all [i, e1] es d s)" if "parent s i = Some e1"
    using that by (induction es arbitrary: s) (simp_all add: session_update_run)
qed

section \<open>Leaving a session\<close>

lemma leave_session:
  assumes ok: "site_but L D s" and c: "in_sess s c = Some i"
  shows "\<exists>t. session_removeContribution i c s = (Inr (), t) \<and> site_but L D t \<and> frame 4 s t \<and>
     in_sess t = (in_sess s)(c := None) \<and> parent t = parent s"
proof -
  note parts = site_butD [OF ok]
  note ptr = pointers_okD(6-9) [OF parts(1) c]
  have ci: "c \<noteq> i" using ptr(1,2) by auto
  have not_child: "parent s c \<noteq> Some i" using pointers_okD(1) [OF parts(1), of c i] ptr(1,2) by auto
  have mem: "c \<in> set (conts s i)" using lists_butD(4) [OF parts(2)] c by simp
  define s1 where "s1 = s\<lparr>conts := (conts s)(i := remove1 c (conts s i))\<rparr>"
  define s2 where "s2 = report_all [i] (ac_nonInh (acs s c)) True (report_ni [i] c True s1)"
  define t where "t = s2\<lparr>in_sess := (in_sess s)(c := None)\<rparr>"
  have own: "ac_nonInh (acs (report_ni [i] c True s1) c) = ac_nonInh (acs s c)"
    using ci by (simp add: report_ni_def s1_def)
  have first: "session_update i c True False s1 = (Inr (), report_ni [i] c True s1)"
    by (simp add: session_update_def ctl_update_run)
  have run: "session_removeContribution i c s = (Inr (), t)"
    using c mem first own by (simp add: session_removeContribution_def has_contribution_def s1_def [symmetric] report_all_run s2_def [symmetric] t_def)
      (simp add: s2_def s1_def)
  have t [simp]: "kind t = kind s" "next_node t = next_node s" "events t = events s" "parent t = parent s" "in_sess t = (in_sess s)(c := None)"
    "sess t = sess s" "mats t = mats s" "subs t = subs s" "ress t = ress s" "conts t = (conts s)(i := remove1 c (conts s i))"
    by (simp_all add: t_def s2_def s1_def)
  have "same_grants (report_ni [i] c True s1) s2" unfolding s2_def by (rule same_grants_all)
  then have sg: "same_grants s t" by (simp add: same_grants_def t_def s1_def)
  have ni: "x \<in> set (ac_nonInh (acs t y)) \<longleftrightarrow> \<not> (y = i \<and> (x = c \<or> x \<in> set (ac_nonInh (acs s c)))) \<and> x \<in> set (ac_nonInh (acs s y))" for x y
    by (auto simp: t_def s2_def report_all_set report_ni_set s1_def)
  have w: "watchers t x = watchers (s\<lparr>in_sess := (in_sess s)(c := None)\<rparr>) x" for x
    by (rule watch_cong(5)) simp_all
  note join = watchers_join [OF parts(1) c refl, folded w]
  have iff: "x \<in> set (ac_nonInh (acs s y)) \<longleftrightarrow> x \<notin> D \<and> ac_level (acs s x) \<noteq> 0 \<and> y \<in> set (watchers s x)" for x y
    using parts(3) unfolding sets_but_iff by blast
  have "sets_but D t"
    unfolding sets_but_iff same_grantsD(1) [OF sg]
  proof (intro allI)
    fix x y
    show "(x \<in> set (ac_nonInh (acs t y))) = (x \<notin> D \<and> ac_level (acs s x) \<noteq> 0 \<and> y \<in> set (watchers t x))"
    proof (cases "x = c")
      case True
      then show ?thesis unfolding ni iff using join(2-4) by auto
    next
      case False
      from join(1) [OF this] show ?thesis unfolding ni iff joined_def using False ci by (auto split: if_splits)
    qed
  qed
  moreover have "pointers_ok t" using parts(1) by (simp add: pointers_ok_def)
  moreover have "lists_but L t"
    unfolding lists_but_def t using lists_butD [OF parts(2)] c not_child ptr(1) by (auto simp: distinct_remove1)
  moreover have "grants_ok t" using same_grantsD(2) [OF sg] parts(4) by simp
  ultimately have "site_but L D t" by (intro site_butI)
  moreover have "frame 4 s t" by (rule frameI) (use ptr(1) in \<open>auto split: if_splits\<close>)
  ultimately show ?thesis using run by simp
qed

section \<open>Joining a session\<close>

text \<open>Whoever watches something in a contribution is watched from wherever the contribution is watched.\<close>

lemma watch_contrib_within:
  assumes ok: "pointers_ok s" and c: "kind s c = KContrib" "c \<in> set (watchers s x)"
  shows "set (watch_contrib s c) \<subseteq> set (watchers s x)"
proof -
  have notup: "c \<notin> set (watch_up s o1)" for o1 using watch_up_kind [OF ok, of c o1] c(1) by auto
  have con: "c \<in> set (watch_contrib s y) \<Longrightarrow> y = c" for y using notup by (simp add: watch_contrib_def)
  have low: "set (watch_contrib s c) \<subseteq> set (watch_low s o1)" if o: "c \<in> set (watch_low s o1)" for o1
  proof (cases o1)
    case (Some y)
    with o con notup show ?thesis
      by (cases "kind s y"; cases "parent s y") (auto simp: watch_low_def)
  qed (use o in \<open>simp add: watch_low_def\<close>)
  have mat: "set (watch_contrib s c) \<subseteq> set (watch_mat s m)" if "c \<in> set (watch_mat s m)" "kind s m \<noteq> KContrib" for m
    using that low c(1) by (cases "parent s m") (auto simp: watch_mat_def split: if_splits)
  show ?thesis
  proof (cases "kind s x = KRes")
    case True
    obtain m where m: "parent s x = Some m" using c(2) True by (cases "parent s x") (auto simp: watchers_def)
    from pointers_okD(1) [OF ok m] True have "kind s m \<noteq> KContrib" by auto
    from mat [OF _ this] c(2) True m show ?thesis by (auto simp: watchers_def split: if_splits)
  next
    case False
    then have "watchers s x = watch_up s (parent s x) \<or> watchers s x = watch_up s (owner s x) \<or>
        watchers s x = watch_low s (parent s x) \<or> watchers s x = []"
      by (cases "kind s x") (simp_all add: watchers_def)
    with c(2) notup have "watchers s x = watch_low s (parent s x)" by auto
    then show ?thesis using c(2) low by simp
  qed
qed

lemma join_session:
  assumes ok: "site_but L D s" and c: "kind s c = KContrib" "in_sess s c = None" "c \<notin> D" and j: "kind s j = KSession" "parent s j = parent s c" "parent s c \<noteq> None"
  shows "\<exists>t. session_addContribution j c (s\<lparr>in_sess := (in_sess s)(c := Some j)\<rparr>) = (Inr (), t) \<and> site_but L D t"
proof -
  note parts = site_butD [OF ok]
  obtain e where e: "parent s c = Some e" "parent s j = Some e" using j by auto
  have ke: "kind s e = KEvent" using pointers_okD(1) [OF parts(1) e(1)] c(1) by simp
  have [simp]: "c \<noteq> j" "j \<noteq> e" "c \<noteq> e" "j \<noteq> c" "e \<noteq> j" "e \<noteq> c" using c(1) j(1) ke by auto
  have out: "c \<notin> set (conts s j)" using lists_butD(4) [OF parts(2)] c(2) e j by auto
  define s1 where "s1 = s\<lparr>in_sess := (in_sess s)(c := Some j), conts := (conts s)(j := conts s j @ [c])\<rparr>"
  define t where "t = report_all [j, e] (ac_nonInh (acs s c)) False (report_ni [j, e] c False s1)"
  have first: "session_update j c False True s1 = (Inr (), report_ni [j, e] c False s1)"
    by (rule session_update_run(1)) (simp add: s1_def e)
  have own: "ac_nonInh (acs (report_ni [j, e] c False s1) c) = ac_nonInh (acs s c)"
    by (simp add: report_ni_def s1_def)
  have p1: "parent (report_ni [j, e] c False s1) j = Some e" by (simp add: s1_def e)
  have "s\<lparr>in_sess := (in_sess s)(c := Some j), conts := (conts s)(j := conts s j @ [c])\<rparr> = s1" by (simp add: s1_def)
  then have run: "session_addContribution j c (s\<lparr>in_sess := (in_sess s)(c := Some j)\<rparr>) = (Inr (), t)"
    using out first own report_all_run(2) [OF p1] by (simp add: session_addContribution_def has_contribution_def t_def)
  have t [simp]: "kind t = kind s" "next_node t = next_node s" "events t = events s" "parent t = parent s" "in_sess t = (in_sess s)(c := Some j)"
    "sess t = sess s" "mats t = mats s" "subs t = subs s" "ress t = ress s" "conts t = (conts s)(j := conts s j @ [c])"
    by (simp_all add: t_def s1_def)
  have "same_grants (report_ni [j, e] c False s1) t" unfolding t_def by (rule same_grants_all)
  then have sg: "same_grants s t" by (simp add: same_grants_def s1_def)
  have po: "pointers_ok t"
    using parts(1) c(1) j unfolding pointers_ok_def t by simp
  have "in_sess t c = Some j" by simp
  note join0 = watchers_join [OF po this refl]
  have w: "watchers (t\<lparr>in_sess := (in_sess t)(c := None)\<rparr>) x = watchers s x" for x
    by (rule watch_cong(5)) (use c(2) in auto)
  note join = join0 [unfolded w]
  have iff: "x \<in> set (ac_nonInh (acs s y)) \<longleftrightarrow> x \<notin> D \<and> level s x \<noteq> 0 \<and> y \<in> set (watchers s x)" for x y
    by (rule sets_butD [OF parts(3)])
  have lv: "level s1 x = level s x" for x by (rule level_cong) (simp_all add: s1_def)
  have ni: "x \<in> set (ac_nonInh (acs t y)) \<longleftrightarrow> (if y \<in> {j, e} \<and> (x = c \<or> x \<in> set (ac_nonInh (acs s c))) then level s x \<noteq> 0 else x \<in> set (ac_nonInh (acs s y)))" for x y
    by (auto simp: t_def report_all_set report_ni_set lv) (simp_all add: s1_def)
  have lt: "level t x = level s x" for x by (rule level_cong) (use same_grantsD(1) [OF sg] in simp_all)
  have we: "e \<in> set (watchers s x)" if "c \<in> set (watchers s x) \<or> x = c" for x
    using that watch_contrib_within [OF parts(1), of c x] c(1,2) e(1) ke
    by (auto simp: watchers_def owner_def watch_up_def watch_contrib_def)
  have "sets_but D t"
    unfolding sets_but_def lt
  proof (intro allI)
    fix x y
    show "(x \<in> set (ac_nonInh (acs t y))) = (x \<notin> D \<and> level s x \<noteq> 0 \<and> y \<in> set (watchers t x))"
    proof (cases "x = c")
      case True
      then show ?thesis unfolding ni iff using join(2-4) c(3) we by auto
    next
      case False
      from join(1) [OF this] show ?thesis unfolding ni iff joined_def using False we by (auto split: if_splits)
    qed
  qed
  moreover have "lists_but L t"
    unfolding lists_but_def t using lists_butD [OF parts(2)] c(2) e out j(1) by (auto simp: distinct_remove1)
  moreover have "grants_ok t" using same_grantsD(2) [OF sg] parts(4) by simp
  ultimately have "site_but L D t" using po by (intro site_butI)
  then show ?thesis using run by simp
qed

lemma setSession_None:
  assumes ok: "site_but L D s"
  shows "\<exists>t. setSession c None s = (Inr (), t) \<and> site_but L D t \<and> frame 4 s t \<and> in_sess t c = None \<and> parent t = parent s"
proof (cases "in_sess s c")
  case None
  then show ?thesis using ok by (simp add: setSession_def)
next
  case (Some i)
  obtain t where t: "session_removeContribution i c s = (Inr (), t)" "site_but L D t" "frame 4 s t"
    "in_sess t = (in_sess s)(c := None)" "parent t = parent s" using leave_session [OF ok Some] by blast
  have "(in_sess t)(c := None) = in_sess t" using t(4) by simp
  then have "t\<lparr>in_sess := (in_sess t)(c := None)\<rparr> = t" by simp
  with t(1) Some have "setSession c None s = (Inr (), t)" by (simp add: setSession_def del: fun_upd_apply)
  then show ?thesis using t by simp
qed

lemma setSession_Some:
  assumes ok: "site_but L D s" and c: "kind s c = KContrib" "c \<notin> D" and j: "kind s j = KSession" "parent s j = parent s c" "parent s c \<noteq> None"
  shows "\<exists>t. setSession c (Some j) s = (Inr (), t) \<and> site_but L D t"
proof (cases "in_sess s c")
  case None
  then show ?thesis using join_session [OF ok c(1) None c(2) j] by (auto simp: setSession_def)
next
  case (Some i)
  obtain t where t: "session_removeContribution i c s = (Inr (), t)" "site_but L D t" "frame 4 s t"
    "in_sess t = (in_sess s)(c := None)" "parent t = parent s" using leave_session [OF ok Some] by blast
  have k: "kind t = kind s" by (rule frameD(1) [OF t(3)])
  obtain v where "session_addContribution j c (t\<lparr>in_sess := (in_sess t)(c := Some j)\<rparr>) = (Inr (), v)" "site_but L D v"
    using join_session [OF t(2), of c j] c j k t(4,5) by auto
  then show ?thesis using t Some ok by (cases "i = j") (auto simp: setSession_def)
qed

section \<open>Deleting contributions\<close>

lemma frame_report [simp]: "frame n s (report_ni W e d s)"
  by (rule frameI) (simp_all add: report_ni_def)

lemma report_deleted_ok:
  assumes "site_but L D s"
  shows "site_but L (insert x D) (report_ni (watchers s x) x True s)"
proof (rule site_butI)
  note parts = site_butD [OF assms]
  show "pointers_ok (report_ni (watchers s x) x True s)" using parts(1) by (simp add: pointers_ok_def)
  show "lists_but L (report_ni (watchers s x) x True s)" using parts(2) by (simp add: lists_but_def)
  show "sets_but (insert x D) (report_ni (watchers s x) x True s)" by (rule sets_but_insert [OF parts(3)])
  show "grants_ok (report_ni (watchers s x) x True s)" using parts(4) by (simp add: grants_ok_def)
qed

lemma remove_subs:
  assumes ok: "site_but L D s"
  shows "\<exists>t. empty_list (\<lambda>t. subs t c) (removeSubContribution c) s = (Inr (), t) \<and> site_but L D t \<and> frame 3 s t \<and>
     (\<forall>z. kind t z = KSub \<longrightarrow> parent t z \<noteq> Some c)"
proof -
  have "\<exists>t. empty_list (\<lambda>t. subs t c) (removeSubContribution c) s = (Inr (), t) \<and> site_but L D t \<and> frame 3 s t \<and> subs t c = []"
  proof (rule empty_list_ends [where I = "site_but L D", OF _ ok])
    fix t z zs assume t: "site_but L D t" "subs t c = z # zs"
    note lists = lists_butD(3) [OF site_butD(2) [OF t(1)]]
    have "z \<in> set (subs t c)" using t(2) by simp
    then have "kind t z = KSub" "parent t z = Some c" using lists by simp_all
    then obtain v where v: "removeSubContribution c z t = (Inr (), v)" "site_but L D v" "frame 3 t v" "parent v z = None"
      using removeSubContribution_ok [OF t(1)] by blast
    have "x \<in> set (subs t c) - {z}" if x: "x \<in> set (subs v c)" for x
    proof -
      have p: "parent v x = Some c" "kind v x = KSub" using x lists_butD(3) [OF site_butD(2) [OF v(2)]] by simp_all
      then show ?thesis using frameD(1) [OF v(3)] frameD(2) [OF v(3) p(1)] lists v(4) by auto
    qed
    with v(1-3) show "\<exists>v. removeSubContribution c z t = (Inr (), v) \<and> site_but L D v \<and> frame 3 t v \<and> set (subs v c) \<subseteq> set (subs t c) - {z}"
      by blast
  qed
  then obtain t where t: "empty_list (\<lambda>t. subs t c) (removeSubContribution c) s = (Inr (), t)" "site_but L D t" "frame 3 s t" "subs t c = []" by blast
  have "parent t z \<noteq> Some c" if "kind t z = KSub" for z
    using lists_butD(3) [OF site_butD(2) [OF t(2)], of z c] t(4) that by simp
  then show ?thesis using t(1-3) by blast
qed

lemma contribution_delete_ok:
  assumes ok: "site_but L {} s" and c: "kind s c = KContrib"
  shows "\<exists>t. contribution_delete c s = (Inr (), t) \<and> site_but L {} t \<and> frame 4 s t \<and> parent t c = None"
proof (cases "parent s c")
  case None
  then show ?thesis using ok by (auto simp: contribution_delete_def)
next
  case (Some e)
  let ?ks = "[Plain, MPaper, MSlides, MVideo, MPoster, MMinutes, MReviewing]"
  obtain u1 where u1: "remove_materials ?ks c s = (Inr (), u1)" "site_but L {} u1" "frame 2 s u1"
    "\<forall>z k. kind u1 z = KMat k \<and> k \<in> set ?ks \<longrightarrow> parent u1 z \<noteq> Some c"
    using remove_materials_ok [OF ok] by blast
  have k1: "kind u1 = kind s" by (rule frameD(1) [OF u1(3)])
  have "k \<in> set ?ks" for k by (cases k) simp_all
  note gone = no_materials [OF site_butD(1) [OF u1(2)] u1(4) this]
  have p1: "parent u1 c = Some e" using frameD(4) [OF u1(3), of c] c Some by simp
  define u2 where "u2 = report_ni (watchers u1 c) c True u1"
  have ok2: "site_but L {c} u2" unfolding u2_def by (rule report_deleted_ok [OF u1(2)])
  have run2: "upper_update (owner u1 c) c True u1 = (Inr (), u2)"
    unfolding u2_def using notify_run(2) [OF site_butD(1) [OF u1(2)] p1] c k1 by simp
  obtain u3 where u3: "setSession c None u2 = (Inr (), u3)" "site_but L {c} u3" "frame 4 u2 u3" "in_sess u3 c = None" "parent u3 = parent u2"
    using setSession_None [OF ok2] by blast
  obtain u4 where u4: "empty_list (\<lambda>t. subs t c) (removeSubContribution c) u3 = (Inr (), u4)" "site_but L {c} u4" "frame 3 u3 u4"
    "\<forall>z. kind u4 z = KSub \<longrightarrow> parent u4 z \<noteq> Some c" using remove_subs [OF u3(2)] by blast
  define t where "t = u4\<lparr>conts := (conts u4)(e := remove1 c (conts u4 e)), parent := (parent u4)(c := None)\<rparr>"
  have run: "contribution_delete c s = (Inr (), t)"
    using Some u1(1) run2 u3(1) u4(1) by (simp add: contribution_delete_def t_def)
  have k4: "kind u4 = kind s" using frameD(1) [OF u4(3)] frameD(1) [OF u3(3)] k1 by (simp add: u2_def)
  have p4: "parent u4 c = Some e" using frameD(4) [OF u4(3), of c] frameD(1) [OF u3(3)] k1 c p1 u3(5) by (simp add: u2_def)
  have i4: "in_sess u4 c = None" using frameD(3) [OF u4(3), of c] u3(4) by (cases "in_sess u4 c") auto
  note parts = site_butD [OF u4(2)]
  have t [simp]: "kind t = kind u4" "next_node t = next_node u4" "events t = events u4" "parent t = (parent u4)(c := None)" "in_sess t = in_sess u4"
    "sess t = sess u4" "mats t = mats u4" "subs t = subs u4" "conts t = (conts u4)(e := remove1 c (conts u4 e))" "ress t = ress u4" "acs t = acs u4"
    by (simp_all add: t_def)
  have "site_but L {} t"
  proof (rule detach_ok [OF u4(2), of c])
    have "parent u4 x \<noteq> Some c" for x
    proof
      assume x: "parent u4 x = Some c"
      from pointers_okD(1) [OF parts(1) x] u4(4) x c k4 have "is_mat (kind s x)" by (cases "kind s x") auto
      moreover have "parent u1 x = Some c" using frameD(2) [OF u4(3) x] u3(5) by (simp add: u2_def)
      ultimately show False using gone k1 by simp
    qed
    moreover have "in_sess u4 x \<noteq> Some c" for x using pointers_okD(7) [OF parts(1), of x c] c k4 by auto
    ultimately show "\<not> above u4 c" by (simp add: above_def)
    show "same_grants u4 t" by (simp add: same_grants_def)
    show "(x \<in> set (ac_nonInh (acs t y))) = (x \<noteq> c \<and> x \<in> set (ac_nonInh (acs u4 y)))" for x y
      using sets_butD [OF parts(3), of c y] by auto
    show "lists_but L t"
      unfolding lists_but_def t using lists_butD [OF parts(2)] p4 i4 c k4 by (auto simp: distinct_remove1)
  qed (use c k4 i4 in auto)
  moreover have "frame 4 s t"
  proof -
    have "frame 4 s u2" unfolding u2_def by (rule frame_trans [OF frame_mono [OF u1(3)]]) simp_all
    from frame_trans [OF frame_trans [OF this u3(3)] frame_mono [OF u4(3)]] have "frame 4 s u4" by simp
    then show ?thesis by (rule frame_trans [OF _ frame_detach [of t u4 c 4]]) (use c k4 in simp_all)
  qed
  ultimately show ?thesis using run by simp
qed

section \<open>Deleting sessions\<close>

lemma session_members:
  assumes ok: "site_but L D s" and i: "kind s i = KSession"
  shows "c \<in> set (conts s i) \<longleftrightarrow> in_sess s c = Some i"
  using lists_butD(4) [OF site_butD(2) [OF ok], of c i] pointers_okD(1) [OF site_butD(1) [OF ok], of c i] i by auto

lemma leave_all:
  assumes ok: "site_but L D s" and i: "kind s i = KSession"
  shows "\<exists>t. empty_list (\<lambda>s. conts s i) (session_removeContribution i) s = (Inr (), t) \<and> site_but L D t \<and> frame 4 s t \<and> (\<forall>c. in_sess t c \<noteq> Some i)"
proof -
  have "\<exists>t. empty_list (\<lambda>s. conts s i) (session_removeContribution i) s = (Inr (), t) \<and> site_but L D t \<and> frame 4 s t \<and> conts t i = []"
  proof (rule empty_list_ends [where I = "site_but L D", OF _ ok])
    fix t c cs assume t: "site_but L D t" "frame 4 s t" "conts t i = c # cs"
    have it: "kind t i = KSession" using i frameD(1) [OF t(2)] by simp
    note members = session_members [OF t(1) it]
    have "in_sess t c = Some i" using members [of c] t(3) by simp
    from leave_session [OF t(1) this] obtain v where v: "session_removeContribution i c t = (Inr (), v)" "site_but L D v" "frame 4 t v"
      "in_sess v c = None" by auto
    have iv: "kind v i = KSession" using it frameD(1) [OF v(3)] by simp
    have "x \<in> set (conts t i) - {c}" if "x \<in> set (conts v i)" for x
      using that session_members [OF v(2) iv, of x] members [of x] frameD(3) [OF v(3), of x i] v(4) by auto
    with v(1-3) show "\<exists>v. session_removeContribution i c t = (Inr (), v) \<and> site_but L D v \<and> frame 4 t v \<and> set (conts v i) \<subseteq> set (conts t i) - {c}"
      by blast
  qed
  then obtain t where t: "empty_list (\<lambda>s. conts s i) (session_removeContribution i) s = (Inr (), t)" "site_but L D t" "frame 4 s t" "conts t i = []" by blast
  have "kind t i = KSession" using i frameD(1) [OF t(3)] by simp
  then have "in_sess t c \<noteq> Some i" for c using session_members [OF t(2), of i c] t(4) by simp
  then show ?thesis using t(1-3) by blast
qed

lemma sess_delete_ok:
  assumes ok: "site_but {i} {} s" and i: "kind s i = KSession" "parent s i = Some e"
  shows "\<exists>t. sess_delete i s = (Inr (), t) \<and> site_ok t \<and> frame 5 s t \<and> parent t i = None"
proof -
  obtain u0 where u0: "empty_list (\<lambda>s. of_kinds s i [Plain]) (removeMaterial i) s = (Inr (), u0)" "site_but {i} {} u0" "frame 2 s u0"
    "of_kinds u0 i [Plain] = []" using empty_materials_ok [OF ok] by blast
  obtain u1 where u01: "remove_materials [MMinutes] i u0 = (Inr (), u1)" "site_but {i} {} u1" "frame 2 u0 u1"
    "\<forall>z k. kind u1 z = KMat k \<and> k \<in> set [MMinutes] \<longrightarrow> parent u1 z \<noteq> Some i"
    using remove_materials_ok [OF u0(2)] by blast
  have u1: "frame 2 s u1" by (rule frame_trans [OF u0(3) u01(3)])
  have k1: "kind u1 = kind s" by (rule frameD(1) [OF u1])
  have gone: "parent u1 z \<noteq> Some i" if "is_mat (kind u1 z)" for z
  proof (rule no_materials [OF site_butD(1) [OF u01(2)] _ _ that, of "[Plain, MMinutes]"])
    have "parent u1 z \<noteq> Some i" if z: "kind u1 z = KMat Plain" for z
    proof
      assume p: "parent u1 z = Some i"
      have "z \<in> set (mats u0 i)"
        using lists_butD(1) [OF site_butD(2) [OF u0(2)], of z i] frameD(1) [OF u01(3)] frameD(2) [OF u01(3) p] z by simp
      moreover have "kind u0 z = KMat Plain" using frameD(1) [OF u01(3)] z by simp
      ultimately have "z \<in> set (of_kinds u0 i [Plain])" by (simp add: set_of_kinds)
      with u0(4) show False by simp
    qed
    with u01(4) show "\<forall>z k. kind u1 z = KMat k \<and> k \<in> set [Plain, MMinutes] \<longrightarrow> parent u1 z \<noteq> Some i" by auto
    show "k \<in> set [Plain, MMinutes]" if "may_hold (kind u1 i) k" for k using that i(1) k1 by simp
  qed
  obtain u2 where u2: "empty_list (\<lambda>s. conts s i) (session_removeContribution i) u1 = (Inr (), u2)" "site_but {i} {} u2" "frame 4 u1 u2" "\<forall>c. in_sess u2 c \<noteq> Some i"
    using leave_all [OF u01(2)] i(1) k1 by auto
  have k2: "kind u2 = kind s" using frameD(1) [OF u2(3)] k1 by simp
  have p2: "parent u2 i = Some e" using frameD(4) [OF u2(3), of i] frameD(4) [OF u1, of i] k1 i by simp
  note parts = site_butD [OF u2(2)]
  define t where "t = (report_ni (watchers u2 i) i True u2)\<lparr>parent := (parent u2)(i := None)\<rparr>"
  have "upper_update (Some e) i True u2 = (Inr (), report_ni (watchers u2 i) i True u2)"
    using notify_run(1) [OF parts(1) p2] i(1) k2 p2 by simp
  then have run: "sess_delete i s = (Inr (), t)"
    using u0(1) u01(1) u2(1) p2 by (simp add: sess_delete_def t_def)
  have t [simp]: "kind t = kind u2" "next_node t = next_node u2" "events t = events u2" "parent t = (parent u2)(i := None)" "in_sess t = in_sess u2"
    "sess t = sess u2" "mats t = mats u2" "subs t = subs u2" "conts t = conts u2" "ress t = ress u2"
    by (simp_all add: t_def)
  have acs: "acs t = acs (report_ni (watchers u2 i) i True u2)" by (simp add: t_def)
  have "site_but {} {} t"
  proof (rule detach_ok [OF u2(2), of i])
    have "parent u2 x \<noteq> Some i" for x
    proof
      assume x: "parent u2 x = Some i"
      from pointers_okD(1) [OF parts(1) x] i(1) k2 have "is_mat (kind s x)" by (cases "kind s x") auto
      then show False using gone k1 frameD(2) [OF u2(3) x] by simp
    qed
    with u2(4) show "\<not> above u2 i" by (simp add: above_def)
    show "in_sess u2 i = None" by (rule in_sess_kind [OF parts(1)]) (simp add: i(1) k2)
    show "same_grants u2 t" by (simp add: same_grants_def acs)
    show "(x \<in> set (ac_nonInh (acs t y))) = (x \<noteq> i \<and> x \<in> set (ac_nonInh (acs u2 y)))" for x y
      unfolding acs by (rule report_deleted [OF parts(3)])
    show "lists_but {} t"
      unfolding lists_but_def t using lists_butD [OF parts(2)] i(1) k2 by auto
  qed (use i(1) k2 in auto)
  moreover have "frame 5 s t"
    by (rule frame_trans [OF frame_trans [OF frame_mono [OF u1] frame_mono [OF u2(3)]] frame_detach [of t u2 i 5]]) (use i(1) k2 in simp_all)
  ultimately show ?thesis using run by simp
qed

lemma removeSession_ok:
  assumes ok: "site_ok s"
  shows "\<exists>t. removeSession e i d s = (Inr (), t) \<and> site_ok t \<and> kind t = kind s \<and> (i \<in> set (sess s e) \<longrightarrow> parent t i = None)"
proof (cases "i \<in> set (sess s e)")
  case False
  then show ?thesis using ok by (simp add: removeSession_def)
next
  case True
  note lists = site_butD(2) [OF ok]
  have i: "parent s i = Some e" "kind s i = KSession" using lists_butD(5) [OF lists] True by simp_all
  have kc: "kind s c = KContrib" if "c \<in> set (conts s i)" for c
    using that lists_butD(4) [OF lists, of c i] pointers_okD(6) [OF site_butD(1) [OF ok]] by auto
  have "\<exists>u. when_do d (for_each (conts s i) contribution_delete) s = (Inr (), u) \<and> site_ok u \<and> frame 4 s u"
  proof (cases d)
    case True
    have "\<exists>t. for_each (conts s i) contribution_delete s = (Inr (), t) \<and> site_ok t \<and> frame 4 s t \<and> (\<forall>c \<in> set (conts s i). parent t c = None)"
    proof (rule for_each_detach [where I = site_ok and Q = "\<lambda>c t. parent t c = None"])
      fix c t assume c: "c \<in> set (conts s i)" and t: "site_ok t" "frame 4 s t"
      have "kind t c = KContrib" using kc [OF c] frameD(1) [OF t(2)] by simp
      then show "\<exists>v. contribution_delete c t = (Inr (), v) \<and> site_ok v \<and> frame 4 t v \<and> parent v c = None" by (rule contribution_delete_ok [OF t(1)])
    qed (erule frame_gone, assumption, rule ok)
    then show ?thesis using True by auto
  qed (use ok in simp)
  then obtain u where u: "when_do d (for_each (conts s i) contribution_delete) s = (Inr (), u)" "site_ok u" "frame 4 s u" by blast
  have iu: "parent u i = Some e" "kind u i = KSession" "kind u = kind s" "sess u = sess s"
    using frameD(1,6) [OF u(3)] frameD(4) [OF u(3), of i] i by simp_all
  note parts = site_butD [OF u(2)]
  define v where "v = u\<lparr>sess := (sess u)(e := remove1 i (sess u e))\<rparr>"
  have v [simp]: "kind v = kind u" "next_node v = next_node u" "events v = events u" "parent v = parent u" "in_sess v = in_sess u"
    "sess v = (sess u)(e := remove1 i (sess u e))" "mats v = mats u" "subs v = subs u" "conts v = conts u" "ress v = ress u" "acs v = acs u"
    by (simp_all add: v_def)
  have w: "watchers v x = watchers u x" for x by (rule watch_cong(5)) simp_all
  have "site_but {i} {} v"
  proof (rule site_butI)
    show "pointers_ok v" using parts(1) by (simp add: pointers_ok_def)
    show "lists_but {i} v" unfolding lists_but_def v using lists_butD [OF parts(2)] iu by (auto simp: distinct_remove1)
    show "sets_but {} v" using parts(3) unfolding sets_but_iff w by simp
    show "grants_ok v" using parts(4) by (simp add: grants_ok_def)
  qed
  then obtain t where t: "sess_delete i v = (Inr (), t)" "site_ok t" "frame 5 v t" "parent t i = None"
    using sess_delete_ok [of i v e] iu by auto
  have "removeSession e i d s = (Inr (), t)"
    using True i u(1) t(1) by (simp add: removeSession_def v_def)
  then show ?thesis using t frameD(1) [OF t(3)] iu(3) by simp
qed

end
