(* ===== verification/AC_Grow.thy ===== *)
theory AC_Grow
  imports AC_Moves
begin

text \<open>
  Levels, new objects, moved events and grants keep the invariant of the protected tree; so every reachable site has it.
\<close>

section \<open>Parts that do not matter\<close>

lemma site_ok_same:
  assumes same: "kind t = kind s" "parent t = parent s" "in_sess t = in_sess s" "mats t = mats s" "ress t = ress s" "subs t = subs s"
      "conts t = conts s" "sess t = sess s" "events t = events s" "next_node t = next_node s"
    and ac: "\<And>y. ac_level (acs t y) = ac_level (acs s y)" "\<And>y. ac_nonInh (acs t y) = ac_nonInh (acs s y)"
    and grants: "grants_ok t" and ok: "site_ok s"
  shows "site_ok t"
proof (rule site_butI)
  note parts = site_butD [OF ok]
  show "pointers_ok t" using parts(1) by (simp add: pointers_ok_def same)
  show "lists_but {} t" using parts(2) by (simp add: lists_but_def same)
  have w: "watchers t x = watchers s x" for x by (rule watch_cong(5)) (simp_all add: same)
  show "sets_but {} t" using parts(3) unfolding sets_but_iff w ac .
qed (rule grants)

section \<open>Levels\<close>

lemma level_change:
  assumes ok: "site_ok s" and x: "kind s x \<noteq> KSub" and p: "p \<in> {-1, 0, 1}"
  shows "site_ok (report_ni (watchers s x) x False (s\<lparr>acs := (acs s)(x := (acs s x)\<lparr>ac_level := p\<rparr>)\<rparr>))"
    (is "site_ok ?t")
proof (rule site_butI)
  note parts = site_butD [OF ok]
  let ?u = "s\<lparr>acs := (acs s)(x := (acs s x)\<lparr>ac_level := p\<rparr>)\<rparr>"
  show "pointers_ok ?t" using parts(1) by (simp add: pointers_ok_def)
  show "lists_but {} ?t" using parts(2) by (simp add: lists_but_def)
  show "grants_ok ?t" using parts(4) p by (auto simp: grants_ok_def)
  have w: "watchers ?t z = watchers s z" for z by (rule watch_cong(5)) simp_all
  have lx: "level ?u x = p" using x by (simp add: level_own)
  have iff: "x \<in> set (ac_nonInh (acs s y)) \<longleftrightarrow> ac_level (acs s x) \<noteq> 0 \<and> y \<in> set (watchers s x)" for x y
    using parts(3) unfolding sets_but_iff by simp
  show "sets_but {} ?t"
    unfolding sets_but_iff w report_ni_set lx using iff by auto
qed

lemma setProtection_ok:
  assumes ok: "site_ok s" and x: "kind s x \<noteq> KSub" "kind s x \<notin> {KCateg, KEvent} \<longrightarrow> parent s x \<noteq> None" and p: "p \<in> {-1, 0, 1}"
  shows "\<exists>t. setProtection x p s = (Inr (), t) \<and> site_ok t"
proof -
  define u where "u = s\<lparr>acs := (acs s)(x := (acs s x)\<lparr>ac_level := p\<rparr>)\<rparr>"
  have u [simp]: "kind u = kind s" "parent u = parent s" "in_sess u = in_sess s" "next_node u = next_node s" by (simp_all add: u_def)
  have first: "ctl_setProtection x p s = (Inr (), u)" by (simp add: ctl_setProtection_def upd_ac_def u_def)
  have po: "pointers_ok u" using site_butD(1) [OF ok] by (simp add: pointers_ok_def)
  have own: "owner u x = owner s x" and w: "watchers u x = watchers s x" by (rule owner_cong watch_cong(5); simp)+
  have "setProtection x p s = (Inr (), report_ni (watchers s x) x False u)"
  proof (cases "kind s x \<in> {KCateg, KEvent}")
    case True
    then have "watchers s x = []" by (auto simp: watchers_def)
    then show ?thesis using True first by (auto simp: setProtection_def cat_setProtection_def conf_setProtection_def)
  next
    case False
    then obtain q where "parent u x = Some q" using x(2) by auto
    note run = notify_run [OF po this, of False, unfolded w]
    show ?thesis using False x(1) first run own
      by (cases "kind s x") (simp_all add: setProtection_def sess_setProtection_def contrib_setProtection_def mat_setProtection_def res_setProtection_def)
  qed
  then show ?thesis using level_change [OF ok x(1) p] unfolding u_def by blast
qed

section \<open>New objects\<close>

lemma fresh:
  assumes "pointers_ok s" "x = next_node s"
  shows "parent s x = None" "in_sess s x = None" "\<not> above s x" "parent s z \<noteq> Some x" "in_sess s z \<noteq> Some x" "watchers s x = []"
proof -
  show p: "parent s x = None" using pointers_okD(2) [OF assms(1), of x] assms(2) by (cases "parent s x") auto
  show i: "in_sess s x = None" using pointers_okD(8) [OF assms(1), of x] p by (cases "in_sess s x") auto
  show np: "parent s z \<noteq> Some x" for z using pointers_okD(3) [OF assms(1), of z x] assms(2) by auto
  show ni: "in_sess s z \<noteq> Some x" for z using pointers_okD(8,9) [OF assms(1), of z x] p by auto
  show "\<not> above s x" using np ni by (simp add: above_def)
  show "watchers s x = []"
    using p i by (cases "kind s x") (simp_all add: watchers_def owner_def watch_up_def watch_low_def)
qed

lemma attach_ok:
  assumes ok: "site_ok s" and x: "x = next_node s"
    and t: "kind t = (kind s)(x := k)" "next_node t = Suc x" "parent t = (parent s)(x := p)" "in_sess t = in_sess s" "acs t = (acs s)(x := new_acl)"
    and p: "\<And>q. p = Some q \<Longrightarrow> q < x \<and> child_of k (kind s q) \<and> (kind s q \<notin> {KCateg, KEvent} \<longrightarrow> parent s q \<noteq> None)"
    and lists: "lists_but {} t"
  shows "site_ok t"
proof (rule site_butI)
  note parts = site_butD [OF ok]
  note fr = fresh [OF parts(1) x]
  have lt: "z \<noteq> x" if "parent s z = Some q \<or> in_sess s z = Some q" for z q using that fr(1,2) by auto
  show "pointers_ok t"
    unfolding pointers_ok_def t
  proof (intro conjI allI impI)
    fix z q assume z: "((parent s)(x := p)) z = Some q"
    have main: "child_of (((kind s)(x := k)) z) (((kind s)(x := k)) q) \<and> z < Suc x \<and> q < Suc x \<and> (((kind s)(x := k)) z = KCateg \<longrightarrow> q < z) \<and>
        (((kind s)(x := k)) q \<notin> {KCateg, KEvent} \<longrightarrow> ((parent s)(x := p)) q \<noteq> None)"
    proof (cases "z = x")
      case True
      then show ?thesis using z p by auto
    next
      case False
      then have zq: "parent s z = Some q" using z by simp
      then have "q \<noteq> x" using fr(4) by auto
      then show ?thesis using pointers_okD(1-5) [OF parts(1) zq] False x by auto
    qed
    then show "child_of (((kind s)(x := k)) z) (((kind s)(x := k)) q)" "z < Suc x" "q < Suc x" by simp_all
    show "q < z" if "((kind s)(x := k)) z = KCateg" using main that by simp
    show "((parent s)(x := p)) q \<noteq> None" if "((kind s)(x := k)) q \<notin> {KCateg, KEvent}" using main that by blast
  next
    fix c i assume c: "in_sess s c = Some i"
    then have "c \<noteq> x" "i \<noteq> x" using fr(2,5) by auto
    with pointers_okD(6-9) [OF parts(1) c] show "((kind s)(x := k)) c = KContrib" "((kind s)(x := k)) i = KSession"
      "((parent s)(x := p)) c \<noteq> None" "((parent s)(x := p)) i = ((parent s)(x := p)) c" by simp_all
  qed
  have w: "watchers t z = watchers s z" if "z \<noteq> x" for z
    by (rule watch_leaf [OF _ _ _ fr(3) that]) (simp_all add: t)
  have out: "x \<notin> set (watchers s z)" for z using watchers_above [of x s z] fr(3) by auto
  have iff: "x \<in> set (ac_nonInh (acs s y)) \<longleftrightarrow> ac_level (acs s x) \<noteq> 0 \<and> y \<in> set (watchers s x)" for x y
    using parts(3) unfolding sets_but_iff by simp
  show "sets_but {} t"
    unfolding sets_but_iff
  proof (intro allI)
    fix z y
    show "(z \<in> set (ac_nonInh (acs t y))) = (z \<notin> {} \<and> ac_level (acs t z) \<noteq> 0 \<and> y \<in> set (watchers t z))"
      using iff [of z y] w [of z] out [of z] fr(6) by (cases "z = x"; cases "y = x") (auto simp: t new_acl_def)
  qed
  show "grants_ok t" using parts(4) by (simp add: grants_ok_def t new_acl_def)
qed (rule lists)

definition with_node :: "nkind \<Rightarrow> nat option \<Rightarrow> site \<Rightarrow> site" where
  "with_node k p s = (let x = next_node s in s\<lparr>kind := (kind s)(x := k), parent := (parent s)(x := p), in_sess := (in_sess s)(x := None),
        acs := (acs s)(x := new_acl), mats := (mats s)(x := []), ress := (ress s)(x := []), subs := (subs s)(x := []),
        conts := (conts s)(x := []), sess := (sess s)(x := []), events := (events s)(x := []), subcats := (subcats s)(x := []),
        next_node := Suc x\<rparr>)"

lemma new_node_run: "new_node k p s = (Inr (next_node s), with_node k p s)"
  by (simp add: new_node_def with_node_def Let_def)

lemma no_members: "(\<And>m. m \<notin> set xs) \<Longrightarrow> xs = []"
  by (cases xs) auto

lemma with_node_fields:
  assumes ok: "site_ok s" and x: "x = next_node s"
  shows "kind (with_node k p s) = (kind s)(x := k)" "next_node (with_node k p s) = Suc x" "parent (with_node k p s) = (parent s)(x := p)"
    "in_sess (with_node k p s) = in_sess s" "acs (with_node k p s) = (acs s)(x := new_acl)" "mats (with_node k p s) = mats s"
    "ress (with_node k p s) = ress s" "subs (with_node k p s) = subs s" "conts (with_node k p s) = conts s" "sess (with_node k p s) = sess s"
    "events (with_node k p s) = events s"
proof -
  note fr = fresh [OF site_butD(1) [OF ok] x]
  note lists = lists_butD(1-6) [OF site_butD(2) [OF ok]]
  have none: "m \<notin> set (mats s x)" "m \<notin> set (ress s x)" "m \<notin> set (subs s x)" "m \<notin> set (conts s x)" "m \<notin> set (sess s x)" "m \<notin> set (events s x)" for m
    using fr(4,5) unfolding lists by auto
  have empty: "mats s x = []" "ress s x = []" "subs s x = []" "conts s x = []" "sess s x = []" "events s x = []"
    by (rule no_members; rule none)+
  show "kind (with_node k p s) = (kind s)(x := k)" "next_node (with_node k p s) = Suc x" "parent (with_node k p s) = (parent s)(x := p)"
    "in_sess (with_node k p s) = in_sess s" "acs (with_node k p s) = (acs s)(x := new_acl)" "mats (with_node k p s) = mats s"
    "ress (with_node k p s) = ress s" "subs (with_node k p s) = subs s" "conts (with_node k p s) = conts s" "sess (with_node k p s) = sess s"
    "events (with_node k p s) = events s"
    using x fr(2) empty by (auto simp: with_node_def Let_def fun_eq_iff)
qed

text \<open>A new object in a list of its parent.\<close>

lemma placed_lists:
  assumes "site_ok s" "x = next_node s"
  shows "x \<notin> set (mats s y)" "x \<notin> set (ress s y)" "x \<notin> set (subs s y)" "x \<notin> set (conts s y)" "x \<notin> set (sess s y)" "x \<notin> set (events s y)"
proof -
  note fr = fresh [OF site_butD(1) [OF assms(1)] assms(2)]
  show "x \<notin> set (mats s y)" "x \<notin> set (ress s y)" "x \<notin> set (subs s y)" "x \<notin> set (conts s y)" "x \<notin> set (sess s y)" "x \<notin> set (events s y)"
    using fr(1,2) unfolding lists_butD(1-6) [OF site_butD(2) [OF assms(1)]] by simp_all
qed

lemma grow_ok:
  assumes ok: "site_ok s" and x: "x = next_node s" and p: "p < x" "child_of k (kind s p)" "kind s p \<notin> {KCateg, KEvent} \<longrightarrow> parent s p \<noteq> None"
    and t: "kind t = (kind s)(x := k)" "next_node t = Suc x" "parent t = (parent s)(x := Some p)" "in_sess t = in_sess s" "acs t = (acs s)(x := new_acl)"
    and l: "mats t = (if is_mat k then (mats s)(p := mats s p @ [x]) else mats s)" "ress t = (if k = KRes then (ress s)(p := ress s p @ [x]) else ress s)"
      "subs t = (if k = KSub then (subs s)(p := subs s p @ [x]) else subs s)" "conts t = (if k = KContrib then (conts s)(p := conts s p @ [x]) else conts s)"
      "sess t = (if k = KSession then (sess s)(p := sess s p @ [x]) else sess s)" "events t = (if k = KEvent then (events s)(p := events s p @ [x]) else events s)"
  shows "site_ok t"
proof (rule attach_ok [OF ok x t])
  show "q < x \<and> child_of k (kind s q) \<and> (kind s q \<notin> {KCateg, KEvent} \<longrightarrow> parent s q \<noteq> None)" if "Some p = Some q" for q using p that by simp
  note parts = site_butD [OF ok]
  note fr = fresh [OF parts(1) x]
  note new = placed_lists [OF ok x]
  note lists = lists_butD [OF parts(2)]
  show "lists_but {} t"
    unfolding lists_but_def
  proof (intro conjI allI)
    fix y z
    have d: "distinct (mats s y)" "distinct (ress s y)" "distinct (subs s y)" "distinct (conts s y)" "distinct (sess s y)" "distinct (events s y)"
      by (rule lists)+
    show "(z \<in> set (mats t y)) = (parent t z = Some y \<and> is_mat (kind t z))" using new fr lists(1) [of z y] by (auto simp: t l)
    show "(z \<in> set (ress t y)) = (parent t z = Some y \<and> kind t z = KRes)" using new fr lists(2) [of z y] by (auto simp: t l)
    show "(z \<in> set (subs t y)) = (parent t z = Some y \<and> kind t z = KSub)" using new fr lists(3) [of z y] by (auto simp: t l)
    show "(z \<in> set (conts t y)) = (parent t z = Some y \<and> kind t z = KContrib \<or> in_sess t z = Some y)" using new fr lists(4) [of z y] by (auto simp: t l)
    show "(z \<in> set (sess t y)) = (parent t z = Some y \<and> kind t z = KSession \<and> z \<notin> {})" using new fr lists(5) [of z y] by (auto simp: t l)
    show "(z \<in> set (events t y)) = (parent t z = Some y \<and> kind t z = KEvent)" using new fr lists(6) [of z y] by (auto simp: t l)
    show "distinct (mats t y)" "distinct (ress t y)" "distinct (subs t y)" "distinct (conts t y)" "distinct (sess t y)" "distinct (events t y)"
      using d new by (auto simp: l)
  qed
qed

text \<open>\<open>ends_ok m s\<close>: if the program returns, it leaves a site of the invariant.\<close>

definition ends_ok :: "(site, 'a) prog \<Rightarrow> site \<Rightarrow> bool" where
  "ends_ok m s \<longleftrightarrow> (\<forall>x t. m s = (Inr x, t) \<longrightarrow> site_ok t)"

lemma ends_okI: "m s = (Inr x, t) \<Longrightarrow> site_ok t \<Longrightarrow> ends_ok m s"
  by (simp add: ends_ok_def)

lemma ends_ok_ex: "\<exists>t. m s = (Inr x, t) \<and> site_ok t \<Longrightarrow> ends_ok m s"
  by (auto simp: ends_ok_def)

lemma ends_ok_keeps: "keeps site_ok m \<Longrightarrow> site_ok s \<Longrightarrow> ends_ok m s"
  unfolding ends_ok_def by (intro allI impI) (erule keeps_run; assumption)

lemma add_newContribution_placed:
  assumes ok: "site_ok s" and e: "placed_as s (\<lambda>k. k = KEvent) e"
  defines "t \<equiv> (with_node KContrib (Some e) s)\<lparr>conts := (conts s)(e := conts s e @ [next_node s])\<rparr>"
  shows "site_ok t"
  by (rule grow_ok [OF ok refl, of e KContrib]) (use e in \<open>auto simp: t_def with_node_fields [OF ok refl] placed_as_def\<close>)

lemma new_session_ok:
  assumes ok: "site_ok s" and e: "placed_as s (\<lambda>k. k = KEvent) e"
  shows "ends_ok (new_session e) s"
proof (rule ends_okI)
  define t where "t = (with_node KSession (Some e) s)\<lparr>sess := (sess s)(e := sess s e @ [next_node s])\<rparr>"
  show "new_session e s = (Inr (), t)" by (simp add: new_session_def new_node_run t_def with_node_fields [OF ok refl])
  show "site_ok t"
    by (rule grow_ok [OF ok refl, of e KSession]) (use e in \<open>auto simp: t_def with_node_fields [OF ok refl] placed_as_def\<close>)
qed

lemma addSubContribution_ok:
  assumes ok: "site_ok s" and c: "placed_as s (\<lambda>k. k = KContrib) c"
  shows "ends_ok (addSubContribution c) s"
proof (rule ends_okI)
  define t where "t = (with_node KSub (Some c) s)\<lparr>subs := (subs s)(c := subs s c @ [next_node s])\<rparr>"
  show "addSubContribution c s = (Inr (), t)" by (simp add: addSubContribution_def new_node_run t_def with_node_fields [OF ok refl])
  show "site_ok t"
    by (rule grow_ok [OF ok refl, of c KSub]) (use c in \<open>auto simp: t_def with_node_fields [OF ok refl] placed_as_def\<close>)
qed

lemma addMaterial_ok:
  assumes ok: "site_ok s" and y: "placed_as s (\<lambda>c. may_hold c k) y"
  shows "ends_ok (addMaterial y k) s"
proof (cases "k \<noteq> Plain \<and> (\<exists>m \<in> set (mats s y). kind s m = KMat k)")
  case True
  then show ?thesis by (simp add: ends_ok_def addMaterial_def)
next
  case False
  define t where "t = (with_node (KMat k) (Some y) s)\<lparr>mats := (mats s)(y := mats s y @ [next_node s])\<rparr>"
  have run: "addMaterial y k s = (Inr (), t)"
    unfolding addMaterial_def bnd_get_st if_not_P [OF False] by (simp add: new_node_run t_def with_node_fields [OF ok refl])
  have "site_ok t"
    by (rule grow_ok [OF ok refl, of y "KMat k"])
      (use y may_hold_class [of "kind s y" k] in \<open>auto simp: t_def with_node_fields [OF ok refl] placed_as_def\<close>)
  with run show ?thesis by (rule ends_okI)
qed

lemma addResource_ok:
  assumes ok: "site_ok s" and m: "placed_as s is_mat m"
  shows "ends_ok (addResource m) s"
proof (rule ends_okI)
  define t where "t = (with_node KRes (Some m) s)\<lparr>ress := (ress s)(m := ress s m @ [next_node s])\<rparr>"
  show "addResource m s = (Inr (), t)" by (simp add: addResource_def new_node_run t_def with_node_fields [OF ok refl])
  show "site_ok t"
    by (rule grow_ok [OF ok refl, of m KRes]) (use m in \<open>auto simp: t_def with_node_fields [OF ok refl] placed_as_def\<close>)
qed

lemma add_newContribution_ok:
  assumes ok: "site_ok s" and e: "placed_as s (\<lambda>k. k = KEvent) e" and i: "case i of None \<Rightarrow> True | Some j \<Rightarrow> j \<in> set (sess s e)"
  shows "ends_ok (add_newContribution e i) s"
proof -
  define t where "t = (with_node KContrib (Some e) s)\<lparr>conts := (conts s)(e := conts s e @ [next_node s])\<rparr>"
  have t: "site_ok t" unfolding t_def by (rule add_newContribution_placed [OF ok e])
  have run: "add_newContribution e i s = setSession (next_node s) i t"
    by (simp add: add_newContribution_def new_node_run t_def with_node_fields [OF ok refl])
  note fr = fresh [OF site_butD(1) [OF ok] refl]
  have "\<exists>v. setSession (next_node s) i t = (Inr (), v) \<and> site_ok v"
  proof (cases i)
    case None
    then show ?thesis using setSession_None [OF t, of "next_node s"] by auto
  next
    case (Some j)
    then have j: "parent s j = Some e" "kind s j = KSession" using i lists_butD(5) [OF site_butD(2) [OF ok]] by auto
    have "j \<noteq> next_node s" using j(1) fr(1) by auto
    then have "\<exists>v. setSession (next_node s) (Some j) t = (Inr (), v) \<and> site_ok v"
      by (intro setSession_Some [OF t]) (use j in \<open>simp_all add: t_def with_node_fields [OF ok refl]\<close>)
    then show ?thesis using Some by simp
  qed
  then show ?thesis unfolding ends_ok_def run by auto
qed

section \<open>Events and categories\<close>

lemma event_moves:
  assumes ok: "site_ok s" and same: "kind t = kind s" "next_node t = next_node s" "in_sess t = in_sess s" "acs t = acs s" "mats t = mats s" "ress t = ress s"
      "subs t = subs s" "conts t = conts s" "sess t = sess s"
    and par: "\<And>z. kind s z \<noteq> KEvent \<Longrightarrow> parent t z = parent s z"
      "\<And>z p. kind s z = KEvent \<Longrightarrow> parent t z = Some p \<Longrightarrow> z < next_node s \<and> p < next_node s \<and> kind s p = KCateg"
    and ev: "\<And>e k. e \<in> set (events t k) \<longleftrightarrow> parent t e = Some k \<and> kind s e = KEvent" "\<And>k. distinct (events t k)"
  shows "site_ok t"
proof (rule site_butI)
  note parts = site_butD [OF ok]
  note ptr = pointers_okD [OF parts(1)]
  show "pointers_ok t"
    unfolding pointers_ok_def same
  proof (intro conjI allI impI)
    fix z p assume z: "parent t z = Some p"
    show "child_of (kind s z) (kind s p)" "z < next_node s" "p < next_node s" using z par ptr(1-3) by (cases "kind s z = KEvent"; fastforce)+
    show "p < z" if "kind s z = KCateg" using z par(1) that ptr(4) by simp
    show "parent t p \<noteq> None" if "kind s p \<notin> {KCateg, KEvent}"
      using z par that ptr(5) by (cases "kind s z = KEvent") auto
  next
    fix c i assume c: "in_sess s c = Some i"
    with ptr(6-9) [OF c] par(1) show "kind s c = KContrib" "kind s i = KSession" "parent t c \<noteq> None" "parent t i = parent t c" by simp_all
  qed
  show "lists_but {} t"
    unfolding lists_but_def same
  proof (intro conjI allI)
    fix y z
    show "(z \<in> set (mats s y)) = (parent t z = Some y \<and> is_mat (kind s z))" using lists_butD(1) [OF parts(2)] par(1) [of z] by (cases "kind s z") auto
    show "(z \<in> set (ress s y)) = (parent t z = Some y \<and> kind s z = KRes)" using lists_butD(2) [OF parts(2)] par(1) [of z] by auto
    show "(z \<in> set (subs s y)) = (parent t z = Some y \<and> kind s z = KSub)" using lists_butD(3) [OF parts(2)] par(1) [of z] by auto
    show "(z \<in> set (conts s y)) = (parent t z = Some y \<and> kind s z = KContrib \<or> in_sess s z = Some y)" using lists_butD(4) [OF parts(2)] par(1) [of z] by auto
    show "(z \<in> set (sess s y)) = (parent t z = Some y \<and> kind s z = KSession \<and> z \<notin> {})" using lists_butD(5) [OF parts(2)] par(1) [of z] by auto
    show "(z \<in> set (events t y)) = (parent t z = Some y \<and> kind s z = KEvent)" by (rule ev)
    show "distinct (mats s y)" "distinct (ress s y)" "distinct (subs s y)" "distinct (conts s y)" "distinct (sess s y)" by (rule lists_butD [OF parts(2)])+
    show "distinct (events t y)" by (rule ev)
  qed
  have w: "watchers t z = watchers s z" for z by (rule watch_upper [OF parts(1)]) (use same par(1) in auto)
  show "sets_but {} t" using parts(3) unfolding sets_but_iff w same .
  show "grants_ok t" using parts(4) by (simp add: grants_ok_def same)
qed

lemma removeConference_ok:
  assumes ok: "site_ok s" and mem: "e \<in> set (events s k)"
  shows "site_ok (s\<lparr>events := (events s)(k := remove1 e (events s k)), parent := (parent s)(e := None)\<rparr>)" (is "site_ok ?t")
proof -
  note parts = site_butD [OF ok]
  have e: "parent s e = Some k" "kind s e = KEvent" using lists_butD(6) [OF parts(2)] mem by simp_all
  show "site_ok ?t"
  proof (rule event_moves [OF ok])
    show "parent ?t z = parent s z" if "kind s z \<noteq> KEvent" for z using that e(2) by auto
    show "z < next_node s \<and> p < next_node s \<and> kind s p = KCateg" if "kind s z = KEvent" "parent ?t z = Some p" for z p
      using that pointers_okD(1-3) [OF parts(1), of z p] by (auto split: if_splits)
    show "(z \<in> set (events ?t y)) = (parent ?t z = Some y \<and> kind s z = KEvent)" for z y
      using lists_butD(6,12) [OF parts(2)] e by (auto simp: distinct_remove1)
    show "distinct (events ?t y)" for y using lists_butD(12) [OF parts(2)] by (simp add: distinct_remove1)
  qed simp_all
qed

lemma addConference_ok:
  assumes ok: "site_ok s" and e: "parent s e = None" "kind s e = KEvent" "e < next_node s" and k: "kind s k = KCateg" "k < next_node s"
  shows "ends_ok (addConference k e) s"
proof -
  note parts = site_butD [OF ok]
  have out: "e \<notin> set (events s y)" for y using lists_butD(6) [OF parts(2)] e(1) by simp
  have "site_ok (s\<lparr>events := (events s)(k := events s k @ [e]), parent := (parent s)(e := Some k)\<rparr>)" (is "site_ok ?t")
  proof (rule event_moves [OF ok])
    show "parent ?t z = parent s z" if "kind s z \<noteq> KEvent" for z using that e(2) by auto
    show "z < next_node s \<and> p < next_node s \<and> kind s p = KCateg" if "kind s z = KEvent" "parent ?t z = Some p" for z p
      using that pointers_okD(1-3) [OF parts(1), of z p] e k by (auto split: if_splits)
    show "(z \<in> set (events ?t y)) = (parent ?t z = Some y \<and> kind s z = KEvent)" for z y
      using lists_butD(6) [OF parts(2), of z y] e out by auto
    show "distinct (events ?t y)" for y using lists_butD(12) [OF parts(2)] out by simp
  qed simp_all
  then show ?thesis by (simp add: ends_ok_def addConference_def)
qed

lemma moveConference_ok:
  assumes ok: "site_ok s" and e: "e \<in> set (events s k)" and k: "kind s k' = KCateg" "k' < next_node s"
  shows "ends_ok (moveConference k e k') s"
proof -
  define t where "t = s\<lparr>events := (events s)(k := remove1 e (events s k)), parent := (parent s)(e := None)\<rparr>"
  have t: "site_ok t" unfolding t_def by (rule removeConference_ok [OF ok e])
  have ke: "parent s e = Some k" "kind s e = KEvent" using lists_butD(6) [OF site_butD(2) [OF ok]] e by simp_all
  have "ends_ok (addConference k' e) t"
    by (rule addConference_ok [OF t]) (use ke k pointers_okD(2) [OF site_butD(1) [OF ok] ke(1)] in \<open>simp_all add: t_def\<close>)
  moreover have "moveConference k e k' s = addConference k' e t"
    using e by (simp add: moveConference_def removeConference_def t_def)
  ultimately show ?thesis by (simp add: ends_ok_def)
qed

lemma newConference_ok:
  assumes ok: "site_ok s" and k: "kind s k = KCateg" "k < next_node s"
  shows "ends_ok (newConference k who) s"
proof -
  define t where "t = (with_node KEvent None s)\<lparr>creator := (creator (with_node KEvent None s))(next_node s := Some who)\<rparr>"
  note wn = with_node_fields [OF ok refl]
  have "site_ok t"
  proof (rule attach_ok [OF ok refl, of t KEvent None])
    show "lists_but {} t"
      using site_butD(2) [OF ok] placed_lists [OF ok refl] fresh(1,2) [OF site_butD(1) [OF ok] refl]
      by (auto simp: lists_but_def t_def wn)
  qed (simp_all add: t_def wn)
  then have "ends_ok (addConference k (next_node s)) t"
    by (rule addConference_ok) (use k in \<open>simp_all add: t_def wn\<close>)
  moreover have "newConference k who s = addConference k (next_node s) t"
    by (simp add: newConference_def new_node_run t_def)
  ultimately show ?thesis by (simp add: ends_ok_def)
qed

end
