(* ===== verification/AC_Reach.thy ===== *)
theory AC_Reach
  imports AC_Grow
begin

text \<open>
  Grants and visits keep the protected tree, and every reachable site satisfies its invariant.
\<close>

section \<open>New categories\<close>

lemma newSubCategory_ok:
  assumes ok: "site_ok s" and k: "kind s k = KCateg" "k < next_node s" and p: "p \<in> {-1, 0, 1}"
  shows "ends_ok (newSubCategory k p) s"
proof -
  define x where "x = next_node s"
  define t1 where "t1 = with_node KCateg (Some k) s"
  note wn = with_node_fields [OF ok refl, of KCateg "Some k", folded t1_def x_def]
  have kx: "k \<noteq> x" using k by (simp add: x_def)
  have t1: "site_ok t1"
    by (rule grow_ok [OF ok refl, of k KCateg]) (use k in \<open>simp_all add: wn x_def [symmetric]\<close>)
  define t2 where "t2 = t1\<lparr>acs := (acs t1)(x := (acs t1 x)\<lparr>ac_level := p\<rparr>)\<rparr>"
  have "watchers t1 x = []" using wn(1) by (simp add: watchers_def)
  with level_change [OF t1 _ p, of x] have t2: "site_ok t2" using wn(1) by (simp add: t2_def)
  define t where "t = t2\<lparr>parent := (\<lambda>v. if v \<in> set (events s k) then Some x else parent t2 v),
        events := (events t2)(x := events s k, k := []), subcats := (subcats t2)(k := subcats t2 k @ [x])\<rparr>"
  have run: "newSubCategory k p s = (Inr (), t)"
    by (simp add: newSubCategory_def new_node_run cat_setProtection_def ctl_setProtection_def upd_ac_def t_def t2_def x_def t1_def cong: if_cong)
  have t2f: "kind t2 = (kind s)(x := KCateg)" "next_node t2 = Suc x" "parent t2 = (parent s)(x := Some k)" "in_sess t2 = in_sess s" "events t2 = events s"
    by (simp_all add: t2_def wn)
  note lists = lists_butD(6) [OF site_butD(2) [OF ok]]
  note fr = fresh [OF site_butD(1) [OF ok] x_def]
  have ev: "e \<noteq> x \<and> kind s e = KEvent" if "e \<in> set (events s y)" for e y using that lists fr(1) by auto
  have "site_ok t"
  proof (rule event_moves [OF t2])
    show "parent t z = parent t2 z" if "kind t2 z \<noteq> KEvent" for z using that ev by (auto simp: t_def t2f split: if_splits)
    show "z < next_node t2 \<and> q < next_node t2 \<and> kind t2 q = KCateg" if "kind t2 z = KEvent" "parent t z = Some q" for z q
    proof (cases "z \<in> set (events s k)")
      case True
      then have "q = x" using that by (simp add: t_def)
      moreover have "z < next_node s" using True lists pointers_okD(2) [OF site_butD(1) [OF ok], of z k] by simp
      ultimately show ?thesis by (simp add: t2f x_def)
    next
      case False
      then have "parent t2 z = Some q" using that by (simp add: t_def)
      then show ?thesis using pointers_okD(1-3) [OF site_butD(1) [OF t2]] that(1) by fastforce
    qed
    show "(e \<in> set (events t y)) = (parent t e = Some y \<and> kind t2 e = KEvent)" for e y
      using ev [of e] lists [of e] kx fr(4) [of e] by (auto simp: t_def t2f)
    show "distinct (events t y)" for y using lists_butD(12) [OF site_butD(2) [OF ok]] by (simp add: t_def t2f)
  qed (simp_all add: t_def)
  with run show ?thesis by (rule ends_okI)
qed

section \<open>Grants\<close>

lemma grants_step:
  assumes ok: "site_ok s" and f: "ac_level (f (acs s x)) = ac_level (acs s x)" "ac_nonInh (f (acs s x)) = ac_nonInh (acs s x)"
    and g: "PNone \<notin> set (ac_allowed (f (acs s x)))" "PNone \<notin> set (ac_managers (f (acs s x)))" "ac_allowedEmail (f (acs s x)) = []"
  shows "site_ok (s\<lparr>acs := (acs s)(x := f (acs s x))\<rparr>)"
  by (rule site_ok_same [OF _ _ _ _ _ _ _ _ _ _ _ _ _ ok]) (use f g site_butD(4) [OF ok] in \<open>auto simp: grants_ok_def\<close>)

lemma grants_okD:
  assumes "site_ok s"
  shows "PNone \<notin> set (ac_allowed (acs s x))" "PNone \<notin> set (ac_managers (acs s x))" "ac_allowedEmail (acs s x) = []" "ac_level (acs s x) \<in> {-1, 0, 1}"
  using site_butD(4) [OF assms] by (simp_all add: grants_ok_def)

lemma remove1_subset: "x \<notin> set xs \<Longrightarrow> x \<notin> set (remove1 y xs)"
  using set_remove1_subset by fast

lemma keeps_upd:
  assumes "\<And>a. ac_level (f a) = ac_level a" "\<And>a. ac_nonInh (f a) = ac_nonInh a"
    "\<And>a. PNone \<notin> set (ac_allowed a) \<Longrightarrow> PNone \<notin> set (ac_allowed (f a))" "\<And>a. PNone \<notin> set (ac_managers a) \<Longrightarrow> PNone \<notin> set (ac_managers (f a))"
    "\<And>a. ac_allowedEmail a = [] \<Longrightarrow> ac_allowedEmail (f a) = []"
  shows "keeps site_ok (upd_ac x f)"
  unfolding upd_ac_def by (rule keeps_modify) (rule grants_step; simp add: assms grants_okD)

lemma keeps_grants [keeps_intros]:
  "keeps site_ok (grantAccess x p)" "keeps site_ok (revokeAccess x p)" "keeps site_ok (grantModification x p)" "keeps site_ok (revokeModification x p)"
  "keeps site_ok (grantModificationEmail x m)" "keeps site_ok (revokeModificationEmail x m)" "keeps site_ok (requireDomain x d)"
  "keeps site_ok (freeDomain x d)" "keeps site_ok (upd_ac x (\<lambda>a. a\<lparr>ac_hidden := b\<rparr>))" "keeps site_ok (upd_ac x (\<lambda>a. a\<lparr>ac_key := k\<rparr>))"
  unfolding grantAccess_def revokeAccess_def grantModification_def revokeModification_def grantModificationEmail_def
      revokeModificationEmail_def requireDomain_def freeDomain_def
  by (cases "p = PNone"; auto simp: when_do_def is_principal_def remove1_subset intro!: keeps_intros keeps_upd)+

lemma keeps_revokeAccessEmail [keeps_intros]: "keeps I (revokeAccessEmail x m)"
  by (simp add: revokeAccessEmail_def keeps_raise)

section \<open>Visits\<close>

lemma keeps_Let [keeps_intros]: "(\<And>v. keeps I (f v)) \<Longrightarrow> keeps I (Let a f)"
  by (simp add: Let_def)

lemma keeps_nkind [keeps_intros]:
  "keeps I a \<Longrightarrow> keeps I b \<Longrightarrow> keeps I c \<Longrightarrow> keeps I d \<Longrightarrow> keeps I e \<Longrightarrow> (\<And>k. keeps I (f k)) \<Longrightarrow> keeps I g \<Longrightarrow>
   keeps I (case v of KCateg \<Rightarrow> a | KEvent \<Rightarrow> b | KSession \<Rightarrow> c | KContrib \<Rightarrow> d | KSub \<Rightarrow> e | KMat k \<Rightarrow> f k | KRes \<Rightarrow> g)"
  by (cases v) auto

lemma keeps_need_node [keeps_intros]: "keeps I (need_node x)"
  by (cases x) (auto simp: need_node_def intro: keeps_intros)

lemma keeps_or_else [keeps_intros]: "keeps I m \<Longrightarrow> keeps I k \<Longrightarrow> keeps I (or_else m k)"
  by (auto simp: or_else_def intro!: keeps_intros)

lemma keeps_ask_owner [keeps_intros]: "(\<And>e. keeps I (up e)) \<Longrightarrow> keeps I (ask_owner up o1)"
  by (auto simp: ask_owner_def intro!: keeps_intros)

lemma keeps_allowed_loop [keeps_intros]: "keeps site_ok (allowed_loop n x i u)"
  by (induction n arbitrary: i) (auto intro!: keeps_intros)

lemma keeps_email_loop [keeps_intros]: "keeps site_ok (email_loop ms x a r)"
  by (induction ms arbitrary: r) (auto intro!: keeps_intros)

lemma keeps_ctl [keeps_intros]: "keeps site_ok (ctl_canUserAccess x u)" "keeps site_ok (ctl_canModify x u)"
  by (auto simp: ctl_canUserAccess_def ctl_canModify_def intro!: keeps_intros)

lemma keeps_modify_at [keeps_intros]: "keeps site_ok (modify_at n x u)"
  by (induction n arbitrary: x u)
    (auto simp: cat_canUserModify_def conf_canUserModify_def sess_canUserModify_def contrib_canUserModify_def sub_canUserModify_def
      mat_canUserModify_def res_canUserModify_def intro!: keeps_intros)

lemma keeps_canModify [keeps_intros]: "keeps site_ok (obj_canUserModify x u)" "keeps site_ok (canModify x w)"
  by (auto simp: obj_canUserModify_def canModify_def intro!: keeps_intros)

lemma keeps_allowed_at [keeps_intros]: "keeps site_ok (allowed_at n x u)"
  by (induction n arbitrary: x u)
    (auto simp: cat_isAllowed_def conf_isAllowed_def sess_isAllowed_def contrib_isAllowed_def sub_isAllowed_def mat_isAllowed_def res_isAllowed_def
      intro!: keeps_intros)

lemma keeps_canAccess [keeps_intros]: "keeps site_ok (canAccess x w)"
  unfolding canAccess_def cat_canAccess_def conf_canAccess_def sess_canAccess_def contrib_canAccess_def sub_canAccess_def mat_canAccess_def
    res_canAccess_def res_canKeyAccess_def isAllowedToCreate_def obj_isAllowedToAccess_def
  by (intro keeps_intros)

section \<open>Reachable sites\<close>

lemma new_site_ok: "site_ok new_site"
  by (rule site_butI)
    (simp_all add: pointers_ok_def lists_but_def sets_but_def grants_ok_def watchers_def new_acl_def new_site_def)

lemma same_tree_ok: "site_ok s \<Longrightarrow> same_tree s t \<Longrightarrow> site_ok t"
  by (rule site_ok_same [of t s]) (use site_butD(4) [of "{}" "{}" s] in \<open>simp_all add: same_tree_def grants_ok_def\<close>)

text \<open>Every request that returns leaves a good site.\<close>

lemma ac_run_ok:
  assumes ok: "site_ok s" and q: "ac_names s q"
  shows "ends_ok (ac_run q) s"
proof -
  have kept: "keeps site_ok (ac_run q) \<Longrightarrow> ends_ok (ac_run q) s" by (rule ends_ok_keeps [OF _ ok])
  show ?thesis
  proof (cases q)
    case (SetProtection x p)
    then show ?thesis using q setProtection_ok [OF ok, of x p] by (auto simp: placed_as_def intro: ends_ok_ex)
  next
    case (NewSubCategory k p)
    then show ?thesis using q newSubCategory_ok [OF ok, of k p] by (simp add: placed_as_def)
  next
    case (NewEvent k u)
    then show ?thesis using q newConference_ok [OF ok, of k u] by (simp add: placed_as_def)
  next
    case (MoveEvent k e k')
    then show ?thesis using q moveConference_ok [OF ok, of e k k'] by (simp add: placed_as_def)
  next
    case (NewSession e)
    then show ?thesis using q new_session_ok [OF ok, of e] by simp
  next
    case (NewContribution e i)
    then show ?thesis using q add_newContribution_ok [OF ok, of e i] by simp
  next
    case (NewSubContribution c)
    then show ?thesis using q addSubContribution_ok [OF ok, of c] by simp
  next
    case (AddMaterial y k)
    then show ?thesis using q addMaterial_ok [OF ok, of k y] by simp
  next
    case (AddResource m)
    then show ?thesis using q addResource_ok [OF ok, of m] by simp
  next
    case (SetSession c i)
    have "\<exists>t. setSession c i s = (Inr (), t) \<and> site_ok t"
    proof (cases i)
      case None
      then show ?thesis using setSession_None [OF ok, of c] by auto
    next
      case (Some j)
      obtain e where e: "parent s c = Some e" "kind s c = KContrib" using q SetSession by (auto simp: placed_as_def)
      with q SetSession Some have "j \<in> set (sess s e)" by simp
      then have "kind s j = KSession" "parent s j = Some e" using lists_butD(5) [OF site_butD(2) [OF ok]] by auto
      then show ?thesis using setSession_Some [OF ok, of c j] e Some by simp
    qed
    then show ?thesis using SetSession by (auto intro: ends_ok_ex)
  next
    case (RemoveResource m r)
    show ?thesis
    proof (cases "r \<in> set (ress s m)")
      case True
      then show ?thesis using removeResource_ok [OF ok, of r m] lists_butD(2) [OF site_butD(2) [OF ok]] RemoveResource by (auto intro: ends_ok_ex)
    next
      case False
      then show ?thesis using RemoveResource ok by (simp add: ends_ok_def removeResource_def)
    qed
  next
    case (RemoveMaterial y m)
    show ?thesis
    proof (cases "m \<in> set (mats s y)")
      case True
      then show ?thesis using removeMaterial_ok [OF ok, of m y] lists_butD(1) [OF site_butD(2) [OF ok]] RemoveMaterial by (auto intro: ends_ok_ex)
    next
      case False
      then show ?thesis using RemoveMaterial ok by (simp add: ends_ok_def removeMaterial_def)
    qed
  next
    case (RemoveSubContribution c z)
    show ?thesis
    proof (cases "z \<in> set (subs s c)")
      case True
      then show ?thesis using removeSubContribution_ok [OF ok, of z c] lists_butD(3) [OF site_butD(2) [OF ok]] RemoveSubContribution by (auto intro: ends_ok_ex)
    next
      case False
      then show ?thesis using RemoveSubContribution ok by (simp add: ends_ok_def removeSubContribution_def)
    qed
  next
    case (DeleteContribution c)
    then show ?thesis using q contribution_delete_ok [OF ok, of c] by (auto simp: placed_as_def intro: ends_ok_ex)
  next
    case (RemoveSession e i d)
    then show ?thesis using removeSession_ok [OF ok, of e i d] by (auto intro: ends_ok_ex)
  qed (rule kept; auto intro!: keeps_intros)+
qed

lemma ac_reach_ok: "ac_reach s \<Longrightarrow> site_ok s"
proof (induction rule: ac_reach.induct)
  case (request s q)
  then show ?case using ac_run_ok [of s q]
    by (auto simp: ac_request_state_def ends_ok_def split: prod.splits sum.splits)
qed (auto intro: new_site_ok same_tree_ok)

end
