(* ===== verification/AC_Protect.thy ===== *)
theory AC_Protect
  imports AC_Reach
begin

text \<open>
  Protection in the reachable sites: how deep the recursion over the owners goes, the object that governs another, and
  what the sets of children that do not inherit say about everything below an object.
\<close>

section \<open>Owners\<close>

text \<open>The length of a chain of owners is at most this.\<close>

definition height :: "site \<Rightarrow> nat \<Rightarrow> nat" where
  "height s x = (case kind s x of
       KCateg \<Rightarrow> (if x < next_node s then x else 0)
     | KEvent \<Rightarrow> next_node s | KSession \<Rightarrow> next_node s + 1 | KContrib \<Rightarrow> next_node s + 2 | KSub \<Rightarrow> next_node s + 3
     | KMat _ \<Rightarrow> next_node s + 4 | KRes \<Rightarrow> next_node s + 5)"

lemma height_depth: "height s x < next_node s + 6"
  by (cases "kind s x") (auto simp: height_def)

lemma owner_kinds:
  assumes ok: "pointers_ok s" and o1: "owner s x = Some p"
  shows "kind s x = KContrib \<and> kind s p \<in> {KEvent, KSession} \<and> parent s x \<noteq> None \<or> kind s x \<noteq> KContrib \<and> parent s x = Some p \<and> child_of (kind s x) (kind s p)"
proof (cases "kind s x = KContrib")
  case True
  then have "parent s x \<noteq> None"
    using o1 pointers_okD(8) [OF ok, of x] by (cases "in_sess s x") (auto simp: owner_def)
  then show ?thesis using owner_kind [OF ok True] o1 True by auto
next
  case False
  then have "parent s x = Some p" using o1 by (cases "kind s x") (simp_all add: owner_def)
  then show ?thesis using False pointers_okD(1) [OF ok] by simp
qed

lemma owner_in:
  assumes ok: "pointers_ok s" and o1: "owner s x = Some p"
  shows "p < next_node s" "kind s x = KCateg \<Longrightarrow> p < x" "x < next_node s"
proof -
  from owner_above [OF o1] consider "parent s x = Some p" | "in_sess s x = Some p" by blast
  then have "p < next_node s \<and> (kind s x = KCateg \<longrightarrow> p < x) \<and> x < next_node s"
  proof cases
    case 1
    then show ?thesis using pointers_okD(2-4) [OF ok 1] by simp
  next
    case 2
    then obtain e where "parent s x = Some e" "parent s p = Some e" "kind s x = KContrib" using pointers_okD(6,8,9) [OF ok 2] by auto
    then show ?thesis using pointers_okD(2) [OF ok] by auto
  qed
  then show "p < next_node s" "kind s x = KCateg \<Longrightarrow> p < x" "x < next_node s" by simp_all
qed

lemma height_owner:
  assumes ok: "pointers_ok s" and o1: "owner s x = Some p"
  shows "height s p < height s x"
  using owner_kinds [OF assms] owner_in [OF assms] by (cases "kind s x"; cases "kind s p") (auto simp: height_def)

lemma owner_placed:
  assumes ok: "pointers_ok s" and o1: "owner s x = Some p" and k: "kind s p \<notin> {KCateg, KEvent}"
  shows "parent s p \<noteq> None"
proof -
  from owner_above [OF o1] show ?thesis
    using pointers_okD(5) [OF ok _ k] pointers_okD(8,9) [OF ok, of x p] by auto
qed

section \<open>Deep enough\<close>

lemma protected_stable:
  assumes ok: "pointers_ok s"
  shows "height s x < n \<Longrightarrow> height s x < m \<Longrightarrow> protected_at n s x = protected_at m s x"
proof (induction "height s x" arbitrary: x n m rule: less_induct)
  case less
  obtain n' m' where nm: "n = Suc n'" "m = Suc m'" using less.prems by (cases n; cases m) auto
  have "protected_at n' s p = protected_at m' s p" if p: "owner s x = Some p" for p
  proof (rule less.hyps)
    show "height s p < height s x" by (rule height_owner [OF ok p])
    with less.prems show "height s p < n'" "height s p < m'" by (simp_all add: nm)
  qed
  then show ?case unfolding nm protected_at.simps by (cases "owner s x") (simp_all only: option.case)
qed

lemma isProtected_step:
  assumes ok: "pointers_ok s"
  shows "isProtected s x = (let above = (case owner s x of None \<Rightarrow> False | Some p \<Rightarrow> isProtected s p) in
      if kind s x = KSub then above else of_bool above + level s x > 0)"
proof -
  have d: "depth s = Suc (next_node s + 6)" by (simp add: depth_def)
  have "protected_at (next_node s + 6) s p = isProtected s p" if "owner s x = Some p" for p
    unfolding isProtected_def
    by (rule protected_stable [OF ok]) (use height_owner [OF ok that] height_depth [of s x] in \<open>auto simp: depth_def\<close>)
  then show ?thesis unfolding isProtected_def [of s x] d protected_at.simps by (cases "owner s x") (simp_all only: option.case)
qed

lemma level_values:
  assumes ok: "site_ok s"
  shows "level s x \<in> {-1, 0, 1}"
  using grants_okD(4) [OF ok] by (simp add: level_def)

text \<open>An object is protected by its own level, or like its owner if it inherits.\<close>

lemma isProtected_cases:
  assumes ok: "site_ok s" and x: "kind s x = KSub \<Longrightarrow> parent s x \<noteq> None"
  shows "level s x = 1 \<Longrightarrow> isProtected s x" "level s x = -1 \<Longrightarrow> \<not> isProtected s x"
    "level s x = 0 \<Longrightarrow> isProtected s x \<longleftrightarrow> (\<exists>p. owner s x = Some p \<and> isProtected s p)"
proof -
  note po = site_butD(1) [OF ok]
  have sub: "level s p = level s x \<and> kind s p = KContrib" if k: "kind s x = KSub" and p: "owner s x = Some p" for p
    using owner_kinds [OF po p] k by (simp add: level_def controller_def)
  have lone: "isProtected s x" if "level s x = 1" "kind s x \<noteq> KSub" for x using that isProtected_step [OF po, of x] by (simp add: Let_def)
  have lpub: "\<not> isProtected s x" if "level s x = -1" "kind s x \<noteq> KSub" for x using that isProtected_step [OF po, of x] by (simp add: Let_def)
  have subs: "isProtected s x \<longleftrightarrow> (\<exists>p. owner s x = Some p \<and> isProtected s p)" if "kind s x = KSub"
    using that isProtected_step [OF po, of x] by (cases "owner s x") simp_all
  show "level s x = 1 \<Longrightarrow> isProtected s x"
  proof (cases "kind s x = KSub")
    case True
    assume l: "level s x = 1"
    obtain p where "owner s x = Some p" using x [OF True] True by (auto simp: owner_def)
    then show ?thesis using l subs [OF True] sub [OF True] lone by auto
  qed (rule lone)
  show "level s x = -1 \<Longrightarrow> \<not> isProtected s x"
  proof (cases "kind s x = KSub")
    case True
    assume l: "level s x = -1"
    then show ?thesis using subs [OF True] sub [OF True] lpub by auto
  qed (rule lpub)
  show "level s x = 0 \<Longrightarrow> isProtected s x \<longleftrightarrow> (\<exists>p. owner s x = Some p \<and> isProtected s p)"
    using subs isProtected_step [OF po, of x] by (cases "kind s x = KSub"; cases "owner s x") (simp_all add: Let_def)
qed

section \<open>The governing object\<close>

text \<open>The nearest object, from \<open>x\<close> up its owners, that does not inherit.\<close>

inductive governed :: "site \<Rightarrow> nat \<Rightarrow> nat \<Rightarrow> bool" for s :: site where
  own: "level s x \<noteq> 0 \<Longrightarrow> governed s x x"
| inherited: "level s x = 0 \<Longrightarrow> owner s x = Some p \<Longrightarrow> governed s p y \<Longrightarrow> governed s x y"

inductive_cases governedE: "governed s x y"

lemma placed_owner: "pointers_ok s \<Longrightarrow> owner s x = Some p \<Longrightarrow> kind s p = KSub \<Longrightarrow> parent s p \<noteq> None"
  using owner_placed by force

lemma protected_governed:
  assumes ok: "site_ok s"
  shows "(kind s x = KSub \<Longrightarrow> parent s x \<noteq> None) \<Longrightarrow> isProtected s x \<longleftrightarrow> (\<exists>y. governed s x y \<and> level s y = 1)"
proof (induction "height s x" arbitrary: x rule: less_induct)
  case less
  note po = site_butD(1) [OF ok]
  note cases = isProtected_cases [OF ok less.prems]
  show ?case
  proof (cases "level s x = 0")
    case False
    then have "governed s x y \<longleftrightarrow> y = x" for y by (auto intro: own elim: governedE)
    then show ?thesis using cases(1,2) level_values [OF ok, of x] False by auto
  next
    case True
    show ?thesis
    proof (cases "owner s x")
      case None
      then show ?thesis using True cases(3) by (auto elim: governedE)
    next
      case (Some p)
      have "isProtected s p \<longleftrightarrow> (\<exists>y. governed s p y \<and> level s y = 1)"
        by (rule less.hyps [OF height_owner [OF po Some]]) (rule placed_owner [OF po Some])
      moreover have "governed s x y \<longleftrightarrow> governed s p y" for y using True Some by (auto intro: inherited elim: governedE)
      ultimately show ?thesis using cases(3) True Some by simp
    qed
  qed
qed

section \<open>Below an object\<close>

lemma watchers_simps:
  "kind s x = KCateg \<Longrightarrow> watchers s x = []" "kind s x = KEvent \<Longrightarrow> watchers s x = []"
  "kind s x = KSession \<Longrightarrow> watchers s x = watch_up s (parent s x)" "kind s x = KContrib \<Longrightarrow> watchers s x = watch_up s (owner s x)"
  "is_mat (kind s x) \<Longrightarrow> watchers s x = watch_low s (parent s x)"
  "kind s x = KRes \<Longrightarrow> parent s x = Some m \<Longrightarrow> watchers s x = (if kind s m = KMat MReviewing then [] else watch_mat s m)"
  by (cases "kind s x"; simp add: watchers_def)+

lemma is_mat_not [simp]:
  "is_mat k \<Longrightarrow> k \<noteq> KCateg" "is_mat k \<Longrightarrow> k \<noteq> KEvent" "is_mat k \<Longrightarrow> k \<noteq> KSession" "is_mat k \<Longrightarrow> k \<noteq> KContrib" "is_mat k \<Longrightarrow> k \<noteq> KSub" "is_mat k \<Longrightarrow> k \<noteq> KRes"
  by auto

lemma child_of_mat [simp]: "is_mat k \<Longrightarrow> is_mat p \<Longrightarrow> \<not> child_of k p" "is_mat k \<Longrightarrow> \<not> child_of k KRes"
  by (cases k; simp)+

lemma child_of_KRes [simp]: "\<not> child_of k KRes"
  by (cases k) auto

lemma nkind_cases:
  obtains "k = KCateg" | "k = KEvent" | "k = KSession" | "k = KContrib" | "k = KSub" | "is_mat k" | "k = KRes"
  by (cases k) auto

inductive under :: "site \<Rightarrow> nat \<Rightarrow> nat \<Rightarrow> bool" for s :: site where
  direct: "owner s x = Some y \<Longrightarrow> under s x y"
| further: "owner s x = Some z \<Longrightarrow> under s z y \<Longrightarrow> under s x y"

lemma under_trans: "under s x y \<Longrightarrow> under s y z \<Longrightarrow> under s x z"
  by (induction rule: under.induct) (auto intro: further)

text \<open>The objects that keep a set, and the objects that report.\<close>

definition keeps_set :: "site \<Rightarrow> nat \<Rightarrow> bool" where
  "keeps_set s y \<longleftrightarrow> event_of s y \<noteq> None \<and> kind s y \<notin> {KSub, KRes}"

definition reports :: "site \<Rightarrow> nat \<Rightarrow> bool" where
  "reports s x \<longleftrightarrow> kind s x \<noteq> KSub \<and> \<not> (kind s x = KRes \<and> (\<exists>m. parent s x = Some m \<and> kind s m = KMat MReviewing))"

lemma watch_up_under: "w \<in> set (watch_up s (Some y)) \<Longrightarrow> w = y \<or> under s y w"
  using watch_up_above by (auto simp: watch_up_def owner_def split: nkind.splits option.splits intro: direct)

lemma watch_contrib_under:
  "w \<in> set (watch_contrib s c) \<Longrightarrow> w = c \<or> under s c w"
  by (cases "owner s c") (auto simp: watch_contrib_def watch_up_def [of s None] dest: watch_up_under intro: direct further)

lemma watch_low_under:
  assumes "w \<in> set (watch_low s (Some y))"
  shows "w = y \<or> under s y w"
proof (cases "kind s y = KSub")
  case True
  then obtain c where c: "parent s y = Some c" "w \<in> set (watch_contrib s c)"
    using assms by (cases "parent s y") (simp_all add: watch_low_def)
  then have "owner s y = Some c" using True by (simp add: owner_def)
  with watch_contrib_under [OF c(2)] show ?thesis by (auto intro: direct further)
next
  case False
  then show ?thesis using assms watch_contrib_under watch_up_under
    by (cases "kind s y") (auto simp: watch_low_def)
qed

lemma watchers_under:
  assumes po: "pointers_ok s" and w: "w \<in> set (watchers s x)"
  shows "under s x w"
proof -
  have step: "under s x w" if "owner s x = Some p" "w = p \<or> under s p w" for p using that by (auto intro: direct further)
  have own: "owner s x = parent s x" if "kind s x \<noteq> KContrib" using that by (cases "kind s x") (simp_all add: owner_def)
  show ?thesis
  proof (cases "owner s x")
    case None
    then show ?thesis using w own by (cases "kind s x") (simp_all add: watchers_def watch_up_def [of s None] watch_low_def [of s None])
  next
    case (Some p)
    have mat: "w = p \<or> under s p w" if "w \<in> set (watch_mat s p)" "kind s p \<noteq> KContrib"
    proof -
      have op: "owner s p = parent s p" using that(2) by (cases "kind s p") (simp_all add: owner_def)
      then show ?thesis using that(1) watch_low_under
        by (cases "parent s p") (auto simp: watch_mat_def split: if_splits intro: direct further)
    qed
    have "w = p \<or> under s p w"
    proof (cases "kind s x = KRes")
      case True
      then have p: "parent s x = Some p" using own Some by simp
      from pointers_okD(1) [OF po p] True have "kind s p \<noteq> KContrib" by auto
      from mat [OF _ this] w True p show ?thesis by (auto simp: watchers_def split: if_splits)
    next
      case False
      then have "w \<in> set (watch_up s (Some p)) \<or> w \<in> set (watch_low s (Some p))"
        using w Some own by (cases "kind s x" rule: nkind_cases) (auto simp: watchers_simps)
      then show ?thesis using watch_up_under watch_low_under by blast
    qed
    then show ?thesis by (rule step [OF Some])
  qed
qed

text \<open>Everything above an object that reports watches it, within its event.\<close>

lemma watchers_owner:
  assumes po: "pointers_ok s" and o1: "owner s x = Some z" and x: "reports s x" and z: "event_of s z \<noteq> None"
  shows "kind s z \<noteq> KSub \<Longrightarrow> set (watchers s x) = insert z (set (watchers s z))"
    "kind s z = KSub \<Longrightarrow> set (watchers s x) = set (watch_low s (Some z))"
proof -
  have zk: "kind s z \<noteq> KCateg" using z by (auto simp: event_of_def base_event_def)
  note kinds = owner_kinds [OF po o1]
  have xs: "kind s x \<noteq> KSub" using x by (simp add: reports_def)
  show "kind s z = KSub \<Longrightarrow> set (watchers s x) = set (watch_low s (Some z))"
    using kinds x by (cases "kind s x" rule: nkind_cases) (auto simp: watchers_simps reports_def)
  assume zs: "kind s z \<noteq> KSub"
  have up: "set (watch_up s (Some z)) = insert z (set (watchers s z))" if k: "kind s z \<in> {KEvent, KSession}"
  proof (cases "kind s z = KEvent")
    case True
    then show ?thesis by (simp add: watch_up_def watchers_def)
  next
    case False
    then have ks: "kind s z = KSession" using k by simp
    then obtain e where e: "parent s z = Some e" using owner_placed [OF po o1] by auto
    then have "kind s e = KEvent" using pointers_okD(1) [OF po e] ks by simp
    then show ?thesis using ks e by (simp add: watch_up_def watchers_def)
  qed
  have low: "set (watch_low s (Some z)) = insert z (set (watchers s z))" if k: "kind s z \<in> {KEvent, KSession, KContrib}"
  proof (cases "kind s z = KContrib")
    case True
    then show ?thesis by (simp add: watch_low_def watch_contrib_def watchers_def)
  next
    case False
    then have "watch_low s (Some z) = watch_up s (Some z)" using k by (auto simp: watch_low_def)
    then show ?thesis using up k False by auto
  qed
  show "set (watchers s x) = insert z (set (watchers s z))"
  proof (cases "kind s x = KRes")
    case True
    then have p: "parent s x = Some z" "is_mat (kind s z)" using kinds by auto
    with owner_placed [OF po o1] obtain y where y: "parent s z = Some y" by fastforce
    have "kind s y \<noteq> KCateg" using z p(2) y by (cases "kind s z") (auto simp: event_of_def mat_event_def owner_def base_event_def)
    then have "watch_mat s z = z # watch_low s (Some y)" using y by (simp add: watch_mat_def)
    moreover have "watchers s z = watch_low s (Some y)" using p(2) y by (cases "kind s z") (simp_all add: watchers_def)
    moreover have "watchers s x = watch_mat s z" using True p x by (cases "kind s z") (auto simp: watchers_def reports_def)
    ultimately show ?thesis by simp
  next
    case False
    have "watchers s x = watch_up s (Some z) \<and> kind s z \<in> {KEvent, KSession} \<or> watchers s x = watch_low s (Some z) \<and> kind s z \<in> {KEvent, KSession, KContrib}"
    proof (cases "kind s x" rule: nkind_cases)
      case 3
      then have "parent s x = Some z" "kind s z = KEvent" using kinds by auto
      with 3 show ?thesis by (simp add: watchers_simps)
    next
      case 4
      then have "kind s z \<in> {KEvent, KSession}" using kinds by auto
      with 4 o1 show ?thesis by (simp add: watchers_simps)
    next
      case 6
      then have p: "parent s x = Some z" "\<not> is_mat (kind s z)" "kind s z \<noteq> KRes" using kinds by auto
      then have "kind s z \<in> {KEvent, KSession, KContrib}" using zk zs by (cases "kind s z") auto
      with 6 p(1) show ?thesis by (simp add: watchers_simps)
    qed (use kinds zk xs False in auto)
    then show ?thesis
    proof (elim disjE conjE)
      assume "watchers s x = watch_up s (Some z)" "kind s z \<in> {KEvent, KSession}"
      then show ?thesis using up by simp
    next
      assume "watchers s x = watch_low s (Some z)" "kind s z \<in> {KEvent, KSession, KContrib}"
      then show ?thesis using low by simp
    qed
  qed
qed

lemma event_of_owner:
  assumes po: "pointers_ok s" and o1: "owner s x = Some z" and e: "event_of s z \<noteq> None"
  shows "event_of s x \<noteq> None"
proof -
  have zk: "kind s z \<noteq> KCateg" using e by (auto simp: event_of_def base_event_def)
  have zr: "kind s z \<noteq> KRes" using owner_kinds [OF po o1] by (cases "kind s x" rule: nkind_cases) auto
  note kinds = owner_kinds [OF po o1] owner_placed [OF po o1] zk zr
  show ?thesis
  proof (cases "kind s x" rule: nkind_cases)
    case 5
    then have "parent s x = Some z" "kind s z = KContrib" using kinds by auto
    with kinds(2) 5 show ?thesis by (simp add: event_of_def base_event_def)
  next
    case 6
    have "event_of s x = mat_event s x" using 6 by (cases "kind s x") (simp_all add: event_of_def)
    also have "\<dots> = base_event s z" using o1 by (simp add: mat_event_def)
    also have "base_event s z = event_of s z"
      using kinds(1) 6 zk zr by (cases "kind s z" rule: nkind_cases) (auto simp: event_of_def)
    finally show ?thesis using e by simp
  next
    case 7
    then have "is_mat (kind s z)" using kinds(1) by auto
    then show ?thesis using 7 o1 e by (cases "kind s z") (simp_all add: event_of_def)
  qed (use kinds in \<open>auto simp: event_of_def base_event_def\<close>)
qed

lemma under_event:
  assumes po: "pointers_ok s"
  shows "under s x y \<Longrightarrow> event_of s y \<noteq> None \<Longrightarrow> event_of s x \<noteq> None"
  by (induction rule: under.induct) (auto dest: event_of_owner [OF po])

lemma owner_no_res: "pointers_ok s \<Longrightarrow> owner s x = Some z \<Longrightarrow> kind s z \<noteq> KRes"
  using owner_kinds by (cases "kind s x" rule: nkind_cases) fastforce+

text \<open>So everything above an object that reports, within its event, is told.\<close>

lemma watch_low_sub:
  assumes po: "pointers_ok s" and x: "kind s x = KSub" "owner s x = Some z"
  shows "set (watch_low s (Some x)) = insert z (set (watchers s z))"
proof -
  have "parent s x = Some z" "kind s z = KContrib" using owner_kinds [OF po x(2)] x(1) by auto
  then show ?thesis using x(1) by (simp add: watch_low_def watch_contrib_def watchers_simps)
qed

lemma under_watchers:
  assumes po: "pointers_ok s"
  shows "under s x y \<Longrightarrow> keeps_set s y \<Longrightarrow>
     (reports s x \<longrightarrow> y \<in> set (watchers s x)) \<and> (kind s x = KSub \<longrightarrow> y \<in> set (watch_low s (Some x)))"
proof (induction rule: under.induct)
  case (direct x y)
  have y: "event_of s y \<noteq> None" "kind s y \<noteq> KSub" using direct(2) by (auto simp: keeps_set_def)
  show ?case using watchers_owner(1) [OF po direct(1) _ y] watch_low_sub [OF po _ direct(1)] by simp
next
  case (further x z y)
  have y: "event_of s y \<noteq> None" using further(4) by (simp add: keeps_set_def)
  have z: "event_of s z \<noteq> None" by (rule under_event [OF po further(2) y])
  have rz: "reports s z" if "kind s z \<noteq> KSub" using that owner_no_res [OF po further(1)] by (simp add: reports_def)
  show ?case
  proof (intro conjI impI)
    assume x: "reports s x"
    show "y \<in> set (watchers s x)"
    proof (cases "kind s z = KSub")
      case True
      then show ?thesis using watchers_owner(2) [OF po further(1) x z] further(3,4) by simp
    next
      case False
      then show ?thesis using watchers_owner(1) [OF po further(1) x z] further(3,4) rz by simp
    qed
  next
    assume x: "kind s x = KSub"
    then have "kind s z = KContrib" using owner_kinds [OF po further(1)] by auto
    then show "y \<in> set (watch_low s (Some x))" using watch_low_sub [OF po x further(1)] further(3,4) rz by simp
  qed
qed

lemma nonInh_iff:
  assumes ok: "site_ok s" and y: "keeps_set s y"
  shows "x \<in> set (ac_nonInh (acs s y)) \<longleftrightarrow> level s x \<noteq> 0 \<and> reports s x \<and> under s x y"
proof -
  note po = site_butD(1) [OF ok]
  have "reports s x" if "y \<in> set (watchers s x)"
  proof (rule ccontr)
    assume "\<not> reports s x"
    then have "kind s x = KSub \<or> kind s x = KRes \<and> (\<exists>m. parent s x = Some m \<and> kind s m = KMat MReviewing)" by (auto simp: reports_def)
    then have "watchers s x = []" by (auto simp: watchers_simps)
    with that show False by simp
  qed
  then show ?thesis
    using sets_butD [OF site_butD(3) [OF ok], of x y] watchers_under [OF po, of y x] under_watchers [OF po _ y] by auto
qed

section \<open>Fully public and fully private\<close>

lemma inherits_protection:
  assumes ok: "site_ok s" and up: "owner s x = Some p" and l: "level s x = 0 \<or> kind s x = KSub"
  shows "isProtected s x = isProtected s p"
  using isProtected_step [OF site_butD(1) [OF ok], of x] up l by auto

lemma fully_below:
  assumes ok: "site_ok s"
  shows "under s x y \<Longrightarrow> keeps_set s y \<Longrightarrow> isProtected s y = b \<Longrightarrow>
    (\<forall>z \<in> set (ac_nonInh (acs s y)). level s z = (if b then 1 else -1)) \<Longrightarrow>
    \<not> (kind s x = KRes \<and> \<not> reports s x) \<Longrightarrow> isProtected s x = b"
proof (induction rule: under.induct)
  case (direct x y)
  show ?case
  proof (cases "level s x = 0 \<or> kind s x = KSub")
    case True
    then show ?thesis using inherits_protection [OF ok direct(1)] direct(3) by simp
  next
    case False
    then have "reports s x" using direct(5) by (auto simp: reports_def)
    with False have "x \<in> set (ac_nonInh (acs s y))" using nonInh_iff [OF ok direct(2)] under.direct [OF direct(1)] by simp
    then show ?thesis using isProtected_cases(1,2) [OF ok, of x] False direct(4) by (auto split: if_splits)
  qed
next
  case (further x z y)
  have "isProtected s z = b"
    using further(3-6) owner_no_res [OF site_butD(1) [OF ok] further(1)] by blast
  show ?case
  proof (cases "level s x = 0 \<or> kind s x = KSub")
    case True
    then show ?thesis using inherits_protection [OF ok further(1)] \<open>isProtected s z = b\<close> by simp
  next
    case False
    then have "reports s x" using further(7) by (auto simp: reports_def)
    with False have "x \<in> set (ac_nonInh (acs s y))" using nonInh_iff [OF ok further(4)] under.further [OF further(1,2)] by simp
    then show ?thesis using isProtected_cases(1,2) [OF ok, of x] False further(6) by (auto split: if_splits)
  qed
qed

lemma fully_iff:
  assumes ok: "site_ok s" and y: "keeps_set s y"
  shows "isFullyAccess s y (if b then 1 else -1) \<longleftrightarrow> isProtected s y = b \<and> (\<forall>x. under s x y \<and> reports s x \<longrightarrow> isProtected s x = b)"
proof
  assume full: "isFullyAccess s y (if b then 1 else -1)"
  then have y': "isProtected s y = b" by (auto simp: isFullyAccess_def split: if_splits)
  have "isProtected s x = b" if "under s x y" "reports s x" for x
    by (rule fully_below [OF ok that(1) y y']) (use full that(2) in \<open>auto simp: isFullyAccess_def\<close>)
  with y' show "isProtected s y = b \<and> (\<forall>x. under s x y \<and> reports s x \<longrightarrow> isProtected s x = b)" by blast
next
  assume all: "isProtected s y = b \<and> (\<forall>x. under s x y \<and> reports s x \<longrightarrow> isProtected s x = b)"
  have "level s z = (if b then 1 else -1)" if z: "z \<in> set (ac_nonInh (acs s y))" for z
  proof -
    from z nonInh_iff [OF ok y] have "level s z \<noteq> 0" "reports s z" "under s z y" by blast+
    with all have "isProtected s z = b" "kind s z \<noteq> KSub" by (auto simp: reports_def)
    with isProtected_cases(1,2) [OF ok, of z] level_values [OF ok, of z] \<open>level s z \<noteq> 0\<close> show ?thesis by auto
  qed
  with all show "isFullyAccess s y (if b then 1 else -1)" by (auto simp: isFullyAccess_def)
qed

end
