(* ===== verification/AC_Rights.thy ===== *)
theory AC_Rights
  imports AC_Protect
begin

text \<open>
  What the rights of a user come to: the objects up the tree that list him, for changing and for seeing.
\<close>

section \<open>The controller\<close>

text \<open>No invitation waits for the user: none of his addresses is among those of future managers.\<close>

definition settled :: "site \<Rightarrow> nat \<Rightarrow> bool" where
  "settled s a \<longleftrightarrow> (\<forall>x. \<forall>m \<in> set (mails s a). m \<notin> set (ac_managersEmail (acs s x)))"

definition listed :: "site \<Rightarrow> nat \<Rightarrow> ac_principal list \<Rightarrow> bool" where
  "listed s a ps \<longleftrightarrow> is_admin s (Some a) \<or> (\<exists>p \<in> set ps. contains_user s p (Some a))"

lemma email_loop_settled: "\<forall>m \<in> set ms. m \<notin> set (ac_managersEmail (acs s x)) \<Longrightarrow> email_loop ms x a r s = (Inr r, s)"
  by (induction ms arbitrary: r) simp_all

lemma ctl_canModify_settled:
  assumes "settled s a"
  shows "ctl_canModify x (Some a) s = (Inr (listed s a (ac_managers (acs s x))), s)"
  using assms email_loop_settled [of "mails s a" s x a False] by (auto simp: ctl_canModify_def listed_def settled_def)

lemma allowed_loop_run:
  assumes "PNone \<notin> set (ac_allowed (acs s x))"
  shows "length (ac_allowed (acs s x)) \<le> i + n \<Longrightarrow>
    allowed_loop n x i u s = (Inr (\<exists>p \<in> set (drop i (ac_allowed (acs s x))). contains_user s p u), s)"
proof (induction n arbitrary: i)
  case (Suc n)
  let ?l = "ac_allowed (acs s x)"
  show ?case
  proof (cases "i \<ge> length ?l")
    case False
    then have d: "drop i ?l = ?l ! i # drop (Suc i) ?l" by (simp add: Cons_nth_drop_Suc)
    have "?l ! i \<noteq> PNone" using assms False nth_mem [of i ?l] by (metis not_le)
    then show ?thesis using Suc False d by simp
  qed simp
qed simp

lemma ctl_canUserAccess_run:
  assumes ok: "site_ok s"
  shows "ctl_canUserAccess x (Some a) s = (Inr (listed s a (ac_allowed (acs s x))), s)"
proof -
  have "for_each ms (\<lambda>m. bnd get_st (\<lambda>t. when_do (m \<in> set (ac_allowedEmail (acs t x))) (andthen (grantAccess x (PAv a)) (revokeAccessEmail x m)))) s = (Inr (), s)" for ms
    using grants_okD(3) [OF ok] by (induction ms) simp_all
  then show ?thesis
    using allowed_loop_run [OF grants_okD(1) [OF ok], of x 0 "length (ac_allowed (acs s x))" "Some a"]
    by (auto simp: ctl_canUserAccess_def listed_def)
qed

section \<open>Changing\<close>

definition directly_manages :: "site \<Rightarrow> nat \<Rightarrow> nat \<Rightarrow> bool" where
  "directly_manages s a z \<longleftrightarrow> (case kind s z of
       KCateg \<Rightarrow> listed s a (ac_managers (acs s z))
     | KEvent \<Rightarrow> creator s z = Some a \<or> listed s a (ac_managers (acs s z))
     | KSession \<Rightarrow> listed s a (ac_managers (acs s z))
     | KContrib \<Rightarrow> listed s a (ac_managers (acs s z))
     | _ \<Rightarrow> False)"

definition may_modify :: "site \<Rightarrow> nat \<Rightarrow> nat \<Rightarrow> bool" where
  "may_modify s a x \<longleftrightarrow> (\<exists>z. (z = x \<or> under s x z) \<and> directly_manages s a z)"

inductive_cases underE: "under s x y"

lemma may_modify_step: "may_modify s a x \<longleftrightarrow> directly_manages s a x \<or> (\<exists>p. owner s x = Some p \<and> may_modify s a p)"
  unfolding may_modify_def by (blast intro: direct further elim: underE)

definition in_tree :: "site \<Rightarrow> nat \<Rightarrow> bool" where
  "in_tree s x \<longleftrightarrow> kind s x \<in> {KCateg, KEvent} \<or> parent s x \<noteq> None"

lemma in_tree_owner:
  assumes po: "pointers_ok s" and x: "in_tree s x" "kind s x \<notin> {KCateg, KEvent}"
  obtains p where "owner s x = Some p" "kind s x \<noteq> KContrib \<longrightarrow> parent s x = Some p" "in_tree s p" "height s p < height s x"
proof -
  have "owner s x \<noteq> None"
  proof (cases "kind s x = KContrib")
    case True
    then show ?thesis using x by (cases "in_sess s x") (auto simp: owner_def in_tree_def)
  next
    case False
    then have "owner s x = parent s x" by (cases "kind s x") (simp_all add: owner_def)
    then show ?thesis using x by (simp add: in_tree_def)
  qed
  then obtain p where p: "owner s x = Some p" by blast
  have "kind s x \<noteq> KContrib \<Longrightarrow> parent s x = Some p" using owner_kinds [OF po p] by auto
  moreover have "in_tree s p" using owner_placed [OF po p] by (auto simp: in_tree_def)
  ultimately show ?thesis using that p height_owner [OF po p] by blast
qed

lemma in_tree_parent:
  assumes po: "pointers_ok s" and p: "parent s x = Some p" "kind s x \<in> {KCateg, KEvent}"
  shows "owner s x = Some p" "in_tree s p" "height s p < height s x"
proof -
  show o1: "owner s x = Some p" using p by (auto simp: owner_def)
  show "in_tree s p" using owner_placed [OF po o1] by (auto simp: in_tree_def)
  show "height s p < height s x" by (rule height_owner [OF po o1])
qed

lemma modify_at_run:
  assumes po: "pointers_ok s" and a: "settled s a"
  shows "in_tree s x \<Longrightarrow> height s x < n \<Longrightarrow> modify_at n x (Some a) s = (Inr (may_modify s a x), s)"
proof (induction "height s x" arbitrary: x n rule: less_induct)
  case less
  obtain n' where n: "n = Suc n'" using less.prems by (cases n) auto
  have up: "modify_at n' p (Some a) s = (Inr (may_modify s a p), s)" if "in_tree s p" "height s p < height s x" for p
    using less.hyps [of p n'] that less.prems n by simp
  note own = ctl_canModify_settled [OF a]
  show ?case
  proof (cases "kind s x \<in> {KCateg, KEvent}")
    case True
    have mm: "may_modify s a x \<longleftrightarrow> directly_manages s a x \<or> (\<exists>p. parent s x = Some p \<and> may_modify s a p)"
      unfolding may_modify_step [of s a x] using True by (auto simp: owner_def)
    show ?thesis
    proof (cases "parent s x")
      case None
      then show ?thesis using True own mm unfolding n
        by (auto simp: cat_canUserModify_def conf_canUserModify_def or_else_def directly_manages_def if_distribR cong: if_cong split: if_splits)
    next
      case (Some p)
      note q = in_tree_parent [OF po Some True]
      show ?thesis using True own mm up [OF q(2,3)] Some unfolding n
        by (auto simp: cat_canUserModify_def conf_canUserModify_def or_else_def directly_manages_def if_distribR cong: if_cong split: if_splits)
    qed
  next
    case False
    obtain p where p: "owner s x = Some p" "kind s x \<noteq> KContrib \<longrightarrow> parent s x = Some p" "in_tree s p" "height s p < height s x"
      by (rule in_tree_owner [OF po less.prems(1) False])
    have mm: "may_modify s a x \<longleftrightarrow> directly_manages s a x \<or> may_modify s a p"
      unfolding may_modify_step [of s a x] using p(1) by simp
    show ?thesis using False own mm up [OF p(3,4)] p(1,2) unfolding n
      by (cases "kind s x") (auto simp: sess_canUserModify_def contrib_canUserModify_def sub_canUserModify_def mat_canUserModify_def
          res_canUserModify_def ask_owner_def need_node_def or_else_def directly_manages_def if_distribR cong: if_cong split: if_splits)
  qed
qed

lemma depth_enough: "height s x < depth s"
  using height_depth [of s x] by (simp add: depth_def)

lemma obj_canUserModify_run:
  assumes "pointers_ok s" "settled s a" "in_tree s x"
  shows "obj_canUserModify x (Some a) s = (Inr (may_modify s a x), s)"
  using modify_at_run [OF assms depth_enough] by (simp add: obj_canUserModify_def)

section \<open>Seeing\<close>

text \<open>The way up stops at an object that is restricted; a subcontribution always asks its contribution.\<close>

inductive opened :: "site \<Rightarrow> nat \<Rightarrow> nat \<Rightarrow> bool" for s :: site where
  here: "opened s x x"
| above: "kind s x = KSub \<or> level s x \<le> 0 \<Longrightarrow> owner s x = Some p \<Longrightarrow> opened s p z \<Longrightarrow> opened s x z"

inductive_cases openedE: "opened s x z"

definition admits :: "site \<Rightarrow> nat \<Rightarrow> nat \<Rightarrow> bool" where
  "admits s a z \<longleftrightarrow> (case kind s z of
       KSub \<Rightarrow> False
     | k \<Rightarrow> listed s a (ac_allowed (acs s z)) \<or> may_modify s a z \<or>
         (case k of
            KEvent \<Rightarrow> (\<exists>cs \<in> set (track_coords s z). a \<in> set cs) \<or> a \<in> set (team s z) \<or> plugin_access s z a
          | KSession \<Rightarrow> a \<in> set (coords s z)
          | KContrib \<Rightarrow> canUserSubmit s z (Some a)
          | _ \<Rightarrow> False))"

definition may_access :: "site \<Rightarrow> nat \<Rightarrow> nat \<Rightarrow> bool" where
  "may_access s a x \<longleftrightarrow> (\<exists>z. opened s x z \<and> admits s a z)"

lemma may_access_step:
  "may_access s a x \<longleftrightarrow> admits s a x \<or> (kind s x = KSub \<or> level s x \<le> 0) \<and> (\<exists>p. owner s x = Some p \<and> may_access s a p)"
  unfolding may_access_def by (blast intro: here above elim: openedE)

lemma allowed_at_run:
  assumes ok: "site_ok s" and a: "settled s a"
  shows "in_tree s x \<Longrightarrow> height s x < n \<Longrightarrow> allowed_at n x (Some a) s = (Inr (may_access s a x), s)"
proof (induction "height s x" arbitrary: x n rule: less_induct)
  case less
  note po = site_butD(1) [OF ok]
  obtain n' where n: "n = Suc n'" using less.prems by (cases n) auto
  have up: "allowed_at n' p (Some a) s = (Inr (may_access s a p), s)" if "in_tree s p" "height s p < height s x" for p
    using less.hyps [of p n'] that less.prems n by simp
  note own = ctl_canUserAccess_run [OF ok, of x a] obj_canUserModify_run [OF po a less.prems(1)]
  show ?case
  proof (cases "kind s x \<in> {KCateg, KEvent}")
    case True
    have mm: "may_access s a x \<longleftrightarrow> admits s a x \<or> level s x \<le> 0 \<and> (\<exists>p. parent s x = Some p \<and> may_access s a p)"
      unfolding may_access_step [of s a x] using True by (auto simp: owner_def)
    show ?thesis
    proof (cases "parent s x")
      case None
      then show ?thesis using True own mm unfolding n
        by (auto simp: cat_isAllowed_def conf_isAllowed_def or_else_def admits_def itself_protected_def if_distribR cong: if_cong split: if_splits)
    next
      case (Some p)
      note q = in_tree_parent [OF po Some True]
      show ?thesis using True own mm up [OF q(2,3)] Some unfolding n
        by (auto simp: cat_isAllowed_def conf_isAllowed_def or_else_def admits_def itself_protected_def if_distribR cong: if_cong split: if_splits)
    qed
  next
    case False
    obtain p where p: "owner s x = Some p" "kind s x \<noteq> KContrib \<longrightarrow> parent s x = Some p" "in_tree s p" "height s p < height s x"
      by (rule in_tree_owner [OF po less.prems(1) False])
    have mm: "may_access s a x \<longleftrightarrow> admits s a x \<or> (kind s x = KSub \<or> level s x \<le> 0) \<and> may_access s a p"
      unfolding may_access_step [of s a x] using p(1) by simp
    show ?thesis using False own mm up [OF p(3,4)] p(1,2) unfolding n
      by (cases "kind s x") (auto simp: sess_isAllowed_def contrib_isAllowed_def sub_isAllowed_def mat_isAllowed_def
          res_isAllowed_def ask_owner_def need_node_def or_else_def admits_def itself_protected_def if_distribR cong: if_cong split: if_splits)
  qed
qed

lemma obj_isAllowedToAccess_run:
  assumes "site_ok s" "settled s a" "in_tree s x"
  shows "obj_isAllowedToAccess x (Some a) s = (Inr (may_access s a x), s)"
  using allowed_at_run [OF assms depth_enough] by (simp add: obj_isAllowedToAccess_def)

end
