(* ===== verification/AC_Visit.thy ===== *)
theory AC_Visit
  imports AC_Rights
begin

text \<open>Visits: whoever may change an object gets in, and a visitor nothing up the tree speaks for is kept out of what is protected.\<close>

section \<open>More calls change nothing\<close>

lemma or_else_Inr:
  "or_else m k s = (Inr b, t) \<longleftrightarrow> (m s = (Inr True, t) \<and> b) \<or> (\<exists>u. m s = (Inr False, u) \<and> k u = (Inr b, t))"
  by (auto simp: or_else_def split: prod.splits sum.splits if_splits)

text \<open>A result found within some depth of calls is found within any larger one.\<close>

lemma modify_at_mono:
  "modify_at n x u s = (Inr b, t) \<Longrightarrow> n \<le> m \<Longrightarrow> modify_at m x u s = (Inr b, t)"
proof (induction n arbitrary: x s b t m)
  case (Suc n)
  obtain m' where m: "m = Suc m'" "n \<le> m'" using Suc.prems(2) by (cases m) auto
  have up: "modify_at m' p u s' = (Inr b', t')" if "modify_at n p u s' = (Inr b', t')" for p s' b' t'
    by (rule Suc.IH [OF that m(2)])
  have opt: "(case q of None \<Rightarrow> ret False | Some p \<Rightarrow> modify_at m' p u) s' = (Inr b', t')"
    if "(case q of None \<Rightarrow> ret False | Some p \<Rightarrow> modify_at n p u) s' = (Inr b', t')" for q s' b' t'
    using that up by (cases q) auto
  have ask: "ask_owner (\<lambda>e. modify_at m' e u) q s' = (Inr b', t')"
    if "ask_owner (\<lambda>e. modify_at n e u) q s' = (Inr b', t')" for q s' b' t'
    using that up by (cases q) (auto simp: ask_owner_def need_node_def)
  show ?case
  proof (cases "kind s x")
    case KCateg
    then show ?thesis using Suc.prems(1) opt unfolding m by (auto simp: cat_canUserModify_def or_else_Inr)
  next
    case KEvent
    then show ?thesis using Suc.prems(1) opt [of "parent s x"] unfolding m
      by (cases u; cases "u = creator s x") (auto simp: conf_canUserModify_def or_else_Inr)
  qed (use Suc.prems(1) ask in \<open>auto simp: m sess_canUserModify_def contrib_canUserModify_def sub_canUserModify_def mat_canUserModify_def
      res_canUserModify_def or_else_Inr\<close>)
qed simp

section \<open>What visits leave alone\<close>

definition acs_only :: "site \<Rightarrow> site \<Rightarrow> bool" where
  "acs_only s t \<longleftrightarrow> (\<exists>A. t = s\<lparr>acs := A\<rparr>)"

lemma acs_only_refl [simp]: "acs_only s s"
  unfolding acs_only_def by (rule exI [of _ "acs s"]) simp

lemma acs_only_upd [keeps_intros]: "keeps (acs_only s) (upd_ac x f)"
  unfolding upd_ac_def by (rule keeps_modify) (auto simp: acs_only_def)

lemma acs_only_fields:
  assumes "acs_only s t"
  shows "kind t = kind s" "parent t = parent s" "in_sess t = in_sess s" "next_node t = next_node s" "modif_key t = modif_key s"
  using assms by (auto simp: acs_only_def)

lemma acs_only_grants [keeps_intros]: "keeps (acs_only s) (grantModification x p)" "keeps (acs_only s) (revokeModificationEmail x m)"
  by (auto simp: grantModification_def revokeModificationEmail_def intro!: keeps_intros)

lemma acs_only_email [keeps_intros]: "keeps (acs_only s) (email_loop ms x a r)"
  by (induction ms arbitrary: r) (auto intro!: keeps_intros)

lemma acs_only_modify_at [keeps_intros]: "keeps (acs_only s) (modify_at n x u)"
  by (induction n arbitrary: x u)
    (auto simp: ctl_canModify_def cat_canUserModify_def conf_canUserModify_def sess_canUserModify_def contrib_canUserModify_def sub_canUserModify_def
      mat_canUserModify_def res_canUserModify_def intro!: keeps_intros)

lemma acs_only_canUserModify: "obj_canUserModify x u s = (r, t) \<Longrightarrow> acs_only s t"
  by (rule keeps_run [of "acs_only s" "obj_canUserModify x u"]) (auto simp: obj_canUserModify_def intro!: keeps_intros)

section \<open>Managers get in\<close>

lemma or_else_True: "m s = (Inr True, t) \<Longrightarrow> or_else m k s = (Inr True, t)"
  by (simp add: or_else_def)

lemma sub_modify_contrib:
  assumes ok: "site_ok s" and x: "kind s x = KSub" "parent s x = Some c" and r: "canModify x w s = (Inr True, t)"
  shows "canModify c w s = (Inr True, t)"
proof -
  have k: "kind s c = KContrib" using pointers_okD(1) [OF site_butD(1) [OF ok] x(2)] x(1) by simp
  obtain d where d: "depth s = Suc d" by (cases "depth s") (simp_all add: depth_def)
  have "obj_canUserModify x u s = (Inr b, v) \<Longrightarrow> obj_canUserModify c u s = (Inr b, v)" for u b v
    using x modify_at_mono [of d c u s b v "Suc d"]
    by (simp add: obj_canUserModify_def d sub_canUserModify_def ask_owner_def need_node_def del: modify_at.simps(2))
      (simp add: sub_canUserModify_def ask_owner_def need_node_def)
  moreover have "event_of v c = event_of v x" "kind v c = KContrib" "kind v x = KSub" if "acs_only s v" for v
    using acs_only_fields [OF that] x k by (simp_all add: event_of_def base_event_def)
  ultimately show ?thesis
    using r acs_only_canUserModify unfolding canModify_def or_else_Inr by (auto simp: need_node_def)
qed

lemma modify_get_in:
  assumes ok: "site_ok s" and x: "in_tree s x" and r: "canModify x w s = (Inr True, t)"
  shows "\<exists>t'. canAccess x w s = (Inr True, t')"
proof (cases "kind s x")
  case KCateg
  have "kind v x = KCateg" if "obj_canUserModify x (aw_user w) s = (Inr b, v)" for b v
    using acs_only_fields(1) [OF acs_only_canUserModify [OF that]] KCateg by simp
  then have "obj_canUserModify x (aw_user w) s = (Inr True, t)" using r unfolding canModify_def or_else_Inr by fastforce
  then show ?thesis using KCateg by (auto simp: canAccess_def cat_canAccess_def isAllowedToCreate_def or_else_Inr if_distribR)
next
  case KSub
  then obtain c where c: "parent s x = Some c" using x by (auto simp: in_tree_def)
  show ?thesis using sub_modify_contrib [OF ok KSub c r] c KSub
    by (auto simp: canAccess_def sub_canAccess_def contrib_canAccess_def need_node_def or_else_Inr if_distribR)
qed (use r in \<open>auto simp: canAccess_def conf_canAccess_def sess_canAccess_def contrib_canAccess_def mat_canAccess_def res_canAccess_def or_else_Inr if_distribR\<close>)

section \<open>Outsiders\<close>

text \<open>Nobody who is not logged in is a manager, nor admitted, unless \<open>None\<close> is among the administrators.\<close>

lemma ctl_nobody:
  assumes ok: "site_ok s" and n: "PNone \<notin> set (admins s)"
  shows "ctl_canModify x None s = (Inr False, s)" "ctl_canUserAccess x None s = (Inr False, s)"
proof -
  have none: "\<not> contains_user s p None" for p by (cases p) auto
  have "\<not> is_admin s None" using n none by (auto simp: is_admin_def split: ac_principal.splits)
  then show "ctl_canModify x None s = (Inr False, s)" "ctl_canUserAccess x None s = (Inr False, s)"
    using none allowed_loop_run [OF grants_okD(1) [OF ok], of x 0 "length (ac_allowed (acs s x))" None]
    by (simp_all add: ctl_canModify_def ctl_canUserAccess_def)
qed

lemma modify_at_nobody:
  assumes ok: "site_ok s" and n: "PNone \<notin> set (admins s)"
  shows "in_tree s x \<Longrightarrow> height s x < k \<Longrightarrow> modify_at k x None s = (Inr False, s)"
proof (induction "height s x" arbitrary: x k rule: less_induct)
  case less
  note po = site_butD(1) [OF ok]
  obtain k' where k: "k = Suc k'" using less.prems by (cases k) auto
  have up: "modify_at k' p None s = (Inr False, s)" if "in_tree s p" "height s p < height s x" for p
    using less.hyps [of p k'] that less.prems k by simp
  note own = ctl_nobody(1) [OF ok n]
  show ?case
  proof (cases "kind s x \<in> {KCateg, KEvent}")
    case True
    have "(case parent s x of None \<Rightarrow> ret False | Some p \<Rightarrow> modify_at k' p None) s = (Inr False, s)"
      using up [OF in_tree_parent(2,3) [OF po _ True]] by (cases "parent s x") simp_all
    then show ?thesis using True own unfolding k by (auto simp: cat_canUserModify_def conf_canUserModify_def or_else_def)
  next
    case False
    obtain p where p: "owner s x = Some p" "kind s x \<noteq> KContrib \<longrightarrow> parent s x = Some p" "in_tree s p" "height s p < height s x"
      by (rule in_tree_owner [OF po less.prems(1) False])
    show ?thesis using False own up [OF p(3,4)] p(1,2) unfolding k
      by (cases "kind s x") (auto simp: sess_canUserModify_def contrib_canUserModify_def sub_canUserModify_def mat_canUserModify_def
          res_canUserModify_def ask_owner_def need_node_def or_else_def)
  qed
qed

lemma canUserModify_nobody: "site_ok s \<Longrightarrow> PNone \<notin> set (admins s) \<Longrightarrow> in_tree s x \<Longrightarrow> obj_canUserModify x None s = (Inr False, s)"
  using modify_at_nobody [OF _ _ _ depth_enough] by (simp add: obj_canUserModify_def)

lemma allowed_at_nobody:
  assumes ok: "site_ok s" and n: "PNone \<notin> set (admins s)"
  shows "in_tree s x \<Longrightarrow> height s x < k \<Longrightarrow> allowed_at k x None s = (Inr False, s)"
proof (induction "height s x" arbitrary: x k rule: less_induct)
  case less
  note po = site_butD(1) [OF ok]
  obtain k' where k: "k = Suc k'" using less.prems by (cases k) auto
  have up: "allowed_at k' p None s = (Inr False, s)" if "in_tree s p" "height s p < height s x" for p
    using less.hyps [of p k'] that less.prems k by simp
  note own = ctl_nobody(2) [OF ok n] canUserModify_nobody [OF ok n less.prems(1)]
  show ?case
  proof (cases "kind s x \<in> {KCateg, KEvent}")
    case True
    have "(case parent s x of None \<Rightarrow> ret False | Some p \<Rightarrow> allowed_at k' p None) s = (Inr False, s)"
      using up [OF in_tree_parent(2,3) [OF po _ True]] by (cases "parent s x") simp_all
    then show ?thesis using True own unfolding k by (auto simp: cat_isAllowed_def conf_isAllowed_def or_else_def)
  next
    case False
    obtain p where p: "owner s x = Some p" "kind s x \<noteq> KContrib \<longrightarrow> parent s x = Some p" "in_tree s p" "height s p < height s x"
      by (rule in_tree_owner [OF po less.prems(1) False])
    show ?thesis using False own up [OF p(3,4)] p(1,2) unfolding k
      by (cases "kind s x") (auto simp: sess_isAllowed_def contrib_isAllowed_def sub_isAllowed_def mat_isAllowed_def
          res_isAllowed_def ask_owner_def need_node_def or_else_def)
  qed
qed

text \<open>A visitor nothing up the tree speaks for.\<close>

definition outsider :: "site \<Rightarrow> nat option \<Rightarrow> nat \<Rightarrow> bool" where
  "outsider s u x \<longleftrightarrow> (case u of None \<Rightarrow> PNone \<notin> set (admins s)
     | Some a \<Rightarrow> settled s a \<and> \<not> may_modify s a x \<and> \<not> may_access s a x)"

lemma outsider_run:
  assumes ok: "site_ok s" and x: "in_tree s x" and u: "outsider s u x"
  shows "obj_canUserModify x u s = (Inr False, s)" "obj_isAllowedToAccess x u s = (Inr False, s)"
proof -
  show "obj_canUserModify x u s = (Inr False, s)"
    using u obj_canUserModify_run [OF site_butD(1) [OF ok] _ x] canUserModify_nobody [OF ok _ x]
    by (cases u) (simp_all add: outsider_def)
  show "obj_isAllowedToAccess x u s = (Inr False, s)"
    using u obj_isAllowedToAccess_run [OF ok _ x] allowed_at_nobody [OF ok _ x depth_enough]
    by (cases u) (simp_all add: outsider_def obj_isAllowedToAccess_def)
qed

definition no_keys :: "wrapper \<Rightarrow> bool" where
  "no_keys w \<longleftrightarrow> (\<forall>x. aw_keys w x = None \<and> aw_modif w x = None)"

lemma no_keys_simps:
  assumes "no_keys w"
  shows "\<not> canKeyModify s e w" "\<not> conf_canKeyAccess s e w None" "\<not> mat_canKeyAccess s m w"
    "parent s x \<noteq> None \<Longrightarrow> kind s x = KRes \<Longrightarrow> res_canKeyAccess x w s = (Inr False, s)"
  using assms by (auto simp: no_keys_def canKeyModify_def conf_canKeyAccess_def mat_canKeyAccess_def res_canKeyAccess_def
      need_node_def owner_def split: option.splits)

lemma event_in_tree:
  assumes po: "pointers_ok s" and x: "in_tree s x" "kind s x \<in> {KEvent, KSession, KContrib, KSub}"
  shows "event_of s x \<noteq> None"
proof -
  have "parent s p \<noteq> None" if "kind s x = KSub" "parent s x = Some p" for p
    using pointers_okD(1,5) [OF po that(2)] that(1) by auto
  then show ?thesis using x by (auto simp: event_of_def base_event_def in_tree_def)
qed

lemma outsider_canModify:
  assumes ok: "site_ok s" and x: "in_tree s x" and u: "outsider s (aw_user w) x" "no_keys w"
  shows "canModify x w s = (Inr False, s)"
  using outsider_run(1) [OF ok x u(1)] no_keys_simps(1) [OF u(2)] event_in_tree [OF site_butD(1) [OF ok] x]
  by (cases "kind s x") (auto simp: canModify_def or_else_def need_node_def split: option.splits)

lemma outsider_contrib:
  assumes ok: "site_ok s" and x: "in_tree s x" "isProtected s x" "kind s x = KContrib"
    and u: "outsider s (aw_user w) x" "no_keys w" "aw_ip w \<notin> set (harvesters s)"
  shows "contrib_canAccess x w s = (Inr False, s)"
proof -
  have "parent s x \<noteq> None" using x(1,3) by (simp add: in_tree_def)
  then show ?thesis
    using x outsider_canModify [OF ok x(1) u(1,2)] outsider_run(2) [OF ok x(1) u(1)] u(3) no_keys_simps(2) [OF u(2)]
    by (cases "canIPAccess s x (aw_ip w)") (auto simp: contrib_canAccess_def or_else_def need_node_def if_distribR)
qed

definition may_create :: "site \<Rightarrow> nat option \<Rightarrow> nat \<Rightarrow> bool" where
  "may_create s u x \<longleftrightarrow> (\<exists>p \<in> set (creators s x). contains_user s p u \<or> p = PNone \<and> u = None)"

lemma outsider_refused:
  assumes ok: "site_ok s" and x: "in_tree s x" "isProtected s x"
    and u: "outsider s (aw_user w) x" "no_keys w" "aw_ip w \<notin> set (harvesters s)" "\<not> plugin_admin s (aw_user w)"
      "kind s x = KCateg \<Longrightarrow> \<not> may_create s (aw_user w) x"
  shows "canAccess x w s = (Inr False, s)"
proof -
  note run = outsider_canModify [OF ok x(1) u(1,2)] outsider_run [OF ok x(1) u(1)] no_keys_simps [OF u(2)]
  show ?thesis
  proof (cases "kind s x")
    case KCateg
    have "\<not> ((case aw_user w of None \<Rightarrow> PNone \<in> set (creators s x) | Some a \<Rightarrow> PAv a \<in> set (creators s x)) \<or>
          (\<exists>p \<in> set (creators s x). case p of PGroup g \<Rightarrow> contains_user s p (aw_user w) | _ \<Rightarrow> False))"
      using u(5) [OF KCateg] unfolding may_create_def by (fastforce split: option.splits ac_principal.splits)
    then have "isAllowedToCreate x (aw_user w) s = (Inr False, s)" using run(2) by (simp add: isAllowedToCreate_def or_else_def)
    moreover have "hasAnyProtection s x" proof -
      obtain d where "depth s = Suc d" by (cases "depth s") (simp_all add: depth_def)
      then show ?thesis using x(2) by (simp add: hasAnyProtection_def KCateg)
    qed
    ultimately show ?thesis using KCateg x(2) run by (simp add: canAccess_def cat_canAccess_def or_else_def)
  next
    case KSub
    obtain c where c: "parent s x = Some c" "owner s x = Some c" using x(1) KSub by (auto simp: in_tree_def owner_def)
    have k: "kind s c = KContrib" "parent s c \<noteq> None" using pointers_okD(1,5) [OF site_butD(1) [OF ok] c(1)] KSub by auto
    have "isProtected s c" using isProtected_step [OF site_butD(1) [OF ok], of x] KSub c x(2) by (simp add: Let_def)
    moreover have "outsider s (aw_user w) c"
      using u(1) may_modify_step [of s _ x] may_access_step [of s _ x] KSub c
      by (cases "aw_user w") (auto simp: outsider_def)
    ultimately have "contrib_canAccess c w s = (Inr False, s)"
      using k u by (intro outsider_contrib [OF ok]) (simp_all add: in_tree_def)
    then show ?thesis using KSub c by (simp add: canAccess_def sub_canAccess_def need_node_def)
  next
    case KContrib
    then show ?thesis using outsider_contrib [OF ok x(1,2) KContrib u(1-3)] by (simp add: canAccess_def)
  next
    case KEvent
    then show ?thesis using run u(3) x(2) by (auto simp: canAccess_def conf_canAccess_def or_else_def if_distribR)
  next
    case KSession
    then have "parent s x \<noteq> None" using x(1) by (simp add: in_tree_def)
    then show ?thesis using KSession run u(3) x(2)
      by (cases "canIPAccess s x (aw_ip w)") (auto simp: canAccess_def sess_canAccess_def or_else_def need_node_def if_distribR)
  next
    case (KMat k)
    then show ?thesis using run u(3,4) x(2) by (auto simp: canAccess_def mat_canAccess_def or_else_def if_distribR)
  next
    case KRes
    then have p: "parent s x \<noteq> None" using x(1) by (simp add: in_tree_def)
    then have "owner s x \<noteq> None" using KRes by (simp add: owner_def)
    then show ?thesis using KRes run u(3,4) x(2) run(7) [OF p KRes]
      by (cases "canIPAccess s x (aw_ip w)")
        (auto simp: canAccess_def res_canAccess_def or_else_def need_node_def if_distribR split: option.splits)
  qed
qed

section \<open>Invitations\<close>

lemma email_loop_effect:
  "distinct (ac_managersEmail (acs s x)) \<Longrightarrow>
   \<exists>t. email_loop ms x a r s = (Inr (r \<or> (\<exists>m \<in> set ms. m \<in> set (ac_managersEmail (acs s x)))), t) \<and>
     set (ac_managersEmail (acs t x)) = set (ac_managersEmail (acs s x)) - set ms \<and>
     set (ac_managers (acs t x)) = set (ac_managers (acs s x)) \<union> (if \<exists>m \<in> set ms. m \<in> set (ac_managersEmail (acs s x)) then {PAv a} else {}) \<and>
     (\<forall>y. y \<noteq> x \<longrightarrow> acs t y = acs s y)"
proof (induction ms arbitrary: r s)
  case (Cons m ms)
  show ?case
  proof (cases "m \<in> set (ac_managersEmail (acs s x))")
    case False
    then show ?thesis using Cons.IH [OF Cons.prems, of r] by auto
  next
    case True
    define f where "f = (\<lambda>c :: acl. c\<lparr>ac_managers := (if PAv a \<in> set (ac_managers c) then ac_managers c else ac_managers c @ [PAv a]),
        ac_managersEmail := remove1 m (ac_managersEmail c)\<rparr>)"
    define u where "u = s\<lparr>acs := (acs s)(x := f (acs s x))\<rparr>"
    have run: "email_loop (m # ms) x a r s = email_loop ms x a True u"
      using True by (simp add: grantModification_def revokeModificationEmail_def upd_ac_def is_principal_def u_def f_def)
    have u: "ac_managersEmail (acs u x) = remove1 m (ac_managersEmail (acs s x))"
      "set (ac_managers (acs u x)) = insert (PAv a) (set (ac_managers (acs s x)))" "y \<noteq> x \<Longrightarrow> acs u y = acs s y" for y
      by (auto simp: u_def f_def)
    have "distinct (ac_managersEmail (acs u x))" using Cons.prems by (simp add: u)
    from Cons.IH [OF this, of True] obtain t where t: "email_loop ms x a True u = (Inr True, t)"
      "set (ac_managersEmail (acs t x)) = set (ac_managersEmail (acs u x)) - set ms"
      "set (ac_managers (acs t x)) = set (ac_managers (acs u x)) \<union> (if \<exists>m \<in> set ms. m \<in> set (ac_managersEmail (acs u x)) then {PAv a} else {})"
      "\<forall>y. y \<noteq> x \<longrightarrow> acs t y = acs u y" by auto
    have "set (ac_managersEmail (acs t x)) = set (ac_managersEmail (acs s x)) - set (m # ms)"
      using t(2) Cons.prems by (auto simp: u)
    moreover have "set (ac_managers (acs t x)) = insert (PAv a) (set (ac_managers (acs s x)))"
      using t(3) by (auto simp: u)
    ultimately show ?thesis using True run t(1,4) by (auto simp: u)
  qed
qed simp

end
