(* ===== verification/AC_Props.thy ===== *)
theory AC_Props
  imports AC_Visit
begin

text \<open>The properties of access control, with a small site they are tried on.\<close>

section \<open>A small site\<close>

text \<open>
  The category 0 has the event 1 of user 7, restricted, with the session 2, the contribution 3 of the session, which is
  public, and its material 4, restricted.  User 8 may see the event, user 9 is invited to manage the session.
\<close>

definition site1 :: site where
  "site1 = new_site\<lparr>kind := (\<lambda>_. KCateg)(1 := KEvent), parent := (\<lambda>_. None)(1 := Some 0), events := (\<lambda>_. [])(0 := [1]),
     creator := (\<lambda>_. None)(1 := Some 7), next_node := 2\<rparr>"

definition site2 :: site where
  "site2 = site1\<lparr>kind := (kind site1)(2 := KSession), parent := (parent site1)(2 := Some 1), sess := (sess site1)(1 := [2]), next_node := 3\<rparr>"

definition site3 :: site where
  "site3 = site2\<lparr>kind := (kind site2)(3 := KContrib), parent := (parent site2)(3 := Some 1), in_sess := (in_sess site2)(3 := Some 2),
     conts := (conts site2)(1 := [3], 2 := [3]), next_node := 4\<rparr>"

definition site4 :: site where
  "site4 = site3\<lparr>acs := (acs site3)(1 := new_acl\<lparr>ac_level := 1\<rparr>)\<rparr>"

definition site5 :: site where
  "site5 = site4\<lparr>acs := (acs site4)(1 := new_acl\<lparr>ac_level := 1, ac_nonInh := [3]\<rparr>, 2 := new_acl\<lparr>ac_nonInh := [3]\<rparr>, 3 := new_acl\<lparr>ac_level := -1\<rparr>)\<rparr>"

definition site6 :: site where
  "site6 = site5\<lparr>kind := (kind site5)(4 := KMat Plain), parent := (parent site5)(4 := Some 3), mats := (mats site5)(3 := [4]), next_node := 5\<rparr>"

definition site7 :: site where
  "site7 = site6\<lparr>acs := (acs site6)(1 := new_acl\<lparr>ac_level := 1, ac_nonInh := [4, 3]\<rparr>, 2 := new_acl\<lparr>ac_nonInh := [4, 3]\<rparr>,
     3 := new_acl\<lparr>ac_level := -1, ac_nonInh := [4]\<rparr>, 4 := new_acl\<lparr>ac_level := 1\<rparr>)\<rparr>"

definition ac_sample :: site where
  "ac_sample = site7\<lparr>acs := (acs site7)(1 := new_acl\<lparr>ac_level := 1, ac_allowed := [PAv 8], ac_nonInh := [4, 3]\<rparr>,
       2 := new_acl\<lparr>ac_managersEmail := [''nine''], ac_nonInh := [4, 3]\<rparr>),
     mails := (\<lambda>_. [])(8 := [''eight''], 9 := [''nine''])\<rparr>"

lemmas site_defs = site1_def site2_def site3_def site4_def site5_def site6_def site7_def ac_sample_def new_site_def
lemmas site_runs = ac_request_state_def placed_as_def need_node_def upd_ac_def new_node_def Let_def if_distribR when_do_def
  newConference_def addConference_def new_session_def add_newContribution_def setSession_def session_addContribution_def has_contribution_def
  session_update_def conf_update_def ctl_update_def level_def controller_def owner_def
  setProtection_def conf_setProtection_def contrib_setProtection_def mat_setProtection_def ctl_setProtection_def upper_update_def lower_update_def
  contrib_update_def addMaterial_def grantAccess_def grantModificationEmail_def is_principal_def List.insert_def new_acl_def

lemma step1: "ac_request_state (NewEvent 0 7) new_site = site1"
  by (simp add: site_runs site_defs fun_eq_iff)
lemma step2: "ac_request_state (NewSession 1) site1 = site2"
  by (simp add: site_runs site_defs fun_eq_iff)
lemma step3: "ac_request_state (NewContribution 1 (Some 2)) site2 = site3"
  by (simp add: site_runs site_defs fun_eq_iff)
lemma step4: "ac_request_state (SetProtection 1 1) site3 = site4"
  by (simp add: site_runs site_defs fun_eq_iff)
lemma step5: "ac_request_state (SetProtection 3 (-1)) site4 = site5"
  by (simp add: site_runs site_defs fun_eq_iff)
lemma step6: "ac_request_state (AddMaterial 3 Plain) site5 = site6"
  by (simp add: site_runs site_defs fun_eq_iff)
lemma step7: "ac_request_state (SetProtection 4 1) site6 = site7"
  by (simp add: site_runs site_defs fun_eq_iff)

lemma step8: "ac_request_state (InviteManager 2 ''nine'') (ac_request_state (GrantAccess 1 (PAv 8)) site7) = ac_sample\<lparr>mails := \<lambda>_. []\<rparr>"
  by (simp add: site_runs site_defs fun_eq_iff)

lemma ac_sample_reach: "ac_reach ac_sample"
proof -
  have "ac_reach site7"
    using ac_reach.start step1 step2 step3 step4 step5 step6 step7 ac_reach.request by metis
  then have "ac_reach (ac_sample\<lparr>mails := \<lambda>_. []\<rparr>)" unfolding step8 [symmetric] by (intro ac_reach.request)
  then show ?thesis by (rule ac_reach.outside) (simp add: same_tree_def)
qed

lemma sample_tables:
  "kind ac_sample = (\<lambda>_. KCateg)(1 := KEvent, 2 := KSession, 3 := KContrib, 4 := KMat Plain)"
  "parent ac_sample = (\<lambda>_. None)(1 := Some 0, 2 := Some 1, 3 := Some 1, 4 := Some 3)"
  "in_sess ac_sample = (\<lambda>_. None)(3 := Some 2)" "sess ac_sample = (\<lambda>_. [])(1 := [2])"
  "mails ac_sample = (\<lambda>_. [])(8 := [''eight''], 9 := [''nine''])" "creator ac_sample = (\<lambda>_. None)(1 := Some 7)" "admins ac_sample = []"
  by (simp_all add: site_defs fun_eq_iff)

lemma sample_acs: "acs ac_sample = (\<lambda>_. new_acl)(1 := new_acl\<lparr>ac_level := 1, ac_allowed := [PAv 8], ac_nonInh := [4, 3]\<rparr>,
    2 := new_acl\<lparr>ac_managersEmail := [''nine''], ac_nonInh := [4, 3]\<rparr>, 3 := new_acl\<lparr>ac_level := -1, ac_nonInh := [4]\<rparr>,
    4 := new_acl\<lparr>ac_level := 1\<rparr>)"
  unfolding ac_sample_def site7_def site6_def site5_def site4_def site3_def site2_def site1_def new_site_def by (simp add: fun_eq_iff)

lemmas sample_simps = sample_tables sample_acs new_acl_def

lemma sample_kinds [simp]:
  "kind ac_sample (Suc 0) = KEvent" "kind ac_sample 2 = KSession" "kind ac_sample 3 = KContrib" "kind ac_sample 4 = KMat Plain"
  by (simp_all add: sample_tables)

lemma sample_parents [simp]:
  "parent ac_sample (Suc 0) = Some 0" "parent ac_sample 2 = Some (Suc 0)" "parent ac_sample 3 = Some (Suc 0)" "parent ac_sample 4 = Some 3"
  "in_sess ac_sample 3 = Some 2"
  by (simp_all add: sample_tables)

lemma sample_acls [simp]:
  "acs ac_sample (Suc 0) = new_acl\<lparr>ac_level := 1, ac_allowed := [PAv 8], ac_nonInh := [4, 3]\<rparr>"
  "acs ac_sample 2 = new_acl\<lparr>ac_managersEmail := [''nine''], ac_nonInh := [4, 3]\<rparr>"
  "acs ac_sample 3 = new_acl\<lparr>ac_level := -1, ac_nonInh := [4]\<rparr>" "acs ac_sample 4 = new_acl\<lparr>ac_level := 1\<rparr>"
  by (simp_all add: sample_acs)

lemma sample_settled: "settled ac_sample 7" "settled ac_sample 8"
  by (simp_all add: settled_def sample_simps)

lemma sample_owners [simp]:
  "owner ac_sample (Suc 0) = Some 0" "owner ac_sample 2 = Some (Suc 0)" "owner ac_sample 3 = Some 2" "owner ac_sample 4 = Some 3"
  by (simp_all add: owner_def)

lemma sample_levels [simp]:
  "level ac_sample (Suc 0) = 1" "level ac_sample 2 = 0" "level ac_sample 3 = -1" "level ac_sample 4 = 1"
  by (simp_all add: level_def controller_def new_acl_def)

lemma sample_in_tree [simp]: "in_tree ac_sample (Suc 0)" "in_tree ac_sample 2" "in_tree ac_sample 3" "in_tree ac_sample 4"
  by (simp_all add: in_tree_def)

lemma sample_rights:
  "may_modify ac_sample 7 (Suc 0)" "may_modify ac_sample 7 2" "may_modify ac_sample 7 3" "may_modify ac_sample 7 4"
  "may_access ac_sample 8 (Suc 0)" "may_access ac_sample 8 2"
proof -
  show m1: "may_modify ac_sample 7 (Suc 0)" by (simp add: may_modify_step [of _ _ "Suc 0"] directly_manages_def sample_tables)
  show m2: "may_modify ac_sample 7 2" using m1 by (simp add: may_modify_step [of _ _ 2])
  show m3: "may_modify ac_sample 7 3" using m2 by (simp add: may_modify_step [of _ _ 3])
  show "may_modify ac_sample 7 4" using m3 by (simp add: may_modify_step [of _ _ 4])
  show a1: "may_access ac_sample 8 (Suc 0)" by (simp add: may_access_step [of _ _ "Suc 0"] admits_def listed_def)
  show "may_access ac_sample 8 2" using a1 by (simp add: may_access_step [of _ _ 2])
qed

definition visitor :: "nat \<Rightarrow> wrapper" where
  "visitor a = \<lparr>aw_user = Some a, aw_ip = ''10.0.0.1'', aw_keys = (\<lambda>_. None), aw_modif = (\<lambda>_. None)\<rparr>"

section \<open>Protection\<close>

text \<open>C12.  In every reachable site an object is protected exactly when the nearest object on the way up its owners that does
  not inherit, itself included, is restricted: adding the levels up the tree comes to this.\<close>

theorem protection_of_nearest:
  assumes "ac_reach s" "in_tree s x"
  shows "isProtected s x \<longleftrightarrow> (\<exists>y. governed s x y \<and> level s y = 1)"
  by (rule protected_governed [OF ac_reach_ok [OF assms(1)]]) (use assms(2) in \<open>auto simp: in_tree_def\<close>)

theorem protection_of_nearest_witness: "isProtected ac_sample 2 \<and> governed ac_sample 2 1"
proof -
  have g: "governed ac_sample 2 1"
    by (rule governed.inherited [of _ _ 1]; (rule governed.own)?) simp_all
  moreover have "level ac_sample 1 = 1" "in_tree ac_sample 2" by simp_all
  ultimately show ?thesis using protection_of_nearest [OF ac_sample_reach, of 2] by blast
qed

text \<open>C6.  In every reachable site the set of an object inside an event holds exactly the objects somewhere below it
  that do not inherit their protection, subcontributions and resources of reviewing materials apart: every change of a
  level, every new, moved and deleted object reaches all the sets above it.\<close>

theorem children_that_differ:
  assumes "ac_reach s" "keeps_set s y"
  shows "x \<in> set (ac_nonInh (acs s y)) \<longleftrightarrow> level s x \<noteq> 0 \<and> reports s x \<and> under s x y"
  by (rule nonInh_iff [OF ac_reach_ok [OF assms(1)] assms(2)])

lemma sample_keeps_set: "keeps_set ac_sample 2" "keeps_set ac_sample 3"
  by (simp_all add: keeps_set_def event_of_def base_event_def sample_simps)

theorem children_that_differ_witness: "ac_nonInh (acs ac_sample 2) = [4, 3] \<and> level ac_sample 4 \<noteq> 0 \<and> under ac_sample 4 2"
proof -
  have "ac_nonInh (acs ac_sample 2) = [4, 3]" by (simp add: sample_simps)
  then show ?thesis using children_that_differ [OF ac_sample_reach sample_keeps_set(1), of 4] by simp
qed

text \<open>C8.  In every reachable site, for an event, a session, a contribution or a material in an event, \<open>isFullyPublic\<close>, which
  looks at one set only, tells whether the object and everything below it that reports is open, and \<open>isFullyPrivate\<close> whether
  all of it is protected.  Subcontributions do not report, they are protected as their contribution is; the resources of a
  reviewing material do not report either, and the answers overlook them.\<close>

theorem fully_public_or_private:
  assumes "ac_reach s" "keeps_set s y"
  shows "(isFullyPublic s y \<longleftrightarrow> \<not> isProtected s y \<and> (\<forall>x. under s x y \<and> reports s x \<longrightarrow> \<not> isProtected s x)) \<and>
     (isFullyPrivate s y \<longleftrightarrow> isProtected s y \<and> (\<forall>x. under s x y \<and> reports s x \<longrightarrow> isProtected s x))"
  using fully_iff [OF ac_reach_ok [OF assms(1)] assms(2), of False] fully_iff [OF ac_reach_ok [OF assms(1)] assms(2), of True]
  by (simp add: isFullyPublic_def isFullyPrivate_def)

theorem fully_public_or_private_witness:
  "\<not> isProtected ac_sample 3 \<and> \<not> isFullyPublic ac_sample 3 \<and> (\<exists>x. under ac_sample x 3 \<and> reports ac_sample x \<and> isProtected ac_sample x)"
proof -
  have l: "level ac_sample 3 = -1" "level ac_sample 4 = 1" by simp_all
  have n: "4 \<in> set (ac_nonInh (acs ac_sample 3))" by (simp add: sample_simps)
  have "\<not> isProtected ac_sample 3" by (rule isProtected_cases(2) [OF ac_reach_ok [OF ac_sample_reach] _ l(1)]) simp
  moreover have "\<not> isFullyPublic ac_sample 3" using l(2) n unfolding isFullyPublic_def isFullyAccess_def by fastforce
  ultimately show ?thesis using fully_public_or_private [OF ac_sample_reach sample_keeps_set(2)] by blast
qed

section \<open>Rights\<close>

text \<open>C7.  What the recursion over the classes comes to, for a user no invitation waits for: he may change an object exactly
  when a contribution, a session, an event or a category on the way up, the object itself included, lists him as its manager, or
  he created the event; those whom a material or a resource lists as its managers are not asked.  And he may see the object
  exactly when an object up to the nearest restricted one admits him.  Neither question changes the site or fails.\<close>

theorem rights_reference:
  assumes "ac_reach s" "settled s a" "in_tree s x"
  shows "obj_canUserModify x (Some a) s = (Inr (may_modify s a x), s) \<and> obj_isAllowedToAccess x (Some a) s = (Inr (may_access s a x), s)"
  using obj_canUserModify_run [OF site_butD(1) [OF ac_reach_ok [OF assms(1)]] assms(2,3)]
    obj_isAllowedToAccess_run [OF ac_reach_ok [OF assms(1)] assms(2,3)] by simp

theorem rights_reference_witness:
  "obj_canUserModify 4 (Some 7) ac_sample = (Inr True, ac_sample) \<and> obj_isAllowedToAccess 2 (Some 8) ac_sample = (Inr True, ac_sample)"
proof -
  have t: "in_tree ac_sample 4" "in_tree ac_sample 2" by simp_all
  show ?thesis
    using rights_reference [OF ac_sample_reach sample_settled(1) t(1)] rights_reference [OF ac_sample_reach sample_settled(2) t(2)] sample_rights
    by simp
qed

text \<open>C13.  Who may change an object, as a manager or with the modification key of the event, gets in to see it, whatever its class,
  its protection and its domains.\<close>

theorem managers_get_in:
  assumes "ac_reach s" "in_tree s x" "canModify x w s = (Inr True, t)"
  shows "\<exists>t'. canAccess x w s = (Inr True, t')"
  by (rule modify_get_in [OF ac_reach_ok [OF assms(1)] assms(2,3)])

theorem managers_get_in_witness: "\<exists>t. canAccess 2 (visitor 7) ac_sample = (Inr True, t)"
proof -
  have t: "in_tree ac_sample 2" by simp
  have "canModify 2 (visitor 7) ac_sample = (Inr True, ac_sample)"
    using obj_canUserModify_run [OF site_butD(1) [OF ac_reach_ok [OF ac_sample_reach]] sample_settled(1) t] sample_rights
    by (simp add: canModify_def visitor_def or_else_def)
  with managers_get_in [OF ac_sample_reach t] show ?thesis by blast
qed

text \<open>C39.  Of a protected object, of any class, an outsider sees nothing, and his visit changes nothing: somebody not logged in
  (unless \<open>None\<close> is an administrator), or a user no invitation waits for who may neither change nor see the object by
  \<open>rights_reference\<close>; without keys in his web session, not from the address of a harvester, not an administrator of plugins,
  and, for a category, not among those who may create events in it.\<close>

theorem outsiders_stay_out:
  assumes "ac_reach s" "in_tree s x" "isProtected s x" "outsider s (aw_user w) x" "no_keys w"
    and "aw_ip w \<notin> set (harvesters s)" "\<not> plugin_admin s (aw_user w)" "kind s x = KCateg \<Longrightarrow> \<not> may_create s (aw_user w) x"
  shows "canAccess x w s = (Inr False, s)"
  by (rule outsider_refused [OF ac_reach_ok [OF assms(1)]]) (use assms(2-) in auto)

text \<open>Somebody not logged in is kept out of the session of the sample, which inherits the restriction of its event.\<close>

theorem outsiders_stay_out_witness:
  "canAccess 2 \<lparr>aw_user = None, aw_ip = ''10.0.0.1'', aw_keys = (\<lambda>_. None), aw_modif = (\<lambda>_. None)\<rparr> ac_sample = (Inr False, ac_sample)"
proof -
  have l: "level ac_sample 1 = 1" "level ac_sample 2 = 0" by simp_all
  have "isProtected ac_sample 1" by (rule isProtected_cases(1) [OF ac_reach_ok [OF ac_sample_reach] _ l(1)]) simp
  then have "isProtected ac_sample 2" using isProtected_cases(3) [OF ac_reach_ok [OF ac_sample_reach] _ l(2)] by simp
  moreover have "harvesters ac_sample = []" "plugin_admin ac_sample = (\<lambda>_. False)" by (simp_all add: site_defs)
  ultimately show ?thesis
    by (intro outsiders_stay_out [OF ac_sample_reach]) (simp_all add: outsider_def no_keys_def sample_tables)
qed

section \<open>People known by mail\<close>

text \<open>C40.  A user whose address is among the invited managers of an object becomes a manager when he first asks: the answer is
  yes, he joins the managers, all his addresses are taken from the invitations, and no other object changes.\<close>

theorem invited_manager:
  assumes "distinct (ac_managersEmail (acs s x))" "m \<in> set (mails s a)" "m \<in> set (ac_managersEmail (acs s x))"
    and "\<not> listed s a (ac_managers (acs s x))"
  shows "\<exists>t. ctl_canModify x (Some a) s = (Inr True, t) \<and> set (ac_managers (acs t x)) = insert (PAv a) (set (ac_managers (acs s x))) \<and>
     set (ac_managersEmail (acs t x)) = set (ac_managersEmail (acs s x)) - set (mails s a) \<and> (\<forall>y. y \<noteq> x \<longrightarrow> acs t y = acs s y)"
proof -
  have "ctl_canModify x (Some a) s = email_loop (mails s a) x a False s"
    using assms(4) by (auto simp: ctl_canModify_def listed_def)
  moreover have some: "\<exists>m \<in> set (mails s a). m \<in> set (ac_managersEmail (acs s x))" using assms(2,3) by blast
  ultimately show ?thesis using email_loop_effect [OF assms(1), of "mails s a" a False] by auto
qed

theorem invited_manager_witness: "\<exists>t. ctl_canModify 2 (Some 9) ac_sample = (Inr True, t) \<and> set (ac_managers (acs t 2)) = {PAv 9}"
proof -
  have "ac_managersEmail (acs ac_sample 2) = [''nine'']" "mails ac_sample 9 = [''nine'']" "ac_managers (acs ac_sample 2) = []"
    "\<not> listed ac_sample 9 []"
    by (simp_all add: sample_simps listed_def is_admin_def)
  then show ?thesis using invited_manager [of ac_sample 2 "''nine''" 9] by auto
qed

section \<open>Deleting\<close>

definition detached :: "site \<Rightarrow> nat \<Rightarrow> bool" where
  "detached s x \<longleftrightarrow> parent s x = None \<and> \<not> above s x \<and> (\<forall>y. x \<notin> set (ac_nonInh (acs s y)) \<and> x \<notin> set (mats s y) \<and>
     x \<notin> set (ress s y) \<and> x \<notin> set (subs s y) \<and> x \<notin> set (conts s y) \<and> x \<notin> set (sess s y))"

lemma site_detached:
  assumes ok: "site_ok s" and x: "parent s x = None" "kind s x \<notin> {KCateg, KEvent}"
  shows "detached s x"
proof -
  note parts = site_butD [OF ok]
  have i: "in_sess s x = None" using x(1) pointers_okD(8) [OF parts(1), of x] by (cases "in_sess s x") auto
  have "\<not> above s x"
    using pointers_okD(5) [OF parts(1) _ x(2)] pointers_okD(8,9) [OF parts(1), of _ x] x(1) by (auto simp: above_def)
  moreover have "watchers s x = []"
    using x(1) i by (cases "kind s x") (simp_all add: watchers_def owner_def watch_up_def watch_low_def)
  ultimately show ?thesis using x(1) i sets_butD [OF parts(3), of x] unfolding detached_def lists_butD(1-5) [OF parts(2)] by simp
qed

lemma gone_by_frame:
  assumes "\<exists>t. f s = (Inr (), t) \<and> site_ok t \<and> frame n s t \<and> parent t x = None" "kind s x \<notin> {KCateg, KEvent}"
  shows "\<exists>t. f s = (Inr (), t) \<and> detached t x"
proof -
  obtain t where t: "f s = (Inr (), t)" "site_ok t" "frame n s t" "parent t x = None" using assms(1) by blast
  have "detached t x" by (rule site_detached [OF t(2,4)]) (use assms(2) frameD(1) [OF t(3)] in simp)
  with t(1) show ?thesis by blast
qed

text \<open>C14.  In every reachable site deleting a resource, a material, a subcontribution, a contribution or a session, with
  everything below it, returns; afterwards nothing is below the object and no list and no set mentions it.\<close>

theorem deleted_is_gone:
  assumes "ac_reach s"
  shows "(r \<in> set (ress s m) \<longrightarrow> (\<exists>t. removeResource m r s = (Inr (), t) \<and> detached t r)) \<and>
    (m \<in> set (mats s y) \<longrightarrow> (\<exists>t. removeMaterial y m s = (Inr (), t) \<and> detached t m)) \<and>
    (z \<in> set (subs s c) \<longrightarrow> (\<exists>t. removeSubContribution c z s = (Inr (), t) \<and> detached t z)) \<and>
    (kind s c = KContrib \<longrightarrow> (\<exists>t. contribution_delete c s = (Inr (), t) \<and> detached t c)) \<and>
    (i \<in> set (sess s e) \<longrightarrow> (\<exists>t. removeSession e i d s = (Inr (), t) \<and> detached t i))"
proof (intro conjI impI)
  note ok = ac_reach_ok [OF assms]
  note lists = lists_butD [OF site_butD(2) [OF ok]]
  show "\<exists>t. removeResource m r s = (Inr (), t) \<and> detached t r" if "r \<in> set (ress s m)"
    by (rule gone_by_frame, rule removeResource_ok [OF ok]) (use that lists(2) in auto)
  show "\<exists>t. removeMaterial y m s = (Inr (), t) \<and> detached t m" if "m \<in> set (mats s y)"
    by (rule gone_by_frame, rule removeMaterial_ok [OF ok]) (use that lists(1) in auto)
  show "\<exists>t. removeSubContribution c z s = (Inr (), t) \<and> detached t z" if "z \<in> set (subs s c)"
    by (rule gone_by_frame, rule removeSubContribution_ok [OF ok]) (use that lists(3) in auto)
  show "\<exists>t. contribution_delete c s = (Inr (), t) \<and> detached t c" if "kind s c = KContrib"
    by (rule gone_by_frame, rule contribution_delete_ok [OF ok]) (use that in auto)
  show "\<exists>t. removeSession e i d s = (Inr (), t) \<and> detached t i" if "i \<in> set (sess s e)"
    using removeSession_ok [OF ok, of e i d] that lists(5) site_detached by (metis nkind.distinct(3,13) empty_iff insert_iff)
qed

theorem deleted_is_gone_witness: "\<exists>t. removeSession 1 2 True ac_sample = (Inr (), t) \<and> detached t 2"
proof -
  have "2 \<in> set (sess ac_sample 1)" by (simp add: sample_simps)
  with deleted_is_gone [OF ac_sample_reach] show ?thesis by blast
qed

end
